(* ===== verification/Prelude.thy ===== *)
theory Prelude
  imports Complex_Main "HOL-Library.AList" "HOL-Library.Multiset" "HOL-Library.Char_ord"
    "HOL-Library.List_Lexorder" "HOL-Library.While_Combinator"
begin

text \<open>
  Shared vocabulary of the development: how the JavaScript values the frontend computes with
  are represented, the container operations (\<open>Map\<close>, \<open>Set\<close>, arrays written by index, buckets
  of a grouping loop) with their laws, and generic lemmas on lists.

  \<^item> A number is an exact rational; where the code can divide by zero the extended
    numbers \<open>jsnum\<close> with NaN and the infinities are used.
  \<^item> A string is a \<open>string\<close>; \<open><\<close> and \<open>\<le>\<close> on strings are JavaScript's comparison by code unit.
  \<^item> A \<open>Map\<close> whose iteration order matters is an association list in insertion order
    (\<open>AList.update\<close> overwrites in place and appends a new key); a \<open>Record\<close> that is only looked
    up is a partial function. A \<open>Set\<close> that is iterated is a list without duplicates in insertion
    order; one that is only tested is a set.
\<close>

section \<open>Collections of simplification rules\<close>

named_theorems js_simps "rules for the JavaScript containers and values"
named_theorems map_laws "lookup and update laws of the map models"

section \<open>Values\<close>

type_synonym number = rat

text \<open>An optional string is truthy when it is present and not empty.\<close>

definition truthy :: "string option \<Rightarrow> bool" where
  "truthy x = (case x of None \<Rightarrow> False | Some s \<Rightarrow> s \<noteq> [])"

lemma truthy_simps [simp, js_simps]:
  "\<not> truthy None"
  "truthy (Some s) \<longleftrightarrow> s \<noteq> []"
  by (auto simp: truthy_def)

lemma truthy_iff: "truthy x \<longleftrightarrow> (\<exists>s. x = Some s \<and> s \<noteq> [])"
  by (cases x) auto

text \<open>\<open>Math.round\<close>: the nearest integer, halves towards plus infinity.\<close>

definition math_round :: "number \<Rightarrow> number" where
  "math_round x = of_int \<lfloor>x + 1 / 2\<rfloor>"

text \<open>\<open>Array.join\<close>.\<close>

fun join :: "string \<Rightarrow> string list \<Rightarrow> string" where
  "join sep [] = []"
| "join sep [x] = x"
| "join sep (x # y # ys) = x @ sep @ join sep (y # ys)"

text \<open>The decimal digits of a number, as a template literal prints it.\<close>

definition digit :: "nat \<Rightarrow> char" where
  "digit n = char_of (n + 48)"

fun show_nat :: "nat \<Rightarrow> string" where
  "show_nat n = (if n < 10 then [digit n] else show_nat (n div 10) @ [digit (n mod 10)])"

declare show_nat.simps [simp del]

definition show_int :: "int \<Rightarrow> string" where
  "show_int i = (if i < 0 then ''-'' @ show_nat (nat (- i)) else show_nat (nat i))"

text \<open>The character with code 0, written backslash 0 in the source.\<close>

definition nul :: char where "nul = CHR 0x00"

subsection \<open>Numbers with NaN and the infinities\<close>

datatype jsnum = NaN | PInf | NInf | Fin number

fun js_neg :: "jsnum \<Rightarrow> jsnum" where
  "js_neg NaN = NaN"
| "js_neg PInf = NInf"
| "js_neg NInf = PInf"
| "js_neg (Fin x) = Fin (- x)"

fun js_plus :: "jsnum \<Rightarrow> jsnum \<Rightarrow> jsnum" where
  "js_plus (Fin x) (Fin y) = Fin (x + y)"
| "js_plus NaN _ = NaN"
| "js_plus _ NaN = NaN"
| "js_plus PInf NInf = NaN"
| "js_plus NInf PInf = NaN"
| "js_plus PInf _ = PInf"
| "js_plus NInf _ = NInf"
| "js_plus _ PInf = PInf"
| "js_plus _ NInf = NInf"

text \<open>Multiplication by a positive finite constant and division of finite numbers, the two
  operations the layout code applies. The sign of a zero divisor decides the sign of the infinity:
  \<open>js_div neg a b\<close> divides by \<open>b\<close>, read as \<open>-0\<close> when \<open>b = 0\<close> and \<open>neg\<close> holds.\<close>

fun js_scale :: "number \<Rightarrow> jsnum \<Rightarrow> jsnum" where
  "js_scale c (Fin x) = Fin (c * x)"
| "js_scale c v = v"

definition js_div :: "bool \<Rightarrow> number \<Rightarrow> number \<Rightarrow> jsnum" where
  "js_div neg a b =
     (if b \<noteq> 0 then Fin (a / b) else if a = 0 then NaN else if (0 < a) = (\<not> neg) then PInf else NInf)"

text \<open>Comparison: false as soon as one side is NaN.\<close>

fun js_le :: "jsnum \<Rightarrow> jsnum \<Rightarrow> bool" where
  "js_le NaN _ = False"
| "js_le _ NaN = False"
| "js_le NInf _ = True"
| "js_le _ PInf = True"
| "js_le (Fin x) (Fin y) = (x \<le> y)"
| "js_le _ _ = False"

lemma js_div_Fin [simp]: "b \<noteq> 0 \<Longrightarrow> js_div neg a b = Fin (a / b)"
  by (simp add: js_div_def)

section \<open>Arrays written by index\<close>

text \<open>
  \<open>if (!rows[r]) rows[r] = []; rows[r].push(x)\<close> on an array of arrays: writing past the end
  extends the array; a hole reads as \<open>undefined\<close>, which every reader of these arrays treats as
  the empty row, so a hole is represented by \<open>[]\<close>.
\<close>

definition row_push :: "nat \<Rightarrow> 'a \<Rightarrow> 'a list list \<Rightarrow> 'a list list" where
  "row_push r x rows =
     (let rows' = rows @ replicate (Suc r - length rows) []
      in rows'[r := rows' ! r @ [x]])"

definition row_get :: "'a list list \<Rightarrow> nat \<Rightarrow> 'a list" where
  "row_get rows r = (if r < length rows then rows ! r else [])"

lemma length_row_push [simp]: "length (row_push r x rows) = max (length rows) (Suc r)"
  by (simp add: row_push_def Let_def)

lemma row_get_row_push:
  "row_get (row_push r x rows) k = (if k = r then row_get rows r @ [x] else row_get rows k)"
  by (auto simp: row_get_def row_push_def Let_def nth_list_update nth_append)

lemma row_get_Nil [simp]: "row_get [] r = []"
  by (simp add: row_get_def)

section \<open>Sets in insertion order\<close>

definition js_add :: "'a \<Rightarrow> 'a list \<Rightarrow> 'a list" where
  "js_add x xs = (if x \<in> set xs then xs else xs @ [x])"

definition js_set :: "'a list \<Rightarrow> 'a list" where
  "js_set xs = foldl (\<lambda>acc x. js_add x acc) [] xs"

lemma set_js_add [simp]: "set (js_add x xs) = insert x (set xs)"
  by (auto simp: js_add_def)

lemma distinct_js_add [simp]: "distinct (js_add x xs) = distinct xs"
  by (auto simp: js_add_def)

lemma js_set_foldl:
  "set (foldl (\<lambda>acc x. js_add x acc) ys xs) = set ys \<union> set xs"
  "distinct (foldl (\<lambda>acc x. js_add x acc) ys xs) = distinct ys"
  by (induction xs arbitrary: ys) auto

lemma set_js_set [simp]: "set (js_set xs) = set xs"
  and distinct_js_set [simp]: "distinct (js_set xs)"
  by (simp_all add: js_set_def js_set_foldl)

section \<open>Grouping loops\<close>

text \<open>
  The frontend groups lists in one shape: a loop that looks a bucket up, creates it when it is
  missing and appends. Once over a \<open>Map\<close>, once over a plain object; both satisfy the interface
  \<open>bucket_map\<close>, whose client lemma says what the whole loop has built.
\<close>

definition amap_push :: "'k \<Rightarrow> 'v \<Rightarrow> ('k \<times> 'v list) list \<Rightarrow> ('k \<times> 'v list) list" where
  "amap_push k v m = AList.update k ((case map_of m k of None \<Rightarrow> [] | Some b \<Rightarrow> b) @ [v]) m"

definition rec_push :: "'k \<Rightarrow> 'v \<Rightarrow> ('k \<Rightarrow> 'v list option) \<Rightarrow> ('k \<Rightarrow> 'v list option)" where
  "rec_push k v m = m(k \<mapsto> (case m k of None \<Rightarrow> [] | Some b \<Rightarrow> b) @ [v])"

locale bucket_map =
  fixes get :: "'m \<Rightarrow> 'k \<Rightarrow> 'v list option"
    and push :: "'k \<Rightarrow> 'v \<Rightarrow> 'm \<Rightarrow> 'm"
    and none :: 'm
  assumes get_none: "get none k = None"
    and get_push: "get (push k v m) k' =
      (if k' = k then Some ((case get m k of None \<Rightarrow> [] | Some b \<Rightarrow> b) @ [v]) else get m k')"
begin

lemma get_group_from:
  "get (foldl (\<lambda>m x. case key x of None \<Rightarrow> m | Some k \<Rightarrow> push k (val x) m) m0 xs) k =
     (let b = map val (filter (\<lambda>x. key x = Some k) xs) in
      case get m0 k of None \<Rightarrow> (if b = [] then None else Some b) | Some c \<Rightarrow> Some (c @ b))"
proof (induction xs arbitrary: m0)
  case Nil
  then show ?case by (simp split: option.splits)
next
  case (Cons x xs)
  show ?case
  proof (cases "key x")
    case None
    then show ?thesis by (simp add: Cons.IH)
  next
    case (Some k')
    then show ?thesis
      by (auto simp: Cons.IH get_push Let_def split: option.splits)
  qed
qed

lemma get_group:
  "get (foldl (\<lambda>m x. case key x of None \<Rightarrow> m | Some k \<Rightarrow> push k (val x) m) none xs) k =
     (let b = map val (filter (\<lambda>x. key x = Some k) xs) in if b = [] then None else Some b)"
  by (simp add: get_group_from get_none Let_def)

lemma get_group_member:
  "get (foldl (\<lambda>m x. case key x of None \<Rightarrow> m | Some k \<Rightarrow> push k (val x) m) none xs) k = Some b
     \<Longrightarrow> y \<in> set b \<Longrightarrow> \<exists>x\<in>set xs. key x = Some k \<and> y = val x"
  by (auto simp: get_group Let_def split: if_splits)

end

interpretation amap: bucket_map "map_of" amap_push "[]"
  by unfold_locales (auto simp: amap_push_def update_conv split: option.splits)

interpretation recd: bucket_map "\<lambda>m. m" rec_push "Map.empty"
  by unfold_locales (auto simp: rec_push_def)

lemma amap_push_keys: "fst ` set (amap_push k v m) = insert k (fst ` set m)"
  by (simp add: amap_push_def dom_update)

lemma amap_push_distinct: "distinct (map fst m) \<Longrightarrow> distinct (map fst (amap_push k v m))"
  by (simp add: amap_push_def distinct_update)

lemma amap_group_distinct:
  "distinct (map fst m) \<Longrightarrow>
   distinct (map fst (foldl (\<lambda>m x. case key x of None \<Rightarrow> m | Some k \<Rightarrow> amap_push k (val x) m) m xs))"
  by (induction xs arbitrary: m) (auto simp: amap_push_distinct split: option.splits)

text \<open>The entries of a finished grouping: one per key, holding the values of that key in order.\<close>

lemma amap_group_entry:
  assumes "(k, b) \<in> set (foldl (\<lambda>m x. case key x of None \<Rightarrow> m | Some k \<Rightarrow> amap_push k (val x) m) [] xs)"
  shows "b = map val (filter (\<lambda>x. key x = Some k) xs) \<and> b \<noteq> []"
proof -
  let ?m = "foldl (\<lambda>m x. case key x of None \<Rightarrow> m | Some k \<Rightarrow> amap_push k (val x) m) [] xs"
  have "map_of ?m k = Some b"
    using assms amap_group_distinct [where m = "[]" and key = key and val = val and xs = xs] by (intro map_of_is_SomeI) auto
  then show ?thesis by (auto simp: amap.get_group Let_def split: if_splits)
qed

lemma amap_group_key:
  "x \<in> set xs \<Longrightarrow> key x = Some k \<Longrightarrow>
     k \<in> fst ` set (foldl (\<lambda>m x. case key x of None \<Rightarrow> m | Some k \<Rightarrow> amap_push k (val x) m) [] xs)"
proof -
  let ?m = "foldl (\<lambda>m x. case key x of None \<Rightarrow> m | Some k \<Rightarrow> amap_push k (val x) m) [] xs"
  assume "x \<in> set xs" "key x = Some k"
  then have "map_of ?m k \<noteq> None" by (auto simp: amap.get_group Let_def filter_empty_conv)
  then show ?thesis by (simp add: map_of_eq_None_iff)
qed

lemma find_append: "find P (xs @ ys) = (case find P xs of None \<Rightarrow> find P ys | Some x \<Rightarrow> Some x)"
  by (induction xs) auto

lemma distinct_concat_by_key:
  assumes "distinct (map val xs)"
  shows "distinct (map fst m) \<Longrightarrow> \<forall>(k, b)\<in>set m. b = map val (filter (\<lambda>x. key x = Some k) xs) \<Longrightarrow>
    distinct (concat (map snd m))"
proof (induction m)
  case Nil
  then show ?case by simp
next
  case (Cons e m)
  obtain k b where e: "e = (k, b)" by (cases e)
  have b: "b = map val (filter (\<lambda>x. key x = Some k) xs)" using Cons.prems(2) e by auto
  have "v \<notin> set b" if "(k', b') \<in> set m" "v \<in> set b'" for k' b' v
  proof
    assume "v \<in> set b"
    with b obtain x where x: "x \<in> set xs" "key x = Some k" "v = val x" by auto
    from that Cons.prems(2) obtain y where y: "y \<in> set xs" "key y = Some k'" "v = val y" by fastforce
    from x y assms have "x = y" by (auto simp: distinct_map dest: inj_onD)
    with x y have "k = k'" by simp
    with that(1) Cons.prems(1) e show False by (force simp: image_iff)
  qed
  moreover have "distinct b" using b assms by (simp add: distinct_map_filter)
  ultimately show ?case using Cons e by fastforce
qed

section \<open>Maps built by a loop that overwrites\<close>

text \<open>\<open>new Map(xs.map(x => [key(x), val(x)]))\<close>: a later entry with the same key wins.\<close>

definition js_map_of :: "('a \<Rightarrow> 'k) \<Rightarrow> ('a \<Rightarrow> 'v) \<Rightarrow> 'a list \<Rightarrow> ('k \<times> 'v) list" where
  "js_map_of key val xs = foldl (\<lambda>m x. AList.update (key x) (val x) m) [] xs"

lemma js_map_of_from:
  "map_of (foldl (\<lambda>m x. AList.update (key x) (val x) m) m0 xs) k =
     (case map_of (rev (map (\<lambda>x. (key x, val x)) xs)) k of None \<Rightarrow> map_of m0 k | Some v \<Rightarrow> Some v)"
proof (induction xs rule: rev_induct)
  case Nil
  then show ?case by simp
next
  case (snoc x xs)
  then show ?case by (simp add: update_conv)
qed

lemma map_of_js_map_of [map_laws]:
  "map_of (js_map_of key val xs) k = map_of (rev (map (\<lambda>x. (key x, val x)) xs)) k"
  by (simp add: js_map_of_def js_map_of_from split: option.splits)

lemma js_map_of_map: "map_of (js_map_of key f xs) k = map_option f (map_of (js_map_of key (\<lambda>x. x) xs) k)"
proof -
  have "map_of (map (\<lambda>x. (key x, f x)) ys) k = map_option f (map_of (map (\<lambda>x. (key x, x)) ys) k)" for ys
    by (induction ys) auto
  from this [of "rev xs"] show ?thesis by (simp add: map_of_js_map_of rev_map)
qed

lemma js_map_of_SomeD:
  "map_of (js_map_of key val xs) k = Some v \<Longrightarrow> \<exists>x\<in>set xs. key x = k \<and> val x = v"
  by (auto simp: map_of_js_map_of dest!: map_of_SomeD)

lemma js_map_of_None_iff: "map_of (js_map_of key val xs) k = None \<longleftrightarrow> k \<notin> key ` set xs"
  by (auto simp: map_of_js_map_of map_of_eq_None_iff image_image)

lemma js_map_of_distinct:
  assumes "distinct (map key xs)" and "x \<in> set xs"
  shows "map_of (js_map_of key val xs) (key x) = Some (val x)"
proof -
  have "distinct (map fst (rev (map (\<lambda>x. (key x, val x)) xs)))"
    using assms(1) by (simp add: rev_map [symmetric] o_def)
  moreover have "(key x, val x) \<in> set (rev (map (\<lambda>x. (key x, val x)) xs))"
    using assms(2) by auto
  ultimately show ?thesis unfolding map_of_js_map_of by (rule map_of_is_SomeI)
qed

lemma js_map_of_keys_distinct [simp]: "distinct (map fst (js_map_of key val xs))"
proof -
  have "distinct (map fst m) \<Longrightarrow> distinct (map fst (foldl (\<lambda>m x. AList.update (key x) (val x) m) m xs))" for m
    by (induction xs arbitrary: m) (auto simp: distinct_update)
  then show ?thesis by (simp add: js_map_of_def)
qed

section \<open>State machines\<close>

text \<open>
  A component with state is an initial state and a step relation labelled with events. The
  interface \<open>invariant_of\<close> asks for one preservation fact per step and gives the invariant in
  every reachable state; every store of the development interprets it.
\<close>

inductive reach :: "'s \<Rightarrow> ('s \<Rightarrow> 'e \<Rightarrow> 's \<Rightarrow> bool) \<Rightarrow> 's \<Rightarrow> bool"
  for s0 :: 's and step :: "'s \<Rightarrow> 'e \<Rightarrow> 's \<Rightarrow> bool"
where
  reach_init: "reach s0 step s0"
| reach_step: "reach s0 step s \<Longrightarrow> step s e t \<Longrightarrow> reach s0 step t"

locale invariant_of =
  fixes s0 :: 's
    and step :: "'s \<Rightarrow> 'e \<Rightarrow> 's \<Rightarrow> bool"
    and inv :: "'s \<Rightarrow> bool"
  assumes inv_init: "inv s0"
    and inv_step: "inv s \<Longrightarrow> step s e t \<Longrightarrow> inv t"
begin

lemma inv_reach: "reach s0 step s \<Longrightarrow> inv s"
  by (induction rule: reach.induct) (auto intro: inv_init inv_step)

end

section \<open>Lists\<close>

lemma nth_last_snoc: "i < length xs \<Longrightarrow> (xs @ [x]) ! i = xs ! i"
  by (simp add: nth_append)

lemma concat_snoc [simp]: "concat (xss @ [xs]) = concat xss @ xs"
  by simp

lemma mset_filter_partition:
  "mset (filter P xs) + mset (filter (\<lambda>x. \<not> P x) xs) = mset xs"
  by (induction xs) auto

lemma distinct_map_sort [simp]: "distinct (map f (sort_key k xs)) \<longleftrightarrow> distinct (map f xs)"
proof -
  have "mset (map f (sort_key k xs)) = mset (map f xs)" by simp
  then show ?thesis by (rule mset_eq_imp_distinct_iff)
qed

lemma image_outside:
  "A \<union> f ` {t \<in> P. f t \<notin> A} = f ` P \<union> A" "A \<inter> f ` {t \<in> P. f t \<notin> A} = {}"
  by auto

end
