(* ===== verification/SpanModel.thy ===== *)
theory SpanModel
  imports Prelude
begin

text \<open>
  The data model of the trace view: spans, the lightweight rows of the transcript, traces, as
  declared in \<open>components/traces/trace-view/store/base.ts\<close> and \<open>lib/traces/types.ts\<close>.

  Timestamps stay strings, as in the code. \<open>new Date(s).getTime()\<close> is an argument
  \<open>ms :: string \<Rightarrow> int\<close> of the operations that call it (the parse of a timestamp to whole
  milliseconds), \<open>Date.toISOString\<close> an argument \<open>iso\<close>, and \<open>a.localeCompare(b)\<close> on timestamps
  a comparison of collation keys \<open>ck\<close>.
\<close>

section \<open>Span types\<close>

datatype span_type = DEFAULT | LLM | EXECUTOR | EVALUATOR | EVALUATION | TOOL
  | HUMAN_EVALUATOR | EVENT | CACHED

text \<open>The attribute values the trace view reads (\<open>Record<string, any>\<close> in the source).\<close>

datatype attr = AStr string | AStrs "string list" | ANum number | ABool bool | AOther

type_synonym attrs = "string \<Rightarrow> attr option"

record snippet =
  sn_text :: string
  sn_highlight :: "nat \<times> nat"

record span_event =
  ev_timestamp :: number
  ev_name :: string
  ev_attributes :: attrs

record agg_metrics =
  am_inputTokens :: number
  am_outputTokens :: number
  am_totalCost :: number
  am_cacheReadInputTokens :: "number option"
  am_reasoningTokens :: "number option"
  am_hasLLMDescendants :: bool

section \<open>TraceViewSpan\<close>

record span =
  spanId :: string
  parentSpanId :: "string option"
  traceId :: string
  name :: string
  startTime :: string
  endTime :: string
  attributes :: attrs
  spanType :: span_type
  path :: string
  events :: "span_event list"
  status :: "string option"
  model :: "string option"
  pending :: "bool option"
  collapsed :: bool
  inputTokens :: number
  outputTokens :: number
  totalTokens :: number
  cacheReadInputTokens :: "number option"
  reasoningTokens :: "number option"
  inputCost :: number
  outputCost :: number
  totalCost :: number
  aggregatedMetrics :: "agg_metrics option"
  inputSnippet :: "snippet option"
  outputSnippet :: "snippet option"
  attributesSnippet :: "snippet option"

text \<open>The rows of the transcript list.\<close>

record list_span =
  ls_spanId :: string
  ls_parentSpanId :: "string option"
  ls_spanType :: span_type
  ls_name :: string
  ls_model :: "string option"
  ls_path :: string
  ls_startTime :: string
  ls_endTime :: string
  ls_inputTokens :: number
  ls_outputTokens :: number
  ls_cacheReadInputTokens :: "number option"
  ls_totalCost :: number
  ls_pending :: "bool option"
  ls_status :: "string option"
  ls_inputSnippet :: "snippet option"
  ls_outputSnippet :: "snippet option"
  ls_attributesSnippet :: "snippet option"

record list_group =
  lg_groupId :: string
  lg_name :: string
  lg_path :: string
  lg_firstSpan :: list_span
  lg_firstLlmSpanId :: "string option"
  lg_lastLlmSpanId :: "string option"
  lg_startTime :: string
  lg_endTime :: string
  lg_inputTokens :: number
  lg_outputTokens :: number
  lg_cacheReadInputTokens :: number
  lg_totalCost :: number

datatype entry =
    ESpan list_span
  | EGroup list_group
  | EGroupInput string string
  | EGroupSpan list_span string bool

record trace_info =
  ti_id :: string
  ti_startTime :: string
  ti_endTime :: string
  ti_inputTokens :: number
  ti_outputTokens :: number
  ti_totalTokens :: number
  ti_cacheReadInputTokens :: "number option"
  ti_reasoningTokens :: "number option"
  ti_inputCost :: number
  ti_outputCost :: number
  ti_totalCost :: number
  ti_visibility :: string
  ti_hasBrowserSession :: bool

datatype trace_type = TDefault | TEvent | TEvaluation | TPlayground

text \<open>\<open>TraceRow\<close>; \<open>tr_hasBrowserSession\<close> is the property that live updates add to a row.\<close>

record trace_row =
  tr_id :: string
  tr_startTime :: string
  tr_endTime :: string
  tr_topSpanName :: "string option"
  tr_topSpanId :: "string option"
  tr_topSpanType :: "span_type option"
  tr_inputTokens :: number
  tr_outputTokens :: number
  tr_totalTokens :: number
  tr_cacheReadInputTokens :: "number option"
  tr_inputCost :: number
  tr_outputCost :: number
  tr_totalCost :: number
  tr_traceType :: trace_type
  tr_sessionId :: "string option"
  tr_metadata :: "string \<Rightarrow> string option"
  tr_userId :: "string option"
  tr_status :: string
  tr_spanTags :: "string list"
  tr_traceTags :: "string list"
  tr_rootSpanInput :: "string option"
  tr_rootSpanOutput :: "string option"
  tr_inputSnippet :: "snippet option"
  tr_outputSnippet :: "snippet option"
  tr_attributesSnippet :: "snippet option"
  tr_snippetsCount :: "number option"
  tr_hasBrowserSession :: "bool option"

text \<open>A row of which only the id and the times are known, with empty statistics.\<close>

definition mk_trace :: "string \<Rightarrow> string \<Rightarrow> string \<Rightarrow> trace_row" where
  "mk_trace i s e = \<lparr>tr_id = i, tr_startTime = s, tr_endTime = e, tr_topSpanName = None, tr_topSpanId = None,
     tr_topSpanType = None, tr_inputTokens = 0, tr_outputTokens = 0, tr_totalTokens = 0, tr_cacheReadInputTokens = None,
     tr_inputCost = 0, tr_outputCost = 0, tr_totalCost = 0, tr_traceType = TDefault, tr_sessionId = None,
     tr_metadata = Map.empty, tr_userId = None, tr_status = ''success'', tr_spanTags = [], tr_traceTags = [],
     tr_rootSpanInput = None, tr_rootSpanOutput = None, tr_inputSnippet = None, tr_outputSnippet = None,
     tr_attributesSnippet = None, tr_snippetsCount = None, tr_hasBrowserSession = None\<rparr>"

lemma mk_trace_sel [simp]:
  "tr_id (mk_trace i s e) = i" "tr_startTime (mk_trace i s e) = s" "tr_endTime (mk_trace i s e) = e"
  "tr_metadata (mk_trace i s e) = Map.empty"
  by (simp_all add: mk_trace_def)

definition null_span_id :: string where
  "null_span_id = ''00000000-0000-0000-0000-000000000000''"

section \<open>Attribute access\<close>

text \<open>\<open>attributes[k] as string\<close>, \<open>Array.isArray(attributes[k])\<close>.\<close>

fun attr_str :: "attr option \<Rightarrow> string option" where
  "attr_str (Some (AStr s)) = Some s"
| "attr_str _ = None"

fun attr_list :: "attr option \<Rightarrow> string list" where
  "attr_list (Some (AStrs xs)) = xs"
| "attr_list _ = []"

abbreviation is_pending :: "span \<Rightarrow> bool" where
  "is_pending s \<equiv> pending s = Some True"

definition is_llm :: "span \<Rightarrow> bool" where
  "is_llm s \<longleftrightarrow> spanType s = LLM \<or> spanType s = CACHED"

text \<open>A span with neutral field values, the base of the concrete inputs of the witnesses.\<close>

definition blank_span :: span where
  "blank_span = \<lparr>spanId = [], parentSpanId = None, traceId = [], name = [], startTime = [],
     endTime = [], attributes = (\<lambda>_. None), spanType = DEFAULT, path = [], events = [],
     status = None, model = None, pending = None, collapsed = False, inputTokens = 0,
     outputTokens = 0, totalTokens = 0, cacheReadInputTokens = None, reasoningTokens = None,
     inputCost = 0, outputCost = 0, totalCost = 0, aggregatedMetrics = None,
     inputSnippet = None, outputSnippet = None, attributesSnippet = None\<rparr>"

definition mk_span :: "string \<Rightarrow> string option \<Rightarrow> span_type \<Rightarrow> span" where
  "mk_span i p t = blank_span\<lparr>spanId := i, parentSpanId := p, spanType := t\<rparr>"

lemma mk_span_sel [simp]:
  "spanId (mk_span i p t) = i" "parentSpanId (mk_span i p t) = p" "spanType (mk_span i p t) = t"
  "collapsed (mk_span i p t) = False" "pending (mk_span i p t) = None"
  by (simp_all add: mk_span_def blank_span_def)

section \<open>Children\<close>

text \<open>\<open>getChildSpansMap\<close>: spans grouped by a truthy parent id, in list order.\<close>

definition getChildSpansMap :: "span list \<Rightarrow> (string \<Rightarrow> span list option)" where
  "getChildSpansMap spans =
     foldl (\<lambda>m s. case (if truthy (parentSpanId s) then parentSpanId s else None) of
                    None \<Rightarrow> m
                  | Some p \<Rightarrow> rec_push p s m) Map.empty spans"

text \<open>\<open>childSpans[id] || []\<close>\<close>

definition kids :: "(string \<Rightarrow> span list option) \<Rightarrow> string \<Rightarrow> span list" where
  "kids cm i = (case cm i of None \<Rightarrow> [] | Some cs \<Rightarrow> cs)"

lemma kids_getChildSpansMap:
  "kids (getChildSpansMap spans) p =
     (if p = [] then [] else filter (\<lambda>s. parentSpanId s = Some p) spans)"
proof -
  have "getChildSpansMap spans p =
      (let b = map (\<lambda>s. s) (filter (\<lambda>s. (if truthy (parentSpanId s) then parentSpanId s else None) = Some p) spans)
       in if b = [] then None else Some b)"
    unfolding getChildSpansMap_def by (rule recd.get_group)
  moreover have "filter (\<lambda>s. (if truthy (parentSpanId s) then parentSpanId s else None) = Some p) spans =
      (if p = [] then [] else filter (\<lambda>s. parentSpanId s = Some p) spans)"
    by (cases "p = []")
      (auto simp: truthy_def filter_empty_conv split: option.splits if_splits intro!: filter_cong)
  ultimately show ?thesis by (simp add: kids_def Let_def)
qed

lemma kids_mem [simp]:
  "c \<in> set (kids (getChildSpansMap spans) p) \<longleftrightarrow> c \<in> set spans \<and> parentSpanId c = Some p \<and> p \<noteq> []"
  by (simp add: kids_getChildSpansMap)

lemma kids_distinct:
  "distinct (map spanId spans) \<Longrightarrow> distinct (map spanId (kids (getChildSpansMap spans) p))"
  by (simp add: kids_getChildSpansMap distinct_map_filter)

text \<open>The spans without a parent, the roots of every traversal.\<close>

definition topLevelSpans :: "span list \<Rightarrow> span list" where
  "topLevelSpans spans = filter (\<lambda>s. \<not> truthy (parentSpanId s)) spans"

text \<open>The map \<open>new Map(spans.map((s) => [s.spanId, s]))\<close>.\<close>

definition spanMap :: "span list \<Rightarrow> (string \<times> span) list" where
  "spanMap spans = js_map_of spanId (\<lambda>s. s) spans"

lemma spanMap_SomeD: "map_of (spanMap spans) i = Some s \<Longrightarrow> s \<in> set spans \<and> spanId s = i"
  unfolding spanMap_def by (drule js_map_of_SomeD) auto

lemma spanMap_None_iff: "map_of (spanMap spans) i = None \<longleftrightarrow> i \<notin> spanId ` set spans"
  by (simp add: spanMap_def js_map_of_None_iff)

lemma spanMap_distinct:
  "distinct (map spanId spans) \<Longrightarrow> s \<in> set spans \<Longrightarrow> map_of (spanMap spans) (spanId s) = Some s"
  unfolding spanMap_def by (rule js_map_of_distinct)

section \<open>Walking up\<close>

text \<open>
  The chain of ancestors of an id, from its parent up, as the loops of the code follow it:
  the id's span is looked up, its truthy parent id is the next id. \<open>None\<close> means that the walk
  does not end (the parent links form a cycle).
\<close>

definition parent_of :: "(string \<times> span) list \<Rightarrow> string \<Rightarrow> string option" where
  "parent_of sm i = (case map_of sm i of
     None \<Rightarrow> None
   | Some s \<Rightarrow> (if truthy (parentSpanId s) then parentSpanId s else None))"

partial_function (option) walk_up :: "(string \<times> span) list \<Rightarrow> string \<Rightarrow> string list option" where
  "walk_up sm i = (case parent_of sm i of
     None \<Rightarrow> Some []
   | Some p \<Rightarrow> Option.bind (walk_up sm p) (\<lambda>ps. Some (p # ps)))"

text \<open>A ranking of the ids that decreases along parent links: the links have no cycle.\<close>

definition rooted :: "span list \<Rightarrow> bool" where
  "rooted spans \<longleftrightarrow> (\<exists>rank :: string \<Rightarrow> nat. \<forall>i p. parent_of (spanMap spans) i = Some p \<longrightarrow> rank p < rank i)"

lemma rootedI:
  assumes "\<And>s p. s \<in> set spans \<Longrightarrow> parentSpanId s = Some p \<Longrightarrow> p \<noteq> [] \<Longrightarrow> (rank p :: nat) < rank (spanId s)"
  shows "rooted spans"
  unfolding rooted_def parent_of_def
  by (rule exI [of _ rank]) (auto split: option.splits if_splits simp: truthy_def dest!: spanMap_SomeD intro!: assms)

lemma walk_up_total:
  assumes "rooted spans"
  shows "\<exists>ps. walk_up (spanMap spans) i = Some ps"
proof -
  from assms obtain rank :: "string \<Rightarrow> nat"
    where rank: "\<And>i p. parent_of (spanMap spans) i = Some p \<Longrightarrow> rank p < rank i"
    unfolding rooted_def by blast
  show ?thesis
  proof (induction "rank i" arbitrary: i rule: less_induct)
    case less
    show ?case
    proof (cases "parent_of (spanMap spans) i")
      case None
      then show ?thesis by (simp add: walk_up.simps)
    next
      case (Some p)
      with less rank obtain ps where "walk_up (spanMap spans) p = Some ps" by blast
      with Some show ?thesis by (subst walk_up.simps) simp
    qed
  qed
qed

lemma walk_up_None_step: "parent_of sm i = None \<Longrightarrow> walk_up sm i = Some []"
  by (subst walk_up.simps) simp

lemma walk_up_Some_step:
  "parent_of sm i = Some p \<Longrightarrow> walk_up sm i = Option.bind (walk_up sm p) (\<lambda>ps. Some (p # ps))"
  by (subst walk_up.simps) simp

lemma walk_up_ConsD:
  assumes "walk_up sm i = Some (p # ps)"
  shows "parent_of sm i = Some p \<and> walk_up sm p = Some ps"
  using assms by (subst (asm) walk_up.simps) (auto split: option.splits Option.bind_splits)

lemma walk_up_NilD: "walk_up sm i = Some [] \<Longrightarrow> parent_of sm i = None"
  by (subst (asm) walk_up.simps) (auto split: option.splits Option.bind_splits)

lemma walk_up_closed:
  "walk_up sm i = Some ps \<Longrightarrow> j \<in> insert i (set ps) \<Longrightarrow> parent_of sm j = Some q \<Longrightarrow> q \<in> set ps"
proof (induction ps arbitrary: i)
  case Nil
  then show ?case by (auto dest: walk_up_NilD)
next
  case (Cons p ps)
  from walk_up_ConsD [OF Cons.prems(1)] have p: "parent_of sm i = Some p" "walk_up sm p = Some ps" by auto
  show ?case
  proof (cases "j = i")
    case True
    with Cons.prems p show ?thesis by simp
  next
    case False
    with Cons.prems have "j \<in> insert p (set ps)" by auto
    from Cons.IH [OF p(2) this Cons.prems(3)] show ?thesis by simp
  qed
qed

end
