(* ===== verification/SpanTree.thy ===== *)
theory SpanTree
  imports SpanModel
begin

text \<open>
  \<open>transformSpansToTree\<close> of \<open>components/traces/trace-view/store/utils.ts\<close>: the flat list of
  rows of the tree view. The code walks the children map depth first and threads three mutable
  cells: the output array, \<open>maxY\<close> and the array \<open>activeAncestors\<close> from which each row's branch
  mask is sliced. The model threads the same three cells; the specification is the forest of
  visible spans flattened in preorder with the masks passed down as arguments.
\<close>

record path_ref =
  pr_spanId :: string
  pr_name :: string
  pr_count :: "nat option"

text \<open>\<open>PathInfo\<close>: the display path and the full path, or null.\<close>

type_synonym path_info = "(path_ref list \<times> (string \<times> string) list) option"

record tree_row =
  row_span :: span
  row_depth :: nat
  row_branchMask :: "bool list"
  row_hasChildren :: bool
  row_pending :: bool
  row_pathInfo :: path_info
  row_yOffset :: int
  row_parentY :: int

record tree_state =
  ts_items :: "tree_row list"
  ts_maxY :: int
  ts_active :: "bool list"

section \<open>The code\<close>

definition mk_row ::
  "(string \<Rightarrow> span list option) \<Rightarrow> (string \<Rightarrow> path_info option) \<Rightarrow> span \<Rightarrow> nat \<Rightarrow> bool list \<Rightarrow> int \<Rightarrow> int \<Rightarrow> tree_row"
where
  "mk_row cm pim s depth bm yOffset parentY =
     \<lparr>row_span = s, row_depth = depth, row_branchMask = bm,
      row_hasChildren = 0 < length (kids cm (spanId s)),
      row_pending = is_pending s,
      row_pathInfo = (case pim (spanId s) of None \<Rightarrow> None | Some p \<Rightarrow> p),
      row_yOffset = yOffset, row_parentY = parentY\<rparr>"

text \<open>The body of \<open>children.forEach\<close>: pad \<open>activeAncestors\<close>, mark whether more siblings
  follow, then descend.\<close>

fun each_child ::
  "(span \<Rightarrow> nat \<Rightarrow> int \<Rightarrow> tree_state \<Rightarrow> tree_state option) \<Rightarrow> span list \<Rightarrow> nat \<Rightarrow> int \<Rightarrow> tree_state \<Rightarrow> tree_state option"
where
  "each_child build [] depth py st = Some st"
| "each_child build (c # cs) depth py st =
     (let padded = ts_active st @ replicate (Suc depth - length (ts_active st)) False;
          isLastChild = (cs = [])
      in case build c (Suc depth) py (st\<lparr>ts_active := padded[depth := \<not> isLastChild]\<rparr>) of
           None \<Rightarrow> None
         | Some st' \<Rightarrow> each_child build cs depth py st')"

text \<open>\<open>buildTreeWithCollapse\<close>. The fuel bounds the depth of the recursion; \<open>None\<close> is a
  recursion that does not return.\<close>

fun buildTreeWithCollapse ::
  "(string \<Rightarrow> span list option) \<Rightarrow> (string \<Rightarrow> path_info option) \<Rightarrow> nat \<Rightarrow> span \<Rightarrow> nat \<Rightarrow> int \<Rightarrow> tree_state \<Rightarrow> tree_state option"
where
  "buildTreeWithCollapse cm pim 0 s depth parentY st = None"
| "buildTreeWithCollapse cm pim (Suc fuel) s depth parentY st =
     (let yOffset = ts_maxY st + 36;
          branchMask = take depth (ts_active st);
          st1 = st\<lparr>ts_items := ts_items st @ [mk_row cm pim s depth branchMask yOffset parentY],
                   ts_maxY := ts_maxY st + 36\<rparr>
      in if collapsed s then Some st1
         else (case each_child (buildTreeWithCollapse cm pim fuel) (kids cm (spanId s)) depth (ts_maxY st1) st1 of
                 None \<Rightarrow> None
               | Some st2 \<Rightarrow> Some (if depth < length (ts_active st2)
                                  then st2\<lparr>ts_active := (ts_active st2)[depth := False]\<rparr> else st2)))"

fun each_root :: "(span \<Rightarrow> tree_state \<Rightarrow> tree_state option) \<Rightarrow> span list \<Rightarrow> tree_state \<Rightarrow> tree_state option" where
  "each_root f [] st = Some st"
| "each_root f (s # ss) st = (case f s st of None \<Rightarrow> None | Some st' \<Rightarrow> each_root f ss st')"

definition transformSpansToTree ::
  "span list \<Rightarrow> (string \<Rightarrow> path_info option) \<Rightarrow> tree_row list option"
where
  "transformSpansToTree spans pim =
     (let cm = getChildSpansMap spans;
          init = \<lparr>ts_items = [], ts_maxY = 0, ts_active = []\<rparr>
      in map_option ts_items
           (each_root (\<lambda>s st. buildTreeWithCollapse cm pim (Suc (length spans)) s 0 0 st)
              (topLevelSpans spans) init))"

section \<open>The specification: a forest flattened in preorder\<close>

datatype span_tree = SpanNode (node_span: span) (node_kids: "span_tree list")

text \<open>The subtree below a span; a collapsed span shows no children.\<close>

fun grow :: "(string \<Rightarrow> span list option) \<Rightarrow> nat \<Rightarrow> span \<Rightarrow> span_tree option" where
  "grow cm 0 s = None"
| "grow cm (Suc fuel) s =
     (if collapsed s then Some (SpanNode s [])
      else map_option (SpanNode s) (those (map (grow cm fuel) (kids cm (spanId s)))))"

definition forest :: "span list \<Rightarrow> span_tree list option" where
  "forest spans = those (map (grow (getChildSpansMap spans) (Suc (length spans))) (topLevelSpans spans))"

fun preorder :: "span_tree \<Rightarrow> span list" where
  "preorder (SpanNode s ts) = s # concat (map preorder ts)"

abbreviation tree_size :: "span_tree \<Rightarrow> nat" where
  "tree_size t \<equiv> length (preorder t)"

text \<open>Rows of a tree: \<open>bm\<close> is the branch mask of the node, \<open>y\<close> the height used so far.\<close>

fun rows_of ::
    "(string \<Rightarrow> span list option) \<Rightarrow> (string \<Rightarrow> path_info option) \<Rightarrow> bool list \<Rightarrow> int \<Rightarrow> int \<Rightarrow> span_tree \<Rightarrow> tree_row list"
  and rows_kids ::
    "(string \<Rightarrow> span list option) \<Rightarrow> (string \<Rightarrow> path_info option) \<Rightarrow> bool list \<Rightarrow> int \<Rightarrow> int \<Rightarrow> span_tree list \<Rightarrow> tree_row list"
where
  "rows_of cm pim bm y parentY (SpanNode s ts) =
     mk_row cm pim s (length bm) bm (y + 36) parentY # rows_kids cm pim bm (y + 36) (y + 36) ts"
| "rows_kids cm pim bm y parentY [] = []"
| "rows_kids cm pim bm y parentY (t # ts) =
     rows_of cm pim (bm @ [ts \<noteq> []]) y parentY t
     @ rows_kids cm pim bm (y + 36 * int (tree_size t)) parentY ts"

fun rows_roots ::
  "(string \<Rightarrow> span list option) \<Rightarrow> (string \<Rightarrow> path_info option) \<Rightarrow> int \<Rightarrow> span_tree list \<Rightarrow> tree_row list"
where
  "rows_roots cm pim y [] = []"
| "rows_roots cm pim y (t # ts) =
     rows_of cm pim [] y 0 t @ rows_roots cm pim (y + 36 * int (tree_size t)) ts"

section \<open>Refinement\<close>

text \<open>What one call does to the three cells, given the tree it walks.\<close>

definition built :: "(string \<Rightarrow> span list option) \<Rightarrow> (string \<Rightarrow> path_info option) \<Rightarrow> nat \<Rightarrow> tree_row list \<Rightarrow> nat \<Rightarrow> tree_state \<Rightarrow> tree_state \<Rightarrow> bool" where
  "built cm pim depth rows n st st' \<longleftrightarrow>
     ts_items st' = ts_items st @ rows \<and> ts_maxY st' = ts_maxY st + 36 * int n \<and>
     take depth (ts_active st') = take depth (ts_active st) \<and> depth \<le> length (ts_active st')"

lemma those_Some_iff: "those xs = Some ys \<longleftrightarrow> xs = map Some ys"
  by (induction xs arbitrary: ys) (auto split: option.splits simp: Cons_eq_map_conv)

lemma those_map_None_iff: "those (map f xs) = None \<longleftrightarrow> (\<exists>x\<in>set xs. f x = None)"
  by (induction xs) (auto split: option.splits)

lemma those_mapD:
  assumes "map f xs = map Some ts"
  shows "ts = map (\<lambda>x. the (f x)) xs" and "\<And>x. x \<in> set xs \<Longrightarrow> f x = Some (the (f x))"
proof -
  have "map (\<lambda>x. the (f x)) xs = map the (map f xs)" by simp
  then show "ts = map (\<lambda>x. the (f x)) xs" unfolding assms by simp
  show "f x = Some (the (f x))" if "x \<in> set xs" for x
  proof -
    have "f x \<in> set (map f xs)" using that by simp
    then show ?thesis unfolding assms by auto
  qed
qed

lemma take_pad_set:
  "take (Suc d) ((xs @ replicate (Suc d - length xs) False)[d := b]) =
     take d (xs @ replicate (Suc d - length xs) False) @ [b]"
  by (subst take_Suc_conv_app_nth) auto

lemma each_child_None:
  "(\<And>c d py st. c \<in> set cs \<Longrightarrow> g c = None \<Longrightarrow> build c d py st = None) \<Longrightarrow>
   \<exists>c\<in>set cs. g c = None \<Longrightarrow> each_child build cs depth py st = None"
  by (induction cs arbitrary: st) (auto simp: Let_def split: option.splits)

lemma each_child_built:
  assumes step: "\<And>c t d py st. c \<in> set cs \<Longrightarrow> g c = Some t \<Longrightarrow> d \<le> length (ts_active st) \<Longrightarrow>
      \<exists>st'. build c d py st = Some st' \<and>
        built cm pim d (rows_of cm pim (take d (ts_active st)) (ts_maxY st) py t) (tree_size t) st st'"
    and "map g cs = map Some ts" and "depth \<le> length (ts_active st)"
  shows "\<exists>st'. each_child build cs depth py st = Some st' \<and>
      built cm pim depth (rows_kids cm pim (take depth (ts_active st)) (ts_maxY st) py ts)
        (length (concat (map preorder ts))) st st'"
  using assms
proof (induction cs arbitrary: st ts)
  case Nil
  then show ?case by (simp add: built_def)
next
  case (Cons c cs)
  from Cons.prems(2) obtain t ts' where ts: "ts = t # ts'" and gc: "g c = Some t"
    and gcs: "map g cs = map Some ts'"
    by (cases ts) auto
  have emp: "cs = [] \<longleftrightarrow> ts' = []" using gcs by (cases cs; cases ts') auto
  define act where "act = (ts_active st @ replicate (Suc depth - length (ts_active st)) False)[depth := cs \<noteq> []]"
  let ?st = "st\<lparr>ts_active := act\<rparr>"
  have act: "take (Suc depth) act = take depth (ts_active st) @ [cs \<noteq> []]" "Suc depth \<le> length act"
    using Cons.prems(3) take_pad_set [of depth "ts_active st" "cs \<noteq> []"] unfolding act_def by auto
  from Cons.prems(1) [OF _ gc, of "Suc depth" ?st py] act obtain st1 where
    b1: "build c (Suc depth) py ?st = Some st1" and
    b2: "built cm pim (Suc depth) (rows_of cm pim (take depth (ts_active st) @ [cs \<noteq> []]) (ts_maxY st) py t)
           (tree_size t) ?st st1"
    by auto
  from b2 have act1: "take (Suc depth) (ts_active st1) = take depth (ts_active st) @ [cs \<noteq> []]"
      "Suc depth \<le> length (ts_active st1)"
    unfolding built_def using act by auto
  then have act2: "take depth (ts_active st1) = take depth (ts_active st)"
  proof -
    have "take depth (ts_active st1) = take depth (take (Suc depth) (ts_active st1))"
      by (simp add: min_def)
    then show ?thesis using Cons.prems(3) by (simp add: act1(1))
  qed
  have "\<exists>st'. each_child build cs depth py st1 = Some st' \<and>
      built cm pim depth (rows_kids cm pim (take depth (ts_active st1)) (ts_maxY st1) py ts')
        (length (concat (map preorder ts'))) st1 st'"
    by (rule Cons.IH) (use Cons.prems(1) gcs act1(2) in auto)
  then obtain st' where b3: "each_child build cs depth py st1 = Some st'" and
    b4: "built cm pim depth (rows_kids cm pim (take depth (ts_active st)) (ts_maxY st1) py ts')
        (length (concat (map preorder ts'))) st1 st'"
    unfolding act2 by blast
  have "each_child build (c # cs) depth py st = Some st'"
    using b1 b3 by (simp add: act_def Let_def)
  moreover have "built cm pim depth (rows_kids cm pim (take depth (ts_active st)) (ts_maxY st) py ts)
      (length (concat (map preorder ts))) st st'"
    using b2 b4 act2 emp unfolding built_def ts by (auto simp: algebra_simps)
  ultimately show ?case by blast
qed

lemma buildTree_refines:
  "(grow cm fuel s = None \<longrightarrow> buildTreeWithCollapse cm pim fuel s d py st = None) \<and>
   (\<forall>t. grow cm fuel s = Some t \<longrightarrow> d \<le> length (ts_active st) \<longrightarrow>
      (\<exists>st'. buildTreeWithCollapse cm pim fuel s d py st = Some st' \<and>
        built cm pim d (rows_of cm pim (take d (ts_active st)) (ts_maxY st) py t) (tree_size t) st st'))"
proof (induction fuel arbitrary: s d py st)
  case 0
  then show ?case by simp
next
  case (Suc fuel)
  define st1 where "st1 = st\<lparr>ts_items := ts_items st @ [mk_row cm pim s d (take d (ts_active st)) (ts_maxY st + 36) py],
                   ts_maxY := ts_maxY st + 36\<rparr>"
  have st1: "ts_items st1 = ts_items st @ [mk_row cm pim s d (take d (ts_active st)) (ts_maxY st + 36) py]"
    "ts_maxY st1 = ts_maxY st + 36" "ts_active st1 = ts_active st"
    by (simp_all add: st1_def)
  show ?case
  proof (cases "collapsed s")
    case True
    then show ?thesis
      by (auto simp: built_def Let_def min_def)
  next
    case False
    let ?cs = "kids cm (spanId s)"
    show ?thesis
    proof (cases "those (map (grow cm fuel) ?cs)")
      case None
      then have "\<exists>c\<in>set ?cs. grow cm fuel c = None" by (simp add: those_map_None_iff)
      then have "each_child (buildTreeWithCollapse cm pim fuel) ?cs d (ts_maxY st1) st1 = None"
        by (rule each_child_None [rotated]) (use Suc.IH in blast)
      with False None show ?thesis by (simp add: Let_def st1_def)
    next
      case (Some ts)
      then have ts: "map (grow cm fuel) ?cs = map Some ts" by (simp add: those_Some_iff)
      {
        assume d: "d \<le> length (ts_active st)"
        have "\<exists>st'. each_child (buildTreeWithCollapse cm pim fuel) ?cs d (ts_maxY st1) st1 = Some st' \<and>
            built cm pim d (rows_kids cm pim (take d (ts_active st1)) (ts_maxY st1) (ts_maxY st1) ts)
              (length (concat (map preorder ts))) st1 st'"
          by (rule each_child_built [OF _ ts]) (use Suc.IH d st1 in auto)
        then obtain st2 where e: "each_child (buildTreeWithCollapse cm pim fuel) ?cs d (ts_maxY st1) st1 = Some st2"
          and b: "built cm pim d (rows_kids cm pim (take d (ts_active st)) (ts_maxY st1) (ts_maxY st1) ts)
              (length (concat (map preorder ts))) st1 st2"
          unfolding st1 by blast
        define st3 where "st3 = (if d < length (ts_active st2)
              then st2\<lparr>ts_active := (ts_active st2)[d := False]\<rparr> else st2)"
        have "buildTreeWithCollapse cm pim (Suc fuel) s d py st = Some st3"
          using e False unfolding st3_def st1_def by (simp add: Let_def)
        moreover have "built cm pim d (rows_of cm pim (take d (ts_active st)) (ts_maxY st) py (SpanNode s ts))
            (tree_size (SpanNode s ts)) st st3"
          using b d unfolding built_def st3_def st1 by (auto simp: algebra_simps min_def)
        ultimately have "\<exists>st'. buildTreeWithCollapse cm pim (Suc fuel) s d py st = Some st' \<and>
            built cm pim d (rows_of cm pim (take d (ts_active st)) (ts_maxY st) py (SpanNode s ts))
              (tree_size (SpanNode s ts)) st st'" by blast
      }
      with False Some show ?thesis by simp
    qed
  qed
qed

lemma rows_roots_append:
  "built cm pim 0 rows n st st1 \<Longrightarrow> built cm pim 0 rows' m st1 st2 \<Longrightarrow> built cm pim 0 (rows @ rows') (n + m) st st2"
  by (auto simp: built_def algebra_simps)

lemma each_root_None:
  "\<exists>s\<in>set ss. grow cm fuel s = None \<Longrightarrow>
     each_root (\<lambda>s st. buildTreeWithCollapse cm pim fuel s 0 0 st) ss st = None"
proof (induction ss arbitrary: st)
  case Nil
  then show ?case by simp
next
  case (Cons s ss)
  then show ?case
    using buildTree_refines [of cm fuel s pim 0 0 st] by (auto split: option.splits)
qed

lemma each_root_refines:
  "map (grow cm fuel) ss = map Some ts \<Longrightarrow>
     \<exists>st'. each_root (\<lambda>s st. buildTreeWithCollapse cm pim fuel s 0 0 st) ss st = Some st' \<and>
       built cm pim 0 (rows_roots cm pim (ts_maxY st) ts) (length (concat (map preorder ts))) st st'"
proof (induction ss arbitrary: st ts)
  case Nil
  then show ?case by (simp add: built_def)
next
  case (Cons s ss)
  then obtain t ts' where ts: "ts = t # ts'" and g: "grow cm fuel s = Some t"
    and gs: "map (grow cm fuel) ss = map Some ts'" by (cases ts) auto
  from g buildTree_refines [of cm fuel s pim 0 0 st] obtain st1 where
    b1: "buildTreeWithCollapse cm pim fuel s 0 0 st = Some st1" and
    b2: "built cm pim 0 (rows_of cm pim [] (ts_maxY st) 0 t) (tree_size t) st st1" by auto
  from Cons.IH [OF gs, of st1] obtain st2 where
    b3: "each_root (\<lambda>s st. buildTreeWithCollapse cm pim fuel s 0 0 st) ss st1 = Some st2" and
    b4: "built cm pim 0 (rows_roots cm pim (ts_maxY st1) ts') (length (concat (map preorder ts'))) st1 st2"
    by blast
  have y: "ts_maxY st1 = ts_maxY st + 36 * int (tree_size t)" using b2 by (simp add: built_def)
  from rows_roots_append [OF b2 b4] b1 b3 show ?case by (simp add: ts y)
qed

theorem transformSpansToTree_eq:
  "transformSpansToTree spans pim =
     map_option (rows_roots (getChildSpansMap spans) pim 0) (forest spans)"
proof (cases "forest spans")
  case None
  then have "\<exists>s\<in>set (topLevelSpans spans). grow (getChildSpansMap spans) (Suc (length spans)) s = None"
    by (simp only: forest_def those_map_None_iff)
  from each_root_None [OF this] None show ?thesis
    by (simp add: transformSpansToTree_def Let_def)
next
  case (Some ts)
  then have "map (grow (getChildSpansMap spans) (Suc (length spans))) (topLevelSpans spans) = map Some ts"
    by (simp only: forest_def those_Some_iff)
  from each_root_refines [OF this, of pim "\<lparr>ts_items = [], ts_maxY = 0, ts_active = []\<rparr>"] Some
  show ?thesis by (auto simp add: transformSpansToTree_def Let_def built_def)
qed

section \<open>Chains of parents\<close>

text \<open>\<open>descent spans anc s\<close>: \<open>anc\<close> lists the spans from \<open>s\<close>'s parent up to a root.\<close>

inductive descent :: "span list \<Rightarrow> span list \<Rightarrow> span \<Rightarrow> bool" for spans :: "span list" where
  descent_root: "s \<in> set (topLevelSpans spans) \<Longrightarrow> descent spans [] s"
| descent_kid: "descent spans anc p \<Longrightarrow> c \<in> set (kids (getChildSpansMap spans) (spanId p)) \<Longrightarrow>
     descent spans (p # anc) c"

inductive_cases descent_NilE: "descent spans [] s"
inductive_cases descent_ConsE: "descent spans (p # anc) s"

lemma descent_suffix: "descent spans anc s \<Longrightarrow> s # anc = ys @ x # zs \<Longrightarrow> descent spans zs x"
proof (induction ys arbitrary: anc s)
  case Nil
  then show ?case by simp
next
  case (Cons y ys)
  then obtain p anc' where anc: "anc = p # anc'" by (cases anc) auto
  with Cons.prems(1) have "descent spans (p # anc') s" by simp
  then have "descent spans anc' p" by (rule descent_ConsE)
  from Cons.IH [OF this] Cons.prems anc show ?case by simp
qed

lemma descent_in_spans: "descent spans anc s \<Longrightarrow> set (s # anc) \<subseteq> set spans"
  by (induction rule: descent.induct) (auto simp: topLevelSpans_def)

lemma same_id: "distinct (map spanId spans) \<Longrightarrow> s \<in> set spans \<Longrightarrow> t \<in> set spans \<Longrightarrow> spanId s = spanId t \<Longrightarrow> s = t"
  by (auto simp: distinct_map dest: inj_onD)

lemma descent_unique:
  assumes "distinct (map spanId spans)"
  shows "descent spans anc s \<Longrightarrow> descent spans anc' s \<Longrightarrow> anc = anc'"
proof (induction arbitrary: anc' rule: descent.induct)
  case (descent_root s)
  then show ?case
    by (cases anc') (auto elim!: descent_ConsE simp: topLevelSpans_def)
next
  case (descent_kid anc p c)
  note kid = descent_kid.hyps(2) [unfolded kids_mem]
  show ?case
  proof (cases anc')
    case Nil
    with descent_kid.prems have "c \<in> set (topLevelSpans spans)" by (auto elim: descent_NilE)
    with kid show ?thesis by (auto simp: topLevelSpans_def)
  next
    case (Cons q anc'')
    with descent_kid.prems have q: "descent spans anc'' q" and c: "c \<in> set (kids (getChildSpansMap spans) (spanId q))"
      by (auto elim: descent_ConsE)
    from c kid have "spanId p = spanId q" by simp
    moreover have "p \<in> set spans" "q \<in> set spans"
      using descent_in_spans [OF descent_kid.hyps(1)] descent_in_spans [OF q] by auto
    ultimately have "p = q" using same_id [OF assms] by blast
    with q descent_kid.IH Cons show ?thesis by simp
  qed
qed

lemma descent_distinct:
  assumes "distinct (map spanId spans)"
  shows "descent spans anc s \<Longrightarrow> distinct (s # anc)"
proof (induction rule: descent.induct)
  case (descent_root s)
  then show ?case by simp
next
  case (descent_kid anc p c)
  have d: "descent spans (p # anc) c" using descent_kid.hyps by (rule descent.descent_kid)
  have "c \<notin> set (p # anc)"
  proof
    assume "c \<in> set (p # anc)"
    then obtain ys zs where split: "p # anc = ys @ c # zs" by (meson split_list)
    with descent_suffix [OF descent_kid.hyps(1)] have "descent spans zs c" by blast
    from descent_unique [OF assms d this] split have "length (ys @ c # zs) = length zs" by simp
    then show False by simp
  qed
  with descent_kid.IH show ?case by simp
qed

lemma descent_length:
  assumes "distinct (map spanId spans)" "descent spans anc s"
  shows "length anc < length spans"
proof -
  have "length (s # anc) = card (set (s # anc))"
    using descent_distinct [OF assms] by (simp add: distinct_card)
  also have "\<dots> \<le> card (set spans)" by (rule card_mono) (use descent_in_spans [OF assms(2)] in auto)
  also have "\<dots> \<le> length spans" by (rule card_length)
  finally show ?thesis by simp
qed

lemma grow_total:
  assumes "distinct (map spanId spans)"
  shows "descent spans anc s \<Longrightarrow> length spans \<le> fuel + length anc \<Longrightarrow> grow (getChildSpansMap spans) fuel s \<noteq> None"
proof (induction fuel arbitrary: anc s)
  case 0
  with descent_length [OF assms] show ?case by fastforce
next
  case (Suc fuel)
  have "grow (getChildSpansMap spans) fuel c \<noteq> None" if "c \<in> set (kids (getChildSpansMap spans) (spanId s))" for c
    by (rule Suc.IH [OF descent_kid [OF Suc.prems(1) that]]) (use Suc.prems(2) in simp)
  then have "those (map (grow (getChildSpansMap spans) fuel) (kids (getChildSpansMap spans) (spanId s))) \<noteq> None"
    unfolding those_map_None_iff by blast
  then show ?case by auto
qed

lemma forest_total:
  assumes "distinct (map spanId spans)"
  shows "\<exists>ts. forest spans = Some ts"
proof -
  have "grow (getChildSpansMap spans) (Suc (length spans)) s \<noteq> None" if "s \<in> set (topLevelSpans spans)" for s
    by (rule grow_total [OF assms descent_root [OF that]]) simp
  then have "forest spans \<noteq> None" unfolding forest_def those_map_None_iff by blast
  then show ?thesis by blast
qed

section \<open>Which spans are shown\<close>

text \<open>A span is shown when it is a root or a child of a shown span that is not collapsed.\<close>

inductive shown :: "span list \<Rightarrow> span \<Rightarrow> bool" for spans :: "span list" where
  shown_root: "s \<in> set spans \<Longrightarrow> \<not> truthy (parentSpanId s) \<Longrightarrow> shown spans s"
| shown_kid: "shown spans p \<Longrightarrow> \<not> collapsed p \<Longrightarrow> c \<in> set spans \<Longrightarrow> parentSpanId c = Some (spanId p) \<Longrightarrow>
     spanId p \<noteq> [] \<Longrightarrow> shown spans c"

inductive below :: "span list \<Rightarrow> span \<Rightarrow> span \<Rightarrow> bool" for spans :: "span list" where
  below_refl: "below spans s s"
| below_kid: "\<not> collapsed s \<Longrightarrow> c \<in> set (kids (getChildSpansMap spans) (spanId s)) \<Longrightarrow> below spans c x \<Longrightarrow> below spans s x"

lemma below_snoc:
  "below spans s p \<Longrightarrow> \<not> collapsed p \<Longrightarrow> c \<in> set (kids (getChildSpansMap spans) (spanId p)) \<Longrightarrow> below spans s c"
  by (induction rule: below.induct) (auto intro: below.intros)

lemma preorder_grow:
  "grow (getChildSpansMap spans) fuel s = Some t \<Longrightarrow> set (preorder t) = {x. below spans s x}"
proof (induction fuel arbitrary: s t)
  case 0
  then show ?case by simp
next
  case (Suc fuel)
  let ?cm = "getChildSpansMap spans"
  show ?case
  proof (cases "collapsed s")
    case True
    with Suc.prems show ?thesis by (auto intro: below.intros elim: below.cases)
  next
    case False
    with Suc.prems obtain ts where t: "t = SpanNode s ts"
      and ts: "map (grow ?cm fuel) (kids ?cm (spanId s)) = map Some ts"
      by (auto simp: those_Some_iff)
    have "set (preorder (the (grow ?cm fuel c))) = {x. below spans c x}"
      if "c \<in> set (kids ?cm (spanId s))" for c
      using Suc.IH those_mapD(2) [OF ts that] by blast
    then have "set (preorder t) = insert s {x. \<exists>c\<in>set (kids ?cm (spanId s)). below spans c x}"
      by (auto simp: t those_mapD(1) [OF ts])
    also have "\<dots> = {x. below spans s x}"
      using False by (auto intro: below.intros elim: below.cases)
    finally show ?thesis .
  qed
qed

lemma shown_iff_below: "shown spans x \<longleftrightarrow> (\<exists>r\<in>set (topLevelSpans spans). below spans r x)"
proof
  assume "shown spans x"
  then show "\<exists>r\<in>set (topLevelSpans spans). below spans r x"
  proof induction
    case (shown_root s)
    then show ?case by (auto simp: topLevelSpans_def intro: below_refl)
  next
    case (shown_kid p c)
    then obtain r where r: "r \<in> set (topLevelSpans spans)" "below spans r p" by blast
    from below_snoc [OF r(2), of c] shown_kid.hyps have "below spans r c" by simp
    with r(1) show ?case by blast
  qed
next
  assume "\<exists>r\<in>set (topLevelSpans spans). below spans r x"
  then obtain r where r: "r \<in> set (topLevelSpans spans)" "below spans r x" by blast
  from r(2) have "shown spans r \<Longrightarrow> shown spans x"
    by induction (auto intro: shown_kid)
  with r(1) show "shown spans x" by (auto simp: topLevelSpans_def intro: shown_root)
qed

lemma forest_shown:
  assumes "forest spans = Some ts"
  shows "set (concat (map preorder ts)) = {x. shown spans x}"
proof -
  let ?g = "grow (getChildSpansMap spans) (Suc (length spans))"
  from assms have ts: "map ?g (topLevelSpans spans) = map Some ts"
    by (simp only: forest_def those_Some_iff)
  have "set (preorder (the (?g r))) = {x. below spans r x}" if "r \<in> set (topLevelSpans spans)" for r
    using preorder_grow those_mapD(2) [OF ts that] by blast
  then have "set (concat (map preorder ts)) = {x. \<exists>r\<in>set (topLevelSpans spans). below spans r x}"
    by (auto simp: those_mapD(1) [OF ts])
  then show ?thesis by (simp add: shown_iff_below)
qed

section \<open>No span twice\<close>

lemma preorder_chain:
  "grow (getChildSpansMap spans) fuel s = Some t \<Longrightarrow> descent spans anc s \<Longrightarrow> x \<in> set (preorder t) \<Longrightarrow>
   \<exists>ch zs. descent spans ch x \<and> x # ch = zs @ s # anc"
proof (induction fuel arbitrary: s t anc)
  case 0
  then show ?case by simp
next
  case (Suc fuel)
  let ?cm = "getChildSpansMap spans"
  show ?case
  proof (cases "x = s")
    case True
    with Suc.prems(2) show ?thesis by (intro exI [of _ anc] exI [of _ "[]"]) simp
  next
    case False
    then obtain ts where t: "t = SpanNode s ts" and ts: "map (grow ?cm fuel) (kids ?cm (spanId s)) = map Some ts"
      using Suc.prems(1,3) by (auto simp: those_Some_iff split: if_splits)
    with False Suc.prems(3) obtain c where c: "c \<in> set (kids ?cm (spanId s))"
      and x: "x \<in> set (preorder (the (grow ?cm fuel c)))"
      by (auto simp: those_mapD(1) [OF ts])
    from Suc.IH [OF those_mapD(2) [OF ts c] descent_kid [OF Suc.prems(2) c] x] obtain ch zs
      where "descent spans ch x" "x # ch = zs @ c # s # anc" by blast
    then show ?thesis by (intro exI [of _ ch] exI [of _ "zs @ [c]"]) simp
  qed
qed

lemma chain_tail_eq:
  assumes "x # ch = zs @ a # anc" "x # ch = zs' @ b # anc"
  shows "a = b"
proof -
  from assms have "zs @ a # anc = zs' @ b # anc" by simp
  then have "length zs = length zs'" by (metis add_right_cancel length_Cons length_append)
  with assms show ?thesis by (metis append_eq_append_conv list.inject)
qed

text \<open>Subtrees below different spans with the same chain share no span.\<close>

lemma subtrees_disjoint:
  assumes ids: "distinct (map spanId spans)"
    and "grow (getChildSpansMap spans) fuel a = Some t" "descent spans anc a" "x \<in> set (preorder t)"
    and "grow (getChildSpansMap spans) fuel b = Some u" "descent spans anc b" "x \<in> set (preorder u)"
  shows "a = b"
proof -
  from preorder_chain [OF assms(2-4)] preorder_chain [OF assms(5-7)]
  obtain ch zs ch' zs' where "descent spans ch x" "x # ch = zs @ a # anc"
    "descent spans ch' x" "x # ch' = zs' @ b # anc" by blast
  moreover from this descent_unique [OF ids] have "ch = ch'" by blast
  ultimately show ?thesis by (auto intro: chain_tail_eq)
qed

lemma distinct_concat_trees:
  assumes ids: "distinct (map spanId spans)" and "distinct cs"
    and desc: "\<And>c. c \<in> set cs \<Longrightarrow> descent spans anc c"
    and grown: "\<And>c. c \<in> set cs \<Longrightarrow> grow (getChildSpansMap spans) fuel c = Some (f c)"
    and each: "\<And>c. c \<in> set cs \<Longrightarrow> distinct (preorder (f c))"
  shows "distinct (concat (map (\<lambda>c. preorder (f c)) cs))"
  using assms(2-)
proof (induction cs)
  case Nil
  then show ?case by simp
next
  case (Cons c cs)
  have "set (preorder (f c)) \<inter> set (preorder (f d)) = {}" if "d \<in> set cs" for d
  proof (rule ccontr)
    assume "set (preorder (f c)) \<inter> set (preorder (f d)) \<noteq> {}"
    then obtain x where "x \<in> set (preorder (f c))" "x \<in> set (preorder (f d))" by blast
    with that Cons.prems have "c = d"
      by (intro subtrees_disjoint [OF ids, of fuel c "f c" anc x d "f d"]) auto
    with that Cons.prems(1) show False by simp
  qed
  then have "set (preorder (f c)) \<inter> (\<Union>d\<in>set cs. set (preorder (f d))) = {}" by blast
  with Cons show ?case by simp
qed

lemma preorder_distinct:
  assumes ids: "distinct (map spanId spans)"
  shows "grow (getChildSpansMap spans) fuel s = Some t \<Longrightarrow> descent spans anc s \<Longrightarrow> distinct (preorder t)"
proof (induction fuel arbitrary: s t anc)
  case 0
  then show ?case by simp
next
  case (Suc fuel)
  let ?cm = "getChildSpansMap spans"
  show ?case
  proof (cases "collapsed s")
    case True
    with Suc.prems show ?thesis by auto
  next
    case False
    with Suc.prems obtain ts where t: "t = SpanNode s ts" and ts: "map (grow ?cm fuel) (kids ?cm (spanId s)) = map Some ts"
      by (auto simp: those_Some_iff)
    let ?f = "\<lambda>c. the (grow ?cm fuel c)"
    have "distinct (concat (map (\<lambda>c. preorder (?f c)) (kids ?cm (spanId s))))"
    proof (rule distinct_concat_trees [OF ids, where anc = "s # anc" and fuel = fuel])
      show "distinct (kids ?cm (spanId s))" using kids_distinct [OF ids] by (auto simp: distinct_map)
    next
      fix c assume c: "c \<in> set (kids ?cm (spanId s))"
      show "descent spans (s # anc) c" by (rule descent_kid [OF Suc.prems(2) c])
      show "grow ?cm fuel c = Some (?f c)" by (rule those_mapD(2) [OF ts c])
      then show "distinct (preorder (?f c))" by (rule Suc.IH) (rule descent_kid [OF Suc.prems(2) c])
    qed
    moreover have "s \<notin> set (preorder (?f c))" if c: "c \<in> set (kids ?cm (spanId s))" for c
    proof
      assume "s \<in> set (preorder (?f c))"
      from preorder_chain [OF those_mapD(2) [OF ts c] descent_kid [OF Suc.prems(2) c] this]
      obtain ch zs where "descent spans ch s" "s # ch = zs @ c # s # anc" by blast
      with descent_unique [OF ids Suc.prems(2)] have "length (s # anc) = length (zs @ c # s # anc)" by auto
      then show False by simp
    qed
    ultimately show ?thesis by (simp add: t those_mapD(1) [OF ts] o_def)
  qed
qed

lemma forest_distinct:
  assumes ids: "distinct (map spanId spans)" and "forest spans = Some ts"
  shows "distinct (concat (map preorder ts))"
proof -
  let ?g = "grow (getChildSpansMap spans) (Suc (length spans))"
  from assms(2) have ts: "map ?g (topLevelSpans spans) = map Some ts"
    by (simp only: forest_def those_Some_iff)
  have "distinct (concat (map (\<lambda>c. preorder (the (?g c))) (topLevelSpans spans)))"
  proof (rule distinct_concat_trees [OF ids, where anc = "[]" and fuel = "Suc (length spans)"])
    show "distinct (topLevelSpans spans)" using ids by (auto simp: topLevelSpans_def distinct_map)
  next
    fix c assume c: "c \<in> set (topLevelSpans spans)"
    show "descent spans [] c" by (rule descent_root [OF c])
    show "?g c = Some (the (?g c))" by (rule those_mapD(2) [OF ts c])
    then show "distinct (preorder (the (?g c)))" by (rule preorder_distinct [OF ids]) (rule descent_root [OF c])
  qed
  then show ?thesis by (simp add: those_mapD(1) [OF ts] o_def)
qed

section \<open>The layout of the rows\<close>

lemma map_row_span:
  "map row_span (rows_of cm pim bm y py t) = preorder t"
  "map row_span (rows_kids cm pim bm y py ts) = concat (map preorder ts)"
  by (induction cm pim bm y py t and cm pim bm y py ts rule: rows_of_rows_kids.induct)
    (simp_all add: mk_row_def)

lemma map_row_span_roots: "map row_span (rows_roots cm pim y ts) = concat (map preorder ts)"
  by (induction cm pim y ts rule: rows_roots.induct) (simp_all add: map_row_span)

text \<open>\<open>continues d rs\<close>: scanning the rows below, the first one at depth \<open>d + 1\<close> or less is at
  depth \<open>d + 1\<close>, so the guide line of depth \<open>d\<close> goes on.\<close>

fun continues :: "nat \<Rightarrow> tree_row list \<Rightarrow> bool" where
  "continues d [] = False"
| "continues d (r # rs) = (if Suc d < row_depth r then continues d rs else row_depth r = Suc d)"

fun masks_ok :: "tree_row list \<Rightarrow> bool" where
  "masks_ok [] = True"
| "masks_ok (r # rs) =
     (length (row_branchMask r) = row_depth r \<and>
      (\<forall>d < row_depth r. row_branchMask r ! d = continues d rs) \<and> masks_ok rs)"

lemma continues_skip:
  "(\<forall>r\<in>set rs. Suc d < row_depth r) \<Longrightarrow> continues d (rs @ rest) = continues d rest"
  by (induction rs) auto

lemma mk_row_depth [simp]: "row_depth (mk_row cm pim s d bm y py) = d"
  "row_branchMask (mk_row cm pim s d bm y py) = bm" "row_yOffset (mk_row cm pim s d bm y py) = y"
  "row_parentY (mk_row cm pim s d bm y py) = py" "row_span (mk_row cm pim s d bm y py) = s"
  by (simp_all add: mk_row_def)

lemma rows_depth:
  "r \<in> set (rows_of cm pim bm y py t) \<Longrightarrow> length bm \<le> row_depth r"
  "r \<in> set (rows_kids cm pim bm y py ts) \<Longrightarrow> length bm < row_depth r"
  by (induction cm pim bm y py t and cm pim bm y py ts rule: rows_of_rows_kids.induct)
    (auto simp: less_imp_le)

lemma rows_of_hd:
  "\<exists>r rs. rows_of cm pim bm y py t = r # rs \<and> row_depth r = length bm"
  by (cases t) auto

lemma continues_kids:
  "d < length bm \<Longrightarrow> continues d (rows_kids cm pim bm y py ts @ rest) = continues d rest"
  by (rule continues_skip) (fastforce dest: rows_depth(2))

definition shallow :: "nat \<Rightarrow> tree_row list \<Rightarrow> bool" where
  "shallow n rs \<longleftrightarrow> (case rs of [] \<Rightarrow> True | r # _ \<Rightarrow> row_depth r \<le> n)"

lemma masks_ok_rows:
  "masks_ok rest \<Longrightarrow> \<forall>d < length bm. bm ! d = continues d rest \<Longrightarrow> shallow (length bm) rest \<Longrightarrow>
     masks_ok (rows_of cm pim bm y py t @ rest)"
  "masks_ok rest \<Longrightarrow> \<forall>d < length bm. bm ! d = continues d rest \<Longrightarrow> shallow (length bm) rest \<Longrightarrow>
     masks_ok (rows_kids cm pim bm y py ts @ rest)"
proof (induction cm pim bm y py t and cm pim bm y py ts arbitrary: rest and rest rule: rows_of_rows_kids.induct)
  case (1 cm pim bm y py s ts)
  then show ?case by (simp add: continues_kids)
next
  case (2 cm pim bm y py)
  then show ?case by simp
next
  case (3 cm pim bm y py t ts)
  let ?rest = "rows_kids cm pim bm (y + 36 * int (tree_size t)) py ts @ rest"
  have ok: "masks_ok ?rest" by (rule "3.IH"(2)) (use "3.prems" in auto)
  have last: "continues (length bm) ?rest = (ts \<noteq> [])"
  proof (cases ts)
    case Nil
    then show ?thesis using "3.prems"(3) by (cases rest) (auto simp: shallow_def)
  next
    case (Cons u us)
    then show ?thesis
      using rows_of_hd [of cm pim "bm @ [us \<noteq> []]" "y + 36 * int (tree_size t)" py u] by auto
  qed
  have "\<forall>d < length (bm @ [ts \<noteq> []]). (bm @ [ts \<noteq> []]) ! d = continues d ?rest"
    using "3.prems"(2) last by (auto simp: nth_append less_Suc_eq continues_kids)
  moreover have "shallow (length (bm @ [ts \<noteq> []])) ?rest"
  proof (cases ts)
    case Nil
    then show ?thesis using "3.prems"(3) by (cases rest) (auto simp: shallow_def)
  next
    case (Cons u us)
    then show ?thesis
      using rows_of_hd [of cm pim "bm @ [us \<noteq> []]" "y + 36 * int (tree_size t)" py u]
      by (auto simp: shallow_def)
  qed
  ultimately have "masks_ok (rows_of cm pim (bm @ [ts \<noteq> []]) y py t @ ?rest)"
    using "3.IH"(1) ok by blast
  then show ?case by simp
qed

lemma masks_ok_roots: "masks_ok (rows_roots cm pim y ts)"
proof (induction cm pim y ts rule: rows_roots.induct)
  case (1 cm pim y)
  then show ?case by simp
next
  case (2 cm pim y t ts)
  have "shallow 0 (rows_roots cm pim (y + 36 * int (tree_size t)) ts)"
  proof (cases ts)
    case (Cons u us)
    then show ?thesis
      using rows_of_hd [of cm pim "[]" "y + 36 * int (tree_size t)" 0 u] by (auto simp: shallow_def)
  qed (simp add: shallow_def)
  with 2 show ?case by (simp add: masks_ok_rows)
qed

definition heights :: "int \<Rightarrow> nat \<Rightarrow> int list" where
  "heights y n = map (\<lambda>i. y + 36 * (int i + 1)) [0..<n]"

lemma heights_simps:
  "heights y 0 = []"
  "heights y (Suc n) = (y + 36) # heights (y + 36) n"
  "heights y (m + n) = heights y m @ heights (y + 36 * int m) n"
proof -
  show "heights y 0 = []" by (simp add: heights_def)
  show "heights y (Suc n) = (y + 36) # heights (y + 36) n"
    by (simp only: heights_def map_upt_Suc) (simp add: algebra_simps)
  show "heights y (m + n) = heights y m @ heights (y + 36 * int m) n"
    by (induction n) (simp_all add: heights_def algebra_simps)
qed

lemma rows_yOffset:
  "map row_yOffset (rows_of cm pim bm y py t) = heights y (tree_size t)"
  "map row_yOffset (rows_kids cm pim bm y py ts) = heights y (length (concat (map preorder ts)))"
  by (induction cm pim bm y py t and cm pim bm y py ts rule: rows_of_rows_kids.induct)
    (simp_all add: heights_simps del: length_concat)

lemma rows_roots_yOffset:
  "map row_yOffset (rows_roots cm pim y ts) = heights y (length (concat (map preorder ts)))"
  by (induction cm pim y ts rule: rows_roots.induct) (simp_all add: heights_simps rows_yOffset del: length_concat)

text \<open>Every row is a root row or hangs one level below the row of its parent, which stands
  above it and whose height is its \<open>parentY\<close>.\<close>

definition hangs :: "tree_row list \<Rightarrow> tree_row \<Rightarrow> bool" where
  "hangs seen r \<longleftrightarrow>
     (row_depth r = 0 \<and> row_parentY r = 0 \<and> \<not> truthy (parentSpanId (row_span r))) \<or>
     (\<exists>p\<in>set seen. row_depth r = Suc (row_depth p) \<and> row_parentY r = row_yOffset p \<and>
        parentSpanId (row_span r) = Some (spanId (row_span p)))"

fun anchored :: "tree_row list \<Rightarrow> tree_row list \<Rightarrow> bool" where
  "anchored seen [] = True"
| "anchored seen (r # rs) = (hangs seen r \<and> anchored (seen @ [r]) rs)"

fun linked :: "span_tree \<Rightarrow> bool" where
  "linked (SpanNode s ts) =
     (\<forall>t\<in>set ts. parentSpanId (node_span t) = Some (spanId s) \<and> linked t)"

lemma grow_linked: "grow (getChildSpansMap spans) fuel s = Some t \<Longrightarrow> linked t \<and> node_span t = s"
proof (induction fuel arbitrary: s t)
  case 0
  then show ?case by simp
next
  case (Suc fuel)
  show ?case
  proof (cases "collapsed s")
    case True
    with Suc.prems show ?thesis by auto
  next
    case False
    with Suc.prems obtain ts where t: "t = SpanNode s ts"
      and ts: "map (grow (getChildSpansMap spans) fuel) (kids (getChildSpansMap spans) (spanId s)) = map Some ts"
      by (auto simp: those_Some_iff)
    have "linked (the (grow (getChildSpansMap spans) fuel c)) \<and>
        node_span (the (grow (getChildSpansMap spans) fuel c)) = c"
      if "c \<in> set (kids (getChildSpansMap spans) (spanId s))" for c
      using Suc.IH [OF those_mapD(2) [OF ts that]] .
    then show ?thesis by (auto simp: t those_mapD(1) [OF ts])
  qed
qed

lemma hangs_mono: "hangs seen r \<Longrightarrow> set seen \<subseteq> set seen' \<Longrightarrow> hangs seen' r"
  by (auto simp: hangs_def)

lemma anchored_rows:
  "linked t \<Longrightarrow> hangs seen (mk_row cm pim (node_span t) (length bm) bm (y + 36) py) \<Longrightarrow>
     anchored (seen @ rows_of cm pim bm y py t) rest \<Longrightarrow>
     anchored seen (rows_of cm pim bm y py t @ rest)"
  "(\<forall>t\<in>set ts. linked t \<and> (\<exists>p\<in>set seen. row_depth p = length bm \<and> py = row_yOffset p \<and>
        parentSpanId (node_span t) = Some (spanId (row_span p)))) \<Longrightarrow>
     anchored (seen @ rows_kids cm pim bm y py ts) rest \<Longrightarrow>
     anchored seen (rows_kids cm pim bm y py ts @ rest)"
proof (induction cm pim bm y py t and cm pim bm y py ts arbitrary: seen rest and seen rest
    rule: rows_of_rows_kids.induct)
  case (1 cm pim bm y py s ts)
  let ?r = "mk_row cm pim s (length bm) bm (y + 36) py"
  have "anchored (seen @ [?r]) (rows_kids cm pim bm (y + 36) (y + 36) ts @ rest)"
  proof (rule "1.IH")
    show "\<forall>t\<in>set ts. linked t \<and> (\<exists>p\<in>set (seen @ [?r]). row_depth p = length bm \<and> y + 36 = row_yOffset p \<and>
        parentSpanId (node_span t) = Some (spanId (row_span p)))"
      using "1.prems"(1) by auto
  qed (use "1.prems" in simp)
  with "1.prems" show ?case by simp
next
  case (2 cm pim bm y py)
  then show ?case by simp
next
  case (3 cm pim bm y py t ts)
  from "3.prems"(1) obtain p where p: "p \<in> set seen" "row_depth p = length bm" "py = row_yOffset p"
    "parentSpanId (node_span t) = Some (spanId (row_span p))" and t: "linked t" by auto
  have "anchored (seen @ rows_of cm pim (bm @ [ts \<noteq> []]) y py t)
      (rows_kids cm pim bm (y + 36 * int (tree_size t)) py ts @ rest)"
    by (rule "3.IH"(2)) (use "3.prems" in auto)
  moreover have "hangs seen (mk_row cm pim (node_span t) (length (bm @ [ts \<noteq> []])) (bm @ [ts \<noteq> []]) (y + 36) py)"
    unfolding hangs_def by (intro disjI2 bexI [of _ p]) (use p in auto)
  ultimately show ?case using "3.IH"(1) [OF t] by simp
qed

lemma anchored_roots:
  "(\<forall>t\<in>set ts. linked t \<and> \<not> truthy (parentSpanId (node_span t))) \<Longrightarrow>
   anchored seen (rows_roots cm pim y ts)"
proof (induction cm pim y ts arbitrary: seen rule: rows_roots.induct)
  case (1 cm pim y)
  then show ?case by simp
next
  case (2 cm pim y t ts)
  have "anchored (seen @ rows_of cm pim [] y 0 t) (rows_roots cm pim (y + 36 * int (tree_size t)) ts)"
    using 2 by simp
  moreover have "hangs seen (mk_row cm pim (node_span t) (length ([]::bool list)) [] (y + 36) 0)"
    using "2.prems" by (simp add: hangs_def)
  ultimately show ?case using "2.prems" anchored_rows(1) [of t seen cm pim "[]" y 0] by simp
qed

lemma forest_linked:
  assumes "forest spans = Some ts" and "t \<in> set ts"
  shows "linked t \<and> \<not> truthy (parentSpanId (node_span t))"
proof -
  let ?g = "grow (getChildSpansMap spans) (Suc (length spans))"
  from assms(1) have ts: "map ?g (topLevelSpans spans) = map Some ts"
    by (simp only: forest_def those_Some_iff)
  with assms(2) obtain r where r: "r \<in> set (topLevelSpans spans)" "t = the (?g r)"
    by (auto simp: those_mapD(1) [OF ts])
  with grow_linked [OF those_mapD(2) [OF ts r(1)]] show ?thesis by (simp add: topLevelSpans_def)
qed

section \<open>Properties\<close>

lemma tree_rows_shown:
  assumes "distinct (map spanId spans)"
  shows "\<exists>rows. transformSpansToTree spans pim = Some rows \<and> distinct (map row_span rows) \<and>
           set (map row_span rows) = {s. shown spans s}"
proof -
  from forest_total [OF assms] obtain ts where ts: "forest spans = Some ts" ..
  let ?rows = "rows_roots (getChildSpansMap spans) pim 0 ts"
  show ?thesis
  proof (intro exI conjI)
    show "transformSpansToTree spans pim = Some ?rows" by (simp add: transformSpansToTree_eq ts)
    show "distinct (map row_span ?rows)"
      unfolding map_row_span_roots by (rule forest_distinct [OF assms ts])
    show "set (map row_span ?rows) = {s. shown spans s}"
      unfolding map_row_span_roots by (rule forest_shown [OF ts])
  qed
qed

text \<open>
  Claim C1. With distinct span ids \<open>transformSpansToTree\<close> returns, and its rows are exactly the spans
  that are shown (the roots, and the children of shown spans that are not collapsed), each once.
\<close>

theorem tree_rows_are_shown_spans:
  assumes "distinct (map spanId spans)"
  shows "\<exists>rows. transformSpansToTree spans pim = Some rows \<and> distinct (map row_span rows) \<and>
           set (map row_span rows) = {s. shown spans s}"
  by (rule tree_rows_shown [OF assms])

theorem tree_rows_are_shown_spans_witness:
  "\<exists>rows. transformSpansToTree [mk_span ''r'' None DEFAULT, mk_span ''a'' (Some ''r'') LLM] (\<lambda>_. None) = Some rows
     \<and> distinct (map row_span rows)
     \<and> set (map row_span rows) = {s. shown [mk_span ''r'' None DEFAULT, mk_span ''a'' (Some ''r'') LLM] s}"
  by (rule tree_rows_are_shown_spans) simp

text \<open>
  Claim C11. The guide lines are right: the branch mask of every row has one entry per depth above it,
  and entry \<open>d\<close> is set exactly when the rows below continue at depth \<open>d + 1\<close> before the tree
  climbs back to depth \<open>d\<close> or higher. The mutable \<open>activeAncestors\<close> array never leaks a stale bit.
\<close>

theorem tree_branch_masks:
  assumes "distinct (map spanId spans)"
  shows "\<exists>rows. transformSpansToTree spans pim = Some rows \<and> masks_ok rows"
  using forest_total [OF assms] by (auto simp: transformSpansToTree_eq masks_ok_roots)

theorem tree_branch_masks_witness:
  "\<exists>rows. transformSpansToTree [mk_span ''r'' None DEFAULT, mk_span ''a'' (Some ''r'') LLM,
      mk_span ''b'' (Some ''r'') LLM] (\<lambda>_. None) = Some rows \<and> masks_ok rows"
  by (rule tree_branch_masks) simp

text \<open>
  Rows are stacked 36 pixels apart in output order, and every row is a root or stands one
  level below an earlier row that shows its parent span and whose height it stores as \<open>parentY\<close>.
\<close>

lemma tree_layout:
  assumes "distinct (map spanId spans)"
  shows "\<exists>rows. transformSpansToTree spans pim = Some rows \<and> anchored [] rows \<and>
           map row_yOffset rows = map (\<lambda>i. 36 * (int i + 1)) [0..<length rows]"
proof -
  from forest_total [OF assms] obtain ts where ts: "forest spans = Some ts" ..
  let ?rows = "rows_roots (getChildSpansMap spans) pim 0 ts"
  have "length ?rows = length (concat (map preorder ts))"
    by (metis length_map map_row_span_roots)
  moreover have "anchored [] ?rows" by (rule anchored_roots) (use forest_linked [OF ts] in blast)
  ultimately show ?thesis
    unfolding transformSpansToTree_eq ts by (simp add: rows_roots_yOffset heights_def del: length_concat)
qed

theorem tree_layout_witness:
  "\<exists>rows. transformSpansToTree [mk_span ''r'' None DEFAULT, mk_span ''a'' (Some ''r'') LLM] (\<lambda>_. None) = Some rows
     \<and> anchored [] rows \<and> map row_yOffset rows = map (\<lambda>i. 36 * (int i + 1)) [0..<length rows]"
  by (rule tree_layout) simp

end
