(* ===== verification/PathInfo.thy ===== *)
theory PathInfo
  imports SpanTree
begin

text \<open>
  \<open>computePathInfoMap\<close> and its helpers of \<open>components/traces/trace-view/store/utils.ts\<close>: the
  breadcrumb of every span. Parent chains are read from the span map (memoised in the code),
  spans are grouped into sections that start at an LLM span, and within a section repeated
  names are numbered.
\<close>

section \<open>The code\<close>

text \<open>\<open>groupIntoSections\<close>\<close>

definition section_step :: "span list list \<Rightarrow> span \<Rightarrow> span list list" where
  "section_step sections s =
     (if sections \<noteq> [] \<and> spanType s = LLM \<and> last sections \<noteq> [] then sections @ [[s]]
      else if sections = [] then [[s]]
      else butlast sections @ [last sections @ [s]])"

definition groupIntoSections :: "span list \<Rightarrow> span list list" where
  "groupIntoSections listSpans = foldl section_step [] listSpans"

text \<open>The recurrence \<open>getParentIds\<close> computes, without its cache (the specification of the memoised
  walk): the ids from the topmost known ancestor to the parent.\<close>

definition known_parent :: "(string \<times> span) list \<Rightarrow> string \<Rightarrow> span option" where
  "known_parent sm i = (case parent_of sm i of None \<Rightarrow> None | Some p \<Rightarrow> map_of sm p)"

partial_function (option) getParentIds :: "(string \<times> span) list \<Rightarrow> string \<Rightarrow> string list option" where
  "getParentIds sm i = (case known_parent sm i of
     None \<Rightarrow> Some []
   | Some p \<Rightarrow> Option.bind (getParentIds sm (spanId p)) (\<lambda>ps. Some (ps @ [spanId p])))"

text \<open>\<open>getParentIds\<close> as written, with \<open>parentChainCache\<close> threaded through.\<close>

partial_function (option) getParentIdsMemo ::
  "(string \<times> span) list \<Rightarrow> string \<Rightarrow> (string \<times> string list) list \<Rightarrow> (string list \<times> (string \<times> string list) list) option"
where
  "getParentIdsMemo sm i cache = (case map_of cache i of
     Some cached \<Rightarrow> Some (cached, cache)
   | None \<Rightarrow> (case known_parent sm i of
       None \<Rightarrow> Some ([], AList.update i [] cache)
     | Some p \<Rightarrow> Option.bind (getParentIdsMemo sm (spanId p) cache)
         (\<lambda>r. Some (fst r @ [spanId p], AList.update i (fst r @ [spanId p]) (snd r)))))"

text \<open>\<open>buildSpanNameMap\<close>\<close>

definition commonParentIndex :: "string list list \<Rightarrow> nat" where
  "commonParentIndex pchains =
     (case pchains of
        [] \<Rightarrow> 0
      | c0 # _ \<Rightarrow> foldl (\<lambda>maxIndex (i, x). if (\<forall>c\<in>set pchains. i < length c \<and> c ! i = x) then i else maxIndex)
                    0 (enumerate 0 c0))"

definition name_step ::
  "(string \<times> span) list \<Rightarrow> (string \<times> nat) list \<times> (string \<times> (string \<times> nat option)) list \<Rightarrow> string
     \<Rightarrow> (string \<times> nat) list \<times> (string \<times> (string \<times> nat option)) list"
where
  "name_step sm st i = (case map_of sm i of
     None \<Rightarrow> st
   | Some s \<Rightarrow>
       (let count = (case map_of (fst st) (name s) of None \<Rightarrow> 0 | Some c \<Rightarrow> c) + 1
        in (AList.update (name s) count (fst st),
            AList.update (spanId s) (name s, if count > 1 then Some count else None) (snd st))))"

text \<open>\<open>section.map((s) => [...getParentIds(s.spanId), s.spanId])\<close>, the cache threaded through.\<close>

fun section_chains ::
  "(string \<times> span) list \<Rightarrow> (string \<times> string list) list \<Rightarrow> span list
     \<Rightarrow> (string list list \<times> (string \<times> string list) list) option"
where
  "section_chains sm cache [] = Some ([], cache)"
| "section_chains sm cache (s # ss) =
     (case getParentIdsMemo sm (spanId s) cache of
        None \<Rightarrow> None
      | Some (ps, cache1) \<Rightarrow>
          (case section_chains sm cache1 ss of
             None \<Rightarrow> None
           | Some (pcs, cache2) \<Rightarrow> Some ((ps @ [spanId s]) # pcs, cache2)))"

definition name_section ::
  "(string \<times> span) list \<Rightarrow> string list list \<Rightarrow> (string \<times> (string \<times> nat option)) list
     \<Rightarrow> (string \<times> (string \<times> nat option)) list"
where
  "name_section sm pchains m =
     (let ci = commonParentIndex pchains;
          spansInContext = js_set (concat (map (drop ci) pchains))
      in snd (foldl (name_step sm) ([], m) spansInContext))"

fun buildSpanNameMap ::
  "(string \<times> span) list \<Rightarrow> span list list \<Rightarrow> (string \<times> string list) list
     \<Rightarrow> (string \<times> (string \<times> nat option)) list
     \<Rightarrow> ((string \<times> (string \<times> nat option)) list \<times> (string \<times> string list) list) option"
where
  "buildSpanNameMap sm [] cache m = Some (m, cache)"
| "buildSpanNameMap sm (section # rest) cache m =
     (case section_chains sm cache section of
        None \<Rightarrow> None
      | Some (pchains, cache1) \<Rightarrow> buildSpanNameMap sm rest cache1 (name_section sm pchains m))"

text \<open>\<open>buildPathInfo\<close>\<close>

definition enrich :: "(string \<times> (string \<times> nat option)) list \<Rightarrow> string \<times> string \<Rightarrow> path_ref" where
  "enrich names ref =
     (let info = map_of names (fst ref) in
      \<lparr>pr_spanId = fst ref,
       pr_name = (case info of Some (n, _) \<Rightarrow> if n \<noteq> [] then n else snd ref | None \<Rightarrow> snd ref),
       pr_count = (case info of Some (_, c) \<Rightarrow> c | None \<Rightarrow> None)\<rparr>)"

definition ellipsis :: path_ref where
  "ellipsis = \<lparr>pr_spanId = ''...'', pr_name = ''...'', pr_count = None\<rparr>"

definition buildPathInfo ::
  "(string \<times> string) list \<Rightarrow> (string \<times> (string \<times> nat option)) list \<Rightarrow> path_info"
where
  "buildPathInfo chain names =
     (if chain = [] then None
      else let enriched = map (enrich names) chain;
               n = length enriched;
               display = (if n \<le> 3 then enriched else [ellipsis, enriched ! (n - 2), enriched ! (n - 1)])
           in Some (display, chain))"

text \<open>\<open>computePathInfoMap\<close>\<close>

definition chain_refs :: "(string \<times> span) list \<Rightarrow> string list \<Rightarrow> (string \<times> string) list" where
  "chain_refs sm ids = List.map_filter (\<lambda>i. map_option (\<lambda>p. (spanId p, name p)) (map_of sm i)) ids"

fun path_info_loop ::
  "(string \<times> span) list \<Rightarrow> (string \<times> (string \<times> nat option)) list \<Rightarrow> span list
     \<Rightarrow> (string \<times> string list) list \<Rightarrow> (string \<times> path_info) list \<Rightarrow> (string \<times> path_info) list option"
where
  "path_info_loop sm names [] cache m = Some m"
| "path_info_loop sm names (s # ss) cache m =
     (case getParentIdsMemo sm (spanId s) cache of
        None \<Rightarrow> None
      | Some (ids, cache1) \<Rightarrow> path_info_loop sm names ss cache1
                      (AList.update (spanId s) (buildPathInfo (chain_refs sm ids) names) m))"

definition computePathInfoMap :: "span list \<Rightarrow> (string \<times> path_info) list option" where
  "computePathInfoMap spans =
     (let sm = spanMap spans;
          sections = groupIntoSections (filter (\<lambda>s. spanType s \<noteq> DEFAULT) spans)
      in case buildSpanNameMap sm sections [] [] of
           None \<Rightarrow> None
         | Some (names, cache) \<Rightarrow> path_info_loop sm names spans cache [])"

section \<open>Sections\<close>

lemma section_step_concat: "concat (section_step xss s) = concat xss @ [s]"
  by (cases xss rule: rev_cases) (simp_all add: section_step_def)

text \<open>Shape of a sectioning: no empty section, an LLM span only at the head of a section, and
  every section but the first starts with one.\<close>

definition sectioned :: "span list list \<Rightarrow> bool" where
  "sectioned xss \<longleftrightarrow> (\<forall>xs\<in>set xss. xs \<noteq> [] \<and> (\<forall>s\<in>set (tl xs). spanType s \<noteq> LLM)) \<and>
     (\<forall>xs\<in>set (tl xss). spanType (hd xs) = LLM)"

lemma sectioned_step: "sectioned xss \<Longrightarrow> sectioned (section_step xss s)"
proof (cases xss rule: rev_cases)
  case Nil
  then show ?thesis by (simp add: sectioned_def section_step_def)
next
  case (snoc ys y)
  assume "sectioned xss"
  with snoc show ?thesis
    by (cases y; cases ys) (auto simp: sectioned_def section_step_def)
qed

section \<open>Parent chains\<close>

lemma known_parent_Some: "known_parent sm i = Some p \<Longrightarrow> \<exists>q. parent_of sm i = Some q \<and> map_of sm q = Some p"
  by (auto simp: known_parent_def split: option.splits)

lemma getParentIds_None_step: "known_parent sm i = None \<Longrightarrow> getParentIds sm i = Some []"
  by (subst getParentIds.simps) simp

lemma getParentIds_Some_step:
  "known_parent sm i = Some p \<Longrightarrow>
     getParentIds sm i = Option.bind (getParentIds sm (spanId p)) (\<lambda>ps. Some (ps @ [spanId p]))"
  by (subst getParentIds.simps) simp

lemma getParentIds_total:
  assumes "rooted spans"
  shows "\<exists>ps. getParentIds (spanMap spans) i = Some ps"
proof -
  from assms obtain rank :: "string \<Rightarrow> nat"
    where rank: "\<And>i p. parent_of (spanMap spans) i = Some p \<Longrightarrow> rank p < rank i"
    unfolding rooted_def by blast
  show ?thesis
  proof (induction "rank i" arbitrary: i rule: less_induct)
    case less
    show ?case
    proof (cases "known_parent (spanMap spans) i")
      case None
      then show ?thesis by (simp add: getParentIds_None_step)
    next
      case (Some p)
      then obtain q where q: "parent_of (spanMap spans) i = Some q" "map_of (spanMap spans) q = Some p"
        by (blast dest: known_parent_Some)
      then have "spanId p = q" by (blast dest: spanMap_SomeD)
      with less rank q obtain ps where "getParentIds (spanMap spans) (spanId p) = Some ps" by blast
      with Some show ?thesis by (simp add: getParentIds_Some_step)
    qed
  qed
qed

lemma getParentIds_known:
  "getParentIds (spanMap spans) i = Some ids \<Longrightarrow> j \<in> set ids \<Longrightarrow> \<exists>s. map_of (spanMap spans) j = Some s"
proof (induction ids arbitrary: i rule: rev_induct)
  case Nil
  then show ?case by simp
next
  case (snoc x ids)
  then obtain p where p: "known_parent (spanMap spans) i = Some p"
    by (cases "known_parent (spanMap spans) i") (auto simp: getParentIds_None_step)
  with snoc.prems(1) have x: "x = spanId p" "getParentIds (spanMap spans) (spanId p) = Some ids"
    by (auto simp: getParentIds_Some_step split: Option.bind_splits)
  from known_parent_Some [OF p] have "map_of (spanMap spans) x = Some p"
    unfolding x(1) by (metis spanMap_SomeD)
  with snoc.IH [OF x(2)] snoc.prems(2) show ?case by auto
qed

text \<open>The memoised walk computes the plain one and keeps its cache consistent.\<close>

definition cache_ok :: "(string \<times> span) list \<Rightarrow> (string \<times> string list) list \<Rightarrow> bool" where
  "cache_ok sm cache \<longleftrightarrow> (\<forall>i xs. map_of cache i = Some xs \<longrightarrow> getParentIds sm i = Some xs)"

lemma cache_ok_update:
  "cache_ok sm cache \<Longrightarrow> getParentIds sm i = Some xs \<Longrightarrow> cache_ok sm (AList.update i xs cache)"
  by (auto simp: cache_ok_def update_conv)

lemma memo_complete:
  "getParentIds sm i = Some xs \<Longrightarrow> cache_ok sm cache \<Longrightarrow>
     \<exists>cache'. getParentIdsMemo sm i cache = Some (xs, cache') \<and> cache_ok sm cache'"
proof (induction xs arbitrary: i cache rule: rev_induct)
  case Nil
  show ?case
  proof (cases "map_of cache i")
    case (Some c)
    with Nil show ?thesis by (auto simp: cache_ok_def getParentIdsMemo.simps [of sm i cache])
  next
    case None
    have "known_parent sm i = None"
      using Nil(1) by (cases "known_parent sm i") (auto simp: getParentIds_Some_step split: Option.bind_splits)
    with None Nil show ?thesis
      by (auto simp: getParentIdsMemo.simps [of sm i cache] intro: cache_ok_update)
  qed
next
  case (snoc x xs)
  show ?case
  proof (cases "map_of cache i")
    case (Some c)
    with snoc.prems show ?thesis by (auto simp: cache_ok_def getParentIdsMemo.simps [of sm i cache])
  next
    case None
    obtain p where p: "known_parent sm i = Some p"
      using snoc.prems(1) by (cases "known_parent sm i") (auto simp: getParentIds_None_step)
    with snoc.prems(1) have x: "x = spanId p" "getParentIds sm (spanId p) = Some xs"
      by (auto simp: getParentIds_Some_step split: Option.bind_splits)
    from snoc.IH [OF x(2) snoc.prems(2)] obtain cache' where
      "getParentIdsMemo sm (spanId p) cache = Some (xs, cache')" "cache_ok sm cache'" by blast
    with None p x snoc.prems(1) show ?thesis
      by (auto simp: getParentIdsMemo.simps [of sm i cache] intro: cache_ok_update)
  qed
qed

section \<open>Name counters\<close>

text \<open>Labels of one section: every label counted so far is at most the counter of its name,
  and no two ids carry the same label.\<close>

definition labels_ok ::
  "(string \<times> nat) list \<Rightarrow> (string \<times> (string \<times> nat option)) list \<Rightarrow> bool"
where
  "labels_ok counter m \<longleftrightarrow>
     (\<forall>i n c. map_of m i = Some (n, c) \<longrightarrow>
        (\<exists>k. map_of counter n = Some k \<and> (case c of None \<Rightarrow> 1 | Some l \<Rightarrow> l) \<le> k) \<and> c \<noteq> Some 1) \<and>
     (\<forall>i j. map_of m i = map_of m j \<longrightarrow> map_of m i \<noteq> None \<longrightarrow> i = j)"

lemma name_step_labels:
  assumes ok: "labels_ok (fst st) (snd st)" and fresh: "map_of (snd st) i = None"
  shows "labels_ok (fst (name_step (spanMap spans) st i)) (snd (name_step (spanMap spans) st i))"
proof (cases "map_of (spanMap spans) i")
  case None
  with ok show ?thesis by (simp add: name_step_def)
next
  case (Some s)
  then have sid: "spanId s = i" by (blast dest: spanMap_SomeD)
  define cnt where "cnt = (case map_of (fst st) (name s) of None \<Rightarrow> 0 | Some c \<Rightarrow> c) + 1"
  have old: "\<exists>k. map_of (fst st) n = Some k \<and> (case c of None \<Rightarrow> 1 | Some l \<Rightarrow> l) \<le> k"
    if "map_of (snd st) j = Some (n, c)" for j n c
    using ok that unfolding labels_ok_def by blast
  have lt: "(case c of None \<Rightarrow> 1 | Some l \<Rightarrow> l) < cnt" if "map_of (snd st) j = Some (name s, c)" for j c
    using old [OF that] unfolding cnt_def by auto
  show ?thesis
    unfolding labels_ok_def
  proof (intro conjI allI impI)
    fix j n c
    assume "map_of (snd (name_step (spanMap spans) st i)) j = Some (n, c)"
    then have j: "if j = i then n = name s \<and> c = (if 1 < cnt then Some cnt else None) else map_of (snd st) j = Some (n, c)"
      by (auto simp: name_step_def Some Let_def sid cnt_def update_conv split: if_splits)
    show "\<exists>k. map_of (fst (name_step (spanMap spans) st i)) n = Some k \<and> (case c of None \<Rightarrow> 1 | Some l \<Rightarrow> l) \<le> k"
    proof (cases "j = i")
      case True
      with j show ?thesis by (auto simp: name_step_def Some Let_def cnt_def update_conv)
    next
      case False
      with j have m: "map_of (snd st) j = Some (n, c)" by simp
      show ?thesis
      proof (cases "n = name s")
        case True
        with lt m show ?thesis
          by (auto simp: name_step_def Some Let_def cnt_def update_conv intro: less_imp_le)
      next
        case False
        with old [OF m] show ?thesis by (auto simp: name_step_def Some Let_def update_conv)
      qed
    qed
    show "c \<noteq> Some 1" using j ok unfolding labels_ok_def by (auto split: if_splits)
  next
    fix j k
    assume eq: "map_of (snd (name_step (spanMap spans) st i)) j = map_of (snd (name_step (spanMap spans) st i)) k"
      and ne: "map_of (snd (name_step (spanMap spans) st i)) j \<noteq> None"
    have look: "map_of (snd (name_step (spanMap spans) st i)) x =
        (if x = i then Some (name s, if 1 < cnt then Some cnt else None) else map_of (snd st) x)" for x
      by (auto simp: name_step_def Some Let_def sid cnt_def update_conv)
    have neq: "map_of (snd st) x \<noteq> Some (name s, if 1 < cnt then Some cnt else None)" for x
      using lt [of x] by (fastforce split: if_splits)
    show "j = k"
      using eq ne neq ok unfolding look labels_ok_def by (metis (no_types, lifting))
  qed
qed

lemma name_step_keys:
  "map_of (snd (name_step (spanMap spans) st i)) j = None \<longleftrightarrow>
     map_of (snd st) j = None \<and> \<not> (j = i \<and> (\<exists>s. map_of (spanMap spans) i = Some s))"
  by (auto simp: name_step_def Let_def update_conv dest: spanMap_SomeD split: option.splits)

lemma name_steps_labels:
  "distinct ids \<Longrightarrow> labels_ok (fst st) (snd st) \<Longrightarrow> \<forall>i\<in>set ids. map_of (snd st) i = None \<Longrightarrow>
   labels_ok (fst (foldl (name_step (spanMap spans)) st ids)) (snd (foldl (name_step (spanMap spans)) st ids))"
proof (induction ids arbitrary: st)
  case Nil
  then show ?case by simp
next
  case (Cons i ids)
  have "labels_ok (fst (name_step (spanMap spans) st i)) (snd (name_step (spanMap spans) st i))"
    by (rule name_step_labels) (use Cons.prems in auto)
  moreover have "\<forall>j\<in>set ids. map_of (snd (name_step (spanMap spans) st i)) j = None"
    using Cons.prems by (auto simp: name_step_keys)
  ultimately show ?case using Cons.IH Cons.prems(1) by simp
qed

section \<open>Groups and chains, put together\<close>

lemma groupIntoSections_snoc:
  "groupIntoSections (xs @ [s]) = section_step (groupIntoSections xs) s"
  by (simp add: groupIntoSections_def)

lemma groupIntoSections_shape: "concat (groupIntoSections xs) = xs \<and> sectioned (groupIntoSections xs)"
proof (induction xs rule: rev_induct)
  case Nil
  show ?case by (simp add: groupIntoSections_def sectioned_def)
next
  case (snoc s xs)
  then show ?case by (simp add: groupIntoSections_snoc section_step_concat sectioned_step)
qed

text \<open>The links of a chain \<open>ids\<close> above the id \<open>i\<close>: every id is the known parent of the next one
  (the last one of \<open>i\<close>), and the first has no known parent.\<close>

fun linked :: "(string \<times> span) list \<Rightarrow> string list \<Rightarrow> string \<Rightarrow> bool" where
  "linked sm [] i \<longleftrightarrow> known_parent sm i = None"
| "linked sm (x # ids) i \<longleftrightarrow> known_parent sm x = None \<and>
     list_all2 (\<lambda>p c. \<exists>s. known_parent sm c = Some s \<and> spanId s = p) (x # ids) (ids @ [i])"

lemma linked_snoc:
  "linked sm ids (spanId p) \<Longrightarrow> known_parent sm i = Some p \<Longrightarrow> linked sm (ids @ [spanId p]) i"
proof (cases ids)
  case (Cons a list)
  assume *: "linked sm ids (spanId p)" "known_parent sm i = Some p"
  then have "list_all2 (\<lambda>p c. \<exists>s. known_parent sm c = Some s \<and> spanId s = p)
      ((a # list) @ [spanId p]) ((list @ [spanId p]) @ [i])"
    by (intro list_all2_appendI) (simp_all add: Cons)
  with * show ?thesis by (simp add: Cons)
qed simp

lemma getParentIds_linked: "getParentIds sm i = Some ids \<Longrightarrow> linked sm ids i"
proof (induction ids arbitrary: i rule: rev_induct)
  case Nil
  then show ?case
    by (cases "known_parent sm i") (auto simp: getParentIds_Some_step split: Option.bind_splits)
next
  case (snoc x ids)
  then obtain p where p: "known_parent sm i = Some p"
    by (cases "known_parent sm i") (auto simp: getParentIds_None_step)
  with snoc.prems have x: "x = spanId p" "getParentIds sm (spanId p) = Some ids"
    by (auto simp: getParentIds_Some_step split: Option.bind_splits)
  show ?case unfolding x(1) by (rule linked_snoc [OF snoc.IH [OF x(2)] p])
qed

lemma section_chains_plain:
  assumes "\<And>s. s \<in> set ss \<Longrightarrow> \<exists>ps. getParentIds sm (spanId s) = Some ps" and "cache_ok sm cache"
  shows "\<exists>cache'. section_chains sm cache ss =
      Some (map (\<lambda>s. the (getParentIds sm (spanId s)) @ [spanId s]) ss, cache') \<and> cache_ok sm cache'"
  using assms
proof (induction ss arbitrary: cache)
  case Nil
  then show ?case by simp
next
  case (Cons s ss)
  from Cons.prems(1) [of s] obtain ps where ps: "getParentIds sm (spanId s) = Some ps" by auto
  from memo_complete [OF this Cons.prems(2)] obtain c1 where
    c1: "getParentIdsMemo sm (spanId s) cache = Some (ps, c1)" "cache_ok sm c1" by blast
  from Cons.IH [OF _ c1(2)] Cons.prems(1) obtain c2 where
    "section_chains sm c1 ss = Some (map (\<lambda>s. the (getParentIds sm (spanId s)) @ [spanId s]) ss, c2)"
    "cache_ok sm c2" by auto
  with c1 ps show ?case by simp
qed

definition plain_chains :: "(string \<times> span) list \<Rightarrow> span list \<Rightarrow> string list list" where
  "plain_chains sm ss = map (\<lambda>s. the (getParentIds sm (spanId s)) @ [spanId s]) ss"

lemma buildSpanNameMap_plain:
  assumes "\<And>i. \<exists>ps. getParentIds sm i = Some ps" and "cache_ok sm cache"
  shows "\<exists>cache'. buildSpanNameMap sm secs cache m =
      Some (foldl (\<lambda>m sec. name_section sm (plain_chains sm sec) m) m secs, cache') \<and> cache_ok sm cache'"
  using assms(2)
proof (induction secs arbitrary: cache m)
  case Nil
  then show ?case by simp
next
  case (Cons sec secs)
  from section_chains_plain [of sec sm cache] assms(1) Cons.prems obtain c1 where
    c1: "section_chains sm cache sec = Some (plain_chains sm sec, c1)" "cache_ok sm c1"
    unfolding plain_chains_def by blast
  from Cons.IH [OF c1(2)] c1(1) show ?case by simp
qed

lemma path_info_loop_plain:
  assumes "\<And>i. \<exists>ps. getParentIds sm i = Some ps" and "cache_ok sm cache"
  shows "path_info_loop sm names ss cache m =
     Some (foldl (\<lambda>m s. AList.update (spanId s)
       (buildPathInfo (chain_refs sm (the (getParentIds sm (spanId s)))) names) m) m ss)"
  using assms(2)
proof (induction ss arbitrary: cache m)
  case Nil
  then show ?case by simp
next
  case (Cons s ss)
  from assms(1) [of "spanId s"] obtain ps where ps: "getParentIds sm (spanId s) = Some ps" by blast
  from memo_complete [OF this Cons.prems] obtain c1 where
    "getParentIdsMemo sm (spanId s) cache = Some (ps, c1)" "cache_ok sm c1" by blast
  with Cons.IH ps show ?case by simp
qed

text \<open>What \<open>computePathInfoMap\<close> computes, without the cache.\<close>

definition span_names :: "span list \<Rightarrow> (string \<times> (string \<times> nat option)) list" where
  "span_names spans = foldl (\<lambda>m sec. name_section (spanMap spans) (plain_chains (spanMap spans) sec) m) []
     (groupIntoSections (filter (\<lambda>s. spanType s \<noteq> DEFAULT) spans))"

lemma computePathInfoMap_eq:
  assumes "rooted spans"
  shows "computePathInfoMap spans = Some (js_map_of spanId (\<lambda>s. buildPathInfo
     (chain_refs (spanMap spans) (the (getParentIds (spanMap spans) (spanId s)))) (span_names spans)) spans)"
proof -
  have ok: "cache_ok (spanMap spans) []" by (simp add: cache_ok_def)
  have tot: "\<exists>ps. getParentIds (spanMap spans) i = Some ps" for i by (rule getParentIds_total [OF assms])
  from buildSpanNameMap_plain [of "spanMap spans", OF tot ok,
      of "groupIntoSections (filter (\<lambda>s. spanType s \<noteq> DEFAULT) spans)" "[]"]
  obtain c where c: "buildSpanNameMap (spanMap spans) (groupIntoSections (filter (\<lambda>s. spanType s \<noteq> DEFAULT) spans)) [] [] =
      Some (span_names spans, c)" "cache_ok (spanMap spans) c"
    unfolding span_names_def by blast
  show ?thesis
    by (simp add: computePathInfoMap_def Let_def c path_info_loop_plain [OF tot c(2)] js_map_of_def)
qed

lemma chain_refs_known:
  "\<forall>i\<in>set ids. \<exists>s. map_of (spanMap spans) i = Some s \<Longrightarrow>
     chain_refs (spanMap spans) ids = map (\<lambda>i. (i, name (the (map_of (spanMap spans) i)))) ids"
  by (induction ids) (auto simp: chain_refs_def map_filter_simps dest: spanMap_SomeD)

lemma buildPathInfo_None: "buildPathInfo c names = None \<longleftrightarrow> c = []"
  by (simp add: buildPathInfo_def Let_def)

lemma buildPathInfo_Some:
  assumes "buildPathInfo c names = Some (display, full)"
  shows "full = c \<and> length display = min 3 (length c) \<and> pr_spanId (last display) = fst (last c)"
proof -
  from assms have c: "c \<noteq> []" by (auto simp: buildPathInfo_def)
  then have "last (map (enrich names) c) = enrich names (last c)" by (simp add: last_map)
  moreover have "enrich names (c ! (length c - Suc 0)) = enrich names (last c)" using c by (simp add: last_conv_nth)
  ultimately show ?thesis using assms c
    by (auto simp: buildPathInfo_def Let_def enrich_def split: if_splits)
qed

section \<open>Properties\<close>

text \<open>
  \<open>groupIntoSections\<close> cuts the list of spans without dropping, repeating or reordering
  any: the sections concatenate to the input, no section is empty, an LLM span is never inside a
  section but only its first element, and every section except the first starts with one.
\<close>

lemma sections_partition:
  "concat (groupIntoSections xs) = xs \<and>
   [] \<notin> set (groupIntoSections xs) \<and>
   (\<forall>sec\<in>set (groupIntoSections xs). LLM \<notin> spanType ` set (tl sec)) \<and>
   (\<forall>sec\<in>set (tl (groupIntoSections xs)). spanType (hd sec) = LLM)"
  using groupIntoSections_shape [of xs] unfolding sectioned_def by (auto simp: image_iff) metis

lemma sections_partition_witness:
  "concat (groupIntoSections [mk_span ''a'' None LLM, mk_span ''b'' None TOOL, mk_span ''c'' None LLM]) =
     [mk_span ''a'' None LLM, mk_span ''b'' None TOOL, mk_span ''c'' None LLM]"
  using sections_partition [of "[mk_span ''a'' None LLM, mk_span ''b'' None TOOL, mk_span ''c'' None LLM]"] by simp

text \<open>
  On spans with distinct ids whose parent links have no cycle, \<open>computePathInfoMap\<close>
  returns, and gives every span a path that is absent exactly for a span without a known parent;
  otherwise the full path lists, with their names, the chain of known ancestors from the topmost
  one (which has no known parent itself) down to the parent, each the known parent of the next;
  the path to display has at most three entries and ends with the parent.
  The chains come out of the shared cache of \<open>getParentIds\<close>.
\<close>

lemma path_info_chain:
  assumes "rooted spans" and "distinct (map spanId spans)"
  shows "\<exists>m. computePathInfoMap spans = Some m \<and> (\<forall>s\<in>set spans. \<exists>ids info.
     linked (spanMap spans) ids (spanId s) \<and>
     map_of m (spanId s) = Some info \<and> (info = None \<longleftrightarrow> ids = []) \<and>
     (\<forall>display full. info = Some (display, full) \<longrightarrow>
        full = map (\<lambda>i. (i, name (the (map_of (spanMap spans) i)))) ids \<and>
        length display = min 3 (length ids) \<and> pr_spanId (last display) = last ids))"
proof -
  let ?f = "\<lambda>s. buildPathInfo (chain_refs (spanMap spans) (the (getParentIds (spanMap spans) (spanId s)))) (span_names spans)"
  have "\<exists>ids info. linked (spanMap spans) ids (spanId s) \<and>
     map_of (js_map_of spanId ?f spans) (spanId s) = Some info \<and> (info = None \<longleftrightarrow> ids = []) \<and>
     (\<forall>display full. info = Some (display, full) \<longrightarrow>
        full = map (\<lambda>i. (i, name (the (map_of (spanMap spans) i)))) ids \<and>
        length display = min 3 (length ids) \<and> pr_spanId (last display) = last ids)" if "s \<in> set spans" for s
  proof -
    obtain ids where ids: "getParentIds (spanMap spans) (spanId s) = Some ids"
      using getParentIds_total [OF assms(1)] by blast
    have refs: "chain_refs (spanMap spans) ids = map (\<lambda>i. (i, name (the (map_of (spanMap spans) i)))) ids"
      by (rule chain_refs_known) (use getParentIds_known [OF ids] in blast)
    have "map_of (js_map_of spanId ?f spans) (spanId s) = Some (buildPathInfo (chain_refs (spanMap spans) ids) (span_names spans))"
      using js_map_of_distinct [OF assms(2) that, of ?f] by (simp add: ids)
    moreover have "buildPathInfo (chain_refs (spanMap spans) ids) (span_names spans) = None \<longleftrightarrow> ids = []"
      by (simp add: buildPathInfo_None refs)
    moreover have "full = map (\<lambda>i. (i, name (the (map_of (spanMap spans) i)))) ids \<and>
        length display = min 3 (length ids) \<and> pr_spanId (last display) = last ids"
      if "buildPathInfo (chain_refs (spanMap spans) ids) (span_names spans) = Some (display, full)" for display full
      using buildPathInfo_Some [OF that] buildPathInfo_None [of "chain_refs (spanMap spans) ids" "span_names spans"] that
      by (auto simp: refs last_map)
    ultimately show ?thesis using getParentIds_linked [OF ids]
      by (intro exI [of _ ids] exI [of _ "buildPathInfo (chain_refs (spanMap spans) ids) (span_names spans)"]
          conjI allI impI) simp_all
  qed
  with computePathInfoMap_eq [OF assms(1)] show ?thesis by blast
qed

lemma path_info_chain_witness:
  "\<exists>m. computePathInfoMap [mk_span ''a'' None LLM, mk_span ''b'' (Some ''a'') TOOL] = Some m \<and>
     (\<exists>info. map_of m ''b'' = Some info)"
proof -
  have "rooted [mk_span ''a'' None LLM, mk_span ''b'' (Some ''a'') TOOL]"
    by (rule rootedI [where rank = "\<lambda>i. if i = ''b'' then 1 else 0"]) auto
  from path_info_chain [OF this] show ?thesis by fastforce
qed

text \<open>Numbering a section only overwrites the labels of the section's own ids.\<close>

lemma name_steps_shift:
  "fst (foldl (name_step sm) (c, m) ids) = fst (foldl (name_step sm) (c, []) ids) \<and>
   map_of (snd (foldl (name_step sm) (c, m) ids)) k =
     (case map_of (snd (foldl (name_step sm) (c, []) ids)) k of None \<Rightarrow> map_of m k | Some v \<Rightarrow> Some v)"
proof (induction ids rule: rev_induct)
  case Nil
  then show ?case by simp
next
  case (snoc i ids)
  then show ?case
    by (auto simp: name_step_def Let_def update_conv split: option.splits)
qed

lemma name_steps_keys:
  "map_of (snd (foldl (name_step (spanMap spans)) st ids)) j = None \<longleftrightarrow>
     map_of (snd st) j = None \<and> \<not> (j \<in> set ids \<and> (\<exists>s. map_of (spanMap spans) j = Some s))"
proof (induction ids arbitrary: st)
  case Nil
  then show ?case by simp
next
  case (Cons i ids)
  then show ?case by (auto simp: name_step_keys)
qed

lemma name_steps_names:
  "map_of (snd (foldl (name_step (spanMap spans)) (c, []) ids)) j = Some (n, k) \<Longrightarrow>
     \<exists>s. map_of (spanMap spans) j = Some s \<and> n = name s"
proof (induction ids rule: rev_induct)
  case Nil
  then show ?case by simp
next
  case (snoc i ids)
  show ?case
  proof (cases "map_of (spanMap spans) i")
    case None
    with snoc show ?thesis by (simp add: name_step_def)
  next
    case (Some s)
    then have "spanId s = i" by (blast dest: spanMap_SomeD)
    with Some snoc show ?thesis
      by (auto simp: name_step_def Let_def update_conv split: if_splits)
  qed
qed

text \<open>
  Within a section, the labels the breadcrumb shows tell spans apart: after the section
  has been numbered, every known span in its context carries its own name, and two different spans of
  the context never carry the same name with the same number, whatever the earlier sections left.
\<close>

lemma section_labels_distinct:
  assumes "i \<in> set (concat (map (drop (commonParentIndex pcs)) pcs))"
    and "j \<in> set (concat (map (drop (commonParentIndex pcs)) pcs))"
    and "map_of (spanMap spans) i = Some s" and "map_of (spanMap spans) j = Some t" and "i \<noteq> j"
  shows "\<exists>k l. map_of (name_section (spanMap spans) pcs m) i = Some (name s, k) \<and>
     map_of (name_section (spanMap spans) pcs m) j = Some (name t, l) \<and> (name s, k) \<noteq> (name t, l)"
proof -
  define ids where "ids = js_set (concat (map (drop (commonParentIndex pcs)) pcs))"
  define f where "f = snd (foldl (name_step (spanMap spans)) ([], []) ids)"
  have ok: "labels_ok (fst (foldl (name_step (spanMap spans)) ([], []) ids)) f"
    unfolding f_def by (rule name_steps_labels) (simp_all add: ids_def labels_ok_def)
  have lab: "\<exists>k. map_of f x = Some (name u, k) \<and> map_of (name_section (spanMap spans) pcs m) x = Some (name u, k)"
    if "x \<in> set ids" "map_of (spanMap spans) x = Some u" for x u
  proof -
    have "map_of f x \<noteq> None" using that by (simp add: f_def name_steps_keys)
    then obtain n k where "map_of f x = Some (n, k)" by (cases "map_of f x") auto
    moreover from this that(2) have "n = name u" by (auto simp: f_def dest: name_steps_names)
    ultimately show ?thesis
      by (simp add: name_section_def Let_def name_steps_shift [of _ _ m] f_def ids_def [symmetric])
  qed
  have "i \<in> set ids" "j \<in> set ids" using assms(1,2) by (simp_all add: ids_def)
  from lab [OF this(1) assms(3)] lab [OF this(2) assms(4)] obtain k l where
    kl: "map_of f i = Some (name s, k)" "map_of (name_section (spanMap spans) pcs m) i = Some (name s, k)"
      "map_of f j = Some (name t, l)" "map_of (name_section (spanMap spans) pcs m) j = Some (name t, l)" by blast
  have "(name s, k) \<noteq> (name t, l)"
    using ok kl(1,3) assms(5) unfolding labels_ok_def by (metis option.distinct(1))
  with kl show ?thesis by blast
qed

lemma section_labels_distinct_witness:
  "map_of (name_section (spanMap [mk_span ''a'' None LLM, mk_span ''b'' None TOOL]) [[''a''], [''b'']] []) ''a'' \<noteq>
   map_of (name_section (spanMap [mk_span ''a'' None LLM, mk_span ''b'' None TOOL]) [[''a''], [''b'']] []) ''b''"
  using section_labels_distinct [of "''a''" "[[''a''], [''b'']]" "''b''" "[mk_span ''a'' None LLM, mk_span ''b'' None TOOL]"
      "mk_span ''a'' None LLM" "mk_span ''b'' None TOOL" "[]"]
  by (auto simp: commonParentIndex_def spanMap_def js_map_of_def)

end
