(* ===== verification/Subagents.thy ===== *)
theory Subagents
  imports SpanModel
begin

text \<open>
  Subagent grouping of \<open>components/traces/trace-view/store/utils.ts\<close>: which LLM spans belong to
  which agent, which agent is the main one, and where the other spans are placed.

  \<open>ck\<close> is the collation key of \<open>String.localeCompare\<close>, by which timestamps are sorted; the
  plain comparisons \<open><=\<close> and \<open>>\<close> on timestamps in \<open>buildSpanToAnchorMap\<close> are string comparisons.
  Attributes are read at their declared type: an attribute of another type reads as absent.
\<close>

section \<open>The code\<close>

record llm_info =
  li_spanId :: string
  li_parentSpanId :: string
  li_spanPath :: string
  li_spanPathLength :: nat
  li_promptHash :: string
  li_invocationRoot :: string
  li_idsPath :: "string list"
  li_inputTokens :: number
  li_startTime :: string

record grouping =
  llmToAnchor :: "(string \<times> string) list"
  mainAgentAncestors :: "string set"
  subagentAncestors :: "(string \<times> string list) list"
  anchorLlmTimes :: "(string \<times> string list) list"

definition MAIN_AGENT_SEARCH_WINDOW :: nat where "MAIN_AGENT_SEARCH_WINDOW = 5"

definition compositeKey :: "string \<Rightarrow> string \<Rightarrow> string \<Rightarrow> string" where
  "compositeKey parentSpanPath promptHash invocationRoot =
     parentSpanPath @ [nul] @ promptHash @ [nul] @ invocationRoot"

definition pathHashKey :: "string \<Rightarrow> string \<Rightarrow> string" where
  "pathHashKey parentSpanPath promptHash = parentSpanPath @ [nul] @ promptHash"

text \<open>\<open>computeInvocationRoots\<close>\<close>

definition directParentId :: "llm_info \<Rightarrow> string" where
  "directParentId s =
     (if length (li_idsPath s) \<ge> 2 then li_idsPath s ! (length (li_idsPath s) - 2) else li_parentSpanId s)"

definition llmsPerParent :: "llm_info list \<Rightarrow> (string \<times> nat) list" where
  "llmsPerParent cluster = foldl (\<lambda>m s. AList.update (directParentId s)
     ((case map_of m (directParentId s) of None \<Rightarrow> 0 | Some n \<Rightarrow> n) + 1) m) [] cluster"

definition structuralPrefix :: "(string \<times> nat) list \<Rightarrow> llm_info \<Rightarrow> string" where
  "structuralPrefix perParent s =
     (let p = directParentId s; n = length (li_idsPath s)
      in if (case map_of perParent p of None \<Rightarrow> 0 | Some k \<Rightarrow> k) \<ge> 2
         then (if n \<ge> 2 then join [nul] (take (n - 1) (li_idsPath s)) else p)
         else (if n \<le> 2 then [] else join [nul] (take (n - 2) (li_idsPath s))))"

definition computeInvocationRoots :: "llm_info list \<Rightarrow> (string \<times> string) list" where
  "computeInvocationRoots cluster =
     (case cluster of
        [] \<Rightarrow> []
      | [s] \<Rightarrow> AList.update (li_spanId s) [] []
      | s0 # _ \<Rightarrow>
          (let perParent = llmsPerParent cluster;
               keys = map (structuralPrefix perParent) cluster
           in if (\<forall>k\<in>set keys. k = hd keys)
              then js_map_of li_spanId (\<lambda>s. []) cluster
              else js_map_of fst snd (zip (map li_spanId cluster) keys)))"

text \<open>\<open>computeSubagentBoundaries\<close>: the LLM spans, sorted, with their invocation roots\<close>

definition ids_path_of :: "span \<Rightarrow> string list" where
  "ids_path_of s = filter (\<lambda>i. i \<noteq> null_span_id) (attr_list (attributes s ''lmnr.span.ids_path''))"

definition llm_info_of :: "span \<Rightarrow> llm_info" where
  "llm_info_of s =
     (let promptHash = (case attr_str (attributes s ''lmnr.span.prompt_hash'') of None \<Rightarrow> [] | Some h \<Rightarrow> h);
          spanPathArr = attr_list (attributes s ''lmnr.span.path'')
      in \<lparr>li_spanId = spanId s,
          li_parentSpanId = (case parentSpanId s of None \<Rightarrow> [] | Some p \<Rightarrow> p),
          li_spanPath = join ''.'' (butlast spanPathArr),
          li_spanPathLength = length spanPathArr,
          li_promptHash = promptHash,
          li_invocationRoot = [],
          li_idsPath = ids_path_of s,
          li_inputTokens = inputTokens s,
          li_startTime = startTime s\<rparr>)"

definition path_hash_of :: "llm_info \<Rightarrow> string" where
  "path_hash_of s = pathHashKey (li_spanPath s) (li_promptHash s)"

definition clusters_of :: "llm_info list \<Rightarrow> (string \<times> llm_info list) list" where
  "clusters_of llmSpans = foldl (\<lambda>m s. amap_push (path_hash_of s) s m) [] llmSpans"

definition fill_root :: "(string \<times> llm_info list) list \<Rightarrow> llm_info \<Rightarrow> llm_info" where
  "fill_root clusters s =
     (let bucket = (case map_of clusters (path_hash_of s) of None \<Rightarrow> [] | Some b \<Rightarrow> b);
          roots = computeInvocationRoots bucket
      in s\<lparr>li_invocationRoot := (case map_of roots (li_spanId s) of None \<Rightarrow> [] | Some r \<Rightarrow> r)\<rparr>)"

definition llm_infos :: "(string \<Rightarrow> 'c::linorder) \<Rightarrow> span list \<Rightarrow> llm_info list" where
  "llm_infos ck spans =
     (let llmSpans = sort_key (\<lambda>i. ck (li_startTime i)) (map llm_info_of (filter is_llm spans))
      in map (fill_root (clusters_of llmSpans)) llmSpans)"

text \<open>The main agent\<close>

definition better_main :: "llm_info \<Rightarrow> llm_info \<Rightarrow> llm_info" where
  "better_main best s =
     (if li_spanPathLength s < li_spanPathLength best then s
      else if li_spanPathLength s = li_spanPathLength best \<and> li_inputTokens s > li_inputTokens best then s
      else best)"

definition main_span :: "llm_info list \<Rightarrow> llm_info option" where
  "main_span llmSpans =
     (case take MAIN_AGENT_SEARCH_WINDOW (filter (\<lambda>s. li_promptHash s \<noteq> []) llmSpans) of
        [] \<Rightarrow> None
      | s # ss \<Rightarrow> Some (foldl better_main s ss))"

text \<open>Anchors and claims\<close>

definition info_key :: "llm_info \<Rightarrow> string" where
  "info_key s = compositeKey (li_spanPath s) (li_promptHash s) (li_invocationRoot s)"

definition keyToAnchor :: "string \<Rightarrow> llm_info list \<Rightarrow> (string \<times> string) list" where
  "keyToAnchor mainKey llmSpans = foldl (\<lambda>m s.
     if path_hash_of s = mainKey then m
     else if map_of m (info_key s) \<noteq> None then m
     else AList.update (info_key s) (li_spanId s) m) [] llmSpans"

definition no_grouping :: grouping where
  "no_grouping = \<lparr>llmToAnchor = [], mainAgentAncestors = {}, subagentAncestors = [], anchorLlmTimes = []\<rparr>"

definition claim_step :: "string \<Rightarrow> (string \<times> string) list \<Rightarrow> grouping \<Rightarrow> llm_info \<Rightarrow> grouping" where
  "claim_step mainKey k2a g s =
     (let ancestors = butlast (li_idsPath s) in
      if path_hash_of s = mainKey
      then g\<lparr>mainAgentAncestors := mainAgentAncestors g \<union> set ancestors\<rparr>
      else case map_of k2a (info_key s) of
             None \<Rightarrow> g
           | Some anchor \<Rightarrow>
               if anchor = [] then g
               else g\<lparr>llmToAnchor := AList.update (li_spanId s) anchor (llmToAnchor g),
                      subagentAncestors := foldl (\<lambda>m a. AList.update a
                        (js_add anchor (case map_of m a of None \<Rightarrow> [] | Some xs \<Rightarrow> xs)) m)
                        (subagentAncestors g) ancestors,
                      anchorLlmTimes := amap_push anchor (li_startTime s) (anchorLlmTimes g)\<rparr>)"

definition computeSubagentBoundaries :: "(string \<Rightarrow> 'c::linorder) \<Rightarrow> span list \<Rightarrow> grouping" where
  "computeSubagentBoundaries ck spans =
     (let llmSpans = llm_infos ck spans in
      case main_span llmSpans of
        None \<Rightarrow> no_grouping
      | Some m \<Rightarrow> foldl (claim_step (path_hash_of m) (keyToAnchor (path_hash_of m) llmSpans)) no_grouping llmSpans)"

text \<open>\<open>buildSpanToAnchorMap\<close>\<close>

text \<open>The inner scan: the last start time not after the span's.\<close>

fun last_not_after :: "string \<Rightarrow> string list \<Rightarrow> string option" where
  "last_not_after t [] = None"
| "last_not_after t (x # rev_times) = (if x \<le> t then Some x else last_not_after t rev_times)"

definition choose_step ::
  "(string \<times> string list) list \<Rightarrow> string \<Rightarrow> string option \<times> string \<Rightarrow> string \<Rightarrow> string option \<times> string"
where
  "choose_step anchorTimes t c anchor =
     (case map_of anchorTimes anchor of
        None \<Rightarrow> c
      | Some ts \<Rightarrow>
          (case last_not_after t (rev ts) of
             None \<Rightarrow> c
           | Some x \<Rightarrow> if x > snd c then (Some anchor, x) else c))"

fun resolve_from :: "grouping \<Rightarrow> string \<Rightarrow> string list \<Rightarrow> string option" where
  "resolve_from g t [] = None"
| "resolve_from g t (ancestorId # up) =
     (if ancestorId \<in> mainAgentAncestors g then None
      else case map_of (subagentAncestors g) ancestorId of
             None \<Rightarrow> resolve_from g t up
           | Some subClaims \<Rightarrow>
               (case subClaims of
                  [a] \<Rightarrow> Some a
                | _ \<Rightarrow> fst (foldl (choose_step (anchorLlmTimes g) t) (None, []) subClaims)))"

definition resolveSubagent :: "grouping \<Rightarrow> string list \<Rightarrow> string \<Rightarrow> string option" where
  "resolveSubagent g idsPath spanStartTime = resolve_from g spanStartTime (rev (butlast idsPath))"

definition llm_anchor_step :: "grouping \<Rightarrow> (string \<times> string) list \<Rightarrow> span \<Rightarrow> (string \<times> string) list" where
  "llm_anchor_step g m s = (let a = map_of (llmToAnchor g) (spanId s) in
     if truthy a then AList.update (spanId s) (the a) m else m)"

definition other_anchor_step :: "grouping \<Rightarrow> (string \<times> string) list \<Rightarrow> span \<Rightarrow> (string \<times> string) list" where
  "other_anchor_step g m s =
     (if map_of m (spanId s) \<noteq> None then m
      else if is_llm s then m
      else if ids_path_of s = [] then m
      else let a = resolveSubagent g (ids_path_of s) (startTime s) in
        if truthy a then AList.update (spanId s) (the a) m else m)"

definition buildSpanToAnchorMap :: "span list \<Rightarrow> grouping \<Rightarrow> (string \<times> string) list" where
  "buildSpanToAnchorMap allSpans g =
     (let result = foldl (llm_anchor_step g) [] allSpans
      in if subagentAncestors g = [] then result
         else foldl (other_anchor_step g) result allSpans)"

text \<open>\<open>spanToAnchor.get(span.spanId)\<close>, with the falsy empty id read as absent.\<close>

definition anchor_of :: "(string \<times> string) list \<Rightarrow> span \<Rightarrow> string option" where
  "anchor_of s2a s = (let a = map_of s2a (spanId s) in if truthy a then a else None)"

text \<open>\<open>computeSubagentGroups\<close>\<close>

definition group_id :: "string \<Rightarrow> string" where
  "group_id anchor = ''group-'' @ anchor"

definition computeSubagentGroups :: "(string \<Rightarrow> 'c::linorder) \<Rightarrow> span list \<Rightarrow> (string \<times> string list) list" where
  "computeSubagentGroups ck allSpans =
     (let g = computeSubagentBoundaries ck allSpans in
      if llmToAnchor g = [] then []
      else let s2a = buildSpanToAnchorMap allSpans g;
               m = foldl (\<lambda>m s. case anchor_of s2a s of None \<Rightarrow> m | Some a \<Rightarrow> amap_push a (spanId s) m) [] allSpans
           in map (\<lambda>(anchor, spanIds). (group_id anchor, spanIds)) m)"

text \<open>\<open>computeVisibleSpanIds\<close>; \<open>None\<close> when the walk to the root does not end.\<close>

definition computeVisibleSpanIds :: "string list \<Rightarrow> span list \<Rightarrow> string set option" where
  "computeVisibleSpanIds selectedIds spans =
     (if selectedIds = [] then Some {}
      else map_option (\<lambda>walks. set selectedIds \<union> \<Union> (set (map set walks)))
             (those (map (walk_up (spanMap spans)) selectedIds)))"

section \<open>Invocation roots\<close>

lemma llmsPerParent_count:
  "(case map_of (llmsPerParent cluster) p of None \<Rightarrow> 0 | Some n \<Rightarrow> n) =
     length (filter (\<lambda>s. directParentId s = p) cluster)"
proof (induction cluster rule: rev_induct)
  case Nil
  then show ?case by (simp add: llmsPerParent_def)
next
  case (snoc s ss)
  have "llmsPerParent (ss @ [s]) = AList.update (directParentId s)
     ((case map_of (llmsPerParent ss) (directParentId s) of None \<Rightarrow> 0 | Some n \<Rightarrow> n) + 1) (llmsPerParent ss)"
    by (simp add: llmsPerParent_def)
  with snoc show ?case by (cases "p = directParentId s") (simp_all add: update_conv)
qed

text \<open>Joining strings that do not contain the separator is injective on lists of one length.\<close>

lemma split_at_nul:
  "nul \<notin> set a \<Longrightarrow> nul \<notin> set b \<Longrightarrow> a @ nul # r = b @ nul # q \<Longrightarrow> a = b \<and> r = q"
proof (induction a arbitrary: b)
  case Nil
  then show ?case by (cases b) auto
next
  case (Cons x a)
  then show ?case by (cases b) auto
qed

lemma join_inj:
  "\<forall>x\<in>set xs. x \<noteq> [] \<and> nul \<notin> set x \<Longrightarrow> \<forall>y\<in>set ys. y \<noteq> [] \<and> nul \<notin> set y \<Longrightarrow>
   join [nul] xs = join [nul] ys \<Longrightarrow> xs = ys"
proof (induction "[nul]" xs arbitrary: ys rule: join.induct)
  case 1
  then show ?case by (cases ys rule: remdups_adj.cases) auto
next
  case (2 x)
  then show ?case by (cases ys rule: remdups_adj.cases) auto
next
  case (3 x y zs)
  then obtain a b cs where ys: "ys = a # b # cs" by (cases ys rule: remdups_adj.cases) auto
  with 3 have xa: "x = a \<and> join [nul] (y # zs) = join [nul] (b # cs)" by (intro split_at_nul) auto
  have "y # zs = b # cs" by (rule "3.hyps") (use 3 ys xa in auto)
  with ys xa show ?case by simp
qed

lemma compositeKey_inj:
  assumes "nul \<notin> set p" "nul \<notin> set p'" "nul \<notin> set h" "nul \<notin> set h'"
  shows "compositeKey p h r = compositeKey p' h' r' \<longleftrightarrow> p = p' \<and> h = h' \<and> r = r'"
  using assms split_at_nul [of p p' "h @ nul # r" "h' @ nul # r'"] split_at_nul [of h h' r r']
  by (auto simp: compositeKey_def)

lemma pathHashKey_inj:
  assumes "nul \<notin> set p" "nul \<notin> set p'"
  shows "pathHashKey p h = pathHashKey p' h' \<longleftrightarrow> p = p' \<and> h = h'"
  using assms split_at_nul [of p p' h h'] by (auto simp: pathHashKey_def)

section \<open>Anchors\<close>

lemma keyToAnchor_lookup:
  "map_of (keyToAnchor mk xs) k =
     (case filter (\<lambda>s. path_hash_of s \<noteq> mk \<and> info_key s = k) xs of
        [] \<Rightarrow> None | s # _ \<Rightarrow> Some (li_spanId s))"
proof (induction xs rule: rev_induct)
  case Nil
  then show ?case by (simp add: keyToAnchor_def)
next
  case (snoc s ss)
  have "keyToAnchor mk (ss @ [s]) =
     (if path_hash_of s = mk then keyToAnchor mk ss
      else if map_of (keyToAnchor mk ss) (info_key s) \<noteq> None then keyToAnchor mk ss
      else AList.update (info_key s) (li_spanId s) (keyToAnchor mk ss))"
    by (simp add: keyToAnchor_def)
  with snoc show ?case by (auto simp: update_conv split: list.splits)
qed

text \<open>The anchor a non-main LLM span gets: the first span of its key, in start-time order.\<close>

definition anchor_spec :: "string \<Rightarrow> llm_info list \<Rightarrow> llm_info \<Rightarrow> string option" where
  "anchor_spec mk infos s =
     (if path_hash_of s = mk then None
      else let a = map_of (keyToAnchor mk infos) (info_key s) in if truthy a then a else None)"

lemma claim_step_llmToAnchor:
  "llmToAnchor (claim_step mk (keyToAnchor mk infos) g s) =
     (case anchor_spec mk infos s of None \<Rightarrow> llmToAnchor g | Some a \<Rightarrow> AList.update (li_spanId s) a (llmToAnchor g))"
  by (auto simp: claim_step_def anchor_spec_def Let_def split: option.splits)

lemma claims_llmToAnchor:
  "distinct (map li_spanId xs) \<Longrightarrow>
   map_of (llmToAnchor (foldl (claim_step mk (keyToAnchor mk infos)) g xs)) i =
     (case find (\<lambda>s. li_spanId s = i) xs of
        None \<Rightarrow> map_of (llmToAnchor g) i
      | Some s \<Rightarrow> (case anchor_spec mk infos s of None \<Rightarrow> map_of (llmToAnchor g) i | Some a \<Rightarrow> Some a))"
proof (induction xs arbitrary: g)
  case Nil
  then show ?case by simp
next
  case (Cons s xs)
  have "find (\<lambda>t. li_spanId t = li_spanId s) xs = None"
    using Cons.prems by (auto simp: find_None_iff image_iff)
  with Cons show ?case
    by (auto simp: claim_step_llmToAnchor update_conv split: option.splits)
qed

lemma llm_infos_ids:
  "mset (map li_spanId (llm_infos ck spans)) = mset (map spanId (filter is_llm spans))"
proof -
  have "li_spanId (fill_root c i) = li_spanId i" for c i by (simp add: fill_root_def Let_def)
  moreover have "li_spanId (llm_info_of s) = spanId s" for s by (simp add: llm_info_of_def Let_def)
  ultimately show ?thesis by (simp add: llm_infos_def Let_def o_def image_mset.compositionality)
qed

lemma llm_infos_distinct:
  "distinct (map spanId spans) \<Longrightarrow> distinct (map li_spanId (llm_infos ck spans))"
  by (metis llm_infos_ids distinct_map_filter mset_eq_imp_distinct_iff)

lemma fill_root_startTime [simp]: "li_startTime (fill_root c i) = li_startTime i"
  by (simp add: fill_root_def Let_def)

lemma llm_infos_sorted: "sorted (map (\<lambda>i. ck (li_startTime i)) (llm_infos ck spans))"
  by (simp add: llm_infos_def Let_def o_def)

lemma find_distinct: "distinct (map f xs) \<Longrightarrow> x \<in> set xs \<Longrightarrow> find (\<lambda>y. f y = f x) xs = Some x"
  by (induction xs) auto

lemma boundaries_lookup:
  assumes "distinct (map spanId spans)" and "main_span (llm_infos ck spans) = Some m"
    and "s \<in> set (llm_infos ck spans)"
  shows "map_of (llmToAnchor (computeSubagentBoundaries ck spans)) (li_spanId s) =
     anchor_spec (path_hash_of m) (llm_infos ck spans) s"
  using claims_llmToAnchor [OF llm_infos_distinct [OF assms(1), of ck], of "path_hash_of m" "llm_infos ck spans" no_grouping "li_spanId s"]
    find_distinct [OF llm_infos_distinct [OF assms(1)] assms(3)] assms(2)
  by (simp add: computeSubagentBoundaries_def Let_def no_grouping_def split: option.splits)

lemma filter_head_first:
  assumes "sorted (map f xs)" and "filter P xs = a # as" and "x \<in> set xs" and "P x"
  shows "f a \<le> f x"
proof -
  have "sorted (map f (filter P xs))" using assms(1) by (rule sorted_filter)
  moreover have "x \<in> set (a # as)" using assms(3,4) unfolding assms(2) [symmetric] by simp
  ultimately show ?thesis using assms(2) by auto
qed

text \<open>The anchor of a span of another agent, characterised.\<close>

lemma anchor_spec_member:
  assumes "s \<in> set infos" and "path_hash_of s \<noteq> mk" and "sorted (map (\<lambda>i. ck (li_startTime i)) infos)"
  obtains a where "a \<in> set infos" "path_hash_of a \<noteq> mk" "info_key a = info_key s"
    "map_of (keyToAnchor mk infos) (info_key s) = Some (li_spanId a)"
    "\<forall>t\<in>set infos. path_hash_of t \<noteq> mk \<longrightarrow> info_key t = info_key s \<longrightarrow> ck (li_startTime a) \<le> ck (li_startTime t)"
proof -
  let ?P = "\<lambda>t. path_hash_of t \<noteq> mk \<and> info_key t = info_key s"
  obtain a as where f: "filter ?P infos = a # as"
    using assms by (metis (mono_tags, lifting) filter_empty_conv list.exhaust)
  then have "a \<in> set (filter ?P infos)" by simp
  then have "a \<in> set infos" "?P a" by auto
  moreover have "\<forall>t\<in>set infos. ?P t \<longrightarrow> ck (li_startTime a) \<le> ck (li_startTime t)"
    using filter_head_first [OF assms(3) f] by blast
  ultimately show thesis using that f by (auto simp: keyToAnchor_lookup)
qed

section \<open>Properties\<close>

text \<open>
  With distinct, non-empty span ids and a main agent, the LLM spans of the main agent are
  never grouped, and every other LLM span is anchored at the span that starts first among those of
  its path, prompt hash and invocation; that span is its own anchor, and two such spans share an
  anchor exactly when they share path, prompt hash and invocation.
\<close>
lemma subagent_anchors:
  assumes "distinct (map spanId spans)" and "[] \<notin> spanId ` set spans"
    and "main_span (llm_infos ck spans) = Some m" and "s \<in> set (llm_infos ck spans)"
    and "anchor = (\<lambda>i. map_of (llmToAnchor (computeSubagentBoundaries ck spans)) (li_spanId i))"
    and "others = {i \<in> set (llm_infos ck spans). path_hash_of i \<noteq> path_hash_of m}"
  shows "if s \<notin> others then anchor s = None
     else \<exists>a\<in>others. anchor s = Some (li_spanId a) \<and> anchor a = Some (li_spanId a) \<and>
       info_key a = info_key s \<and>
       (\<forall>t\<in>others. (anchor t = anchor s) = (info_key t = info_key s)) \<and>
       (\<forall>t\<in>others. info_key t = info_key s \<longrightarrow> ck (li_startTime a) \<le> ck (li_startTime t))"
proof (cases "s \<in> others")
  case False
  with assms boundaries_lookup [OF assms(1,3,4)] show ?thesis by (simp add: anchor_spec_def)
next
  case True
  let ?mk = "path_hash_of m" and ?I = "llm_infos ck spans"
  have ids: "li_spanId ` set ?I \<subseteq> spanId ` set spans"
    using arg_cong [OF llm_infos_ids [of ck spans], of set_mset] by auto
  have at: "\<exists>a\<in>others. anchor t = Some (li_spanId a) \<and> info_key a = info_key t \<and>
      map_of (keyToAnchor ?mk ?I) (info_key t) = Some (li_spanId a) \<and>
      (\<forall>u\<in>others. info_key u = info_key t \<longrightarrow> ck (li_startTime a) \<le> ck (li_startTime u))"
    if "t \<in> others" for t
  proof -
    from that assms(6) have t: "t \<in> set ?I" "path_hash_of t \<noteq> ?mk" by auto
    from anchor_spec_member [OF t llm_infos_sorted] obtain a where
      a: "a \<in> set ?I" "path_hash_of a \<noteq> ?mk" "info_key a = info_key t"
        "map_of (keyToAnchor ?mk ?I) (info_key t) = Some (li_spanId a)"
        "\<forall>u\<in>set ?I. path_hash_of u \<noteq> ?mk \<longrightarrow> info_key u = info_key t \<longrightarrow> ck (li_startTime a) \<le> ck (li_startTime u)"
      by blast
    have "li_spanId a \<in> spanId ` set spans" by (rule subsetD [OF ids imageI [OF a(1)]])
    with assms(2) have "li_spanId a \<noteq> []" by metis
    then have "anchor t = Some (li_spanId a)"
      unfolding assms(5) boundaries_lookup [OF assms(1,3) t(1)] anchor_spec_def using t(2) a(4) by simp
    moreover have "a \<in> others" using a(1,2) unfolding assms(6) by blast
    moreover have "\<forall>u\<in>others. info_key u = info_key t \<longrightarrow> ck (li_startTime a) \<le> ck (li_startTime u)"
      using a(5) unfolding assms(6) by blast
    ultimately show ?thesis using a(3,4) by blast
  qed
  from at [OF True] obtain a where
    a: "a \<in> others" "anchor s = Some (li_spanId a)" "info_key a = info_key s"
      "map_of (keyToAnchor ?mk ?I) (info_key s) = Some (li_spanId a)"
      "\<forall>u\<in>others. info_key u = info_key s \<longrightarrow> ck (li_startTime a) \<le> ck (li_startTime u)" by blast
  from at [OF a(1)] obtain a' :: llm_info where "anchor a = Some (li_spanId a')"
      "map_of (keyToAnchor ?mk ?I) (info_key a) = Some (li_spanId a')" by blast
  with a(3,4) have self: "anchor a = Some (li_spanId a)" by simp
  have same: "(anchor t = anchor s) = (info_key t = info_key s)" if t: "t \<in> others" for t
  proof
    from at [OF t] obtain b where b: "b \<in> others" "anchor t = Some (li_spanId b)" "info_key b = info_key t" by blast
    assume "anchor t = anchor s"
    with a(2) b(2) have "li_spanId a = li_spanId b" by simp
    moreover have "a \<in> set ?I" "b \<in> set ?I" using a(1) b(1) unfolding assms(6) by blast+
    ultimately have "a = b"
      using llm_infos_distinct [OF assms(1), of ck] unfolding distinct_map by (blast dest: inj_onD)
    with a(3) b(3) show "info_key t = info_key s" by simp
  next
    assume "info_key t = info_key s"
    moreover from at [OF t] obtain b :: llm_info where "anchor t = Some (li_spanId b)"
      "map_of (keyToAnchor ?mk ?I) (info_key t) = Some (li_spanId b)" by blast
    ultimately show "anchor t = anchor s" using a(2,4) by simp
  qed
  have "\<exists>a\<in>others. anchor s = Some (li_spanId a) \<and> anchor a = Some (li_spanId a) \<and>
       info_key a = info_key s \<and>
       (\<forall>t\<in>others. (anchor t = anchor s) = (info_key t = info_key s)) \<and>
       (\<forall>t\<in>others. info_key t = info_key s \<longrightarrow> ck (li_startTime a) \<le> ck (li_startTime t))"
    using a self same by blast
  then show ?thesis using True by simp
qed

text \<open>The part of \<open>ids_path\<close> that identifies the invocation of a span within its cluster.\<close>

definition kept_path :: "llm_info list \<Rightarrow> llm_info \<Rightarrow> string list" where
  "kept_path cluster s = take (length (li_idsPath s) -
      (if 2 \<le> length (filter (\<lambda>t. directParentId t = directParentId s) cluster) then 1 else 2)) (li_idsPath s)"

lemma structuralPrefix_kept:
  "2 \<le> length (li_idsPath s) \<Longrightarrow> structuralPrefix (llmsPerParent cluster) s = join [nul] (kept_path cluster s)"
  by (simp add: structuralPrefix_def Let_def llmsPerParent_count kept_path_def)

lemma computeInvocationRoots_lookup:
  assumes "2 \<le> length cluster" and "distinct (map li_spanId cluster)" and "s \<in> set cluster"
    and "keys = map (structuralPrefix (llmsPerParent cluster)) cluster"
  shows "map_of (computeInvocationRoots cluster) (li_spanId s) =
     Some (if \<forall>k\<in>set keys. k = hd keys then [] else structuralPrefix (llmsPerParent cluster) s)"
proof -
  obtain s0 s1 ss where c: "cluster = s0 # s1 # ss"
    using assms(1) by (cases cluster rule: remdups_adj.cases) auto
  have z: "zip (map li_spanId cluster) keys = map (\<lambda>s. (li_spanId s, structuralPrefix (llmsPerParent cluster) s)) cluster"
    unfolding assms(4) by (simp add: zip_map_map zip_same_conv_map)
  have "map_of (js_map_of fst snd (zip (map li_spanId cluster) keys)) (fst (li_spanId s, structuralPrefix (llmsPerParent cluster) s))
      = Some (snd (li_spanId s, structuralPrefix (llmsPerParent cluster) s))"
    by (rule js_map_of_distinct) (use assms(2,3) in \<open>auto simp: z o_def\<close>)
  moreover have "map_of (js_map_of li_spanId (\<lambda>s. []) cluster) (li_spanId s) = Some ([]::string)"
    by (rule js_map_of_distinct) (use assms(2,3) in auto)
  ultimately show ?thesis
    unfolding computeInvocationRoots_def by (simp add: c Let_def assms(4))
qed

text \<open>
  In a cluster of LLM spans with id paths of one length, of non-empty ids without the
  separator, two spans get the same invocation root exactly when the identifying parts of their id
  paths (the path without the span, and without its parent unless that parent holds two of the
  cluster's spans) are equal: keys of containers and of per-call wrappers never collide.
\<close>

lemma invocation_roots_separate:
  assumes "2 \<le> length cluster" and "distinct (map li_spanId cluster)" and "2 \<le> n"
    and paths: "\<forall>s\<in>set cluster. length (li_idsPath s) = n \<and> (\<forall>i\<in>set (li_idsPath s). i \<noteq> [] \<and> nul \<notin> set i)"
    and st: "s \<in> set cluster" "t \<in> set cluster"
  shows "map_of (computeInvocationRoots cluster) (li_spanId s) = map_of (computeInvocationRoots cluster) (li_spanId t)
     \<longleftrightarrow> kept_path cluster s = kept_path cluster t"
proof -
  define keys where "keys = map (structuralPrefix (llmsPerParent cluster)) cluster"
  have inj: "structuralPrefix (llmsPerParent cluster) u = structuralPrefix (llmsPerParent cluster) v
      \<longleftrightarrow> kept_path cluster u = kept_path cluster v" if "u \<in> set cluster" "v \<in> set cluster" for u v
  proof -
    have k: "\<forall>x\<in>set (kept_path cluster w). x \<noteq> [] \<and> nul \<notin> set x" if "w \<in> set cluster" for w
      using paths that unfolding kept_path_def by (meson in_set_takeD)
    have "join [nul] (kept_path cluster u) = join [nul] (kept_path cluster v) \<longleftrightarrow> kept_path cluster u = kept_path cluster v"
      using join_inj [OF k [OF that(1)] k [OF that(2)]] by metis
    with that paths assms(3) show ?thesis by (simp add: structuralPrefix_kept)
  qed
  have "structuralPrefix (llmsPerParent cluster) s = structuralPrefix (llmsPerParent cluster) t"
    if "\<forall>k\<in>set keys. k = hd keys" using that st unfolding keys_def by auto
  moreover have "map_of (computeInvocationRoots cluster) (li_spanId u) = Some (if \<forall>k\<in>set keys. k = hd keys then []
      else structuralPrefix (llmsPerParent cluster) u)" if "u \<in> set cluster" for u
    by (rule computeInvocationRoots_lookup [OF assms(1,2) that keys_def])
  ultimately show ?thesis unfolding inj [OF st, symmetric] using st
    by (cases "\<forall>k\<in>set keys. k = hd keys") (simp_all only: if_True if_False option.inject simp_thms)
qed

section \<open>Concrete runs\<close>

definition llm_span :: "string \<Rightarrow> string \<Rightarrow> string list \<Rightarrow> string list \<Rightarrow> string \<Rightarrow> span" where
  "llm_span i h p ids t = (mk_span i None LLM)\<lparr>startTime := t,
     attributes := (\<lambda>k. if k = ''lmnr.span.prompt_hash'' then Some (AStr h)
       else if k = ''lmnr.span.path'' then Some (AStrs p)
       else if k = ''lmnr.span.ids_path'' then Some (AStrs ids) else None)\<rparr>"

definition demo_spans :: "span list" where
  "demo_spans = [llm_span ''m'' ''h'' [''m''] [''m''] ''1'', llm_span ''x'' ''g'' [''a'', ''b''] [''a'', ''x''] ''2'',
     llm_span ''y'' ''g'' [''a'', ''b''] [''a'', ''y''] ''3'']"

lemma demo_infos:
  "map li_spanId (llm_infos (\<lambda>t. t) demo_spans) = [''m'', ''x'', ''y'']"
  "map_option li_spanId (main_span (llm_infos (\<lambda>t. t) demo_spans)) = Some ''m''"
  "map path_hash_of (llm_infos (\<lambda>t. t) demo_spans) = [[nul] @ ''h'', ''a'' @ [nul] @ ''g'', ''a'' @ [nul] @ ''g'']"
  by code_simp+

lemma subagent_anchors_witness:
  "map_of (llmToAnchor (computeSubagentBoundaries (\<lambda>t. t) demo_spans)) (li_spanId (llm_infos (\<lambda>t. t) demo_spans ! 2)) \<noteq> None"
proof -
  obtain m where m: "main_span (llm_infos (\<lambda>t. t) demo_spans) = Some m" "li_spanId m = ''m''"
    using demo_infos(2) by auto
  have "path_hash_of m = [nul] @ ''h''"
  proof -
    have "map_option path_hash_of (main_span (llm_infos (\<lambda>t. t) demo_spans)) = Some ([nul] @ ''h'')" by code_simp
    with m show ?thesis by simp
  qed
  moreover have "length (llm_infos (\<lambda>t. t) demo_spans) = 3"
    using arg_cong [OF demo_infos(1), of length] by simp
  moreover from this have "path_hash_of (llm_infos (\<lambda>t. t) demo_spans ! 2) = ''a'' @ [nul] @ ''g''"
    using arg_cong [OF demo_infos(3), of "\<lambda>xs. xs ! 2"] by (simp add: nth_map)
  moreover have "distinct (map spanId demo_spans)" "[] \<notin> spanId ` set demo_spans" by code_simp+
  ultimately show ?thesis
    using subagent_anchors [OF _ _ m(1) _ refl refl, of "llm_infos (\<lambda>t. t) demo_spans ! 2"]
    by (auto simp: nul_def)
qed

definition demo_cluster :: "llm_info list" where
  "demo_cluster = map (\<lambda>(i, p). (llm_info_of (llm_span i ''g'' [] p [])))
     [(''u'', [''r'', ''c'', ''u'']), (''v'', [''r'', ''c'', ''v'']), (''w'', [''r'', ''d'', ''w''])]"

lemma invocation_roots_separate_witness:
  "map_of (computeInvocationRoots demo_cluster) (li_spanId (demo_cluster ! 0)) =
     map_of (computeInvocationRoots demo_cluster) (li_spanId (demo_cluster ! 1)) \<and>
   map_of (computeInvocationRoots demo_cluster) (li_spanId (demo_cluster ! 0)) \<noteq>
     map_of (computeInvocationRoots demo_cluster) (li_spanId (demo_cluster ! 2))"
proof -
  have hyps: "2 \<le> length demo_cluster" "distinct (map li_spanId demo_cluster)"
    "\<forall>s\<in>set demo_cluster. length (li_idsPath s) = 3 \<and> (\<forall>i\<in>set (li_idsPath s). i \<noteq> [] \<and> nul \<notin> set i)"
    "kept_path demo_cluster (demo_cluster ! 0) = kept_path demo_cluster (demo_cluster ! 1)"
    "kept_path demo_cluster (demo_cluster ! 0) \<noteq> kept_path demo_cluster (demo_cluster ! 2)"
    by code_simp+
  have "length demo_cluster = 3" by code_simp
  then have "demo_cluster ! 0 \<in> set demo_cluster" "demo_cluster ! 1 \<in> set demo_cluster" "demo_cluster ! 2 \<in> set demo_cluster"
    by simp_all
  with hyps show ?thesis
    using invocation_roots_separate [OF hyps(1,2) _ hyps(3)] by auto
qed

section \<open>Placement of the other spans\<close>

lemma last_not_after_Some:
  "sorted ts \<Longrightarrow> last_not_after t (rev ts) = Some x \<Longrightarrow>
     x \<in> set ts \<and> x \<le> t \<and> (\<forall>y\<in>set ts. y \<le> t \<longrightarrow> y \<le> x)"
proof (induction ts rule: rev_induct)
  case Nil
  then show ?case by simp
next
  case (snoc z ts)
  then show ?case by (auto simp: sorted_append split: if_splits)
qed

lemma last_not_after_None: "last_not_after t xs = None \<longleftrightarrow> (\<forall>x\<in>set xs. \<not> x \<le> t)"
  by (induction xs) auto

definition latest_claim :: "(string \<times> string list) list \<Rightarrow> string \<Rightarrow> string list \<Rightarrow> string option \<times> string \<Rightarrow> bool" where
  "latest_claim tm t cs c \<longleftrightarrow>
     (\<forall>b\<in>set cs. \<forall>ts. map_of tm b = Some ts \<longrightarrow> (\<forall>x\<in>set ts. x \<le> t \<longrightarrow> x \<le> snd c)) \<and>
     (case fst c of None \<Rightarrow> snd c = [] | Some a \<Rightarrow> a \<in> set cs \<and> (\<exists>ts. map_of tm a = Some ts \<and> snd c \<in> set ts \<and> snd c \<le> t))"

lemma latest_claim_choose:
  assumes "\<forall>a ts. map_of tm a = Some ts \<longrightarrow> sorted ts"
  shows "latest_claim tm t cs (foldl (choose_step tm t) (None, []) cs)"
proof (induction cs rule: rev_induct)
  case Nil
  then show ?case by (simp add: latest_claim_def)
next
  case (snoc a cs)
  define c where "c = foldl (choose_step tm t) (None, []) cs"
  have IH: "latest_claim tm t cs c" using snoc by (simp add: c_def)
  have "latest_claim tm t (cs @ [a]) (choose_step tm t c a)"
  proof (cases "map_of tm a")
    case None
    with IH show ?thesis by (auto simp: latest_claim_def choose_step_def split: option.splits)
  next
    case (Some ts)
    with assms have srt: "sorted ts" by blast
    show ?thesis
    proof (cases "last_not_after t (rev ts)")
      case None
      then have "\<forall>x\<in>set ts. \<not> x \<le> t" by (simp add: last_not_after_None)
      with IH Some None show ?thesis by (auto simp: latest_claim_def choose_step_def split: option.splits)
    next
      case x: (Some x)
      have l: "x \<in> set ts" "x \<le> t" "\<forall>y\<in>set ts. y \<le> t \<longrightarrow> y \<le> x"
        using last_not_after_Some [OF srt x] by auto
      show ?thesis
      proof (cases "x > snd c")
        case True
        then have e: "choose_step tm t c a = (Some a, x)" by (simp add: choose_step_def Some x)
        have "y \<le> x" if "b \<in> set cs" "map_of tm b = Some us" "y \<in> set us" "y \<le> t" for b us y
        proof -
          have "y \<le> snd c" using IH that unfolding latest_claim_def by blast
          with True show ?thesis by simp
        qed
        with l Some show ?thesis unfolding e latest_claim_def by auto
      next
        case False
        then have e: "choose_step tm t c a = c" by (simp add: choose_step_def Some x)
        have "y \<le> snd c" if "y \<in> set ts" "y \<le> t" for y
          using l(3) that False by (meson not_less order_trans)
        with IH Some show ?thesis unfolding e latest_claim_def by (auto split: option.splits)
      qed
    qed
  qed
  then show ?case by (simp add: c_def)
qed

lemma resolve_from_skip:
  "\<forall>x\<in>set xs. x \<notin> mainAgentAncestors g \<and> map_of (subagentAncestors g) x = None \<Longrightarrow>
     resolve_from g t (xs @ ys) = resolve_from g t ys"
  by (induction xs) auto

text \<open>
  A span that is not an LLM call is placed by its deepest claimed ancestor \<open>w\<close>: a claim of
  the main agent leaves it standalone; a single subagent gets it; among several subagents it goes
  to one that made the latest LLM call not after the span's start, and to none if there is no such
  call. Without a claimed ancestor it stays standalone. (Start times are listed in string order.)
\<close>

lemma placement_by_deepest_claim:
  assumes "\<forall>a ts. map_of (anchorLlmTimes g) a = Some ts \<longrightarrow> sorted ts"
    and "\<forall>x\<in>set down. x \<notin> mainAgentAncestors g \<and> map_of (subagentAncestors g) x = None"
    and "r = resolveSubagent g (up @ w # down @ [self]) t"
  shows "(w \<in> mainAgentAncestors g \<longrightarrow> r = None) \<and>
     (w \<notin> mainAgentAncestors g \<longrightarrow> map_of (subagentAncestors g) w = Some [a] \<longrightarrow> r = Some a) \<and>
     (w \<notin> mainAgentAncestors g \<longrightarrow> map_of (subagentAncestors g) w = Some (a # b # cs) \<longrightarrow>
        (case r of
           None \<Rightarrow> \<forall>c\<in>set (a # b # cs). \<forall>ts. map_of (anchorLlmTimes g) c = Some ts \<longrightarrow> (\<forall>x\<in>set ts. x \<le> t \<longrightarrow> x = [])
         | Some c \<Rightarrow> c \<in> set (a # b # cs) \<and> (\<exists>ts x. map_of (anchorLlmTimes g) c = Some ts \<and> x \<in> set ts \<and> x \<le> t \<and>
             (\<forall>d\<in>set (a # b # cs). \<forall>us. map_of (anchorLlmTimes g) d = Some us \<longrightarrow> (\<forall>y\<in>set us. y \<le> t \<longrightarrow> y \<le> x))))) \<and>
     resolveSubagent g (down @ [self]) t = None"
proof -
  let ?e = "foldl (choose_step (anchorLlmTimes g) t) (None, []) (a # b # cs)"
  have r: "r = resolve_from g t (w # rev up)"
    using resolve_from_skip [of "rev down" g t "w # rev up"] assms(2,3)
    by (simp add: resolveSubagent_def butlast_append)
  have "resolveSubagent g (down @ [self]) t = None"
    using resolve_from_skip [of "rev down" g t "[]"] assms(2) by (simp add: resolveSubagent_def butlast_append)
  moreover have "case fst ?e of
           None \<Rightarrow> \<forall>c\<in>set (a # b # cs). \<forall>ts. map_of (anchorLlmTimes g) c = Some ts \<longrightarrow> (\<forall>x\<in>set ts. x \<le> t \<longrightarrow> x = [])
         | Some c \<Rightarrow> c \<in> set (a # b # cs) \<and> (\<exists>ts x. map_of (anchorLlmTimes g) c = Some ts \<and> x \<in> set ts \<and> x \<le> t \<and>
             (\<forall>d\<in>set (a # b # cs). \<forall>us. map_of (anchorLlmTimes g) d = Some us \<longrightarrow> (\<forall>y\<in>set us. y \<le> t \<longrightarrow> y \<le> x)))"
    using latest_claim_choose [OF assms(1), of t "a # b # cs"] unfolding latest_claim_def
    by (cases "fst ?e") (auto simp del: foldl_Cons)
  ultimately show ?thesis unfolding r by simp
qed

lemma placement_by_deepest_claim_witness:
  "resolveSubagent \<lparr>llmToAnchor = [], mainAgentAncestors = {''r''}, subagentAncestors = [(''w'', [''p'', ''q''])],
     anchorLlmTimes = [(''p'', [''1'', ''4'']), (''q'', [''2''])]\<rparr> [''r'', ''w'', ''s''] ''3'' = Some ''q''"
  (is "resolveSubagent ?g _ _ = _")
proof -
  have "\<forall>a ts. map_of (anchorLlmTimes ?g) a = Some ts \<longrightarrow> sorted ts" by (auto split: if_splits)
  from placement_by_deepest_claim [OF this, of "[]" "resolveSubagent ?g [''r'', ''w'', ''s''] ''3''" "[''r'']" "''w''" "''s''" "''3''" "''p''" "''q''" "[]"]
  have "resolveSubagent ?g [''r'', ''w'', ''s''] ''3'' = None \<longrightarrow> ''2'' = ([]::string)"
    "resolveSubagent ?g [''r'', ''w'', ''s''] ''3'' = Some ''p'' \<longrightarrow> (\<exists>x. x \<in> {''1'', ''4''} \<and> x \<le> ''3'' \<and> ''2'' \<le> x)"
    "resolveSubagent ?g [''r'', ''w'', ''s''] ''3'' = None \<or> resolveSubagent ?g [''r'', ''w'', ''s''] ''3'' = Some ''p'' \<or> 
      resolveSubagent ?g [''r'', ''w'', ''s''] ''3'' = Some ''q''"
    by (auto split: option.splits)
  then show ?thesis by auto
qed

section \<open>Groups and visible spans\<close>

text \<open>
  The groups of the condensed timeline partition the anchored spans: group ids are
  distinct, no span id is in two groups or twice in one, every group is non-empty and holds, in the
  order of the spans, exactly the ids of the spans whose anchor names it, and every span that has an
  anchor is in the group of that anchor.
\<close>

lemma subagent_groups_partition:
  assumes "distinct (map spanId allSpans)"
    and "s2a = buildSpanToAnchorMap allSpans (computeSubagentBoundaries ck allSpans)"
    and "gs = computeSubagentGroups ck allSpans"
    and "llmToAnchor (computeSubagentBoundaries ck allSpans) \<noteq> []"
  shows "distinct (map fst gs) \<and> distinct (concat (map snd gs)) \<and>
     (\<forall>(gid, ids)\<in>set gs. ids \<noteq> [] \<and> (\<exists>a. gid = group_id a \<and>
        ids = map spanId (filter (\<lambda>s. anchor_of s2a s = Some a) allSpans))) \<and>
     (\<forall>s\<in>set allSpans. \<forall>a. anchor_of s2a s = Some a \<longrightarrow> (\<exists>ids. (group_id a, ids) \<in> set gs \<and> spanId s \<in> set ids))"
proof -
  define m where "m = foldl (\<lambda>m s. case anchor_of s2a s of None \<Rightarrow> m | Some a \<Rightarrow> amap_push a (spanId s) m) [] allSpans"
  have gs: "gs = map (\<lambda>(a, ids). (group_id a, ids)) m"
    using assms(2-4) by (simp add: computeSubagentGroups_def Let_def m_def)
  have dm: "distinct (map fst m)" unfolding m_def by (rule amap_group_distinct) simp
  have ent: "ids = map spanId (filter (\<lambda>s. anchor_of s2a s = Some a) allSpans) \<and> ids \<noteq> []" if "(a, ids) \<in> set m" for a ids
    using that unfolding m_def by (rule amap_group_entry)
  have "inj_on (group_id \<circ> fst) (set m)"
    using dm by (auto simp: distinct_map inj_on_def group_id_def)
  then have 1: "distinct (map fst gs)" using dm by (simp add: gs o_def case_prod_beta distinct_map)
  have "map snd gs = map snd m" by (simp add: gs o_def case_prod_beta)
  then have 2: "distinct (concat (map snd gs))"
    using distinct_concat_by_key [OF assms(1) dm, of "anchor_of s2a"] ent by auto
  have 3: "\<exists>ids. (group_id a, ids) \<in> set gs \<and> spanId s \<in> set ids" if "s \<in> set allSpans" "anchor_of s2a s = Some a" for s a
  proof -
    from amap_group_key [where key = "anchor_of s2a" and val = spanId, OF that] obtain ids where ids: "(a, ids) \<in> set m" unfolding m_def by auto
    from ent [OF this] that have "spanId s \<in> set ids" by auto
    with ids show ?thesis unfolding gs by force
  qed
  have 4: "\<forall>(gid, ids)\<in>set gs. ids \<noteq> [] \<and> (\<exists>a. gid = group_id a \<and>
        ids = map spanId (filter (\<lambda>s. anchor_of s2a s = Some a) allSpans))"
    unfolding gs using ent by fastforce
  show ?thesis using 1 2 3 4 by blast
qed

lemma walk_up_least:
  "walk_up sm i = Some ps \<Longrightarrow> i \<in> W \<Longrightarrow> (\<And>j p. j \<in> W \<Longrightarrow> parent_of sm j = Some p \<Longrightarrow> p \<in> W) \<Longrightarrow> set ps \<subseteq> W"
proof (induction ps arbitrary: i)
  case Nil
  then show ?case by simp
next
  case (Cons p ps)
  from walk_up_ConsD [OF Cons.prems(1)] have "parent_of sm i = Some p" "walk_up sm p = Some ps" by auto
  with Cons show ?case by auto
qed

text \<open>
  When the parent links have no cycle \<open>computeVisibleSpanIds\<close> returns, and its result is
  the least set that contains the selected ids and the parent of each of its members: a filtered tree
  keeps its hierarchy and shows nothing else.
\<close>

lemma visible_ids_least:
  assumes "rooted spans"
  shows "\<exists>V. computeVisibleSpanIds ids spans = Some V \<and> set ids \<subseteq> V \<and>
     (\<forall>i\<in>V. \<forall>p. parent_of (spanMap spans) i = Some p \<longrightarrow> p \<in> V) \<and>
     (\<forall>W. set ids \<subseteq> W \<longrightarrow> (\<forall>i\<in>W. \<forall>p. parent_of (spanMap spans) i = Some p \<longrightarrow> p \<in> W) \<longrightarrow> V \<subseteq> W)"
proof (cases "ids = []")
  case True
  then show ?thesis by (simp add: computeVisibleSpanIds_def)
next
  case False
  let ?sm = "spanMap spans"
  define w where "w i = the (walk_up ?sm i)" for i
  have w: "walk_up ?sm i = Some (w i)" for i
    using walk_up_total [OF assms, of i] by (auto simp: w_def)
  have "those (map (walk_up ?sm) ids) = Some (map w ids)"
    by (induction ids) (simp_all add: w)
  then have V: "computeVisibleSpanIds ids spans = Some (set ids \<union> \<Union> (set (map set (map w ids))))"
    using False by (simp add: computeVisibleSpanIds_def)
  have closed: "p \<in> set (w i)" if "j \<in> insert i (set (w i))" "parent_of ?sm j = Some p" for i j p
    using walk_up_closed [OF w that] .
  show ?thesis
  proof (intro exI conjI allI ballI impI)
    show "computeVisibleSpanIds ids spans = Some (set ids \<union> \<Union> (set (map set (map w ids))))" by (rule V)
    fix i p
    assume "i \<in> set ids \<union> \<Union> (set (map set (map w ids)))" "parent_of ?sm i = Some p"
    with closed show "p \<in> set ids \<union> \<Union> (set (map set (map w ids)))" by fastforce
  next
    fix W
    assume W: "set ids \<subseteq> W" "\<forall>i\<in>W. \<forall>p. parent_of ?sm i = Some p \<longrightarrow> p \<in> W"
    have "set (w i) \<subseteq> W" if "i \<in> set ids" for i
      using walk_up_least [OF w, of i W] W that by blast
    with W(1) show "set ids \<union> \<Union> (set (map set (map w ids))) \<subseteq> W" by auto
  qed simp
qed

lemma subagent_groups_partition_witness:
  "distinct (concat (map snd (computeSubagentGroups (\<lambda>t. t) demo_spans)))"
proof -
  have "distinct (map spanId demo_spans)" "llmToAnchor (computeSubagentBoundaries (\<lambda>t. t) demo_spans) \<noteq> []" by code_simp+
  from subagent_groups_partition [OF this(1) refl refl this(2)] show ?thesis by blast
qed

lemma visible_ids_least_witness:
  "\<exists>V. computeVisibleSpanIds [''b''] [mk_span ''a'' None LLM, mk_span ''b'' (Some ''a'') TOOL] = Some V \<and> ''b'' \<in> V"
proof -
  have "rooted [mk_span ''a'' None LLM, mk_span ''b'' (Some ''a'') TOOL]"
    by (rule rootedI [where rank = "\<lambda>i. if i = ''b'' then 1 else 0"]) auto
  from visible_ids_least [OF this, of "[''b'']"] show ?thesis by auto
qed

end
