(* ===== verification/Transcript.thy ===== *)
theory Transcript
  imports Subagents
begin

text \<open>
  \<open>buildTranscriptListEntries\<close> of \<open>components/traces/trace-view/store/utils.ts\<close>: the flat list of
  the transcript view. A loop over the visible spans emits standalone rows and, at the first span
  of each subagent, the whole block of that subagent.
\<close>

section \<open>The code\<close>

definition toLightweight :: "span \<Rightarrow> list_span" where
  "toLightweight s = \<lparr>ls_spanId = spanId s, ls_parentSpanId = parentSpanId s, ls_spanType = spanType s,
     ls_name = name s, ls_model = model s, ls_path = path s, ls_startTime = startTime s,
     ls_endTime = endTime s, ls_inputTokens = inputTokens s, ls_outputTokens = outputTokens s,
     ls_cacheReadInputTokens = cacheReadInputTokens s, ls_totalCost = totalCost s,
     ls_pending = pending s, ls_status = status s, ls_inputSnippet = inputSnippet s,
     ls_outputSnippet = outputSnippet s, ls_attributesSnippet = attributesSnippet s\<rparr>"

text \<open>The accumulation loop of \<open>emitGroupBlock\<close>: first and last LLM span, and the totals.\<close>

record group_acc =
  ga_firstLlm :: "span option"
  ga_lastLlm :: "span option"
  ga_inputTokens :: number
  ga_outputTokens :: number
  ga_cacheReadInputTokens :: number
  ga_totalCost :: number

definition group_acc_step :: "group_acc \<Rightarrow> span \<Rightarrow> group_acc" where
  "group_acc_step a s =
     \<lparr>ga_firstLlm = (if is_llm s then (case ga_firstLlm a of None \<Rightarrow> Some s | Some f \<Rightarrow> Some f) else ga_firstLlm a),
      ga_lastLlm = (if is_llm s then Some s else ga_lastLlm a),
      ga_inputTokens = ga_inputTokens a + inputTokens s,
      ga_outputTokens = ga_outputTokens a + outputTokens s,
      ga_cacheReadInputTokens = ga_cacheReadInputTokens a + (case cacheReadInputTokens s of None \<Rightarrow> 0 | Some n \<Rightarrow> n),
      ga_totalCost = ga_totalCost a + totalCost s\<rparr>"

definition group_acc_of :: "span list \<Rightarrow> group_acc" where
  "group_acc_of ss = foldl group_acc_step
     \<lparr>ga_firstLlm = None, ga_lastLlm = None, ga_inputTokens = 0, ga_outputTokens = 0,
      ga_cacheReadInputTokens = 0, ga_totalCost = 0\<rparr> ss"

text \<open>The entries \<open>emitGroupBlock\<close> pushes for an anchor.\<close>

definition emitGroupBlock :: "(string \<times> span) list \<Rightarrow> (string \<times> span list) list \<Rightarrow> string \<Rightarrow> entry list" where
  "emitGroupBlock sm groupSpansMap anchor =
     (case map_of groupSpansMap anchor of
        None \<Rightarrow> []
      | Some groupSpans \<Rightarrow>
          if groupSpans = [] then []
          else let acc = group_acc_of groupSpans in
            case ga_firstLlm acc of
              None \<Rightarrow> map (\<lambda>s. ESpan (toLightweight s)) groupSpans
            | Some firstLlm \<Rightarrow>
                let anchorSpan = map_of sm anchor;
                    lightSpans = map toLightweight groupSpans;
                    groupId = group_id anchor
                in [EGroup \<lparr>lg_groupId = groupId,
                      lg_name = (case anchorSpan of Some a \<Rightarrow> name a | None \<Rightarrow> name (hd groupSpans)),
                      lg_path = (case anchorSpan of Some a \<Rightarrow> path a | None \<Rightarrow> []),
                      lg_firstSpan = hd lightSpans,
                      lg_firstLlmSpanId = Some (spanId firstLlm),
                      lg_lastLlmSpanId = (case ga_lastLlm acc of
                         Some l \<Rightarrow> if spanId l \<noteq> spanId firstLlm then Some (spanId l) else None | None \<Rightarrow> None),
                      lg_startTime = startTime (hd groupSpans),
                      lg_endTime = endTime (last groupSpans),
                      lg_inputTokens = ga_inputTokens acc,
                      lg_outputTokens = ga_outputTokens acc,
                      lg_cacheReadInputTokens = ga_cacheReadInputTokens acc,
                      lg_totalCost = ga_totalCost acc\<rparr>,
                    EGroupInput groupId (spanId firstLlm)]
                   @ map (\<lambda>i. EGroupSpan (lightSpans ! i) groupId (i = length lightSpans - 1)) [0..<length lightSpans])"

definition group_spans_map :: "(string \<times> string) list \<Rightarrow> span list \<Rightarrow> (string \<times> span list) list" where
  "group_spans_map s2a listSpans =
     foldl (\<lambda>m s. case anchor_of s2a s of None \<Rightarrow> m | Some a \<Rightarrow> amap_push a s m) [] listSpans"

definition emit_step ::
  "(string \<times> span) list \<Rightarrow> (string \<times> string) list \<Rightarrow> (string \<times> span list) list
     \<Rightarrow> string set \<times> entry list \<Rightarrow> span \<Rightarrow> string set \<times> entry list"
where
  "emit_step sm s2a gm st s =
     (case anchor_of s2a s of
        None \<Rightarrow> (fst st, snd st @ [ESpan (toLightweight s)])
      | Some a \<Rightarrow>
          if a \<in> fst st then st
          else (insert a (fst st), snd st @ emitGroupBlock sm gm a))"

definition list_spans :: "span list \<Rightarrow> string set \<Rightarrow> span list" where
  "list_spans allSpans visibleSpanIds =
     filter (\<lambda>s. spanType s \<noteq> DEFAULT)
       (if visibleSpanIds = {} then allSpans else filter (\<lambda>s. spanId s \<in> visibleSpanIds) allSpans)"

definition buildTranscriptListEntries ::
  "(string \<Rightarrow> 'c::linorder) \<Rightarrow> span list \<Rightarrow> string set \<Rightarrow> entry list"
where
  "buildTranscriptListEntries ck allSpans visibleSpanIds =
     (let listSpans = list_spans allSpans visibleSpanIds;
          g = computeSubagentBoundaries ck allSpans
      in if llmToAnchor g = [] then map (\<lambda>s. ESpan (toLightweight s)) listSpans
         else let s2a = buildSpanToAnchorMap allSpans g;
                  sm = spanMap allSpans;
                  gm = group_spans_map s2a listSpans
              in snd (foldl (emit_step sm s2a gm) ({}, []) listSpans))"

section \<open>Blocks\<close>

lemma group_spans_map_lookup:
  "map_of (group_spans_map s2a ss) a =
     (let b = filter (\<lambda>s. anchor_of s2a s = Some a) ss in if b = [] then None else Some b)"
proof -
  have "map_of (group_spans_map s2a ss) a =
     (let b = map (\<lambda>s. s) (filter (\<lambda>s. anchor_of s2a s = Some a) ss) in if b = [] then None else Some b)"
    unfolding group_spans_map_def by (rule amap.get_group)
  then show ?thesis by (simp add: Let_def)
qed

text \<open>The span a row stands for.\<close>

fun entry_spans :: "entry \<Rightarrow> list_span list" where
  "entry_spans (ESpan s) = [s]"
| "entry_spans (EGroupSpan s _ _) = [s]"
| "entry_spans _ = []"

definition spans_of_entries :: "entry list \<Rightarrow> list_span list" where
  "spans_of_entries es = concat (map entry_spans es)"

lemma spans_of_entries_simps [simp]:
  "spans_of_entries [] = []"
  "spans_of_entries (e # es) = entry_spans e @ spans_of_entries es"
  "spans_of_entries (es @ fs) = spans_of_entries es @ spans_of_entries fs"
  by (simp_all add: spans_of_entries_def)

lemma spans_of_standalone [simp]:
  "spans_of_entries (map (\<lambda>s. ESpan (f s)) ss) = map f ss"
  by (induction ss) auto

lemma spans_of_group_rows [simp]:
  "spans_of_entries (map (\<lambda>i. EGroupSpan (xs ! i) g (P i)) [0..<length xs]) = xs"
proof -
  have "spans_of_entries (map (\<lambda>i. EGroupSpan (xs ! i) g (P i)) js) = map ((!) xs) js" for js
    by (induction js) auto
  then show ?thesis by (simp add: map_nth)
qed

lemma spans_of_block:
  "spans_of_entries (emitGroupBlock sm (group_spans_map s2a ss) a) =
     map toLightweight (filter (\<lambda>s. anchor_of s2a s = Some a) ss)"
  using spans_of_group_rows [of "map toLightweight (filter (\<lambda>s. anchor_of s2a s = Some a) ss)"]
  by (simp add: emitGroupBlock_def group_spans_map_lookup Let_def del: spans_of_group_rows split: option.splits)

section \<open>The loop\<close>

definition standalone :: "(string \<times> string) list \<Rightarrow> span list \<Rightarrow> span list" where
  "standalone s2a ss = filter (\<lambda>s. anchor_of s2a s = None) ss"

definition anchors_in :: "(string \<times> string) list \<Rightarrow> span list \<Rightarrow> string set" where
  "anchors_in s2a ss = {a. \<exists>s\<in>set ss. anchor_of s2a s = Some a}"

lemma emit_loop:
  "fst (foldl (emit_step sm s2a (group_spans_map s2a ss)) ({}, []) pre) = anchors_in s2a pre \<and>
   mset (spans_of_entries (snd (foldl (emit_step sm s2a (group_spans_map s2a ss)) ({}, []) pre))) =
     mset (map toLightweight (standalone s2a pre)) +
     mset (map toLightweight (filter (\<lambda>u. \<exists>a\<in>anchors_in s2a pre. anchor_of s2a u = Some a) ss))"
proof (induction pre rule: rev_induct)
  case Nil
  then show ?case by (simp add: standalone_def anchors_in_def)
next
  case (snoc s pre)
  define st where "st = foldl (emit_step sm s2a (group_spans_map s2a ss)) ({}, []) pre"
  have IH: "fst st = anchors_in s2a pre"
    "mset (spans_of_entries (snd st)) = mset (map toLightweight (standalone s2a pre)) +
     mset (map toLightweight (filter (\<lambda>u. \<exists>a\<in>anchors_in s2a pre. anchor_of s2a u = Some a) ss))"
    using snoc by (simp_all add: st_def)
  have "fst (emit_step sm s2a (group_spans_map s2a ss) st s) = anchors_in s2a (pre @ [s]) \<and>
   mset (spans_of_entries (snd (emit_step sm s2a (group_spans_map s2a ss) st s))) =
     mset (map toLightweight (standalone s2a (pre @ [s]))) +
     mset (map toLightweight (filter (\<lambda>u. \<exists>a\<in>anchors_in s2a (pre @ [s]). anchor_of s2a u = Some a) ss))"
  proof (cases "anchor_of s2a s")
    case None
    then have "anchors_in s2a (pre @ [s]) = anchors_in s2a pre" by (auto simp: anchors_in_def)
    with None IH show ?thesis by (simp add: emit_step_def standalone_def)
  next
    case (Some a)
    then have ins: "anchors_in s2a (pre @ [s]) = insert a (anchors_in s2a pre)" by (auto simp: anchors_in_def)
    show ?thesis
    proof (cases "a \<in> anchors_in s2a pre")
      case True
      with Some IH ins show ?thesis by (simp add: emit_step_def standalone_def insert_absorb)
    next
      case False
      have "mset (filter (\<lambda>u. \<exists>b\<in>insert a (anchors_in s2a pre). anchor_of s2a u = Some b) ss) =
          mset (filter (\<lambda>u. \<exists>b\<in>anchors_in s2a pre. anchor_of s2a u = Some b) ss) +
          mset (filter (\<lambda>s. anchor_of s2a s = Some a) ss)"
        using False by (induction ss) auto
      then have "mset (map toLightweight (filter (\<lambda>u. \<exists>b\<in>insert a (anchors_in s2a pre). anchor_of s2a u = Some b) ss)) =
          mset (map toLightweight (filter (\<lambda>u. \<exists>b\<in>anchors_in s2a pre. anchor_of s2a u = Some b) ss)) +
          mset (map toLightweight (filter (\<lambda>s. anchor_of s2a s = Some a) ss))"
        by (simp only: mset_map image_mset_union)
      with Some False IH ins show ?thesis
        by (simp add: emit_step_def standalone_def spans_of_block)
    qed
  qed
  then show ?case by (simp add: st_def)
qed

lemma entries_spans:
  "mset (spans_of_entries (buildTranscriptListEntries ck allSpans visibleSpanIds)) =
     mset (map toLightweight (list_spans allSpans visibleSpanIds))"
proof (cases "llmToAnchor (computeSubagentBoundaries ck allSpans) = []")
  case True
  then show ?thesis by (simp add: buildTranscriptListEntries_def Let_def)
next
  case False
  let ?ss = "list_spans allSpans visibleSpanIds"
  let ?s2a = "buildSpanToAnchorMap allSpans (computeSubagentBoundaries ck allSpans)"
  have "filter (\<lambda>u. \<exists>a\<in>anchors_in ?s2a ?ss. anchor_of ?s2a u = Some a) ?ss = filter (\<lambda>u. anchor_of ?s2a u \<noteq> None) ?ss"
    by (rule filter_cong) (auto simp: anchors_in_def)
  moreover have "mset (map toLightweight (filter (\<lambda>u. anchor_of ?s2a u = None) ?ss)) +
      mset (map toLightweight (filter (\<lambda>u. anchor_of ?s2a u \<noteq> None) ?ss)) = mset (map toLightweight ?ss)"
    using mset_filter_partition [of "\<lambda>u. anchor_of ?s2a u = None" ?ss]
    by (simp only: mset_map image_mset_union [symmetric])
  ultimately show ?thesis
    using False emit_loop [of "spanMap allSpans" ?s2a ?ss ?ss]
    by (simp only: buildTranscriptListEntries_def Let_def if_False standalone_def)
qed

text \<open>
  Claim C2. The transcript shows exactly the visible spans: the spans of the standalone rows and of
  the group rows are, as a multiset, the lightweight copies of the listed spans (the visible ones
  that are not of type DEFAULT); grouping loses and duplicates none, whatever is filtered.
\<close>

theorem transcript_shows_listed_spans:
  "mset (spans_of_entries (buildTranscriptListEntries ck allSpans visibleSpanIds)) =
     mset (map toLightweight (list_spans allSpans visibleSpanIds))"
  by (rule entries_spans)

section \<open>The shape of the list\<close>

text \<open>The rows of a group: in order, the last one and only it marked.\<close>

definition group_rows :: "string \<Rightarrow> list_span list \<Rightarrow> entry list" where
  "group_rows g xs = map (\<lambda>i. EGroupSpan (xs ! i) g (i = length xs - 1)) [0..<length xs]"

definition ls_is_llm :: "list_span \<Rightarrow> bool" where
  "ls_is_llm s \<longleftrightarrow> ls_spanType s = LLM \<or> ls_spanType s = CACHED"

text \<open>A header that summarises its rows.\<close>

definition summarises :: "list_group \<Rightarrow> list_span list \<Rightarrow> bool" where
  "summarises g xs \<longleftrightarrow> xs \<noteq> [] \<and>
     lg_firstSpan g = hd xs \<and> lg_startTime g = ls_startTime (hd xs) \<and> lg_endTime g = ls_endTime (last xs) \<and>
     lg_inputTokens g = sum_list (map ls_inputTokens xs) \<and>
     lg_outputTokens g = sum_list (map ls_outputTokens xs) \<and>
     lg_cacheReadInputTokens g = sum_list (map (\<lambda>s. case ls_cacheReadInputTokens s of None \<Rightarrow> 0 | Some n \<Rightarrow> n) xs) \<and>
     lg_totalCost g = sum_list (map ls_totalCost xs) \<and>
     lg_firstLlmSpanId g = map_option ls_spanId (find ls_is_llm xs) \<and> lg_firstLlmSpanId g \<noteq> None"

fun block_ok :: "entry list \<Rightarrow> bool" where
  "block_ok [ESpan s] = True"
| "block_ok (EGroup g # EGroupInput gid l # rows) \<longleftrightarrow> gid = lg_groupId g \<and> lg_firstLlmSpanId g = Some l \<and>
     rows = group_rows gid (spans_of_entries rows) \<and> summarises g (spans_of_entries rows)"
| "block_ok _ = False"

lemma group_acc_of_snoc: "group_acc_of (ss @ [s]) = group_acc_step (group_acc_of ss) s"
  by (simp add: group_acc_of_def)

lemma group_acc_sums:
  "ga_firstLlm (group_acc_of ss) = find is_llm ss \<and>
   ga_inputTokens (group_acc_of ss) = sum_list (map inputTokens ss) \<and>
   ga_outputTokens (group_acc_of ss) = sum_list (map outputTokens ss) \<and>
   ga_cacheReadInputTokens (group_acc_of ss) =
     sum_list (map (\<lambda>s. case cacheReadInputTokens s of None \<Rightarrow> 0 | Some n \<Rightarrow> n) ss) \<and>
   ga_totalCost (group_acc_of ss) = sum_list (map totalCost ss)"
proof (induction ss rule: rev_induct)
  case Nil
  then show ?case by (simp add: group_acc_of_def)
next
  case (snoc s ss)
  then show ?case
    by (auto simp: group_acc_of_snoc group_acc_step_def find_append split: option.splits)
qed

lemma toLightweight_sel [simp]:
  "ls_spanId (toLightweight s) = spanId s" "ls_startTime (toLightweight s) = startTime s"
  "ls_endTime (toLightweight s) = endTime s" "ls_inputTokens (toLightweight s) = inputTokens s"
  "ls_outputTokens (toLightweight s) = outputTokens s" "ls_totalCost (toLightweight s) = totalCost s"
  "ls_cacheReadInputTokens (toLightweight s) = cacheReadInputTokens s" "ls_spanType (toLightweight s) = spanType s"
  "ls_is_llm (toLightweight s) = is_llm s"
  by (simp_all add: toLightweight_def ls_is_llm_def is_llm_def)

lemma find_map: "find P (map f xs) = map_option f (find (P \<circ> f) xs)"
  by (induction xs) auto

lemma spans_of_group_rows' [simp]: "spans_of_entries (group_rows g xs) = xs"
  by (simp add: group_rows_def)

lemma emitGroupBlock_blocks:
  "\<exists>bs. emitGroupBlock sm (group_spans_map s2a ss) a = concat bs \<and> (\<forall>b\<in>set bs. block_ok b) \<and>
     (\<forall>b\<in>set bs. \<forall>g\<in>set b. case g of EGroup h \<Rightarrow> lg_groupId h = group_id a \<and> length bs = 1 | _ \<Rightarrow> True)"
proof -
  let ?b = "filter (\<lambda>s. anchor_of s2a s = Some a) ss"
  show ?thesis
  proof (cases "?b = [] \<or> find is_llm ?b = None")
    case True
    then have "emitGroupBlock sm (group_spans_map s2a ss) a = concat (map (\<lambda>s. [ESpan (toLightweight s)]) ?b)"
      by (auto simp: emitGroupBlock_def group_spans_map_lookup Let_def group_acc_sums)
    moreover have "\<forall>b\<in>set (map (\<lambda>s. [ESpan (toLightweight s)]) ?b). block_ok b" by auto
    ultimately show ?thesis by (intro exI [of _ "map (\<lambda>s. [ESpan (toLightweight s)]) ?b"]) auto
  next
    case False
    then obtain f where f: "find is_llm ?b = Some f" and ne: "?b \<noteq> []" by auto
    define xs where "xs = map toLightweight ?b"
    have "find ls_is_llm xs = Some (toLightweight f)" by (simp add: xs_def find_map o_def f)
    then obtain g where e: "emitGroupBlock sm (group_spans_map s2a ss) a = EGroup g # EGroupInput (group_id a) (spanId f) # group_rows (group_id a) xs"
      "lg_groupId g = group_id a" "lg_firstLlmSpanId g = Some (spanId f)" "summarises g xs"
      using f ne
      by (auto simp: emitGroupBlock_def group_spans_map_lookup Let_def group_acc_sums group_rows_def
          summarises_def xs_def [symmetric] simp del: filter_empty_conv)
         (auto simp: xs_def hd_map last_map o_def)
    then show ?thesis
      by (intro exI [of _ "[emitGroupBlock sm (group_spans_map s2a ss) a]"]) (auto simp: group_rows_def)
  qed
qed

fun group_ids :: "entry list \<Rightarrow> string list" where
  "group_ids [] = []"
| "group_ids (EGroup g # es) = lg_groupId g # group_ids es"
| "group_ids (_ # es) = group_ids es"

lemma group_ids_append [simp]: "group_ids (es @ fs) = group_ids es @ group_ids fs"
  by (induction es rule: group_ids.induct) auto

lemma group_ids_standalone [simp]: "group_ids (map (\<lambda>s. ESpan (f s)) ss) = []"
  by (induction ss) auto

lemma group_ids_rows [simp]: "group_ids (map (\<lambda>i. EGroupSpan (f i) g (P i)) js) = []"
  by (induction js) auto

lemma group_ids_block:
  "group_ids (emitGroupBlock sm (group_spans_map s2a ss) a) = [] \<or>
   group_ids (emitGroupBlock sm (group_spans_map s2a ss) a) = [group_id a]"
  by (auto simp: emitGroupBlock_def Let_def split: option.splits)

definition well_blocked :: "string set \<Rightarrow> entry list \<Rightarrow> bool" where
  "well_blocked A es \<longleftrightarrow> (\<exists>bs. es = concat bs \<and> (\<forall>b\<in>set bs. block_ok b)) \<and> distinct (group_ids es) \<and>
     set (group_ids es) \<subseteq> group_id ` A"

lemma well_blocked_append:
  assumes "well_blocked A es" and "\<exists>bs. fs = concat bs \<and> (\<forall>b\<in>set bs. block_ok b)"
    and "group_ids fs = [] \<or> (group_ids fs = [group_id a] \<and> a \<notin> A)"
  shows "well_blocked (insert a A) (es @ fs)"
proof -
  from assms(1,2) obtain bs cs where "es = concat bs" "\<forall>b\<in>set bs. block_ok b" "fs = concat cs" "\<forall>b\<in>set cs. block_ok b"
    unfolding well_blocked_def by blast
  then have 1: "es @ fs = concat (bs @ cs) \<and> (\<forall>b\<in>set (bs @ cs). block_ok b)" by auto
  have "inj group_id" by (auto simp: inj_def group_id_def)
  moreover have "distinct (group_ids es)" "set (group_ids es) \<subseteq> group_id ` A"
    using assms(1) unfolding well_blocked_def by auto
  ultimately have 2: "distinct (group_ids (es @ fs))" "set (group_ids (es @ fs)) \<subseteq> group_id ` insert a A"
    unfolding group_ids_append using assms(3) by (auto dest: injD)
  show ?thesis unfolding well_blocked_def by (intro conjI 2 exI [of _ "bs @ cs"] 1)
qed

lemma emit_well_blocked:
  "well_blocked (fst (foldl (emit_step sm s2a (group_spans_map s2a ss)) ({}, []) pre))
     (snd (foldl (emit_step sm s2a (group_spans_map s2a ss)) ({}, []) pre))"
proof (induction pre rule: rev_induct)
  case Nil
  then show ?case by (auto simp: well_blocked_def intro: exI [of _ "[]"])
next
  case (snoc s pre)
  let ?gm = "group_spans_map s2a ss"
  define st where "st = foldl (emit_step sm s2a ?gm) ({}, []) pre"
  have IH: "well_blocked (fst st) (snd st)" using snoc by (simp add: st_def)
  have "well_blocked (fst (emit_step sm s2a ?gm st s)) (snd (emit_step sm s2a ?gm st s))"
  proof (cases "anchor_of s2a s")
    case None
    have "\<exists>bs. [ESpan (toLightweight s)] = concat bs \<and> (\<forall>b\<in>set bs. block_ok b)"
      by (rule exI [of _ "[[ESpan (toLightweight s)]]"]) simp
    then obtain bs where b: "[ESpan (toLightweight s)] = concat bs" "\<forall>b\<in>set bs. block_ok b" by blast
    from IH obtain cs where "snd st = concat cs" "\<forall>b\<in>set cs. block_ok b" unfolding well_blocked_def by blast
    with b have "snd st @ [ESpan (toLightweight s)] = concat (cs @ bs)" "\<forall>b\<in>set (cs @ bs). block_ok b" by auto
    then have "\<exists>bs. snd st @ [ESpan (toLightweight s)] = concat bs \<and> (\<forall>b\<in>set bs. block_ok b)" by blast
    with IH None show ?thesis by (simp add: emit_step_def well_blocked_def)
  next
    case (Some a)
    show ?thesis
    proof (cases "a \<in> fst st")
      case False
      have "\<exists>bs. emitGroupBlock sm ?gm a = concat bs \<and> (\<forall>b\<in>set bs. block_ok b)"
        using emitGroupBlock_blocks [of sm s2a ss a] by blast
      from well_blocked_append [OF IH this] group_ids_block [of sm s2a ss a] False Some
      show ?thesis by (auto simp: emit_step_def)
    qed (use IH Some in \<open>simp add: emit_step_def\<close>)
  qed
  then show ?case by (simp add: st_def)
qed

lemma entries_blocked:
  "(\<exists>blocks. buildTranscriptListEntries ck allSpans visibleSpanIds = concat blocks \<and> (\<forall>b\<in>set blocks. block_ok b)) \<and>
   distinct (group_ids (buildTranscriptListEntries ck allSpans visibleSpanIds))"
proof (cases "llmToAnchor (computeSubagentBoundaries ck allSpans) = []")
  case True
  let ?bs = "map (\<lambda>s. [ESpan (toLightweight s)]) (list_spans allSpans visibleSpanIds)"
  have "buildTranscriptListEntries ck allSpans visibleSpanIds = concat ?bs" "\<forall>b\<in>set ?bs. block_ok b"
    using True by (auto simp: buildTranscriptListEntries_def Let_def)
  then have "\<exists>blocks. buildTranscriptListEntries ck allSpans visibleSpanIds = concat blocks \<and> (\<forall>b\<in>set blocks. block_ok b)"
    by blast
  moreover have "group_ids (buildTranscriptListEntries ck allSpans visibleSpanIds) = []"
    using True by (simp add: buildTranscriptListEntries_def Let_def)
  ultimately show ?thesis by simp
next
  case False
  then have "\<exists>A. well_blocked A (buildTranscriptListEntries ck allSpans visibleSpanIds)"
    unfolding buildTranscriptListEntries_def Let_def using emit_well_blocked by (simp only: if_False) (rule exI)
  then show ?thesis unfolding well_blocked_def by blast
qed

text \<open>
  The transcript is a sequence of blocks: a standalone row, or a group header followed by
  its input row and its span rows, the last of them and no other marked as last. A header names the
  first row, the first LLM row, the first start and the last end time, and its token and cost totals
  are the sums over its rows; no two headers have the same group id.
\<close>

lemma transcript_block_structure:
  "(\<exists>blocks. buildTranscriptListEntries ck allSpans visibleSpanIds = concat blocks \<and> (\<forall>b\<in>set blocks. block_ok b)) \<and>
   distinct (group_ids (buildTranscriptListEntries ck allSpans visibleSpanIds))"
  by (rule entries_blocked)

lemma transcript_block_structure_witness:
  "\<exists>g. buildTranscriptListEntries (\<lambda>t. t) demo_spans {} ! 1 = EGroup g \<and>
     group_ids (buildTranscriptListEntries (\<lambda>t. t) demo_spans {}) = [''group-x''] \<and>
     distinct (group_ids (buildTranscriptListEntries (\<lambda>t. t) demo_spans {}))"
proof -
  have "case buildTranscriptListEntries (\<lambda>t. t) demo_spans {} ! 1 of EGroup g \<Rightarrow> True | _ \<Rightarrow> False" by code_simp
  then obtain g where "buildTranscriptListEntries (\<lambda>t. t) demo_spans {} ! 1 = EGroup g"
    by (cases "buildTranscriptListEntries (\<lambda>t. t) demo_spans {} ! 1") auto
  moreover have "group_ids (buildTranscriptListEntries (\<lambda>t. t) demo_spans {}) = [''group-x'']" by code_simp
  ultimately show ?thesis
    using transcript_block_structure [of "\<lambda>t. t" demo_spans "{}"] by blast
qed

end
