(* ===== verification/Traversal.thy ===== *)
theory Traversal
  imports SpanTree
begin

text \<open>
  The two traversals of the timelines: \<open>computeDepth\<close> (depth of every span below the roots) and
  \<open>dfsOrder\<close> (preorder with a visited set), as written in \<open>transformSpansToCondensedTimeline\<close>
  (\<open>components/traces/trace-view/store/utils.ts\<close>); \<open>dfs\<close> of \<open>packSpansInContainer\<close>
  (\<open>components/traces/session-view/session-timeline/utils.ts\<close>) is the same recursion.
  A recursive call on every child in turn is a recursion on the list of pending siblings;
  \<open>None\<close> means that the recursion does not end.
\<close>

section \<open>The code\<close>

partial_function (option) computeDepths ::
  "(string \<Rightarrow> span list option) \<Rightarrow> nat \<Rightarrow> string list \<Rightarrow> (string \<times> nat) list \<Rightarrow> (string \<times> nat) list option"
where
  "computeDepths cm depth ids depthMap = (case ids of
     [] \<Rightarrow> Some depthMap
   | i # rest \<Rightarrow>
       Option.bind (computeDepths cm (depth + 1) (map spanId (kids cm i)) (AList.update i depth depthMap))
         (\<lambda>dm. computeDepths cm depth rest dm))"

partial_function (option) dfsOrder ::
  "(string \<Rightarrow> span list option) \<Rightarrow> string list \<Rightarrow> string list \<Rightarrow> string list option"
where
  "dfsOrder cm ids visited = (case ids of
     [] \<Rightarrow> Some visited
   | i # rest \<Rightarrow>
       if i \<in> set visited then dfsOrder cm rest visited
       else Option.bind (dfsOrder cm (map spanId (kids cm i)) (visited @ [i]))
              (\<lambda>v. dfsOrder cm rest v))"

lemma computeDepths_simps [simp]:
  "computeDepths cm d [] dm = Some dm"
  "computeDepths cm d (i # rest) dm =
     Option.bind (computeDepths cm (d + 1) (map spanId (kids cm i)) (AList.update i d dm)) (\<lambda>dm. computeDepths cm d rest dm)"
  by (subst computeDepths.simps; simp)+

lemma dfsOrder_simps [simp]:
  "dfsOrder cm [] v = Some v"
  "i \<in> set v \<Longrightarrow> dfsOrder cm (i # rest) v = dfsOrder cm rest v"
  "i \<notin> set v \<Longrightarrow> dfsOrder cm (i # rest) v =
     Option.bind (dfsOrder cm (map spanId (kids cm i)) (v @ [i])) (\<lambda>v. dfsOrder cm rest v)"
  by (subst dfsOrder.simps; simp)+

lemmas traversal_simps = computeDepths_simps dfsOrder_simps

section \<open>The visited-set recursion always ends\<close>

text \<open>An explicit stack in place of the recursion.\<close>

function dfs_stack :: "span list \<Rightarrow> string list \<Rightarrow> string list \<Rightarrow> string list" where
  "dfs_stack spans [] visited = visited"
| "dfs_stack spans (i # rest) visited =
     (if i \<in> set visited then dfs_stack spans rest visited
      else dfs_stack spans (map spanId (kids (getChildSpansMap spans) i) @ rest) (visited @ [i]))"
  by pat_completeness auto
termination
proof (relation "measures [\<lambda>(spans, ids, v). card ((spanId ` set spans \<union> set ids) - set v), \<lambda>(spans, ids, v). length ids]")
  fix spans :: "span list" and i :: string and rest v :: "string list"
  show "((spans, rest, v), spans, i # rest, v) \<in> measures [\<lambda>(spans, ids, v). card ((spanId ` set spans \<union> set ids) - set v), \<lambda>(spans, ids, v). length ids]"
    if "i \<in> set v"
  proof -
    have "(spanId ` set spans \<union> set rest) - set v = (spanId ` set spans \<union> set (i # rest)) - set v" using that by auto
    then show ?thesis by simp
  qed
  show "((spans, map spanId (kids (getChildSpansMap spans) i) @ rest, v @ [i]), spans, i # rest, v)
      \<in> measures [\<lambda>(spans, ids, v). card ((spanId ` set spans \<union> set ids) - set v), \<lambda>(spans, ids, v). length ids]"
    if "i \<notin> set v"
  proof -
    have "(spanId ` set spans \<union> set (map spanId (kids (getChildSpansMap spans) i) @ rest)) - set (v @ [i])
        \<subset> (spanId ` set spans \<union> set (i # rest)) - set v" using that by auto
    then show ?thesis by (simp add: psubset_card_mono)
  qed
qed simp

lemma dfsOrder_append:
  "dfsOrder cm (xs @ ys) v = Option.bind (dfsOrder cm xs v) (dfsOrder cm ys)"
proof (induction xs arbitrary: v)
  case Nil
  then show ?case by simp
next
  case (Cons x xs)
  then show ?case by (cases "x \<in> set v") simp_all
qed

lemma dfsOrder_stack: "dfsOrder (getChildSpansMap spans) ids v = Some (dfs_stack spans ids v)"
proof (induction spans ids v rule: dfs_stack.induct)
  case (1 spans v)
  then show ?case by simp
next
  case (2 spans i rest v)
  then show ?case
    by (cases "i \<in> set v") (simp_all add: dfsOrder_append)
qed

section \<open>What the order is\<close>

lemma dfs_stack_distinct: "distinct v \<Longrightarrow> distinct (dfs_stack spans ids v)"
  by (induction spans ids v rule: dfs_stack.induct) auto

lemma dfs_stack_prefix: "\<exists>new. dfs_stack spans ids v = v @ new"
  by (induction spans ids v rule: dfs_stack.induct) auto

lemma dfs_stack_mono: "set v \<union> set ids \<subseteq> set (dfs_stack spans ids v)"
proof (induction spans ids v rule: dfs_stack.induct)
  case (1 spans v)
  then show ?case by simp
next
  case (2 spans i rest v)
  then show ?case by auto
qed

text \<open>Children of a visited id are visited, unless they are still pending.\<close>

lemma dfs_stack_closed:
  "(\<And>j c. j \<in> set v \<Longrightarrow> c \<in> set (kids (getChildSpansMap spans) j) \<Longrightarrow> spanId c \<in> set v \<union> set ids) \<Longrightarrow>
   j \<in> set (dfs_stack spans ids v) \<Longrightarrow> c \<in> set (kids (getChildSpansMap spans) j) \<Longrightarrow>
   spanId c \<in> set (dfs_stack spans ids v)"
proof (induction spans ids v rule: dfs_stack.induct)
  case (1 spans v)
  then show ?case by auto
next
  case (2 spans i rest v)
  show ?case
  proof (cases "i \<in> set v")
    case True
    with 2 show ?thesis by (auto simp: insert_absorb)
  next
    case False
    have "spanId c \<in> set (dfs_stack spans (map spanId (kids (getChildSpansMap spans) i) @ rest) (v @ [i]))"
    proof (rule "2.IH"(2) [OF False])
      fix j c
      assume "j \<in> set (v @ [i])" "c \<in> set (kids (getChildSpansMap spans) j)"
      with "2.prems"(1) [of j c]
      show "spanId c \<in> set (v @ [i]) \<union> set (map spanId (kids (getChildSpansMap spans) i) @ rest)"
        by (auto simp del: kids_mem)
    qed (use False "2.prems" in auto)
    with False show ?thesis by simp
  qed
qed

text \<open>Every visited id is a start id or comes after an id whose child it is.\<close>

definition preceded :: "span list \<Rightarrow> string set \<Rightarrow> string list \<Rightarrow> bool" where
  "preceded spans starts v \<longleftrightarrow> (\<forall>k<length v. v ! k \<in> starts \<or>
     (\<exists>j<k. \<exists>c\<in>set (kids (getChildSpansMap spans) (v ! j)). spanId c = v ! k))"

lemma preceded_snoc:
  "preceded spans S v \<Longrightarrow> i \<in> S \<or> (\<exists>j\<in>set v. \<exists>c\<in>set (kids (getChildSpansMap spans) j). spanId c = i) \<Longrightarrow>
     preceded spans S (v @ [i])"
  unfolding preceded_def
proof (intro allI impI)
  fix k
  assume p: "\<forall>k<length v. v ! k \<in> S \<or> (\<exists>j<k. \<exists>c\<in>set (kids (getChildSpansMap spans) (v ! j)). spanId c = v ! k)"
    and i: "i \<in> S \<or> (\<exists>j\<in>set v. \<exists>c\<in>set (kids (getChildSpansMap spans) j). spanId c = i)"
    and k: "k < length (v @ [i])"
  show "(v @ [i]) ! k \<in> S \<or> (\<exists>j<k. \<exists>c\<in>set (kids (getChildSpansMap spans) ((v @ [i]) ! j)). spanId c = (v @ [i]) ! k)"
  proof (cases "k < length v")
    case True
    with p have "v ! k \<in> S \<or> (\<exists>j<k. \<exists>c\<in>set (kids (getChildSpansMap spans) (v ! j)). spanId c = v ! k)" by blast
    then show ?thesis
    proof
      assume "\<exists>j<k. \<exists>c\<in>set (kids (getChildSpansMap spans) (v ! j)). spanId c = v ! k"
      then obtain j where "j < k" "\<exists>c\<in>set (kids (getChildSpansMap spans) (v ! j)). spanId c = v ! k" by blast
      with True have "\<exists>c\<in>set (kids (getChildSpansMap spans) ((v @ [i]) ! j)). spanId c = (v @ [i]) ! k"
        by (simp only: nth_append) simp
      with \<open>j < k\<close> show ?thesis by blast
    qed (use True in \<open>simp add: nth_append\<close>)
  next
    case False
    with k have k: "k = length v" by simp
    from i show ?thesis
    proof
      assume "\<exists>j\<in>set v. \<exists>c\<in>set (kids (getChildSpansMap spans) j). spanId c = i"
      then obtain n where "n < length v" "\<exists>c\<in>set (kids (getChildSpansMap spans) (v ! n)). spanId c = i"
        by (metis in_set_conv_nth)
      with k have "n < k" "\<exists>c\<in>set (kids (getChildSpansMap spans) ((v @ [i]) ! n)). spanId c = (v @ [i]) ! k"
        by (simp_all only: nth_append) simp_all
      then show ?thesis by blast
    qed (use k in simp)
  qed
qed

lemma dfs_stack_preceded:
  "preceded spans S v \<Longrightarrow>
   (\<And>i. i \<in> set ids \<Longrightarrow> i \<in> S \<or> (\<exists>j\<in>set v. \<exists>c\<in>set (kids (getChildSpansMap spans) j). spanId c = i)) \<Longrightarrow>
   preceded spans S (dfs_stack spans ids v)"
proof (induction spans ids v rule: dfs_stack.induct)
  case (1 spans v)
  then show ?case by simp
next
  case (2 spans i rest v)
  show ?case
  proof (cases "i \<in> set v")
    case True
    with 2 show ?thesis by (simp del: kids_mem)
  next
    case False
    have "preceded spans S (dfs_stack spans (map spanId (kids (getChildSpansMap spans) i) @ rest) (v @ [i]))"
    proof (rule "2.IH"(2) [OF False])
      show "preceded spans S (v @ [i])" by (rule preceded_snoc) (use "2.prems" in \<open>simp_all del: kids_mem\<close>)
      fix k
      assume "k \<in> set (map spanId (kids (getChildSpansMap spans) i) @ rest)"
      with "2.prems"(2) [of k] show "k \<in> S \<or> (\<exists>j\<in>set (v @ [i]). \<exists>c\<in>set (kids (getChildSpansMap spans) j). spanId c = k)"
        by (auto simp del: kids_mem)
    qed
    with False show ?thesis by simp
  qed
qed

text \<open>The order in which the spans are placed: all spans that hang from a root, parents first.\<close>

definition dfs_ids :: "span list \<Rightarrow> string list" where
  "dfs_ids spans = dfs_stack spans (map spanId (topLevelSpans spans)) []"

lemma dfs_ids_distinct: "distinct (dfs_ids spans)"
  by (simp add: dfs_ids_def dfs_stack_distinct)

lemma dfs_ids_preceded: "preceded spans (spanId ` set (topLevelSpans spans)) (dfs_ids spans)"
  unfolding dfs_ids_def by (rule dfs_stack_preceded) (simp_all add: preceded_def)

lemma dfs_ids_root: "s \<in> set (topLevelSpans spans) \<Longrightarrow> spanId s \<in> set (dfs_ids spans)"
  using dfs_stack_mono [of "[]" "map spanId (topLevelSpans spans)" spans] by (auto simp: dfs_ids_def)

lemma dfs_ids_kid:
  "j \<in> set (dfs_ids spans) \<Longrightarrow> c \<in> set (kids (getChildSpansMap spans) j) \<Longrightarrow> spanId c \<in> set (dfs_ids spans)"
  unfolding dfs_ids_def by (rule dfs_stack_closed) auto

lemma descent_in_dfs: "descent spans anc s \<Longrightarrow> spanId s \<in> set (dfs_ids spans)"
  by (induction rule: descent.induct) (auto intro: dfs_ids_root dfs_ids_kid simp del: kids_mem)

lemma in_dfs_descent:
  assumes "distinct (map spanId spans)" and "i \<in> set (dfs_ids spans)"
  shows "\<exists>anc s. descent spans anc s \<and> spanId s = i"
proof -
  have "\<exists>anc s. descent spans anc s \<and> spanId s = dfs_ids spans ! k" if "k < length (dfs_ids spans)" for k
    using that
  proof (induction k rule: less_induct)
    case (less k)
    from dfs_ids_preceded less.prems consider
      (root) "dfs_ids spans ! k \<in> spanId ` set (topLevelSpans spans)"
    | (kid) j c where "j < k" "c \<in> set (kids (getChildSpansMap spans) (dfs_ids spans ! j))" "spanId c = dfs_ids spans ! k"
      unfolding preceded_def by blast
    then show ?case
    proof cases
      case root
      then obtain s where "s \<in> set (topLevelSpans spans)" "dfs_ids spans ! k = spanId s" by auto
      with descent_root show ?thesis by metis
    next
      case kid
      with less obtain anc p where "descent spans anc p" "spanId p = dfs_ids spans ! j" by fastforce
      with kid descent_kid [of spans anc p c] show ?thesis by metis
    qed
  qed
  with assms(2) show ?thesis by (metis in_set_conv_nth)
qed

section \<open>Depths\<close>

definition depths_good :: "span list \<Rightarrow> (string \<times> nat) list \<Rightarrow> bool" where
  "depths_good spans dm \<longleftrightarrow> (\<forall>i d. map_of dm i = Some d \<longrightarrow>
     (\<exists>s anc. descent spans anc s \<and> spanId s = i \<and> d = length anc))"

lemma depths_good_update:
  "depths_good spans dm \<Longrightarrow> descent spans anc s \<Longrightarrow> depths_good spans (AList.update (spanId s) (length anc) dm)"
  by (auto simp: depths_good_def update_conv)

lemma descent_below:
  assumes "descent spans anc x" and "c \<in> set anc"
  shows "\<exists>k\<in>set (x # anc). k \<in> set (kids (getChildSpansMap spans) (spanId c))"
  using assms
proof (induction rule: descent.induct)
  case (descent_root s)
  then show ?case by simp
next
  case (descent_kid anc p k)
  then show ?case by (cases "c = p") (auto simp del: kids_mem)
qed

lemma descent_last: "descent spans anc x \<Longrightarrow> last (x # anc) \<in> set (topLevelSpans spans)"
  by (induction rule: descent.induct) auto

lemma computeDepths_ok:
  assumes "distinct (map spanId spans)"
  shows "length spans \<le> n + d \<Longrightarrow> \<forall>c\<in>set cs. \<exists>anc. descent spans anc c \<and> length anc = d \<Longrightarrow> depths_good spans dm \<Longrightarrow>
     \<exists>dm'. computeDepths (getChildSpansMap spans) d (map spanId cs) dm = Some dm' \<and> depths_good spans dm' \<and>
       fst ` set dm \<subseteq> fst ` set dm' \<and>
       (\<forall>x anc. descent spans anc x \<longrightarrow> (\<exists>c\<in>set cs. c \<in> set (x # anc)) \<longrightarrow> spanId x \<in> fst ` set dm')"
proof (induction n arbitrary: d cs dm)
  case 0
  then have "cs = []" using descent_length [OF assms] by (cases cs) fastforce+
  with 0 show ?case by auto
next
  case (Suc n)
  show ?case
    using Suc.prems
  proof (induction cs arbitrary: dm)
    case Nil
    then show ?case by simp
  next
    case (Cons c cs)
    from Cons.prems obtain anc where anc: "descent spans anc c" "length anc = d" by auto
    let ?dm1 = "AList.update (spanId c) d dm" and ?ks = "kids (getChildSpansMap spans) (spanId c)"
    have good1: "depths_good spans ?dm1" using depths_good_update [OF Cons.prems(3) anc(1)] anc(2) by simp
    have "\<forall>k\<in>set ?ks. \<exists>anc. descent spans anc k \<and> length anc = d + 1"
      using descent_kid [OF anc(1)] anc(2) by (force simp del: kids_mem)
    from Suc.IH [OF _ this good1] Cons.prems(1) obtain dm2 where
      dm2: "computeDepths (getChildSpansMap spans) (d + 1) (map spanId ?ks) ?dm1 = Some dm2" "depths_good spans dm2"
        "fst ` set ?dm1 \<subseteq> fst ` set dm2"
        "\<forall>x anc. descent spans anc x \<longrightarrow> (\<exists>k\<in>set ?ks. k \<in> set (x # anc)) \<longrightarrow> spanId x \<in> fst ` set dm2"
      by auto
    from Cons.IH [OF Cons.prems(1) _ dm2(2)] Cons.prems(2) obtain dm3 where
      dm3: "computeDepths (getChildSpansMap spans) d (map spanId cs) dm2 = Some dm3" "depths_good spans dm3"
        "fst ` set dm2 \<subseteq> fst ` set dm3"
        "\<forall>x anc. descent spans anc x \<longrightarrow> (\<exists>c\<in>set cs. c \<in> set (x # anc)) \<longrightarrow> spanId x \<in> fst ` set dm3"
      by auto
    have "spanId x \<in> fst ` set dm3" if x: "descent spans anc' x" "c \<in> set (x # anc')" for x anc'
    proof (cases "c = x")
      case True
      with dm2(3) dm3(3) show ?thesis by (auto simp: dom_update)
    next
      case False
      with x descent_below have "\<exists>k\<in>set ?ks. k \<in> set (x # anc')" by fastforce
      with x(1) dm2(4) dm3(3) show ?thesis by blast
    qed
    moreover have "fst ` set dm \<subseteq> fst ` set ?dm1" by (simp add: dom_update subset_insertI)
    then have "fst ` set dm \<subseteq> fst ` set dm3" using dm2(3) dm3(3) by (meson order_trans)
    ultimately show ?case using dm2(1) dm3 by (intro exI [of _ dm3]) auto
  qed
qed

lemma computeDepths_result:
  assumes "distinct (map spanId spans)"
  obtains dm where "computeDepths (getChildSpansMap spans) 0 (map spanId (topLevelSpans spans)) [] = Some dm"
    and "\<And>anc s. descent spans anc s \<Longrightarrow> map_of dm (spanId s) = Some (length anc)"
proof -
  have "\<forall>c\<in>set (topLevelSpans spans). \<exists>anc. descent spans anc c \<and> length anc = 0"
    by (auto intro: descent_root)
  moreover have "depths_good spans []" by (simp add: depths_good_def)
  ultimately obtain dm where dm: "computeDepths (getChildSpansMap spans) 0 (map spanId (topLevelSpans spans)) [] = Some dm"
    "depths_good spans dm"
    "\<forall>x anc. descent spans anc x \<longrightarrow> (\<exists>c\<in>set (topLevelSpans spans). c \<in> set (x # anc)) \<longrightarrow> spanId x \<in> fst ` set dm"
    using computeDepths_ok [OF assms, of "length spans" 0 "topLevelSpans spans" "[]"] by auto
  have "map_of dm (spanId s) = Some (length anc)" if s: "descent spans anc s" for anc s
  proof -
    have "last (s # anc) \<in> set (s # anc)" by (rule last_in_set) simp
    with descent_last [OF s] s dm(3) have "spanId s \<in> fst ` set dm" by blast
    then obtain d where d: "map_of dm (spanId s) = Some d" by (metis not_None_eq map_of_eq_None_iff)
    with dm(2) obtain t anc' where t: "descent spans anc' t" "spanId t = spanId s" "d = length anc'"
      unfolding depths_good_def by blast
    have "t = s" using same_id [OF assms _ _ t(2)] descent_in_spans [OF t(1)] descent_in_spans [OF s] by auto
    with descent_unique [OF assms t(1)] s t(3) d show ?thesis by simp
  qed
  with dm(1) that show thesis by blast
qed

section \<open>The spans in traversal order\<close>

definition dfs_spans :: "span list \<Rightarrow> span list" where
  "dfs_spans spans = List.map_filter (map_of (spanMap spans)) (dfs_ids spans)"

lemma dfs_ids_known:
  assumes "distinct (map spanId spans)" and "i \<in> set (dfs_ids spans)"
  shows "\<exists>s anc. map_of (spanMap spans) i = Some s \<and> descent spans anc s \<and> spanId s = i"
proof -
  from in_dfs_descent [OF assms] obtain anc s where s: "descent spans anc s" "spanId s = i" by blast
  then have "s \<in> set spans" using descent_in_spans by fastforce
  from spanMap_distinct [OF assms(1) this] s show ?thesis by blast
qed

lemma map_filter_known:
  "(\<And>i. i \<in> set is \<Longrightarrow> \<exists>s. f i = Some s) \<Longrightarrow> List.map_filter f is = map (\<lambda>i. the (f i)) is"
  by (induction "is") (force simp: map_filter_simps)+

lemma dfs_spans_map:
  assumes "distinct (map spanId spans)"
  shows "dfs_spans spans = map (\<lambda>i. the (map_of (spanMap spans) i)) (dfs_ids spans)"
  unfolding dfs_spans_def by (rule map_filter_known) (use dfs_ids_known [OF assms] in blast)

lemma dfs_spans_ids:
  assumes "distinct (map spanId spans)"
  shows "map spanId (dfs_spans spans) = dfs_ids spans"
proof -
  have "spanId (the (map_of (spanMap spans) i)) = i" if "i \<in> set (dfs_ids spans)" for i
    using dfs_ids_known [OF assms that] by auto
  then show ?thesis by (simp add: dfs_spans_map [OF assms] map_idI)
qed

lemma dfs_spans_set:
  assumes "distinct (map spanId spans)"
  shows "set (dfs_spans spans) = {s. \<exists>anc. descent spans anc s}"
proof (intro set_eqI iffI)
  fix s
  assume "s \<in> set (dfs_spans spans)"
  then obtain i where i: "i \<in> set (dfs_ids spans)" "s = the (map_of (spanMap spans) i)"
    by (auto simp: dfs_spans_map [OF assms])
  from dfs_ids_known [OF assms i(1)] i(2) show "s \<in> {s. \<exists>anc. descent spans anc s}" by auto
next
  fix s
  assume "s \<in> {s. \<exists>anc. descent spans anc s}"
  then obtain anc where s: "descent spans anc s" by blast
  then have "s \<in> set spans" using descent_in_spans by fastforce
  from spanMap_distinct [OF assms this] descent_in_dfs [OF s] show "s \<in> set (dfs_spans spans)"
    by (force simp: dfs_spans_map [OF assms])
qed

lemma dfs_spans_distinct: "distinct (map spanId spans) \<Longrightarrow> distinct (map spanId (dfs_spans spans))"
  by (simp add: dfs_spans_ids dfs_ids_distinct)

lemma dfs_spans_subset: "distinct (map spanId spans) \<Longrightarrow> s \<in> set (dfs_spans spans) \<Longrightarrow> s \<in> set spans"
  using descent_in_spans by (fastforce simp: dfs_spans_set)

lemma dfs_spans_parent_first:
  assumes d: "distinct (map spanId spans)" and ij: "i < length (dfs_spans spans)" "j < length (dfs_spans spans)"
    and p: "parentSpanId (dfs_spans spans ! j) = Some (spanId (dfs_spans spans ! i))" "spanId (dfs_spans spans ! i) \<noteq> []"
  shows "i < j"
proof -
  let ?v = "dfs_ids spans"
  have len: "length ?v = length (dfs_spans spans)" using arg_cong [OF dfs_spans_ids [OF d], of length] by simp
  have nth: "spanId (dfs_spans spans ! k) = ?v ! k" if "k < length ?v" for k
    using that len by (metis dfs_spans_ids [OF d] nth_map)
  have mem: "dfs_spans spans ! j \<in> set spans" using dfs_spans_subset [OF d] ij by simp
  have "?v ! j \<notin> spanId ` set (topLevelSpans spans)"
  proof
    assume "?v ! j \<in> spanId ` set (topLevelSpans spans)"
    then obtain r where r: "r \<in> set (topLevelSpans spans)" "spanId r = spanId (dfs_spans spans ! j)"
      using nth [of j] ij len by force
    then have "r = dfs_spans spans ! j" using same_id [OF d _ mem] by (auto simp: topLevelSpans_def)
    with r p show False by (auto simp: topLevelSpans_def)
  qed
  with dfs_ids_preceded [of spans] ij(2) len obtain k c where
    k: "k < j" "c \<in> set (kids (getChildSpansMap spans) (?v ! k))" "spanId c = ?v ! j"
    unfolding preceded_def by metis
  then have "c = dfs_spans spans ! j" using same_id [OF d _ mem] nth [of j] ij len by auto
  with k(2) p(1) have "?v ! k = spanId (dfs_spans spans ! i)" by simp
  also have "\<dots> = ?v ! i" using nth [of i] ij(1) len by simp
  finally have "k = i" using dfs_ids_distinct [of spans] k(1) ij len by (simp add: nth_eq_iff_index_eq)
  with k(1) show ?thesis by simp
qed

end
