(* ===== verification/RowPacking.thy ===== *)
theory RowPacking
  imports SpanModel
begin

text \<open>
  The gravity packing shared by the timelines of the frontend
  (\<open>transformSpansToCondensedTimeline\<close>, \<open>packSpansInContainer\<close>, \<open>computeSegmentLayout\<close>): every block
  goes to the first row, counted from a minimum, where it overlaps nothing placed before.

  The interface \<open>row_store\<close> is what the loops use of their \<open>rowOccupancy\<close> arrays: an overlap test
  over a range of rows and an operation that marks them. Its client lemmas say that the search for
  a row ends with the least free row and that rows never hold two overlapping blocks.
\<close>

section \<open>The search loop\<close>

text \<open>\<open>let row = m; while (busy(row)) row++\<close>\<close>

definition first_free :: "(nat \<Rightarrow> bool) \<Rightarrow> nat \<Rightarrow> nat" where
  "first_free busy m = while busy Suc m"

lemma first_free_spec:
  assumes "\<forall>k\<ge>n. \<not> busy k"
  shows "m \<le> first_free busy m \<and> \<not> busy (first_free busy m) \<and>
    (\<forall>k. m \<le> k \<longrightarrow> k < first_free busy m \<longrightarrow> busy k) \<and> first_free busy m \<le> max m n"
  unfolding first_free_def
proof (rule while_rule [where P = "\<lambda>r. m \<le> r \<and> (\<forall>k. m \<le> k \<longrightarrow> k < r \<longrightarrow> busy k) \<and> r \<le> max m n"
      and r = "measure (\<lambda>r. n - r)"])
  fix r
  assume r: "m \<le> r \<and> (\<forall>k. m \<le> k \<longrightarrow> k < r \<longrightarrow> busy k) \<and> r \<le> max m n" "busy r"
  with assms have "r < n" using not_less by blast
  with r show "(Suc r, r) \<in> measure (\<lambda>r. n - r)"
    "m \<le> Suc r \<and> (\<forall>k. m \<le> k \<longrightarrow> k < Suc r \<longrightarrow> busy k) \<and> Suc r \<le> max m n"
    by (auto simp: less_Suc_eq)
qed auto

lemma first_free_unique:
  assumes "m \<le> r" "\<not> busy r" "\<And>k. m \<le> k \<Longrightarrow> k < r \<Longrightarrow> busy k"
  shows "first_free busy m = r"
proof -
  have "m = r - k \<Longrightarrow> k \<le> r \<Longrightarrow> (\<And>j. r - k \<le> j \<Longrightarrow> j < r \<Longrightarrow> busy j) \<Longrightarrow> first_free busy m = r" for k
  proof (induction k arbitrary: m)
    case 0
    with assms(2) show ?case by (simp add: first_free_def while_unfold)
  next
    case (Suc k)
    then have "busy m" by auto
    then have "first_free busy m = first_free busy (Suc m)" by (simp add: first_free_def while_unfold [of busy Suc m])
    moreover have "first_free busy (Suc m) = r" by (rule Suc.IH) (use Suc.prems in auto)
    ultimately show ?case by simp
  qed
  from this [of "r - m"] assms show ?thesis by auto
qed

section \<open>The interface\<close>

locale row_store =
  fixes ov :: "'i \<Rightarrow> 'i \<Rightarrow> bool"
    and busy :: "'o \<Rightarrow> 'i \<Rightarrow> nat \<Rightarrow> nat \<Rightarrow> bool"
    and put :: "'i \<Rightarrow> nat \<Rightarrow> nat \<Rightarrow> 'o \<Rightarrow> 'o"
    and row_at :: "'o \<Rightarrow> nat \<Rightarrow> 'i list"
    and rows :: "'o \<Rightarrow> nat"
    and none :: 'o
  assumes rows_none: "rows none = 0"
    and rows_put: "0 < h \<Longrightarrow> rows (put x r h st) = max (rows st) (r + h)"
    and row_beyond: "rows st \<le> k \<Longrightarrow> row_at st k = []"
    and row_at_put: "row_at (put x r h st) k = (if r \<le> k \<and> k < r + h then row_at st k @ [x] else row_at st k)"
    and busy_iff: "busy st x r h \<longleftrightarrow> (\<exists>k. r \<le> k \<and> k < r + h \<and> (\<exists>y\<in>set (row_at st k). ov x y))"
begin

text \<open>The row a block of height \<open>h\<close> is given.\<close>

definition slot :: "'o \<Rightarrow> 'i \<Rightarrow> nat \<Rightarrow> nat \<Rightarrow> nat" where
  "slot st x h m = first_free (\<lambda>r. busy st x r h) m"

lemma slot_spec:
  "m \<le> slot st x h m \<and> \<not> busy st x (slot st x h m) h \<and>
   (\<forall>k. m \<le> k \<longrightarrow> k < slot st x h m \<longrightarrow> busy st x k h) \<and> slot st x h m \<le> max m (rows st)"
  unfolding slot_def
proof (rule first_free_spec)
  show "\<forall>k\<ge>rows st. \<not> busy st x k h"
    by (auto simp: busy_iff row_beyond)
qed

lemma slot_clear:
  "slot st x h m \<le> k \<Longrightarrow> k < slot st x h m + h \<Longrightarrow> y \<in> set (row_at st k) \<Longrightarrow> \<not> ov x y"
  using slot_spec [of m st x h] unfolding busy_iff [of st x "slot st x h m"] by blast

text \<open>No block overlaps one that was put into the same row before it.\<close>

definition clash_free :: "'o \<Rightarrow> bool" where
  "clash_free st \<longleftrightarrow> (\<forall>k. sorted_wrt (\<lambda>y x. \<not> ov x y) (row_at st k))"

lemma clash_free_none: "clash_free none"
  by (simp add: clash_free_def row_beyond rows_none)

lemma clash_free_put: "clash_free st \<Longrightarrow> \<not> busy st x r h \<Longrightarrow> clash_free (put x r h st)"
  by (auto simp: clash_free_def row_at_put busy_iff sorted_wrt_append)

lemma clash_free_slot: "clash_free st \<Longrightarrow> clash_free (put x (slot st x h m) h st)"
  by (rule clash_free_put) (simp_all add: slot_spec)

text \<open>A run of the packing loop over blocks with their extents, heights and minimum rows.\<close>

fun pack :: "('i \<times> nat) list \<Rightarrow> 'o \<Rightarrow> nat list \<times> 'o" where
  "pack [] st = ([], st)"
| "pack ((x, h) # bs) st =
     (let r = slot st x h 0; res = pack bs (put x r h st) in (r # fst res, snd res))"

lemma pack_clash_free: "clash_free st \<Longrightarrow> clash_free (snd (pack bs st))"
  by (induction bs st rule: pack.induct) (auto simp: Let_def clash_free_slot)

lemma pack_length [simp]: "length (fst (pack bs st)) = length bs"
  by (induction bs st rule: pack.induct) (auto simp: Let_def)

lemma pack_keeps: "y \<in> set (row_at st k) \<Longrightarrow> y \<in> set (row_at (snd (pack bs st)) k)"
  by (induction bs st rule: pack.induct) (auto simp: Let_def row_at_put)

text \<open>The blocks of a run keep clear of everything already there and of each other.\<close>

lemma pack_clear:
  "i < length bs \<Longrightarrow> fst (pack bs st) ! i \<le> k \<Longrightarrow> k < fst (pack bs st) ! i + snd (bs ! i) \<Longrightarrow>
     y \<in> set (row_at st k) \<Longrightarrow> \<not> ov (fst (bs ! i)) y"
proof (induction bs st arbitrary: i rule: pack.induct)
  case (1 st)
  then show ?case by simp
next
  case (2 x h bs st)
  show ?case
  proof (cases i)
    case 0
    with 2 show ?thesis using slot_clear [of st x h 0 k y] by (simp add: Let_def)
  next
    case (Suc j)
    with 2 show ?thesis by (auto simp: Let_def row_at_put split: if_splits)
  qed
qed

lemma pack_disjoint:
  "i < j \<Longrightarrow> j < length bs \<Longrightarrow>
   fst (pack bs st) ! i \<le> k \<Longrightarrow> k < fst (pack bs st) ! i + snd (bs ! i) \<Longrightarrow>
   fst (pack bs st) ! j \<le> k \<Longrightarrow> k < fst (pack bs st) ! j + snd (bs ! j) \<Longrightarrow>
   \<not> ov (fst (bs ! j)) (fst (bs ! i))"
proof (induction bs st arbitrary: i j rule: pack.induct)
  case (1 st)
  then show ?case by simp
next
  case (2 x h bs st)
  let ?r = "slot st x h 0"
  from 2 obtain j' where j: "j = Suc j'" by (cases j) auto
  show ?case
  proof (cases i)
    case 0
    have "x \<in> set (row_at (put x ?r h st) k)" using 2 0 by (simp add: Let_def row_at_put)
    with 2 0 j show ?thesis
      using pack_clear [of j' bs "put x ?r h st" k x] by (simp add: Let_def)
  next
    case (Suc i')
    with 2 j show ?thesis by (simp add: Let_def)
  qed
qed

lemma rows_pack:
  "\<forall>b\<in>set bs. 0 < snd b \<Longrightarrow>
   rows (snd (pack bs st)) = foldr max (map2 (\<lambda>r b. r + snd b) (fst (pack bs st)) bs) (rows st)"
proof (induction bs st rule: pack.induct)
  case (1 st)
  then show ?case by simp
next
  case (2 x h bs st)
  have "foldr max xs (max a b) = max b (foldr max xs a)" for xs :: "nat list" and a b
    by (induction xs) (simp_all add: max.left_commute max.commute)
  with 2 show ?case by (simp add: Let_def rows_put)
qed

end

section \<open>Occupancy as an array of rows\<close>

text \<open>
  \<open>rowOccupancy\<close> itself: \<open>busy\<close> scans the rows \<open>r\<close> to \<open>r + h - 1\<close>, \<open>occupy\<close> appends to each of
  them (in increasing order, which extends the array). The three timelines differ in the interval
  type and its overlap test only.
\<close>

definition occupy :: "'i \<Rightarrow> nat \<Rightarrow> nat \<Rightarrow> 'i list list \<Rightarrow> 'i list list" where
  "occupy x row h rowOccupancy = foldl (\<lambda>rs r. row_push r x rs) rowOccupancy [row..<row + h]"

definition hasOverlap :: "('i \<Rightarrow> 'i \<Rightarrow> bool) \<Rightarrow> 'i list list \<Rightarrow> 'i \<Rightarrow> nat \<Rightarrow> nat \<Rightarrow> bool" where
  "hasOverlap ov rowOccupancy x row h = (\<exists>r\<in>set [row..<row + h]. \<exists>y\<in>set (row_get rowOccupancy r). ov x y)"

lemma occupy_from:
  "row_get (occupy x row h rs) k = (if row \<le> k \<and> k < row + h then row_get rs k @ [x] else row_get rs k) \<and>
   (0 < h \<longrightarrow> length (occupy x row h rs) = max (length rs) (row + h))"
proof (induction h)
  case 0
  then show ?case by (simp add: occupy_def)
next
  case (Suc h)
  have "occupy x row (Suc h) rs = row_push (row + h) x (occupy x row h rs)" by (simp add: occupy_def)
  with Suc show ?case by (cases "h = 0") (auto simp: row_get_row_push occupy_def)
qed

lemma row_get_beyond: "length rs \<le> k \<Longrightarrow> row_get rs k = []"
  by (simp add: row_get_def)

lemma row_array:
  "row_store ov (hasOverlap ov) occupy row_get length []"
  by unfold_locales (auto simp: occupy_from hasOverlap_def row_get_beyond)

section \<open>Gravity\<close>

text \<open>
  One step of the gravity loop over spans: the span goes to the first free row below its parent's
  row. \<open>condensed_steps\<close> and \<open>container_steps\<close> of the timeline theories reduce their loops to it.
\<close>

definition gravity_step ::
  "('o \<Rightarrow> 'i \<Rightarrow> nat \<Rightarrow> nat \<Rightarrow> bool) \<Rightarrow> ('i \<Rightarrow> nat \<Rightarrow> nat \<Rightarrow> 'o \<Rightarrow> 'o) \<Rightarrow> (span \<Rightarrow> 'i)
     \<Rightarrow> (string \<times> nat) list \<times> 'o \<Rightarrow> span \<Rightarrow> (string \<times> nat) list \<times> 'o"
where
  "gravity_step busy put itv st s =
     (let m = (case (if truthy (parentSpanId s) then map_of (fst st) (the (parentSpanId s)) else None) of
                 None \<Rightarrow> 0 | Some r \<Rightarrow> r + 1);
          r = first_free (\<lambda>r. busy (snd st) (itv s) r 1) m
      in (AList.update (spanId s) r (fst st), put (itv s) r 1 (snd st)))"

text \<open>What a finished run guarantees, in terms of the assigned rows alone.\<close>

definition packed ::
  "('i \<Rightarrow> 'i \<Rightarrow> bool) \<Rightarrow> (span \<Rightarrow> 'i) \<Rightarrow> span list \<Rightarrow> (string \<Rightarrow> nat option) \<Rightarrow> nat \<Rightarrow> bool"
where
  "packed ov itv ss row n \<longleftrightarrow>
     (\<forall>s\<in>set ss. \<exists>r<n. row (spanId s) = Some r) \<and>
     (\<forall>k<n. \<exists>s\<in>set ss. row (spanId s) = Some k) \<and>
     (\<forall>j<length ss. \<forall>i<j. row (spanId (ss ! i)) = row (spanId (ss ! j)) \<longrightarrow> \<not> ov (itv (ss ! j)) (itv (ss ! i))) \<and>
     (\<forall>j<length ss. \<forall>i<j. parentSpanId (ss ! j) = Some (spanId (ss ! i)) \<longrightarrow> spanId (ss ! i) \<noteq> [] \<longrightarrow>
        the (row (spanId (ss ! i))) < the (row (spanId (ss ! j))))"

context row_store
begin

definition gravity_inv :: "(span \<Rightarrow> 'i) \<Rightarrow> span list \<Rightarrow> (string \<times> nat) list \<times> 'o \<Rightarrow> bool" where
  "gravity_inv itv ss st \<longleftrightarrow>
     packed ov itv ss (map_of (fst st)) (rows (snd st)) \<and>
     (\<forall>i. map_of (fst st) i \<noteq> None \<longrightarrow> i \<in> spanId ` set ss) \<and>
     (\<forall>k. row_at (snd st) k = map itv (filter (\<lambda>s. map_of (fst st) (spanId s) = Some k) ss))"

lemma gravity_inv_step:
  assumes inv: "gravity_inv itv ss st" and new: "spanId s \<notin> spanId ` set ss"
  shows "gravity_inv itv (ss @ [s]) (gravity_step busy put itv st s)"
proof -
  define m where "m = (case (if truthy (parentSpanId s) then map_of (fst st) (the (parentSpanId s)) else None) of
                 None \<Rightarrow> 0 | Some r \<Rightarrow> r + 1)"
  define r where "r = slot (snd st) (itv s) 1 m"
  define row where "row = map_of (fst st)"
  define row' where "row' = row(spanId s \<mapsto> r)"
  define n where "n = rows (snd st)"
  have st': "gravity_step busy put itv st s = (AList.update (spanId s) r (fst st), put (itv s) r 1 (snd st))"
    by (simp add: gravity_step_def m_def r_def slot_def Let_def)
  have upd: "map_of (AList.update (spanId s) r (fst st)) = row'" by (simp add: row'_def row_def update_conv')
  from inv have pk: "packed ov itv ss row n"
    and dm: "\<And>i. row i \<noteq> None \<Longrightarrow> i \<in> spanId ` set ss"
    and at: "\<And>k. row_at (snd st) k = map itv (filter (\<lambda>s. row (spanId s) = Some k) ss)"
    by (simp_all add: gravity_inv_def row_def n_def)
  have m: "m \<le> n"
  proof (cases "if truthy (parentSpanId s) then row (the (parentSpanId s)) else None")
    case None
    then show ?thesis by (simp only: m_def row_def option.case)
  next
    case (Some q)
    then have q: "row (the (parentSpanId s)) = Some q" by (simp split: if_splits)
    with dm [of "the (parentSpanId s)"] obtain p where "p \<in> set ss" "spanId p = the (parentSpanId s)" by auto
    with pk q have "q < n" by (auto simp: packed_def)
    with Some show ?thesis by (simp only: m_def row_def option.case)
  qed
  have slot: "m \<le> r" "r \<le> n" using slot_spec [of m "snd st" "itv s" 1] m by (auto simp: r_def n_def)
  have rows': "rows (put (itv s) r 1 (snd st)) = max n (r + 1)" by (simp add: rows_put n_def)
  have same: "row' (spanId t) = row (spanId t)" if "t \<in> set ss" for t
  proof -
    from that new have "spanId t \<noteq> spanId s" by (metis image_eqI)
    then show ?thesis by (simp add: row'_def)
  qed
  have at': "row_at (put (itv s) r 1 (snd st)) k = map itv (filter (\<lambda>s. row' (spanId s) = Some k) (ss @ [s]))" for k
  proof -
    have "filter (\<lambda>s. row' (spanId s) = Some k) ss = filter (\<lambda>s. row (spanId s) = Some k) ss"
      by (rule filter_cong) (simp_all add: same)
    then show ?thesis by (auto simp: row_at_put at row'_def)
  qed
  have clear: "\<not> ov (itv s) (itv t)" if "t \<in> set ss" "row (spanId t) = Some r" for t
  proof (rule slot_clear [of "snd st" "itv s" 1 m r])
    show "itv t \<in> set (row_at (snd st) r)" using that by (simp add: at)
  qed (simp_all add: r_def)
  have parent: "the (row (spanId t)) < r" if t: "t \<in> set ss" "parentSpanId s = Some (spanId t)" "spanId t \<noteq> []" for t
  proof -
    from t(1) pk obtain q where "row (spanId t) = Some q" by (auto simp: packed_def)
    with t slot(1) show ?thesis by (simp add: m_def row_def)
  qed
  have "packed ov itv (ss @ [s]) row' (max n (r + 1))"
    unfolding packed_def
  proof (intro conjI)
    show "\<forall>u\<in>set (ss @ [s]). \<exists>q<max n (r + 1). row' (spanId u) = Some q"
    proof
      fix u
      assume "u \<in> set (ss @ [s])"
      then show "\<exists>q<max n (r + 1). row' (spanId u) = Some q"
      proof (cases "u \<in> set ss")
        case True
        with pk obtain q where "q < n" "row (spanId u) = Some q" by (auto simp: packed_def)
        with same [OF True] show ?thesis by (auto simp: less_max_iff_disj)
      qed (auto simp: row'_def)
    qed
    show "\<forall>k<max n (r + 1). \<exists>u\<in>set (ss @ [s]). row' (spanId u) = Some k"
    proof (intro allI impI)
      fix k
      assume "k < max n (r + 1)"
      with slot(2) have "k < n \<or> k = r" by auto
      then show "\<exists>u\<in>set (ss @ [s]). row' (spanId u) = Some k"
      proof
        assume "k < n"
        with pk obtain u where "u \<in> set ss" "row (spanId u) = Some k" by (auto simp: packed_def)
        with same show ?thesis by auto
      qed (auto simp: row'_def)
    qed
    show "\<forall>j<length (ss @ [s]). \<forall>i<j. row' (spanId ((ss @ [s]) ! i)) = row' (spanId ((ss @ [s]) ! j)) \<longrightarrow>
        \<not> ov (itv ((ss @ [s]) ! j)) (itv ((ss @ [s]) ! i))"
    proof (intro allI impI)
      fix j i
      assume ji: "j < length (ss @ [s])" "i < j" "row' (spanId ((ss @ [s]) ! i)) = row' (spanId ((ss @ [s]) ! j))"
      show "\<not> ov (itv ((ss @ [s]) ! j)) (itv ((ss @ [s]) ! i))"
      proof (cases "j < length ss")
        case True
        with ji pk same show ?thesis by (auto simp: nth_append packed_def)
      next
        case False
        with ji have j: "j = length ss" by simp
        with ji same [of "ss ! i"] have "row (spanId (ss ! i)) = Some r" by (simp add: nth_append row'_def)
        with clear [of "ss ! i"] ji j show ?thesis by (simp add: nth_append)
      qed
    qed
    show "\<forall>j<length (ss @ [s]). \<forall>i<j. parentSpanId ((ss @ [s]) ! j) = Some (spanId ((ss @ [s]) ! i)) \<longrightarrow>
        spanId ((ss @ [s]) ! i) \<noteq> [] \<longrightarrow> the (row' (spanId ((ss @ [s]) ! i))) < the (row' (spanId ((ss @ [s]) ! j)))"
    proof (intro allI impI)
      fix j i
      assume ji: "j < length (ss @ [s])" "i < j" "parentSpanId ((ss @ [s]) ! j) = Some (spanId ((ss @ [s]) ! i))"
        "spanId ((ss @ [s]) ! i) \<noteq> []"
      show "the (row' (spanId ((ss @ [s]) ! i))) < the (row' (spanId ((ss @ [s]) ! j)))"
      proof (cases "j < length ss")
        case True
        with ji pk same show ?thesis by (auto simp: nth_append packed_def)
      next
        case False
        with ji have j: "j = length ss" by simp
        with ji parent [of "ss ! i"] same [of "ss ! i"] show ?thesis by (simp add: nth_append row'_def)
      qed
    qed
  qed
  moreover have "i \<in> spanId ` set (ss @ [s])" if "row' i \<noteq> None" for i
    using that dm [of i] by (cases "i = spanId s") (auto simp: row'_def)
  ultimately show ?thesis unfolding gravity_inv_def st' fst_conv snd_conv upd rows' using at' by blast
qed

lemma gravity_run:
  assumes "distinct (map spanId ss)"
  shows "gravity_inv itv ss (foldl (gravity_step busy put itv) ([], none) ss)"
  using assms
proof (induction ss rule: rev_induct)
  case Nil
  then show ?case by (simp add: gravity_inv_def packed_def rows_none row_beyond)
next
  case (snoc s ss)
  then show ?case by (auto intro!: gravity_inv_step)
qed

end

end
