(* ===== verification/CondensedTimeline.thy ===== *)
theory CondensedTimeline
  imports Traversal RowPacking
begin

text \<open>
  \<open>transformSpansToCondensedTimeline\<close> of \<open>components/traces/trace-view/store/utils.ts\<close>: spans placed
  on the time axis in percent and compacted upwards, a child at least one row below its parent.

  \<open>ms\<close> is \<open>new Date(s).getTime()\<close>. Percentages are extended numbers: when the whole trace falls on
  one instant the code divides by zero, and NaN intervals overlap everything.
\<close>

section \<open>The code\<close>

record timeline_span =
  tl_span :: span
  tl_left :: jsnum
  tl_width :: jsnum
  tl_row :: nat
  tl_originalDepth :: nat
  tl_parentSpanId :: "string option"

record timeline_data =
  td_spans :: "timeline_span list"
  td_startTime :: int
  td_endTime :: int
  td_totalRows :: nat
  td_widthMs :: int
  td_totalDurationMs :: int

record span_position =
  sp_span :: span
  sp_left :: jsnum
  sp_width :: jsnum
  sp_originalDepth :: nat
  sp_startMs :: int
  sp_endMs :: int

text \<open>An occupant of a row: left and right bound and the span it belongs to.\<close>

type_synonym occupant = "jsnum \<times> jsnum \<times> string"

definition occ_overlap :: "occupant \<Rightarrow> occupant \<Rightarrow> bool" where
  "occ_overlap x y = (case x of (left, right, _) \<Rightarrow> case y of (oleft, oright, _) \<Rightarrow>
     \<not> (js_le right oleft \<or> js_le oright left))"

definition lower_bound :: "(string \<Rightarrow> int) \<Rightarrow> span list \<Rightarrow> int" where
  "lower_bound ms spans = foldl (\<lambda>t s. min t (ms (startTime s))) (ms (startTime (hd spans))) (tl spans)"

definition upper_bound :: "(string \<Rightarrow> int) \<Rightarrow> span list \<Rightarrow> int" where
  "upper_bound ms spans = foldl (\<lambda>t s. max t (ms (endTime s))) (ms (endTime (hd spans))) (tl spans)"

text \<open>\<open>Math.ceil(totalDuration / 1000) * 1000\<close>; the quotient is negative zero for a small
  negative duration.\<close>

definition upper_interval :: "int \<Rightarrow> int" where
  "upper_interval totalDuration = \<lceil>of_int totalDuration / (1000 :: number)\<rceil> * 1000"

definition percent :: "int \<Rightarrow> int \<Rightarrow> jsnum" where
  "percent dur t = js_scale 100 (js_div (dur < 0) (of_int t) (of_int (upper_interval dur)))"

definition position_of :: "(string \<Rightarrow> int) \<Rightarrow> int \<Rightarrow> int \<Rightarrow> (string \<times> nat) list \<Rightarrow> span \<Rightarrow> span_position" where
  "position_of ms start dur depthMap s =
     (let spanStartMs = ms (startTime s); spanEndMs = ms (endTime s)
      in \<lparr>sp_span = s,
          sp_left = percent dur (spanStartMs - start),
          sp_width = percent dur (spanEndMs - spanStartMs),
          sp_originalDepth = (case map_of depthMap (spanId s) of None \<Rightarrow> 0 | Some d \<Rightarrow> d),
          sp_startMs = spanStartMs,
          sp_endMs = spanEndMs\<rparr>)"

text \<open>\<open>getParentRow\<close>: \<open>None\<close> for -1.\<close>

definition getParentRow :: "(string \<times> span) list \<Rightarrow> (string \<times> nat) list \<Rightarrow> string \<Rightarrow> nat option" where
  "getParentRow sm rowAssignments i =
     (case map_of sm i of
        None \<Rightarrow> None
      | Some s \<Rightarrow> if truthy (parentSpanId s) then map_of rowAssignments (the (parentSpanId s)) else None)"

definition place_step ::
  "(string \<times> span) list \<Rightarrow> (string \<times> nat) list \<times> occupant list list \<Rightarrow> span_position
     \<Rightarrow> (string \<times> nat) list \<times> occupant list list"
where
  "place_step sm st item =
     (let minRow = (case getParentRow sm (fst st) (spanId (sp_span item)) of None \<Rightarrow> 0 | Some r \<Rightarrow> r + 1);
          x = (sp_left item, js_plus (sp_left item) (sp_width item), spanId (sp_span item));
          targetRow = first_free (\<lambda>r. hasOverlap occ_overlap (snd st) x r 1) minRow
      in (AList.update (spanId (sp_span item)) targetRow (fst st), occupy x targetRow 1 (snd st)))"

definition transformSpansToCondensedTimeline :: "(string \<Rightarrow> int) \<Rightarrow> span list \<Rightarrow> timeline_data option" where
  "transformSpansToCondensedTimeline ms spans =
     (if spans = [] then Some \<lparr>td_spans = [], td_startTime = 0, td_endTime = 0, td_totalRows = 0,
        td_widthMs = 0, td_totalDurationMs = 0\<rparr>
      else
        let start = lower_bound ms spans;
            finish = upper_bound ms spans;
            dur = finish - start;
            sm = spanMap spans;
            cm = getChildSpansMap spans;
            roots = map spanId (topLevelSpans spans)
        in case computeDepths cm 0 roots [] of
             None \<Rightarrow> None
           | Some depthMap \<Rightarrow>
               (let positionById = js_map_of spanId (position_of ms start dur depthMap) spans
                in case dfsOrder cm roots [] of
                     None \<Rightarrow> None
                   | Some visited \<Rightarrow>
                       (let orderedSpans = List.map_filter (map_of positionById) visited;
                            placed = foldl (place_step sm) ([], []) orderedSpans
                        in Some \<lparr>
                             td_spans = map (\<lambda>item. \<lparr>
                               tl_span = sp_span item, tl_left = sp_left item, tl_width = sp_width item,
                               tl_row = (case map_of (fst placed) (spanId (sp_span item)) of None \<Rightarrow> 0 | Some r \<Rightarrow> r),
                               tl_originalDepth = sp_originalDepth item,
                               tl_parentSpanId = parentSpanId (sp_span item)\<rparr>) orderedSpans,
                             td_startTime = start, td_endTime = finish, td_totalRows = length (snd placed),
                             td_widthMs = upper_interval dur, td_totalDurationMs = dur\<rparr>)))"

interpretation condensed: row_store occ_overlap "hasOverlap occ_overlap" occupy row_get length "[]"
  by (rule row_array)

section \<open>The loop is the gravity loop\<close>

definition tl_occupant :: "timeline_span \<Rightarrow> occupant" where
  "tl_occupant t = (tl_left t, js_plus (tl_left t) (tl_width t), spanId (tl_span t))"

definition sp_occupant :: "span_position \<Rightarrow> occupant" where
  "sp_occupant p = (sp_left p, js_plus (sp_left p) (sp_width p), spanId (sp_span p))"

lemma position_of_span [simp]: "sp_span (position_of ms start dur dm s) = s"
  by (simp add: position_of_def Let_def)

lemma place_step_gravity:
  assumes "distinct (map spanId spans)" and "s \<in> set spans" and "sp_span (pos s) = s"
  shows "place_step (spanMap spans) st (pos s) =
    gravity_step (hasOverlap occ_overlap) occupy (\<lambda>s. sp_occupant (pos s)) st s"
  using assms
  by (simp add: place_step_def gravity_step_def getParentRow_def spanMap_distinct sp_occupant_def Let_def)

lemma condensed_steps:
  assumes "distinct (map spanId spans)" and "set ss \<subseteq> set spans" and "\<And>s. sp_span (pos s) = s"
  shows "foldl (place_step (spanMap spans)) st (map pos ss) =
    foldl (gravity_step (hasOverlap occ_overlap) occupy (\<lambda>s. sp_occupant (pos s))) st ss"
  using assms(2)
proof (induction ss arbitrary: st)
  case Nil
  then show ?case by simp
next
  case (Cons s ss)
  then show ?case by (simp add: place_step_gravity [where pos = pos, OF assms(1) _ assms(3)])
qed

text \<open>The result, for spans with distinct ids and the depths \<open>dm\<close>.\<close>

definition condensed_result :: "(string \<Rightarrow> int) \<Rightarrow> span list \<Rightarrow> (string \<times> nat) list \<Rightarrow> timeline_data" where
  "condensed_result ms spans dm =
     (let start = lower_bound ms spans; finish = upper_bound ms spans; dur = finish - start;
          pos = position_of ms start dur dm;
          placed = foldl (gravity_step (hasOverlap occ_overlap) occupy (\<lambda>s. sp_occupant (pos s))) ([], []) (dfs_spans spans)
      in \<lparr>td_spans = map (\<lambda>s. \<lparr>tl_span = s, tl_left = sp_left (pos s), tl_width = sp_width (pos s),
            tl_row = (case map_of (fst placed) (spanId s) of None \<Rightarrow> 0 | Some r \<Rightarrow> r),
            tl_originalDepth = sp_originalDepth (pos s), tl_parentSpanId = parentSpanId s\<rparr>) (dfs_spans spans),
          td_startTime = start, td_endTime = finish, td_totalRows = length (snd placed),
          td_widthMs = upper_interval dur, td_totalDurationMs = dur\<rparr>)"

lemma condensed_eq:
  assumes d: "distinct (map spanId spans)" and ne: "spans \<noteq> []"
  shows "\<exists>dm. (\<forall>anc s. descent spans anc s \<longrightarrow> map_of dm (spanId s) = Some (length anc)) \<and>
    transformSpansToCondensedTimeline ms spans = Some (condensed_result ms spans dm)"
proof -
  obtain dm where dm: "computeDepths (getChildSpansMap spans) 0 (map spanId (topLevelSpans spans)) [] = Some dm"
    "\<And>anc s. descent spans anc s \<Longrightarrow> map_of dm (spanId s) = Some (length anc)"
    using computeDepths_result [OF d] by blast
  define pos where "pos = position_of ms (lower_bound ms spans) (upper_bound ms spans - lower_bound ms spans) dm"
  have "map_of (js_map_of spanId pos spans) i = map_option pos (map_of (spanMap spans) i)" for i
    unfolding spanMap_def by (rule js_map_of_map)
  then have "List.map_filter (map_of (js_map_of spanId pos spans)) (dfs_ids spans) = map pos (dfs_spans spans)"
    by (auto simp: dfs_spans_def map_filter_def o_def filter_map)
  moreover have "sp_span (pos s) = s" for s by (simp add: pos_def)
  moreover have "set (dfs_spans spans) \<subseteq> set spans" using dfs_spans_subset [OF d] by blast
  ultimately have "transformSpansToCondensedTimeline ms spans = Some (condensed_result ms spans dm)"
    using ne by (simp add: transformSpansToCondensedTimeline_def condensed_result_def Let_def dm(1) dfsOrder_stack
        dfs_ids_def [symmetric] pos_def [symmetric] condensed_steps [OF d] o_def)
  with dm(2) show ?thesis by blast
qed

section \<open>Properties\<close>

lemma occ_overlap_sym: "occ_overlap x y = occ_overlap y x"
  by (auto simp: occ_overlap_def split: prod.splits)

text \<open>The row every span of the traversal gets.\<close>

lemma packed_rows_image:
  assumes "packed ov itv ss row n"
  shows "(\<lambda>s. case row (spanId s) of None \<Rightarrow> 0 | Some r \<Rightarrow> r) ` set ss = {0..<n}"
proof -
  have in_n: "\<exists>r<n. row (spanId s) = Some r" if "s \<in> set ss" for s using assms that by (simp add: packed_def)
  have hit: "\<exists>s\<in>set ss. row (spanId s) = Some k" if "k < n" for k using assms that by (simp add: packed_def)
  show ?thesis
  proof (intro set_eqI iffI)
    fix k
    assume "k \<in> (\<lambda>s. case row (spanId s) of None \<Rightarrow> 0 | Some r \<Rightarrow> r) ` set ss"
    with in_n show "k \<in> {0..<n}" by fastforce
  next
    fix k
    assume "k \<in> {0..<n}"
    with hit [of k] obtain s where "s \<in> set ss" "row (spanId s) = Some k" by auto
    then show "k \<in> (\<lambda>s. case row (spanId s) of None \<Rightarrow> 0 | Some r \<Rightarrow> r) ` set ss" by force
  qed
qed

lemma packed_pair:
  assumes "packed ov itv ss row n" and "i < length ss" "j < length ss" "i \<noteq> j" "row (spanId (ss ! i)) = row (spanId (ss ! j))"
    and "\<And>x y. ov x y = ov y x"
  shows "\<not> ov (itv (ss ! i)) (itv (ss ! j))"
proof (cases "i < j")
  case True
  with assms(1-5) have "\<not> ov (itv (ss ! j)) (itv (ss ! i))" by (simp add: packed_def)
  with assms(6) show ?thesis by simp
next
  case False
  with assms(1-5) show ?thesis by (simp add: packed_def)
qed

text \<open>What a packing of the spans in depth-first order means for the spans themselves.\<close>

lemma packed_layout:
  assumes d: "distinct (map spanId spans)" and pk: "packed ov itv (dfs_spans spans) row n"
    and sym: "\<And>x y. ov x y = ov y x" and r: "\<And>s. s \<in> set (dfs_spans spans) \<Longrightarrow> row (spanId s) = Some (r s)"
  shows "\<lbrakk>s \<in> set (dfs_spans spans); u \<in> set (dfs_spans spans); s \<noteq> u; r s = r u\<rbrakk> \<Longrightarrow> \<not> ov (itv s) (itv u)"
    and "\<lbrakk>s \<in> set (dfs_spans spans); u \<in> set (dfs_spans spans); parentSpanId u = Some (spanId s); spanId s \<noteq> []\<rbrakk> \<Longrightarrow> r s < r u"
    and "r ` set (dfs_spans spans) = {0..<n}"
proof -
  let ?ss = "dfs_spans spans"
  show "\<not> ov (itv s) (itv u)" if su: "s \<in> set ?ss" "u \<in> set ?ss" "s \<noteq> u" "r s = r u"
  proof -
    from su obtain i j where ij: "i < length ?ss" "j < length ?ss" "s = ?ss ! i" "u = ?ss ! j" by (auto simp: in_set_conv_nth)
    with su have "i \<noteq> j" by auto
    moreover have "row (spanId (?ss ! i)) = row (spanId (?ss ! j))" using r su ij by simp
    ultimately show ?thesis unfolding ij(3,4) by (rule packed_pair [OF pk ij(1,2) _ _ sym])
  qed
  show "r s < r u" if su: "s \<in> set ?ss" "u \<in> set ?ss" "parentSpanId u = Some (spanId s)" "spanId s \<noteq> []"
  proof -
    from su obtain i j where ij: "i < length ?ss" "j < length ?ss" "s = ?ss ! i" "u = ?ss ! j" by (auto simp: in_set_conv_nth)
    with dfs_spans_parent_first [OF d ij(1,2)] su(3,4) have "i < j" by blast
    with pk su(3,4) ij have "the (row (spanId s)) < the (row (spanId u))" by (auto simp: packed_def)
    then show ?thesis using r su(1,2) by simp
  qed
  have "r ` set ?ss = (\<lambda>s. case row (spanId s) of None \<Rightarrow> 0 | Some k \<Rightarrow> k) ` set ?ss" by (rule image_cong [OF refl]) (simp add: r)
  then show "r ` set ?ss = {0..<n}" using packed_rows_image [OF pk] by simp
qed

text \<open>
  Claim C25. On a non-empty list of spans with distinct ids the condensed timeline is computed (the
  traversals and the search for a row all end), and it holds exactly the spans that hang from a root,
  each once and with its depth in the tree. No two spans of a row overlap, a span is strictly below
  its parent, and the rows used are exactly the numbers below \<open>totalRows\<close>.
\<close>

theorem condensed_timeline_layout:
  assumes "distinct (map spanId spans)" and "spans \<noteq> []"
  shows "\<exists>d. transformSpansToCondensedTimeline ms spans = Some d \<and>
     distinct (map tl_span (td_spans d)) \<and>
     (\<forall>s. s \<in> set (map tl_span (td_spans d)) \<longleftrightarrow> (\<exists>anc. descent spans anc s)) \<and>
     (\<forall>t\<in>set (td_spans d). \<forall>anc. descent spans anc (tl_span t) \<longrightarrow> tl_originalDepth t = length anc) \<and>
     (\<forall>t\<in>set (td_spans d). \<forall>u\<in>set (td_spans d). t \<noteq> u \<longrightarrow> tl_row t = tl_row u \<longrightarrow>
        \<not> occ_overlap (tl_occupant t) (tl_occupant u)) \<and>
     (\<forall>t\<in>set (td_spans d). \<forall>u\<in>set (td_spans d). parentSpanId (tl_span u) = Some (spanId (tl_span t)) \<longrightarrow>
        spanId (tl_span t) \<noteq> [] \<longrightarrow> tl_row t < tl_row u) \<and>
     tl_row ` set (td_spans d) = {0..<td_totalRows d}"
proof -
  from condensed_eq [OF assms, of ms] obtain dm where
    dm: "\<And>anc s. descent spans anc s \<Longrightarrow> map_of dm (spanId s) = Some (length anc)"
    and eq: "transformSpansToCondensedTimeline ms spans = Some (condensed_result ms spans dm)" by blast
  let ?ss = "dfs_spans spans"
  define pos where "pos = position_of ms (lower_bound ms spans) (upper_bound ms spans - lower_bound ms spans) dm"
  define placed where "placed = foldl (gravity_step (hasOverlap occ_overlap) occupy (\<lambda>s. sp_occupant (pos s))) ([], []) ?ss"
  define item where "item s = \<lparr>tl_span = s, tl_left = sp_left (pos s), tl_width = sp_width (pos s),
      tl_row = (case map_of (fst placed) (spanId s) of None \<Rightarrow> 0 | Some r \<Rightarrow> r),
      tl_originalDepth = sp_originalDepth (pos s), tl_parentSpanId = parentSpanId s\<rparr>" for s
  define d where "d = \<lparr>td_spans = map item ?ss, td_startTime = lower_bound ms spans, td_endTime = upper_bound ms spans,
      td_totalRows = length (snd placed), td_widthMs = upper_interval (upper_bound ms spans - lower_bound ms spans),
      td_totalDurationMs = upper_bound ms spans - lower_bound ms spans\<rparr>"
  have res: "transformSpansToCondensedTimeline ms spans = Some d"
    unfolding eq condensed_result_def d_def item_def placed_def pos_def Let_def by simp
  have pk: "packed occ_overlap (\<lambda>s. sp_occupant (pos s)) ?ss (map_of (fst placed)) (length (snd placed))"
    using condensed.gravity_run [OF dfs_spans_distinct [OF assms(1)], of "\<lambda>s. sp_occupant (pos s)"]
    by (simp add: condensed.gravity_inv_def placed_def)
  have sp: "tl_span \<circ> item = id" by (simp add: item_def fun_eq_iff)
  have occ: "tl_occupant (item s) = sp_occupant (pos s)" for s
    by (simp add: tl_occupant_def sp_occupant_def item_def pos_def)
  have row: "map_of (fst placed) (spanId s) = Some (tl_row (item s))" if "s \<in> set ?ss" for s
    using pk that by (auto simp: packed_def item_def)
  have dist: "distinct ?ss" using dfs_spans_distinct [OF assms(1)] by (simp add: distinct_map)
  note layout = packed_layout [OF assms(1) pk occ_overlap_sym row]
  have clear: "\<not> occ_overlap (tl_occupant t) (tl_occupant u)"
    if tu: "t \<in> set (td_spans d)" "u \<in> set (td_spans d)" "t \<noteq> u" "tl_row t = tl_row u" for t u
  proof -
    from tu obtain s v where sv: "s \<in> set ?ss" "v \<in> set ?ss" "t = item s" "u = item v" by (auto simp: d_def)
    with tu(3,4) layout(1) have "\<not> occ_overlap (sp_occupant (pos s)) (sp_occupant (pos v))" by blast
    then show ?thesis by (simp add: sv(3,4) occ)
  qed
  have below: "tl_row t < tl_row u"
    if tu: "t \<in> set (td_spans d)" "u \<in> set (td_spans d)" "parentSpanId (tl_span u) = Some (spanId (tl_span t))"
      "spanId (tl_span t) \<noteq> []" for t u
  proof -
    from tu obtain s v where sv: "s \<in> set ?ss" "v \<in> set ?ss" "t = item s" "u = item v" by (auto simp: d_def)
    with tu(3,4) have "parentSpanId v = Some (spanId s)" "spanId s \<noteq> []" by (simp_all add: item_def)
    with layout(2) sv show ?thesis by blast
  qed
  have depth: "tl_originalDepth t = length anc" if "t \<in> set (td_spans d)" "descent spans anc (tl_span t)" for t anc
    using that dm by (auto simp: d_def item_def pos_def position_of_def Let_def)
  have "tl_row ` set (td_spans d) = {0..<td_totalRows d}" using layout(3) by (simp add: d_def image_image)
  moreover have "distinct (map tl_span (td_spans d))" using dist by (simp add: d_def sp)
  moreover have "s \<in> set (map tl_span (td_spans d)) \<longleftrightarrow> (\<exists>anc. descent spans anc s)" for s
    using dfs_spans_set [OF assms(1)] by (simp add: d_def sp image_comp)
  ultimately show ?thesis using res clear below depth by blast
qed

lemma foldl_min_le:
  fixes f :: "'a \<Rightarrow> int"
  shows "foldl (\<lambda>t s. min t (f s)) a xs \<le> a \<and> (\<forall>x\<in>set xs. foldl (\<lambda>t s. min t (f s)) a xs \<le> f x)"
  by (induction xs arbitrary: a) (auto, meson min.boundedE, meson min.boundedE)

lemma foldl_max_ge:
  fixes f :: "'a \<Rightarrow> int"
  shows "a \<le> foldl (\<lambda>t s. max t (f s)) a xs \<and> (\<forall>x\<in>set xs. f x \<le> foldl (\<lambda>t s. max t (f s)) a xs)"
  by (induction xs arbitrary: a) (auto, meson max.boundedE, meson max.boundedE)

lemma bounds_cover:
  assumes "s \<in> set spans"
  shows "lower_bound ms spans \<le> ms (startTime s) \<and> ms (endTime s) \<le> upper_bound ms spans"
  using assms foldl_min_le [of "\<lambda>s. ms (startTime s)" "ms (startTime (hd spans))" "tl spans"]
    foldl_max_ge [of "ms (endTime (hd spans))" "\<lambda>s. ms (endTime s)" "tl spans"]
  by (cases spans) (auto simp: lower_bound_def upper_bound_def)

lemma upper_interval_bounds: "d \<le> upper_interval d \<and> upper_interval d < d + 1000"
proof -
  define c where "c = \<lceil>of_int d / (1000 :: number)\<rceil>"
  have "of_int d / 1000 \<le> (of_int c :: number)" "of_int c < (of_int d / 1000 + 1 :: number)"
    unfolding c_def by (rule le_of_int_ceiling) linarith
  then have "(of_int d :: number) \<le> of_int c * 1000" "of_int c * 1000 < (of_int d + 1000 :: number)"
    by linarith+
  then have "(of_int d :: number) \<le> of_int (upper_interval d)" "(of_int (upper_interval d) :: number) < of_int (d + 1000)"
    by (simp_all add: upper_interval_def c_def)
  then show ?thesis by (simp only: of_int_le_iff of_int_less_iff)
qed

text \<open>
  When every span ends no earlier than it starts and the trace lasts, all positions are
  percentages inside the axis: left and width are finite, not negative, and left plus width is at
  most 100; the axis is the duration rounded up to whole seconds.
\<close>

lemma condensed_positions_in_axis:
  assumes "\<forall>s\<in>set spans. ms (startTime s) \<le> ms (endTime s)" and "spans \<noteq> []"
    and "lower_bound ms spans < upper_bound ms spans" and "s \<in> set spans"
    and "p = position_of ms (lower_bound ms spans) (upper_bound ms spans - lower_bound ms spans) dm s"
  shows "\<exists>l w. sp_left p = Fin l \<and> sp_width p = Fin w \<and> 0 \<le> l \<and> 0 \<le> w \<and> l + w \<le> 100 \<and>
     upper_bound ms spans - lower_bound ms spans \<le> upper_interval (upper_bound ms spans - lower_bound ms spans) \<and>
     upper_interval (upper_bound ms spans - lower_bound ms spans) < upper_bound ms spans - lower_bound ms spans + 1000"
proof -
  define d where "d = upper_bound ms spans - lower_bound ms spans"
  define u :: number where "u = of_int (upper_interval d)"
  have "0 < d" "d \<le> upper_interval d" using assms(3) upper_interval_bounds [of d] by (auto simp: d_def)
  then have u: "0 < u" "of_int d \<le> u" by (simp_all add: u_def)
  define a b where "a = ms (startTime s) - lower_bound ms spans" and "b = ms (endTime s) - ms (startTime s)"
  have ab: "0 \<le> a" "0 \<le> b" "a + b \<le> d"
    using bounds_cover [OF assms(4), of ms] assms(1,4) by (auto simp: a_def b_def d_def)
  have "percent d t = Fin (100 * (of_int t / u))" for t
    using u(1) \<open>0 < d\<close> by (simp add: percent_def u_def)
  then have "sp_left p = Fin (100 * (of_int a / u))" "sp_width p = Fin (100 * (of_int b / u))"
    by (simp_all add: assms(5) position_of_def Let_def a_def b_def d_def)
  moreover have "0 \<le> 100 * (of_int a / u)" "0 \<le> 100 * (of_int b / u)" using ab u by simp_all
  moreover have "100 * (of_int a / u) + 100 * (of_int b / u) \<le> 100"
  proof -
    have "of_int a + of_int b \<le> u" using ab(3) u(2) by (metis of_int_add of_int_le_iff order_trans)
    then have "(of_int a + of_int b) / u \<le> 1" using u(1) by simp
    then show ?thesis by (simp add: add_divide_distrib)
  qed
  ultimately show ?thesis using upper_interval_bounds [of d] by (auto simp: d_def)
qed

section \<open>Concrete runs\<close>

definition demo_ms :: "string \<Rightarrow> int" where
  "demo_ms s = 1000 * int (length s)"

definition demo_tree :: "span list" where
  "demo_tree = [(mk_span ''a'' None LLM)\<lparr>startTime := ''x'', endTime := ''xxxxx''\<rparr>,
     (mk_span ''b'' (Some ''a'') TOOL)\<lparr>startTime := ''x'', endTime := ''xx''\<rparr>,
     (mk_span ''c'' (Some ''a'') TOOL)\<lparr>startTime := ''xxx'', endTime := ''xxxx''\<rparr>]"

lemma condensed_timeline_layout_witness:
  "\<exists>d. transformSpansToCondensedTimeline demo_ms demo_tree = Some d \<and> distinct (map tl_span (td_spans d)) \<and>
     tl_row ` set (td_spans d) = {0..<td_totalRows d}"
proof -
  have "distinct (map spanId demo_tree)" "demo_tree \<noteq> []" by code_simp+
  from condensed_timeline_layout [OF this, of demo_ms] show ?thesis
    by (elim exE conjE) (intro exI conjI, assumption+)
qed

lemma condensed_positions_in_axis_witness:
  "\<exists>l w. sp_left (position_of demo_ms 1000 4000 [] (demo_tree ! 2)) = Fin l \<and>
     sp_width (position_of demo_ms 1000 4000 [] (demo_tree ! 2)) = Fin w \<and> l + w \<le> 100"
proof -
  have b: "lower_bound demo_ms demo_tree = 1000" "upper_bound demo_ms demo_tree = 5000" by code_simp+
  have h: "\<forall>s\<in>set demo_tree. demo_ms (startTime s) \<le> demo_ms (endTime s)" "demo_tree \<noteq> []"
    "lower_bound demo_ms demo_tree < upper_bound demo_ms demo_tree" by code_simp+
  have "demo_tree ! 2 \<in> set demo_tree" by (simp add: demo_tree_def)
  note res = condensed_positions_in_axis [OF h this refl, of "[]"]
  have "(5000 :: int) - 1000 = 4000" by simp
  with res show ?thesis unfolding b by (elim exE conjE) (intro exI conjI; simp)
qed

end
