(* ===== verification/SessionTimeline.thy ===== *)
theory SessionTimeline
  imports CondensedTimeline Subagents
begin

text \<open>
  The session timeline, \<open>components/traces/session-view/session-timeline/utils.ts\<close>: traces are
  clustered into segments separated by long gaps, every expanded trace becomes a container in which
  its spans are packed, and the blocks of a segment are packed by gravity.

  Positions are exact rationals (every divisor of this file is at least 1). \<open>ms\<close> parses a
  timestamp, \<open>ck\<close> is the collation key of \<open>localeCompare\<close>.
\<close>

section \<open>The code\<close>

record container_span =
  cs_span :: span
  cs_left :: number
  cs_width :: number
  cs_row :: nat
  cs_color :: string

record group_box =
  gb_groupId :: string
  gb_left :: number
  gb_width :: number
  gb_topRow :: nat
  gb_rowSpan :: nat

record trace_bar =
  tb_traceId :: string
  tb_left :: number
  tb_width :: number
  tb_row :: nat
  tb_shimmer :: bool

record span_container =
  sc_traceId :: string
  sc_left :: number
  sc_width :: number
  sc_row :: nat
  sc_rowHeight :: nat
  sc_spans :: "container_span list"
  sc_groupBoxes :: "group_box list"

datatype element = TraceBar trace_bar | SpanContainer span_container

record segment_data =
  sd_elements :: "element list"
  sd_startTimeMs :: int
  sd_endTimeMs :: int
  sd_durationMs :: int
  sd_widthMs :: int
  sd_totalRows :: nat

record gap_data =
  gd_durationMs :: int
  gd_startMs :: int
  gd_endMs :: int

datatype timeline_section = Segment segment_data | Gap gap_data

record timeline_sections =
  ts_sections :: "timeline_section list"
  ts_totalActiveDurationMs :: int
  ts_sessionStartMs :: int

definition GAP_THRESHOLD_MS :: int where "GAP_THRESHOLD_MS = 30 * 60 * 1000"

definition MIN_BLOCK_ROWS :: nat where "MIN_BLOCK_ROWS = 2"

definition formatGapDuration :: "int \<Rightarrow> string" where
  "formatGapDuration t =
     (let totalMinutes = \<lfloor>of_int t / 60000 + 1 / (2 :: number)\<rfloor>
      in if totalMinutes < 60 then show_int totalMinutes @ ''m''
         else let hours = totalMinutes div 60; minutes = totalMinutes mod 60
              in if minutes = 0 then show_int hours @ ''h''
                 else show_int hours @ ''h '' @ show_int minutes @ ''m'')"

text \<open>\<open>clusterTraces\<close>\<close>

record cluster =
  cl_traces :: "trace_row list"
  cl_startMs :: int
  cl_endMs :: int

definition new_cluster :: "(string \<Rightarrow> int) \<Rightarrow> trace_row \<Rightarrow> cluster" where
  "new_cluster ms t = \<lparr>cl_traces = [t], cl_startMs = ms (tr_startTime t), cl_endMs = ms (tr_endTime t)\<rparr>"

fun cluster_loop :: "(string \<Rightarrow> int) \<Rightarrow> cluster \<Rightarrow> trace_row list \<Rightarrow> cluster list" where
  "cluster_loop ms current [] = [current]"
| "cluster_loop ms current (t # ts) =
     (if ms (tr_startTime t) - cl_endMs current > GAP_THRESHOLD_MS
      then current # cluster_loop ms (new_cluster ms t) ts
      else cluster_loop ms (current\<lparr>cl_traces := cl_traces current @ [t],
                                  cl_endMs := max (cl_endMs current) (ms (tr_endTime t))\<rparr>) ts)"

definition clusterTraces :: "(string \<Rightarrow> int) \<Rightarrow> trace_row list \<Rightarrow> cluster list" where
  "clusterTraces ms traces =
     (case sort_key (\<lambda>t. ms (tr_startTime t)) traces of
        [] \<Rightarrow> []
      | t # ts \<Rightarrow> cluster_loop ms (new_cluster ms t) ts)"

text \<open>\<open>packSpansInContainer\<close>\<close>

type_synonym interval = "number \<times> number"

definition itv_overlap :: "interval \<Rightarrow> interval \<Rightarrow> bool" where
  "itv_overlap x y = (\<not> (snd x \<le> fst y \<or> fst x \<ge> snd y))"

fun span_type_color :: "span_type \<Rightarrow> string" where
  "span_type_color DEFAULT = ''rgba(96, 165, 250, 0.7)''"
| "span_type_color LLM = ''hsl(var(--llm))''"
| "span_type_color EXECUTOR = ''rgba(245, 158, 11, 0.7)''"
| "span_type_color EVALUATOR = ''hsl(var(--subagent) / 0.7)''"
| "span_type_color EVALUATION = ''rgba(16, 185, 129, 0.7)''"
| "span_type_color HUMAN_EVALUATOR = ''rgba(244, 114, 182, 0.7)''"
| "span_type_color TOOL = ''rgba(227, 160, 8, 0.9)''"
| "span_type_color EVENT = ''rgba(204, 51, 51, 0.7)''"
| "span_type_color CACHED = ''hsl(var(--llm))''"

definition container_left :: "(string \<Rightarrow> int) \<Rightarrow> trace_row \<Rightarrow> span \<Rightarrow> number" where
  "container_left ms t s =
     of_int (ms (startTime s) - ms (tr_startTime t)) / of_int (max (ms (tr_endTime t) - ms (tr_startTime t)) 1) * 100"

definition container_width :: "(string \<Rightarrow> int) \<Rightarrow> trace_row \<Rightarrow> span \<Rightarrow> number" where
  "container_width ms t s =
     of_int (ms (endTime s) - ms (startTime s)) / of_int (max (ms (tr_endTime t) - ms (tr_startTime t)) 1) * 100"

definition pack_step ::
  "(string \<Rightarrow> int) \<Rightarrow> trace_row \<Rightarrow> ((string \<times> nat) list \<times> interval list list) \<times> container_span list \<Rightarrow> span
     \<Rightarrow> ((string \<times> nat) list \<times> interval list list) \<times> container_span list"
where
  "pack_step ms t st s =
     (let spanRowMap = fst (fst st); rowOccupancy = snd (fst st);
          left = container_left ms t s;
          width = container_width ms t s;
          right = left + width;
          parentRow = (if truthy (parentSpanId s)
            then (case map_of spanRowMap (the (parentSpanId s)) of None \<Rightarrow> -1 | Some r \<Rightarrow> int r) else -1);
          minRow = nat (max 0 (parentRow + 1));
          targetRow = first_free (\<lambda>r. hasOverlap itv_overlap rowOccupancy (left, right) r 1) minRow;
          color = (if status s = Some ''error'' then ''rgba(204, 51, 51, 1)'' else span_type_color (spanType s))
      in ((AList.update (spanId s) targetRow spanRowMap, occupy (left, right) targetRow 1 rowOccupancy),
          snd st @ [\<lparr>cs_span = s, cs_left = left, cs_width = width, cs_row = targetRow, cs_color = color\<rparr>]))"

text \<open>The bounding box loop: \<open>None\<close> while the bounds are still infinite, then
  \<open>(minLeft, maxRight, minRow, maxRow)\<close>.\<close>

definition box_step ::
  "(string \<times> container_span) list \<Rightarrow> (number \<times> number \<times> nat \<times> nat) option \<Rightarrow> string
     \<Rightarrow> (number \<times> number \<times> nat \<times> nat) option"
where
  "box_step posById b i =
     (case map_of posById i of
        None \<Rightarrow> b
      | Some p \<Rightarrow>
          (case b of
             None \<Rightarrow> Some (cs_left p, cs_left p + cs_width p, cs_row p, cs_row p)
           | Some (l, r, lo, hi) \<Rightarrow>
               Some (if cs_left p < l then cs_left p else l,
                     if cs_left p + cs_width p > r then cs_left p + cs_width p else r,
                     if cs_row p < lo then cs_row p else lo,
                     if cs_row p > hi then cs_row p else hi)))"

definition group_box_of :: "(string \<times> container_span) list \<Rightarrow> string \<times> string list \<Rightarrow> group_box option" where
  "group_box_of posById g =
     (case foldl (box_step posById) None (snd g) of
        None \<Rightarrow> None
      | Some (l, r, lo, hi) \<Rightarrow> Some \<lparr>gb_groupId = fst g, gb_left = l, gb_width = r - l, gb_topRow = lo, gb_rowSpan = hi - lo + 1\<rparr>)"

record packed_container =
  pc_spans :: "container_span list"
  pc_rowCount :: nat
  pc_groupBoxes :: "group_box list"

definition packSpansInContainer ::
  "(string \<Rightarrow> int) \<Rightarrow> (string \<Rightarrow> 'c::linorder) \<Rightarrow> span list \<Rightarrow> trace_row \<Rightarrow> packed_container option"
where
  "packSpansInContainer ms ck spans t =
     (if spans = [] then Some \<lparr>pc_spans = [], pc_rowCount = 0, pc_groupBoxes = []\<rparr>
      else case dfsOrder (getChildSpansMap spans) (map spanId (topLevelSpans spans)) [] of
             None \<Rightarrow> None
           | Some visited \<Rightarrow>
               (let orderedSpans = List.map_filter (map_of (spanMap spans)) visited;
                    st = foldl (pack_step ms t) (([], []), []) orderedSpans;
                    result = snd st;
                    posById = js_map_of (\<lambda>r. spanId (cs_span r)) (\<lambda>r. r) result
                in Some \<lparr>pc_spans = result, pc_rowCount = length (snd (fst st)),
                     pc_groupBoxes = List.map_filter (group_box_of posById) (computeSubagentGroups ck spans)\<rparr>))"

text \<open>\<open>computeSegmentLayout\<close>: the block of a trace\<close>

datatype block_render = RTrace bool | RContainer nat "container_span list" "group_box list"

record block =
  bk_trace :: trace_row
  bk_left :: number
  bk_width :: number
  bk_height :: nat
  bk_render :: block_render

definition upper_interval_ms :: "int \<Rightarrow> int" where
  "upper_interval_ms d = max (\<lceil>of_int d / (1000 :: number)\<rceil> * 1000) 1"

definition block_of ::
  "(string \<Rightarrow> int) \<Rightarrow> (string \<Rightarrow> 'c::linorder) \<Rightarrow> (string \<Rightarrow> span list option) \<Rightarrow> (string \<Rightarrow> bool) \<Rightarrow> string set
     \<Rightarrow> int \<Rightarrow> int \<Rightarrow> trace_row \<Rightarrow> block option"
where
  "block_of ms ck traceSpans loading expandedIds segStart segDuration t =
     (let upper = of_int (upper_interval_ms segDuration) :: number;
          left = of_int (ms (tr_startTime t) - segStart) / upper * 100;
          width = of_int (ms (tr_endTime t) - ms (tr_startTime t)) / upper * 100;
          isExpanded = tr_id t \<in> expandedIds;
          spans = traceSpans (tr_id t);
          isLoading = loading (tr_id t)
      in case (if isExpanded then spans else None) of
           Some ss \<Rightarrow>
             map_option (\<lambda>packed.
               let rowHeight = max (pc_rowCount packed) MIN_BLOCK_ROWS
               in \<lparr>bk_trace = t, bk_left = left, bk_width = width, bk_height = rowHeight,
                   bk_render = RContainer rowHeight (pc_spans packed) (pc_groupBoxes packed)\<rparr>)
               (packSpansInContainer ms ck ss t)
         | None \<Rightarrow>
             Some \<lparr>bk_trace = t, bk_left = left, bk_width = width, bk_height = MIN_BLOCK_ROWS,
               bk_render = RTrace (isLoading \<and> spans = None)\<rparr>)"

definition element_of :: "block \<Rightarrow> nat \<Rightarrow> element" where
  "element_of b row =
     (case bk_render b of
        RTrace shimmer \<Rightarrow> TraceBar \<lparr>tb_traceId = tr_id (bk_trace b), tb_left = bk_left b, tb_width = bk_width b,
            tb_row = row, tb_shimmer = shimmer\<rparr>
      | RContainer rowHeight spans boxes \<Rightarrow> SpanContainer \<lparr>sc_traceId = tr_id (bk_trace b), sc_left = bk_left b,
            sc_width = bk_width b, sc_row = row, sc_rowHeight = rowHeight, sc_spans = spans, sc_groupBoxes = boxes\<rparr>)"

definition segment_step :: "interval list list \<times> element list \<Rightarrow> block \<Rightarrow> interval list list \<times> element list" where
  "segment_step st b =
     (let right = bk_left b + bk_width b;
          row = first_free (\<lambda>r. hasOverlap itv_overlap (fst st) (bk_left b, right) r (bk_height b)) 0
      in (occupy (bk_left b, right) row (bk_height b) (fst st), snd st @ [element_of b row]))"

definition computeSegmentLayout ::
  "(string \<Rightarrow> int) \<Rightarrow> (string \<Rightarrow> 'c::linorder) \<Rightarrow> trace_row list \<Rightarrow> (string \<Rightarrow> span list option) \<Rightarrow> (string \<Rightarrow> bool)
     \<Rightarrow> string set \<Rightarrow> int \<Rightarrow> int \<Rightarrow> (element list \<times> nat) option"
where
  "computeSegmentLayout ms ck traces traceSpans loading expandedIds segStart segDuration =
     (case those (map (block_of ms ck traceSpans loading expandedIds segStart segDuration) traces) of
        None \<Rightarrow> None
      | Some bs \<Rightarrow>
          (let st = foldl segment_step ([], []) (sort_key bk_left bs)
           in Some (snd st, length (fst st))))"

text \<open>\<open>computeSessionTimelineSegments\<close>\<close>

fun section_loop ::
  "(cluster \<Rightarrow> (element list \<times> nat) option) \<Rightarrow> cluster list \<Rightarrow> (timeline_section list \<times> int) option"
where
  "section_loop layout [] = Some ([], 0)"
| "section_loop layout (c # cs) =
     (let durationMs = max (cl_endMs c - cl_startMs c) 1 in
      case layout c of
        None \<Rightarrow> None
      | Some (elements, totalRows) \<Rightarrow>
          map_option (\<lambda>(rest, active).
            (Segment \<lparr>sd_elements = elements, sd_startTimeMs = cl_startMs c, sd_endTimeMs = cl_endMs c,
               sd_durationMs = durationMs, sd_widthMs = upper_interval_ms durationMs, sd_totalRows = totalRows\<rparr> #
             (case cs of
                [] \<Rightarrow> rest
              | next # _ \<Rightarrow> Gap \<lparr>gd_durationMs = cl_startMs next - cl_endMs c, gd_startMs = cl_endMs c,
                  gd_endMs = cl_startMs next\<rparr> # rest),
             durationMs + active)) (section_loop layout cs))"

definition computeSessionTimelineSegments ::
  "(string \<Rightarrow> int) \<Rightarrow> (string \<Rightarrow> 'c::linorder) \<Rightarrow> trace_row list \<Rightarrow> (string \<Rightarrow> span list option) \<Rightarrow> (string \<Rightarrow> bool)
     \<Rightarrow> string set \<Rightarrow> timeline_sections option"
where
  "computeSessionTimelineSegments ms ck traces traceSpans loading expandedIds =
     (if traces = [] then Some \<lparr>ts_sections = [], ts_totalActiveDurationMs = 0, ts_sessionStartMs = 0\<rparr>
      else let clusters = clusterTraces ms traces
           in map_option (\<lambda>(sections, active). \<lparr>ts_sections = sections, ts_totalActiveDurationMs = active,
                  ts_sessionStartMs = (case clusters of [] \<Rightarrow> 0 | c # _ \<Rightarrow> cl_startMs c)\<rparr>)
                (section_loop (\<lambda>c. computeSegmentLayout ms ck (cl_traces c) traceSpans loading expandedIds
                   (cl_startMs c) (max (cl_endMs c - cl_startMs c) 1)) clusters))"

interpretation session: row_store itv_overlap "hasOverlap itv_overlap" occupy row_get length "[]"
  by (rule row_array)

lemma itv_overlap_sym: "itv_overlap x y = itv_overlap y x"
  by (auto simp: itv_overlap_def)

section \<open>Clusters\<close>

text \<open>A run of clusters: start and end times are those of the members, within a cluster every
  trace starts at most a threshold after the latest end before it, and clusters are more than a
  threshold apart.\<close>

fun cluster_run :: "(string \<Rightarrow> int) \<Rightarrow> int \<Rightarrow> trace_row list \<Rightarrow> int \<Rightarrow> bool" where
  "cluster_run ms e [] e' \<longleftrightarrow> e' = e"
| "cluster_run ms e (t # ts) e' \<longleftrightarrow> ms (tr_startTime t) - e \<le> GAP_THRESHOLD_MS \<and>
     cluster_run ms (max e (ms (tr_endTime t))) ts e'"

definition cluster_ok :: "(string \<Rightarrow> int) \<Rightarrow> cluster \<Rightarrow> bool" where
  "cluster_ok ms c \<longleftrightarrow> (case cl_traces c of [] \<Rightarrow> False
     | t # ts \<Rightarrow> cl_startMs c = ms (tr_startTime t) \<and> cluster_run ms (ms (tr_endTime t)) ts (cl_endMs c))"

fun gaps_ok :: "cluster list \<Rightarrow> bool" where
  "gaps_ok (c # d # cs) \<longleftrightarrow> cl_startMs d - cl_endMs c > GAP_THRESHOLD_MS \<and> gaps_ok (d # cs)"
| "gaps_ok _ = True"

lemma cluster_run_snoc:
  "cluster_run ms e ts e' \<Longrightarrow> ms (tr_startTime t) - e' \<le> GAP_THRESHOLD_MS \<Longrightarrow>
     cluster_run ms e (ts @ [t]) (max e' (ms (tr_endTime t)))"
  by (induction ts arbitrary: e) auto

lemma cluster_ok_extend:
  "cluster_ok ms c \<Longrightarrow> ms (tr_startTime t) - cl_endMs c \<le> GAP_THRESHOLD_MS \<Longrightarrow>
     cluster_ok ms (c\<lparr>cl_traces := cl_traces c @ [t], cl_endMs := max (cl_endMs c) (ms (tr_endTime t))\<rparr>)"
  by (auto simp: cluster_ok_def cluster_run_snoc split: list.splits)

lemma cluster_ok_new: "cluster_ok ms (new_cluster ms t)"
  by (simp add: cluster_ok_def new_cluster_def)

lemma cluster_loop_start: "\<exists>d ds. cluster_loop ms c ts = d # ds \<and> cl_startMs d = cl_startMs c"
  by (induction ms c ts rule: cluster_loop.induct) auto

lemma cluster_loop_ok:
  "cluster_ok ms c \<Longrightarrow> concat (map cl_traces (cluster_loop ms c ts)) = cl_traces c @ ts \<and>
     (\<forall>d\<in>set (cluster_loop ms c ts). cluster_ok ms d) \<and> gaps_ok (cluster_loop ms c ts)"
proof (induction ms c ts rule: cluster_loop.induct)
  case (1 ms c)
  then show ?case by simp
next
  case (2 ms c t ts)
  show ?case
  proof (cases "ms (tr_startTime t) - cl_endMs c > GAP_THRESHOLD_MS")
    case True
    obtain d ds where d: "cluster_loop ms (new_cluster ms t) ts = d # ds" "cl_startMs d = ms (tr_startTime t)"
      using cluster_loop_start [of ms "new_cluster ms t" ts] by (auto simp: new_cluster_def)
    from 2 True cluster_ok_new [of ms t] d show ?thesis by (simp add: new_cluster_def)
  next
    case False
    with 2 cluster_ok_extend [of ms c t] show ?thesis by simp
  qed
qed

lemma clusters_gaps:
  "concat (map cl_traces (clusterTraces ms traces)) = sort_key (\<lambda>t. ms (tr_startTime t)) traces \<and>
   mset (concat (map cl_traces (clusterTraces ms traces))) = mset traces \<and>
   (\<forall>c\<in>set (clusterTraces ms traces). cluster_ok ms c) \<and> gaps_ok (clusterTraces ms traces)"
proof (cases "sort_key (\<lambda>t. ms (tr_startTime t)) traces")
  case Nil
  then have "traces = []" by (metis length_0_conv length_sort)
  then show ?thesis by (simp add: clusterTraces_def)
next
  case (Cons t ts)
  from cluster_loop_ok [OF cluster_ok_new, of ms t ts]
  have "concat (map cl_traces (clusterTraces ms traces)) = sort_key (\<lambda>t. ms (tr_startTime t)) traces"
    by (simp add: clusterTraces_def Cons) (simp add: new_cluster_def)
  moreover have "(\<forall>c\<in>set (clusterTraces ms traces). cluster_ok ms c) \<and> gaps_ok (clusterTraces ms traces)"
    using cluster_loop_ok [OF cluster_ok_new, of ms t ts] by (simp add: clusterTraces_def Cons)
  ultimately show ?thesis by (metis mset_sort)
qed

text \<open>
  \<open>clusterTraces\<close> splits the traces, ordered by start time, without losing or repeating
  any: the clusters concatenate to the sorted list, none is empty, every member after the first
  starts at most half an hour after the latest end before it in its cluster, and two consecutive
  clusters are more than half an hour apart.
\<close>

lemma clusters_split_at_gaps:
  "concat (map cl_traces (clusterTraces ms traces)) = sort_key (\<lambda>t. ms (tr_startTime t)) traces \<and>
   mset (concat (map cl_traces (clusterTraces ms traces))) = mset traces \<and>
   (\<forall>c\<in>set (clusterTraces ms traces). cluster_ok ms c) \<and> gaps_ok (clusterTraces ms traces)"
  by (rule clusters_gaps)

lemma clusters_split_at_gaps_witness:
  "gaps_ok (clusterTraces demo_ms [mk_trace ''b'' ''xxx'' ''xxx'',
     mk_trace ''a'' ''x'' ''xx''])"
  using clusters_split_at_gaps [of demo_ms "[mk_trace ''b'' ''xxx'' ''xxx'',
     mk_trace ''a'' ''x'' ''xx'']"] by blast

section \<open>Segment blocks\<close>

definition block_itv :: "block \<Rightarrow> interval" where
  "block_itv b = (bk_left b, bk_left b + bk_width b)"

lemma segment_steps_pack:
  "foldl segment_step (st, es) bs =
     (snd (session.pack (map (\<lambda>b. (block_itv b, bk_height b)) bs) st),
      es @ map2 element_of bs (fst (session.pack (map (\<lambda>b. (block_itv b, bk_height b)) bs) st)))"
proof (induction bs arbitrary: st es)
  case Nil
  then show ?case by simp
next
  case (Cons b bs)
  then show ?case by (simp add: segment_step_def session.slot_def block_itv_def Let_def)
qed

fun el_row :: "element \<Rightarrow> nat" where
  "el_row (TraceBar b) = tb_row b" | "el_row (SpanContainer c) = sc_row c"

fun el_height :: "element \<Rightarrow> nat" where
  "el_height (TraceBar b) = MIN_BLOCK_ROWS" | "el_height (SpanContainer c) = sc_rowHeight c"

fun el_itv :: "element \<Rightarrow> interval" where
  "el_itv (TraceBar b) = (tb_left b, tb_left b + tb_width b)"
| "el_itv (SpanContainer c) = (sc_left c, sc_left c + sc_width c)"

fun el_id :: "element \<Rightarrow> string" where
  "el_id (TraceBar b) = tb_traceId b" | "el_id (SpanContainer c) = sc_traceId c"

definition block_wf :: "block \<Rightarrow> bool" where
  "block_wf b \<longleftrightarrow> MIN_BLOCK_ROWS \<le> bk_height b \<and> (case bk_render b of RTrace _ \<Rightarrow> bk_height b = MIN_BLOCK_ROWS | RContainer h _ _ \<Rightarrow> h = bk_height b)"

lemma block_of_wf: "block_of ms ck traceSpans loading ex s d t = Some b \<Longrightarrow> block_wf b \<and> bk_trace b = t"
  by (auto simp: block_of_def Let_def block_wf_def split: option.splits if_splits)

lemma element_of_sel:
  "block_wf b \<Longrightarrow> el_row (element_of b r) = r \<and> el_height (element_of b r) = bk_height b \<and>
     el_itv (element_of b r) = block_itv b \<and> el_id (element_of b r) = tr_id (bk_trace b)"
  by (auto simp: element_of_def block_wf_def block_itv_def split: block_render.splits)

text \<open>
  Claim C28. In a segment every trace gets one block of at least two rows, and two blocks that have
  a row in common do not overlap in time; every block lies within \<open>totalRows\<close>.
\<close>

theorem segment_blocks_disjoint:
  assumes "computeSegmentLayout ms ck traces traceSpans loading ex segStart segDuration = Some (es, n)"
  shows "mset (map el_id es) = mset (map tr_id traces) \<and>
     (\<forall>e\<in>set es. 2 \<le> el_height e \<and> el_row e + el_height e \<le> n) \<and>
     (\<forall>j<length es. \<forall>i<j. \<forall>k. k \<in> {el_row (es ! i)..<el_row (es ! i) + el_height (es ! i)} \<longrightarrow>
        k \<in> {el_row (es ! j)..<el_row (es ! j) + el_height (es ! j)} \<longrightarrow> \<not> itv_overlap (el_itv (es ! j)) (el_itv (es ! i)))"
proof -
  from assms obtain bs where bs: "those (map (block_of ms ck traceSpans loading ex segStart segDuration) traces) = Some bs"
    by (auto simp: computeSegmentLayout_def split: option.splits)
  then have mo: "map (block_of ms ck traceSpans loading ex segStart segDuration) traces = map Some bs"
    by (simp only: those_Some_iff)
  then have len: "length traces = length bs" by (metis length_map)
  have wf: "block_wf (bs ! i) \<and> bk_trace (bs ! i) = traces ! i" if "i < length bs" for i
    using block_of_wf arg_cong [OF mo, of "\<lambda>xs. xs ! i"] that len by (metis nth_map)
  then have wfs: "\<forall>b\<in>set bs. block_wf b" by (metis in_set_conv_nth)
  have tr: "map bk_trace bs = traces" by (rule nth_equalityI) (simp_all add: len wf)
  define sb where "sb = sort_key bk_left bs"
  define xs where "xs = map (\<lambda>b. (block_itv b, bk_height b)) sb"
  define rs where "rs = fst (session.pack xs [])"
  have wsb: "block_wf (sb ! i)" if "i < length sb" for i
    using wfs that by (metis nth_mem sb_def set_sort)
  have lrs: "length rs = length sb" by (simp add: rs_def xs_def)
  have es: "es = map2 element_of sb rs" and n: "n = length (snd (session.pack xs []))"
    using assms segment_steps_pack [of "[]" "[]" sb]
    by (simp_all add: computeSegmentLayout_def bs sb_def [symmetric] xs_def [symmetric] rs_def [symmetric] Let_def)
  have nth: "es ! i = element_of (sb ! i) (rs ! i)" if "i < length sb" for i using that lrs by (simp add: es)
  have "map el_id es = map (\<lambda>b. tr_id (bk_trace b)) sb"
    by (rule nth_equalityI) (use lrs nth wsb element_of_sel in \<open>simp_all add: es\<close>)
  then have 1: "mset (map el_id es) = mset (map tr_id traces)"
    by (simp add: sb_def tr [symmetric] image_mset.compositionality o_def)
  have "snd x > 0" if "x \<in> set xs" for x
    using that wfs by (auto simp: xs_def sb_def block_wf_def MIN_BLOCK_ROWS_def)
  then have n': "n = foldr max (map2 (\<lambda>r b. r + snd b) rs xs) 0"
    using session.rows_pack [of xs "[]"] by (simp add: n rs_def)
  have fm: "x \<le> foldr max ys (0::nat)" if "x \<in> set ys" for x ys using that by (induction ys) auto
  have 2: "2 \<le> el_height e \<and> el_row e + el_height e \<le> n" if e: "e \<in> set es" for e
  proof -
    from e obtain i where i: "i < length sb" "e = es ! i" by (metis es in_set_conv_nth length_map length_zip lrs min.idem)
    have "map2 (\<lambda>r b. r + snd b) rs xs ! i \<in> set (map2 (\<lambda>r b. r + snd b) rs xs)"
      by (rule nth_mem) (use i lrs in \<open>simp add: xs_def\<close>)
    then have "rs ! i + bk_height (sb ! i) \<in> set (map2 (\<lambda>r b. r + snd b) rs xs)"
      using i lrs by (simp add: xs_def)
    from fm [OF this] have "rs ! i + bk_height (sb ! i) \<le> n" by (simp add: n')
    with i nth element_of_sel [OF wsb [OF i(1)]] wsb [OF i(1)] show ?thesis
      by (auto simp: block_wf_def MIN_BLOCK_ROWS_def)
  qed
  have 3: "\<not> itv_overlap (el_itv (es ! j)) (el_itv (es ! i))"
    if "i < j" "j < length es" "k \<in> {el_row (es ! i)..<el_row (es ! i) + el_height (es ! i)}"
      "k \<in> {el_row (es ! j)..<el_row (es ! j) + el_height (es ! j)}" for i j k
  proof -
    have ij: "i < length sb" "j < length sb" using that lrs by (simp_all add: es)
    note sel = element_of_sel [OF wsb [OF ij(1)]] element_of_sel [OF wsb [OF ij(2)]]
    show ?thesis
      using session.pack_disjoint [of i j xs "[]" k] that ij nth [OF ij(1)] nth [OF ij(2)] sel
      by (simp add: xs_def [symmetric] rs_def [symmetric]) (simp add: xs_def)
  qed
  show ?thesis using 1 2 3 by blast
qed

section \<open>Containers\<close>

definition container_itv :: "(string \<Rightarrow> int) \<Rightarrow> trace_row \<Rightarrow> span \<Rightarrow> interval" where
  "container_itv ms t s = (container_left ms t s, container_left ms t s + container_width ms t s)"

lemma pack_step_gravity:
  "fst (pack_step ms t st s) = gravity_step (hasOverlap itv_overlap) occupy (container_itv ms t) (fst st) s"
  by (auto simp: pack_step_def gravity_step_def container_itv_def Let_def nat_add_distrib split: option.splits)

definition container_entry :: "(string \<Rightarrow> int) \<Rightarrow> trace_row \<Rightarrow> (string \<Rightarrow> nat option) \<Rightarrow> span \<Rightarrow> container_span" where
  "container_entry ms t row s = \<lparr>cs_span = s, cs_left = container_left ms t s, cs_width = container_width ms t s,
     cs_row = the (row (spanId s)),
     cs_color = (if status s = Some ''error'' then ''rgba(204, 51, 51, 1)'' else span_type_color (spanType s))\<rparr>"

lemma pack_step_entry:
  "snd (pack_step ms t st s) = snd st @ [container_entry ms t (map_of (fst (fst (pack_step ms t st s)))) s]"
  by (simp add: pack_step_def container_entry_def Let_def update_conv)

lemma container_steps:
  assumes "distinct (map spanId ss)"
  shows "fst (foldl (pack_step ms t) (([], []), []) ss) = foldl (gravity_step (hasOverlap itv_overlap) occupy (container_itv ms t)) ([], []) ss \<and>
    snd (foldl (pack_step ms t) (([], []), []) ss) =
      map (container_entry ms t (map_of (fst (fst (foldl (pack_step ms t) (([], []), []) ss))))) ss"
  using assms
proof (induction ss rule: rev_induct)
  case Nil
  then show ?case by simp
next
  case (snoc s ss)
  define st where "st = foldl (pack_step ms t) (([], []), []) ss"
  have IH: "fst st = foldl (gravity_step (hasOverlap itv_overlap) occupy (container_itv ms t)) ([], []) ss"
    "snd st = map (container_entry ms t (map_of (fst (fst st)))) ss"
    using snoc by (simp_all add: st_def)
  have "map_of (fst (fst (pack_step ms t st s))) (spanId u) = map_of (fst (fst st)) (spanId u)" if "u \<in> set ss" for u
    using that snoc.prems by (auto simp: pack_step_def Let_def update_conv image_iff)
  then have "map (container_entry ms t (map_of (fst (fst (pack_step ms t st s))))) ss = snd st"
    unfolding IH(2) by (simp add: container_entry_def)
  then show ?case
    by (simp add: st_def [symmetric] pack_step_gravity pack_step_entry IH(1) del: fst_conv snd_conv)
qed

text \<open>The packed container of a span list with distinct ids.\<close>

lemma packSpans_eq:
  assumes d: "distinct (map spanId spans)" and "spans \<noteq> []"
    and g: "placed = foldl (gravity_step (hasOverlap itv_overlap) occupy (container_itv ms t)) ([], []) (dfs_spans spans)"
  shows "\<exists>boxes. packSpansInContainer ms ck spans t = Some \<lparr>
      pc_spans = map (container_entry ms t (map_of (fst placed))) (dfs_spans spans),
      pc_rowCount = length (snd placed), pc_groupBoxes = boxes\<rparr>"
  using assms container_steps [OF dfs_spans_distinct [OF d], of ms t]
  by (simp add: packSpansInContainer_def dfsOrder_stack dfs_ids_def [symmetric] dfs_spans_def [symmetric] Let_def)

section \<open>Sections\<close>

text \<open>Segments and gaps take turns; a gap spans exactly the time between its neighbours.\<close>

fun alternating :: "timeline_section list \<Rightarrow> bool" where
  "alternating [Segment s] \<longleftrightarrow> sd_durationMs s = max (sd_endTimeMs s - sd_startTimeMs s) 1"
| "alternating (Segment s # Gap g # Segment s' # rest) \<longleftrightarrow>
     sd_durationMs s = max (sd_endTimeMs s - sd_startTimeMs s) 1 \<and>
     gd_startMs g = sd_endTimeMs s \<and> gd_endMs g = sd_startTimeMs s' \<and> gd_durationMs g = gd_endMs g - gd_startMs g \<and>
     gd_durationMs g > GAP_THRESHOLD_MS \<and> alternating (Segment s' # rest)"
| "alternating _ = False"

definition segments :: "timeline_section list \<Rightarrow> segment_data list" where
  "segments ss = List.map_filter (\<lambda>s. case s of Segment d \<Rightarrow> Some d | Gap _ \<Rightarrow> None) ss"

lemma segments_simps [simp]:
  "segments [] = []" "segments (Segment d # ss) = d # segments ss" "segments (Gap g # ss) = segments ss"
  by (simp_all add: segments_def map_filter_simps)

lemma packSpans_total: "packSpansInContainer ms ck spans t \<noteq> None"
  by (simp add: packSpansInContainer_def dfsOrder_stack Let_def)

lemma layout_total: "\<exists>r. computeSegmentLayout ms ck traces traceSpans loading ex s d = Some r"
proof -
  have "block_of ms ck traceSpans loading ex s d t \<noteq> None" for t
    using packSpans_total by (auto simp: block_of_def Let_def split: option.splits)
  then have "those (map (block_of ms ck traceSpans loading ex s d) traces) \<noteq> None"
    unfolding those_map_None_iff by blast
  then show ?thesis by (auto simp: computeSegmentLayout_def Let_def)
qed

lemma section_loop_ok:
  assumes "\<And>c. \<exists>r. layout c = Some r"
  shows "cs \<noteq> [] \<Longrightarrow> gaps_ok cs \<Longrightarrow> \<exists>secs active. section_loop layout cs = Some (secs, active) \<and> alternating secs \<and>
     active = sum_list (map sd_durationMs (segments secs)) \<and>
     map sd_startTimeMs (segments secs) = map cl_startMs cs \<and> map sd_endTimeMs (segments secs) = map cl_endMs cs \<and>
     (\<exists>s rest. secs = Segment s # rest)"
proof (induction cs rule: gaps_ok.induct [case_names two none one])
  case (two c d cs)
  from two obtain secs active s rest where IH: "section_loop layout (d # cs) = Some (secs, active)" "alternating secs"
    "active = sum_list (map sd_durationMs (segments secs))" "map sd_startTimeMs (segments secs) = map cl_startMs (d # cs)"
    "map sd_endTimeMs (segments secs) = map cl_endMs (d # cs)" "secs = Segment s # rest" by auto
  obtain es n where l: "layout c = Some (es, n)" using assms [of c] by (metis surj_pair)
  have "section_loop layout (c # d # cs) = Some (Segment \<lparr>sd_elements = es, sd_startTimeMs = cl_startMs c, sd_endTimeMs = cl_endMs c,
      sd_durationMs = max (cl_endMs c - cl_startMs c) 1, sd_widthMs = upper_interval_ms (max (cl_endMs c - cl_startMs c) 1), sd_totalRows = n\<rparr> #
      Gap \<lparr>gd_durationMs = cl_startMs d - cl_endMs c, gd_startMs = cl_endMs c, gd_endMs = cl_startMs d\<rparr> # secs,
      max (cl_endMs c - cl_startMs c) 1 + active)"
    unfolding section_loop.simps(2) [of layout c "d # cs"] IH(1) l Let_def by simp
  with two(3) IH show ?case by auto
next
  case none
  then show ?case by simp
next
  case (one c)
  obtain es n where l: "layout c = Some (es, n)" using assms [of c] by (metis surj_pair)
  then show ?case by (simp add: Let_def)
qed

text \<open>
  The session timeline is always computed. For a non-empty list of traces it is a segment
  for every cluster, in order, with a gap between every two: the gap reaches from the end of one to
  the start of the next and is longer than half an hour; durations of segments are at least one
  millisecond and the total active duration is their sum; the session starts with the first cluster.
\<close>

lemma session_sections_alternate:
  assumes "traces \<noteq> []"
  shows "\<exists>r. computeSessionTimelineSegments ms ck traces traceSpans loading ex = Some r \<and> alternating (ts_sections r) \<and>
     ts_totalActiveDurationMs r = sum_list (map sd_durationMs (segments (ts_sections r))) \<and>
     map sd_startTimeMs (segments (ts_sections r)) = map cl_startMs (clusterTraces ms traces) \<and>
     map sd_endTimeMs (segments (ts_sections r)) = map cl_endMs (clusterTraces ms traces) \<and>
     ts_sessionStartMs r = cl_startMs (hd (clusterTraces ms traces))"
proof -
  let ?layout = "\<lambda>c. computeSegmentLayout ms ck (cl_traces c) traceSpans loading ex (cl_startMs c) (max (cl_endMs c - cl_startMs c) 1)"
  have ne: "clusterTraces ms traces \<noteq> []"
  proof
    assume "clusterTraces ms traces = []"
    with clusters_gaps [of ms traces] assms show False by simp
  qed
  from section_loop_ok [of ?layout "clusterTraces ms traces", OF layout_total ne] clusters_gaps [of ms traces]
  obtain secs active where "section_loop ?layout (clusterTraces ms traces) = Some (secs, active)" "alternating secs"
    "active = sum_list (map sd_durationMs (segments secs))" "map sd_startTimeMs (segments secs) = map cl_startMs (clusterTraces ms traces)"
    "map sd_endTimeMs (segments secs) = map cl_endMs (clusterTraces ms traces)" by blast
  with assms ne show ?thesis
    by (auto simp: computeSessionTimelineSegments_def Let_def split: list.splits)
qed

section \<open>Group boxes\<close>

definition in_box :: "(number \<times> number \<times> nat \<times> nat) option \<Rightarrow> container_span \<Rightarrow> bool" where
  "in_box b p \<longleftrightarrow> (case b of None \<Rightarrow> False | Some (l, r, lo, hi) \<Rightarrow>
     l \<le> cs_left p \<and> cs_left p + cs_width p \<le> r \<and> lo \<le> cs_row p \<and> cs_row p \<le> hi)"

lemma box_step_keeps: "in_box b p \<Longrightarrow> in_box (box_step pos b i) p"
  by (auto simp: in_box_def box_step_def split: option.splits)

lemma box_step_adds: "map_of pos i = Some p \<Longrightarrow> in_box (box_step pos b i) p"
  by (auto simp: in_box_def box_step_def split: option.splits)

lemma box_steps_cover:
  "in_box b p \<or> (\<exists>i\<in>set is. map_of pos i = Some p) \<Longrightarrow> in_box (foldl (box_step pos) b is) p"
proof (induction "is" arbitrary: b)
  case Nil
  then show ?case by simp
next
  case (Cons i "is")
  then show ?case using box_step_keeps [of b p pos i] box_step_adds [of pos i p b] by auto
qed

text \<open>
  A group box of an expanded trace encloses its group: every packed span whose id the group
  lists lies, in time and in rows, inside a box drawn under the id of that group.
\<close>

lemma group_boxes_enclose:
  assumes "distinct (map spanId spans)" and "packSpansInContainer ms ck spans t = Some p"
    and "g \<in> set (computeSubagentGroups ck spans)" and "c \<in> set (pc_spans p)" and "spanId (cs_span c) \<in> set (snd g)"
  shows "\<exists>b\<in>set (pc_groupBoxes p). gb_groupId b = fst g \<and> gb_left b \<le> cs_left c \<and>
     cs_left c + cs_width c \<le> gb_left b + gb_width b \<and> gb_topRow b \<le> cs_row c \<and> cs_row c < gb_topRow b + gb_rowSpan b"
proof -
  have ne: "spans \<noteq> []" using assms(2,4) by (auto simp: packSpansInContainer_def)
  let ?st = "foldl (pack_step ms t) (([], []), []) (dfs_spans spans)"
  let ?pos = "js_map_of (\<lambda>r. spanId (cs_span r)) (\<lambda>r. r) (snd ?st)"
  have p: "pc_spans p = snd ?st" "pc_groupBoxes p = List.map_filter (group_box_of ?pos) (computeSubagentGroups ck spans)"
    using assms(2) ne by (auto simp: packSpansInContainer_def dfsOrder_stack dfs_ids_def [symmetric] dfs_spans_def [symmetric] Let_def)
  obtain row where "snd ?st = map (container_entry ms t row) (dfs_spans spans)"
    using container_steps [OF dfs_spans_distinct [OF assms(1)], of ms t] by blast
  then have "map (\<lambda>r. spanId (cs_span r)) (snd ?st) = map spanId (dfs_spans spans)"
    by (simp add: container_entry_def)
  then have "distinct (map (\<lambda>r. spanId (cs_span r)) (snd ?st))" using dfs_spans_distinct [OF assms(1)] by simp
  from js_map_of_distinct [OF this, of c] assms(4) p(1)
  have "map_of ?pos (spanId (cs_span c)) = Some c" by simp
  with assms(5) box_steps_cover [of None c "snd g" ?pos] have box: "in_box (foldl (box_step ?pos) None (snd g)) c" by blast
  then obtain l r lo hi where f: "foldl (box_step ?pos) None (snd g) = Some (l, r, lo, hi)"
    by (auto simp: in_box_def split: option.splits)
  let ?b = "\<lparr>gb_groupId = fst g, gb_left = l, gb_width = r - l, gb_topRow = lo, gb_rowSpan = hi - lo + 1\<rparr>"
  have "group_box_of ?pos g = Some ?b" by (simp add: group_box_of_def f)
  then have "?b \<in> set (pc_groupBoxes p)" using assms(3) unfolding p(2) by (force simp: map_filter_def)
  moreover have "l \<le> cs_left c \<and> cs_left c + cs_width c \<le> r \<and> lo \<le> cs_row c \<and> cs_row c \<le> hi"
    using box by (simp add: in_box_def f)
  ultimately show ?thesis by (intro bexI [of _ ?b]) auto
qed

section \<open>The layout of a container\<close>

text \<open>
  Claim C30. The container of an expanded trace is laid out completely: for a non-empty list of spans
  with distinct ids the packing ends, whatever the time range of the trace, and the container holds
  exactly the spans that hang from a root, each once. No two spans of a row overlap (at the positions
  the container draws them), a span is strictly below its parent, and the rows used are exactly the
  numbers below \<open>rowCount\<close>. The spans of a subagent group are framed: a box with the id of the group
  starts no later than any of them and spans the rows of all of them.
\<close>

theorem container_layout:
  assumes "distinct (map spanId spans)" and "spans \<noteq> []"
  shows "\<exists>p. packSpansInContainer ms ck spans t = Some p \<and>
     distinct (map cs_span (pc_spans p)) \<and>
     (\<forall>s. s \<in> set (map cs_span (pc_spans p)) \<longleftrightarrow> (\<exists>anc. descent spans anc s)) \<and>
     (\<forall>x\<in>set (pc_spans p). \<forall>y\<in>set (pc_spans p). x \<noteq> y \<longrightarrow> cs_row x = cs_row y \<longrightarrow>
        \<not> itv_overlap (cs_left x, cs_left x + cs_width x) (cs_left y, cs_left y + cs_width y)) \<and>
     (\<forall>x\<in>set (pc_spans p). \<forall>y\<in>set (pc_spans p). parentSpanId (cs_span y) = Some (spanId (cs_span x)) \<longrightarrow>
        spanId (cs_span x) \<noteq> [] \<longrightarrow> cs_row x < cs_row y) \<and>
     cs_row ` set (pc_spans p) = {0..<pc_rowCount p} \<and>
     (\<forall>g\<in>set (computeSubagentGroups ck spans). \<forall>x\<in>set (pc_spans p). spanId (cs_span x) \<in> set (snd g) \<longrightarrow>
        (\<exists>b\<in>set (pc_groupBoxes p). gb_groupId b = fst g \<and> gb_left b \<le> cs_left x \<and>
           gb_topRow b \<le> cs_row x \<and> cs_row x < gb_topRow b + gb_rowSpan b))"
proof -
  let ?ss = "dfs_spans spans"
  define placed where "placed = foldl (gravity_step (hasOverlap itv_overlap) occupy (container_itv ms t)) ([], []) ?ss"
  let ?item = "container_entry ms t (map_of (fst placed))"
  from packSpans_eq [OF assms placed_def, of ck] obtain p where
    p: "packSpansInContainer ms ck spans t = Some p" "pc_spans p = map ?item ?ss" "pc_rowCount p = length (snd placed)"
    by auto
  have pk: "packed itv_overlap (container_itv ms t) ?ss (map_of (fst placed)) (length (snd placed))"
    using session.gravity_run [OF dfs_spans_distinct [OF assms(1)], of "container_itv ms t"]
    by (simp add: session.gravity_inv_def placed_def)
  have sp: "cs_span \<circ> ?item = id" by (simp add: container_entry_def fun_eq_iff)
  have row: "map_of (fst placed) (spanId s) = Some (cs_row (?item s))" if "s \<in> set ?ss" for s
    using pk that by (auto simp: packed_def container_entry_def)
  have pos: "(cs_left (?item s), cs_left (?item s) + cs_width (?item s)) = container_itv ms t s" for s
    by (simp only: container_entry_def container_itv_def container_span.select_convs)
  have dist: "distinct ?ss" using dfs_spans_distinct [OF assms(1)] by (simp add: distinct_map)
  note layout = packed_layout [OF assms(1) pk itv_overlap_sym row]
  have clear: "\<not> itv_overlap (cs_left x, cs_left x + cs_width x) (cs_left y, cs_left y + cs_width y)"
    if xy: "x \<in> set (pc_spans p)" "y \<in> set (pc_spans p)" "x \<noteq> y" "cs_row x = cs_row y" for x y
  proof -
    from xy obtain s u where su: "s \<in> set ?ss" "u \<in> set ?ss" "x = ?item s" "y = ?item u" by (auto simp: p)
    with xy(3,4) layout(1) have "\<not> itv_overlap (container_itv ms t s) (container_itv ms t u)" by blast
    then show ?thesis unfolding su(3,4) pos .
  qed
  have below: "cs_row x < cs_row y"
    if xy: "x \<in> set (pc_spans p)" "y \<in> set (pc_spans p)" "parentSpanId (cs_span y) = Some (spanId (cs_span x))"
      "spanId (cs_span x) \<noteq> []" for x y
  proof -
    from xy obtain s u where su: "s \<in> set ?ss" "u \<in> set ?ss" "x = ?item s" "y = ?item u" by (auto simp: p)
    with xy(3,4) have "parentSpanId u = Some (spanId s)" "spanId s \<noteq> []" by (simp_all add: container_entry_def)
    with layout(2) su show ?thesis by blast
  qed
  have rows: "cs_row ` set (pc_spans p) = {0..<pc_rowCount p}" using layout(3) by (simp add: p image_image)
  have boxed: "\<exists>b\<in>set (pc_groupBoxes p). gb_groupId b = fst g \<and> gb_left b \<le> cs_left x \<and>
      gb_topRow b \<le> cs_row x \<and> cs_row x < gb_topRow b + gb_rowSpan b"
    if "g \<in> set (computeSubagentGroups ck spans)" "x \<in> set (pc_spans p)" "spanId (cs_span x) \<in> set (snd g)" for g x
    using group_boxes_enclose [OF assms(1) p(1) that] by blast
  have "distinct (map cs_span (pc_spans p))" using dist by (simp add: p sp)
  moreover have "s \<in> set (map cs_span (pc_spans p)) \<longleftrightarrow> (\<exists>anc. descent spans anc s)" for s
    using dfs_spans_set [OF assms(1)] by (simp add: p sp image_comp)
  ultimately show ?thesis using p(1) clear below rows boxed by blast
qed

section \<open>Concrete runs\<close>

definition demo_trace :: "string \<Rightarrow> string \<Rightarrow> string \<Rightarrow> trace_row" where
  "demo_trace i a b = mk_trace i a b"

lemma container_layout_witness:
  "\<exists>p. packSpansInContainer demo_ms (\<lambda>t. t) demo_tree (demo_trace ''t'' ''x'' ''xx'') = Some p \<and>
     distinct (map cs_span (pc_spans p)) \<and> cs_row ` set (pc_spans p) = {0..<pc_rowCount p}"
proof -
  have "distinct (map spanId demo_tree)" "demo_tree \<noteq> []" by code_simp+
  from container_layout [OF this, of demo_ms "\<lambda>t. t" "demo_trace ''t'' ''x'' ''xx''"] show ?thesis
    by (elim exE conjE) (intro exI conjI, assumption+)
qed

lemma segment_blocks_disjoint_witness:
  "\<exists>es n. computeSegmentLayout demo_ms (\<lambda>t. t) [demo_trace ''a'' ''x'' ''xxx'', demo_trace ''b'' ''xx'' ''xxxx''] (\<lambda>_. None)
       (\<lambda>_. True) {} 1000 3000 = Some (es, n) \<and> mset (map el_id es) = {#''a'', ''b''#}"
proof -
  obtain r where "computeSegmentLayout demo_ms (\<lambda>t. t) [demo_trace ''a'' ''x'' ''xxx'', demo_trace ''b'' ''xx'' ''xxxx''] (\<lambda>_. None)
       (\<lambda>_. True) {} 1000 3000 = Some r" using layout_total by blast
  moreover obtain es n where "r = (es, n)" by (cases r)
  ultimately have r: "computeSegmentLayout demo_ms (\<lambda>t. t) [demo_trace ''a'' ''x'' ''xxx'', demo_trace ''b'' ''xx'' ''xxxx''] (\<lambda>_. None)
       (\<lambda>_. True) {} 1000 3000 = Some (es, n)" by simp
  from segment_blocks_disjoint [OF this] have "mset (map el_id es) = {#''a'', ''b''#}" by (simp add: demo_trace_def)
  with r show ?thesis by blast
qed

lemma session_sections_alternate_witness:
  "\<exists>r. computeSessionTimelineSegments demo_ms (\<lambda>t. t) [demo_trace ''a'' ''x'' ''xxx''] (\<lambda>_. None) (\<lambda>_. False) {} = Some r \<and>
     alternating (ts_sections r)"
  using session_sections_alternate [of "[demo_trace ''a'' ''x'' ''xxx'']" demo_ms "\<lambda>t. t" "\<lambda>_. None" "\<lambda>_. False" "{}"] by auto

lemma group_boxes_enclose_witness:
  "\<exists>p. packSpansInContainer demo_ms (\<lambda>t. t) demo_spans (demo_trace ''t'' ''x'' ''xx'') = Some p \<and>
     (\<exists>b\<in>set (pc_groupBoxes p). gb_groupId b = ''group-x'')"
proof -
  have d: "distinct (map spanId demo_spans)" "demo_spans \<noteq> []" by code_simp+
  then have "\<exists>p row. packSpansInContainer demo_ms (\<lambda>t. t) demo_spans (demo_trace ''t'' ''x'' ''xx'') = Some p \<and>
      pc_spans p = map (container_entry demo_ms (demo_trace ''t'' ''x'' ''xx'') row) (dfs_spans demo_spans)"
    using packSpans_eq [where ms = demo_ms and t = "demo_trace ''t'' ''x'' ''xx''" and ck = "\<lambda>t. t", OF d refl]
    by (elim exE) (intro exI conjI, assumption, rule packed_container.select_convs)
  then obtain p row where
    p: "packSpansInContainer demo_ms (\<lambda>t. t) demo_spans (demo_trace ''t'' ''x'' ''xx'') = Some p"
      "pc_spans p = map (container_entry demo_ms (demo_trace ''t'' ''x'' ''xx'') row) (dfs_spans demo_spans)" by blast
  have g: "(''group-x'', [''x'', ''y'']) \<in> set (computeSubagentGroups (\<lambda>t. t) demo_spans)" by code_simp
  have "demo_spans ! 1 \<in> set (topLevelSpans demo_spans)"
    by (simp add: topLevelSpans_def demo_spans_def llm_span_def mk_span_def blank_span_def)
  then have "demo_spans ! 1 \<in> set (dfs_spans demo_spans)"
    unfolding dfs_spans_set [OF d(1)] using descent_root by blast
  with p(2) have c: "container_entry demo_ms (demo_trace ''t'' ''x'' ''xx'') row (demo_spans ! 1) \<in> set (pc_spans p)" by simp
  have "spanId (cs_span (container_entry demo_ms (demo_trace ''t'' ''x'' ''xx'') row (demo_spans ! 1))) = ''x''"
    by (simp add: container_entry_def demo_spans_def llm_span_def)
  with group_boxes_enclose [OF d(1) p(1) g c] p(1) show ?thesis by auto
qed

end
