(* ===== verification/SpanMetrics.thy ===== *)
theory SpanMetrics
  imports SpanModel
begin

text \<open>
  The span transformations of \<open>lib/actions/spans/utils.ts\<close>: rewiring of parents in a filtered
  tree, the row transformation, and the aggregation of LLM metrics over subtrees. Recursions whose
  end depends on the parent links return \<open>None\<close> when they do not end. \<open>parse\<close> is \<open>tryParseJson\<close>
  of \<open>lib/utils.ts\<close> on a JSON object (\<open>None\<close> for a failed parse, which the code replaces by \<open>{}\<close>).
\<close>

section \<open>Parent rewiring\<close>

subsection \<open>The code\<close>

definition tree_parent :: "(string \<times> string option) list \<Rightarrow> string \<Rightarrow> string option" where
  "tree_parent sm i = (case map_of sm i of
     None \<Rightarrow> None
   | Some p \<Rightarrow> if \<not> truthy p \<or> p = Some null_span_id then None else p)"

partial_function (option) rewire_walk ::
  "(string \<times> string option) list \<Rightarrow> string set \<Rightarrow> string \<Rightarrow> string option option"
where
  "rewire_walk sm matching current =
     (if current = [] then Some None
      else case tree_parent sm current of
             None \<Rightarrow> Some None
           | Some p \<Rightarrow> if p \<in> matching then Some (Some p) else rewire_walk sm matching p)"

fun rewire_loop ::
  "(string \<times> string option) list \<Rightarrow> string set \<Rightarrow> string list \<Rightarrow> (string \<times> string option) list
     \<Rightarrow> (string \<times> string option) list option"
where
  "rewire_loop sm matching [] m = Some m"
| "rewire_loop sm matching (i # is) m =
     (case rewire_walk sm matching i of
        None \<Rightarrow> None
      | Some p \<Rightarrow> rewire_loop sm matching is (AList.update i p m))"

definition createParentRewiring ::
  "string list \<Rightarrow> (string \<times> string option) list \<Rightarrow> (string \<times> string option) list option"
where
  "createParentRewiring matchingSpanIds treeStructure =
     (if matchingSpanIds = [] then Some []
      else rewire_loop (js_map_of fst snd treeStructure) (set matchingSpanIds) matchingSpanIds [])"

definition applyParentRewiring :: "string \<Rightarrow> string option \<Rightarrow> (string \<times> string option) list \<Rightarrow> string option" where
  "applyParentRewiring i parent rewiring =
     (case map_of rewiring i of
        Some effective \<Rightarrow> if truthy effective \<and> effective \<noteq> Some null_span_id then effective else None
      | None \<Rightarrow> if parent = Some null_span_id then None else parent)"

fun attr_num :: "attr option \<Rightarrow> number \<Rightarrow> number" where
  "attr_num (Some (ANum n)) d = n"
| "attr_num _ d = d"

record raw_event =
  re_timestamp :: number
  re_name :: string
  re_attributes :: string

definition parsed :: "(string \<Rightarrow> attrs option) \<Rightarrow> string \<Rightarrow> attrs" where
  "parsed parse s = (case parse s of None \<Rightarrow> Map.empty | Some a \<Rightarrow> a)"

text \<open>\<open>transformSpanWithEvents\<close>; \<open>s\<close> carries the columns of the row, its attributes as JSON text.\<close>

definition transformSpanWithEvents ::
  "(string \<Rightarrow> attrs option) \<Rightarrow> span \<Rightarrow> string \<Rightarrow> raw_event list \<Rightarrow> (string \<times> string option) list \<Rightarrow> span"
where
  "transformSpanWithEvents parse s rawAttributes rawEvents rewiring =
     (let a = parsed parse rawAttributes in
      s\<lparr>attributes := a,
        cacheReadInputTokens := Some (attr_num (a ''gen_ai.usage.cache_read_input_tokens'') 0),
        reasoningTokens := Some (attr_num (a ''gen_ai.usage.reasoning_tokens'') 0),
        parentSpanId := applyParentRewiring (spanId s) (parentSpanId s) rewiring,
        events := map (\<lambda>e. \<lparr>ev_timestamp = re_timestamp e, ev_name = re_name e,
                            ev_attributes = parsed parse (re_attributes e)\<rparr>) rawEvents,
        collapsed := False\<rparr>)"

subsection \<open>The nearest matching ancestor\<close>

text \<open>The chain of parents of an id, up to a root.\<close>

inductive chain_of :: "(string \<Rightarrow> string option) \<Rightarrow> string \<Rightarrow> string list \<Rightarrow> bool" for par where
  chain_root: "par i = None \<Longrightarrow> chain_of par i []"
| chain_step: "par i = Some p \<Longrightarrow> chain_of par p ps \<Longrightarrow> chain_of par i (p # ps)"

inductive_cases chain_NilE: "chain_of par i []"
inductive_cases chain_ConsE: "chain_of par i (p # ps)"

lemma tree_parent_nonempty: "tree_parent sm i = Some p \<Longrightarrow> p \<noteq> []"
  by (auto simp: tree_parent_def split: option.splits if_splits)

lemma rewire_walk_chain:
  "chain_of (tree_parent sm) i ps \<Longrightarrow> i \<noteq> [] \<Longrightarrow> rewire_walk sm M i = Some (find (\<lambda>p. p \<in> M) ps)"
proof (induction rule: chain_of.induct)
  case (chain_root i)
  then show ?case by (subst rewire_walk.simps) simp
next
  case (chain_step i p ps)
  then show ?case by (subst rewire_walk.simps) (auto dest: tree_parent_nonempty)
qed

lemma rewire_loop_result:
  assumes "\<And>i. i \<in> set is \<Longrightarrow> rewire_walk sm M i = Some (f i)"
  shows "rewire_loop sm M is m = Some (foldl (\<lambda>m i. AList.update i (f i) m) m is)"
  using assms by (induction "is" arbitrary: m) auto

text \<open>
  When the parent links of the fetched tree end in roots for every matching span,
  \<open>createParentRewiring\<close> returns, and gives every matching span its nearest ancestor that also
  matches, or none if no ancestor matches. So in the filtered list every parent is a listed span.
\<close>
lemma rewiring_nearest_match:
  assumes "\<forall>i\<in>set ids. i \<noteq> [] \<and> (\<exists>ps. chain_of (tree_parent (js_map_of fst snd tree)) i ps)"
  shows "\<exists>m. createParentRewiring ids tree = Some m \<and>
     (\<forall>i\<in>set ids. \<forall>ps. chain_of (tree_parent (js_map_of fst snd tree)) i ps \<longrightarrow>
        map_of m i = Some (find (\<lambda>p. p \<in> set ids) ps) \<and>
        (\<forall>p. applyParentRewiring i parent m = Some p \<longrightarrow> p \<in> set ids \<inter> set ps))"
proof -
  let ?sm = "js_map_of fst snd tree"
  define f where "f i = the (rewire_walk ?sm (set ids) i)" for i
  have f: "f i = find (\<lambda>p. p \<in> set ids) ps \<and> rewire_walk ?sm (set ids) i = Some (f i)"
    if "i \<in> set ids" "chain_of (tree_parent ?sm) i ps" for i ps
    using rewire_walk_chain [OF that(2), of "set ids"] assms that by (simp add: f_def)
  have tot: "rewire_walk ?sm (set ids) i = Some (f i)" if "i \<in> set ids" for i
    using assms that f by blast
  have "createParentRewiring ids tree = Some (js_map_of (\<lambda>i. i) f ids)"
    using rewire_loop_result [OF tot, of ids "[]"] by (auto simp: createParentRewiring_def js_map_of_def)
  moreover have m: "map_of (js_map_of (\<lambda>i. i) f ids) i = Some (f i)" if "i \<in> set ids" for i
  proof (cases "map_of (js_map_of (\<lambda>i. i) f ids) i")
    case None
    with that show ?thesis by (simp add: js_map_of_None_iff)
  next
    case (Some v)
    with js_map_of_SomeD [OF Some] show ?thesis by auto
  qed
  moreover have "p \<in> set ids \<inter> set ps"
    if "i \<in> set ids" "chain_of (tree_parent ?sm) i ps" "applyParentRewiring i parent (js_map_of (\<lambda>i. i) f ids) = Some p" for i ps p
  proof -
    have "find (\<lambda>p. p \<in> set ids) ps = Some p"
      using that(3) m [OF that(1)] f [OF that(1,2)] by (auto simp: applyParentRewiring_def split: if_splits)
    then show ?thesis by (auto simp: find_Some_iff)
  qed
  moreover have "map_of (js_map_of (\<lambda>i. i) f ids) i = Some (find (\<lambda>p. p \<in> set ids) ps)"
    if "i \<in> set ids" "chain_of (tree_parent ?sm) i ps" for i ps
    using m [OF that(1)] f [OF that] by simp
  ultimately show ?thesis by (intro exI [of _ "js_map_of (\<lambda>i. i) f ids"] conjI ballI allI impI)
qed

lemma rewiring_nearest_match_witness:
  "\<exists>m. createParentRewiring [''a'', ''c''] [(''a'', None), (''b'', Some ''a''), (''c'', Some ''b'')] = Some m \<and>
     map_of m ''c'' = Some (Some ''a'')"
proof -
  let ?tree = "[(''a'', None), (''b'', Some ''a''), (''c'', Some ''b'')]"
  have p: "tree_parent (js_map_of fst snd ?tree) ''a'' = None" "tree_parent (js_map_of fst snd ?tree) ''b'' = Some ''a''"
    "tree_parent (js_map_of fst snd ?tree) ''c'' = Some ''b''"
    by (simp_all add: tree_parent_def js_map_of_def null_span_id_def)
  have a: "chain_of (tree_parent (js_map_of fst snd ?tree)) ''a'' []" by (rule chain_root) (rule p)
  have c: "chain_of (tree_parent (js_map_of fst snd ?tree)) ''c'' [''b'', ''a'']"
    by (intro chain_step a p)
  from a c have "\<forall>i\<in>set [''a'', ''c'']. i \<noteq> [] \<and> (\<exists>ps. chain_of (tree_parent (js_map_of fst snd ?tree)) i ps)" by auto
  from rewiring_nearest_match [OF this, of None] c show ?thesis by fastforce
qed

section \<open>Aggregated metrics\<close>

subsection \<open>The code\<close>

record metrics =
  mt_inputTokens :: number
  mt_outputTokens :: number
  mt_totalCost :: number
  mt_cacheReadInputTokens :: number
  mt_reasoningTokens :: number
  mt_hasLLMDescendants :: bool

definition zero_metrics :: metrics where
  "zero_metrics = \<lparr>mt_inputTokens = 0, mt_outputTokens = 0, mt_totalCost = 0, mt_cacheReadInputTokens = 0,
     mt_reasoningTokens = 0, mt_hasLLMDescendants = False\<rparr>"

text \<open>\<open>x ?? 0\<close>\<close>

definition or_zero :: "number option \<Rightarrow> number" where
  "or_zero x = (case x of None \<Rightarrow> 0 | Some n \<Rightarrow> n)"

definition leaf_metrics :: "span \<Rightarrow> metrics option" where
  "leaf_metrics s =
     (if spanType s = LLM then
        let cost = (if totalCost s \<noteq> 0 then totalCost s else inputCost s + outputCost s)
        in Some \<lparr>mt_inputTokens = inputTokens s, mt_outputTokens = outputTokens s, mt_totalCost = cost,
             mt_cacheReadInputTokens = or_zero (cacheReadInputTokens s),
             mt_reasoningTokens = or_zero (reasoningTokens s), mt_hasLLMDescendants = True\<rparr>
      else None)"

definition add_child :: "metrics \<Rightarrow> metrics option \<Rightarrow> metrics" where
  "add_child acc child = (case child of
     None \<Rightarrow> acc
   | Some c \<Rightarrow> \<lparr>mt_inputTokens = mt_inputTokens acc + mt_inputTokens c,
        mt_outputTokens = mt_outputTokens acc + mt_outputTokens c,
        mt_totalCost = mt_totalCost acc + mt_totalCost c,
        mt_cacheReadInputTokens = mt_cacheReadInputTokens acc + mt_cacheReadInputTokens c,
        mt_reasoningTokens = mt_reasoningTokens acc + mt_reasoningTokens c,
        mt_hasLLMDescendants = True\<rparr>)"

definition finish_metrics :: "metrics \<Rightarrow> metrics option" where
  "finish_metrics acc = (if mt_hasLLMDescendants acc then Some acc else None)"

text \<open>
  \<open>calculateMetrics\<close> over the children in turn: each is looked up in the cache, else computed (as a
  leaf, or recursively over its own children) and cached, and then added to the accumulator.
\<close>

partial_function (option) calculateMetrics ::
  "(string \<times> span) list \<Rightarrow> (string \<times> string list) list \<Rightarrow> string list \<Rightarrow> metrics
     \<Rightarrow> (string \<times> metrics option) list \<Rightarrow> (metrics \<times> (string \<times> metrics option) list) option"
where
  "calculateMetrics sm cm ids acc cache = (case ids of
     [] \<Rightarrow> Some (acc, cache)
   | i # rest \<Rightarrow>
       Option.bind
         (case map_of cache i of
            Some r \<Rightarrow> Some (r, cache)
          | None \<Rightarrow>
              (let children = (case map_of cm i of None \<Rightarrow> [] | Some cs \<Rightarrow> cs) in
               if children = []
               then (let r = leaf_metrics (the (map_of sm i)) in Some (r, AList.update i r cache))
               else Option.bind (calculateMetrics sm cm children zero_metrics cache)
                      (\<lambda>st. let r = finish_metrics (fst st) in Some (r, AList.update i r (snd st)))))
         (\<lambda>st. calculateMetrics sm cm rest (add_child acc (fst st)) (snd st)))"

definition childrenMap :: "span list \<Rightarrow> (string \<times> string list) list" where
  "childrenMap spans = foldl (\<lambda>m s. case (if truthy (parentSpanId s) then parentSpanId s else None) of
     None \<Rightarrow> m | Some p \<Rightarrow> amap_push p (spanId s) m) [] spans"

definition with_metrics :: "metrics \<Rightarrow> span \<Rightarrow> span" where
  "with_metrics m s = s\<lparr>aggregatedMetrics := Some \<lparr>am_inputTokens = mt_inputTokens m, am_outputTokens = mt_outputTokens m,
     am_totalCost = mt_totalCost m, am_cacheReadInputTokens = Some (mt_cacheReadInputTokens m),
     am_reasoningTokens = Some (mt_reasoningTokens m), am_hasLLMDescendants = mt_hasLLMDescendants m\<rparr>\<rparr>"

fun annotate ::
  "(string \<times> span) list \<Rightarrow> (string \<times> string list) list \<Rightarrow> span list \<Rightarrow> (string \<times> metrics option) list \<Rightarrow> span list option"
where
  "annotate sm cm [] cache = Some []"
| "annotate sm cm (s # ss) cache =
     (case calculateMetrics sm cm [spanId s] zero_metrics cache of
        None \<Rightarrow> None
      | Some (acc, cache') \<Rightarrow>
          map_option ((#) (case the (map_of cache' (spanId s)) of None \<Rightarrow> s | Some m \<Rightarrow> with_metrics m s))
            (annotate sm cm ss cache'))"

definition aggregateSpanMetrics :: "span list \<Rightarrow> span list option" where
  "aggregateSpanMetrics spans = annotate (spanMap spans) (childrenMap spans) spans []"

lemma calculateMetrics_simps [simp]:
  "calculateMetrics sm cm [] acc cache = Some (acc, cache)"
  "map_of cache i = Some r \<Longrightarrow> calculateMetrics sm cm (i # rest) acc cache = calculateMetrics sm cm rest (add_child acc r) cache"
  by (subst calculateMetrics.simps; simp)+

subsection \<open>Sums over the LLM leaves\<close>

definition children_of :: "(string \<times> string list) list \<Rightarrow> string \<Rightarrow> string list" where
  "children_of cm i = (case map_of cm i of None \<Rightarrow> [] | Some cs \<Rightarrow> cs)"

text \<open>The leaves below an id, left to right.\<close>

inductive leaves :: "(string \<times> string list) list \<Rightarrow> string \<Rightarrow> string list \<Rightarrow> bool"
  and leaves_list :: "(string \<times> string list) list \<Rightarrow> string list \<Rightarrow> string list \<Rightarrow> bool" for cm
where
  leaf: "children_of cm i = [] \<Longrightarrow> leaves cm i [i]"
| node: "children_of cm i \<noteq> [] \<Longrightarrow> leaves_list cm (children_of cm i) xs \<Longrightarrow> leaves cm i xs"
| none: "leaves_list cm [] []"
| more: "leaves cm i xs \<Longrightarrow> leaves_list cm is ys \<Longrightarrow> leaves_list cm (i # is) (xs @ ys)"

definition leaf_sum :: "(string \<times> span) list \<Rightarrow> string list \<Rightarrow> metrics option" where
  "leaf_sum sm xs = (let ms = List.map_filter (\<lambda>i. leaf_metrics (the (map_of sm i))) xs in
     if ms = [] then None
     else Some \<lparr>mt_inputTokens = sum_list (map mt_inputTokens ms), mt_outputTokens = sum_list (map mt_outputTokens ms),
       mt_totalCost = sum_list (map mt_totalCost ms), mt_cacheReadInputTokens = sum_list (map mt_cacheReadInputTokens ms),
       mt_reasoningTokens = sum_list (map mt_reasoningTokens ms), mt_hasLLMDescendants = True\<rparr>)"

text \<open>The accumulator after adding leaf metrics.\<close>

definition plus_metrics :: "metrics \<Rightarrow> metrics \<Rightarrow> metrics" where
  "plus_metrics a b = \<lparr>mt_inputTokens = mt_inputTokens a + mt_inputTokens b,
     mt_outputTokens = mt_outputTokens a + mt_outputTokens b, mt_totalCost = mt_totalCost a + mt_totalCost b,
     mt_cacheReadInputTokens = mt_cacheReadInputTokens a + mt_cacheReadInputTokens b,
     mt_reasoningTokens = mt_reasoningTokens a + mt_reasoningTokens b,
     mt_hasLLMDescendants = (mt_hasLLMDescendants a \<or> mt_hasLLMDescendants b)\<rparr>"

definition sum_metrics :: "metrics list \<Rightarrow> metrics" where
  "sum_metrics ms = foldr plus_metrics ms zero_metrics"

lemma plus_metrics_assoc: "plus_metrics (plus_metrics a b) c = plus_metrics a (plus_metrics b c)"
  by (simp add: plus_metrics_def add.assoc)

lemma plus_zero [simp]: "plus_metrics a zero_metrics = a" "plus_metrics zero_metrics a = a"
  by (simp_all add: plus_metrics_def zero_metrics_def)

lemma sum_metrics_simps [simp]:
  "sum_metrics [] = zero_metrics" "sum_metrics (m # ms) = plus_metrics m (sum_metrics ms)"
  "sum_metrics (ms @ ns) = plus_metrics (sum_metrics ms) (sum_metrics ns)"
  by (induction ms) (simp_all add: sum_metrics_def plus_metrics_assoc)

definition leaf_list :: "(string \<times> span) list \<Rightarrow> string list \<Rightarrow> metrics list" where
  "leaf_list sm xs = List.map_filter (\<lambda>i. leaf_metrics (the (map_of sm i))) xs"

lemma leaf_list_append [simp]: "leaf_list sm (xs @ ys) = leaf_list sm xs @ leaf_list sm ys"
  by (simp add: leaf_list_def map_filter_def)

lemma leaf_list_has: "m \<in> set (leaf_list sm xs) \<Longrightarrow> mt_hasLLMDescendants m"
  by (auto simp: leaf_list_def map_filter_def leaf_metrics_def Let_def split: if_splits)

lemma sum_metrics_fields:
  "sum_metrics ms = \<lparr>mt_inputTokens = sum_list (map mt_inputTokens ms), mt_outputTokens = sum_list (map mt_outputTokens ms),
       mt_totalCost = sum_list (map mt_totalCost ms), mt_cacheReadInputTokens = sum_list (map mt_cacheReadInputTokens ms),
       mt_reasoningTokens = sum_list (map mt_reasoningTokens ms), mt_hasLLMDescendants = (\<exists>m\<in>set ms. mt_hasLLMDescendants m)\<rparr>"
  by (induction ms) (simp_all add: zero_metrics_def plus_metrics_def)

lemma leaf_sum_finish: "leaf_sum sm xs = finish_metrics (sum_metrics (leaf_list sm xs))"
proof (cases "leaf_list sm xs")
  case Nil
  then show ?thesis by (simp add: leaf_sum_def leaf_list_def [symmetric] finish_metrics_def zero_metrics_def)
next
  case (Cons m ms)
  then have "mt_hasLLMDescendants m" using leaf_list_has [of m sm xs] by simp
  with Cons show ?thesis
    unfolding leaf_sum_def leaf_list_def [symmetric] Let_def finish_metrics_def sum_metrics_fields by simp
qed

lemma add_leaf_sum: "add_child acc (leaf_sum sm xs) = plus_metrics acc (sum_metrics (leaf_list sm xs))"
proof -
  have *: "add_child acc (finish_metrics m) = plus_metrics acc m"
    if "mt_hasLLMDescendants m \<or> m = zero_metrics" for m
    using that by (auto simp: add_child_def finish_metrics_def plus_metrics_def zero_metrics_def)
  show ?thesis unfolding leaf_sum_finish
  proof (rule *, cases "leaf_list sm xs")
    case (Cons m ms)
    then have "mt_hasLLMDescendants m" using leaf_list_has [of m sm xs] by simp
    with Cons show "mt_hasLLMDescendants (sum_metrics (leaf_list sm xs)) \<or> sum_metrics (leaf_list sm xs) = zero_metrics"
      by (simp add: plus_metrics_def)
  qed simp
qed

lemma leaves_det:
  "leaves cm i xs \<Longrightarrow> leaves cm i ys \<Longrightarrow> xs = ys"
  "leaves_list cm is xs \<Longrightarrow> leaves_list cm is ys \<Longrightarrow> xs = ys"
proof (induction arbitrary: ys and ys rule: leaves_leaves_list.inducts)
  case (leaf i)
  from leaf(2) leaf(1) show ?case by (cases rule: leaves.cases) auto
next
  case (node i xs)
  from node(4) node(1) node(3) show ?case by (cases rule: leaves.cases) auto
next
  case none
  from none.prems show ?case by (cases rule: leaves_list.cases) auto
next
  case (more i xs "is" zs)
  from more.prems show ?case by (cases rule: leaves_list.cases) (auto dest: more(2) more(4))
qed

definition metrics_cached :: "(string \<times> span) list \<Rightarrow> (string \<times> string list) list \<Rightarrow> (string \<times> metrics option) list \<Rightarrow> bool" where
  "metrics_cached sm cm cache \<longleftrightarrow> (\<forall>i r. map_of cache i = Some r \<longrightarrow> (\<exists>xs. leaves cm i xs \<and> r = leaf_sum sm xs))"

lemma metrics_cached_update:
  "metrics_cached sm cm cache \<Longrightarrow> leaves cm i xs \<Longrightarrow> metrics_cached sm cm (AList.update i (leaf_sum sm xs) cache)"
  by (auto simp: metrics_cached_def update_conv)

definition metrics_of ::
  "(string \<times> span) list \<Rightarrow> (string \<times> string list) list \<Rightarrow> string \<Rightarrow> (string \<times> metrics option) list
     \<Rightarrow> (metrics option \<times> (string \<times> metrics option) list) option"
where
  "metrics_of sm cm i cache = (case map_of cache i of
     Some r \<Rightarrow> Some (r, cache)
   | None \<Rightarrow>
       if children_of cm i = []
       then Some (leaf_metrics (the (map_of sm i)), AList.update i (leaf_metrics (the (map_of sm i))) cache)
       else Option.bind (calculateMetrics sm cm (children_of cm i) zero_metrics cache)
              (\<lambda>st. Some (finish_metrics (fst st), AList.update i (finish_metrics (fst st)) (snd st))))"

lemma calculateMetrics_Cons:
  "calculateMetrics sm cm (i # rest) acc cache =
     Option.bind (metrics_of sm cm i cache) (\<lambda>st. calculateMetrics sm cm rest (add_child acc (fst st)) (snd st))"
  unfolding metrics_of_def children_of_def by (subst calculateMetrics.simps) (simp only: list.case Let_def)

lemma leaf_sum_single: "leaf_sum sm [i] = leaf_metrics (the (map_of sm i))"
  by (auto simp: leaf_sum_def map_filter_def leaf_metrics_def Let_def)

definition computes where
  "computes sm cm i xs \<longleftrightarrow> (\<forall>cache. metrics_cached sm cm cache \<longrightarrow> (\<exists>c'. metrics_of sm cm i cache = Some (leaf_sum sm xs, c') \<and>
     metrics_cached sm cm c' \<and> map_of c' i = Some (leaf_sum sm xs)))"

lemma calculate_leaves:
  "leaves cm i xs \<Longrightarrow> computes sm cm i xs"
  "leaves_list cm is xs \<Longrightarrow> \<forall>acc cache. metrics_cached sm cm cache \<longrightarrow> (\<exists>c'.
     calculateMetrics sm cm is acc cache = Some (plus_metrics acc (sum_metrics (leaf_list sm xs)), c') \<and> metrics_cached sm cm c')"
proof (induction rule: leaves_leaves_list.inducts)
  case (leaf i)
  have l: "leaves cm i [i]" using leaf by (rule leaves_leaves_list.leaf)
  show ?case unfolding computes_def
  proof (intro allI impI)
    fix cache
    assume ok: "metrics_cached sm cm cache"
    show "\<exists>c'. metrics_of sm cm i cache = Some (leaf_sum sm [i], c') \<and> metrics_cached sm cm c' \<and> map_of c' i = Some (leaf_sum sm [i])"
    proof (cases "map_of cache i")
      case None
      with leaf metrics_cached_update [OF ok l] show ?thesis
        by (simp add: metrics_of_def leaf_sum_single [symmetric] update_conv)
    next
      case (Some r)
      with ok obtain ys where "leaves cm i ys" "r = leaf_sum sm ys" unfolding metrics_cached_def by blast
      with leaves_det(1) [OF l] Some ok show ?thesis by (auto simp: metrics_of_def)
    qed
  qed
next
  case (node i xs)
  have l: "leaves cm i xs" using node(1,2) by (rule leaves_leaves_list.node)
  show ?case unfolding computes_def
  proof (intro allI impI)
    fix cache
    assume ok: "metrics_cached sm cm cache"
    show "\<exists>c'. metrics_of sm cm i cache = Some (leaf_sum sm xs, c') \<and> metrics_cached sm cm c' \<and> map_of c' i = Some (leaf_sum sm xs)"
    proof (cases "map_of cache i")
      case None
      from node(3) [rule_format, OF ok, of zero_metrics] obtain c1 where
        c1: "calculateMetrics sm cm (children_of cm i) zero_metrics cache =
          Some (sum_metrics (leaf_list sm xs), c1)" "metrics_cached sm cm c1" by auto
      with None node(1) metrics_cached_update [OF c1(2) l] show ?thesis
        by (simp add: metrics_of_def leaf_sum_finish update_conv)
    next
      case (Some r)
      with ok obtain ys where "leaves cm i ys" "r = leaf_sum sm ys" unfolding metrics_cached_def by blast
      with leaves_det(1) [OF l] Some ok show ?thesis by (auto simp: metrics_of_def)
    qed
  qed
next
  case none
  then show ?case by (simp add: leaf_list_def map_filter_def)
next
  case (more i xs "is" ys)
  show ?case
  proof (intro allI impI)
    fix acc cache
    assume "metrics_cached sm cm cache"
    with more(2) obtain c1 where c1: "metrics_of sm cm i cache = Some (leaf_sum sm xs, c1)" "metrics_cached sm cm c1"
      unfolding computes_def by blast
    with more(4) obtain c2 where "calculateMetrics sm cm is (add_child acc (leaf_sum sm xs)) c1 =
        Some (plus_metrics (add_child acc (leaf_sum sm xs)) (sum_metrics (leaf_list sm ys)), c2)" "metrics_cached sm cm c2" by blast
    with c1 show "\<exists>c'. calculateMetrics sm cm (i # is) acc cache =
        Some (plus_metrics acc (sum_metrics (leaf_list sm (xs @ ys))), c') \<and> metrics_cached sm cm c'"
      by (simp add: calculateMetrics_Cons add_leaf_sum plus_metrics_assoc)
  qed
qed

lemma children_of_childrenMap:
  "children_of (childrenMap spans) i = (if i = [] then [] else map spanId (filter (\<lambda>s. parentSpanId s = Some i) spans))"
proof -
  have "filter (\<lambda>s. (if truthy (parentSpanId s) then parentSpanId s else None) = Some i) spans =
      (if i = [] then [] else filter (\<lambda>s. parentSpanId s = Some i) spans)"
    by (cases "i = []") (auto simp: truthy_def filter_empty_conv split: option.splits if_splits intro!: filter_cong)
  moreover have "map_of (childrenMap spans) i =
      (let b = map spanId (filter (\<lambda>s. (if truthy (parentSpanId s) then parentSpanId s else None) = Some i) spans)
       in if b = [] then None else Some b)"
    unfolding childrenMap_def by (rule amap.get_group)
  ultimately show ?thesis by (auto simp: children_of_def Let_def)
qed

lemma leaves_total:
  assumes d: "distinct (map spanId spans)" and r: "rooted spans"
  shows "\<exists>xs. leaves (childrenMap spans) i xs"
proof -
  from r obtain rank :: "string \<Rightarrow> nat"
    where rank: "\<And>i p. parent_of (spanMap spans) i = Some p \<Longrightarrow> rank p < rank i"
    unfolding rooted_def by blast
  define B where "B = Suc (Max (insert 0 (rank ` spanId ` set spans)))"
  have B: "rank (spanId s) < B" if "s \<in> set spans" for s
    using that by (simp add: B_def less_Suc_eq_le)
  have up: "rank i < rank c" if "c \<in> set (children_of (childrenMap spans) i)" for i c
  proof -
    from that obtain s where "s \<in> set spans" "parentSpanId s = Some i" "spanId s = c" "i \<noteq> []"
      by (auto simp: children_of_childrenMap split: if_splits)
    with spanMap_distinct [OF d] have "parent_of (spanMap spans) c = Some i" by (auto simp: parent_of_def)
    then show ?thesis by (rule rank)
  qed
  show ?thesis
  proof (induction "B - rank i" arbitrary: i rule: less_induct)
    case less
    show ?case
    proof (cases "children_of (childrenMap spans) i = []")
      case True
      then show ?thesis by (blast intro: leaf)
    next
      case False
      have "\<exists>xs. leaves (childrenMap spans) c xs" if c: "c \<in> set (children_of (childrenMap spans) i)" for c
      proof (rule less)
        from c obtain s where "s \<in> set spans" "spanId s = c" by (auto simp: children_of_childrenMap split: if_splits)
        with B up [OF c] show "B - rank c < B - rank i" by fastforce
      qed
      then have "\<exists>xs. leaves_list (childrenMap spans) cs xs" if "set cs \<subseteq> set (children_of (childrenMap spans) i)" for cs
        using that by (induction cs) (auto intro: leaves_leaves_list.none, metis more)
      with False show ?thesis by (blast intro: node)
    qed
  qed
qed

lemma aggregated_metrics_are_leaf_sums_core:
  assumes "distinct (map spanId spans)" and "rooted spans"
  shows "\<exists>f. (\<forall>s\<in>set spans. leaves (childrenMap spans) (spanId s) (f s)) \<and>
     aggregateSpanMetrics spans = Some (map (\<lambda>s. case leaf_sum (spanMap spans) (f s) of None \<Rightarrow> s | Some m \<Rightarrow> with_metrics m s) spans)"
proof -
  let ?sm = "spanMap spans" and ?cm = "childrenMap spans"
  define f where "f s = (SOME xs. leaves ?cm (spanId s) xs)" for s :: span
  have f: "leaves ?cm (spanId s) (f s)" for s
    unfolding f_def using leaves_total [OF assms] by (rule someI_ex)
  have "metrics_cached ?sm ?cm cache \<Longrightarrow> annotate ?sm ?cm ss cache =
      Some (map (\<lambda>s. case leaf_sum ?sm (f s) of None \<Rightarrow> s | Some m \<Rightarrow> with_metrics m s) ss)" for ss cache
  proof (induction ss arbitrary: cache)
    case Nil
    then show ?case by simp
  next
    case (Cons s ss)
    from calculate_leaves(1) [where sm = ?sm, OF f [of s]] Cons.prems obtain c' where
      "metrics_of ?sm ?cm (spanId s) cache = Some (leaf_sum ?sm (f s), c')" "metrics_cached ?sm ?cm c'"
      "map_of c' (spanId s) = Some (leaf_sum ?sm (f s))" unfolding computes_def by blast
    with Cons.IH show ?case by (simp add: calculateMetrics_Cons)
  qed
  from this [of "[]" spans] have "aggregateSpanMetrics spans =
      Some (map (\<lambda>s. case leaf_sum ?sm (f s) of None \<Rightarrow> s | Some m \<Rightarrow> with_metrics m s) spans)"
    by (simp add: aggregateSpanMetrics_def metrics_cached_def)
  with f show ?thesis by blast
qed

text \<open>
  Claim C24. On spans with distinct ids whose parent links have no cycle, \<open>aggregateSpanMetrics\<close>
  returns; it changes nothing but the aggregated metrics, which for every span with an LLM leaf below
  it (or being one) are the sums over the LLM leaves of its subtree, and are left alone otherwise. The
  cache and the order of the traversal do not show.
\<close>

theorem aggregated_metrics_are_leaf_sums:
  assumes "distinct (map spanId spans)" and "rooted spans"
  shows "\<exists>f. (\<forall>s\<in>set spans. leaves (childrenMap spans) (spanId s) (f s)) \<and>
     aggregateSpanMetrics spans = Some (map (\<lambda>s. case leaf_sum (spanMap spans) (f s) of None \<Rightarrow> s | Some m \<Rightarrow> with_metrics m s) spans)"
  by (rule aggregated_metrics_are_leaf_sums_core [OF assms])

lemma aggregated_metrics_are_leaf_sums_witness:
  "\<exists>ss. aggregateSpanMetrics [mk_span ''a'' None DEFAULT, (mk_span ''b'' (Some ''a'') LLM)\<lparr>inputTokens := 7\<rparr>] = Some ss \<and> length ss = 2"
proof -
  let ?spans = "[mk_span ''a'' None DEFAULT, (mk_span ''b'' (Some ''a'') LLM)\<lparr>inputTokens := 7\<rparr>]"
  have "rooted ?spans"
    by (rule rootedI [where rank = "\<lambda>i. if i = ''b'' then 1 else 0"]) (auto simp: mk_span_def)
  moreover have "distinct (map spanId ?spans)" by simp
  ultimately show ?thesis using aggregated_metrics_are_leaf_sums [of ?spans] by auto
qed

end
