(* ===== verification/Realtime.thy ===== *)
theory Realtime
  imports SpanMetrics
begin

text \<open>
  Live updates of a trace, \<open>components/traces/trace-view/utils.ts\<close>: pending placeholders for the
  ancestors of spans that arrived before them, the handler of a span received in real time, and the
  small selectors of that file.

  \<open>ms\<close> is \<open>new Date(s).getTime()\<close>, \<open>toISO\<close> is \<open>Date.toISOString\<close> on such a time.
\<close>

section \<open>Pending ancestors\<close>

subsection \<open>The code\<close>

definition pending_span :: "(string \<Rightarrow> int) \<Rightarrow> (int \<Rightarrow> string) \<Rightarrow> span \<Rightarrow> string \<Rightarrow> string \<Rightarrow> string option \<Rightarrow> span" where
  "pending_span ms toISO s i n p = \<lparr>spanId = i, parentSpanId = p, traceId = traceId s, name = n,
     startTime = toISO (ms (startTime s)), endTime = toISO (ms (endTime s)), attributes = (\<lambda>_. None),
     spanType = DEFAULT, path = [], events = [], status = status s, model = None, pending = Some True,
     collapsed = False, inputTokens = 0, outputTokens = 0, totalTokens = 0, cacheReadInputTokens = Some 0,
     reasoningTokens = Some 0, inputCost = 0, outputCost = 0, totalCost = 0, aggregatedMetrics = None,
     inputSnippet = None, outputSnippet = None, attributesSnippet = None\<rparr>"

text \<open>Widening a pending span to the time range of \<open>s\<close>.\<close>

definition widen :: "(string \<Rightarrow> int) \<Rightarrow> (int \<Rightarrow> string) \<Rightarrow> span \<Rightarrow> span \<Rightarrow> span" where
  "widen ms toISO s p =
     p\<lparr>startTime := toISO (if ms (startTime s) < ms (startTime p) then ms (startTime s) else ms (startTime p)),
       endTime := toISO (if ms (endTime s) > ms (endTime p) then ms (endTime s) else ms (endTime p))\<rparr>"

text \<open>One step of the loop over \<open>parentSpanIds\<close>; \<open>prev\<close> is \<open>parentSpanIds[i - 1]\<close>.\<close>

definition pending_step ::
  "(string \<Rightarrow> int) \<Rightarrow> (int \<Rightarrow> string) \<Rightarrow> string set \<Rightarrow> span \<Rightarrow> (string \<times> span) list \<Rightarrow> string option \<Rightarrow> string \<Rightarrow> string
     \<Rightarrow> (string \<times> span) list"
where
  "pending_step ms toISO existing s m prev i n =
     (case map_of m i of
        Some p \<Rightarrow> AList.update i (widen ms toISO s p) m
      | None \<Rightarrow> if i \<in> existing then m else AList.update i (pending_span ms toISO s i n prev) m)"

fun pending_path ::
  "(string \<Rightarrow> int) \<Rightarrow> (int \<Rightarrow> string) \<Rightarrow> string set \<Rightarrow> span \<Rightarrow> (string \<times> span) list \<Rightarrow> string option \<Rightarrow> (string \<times> string) list
     \<Rightarrow> (string \<times> span) list"
where
  "pending_path ms toISO existing s m prev [] = m"
| "pending_path ms toISO existing s m prev ((i, n) # rest) =
     pending_path ms toISO existing s (pending_step ms toISO existing s m prev i n) (Some i) rest"

text \<open>The guarded ids and names of a span's path.\<close>

definition path_refs :: "span \<Rightarrow> (string \<times> string) list" where
  "path_refs s =
     (if \<not> truthy (parentSpanId s) then []
      else let ids = attr_list (attributes s ''lmnr.span.ids_path''); names = attr_list (attributes s ''lmnr.span.path'')
           in if ids = [] \<or> names = [] \<or> length ids \<noteq> length names then [] else zip ids names)"

definition enrichSpansWithPending :: "(string \<Rightarrow> int) \<Rightarrow> (int \<Rightarrow> string) \<Rightarrow> span list \<Rightarrow> span list" where
  "enrichSpansWithPending ms toISO existingSpans =
     (let existingSpanIds = spanId ` set existingSpans;
          pendingSpans = js_map_of spanId (\<lambda>s. s) (filter is_pending existingSpans);
          filled = foldl (\<lambda>m s. pending_path ms toISO existingSpanIds s m None (path_refs s)) pendingSpans existingSpans
      in filter (\<lambda>s. \<not> is_pending s) existingSpans @ map snd filled)"

subsection \<open>The loop\<close>

text \<open>The map of pending spans: keyed by span id, all pending, none of them an id of a loaded span.\<close>

definition pend_ok :: "span list \<Rightarrow> (string \<times> span) list \<Rightarrow> bool" where
  "pend_ok ex m \<longleftrightarrow> distinct (map fst m) \<and>
     (\<forall>(i, p)\<in>set m. spanId p = i \<and> is_pending p \<and> (i \<in> spanId ` set ex \<longrightarrow> i \<in> spanId ` set (filter is_pending ex)))"

lemma pend_ok_update:
  assumes "pend_ok ex m" and "spanId p = i" "is_pending p" "i \<in> spanId ` set ex \<longrightarrow> i \<in> spanId ` set (filter is_pending ex)"
  shows "pend_ok ex (AList.update i p m)"
proof -
  have dis: "distinct (map fst (AList.update i p m))" using assms(1) by (simp add: pend_ok_def distinct_update)
  have "spanId q = j \<and> is_pending q \<and> (j \<in> spanId ` set ex \<longrightarrow> j \<in> spanId ` set (filter is_pending ex))"
    if jq: "(j, q) \<in> set (AList.update i p m)" for j q
  proof -
    from map_of_is_SomeI [OF dis jq] have "(j = i \<and> q = p) \<or> map_of m j = Some q"
      by (simp add: update_conv split: if_splits)
    then show ?thesis
    proof
      assume "map_of m j = Some q"
      then have "(j, q) \<in> set m" by (rule map_of_SomeD)
      with assms(1) show ?thesis unfolding pend_ok_def by blast
    qed (use assms in simp)
  qed
  with dis show ?thesis unfolding pend_ok_def by blast
qed

lemma pend_ok_entry: "pend_ok ex m \<Longrightarrow> map_of m i = Some p \<Longrightarrow>
    spanId p = i \<and> is_pending p \<and> (i \<in> spanId ` set ex \<longrightarrow> i \<in> spanId ` set (filter is_pending ex))"
  by (fastforce simp: pend_ok_def dest: map_of_SomeD)

lemma widen_sel [simp]: "spanId (widen ms toISO s p) = spanId p" "is_pending (widen ms toISO s p) = is_pending p"
  by (simp_all add: widen_def)

lemma pending_step_ok: "pend_ok ex m \<Longrightarrow> pend_ok ex (pending_step ms toISO (spanId ` set ex) s m prev i n)"
  by (auto simp: pending_step_def pending_span_def split: option.splits dest: pend_ok_entry intro!: pend_ok_update)

lemma pending_path_ok: "pend_ok ex m \<Longrightarrow> pend_ok ex (pending_path ms toISO (spanId ` set ex) s m prev refs)"
  by (induction ms toISO "spanId ` set ex" s m prev refs rule: pending_path.induct) (simp_all add: pending_step_ok)

text \<open>What a step does to the domain and to the time ranges.\<close>

definition covers :: "(string \<Rightarrow> int) \<Rightarrow> span \<Rightarrow> span \<Rightarrow> bool" where
  "covers ms p s \<longleftrightarrow> ms (startTime p) \<le> ms (startTime s) \<and> ms (endTime s) \<le> ms (endTime p)"

definition grows :: "(string \<Rightarrow> int) \<Rightarrow> (string \<times> span) list \<Rightarrow> (string \<times> span) list \<Rightarrow> bool" where
  "grows ms m m' \<longleftrightarrow> (\<forall>i p. map_of m i = Some p \<longrightarrow> (\<exists>q. map_of m' i = Some q \<and> covers ms q p))"

lemma grows_refl: "grows ms m m"
  by (auto simp: grows_def covers_def)

lemma grows_trans: "grows ms a b \<Longrightarrow> grows ms b c \<Longrightarrow> grows ms a c"
  unfolding grows_def covers_def by (meson order_trans)

lemma pending_step_grows:
  "\<forall>t. ms (toISO t) = t \<Longrightarrow> grows ms m (pending_step ms toISO ex s m prev i n)"
  by (auto simp: grows_def covers_def pending_step_def widen_def update_conv split: option.splits)

lemma pending_path_grows:
  "\<forall>t. ms (toISO t) = t \<Longrightarrow> grows ms m (pending_path ms toISO ex s m prev refs)"
  by (induction ms toISO ex s m prev refs rule: pending_path.induct)
    (auto simp: grows_refl intro: grows_trans pending_step_grows)

lemma pending_step_covers:
  "\<forall>t. ms (toISO t) = t \<Longrightarrow> i \<notin> ex \<or> map_of m i \<noteq> None \<Longrightarrow>
     \<exists>p. map_of (pending_step ms toISO ex s m prev i n) i = Some p \<and> covers ms p s"
  by (auto simp: covers_def pending_step_def widen_def pending_span_def update_conv split: option.splits)

lemma pending_path_covers:
  "\<forall>t. ms (toISO t) = t \<Longrightarrow> i \<in> fst ` set refs \<Longrightarrow> i \<notin> ex \<or> map_of m i \<noteq> None \<Longrightarrow>
     \<exists>p. map_of (pending_path ms toISO ex s m prev refs) i = Some p \<and> covers ms p s"
proof (induction ms toISO ex s m prev refs rule: pending_path.induct)
  case (1 ms toISO ex s m prev)
  then show ?case by simp
next
  case (2 ms toISO ex s m prev j n rest)
  let ?m = "pending_step ms toISO ex s m prev j n"
  show ?case
  proof (cases "i = j")
    case True
    with 2(4) pending_step_covers [OF 2(2), of i ex m s prev n] obtain p where
      p: "map_of ?m i = Some p" "covers ms p s" by auto
    from pending_path_grows [OF 2(2), of ?m ex s "Some j" rest] p(1) obtain q where
      "map_of (pending_path ms toISO ex s ?m (Some j) rest) i = Some q" "covers ms q p" unfolding grows_def by blast
    with p(2) show ?thesis by (auto simp: covers_def)
  next
    case False
    have "i \<notin> ex \<or> map_of ?m i \<noteq> None"
      using 2(4) pending_step_grows [OF 2(2), of m ex s prev j n] unfolding grows_def by blast
    with 2 False show ?thesis by auto
  qed
qed

lemma enriched_spans:
  assumes "distinct (map spanId spans)" and "\<forall>t. ms (toISO t) = t"
  shows "\<exists>new. enrichSpansWithPending ms toISO spans = filter (\<lambda>s. \<not> is_pending s) spans @ new \<and>
     (\<forall>p\<in>set new. is_pending p) \<and> distinct (map spanId (enrichSpansWithPending ms toISO spans)) \<and>
     (\<forall>s\<in>set spans. \<forall>i\<in>fst ` set (path_refs s). \<exists>p\<in>set (enrichSpansWithPending ms toISO spans). spanId p = i \<and>
        (is_pending p \<longrightarrow> covers ms p s))"
proof -
  let ?ids = "spanId ` set spans"
  define m0 where "m0 = js_map_of spanId (\<lambda>s. s) (filter is_pending spans)"
  define fill where "fill m ss = foldl (\<lambda>m s. pending_path ms toISO ?ids s m None (path_refs s)) m ss" for m ss
  have ok0: "pend_ok spans m0"
  proof -
    have dk: "distinct (map fst m0)" by (simp add: m0_def)
    have "spanId p = i \<and> is_pending p \<and> i \<in> spanId ` set (filter is_pending spans)" if "(i, p) \<in> set m0" for i p
    proof -
      from js_map_of_SomeD [OF map_of_is_SomeI [OF dk that, unfolded m0_def]] show ?thesis by auto
    qed
    with dk show ?thesis unfolding pend_ok_def by blast
  qed
  have ok: "pend_ok spans m \<Longrightarrow> pend_ok spans (fill m ss)" for m ss
    unfolding fill_def by (induction ss arbitrary: m) (auto intro: pending_path_ok)
  have gr: "grows ms m (fill m ss)" for m ss
    unfolding fill_def by (induction ss arbitrary: m) (auto simp: grows_refl intro: grows_trans pending_path_grows [OF assms(2)])
  define m where "m = fill m0 spans"
  have okm: "pend_ok spans m" unfolding m_def by (rule ok [OF ok0])
  have res: "enrichSpansWithPending ms toISO spans = filter (\<lambda>s. \<not> is_pending s) spans @ map snd m"
    by (simp add: enrichSpansWithPending_def Let_def m_def fill_def m0_def)
  have new: "is_pending p" if "p \<in> set (map snd m)" for p using okm that by (auto simp: pend_ok_def)
  have ids: "map spanId (map snd m) = map fst m"
    using okm by (induction m) (auto simp: pend_ok_def)
  have uniq: "is_pending s = is_pending t" if "s \<in> set spans" "t \<in> set spans" "spanId s = spanId t" for s t
    using assms(1) that by (auto simp: distinct_map dest: inj_onD)
  have dis: "distinct (map spanId (enrichSpansWithPending ms toISO spans))"
  proof -
    have "spanId ` set (filter (\<lambda>s. \<not> is_pending s) spans) \<inter> fst ` set m = {}"
    proof (rule ccontr)
      assume "spanId ` set (filter (\<lambda>s. \<not> is_pending s) spans) \<inter> fst ` set m \<noteq> {}"
      then obtain s p where s: "s \<in> set spans" "\<not> is_pending s" "(spanId s, p) \<in> set m" by auto
      with okm have "spanId s \<in> spanId ` set (filter is_pending spans)" by (auto simp: pend_ok_def)
      then obtain t where "t \<in> set spans" "is_pending t" "spanId s = spanId t" by auto
      with uniq [of s t] s show False by simp
    qed
    moreover have "distinct (map fst m)" using okm by (simp add: pend_ok_def)
    ultimately show ?thesis unfolding res map_append ids using assms(1) by (simp add: distinct_map_filter)
  qed
  have cov: "\<exists>p\<in>set (enrichSpansWithPending ms toISO spans). spanId p = i \<and> (is_pending p \<longrightarrow> covers ms p s)"
    if s: "s \<in> set spans" and i: "i \<in> fst ` set (path_refs s)" for s i
  proof (cases "i \<in> ?ids \<and> i \<notin> spanId ` set (filter is_pending spans)")
    case True
    then obtain t where "t \<in> set spans" "spanId t = i" "\<not> is_pending t" by auto
    then show ?thesis unfolding res by auto
  next
    case False
    from s obtain pre post where sp: "spans = pre @ s # post" by (meson split_list)
    let ?m1 = "fill m0 pre"
    have m0i: "i \<in> ?ids \<Longrightarrow> map_of m0 i \<noteq> None" using False by (auto simp: m0_def js_map_of_None_iff)
    have "i \<notin> ?ids \<or> map_of ?m1 i \<noteq> None"
      using m0i gr [of m0 pre] unfolding grows_def by (metis not_None_eq)
    from pending_path_covers [OF assms(2) i this] obtain p where
      p: "map_of (pending_path ms toISO ?ids s ?m1 None (path_refs s)) i = Some p" "covers ms p s" by blast
    have "m = fill (pending_path ms toISO ?ids s ?m1 None (path_refs s)) post"
      unfolding m_def fill_def by (subst (2) sp) simp
    with gr [of "pending_path ms toISO ?ids s ?m1 None (path_refs s)" post] p(1) obtain q where
      q: "map_of m i = Some q" "covers ms q p" unfolding grows_def by metis
    from pend_ok_entry [OF okm q(1)] map_of_SomeD [OF q(1)] have "q \<in> set (map snd m)" "spanId q = i" by force+
    with p(2) q(2) show ?thesis unfolding res by (intro bexI [of _ q]) (auto simp: covers_def)
  qed
  show ?thesis using res new dis cov by blast
qed

text \<open>
  \<open>enrichSpansWithPending\<close> on spans with distinct ids keeps every loaded span that is not
  pending, in order and unchanged, at the front; all ids of the result are distinct; every other span
  of the result is a pending placeholder. For every span with a usable path each id of the path is the
  id of a span of the result, and where that span is a placeholder its time range covers the span's
  (\<open>toISOString\<close> prints a time that parses back to it).
\<close>

lemma pending_ancestors_complete:
  assumes "distinct (map spanId spans)" and "\<forall>t. ms (toISO t) = t"
  shows "\<exists>new. enrichSpansWithPending ms toISO spans = filter (\<lambda>s. \<not> is_pending s) spans @ new \<and>
     (\<forall>p\<in>set new. is_pending p) \<and> distinct (map spanId (enrichSpansWithPending ms toISO spans)) \<and>
     (\<forall>s\<in>set spans. \<forall>i\<in>fst ` set (path_refs s). \<exists>p\<in>set (enrichSpansWithPending ms toISO spans). spanId p = i \<and>
        (is_pending p \<longrightarrow> covers ms p s))"
  using assms by (rule enriched_spans)

text \<open>A clock for concrete runs: times in unary, with a sign.\<close>

definition tally_iso :: "int \<Rightarrow> string" where
  "tally_iso t = (if t < 0 then CHR ''-'' # replicate (nat (- t)) CHR ''x'' else replicate (nat t) CHR ''x'')"

definition tally_ms :: "string \<Rightarrow> int" where
  "tally_ms s = (case s of [] \<Rightarrow> 0 | c # cs \<Rightarrow> if c = CHR ''-'' then - int (length cs) else int (length s))"

lemma tally_roundtrip: "tally_ms (tally_iso t) = t"
proof (cases "t \<le> 0")
  case True
  then show ?thesis by (cases "t = 0") (simp_all add: tally_ms_def tally_iso_def)
next
  case False
  then obtain n where "t = int (Suc n)" by (metis not_le zero_less_imp_eq_int gr0_implies_Suc)
  then show ?thesis by (simp add: tally_ms_def tally_iso_def nat_add_distrib)
qed

definition demo_orphan :: span where
  "demo_orphan = (mk_span ''b'' (Some ''a'') TOOL)\<lparr>startTime := ''x'', endTime := ''xxx'',
     attributes := (\<lambda>k. if k = ''lmnr.span.ids_path'' then Some (AStrs [''a'', ''b''])
       else if k = ''lmnr.span.path'' then Some (AStrs [''root'', ''tool'']) else None)\<rparr>"

lemma pending_ancestors_complete_witness:
  "\<exists>p\<in>set (enrichSpansWithPending tally_ms tally_iso [demo_orphan]). spanId p = ''a''"
proof -
  have "''a'' \<in> fst ` set (path_refs demo_orphan)" by (simp add: path_refs_def demo_orphan_def)
  moreover have "distinct (map spanId [demo_orphan])" by simp
  ultimately show ?thesis using pending_ancestors_complete [of "[demo_orphan]" tally_ms tally_iso] tally_roundtrip
    by (metis list.set_intros(1))
qed

section \<open>A span received in real time\<close>

record realtime_span =
  rs_spanId :: string
  rs_parentSpanId :: "string option"
  rs_traceId :: string
  rs_spanType :: span_type
  rs_name :: string
  rs_startTime :: string
  rs_endTime :: string
  rs_attributes :: attrs
  rs_status :: "string option"

record usage =
  us_inputTokens :: number
  us_outputTokens :: number
  us_cacheReadInputTokens :: number
  us_reasoningTokens :: number
  us_inputCost :: number
  us_outputCost :: number
  us_totalCost :: number
  us_model :: "string option"

definition usage_of :: "realtime_span \<Rightarrow> usage" where
  "usage_of s =
     (let a = rs_attributes s;
          inputCost = attr_num (a ''gen_ai.usage.input_cost'') 0;
          outputCost = attr_num (a ''gen_ai.usage.output_cost'') 0
      in \<lparr>us_inputTokens = attr_num (a ''gen_ai.usage.input_tokens'') 0,
          us_outputTokens = attr_num (a ''gen_ai.usage.output_tokens'') 0,
          us_cacheReadInputTokens = attr_num (a ''gen_ai.usage.cache_read_input_tokens'') 0,
          us_reasoningTokens = attr_num (a ''gen_ai.usage.reasoning_tokens'') 0,
          us_inputCost = inputCost, us_outputCost = outputCost,
          us_totalCost = attr_num (a ''gen_ai.usage.cost'') (inputCost + outputCost),
          us_model = (case attr_str (a ''gen_ai.response.model'') of
            Some m \<Rightarrow> Some m | None \<Rightarrow> attr_str (a ''gen_ai.request.model''))\<rparr>)"

definition shows_browser :: "realtime_span \<Rightarrow> bool" where
  "shows_browser s = (case rs_attributes s ''lmnr.internal.has_browser_session'' of
     None \<Rightarrow> False | Some (ABool b) \<Rightarrow> b | Some (AStr x) \<Rightarrow> x \<noteq> [] | Some (ANum n) \<Rightarrow> n \<noteq> 0
   | Some (AStrs _) \<Rightarrow> True | Some AOther \<Rightarrow> True)"

definition realtime_trace :: "(string \<Rightarrow> int) \<Rightarrow> realtime_span \<Rightarrow> trace_info option \<Rightarrow> trace_info option" where
  "realtime_trace ms s trace = map_option (\<lambda>t. let u = usage_of s in
     t\<lparr>ti_startTime := (if ms (ti_startTime t) < ms (rs_startTime s) then ti_startTime t else rs_startTime s),
       ti_endTime := (if ms (ti_endTime t) > ms (rs_endTime s) then ti_endTime t else rs_endTime s),
       ti_totalTokens := ti_totalTokens t + (us_inputTokens u + us_outputTokens u),
       ti_inputTokens := ti_inputTokens t + us_inputTokens u,
       ti_outputTokens := ti_outputTokens t + us_outputTokens u,
       ti_cacheReadInputTokens := Some (or_zero (ti_cacheReadInputTokens t) + us_cacheReadInputTokens u),
       ti_reasoningTokens := Some (or_zero (ti_reasoningTokens t) + us_reasoningTokens u),
       ti_inputCost := ti_inputCost t + us_inputCost u,
       ti_outputCost := ti_outputCost t + us_outputCost u,
       ti_totalCost := ti_totalCost t + us_totalCost u\<rparr>) trace"

definition realtime_to_span :: "realtime_span \<Rightarrow> bool \<Rightarrow> span" where
  "realtime_to_span s isCollapsed = (let u = usage_of s in
     \<lparr>spanId = rs_spanId s, parentSpanId = rs_parentSpanId s, traceId = rs_traceId s, name = rs_name s,
      startTime = rs_startTime s, endTime = rs_endTime s, attributes = rs_attributes s, spanType = rs_spanType s,
      path = [], events = [], status = rs_status s, model = us_model u, pending = None, collapsed = isCollapsed,
      inputTokens = us_inputTokens u, outputTokens = us_outputTokens u,
      totalTokens = us_inputTokens u + us_outputTokens u,
      cacheReadInputTokens = Some (us_cacheReadInputTokens u), reasoningTokens = Some (us_reasoningTokens u),
      inputCost = us_inputCost u, outputCost = us_outputCost u, totalCost = us_totalCost u,
      aggregatedMetrics = None, inputSnippet = None, outputSnippet = None, attributesSnippet = None\<rparr>)"

text \<open>\<open>findIndex\<close> and the replacement in place, or the new span at the end.\<close>

fun put_span :: "realtime_span \<Rightarrow> span list \<Rightarrow> span list" where
  "put_span s [] = [realtime_to_span s False]"
| "put_span s (t # ts) =
     (if spanId t = rs_spanId s then realtime_to_span s (collapsed t) # ts else t # put_span s ts)"

definition realtime_spans :: "(string \<Rightarrow> int) \<Rightarrow> (int \<Rightarrow> string) \<Rightarrow> realtime_span \<Rightarrow> span list \<Rightarrow> span list option" where
  "realtime_spans ms toISO s spans =
     aggregateSpanMetrics (enrichSpansWithPending ms toISO (sort_key (\<lambda>t. ms (startTime t)) (put_span s spans)))"

definition findSpanToSelect :: "span list \<Rightarrow> string option \<Rightarrow> string option \<Rightarrow> span option" where
  "findSpanToSelect spans i searchSpanId =
     (let urlSpanId = (if truthy i then i else searchSpanId);
          first = (case spans of [] \<Rightarrow> None | s # _ \<Rightarrow> Some s)
      in if truthy urlSpanId
         then (case find (\<lambda>s. Some (spanId s) = urlSpanId) spans of Some s \<Rightarrow> Some s | None \<Rightarrow> first)
         else first)"

definition getSpanDisplayName :: "span \<Rightarrow> string" where
  "getSpanDisplayName s = (if is_llm s \<and> truthy (model s) then the (model s) else name s)"

record llm_metrics =
  lm_inputTokens :: number
  lm_outputTokens :: number
  lm_cost :: number
  lm_cacheReadInputTokens :: "number option"
  lm_reasoningTokens :: "number option"

definition getLLMMetrics :: "span \<Rightarrow> llm_metrics option" where
  "getLLMMetrics s =
     (if (case aggregatedMetrics s of None \<Rightarrow> False | Some a \<Rightarrow> am_hasLLMDescendants a)
      then (let a = the (aggregatedMetrics s)
            in Some \<lparr>lm_inputTokens = am_inputTokens a, lm_outputTokens = am_outputTokens a, lm_cost = am_totalCost a,
                 lm_cacheReadInputTokens = am_cacheReadInputTokens a, lm_reasoningTokens = am_reasoningTokens a\<rparr>)
      else if spanType s \<noteq> LLM then None
      else let cost = (if totalCost s \<noteq> 0 then totalCost s else inputCost s + outputCost s)
           in if cost = 0 \<and> inputTokens s = 0 \<and> outputTokens s = 0 then None
              else Some \<lparr>lm_inputTokens = inputTokens s, lm_outputTokens = outputTokens s, lm_cost = cost,
                lm_cacheReadInputTokens = Some (or_zero (cacheReadInputTokens s)),
                lm_reasoningTokens = Some (or_zero (reasoningTokens s))\<rparr>)"

lemma put_span_ids: "spanId ` set (put_span s ts) = insert (rs_spanId s) (spanId ` set ts)"
  by (induction ts) (auto simp: realtime_to_span_def Let_def)

lemma put_span_distinct: "distinct (map spanId ts) \<Longrightarrow> distinct (map spanId (put_span s ts))"
proof (induction ts)
  case Nil
  then show ?case by simp
next
  case (Cons t ts)
  then show ?case using put_span_ids [of s ts] by (auto simp: realtime_to_span_def Let_def)
qed

lemma put_span_new:
  "distinct (map spanId ts) \<Longrightarrow> \<exists>c. realtime_to_span s c \<in> set (put_span s ts) \<and>
     (\<forall>t\<in>set ts. spanId t = rs_spanId s \<longrightarrow> c = collapsed t)"
proof (induction ts)
  case Nil
  then show ?case by auto
next
  case (Cons t ts)
  show ?case
  proof (cases "spanId t = rs_spanId s")
    case True
    with Cons.prems have "spanId u \<noteq> rs_spanId s" if "u \<in> set ts" for u using that by force
    with True show ?thesis by (intro exI [of _ "collapsed t"]) auto
  next
    case False
    with Cons show ?thesis by auto
  qed
qed

lemma put_span_old: "t \<in> set ts \<Longrightarrow> spanId t \<noteq> rs_spanId s \<Longrightarrow> t \<in> set (put_span s ts)"
  by (induction ts) auto

text \<open>A span up to its aggregated metrics.\<close>

definition core :: "span \<Rightarrow> span" where
  "core s = s\<lparr>aggregatedMetrics := None\<rparr>"

lemma core_with_metrics [simp]: "core (with_metrics m s) = core s"
  by (simp add: core_def with_metrics_def)

lemma aggregate_core:
  assumes "distinct (map spanId spans)" and "rooted spans"
  shows "\<exists>ss. aggregateSpanMetrics spans = Some ss \<and> map core ss = map core spans"
  using aggregated_metrics_are_leaf_sums_core [OF assms] by (auto simp: o_def intro!: map_cong split: option.splits)

text \<open>
  When a span arrives in real time the list afterwards has distinct ids, contains the
  received span (keeping the collapsed flag of the span it replaces, and no longer pending), and every
  loaded span of another id that is not pending is still there unchanged; only aggregated metrics are
  recomputed. The spans that are not pending stay ordered by start time.
\<close>

lemma realtime_update_spans:
  assumes "distinct (map spanId spans)" and "\<forall>t. ms (toISO t) = t"
    and "rooted (enrichSpansWithPending ms toISO (sort_key (\<lambda>t. ms (startTime t)) (put_span s spans)))"
  shows "\<exists>ss. realtime_spans ms toISO s spans = Some ss \<and> distinct (map spanId ss) \<and>
     (\<exists>t\<in>set ss. \<exists>c. core t = realtime_to_span s c \<and> (\<forall>u\<in>set spans. spanId u = rs_spanId s \<longrightarrow> c = collapsed u)) \<and>
     (\<forall>u\<in>set spans. spanId u \<noteq> rs_spanId s \<longrightarrow> \<not> is_pending u \<longrightarrow> (\<exists>t\<in>set ss. core t = core u)) \<and>
     sorted (map (\<lambda>t. ms (startTime t)) (filter (\<lambda>t. \<not> is_pending t) ss))"
proof -
  let ?key = "\<lambda>t. ms (startTime t)"
  let ?sorted = "sort_key ?key (put_span s spans)"
  let ?en = "enrichSpansWithPending ms toISO ?sorted"
  have "distinct (map spanId (put_span s spans))" using assms(1) by (rule put_span_distinct)
  then have ds: "distinct (map spanId ?sorted)" by simp
  from enriched_spans [OF ds assms(2)] obtain new where
    en: "?en = filter (\<lambda>s. \<not> is_pending s) ?sorted @ new" "\<forall>p\<in>set new. is_pending p" "distinct (map spanId ?en)" by blast
  from aggregate_core [OF en(3) assms(3)] obtain ss where
    ss: "aggregateSpanMetrics ?en = Some ss" "map core ss = map core ?en" by blast
  have sel: "spanId (core t) = spanId t" "pending (core t) = pending t" "startTime (core t) = startTime t" for t
    by (simp_all add: core_def)
  have mem: "\<exists>t\<in>set ss. core t = core u" if "u \<in> set ?en" for u
    using arg_cong [OF ss(2), of set] that by (metis imageE image_eqI set_map)
  have "distinct (map spanId ss)"
  proof -
    have "map spanId ss = map (\<lambda>t. spanId (core t)) ss" by (simp add: sel)
    also have "\<dots> = map spanId (map core ss)" by simp
    also have "\<dots> = map spanId ?en" unfolding ss(2) by (simp add: sel)
    finally show ?thesis using en(3) by simp
  qed
  moreover have "\<exists>t\<in>set ss. \<exists>c. core t = realtime_to_span s c \<and> (\<forall>u\<in>set spans. spanId u = rs_spanId s \<longrightarrow> c = collapsed u)"
  proof -
    from put_span_new [OF assms(1), of s] obtain c where c: "realtime_to_span s c \<in> set (put_span s spans)"
      "\<forall>u\<in>set spans. spanId u = rs_spanId s \<longrightarrow> c = collapsed u" by blast
    then have "realtime_to_span s c \<in> set ?en" unfolding en(1) by (simp add: realtime_to_span_def Let_def)
    from mem [OF this] obtain t where "t \<in> set ss" "core t = core (realtime_to_span s c)" by blast
    moreover have "core (realtime_to_span s c) = realtime_to_span s c" by (simp add: core_def realtime_to_span_def Let_def)
    ultimately show ?thesis using c(2) by auto
  qed
  moreover have "\<exists>t\<in>set ss. core t = core u" if "u \<in> set spans" "spanId u \<noteq> rs_spanId s" "\<not> is_pending u" for u
    by (rule mem) (use put_span_old [OF that(1,2)] that(3) in \<open>simp add: en(1)\<close>)
  moreover have "sorted (map ?key (filter (\<lambda>t. \<not> is_pending t) ss))"
  proof -
    have "map ?key (filter (\<lambda>t. \<not> is_pending t) xs) = map ?key (filter (\<lambda>t. \<not> is_pending t) (map core xs))" for xs
      by (induction xs) (simp_all add: sel)
    then have "map ?key (filter (\<lambda>t. \<not> is_pending t) ss) = map ?key (filter (\<lambda>t. \<not> is_pending t) ?en)"
      by (metis ss(2))
    also have "filter (\<lambda>t. \<not> is_pending t) ?en = filter (\<lambda>t. \<not> is_pending t) ?sorted"
      using en(2) unfolding en(1) by (simp add: filter_empty_conv)
    finally show ?thesis by (simp add: sorted_filter)
  qed
  ultimately show ?thesis using ss(1) by (intro exI [of _ ss]) (auto simp: realtime_spans_def)
qed

definition demo_live :: realtime_span where
  "demo_live = \<lparr>rs_spanId = ''a'', rs_parentSpanId = None, rs_traceId = [], rs_spanType = LLM, rs_name = [],
     rs_startTime = ''x'', rs_endTime = ''xx'', rs_attributes = (\<lambda>_. None), rs_status = None\<rparr>"

lemma realtime_update_spans_witness:
  "\<exists>ss. realtime_spans tally_ms tally_iso demo_live [] = Some ss \<and> (\<exists>t\<in>set ss. \<exists>c. core t = realtime_to_span demo_live c)"
proof -
  have "enrichSpansWithPending tally_ms tally_iso (sort_key (\<lambda>t. tally_ms (startTime t)) (put_span demo_live [])) = [realtime_to_span demo_live False]"
    by (simp add: enrichSpansWithPending_def path_refs_def realtime_to_span_def demo_live_def js_map_of_def Let_def)
  moreover have "rooted [realtime_to_span demo_live False]"
    by (rule rootedI [where rank = "\<lambda>_. 0"]) (simp add: realtime_to_span_def demo_live_def Let_def)
  ultimately have "rooted (enrichSpansWithPending tally_ms tally_iso (sort_key (\<lambda>t. tally_ms (startTime t)) (put_span demo_live [])))"
    by simp
  from realtime_update_spans [OF _ _ this] tally_roundtrip show ?thesis by auto
qed

end
