(* ===== verification/TraceStore.thy ===== *)
theory TraceStore
  imports PathInfo Transcript CondensedTimeline
begin

text \<open>
  The store of the trace view, \<open>components/traces/trace-view/store/base.ts\<close>
  (\<open>createBaseTraceViewSlice\<close>): its state, one function per action, the derived data, and the store
  as a state machine over its actions. A \<open>Set\<close> in the state is a set; \<open>set({...})\<close> is a record
  update; an action given a function instead of a value takes the function.
\<close>

section \<open>State\<close>

definition MAX_ZOOM :: number where "MAX_ZOOM = 25"

definition MIN_ZOOM :: number where "MIN_ZOOM = 1"

datatype view_tab = Tree | TranscriptTab

record signal_node =
  sg_id :: string
  sg_name :: string
  sg_level :: number

record signal_event =
  se_id :: string
  se_signalId :: string
  se_traceId :: string
  se_payload :: string
  se_timestamp :: string
  se_severity :: number
  se_leafCluster :: "signal_node option"

record trace_signal =
  si_signalId :: string
  si_signalName :: string
  si_prompt :: string
  si_leafCluster :: "signal_node option"
  si_schemaFields :: "(string \<times> string \<times> string option) list"
  si_events :: "signal_event list"

record trace_view =
  tv_trace :: "trace_info option"
  tv_isTraceLoading :: bool
  tv_traceError :: "string option"
  tv_spans :: "span list"
  tv_isSpansLoading :: bool
  tv_spansError :: "string option"
  tv_selectedSpan :: "span option"
  tv_browserSession :: bool
  tv_langGraph :: bool
  tv_sessionTime :: "number option"
  tv_sessionStartTime :: "number option"
  tv_tab :: view_tab
  tv_hasBrowserSession :: bool
  tv_showTreeContent :: bool
  tv_condensedTimelineEnabled :: bool
  tv_visibleSpanIds :: "string set"
  tv_zoom :: number
  tv_isCostHeatmapVisible :: bool
  tv_scrollStartTime :: "number option"
  tv_scrollEndTime :: "number option"
  tv_spanPanelOpen :: bool
  tv_tracesAgentOpen :: bool
  tv_signalsPanelOpen :: bool
  tv_traceSignals :: "trace_signal list"
  tv_isTraceSignalsLoading :: bool
  tv_activeSignalTabId :: "string option"
  tv_initialSignalId :: "string option"
  tv_initialSearch :: string
  tv_pendingChatInjection :: "(string \<times> string) option"
  tv_isAlwaysSelectSpan :: bool
  tv_expandedGroups :: "string set"
  tv_scrollToGroupId :: "string option"

record store_options =
  op_initialTrace :: "trace_info option"
  op_isAlwaysSelectSpan :: bool
  op_initialSignalId :: "string option"
  op_initialChatOpen :: bool
  op_initialSearch :: string

definition init_view :: "store_options \<Rightarrow> trace_view" where
  "init_view o' =
     (let browser = (case op_initialTrace o' of None \<Rightarrow> False | Some t \<Rightarrow> ti_hasBrowserSession t)
      in \<lparr>tv_trace = op_initialTrace o', tv_isTraceLoading = False, tv_traceError = None, tv_spans = [],
          tv_isSpansLoading = False, tv_spansError = None, tv_selectedSpan = None, tv_browserSession = browser,
          tv_langGraph = False, tv_sessionTime = None, tv_sessionStartTime = None, tv_tab = TranscriptTab,
          tv_hasBrowserSession = browser, tv_showTreeContent = True, tv_condensedTimelineEnabled = True,
          tv_visibleSpanIds = {}, tv_zoom = 1, tv_isCostHeatmapVisible = False, tv_scrollStartTime = None,
          tv_scrollEndTime = None, tv_spanPanelOpen = False, tv_tracesAgentOpen = op_initialChatOpen o',
          tv_signalsPanelOpen = False, tv_traceSignals = [], tv_isTraceSignalsLoading = False,
          tv_activeSignalTabId = None, tv_initialSignalId = op_initialSignalId o', tv_initialSearch = op_initialSearch o',
          tv_pendingChatInjection = None, tv_isAlwaysSelectSpan = op_isAlwaysSelectSpan o', tv_expandedGroups = {},
          tv_scrollToGroupId = None\<rparr>)"

section \<open>Actions\<close>

definition setTrace :: "(trace_info option \<Rightarrow> trace_info option) \<Rightarrow> trace_view \<Rightarrow> trace_view" where
  "setTrace f st = st\<lparr>tv_trace := f (tv_trace st)\<rparr>"

definition updateTraceVisibility :: "string \<Rightarrow> trace_view \<Rightarrow> trace_view" where
  "updateTraceVisibility v st = setTrace (map_option (\<lambda>t. t\<lparr>ti_visibility := v\<rparr>)) st"

text \<open>\<open>setSpans\<close> with a list resets the collapsed flags, with a function it does not.\<close>

definition setSpans :: "span list \<Rightarrow> trace_view \<Rightarrow> trace_view" where
  "setSpans spans st = st\<lparr>tv_spans := map (\<lambda>s. s\<lparr>collapsed := False\<rparr>) spans\<rparr>"

definition setSpansWith :: "(span list \<Rightarrow> span list) \<Rightarrow> trace_view \<Rightarrow> trace_view" where
  "setSpansWith f st = st\<lparr>tv_spans := f (tv_spans st)\<rparr>"

definition toggleTranscriptGroup :: "string \<Rightarrow> trace_view \<Rightarrow> trace_view" where
  "toggleTranscriptGroup g st = st\<lparr>tv_expandedGroups :=
     (if g \<in> tv_expandedGroups st then tv_expandedGroups st - {g} else insert g (tv_expandedGroups st))\<rparr>"

definition consumeScrollToGroup :: "trace_view \<Rightarrow> trace_view" where
  "consumeScrollToGroup st = (if tv_scrollToGroupId st \<noteq> None then st\<lparr>tv_scrollToGroupId := None\<rparr> else st)"

definition setSelectedSpan :: "span option \<Rightarrow> trace_view \<Rightarrow> trace_view" where
  "setSelectedSpan s st = st\<lparr>tv_selectedSpan := s, tv_spanPanelOpen := (s \<noteq> None)\<rparr>"

text \<open>\<open>selectSpanById\<close>; \<open>None\<close> when the walk to the root does not end. The walk starts at the
  parent id of the first span with the id.\<close>

definition ancestor_ids :: "span list \<Rightarrow> span \<Rightarrow> string list option" where
  "ancestor_ids spans s =
     (if truthy (parentSpanId s)
      then map_option ((#) (the (parentSpanId s))) (walk_up (spanMap spans) (the (parentSpanId s)))
      else Some [])"

definition uncollapse :: "string set \<Rightarrow> span list \<Rightarrow> span list" where
  "uncollapse ids spans = map (\<lambda>s. if spanId s \<in> ids \<and> collapsed s then s\<lparr>collapsed := False\<rparr> else s) spans"

definition selectSpanById :: "string \<Rightarrow> trace_view \<Rightarrow> trace_view option" where
  "selectSpanById i st =
     (case find (\<lambda>s. spanId s = i) (tv_spans st) of
        None \<Rightarrow> Some st
      | Some s \<Rightarrow>
          if is_pending s then Some st
          else (case ancestor_ids (tv_spans st) s of
                  None \<Rightarrow> None
                | Some ids \<Rightarrow>
                    let st1 = (if ids \<noteq> [] then setSpansWith (uncollapse (set ids)) st else st)
                    in Some (setSelectedSpan (Some s) st1)))"

definition incrementSessionTime :: "number \<Rightarrow> number \<Rightarrow> trace_view \<Rightarrow> bool \<times> trace_view" where
  "incrementSessionTime increment maxTime st =
     (let currentTime = (case tv_sessionTime st of None \<Rightarrow> 0 | Some t \<Rightarrow> t);
          newTime = min (currentTime + increment) maxTime
      in (newTime \<ge> maxTime, st\<lparr>tv_sessionTime := Some newTime\<rparr>))"

definition clamp :: "number \<Rightarrow> number \<Rightarrow> number \<Rightarrow> number" where
  "clamp x lo hi = (let y = (if x \<le> hi then x else hi) in if y \<ge> lo then y else lo)"

definition setCondensedTimelineZoom :: "number \<Rightarrow> trace_view \<Rightarrow> trace_view" where
  "setCondensedTimelineZoom z st = st\<lparr>tv_zoom := clamp z MIN_ZOOM MAX_ZOOM\<rparr>"

definition toggleCollapse :: "string \<Rightarrow> trace_view \<Rightarrow> trace_view" where
  "toggleCollapse i st = setSpansWith (map (\<lambda>s. if spanId s = i then s\<lparr>collapsed := \<not> collapsed s\<rparr> else s)) st"

definition openSignalInChat :: "string \<Rightarrow> string \<Rightarrow> trace_view \<Rightarrow> trace_view" where
  "openSignalInChat d p st = st\<lparr>tv_tracesAgentOpen := True, tv_pendingChatInjection := Some (d, p)\<rparr>"

definition consumePendingChatInjection :: "trace_view \<Rightarrow> (string \<times> string) option \<times> trace_view" where
  "consumePendingChatInjection st =
     (let p = tv_pendingChatInjection st in (p, if p \<noteq> None then st\<lparr>tv_pendingChatInjection := None\<rparr> else st))"

section \<open>Derived data\<close>

definition getTreeSpans :: "trace_view \<Rightarrow> tree_row list option" where
  "getTreeSpans st =
     (let filteredSpans = (if tv_visibleSpanIds st = {} then tv_spans st
                           else filter (\<lambda>s. spanId s \<in> tv_visibleSpanIds st) (tv_spans st))
      in case computePathInfoMap filteredSpans of
           None \<Rightarrow> None
         | Some m \<Rightarrow> transformSpansToTree filteredSpans (map_of m))"

definition getTranscriptListData :: "(string \<Rightarrow> 'c::linorder) \<Rightarrow> trace_view \<Rightarrow> entry list" where
  "getTranscriptListData ck st = buildTranscriptListEntries ck (tv_spans st) (tv_visibleSpanIds st)"

definition getCondensedSubagentGroups :: "(string \<Rightarrow> 'c::linorder) \<Rightarrow> trace_view \<Rightarrow> (string \<times> string list) list" where
  "getCondensedSubagentGroups ck st = computeSubagentGroups ck (tv_spans st)"

definition getCondensedTimelineData :: "(string \<Rightarrow> int) \<Rightarrow> trace_view \<Rightarrow> timeline_data option" where
  "getCondensedTimelineData ms st = transformSpansToCondensedTimeline ms (tv_spans st)"

definition selectMaxSpanCost :: "trace_view \<Rightarrow> number" where
  "selectMaxSpanCost st = foldl (\<lambda>m s. if totalCost s > m then totalCost s else m) 0 (tv_spans st)"

definition getHasLangGraph :: "trace_view \<Rightarrow> bool" where
  "getHasLangGraph st = (find (\<lambda>s. attributes s ''lmnr.association.properties.langgraph.nodes'' \<noteq> None \<and>
     attributes s ''lmnr.association.properties.langgraph.edges'' \<noteq> None) (tv_spans st) \<noteq> None)"

section \<open>The store as a state machine\<close>

datatype view_event =
    SetHasBrowserSession bool
  | SetTrace "trace_info option \<Rightarrow> trace_info option"
  | SetTraceError "string option"
  | SetSpansError "string option"
  | UpdateTraceVisibility string
  | SetSpans "span list"
  | SetSpansWith "span list \<Rightarrow> span list"
  | ToggleTranscriptGroup string
  | RequestScrollToGroup string
  | ConsumeScrollToGroup
  | SetSelectedSpan "span option"
  | SelectSpanById string
  | SetSessionTime "number option"
  | SetSessionStartTime "number option"
  | SetIsTraceLoading bool
  | SetIsSpansLoading bool
  | SetLangGraph bool
  | SetTab view_tab
  | IncrementSessionTime number number
  | SetShowTreeContent bool
  | SetCondensedTimelineEnabled bool
  | SetVisibleSpanIds "string set"
  | ClearTimelineSelection
  | SetZoom number
  | SetIsCostHeatmapVisible bool
  | SetScrollTimeRange "number option" "number option"
  | SetBrowserSession bool
  | ToggleCollapse string
  | SetSpanPanelOpen bool
  | SetTracesAgentOpen bool
  | SetSignalsPanelOpen bool
  | SetTraceSignals "trace_signal list"
  | SetIsTraceSignalsLoading bool
  | SetActiveSignalTabId "string option"
  | OpenSignalInChat string string
  | ConsumePendingChatInjection

fun view_action :: "view_event \<Rightarrow> trace_view \<Rightarrow> trace_view option" where
  "view_action (SetHasBrowserSession b) st = Some (st\<lparr>tv_hasBrowserSession := b\<rparr>)"
| "view_action (SetTrace f) st = Some (setTrace f st)"
| "view_action (SetTraceError e) st = Some (st\<lparr>tv_traceError := e\<rparr>)"
| "view_action (SetSpansError e) st = Some (st\<lparr>tv_spansError := e\<rparr>)"
| "view_action (UpdateTraceVisibility v) st = Some (updateTraceVisibility v st)"
| "view_action (SetSpans ss) st = Some (setSpans ss st)"
| "view_action (SetSpansWith f) st = Some (setSpansWith f st)"
| "view_action (ToggleTranscriptGroup g) st = Some (toggleTranscriptGroup g st)"
| "view_action (RequestScrollToGroup g) st = Some (st\<lparr>tv_scrollToGroupId := Some g\<rparr>)"
| "view_action ConsumeScrollToGroup st = Some (consumeScrollToGroup st)"
| "view_action (SetSelectedSpan s) st = Some (setSelectedSpan s st)"
| "view_action (SelectSpanById i) st = selectSpanById i st"
| "view_action (SetSessionTime t) st = Some (st\<lparr>tv_sessionTime := t\<rparr>)"
| "view_action (SetSessionStartTime t) st = Some (st\<lparr>tv_sessionStartTime := t\<rparr>)"
| "view_action (SetIsTraceLoading b) st = Some (st\<lparr>tv_isTraceLoading := b\<rparr>)"
| "view_action (SetIsSpansLoading b) st = Some (st\<lparr>tv_isSpansLoading := b\<rparr>)"
| "view_action (SetLangGraph b) st = Some (st\<lparr>tv_langGraph := b\<rparr>)"
| "view_action (SetTab t) st = Some (st\<lparr>tv_tab := t\<rparr>)"
| "view_action (IncrementSessionTime i m) st = Some (snd (incrementSessionTime i m st))"
| "view_action (SetShowTreeContent b) st = Some (st\<lparr>tv_showTreeContent := b\<rparr>)"
| "view_action (SetCondensedTimelineEnabled b) st = Some (st\<lparr>tv_condensedTimelineEnabled := b\<rparr>)"
| "view_action (SetVisibleSpanIds ids) st = Some (st\<lparr>tv_visibleSpanIds := ids\<rparr>)"
| "view_action ClearTimelineSelection st = Some (st\<lparr>tv_visibleSpanIds := {}\<rparr>)"
| "view_action (SetZoom z) st = Some (setCondensedTimelineZoom z st)"
| "view_action (SetIsCostHeatmapVisible b) st = Some (st\<lparr>tv_isCostHeatmapVisible := b\<rparr>)"
| "view_action (SetScrollTimeRange a b) st = Some (st\<lparr>tv_scrollStartTime := a, tv_scrollEndTime := b\<rparr>)"
| "view_action (SetBrowserSession b) st = Some (st\<lparr>tv_browserSession := b\<rparr>)"
| "view_action (ToggleCollapse i) st = Some (toggleCollapse i st)"
| "view_action (SetSpanPanelOpen b) st = Some (st\<lparr>tv_spanPanelOpen := b\<rparr>)"
| "view_action (SetTracesAgentOpen b) st = Some (st\<lparr>tv_tracesAgentOpen := b\<rparr>)"
| "view_action (SetSignalsPanelOpen b) st = Some (st\<lparr>tv_signalsPanelOpen := b\<rparr>)"
| "view_action (SetTraceSignals ss) st = Some (st\<lparr>tv_traceSignals := ss\<rparr>)"
| "view_action (SetIsTraceSignalsLoading b) st = Some (st\<lparr>tv_isTraceSignalsLoading := b\<rparr>)"
| "view_action (SetActiveSignalTabId i) st = Some (st\<lparr>tv_activeSignalTabId := i\<rparr>)"
| "view_action (OpenSignalInChat d p) st = Some (openSignalInChat d p st)"
| "view_action ConsumePendingChatInjection st = Some (snd (consumePendingChatInjection st))"

definition view_step :: "trace_view \<Rightarrow> view_event \<Rightarrow> trace_view \<Rightarrow> bool" where
  "view_step st e st' \<longleftrightarrow> view_action e st = Some st'"

lemmas view_defs = setTrace_def updateTraceVisibility_def setSpans_def setSpansWith_def toggleTranscriptGroup_def
  consumeScrollToGroup_def setSelectedSpan_def selectSpanById_def incrementSessionTime_def clamp_def
  setCondensedTimelineZoom_def toggleCollapse_def openSignalInChat_def consumePendingChatInjection_def Let_def

definition view_inv :: "store_options \<Rightarrow> trace_view \<Rightarrow> bool" where
  "view_inv o' st \<longleftrightarrow> MIN_ZOOM \<le> tv_zoom st \<and> tv_zoom st \<le> MAX_ZOOM \<and>
     tv_isAlwaysSelectSpan st = op_isAlwaysSelectSpan o' \<and> tv_initialSignalId st = op_initialSignalId o' \<and>
     tv_initialSearch st = op_initialSearch o'"

lemma view_inv_step: "view_inv o' st \<Longrightarrow> view_step st e st' \<Longrightarrow> view_inv o' st'"
  unfolding view_step_def
  by (cases e) (auto simp: view_inv_def view_defs MIN_ZOOM_def MAX_ZOOM_def split: option.splits if_splits)

lemma view_inv_init: "view_inv o' (init_view o')"
  by (simp add: view_inv_def init_view_def MIN_ZOOM_def MAX_ZOOM_def Let_def)

interpretation view_machine: invariant_of "init_view o'" view_step "view_inv o'"
  by unfold_locales (rule view_inv_init, erule (1) view_inv_step)

text \<open>
  Whatever sequence of actions the view runs, the zoom of the condensed timeline stays
  between 1 and 25, and the options given at creation (the layout mode, the initial signal and the
  initial search) never change.
\<close>

lemma zoom_and_options_invariant:
  assumes "reach (init_view o') view_step st"
  shows "1 \<le> tv_zoom st \<and> tv_zoom st \<le> 25 \<and> tv_isAlwaysSelectSpan st = op_isAlwaysSelectSpan o' \<and>
     tv_initialSignalId st = op_initialSignalId o' \<and> tv_initialSearch st = op_initialSearch o'"
  using view_machine.inv_reach [OF assms] by (simp add: view_inv_def MIN_ZOOM_def MAX_ZOOM_def)

definition demo_options :: store_options where
  "demo_options = \<lparr>op_initialTrace = None, op_isAlwaysSelectSpan = True, op_initialSignalId = None,
     op_initialChatOpen = False, op_initialSearch = []\<rparr>"

lemma zoom_and_options_invariant_witness:
  "tv_zoom (setCondensedTimelineZoom 40 (init_view demo_options)) \<le> 25"
proof -
  have "reach (init_view demo_options) view_step (setCondensedTimelineZoom 40 (init_view demo_options))"
    by (rule reach_step [OF reach_init, where e = "SetZoom 40"]) (simp add: view_step_def)
  from zoom_and_options_invariant [OF this] show ?thesis by blast
qed

section \<open>Selecting a span\<close>

definition unfold_span :: "string set \<Rightarrow> span \<Rightarrow> span" where
  "unfold_span ids s = (if spanId s \<in> ids \<and> collapsed s then s\<lparr>collapsed := False\<rparr> else s)"

lemma uncollapse_map: "uncollapse ids spans = map (unfold_span ids) spans"
  by (simp add: uncollapse_def unfold_span_def)

lemma unfold_span_sel [simp]:
  "spanId (unfold_span ids s) = spanId s" "parentSpanId (unfold_span ids s) = parentSpanId s"
  "collapsed (unfold_span ids s) \<longleftrightarrow> collapsed s \<and> spanId s \<notin> ids"
  by (auto simp: unfold_span_def)

lemma unfold_span_none [simp]: "map (unfold_span {}) spans = spans"
  by (induction spans) (simp_all add: unfold_span_def)

lemma spanMap_map:
  assumes "\<And>s. spanId (f s) = spanId s"
  shows "map_of (spanMap (map f spans)) i = map_option f (map_of (spanMap spans) i)"
proof -
  have "spanMap (map f spans) = js_map_of spanId f spans"
    using assms by (simp add: spanMap_def js_map_of_def foldl_map)
  then show ?thesis using js_map_of_map [of spanId f spans i] by (simp only: spanMap_def)
qed

lemma rooted_unfold: "rooted spans \<Longrightarrow> rooted (map (unfold_span ids) spans)"
proof -
  have "parent_of (spanMap (map (unfold_span ids) spans)) i = parent_of (spanMap spans) i" for i
    by (simp add: parent_of_def spanMap_map split: option.splits)
  then show "rooted spans \<Longrightarrow> rooted (map (unfold_span ids) spans)" by (simp add: rooted_def)
qed

lemma descent_walk:
  assumes "distinct (map spanId spans)"
  shows "descent spans anc s \<Longrightarrow> walk_up (spanMap spans) (spanId s) = Some (map spanId anc)"
proof (induction rule: descent.induct)
  case (descent_root s)
  then have "parent_of (spanMap spans) (spanId s) = None"
    using spanMap_distinct [OF assms, of s] by (auto simp: parent_of_def topLevelSpans_def)
  then show ?case by (simp add: walk_up_None_step)
next
  case (descent_kid anc p c)
  then have "parent_of (spanMap spans) (spanId c) = Some (spanId p)"
    using spanMap_distinct [OF assms, of c] by (auto simp: parent_of_def)
  with descent_kid.IH show ?case by (simp add: walk_up_Some_step)
qed

lemma descent_ancestor_ids:
  assumes "distinct (map spanId spans)" and "descent spans anc s"
  shows "ancestor_ids spans s = Some (map spanId anc)"
  using assms(2)
proof (cases rule: descent.cases)
  case descent_root
  then show ?thesis by (simp add: ancestor_ids_def topLevelSpans_def)
next
  case (descent_kid anc' p)
  with descent_walk [OF assms(1), of anc' p] show ?thesis by (auto simp: ancestor_ids_def)
qed

lemma descent_shown:
  "descent spans anc s \<Longrightarrow> spanId ` set anc \<subseteq> ids \<Longrightarrow> shown (map (unfold_span ids) spans) (unfold_span ids s)"
proof (induction rule: descent.induct)
  case (descent_root s)
  then show ?case by (intro shown_root) (auto simp: topLevelSpans_def)
next
  case (descent_kid anc p c)
  have p: "shown (map (unfold_span ids) spans) (unfold_span ids p)" and "\<not> collapsed (unfold_span ids p)"
    using descent_kid.IH descent_kid.prems by auto
  from shown_kid [OF this] show ?case using descent_kid.hyps by simp
qed

text \<open>
  Selecting a span by its id works: if the loaded span hangs from a root and is not
  pending, the action returns, the span is selected and its panel open; its ancestors are opened and
  no other span changes, so that, when no timeline selection filters the tree, the tree that is then
  computed has a row for the span.
\<close>

lemma selected_span_is_in_tree:
  assumes "distinct (map spanId (tv_spans st))" and "rooted (tv_spans st)" and "tv_visibleSpanIds st = {}"
    and "descent (tv_spans st) anc s" and "\<not> is_pending s"
  shows "\<exists>st' rows. selectSpanById (spanId s) st = Some st' \<and> tv_selectedSpan st' = Some s \<and> tv_spanPanelOpen st' \<and>
     tv_spans st' = map (\<lambda>t. if spanId t \<in> spanId ` set anc then t\<lparr>collapsed := False\<rparr> else t) (tv_spans st) \<and>
     getTreeSpans st' = Some rows \<and> spanId s \<in> (\<lambda>r. spanId (row_span r)) ` set rows"
proof -
  let ?ids = "spanId ` set anc"
  let ?f = "unfold_span ?ids"
  have s: "s \<in> set (tv_spans st)" using descent_in_spans [OF assms(4)] by auto
  have "find (\<lambda>t. spanId t = spanId s) (tv_spans st) = Some s" by (rule find_distinct [OF assms(1) s])
  moreover have f: "map ?f (tv_spans st) = map (\<lambda>t. if spanId t \<in> ?ids then t\<lparr>collapsed := False\<rparr> else t) (tv_spans st)"
    by (simp add: unfold_span_def)
  moreover have "anc = [] \<Longrightarrow> map ?f (tv_spans st) = tv_spans st" by simp
  moreover note descent_ancestor_ids [OF assms(1,4)]
  ultimately obtain st' where st': "selectSpanById (spanId s) st = Some st'" "tv_selectedSpan st' = Some s"
    "tv_spanPanelOpen st'" "tv_spans st' = map ?f (tv_spans st)" "tv_visibleSpanIds st' = {}"
    using assms(3,5) by (cases "anc = []")
      (auto simp: selectSpanById_def setSelectedSpan_def setSpansWith_def uncollapse_map Let_def)
  have d: "distinct (map spanId (tv_spans st'))" using assms(1) by (simp add: st' o_def)
  from computePathInfoMap_eq [OF rooted_unfold [OF assms(2)], of ?ids] obtain m where
    m: "computePathInfoMap (tv_spans st') = Some m" by (auto simp: st')
  from tree_rows_shown [OF d, of "map_of m"] obtain rows where
    rows: "transformSpansToTree (tv_spans st') (map_of m) = Some rows" "set (map row_span rows) = {s. shown (tv_spans st') s}" by blast
  have "?f s \<in> set (map row_span rows)"
    unfolding rows(2) using descent_shown [OF assms(4), of ?ids] by (simp add: st')
  then obtain r where "r \<in> set rows" "row_span r = ?f s" by auto
  then have "spanId s \<in> (\<lambda>r. spanId (row_span r)) ` set rows" by (intro image_eqI [of _ _ r]) simp_all
  moreover have "getTreeSpans st' = Some rows" by (simp add: getTreeSpans_def st'(5) m rows(1))
  ultimately show ?thesis using st' f by auto
qed

lemma selected_span_is_in_tree_witness:
  "\<exists>st'. selectSpanById ''b'' ((init_view demo_options)\<lparr>tv_spans := [(mk_span ''a'' None LLM)\<lparr>collapsed := True\<rparr>, mk_span ''b'' (Some ''a'') TOOL]\<rparr>)
     = Some st' \<and> tv_spanPanelOpen st'"
proof -
  let ?a = "(mk_span ''a'' None LLM)\<lparr>collapsed := True\<rparr>" and ?b = "mk_span ''b'' (Some ''a'') TOOL"
  let ?st = "(init_view demo_options)\<lparr>tv_spans := [?a, ?b]\<rparr>"
  have sel: "spanId ?a = ''a''" "parentSpanId ?a = None" by (simp_all add: mk_span_def)
  have "rooted [?a, ?b]"
    by (rule rootedI [where rank = "\<lambda>i. if i = ''b'' then 1 else 0"]) (auto simp: sel)
  moreover have "descent [?a, ?b] [?a] ?b"
    by (intro descent_kid descent_root) (simp_all add: topLevelSpans_def sel)
  ultimately show ?thesis
    using selected_span_is_in_tree [of ?st "[?a]" ?b] by (auto simp: sel init_view_def Let_def)
qed

text \<open>
  A signal sent to the chat is delivered exactly once: opening it opens the agent panel,
  the next consumption returns it, and a further one returns nothing and changes nothing.
\<close>

lemma chat_injection_once:
  "fst (consumePendingChatInjection (openSignalInChat d p st)) = Some (d, p) \<and>
   tv_tracesAgentOpen (snd (consumePendingChatInjection (openSignalInChat d p st))) \<and>
   consumePendingChatInjection (snd (consumePendingChatInjection (openSignalInChat d p st))) =
     (None, snd (consumePendingChatInjection (openSignalInChat d p st)))"
  by (simp add: openSignalInChat_def consumePendingChatInjection_def Let_def)

end
