(* ===== verification/WidthLoops.thy ===== *)
theory WidthLoops
  imports Prelude
begin

text \<open>
  The loops with which the trace view and the session view make their panels narrower
  (\<open>components/traces/trace-view/panel-layout.ts\<close> and the panel functions of
  \<open>components/traces/session-view/store/base.ts\<close>, which have the same shape): each takes widths away
  from panels, one panel after the other, and counts down what is still to be taken.

  The interface \<open>shrinking\<close> states what one round of such a loop promises (never more than is asked
  for, never below a floor) and proves once what the whole loop then does; \<open>greedy\<close> extends it with
  the loops that take as much as they can.
\<close>

section \<open>Loops that take widths away\<close>

definition total_of :: "'k list \<Rightarrow> ('k \<Rightarrow> number) \<Rightarrow> number" where
  "total_of ks w = foldl (\<lambda>s k. s + w k) 0 ks"

text \<open>One round: \<open>amt k x r\<close> is taken from panel \<open>k\<close> of width \<open>x\<close> when \<open>r\<close> is still to be taken.\<close>

fun take_from :: "('k \<Rightarrow> number \<Rightarrow> number \<Rightarrow> number) \<Rightarrow> ('k \<Rightarrow> number) \<times> number \<Rightarrow> 'k \<Rightarrow> ('k \<Rightarrow> number) \<times> number" where
  "take_from amt (w, r) k = (w(k := w k - amt k (w k) r), r - amt k (w k) r)"

lemma total_of_from: "foldl (\<lambda>s k. s + w k) a ks = a + total_of ks w"
proof (induction ks arbitrary: a)
  case Nil
  then show ?case by (simp add: total_of_def)
next
  case (Cons k ks)
  have "total_of (k # ks) w = foldl (\<lambda>s k. s + w k) (0 + w k) ks" by (simp add: total_of_def)
  also have "\<dots> = 0 + w k + total_of ks w" by (rule Cons.IH)
  finally show ?case by (simp add: Cons.IH)
qed

lemma total_of_simps [simp]: "total_of [] w = 0" "total_of (k # ks) w = w k + total_of ks w"
  using total_of_from [of w "0 + w k" ks] by (simp_all add: total_of_def)

lemma total_of_sum_list: "total_of ks w = sum_list (map w ks)"
  by (induction ks) simp_all

lemma total_of_append [simp]: "total_of (xs @ ys) w = total_of xs w + total_of ys w"
  by (simp add: total_of_sum_list)

lemma total_of_rev [simp]: "total_of (rev ks) w = total_of ks w"
  by (simp add: total_of_sum_list rev_map [symmetric] sum_list_rev)

lemma total_of_cong: "(\<And>k. k \<in> set ks \<Longrightarrow> w k = v k) \<Longrightarrow> total_of ks w = total_of ks v"
  by (induction ks) auto

lemma total_of_mono: "(\<And>k. k \<in> set ks \<Longrightarrow> w k \<le> v k) \<Longrightarrow> total_of ks w \<le> total_of ks v"
  by (induction ks) (auto intro: add_mono)

lemma total_of_upd:
  "distinct ks \<Longrightarrow> total_of ks (w(k := x)) = total_of ks w + (if k \<in> set ks then x - w k else 0)"
  by (induction ks) (auto simp: fun_upd_def intro!: total_of_cong)

lemma total_of_diff: "total_of ks (\<lambda>k. w k - v k) = total_of ks w - total_of ks v"
  by (induction ks) auto

lemma total_of_le_eq:
  assumes "\<And>k. k \<in> set ks \<Longrightarrow> v k \<le> w k" and "total_of ks w \<le> total_of ks v" and "k \<in> set ks"
  shows "w k = v k"
proof -
  have "0 = v k - w k \<or> v k < w k" using assms(1,3) by force
  moreover have False if "v k < w k"
  proof -
    from split_list [OF assms(3)] obtain xs ys where ks: "ks = xs @ k # ys" by blast
    have "total_of xs v \<le> total_of xs w" "total_of ys v \<le> total_of ys w"
      using assms(1) ks by (auto intro!: total_of_mono)
    with that assms(2) ks show False by simp
  qed
  ultimately show ?thesis by auto
qed

locale shrinking =
  fixes w0 :: "'k \<Rightarrow> number"
    and lo :: "'k \<Rightarrow> number"
    and amt :: "'k \<Rightarrow> number \<Rightarrow> number \<Rightarrow> number"
    and ks :: "'k list"
  assumes ks_distinct: "distinct ks"
    and amt_bounds: "k \<in> set ks \<Longrightarrow> 0 \<le> r \<Longrightarrow> 0 \<le> amt k (w0 k) r \<and> amt k (w0 k) r \<le> r \<and> amt k (w0 k) r \<le> w0 k - lo k"
begin

lemma run_prefix:
  assumes "ks = xs @ ys" and "0 \<le> r"
  shows "\<exists>w' r'. foldl (take_from amt) (w0, r) xs = (w', r') \<and> 0 \<le> r' \<and> r' \<le> r \<and>
    (\<forall>k. k \<notin> set xs \<longrightarrow> w' k = w0 k) \<and> (\<forall>k\<in>set xs. lo k \<le> w' k \<and> w' k \<le> w0 k) \<and>
    total_of xs w' + r = total_of xs w0 + r'"
  using assms(1)
proof (induction xs arbitrary: ys rule: rev_induct)
  case Nil
  then show ?case using assms(2) by simp
next
  case (snoc x xs)
  from snoc.IH [of "x # ys"] snoc.prems obtain w' r' where
    run: "foldl (take_from amt) (w0, r) xs = (w', r')" "0 \<le> r'" "r' \<le> r"
    and other: "\<forall>k. k \<notin> set xs \<longrightarrow> w' k = w0 k"
    and inside: "\<forall>k\<in>set xs. lo k \<le> w' k \<and> w' k \<le> w0 k"
    and total: "total_of xs w' + r = total_of xs w0 + r'" by auto
  have x: "x \<notin> set xs" "x \<in> set ks" using ks_distinct snoc.prems by auto
  let ?a = "amt x (w0 x) r'"
  have a: "0 \<le> ?a" "?a \<le> r'" "?a \<le> w0 x - lo x" using amt_bounds [OF x(2) run(2)] by auto
  have "total_of xs (\<lambda>k. if k = x then w0 x - ?a else w' k) = total_of xs w'" using x(1) by (intro total_of_cong) auto
  moreover have "0 \<le> r' - ?a" "r' - ?a \<le> r" using a run(3) by linarith+
  ultimately show ?case using run other inside total x a
    by (intro exI [of _ "w'(x := w0 x - ?a)"] exI [of _ "r' - ?a"]) (auto simp: algebra_simps)
qed

lemma run:
  assumes "0 \<le> r" and "foldl (take_from amt) (w0, r) ks = (w', r')"
  shows "0 \<le> r'" and "r' \<le> r" and "k \<notin> set ks \<Longrightarrow> w' k = w0 k" and "k \<in> set ks \<Longrightarrow> lo k \<le> w' k"
    and "k \<in> set ks \<Longrightarrow> w' k \<le> w0 k" and "total_of ks w' = total_of ks w0 - (r - r')"
  using run_prefix [of ks "[]", OF _ assms(1)] assms(2) by (auto simp: algebra_simps)

end

locale greedy = shrinking +
  assumes amt_greedy: "k \<in> set ks \<Longrightarrow> 0 \<le> r \<Longrightarrow> amt k (w0 k) r = min r (w0 k - lo k)"
begin

lemma leftover_prefix:
  "ks = xs @ ys \<Longrightarrow> 0 \<le> r \<Longrightarrow> snd (foldl (take_from amt) (w0, r) xs) = max 0 (r - total_of xs (\<lambda>k. w0 k - lo k))"
proof (induction xs arbitrary: ys rule: rev_induct)
  case Nil
  then show ?case by simp
next
  case (snoc x xs)
  from run_prefix [of xs "x # ys" r] snoc.prems obtain w' r' where
    run: "foldl (take_from amt) (w0, r) xs = (w', r')" "0 \<le> r'" and other: "\<forall>k. k \<notin> set xs \<longrightarrow> w' k = w0 k" by auto
  have x: "x \<notin> set xs" "x \<in> set ks" using ks_distinct snoc.prems by auto
  have "0 \<le> w0 x - lo x" using amt_bounds [OF x(2), of 0] by simp
  with snoc.IH [of "x # ys"] snoc.prems run other x amt_greedy [OF x(2) run(2)]
  show ?case by (auto simp: min_def max_def)
qed

lemma leftover: "0 \<le> r \<Longrightarrow> snd (foldl (take_from amt) (w0, r) ks) = max 0 (r - total_of ks (\<lambda>k. w0 k - lo k))"
  using leftover_prefix [of ks "[]"] by simp

end

section \<open>The amounts the loops take\<close>

text \<open>The share of a panel in proportion to its slack, what a panel can give up above its minimum
  (with and without the clamp of the slack at zero), and the share in proportion to its width.\<close>

definition share_amt :: "('k \<Rightarrow> number) \<Rightarrow> number \<Rightarrow> number \<Rightarrow> 'k \<Rightarrow> number \<Rightarrow> number \<Rightarrow> number" where
  "share_amt slack T d k x r = min (min (slack k) (math_round (d * (slack k / T)))) r"

definition absorb_amt :: "('k \<Rightarrow> number) \<Rightarrow> 'k \<Rightarrow> number \<Rightarrow> number \<Rightarrow> number" where
  "absorb_amt mn k x r = (if r > 0 then min r (x - mn k) else 0)"

definition cascade_amt :: "('k \<Rightarrow> number) \<Rightarrow> 'k \<Rightarrow> number \<Rightarrow> number \<Rightarrow> number" where
  "cascade_amt mn k x r = (if r > 0 then min (max 0 (x - mn k)) r else 0)"

definition prop_amt :: "number \<Rightarrow> number \<Rightarrow> 'k \<Rightarrow> number \<Rightarrow> number \<Rightarrow> number" where
  "prop_amt T d k x r = min (math_round (d * (x / T))) r"

text \<open>The shrinking drag counts a negative remainder up to zero.\<close>

fun drag_shrink :: "('k \<Rightarrow> number) \<Rightarrow> ('k \<Rightarrow> number) \<times> number \<Rightarrow> 'k \<Rightarrow> ('k \<Rightarrow> number) \<times> number" where
  "drag_shrink mn (w, r) k =
     (if r < 0 then let newW = max (mn k) (w k + r) in (w(k := newW), r - (newW - w k)) else (w, r))"

text \<open>The overflow policy: once no panel has slack, shrink the visible panels below their minimum.\<close>

definition shrink_below :: "'k list \<Rightarrow> number \<Rightarrow> ('k \<Rightarrow> number) \<Rightarrow> 'k \<Rightarrow> number" where
  "shrink_below order deficit w =
     (let T = total_of order w in
      if T \<le> 0 then w
      else let (w', r) = foldl (take_from (prop_amt T deficit)) (w, deficit) order in
        if r > 0 then w'(last order := w' (last order) - r) else w')"

lemma math_round_mono: "x \<le> y \<Longrightarrow> math_round x \<le> math_round y"
  unfolding math_round_def of_int_le_iff by (rule floor_mono) simp

lemma math_round_nonneg: "0 \<le> x \<Longrightarrow> 0 \<le> math_round x"
  using math_round_mono [of 0 x] by (simp add: math_round_def)

lemma share_shrinking:
  assumes "distinct ks" and "0 \<le> d" and "0 < T" and "\<And>k. k \<in> set ks \<Longrightarrow> mn k \<le> w k"
    and "\<And>k. k \<in> set ks \<Longrightarrow> slack k = w k - mn k"
  shows "shrinking w mn (share_amt slack T d) ks"
proof
  fix k and r :: number assume k: "k \<in> set ks" and r: "0 \<le> r"
  have s: "slack k = w k - mn k" "0 \<le> w k - mn k" using assms(4,5) [OF k] by auto
  then have "0 \<le> math_round (d * (slack k / T))" using assms(2,3) by (intro math_round_nonneg) simp
  with s r show "0 \<le> share_amt slack T d k (w k) r \<and> share_amt slack T d k (w k) r \<le> r \<and>
    share_amt slack T d k (w k) r \<le> w k - mn k" by (auto simp: share_amt_def min_def)
qed (rule assms(1))

lemma absorb_greedy:
  assumes "distinct ks" and "\<And>k. k \<in> set ks \<Longrightarrow> mn k \<le> w k"
  shows "greedy w mn (absorb_amt mn) ks"
  using assms by unfold_locales (auto simp: absorb_amt_def min_def)

lemma cascade_greedy:
  assumes "distinct ks"
  shows "greedy w (\<lambda>k. min (w k) (mn k)) (cascade_amt mn) ks"
  using assms by unfold_locales (auto simp: cascade_amt_def min_def max_def)

lemma prop_shrinking:
  assumes "distinct order" and "0 \<le> d" and "0 < T" and "\<And>k. k \<in> set order \<Longrightarrow> 0 \<le> w k"
  shows "shrinking w (\<lambda>k. w k - math_round (d * (w k / T))) (prop_amt T d) order"
proof
  fix k and r :: number assume "k \<in> set order" "0 \<le> r"
  moreover from this have "0 \<le> math_round (d * (w k / T))" using assms(2-4) by (intro math_round_nonneg) simp
  ultimately show "0 \<le> prop_amt T d k (w k) r \<and> prop_amt T d k (w k) r \<le> r \<and>
    prop_amt T d k (w k) r \<le> w k - (w k - math_round (d * (w k / T)))" by (auto simp: prop_amt_def min_def)
qed (rule assms(1))

lemma shrink_below_spec:
  assumes "distinct order" and "order \<noteq> []" and "0 \<le> d" and "\<forall>k\<in>set order. 0 < w k"
  shows "total_of order (shrink_below order d w) = total_of order w - d"
    and "k \<in> set order \<Longrightarrow> shrink_below order d w k \<le> w k"
    and "k \<notin> set order \<Longrightarrow> shrink_below order d w k = w k"
proof -
  let ?T = "total_of order w"
  obtain a as where o': "order = a # as" using assms(2) by (cases order) auto
  have "total_of as (\<lambda>_. 0) \<le> total_of as w" using assms(4) o' by (intro total_of_mono) (auto intro: less_imp_le)
  moreover have "total_of as (\<lambda>_. 0) = 0" by (induction as) auto
  ultimately have T: "0 < ?T" using assms(4) o' by simp
  obtain w' r' where run: "foldl (take_from (prop_amt ?T d)) (w, d) order = (w', r')" by (metis surj_pair)
  have "shrinking w (\<lambda>k. w k - math_round (d * (w k / ?T))) (prop_amt ?T d) order"
    using assms(4) by (intro prop_shrinking [OF assms(1,3) T]) (auto intro: less_imp_le)
  note facts = shrinking.run [OF this assms(3) run]
  have res: "shrink_below order d w = (if r' > 0 then w'(last order := w' (last order) - r') else w')"
    using T by (simp add: shrink_below_def Let_def run)
  have l: "last order \<in> set order" using assms(2) by simp
  show "total_of order (shrink_below order d w) = ?T - d"
    using facts(1,6) l assms(1) by (auto simp: res total_of_upd)
  show "k \<in> set order \<Longrightarrow> shrink_below order d w k \<le> w k" using facts(5) [of k] facts(5) [OF l] by (auto simp: res)
  show "k \<notin> set order \<Longrightarrow> shrink_below order d w k = w k" using facts(3) [of k] l by (auto simp: res)
qed

text \<open>The first two loops together take the slack of all panels, as far as it is needed.\<close>

lemma take_slack:
  assumes "distinct order" and wm: "\<And>k. k \<in> set order \<Longrightarrow> mn k \<le> w k" and sl: "\<And>k. k \<in> set order \<Longrightarrow> slack k = w k - mn k"
    and "0 < T" and "0 < total_of order w - W"
    and run1: "foldl (take_from (share_amt slack T (total_of order w - W))) (w, total_of order w - W) order = (w1, r1)"
    and run2: "(if r1 > 0 then foldl (take_from (absorb_amt mn)) (w1, r1) (rev order) else (w1, r1)) = (w2, r2)"
  shows "r2 = max 0 (total_of order mn - W)" and "total_of order w2 = W + r2"
    and "k \<in> set order \<Longrightarrow> mn k \<le> w2 k" and "k \<in> set order \<Longrightarrow> w2 k \<le> w k" and "k \<notin> set order \<Longrightarrow> w2 k = w k"
proof -
  let ?d = "total_of order w - W"
  have "shrinking w mn (share_amt slack T ?d) order"
    using assms(1,4,5) wm sl by (intro share_shrinking) auto
  note f1 = shrinking.run [OF this less_imp_le [OF assms(5)] run1]
  have t1: "total_of order w1 = W + r1" using f1(6) by simp
  have "r2 = max 0 (total_of order mn - W) \<and> total_of order w2 = W + r2 \<and>
    (k \<in> set order \<longrightarrow> mn k \<le> w2 k \<and> w2 k \<le> w k) \<and> (k \<notin> set order \<longrightarrow> w2 k = w k)" for k
  proof (cases "r1 > 0")
    case False
    then have "total_of order mn \<le> W" using total_of_mono [of order mn w1] f1(4) t1 by simp
    with False run2 f1(1) f1(3-5) [of k] t1 show ?thesis by auto
  next
    case True
    then have run: "foldl (take_from (absorb_amt mn)) (w1, r1) (rev order) = (w2, r2)" using run2 by simp
    have g: "greedy w1 mn (absorb_amt mn) (rev order)" using assms(1) f1(4) by (intro absorb_greedy) auto
    note f2 = shrinking.run [OF greedy.axioms(1) [OF g] f1(1) run]
    have "r2 = max 0 (total_of order mn - W)"
      using greedy.leftover [OF g f1(1)] run t1 by (simp add: total_of_diff)
    moreover have "w2 k \<le> w k" if "k \<in> set order" using f2(5) [of k] f1(5) [of k] that by simp
    ultimately show ?thesis using f2(6) t1 f2(3,4) [of k] f1(3) [of k] by simp
  qed
  then show "r2 = max 0 (total_of order mn - W)" "total_of order w2 = W + r2" "k \<in> set order \<Longrightarrow> mn k \<le> w2 k"
    "k \<in> set order \<Longrightarrow> w2 k \<le> w k" "k \<notin> set order \<Longrightarrow> w2 k = w k" by auto
qed

text \<open>The shrinking loop counts up to zero; mirrored, it is the absorbing loop.\<close>

lemma drag_shrink_absorb:
  "foldl (drag_shrink mn) (w, - r) ks = (case foldl (take_from (absorb_amt mn)) (w, r) ks of (w', r') \<Rightarrow> (w', - r'))"
proof (induction ks arbitrary: w r)
  case Nil
  then show ?case by simp
next
  case (Cons k ks)
  obtain w1 r1 where p: "take_from (absorb_amt mn) (w, r) k = (w1, r1)" by (metis surj_pair)
  then have "drag_shrink mn (w, - r) k = (w1, - r1)"
    by (auto simp: absorb_amt_def Let_def max_def min_def split: if_splits)
  with p show ?case by (simp add: Cons.IH del: take_from.simps drag_shrink.simps)
qed

section \<open>Dragging the edge of a panel in a row of panels\<close>

abbreviation before :: "'k \<Rightarrow> 'k list \<Rightarrow> 'k list" where
  "before p order \<equiv> takeWhile (\<lambda>k. k \<noteq> p) order"

abbreviation onwards :: "'k \<Rightarrow> 'k list \<Rightarrow> 'k list" where
  "onwards p order \<equiv> dropWhile (\<lambda>k. k \<noteq> p) order"

text \<open>
  Growing takes what overflows the container (\<open>None\<close>: not measured yet) from the panels to the left,
  nearest first, and what is still left from the growth itself; shrinking goes on to the right when
  the panel has reached its minimum.
\<close>

definition grow_panel :: "('k \<Rightarrow> number) \<Rightarrow> 'k list \<Rightarrow> 'k \<Rightarrow> number \<Rightarrow> number option \<Rightarrow> ('k \<Rightarrow> number) \<Rightarrow> 'k \<Rightarrow> number" where
  "grow_panel mn order p delta limit start =
     (let next = start(p := start p + delta) in
      case limit of
        None \<Rightarrow> next
      | Some W \<Rightarrow>
          let overflow = total_of order next - W in
          if overflow > 0 then
            let (w, r) = foldl (take_from (cascade_amt mn)) (next, overflow) (rev (before p order)) in
            if r > 0 then w(p := w p - r) else w
          else next)"

definition shrink_panel :: "('k \<Rightarrow> number) \<Rightarrow> 'k list \<Rightarrow> 'k \<Rightarrow> number \<Rightarrow> ('k \<Rightarrow> number) \<Rightarrow> 'k \<Rightarrow> number" where
  "shrink_panel mn order p delta start = fst (foldl (drag_shrink mn) (start, delta) (onwards p order))"

lemma total_split: "total_of order w = total_of (before p order) w + total_of (onwards p order) w"
  using total_of_append [of "before p order" "onwards p order" w] by simp

text \<open>A row of panels with their minimum widths, the interface of both views.\<close>

locale panel_row =
  fixes mn :: "'k \<Rightarrow> number"
    and order :: "'k list"
  assumes order_distinct: "distinct order"
begin

lemma order_at:
  assumes "p \<in> set order"
  obtains xs ys where "order = xs @ p # ys" "before p order = xs" "onwards p order = p # ys"
    "p \<notin> set xs" "p \<notin> set ys" "set xs \<inter> set ys = {}" "distinct xs" "distinct ys"
proof -
  from split_list_first [OF assms] obtain xs ys where o': "order = xs @ p # ys" "p \<notin> set xs" by blast
  moreover have "distinct (xs @ p # ys)" using order_distinct by (simp only: o'(1))
  moreover have "before p order = xs" unfolding o'(1) using o'(2) by (subst takeWhile_append2) auto
  moreover have "onwards p order = p # ys" unfolding o'(1) using o'(2) by (subst dropWhile_append2) auto
  ultimately show ?thesis by (intro that [of xs ys]) auto
qed

end

sublocale panel_row \<subseteq> cascade: greedy w0 "\<lambda>k. min (w0 k) (mn k)" "cascade_amt mn" "rev (before p order)" for w0 p
  by (rule cascade_greedy) (simp add: order_distinct distinct_takeWhile)

context panel_row
begin

lemma grow_spec:
  assumes "p \<in> set order" and "0 < delta" and "total_of order s \<le> W" and min: "\<And>k. k \<in> set order \<Longrightarrow> mn k \<le> s k"
    and "v = grow_panel mn order p delta (Some W) s"
  shows "total_of order v = min (total_of order s + delta) W" and "s p \<le> v p" and "v p \<le> s p + delta"
    and "k \<notin> set (before p order) \<Longrightarrow> k \<noteq> p \<Longrightarrow> v k = s k"
    and "k \<in> set (before p order) \<Longrightarrow> mn k \<le> v k \<and> v k \<le> s k"
proof -
  obtain xs ys where o': "order = xs @ p # ys" "before p order = xs" "p \<notin> set xs" "p \<notin> set ys" "set xs \<inter> set ys = {}"
    using order_at [OF assms(1)] by metis
  define next' where "next' = s(p := s p + delta)"
  have tn: "total_of xs next' = total_of xs s" "total_of ys next' = total_of ys s" "next' p = s p + delta"
    using o'(3,4) by (auto simp: next'_def intro!: total_of_cong)
  define r where "r = total_of order next' - W"
  have r: "r = total_of xs s + s p + delta + total_of ys s - W" using tn by (simp add: r_def o'(1))
  have res: "v = (if r > 0 then let (w, r') = foldl (take_from (cascade_amt mn)) (next', r) (rev (before p order)) in
      if r' > 0 then w(p := w p - r') else w else next')"
    by (simp add: assms(5) grow_panel_def Let_def next'_def r_def del: fun_upd_apply)
  have "total_of order v = min (total_of order s + delta) W \<and> s p \<le> v p \<and> v p \<le> s p + delta \<and>
    (\<forall>k. k \<notin> set xs \<longrightarrow> k \<noteq> p \<longrightarrow> v k = s k) \<and> (\<forall>k\<in>set xs. mn k \<le> v k \<and> v k \<le> s k)"
  proof (cases "r > 0")
    case False
    then have "v = next'" by (simp add: res)
    with False min assms(2) o' tn show ?thesis by (auto simp: r next'_def)
  next
    case True
    obtain w r' where run: "foldl (take_from (cascade_amt mn)) (next', r) (rev (before p order)) = (w, r')" by (metis surj_pair)
    note f = cascade.run [OF less_imp_le [OF True] run, unfolded o'(2) set_rev total_of_rev]
    have v: "v = w(p := w p - r')" using True f(1) by (auto simp: res run)
    have "w p = s p + delta" using f(3) [of p] o'(3) tn(3) by simp
    moreover have off: "w k = s k" if "k \<notin> set xs" "k \<noteq> p" for k using f(3) [of k] that by (simp add: next'_def)
    moreover have "mn k \<le> w k \<and> w k \<le> s k" if "k \<in> set xs" for k
    proof -
      have "k \<noteq> p" using that o'(3) by auto
      then show ?thesis using f(4,5) [OF that] min [of k] that o'(1) by (simp add: next'_def)
    qed
    moreover have "total_of ys w = total_of ys s" using off o'(4,5) by (intro total_of_cong) auto
    moreover have "total_of xs v = total_of xs w" "total_of ys v = total_of ys w" using o'(3,4) by (auto simp: v intro!: total_of_cong)
    moreover have "r' \<le> delta" using f(2) assms(3) by (simp add: r o'(1))
    ultimately show ?thesis using f(1,6) True tn(1) o' by (auto simp: v r)
  qed
  then show "total_of order v = min (total_of order s + delta) W" "s p \<le> v p" "v p \<le> s p + delta"
    "k \<notin> set (before p order) \<Longrightarrow> k \<noteq> p \<Longrightarrow> v k = s k"
    "k \<in> set (before p order) \<Longrightarrow> mn k \<le> v k \<and> v k \<le> s k" by (simp_all add: o'(2))
qed

lemma shrink_spec:
  assumes "p \<in> set order" and "delta < 0" and min: "\<And>k. k \<in> set order \<Longrightarrow> mn k \<le> s k"
    and "v = shrink_panel mn order p delta s"
  shows "total_of order v = max (total_of order s + delta) (total_of (before p order) s + total_of (onwards p order) mn)"
    and "k \<notin> set (onwards p order) \<Longrightarrow> v k = s k" and "k \<in> set (onwards p order) \<Longrightarrow> mn k \<le> v k \<and> v k \<le> s k"
proof -
  obtain xs ys where o': "order = xs @ p # ys" "before p order = xs" "onwards p order = p # ys" "p \<notin> set xs" "set xs \<inter> set ys = {}"
    using order_at [OF assms(1)] by metis
  obtain w r' where run: "foldl (take_from (absorb_amt mn)) (s, - delta) (onwards p order) = (w, r')" by (metis surj_pair)
  have v: "v = w" using drag_shrink_absorb [of mn s "- delta" "onwards p order"] by (simp add: assms(4) shrink_panel_def run)
  have g: "greedy s mn (absorb_amt mn) (onwards p order)"
    by (rule absorb_greedy) (auto simp: order_distinct distinct_dropWhile intro: min dest: set_dropWhileD)
  have d: "0 \<le> - delta" using assms(2) by simp
  note f = shrinking.run [OF greedy.axioms(1) [OF g] d run]
  have r': "r' = max 0 (- delta - (total_of (onwards p order) s - total_of (onwards p order) mn))"
    using greedy.leftover [OF g d] by (simp add: run total_of_diff)
  have "total_of (before p order) w = total_of (before p order) s"
    using f(3) unfolding o'(2,3) by (rule total_of_cong) (metis o'(4,5) disjoint_iff set_ConsD)
  then show "total_of order v = max (total_of order s + delta) (total_of (before p order) s + total_of (onwards p order) mn)"
    using f(6) r' total_split [where p = p and order = order and w = w] total_split [where p = p and order = order and w = s]
    by (simp add: v max_def)
  show "k \<notin> set (onwards p order) \<Longrightarrow> v k = s k" using f(3) by (simp add: v)
  show "k \<in> set (onwards p order) \<Longrightarrow> mn k \<le> v k \<and> v k \<le> s k" using f(4,5) by (simp add: v)
qed

end

end
