(* ===== verification/PanelLayout.thy ===== *)
theory PanelLayout
  imports WidthLoops
begin

text \<open>
  The panel layout of the trace view, \<open>components/traces/trace-view/panel-layout.ts\<close>: from the
  targets the user dragged the panels to, the visible panels and the width of the container,
  \<open>computeLayout\<close> derives the widths that are rendered, and \<open>applyDrag\<close> updates the targets. The
  loops are those of \<open>WidthLoops\<close>. Widths are exact rationals, \<open>Math.round\<close> included.
\<close>

section \<open>Panels\<close>

datatype resizable = PTrace | PSpan | PChat

type_synonym widths = "resizable \<Rightarrow> number"

record visible_panels =
  v_span :: bool
  v_chat :: bool

fun panel_min :: "resizable \<Rightarrow> number" where
  "panel_min PTrace = 488"
| "panel_min PSpan = 400"
| "panel_min PChat = 375"

fun DEFAULT_TARGETS :: "resizable \<Rightarrow> number" where
  "DEFAULT_TARGETS PTrace = 500"
| "DEFAULT_TARGETS PSpan = 405"
| "DEFAULT_TARGETS PChat = 385"

definition visibleOrder :: "visible_panels \<Rightarrow> resizable list" where
  "visibleOrder vis = [PTrace] @ (if v_span vis then [PSpan] else []) @ (if v_chat vis then [PChat] else [])"

section \<open>The rendered widths\<close>

definition clamp_widths :: "resizable list \<Rightarrow> widths \<Rightarrow> widths" where
  "clamp_widths order targets = foldl (\<lambda>w k. w(k := max (w k) (panel_min k))) targets order"

definition slack_of :: "resizable list \<Rightarrow> widths \<Rightarrow> widths" where
  "slack_of order w k = (if k \<in> set order then max 0 (w k - panel_min k) else 0)"

definition computeLayout :: "widths \<Rightarrow> visible_panels \<Rightarrow> jsnum \<Rightarrow> widths" where
  "computeLayout targets vis maxWidth =
     (let order = visibleOrder vis; w = clamp_widths order targets in
      case maxWidth of
        Fin W \<Rightarrow>
          (if total_of order w \<le> W then w
           else let deficit = total_of order w - W;
                    slack = slack_of order w;
                    T = total_of order slack in
             if T > 0 then
               let (w1, r1) = foldl (take_from (share_amt slack T deficit)) (w, deficit) order;
                   (w2, r2) = (if r1 > 0 then foldl (take_from (absorb_amt panel_min)) (w1, r1) (rev order) else (w1, r1)) in
               if r2 \<le> 0 then w2 else shrink_below order r2 w2
             else shrink_below order deficit w)
      | _ \<Rightarrow> w)"

lemma visibleOrder_distinct [simp]: "distinct (visibleOrder vis)"
  by (simp add: visibleOrder_def)

lemma visibleOrder_ne [simp]: "visibleOrder vis \<noteq> []"
  by (simp add: visibleOrder_def)

lemma panel_min_pos [simp]: "0 < panel_min k"
  by (cases k) simp_all

lemma clamp_widths_eq:
  "distinct order \<Longrightarrow> clamp_widths order targets k = (if k \<in> set order then max (targets k) (panel_min k) else targets k)"
  unfolding clamp_widths_def by (induction order arbitrary: targets) auto

lemma total_min_pos: "0 < total_of (visibleOrder vis) panel_min"
  by (simp add: visibleOrder_def)

text \<open>What one fit does to widths that are at least the minimum and do not fit.\<close>

definition fitted :: "resizable list \<Rightarrow> widths \<Rightarrow> number \<Rightarrow> widths \<Rightarrow> bool" where
  "fitted order w W v \<longleftrightarrow> total_of order v = W \<and> (\<forall>k. k \<notin> set order \<longrightarrow> v k = w k) \<and> (\<forall>k\<in>set order. v k \<le> w k) \<and>
     (total_of order panel_min \<le> W \<longrightarrow> (\<forall>k\<in>set order. panel_min k \<le> v k)) \<and>
     (W \<le> total_of order panel_min \<longrightarrow> (\<forall>k\<in>set order. v k \<le> panel_min k))"

lemma fitted_below:
  assumes "distinct order" and "order \<noteq> []" and "\<And>k. k \<in> set order \<Longrightarrow> v k = panel_min k"
    and "\<And>k. k \<in> set order \<Longrightarrow> v k \<le> w k" and "\<And>k. k \<notin> set order \<Longrightarrow> v k = w k"
    and "W < total_of order panel_min"
  shows "fitted order w W (shrink_below order (total_of order v - W) v)"
proof -
  have tv: "total_of order v = total_of order panel_min" by (rule total_of_cong) (rule assms(3))
  have d: "0 \<le> total_of order v - W" using tv assms(6) by simp
  have pos: "\<forall>k\<in>set order. 0 < v k" using assms(3) by simp
  note spec = shrink_below_spec [where w = v, OF assms(1,2) d pos]
  show ?thesis unfolding fitted_def
  proof (intro conjI allI ballI impI)
    show "total_of order (shrink_below order (total_of order v - W) v) = W" using spec(1) by simp
    show "shrink_below order (total_of order v - W) v k = w k" if "k \<notin> set order" for k
      using spec(3) [OF that] assms(5) [OF that] by simp
    show "shrink_below order (total_of order v - W) v k \<le> w k" if "k \<in> set order" for k
      using spec(2) [OF that] assms(4) [OF that] by simp
    show "panel_min k \<le> shrink_below order (total_of order v - W) v k" if "total_of order panel_min \<le> W" for k
      using that assms(6) by simp
    show "shrink_below order (total_of order v - W) v k \<le> panel_min k" if "k \<in> set order" for k
      using spec(2) [OF that] assms(3) [OF that] by simp
  qed
qed

lemma fitted_above:
  assumes "total_of order v = W" and "\<And>k. k \<in> set order \<Longrightarrow> panel_min k \<le> v k"
    and "\<And>k. k \<in> set order \<Longrightarrow> v k \<le> w k" and "\<And>k. k \<notin> set order \<Longrightarrow> v k = w k"
  shows "fitted order w W v"
proof -
  have "v k \<le> panel_min k" if "W \<le> total_of order panel_min" "k \<in> set order" for k
    using total_of_le_eq [of order panel_min v k] assms(1,2) that by simp
  with assms show ?thesis by (simp add: fitted_def)
qed

lemma total_slack:
  assumes "\<And>k. k \<in> set order \<Longrightarrow> panel_min k \<le> w k"
  shows "total_of order (slack_of order w) = total_of order w - total_of order panel_min"
proof -
  have "total_of order (slack_of order w) = total_of order (\<lambda>k. w k - panel_min k)"
    using assms by (intro total_of_cong) (auto simp: slack_of_def)
  then show ?thesis by (simp add: total_of_diff)
qed

lemma layout_fitted:
  assumes "\<not> total_of (visibleOrder vis) (clamp_widths (visibleOrder vis) targets) \<le> W"
  shows "fitted (visibleOrder vis) (clamp_widths (visibleOrder vis) targets) W (computeLayout targets vis (Fin W))"
proof -
  define order where "order = visibleOrder vis"
  define w where "w = clamp_widths order targets"
  define T where "T = total_of order (slack_of order w)"
  have o': "distinct order" "order \<noteq> []" by (simp_all add: order_def)
  have d: "0 < total_of order w - W" using assms by (simp add: w_def order_def)
  have wm: "\<And>k. k \<in> set order \<Longrightarrow> panel_min k \<le> w k" using o'(1) by (simp add: w_def clamp_widths_eq)
  have T: "T = total_of order w - total_of order panel_min" unfolding T_def by (rule total_slack) (rule wm)
  obtain w1 r1 where run1: "foldl (take_from (share_amt (slack_of order w) T (total_of order w - W))) (w, total_of order w - W) order = (w1, r1)"
    by (metis surj_pair)
  obtain w2 r2 where run2: "(if r1 > 0 then foldl (take_from (absorb_amt panel_min)) (w1, r1) (rev order) else (w1, r1)) = (w2, r2)"
    by (metis surj_pair)
  have unf: "computeLayout targets vis (Fin W) =
     (if T > 0 then if r2 \<le> 0 then w2 else shrink_below order r2 w2 else shrink_below order (total_of order w - W) w)"
    using assms run1 run2 by (simp add: computeLayout_def Let_def order_def [symmetric] w_def [symmetric] T_def [symmetric])
  have "fitted order w W (computeLayout targets vis (Fin W))"
  proof (cases "T > 0")
    case False
    then have le: "total_of order w \<le> total_of order panel_min" using T by simp
    have min: "w k = panel_min k" if "k \<in> set order" for k using total_of_le_eq [of order panel_min w k] wm le that by simp
    then have "total_of order w = total_of order panel_min" by (rule total_of_cong)
    then have "fitted order w W (shrink_below order (total_of order w - W) w)"
      using d min by (intro fitted_below o') simp_all
    then show ?thesis using False by (simp add: unf)
  next
    case True
    have sl: "slack_of order w k = w k - panel_min k" if "k \<in> set order" for k using wm [OF that] that by (simp add: slack_of_def)
    note f = take_slack [OF o'(1) wm sl True d run1 run2]
    show ?thesis
    proof (cases "r2 \<le> 0")
      case True
      then have "total_of order w2 = W" using f(1,2) by simp
      then show ?thesis using True f(3-5) \<open>0 < T\<close> by (simp add: unf fitted_above)
    next
      case False
      then have W: "W < total_of order panel_min" "r2 = total_of order w2 - W" using f(1,2) by auto
      have tot: "total_of order w2 \<le> total_of order panel_min" using f(1,2) W(1) by simp
      have "w2 k = panel_min k" if "k \<in> set order" for k by (rule total_of_le_eq [OF f(3) tot that])
      then have "fitted order w W (shrink_below order (total_of order w2 - W) w2)"
        using f(4,5) W(1) by (intro fitted_below o') auto
      then show ?thesis using False W(2) \<open>0 < T\<close> by (simp add: unf)
    qed
  qed
  then show ?thesis by (simp add: order_def w_def)
qed

section \<open>Dragging the edge of a panel\<close>

definition applyDrag :: "widths \<Rightarrow> visible_panels \<Rightarrow> resizable \<Rightarrow> number \<Rightarrow> jsnum \<Rightarrow> widths" where
  "applyDrag targets vis panel delta maxWidth =
     (let order = visibleOrder vis in
      if panel \<notin> set order \<or> delta = 0 then targets
      else let start = computeLayout targets vis maxWidth in
        if delta > 0 then grow_panel panel_min order panel delta (case maxWidth of Fin W \<Rightarrow> Some W | _ \<Rightarrow> None) start
        else shrink_panel panel_min order panel delta start)"

interpretation trace_panels: panel_row panel_min "visibleOrder vis"
  by unfold_locales simp

lemma layout_id:
  assumes "\<And>k. k \<in> set (visibleOrder vis) \<Longrightarrow> panel_min k \<le> v k" and "total_of (visibleOrder vis) v \<le> W"
  shows "computeLayout v vis (Fin W) = v"
proof -
  have "clamp_widths (visibleOrder vis) v = v"
    using assms(1) by (intro ext) (simp add: clamp_widths_eq max.absorb1)
  then show ?thesis using assms(2) by (simp add: computeLayout_def)
qed

lemma layout_room:
  assumes "total_of (visibleOrder vis) panel_min \<le> W"
  shows "total_of (visibleOrder vis) (computeLayout targets vis (Fin W)) \<le> W"
    and "k \<in> set (visibleOrder vis) \<Longrightarrow> panel_min k \<le> computeLayout targets vis (Fin W) k"
    and "k \<notin> set (visibleOrder vis) \<Longrightarrow> computeLayout targets vis (Fin W) k = targets k"
proof -
  let ?o = "visibleOrder vis" and ?v = "computeLayout targets vis (Fin W)"
  have "total_of ?o ?v \<le> W \<and> (k \<in> set ?o \<longrightarrow> panel_min k \<le> ?v k) \<and> (k \<notin> set ?o \<longrightarrow> ?v k = targets k)" for k
  proof (cases "total_of ?o (clamp_widths ?o targets) \<le> W")
    case True
    then have "?v = clamp_widths ?o targets" by (simp add: computeLayout_def)
    with True show ?thesis by (simp add: clamp_widths_eq)
  next
    case False
    from layout_fitted [OF this] assms show ?thesis by (auto simp: fitted_def clamp_widths_eq)
  qed
  then show "total_of ?o ?v \<le> W" "k \<in> set ?o \<Longrightarrow> panel_min k \<le> ?v k" "k \<notin> set ?o \<Longrightarrow> ?v k = targets k" by auto
qed

text \<open>
  Claim C31. The rendered widths are a fit: hidden panels keep their target; if the visible panels,
  raised to their minimum, fit the container, they get exactly that; if they do not fit, they fill the
  container exactly, no panel grows, none falls below its minimum as long as the container has room
  for the minimum widths, and in a smaller container every panel is at most at its minimum.
\<close>

theorem computeLayout_fits:
  assumes "order = visibleOrder vis" and "v = computeLayout targets vis (Fin W)"
  shows "(\<forall>k. k \<notin> set order \<longrightarrow> v k = targets k) \<and>
    (\<forall>k\<in>set order. v k \<le> max (targets k) (panel_min k)) \<and>
    total_of order v = min (total_of order (\<lambda>k. max (targets k) (panel_min k))) W \<and>
    (total_of order (\<lambda>k. max (targets k) (panel_min k)) \<le> W \<longrightarrow> (\<forall>k\<in>set order. v k = max (targets k) (panel_min k))) \<and>
    (total_of order panel_min \<le> W \<longrightarrow> (\<forall>k\<in>set order. panel_min k \<le> v k)) \<and>
    (W < total_of order panel_min \<longrightarrow> (\<forall>k\<in>set order. v k \<le> panel_min k))"
proof -
  let ?c = "clamp_widths order targets"
  have c: "total_of order ?c = total_of order (\<lambda>k. max (targets k) (panel_min k))"
    by (rule total_of_cong) (simp add: assms(1) clamp_widths_eq)
  have ge: "total_of order panel_min \<le> total_of order (\<lambda>k. max (targets k) (panel_min k))"
    by (rule total_of_mono) simp
  show ?thesis
  proof (cases "total_of order ?c \<le> W")
    case True
    then have "v = ?c" using assms by (simp add: computeLayout_def)
    with True c ge show ?thesis by (auto simp: assms(1) clamp_widths_eq)
  next
    case False
    with layout_fitted [of vis targets W] assms have "fitted order ?c W v" by simp
    with False c show ?thesis by (auto simp: fitted_def assms(1) clamp_widths_eq)
  qed
qed

lemma computeLayout_fits_witness:
  "total_of [PTrace, PSpan, PChat] (computeLayout DEFAULT_TARGETS \<lparr>v_span = True, v_chat = True\<rparr> (Fin 1270)) = 1270"
  using computeLayout_fits [OF refl refl, of "\<lparr>v_span = True, v_chat = True\<rparr>" DEFAULT_TARGETS 1270]
  by (simp add: visibleOrder_def)

text \<open>
  Dragging follows the cursor. If the container has room for the minimum widths, then after
  a drag the new targets are exactly the widths that are rendered, hidden panels keep their target;
  growing a panel moves the total up by the distance dragged, but not past the container, changes
  nothing to the right of the panel and shrinks the panels to its left to their minimum at most;
  shrinking moves the total down by the distance dragged until the panel and those to its right are at
  their minimum, and changes nothing to the left.
\<close>

lemma drag_follows_cursor:
  assumes "p \<in> set order" and "delta \<noteq> 0" and "total_of order panel_min \<le> W" and "order = visibleOrder vis"
    and "v = applyDrag targets vis p delta (Fin W)" and "s = computeLayout targets vis (Fin W)"
  shows "computeLayout v vis (Fin W) = v \<and> (\<forall>k. k \<notin> set order \<longrightarrow> v k = targets k) \<and>
    (0 < delta \<longrightarrow> total_of order v = min (total_of order s + delta) W \<and> s p \<le> v p \<and> v p \<le> s p + delta \<and>
       (\<forall>k. k \<notin> set (before p order) \<longrightarrow> k \<noteq> p \<longrightarrow> v k = s k) \<and> (\<forall>k\<in>set (before p order). panel_min k \<le> v k \<and> v k \<le> s k)) \<and>
    (delta < 0 \<longrightarrow> total_of order v = max (total_of order s + delta) (total_of (before p order) s + total_of (onwards p order) panel_min) \<and>
       (\<forall>k. k \<notin> set (onwards p order) \<longrightarrow> v k = s k) \<and> (\<forall>k\<in>set (onwards p order). panel_min k \<le> v k \<and> v k \<le> s k))"
proof -
  note room = layout_room [OF assms(3) [unfolded assms(4)], where targets = targets, folded assms(6)]
  have p: "p \<in> set (visibleOrder vis)" using assms(1,4) by simp
  consider "0 < delta" | "delta < 0" using assms(2) by linarith
  then show ?thesis
  proof cases
    case 1
    then have "v = grow_panel panel_min (visibleOrder vis) p delta (Some W) s" using p by (simp add: assms(5,6) applyDrag_def)
    note g = trace_panels.grow_spec [OF p 1 room(1,2) this]
    have "panel_min k \<le> v k" if "k \<in> set (visibleOrder vis)" for k
      using g(2) g(4,5) [of k] room(2) [OF that] room(2) [OF p] by (cases "k \<in> set (before p (visibleOrder vis))"; cases "k = p") auto
    then have "computeLayout v vis (Fin W) = v" using g(1) by (intro layout_id) auto
    moreover have "v k = targets k" if "k \<notin> set (visibleOrder vis)" for k
      using g(4) [of k] room(3) [OF that] p that set_takeWhileD by metis
    ultimately show ?thesis using 1 g by (simp add: assms(4))
  next
    case 2
    then have "v = shrink_panel panel_min (visibleOrder vis) p delta s" using p by (simp add: assms(5,6) applyDrag_def)
    note g = trace_panels.shrink_spec [OF p 2 room(2) this]
    have "panel_min k \<le> v k" if "k \<in> set (visibleOrder vis)" for k
      using g(2,3) [of k] room(2) [OF that] by (cases "k \<in> set (onwards p (visibleOrder vis))") auto
    moreover have "v k \<le> s k" for k using g(2,3) [of k] by (cases "k \<in> set (onwards p (visibleOrder vis))") auto
    then have "total_of (visibleOrder vis) v \<le> total_of (visibleOrder vis) s" by (intro total_of_mono)
    ultimately have "computeLayout v vis (Fin W) = v" using room(1) by (intro layout_id) auto
    moreover have "v k = targets k" if "k \<notin> set (visibleOrder vis)" for k
      using g(2) [of k] room(3) [OF that] that set_dropWhileD by metis
    ultimately show ?thesis using 2 g by (simp add: assms(4))
  qed
qed

lemma drag_follows_cursor_witness:
  "total_of [PTrace, PSpan, PChat] (applyDrag DEFAULT_TARGETS \<lparr>v_span = True, v_chat = True\<rparr> PSpan 100 (Fin 1300)) = 1300"
proof -
  let ?vis = "\<lparr>v_span = True, v_chat = True\<rparr>"
  have o': "visibleOrder ?vis = [PTrace, PSpan, PChat]" by (simp add: visibleOrder_def)
  have s: "computeLayout DEFAULT_TARGETS ?vis (Fin 1300) = DEFAULT_TARGETS" by (rule layout_id) (auto simp: o')
  let ?v = "applyDrag DEFAULT_TARGETS ?vis PSpan 100 (Fin 1300)"
  have "total_of (visibleOrder ?vis) ?v = min (total_of (visibleOrder ?vis) DEFAULT_TARGETS + 100) 1300"
    using drag_follows_cursor [of PSpan "visibleOrder ?vis" 100 1300 ?vis ?v DEFAULT_TARGETS, OF _ _ _ refl refl refl] unfolding s by (auto simp: o')
  then show ?thesis by (simp only: o') simp
qed

end
