(* ===== verification/SessionPanels.thy ===== *)
theory SessionPanels
  imports WidthLoops
begin

text \<open>
  The panel widths of the session view, the functions \<open>getVisiblePanels\<close>, \<open>distributeDeficit\<close>,
  \<open>fitPanelsToMaxWidth\<close> and \<open>resizePanel\<close> of \<open>components/traces/session-view/store/base.ts\<close>, as functions
  of the widths, the visible panels and the width of the container (\<open>None\<close> stands for the initial
  \<open>Infinity\<close>). The partial state \<open>updates\<close> of the code, read with \<open>updates[key] ?? state[key]\<close>, is the
  updated width function.
\<close>

datatype panel_key = SessionPanelWidth | SpanPanelWidth

type_synonym session_widths = "panel_key \<Rightarrow> number"

fun key_min :: "panel_key \<Rightarrow> number" where
  "key_min SessionPanelWidth = 400"
| "key_min SpanPanelWidth = 400"

fun key_default :: "panel_key \<Rightarrow> number" where
  "key_default SessionPanelWidth = 520"
| "key_default SpanPanelWidth = 405"

definition getVisiblePanels :: "bool \<Rightarrow> panel_key list" where
  "getVisiblePanels spanPanelOpen = [SessionPanelWidth] @ (if spanPanelOpen then [SpanPanelWidth] else [])"

definition distributeDeficit :: "session_widths \<Rightarrow> panel_key list \<Rightarrow> number \<Rightarrow> session_widths" where
  "distributeDeficit w panels deficit =
     (let budget = (\<lambda>k. w k - key_min k); T = total_of panels budget in
      if T > 0 then
        let (w1, r1) = foldl (take_from (share_amt budget T deficit)) (w, deficit) panels in
        if r1 > 0 then fst (foldl (take_from (absorb_amt key_min)) (w1, r1) (rev panels)) else w1
      else shrink_below panels deficit w)"

definition fit_panels :: "session_widths \<Rightarrow> panel_key list \<Rightarrow> number option \<Rightarrow> session_widths" where
  "fit_panels w panels limit =
     (case limit of
        None \<Rightarrow> w
      | Some W \<Rightarrow> (if total_of panels w \<le> W then w else distributeDeficit w panels (total_of panels w - W)))"

definition resize_panel :: "session_widths \<Rightarrow> panel_key list \<Rightarrow> panel_key \<Rightarrow> number \<Rightarrow> number option \<Rightarrow> session_widths" where
  "resize_panel w panels p delta limit =
     (if p \<notin> set panels then w
      else if delta > 0 then grow_panel key_min panels p delta limit w
      else if delta < 0 then shrink_panel key_min panels p delta w
      else w)"

lemma getVisiblePanels_distinct [simp]: "distinct (getVisiblePanels b)"
  by (simp add: getVisiblePanels_def)

lemma getVisiblePanels_ne [simp]: "getVisiblePanels b \<noteq> []"
  by (simp add: getVisiblePanels_def)

lemma key_min_pos [simp]: "0 < key_min k"
  by (cases k) simp_all

interpretation session_panels: panel_row key_min "getVisiblePanels b"
  by unfold_locales simp

text \<open>One fit of widths that are at least the minimum.\<close>

lemma fit_cases:
  assumes "\<And>k. k \<in> set (getVisiblePanels b) \<Longrightarrow> key_min k \<le> w k" and "W < total_of (getVisiblePanels b) w"
    and "v = fit_panels w (getVisiblePanels b) (Some W)" and "M = total_of (getVisiblePanels b) key_min"
  shows "total_of (getVisiblePanels b) v = (if M < total_of (getVisiblePanels b) w then max W M else W)"
    and "k \<in> set (getVisiblePanels b) \<Longrightarrow> v k \<le> w k" and "k \<notin> set (getVisiblePanels b) \<Longrightarrow> v k = w k"
    and "M < total_of (getVisiblePanels b) w \<Longrightarrow> k \<in> set (getVisiblePanels b) \<Longrightarrow> key_min k \<le> v k"
proof -
  let ?o = "getVisiblePanels b"
  let ?d = "total_of ?o w - W"
  let ?budget = "\<lambda>k. w k - key_min k"
  define T where "T = total_of ?o ?budget"
  have T: "T = total_of ?o w - M" by (simp add: T_def assms(4) total_of_diff)
  have v: "v = distributeDeficit w ?o ?d" using assms(2) by (simp add: assms(3) fit_panels_def)
  have "total_of ?o v = (if M < total_of ?o w then max W M else W) \<and> (k \<in> set ?o \<longrightarrow> v k \<le> w k) \<and>
    (k \<notin> set ?o \<longrightarrow> v k = w k) \<and> (M < total_of ?o w \<longrightarrow> k \<in> set ?o \<longrightarrow> key_min k \<le> v k)" for k
  proof (cases "T > 0")
    case True
    obtain w1 r1 where run1: "foldl (take_from (share_amt ?budget T ?d)) (w, ?d) ?o = (w1, r1)" by (metis surj_pair)
    obtain w2 r2 where run2: "(if r1 > 0 then foldl (take_from (absorb_amt key_min)) (w1, r1) (rev ?o) else (w1, r1)) = (w2, r2)"
      by (metis surj_pair)
    have d: "0 < ?d" using assms(2) by simp
    note f = take_slack [OF getVisiblePanels_distinct assms(1) refl True d run1 run2, folded assms(4)]
    have "v = w2"
      using True run2 by (simp add: v distributeDeficit_def Let_def T_def [symmetric] run1 split: if_splits)
    then show ?thesis using f True T by (auto simp: max_def)
  next
    case False
    then have "v = shrink_below ?o ?d w" by (simp add: v distributeDeficit_def Let_def T_def [symmetric])
    moreover have "\<forall>k\<in>set ?o. 0 < w k" using assms(1) key_min_pos by (meson less_le_trans)
    ultimately show ?thesis
      using shrink_below_spec [of ?o ?d w] assms(2) False T by simp
  qed
  then show "total_of ?o v = (if M < total_of ?o w then max W M else W)" "k \<in> set ?o \<Longrightarrow> v k \<le> w k" "k \<notin> set ?o \<Longrightarrow> v k = w k"
    "M < total_of ?o w \<Longrightarrow> k \<in> set ?o \<Longrightarrow> key_min k \<le> v k" by blast+
qed

text \<open>
  Fitting the session panels to a container: panels that fit are left alone; panels that do
  not fit are shrunk, none below its minimum, to the width of the container or, if that is less than
  the minimum widths, to the minimum widths, so that one fit can leave an overflow; a second fit
  removes it by shrinking below the minimum.
\<close>

lemma session_fit:
  assumes "\<And>k. k \<in> set (getVisiblePanels b) \<Longrightarrow> key_min k \<le> w k" and "panels = getVisiblePanels b"
    and "v = fit_panels w panels (Some W)" and "M = total_of panels key_min"
  shows "(total_of panels w \<le> W \<longrightarrow> v = w) \<and>
    (W < total_of panels w \<longrightarrow> M < total_of panels w \<longrightarrow>
       total_of panels v = max W M \<and> (\<forall>k\<in>set panels. key_min k \<le> v k \<and> v k \<le> w k)) \<and>
    total_of panels (fit_panels v panels (Some W)) = min (total_of panels w) W"
proof (cases "total_of panels w \<le> W")
  case True
  then have "v = w" by (simp add: assms(3) fit_panels_def)
  with True show ?thesis by (simp add: fit_panels_def)
next
  case False
  then have W: "W < total_of (getVisiblePanels b) w" by (simp add: assms(2))
  note f = fit_cases [where b = b, OF assms(1) W assms(3) [unfolded assms(2)] assms(4) [unfolded assms(2)]]
  have "total_of panels (fit_panels v panels (Some W)) = W"
  proof (cases "total_of panels v \<le> W")
    case True
    then have "total_of panels v = W" using f(1) by (auto simp: assms(2) split: if_splits)
    then show ?thesis by (simp add: fit_panels_def)
  next
    case over: False
    then have M: "M < total_of panels w" "total_of panels v = M"
      using f(1) by (auto simp: assms(2) split: if_splits)
    have Wv: "W < total_of (getVisiblePanels b) v" using over by (simp add: assms(2))
    have "total_of (getVisiblePanels b) (fit_panels v (getVisiblePanels b) (Some W)) = W"
      using fit_cases(1) [where b = b and w = v, OF _ Wv refl refl] f(4) M by (simp add: assms(2,4))
    then show ?thesis by (simp add: assms(2))
  qed
  then show ?thesis using False f by (simp add: assms(2))
qed

lemma session_fit_witness:
  "total_of (getVisiblePanels True) (fit_panels key_default (getVisiblePanels True) (Some 780)) = 800"
proof -
  have "key_min k \<le> key_default k" for k by (cases k) simp_all
  then show ?thesis using session_fit [of True key_default, OF _ refl refl refl, of 780] by (auto simp: getVisiblePanels_def)
qed

end
