(* ===== verification/SingleFlight.thy ===== *)
theory SingleFlight
  imports Prelude
begin

text \<open>
  Operations that start requests and continue when a response arrives. \<open>flight\<close> is the set of
  reachable pairs of a state and the requests under way, when actions and responses come in any order;
  what runs on a response may start a further request. \<open>single_flight\<close> is the interface of a store
  that marks what it is fetching: an action starts requests for keys that are not marked only, and
  marks them; a response either removes the mark or starts a request for the same key. Then no key is
  ever requested twice at a time, and a mark means that a response is outstanding. \<open>flight_invariant\<close>
  is the interface of a state invariant under both kinds of steps.
\<close>

text \<open>A response that is not ok (with the \<open>error\<close> of its body), an exception (with its message, if it
  is an \<open>Error\<close>), or what was asked for.\<close>

datatype 'a outcome = FetchOk 'a | FetchNotOk "string option" | FetchThrew "string option"

inductive flight :: "('s \<Rightarrow> 'e \<Rightarrow> 's \<times> 'q list) \<Rightarrow> ('s \<Rightarrow> 'q \<Rightarrow> 'r \<Rightarrow> 's \<times> 'q list) \<Rightarrow> 's \<Rightarrow> 's \<times> 'q list \<Rightarrow> bool"
  for act :: "'s \<Rightarrow> 'e \<Rightarrow> 's \<times> 'q list" and settle :: "'s \<Rightarrow> 'q \<Rightarrow> 'r \<Rightarrow> 's \<times> 'q list" and s0 :: 's
where
  flight_init: "flight act settle s0 (s0, [])"
| flight_act: "flight act settle s0 (s, fl) \<Longrightarrow> act s e = (s', qs) \<Longrightarrow> flight act settle s0 (s', fl @ qs)"
| flight_settle: "flight act settle s0 (s, fl) \<Longrightarrow> q \<in> set fl \<Longrightarrow> settle s q r = (s', qs) \<Longrightarrow>
    flight act settle s0 (s', remove1 q fl @ qs)"

locale single_flight =
  fixes act :: "'s \<Rightarrow> 'e \<Rightarrow> 's \<times> 'q list"
    and settle :: "'s \<Rightarrow> 'q \<Rightarrow> 'r \<Rightarrow> 's \<times> 'q list"
    and s0 :: 's
    and busy :: "'s \<Rightarrow> 'k \<Rightarrow> bool"
    and key :: "'q \<Rightarrow> 'k"
  assumes busy_init: "\<not> busy s0 k"
    and act_busy: "act s e = (s', qs) \<Longrightarrow> distinct (map key qs) \<and>
      (\<forall>k. busy s' k \<longleftrightarrow> busy s k \<or> k \<in> key ` set qs) \<and> (\<forall>q\<in>set qs. \<not> busy s (key q))"
    and settle_busy: "settle s q r = (s', qs) \<Longrightarrow> busy s (key q) \<Longrightarrow> distinct (map key qs) \<and> key ` set qs \<subseteq> {key q} \<and>
      (\<forall>k. busy s' k \<longleftrightarrow> (if k = key q then qs \<noteq> [] else busy s k))"
begin

lemma flight_busy: "flight act settle s0 c \<Longrightarrow> distinct (map key (snd c)) \<and> (\<forall>k. busy (fst c) k \<longleftrightarrow> k \<in> key ` set (snd c))"
proof (induction rule: flight.induct)
  case flight_init
  then show ?case by (simp add: busy_init)
next
  case (flight_act s fl e s' qs)
  note a = act_busy [OF flight_act.hyps(2)]
  have "\<forall>k\<in>key ` set qs. \<not> busy s k" using a by blast
  moreover have "\<forall>k\<in>key ` set fl. busy s k" using flight_act.IH by simp
  ultimately have "key ` set fl \<inter> key ` set qs = {}" by blast
  with a flight_act.IH show ?case by (simp add: image_Un)
next
  case (flight_settle s fl q r s' qs)
  have d: "distinct (map key fl)" and b: "\<forall>k. busy s k \<longleftrightarrow> k \<in> key ` set fl" using flight_settle.IH by auto
  have rest: "key ` set (remove1 q fl) = key ` set fl - {key q}"
  proof -
    from split_list [OF flight_settle.hyps(2)] obtain us vs where fl: "fl = us @ q # vs" by blast
    with d have "q \<notin> set us" "key q \<notin> key ` set us" "key q \<notin> key ` set vs" by auto
    moreover from this have "remove1 q fl = us @ vs" by (simp add: fl remove1_append)
    ultimately show ?thesis by (simp only: fl set_append image_Un list.set image_insert) blast
  qed
  have d1: "distinct (map key (remove1 q fl))" using d by (simp add: distinct_map distinct_remove1 inj_on_def set_remove1_eq)
  have "busy s (key q)" using b flight_settle.hyps(2) by blast
  note st = settle_busy [OF flight_settle.hyps(3) this]
  have Q: "key ` set qs = (if qs = [] then {} else {key q})" using st by (cases qs) auto
  have "distinct (map key (remove1 q fl @ qs))"
    using d1 st unfolding map_append distinct_append set_map rest Q by auto
  moreover have "busy s' k \<longleftrightarrow> k \<in> key ` set (remove1 q fl @ qs)" for k
    using st b unfolding set_append image_Un rest Q by auto
  ultimately show ?case by simp
qed

end

locale flight_invariant =
  fixes act :: "'s \<Rightarrow> 'e \<Rightarrow> 's \<times> 'q list"
    and settle :: "'s \<Rightarrow> 'q \<Rightarrow> 'r \<Rightarrow> 's \<times> 'q list"
    and s0 :: 's
    and inv :: "'s \<Rightarrow> bool"
  assumes finv_init: "inv s0"
    and finv_act: "inv s \<Longrightarrow> inv (fst (act s e))"
    and finv_settle: "inv s \<Longrightarrow> inv (fst (settle s q r))"
begin

lemma flight_inv: "flight act settle s0 c \<Longrightarrow> inv (fst c)"
proof (induction rule: flight.induct)
  case flight_init
  then show ?case by (simp add: finv_init)
next
  case (flight_act s fl e s' qs)
  then show ?case using finv_act [of s e] by simp
next
  case (flight_settle s fl q r s' qs)
  then show ?case using finv_settle [of s q r] by simp
qed

end

end
