(* ===== verification/SessionStore.thy ===== *)
theory SessionStore
  imports SessionPanels Realtime TraceStore SingleFlight
begin

text \<open>
  The session view store: the slice \<open>components/traces/session-view/store/base.ts\<close> (state, every
  action, the panels) and the concrete store \<open>components/traces/session-view/store/index.tsx\<close>
  (session, timeline and search). The slice is generic over the store that spreads it, as the record
  \<open>session_view\<close> is extensible; \<open>session_store\<close> is the extension.

  \<open>fetchTraceSpans\<close> and \<open>searchSessionSpans\<close> are asynchronous. Each is split where the code waits:
  what runs up to the \<open>fetch\<close>, which returns the request, and what runs when the response is there,
  given its outcome. Other actions may run in between.
\<close>

section \<open>State\<close>

record session_selected =
  sel_traceId :: string
  sel_spanId :: string

record search_result =
  sr_traceId :: string
  sr_spans :: "span list"

record session_view =
  sv_projectId :: "string option"
  sv_traces :: "trace_row list"
  sv_isTracesLoading :: bool
  sv_tracesError :: "string option"
  sv_traceSpans :: "string \<Rightarrow> span list option"
  sv_traceSpansLoading :: "string \<Rightarrow> bool option"
  sv_traceSpansError :: "string \<Rightarrow> string option"
  sv_expandedTraceIds :: "string set"
  sv_transcriptExpandedGroups :: "string set"
  sv_traceViewModes :: "string \<Rightarrow> view_tab option"
  sv_traceShowTreeContent :: "string \<Rightarrow> bool option"
  sv_timelineOpenTraceIds :: "string set"
  sv_zoomByTrace :: "string \<Rightarrow> number option"
  sv_visibleByTrace :: "string \<Rightarrow> string set option"
  sv_isCostHeatmapVisible :: bool
  sv_scrollToGroup :: "(string \<times> string) option"
  sv_scrollToTraceId :: "string option"
  sv_scrollStartTime :: "number option"
  sv_scrollEndTime :: "number option"
  sv_searchResults :: "(string \<Rightarrow> search_result option) option"
  sv_isSearchLoading :: bool
  sv_searchError :: "string option"
  sv_selectedSpan :: "session_selected option"
  sv_spanPanelOpen :: bool
  sv_width :: session_widths
  sv_maxWidth :: "number option"

definition init_session_view :: session_view where
  "init_session_view = \<lparr>sv_projectId = None, sv_traces = [], sv_isTracesLoading = False, sv_tracesError = None,
     sv_traceSpans = Map.empty, sv_traceSpansLoading = Map.empty, sv_traceSpansError = Map.empty,
     sv_expandedTraceIds = {}, sv_transcriptExpandedGroups = {}, sv_traceViewModes = Map.empty,
     sv_traceShowTreeContent = Map.empty, sv_timelineOpenTraceIds = {}, sv_zoomByTrace = Map.empty,
     sv_visibleByTrace = Map.empty, sv_isCostHeatmapVisible = False, sv_scrollToGroup = None, sv_scrollToTraceId = None,
     sv_scrollStartTime = None, sv_scrollEndTime = None, sv_searchResults = None, sv_isSearchLoading = False,
     sv_searchError = None, sv_selectedSpan = None, sv_spanPanelOpen = False, sv_width = key_default, sv_maxWidth = None\<rparr>"

section \<open>Fetching the spans of a trace\<close>

record fetch_request =
  fr_projectId :: string
  fr_traceId :: string
  fr_startDate :: string
  fr_endDate :: string

definition fetchTraceSpans ::
  "(string \<Rightarrow> int) \<Rightarrow> (int \<Rightarrow> string) \<Rightarrow> trace_row \<Rightarrow> 'a session_view_scheme \<Rightarrow> 'a session_view_scheme \<times> fetch_request list" where
  "fetchTraceSpans ms iso' trace st =
     (case sv_projectId st of
        None \<Rightarrow> (st, [])
      | Some pid \<Rightarrow>
          if pid = [] \<or> sv_traceSpans st (tr_id trace) \<noteq> None \<or> sv_traceSpansLoading st (tr_id trace) = Some True then (st, [])
          else (st\<lparr>sv_traceSpansLoading := (sv_traceSpansLoading st)(tr_id trace \<mapsto> True),
                   sv_traceSpansError := (sv_traceSpansError st)(tr_id trace := None)\<rparr>,
                [\<lparr>fr_projectId = pid, fr_traceId = tr_id trace,
                  fr_startDate = iso' (ms (tr_startTime trace) - 1000), fr_endDate = iso' (ms (tr_endTime trace) + 1000)\<rparr>]))"

definition or_default :: "string \<Rightarrow> string option \<Rightarrow> string" where
  "or_default d x = (case x of None \<Rightarrow> d | Some s \<Rightarrow> if s = [] then d else s)"

definition settleTraceSpans ::
  "(string \<Rightarrow> int) \<Rightarrow> (int \<Rightarrow> string) \<Rightarrow> string \<Rightarrow> span list outcome \<Rightarrow> 'a session_view_scheme \<Rightarrow> 'a session_view_scheme" where
  "settleTraceSpans ms iso' tid res st =
     (let st' = (case res of
          FetchOk spans \<Rightarrow> st\<lparr>sv_traceSpans := (sv_traceSpans st)(tid \<mapsto> enrichSpansWithPending ms iso' spans)\<rparr>
        | FetchNotOk err \<Rightarrow> st\<lparr>sv_traceSpansError := (sv_traceSpansError st)(tid \<mapsto> or_default ''Failed to load spans'' err)\<rparr>
        | FetchThrew msg \<Rightarrow> st\<lparr>sv_traceSpansError := (sv_traceSpansError st)(tid \<mapsto>
             (case msg of None \<Rightarrow> ''Failed to load spans'' | Some m \<Rightarrow> m))\<rparr>)
      in st'\<lparr>sv_traceSpansLoading := (sv_traceSpansLoading st')(tid \<mapsto> False)\<rparr>)"

subsection \<open>Expanding traces\<close>

text \<open>The actions that expand traces call \<open>get().fetchTraceSpans\<close>: open recursion, the override of a
  derived store wins. Here \<open>fetch\<close> is what that call runs up to its first wait.\<close>

type_synonym ('a, 'q) fetch_hook = "trace_row \<Rightarrow> 'a session_view_scheme \<Rightarrow> 'a session_view_scheme \<times> 'q list"

definition fetch_listed :: "('a, 'q) fetch_hook \<Rightarrow> string \<Rightarrow> 'a session_view_scheme \<Rightarrow> 'a session_view_scheme \<times> 'q list" where
  "fetch_listed fetch tid st =
     (case find (\<lambda>t. tr_id t = tid) (sv_traces st) of None \<Rightarrow> (st, []) | Some trace \<Rightarrow> fetch trace st)"

definition toggleTraceExpanded :: "('a, 'q) fetch_hook \<Rightarrow> string \<Rightarrow> 'a session_view_scheme \<Rightarrow> 'a session_view_scheme \<times> 'q list" where
  "toggleTraceExpanded fetch tid st =
     (if tid \<notin> sv_expandedTraceIds st then fetch_listed fetch tid (st\<lparr>sv_expandedTraceIds := insert tid (sv_expandedTraceIds st)\<rparr>)
      else (st\<lparr>sv_expandedTraceIds := sv_expandedTraceIds st - {tid}, sv_scrollToTraceId := Some tid\<rparr>, []))"

definition setTraceExpanded ::
  "('a, 'q) fetch_hook \<Rightarrow> string \<Rightarrow> bool \<Rightarrow> 'a session_view_scheme \<Rightarrow> 'a session_view_scheme \<times> 'q list" where
  "setTraceExpanded fetch tid expanded st =
     (if expanded = (tid \<in> sv_expandedTraceIds st) then (st, [])
      else if expanded then fetch_listed fetch tid (st\<lparr>sv_expandedTraceIds := insert tid (sv_expandedTraceIds st)\<rparr>)
      else (st\<lparr>sv_expandedTraceIds := sv_expandedTraceIds st - {tid}\<rparr>, []))"

fun fetch_all :: "('a, 'q) fetch_hook \<Rightarrow> trace_row list \<Rightarrow> 'a session_view_scheme \<Rightarrow> 'a session_view_scheme \<times> 'q list" where
  "fetch_all fetch [] st = (st, [])"
| "fetch_all fetch (t # ts) st =
     (let (st1, qs) = fetch t st; (st2, rs) = fetch_all fetch ts st1 in (st2, qs @ rs))"

definition expandAllTraces :: "('a, 'q) fetch_hook \<Rightarrow> 'a session_view_scheme \<Rightarrow> 'a session_view_scheme \<times> 'q list" where
  "expandAllTraces fetch st = fetch_all fetch (sv_traces st) (st\<lparr>sv_expandedTraceIds := tr_id ` set (sv_traces st)\<rparr>)"

section \<open>The other actions\<close>

definition toggle_in :: "'a \<Rightarrow> 'a set \<Rightarrow> 'a set" where
  "toggle_in x A = (if x \<in> A then A - {x} else insert x A)"

definition upsertTraceSpan :: "string \<Rightarrow> span \<Rightarrow> 'a session_view_scheme \<Rightarrow> 'a session_view_scheme" where
  "upsertTraceSpan tid s st =
     (let existing = (case sv_traceSpans st tid of None \<Rightarrow> [] | Some xs \<Rightarrow> xs);
          next' = (if find (\<lambda>t. spanId t = spanId s) existing = None then existing @ [s]
                  else map (\<lambda>t. if spanId t = spanId s then s else t) existing)
      in st\<lparr>sv_traceSpans := (sv_traceSpans st)(tid \<mapsto> next')\<rparr>)"

definition group_key :: "string \<Rightarrow> string \<Rightarrow> string" where
  "group_key tid gid = tid @ ''::'' @ gid"

definition toggleSessionGroup :: "string \<Rightarrow> string \<Rightarrow> 'a session_view_scheme \<Rightarrow> 'a session_view_scheme" where
  "toggleSessionGroup tid gid st =
     st\<lparr>sv_transcriptExpandedGroups := toggle_in (group_key tid gid) (sv_transcriptExpandedGroups st)\<rparr>"

definition toggleTraceShowTreeContent :: "string \<Rightarrow> 'a session_view_scheme \<Rightarrow> 'a session_view_scheme" where
  "toggleTraceShowTreeContent tid st =
     (let current = (case sv_traceShowTreeContent st tid of None \<Rightarrow> True | Some b \<Rightarrow> b)
      in st\<lparr>sv_traceShowTreeContent := (sv_traceShowTreeContent st)(tid \<mapsto> \<not> current)\<rparr>)"

definition setTimelineOpen :: "string \<Rightarrow> bool \<Rightarrow> 'a session_view_scheme \<Rightarrow> 'a session_view_scheme" where
  "setTimelineOpen tid open' st =
     (if open' = (tid \<in> sv_timelineOpenTraceIds st) then st
      else st\<lparr>sv_timelineOpenTraceIds := (if open' then insert tid (sv_timelineOpenTraceIds st) else sv_timelineOpenTraceIds st - {tid})\<rparr>)"

definition setSessionZoom :: "string \<Rightarrow> number \<Rightarrow> 'a session_view_scheme \<Rightarrow> 'a session_view_scheme" where
  "setSessionZoom tid zoom st = st\<lparr>sv_zoomByTrace := (sv_zoomByTrace st)(tid \<mapsto> max MIN_ZOOM (min MAX_ZOOM zoom))\<rparr>"

definition toggleSpanCollapse :: "string \<Rightarrow> string \<Rightarrow> 'a session_view_scheme \<Rightarrow> 'a session_view_scheme" where
  "toggleSpanCollapse tid sid st =
     (case sv_traceSpans st tid of
        None \<Rightarrow> st
      | Some spans \<Rightarrow> st\<lparr>sv_traceSpans := (sv_traceSpans st)(tid \<mapsto>
          map (\<lambda>s. if spanId s = sid then s\<lparr>collapsed := \<not> collapsed s\<rparr> else s) spans)\<rparr>)"

definition fitPanelsToMaxWidth :: "'a session_view_scheme \<Rightarrow> 'a session_view_scheme" where
  "fitPanelsToMaxWidth st =
     st\<lparr>sv_width := fit_panels (sv_width st) (getVisiblePanels (sv_spanPanelOpen st)) (sv_maxWidth st)\<rparr>"

definition setSessionSelectedSpan :: "session_selected option \<Rightarrow> 'a session_view_scheme \<Rightarrow> 'a session_view_scheme" where
  "setSessionSelectedSpan sel st = fitPanelsToMaxWidth (st\<lparr>sv_selectedSpan := sel, sv_spanPanelOpen := (sel \<noteq> None)\<rparr>)"

definition setSessionSpanPanelOpen :: "bool \<Rightarrow> 'a session_view_scheme \<Rightarrow> 'a session_view_scheme" where
  "setSessionSpanPanelOpen open' st =
     (let st' = st\<lparr>sv_spanPanelOpen := open'\<rparr>
      in fitPanelsToMaxWidth (if open' then st' else st'\<lparr>sv_selectedSpan := None\<rparr>))"

definition setMaxWidth :: "number \<Rightarrow> 'a session_view_scheme \<Rightarrow> 'a session_view_scheme" where
  "setMaxWidth W st =
     (if (case sv_maxWidth st of None \<Rightarrow> False | Some current \<Rightarrow> \<bar>W - current\<bar> < 1) then st
      else fitPanelsToMaxWidth (st\<lparr>sv_maxWidth := Some W\<rparr>))"

definition resizePanel :: "panel_key \<Rightarrow> number \<Rightarrow> 'a session_view_scheme \<Rightarrow> 'a session_view_scheme" where
  "resizePanel p delta st =
     st\<lparr>sv_width := resize_panel (sv_width st) (getVisiblePanels (sv_spanPanelOpen st)) p delta (sv_maxWidth st)\<rparr>"

text \<open>\<open>setTraceSpansLoading\<close> is an action of the slice that nothing in the repository calls; it is the
  only one that writes the loading marks from outside and is left out of the state machine.\<close>

definition setTraceSpansLoading :: "string \<Rightarrow> bool \<Rightarrow> 'a session_view_scheme \<Rightarrow> 'a session_view_scheme" where
  "setTraceSpansLoading tid loading st = st\<lparr>sv_traceSpansLoading := (sv_traceSpansLoading st)(tid \<mapsto> loading)\<rparr>"

section \<open>The slice as a state machine\<close>

datatype session_action =
    SetProjectId "string option"
  | SetTraces "trace_row list \<Rightarrow> trace_row list"
  | SetIsTracesLoading bool
  | SetTracesError "string option"
  | FetchTraceSpans trace_row
  | ToggleTraceExpanded string
  | SetTraceExpanded string bool
  | ExpandAllTraces
  | SetTraceSpans string "span list"
  | UpsertTraceSpan string span
  | SetTraceSpansError string "string option"
  | ToggleSessionGroup string string
  | RequestScrollToSessionGroup string string
  | ConsumeScrollToSessionGroup
  | ConsumeScrollToTrace
  | SetTraceViewMode string view_tab
  | ToggleTraceShowTreeContent string
  | ToggleTimelineOpen string
  | SetTimelineOpen string bool
  | SetSessionZoom string number
  | SetTraceVisibleSpanIds string "string set"
  | ClearTraceSelection string
  | SetSessionHeatmap bool
  | ToggleSpanCollapse string string
  | SetSessionScrollRange "number option" "number option"
  | SetSessionSelectedSpan "session_selected option"
  | SetSessionSpanPanelOpen bool
  | ResizePanel panel_key number
  | SetMaxWidth number
  | FitPanelsToMaxWidth

fun session_act ::
  "('a, 'q) fetch_hook \<Rightarrow> 'a session_view_scheme \<Rightarrow> session_action \<Rightarrow> 'a session_view_scheme \<times> 'q list" where
  "session_act fetch st (SetProjectId p) = (st\<lparr>sv_projectId := p\<rparr>, [])"
| "session_act fetch st (SetTraces f) = (st\<lparr>sv_traces := f (sv_traces st)\<rparr>, [])"
| "session_act fetch st (SetIsTracesLoading b) = (st\<lparr>sv_isTracesLoading := b\<rparr>, [])"
| "session_act fetch st (SetTracesError e) = (st\<lparr>sv_tracesError := e\<rparr>, [])"
| "session_act fetch st (FetchTraceSpans t) = fetch t st"
| "session_act fetch st (ToggleTraceExpanded tid) = toggleTraceExpanded fetch tid st"
| "session_act fetch st (SetTraceExpanded tid b) = setTraceExpanded fetch tid b st"
| "session_act fetch st ExpandAllTraces = expandAllTraces fetch st"
| "session_act fetch st (SetTraceSpans tid ss) = (st\<lparr>sv_traceSpans := (sv_traceSpans st)(tid \<mapsto> ss)\<rparr>, [])"
| "session_act fetch st (UpsertTraceSpan tid s) = (upsertTraceSpan tid s st, [])"
| "session_act fetch st (SetTraceSpansError tid e) = (st\<lparr>sv_traceSpansError := (sv_traceSpansError st)(tid := e)\<rparr>, [])"
| "session_act fetch st (ToggleSessionGroup tid gid) = (toggleSessionGroup tid gid st, [])"
| "session_act fetch st (RequestScrollToSessionGroup tid gid) = (st\<lparr>sv_scrollToGroup := Some (tid, gid)\<rparr>, [])"
| "session_act fetch st ConsumeScrollToSessionGroup = (st\<lparr>sv_scrollToGroup := None\<rparr>, [])"
| "session_act fetch st ConsumeScrollToTrace = (st\<lparr>sv_scrollToTraceId := None\<rparr>, [])"
| "session_act fetch st (SetTraceViewMode tid m) = (st\<lparr>sv_traceViewModes := (sv_traceViewModes st)(tid \<mapsto> m)\<rparr>, [])"
| "session_act fetch st (ToggleTraceShowTreeContent tid) = (toggleTraceShowTreeContent tid st, [])"
| "session_act fetch st (ToggleTimelineOpen tid) = (st\<lparr>sv_timelineOpenTraceIds := toggle_in tid (sv_timelineOpenTraceIds st)\<rparr>, [])"
| "session_act fetch st (SetTimelineOpen tid b) = (setTimelineOpen tid b st, [])"
| "session_act fetch st (SetSessionZoom tid z) = (setSessionZoom tid z st, [])"
| "session_act fetch st (SetTraceVisibleSpanIds tid ids) = (st\<lparr>sv_visibleByTrace := (sv_visibleByTrace st)(tid \<mapsto> ids)\<rparr>, [])"
| "session_act fetch st (ClearTraceSelection tid) = (st\<lparr>sv_visibleByTrace := (sv_visibleByTrace st)(tid \<mapsto> {})\<rparr>, [])"
| "session_act fetch st (SetSessionHeatmap b) = (st\<lparr>sv_isCostHeatmapVisible := b\<rparr>, [])"
| "session_act fetch st (ToggleSpanCollapse tid sid) = (toggleSpanCollapse tid sid st, [])"
| "session_act fetch st (SetSessionScrollRange a b) = (st\<lparr>sv_scrollStartTime := a, sv_scrollEndTime := b\<rparr>, [])"
| "session_act fetch st (SetSessionSelectedSpan sel) = (setSessionSelectedSpan sel st, [])"
| "session_act fetch st (SetSessionSpanPanelOpen b) = (setSessionSpanPanelOpen b st, [])"
| "session_act fetch st (ResizePanel p d) = (resizePanel p d st, [])"
| "session_act fetch st (SetMaxWidth W) = (setMaxWidth W st, [])"
| "session_act fetch st FitPanelsToMaxWidth = (fitPanelsToMaxWidth st, [])"

subsection \<open>What the actions do to the requests under way\<close>

text \<open>From \<open>st\<close> to \<open>st'\<close> exactly the requests \<open>qs\<close> are started, for keys that were free.\<close>

definition starts :: "('s \<Rightarrow> string \<Rightarrow> bool) \<Rightarrow> ('q \<Rightarrow> string) \<Rightarrow> 's \<Rightarrow> 's \<Rightarrow> 'q list \<Rightarrow> bool" where
  "starts busy key st st' qs \<longleftrightarrow> distinct (map key qs) \<and> (\<forall>k. busy st' k \<longleftrightarrow> busy st k \<or> k \<in> key ` set qs) \<and>
     (\<forall>q\<in>set qs. \<not> busy st (key q))"

lemma starts_none: "busy st' = busy st \<Longrightarrow> starts busy key st st' []"
  by (simp add: starts_def)

lemma starts_trans: "starts busy key st st1 rs \<Longrightarrow> starts busy key st1 st2 qs \<Longrightarrow> starts busy key st st2 (rs @ qs)"
  unfolding starts_def by (auto simp: image_iff) metis+

lemma starts_from: "starts busy key st1 st' qs \<Longrightarrow> busy st1 = busy st \<Longrightarrow> starts busy key st st' qs"
  by (simp add: starts_def)

text \<open>Actions that fetch, and the others.\<close>

fun fetches :: "session_action \<Rightarrow> bool" where
  "fetches (FetchTraceSpans t) = True"
| "fetches (ToggleTraceExpanded t) = True"
| "fetches (SetTraceExpanded t b) = True"
| "fetches ExpandAllTraces = True"
| "fetches _ = False"

lemmas session_action_defs = upsertTraceSpan_def toggleSessionGroup_def toggleTraceShowTreeContent_def setTimelineOpen_def
  setSessionZoom_def toggleSpanCollapse_def fitPanelsToMaxWidth_def setSessionSelectedSpan_def setSessionSpanPanelOpen_def
  setMaxWidth_def resizePanel_def Let_def

definition session_inv :: "'a session_view_scheme \<Rightarrow> bool" where
  "session_inv st \<longleftrightarrow> (\<forall>t z. sv_zoomByTrace st t = Some z \<longrightarrow> MIN_ZOOM \<le> z \<and> z \<le> MAX_ZOOM) \<and>
     (sv_selectedSpan st \<noteq> None \<longrightarrow> sv_spanPanelOpen st)"

text \<open>The parts of the state the invariant reads.\<close>

definition inv_part :: "'a session_view_scheme \<Rightarrow> (string \<Rightarrow> number option) \<times> session_selected option \<times> bool" where
  "inv_part st = (sv_zoomByTrace st, sv_selectedSpan st, sv_spanPanelOpen st)"

lemma session_inv_part: "inv_part st' = inv_part st \<Longrightarrow> session_inv st' = session_inv st"
  by (simp add: inv_part_def session_inv_def)

lemma other_snd: "\<not> fetches a \<Longrightarrow> snd (session_act fetch st a) = []"
  by (cases a) (simp_all add: session_action_defs)

lemma other_inv: "\<not> fetches a \<Longrightarrow> session_inv st \<Longrightarrow> session_inv (fst (session_act fetch st a))"
  by (cases a) (auto simp: session_inv_def session_action_defs MIN_ZOOM_def MAX_ZOOM_def split: option.splits if_splits)

text \<open>
  The contract of a store that fills in \<open>fetchTraceSpans\<close>: it starts requests for free traces only and
  marks them, touches nothing the invariant reads, and the marks depend on nothing the other actions
  change. Then every action of the slice is well behaved.
\<close>

locale fetching_store =
  fixes fetch :: "('a, 'q) fetch_hook"
    and busy :: "'a session_view_scheme \<Rightarrow> string \<Rightarrow> bool"
    and key :: "'q \<Rightarrow> string"
  assumes fetch_starts: "fetch t st = (st', qs) \<Longrightarrow> starts busy key st st' qs"
    and fetch_part: "fetch t st = (st', qs) \<Longrightarrow> inv_part st' = inv_part st"
    and busy_expanded: "busy (st\<lparr>sv_expandedTraceIds := x\<rparr>) = busy st"
    and busy_scroll: "busy (st\<lparr>sv_scrollToTraceId := y\<rparr>) = busy st"
    and busy_other: "\<not> fetches a \<Longrightarrow> busy (fst (session_act fetch st a)) = busy st"
begin

lemma fetch_all_starts:
  "fetch_all fetch ts st = (st', rs) \<Longrightarrow> starts busy key st st' rs \<and> inv_part st' = inv_part st"
proof (induction ts arbitrary: st st' rs)
  case Nil
  then show ?case by (simp add: starts_none)
next
  case (Cons t ts)
  obtain st1 qs where 1: "fetch t st = (st1, qs)" by (metis surj_pair)
  obtain st2 rs' where 2: "fetch_all fetch ts st1 = (st2, rs')" by (metis surj_pair)
  from starts_trans [OF fetch_starts [OF 1] conjunct1 [OF Cons.IH [OF 2]]] fetch_part [OF 1] Cons.IH [OF 2] Cons.prems
  show ?case by (simp add: 1 2)
qed

lemma fetch_listed_starts:
  "fetch_listed fetch tid st = (st', rs) \<Longrightarrow> starts busy key st st' rs \<and> inv_part st' = inv_part st"
  by (auto simp: fetch_listed_def split: option.splits dest: fetch_starts fetch_part intro: starts_none)

lemma busy_collapse: "busy (st\<lparr>sv_expandedTraceIds := x, sv_scrollToTraceId := y\<rparr>) = busy st"
  using busy_scroll [of y "st\<lparr>sv_expandedTraceIds := x\<rparr>"] by (simp add: busy_expanded)

lemma inv_part_expanded: "inv_part (st\<lparr>sv_expandedTraceIds := x\<rparr>) = inv_part st"
  "inv_part (st\<lparr>sv_expandedTraceIds := x, sv_scrollToTraceId := y\<rparr>) = inv_part st"
  by (simp_all add: inv_part_def)

lemma setTraceExpanded_starts:
  "setTraceExpanded fetch tid b st = (st', rs) \<Longrightarrow> starts busy key st st' rs \<and> inv_part st' = inv_part st"
  by (auto simp: setTraceExpanded_def busy_expanded inv_part_expanded split: if_splits
      dest!: fetch_listed_starts intro!: starts_none elim!: starts_from)

lemma fetching_starts:
  assumes "fetches a" and "session_act fetch st a = (st', rs)"
  shows "starts busy key st st' rs \<and> inv_part st' = inv_part st"
  using assms
proof (cases a)
  case (ToggleTraceExpanded t)
  with assms show ?thesis
    by (auto simp: toggleTraceExpanded_def busy_expanded busy_collapse inv_part_expanded split: if_splits
        dest!: fetch_listed_starts intro!: starts_none elim!: starts_from)
next
  case ExpandAllTraces
  with assms show ?thesis
    by (auto simp: expandAllTraces_def busy_expanded inv_part_expanded dest!: fetch_all_starts elim!: starts_from)
qed (auto dest: fetch_starts fetch_part setTraceExpanded_starts)

lemma action_starts: "session_act fetch st a = (st', rs) \<Longrightarrow> starts busy key st st' rs"
proof (cases "fetches a")
  case True
  then show "session_act fetch st a = (st', rs) \<Longrightarrow> ?thesis" using fetching_starts by blast
next
  case False
  assume a: "session_act fetch st a = (st', rs)"
  have "rs = []" "busy st' = busy st" using other_snd [OF False, of fetch st] busy_other [OF False, of st] by (simp_all add: a)
  then show ?thesis by (simp add: starts_none)
qed

lemma action_inv: "session_inv st \<Longrightarrow> session_inv (fst (session_act fetch st a))"
proof (cases "fetches a")
  case True
  obtain st' rs where a: "session_act fetch st a = (st', rs)" by (metis surj_pair)
  then have "inv_part st' = inv_part st" using fetching_starts [OF True a] by blast
  from session_inv_part [OF this] show "session_inv st \<Longrightarrow> ?thesis" by (simp add: a)
qed (rule other_inv)

end

subsection \<open>The session view\<close>

definition is_loading :: "'a session_view_scheme \<Rightarrow> string \<Rightarrow> bool" where
  "is_loading st tid \<longleftrightarrow> sv_traceSpansLoading st tid = Some True"

lemma fetchTraceSpans_starts: "fetchTraceSpans ms iso' t st = (st', qs) \<Longrightarrow> starts is_loading fr_traceId st st' qs"
  by (auto simp: fetchTraceSpans_def starts_def is_loading_def split: option.splits if_splits)

interpretation session_fetching: fetching_store "fetchTraceSpans ms iso'" is_loading fr_traceId
proof
  show "inv_part st' = inv_part st" if "fetchTraceSpans ms iso' t st = (st', qs)" for t and st st' :: "'a session_view_scheme" and qs
    using that by (auto simp: fetchTraceSpans_def inv_part_def split: option.splits if_splits)
  show "is_loading (fst (session_act (fetchTraceSpans ms iso') st a)) = is_loading st"
    if "\<not> fetches a" for a and st :: "'a session_view_scheme"
    using that by (intro ext, cases a) (simp_all add: is_loading_def session_action_defs split: option.splits)
qed (auto simp: fetchTraceSpans_starts is_loading_def fun_eq_iff)

definition session_settle ::
  "(string \<Rightarrow> int) \<Rightarrow> (int \<Rightarrow> string) \<Rightarrow> session_view \<Rightarrow> fetch_request \<Rightarrow> span list outcome \<Rightarrow> session_view \<times> fetch_request list" where
  "session_settle ms iso' st q r = (settleTraceSpans ms iso' (fr_traceId q) r st, [])"

lemma settle_loading: "is_loading (settleTraceSpans ms iso' k r st) k' \<longleftrightarrow> is_loading st k' \<and> k' \<noteq> k"
  by (auto simp: settleTraceSpans_def is_loading_def Let_def split: outcome.splits)

interpretation session_flight:
  single_flight "session_act (fetchTraceSpans ms iso')" "session_settle ms iso'" init_session_view is_loading fr_traceId
proof
  show "\<not> is_loading init_session_view k" for k by (simp add: is_loading_def init_session_view_def)
  show "distinct (map fr_traceId qs) \<and> (\<forall>k. is_loading s' k \<longleftrightarrow> is_loading s k \<or> k \<in> fr_traceId ` set qs) \<and>
      (\<forall>q\<in>set qs. \<not> is_loading s (fr_traceId q))" if "session_act (fetchTraceSpans ms iso') s e = (s', qs)" for s s' :: session_view and e qs
    using session_fetching.action_starts [OF that] by (simp add: starts_def)
qed (auto simp: session_settle_def settle_loading)

interpretation session_states:
  flight_invariant "session_act (fetchTraceSpans ms iso')" "session_settle ms iso'" init_session_view session_inv
proof
  show "session_inv init_session_view" by (simp add: session_inv_def init_session_view_def)
  show "session_inv (fst (session_settle ms iso' s q r))" if "session_inv s" for s q r
    using that by (auto simp: session_settle_def settleTraceSpans_def session_inv_def Let_def split: outcome.splits)
qed (rule session_fetching.action_inv)

text \<open>
  However actions and responses of the session view interleave, no trace is being fetched
  twice at a time, a trace is marked as loading exactly while its response is outstanding, every
  timeline zoom is between 1 and 25, and a selected span means that the span panel is open.
\<close>
lemma session_single_flight:
  assumes "flight (session_act (fetchTraceSpans ms iso')) (session_settle ms iso') init_session_view (st, inflight)"
  shows "distinct (map fr_traceId inflight) \<and> (sv_traceSpansLoading st t = Some True \<longleftrightarrow> t \<in> fr_traceId ` set inflight) \<and>
    (case sv_zoomByTrace st t of None \<Rightarrow> True | Some z \<Rightarrow> 1 \<le> z \<and> z \<le> 25) \<and>
    (sv_selectedSpan st = None \<or> sv_spanPanelOpen st)"
  using session_flight.flight_busy [OF assms] session_states.flight_inv [OF assms]
  by (auto simp: is_loading_def session_inv_def MIN_ZOOM_def MAX_ZOOM_def split: option.splits)

definition demo_row :: trace_row where
  "demo_row = mk_trace ''t1'' ''0'' ''1''"

definition demo_request :: fetch_request where
  "demo_request = \<lparr>fr_projectId = ''p'', fr_traceId = ''t1'', fr_startDate = [], fr_endDate = []\<rparr>"

abbreviation demo_loading :: session_view where
  "demo_loading \<equiv> fst (session_act (fetchTraceSpans (\<lambda>_. 0) (\<lambda>_. [])) (init_session_view\<lparr>sv_projectId := Some ''p''\<rparr>) (FetchTraceSpans demo_row))"

lemma demo_flight:
  "flight (session_act (fetchTraceSpans (\<lambda>_. 0) (\<lambda>_. []))) (session_settle (\<lambda>_. 0) (\<lambda>_. [])) init_session_view (demo_loading, [demo_request])"
proof -
  let ?act = "session_act (fetchTraceSpans (\<lambda>_. 0) (\<lambda>_. []))"
  let ?f = "flight ?act (session_settle (\<lambda>_. 0) (\<lambda>_. [])) init_session_view"
  have "?f (init_session_view\<lparr>sv_projectId := Some ''p''\<rparr>, [] @ [])"
    by (rule flight_act [OF flight_init, where e = "SetProjectId (Some ''p'')"]) simp
  then have 1: "?f (init_session_view\<lparr>sv_projectId := Some ''p''\<rparr>, [])" by simp
  have 2: "?act (init_session_view\<lparr>sv_projectId := Some ''p''\<rparr>) (FetchTraceSpans demo_row) = (demo_loading, [demo_request])"
    by (simp add: fetchTraceSpans_def init_session_view_def demo_row_def demo_request_def)
  from flight_act [OF 1 2] show ?thesis by simp
qed

lemma session_single_flight_witness: "sv_traceSpansLoading demo_loading ''t1'' = Some True"
  using session_single_flight [OF demo_flight, where t = "''t1''"] by (simp add: demo_request_def)

text \<open>
  A fetch always settles: when the response to an outstanding request arrives, whatever its
  outcome and whatever happened in between, the trace is no longer marked as loading and no other mark
  changes; a good response leaves the spans of the trace, completed with their pending ancestors; a
  failure leaves the spans as they were and an error, and if the trace has no spans yet a later
  expansion fetches them again.
\<close>

lemma session_fetch_settles:
  assumes "flight (session_act (fetchTraceSpans ms iso')) (session_settle ms iso') init_session_view (st, inflight)"
    and "q \<in> set inflight" and "st' = settleTraceSpans ms iso' tid res st" and "tid = fr_traceId q"
  shows "flight (session_act (fetchTraceSpans ms iso')) (session_settle ms iso') init_session_view (st', remove1 q inflight) \<and>
    tid \<notin> fr_traceId ` set (remove1 q inflight) \<and> sv_traceSpansLoading st' tid = Some False \<and>
    (\<forall>k. k \<noteq> tid \<longrightarrow> sv_traceSpansLoading st' k = sv_traceSpansLoading st k) \<and>
    (case res of
       FetchOk spans \<Rightarrow> sv_traceSpans st' = (sv_traceSpans st)(tid \<mapsto> enrichSpansWithPending ms iso' spans)
     | _ \<Rightarrow> sv_traceSpans st' = sv_traceSpans st \<and> sv_traceSpansError st' tid \<noteq> None \<and>
         (\<forall>trace p. tr_id trace = tid \<longrightarrow> sv_traceSpans st tid = None \<longrightarrow> sv_projectId st = Some p \<longrightarrow> p \<noteq> [] \<longrightarrow>
            snd (fetchTraceSpans ms iso' trace st') \<noteq> []))"
proof -
  have "flight (session_act (fetchTraceSpans ms iso')) (session_settle ms iso') init_session_view (st', remove1 q inflight @ [])"
    by (rule flight_settle [OF assms(1,2), where r = res]) (simp add: session_settle_def assms(3,4))
  then have a: "flight (session_act (fetchTraceSpans ms iso')) (session_settle ms iso') init_session_view (st', remove1 q inflight)"
    by simp
  have c: "sv_traceSpansLoading st' tid = Some False"
    "\<forall>k. k \<noteq> tid \<longrightarrow> sv_traceSpansLoading st' k = sv_traceSpansLoading st k"
    by (cases res; simp add: assms(3) settleTraceSpans_def)+
  have "\<not> is_loading st' tid" by (simp add: is_loading_def c(1))
  then have b: "tid \<notin> fr_traceId ` set (remove1 q inflight)" using session_flight.flight_busy [OF a] unfolding fst_conv snd_conv by blast
  have d: "case res of
       FetchOk spans \<Rightarrow> sv_traceSpans st' = (sv_traceSpans st)(tid \<mapsto> enrichSpansWithPending ms iso' spans)
     | _ \<Rightarrow> sv_traceSpans st' = sv_traceSpans st \<and> sv_traceSpansError st' tid \<noteq> None \<and>
         (\<forall>trace p. tr_id trace = tid \<longrightarrow> sv_traceSpans st tid = None \<longrightarrow> sv_projectId st = Some p \<longrightarrow> p \<noteq> [] \<longrightarrow>
            snd (fetchTraceSpans ms iso' trace st') \<noteq> [])"
    by (cases res) (simp_all add: assms(3) settleTraceSpans_def fetchTraceSpans_def)
  show ?thesis by (intro conjI a b c d)
qed

lemma session_fetch_settles_witness:
  "sv_traceSpansLoading (settleTraceSpans (\<lambda>_. 0) (\<lambda>_. []) ''t1'' (FetchNotOk None) demo_loading) ''t1'' = Some False"
  by (rule session_fetch_settles [OF demo_flight _ refl, of demo_request "''t1''", THEN conjunct2, THEN conjunct2, THEN conjunct1])
    (simp_all add: demo_request_def)

section \<open>The concrete store\<close>

record session_summary =
  sm_sessionId :: string
  sm_startTime :: "string option"
  sm_endTime :: "string option"
  sm_totalTokens :: "number option"
  sm_totalCost :: "number option"
  sm_traceCount :: "number option"

record session_store = session_view +
  ss_session :: "session_summary option"
  ss_timelineEnabled :: bool
  ss_timelineZoom :: number

definition createSessionViewStore :: "session_summary option \<Rightarrow> session_store" where
  "createSessionViewStore initialSession =
     session_view.extend init_session_view \<lparr>ss_session = initialSession, ss_timelineEnabled = False, ss_timelineZoom = 1\<rparr>"

definition setSession :: "session_summary option \<Rightarrow> session_store \<Rightarrow> session_store" where
  "setSession s st = st\<lparr>ss_session := s\<rparr>"

definition setSessionTimelineEnabled :: "bool \<Rightarrow> session_store \<Rightarrow> session_store" where
  "setSessionTimelineEnabled b st = st\<lparr>ss_timelineEnabled := b\<rparr>"

definition setSessionTimelineZoom :: "number \<Rightarrow> session_store \<Rightarrow> session_store" where
  "setSessionTimelineZoom z st = st\<lparr>ss_timelineZoom := max MIN_ZOOM (min MAX_ZOOM z)\<rparr>"

text \<open>The search: the request carries the serialised filters.\<close>

record search_request =
  sq_projectId :: string
  sq_sessionId :: string
  sq_search :: "string option"
  sq_filters :: "string list"

definition searchSessionSpans :: "string list \<Rightarrow> string \<Rightarrow> session_store \<Rightarrow> session_store \<times> search_request option" where
  "searchSessionSpans filters search st =
     (case (sv_projectId st, ss_session st) of
        (Some pid, Some s) \<Rightarrow>
          if pid = [] \<or> sm_sessionId s = [] then (st, None)
          else (st\<lparr>sv_isSearchLoading := True, sv_searchError := None\<rparr>,
                Some \<lparr>sq_projectId = pid, sq_sessionId = sm_sessionId s,
                      sq_search = (if search = [] then None else Some search), sq_filters = filters\<rparr>)
      | _ \<Rightarrow> (st, None))"

definition settleSearch :: "search_result list outcome \<Rightarrow> session_store \<Rightarrow> session_store" where
  "settleSearch res st =
     (case res of
        FetchOk traces \<Rightarrow> st\<lparr>sv_searchResults := Some (foldl (\<lambda>m t. m(sr_traceId t \<mapsto> t)) Map.empty traces), sv_isSearchLoading := False\<rparr>
      | FetchNotOk err \<Rightarrow> st\<lparr>sv_searchError := Some (or_default ''Search failed'' err), sv_isSearchLoading := False\<rparr>
      | FetchThrew msg \<Rightarrow> st\<lparr>sv_searchError := Some (case msg of None \<Rightarrow> ''Search failed'' | Some m \<Rightarrow> m), sv_isSearchLoading := False\<rparr>)"

definition clearSearch :: "session_store \<Rightarrow> session_store" where
  "clearSearch st = st\<lparr>sv_searchResults := None, sv_isSearchLoading := False, sv_searchError := None\<rparr>"

text \<open>A response that arrives after the search was cleared puts the view back into search mode: the
  continuation does not look at what happened in between.\<close>

lemma cleared_search_comes_back:
  "sv_searchResults (settleSearch (FetchOk traces) (clearSearch (fst (searchSessionSpans filters search st)))) \<noteq> None"
  by (simp add: settleSearch_def)

text \<open>What is kept in the browser's storage: \<open>partialize\<close> and \<open>merge\<close>. The stored object is a map of
  values; a value of another type is ignored.\<close>

definition partialize_session :: "session_store \<Rightarrow> attrs" where
  "partialize_session st = [''sessionPanelWidth'' \<mapsto> ANum (sv_width st SessionPanelWidth), ''spanPanelWidth'' \<mapsto> ANum (sv_width st SpanPanelWidth),
     ''sessionTimelineEnabled'' \<mapsto> ABool (ss_timelineEnabled st), ''sessionTimelineZoom'' \<mapsto> ANum (ss_timelineZoom st)]"

definition merge_width :: "attrs \<Rightarrow> string \<Rightarrow> panel_key \<Rightarrow> 'a session_view_scheme \<Rightarrow> 'a session_view_scheme" where
  "merge_width persisted key k st =
     (case persisted key of Some (ANum n) \<Rightarrow> st\<lparr>sv_width := (sv_width st)(k := n)\<rparr> | _ \<Rightarrow> st)"

definition merge_session :: "attrs \<Rightarrow> session_store \<Rightarrow> session_store" where
  "merge_session persisted current =
     (let s1 = merge_width persisted ''sessionPanelWidth'' SessionPanelWidth current;
          s2 = merge_width persisted ''spanPanelWidth'' SpanPanelWidth s1;
          s3 = (case persisted ''sessionTimelineEnabled'' of Some (ABool b) \<Rightarrow> s2\<lparr>ss_timelineEnabled := b\<rparr> | _ \<Rightarrow> s2)
      in case persisted ''sessionTimelineZoom'' of Some (ANum z) \<Rightarrow> s3\<lparr>ss_timelineZoom := z\<rparr> | _ \<Rightarrow> s3)"

text \<open>
  What the session view stores it reads back: merging the stored part of a store into a
  fresh one restores the widths of both panels and the timeline's switch and zoom, and changes nothing
  else; merging a value that is missing or of the wrong type changes nothing.
\<close>

lemma persisted_session_roundtrip:
  "merge_session (partialize_session st) current =
     current\<lparr>sv_width := sv_width st, ss_timelineEnabled := ss_timelineEnabled st, ss_timelineZoom := ss_timelineZoom st\<rparr> \<and>
   merge_session [''sessionPanelWidth'' \<mapsto> AStr v, ''sessionTimelineZoom'' \<mapsto> ABool b, ''spanPanelWidth'' \<mapsto> AOther] current = current"
proof -
  have "(w(SessionPanelWidth := sv_width st SessionPanelWidth))(SpanPanelWidth := sv_width st SpanPanelWidth) = sv_width st"
    for w :: session_widths
  proof
    fix k show "((w(SessionPanelWidth := sv_width st SessionPanelWidth))(SpanPanelWidth := sv_width st SpanPanelWidth)) k = sv_width st k"
      by (cases k) simp_all
  qed
  then show ?thesis by (simp add: merge_session_def partialize_session_def merge_width_def Let_def)
qed

end
