(* ===== verification/SessionRows.thy ===== *)
theory SessionRows
  imports SessionStore Transcript
begin

text \<open>
  The flat row list of the session panel, \<open>components/traces/session-view/utils.ts\<close>: from the state of
  the session view store, the headers of the traces, the rows of the expanded ones (loading, error,
  transcript or tree) and, while a search is active, the matching spans.

  \<open>ck\<close> is the collation key of timestamps the transcript uses. \<open>None\<close> is returned when a walk over the
  parent links of an expanded tree does not end.
\<close>

datatype session_row =
    RHeader trace_row bool
  | RLoading string
  | RError string string
  | REmpty string
  | RUserInput string
  | RSpan string list_span
  | RGroupHeader string list_group bool
  | RGroupSpan string list_span bool
  | RTreeSpan string span nat "bool list" bool
  | RCollapsedBody string
  | RCollapsedEnd string "int option"
  | RExpandedEnd string "int option"

definition computeTranscriptEntries :: "(string \<Rightarrow> 'c::linorder) \<Rightarrow> span list \<Rightarrow> entry list" where
  "computeTranscriptEntries ck spans = buildTranscriptListEntries ck spans {}"

section \<open>The rows of a transcript\<close>

fun child_of_group :: "string \<Rightarrow> entry \<Rightarrow> bool" where
  "child_of_group gid (EGroupSpan s g b) \<longleftrightarrow> g = gid"
| "child_of_group gid (EGroupInput g l) \<longleftrightarrow> g = gid"
| "child_of_group gid _ \<longleftrightarrow> False"

fun child_row :: "string \<Rightarrow> bool \<Rightarrow> entry \<Rightarrow> session_row list" where
  "child_row tid isLast (EGroupSpan s g b) = [RGroupSpan tid s isLast]"
| "child_row tid isLast _ = []"

definition child_rows :: "string \<Rightarrow> entry list \<Rightarrow> session_row list" where
  "child_rows tid children = concat (map (\<lambda>i. child_row tid (i = length children - 1) (children ! i)) [0..<length children])"

fun entry_rows :: "string \<Rightarrow> string set \<Rightarrow> entry list \<Rightarrow> entry \<Rightarrow> session_row list" where
  "entry_rows tid expanded entries (ESpan s) = [RSpan tid s]"
| "entry_rows tid expanded entries (EGroup g) =
     (let collapsed' = group_key tid (lg_groupId g) \<notin> expanded in
      RGroupHeader tid g collapsed' #
        (if collapsed' then [] else child_rows tid (filter (child_of_group (lg_groupId g)) entries)))"
| "entry_rows tid expanded entries _ = []"

definition transcript_rows :: "string \<Rightarrow> string set \<Rightarrow> entry list \<Rightarrow> session_row list" where
  "transcript_rows tid expanded entries = concat (map (entry_rows tid expanded entries) entries)"

section \<open>The rows of a trace\<close>

definition tree_span_row :: "string \<Rightarrow> tree_row \<Rightarrow> session_row" where
  "tree_span_row tid r = RTreeSpan tid (row_span r) (row_depth r) (row_branchMask r) (row_hasChildren r)"

definition gap_ms :: "(string \<Rightarrow> int) \<Rightarrow> trace_row \<Rightarrow> trace_row list \<Rightarrow> int option" where
  "gap_ms ms t rest = (case rest of [] \<Rightarrow> None | n # _ \<Rightarrow> Some (ms (tr_startTime n) - ms (tr_endTime t)))"

definition trace_body ::
  "(string \<Rightarrow> 'c::linorder) \<Rightarrow> 'a session_view_scheme \<Rightarrow> string \<Rightarrow> session_row list option" where
  "trace_body ck st tid =
     (case sv_traceSpansError st tid of
        Some (c # cs) \<Rightarrow> Some [RError tid (c # cs)]
      | _ \<Rightarrow>
          (case sv_traceSpans st tid of
             None \<Rightarrow> Some [RLoading tid]
           | Some [] \<Rightarrow> Some [REmpty tid]
           | Some spans \<Rightarrow>
               (if sv_traceViewModes st tid = Some Tree then
                  Option.bind (computePathInfoMap spans) (\<lambda>pim.
                  Option.bind (transformSpansToTree spans (map_of pim)) (\<lambda>rows.
                  Some (RUserInput tid # map (tree_span_row tid) rows)))
                else Some (RUserInput tid # transcript_rows tid (sv_transcriptExpandedGroups st) (computeTranscriptEntries ck spans)))))"

definition trace_rows ::
  "(string \<Rightarrow> int) \<Rightarrow> (string \<Rightarrow> 'c::linorder) \<Rightarrow> 'a session_view_scheme \<Rightarrow> trace_row \<Rightarrow> trace_row list \<Rightarrow> session_row list option" where
  "trace_rows ms ck st t rest =
     (let tid = tr_id t; gap = gap_ms ms t rest; expanded = tid \<in> sv_expandedTraceIds st in
      if \<not> expanded then Some [RHeader t False, RCollapsedBody tid, RCollapsedEnd tid gap]
      else map_option (\<lambda>body. RHeader t True # body @ [RExpandedEnd tid gap]) (trace_body ck st tid))"

fun session_rows_loop ::
  "(string \<Rightarrow> int) \<Rightarrow> (string \<Rightarrow> 'c::linorder) \<Rightarrow> 'a session_view_scheme \<Rightarrow> trace_row list \<Rightarrow> session_row list option" where
  "session_rows_loop ms ck st [] = Some []"
| "session_rows_loop ms ck st (t # rest) =
     Option.bind (trace_rows ms ck st t rest) (\<lambda>xs.
     Option.bind (session_rows_loop ms ck st rest) (\<lambda>ys. Some (xs @ ys)))"

definition search_trace_rows :: "(string \<Rightarrow> search_result option) \<Rightarrow> trace_row \<Rightarrow> session_row list" where
  "search_trace_rows results t =
     (case results (tr_id t) of
        None \<Rightarrow> []
      | Some r \<Rightarrow>
          if sr_spans r = [] then []
          else RHeader t True # map (\<lambda>s. RSpan (tr_id t) (toLightweight s)) (filter (\<lambda>s. spanType s \<noteq> DEFAULT) (sr_spans r))
                 @ [RExpandedEnd (tr_id t) None])"

definition buildSearchFlatRows :: "trace_row list \<Rightarrow> (string \<Rightarrow> search_result option) \<Rightarrow> session_row list" where
  "buildSearchFlatRows traces results = concat (map (search_trace_rows results) traces)"

definition buildSessionFlatRows ::
  "(string \<Rightarrow> int) \<Rightarrow> (string \<Rightarrow> 'c::linorder) \<Rightarrow> 'a session_view_scheme \<Rightarrow> session_row list option" where
  "buildSessionFlatRows ms ck st =
     (case sv_searchResults st of
        Some results \<Rightarrow> Some (buildSearchFlatRows (sv_traces st) results)
      | None \<Rightarrow> session_rows_loop ms ck st (sv_traces st))"

section \<open>A transcript, block by block\<close>

text \<open>The reference: every block of the transcript is rendered on its own.\<close>

definition group_span_rows :: "string \<Rightarrow> list_span list \<Rightarrow> session_row list" where
  "group_span_rows tid xs = map (\<lambda>i. RGroupSpan tid (xs ! i) (i = length xs - 1)) [0..<length xs]"

fun block_rows :: "string \<Rightarrow> string set \<Rightarrow> entry list \<Rightarrow> session_row list" where
  "block_rows tid expanded [ESpan s] = [RSpan tid s]"
| "block_rows tid expanded (EGroup g # rest) =
     (if group_key tid (lg_groupId g) \<in> expanded
      then RGroupHeader tid g False # group_span_rows tid (spans_of_entries rest)
      else [RGroupHeader tid g True])"
| "block_rows tid expanded _ = []"

lemma child_rows_block:
  "child_rows tid (EGroupInput gid l # group_rows gid xs) = group_span_rows tid xs"
proof -
  let ?cs = "EGroupInput gid l # group_rows gid xs"
  have l: "length ?cs = Suc (length xs)" by (simp add: group_rows_def)
  have "child_rows tid ?cs = concat (map (\<lambda>i. child_row tid (i = length xs) (?cs ! i)) (0 # map Suc [0..<length xs]))"
    unfolding child_rows_def l by (simp add: upt_conv_Cons map_Suc_upt del: upt_Suc)
  also have "\<dots> = concat (map (\<lambda>i. child_row tid (Suc i = length xs) (group_rows gid xs ! i)) [0..<length xs])"
    by (simp add: o_def)
  also have "\<dots> = concat (map (\<lambda>i. [RGroupSpan tid (xs ! i) (Suc i = length xs)]) [0..<length xs])"
    by (intro arg_cong [where f = concat] map_cong refl) (simp add: group_rows_def)
  also have "\<dots> = map (\<lambda>i. RGroupSpan tid (xs ! i) (Suc i = length xs)) [0..<length xs]" by (simp add: concat_map_singleton)
  also have "\<dots> = group_span_rows tid xs" unfolding group_span_rows_def by (rule map_cong) auto
  finally show ?thesis .
qed

lemma block_cases:
  assumes "block_ok b"
  obtains (single) s where "b = [ESpan s]"
  | (group) g l xs where "b = EGroup g # EGroupInput (lg_groupId g) l # group_rows (lg_groupId g) xs"
  using assms by (cases b rule: block_ok.cases) auto

lemma group_ids_group_rows [simp]: "group_ids (group_rows g xs) = []"
  by (simp add: group_rows_def)

lemma filter_group_rows: "filter (child_of_group gid) (group_rows gid' xs) = (if gid = gid' then group_rows gid' xs else [])"
  by (auto simp: group_rows_def filter_empty_conv intro!: filter_True)

lemma block_children:
  "block_ok b \<Longrightarrow> filter (child_of_group gid) b = (if gid \<in> set (group_ids b) then tl b else [])"
  by (erule block_cases) (auto simp: filter_group_rows)

lemma group_ids_concat: "group_ids (concat bs) = concat (map group_ids bs)"
  by (induction bs) auto

lemma children_of_block:
  assumes "\<forall>b\<in>set bs. block_ok b" and "distinct (group_ids (concat bs))" and "b \<in> set bs" and "gid \<in> set (group_ids b)"
  shows "filter (child_of_group gid) (concat bs) = tl b"
proof -
  from split_list [OF assms(3)] obtain us vs where bs: "bs = us @ b # vs" by blast
  have "gid \<notin> set (group_ids (concat us))" "gid \<notin> set (group_ids (concat vs))"
    using assms(2,4) by (auto simp: bs)
  then have "filter (child_of_group gid) (concat us) = []" "filter (child_of_group gid) (concat vs) = []"
    using assms(1) by (auto simp: bs filter_concat group_ids_concat block_children)
  then show ?thesis using block_children [of b gid] assms(1,3,4) by (simp add: bs)
qed

lemma entry_rows_group_rows: "concat (map (entry_rows tid expanded entries) (group_rows g xs)) = []"
  by (simp add: group_rows_def)

lemma concat_map_concat: "concat (map f (concat xss)) = concat (map (\<lambda>xs. concat (map f xs)) xss)"
  by (induction xss) simp_all

lemma transcript_blocks:
  assumes "\<forall>b\<in>set bs. block_ok b" and "distinct (group_ids (concat bs))"
  shows "transcript_rows tid expanded (concat bs) = concat (map (block_rows tid expanded) bs)"
proof -
  have "concat (map (entry_rows tid expanded (concat bs)) b) = block_rows tid expanded b" if b: "b \<in> set bs" for b
  proof -
    from assms(1) b have "block_ok b" by blast
    then show ?thesis
    proof (cases rule: block_cases)
      case (single s)
      then show ?thesis by simp
    next
      case (group g l xs)
      have "filter (child_of_group (lg_groupId g)) (concat bs) = EGroupInput (lg_groupId g) l # group_rows (lg_groupId g) xs"
        using children_of_block [OF assms b, of "lg_groupId g"] group by simp
      then show ?thesis by (simp add: group child_rows_block entry_rows_group_rows Let_def)
    qed
  qed
  then have "concat (map (\<lambda>b. concat (map (entry_rows tid expanded (concat bs)) b)) bs) = concat (map (block_rows tid expanded) bs)"
    by (intro arg_cong [where f = concat] map_cong) auto
  then show ?thesis by (simp add: transcript_rows_def concat_map_concat)
qed

text \<open>The spans shown by a list of rows.\<close>

fun row_spans :: "session_row \<Rightarrow> list_span list" where
  "row_spans (RSpan tid s) = [s]"
| "row_spans (RGroupSpan tid s l) = [s]"
| "row_spans _ = []"

definition spans_shown :: "session_row list \<Rightarrow> list_span list" where
  "spans_shown rows = concat (map row_spans rows)"

lemma spans_shown_group [simp]: "spans_shown (group_span_rows tid xs) = xs"
proof -
  have "concat (map row_spans (map (\<lambda>i. RGroupSpan tid (xs ! i) (P i)) js)) = map ((!) xs) js" for P and js :: "nat list"
    by (induction js) auto
  then show ?thesis by (simp add: spans_shown_def group_span_rows_def map_nth)
qed

lemma spans_shown_block:
  assumes "block_ok b"
  shows "spans_shown (block_rows tid expanded b) =
    (if group_key tid ` lg_groupId ` {g. EGroup g \<in> set b} \<subseteq> expanded then spans_of_entries b else [])"
  using assms
proof (cases rule: block_cases)
  case (single s)
  then show ?thesis by (simp add: spans_shown_def)
next
  case (group g l xs)
  have "{h. EGroup h \<in> set b} = {g}" by (auto simp: group group_rows_def)
  moreover have "spans_shown (RGroupHeader tid g c # rows) = spans_shown rows" for c rows by (simp add: spans_shown_def)
  ultimately show ?thesis by (simp add: group, simp add: spans_shown_def)
qed

lemma spans_shown_blocks:
  assumes "\<forall>b\<in>set bs. block_ok b"
  shows "mset (spans_shown (concat (map (block_rows tid expanded) bs))) \<subseteq># mset (spans_of_entries (concat bs))"
    and "\<forall>b\<in>set bs. \<forall>g. EGroup g \<in> set b \<longrightarrow> group_key tid (lg_groupId g) \<in> expanded \<Longrightarrow>
      spans_shown (concat (map (block_rows tid expanded) bs)) = spans_of_entries (concat bs)"
  using assms
proof (induction bs)
  case Nil
  { case 1 then show ?case by (simp add: spans_shown_def) }
  { case 2 then show ?case by (simp add: spans_shown_def) }
next
  case (Cons b bs)
  have app: "spans_shown (xs @ ys) = spans_shown xs @ spans_shown ys" for xs ys by (simp add: spans_shown_def)
  { case 1
    then have "mset (spans_shown (block_rows tid expanded b)) \<subseteq># mset (spans_of_entries b)"
      by (simp add: spans_shown_block)
    with Cons.IH(1) 1 show ?case by (simp add: app subset_mset.add_mono) }
  { case 2
    then have "group_key tid ` lg_groupId ` {g. EGroup g \<in> set b} \<subseteq> expanded" by auto
    with 2 have "spans_shown (block_rows tid expanded b) = spans_of_entries b" by (simp add: spans_shown_block)
    with Cons.IH(2) 2 show ?case by (simp add: app) }
qed

text \<open>
  The transcript rows of an expanded trace: a header, the user input, every block of the
  transcript rendered on its own (a span as one row; a group as its header, followed, when it is
  expanded, by exactly its own spans with the last one marked), and the closing row. No span is shown
  that the transcript does not list, none twice, and when all groups are expanded every span of the
  trace that is not a DEFAULT span is shown.
\<close>

lemma session_transcript_rows:
  assumes "tr_id t \<in> sv_expandedTraceIds st" and "sv_traceSpansError st (tr_id t) = None"
    and "sv_traceSpans st (tr_id t) = Some spans" and "spans \<noteq> []" and "sv_traceViewModes st (tr_id t) \<noteq> Some Tree"
    and "expanded = sv_transcriptExpandedGroups st"
  shows "\<exists>blocks. concat blocks = computeTranscriptEntries ck spans \<and> (\<forall>b\<in>set blocks. block_ok b) \<and>
    trace_rows ms ck st t rest = Some (RHeader t True # RUserInput (tr_id t) #
      concat (map (block_rows (tr_id t) expanded) blocks) @ [RExpandedEnd (tr_id t) (gap_ms ms t rest)]) \<and>
    mset (spans_shown (concat (map (block_rows (tr_id t) expanded) blocks)))
      \<subseteq># mset (map toLightweight (filter (\<lambda>s. spanType s \<noteq> DEFAULT) spans)) \<and>
    ((\<forall>b\<in>set blocks. \<forall>g. EGroup g \<in> set b \<longrightarrow> group_key (tr_id t) (lg_groupId g) \<in> expanded) \<longrightarrow>
      mset (spans_shown (concat (map (block_rows (tr_id t) expanded) blocks)))
        = mset (map toLightweight (filter (\<lambda>s. spanType s \<noteq> DEFAULT) spans)))"
proof -
  from entries_blocked [of ck spans "{}"] obtain blocks where
    bs: "computeTranscriptEntries ck spans = concat blocks" "\<forall>b\<in>set blocks. block_ok b"
    and d: "distinct (group_ids (concat blocks))" by (auto simp: computeTranscriptEntries_def)
  have all: "mset (spans_of_entries (concat blocks)) = mset (map toLightweight (filter (\<lambda>s. spanType s \<noteq> DEFAULT) spans))"
    using entries_spans [of ck spans "{}"] bs(1) by (simp add: computeTranscriptEntries_def list_spans_def)
  obtain s ss where "spans = s # ss" using assms(4) by (cases spans) auto
  then have "trace_body ck st (tr_id t) = Some (RUserInput (tr_id t) # concat (map (block_rows (tr_id t) expanded) blocks))"
    using assms(2,3,5,6) transcript_blocks [OF bs(2) d] bs(1) by (simp add: trace_body_def)
  then have "trace_rows ms ck st t rest = Some (RHeader t True # RUserInput (tr_id t) #
      concat (map (block_rows (tr_id t) expanded) blocks) @ [RExpandedEnd (tr_id t) (gap_ms ms t rest)])"
    using assms(1) by (simp add: trace_rows_def Let_def)
  with bs spans_shown_blocks [OF bs(2), of "tr_id t" expanded] all show ?thesis by (intro exI [of _ blocks]) simp
qed

lemma session_transcript_rows_witness:
  "\<exists>rows. trace_rows (\<lambda>_. 0) (\<lambda>s. s) (init_session_view\<lparr>sv_expandedTraceIds := {''t1''}, sv_traceSpans := [''t1'' \<mapsto> demo_spans]\<rparr>)
     demo_row [] = Some (RHeader demo_row True # RUserInput ''t1'' # rows)"
proof -
  have "demo_spans \<noteq> []" by (simp add: demo_spans_def)
  then show ?thesis
    using session_transcript_rows [of demo_row "init_session_view\<lparr>sv_expandedTraceIds := {''t1''}, sv_traceSpans := [''t1'' \<mapsto> demo_spans]\<rparr>",
      OF _ _ _ _ _ refl, of demo_spans "\<lambda>s. s" "\<lambda>_. 0" "[]"]
    by (auto simp: demo_row_def init_session_view_def)
qed

section \<open>The whole list\<close>

fun row_header :: "session_row \<Rightarrow> (trace_row \<times> bool) list" where
  "row_header (RHeader t e) = [(t, e)]"
| "row_header _ = []"

fun row_trace :: "session_row \<Rightarrow> string" where
  "row_trace (RHeader t e) = tr_id t"
| "row_trace (RLoading tid) = tid"
| "row_trace (RError tid e) = tid"
| "row_trace (REmpty tid) = tid"
| "row_trace (RUserInput tid) = tid"
| "row_trace (RSpan tid s) = tid"
| "row_trace (RGroupHeader tid g c) = tid"
| "row_trace (RGroupSpan tid s l) = tid"
| "row_trace (RTreeSpan tid s d m h) = tid"
| "row_trace (RCollapsedBody tid) = tid"
| "row_trace (RCollapsedEnd tid g) = tid"
| "row_trace (RExpandedEnd tid g) = tid"

definition headers :: "session_row list \<Rightarrow> (trace_row \<times> bool) list" where
  "headers rows = concat (map row_header rows)"

lemma headers_simps [simp]:
  "headers [] = []" "headers (r # rs) = row_header r @ headers rs" "headers (rs @ qs) = headers rs @ headers qs"
  by (simp_all add: headers_def)

text \<open>Rows of a transcript are neither headers nor loading nor tree rows.\<close>

fun transcript_row :: "session_row \<Rightarrow> bool" where
  "transcript_row (RSpan tid s) = True"
| "transcript_row (RGroupHeader tid g c) = True"
| "transcript_row (RGroupSpan tid s l) = True"
| "transcript_row _ = False"

lemma child_row_kind: "r \<in> set (child_row tid l e) \<Longrightarrow> transcript_row r \<and> row_trace r = tid"
  by (cases e) auto

lemma entry_rows_kind: "r \<in> set (entry_rows tid ex es e) \<Longrightarrow> transcript_row r \<and> row_trace r = tid"
  by (cases e) (auto simp: Let_def child_rows_def dest: child_row_kind split: if_splits)

lemma transcript_rows_kind: "r \<in> set (transcript_rows tid ex es) \<Longrightarrow> transcript_row r \<and> row_trace r = tid"
  by (auto simp: transcript_rows_def dest: entry_rows_kind)

lemma headers_transcript [simp]: "headers (transcript_rows tid ex es) = []"
proof -
  have "transcript_row r \<Longrightarrow> row_header r = []" for r by (cases r) auto
  then show ?thesis by (auto simp: headers_def dest: transcript_rows_kind)
qed

lemma headers_tree [simp]: "headers (map (tree_span_row tid) rs) = []"
  by (induction rs) (simp_all add: tree_span_row_def)

text \<open>What the body of an expanded trace holds.\<close>

definition body_ok :: "'a session_view_scheme \<Rightarrow> string \<Rightarrow> session_row list \<Rightarrow> bool" where
  "body_ok st tid body \<longleftrightarrow> headers body = [] \<and> (\<forall>r\<in>set body. row_trace r = tid) \<and>
     (RLoading tid \<in> set body \<longleftrightarrow> \<not> truthy (sv_traceSpansError st tid) \<and> sv_traceSpans st tid = None) \<and>
     (\<forall>spans. \<not> truthy (sv_traceSpansError st tid) \<longrightarrow> sv_traceSpans st tid = Some spans \<longrightarrow> sv_traceViewModes st tid = Some Tree \<longrightarrow>
        (\<forall>s. (\<exists>d m h. RTreeSpan tid s d m h \<in> set body) \<longleftrightarrow> shown spans s))"

lemma shown_in_spans: "shown spans s \<Longrightarrow> s \<in> set spans"
  by (induction rule: shown.induct) auto

lemma tree_rows_mem: "(\<exists>d m h. RTreeSpan tid s d m h \<in> set (map (tree_span_row tid) rs)) \<longleftrightarrow> s \<in> set (map row_span rs)"
  by (auto simp: tree_span_row_def)

lemma trace_body_ok:
  assumes "\<And>spans. sv_traceSpans st tid = Some spans \<Longrightarrow> rooted spans \<and> distinct (map spanId spans)"
  shows "\<exists>body. trace_body ck st tid = Some body \<and> body_ok st tid body"
proof (cases "truthy (sv_traceSpansError st tid)")
  case True
  then obtain c cs where "sv_traceSpansError st tid = Some (c # cs)" by (auto simp: truthy_iff neq_Nil_conv)
  then show ?thesis by (simp add: trace_body_def body_ok_def)
next
  case False
  then have e: "sv_traceSpansError st tid = None \<or> sv_traceSpansError st tid = Some []"
    by (cases "sv_traceSpansError st tid") auto
  consider "sv_traceSpans st tid = None" | "sv_traceSpans st tid = Some []" |
    s ss where "sv_traceSpans st tid = Some (s # ss)" by (metis list.exhaust option.exhaust)
  then show ?thesis
  proof cases
    case 1
    then show ?thesis using e by (auto simp: trace_body_def body_ok_def)
  next
    case 2
    then show ?thesis using e shown_in_spans [of "[]"] by (auto simp: trace_body_def body_ok_def)
  next
    case (3 s ss)
    let ?spans = "s # ss"
    show ?thesis
    proof (cases "sv_traceViewModes st tid = Some Tree")
      case False
      have "RLoading tid \<notin> set (transcript_rows tid ex es)" for ex es using transcript_rows_kind [of "RLoading tid"] by auto
      then show ?thesis using 3 e False by (auto simp: trace_body_def body_ok_def dest: transcript_rows_kind)
    next
      case True
      have r: "rooted ?spans" "distinct (map spanId ?spans)" using assms 3 by auto
      obtain pim where pim: "computePathInfoMap ?spans = Some pim" using computePathInfoMap_eq [OF r(1)] by blast
      obtain rows where rows: "transformSpansToTree ?spans (map_of pim) = Some rows" "set (map row_span rows) = {x. shown ?spans x}"
        using tree_rows_shown [OF r(2)] by blast
      have "(\<exists>d m h. RTreeSpan tid x d m h \<in> set (map (tree_span_row tid) rows)) \<longleftrightarrow> shown ?spans x" for x
        unfolding tree_rows_mem rows(2) by simp
      moreover have "trace_body ck st tid = Some (RUserInput tid # map (tree_span_row tid) rows)"
        using 3 e True by (auto simp: trace_body_def pim rows(1))
      ultimately show ?thesis using 3 by (auto simp: body_ok_def tree_span_row_def)
    qed
  qed
qed

lemma trace_rows_ok:
  assumes "\<And>spans. sv_traceSpans st (tr_id t) = Some spans \<Longrightarrow> rooted spans \<and> distinct (map spanId spans)"
  obtains body where "trace_rows ms ck st t rest = Some (if tr_id t \<in> sv_expandedTraceIds st
      then RHeader t True # body @ [RExpandedEnd (tr_id t) (gap_ms ms t rest)]
      else [RHeader t False, RCollapsedBody (tr_id t), RCollapsedEnd (tr_id t) (gap_ms ms t rest)])"
    and "body_ok st (tr_id t) body"
proof -
  obtain body where "trace_body ck st (tr_id t) = Some body" "body_ok st (tr_id t) body"
    using trace_body_ok [where st = st and tid = "tr_id t" and ck = ck, OF assms] by blast
  then show ?thesis by (intro that [of body]) (simp_all add: trace_rows_def Let_def)
qed

text \<open>The part of the list that belongs to one trace.\<close>

definition section_ok :: "'a session_view_scheme \<Rightarrow> trace_row \<Rightarrow> session_row list \<Rightarrow> bool" where
  "section_ok st t rows \<longleftrightarrow> headers rows = [(t, tr_id t \<in> sv_expandedTraceIds st)] \<and> (\<forall>r\<in>set rows. row_trace r = tr_id t) \<and>
     (RLoading (tr_id t) \<in> set rows \<longleftrightarrow> tr_id t \<in> sv_expandedTraceIds st \<and> \<not> truthy (sv_traceSpansError st (tr_id t)) \<and>
        sv_traceSpans st (tr_id t) = None) \<and>
     (\<forall>spans. tr_id t \<in> sv_expandedTraceIds st \<longrightarrow> \<not> truthy (sv_traceSpansError st (tr_id t)) \<longrightarrow>
        sv_traceSpans st (tr_id t) = Some spans \<longrightarrow> sv_traceViewModes st (tr_id t) = Some Tree \<longrightarrow>
        (\<forall>s. (\<exists>d m h. RTreeSpan (tr_id t) s d m h \<in> set rows) \<longleftrightarrow> shown spans s))"

lemma trace_rows_section:
  assumes "\<And>spans. sv_traceSpans st (tr_id t) = Some spans \<Longrightarrow> rooted spans \<and> distinct (map spanId spans)"
  shows "\<exists>rows. trace_rows ms ck st t rest = Some rows \<and> section_ok st t rows"
proof -
  obtain body where b: "trace_rows ms ck st t rest = Some (if tr_id t \<in> sv_expandedTraceIds st
      then RHeader t True # body @ [RExpandedEnd (tr_id t) (gap_ms ms t rest)]
      else [RHeader t False, RCollapsedBody (tr_id t), RCollapsedEnd (tr_id t) (gap_ms ms t rest)])"
    "body_ok st (tr_id t) body" using trace_rows_ok [OF assms] by blast
  show ?thesis
  proof (cases "tr_id t \<in> sv_expandedTraceIds st")
    case True
    with b show ?thesis by (auto simp: section_ok_def body_ok_def)
  next
    case False
    with b show ?thesis by (simp add: section_ok_def)
  qed
qed

lemma session_rows_loop_sections:
  assumes "\<And>t spans. t \<in> set traces \<Longrightarrow> sv_traceSpans st (tr_id t) = Some spans \<Longrightarrow> rooted spans \<and> distinct (map spanId spans)"
  shows "\<exists>secs. session_rows_loop ms ck st traces = Some (concat secs) \<and> list_all2 (section_ok st) traces secs"
  using assms
proof (induction traces)
  case Nil
  then show ?case by (auto intro: exI [of _ "[]"])
next
  case (Cons t ts)
  obtain rows where r: "trace_rows ms ck st t ts = Some rows" "section_ok st t rows"
    using trace_rows_section [of st t ms ck ts] Cons.prems by auto
  obtain secs where s: "session_rows_loop ms ck st ts = Some (concat secs)" "list_all2 (section_ok st) ts secs"
    using Cons.IH Cons.prems by (meson list.set_intros(2))
  show ?case using r s by (intro exI [of _ "rows # secs"]) simp
qed

text \<open>
  Outside search mode, if the loaded spans of every trace are rooted and have distinct ids,
  the row list is computed and is one section per trace, in the order of the traces: a section starts
  with the header of its trace and holds only rows of its trace; it shows the loading row exactly if
  the trace is expanded, has no error and no spans yet; in tree mode it holds a row for exactly the
  spans that no collapsed ancestor hides.
\<close>

lemma session_rows_sections:
  assumes "sv_searchResults st = None"
    and "\<And>t spans. t \<in> set (sv_traces st) \<Longrightarrow> sv_traceSpans st (tr_id t) = Some spans \<Longrightarrow> rooted spans \<and> distinct (map spanId spans)"
  shows "\<exists>secs. buildSessionFlatRows ms ck st = Some (concat secs) \<and> list_all2 (section_ok st) (sv_traces st) secs"
  using session_rows_loop_sections [of "sv_traces st" st ms ck] assms by (simp add: buildSessionFlatRows_def)

lemma session_rows_sections_witness:
  "\<exists>secs. buildSessionFlatRows (\<lambda>_. 0) (\<lambda>s. s) (init_session_view\<lparr>sv_traces := [demo_row], sv_expandedTraceIds := {''t1''}\<rparr>) =
     Some (concat secs) \<and> RLoading ''t1'' \<in> set (hd secs)"
proof -
  let ?st = "init_session_view\<lparr>sv_traces := [demo_row], sv_expandedTraceIds := {''t1''}\<rparr>"
  obtain secs where s: "buildSessionFlatRows (\<lambda>_. 0) (\<lambda>s. s) ?st = Some (concat secs)" "list_all2 (section_ok ?st) [demo_row] secs"
    using session_rows_sections [of ?st "\<lambda>_. 0" "\<lambda>s. s"] by (auto simp: init_session_view_def)
  then obtain sec where "secs = [sec]" "section_ok ?st demo_row sec" by (auto simp: list_all2_Cons1)
  with s have "RLoading ''t1'' \<in> set (hd secs)" by (auto simp: section_ok_def demo_row_def init_session_view_def)
  with s(1) show ?thesis by blast
qed

text \<open>In search mode every matched trace shows its matching spans, the others nothing.\<close>

lemma search_rows_spans:
  "spans_shown (search_trace_rows results t) =
     (case results (tr_id t) of None \<Rightarrow> [] | Some r \<Rightarrow> map toLightweight (filter (\<lambda>s. spanType s \<noteq> DEFAULT) (sr_spans r)))"
  by (auto simp: search_trace_rows_def spans_shown_def o_def split: option.splits)

end
