(* ===== verification/SpanMerge.thy ===== *)
theory SpanMerge
  imports Realtime
begin

text \<open>
  The merge of spans from two sources in the debugger's session view
  (\<open>components/debugger-sessions/debugger-session-view/store/index.tsx\<close>: \<open>normalizeMetadata\<close>,
  \<open>realtimeToTraceViewSpan\<close>, \<open>mergeSpans\<close>): spans streamed live and spans fetched from the server, which
  lags behind.

  Parameters: \<open>parse\<close> is \<open>Object.entries(JSON.parse(text))\<close>, \<open>None\<close> when it throws; \<open>str\<close> is \<open>String\<close> on a
  value that is not a string; \<open>num\<close> is \<open>Number\<close> on a string, \<open>None\<close> for NaN.
\<close>

section \<open>Metadata and streamed spans\<close>

datatype raw_metadata = NoMetadata | MetadataText string | MetadataEntries "(string \<times> attr) list" | OtherMetadata

definition text_of :: "(attr \<Rightarrow> string) \<Rightarrow> attr \<Rightarrow> string" where
  "text_of str v = (case v of AStr s \<Rightarrow> s | _ \<Rightarrow> str v)"

definition from_entries :: "(attr \<Rightarrow> string) \<Rightarrow> (string \<times> attr) list \<Rightarrow> (string \<Rightarrow> string option)" where
  "from_entries str es = foldl (\<lambda>m (k, v). m(k \<mapsto> text_of str v)) Map.empty es"

definition metadata_entries :: "(string \<Rightarrow> (string \<times> attr) list option) \<Rightarrow> raw_metadata \<Rightarrow> (string \<times> attr) list" where
  "metadata_entries parse m =
     (case m of
        NoMetadata \<Rightarrow> []
      | MetadataText t \<Rightarrow> (if t = [] then [] else case parse t of None \<Rightarrow> [] | Some es \<Rightarrow> es)
      | MetadataEntries es \<Rightarrow> es
      | OtherMetadata \<Rightarrow> [])"

definition normalizeMetadata ::
  "(string \<Rightarrow> (string \<times> attr) list option) \<Rightarrow> (attr \<Rightarrow> string) \<Rightarrow> raw_metadata \<Rightarrow> (string \<Rightarrow> string option)" where
  "normalizeMetadata parse str m = from_entries str (metadata_entries parse m)"

text \<open>\<open>Number(attrs[key]) || 0\<close>\<close>

definition to_number :: "(string \<Rightarrow> number option) \<Rightarrow> attr option \<Rightarrow> number" where
  "to_number num v =
     (case v of
        None \<Rightarrow> 0
      | Some (ANum n) \<Rightarrow> n
      | Some (ABool b) \<Rightarrow> (if b then 1 else 0)
      | Some (AStr s) \<Rightarrow> (case num s of None \<Rightarrow> 0 | Some n \<Rightarrow> n)
      | Some (AStrs xs) \<Rightarrow> (case num (join '','' xs) of None \<Rightarrow> 0 | Some n \<Rightarrow> n)
      | Some AOther \<Rightarrow> 0)"

definition realtimeToTraceViewSpan :: "(string \<Rightarrow> number option) \<Rightarrow> realtime_span \<Rightarrow> span" where
  "realtimeToTraceViewSpan num s =
     (let n = (\<lambda>k. to_number num (rs_attributes s k));
          inTokens = n ''gen_ai.usage.input_tokens''; outTokens = n ''gen_ai.usage.output_tokens'';
          inCost = n ''gen_ai.usage.input_cost''; outCost = n ''gen_ai.usage.output_cost'';
          cost = n ''gen_ai.usage.cost''
      in \<lparr>spanId = rs_spanId s, parentSpanId = rs_parentSpanId s, traceId = rs_traceId s, name = rs_name s,
      startTime = rs_startTime s, endTime = rs_endTime s, attributes = rs_attributes s, spanType = rs_spanType s,
      path = [], events = [], status = rs_status s,
      model = (case attr_str (rs_attributes s ''gen_ai.response.model'') of
        Some m \<Rightarrow> Some m | None \<Rightarrow> attr_str (rs_attributes s ''gen_ai.request.model'')),
      pending = Some False, collapsed = False, inputTokens = inTokens, outputTokens = outTokens,
      totalTokens = inTokens + outTokens, cacheReadInputTokens = Some (n ''gen_ai.usage.cache_read_input_tokens''),
      reasoningTokens = Some (n ''gen_ai.usage.reasoning_tokens''), inputCost = inCost, outputCost = outCost,
      totalCost = (if cost \<noteq> 0 then cost else inCost + outCost), aggregatedMetrics = None,
      inputSnippet = None, outputSnippet = None, attributesSnippet = None\<rparr>)"

section \<open>Merging\<close>

text \<open>What a span that arrives does to the span of the same id: real beats pending, then the later end
  wins; the collapsed flag of the user is kept. The code compares the \<open>pending\<close> fields themselves, so
  that an absent one differs from \<open>false\<close>.\<close>

definition merge_span :: "(string \<Rightarrow> int) \<Rightarrow> bool \<Rightarrow> span \<Rightarrow> span \<Rightarrow> span" where
  "merge_span ms incomingWins prev s =
     (if pending prev \<noteq> pending s then (if is_pending prev then s\<lparr>collapsed := collapsed prev\<rparr> else prev)
      else let prevEnd = ms (endTime prev); incEnd = ms (endTime s) in
        if incEnd > prevEnd \<or> (incEnd = prevEnd \<and> incomingWins) then s\<lparr>collapsed := collapsed prev\<rparr> else prev)"

definition merge_step :: "(string \<Rightarrow> int) \<Rightarrow> bool \<Rightarrow> (string \<times> span) list \<Rightarrow> span \<Rightarrow> (string \<times> span) list" where
  "merge_step ms incomingWins m s =
     (case map_of m (spanId s) of
        None \<Rightarrow> AList.update (spanId s) s m
      | Some prev \<Rightarrow> AList.update (spanId s) (merge_span ms incomingWins prev s) m)"

definition merged_spans :: "(string \<Rightarrow> int) \<Rightarrow> span list \<Rightarrow> span list \<Rightarrow> bool \<Rightarrow> span list" where
  "merged_spans ms base incoming incomingWins =
     (let byId = foldl (merge_step ms incomingWins) (js_map_of spanId (\<lambda>s. s) base) incoming
      in sort_key (\<lambda>s. ms (startTime s)) (map snd byId))"

definition mergeSpans :: "(string \<Rightarrow> int) \<Rightarrow> (int \<Rightarrow> string) \<Rightarrow> span list \<Rightarrow> span list \<Rightarrow> bool \<Rightarrow> span list" where
  "mergeSpans ms iso' base incoming incomingWins = enrichSpansWithPending ms iso' (merged_spans ms base incoming incomingWins)"

text \<open>The map, looked up at one id.\<close>

definition merge_one :: "(string \<Rightarrow> int) \<Rightarrow> bool \<Rightarrow> span option \<Rightarrow> span \<Rightarrow> span option" where
  "merge_one ms w p s = Some (case p of None \<Rightarrow> s | Some prev \<Rightarrow> merge_span ms w prev s)"

lemma merge_one_simps: "merge_one ms w (Some q) x = Some (merge_span ms w q x)" "merge_one ms w None x = Some x"
  by (simp_all add: merge_one_def)

lemma spanId_merge_span [simp]: "spanId prev = spanId s \<Longrightarrow> spanId (merge_span ms w prev s) = spanId s"
  by (simp add: merge_span_def Let_def)

lemma merge_lookup:
  "map_of (foldl (merge_step ms w) m incoming) i = foldl (merge_one ms w) (map_of m i) (filter (\<lambda>s. spanId s = i) incoming)"
proof (induction incoming arbitrary: m)
  case Nil
  then show ?case by simp
next
  case (Cons s ss)
  then show ?case by (auto simp: merge_step_def merge_one_def update_conv split: option.splits)
qed

definition keyed :: "(string \<times> span) list \<Rightarrow> bool" where
  "keyed m \<longleftrightarrow> distinct (map fst m) \<and> (\<forall>(i, s)\<in>set m. spanId s = i)"

lemma keyed_entry: "keyed m \<Longrightarrow> (i, s) \<in> set m \<longleftrightarrow> map_of m i = Some s"
  by (auto simp: keyed_def map_of_is_SomeI dest: map_of_SomeD)

lemma keyed_iff: "keyed m \<longleftrightarrow> distinct (map fst m) \<and> (\<forall>i s. map_of m i = Some s \<longrightarrow> spanId s = i)"
  by (auto simp: keyed_def dest: map_of_SomeD)

lemma keyed_update: "keyed m \<Longrightarrow> spanId s = i \<Longrightarrow> keyed (AList.update i s m)"
  by (auto simp: keyed_iff distinct_update update_conv split: if_splits)

lemma keyed_js_map [simp]: "keyed (js_map_of spanId (\<lambda>s. s) base)"
  unfolding keyed_iff by (metis js_map_of_SomeD js_map_of_keys_distinct)

lemma keyed_step: "keyed m \<Longrightarrow> keyed (merge_step ms w m s)"
  by (auto simp: merge_step_def intro!: keyed_update split: option.splits) (auto simp: keyed_iff)

lemma keyed_merge: "keyed m \<Longrightarrow> keyed (foldl (merge_step ms w) m incoming)"
  by (induction incoming arbitrary: m) (auto intro: keyed_step)

lemma keyed_values:
  assumes "keyed m"
  shows "s \<in> set (map snd m) \<longleftrightarrow> map_of m (spanId s) = Some s" and "distinct (map spanId (map snd m))"
proof -
  show "s \<in> set (map snd m) \<longleftrightarrow> map_of m (spanId s) = Some s"
  proof
    assume "s \<in> set (map snd m)"
    then obtain i where "(i, s) \<in> set m" by auto
    with assms show "map_of m (spanId s) = Some s" by (auto simp: keyed_def)
  next
    assume "map_of m (spanId s) = Some s"
    from map_of_SomeD [OF this] show "s \<in> set (map snd m)" by force
  qed
  have "map spanId (map snd m) = map fst m" using assms by (auto simp: keyed_def)
  with assms show "distinct (map spanId (map snd m))" by (simp only: keyed_def)
qed

lemma merged_set:
  "s \<in> set (merged_spans ms base incoming w) \<longleftrightarrow>
     foldl (merge_one ms w) (map_of (spanMap base) (spanId s)) (filter (\<lambda>t. spanId t = spanId s) incoming) = Some s"
  using keyed_values(1) [OF keyed_merge [OF keyed_js_map]] by (simp add: merged_spans_def Let_def merge_lookup spanMap_def)

lemma merged_distinct: "distinct (map spanId (merged_spans ms base incoming w))"
  using keyed_values(2) [OF keyed_merge [OF keyed_js_map]] by (simp add: merged_spans_def Let_def del: map_map)

lemma merged_sorted: "sorted (map (\<lambda>s. ms (startTime s)) (merged_spans ms base incoming w))"
  by (simp add: merged_spans_def Let_def)

section \<open>What is kept\<close>

lemma merge_span_sel:
  "collapsed (merge_span ms w prev s) = collapsed prev"
  "merge_span ms w prev s = prev \<or> merge_span ms w prev s = s\<lparr>collapsed := collapsed prev\<rparr>"
  by (auto simp: merge_span_def Let_def)

text \<open>A fold over the spans of one id: what is kept is one of them, of all those with its \<open>pending\<close> field the one with
  the latest end, and the field is that of the first real one.\<close>

lemma merge_fold_latest:
  assumes "foldl (merge_one ms w) o' xs = Some r"
  shows "(\<exists>t\<in>set_option o' \<union> set xs. r = t\<lparr>collapsed := collapsed r\<rparr>) \<and>
    (\<forall>u\<in>set_option o' \<union> set xs. pending u = pending r \<longrightarrow> ms (endTime u) \<le> ms (endTime r)) \<and>
    (\<forall>u. o' = Some u \<longrightarrow> collapsed r = collapsed u) \<and>
    (if is_pending r then \<forall>u\<in>set_option o' \<union> set xs. is_pending u
     else \<exists>u. find (\<lambda>u. \<not> is_pending u) (case_option [] (\<lambda>q. [q]) o' @ xs) = Some u \<and> pending u = pending r)"
  using assms
proof (induction xs arbitrary: r rule: rev_induct)
  case Nil
  then show ?case by auto
next
  case (snoc x xs)
  let ?seen = "case_option [] (\<lambda>q. [q]) o' @ xs"
  show ?case
  proof (cases "foldl (merge_one ms w) o' xs")
    case None
    then have "o' = None" "xs = []" by (cases xs rule: rev_cases; simp add: merge_one_def)+
    with snoc.prems show ?thesis by (simp add: merge_one_def)
  next
    case (Some q)
    from snoc.IH [OF Some] have q: "\<exists>t\<in>set_option o' \<union> set xs. q = t\<lparr>collapsed := collapsed q\<rparr>"
      "\<forall>u\<in>set_option o' \<union> set xs. pending u = pending q \<longrightarrow> ms (endTime u) \<le> ms (endTime q)"
      "\<forall>u. o' = Some u \<longrightarrow> collapsed q = collapsed u"
      and first: "if is_pending q then \<forall>u\<in>set_option o' \<union> set xs. is_pending u
        else \<exists>u. find (\<lambda>u. \<not> is_pending u) ?seen = Some u \<and> pending u = pending q" by blast+
    have r: "r = merge_span ms w q x" using snoc.prems Some by (simp add: merge_one_simps)
    consider (real) "pending q \<noteq> pending x" "is_pending q" | (other) "pending q \<noteq> pending x" "\<not> is_pending q"
      | (later) "pending q = pending x" "ms (endTime q) < ms (endTime x) \<or> (ms (endTime x) = ms (endTime q) \<and> w)"
      | (earlier) "pending q = pending x" "\<not> (ms (endTime q) < ms (endTime x) \<or> (ms (endTime x) = ms (endTime q) \<and> w))" by blast
    then show ?thesis
    proof cases
      case real
      then have "r = x\<lparr>collapsed := collapsed q\<rparr>" by (simp add: r merge_span_def)
      moreover have "\<not> is_pending x" using real by auto
      moreover have "find (\<lambda>u. \<not> is_pending u) ?seen = None" using first real(2) by (auto simp: find_None_iff split: option.splits)
      moreover have "\<forall>u\<in>set_option o' \<union> set xs. pending u \<noteq> pending x" using first real by auto
      ultimately show ?thesis using q(3) by (auto simp: find_append simp del: append_assoc simp flip: append_assoc)
    next
      case other
      then have "r = q" by (simp add: r merge_span_def)
      then show ?thesis using q first other by (auto simp: find_append simp del: append_assoc simp flip: append_assoc)
    next
      case later
      then have rx: "r = x\<lparr>collapsed := collapsed q\<rparr>" by (auto simp: r merge_span_def)
      have "ms (endTime q) \<le> ms (endTime x)" using later by auto
      then have "\<forall>u\<in>set_option o' \<union> set xs. pending u = pending x \<longrightarrow> ms (endTime u) \<le> ms (endTime x)"
        using q(2) later(1) by (metis order_trans)
      then show ?thesis using q(3) first later(1) by (auto simp: rx find_append simp del: append_assoc simp flip: append_assoc)
    next
      case earlier
      then have rq: "r = q" by (auto simp: r merge_span_def)
      have "ms (endTime x) \<le> ms (endTime q)" using earlier by auto
      then show ?thesis using q first earlier(1) by (auto simp: rq find_append simp del: append_assoc simp flip: append_assoc)
    qed
  qed
qed

lemma merge_fold_real:
  "foldl (merge_one ms w) o' xs = Some r \<Longrightarrow> is_pending r \<Longrightarrow> u \<in> set_option o' \<union> set xs \<Longrightarrow> is_pending u"
proof (induction xs arbitrary: r rule: rev_induct)
  case Nil
  then show ?case by simp
next
  case (snoc x xs)
  show ?case
  proof (cases "foldl (merge_one ms w) o' xs")
    case None
    then have "o' = None" "xs = []" by (cases xs rule: rev_cases; simp add: merge_one_def)+
    with snoc.prems show ?thesis by (simp add: merge_one_def)
  next
    case (Some q)
    have r: "r = merge_span ms w q x" using snoc.prems(1) Some by (simp add: merge_one_simps)
    have "is_pending q" "is_pending x" using snoc.prems(2) by (auto simp: r merge_span_def Let_def split: if_splits)
    with snoc.IH [OF Some] snoc.prems(3) show ?thesis by auto
  qed
qed

lemma merge_fold_Some: "o' \<noteq> None \<or> xs \<noteq> [] \<Longrightarrow> foldl (merge_one ms w) o' xs \<noteq> None"
  by (cases xs rule: rev_cases) (auto simp: merge_one_def)

text \<open>The spans a merge sees under one id.\<close>

lemma base_lookup:
  assumes "distinct (map spanId base)"
  shows "set_option (map_of (spanMap base) i) = {s \<in> set base. spanId s = i}"
proof (intro equalityI subsetI)
  fix s assume "s \<in> set_option (map_of (spanMap base) i)"
  then show "s \<in> {s \<in> set base. spanId s = i}" using spanMap_SomeD [of base i s] by auto
next
  fix s assume "s \<in> {s \<in> set base. spanId s = i}"
  then show "s \<in> set_option (map_of (spanMap base) i)" using spanMap_distinct [OF assms, of s] by auto
qed

lemma base_list:
  assumes "distinct (map spanId base)"
  shows "case_option [] (\<lambda>q. [q]) (map_of (spanMap base) i) = filter (\<lambda>s. spanId s = i) base"
proof -
  have d: "distinct (filter (\<lambda>s. spanId s = i) base)" using assms by (simp add: distinct_map)
  have "set (filter (\<lambda>s. spanId s = i) base) = set_option (map_of (spanMap base) i)" by (simp add: base_lookup [OF assms])
  with d show ?thesis
    by (cases "map_of (spanMap base) i"; cases "filter (\<lambda>s. spanId s = i) base") (auto simp: subset_singleton_iff)
qed

lemma find_SomeD: "find P xs = Some u \<Longrightarrow> u \<in> set xs \<and> P u"
  by (induction xs) (auto split: if_splits)

lemma find_filter: "find P (filter Q xs) = find (\<lambda>x. Q x \<and> P x) xs"
  by (induction xs) auto

lemma merged_ids:
  assumes "distinct (map spanId base)"
  shows "spanId ` set (merged_spans ms base incoming w) = spanId ` (set base \<union> set incoming)"
proof (intro equalityI subsetI)
  fix i assume "i \<in> spanId ` set (merged_spans ms base incoming w)"
  then obtain s where s: "s \<in> set (merged_spans ms base incoming w)" "spanId s = i" by auto
  have "set_option (map_of (spanMap base) i) \<union> set (filter (\<lambda>t. spanId t = i) incoming) \<noteq> {}"
    using s by (auto simp: merged_set set_empty_eq)
  then show "i \<in> spanId ` (set base \<union> set incoming)" by (auto simp: base_lookup [OF assms])
next
  fix i assume "i \<in> spanId ` (set base \<union> set incoming)"
  then have "map_of (spanMap base) i \<noteq> None \<or> filter (\<lambda>t. spanId t = i) incoming \<noteq> []"
    by (auto simp: spanMap_None_iff filter_empty_conv)
  from merge_fold_Some [OF this, of ms w] obtain r where
    r: "foldl (merge_one ms w) (map_of (spanMap base) i) (filter (\<lambda>t. spanId t = i) incoming) = Some r" by auto
  let ?m = "foldl (merge_step ms w) (js_map_of spanId (\<lambda>s. s) base) incoming"
  have "map_of ?m i = Some r" using r by (simp add: merge_lookup spanMap_def)
  then have "spanId r = i" using keyed_merge [OF keyed_js_map, of ms w base incoming] by (simp add: keyed_iff)
  with r have "r \<in> set (merged_spans ms base incoming w)" by (simp add: merged_set)
  with \<open>spanId r = i\<close> show "i \<in> spanId ` set (merged_spans ms base incoming w)" by auto
qed

lemma merged_entry:
  assumes "distinct (map spanId base)" and "r \<in> set (merged_spans ms base incoming w)"
  shows "\<exists>t\<in>set base \<union> set incoming. spanId t = spanId r \<and> r = t\<lparr>collapsed := collapsed r\<rparr>"
    and "\<forall>u\<in>set base \<union> set incoming. spanId u = spanId r \<longrightarrow> pending u = pending r \<longrightarrow> ms (endTime u) \<le> ms (endTime r)"
    and "\<forall>b\<in>set base. spanId b = spanId r \<longrightarrow> collapsed r = collapsed b"
    and "\<not> is_pending r \<Longrightarrow> \<exists>u. find (\<lambda>u. spanId u = spanId r \<and> \<not> is_pending u) (base @ incoming) = Some u \<and> pending u = pending r"
proof -
  let ?seen = "set_option (map_of (spanMap base) (spanId r)) \<union> set (filter (\<lambda>t. spanId t = spanId r) incoming)"
  have seen: "?seen = {t \<in> set base \<union> set incoming. spanId t = spanId r}"
    unfolding base_lookup [OF assms(1)] by auto
  note m = merge_fold_latest [OF assms(2) [unfolded merged_set]]
  from m obtain t where t: "t \<in> ?seen" "r = t\<lparr>collapsed := collapsed r\<rparr>" by blast
  from t(1) show "\<exists>t\<in>set base \<union> set incoming. spanId t = spanId r \<and> r = t\<lparr>collapsed := collapsed r\<rparr>"
    unfolding seen using t(2) by blast
  from m show "\<forall>u\<in>set base \<union> set incoming. spanId u = spanId r \<longrightarrow> pending u = pending r \<longrightarrow> ms (endTime u) \<le> ms (endTime r)"
    unfolding seen by blast
  show "\<forall>b\<in>set base. spanId b = spanId r \<longrightarrow> collapsed r = collapsed b"
  proof (intro ballI impI)
    fix b assume b: "b \<in> set base" "spanId b = spanId r"
    from spanMap_distinct [OF assms(1) b(1)] b(2) have "map_of (spanMap base) (spanId r) = Some b" by simp
    with m show "collapsed r = collapsed b" by blast
  qed
  show "\<exists>u. find (\<lambda>u. spanId u = spanId r \<and> \<not> is_pending u) (base @ incoming) = Some u \<and> pending u = pending r"
    if "\<not> is_pending r"
  proof -
    have "\<exists>u. find (\<lambda>u. \<not> is_pending u) (case_option [] (\<lambda>q. [q]) (map_of (spanMap base) (spanId r)) @
        filter (\<lambda>t. spanId t = spanId r) incoming) = Some u \<and> pending u = pending r"
      using m that by simp
    then show ?thesis unfolding base_list [OF assms(1)] filter_append [symmetric] find_filter .
  qed
qed

lemma merged_pending:
  assumes "distinct (map spanId base)" and "r \<in> set (merged_spans ms base incoming w)" and "is_pending r"
    and "u \<in> set base \<union> set incoming" and "spanId u = spanId r"
  shows "is_pending u"
  using assms(4,5) by (intro merge_fold_real [OF assms(2) [unfolded merged_set] assms(3)])
    (auto simp: base_lookup [OF assms(1)])

lemma merged_real_ids:
  assumes "distinct (map spanId base)"
  shows "spanId ` set (filter (\<lambda>s. \<not> is_pending s) (merged_spans ms base incoming w)) =
    spanId ` {s \<in> set base \<union> set incoming. \<not> is_pending s}"
proof (intro equalityI subsetI)
  fix i assume "i \<in> spanId ` set (filter (\<lambda>s. \<not> is_pending s) (merged_spans ms base incoming w))"
  then obtain r where r: "r \<in> set (merged_spans ms base incoming w)" "\<not> is_pending r" "i = spanId r" by auto
  from merged_entry(4) [OF assms r(1,2)] obtain u where "find (\<lambda>u. spanId u = spanId r \<and> \<not> is_pending u) (base @ incoming) = Some u" by blast
  then have "u \<in> set (base @ incoming)" "spanId u = spanId r" "\<not> is_pending u" by (auto dest: find_SomeD)
  then show "i \<in> spanId ` {s \<in> set base \<union> set incoming. \<not> is_pending s}" using r(3) by (intro image_eqI [of _ _ u]) simp_all
next
  fix i assume "i \<in> spanId ` {s \<in> set base \<union> set incoming. \<not> is_pending s}"
  then obtain u where u: "u \<in> set base \<union> set incoming" "\<not> is_pending u" "spanId u = i" by auto
  then have "i \<in> spanId ` set (merged_spans ms base incoming w)" unfolding merged_ids [OF assms] by blast
  then obtain r where r: "r \<in> set (merged_spans ms base incoming w)" "spanId r = i" by auto
  then have "\<not> is_pending r" using merged_pending [OF assms r(1) _ u(1)] u by auto
  then show "i \<in> spanId ` set (filter (\<lambda>s. \<not> is_pending s) (merged_spans ms base incoming w))" using r by force
qed



definition demo_early :: span where
  "demo_early = (mk_span ''a'' None TOOL)\<lparr>startTime := ''x'', endTime := ''xx'', collapsed := True, pending := Some False\<rparr>"

definition demo_late :: span where
  "demo_late = (mk_span ''a'' None TOOL)\<lparr>startTime := ''x'', endTime := ''xxx'', pending := Some False\<rparr>"


text \<open>
  Placeholders never displace real spans: a merged span is a placeholder only if every span
  seen under its id was. But between real spans the test compares the \<open>pending\<close> fields themselves, and
  spans from the server have none while streamed ones carry \<open>false\<close>: a span that is already there as
  fetched is not replaced by the streamed one, even if that one ends later, nor the other way round.
\<close>
lemma pending_field_decides:
  "(distinct (map spanId base) \<longrightarrow> r \<in> set (merged_spans ms base incoming w) \<longrightarrow> is_pending r \<longrightarrow>
      u \<in> set base \<union> set incoming \<longrightarrow> spanId u = spanId r \<longrightarrow> is_pending u) \<and>
   (pending f = None \<longrightarrow> spanId f = rs_spanId s \<longrightarrow>
      merged_spans ms [f] [realtimeToTraceViewSpan num s] w = [f] \<and>
      merged_spans ms [realtimeToTraceViewSpan num s] [f] w = [realtimeToTraceViewSpan num s])"
proof -
  have r: "pending (realtimeToTraceViewSpan num s) = Some False" "spanId (realtimeToTraceViewSpan num s) = rs_spanId s"
    by (simp_all add: realtimeToTraceViewSpan_def Let_def)
  have "merged_spans ms [a] [b] w = [a]" if "pending a \<noteq> pending b" "spanId a = spanId b" "\<not> is_pending a" for a b
    using that by (simp add: merged_spans_def Let_def js_map_of_def merge_step_def merge_span_def)
  with merged_pending r show ?thesis by simp
qed

definition demo_fetched :: span where
  "demo_fetched = (mk_span ''a'' None TOOL)\<lparr>pending := None, endTime := ''x''\<rparr>"

definition demo_streamed :: realtime_span where
  "demo_streamed = \<lparr>rs_spanId = ''a'', rs_parentSpanId = None, rs_traceId = [], rs_spanType = TOOL, rs_name = [],
     rs_startTime = [], rs_endTime = ''xxx'', rs_attributes = (\<lambda>_. None), rs_status = None\<rparr>"

lemma pending_field_decides_witness:
  "merged_spans tally_ms [demo_fetched] [realtimeToTraceViewSpan (\<lambda>_. None) demo_streamed] True = [demo_fetched]"
  using pending_field_decides [where f = demo_fetched and s = demo_streamed and r = demo_fetched and u = demo_fetched
      and base = "[]" and incoming = "[]" and w = True and ms = tally_ms and num = "\<lambda>_. None"]
  by (simp add: demo_fetched_def demo_streamed_def)

end
