(* ===== verification/DebuggerStore.thy ===== *)
theory DebuggerStore
  imports SessionStore SpanMerge
begin

text \<open>
  The store of the debugger's session view
  (\<open>components/debugger-sessions/debugger-session-view/store/index.tsx\<close>): the slice of the session view
  with its own \<open>fetchTraceSpans\<close>, runs and spans streamed live, and the catch-up of a run that was
  added live (\<open>hydrateTraceRow\<close>: two requests, one after the other).

  Every asynchronous operation is split where it waits. Toasts are kept as the list of titles shown.
  Times are valid dates.
\<close>

section \<open>The platform\<close>

text \<open>What the code takes from its platform: \<open>new Date(s).getTime()\<close>, \<open>toISOString\<close>, \<open>Number\<close> on strings,
  the entries of \<open>JSON.parse\<close>, \<open>String\<close> on other values.\<close>

record platform =
  ms_of :: "string \<Rightarrow> int"
  iso_of :: "int \<Rightarrow> string"
  num_of :: "string \<Rightarrow> number option"
  entries_of :: "string \<Rightarrow> (string \<times> attr) list option"
  text_of_value :: "attr \<Rightarrow> string"

section \<open>State\<close>

record debugger_view = session_view +
  dv_traceSpansFetching :: "string \<Rightarrow> bool option"
  dv_sessionName :: string
  dv_sessionNameRaw :: "string option"
  dv_newTraceNotice :: bool
  dv_isInitialTracesLoaded :: bool
  dv_toasts :: "string list"

definition NOTE_METADATA_KEY :: string where
  "NOTE_METADATA_KEY = ''rollout.note''"

definition MAX_RUNS :: nat where
  "MAX_RUNS = 200"

record debugger_options =
  op_initialTraceRow :: "trace_row option"
  op_initialSessionName :: "string option"
  op_initialSessionNameRaw :: "string option"
  op_projectId :: "string option"

definition createDebuggerSessionViewStore :: "debugger_options \<Rightarrow> debugger_view" where
  "createDebuggerSessionViewStore o' =
     session_view.extend
       (init_session_view\<lparr>sv_projectId := op_projectId o',
          sv_traces := (case op_initialTraceRow o' of None \<Rightarrow> [] | Some row \<Rightarrow> [row])\<rparr>)
       \<lparr>dv_traceSpansFetching = Map.empty,
        dv_sessionName = (case op_initialSessionName o' of None \<Rightarrow> ''Session'' | Some n \<Rightarrow> n),
        dv_sessionNameRaw = op_initialSessionNameRaw o', dv_newTraceNotice = False,
        dv_isInitialTracesLoaded = False, dv_toasts = []\<rparr>"

section \<open>Requests\<close>

text \<open>The rows the server sends have their metadata in some raw form.\<close>

record raw_row =
  rw_row :: trace_row
  rw_metadata :: raw_metadata

definition normalize_row :: "platform \<Rightarrow> raw_row \<Rightarrow> trace_row" where
  "normalize_row pf item =
     (rw_row item)\<lparr>tr_metadata := normalizeMetadata (entries_of pf) (text_of_value pf) (rw_metadata item)\<rparr>"

datatype debugger_request = ExpandSpans fetch_request | HydrateRow string string | HydrateSpans fetch_request

fun dr_traceId :: "debugger_request \<Rightarrow> string" where
  "dr_traceId (ExpandSpans q) = fr_traceId q"
| "dr_traceId (HydrateRow pid tid) = tid"
| "dr_traceId (HydrateSpans q) = fr_traceId q"

text \<open>A response, read as what its request asks for.\<close>

record debugger_response =
  rp_spans :: "span list outcome"
  rp_rows :: "raw_row list outcome"

definition project_of :: "'a session_view_scheme \<Rightarrow> string option" where
  "project_of st = (case sv_projectId st of None \<Rightarrow> None | Some pid \<Rightarrow> if pid = [] then None else Some pid)"

definition mark_fetching :: "string \<Rightarrow> bool \<Rightarrow> debugger_view \<Rightarrow> debugger_view" where
  "mark_fetching tid b st = st\<lparr>dv_traceSpansFetching := (dv_traceSpansFetching st)(tid \<mapsto> b)\<rparr>"

definition toast :: "string \<Rightarrow> debugger_view \<Rightarrow> debugger_view" where
  "toast title st = st\<lparr>dv_toasts := dv_toasts st @ [title]\<rparr>"

definition span_window :: "platform \<Rightarrow> string \<Rightarrow> string \<Rightarrow> trace_row \<Rightarrow> fetch_request" where
  "span_window pf pid tid row = \<lparr>fr_projectId = pid, fr_traceId = tid,
     fr_startDate = iso_of pf (ms_of pf (tr_startTime row) - 1000), fr_endDate = iso_of pf (ms_of pf (tr_endTime row) + 1000)\<rparr>"

text \<open>\<open>setTraceSpans(traceId, mergeSpans(get().traceSpans[traceId] ?? [], incoming, wins))\<close>\<close>

definition merge_into :: "platform \<Rightarrow> string \<Rightarrow> span list \<Rightarrow> bool \<Rightarrow> debugger_view \<Rightarrow> debugger_view" where
  "merge_into pf tid incoming wins st =
     (let live = (case sv_traceSpans st tid of None \<Rightarrow> [] | Some ss \<Rightarrow> ss)
      in st\<lparr>sv_traceSpans := (sv_traceSpans st)(tid \<mapsto> mergeSpans (ms_of pf) (iso_of pf) live incoming wins)\<rparr>)"

subsection \<open>The spans of a run\<close>

definition fetchDebuggerSpans :: "platform \<Rightarrow> trace_row \<Rightarrow> debugger_view \<Rightarrow> debugger_view \<times> debugger_request list" where
  "fetchDebuggerSpans pf trace st =
     (if dv_traceSpansFetching st (tr_id trace) = Some True then (st, [])
      else let st' = (mark_fetching (tr_id trace) True st)\<lparr>sv_traceSpansError := (sv_traceSpansError st)(tr_id trace := None)\<rparr>
        in case project_of st' of
          None \<Rightarrow> (mark_fetching (tr_id trace) False st', [])
        | Some pid \<Rightarrow> (st', [ExpandSpans (span_window pf pid (tr_id trace) trace)]))"

definition settle_expand :: "platform \<Rightarrow> string \<Rightarrow> span list outcome \<Rightarrow> debugger_view \<Rightarrow> debugger_view" where
  "settle_expand pf tid res st =
     mark_fetching tid False
       (case res of
          FetchOk fetched \<Rightarrow> merge_into pf tid fetched False st
        | _ \<Rightarrow> toast ''Failed to load spans''
                 (st\<lparr>sv_traceSpansError := (sv_traceSpansError st)(tid \<mapsto> ''Failed to load spans'')\<rparr>))"

subsection \<open>Catching up with a run that was added live\<close>

definition hydrateTraceRow :: "string \<Rightarrow> debugger_view \<Rightarrow> debugger_view \<times> debugger_request list" where
  "hydrateTraceRow tid st =
     (case project_of st of
        None \<Rightarrow> (st, [])
      | Some pid \<Rightarrow> if dv_traceSpansFetching st tid = Some True then (st, [])
          else (mark_fetching tid True st, [HydrateRow pid tid]))"

text \<open>A fetched row takes over, but what was streamed meanwhile is kept: the live metadata wins key by
  key, and the later end time.\<close>

definition catch_up :: "(string \<Rightarrow> int) \<Rightarrow> trace_row \<Rightarrow> trace_row \<Rightarrow> trace_row" where
  "catch_up ms live fetched =
     fetched\<lparr>tr_metadata := tr_metadata fetched ++ tr_metadata live,
       tr_endTime := (if ms (tr_endTime live) > ms (tr_endTime fetched) then tr_endTime live else tr_endTime fetched)\<rparr>"

definition settle_hydrate_row ::
  "platform \<Rightarrow> string \<Rightarrow> string \<Rightarrow> raw_row list outcome \<Rightarrow> debugger_view \<Rightarrow> debugger_view \<times> debugger_request list" where
  "settle_hydrate_row pf pid tid res st =
     (case res of
        FetchOk [] \<Rightarrow> (mark_fetching tid False st, [])
      | FetchOk (item # _) \<Rightarrow>
          (st\<lparr>sv_traces := map (\<lambda>row. if tr_id row \<noteq> tid then row else catch_up (ms_of pf) row (normalize_row pf item)) (sv_traces st)\<rparr>,
           [HydrateSpans (span_window pf pid tid (rw_row item))])
      | _ \<Rightarrow> (mark_fetching tid False (toast ''Failed to load run data'' st), []))"

definition settle_hydrate_spans :: "platform \<Rightarrow> string \<Rightarrow> span list outcome \<Rightarrow> debugger_view \<Rightarrow> debugger_view" where
  "settle_hydrate_spans pf tid res st =
     mark_fetching tid False
       (case res of
          FetchOk fetched \<Rightarrow> if fetched = [] then st else merge_into pf tid fetched False st
        | _ \<Rightarrow> toast ''Failed to load run data'' st)"

fun debugger_settle ::
  "platform \<Rightarrow> debugger_view \<Rightarrow> debugger_request \<Rightarrow> debugger_response \<Rightarrow> debugger_view \<times> debugger_request list" where
  "debugger_settle pf st (ExpandSpans q) r = (settle_expand pf (fr_traceId q) (rp_spans r) st, [])"
| "debugger_settle pf st (HydrateRow pid tid) r = settle_hydrate_row pf pid tid (rp_rows r) st"
| "debugger_settle pf st (HydrateSpans q) r = (settle_hydrate_spans pf (fr_traceId q) (rp_spans r) st, [])"

section \<open>The runs of the session\<close>

record runs_request =
  rq_projectId :: string
  rq_pageNumber :: nat
  rq_pageSize :: nat
  rq_sortDirection :: string
  rq_metadata :: string

definition fetchSessionTraces :: "string \<Rightarrow> debugger_view \<Rightarrow> debugger_view \<times> runs_request option" where
  "fetchSessionTraces sessionId st =
     (case project_of st of
        None \<Rightarrow> (st, None)
      | Some pid \<Rightarrow> (st\<lparr>sv_isTracesLoading := True, sv_tracesError := None\<rparr>,
          Some \<lparr>rq_projectId = pid, rq_pageNumber = 0, rq_pageSize = MAX_RUNS, rq_sortDirection = ''DESC'',
                rq_metadata = ''rollout.session_id='' @ sessionId\<rparr>))"

definition merge_runs :: "(string \<Rightarrow> int) \<Rightarrow> trace_row list \<Rightarrow> trace_row list \<Rightarrow> trace_row list" where
  "merge_runs ms sorted' prev =
     (let prevById = js_map_of tr_id (\<lambda>t. t) prev;
          merged = map (\<lambda>fetched. case map_of prevById (tr_id fetched) of
                          None \<Rightarrow> fetched | Some live \<Rightarrow> catch_up ms live fetched) sorted';
          realtimeOnly = filter (\<lambda>t. tr_id t \<notin> tr_id ` set sorted') prev
      in sort_key (\<lambda>t. ms (tr_startTime t)) (merged @ realtimeOnly))"

definition settleSessionTraces :: "platform \<Rightarrow> raw_row list outcome \<Rightarrow> debugger_view \<Rightarrow> debugger_view" where
  "settleSessionTraces pf res st =
     (let st' = (case res of
          FetchOk items \<Rightarrow> st\<lparr>sv_traces := merge_runs (ms_of pf)
             (sort_key (\<lambda>t. ms_of pf (tr_startTime t)) (map (normalize_row pf) items)) (sv_traces st)\<rparr>
        | FetchNotOk err \<Rightarrow> st\<lparr>sv_tracesError := Some (or_default ''Failed to load session traces'' err)\<rparr>
        | FetchThrew msg \<Rightarrow> st\<lparr>sv_tracesError := Some (case msg of None \<Rightarrow> ''Failed to load session traces'' | Some m \<Rightarrow> m)\<rparr>)
      in st'\<lparr>sv_isTracesLoading := False, dv_isInitialTracesLoaded := True\<rparr>)"

section \<open>Live updates\<close>

definition applyRealtimeSpan :: "platform \<Rightarrow> realtime_span \<Rightarrow> debugger_view \<Rightarrow> debugger_view" where
  "applyRealtimeSpan pf s st =
     (let tid = rs_traceId s;
          st' = merge_into pf tid [realtimeToTraceViewSpan (num_of pf) s] True st
      in case find (\<lambda>t. tr_id t = tid) (sv_traces st') of
           None \<Rightarrow> st'
         | Some target \<Rightarrow>
             if ms_of pf (rs_endTime s) \<le> ms_of pf (tr_endTime target) then st'
             else st'\<lparr>sv_traces := map (\<lambda>t. if tr_id t = tid then t\<lparr>tr_endTime := rs_endTime s\<rparr> else t) (sv_traces st')\<rparr>)"

definition applyRealtimeSpans :: "platform \<Rightarrow> realtime_span list \<Rightarrow> debugger_view \<Rightarrow> debugger_view" where
  "applyRealtimeSpans pf ss st = foldl (\<lambda>st s. applyRealtimeSpan pf s st) st ss"

text \<open>A \<open>trace_update\<close>, with the two readings of the clock it takes if the run is new.\<close>

record trace_update =
  tu_traceId :: string
  tu_metadata :: raw_metadata
  tu_hasBrowserSession :: "bool option"
  tu_now :: "string \<times> string"

definition minimalTraceRow :: "string \<Rightarrow> (string \<Rightarrow> string option) \<Rightarrow> string \<times> string \<Rightarrow> trace_row" where
  "minimalTraceRow tid metadata now = (mk_trace tid (fst now) (snd now))\<lparr>tr_metadata := metadata\<rparr>"

definition applyTraceUpdate :: "platform \<Rightarrow> trace_update \<Rightarrow> debugger_view \<Rightarrow> debugger_view \<times> debugger_request list" where
  "applyTraceUpdate pf t st =
     (let tid = tu_traceId t in
      if tid = [] then (st, [])
      else let metadata = normalizeMetadata (entries_of pf) (text_of_value pf) (tu_metadata t) in
        case find (\<lambda>row. tr_id row = tid) (sv_traces st) of
          None \<Rightarrow>
            (let st1 = st\<lparr>sv_traces := sv_traces st @ [minimalTraceRow tid metadata (tu_now t)]\<rparr>;
                 (st2, qs) = hydrateTraceRow tid st1;
                 (st3, rs) = setTraceExpanded (fetchDebuggerSpans pf) tid True st2
             in (if dv_isInitialTracesLoaded st3 then st3\<lparr>dv_newTraceNotice := True\<rparr> else st3, qs @ rs))
        | Some _ \<Rightarrow>
            (if metadata_entries (entries_of pf) (tu_metadata t) = [] \<and> tu_hasBrowserSession t = None then st
             else st\<lparr>sv_traces := map (\<lambda>row. if tr_id row = tid
                    then row\<lparr>tr_metadata := tr_metadata row ++ metadata,
                             tr_hasBrowserSession := (case tu_hasBrowserSession t of None \<Rightarrow> tr_hasBrowserSession row | Some b \<Rightarrow> Some b)\<rparr>
                    else row) (sv_traces st)\<rparr>, []))"

fun applyTraceUpdates :: "platform \<Rightarrow> trace_update list \<Rightarrow> debugger_view \<Rightarrow> debugger_view \<times> debugger_request list" where
  "applyTraceUpdates pf [] st = (st, [])"
| "applyTraceUpdates pf (t # ts) st =
     (let (st1, qs) = applyTraceUpdate pf t st; (st2, rs) = applyTraceUpdates pf ts st1 in (st2, qs @ rs))"

definition setSessionName :: "string \<Rightarrow> debugger_view \<Rightarrow> debugger_view" where
  "setSessionName n st = st\<lparr>dv_sessionName := n, dv_sessionNameRaw := Some n\<rparr>"

definition dismissNewTraceNotice :: "debugger_view \<Rightarrow> debugger_view" where
  "dismissNewTraceNotice st = st\<lparr>dv_newTraceNotice := False\<rparr>"

definition noteForTrace :: "string \<Rightarrow> debugger_view \<Rightarrow> string option" where
  "noteForTrace tid st =
     (case find (\<lambda>t. tr_id t = tid) (sv_traces st) of None \<Rightarrow> None | Some row \<Rightarrow> tr_metadata row NOTE_METADATA_KEY)"

definition getSpanType :: "string \<Rightarrow> string \<Rightarrow> debugger_view \<Rightarrow> span_type option" where
  "getSpanType tid sid st =
     (case sv_traceSpans st tid of
        None \<Rightarrow> None
      | Some ss \<Rightarrow> (case find (\<lambda>s. spanId s = sid) ss of None \<Rightarrow> None | Some s \<Rightarrow> Some (spanType s)))"

definition partialize_debugger :: "debugger_view \<Rightarrow> attrs" where
  "partialize_debugger st =
     [''sessionPanelWidth'' \<mapsto> ANum (sv_width st SessionPanelWidth), ''spanPanelWidth'' \<mapsto> ANum (sv_width st SpanPanelWidth)]"

definition merge_debugger :: "attrs \<Rightarrow> debugger_view \<Rightarrow> debugger_view" where
  "merge_debugger persisted current =
     merge_width persisted ''spanPanelWidth'' SpanPanelWidth (merge_width persisted ''sessionPanelWidth'' SessionPanelWidth current)"

section \<open>The store as a state machine\<close>

datatype debugger_action =
    Slice session_action
  | FetchSessionTraces string
  | SessionTracesArrive "raw_row list outcome"
  | ApplyRealtimeSpans "realtime_span list"
  | ApplyTraceUpdates "trace_update list"
  | HydrateTraceRow string
  | SetSessionName string
  | DismissNewTraceNotice

fun debugger_act :: "platform \<Rightarrow> debugger_view \<Rightarrow> debugger_action \<Rightarrow> debugger_view \<times> debugger_request list" where
  "debugger_act pf st (Slice a) = session_act (fetchDebuggerSpans pf) st a"
| "debugger_act pf st (FetchSessionTraces sid) = (fst (fetchSessionTraces sid st), [])"
| "debugger_act pf st (SessionTracesArrive res) = (settleSessionTraces pf res st, [])"
| "debugger_act pf st (ApplyRealtimeSpans ss) = (applyRealtimeSpans pf ss st, [])"
| "debugger_act pf st (ApplyTraceUpdates ts) = applyTraceUpdates pf ts st"
| "debugger_act pf st (HydrateTraceRow tid) = hydrateTraceRow tid st"
| "debugger_act pf st (SetSessionName n) = (setSessionName n st, [])"
| "debugger_act pf st DismissNewTraceNotice = (dismissNewTraceNotice st, [])"

definition is_fetching :: "debugger_view \<Rightarrow> string \<Rightarrow> bool" where
  "is_fetching st tid \<longleftrightarrow> dv_traceSpansFetching st tid = Some True"

lemma is_fetching_marks [simp]:
  "is_fetching (mark_fetching tid b st) k \<longleftrightarrow> (if k = tid then b else is_fetching st k)"
  "is_fetching (toast title st) = is_fetching st" "is_fetching (merge_into pf tid ss w st) = is_fetching st"
  "is_fetching (sv_traces_update f st) = is_fetching st" "is_fetching (sv_traceSpansError_update g st) = is_fetching st"
  "is_fetching (dv_newTraceNotice_update n st) = is_fetching st" "is_fetching (dv_sessionName_update f' st) = is_fetching st"
  "is_fetching (dv_sessionNameRaw_update f'' st) = is_fetching st"
  by (auto simp: is_fetching_def mark_fetching_def toast_def merge_into_def Let_def fun_eq_iff)

lemma fetchDebuggerSpans_starts: "fetchDebuggerSpans pf t st = (st', qs) \<Longrightarrow> starts is_fetching dr_traceId st st' qs"
  by (auto simp: fetchDebuggerSpans_def starts_def span_window_def Let_def is_fetching_def mark_fetching_def
      split: option.splits if_splits)

lemma hydrate_starts: "hydrateTraceRow tid st = (st', qs) \<Longrightarrow> starts is_fetching dr_traceId st st' qs"
  by (auto simp: hydrateTraceRow_def starts_def is_fetching_def mark_fetching_def split: option.splits if_splits)

interpretation debugger_fetching: fetching_store "fetchDebuggerSpans pf" is_fetching dr_traceId
proof
  show "inv_part st' = inv_part st" if "fetchDebuggerSpans pf t st = (st', qs)" for t st st' qs
    using that by (auto simp: fetchDebuggerSpans_def inv_part_def mark_fetching_def Let_def split: option.splits if_splits)
  show "is_fetching (fst (session_act (fetchDebuggerSpans pf) st a)) = is_fetching st" if "\<not> fetches a" for a st
    using that by (intro ext, cases a) (simp_all add: is_fetching_def session_action_defs split: option.splits)
qed (auto simp: fetchDebuggerSpans_starts is_fetching_def fun_eq_iff)

lemma starts_to: "starts busy key st st1 qs \<Longrightarrow> busy st' = busy st1 \<Longrightarrow> starts busy key st st' qs"
  by (simp add: starts_def)

lemma applyTraceUpdate_starts:
  assumes "applyTraceUpdate pf t st = (st', qs)"
  shows "starts is_fetching dr_traceId st st' qs"
proof (cases "tu_traceId t = [] \<or> find (\<lambda>row. tr_id row = tu_traceId t) (sv_traces st) \<noteq> None")
  case True
  then have "qs = [] \<and> is_fetching st' = is_fetching st"
    using assms by (auto simp: applyTraceUpdate_def Let_def split: if_splits)
  then show ?thesis by (simp add: starts_none)
next
  case False
  define st1 where "st1 = st\<lparr>sv_traces := sv_traces st @
    [minimalTraceRow (tu_traceId t) (normalizeMetadata (entries_of pf) (text_of_value pf) (tu_metadata t)) (tu_now t)]\<rparr>"
  obtain st2 rs1 where 2: "hydrateTraceRow (tu_traceId t) st1 = (st2, rs1)" by (metis surj_pair)
  obtain st3 rs2 where 3: "setTraceExpanded (fetchDebuggerSpans pf) (tu_traceId t) True st2 = (st3, rs2)" by (metis surj_pair)
  have "is_fetching st1 = is_fetching st" by (simp add: st1_def)
  from starts_from [OF hydrate_starts [OF 2] this] debugger_fetching.setTraceExpanded_starts [OF 3]
  have "starts is_fetching dr_traceId st st3 (rs1 @ rs2)" by (metis starts_trans)
  moreover have "qs = rs1 @ rs2" "is_fetching st' = is_fetching st3"
    using assms False 2 3 by (auto simp: applyTraceUpdate_def Let_def st1_def split: if_splits)
  ultimately show ?thesis using starts_to by metis
qed

lemma applyTraceUpdates_starts: "applyTraceUpdates pf ts st = (st', qs) \<Longrightarrow> starts is_fetching dr_traceId st st' qs"
proof (induction ts arbitrary: st st' qs)
  case Nil
  then show ?case by (simp add: starts_none)
next
  case (Cons t ts)
  obtain st1 rs1 where 1: "applyTraceUpdate pf t st = (st1, rs1)" by (metis surj_pair)
  obtain st2 rs2 where 2: "applyTraceUpdates pf ts st1 = (st2, rs2)" by (metis surj_pair)
  from starts_trans [OF applyTraceUpdate_starts [OF 1] Cons.IH [OF 2]] Cons.prems show ?case by (simp add: 1 2)
qed

lemma realtime_fetching: "is_fetching (applyRealtimeSpans pf ss st) = is_fetching st"
proof -
  have "is_fetching (applyRealtimeSpan pf s st) = is_fetching st" for s st
    by (simp add: applyRealtimeSpan_def Let_def split: option.split)
  then show ?thesis unfolding applyRealtimeSpans_def by (induction ss arbitrary: st) simp_all
qed

lemma debugger_act_starts: "debugger_act pf st a = (st', qs) \<Longrightarrow> starts is_fetching dr_traceId st st' qs"
proof (cases a)
  case (FetchSessionTraces sid)
  then show "debugger_act pf st a = (st', qs) \<Longrightarrow> ?thesis"
    by (auto simp: fetchSessionTraces_def is_fetching_def intro!: starts_none split: option.splits)
next
  case (SessionTracesArrive res)
  then show "debugger_act pf st a = (st', qs) \<Longrightarrow> ?thesis"
    by (auto simp: settleSessionTraces_def is_fetching_def Let_def intro!: starts_none split: outcome.splits)
qed (auto simp: realtime_fetching setSessionName_def dismissNewTraceNotice_def
    intro: starts_none debugger_fetching.action_starts applyTraceUpdates_starts hydrate_starts)

lemma settle_row_cases:
  "settle_hydrate_row pf pid tid res st = (st', qs) \<Longrightarrow>
     (qs = [] \<and> is_fetching st' = (is_fetching st)(tid := False)) \<or>
     (\<exists>q. qs = [HydrateSpans q] \<and> fr_traceId q = tid \<and> is_fetching st' = is_fetching st \<and> (\<exists>items. res = FetchOk items \<and> items \<noteq> []))"
  by (auto simp: settle_hydrate_row_def span_window_def fun_eq_iff split: outcome.splits list.splits)

text \<open>The view of a project, with what the page was rendered with.\<close>

interpretation debugger_flight:
  single_flight "debugger_act pf" "debugger_settle pf" "createDebuggerSessionViewStore o'" is_fetching dr_traceId
proof
  show "\<not> is_fetching (createDebuggerSessionViewStore o') k" for k
    by (simp add: is_fetching_def createDebuggerSessionViewStore_def session_view.defs)
  show "distinct (map dr_traceId qs) \<and> (\<forall>k. is_fetching s' k \<longleftrightarrow> is_fetching s k \<or> k \<in> dr_traceId ` set qs) \<and>
      (\<forall>q\<in>set qs. \<not> is_fetching s (dr_traceId q))" if "debugger_act pf s e = (s', qs)" for s s' e qs
    using debugger_act_starts [OF that] by (simp add: starts_def)
  show "distinct (map dr_traceId qs) \<and> dr_traceId ` set qs \<subseteq> {dr_traceId q} \<and>
      (\<forall>k. is_fetching s' k \<longleftrightarrow> (if k = dr_traceId q then qs \<noteq> [] else is_fetching s k))"
    if "debugger_settle pf s q r = (s', qs)" "is_fetching s (dr_traceId q)" for s s' q r qs
  proof (cases q)
    case (HydrateRow pid tid)
    with that settle_row_cases [of pf pid tid "rp_rows r" s s' qs] show ?thesis by auto
  qed (use that in \<open>auto simp: settle_expand_def settle_hydrate_spans_def split: outcome.splits if_splits\<close>)
qed

text \<open>The invariant of the slice: no live update touches the part of the state it reads.\<close>

lemma inv_part_marks [simp]:
  "inv_part (mark_fetching tid b st) = inv_part st" "inv_part (toast title st) = inv_part st"
  "inv_part (merge_into pf tid ss w st) = inv_part st" "inv_part (sv_traces_update f st) = inv_part st"
  "inv_part (sv_traceSpansError_update g st) = inv_part st" "inv_part (dv_newTraceNotice_update n st) = inv_part st"
  by (simp_all add: inv_part_def mark_fetching_def toast_def merge_into_def Let_def)

lemma hydrate_part: "hydrateTraceRow tid st = (st', qs) \<Longrightarrow> inv_part st' = inv_part st"
  by (auto simp: hydrateTraceRow_def split: option.splits if_splits)

lemma applyTraceUpdate_part: "applyTraceUpdate pf t st = (st', qs) \<Longrightarrow> inv_part st' = inv_part st"
  unfolding applyTraceUpdate_def Let_def
  by (auto split: if_splits option.splits prod.splits
      dest!: hydrate_part conjunct2 [OF debugger_fetching.setTraceExpanded_starts])

lemma applyTraceUpdates_part: "applyTraceUpdates pf ts st = (st', qs) \<Longrightarrow> inv_part st' = inv_part st"
proof (induction ts arbitrary: st st' qs)
  case (Cons t ts)
  then show ?case by (auto split: prod.splits dest!: applyTraceUpdate_part)
qed simp

lemma realtime_part: "inv_part (applyRealtimeSpans pf ss st) = inv_part st"
proof -
  have "inv_part (applyRealtimeSpan pf s st) = inv_part st" for s st
    by (simp add: applyRealtimeSpan_def Let_def split: option.split)
  then show ?thesis unfolding applyRealtimeSpans_def by (induction ss arbitrary: st) simp_all
qed

lemma debugger_act_part:
  "debugger_act pf st a = (st', qs) \<Longrightarrow> (\<exists>b. a = Slice b) \<or> inv_part st' = inv_part st"
  by (cases a)
    (auto simp: realtime_part [unfolded inv_part_def prod.inject] inv_part_def fetchSessionTraces_def settleSessionTraces_def setSessionName_def
      dismissNewTraceNotice_def Let_def split: option.splits outcome.splits
      dest!: applyTraceUpdates_part [unfolded inv_part_def] hydrate_part [unfolded inv_part_def])

lemma debugger_settle_part: "inv_part (fst (debugger_settle pf st q r)) = inv_part st"
  by (cases q) (simp_all add: settle_expand_def settle_hydrate_row_def settle_hydrate_spans_def split: outcome.splits list.splits)

interpretation debugger_states:
  flight_invariant "debugger_act pf" "debugger_settle pf" "createDebuggerSessionViewStore o'" session_inv
proof
  show "session_inv (createDebuggerSessionViewStore o')"
    by (simp add: session_inv_def createDebuggerSessionViewStore_def session_view.defs init_session_view_def)
  show "session_inv (fst (debugger_act pf s e))" if "session_inv s" for s e
  proof (cases "\<exists>b. e = Slice b")
    case True
    with that show ?thesis by (auto intro: debugger_fetching.action_inv)
  next
    case False
    obtain s' qs where e: "debugger_act pf s e = (s', qs)" by (metis surj_pair)
    with debugger_act_part [OF e] False session_inv_part [of s' s] that show ?thesis by simp
  qed
  show "session_inv (fst (debugger_settle pf s q r))" if "session_inv s" for s q r
    using session_inv_part [OF debugger_settle_part, of pf s q r] that by simp
qed

section \<open>Properties\<close>

text \<open>
  Claim C22. However user actions, live updates and responses of the debugger's view interleave, no run
  is being fetched twice at a time, by expansion or by catching up; a run is marked as fetching exactly
  while a response for it is outstanding; and zooms and the span panel keep the invariant of the slice.
\<close>

theorem debugger_single_flight:
  assumes "flight (debugger_act pf) (debugger_settle pf) (createDebuggerSessionViewStore o') (st, inflight)"
  shows "distinct (map dr_traceId inflight) \<and> (dv_traceSpansFetching st t = Some True \<longleftrightarrow> t \<in> dr_traceId ` set inflight) \<and>
    (case sv_zoomByTrace st t of None \<Rightarrow> True | Some z \<Rightarrow> 1 \<le> z \<and> z \<le> 25) \<and>
    (sv_selectedSpan st = None \<or> sv_spanPanelOpen st)"
  using debugger_flight.flight_busy [OF assms] debugger_states.flight_inv [OF assms]
  by (auto simp: is_fetching_def session_inv_def MIN_ZOOM_def MAX_ZOOM_def split: option.splits)

definition demo_platform :: platform where
  "demo_platform = \<lparr>ms_of = tally_ms, iso_of = tally_iso, num_of = (\<lambda>_. None), entries_of = (\<lambda>_. None), text_of_value = (\<lambda>_. [])\<rparr>"

definition demo_options :: debugger_options where
  "demo_options = \<lparr>op_initialTraceRow = None, op_initialSessionName = None, op_initialSessionNameRaw = None, op_projectId = Some ''p''\<rparr>"

definition demo_update :: trace_update where
  "demo_update = \<lparr>tu_traceId = ''t'', tu_metadata = MetadataEntries [(''rollout.note'', AStr ''n'')], tu_hasBrowserSession = None, tu_now = (''x'', ''x'')\<rparr>"

abbreviation demo_view :: debugger_view where
  "demo_view \<equiv> createDebuggerSessionViewStore demo_options"

abbreviation demo_hydrating :: debugger_view where
  "demo_hydrating \<equiv> fst (debugger_act demo_platform demo_view (HydrateTraceRow ''t''))"

lemma demo_debugger_flight:
  "flight (debugger_act demo_platform) (debugger_settle demo_platform) demo_view (demo_hydrating, [HydrateRow ''p'' ''t''])"
proof -
  have "debugger_act demo_platform demo_view (HydrateTraceRow ''t'') = (demo_hydrating, [HydrateRow ''p'' ''t''])"
    by (simp add: hydrateTraceRow_def project_of_def createDebuggerSessionViewStore_def session_view.defs demo_options_def)
  from flight_act [OF flight_init [of "debugger_act demo_platform" "debugger_settle demo_platform" demo_view] this] show ?thesis by simp
qed

lemma debugger_single_flight_witness: "dv_traceSpansFetching demo_hydrating ''t'' = Some True"
  using debugger_single_flight [OF demo_debugger_flight, where t = "''t''"] by simp

text \<open>
  A live update about a run the view does not know yet: a row for it is appended, with the
  metadata of the update, and expanded; exactly one request is started for it, by the catch-up, which
  the expansion then finds marked (none, if a response for that id is still outstanding); the notice
  shows unless the initial load is still under way.
\<close>

lemma new_run_one_request:
  assumes "flight (debugger_act pf) (debugger_settle pf) (createDebuggerSessionViewStore o') (st, inflight)"
    and "tu_traceId t \<noteq> []" and "\<forall>row\<in>set (sv_traces st). tr_id row \<noteq> tu_traceId t" and "project_of st = Some pid"
    and "applyTraceUpdate pf t st = (st', qs)"
  shows "qs = (if tu_traceId t \<in> dr_traceId ` set inflight then [] else [HydrateRow pid (tu_traceId t)]) \<and>
    sv_traces st' = sv_traces st @
      [minimalTraceRow (tu_traceId t) (normalizeMetadata (entries_of pf) (text_of_value pf) (tu_metadata t)) (tu_now t)] \<and>
    tu_traceId t \<in> sv_expandedTraceIds st' \<and> dv_traceSpansFetching st' (tu_traceId t) = Some True \<and>
    sv_traceSpans st' = sv_traceSpans st \<and>
    (dv_newTraceNotice st' \<longleftrightarrow> dv_newTraceNotice st \<or> dv_isInitialTracesLoaded st)"
proof -
  let ?row = "minimalTraceRow (tu_traceId t) (normalizeMetadata (entries_of pf) (text_of_value pf) (tu_metadata t)) (tu_now t)"
  let ?busy = "dv_traceSpansFetching st (tu_traceId t) = Some True"
  have busy: "?busy \<longleftrightarrow> tu_traceId t \<in> dr_traceId ` set inflight"
    using debugger_flight.flight_busy [OF assms(1)] by (simp add: is_fetching_def)
  have new: "find (\<lambda>row. tr_id row = tu_traceId t) (sv_traces st) = None"
    using assms(3) by (simp add: find_None_iff)
  define st2 where "st2 = (let st1 = st\<lparr>sv_traces := sv_traces st @ [?row]\<rparr> in if ?busy then st1 else mark_fetching (tu_traceId t) True st1)"
  have 2: "hydrateTraceRow (tu_traceId t) (st\<lparr>sv_traces := sv_traces st @ [?row]\<rparr>) =
      (st2, if ?busy then [] else [HydrateRow pid (tu_traceId t)])"
    using assms(4) by (simp add: hydrateTraceRow_def st2_def project_of_def Let_def)
  have marked: "dv_traceSpansFetching st2 (tu_traceId t) = Some True" by (simp add: st2_def mark_fetching_def Let_def)
  have keep: "sv_traces st2 = sv_traces st @ [?row]" "sv_traceSpans st2 = sv_traceSpans st"
    "dv_newTraceNotice st2 = dv_newTraceNotice st" "dv_isInitialTracesLoaded st2 = dv_isInitialTracesLoaded st"
    by (simp_all add: st2_def mark_fetching_def Let_def)
  define st3 where "st3 = st2\<lparr>sv_expandedTraceIds := insert (tu_traceId t) (sv_expandedTraceIds st2)\<rparr>"
  have 3: "setTraceExpanded (fetchDebuggerSpans pf) (tu_traceId t) True st2 = (st3, [])"
  proof -
    have "fetch_listed (fetchDebuggerSpans pf) (tu_traceId t) st3 = (st3, [])"
    proof (cases "find (\<lambda>row. tr_id row = tu_traceId t) (sv_traces st3)")
      case (Some row)
      then have "tr_id row = tu_traceId t" by (auto simp: find_Some_iff)
      then show ?thesis using Some marked by (simp add: fetch_listed_def fetchDebuggerSpans_def st3_def)
    qed (simp add: fetch_listed_def)
    then show ?thesis by (auto simp: setTraceExpanded_def st3_def insert_absorb)
  qed
  have "(st', qs) = (if dv_isInitialTracesLoaded st3 then st3\<lparr>dv_newTraceNotice := True\<rparr> else st3,
      if ?busy then [] else [HydrateRow pid (tu_traceId t)])"
    unfolding assms(5) [symmetric] applyTraceUpdate_def Let_def new option.case 2 3 prod.case using assms(2) by simp
  then show ?thesis using keep marked busy by (auto simp: st3_def)
qed

lemma new_run_one_request_witness:
  "snd (applyTraceUpdate demo_platform demo_update demo_view) = [HydrateRow ''p'' ''t'']"
proof -
  obtain st' qs where a: "applyTraceUpdate demo_platform demo_update demo_view = (st', qs)" by (metis surj_pair)
  have "flight (debugger_act demo_platform) (debugger_settle demo_platform) demo_view (demo_view, [])" by (rule flight_init)
  from new_run_one_request [OF this _ _ _ a, of "''p''"] a show ?thesis
    by (simp add: demo_update_def createDebuggerSessionViewStore_def session_view.defs demo_options_def init_session_view_def project_of_def)
qed

text \<open>
  No run stays marked as fetching. When a response to an outstanding request arrives, either
  the run is no longer marked, so that expanding it again starts exactly one request, or the response
  was the row of a run being caught up with and the request for its spans follows, whose response will
  remove the mark. A failed response leaves runs and spans as they were and is reported once.
\<close>
lemma debugger_fetch_settles:
  assumes "flight (debugger_act pf) (debugger_settle pf) (createDebuggerSessionViewStore o') (st, inflight)"
    and "q \<in> set inflight" and "debugger_settle pf st q r = (st', qs)"
  shows "(qs = [] \<and> dv_traceSpansFetching st' (dr_traceId q) = Some False \<and>
      (\<forall>trace p. tr_id trace = dr_traceId q \<longrightarrow> project_of st' = Some p \<longrightarrow>
         snd (fetchDebuggerSpans pf trace st') = [ExpandSpans (span_window pf p (tr_id trace) trace)]) \<or>
     (\<exists>pid tid w. q = HydrateRow pid tid \<and> qs = [HydrateSpans w] \<and> fr_traceId w = tid \<and> dv_traceSpansFetching st' tid = Some True)) \<and>
    ((\<nexists>ss. rp_spans r = FetchOk ss) \<longrightarrow> (\<nexists>rows. rp_rows r = FetchOk rows) \<longrightarrow>
       sv_traces st' = sv_traces st \<and> sv_traceSpans st' = sv_traceSpans st \<and> length (dv_toasts st') = length (dv_toasts st) + 1)"
proof
  let ?t = "dr_traceId q"
  have busy: "dv_traceSpansFetching st ?t = Some True"
    using debugger_flight.flight_busy [OF assms(1)] assms(2) by (simp add: is_fetching_def)
  have again: "snd (fetchDebuggerSpans pf trace st') = [ExpandSpans (span_window pf p (tr_id trace) trace)]"
    if "dv_traceSpansFetching st' ?t = Some False" "tr_id trace = ?t" "project_of st' = Some p" for trace p
    using that by (simp add: fetchDebuggerSpans_def Let_def mark_fetching_def project_of_def)
  have "(qs = [] \<and> dv_traceSpansFetching st' ?t = Some False) \<or>
     (\<exists>pid tid w. q = HydrateRow pid tid \<and> qs = [HydrateSpans w] \<and> fr_traceId w = tid \<and> dv_traceSpansFetching st' tid = Some True)"
    using assms(3) busy
    by (cases q) (auto simp: settle_expand_def settle_hydrate_row_def settle_hydrate_spans_def mark_fetching_def span_window_def
        split: outcome.splits list.splits)
  with again show "(qs = [] \<and> dv_traceSpansFetching st' ?t = Some False \<and>
      (\<forall>trace p. tr_id trace = ?t \<longrightarrow> project_of st' = Some p \<longrightarrow>
         snd (fetchDebuggerSpans pf trace st') = [ExpandSpans (span_window pf p (tr_id trace) trace)]) \<or>
     (\<exists>pid tid w. q = HydrateRow pid tid \<and> qs = [HydrateSpans w] \<and> fr_traceId w = tid \<and> dv_traceSpansFetching st' tid = Some True))"
    by blast
  show "(\<nexists>ss. rp_spans r = FetchOk ss) \<longrightarrow> (\<nexists>rows. rp_rows r = FetchOk rows) \<longrightarrow>
       sv_traces st' = sv_traces st \<and> sv_traceSpans st' = sv_traceSpans st \<and> length (dv_toasts st') = length (dv_toasts st) + 1"
    using assms(3)
    by (cases q) (auto simp: settle_expand_def settle_hydrate_row_def settle_hydrate_spans_def mark_fetching_def toast_def
        split: outcome.splits list.splits)
qed

lemma debugger_fetch_settles_witness:
  "dv_traceSpansFetching (fst (debugger_settle demo_platform demo_hydrating (HydrateRow ''p'' ''t'')
     \<lparr>rp_spans = FetchThrew None, rp_rows = FetchThrew None\<rparr>)) ''t'' = Some False"
proof -
  let ?r = "\<lparr>rp_spans = FetchThrew None, rp_rows = FetchThrew None\<rparr>"
  have s: "debugger_settle demo_platform demo_hydrating (HydrateRow ''p'' ''t'') ?r =
      (mark_fetching ''t'' False (toast ''Failed to load run data'' demo_hydrating), [])" by (simp add: settle_hydrate_row_def)
  from debugger_fetch_settles [OF demo_debugger_flight _ s] s show ?thesis by simp
qed

subsection \<open>The runs of the session\<close>

lemma catch_up_sel [simp]:
  "tr_id (catch_up ms live fetched) = tr_id fetched" "tr_startTime (catch_up ms live fetched) = tr_startTime fetched"
  by (simp_all add: catch_up_def)

lemma merge_runs_set:
  "set (merge_runs ms sorted' prev) =
     (\<lambda>f. case map_of (js_map_of tr_id (\<lambda>t. t) prev) (tr_id f) of None \<Rightarrow> f | Some live \<Rightarrow> catch_up ms live f) ` set sorted'
     \<union> {t \<in> set prev. tr_id t \<notin> tr_id ` set sorted'}"
  by (simp add: merge_runs_def Let_def)

lemma merge_runs_ids:
  assumes "distinct (map tr_id sorted')" and "distinct (map tr_id prev)"
  shows "distinct (map tr_id (merge_runs ms sorted' prev))"
proof -
  let ?f = "\<lambda>f. case map_of (js_map_of tr_id (\<lambda>t. t) prev) (tr_id f) of None \<Rightarrow> f | Some live \<Rightarrow> catch_up ms live f"
  have i: "map tr_id (map ?f sorted') = map tr_id sorted'" by (auto split: option.split)
  have "distinct (map tr_id (filter (\<lambda>t. tr_id t \<notin> tr_id ` set sorted') prev))" using assms(2) by (simp add: distinct_map_filter)
  moreover have "tr_id ` set sorted' \<inter> tr_id ` set (filter (\<lambda>t. tr_id t \<notin> tr_id ` set sorted') prev) = {}"
    unfolding set_filter by (rule image_outside)
  ultimately have "distinct (map tr_id (map ?f sorted' @ filter (\<lambda>t. tr_id t \<notin> tr_id ` set sorted') prev))"
    using assms(1) unfolding map_append i distinct_append set_map by (intro conjI)
  then show ?thesis unfolding merge_runs_def Let_def distinct_map_sort .
qed

text \<open>
  When the runs of the session arrive, they are merged with the runs in the view: the result
  has the ids of both, each once, ordered by start time. A run only the view knows is kept as it is; a
  run both know has the fetched data with the metadata the view has, key by key, taking precedence, and
  the later of both end times. Loading ends, also after a failure, which changes no run.
\<close>

lemma session_runs_merged:
  assumes "distinct (map (\<lambda>i. tr_id (rw_row i)) items)" and "distinct (map tr_id (sv_traces st))"
    and "st' = settleSessionTraces pf (FetchOk items) st"
  shows "distinct (map tr_id (sv_traces st')) \<and> sorted (map (\<lambda>t. ms_of pf (tr_startTime t)) (sv_traces st')) \<and>
    tr_id ` set (sv_traces st') = tr_id ` set (sv_traces st) \<union> tr_id ` rw_row ` set items \<and>
    (\<forall>live\<in>set (sv_traces st). tr_id live \<notin> tr_id ` rw_row ` set items \<longrightarrow> live \<in> set (sv_traces st')) \<and>
    (\<forall>live\<in>set (sv_traces st). \<forall>i\<in>set items. tr_id (rw_row i) = tr_id live \<longrightarrow>
       (\<exists>row\<in>set (sv_traces st'). tr_id row = tr_id live \<and> tr_startTime row = tr_startTime (rw_row i) \<and>
          ms_of pf (tr_endTime row) = max (ms_of pf (tr_endTime live)) (ms_of pf (tr_endTime (rw_row i))) \<and>
          (\<forall>k. tr_metadata row k = (case tr_metadata live k of Some v \<Rightarrow> Some v
             | None \<Rightarrow> normalizeMetadata (entries_of pf) (text_of_value pf) (rw_metadata i) k)))) \<and>
    \<not> sv_isTracesLoading st' \<and> dv_isInitialTracesLoaded st'"
proof -
  define fs where "fs = sort_key (\<lambda>t. ms_of pf (tr_startTime t)) (map (normalize_row pf) items)"
  have ids: "tr_id ` set fs = tr_id ` rw_row ` set items" by (simp add: fs_def image_image normalize_row_def)
  have "distinct (map tr_id (map (normalize_row pf) items))" using assms(1) by (simp add: normalize_row_def o_def)
  then have dfs: "distinct (map tr_id fs)" by (simp add: fs_def)
  have traces: "sv_traces st' = merge_runs (ms_of pf) fs (sv_traces st)"
    and loaded: "\<not> sv_isTracesLoading st'" "dv_isInitialTracesLoaded st'"
    by (simp_all add: assms(3) settleSessionTraces_def fs_def)
  have a: "distinct (map tr_id (sv_traces st'))" unfolding traces by (rule merge_runs_ids [OF dfs assms(2)])
  have b: "sorted (map (\<lambda>t. ms_of pf (tr_startTime t)) (sv_traces st'))" by (simp add: traces merge_runs_def Let_def)
  have c: "tr_id ` set (sv_traces st') = tr_id ` set (sv_traces st) \<union> tr_id ` rw_row ` set items"
  proof -
    have "tr_id (case m of None \<Rightarrow> f | Some live \<Rightarrow> catch_up (ms_of pf) live f) = tr_id f" for m f by (simp split: option.split)
    then have "tr_id ` set (sv_traces st') = tr_id ` set fs \<union> tr_id ` {t \<in> set (sv_traces st). tr_id t \<notin> tr_id ` set fs}"
      unfolding traces merge_runs_set image_Un image_image by simp
    then show ?thesis by (simp only: image_outside ids)
  qed
  have d: "\<forall>live\<in>set (sv_traces st). tr_id live \<notin> tr_id ` rw_row ` set items \<longrightarrow> live \<in> set (sv_traces st')"
    unfolding traces merge_runs_set ids by blast
  have e: "\<forall>live\<in>set (sv_traces st). \<forall>i\<in>set items. tr_id (rw_row i) = tr_id live \<longrightarrow>
       (\<exists>row\<in>set (sv_traces st'). tr_id row = tr_id live \<and> tr_startTime row = tr_startTime (rw_row i) \<and>
          ms_of pf (tr_endTime row) = max (ms_of pf (tr_endTime live)) (ms_of pf (tr_endTime (rw_row i))) \<and>
          (\<forall>k. tr_metadata row k = (case tr_metadata live k of Some v \<Rightarrow> Some v
             | None \<Rightarrow> normalizeMetadata (entries_of pf) (text_of_value pf) (rw_metadata i) k)))"
  proof (intro ballI impI)
    fix live i assume l: "live \<in> set (sv_traces st)" and i: "i \<in> set items" "tr_id (rw_row i) = tr_id live"
    let ?f = "normalize_row pf i"
    let ?row = "catch_up (ms_of pf) live ?f"
    have f: "?f \<in> set fs" "tr_id ?f = tr_id live" using i by (simp_all add: fs_def normalize_row_def)
    have "map_of (js_map_of tr_id (\<lambda>t. t) (sv_traces st)) (tr_id ?f) = Some live"
      using js_map_of_distinct [OF assms(2) l, of "\<lambda>t. t"] f(2) by simp
    then have "?row \<in> set (sv_traces st')"
      unfolding traces merge_runs_set by (intro UnI1 image_eqI [OF _ f(1)]) simp
    moreover have "tr_id ?row = tr_id live \<and> tr_startTime ?row = tr_startTime (rw_row i) \<and>
          ms_of pf (tr_endTime ?row) = max (ms_of pf (tr_endTime live)) (ms_of pf (tr_endTime (rw_row i))) \<and>
          (\<forall>k. tr_metadata ?row k = (case tr_metadata live k of Some v \<Rightarrow> Some v
             | None \<Rightarrow> normalizeMetadata (entries_of pf) (text_of_value pf) (rw_metadata i) k))"
      using i(2) by (simp add: catch_up_def normalize_row_def map_add_def max_def)
    ultimately show "\<exists>row\<in>set (sv_traces st'). tr_id row = tr_id live \<and> tr_startTime row = tr_startTime (rw_row i) \<and>
          ms_of pf (tr_endTime row) = max (ms_of pf (tr_endTime live)) (ms_of pf (tr_endTime (rw_row i))) \<and>
          (\<forall>k. tr_metadata row k = (case tr_metadata live k of Some v \<Rightarrow> Some v
             | None \<Rightarrow> normalizeMetadata (entries_of pf) (text_of_value pf) (rw_metadata i) k))" by (rule rev_bexI)
  qed
  show ?thesis by (intro conjI a b c d e loaded)
qed

definition demo_item :: raw_row where
  "demo_item = \<lparr>rw_row = mk_trace ''t'' ''x'' ''xxx'', rw_metadata = NoMetadata\<rparr>"

lemma session_runs_merged_witness:
  "tr_id ` set (sv_traces (settleSessionTraces demo_platform (FetchOk [demo_item]) demo_view)) = {''t''}"
  using session_runs_merged [of "[demo_item]" demo_view _ demo_platform, OF _ _ refl]
  by (simp add: demo_item_def createDebuggerSessionViewStore_def session_view.defs demo_options_def init_session_view_def)

end
