(* ===== verification/Json.thy ===== *)
theory Json
  imports Prelude
begin

text \<open>
  JSON values, as \<open>JSON.parse\<close> returns them: objects are association lists with distinct keys in
  insertion order. Values are compared with lodash's \<open>isEqual\<close>, a parameter (\<open>equal\<close>) of which a property
  uses that it holds of a value and itself; \<open>isEqual\<close> here is the deep equality it documents, which compares
  objects key by key whatever the order, as a concrete instance. The text of a value is not looked into anywhere: \<open>JSON.parse\<close> and
  \<open>JSON.stringify\<close> are parameters (\<open>parse\<close>, \<open>None\<close> when it throws, and \<open>stringify\<close>), of which properties
  use that the first reads back what the second wrote.
\<close>

datatype json = JNull | JBool bool | JNum number | JStr string | JArr "json list" | JObj "(string \<times> json) list"

lemma size_entry [termination_simp]: "p \<in> set kvs \<Longrightarrow> size (snd p) < Suc (size_list (size_prod (\<lambda>_. 0) size) kvs)"
  by (induction kvs) auto

lemma size_element [termination_simp]: "v \<in> set vs \<Longrightarrow> size v < Suc (size_list size vs)"
  by (induction vs) auto

function isEqual :: "json \<Rightarrow> json \<Rightarrow> bool" where
  "isEqual JNull w = (w = JNull)"
| "isEqual (JBool b) w = (w = JBool b)"
| "isEqual (JNum n) w = (w = JNum n)"
| "isEqual (JStr s) w = (w = JStr s)"
| "isEqual (JArr xs) w = (case w of JArr ys \<Rightarrow> length xs = length ys \<and> list_all (\<lambda>p. isEqual (fst p) (snd p)) (zip xs ys) | _ \<Rightarrow> False)"
| "isEqual (JObj kvs) w = (case w of JObj kws \<Rightarrow> length kvs = length kws \<and>
     list_all (\<lambda>p. case map_of kws (fst p) of None \<Rightarrow> False | Some u \<Rightarrow> isEqual (snd p) u) kvs | _ \<Rightarrow> False)"
  by pat_completeness auto

termination
  by (relation "measure (size \<circ> fst)") (auto dest!: set_zip_leftD simp: size_element size_entry less_SucI)

text \<open>Values whose objects have distinct keys, as all parsed values have.\<close>

function json_wf :: "json \<Rightarrow> bool" where
  "json_wf JNull = True"
| "json_wf (JBool b) = True"
| "json_wf (JNum n) = True"
| "json_wf (JStr s) = True"
| "json_wf (JArr xs) = list_all json_wf xs"
| "json_wf (JObj kvs) = (distinct (map fst kvs) \<and> list_all (\<lambda>p. json_wf (snd p)) kvs)"
  by pat_completeness auto

termination
  by (relation "measure size") (auto simp: size_element size_entry)

lemma isEqual_refl: "json_wf v \<Longrightarrow> isEqual v v"
proof (induction v rule: json_wf.induct)
  case (5 xs)
  then show ?case by (auto simp: list_all_iff zip_same)
next
  case (6 kvs)
  have "case map_of kvs (fst p) of None \<Rightarrow> False | Some u \<Rightarrow> isEqual (snd p) u" if "p \<in> set kvs" for p
  proof -
    have "map_of kvs (fst p) = Some (snd p)" using 6(2) that by (auto intro: map_of_is_SomeI)
    moreover have "isEqual (snd p) (snd p)" using 6(1) [OF that] 6(2) that by (simp add: list_all_iff)
    ultimately show ?thesis by simp
  qed
  then show ?case by (simp add: list_all_iff)
qed simp_all

section \<open>Reading and writing values\<close>

text \<open>The truth value of a value.\<close>

fun json_truthy :: "json \<Rightarrow> bool" where
  "json_truthy JNull = False"
| "json_truthy (JBool b) = b"
| "json_truthy (JNum n) = (n \<noteq> 0)"
| "json_truthy (JStr s) = (s \<noteq> [])"
| "json_truthy _ = True"

text \<open>\<open>String(v)\<close>, where \<open>str\<close> prints the values that are no strings.\<close>

definition json_string :: "(json \<Rightarrow> string) \<Rightarrow> json \<Rightarrow> string" where
  "json_string str v = (case v of JStr s \<Rightarrow> s | _ \<Rightarrow> str v)"

text \<open>\<open>v ?? w\<close>, where \<open>v\<close> may be missing.\<close>

definition nullish :: "json option \<Rightarrow> json \<Rightarrow> json" where
  "nullish v w = (case v of None \<Rightarrow> w | Some JNull \<Rightarrow> w | Some u \<Rightarrow> u)"

text \<open>\<open>tryParseJson\<close> of \<open>lib/utils.ts\<close>.\<close>

definition tryParseJson :: "(string \<Rightarrow> json option) \<Rightarrow> string \<Rightarrow> json" where
  "tryParseJson parse s = (if s = [] then JNull else case parse s of None \<Rightarrow> JNull | Some v \<Rightarrow> v)"

text \<open>\<open>{...v, [key]: x}\<close>. Spreading copies the own properties: the indices of an array, the characters of a
  string; numbers, booleans and null have none.\<close>

definition spread :: "json \<Rightarrow> (string \<times> json) list" where
  "spread v = (case v of
     JObj kvs \<Rightarrow> kvs
   | JArr xs \<Rightarrow> zip (map show_nat [0..<length xs]) xs
   | JStr s \<Rightarrow> zip (map show_nat [0..<length s]) (map (\<lambda>c. JStr [c]) s)
   | _ \<Rightarrow> [])"

definition set_key :: "string \<Rightarrow> json \<Rightarrow> json \<Rightarrow> json" where
  "set_key key x v = JObj (AList.update key x (spread v))"

end
