(* ===== verification/QueueModel.thy ===== *)
theory QueueModel
  imports Json
begin

text \<open>
  The data of an annotation queue and its pure functions: \<open>components/queue/queue-store/schema.ts\<close> (the
  fields of the annotation schema) and \<open>components/queue/queue-store/helpers.ts\<close> (target, dirtiness and
  state of an item, progress, drift from the schema). \<open>parse\<close> is \<open>JSON.parse\<close>, \<open>str\<close> is \<open>String\<close> on a
  value that is not a string, \<open>equal\<close> is lodash's \<open>isEqual\<close>.
\<close>

section \<open>The annotation schema\<close>

text \<open>The options of a field: of an enumeration, or the bounds of a number (JSON values, as the schema has them).\<close>

datatype field_options = Choices "string list" | Bounds json json

datatype field_type = FNumber | FEnum | FBoolean | FString

record target_field =
  tf_key :: string
  tf_type :: field_type
  tf_description :: "json option"
  tf_options :: "field_options option"

definition property_get :: "json \<Rightarrow> string \<Rightarrow> json option" where
  "property_get v k = (case v of JObj kvs \<Rightarrow> map_of kvs k | _ \<Rightarrow> None)"

text \<open>One property of the schema: the field it gives, if any. \<open>typeof property !== "object"\<close> skips
  values that are not objects; \<open>null\<close> and arrays pass that test. On \<open>null\<close> reading a property throws:
  \<open>Inl\<close>.\<close>

datatype schema_error = PropertyOfNull

definition schema_field :: "(json \<Rightarrow> string) \<Rightarrow> string \<Rightarrow> json \<Rightarrow> schema_error + target_field option" where
  "schema_field str key property =
     (case property of
        JNull \<Rightarrow> Inl PropertyOfNull
      | JBool _ \<Rightarrow> Inr None
      | JNum _ \<Rightarrow> Inr None
      | JStr _ \<Rightarrow> Inr None
      | _ \<Rightarrow>
         (let description = property_get property ''description''; type = property_get property ''type'';
              field = (\<lambda>t opts. Inr (Some \<lparr>tf_key = key, tf_type = t, tf_description = description, tf_options = opts\<rparr>))
          in case property_get property ''enum'' of
               Some (JArr vs) \<Rightarrow> field FEnum (Some (Choices (map (json_string str) vs)))
             | _ \<Rightarrow>
                 if type = Some (JStr ''string'') then field FString None
                 else if type = Some (JStr ''number'') \<or> type = Some (JStr ''integer'') then
                   field FNumber (Some (Bounds (nullish (property_get property ''minimum'') (JNum 1))
                                               (nullish (property_get property ''maximum'') (JNum 5))))
                 else if type = Some (JStr ''boolean'') then field FBoolean None
                 else Inr None))"

fun schema_fields :: "(json \<Rightarrow> string) \<Rightarrow> (string \<times> json) list \<Rightarrow> schema_error + target_field list" where
  "schema_fields str [] = Inr []"
| "schema_fields str ((key, property) # rest) =
     (case schema_field str key property of
        Inl e \<Rightarrow> Inl e
      | Inr f \<Rightarrow> (case schema_fields str rest of
           Inl e \<Rightarrow> Inl e
         | Inr fs \<Rightarrow> Inr (case f of None \<Rightarrow> fs | Some x \<Rightarrow> x # fs)))"

definition parseAnnotationSchema :: "(json \<Rightarrow> string) \<Rightarrow> json option \<Rightarrow> schema_error + target_field list" where
  "parseAnnotationSchema str schema =
     (case schema of
        None \<Rightarrow> Inr []
      | Some s \<Rightarrow> (case property_get s ''properties'' of
          None \<Rightarrow> Inr []
        | Some properties \<Rightarrow>
            if \<not> json_truthy properties then Inr []
            else map_sum id (take 9) (schema_fields str (spread properties))))"

lemma schema_field_sel: "schema_field str key property = Inr (Some f) \<Longrightarrow>
    tf_key f = key \<and> (tf_type f = FEnum \<longleftrightarrow> (\<exists>vs. tf_options f = Some (Choices vs))) \<and>
    (tf_type f = FNumber \<longleftrightarrow> (\<exists>a b. tf_options f = Some (Bounds a b)))"
  by (auto simp: schema_field_def Let_def split: json.splits option.splits if_splits)

lemma schema_fields_ok:
  "schema_fields str kvs = Inr fs \<Longrightarrow> distinct (map fst kvs) \<Longrightarrow>
     distinct (map tf_key fs) \<and> (\<forall>f\<in>set fs. \<exists>p. (tf_key f, p) \<in> set kvs \<and> schema_field str (tf_key f) p = Inr (Some f)) \<and>
     (\<forall>(k, p)\<in>set kvs. \<forall>f. schema_field str k p = Inr (Some f) \<longrightarrow> f \<in> set fs)"
proof (induction kvs arbitrary: fs)
  case Nil
  then show ?case by simp
next
  case (Cons kp rest)
  obtain k p where kp: "kp = (k, p)" by (cases kp)
  from Cons.prems(1) obtain r gs where r: "schema_field str k p = Inr r" "schema_fields str rest = Inr gs"
    "fs = (case r of None \<Rightarrow> gs | Some x \<Rightarrow> x # gs)" by (auto simp: kp split: sum.splits)
  from Cons.IH [OF r(2)] Cons.prems(2) have gs: "distinct (map tf_key gs)"
    "\<forall>f\<in>set gs. \<exists>p. (tf_key f, p) \<in> set rest \<and> schema_field str (tf_key f) p = Inr (Some f)"
    "\<forall>(k, p)\<in>set rest. \<forall>f. schema_field str k p = Inr (Some f) \<longrightarrow> f \<in> set gs" by (auto simp: kp)
  have new: "k \<notin> tf_key ` set gs" using gs(2) Cons.prems(2) by (force simp: kp)
  show ?case
  proof (cases r)
    case None
    then show ?thesis using gs r by (fastforce simp: kp)
  next
    case (Some x)
    with r(1) schema_field_sel [of str k p x] have "tf_key x = k" by simp
    then show ?thesis using gs r Some new by (fastforce simp: kp)
  qed
qed

text \<open>A schema with a property that is \<open>null\<close> makes the parser throw, since \<open>typeof null\<close> is an object.\<close>

lemma null_property_throws:
  "parseAnnotationSchema str (Some (JObj [(''properties'', JObj [(''k'', JNull)])])) = Inl PropertyOfNull"
  by (simp add: parseAnnotationSchema_def property_get_def spread_def schema_field_def)

lemma map_sum_Inr: "map_sum id f x = Inr y \<longleftrightarrow> (\<exists>z. x = Inr z \<and> y = f z)"
  by (cases x) auto

lemma schema_length: "parseAnnotationSchema str schema = Inr fs \<Longrightarrow> length fs \<le> 9"
  by (auto simp: parseAnnotationSchema_def map_sum_Inr split: option.splits if_splits)

section \<open>Items\<close>

record queue_item =
  qi_id :: string
  qi_queueId :: string
  qi_projectId :: string
  qi_data :: json
  qi_target :: "json option"
  qi_payloadMetadata :: "json option"
  qi_edit :: string
  qi_metadata :: json
  qi_status :: nat
  qi_createdAt :: string
  qi_updatedAt :: string

datatype item_state = StateNew | StateModified | StateApproved

record queue_progress =
  qp_total :: nat
  qp_new :: nat
  qp_modified :: nat
  qp_approved :: nat

definition EMPTY_PROGRESS :: queue_progress where
  "EMPTY_PROGRESS = \<lparr>qp_total = 0, qp_new = 0, qp_modified = 0, qp_approved = 0\<rparr>"

definition WINDOW_RADIUS :: int where
  "WINDOW_RADIUS = 2"

definition getEffectiveTarget :: "(string \<Rightarrow> json option) \<Rightarrow> queue_item option \<Rightarrow> json" where
  "getEffectiveTarget parse item =
     (case item of
        None \<Rightarrow> JObj []
      | Some i \<Rightarrow> if qi_edit i \<noteq> [] then nullish (Some (tryParseJson parse (qi_edit i))) (nullish (qi_target i) (JObj []))
                  else nullish (qi_target i) (JObj []))"

definition isDirty :: "(string \<Rightarrow> json option) \<Rightarrow> (json \<Rightarrow> json \<Rightarrow> bool) \<Rightarrow> queue_item \<Rightarrow> bool" where
  "isDirty parse equal i =
     (if qi_edit i = [] then False
      else \<not> equal (tryParseJson parse (qi_edit i)) (nullish (qi_target i) JNull))"

definition isApproved :: "queue_item option \<Rightarrow> bool" where
  "isApproved item = (case item of None \<Rightarrow> False | Some i \<Rightarrow> qi_status i = 1)"

definition deriveItemState :: "(string \<Rightarrow> json option) \<Rightarrow> (json \<Rightarrow> json \<Rightarrow> bool) \<Rightarrow> queue_item \<Rightarrow> item_state" where
  "deriveItemState parse equal i =
     (if qi_status i = 1 then StateApproved else if isDirty parse equal i then StateModified else StateNew)"

record schema_drift =
  sd_targetIsObject :: bool
  sd_targetType :: string
  sd_extras :: "string list"
  sd_hasDrift :: bool

definition type_of :: "json \<Rightarrow> string" where
  "type_of v = (case v of JArr _ \<Rightarrow> ''array'' | JNull \<Rightarrow> ''null'' | JBool _ \<Rightarrow> ''boolean'' | JNum _ \<Rightarrow> ''number''
     | JStr _ \<Rightarrow> ''string'' | JObj _ \<Rightarrow> ''object'')"

definition getTargetSchemaDrift :: "json \<Rightarrow> string list \<Rightarrow> schema_drift" where
  "getTargetSchemaDrift target schemaKeys =
     (let isObject = (case target of JObj _ \<Rightarrow> True | _ \<Rightarrow> False);
          drift = (\<lambda>extras b. \<lparr>sd_targetIsObject = isObject, sd_targetType = type_of target, sd_extras = extras, sd_hasDrift = b\<rparr>)
      in if schemaKeys = [] then drift [] False
         else if \<not> isObject then drift [] True
         else let extras = filter (\<lambda>k. k \<notin> set schemaKeys) (map fst (spread target)) in drift extras (extras \<noteq> []))"

text \<open>The loop over \<open>Object.values(states)\<close>.\<close>

definition progress_step :: "nat \<times> nat \<times> nat \<Rightarrow> item_state \<Rightarrow> nat \<times> nat \<times> nat" where
  "progress_step acc s = (case acc of (n, m, a) \<Rightarrow>
     (case s of StateNew \<Rightarrow> (n + 1, m, a) | StateModified \<Rightarrow> (n, m + 1, a) | StateApproved \<Rightarrow> (n, m, a + 1)))"

definition computeProgress :: "(string \<times> item_state) list \<Rightarrow> queue_progress" where
  "computeProgress states =
     (case foldl progress_step (0, 0, 0) (map snd states) of
        (n, m, a) \<Rightarrow> \<lparr>qp_total = n + m + a, qp_new = n, qp_modified = m, qp_approved = a\<rparr>)"

lemma progress_counts:
  "computeProgress states = \<lparr>qp_total = length states, qp_new = count_list (map snd states) StateNew,
     qp_modified = count_list (map snd states) StateModified, qp_approved = count_list (map snd states) StateApproved\<rparr>"
proof -
  have "foldl progress_step (n, m, a) ss =
      (n + count_list ss StateNew, m + count_list ss StateModified, a + count_list ss StateApproved)" for n m a ss
    by (induction ss arbitrary: n m a) (auto simp: progress_step_def split: item_state.split)
  moreover have "count_list ss StateNew + count_list ss StateModified + count_list ss StateApproved = length ss" for ss
  proof (induction ss)
    case (Cons s ss)
    then show ?case by (cases s) simp_all
  qed simp
  ultimately show ?thesis by (simp add: computeProgress_def)
qed

end
