(* ===== verification/SaveOrchestrator.thy ===== *)
theory SaveOrchestrator
  imports Prelude
begin

text \<open>
  The debounced saves of the annotation queue, \<open>components/queue/queue-store/save-orchestrator.ts\<close>: per
  item at most one timer and one abort controller. The state also holds the saves under way with their
  signals, which the code keeps in its promises. The events are the operations, a timer that fires and a
  save that settles, in any order. Every save of the program is the PATCH of an item's edit.
\<close>

section \<open>The code\<close>

record save =
  sa_controller :: nat
  sa_item :: string
  sa_edit :: string
  sa_aborted :: bool

text \<open>\<open>timers\<close> maps an item to the edit its timer will save, \<open>aborts\<close> to the controller of its last save.\<close>

record orchestrator =
  so_timers :: "(string \<times> string) list"
  so_aborts :: "(string \<times> nat) list"
  so_next :: nat
  so_saves :: "save list"

definition createSaveOrchestrator :: orchestrator where
  "createSaveOrchestrator = \<lparr>so_timers = [], so_aborts = [], so_next = 0, so_saves = []\<rparr>"

definition abort_controller :: "nat \<Rightarrow> save list \<Rightarrow> save list" where
  "abort_controller c ss = map (\<lambda>s. if sa_controller s = c then s\<lparr>sa_aborted := True\<rparr> else s) ss"

definition flushOne :: "string \<Rightarrow> string \<Rightarrow> orchestrator \<Rightarrow> orchestrator" where
  "flushOne itemId edit o' =
     (let saves = (case map_of (so_aborts o') itemId of None \<Rightarrow> so_saves o' | Some c \<Rightarrow> abort_controller c (so_saves o'));
          controller = so_next o'
      in o'\<lparr>so_aborts := AList.update itemId controller (so_aborts o'), so_next := controller + 1,
            so_saves := saves @ [\<lparr>sa_controller = controller, sa_item = itemId, sa_edit = edit, sa_aborted = False\<rparr>]\<rparr>)"

definition schedule :: "string \<Rightarrow> string \<Rightarrow> orchestrator \<Rightarrow> orchestrator" where
  "schedule itemId edit o' = o'\<lparr>so_timers := AList.update itemId edit (so_timers o')\<rparr>"

definition timer_fires :: "string \<Rightarrow> orchestrator \<Rightarrow> orchestrator" where
  "timer_fires itemId o' =
     (case map_of (so_timers o') itemId of
        None \<Rightarrow> o'
      | Some edit \<Rightarrow> flushOne itemId edit (o'\<lparr>so_timers := AList.delete itemId (so_timers o')\<rparr>))"

text \<open>What runs when the promise of a save settles, whatever its outcome.\<close>

definition save_settles :: "nat \<Rightarrow> orchestrator \<Rightarrow> orchestrator" where
  "save_settles c o' =
     (case find (\<lambda>s. sa_controller s = c) (so_saves o') of
        None \<Rightarrow> o'
      | Some s \<Rightarrow>
          let o1 = o'\<lparr>so_saves := filter (\<lambda>s. sa_controller s \<noteq> c) (so_saves o')\<rparr>
          in if map_of (so_aborts o1) (sa_item s) = Some c then o1\<lparr>so_aborts := AList.delete (sa_item s) (so_aborts o1)\<rparr>
             else o1)"

definition cancel :: "string \<Rightarrow> orchestrator \<Rightarrow> orchestrator" where
  "cancel itemId o' =
     (let o1 = o'\<lparr>so_timers := AList.delete itemId (so_timers o')\<rparr>
      in case map_of (so_aborts o1) itemId of
           None \<Rightarrow> o1
         | Some c \<Rightarrow> o1\<lparr>so_saves := abort_controller c (so_saves o1), so_aborts := AList.delete itemId (so_aborts o1)\<rparr>)"

definition flushAllPending :: "(string \<Rightarrow> string option) \<Rightarrow> orchestrator \<Rightarrow> orchestrator" where
  "flushAllPending getArgs o' =
     (foldl (\<lambda>o1 itemId. case getArgs itemId of None \<Rightarrow> o1 | Some edit \<Rightarrow> flushOne itemId edit o1)
        o' (map fst (so_timers o')))\<lparr>so_timers := []\<rparr>"

definition cancelAll :: "orchestrator \<Rightarrow> orchestrator" where
  "cancelAll o' =
     o'\<lparr>so_timers := [], so_saves := foldl (\<lambda>ss c. abort_controller c ss) (so_saves o') (map snd (so_aborts o')), so_aborts := []\<rparr>"

definition hasPending :: "orchestrator \<Rightarrow> string \<Rightarrow> bool" where
  "hasPending o' itemId \<longleftrightarrow> map_of (so_timers o') itemId \<noteq> None \<or> map_of (so_aborts o') itemId \<noteq> None"

datatype save_event = Schedule string string | TimerFires string | SaveSettles nat | Cancel string
  | FlushAllPending "string \<Rightarrow> string option" | CancelAll

fun save_act :: "orchestrator \<Rightarrow> save_event \<Rightarrow> orchestrator" where
  "save_act o' (Schedule i e) = schedule i e o'"
| "save_act o' (TimerFires i) = timer_fires i o'"
| "save_act o' (SaveSettles c) = save_settles c o'"
| "save_act o' (Cancel i) = cancel i o'"
| "save_act o' (FlushAllPending f) = flushAllPending f o'"
| "save_act o' CancelAll = cancelAll o'"

section \<open>The invariant\<close>

text \<open>Controllers are distinct; the controllers that are kept are those of the saves that are not aborted.\<close>

definition live :: "orchestrator \<Rightarrow> save set" where
  "live o' = {s \<in> set (so_saves o'). \<not> sa_aborted s}"

definition save_inv :: "orchestrator \<Rightarrow> bool" where
  "save_inv o' \<longleftrightarrow> distinct (map fst (so_timers o')) \<and> distinct (map fst (so_aborts o')) \<and>
     distinct (map sa_controller (so_saves o')) \<and> (\<forall>c\<in>set (map sa_controller (so_saves o')). c < so_next o') \<and>
     (\<forall>i c. map_of (so_aborts o') i = Some c \<longleftrightarrow> (\<exists>s\<in>live o'. sa_item s = i \<and> sa_controller s = c))"

lemma abort_controllers [simp]: "map sa_controller (abort_controller c ss) = map sa_controller ss"
  by (simp add: abort_controller_def)

lemma abort_live: "{s \<in> set (abort_controller c ss). \<not> sa_aborted s} = {s \<in> set ss. \<not> sa_aborted s \<and> sa_controller s \<noteq> c}"
  by (auto simp: abort_controller_def split: if_splits)

lemma inv_lookup: "save_inv o' \<Longrightarrow> map_of (so_aborts o') i = Some c \<longleftrightarrow> (\<exists>s\<in>live o'. sa_item s = i \<and> sa_controller s = c)"
  by (simp add: save_inv_def)

lemma live_none: "save_inv o' \<Longrightarrow> map_of (so_aborts o') i = None \<longleftrightarrow> (\<forall>s\<in>live o'. sa_item s \<noteq> i)"
  using inv_lookup [of o' i] by (cases "map_of (so_aborts o') i") auto

lemma same_controller: "save_inv o' \<Longrightarrow> s \<in> live o' \<Longrightarrow> t \<in> live o' \<Longrightarrow> sa_controller s = sa_controller t \<Longrightarrow> s = t"
  by (auto simp: save_inv_def live_def distinct_map inj_on_def)

text \<open>The controller kept for an item is that of its only live save.\<close>

lemma live_of:
  assumes "save_inv o'" and "map_of (so_aborts o') i = Some c" and "s \<in> live o'"
  shows "sa_item s = i \<longleftrightarrow> sa_controller s = c"
proof -
  from inv_lookup [OF assms(1)] assms(2) obtain t where t: "t \<in> live o'" "sa_item t = i" "sa_controller t = c" by blast
  have "map_of (so_aborts o') (sa_item s) = Some (sa_controller s)" using inv_lookup [OF assms(1)] assms(3) by blast
  with assms(2) same_controller [OF assms(1,3) t(1)] t(2,3) show ?thesis by auto
qed

lemma live_without:
  assumes "save_inv o'"
  shows "{s \<in> set (case map_of (so_aborts o') i of None \<Rightarrow> so_saves o' | Some c \<Rightarrow> abort_controller c (so_saves o')). \<not> sa_aborted s}
    = {s \<in> live o'. sa_item s \<noteq> i}"
proof (cases "map_of (so_aborts o') i")
  case None
  with live_none [OF assms, of i] have "\<forall>s\<in>live o'. sa_item s \<noteq> i" by simp
  then show ?thesis unfolding None option.case live_def by blast
next
  case (Some c)
  have "\<forall>s\<in>live o'. sa_item s \<noteq> i \<longleftrightarrow> sa_controller s \<noteq> c" using live_of [OF assms Some] by blast
  then show ?thesis unfolding Some option.case abort_live live_def by blast
qed

lemma live_flushOne:
  assumes "save_inv o'"
  shows "live (flushOne i e o') =
    insert \<lparr>sa_controller = so_next o', sa_item = i, sa_edit = e, sa_aborted = False\<rparr> {s \<in> live o'. sa_item s \<noteq> i}"
  unfolding live_without [OF assms, symmetric] by (auto simp: flushOne_def live_def Let_def)

lemma live_cancel: "save_inv o' \<Longrightarrow> live (cancel i o') = {s \<in> live o'. sa_item s \<noteq> i}"
  using live_without [of o' i] by (simp add: cancel_def live_def Let_def split: option.splits)

lemma saves_without [simp]:
  "map sa_controller (case m of None \<Rightarrow> ss | Some c \<Rightarrow> abort_controller c ss) = map sa_controller ss"
  by (cases m) simp_all

lemma flushOne_sel:
  "so_timers (flushOne i e o') = so_timers o'" "so_aborts (flushOne i e o') = AList.update i (so_next o') (so_aborts o')"
  "map sa_controller (so_saves (flushOne i e o')) = map sa_controller (so_saves o') @ [so_next o']"
  "so_next (flushOne i e o') = so_next o' + 1"
  by (simp_all add: flushOne_def Let_def)

lemma flushOne_inv: "save_inv o' \<Longrightarrow> save_inv (flushOne i e o')"
proof -
  assume inv: "save_inv o'"
  then have d: "distinct (map fst (so_timers o'))" "distinct (map fst (so_aborts o'))" "distinct (map sa_controller (so_saves o'))"
    "\<forall>c\<in>set (map sa_controller (so_saves o')). c < so_next o'" unfolding save_inv_def by blast+
  have "map_of (so_aborts (flushOne i e o')) j = Some c \<longleftrightarrow> (\<exists>s\<in>live (flushOne i e o'). sa_item s = j \<and> sa_controller s = c)" for j c
    unfolding live_flushOne [OF inv] flushOne_sel(2) update_conv using inv_lookup [OF inv, of j c] by auto
  moreover have "so_next o' \<notin> set (map sa_controller (so_saves o'))" using d(4) by blast
  ultimately show ?thesis using d unfolding save_inv_def flushOne_sel by (auto simp: distinct_update)
qed

lemma timers_inv: "save_inv o' \<Longrightarrow> distinct (map fst ts) \<Longrightarrow> save_inv (o'\<lparr>so_timers := ts\<rparr>)"
  by (simp add: save_inv_def live_def)

lemma cancel_sel:
  "so_timers (cancel i o') = AList.delete i (so_timers o')" "map_of (so_aborts (cancel i o')) = (map_of (so_aborts o'))(i := None)"
  "map sa_controller (so_saves (cancel i o')) = map sa_controller (so_saves o')" "so_next (cancel i o') = so_next o'"
  by (auto simp: cancel_def Let_def delete_conv fun_upd_idem split: option.splits)

lemma cancel_inv:
  assumes inv: "save_inv o'"
  shows "save_inv (cancel i o')"
proof -
  have "map_of (so_aborts (cancel i o')) j = Some c \<longleftrightarrow> (\<exists>s\<in>live (cancel i o'). sa_item s = j \<and> sa_controller s = c)" for j c
    unfolding live_cancel [OF inv] cancel_sel using inv_lookup [OF inv, of j c] by auto
  moreover have "distinct (map fst (so_aborts (cancel i o')))"
    using inv by (auto simp: save_inv_def cancel_def Let_def distinct_delete split: option.splits)
  ultimately show ?thesis using inv unfolding save_inv_def cancel_sel by (auto simp: distinct_delete)
qed

lemma save_settles_live:
  assumes "save_inv o'"
  shows "live (save_settles c o') = {s \<in> live o'. sa_controller s \<noteq> c}"
proof (cases "find (\<lambda>s. sa_controller s = c) (so_saves o')")
  case None
  then have "\<forall>s\<in>set (so_saves o'). sa_controller s \<noteq> c" by (simp add: find_None_iff)
  then show ?thesis using None by (auto simp: save_settles_def live_def)
next
  case (Some s)
  then show ?thesis by (auto simp: save_settles_def live_def Let_def)
qed

lemma save_settles_inv:
  assumes inv: "save_inv o'"
  shows "save_inv (save_settles c o')"
proof (cases "find (\<lambda>s. sa_controller s = c) (so_saves o')")
  case None
  then show ?thesis using inv by (simp add: save_settles_def)
next
  case (Some s)
  then have s: "s \<in> set (so_saves o')" "sa_controller s = c" by (auto simp: find_Some_iff)
  have a: "map_of (so_aborts (save_settles c o')) j =
      (if map_of (so_aborts o') (sa_item s) = Some c \<and> j = sa_item s then None else map_of (so_aborts o') j)" for j
    by (simp add: save_settles_def Some Let_def delete_conv)
  have only: "sa_item t = sa_item s" if "t \<in> live o'" "sa_controller t = c" for t
    using that inv s by (auto simp: save_inv_def live_def distinct_map inj_on_def)
  have "map_of (so_aborts (save_settles c o')) j = Some d \<longleftrightarrow>
      (\<exists>t\<in>live (save_settles c o'). sa_item t = j \<and> sa_controller t = d)" for j d
    unfolding save_settles_live [OF inv] a using inv_lookup [OF inv, of j d] only live_of [OF inv, of "sa_item s" c] by auto
  moreover have "distinct (map fst (so_aborts (save_settles c o')))" "so_timers (save_settles c o') = so_timers o'"
    "so_next (save_settles c o') = so_next o'" "so_saves (save_settles c o') = filter (\<lambda>s. sa_controller s \<noteq> c) (so_saves o')"
    using inv by (simp_all add: save_inv_def save_settles_def Some Let_def distinct_delete)
  ultimately show ?thesis using inv unfolding save_inv_def by (auto simp: distinct_map_filter)
qed

definition flush_step :: "(string \<Rightarrow> string option) \<Rightarrow> orchestrator \<Rightarrow> string \<Rightarrow> orchestrator" where
  "flush_step getArgs o1 itemId = (case getArgs itemId of None \<Rightarrow> o1 | Some edit \<Rightarrow> flushOne itemId edit o1)"

lemma flushAllPending_steps:
  "flushAllPending getArgs o' = (foldl (flush_step getArgs) o' (map fst (so_timers o')))\<lparr>so_timers := []\<rparr>"
  by (simp add: flushAllPending_def flush_step_def [abs_def])

lemma flush_steps_inv: "save_inv o' \<Longrightarrow> save_inv (foldl (flush_step getArgs) o' is)"
  by (induction "is" arbitrary: o') (auto simp: flush_step_def flushOne_inv split: option.split)

lemma abort_all_live:
  "{s \<in> set (foldl (\<lambda>ss c. abort_controller c ss) ss cs). \<not> sa_aborted s} = {s \<in> set ss. \<not> sa_aborted s \<and> sa_controller s \<notin> set cs}"
proof (induction cs arbitrary: ss)
  case (Cons c cs)
  show ?case unfolding foldl_Cons Cons.IH using abort_live [of c ss] by auto
qed simp

lemma live_cancelAll:
  assumes inv: "save_inv o'"
  shows "live (cancelAll o') = {}"
proof -
  have "sa_controller s \<in> set (map snd (so_aborts o'))" if "s \<in> live o'" for s
  proof -
    have "map_of (so_aborts o') (sa_item s) = Some (sa_controller s)" using inv_lookup [OF inv] that by blast
    from map_of_SomeD [OF this] show ?thesis by force
  qed
  then show ?thesis by (auto simp: cancelAll_def live_def abort_all_live)
qed

lemma cancelAll_inv:
  assumes inv: "save_inv o'"
  shows "save_inv (cancelAll o')"
proof -
  have "map sa_controller (foldl (\<lambda>ss c. abort_controller c ss) ss cs) = map sa_controller ss" for cs ss
    by (induction cs arbitrary: ss) simp_all
  then have "map sa_controller (so_saves (cancelAll o')) = map sa_controller (so_saves o')" by (simp add: cancelAll_def)
  moreover have "so_timers (cancelAll o') = []" "so_aborts (cancelAll o') = []" "so_next (cancelAll o') = so_next o'"
    by (simp_all add: cancelAll_def)
  ultimately show ?thesis using inv live_cancelAll [OF inv] by (simp add: save_inv_def)
qed

lemma save_act_inv: "save_inv o' \<Longrightarrow> save_inv (save_act o' e)"
proof (cases e)
  case (FlushAllPending f)
  then show "save_inv o' \<Longrightarrow> ?thesis" by (simp add: flushAllPending_steps timers_inv flush_steps_inv)
next
  case (Schedule i t)
  assume inv: "save_inv o'"
  then have "distinct (map fst (AList.update i t (so_timers o')))" by (simp add: save_inv_def distinct_update)
  from timers_inv [OF inv this] show ?thesis by (simp add: Schedule schedule_def)
next
  case (TimerFires i)
  then show "save_inv o' \<Longrightarrow> ?thesis"
    by (simp add: timer_fires_def save_inv_def [of o'] timers_inv flushOne_inv distinct_delete split: option.split)
qed (simp_all add: save_settles_inv cancel_inv cancelAll_inv)

lemma create_inv: "save_inv createSaveOrchestrator"
  by (simp add: save_inv_def createSaveOrchestrator_def live_def)

definition save_step :: "orchestrator \<Rightarrow> save_event \<Rightarrow> orchestrator \<Rightarrow> bool" where
  "save_step o' e o'' \<longleftrightarrow> o'' = save_act o' e"

interpretation save_machine: invariant_of createSaveOrchestrator save_step save_inv
  by unfold_locales (auto simp: save_step_def create_inv save_act_inv)

section \<open>Properties\<close>

text \<open>
  Claim C4. However edits, timers, responses and cancellations interleave, an item has at most one save
  that is not aborted and at most one timer, and \<open>hasPending\<close> says of an item exactly whether it has
  one of them.
\<close>

theorem one_live_save_per_item:
  assumes "reach createSaveOrchestrator save_step o'"
  shows "(\<forall>s\<in>live o'. \<forall>t\<in>live o'. sa_item s = sa_item t \<longrightarrow> s = t) \<and> distinct (map fst (so_timers o')) \<and>
    (hasPending o' i \<longleftrightarrow> i \<in> fst ` set (so_timers o') \<or> (\<exists>s\<in>live o'. sa_item s = i))"
proof -
  have inv: "save_inv o'" by (rule save_machine.inv_reach [OF assms])
  have "s = t" if "s \<in> live o'" "t \<in> live o'" "sa_item s = sa_item t" for s t
  proof -
    have "map_of (so_aborts o') (sa_item t) = Some (sa_controller t)" using inv_lookup [OF inv] that(2) by blast
    from live_of [OF inv this that(1)] same_controller [OF inv that(1,2)] that(3) show ?thesis by simp
  qed
  moreover have "hasPending o' i \<longleftrightarrow> i \<in> fst ` set (so_timers o') \<or> (\<exists>s\<in>live o'. sa_item s = i)"
    using live_none [OF inv, of i] map_of_eq_None_iff [of "so_timers o'" i] by (auto simp: hasPending_def)
  moreover have "distinct (map fst (so_timers o'))" using inv by (simp add: save_inv_def)
  ultimately show ?thesis by blast
qed

abbreviation demo_saving :: orchestrator where
  "demo_saving \<equiv> foldl save_act createSaveOrchestrator [Schedule ''i'' ''a'', TimerFires ''i'', Schedule ''i'' ''b'', TimerFires ''i'']"

lemma reach_run: "reach createSaveOrchestrator save_step (foldl save_act createSaveOrchestrator es)"
  by (induction es rule: rev_induct) (auto intro: reach_init reach_step simp: save_step_def)

lemmas save_defs = createSaveOrchestrator_def schedule_def timer_fires_def flushOne_def abort_controller_def live_def hasPending_def
  cancel_def Let_def

lemma one_live_save_per_item_witness:
  "hasPending demo_saving ''i'' \<and> map sa_edit (filter (\<lambda>s. \<not> sa_aborted s) (so_saves demo_saving)) = [''b'']"
  using one_live_save_per_item [OF reach_run [of "[Schedule ''i'' ''a'', TimerFires ''i'', Schedule ''i'' ''b'', TimerFires ''i'']"], of "''i''"]
  by (simp add: save_defs)

text \<open>After an item was cancelled: no timer, and only aborted saves that were there before.\<close>

definition silent :: "string \<Rightarrow> nat set \<Rightarrow> orchestrator \<Rightarrow> bool" where
  "silent i C o' \<longleftrightarrow> map_of (so_timers o') i = None \<and> (\<forall>s\<in>set (so_saves o'). sa_item s = i \<longrightarrow> sa_aborted s \<and> sa_controller s \<in> C)"

lemma silent_abort:
  "\<forall>s\<in>set ss. sa_item s = i \<longrightarrow> sa_aborted s \<and> sa_controller s \<in> C \<Longrightarrow>
     \<forall>s\<in>set (abort_controller c ss). sa_item s = i \<longrightarrow> sa_aborted s \<and> sa_controller s \<in> C"
  by (auto simp: abort_controller_def)

lemma silent_flushOne: "silent i C o' \<Longrightarrow> j \<noteq> i \<Longrightarrow> silent i C (flushOne j e o')"
  using silent_abort [of "so_saves o'" i C] by (auto simp: silent_def flushOne_def Let_def split: option.split)

lemma silent_flush_steps: "silent i C o' \<Longrightarrow> i \<notin> set js \<Longrightarrow> silent i C (foldl (flush_step f) o' js)"
  by (induction js arbitrary: o') (auto simp: flush_step_def silent_flushOne split: option.split)

lemma silent_timers: "silent i C o' \<Longrightarrow> map_of ts i = None \<Longrightarrow> silent i C (o'\<lparr>so_timers := ts\<rparr>)"
  by (simp add: silent_def)

lemma silent_act:
  assumes "silent i C o'" and "\<forall>t. e \<noteq> Schedule i t"
  shows "silent i C (save_act o' e)"
proof (cases e)
  case (Schedule j t)
  then show ?thesis using assms by (auto simp: schedule_def silent_def update_conv)
next
  case (TimerFires j)
  show ?thesis
  proof (cases "map_of (so_timers o') j")
    case (Some t)
    with assms(1) have "j \<noteq> i" by (auto simp: silent_def)
    moreover have "silent i C (o'\<lparr>so_timers := AList.delete j (so_timers o')\<rparr>)"
      using assms(1) by (simp add: silent_def delete_conv)
    ultimately show ?thesis by (simp add: TimerFires timer_fires_def Some silent_flushOne)
  qed (simp add: TimerFires timer_fires_def assms(1))
next
  case (SaveSettles c)
  then show ?thesis using assms(1) by (auto simp: save_settles_def silent_def Let_def split: option.splits)
next
  case (Cancel j)
  then show ?thesis using assms(1) silent_abort [of "so_saves o'" i C]
    by (auto simp: cancel_def silent_def Let_def delete_conv split: option.splits)
next
  case (FlushAllPending f)
  have "i \<notin> set (map fst (so_timers o'))" using assms(1) by (simp add: silent_def map_of_eq_None_iff)
  with assms(1) show ?thesis by (simp add: FlushAllPending flushAllPending_steps silent_timers silent_flush_steps)
next
  case CancelAll
  have all: "\<forall>s\<in>set (foldl (\<lambda>ss c. abort_controller c ss) ss cs). sa_item s = i \<longrightarrow> sa_aborted s \<and> sa_controller s \<in> C"
    if "\<forall>s\<in>set ss. sa_item s = i \<longrightarrow> sa_aborted s \<and> sa_controller s \<in> C" for ss cs
    using that
  proof (induction cs arbitrary: ss)
    case (Cons c cs)
    from Cons.IH [OF silent_abort [OF Cons.prems]] show ?case unfolding foldl_Cons .
  qed simp
  have "map_of (so_timers (cancelAll o')) i = None"
    "so_saves (cancelAll o') = foldl (\<lambda>ss c. abort_controller c ss) (so_saves o') (map snd (so_aborts o'))" by (simp_all add: cancelAll_def)
  then show ?thesis using assms(1) all [of "so_saves o'" "map snd (so_aborts o')"] unfolding CancelAll save_act.simps silent_def by simp
qed

lemma silent_cancel:
  assumes inv: "save_inv o'"
  shows "silent i (sa_controller ` set (so_saves o')) (cancel i o')"
proof -
  have "sa_aborted s" if "s \<in> set (so_saves (cancel i o'))" "sa_item s = i" for s
    using that live_cancel [OF inv, of i] by (auto simp: live_def)
  moreover have "sa_controller s \<in> sa_controller ` set (so_saves o')" if "s \<in> set (so_saves (cancel i o'))" for s
    using imageI [OF that, of sa_controller] cancel_sel(3) [of i o'] by (metis set_map)
  ultimately show ?thesis by (simp add: silent_def cancel_sel delete_conv)
qed

text \<open>
  Claim C17. After a cancellation an item is quiet until it is edited again: whatever happens in between,
  it has no timer and nothing pending, and all of its saves that have not settled yet were started
  before and are aborted.
\<close>

theorem cancel_silences:
  assumes "reach createSaveOrchestrator save_step o'" and "\<forall>t. Schedule i t \<notin> set es"
    and "o'' = foldl save_act (cancel i o') es"
  shows "\<not> hasPending o'' i \<and> (\<forall>s\<in>set (so_saves o''). sa_item s = i \<longrightarrow>
    sa_aborted s \<and> sa_controller s \<in> sa_controller ` set (so_saves o'))"
proof -
  have inv: "save_inv o'" by (rule save_machine.inv_reach [OF assms(1)])
  have "silent i C o1 \<Longrightarrow> save_inv o1 \<Longrightarrow> silent i C (foldl save_act o1 es) \<and> save_inv (foldl save_act o1 es)" for C o1
    using assms(2)
  proof (induction es arbitrary: o1)
    case (Cons e es)
    then have "silent i C (save_act o1 e)" "save_inv (save_act o1 e)" by (auto intro: silent_act save_act_inv)
    with Cons show ?case by simp
  qed simp
  from this [OF silent_cancel [OF inv] cancel_inv [OF inv]]
  have q: "silent i (sa_controller ` set (so_saves o')) o''" "save_inv o''" by (simp_all add: assms(3))
  then have "map_of (so_aborts o'') i = None" unfolding live_none [OF q(2)] by (auto simp: silent_def live_def)
  with q(1) show ?thesis by (simp add: silent_def hasPending_def)
qed

lemma cancel_silences_witness: "\<not> hasPending (foldl save_act (cancel ''i'' demo_saving) [TimerFires ''i'', Schedule ''j'' ''c'']) ''i''"
  using cancel_silences [OF reach_run [of "[Schedule ''i'' ''a'', TimerFires ''i'', Schedule ''i'' ''b'', TimerFires ''i'']"] _ refl,
      where i = "''i''" and es = "[TimerFires ''i'', Schedule ''j'' ''c'']"] by simp

text \<open>Events that leave the timer of an item alone.\<close>

fun leaves_timer :: "string \<Rightarrow> save_event \<Rightarrow> bool" where
  "leaves_timer i (Schedule j e) = (j \<noteq> i)"
| "leaves_timer i (TimerFires j) = (j \<noteq> i)"
| "leaves_timer i (SaveSettles c) = True"
| "leaves_timer i (Cancel j) = (j \<noteq> i)"
| "leaves_timer i (FlushAllPending f) = False"
| "leaves_timer i CancelAll = False"

lemma save_settles_timers [simp]: "so_timers (save_settles c o') = so_timers o'"
  by (simp add: save_settles_def Let_def split: option.split)

lemma leaves_timer_act: "leaves_timer i e \<Longrightarrow> map_of (so_timers (save_act o' e)) i = map_of (so_timers o') i"
  by (cases e) (auto simp: schedule_def update_conv timer_fires_def flushOne_sel delete_conv cancel_sel split: option.split)

lemma leaves_timer_run:
  "\<forall>e\<in>set es. leaves_timer i e \<Longrightarrow> map_of (so_timers (foldl save_act o' es)) i = map_of (so_timers o') i"
  by (induction es arbitrary: o') (simp_all add: leaves_timer_act)

lemma flush_steps_live:
  "save_inv o' \<Longrightarrow> distinct is \<Longrightarrow> i \<in> set is \<Longrightarrow> getArgs i = Some e \<Longrightarrow>
     \<exists>s\<in>live (foldl (flush_step getArgs) o' is). sa_item s = i \<and> sa_edit s = e"
proof (induction "is" rule: rev_induct)
  case (snoc j js)
  let ?o = "foldl (flush_step getArgs) o' js"
  have inv: "save_inv ?o" by (rule flush_steps_inv [OF snoc.prems(1)])
  show ?case
  proof (cases "i = j")
    case True
    then have "foldl (flush_step getArgs) o' (js @ [j]) = flushOne i e ?o" using snoc.prems(4) by (simp add: flush_step_def [of _ ?o])
    then show ?thesis by (simp add: live_flushOne [OF inv])
  next
    case False
    with snoc obtain s where "s \<in> live ?o" "sa_item s = i" "sa_edit s = e" by auto
    moreover have "foldl (flush_step getArgs) o' (js @ [j]) = (case getArgs j of None \<Rightarrow> ?o | Some e \<Rightarrow> flushOne j e ?o)"
      by (simp add: flush_step_def [of _ ?o])
    ultimately show ?thesis using False by (auto simp: live_flushOne [OF inv] split: option.split)
  qed
qed simp

text \<open>
  Claim C29. No last edit is lost: once an edit was scheduled for an item, and nothing newer was
  scheduled and nothing cancelled since, the timer starts the one live save of the item with exactly that
  edit, even if an earlier save is still under way (which it aborts). Flushing at the end of the page
  instead starts one for every pending item with the edit it is given, and leaves no timer.
\<close>

theorem last_edit_is_saved:
  assumes "reach createSaveOrchestrator save_step o'" and "\<forall>e\<in>set es. leaves_timer i e"
    and "o1 = foldl save_act (schedule i edit o') es"
  shows "(\<exists>s\<in>live (timer_fires i o1). sa_item s = i \<and> sa_edit s = edit \<and> (\<forall>t\<in>live (timer_fires i o1). sa_item t = i \<longrightarrow> t = s)) \<and>
    (\<forall>j. j \<in> fst ` set (so_timers o1) \<longrightarrow> getArgs j = Some e' \<longrightarrow>
       (\<exists>s\<in>live (flushAllPending getArgs o1). sa_item s = j \<and> sa_edit s = e')) \<and>
    so_timers (flushAllPending getArgs o1) = []"
proof -
  have inv: "save_inv o1"
  proof -
    have "save_inv (foldl save_act o2 es)" if "save_inv o2" for o2 es
      using that by (induction es arbitrary: o2) (simp_all add: save_act_inv)
    moreover have "save_inv (schedule i edit o')" using save_act_inv [OF save_machine.inv_reach [OF assms(1)], of "Schedule i edit"] by simp
    ultimately show ?thesis by (simp add: assms(3))
  qed
  have t: "map_of (so_timers o1) i = Some edit"
    by (simp add: assms(3) leaves_timer_run [OF assms(2)] schedule_def update_conv)
  have "save_inv (o1\<lparr>so_timers := AList.delete i (so_timers o1)\<rparr>)"
    using timers_inv [OF inv] inv by (simp add: save_inv_def [of o1] distinct_delete)
  then have "live (timer_fires i o1) = insert \<lparr>sa_controller = so_next o1, sa_item = i, sa_edit = edit, sa_aborted = False\<rparr>
      {s \<in> live o1. sa_item s \<noteq> i}"
    by (simp add: timer_fires_def t live_flushOne) (simp add: live_def)
  then have "\<exists>s\<in>live (timer_fires i o1). sa_item s = i \<and> sa_edit s = edit \<and> (\<forall>t\<in>live (timer_fires i o1). sa_item t = i \<longrightarrow> t = s)"
    by auto
  moreover have "\<exists>s\<in>live (flushAllPending getArgs o1). sa_item s = j \<and> sa_edit s = e'"
    if "j \<in> fst ` set (so_timers o1)" "getArgs j = Some e'" for j
  proof -
    have "distinct (map fst (so_timers o1))" using inv by (simp add: save_inv_def)
    from flush_steps_live [OF inv this, of j getArgs e'] that show ?thesis
      by (simp add: flushAllPending_steps) (simp add: live_def)
  qed
  moreover have "so_timers (flushAllPending getArgs o1) = []" by (simp add: flushAllPending_steps)
  ultimately show ?thesis by blast
qed

lemma last_edit_is_saved_witness:
  "\<exists>s\<in>live (timer_fires ''i'' (foldl save_act (schedule ''i'' ''c'' demo_saving) [SaveSettles 1])). sa_item s = ''i'' \<and> sa_edit s = ''c''"
  using last_edit_is_saved [OF reach_run [of "[Schedule ''i'' ''a'', TimerFires ''i'', Schedule ''i'' ''b'', TimerFires ''i'']"] _ refl,
      where i = "''i''" and es = "[SaveSettles 1]" and edit = "''c''"] by (metis leaves_timer.simps(3) list.set_cases set_ConsD empty_iff empty_set)

end
