(* ===== verification/QueueStore.thy ===== *)
theory QueueStore
  imports QueueModel SaveOrchestrator SingleFlight
begin

text \<open>
  The store of the annotation queue, \<open>components/queue/queue-store/index.tsx\<close>: a window of loaded items
  over the list of all ids, optimistic edits saved after a delay, and the operations that commit a write
  (approve, unapprove, discard, push to a dataset). Those are split where they wait; what their promises
  resolve to is kept in \<open>qs_results\<close>. The orchestrator of the store's closure is part of its state; every
  save it starts is the PATCH of \<open>patchEdit\<close>, an edit with status 0.
\<close>

section \<open>State\<close>

datatype io_state = Idle | IoList | IoPushAll | IoPushOne | IoRemove | IoSave

datatype target_tab = TabFields | TabJson

datatype action_result = ResOk "nat option" | ResError string

record queue_store =
  qs_idsList :: "string list"
  qs_loadedItems :: "(string \<times> queue_item) list"
  qs_itemStates :: "(string \<times> item_state) list"
  qs_progress :: queue_progress
  qs_isInitialLoaded :: bool
  qs_currentIndex :: int
  qs_ioState :: io_state
  qs_dataset :: "string option"
  qs_targetTab :: "target_tab option"
  qs_isTargetJsonValid :: bool
  qs_dialogOpen :: bool
  qs_annotationSchema :: "json option"
  qs_fields :: "target_field list"
  qs_focusedFieldIndex :: int
  qs_orchestrator :: orchestrator
  qs_results :: "action_result list"

text \<open>What the code takes from its platform: \<open>JSON.parse\<close>, \<open>JSON.stringify\<close>, \<open>String\<close>, the number a value
  is compared as (\<open>None\<close> for NaN), and lodash's \<open>isEqual\<close>.\<close>

record json_platform =
  jp_parse :: "string \<Rightarrow> json option"
  jp_stringify :: "json \<Rightarrow> string"
  jp_string :: "json \<Rightarrow> string"
  jp_number :: "json \<Rightarrow> number option"
  jp_equal :: "json \<Rightarrow> json \<Rightarrow> bool"

definition first_focus :: "target_field list \<Rightarrow> int" where
  "first_focus fs = (if fs \<noteq> [] then 0 else -1)"

definition fresh_queue :: "json option \<Rightarrow> target_field list \<Rightarrow> queue_store" where
  "fresh_queue initialSchema initialFields =
     \<lparr>qs_idsList = [], qs_loadedItems = [], qs_itemStates = [], qs_progress = EMPTY_PROGRESS, qs_isInitialLoaded = False,
      qs_currentIndex = 0, qs_ioState = Idle, qs_dataset = None, qs_targetTab = None, qs_isTargetJsonValid = True,
      qs_dialogOpen = False, qs_annotationSchema = initialSchema, qs_fields = initialFields,
      qs_focusedFieldIndex = first_focus initialFields, qs_orchestrator = createSaveOrchestrator, qs_results = []\<rparr>"

definition createQueueStore :: "json_platform \<Rightarrow> json option \<Rightarrow> schema_error + queue_store" where
  "createQueueStore jp initialSchema =
     map_sum id (fresh_queue initialSchema) (parseAnnotationSchema (jp_string jp) initialSchema)"

section \<open>The window\<close>

text \<open>\<open>Array.slice\<close>: negative positions count from the end.\<close>

definition slice_position :: "nat \<Rightarrow> int \<Rightarrow> nat" where
  "slice_position n i = (if i < 0 then nat (max 0 (int n + i)) else min (nat i) n)"

definition js_slice :: "'a list \<Rightarrow> int \<Rightarrow> int \<Rightarrow> 'a list" where
  "js_slice xs a b = take (slice_position (length xs) b - slice_position (length xs) a) (drop (slice_position (length xs) a) xs)"

definition computeWindowIds :: "string list \<Rightarrow> int \<Rightarrow> string list" where
  "computeWindowIds idsList centerIndex =
     (if idsList = [] then []
      else js_slice idsList (max 0 (centerIndex - WINDOW_RADIUS)) (min (int (length idsList)) (centerIndex + WINDOW_RADIUS + 1)))"

definition evictOutsideWindow ::
  "(string \<times> queue_item) list \<Rightarrow> string list \<Rightarrow> (string \<Rightarrow> bool) \<Rightarrow> (string \<times> queue_item) list" where
  "evictOutsideWindow loadedItems windowIds pending = filter (\<lambda>(i, item). i \<in> set windowIds \<or> pending i) loadedItems"

definition getMissingWindowIds :: "int \<Rightarrow> queue_store \<Rightarrow> string list" where
  "getMissingWindowIds centerIndex st = filter (\<lambda>i. map_of (qs_loadedItems st) i = None) (computeWindowIds (qs_idsList st) centerIndex)"

definition getWindowIds :: "int \<Rightarrow> queue_store \<Rightarrow> string list" where
  "getWindowIds centerIndex st = computeWindowIds (qs_idsList st) centerIndex"

definition clampIndex :: "string list \<Rightarrow> int \<Rightarrow> int" where
  "clampIndex idsList index = min (max index 0) (max (int (length idsList) - 1) 0)"

definition itemAt :: "'a list \<Rightarrow> int \<Rightarrow> 'a option" where
  "itemAt xs i = (if 0 \<le> i \<and> i < int (length xs) then Some (xs ! nat i) else None)"

definition getCurrentItem :: "queue_store \<Rightarrow> queue_item option" where
  "getCurrentItem st =
     (case itemAt (qs_idsList st) (qs_currentIndex st) of
        None \<Rightarrow> None
      | Some i \<Rightarrow> if i = [] then None else map_of (qs_loadedItems st) i)"

definition getTarget :: "json_platform \<Rightarrow> queue_store \<Rightarrow> json" where
  "getTarget jp st = getEffectiveTarget (jp_parse jp) (getCurrentItem st)"

section \<open>Local changes\<close>

definition scheduleSaveFor :: "queue_item \<Rightarrow> queue_store \<Rightarrow> queue_store" where
  "scheduleSaveFor item st = st\<lparr>qs_orchestrator := schedule (qi_id item) (qi_edit item) (qs_orchestrator st)\<rparr>"

definition replaceItem :: "queue_item \<Rightarrow> queue_store \<Rightarrow> queue_store" where
  "replaceItem next' st =
     (if qi_id next' \<notin> set (qs_idsList st) then st
      else st\<lparr>qs_loadedItems := AList.update (qi_id next') next' (qs_loadedItems st)\<rparr>)"

definition index_of :: "'a \<Rightarrow> 'a list \<Rightarrow> nat" where
  "index_of x xs = length (takeWhile (\<lambda>y. y \<noteq> x) xs)"

definition set_states :: "(string \<times> item_state) list \<Rightarrow> queue_store \<Rightarrow> queue_store" where
  "set_states states st = st\<lparr>qs_itemStates := states, qs_progress := computeProgress states\<rparr>"

definition removeItemLocal :: "string \<Rightarrow> queue_store \<Rightarrow> queue_store" where
  "removeItemLocal i st =
     (if i \<notin> set (qs_idsList st) then st
      else let idx = index_of i (qs_idsList st);
               nextIds = take idx (qs_idsList st) @ drop (idx + 1) (qs_idsList st);
               shifted = (if int idx < qs_currentIndex st then qs_currentIndex st - 1 else qs_currentIndex st)
           in set_states (AList.delete i (qs_itemStates st))
                (st\<lparr>qs_idsList := nextIds, qs_loadedItems := AList.delete i (qs_loadedItems st),
                    qs_currentIndex := clampIndex nextIds shifted\<rparr>))"

definition setItemState :: "string \<Rightarrow> item_state \<Rightarrow> queue_store \<Rightarrow> queue_store" where
  "setItemState i s st =
     (if map_of (qs_itemStates st) i = Some s then st
      else if i \<notin> set (qs_idsList st) \<and> map_of (qs_itemStates st) i = None then st
      else set_states (AList.update i s (qs_itemStates st)) st)"

definition unapproveLocal :: "queue_item \<Rightarrow> queue_item" where
  "unapproveLocal item = (if qi_status item = 1 then item\<lparr>qi_status := 0\<rparr> else item)"

text \<open>What every edit does with the edited item.\<close>

definition put_item :: "json_platform \<Rightarrow> queue_item \<Rightarrow> queue_store \<Rightarrow> queue_store" where
  "put_item jp item st =
     scheduleSaveFor item (setItemState (qi_id item) (deriveItemState (jp_parse jp) (jp_equal jp) item) (replaceItem item st))"

section \<open>Loading\<close>

definition index_states :: "(string \<Rightarrow> bool) \<Rightarrow> (string \<times> item_state) list \<Rightarrow> (string \<times> item_state) list \<Rightarrow> (string \<times> item_state) list" where
  "index_states pending old rows =
     foldl (\<lambda>m (i, s). AList.update i (case map_of old i of Some s' \<Rightarrow> if pending i then s' else s | None \<Rightarrow> s) m) [] rows"

definition hydrateIndex :: "(string \<times> item_state) list \<Rightarrow> queue_store \<Rightarrow> queue_store" where
  "hydrateIndex rows st =
     (let idsList = map fst rows;
          surviving = filter (\<lambda>(i, item). i \<in> set idsList) (qs_loadedItems st);
          pending = hasPending (qs_orchestrator st);
          clamped = clampIndex idsList (qs_currentIndex st)
      in set_states (index_states pending (qs_itemStates st) rows)
           (st\<lparr>qs_idsList := idsList,
               qs_loadedItems := evictOutsideWindow surviving (computeWindowIds idsList clamped) pending,
               qs_isInitialLoaded := True, qs_currentIndex := clamped\<rparr>))"

definition window_step ::
  "json_platform \<Rightarrow> (string \<Rightarrow> bool) \<Rightarrow> (string \<times> queue_item) list \<times> (string \<times> item_state) list \<times> bool \<Rightarrow> queue_item
     \<Rightarrow> (string \<times> queue_item) list \<times> (string \<times> item_state) list \<times> bool" where
  "window_step jp pending acc item =
     (case acc of (loaded, states, dirty) \<Rightarrow>
        if pending (qi_id item) then acc
        else let derived = deriveItemState (jp_parse jp) (jp_equal jp) item; loaded' = AList.update (qi_id item) item loaded
          in if map_of states (qi_id item) \<noteq> Some derived then (loaded', AList.update (qi_id item) derived states, True)
             else (loaded', states, dirty))"

definition hydrateWindow :: "json_platform \<Rightarrow> queue_item list \<Rightarrow> queue_store \<Rightarrow> queue_store" where
  "hydrateWindow jp items st =
     (if items = [] then st
      else case foldl (window_step jp (hasPending (qs_orchestrator st))) (qs_loadedItems st, qs_itemStates st, False) items of
        (loaded, states, dirty) \<Rightarrow>
          if dirty then set_states states (st\<lparr>qs_loadedItems := loaded\<rparr>) else st\<lparr>qs_loadedItems := loaded\<rparr>)"

section \<open>Moving, editing\<close>

definition move_to :: "int \<Rightarrow> queue_store \<Rightarrow> queue_store" where
  "move_to index st = st\<lparr>qs_currentIndex := index, qs_isTargetJsonValid := True,
     qs_loadedItems := evictOutsideWindow (qs_loadedItems st) (computeWindowIds (qs_idsList st) index) (hasPending (qs_orchestrator st))\<rparr>"

definition setCurrentIndex :: "int \<Rightarrow> queue_store \<Rightarrow> queue_store" where
  "setCurrentIndex index st = move_to (clampIndex (qs_idsList st) index) st"

definition step_item :: "int \<Rightarrow> queue_store \<Rightarrow> queue_store" where
  "step_item dir st =
     (let next' = qs_currentIndex st + dir
      in if next' < 0 \<or> next' \<ge> int (length (qs_idsList st)) then st else move_to next' st)"

definition setAnnotationSchema :: "json_platform \<Rightarrow> json option \<Rightarrow> queue_store \<Rightarrow> schema_error + queue_store" where
  "setAnnotationSchema jp schema st =
     map_sum id (\<lambda>fs. st\<lparr>qs_annotationSchema := schema, qs_fields := fs, qs_focusedFieldIndex := first_focus fs\<rparr>)
       (parseAnnotationSchema (jp_string jp) schema)"

definition setTarget :: "json_platform \<Rightarrow> json option \<Rightarrow> queue_store \<Rightarrow> queue_store" where
  "setTarget jp target st =
     (case getCurrentItem st of
        None \<Rightarrow> st
      | Some current \<Rightarrow> put_item jp (unapproveLocal (current\<lparr>qi_edit := jp_stringify jp (nullish target (JObj []))\<rparr>)) st)"

definition updateTargetField :: "json_platform \<Rightarrow> string \<Rightarrow> json \<Rightarrow> queue_store \<Rightarrow> queue_store" where
  "updateTargetField jp key v st =
     (case getCurrentItem st of
        None \<Rightarrow> st
      | Some current \<Rightarrow>
          let existing = nullish (Some (getEffectiveTarget (jp_parse jp) (Some current))) (JObj []);
              newTarget = set_key key v existing
          in put_item jp (unapproveLocal (current\<lparr>qi_edit := jp_stringify jp newTarget\<rparr>)) st)"

definition cancel_saves :: "string \<Rightarrow> queue_store \<Rightarrow> queue_store" where
  "cancel_saves i st = st\<lparr>qs_orchestrator := cancel i (qs_orchestrator st)\<rparr>"

definition revertCurrent :: "json_platform \<Rightarrow> queue_store \<Rightarrow> queue_store" where
  "revertCurrent jp st =
     (case getCurrentItem st of
        None \<Rightarrow> st
      | Some current \<Rightarrow>
          if \<not> isDirty (jp_parse jp) (jp_equal jp) current then st
          else put_item jp (current\<lparr>qi_edit := jp_stringify jp (nullish (qi_target current) JNull), qi_status := 0\<rparr>)
                 (cancel_saves (qi_id current) st))"

datatype focus_direction = FocusNext | FocusPrev | FocusFirst

text \<open>\<open>%\<close> takes the sign of its left operand.\<close>

definition js_rem :: "int \<Rightarrow> int \<Rightarrow> int" where
  "js_rem a b = (if 0 \<le> a then a mod b else - ((- a) mod b))"

definition focusField :: "focus_direction \<Rightarrow> queue_store \<Rightarrow> queue_store" where
  "focusField direction st =
     (if qs_fields st = [] then st
      else let n = int (length (qs_fields st)); f = qs_focusedFieldIndex st
        in st\<lparr>qs_focusedFieldIndex := (case direction of
               FocusNext \<Rightarrow> js_rem (f + 1) n | FocusPrev \<Rightarrow> js_rem (f - 1 + n) n | FocusFirst \<Rightarrow> 0)\<rparr>)"

definition selectOptionInFocusedField :: "json_platform \<Rightarrow> int \<Rightarrow> queue_store \<Rightarrow> queue_store" where
  "selectOptionInFocusedField jp optionNumber st =
     (case itemAt (qs_fields st) (qs_focusedFieldIndex st) of
        None \<Rightarrow> st
      | Some field \<Rightarrow>
         (case (tf_type field, tf_options field) of
            (FNumber, Some (Bounds lo hi)) \<Rightarrow>
              (case (jp_number jp lo, jp_number jp hi) of
                 (Some l, Some h) \<Rightarrow> if l \<le> of_int optionNumber \<and> of_int optionNumber \<le> h
                   then updateTargetField jp (tf_key field) (JNum (of_int optionNumber)) st else st
               | _ \<Rightarrow> st)
          | (FEnum, Some (Choices options)) \<Rightarrow>
              (case itemAt options (optionNumber - 1) of
                 None \<Rightarrow> st | Some s \<Rightarrow> updateTargetField jp (tf_key field) (JStr s) st)
          | (FBoolean, _) \<Rightarrow>
              if optionNumber = 1 then updateTargetField jp (tf_key field) (JBool False) st
              else if optionNumber = 2 then updateTargetField jp (tf_key field) (JBool True) st
              else st
          | _ \<Rightarrow> st))"

section \<open>Committing operations\<close>

text \<open>Messages are the code's, up to a dash that is not ASCII.\<close>

text \<open>The requests. \<open>Revalidate\<close> is the wait for the index to be refetched, after which the operation
  ends with the given result, or with the given error if the refetch fails.\<close>

datatype queue_request =
    PatchApproved string
  | PatchUnapproved string
  | DeleteItem string
  | PushAll string bool
  | PushOne string string bool
  | Revalidate action_result string

text \<open>A response: for the pushes with the \<open>pushed\<close> of its body.\<close>

type_synonym queue_response = "nat option outcome"

definition busy :: "queue_store \<Rightarrow> bool" where
  "busy st \<longleftrightarrow> qs_ioState st \<noteq> Idle \<and> qs_ioState st \<noteq> IoList"

definition finish :: "action_result \<Rightarrow> queue_store \<Rightarrow> queue_store" where
  "finish r st = st\<lparr>qs_ioState := Idle, qs_results := qs_results st @ [r]\<rparr>"

definition refuse :: "string \<Rightarrow> queue_store \<Rightarrow> queue_store \<times> queue_request list" where
  "refuse e st = (st\<lparr>qs_results := qs_results st @ [ResError e]\<rparr>, [])"

definition start_commit :: "io_state \<Rightarrow> queue_request \<Rightarrow> queue_store \<Rightarrow> queue_store \<times> queue_request list" where
  "start_commit io q st = (st\<lparr>qs_ioState := io\<rparr>, [q])"

definition approveCurrent :: "queue_store \<Rightarrow> queue_store \<times> queue_request list" where
  "approveCurrent st =
     (case getCurrentItem st of
        None \<Rightarrow> refuse ''No item or invalid JSON'' st
      | Some current \<Rightarrow>
          if \<not> qs_isTargetJsonValid st then refuse ''No item or invalid JSON'' st
          else if busy st then refuse ''Busy'' st
          else start_commit IoSave (PatchApproved (qi_id current)) (cancel_saves (qi_id current) st))"

definition unapproveCurrent :: "queue_store \<Rightarrow> queue_store \<times> queue_request list" where
  "unapproveCurrent st =
     (case getCurrentItem st of
        None \<Rightarrow> refuse ''No item'' st
      | Some current \<Rightarrow>
          if qi_status current \<noteq> 1 then refuse ''Item is not approved'' st
          else if busy st then refuse ''Busy'' st
          else start_commit IoSave (PatchUnapproved (qi_id current)) (cancel_saves (qi_id current) st))"

definition discardCurrent :: "queue_store \<Rightarrow> queue_store \<times> queue_request list" where
  "discardCurrent st =
     (case getCurrentItem st of
        None \<Rightarrow> refuse ''No item'' st
      | Some current \<Rightarrow>
          if busy st then refuse ''Busy'' st
          else start_commit IoRemove (DeleteItem (qi_id current)) (cancel_saves (qi_id current) st))"

definition pushAllToDataset :: "bool \<Rightarrow> queue_store \<Rightarrow> queue_store \<times> queue_request list" where
  "pushAllToDataset includeUnlabelled st =
     (if \<not> truthy (qs_dataset st) then refuse ''Pick a dataset first'' st
      else start_commit IoPushAll (PushAll (the (qs_dataset st)) includeUnlabelled)
             (st\<lparr>qs_orchestrator := cancelAll (qs_orchestrator st)\<rparr>))"

definition pushCurrentToDataset :: "bool \<Rightarrow> queue_store \<Rightarrow> queue_store \<times> queue_request list" where
  "pushCurrentToDataset includeUnlabelled st =
     (case getCurrentItem st of
        None \<Rightarrow> refuse ''No item'' st
      | Some current \<Rightarrow>
          if \<not> truthy (qs_dataset st) then refuse ''Pick a dataset first'' st
          else if qi_status current \<noteq> 1 \<and> \<not> includeUnlabelled then refuse ''Approve the item before pushing'' st
          else if busy st then refuse ''Busy'' st
          else start_commit IoPushOne (PushOne (the (qs_dataset st)) (qi_id current) includeUnlabelled)
                 (cancel_saves (qi_id current) st))"

text \<open>What runs on the response: on success, and on failure with the default message.\<close>

definition failure :: "string \<Rightarrow> 'a outcome \<Rightarrow> string" where
  "failure d r = (case r of FetchNotOk (Some e) \<Rightarrow> e | _ \<Rightarrow> d)"

definition approved :: "string \<Rightarrow> queue_store \<Rightarrow> queue_store" where
  "approved i st =
     (let st1 = set_states (AList.update i StateApproved (qs_itemStates st))
            (case map_of (qs_loadedItems st) i of
               None \<Rightarrow> st
             | Some existing \<Rightarrow> st\<lparr>qs_loadedItems := AList.update i (existing\<lparr>qi_status := 1\<rparr>) (qs_loadedItems st)\<rparr>)
      in if qs_currentIndex st1 < int (length (qs_idsList st1)) - 1 then step_item 1 st1 else st1)"

definition unapproved :: "json_platform \<Rightarrow> string \<Rightarrow> queue_store \<Rightarrow> queue_store" where
  "unapproved jp i st =
     (case map_of (qs_loadedItems st) i of
        None \<Rightarrow> st
      | Some existing \<Rightarrow>
          let item = existing\<lparr>qi_status := 0\<rparr>
          in set_states (AList.update i (deriveItemState (jp_parse jp) (jp_equal jp) item) (qs_itemStates st))
               (st\<lparr>qs_loadedItems := AList.update i item (qs_loadedItems st)\<rparr>))"

fun queue_settle :: "json_platform \<Rightarrow> queue_store \<Rightarrow> queue_request \<Rightarrow> queue_response \<Rightarrow> queue_store \<times> queue_request list" where
  "queue_settle jp st (PatchApproved i) r =
     (case r of FetchOk _ \<Rightarrow> (finish (ResOk None) (approved i st), [])
      | _ \<Rightarrow> (finish (ResError (failure ''Failed to approve item'' r)) st, []))"
| "queue_settle jp st (PatchUnapproved i) r =
     (case r of FetchOk _ \<Rightarrow> (finish (ResOk None) (unapproved jp i st), [])
      | _ \<Rightarrow> (finish (ResError (failure ''Failed to unapprove item'' r)) st, []))"
| "queue_settle jp st (DeleteItem i) r =
     (case r of FetchOk _ \<Rightarrow> (removeItemLocal i st, [Revalidate (ResOk None) ''Failed to discard item''])
      | _ \<Rightarrow> (finish (ResError (failure ''Failed to discard item'' r)) st, []))"
| "queue_settle jp st (PushAll d b) r =
     (case r of
        FetchOk pushed \<Rightarrow> (st, [Revalidate (ResOk (Some (case pushed of None \<Rightarrow> 0 | Some n \<Rightarrow> n))) ''Failed to push approved items''])
      | _ \<Rightarrow> (finish (ResError (failure ''Failed to push approved items'' r)) st, []))"
| "queue_settle jp st (PushOne d i b) r =
     (case r of
        FetchOk pushed \<Rightarrow>
          if pushed = None \<or> pushed = Some 0
          then (finish (ResError ''Item was not pushed - approve it first'') st, [])
          else (removeItemLocal i st, [Revalidate (ResOk pushed) ''Failed to push item''])
      | _ \<Rightarrow> (finish (ResError (failure ''Failed to push item'' r)) st, []))"
| "queue_settle jp st (Revalidate ok e) r =
     (case r of FetchOk _ \<Rightarrow> (finish ok st, []) | _ \<Rightarrow> (finish (ResError e) st, []))"

definition flushPendingSaves :: "queue_store \<Rightarrow> queue_store" where
  "flushPendingSaves st =
     st\<lparr>qs_orchestrator := flushAllPending (\<lambda>i. map_option qi_edit (map_of (qs_loadedItems st) i)) (qs_orchestrator st)\<rparr>"

text \<open>What \<open>persist\<close> keeps.\<close>

definition partialize_queue :: "queue_store \<Rightarrow> string option \<times> target_tab option" where
  "partialize_queue st = (qs_dataset st, qs_targetTab st)"

section \<open>The store as a state machine\<close>

datatype queue_action =
    HydrateIndex "(string \<times> item_state) list"
  | HydrateWindow "queue_item list"
  | SetCurrentIndex int
  | StepItem bool
  | SetDataset "string option"
  | SetIoState io_state
  | SetDialogOpen bool
  | SetTargetTab target_tab
  | SetAnnotationSchema "json option"
  | SetTarget "json option"
  | SetTargetJsonValid bool
  | UpdateTargetField string json
  | RevertCurrent
  | FocusField focus_direction
  | SelectOptionInFocusedField int
  | ApproveCurrent
  | UnapproveCurrent
  | DiscardCurrent
  | PushAllToDataset bool
  | PushCurrentToDataset bool
  | FlushPendingSaves
  | SaveTimerFires string
  | SaveSettled nat

fun queue_act :: "json_platform \<Rightarrow> queue_store \<Rightarrow> queue_action \<Rightarrow> queue_store \<times> queue_request list" where
  "queue_act jp st (HydrateIndex rows) = (hydrateIndex rows st, [])"
| "queue_act jp st (HydrateWindow items) = (hydrateWindow jp items st, [])"
| "queue_act jp st (SetCurrentIndex i) = (setCurrentIndex i st, [])"
| "queue_act jp st (StepItem forward) = (step_item (if forward then 1 else -1) st, [])"
| "queue_act jp st (SetDataset d) = (st\<lparr>qs_dataset := d\<rparr>, [])"
| "queue_act jp st (SetIoState io) = (st\<lparr>qs_ioState := io\<rparr>, [])"
| "queue_act jp st (SetDialogOpen b) = (st\<lparr>qs_dialogOpen := b\<rparr>, [])"
| "queue_act jp st (SetTargetTab t) = (st\<lparr>qs_targetTab := Some t\<rparr>, [])"
| "queue_act jp st (SetAnnotationSchema schema) = (case setAnnotationSchema jp schema st of Inl e \<Rightarrow> (st, []) | Inr st' \<Rightarrow> (st', []))"
| "queue_act jp st (SetTarget t) = (setTarget jp t st, [])"
| "queue_act jp st (SetTargetJsonValid b) = (st\<lparr>qs_isTargetJsonValid := b\<rparr>, [])"
| "queue_act jp st (UpdateTargetField k v) = (updateTargetField jp k v st, [])"
| "queue_act jp st RevertCurrent = (revertCurrent jp st, [])"
| "queue_act jp st (FocusField d) = (focusField d st, [])"
| "queue_act jp st (SelectOptionInFocusedField n) = (selectOptionInFocusedField jp n st, [])"
| "queue_act jp st ApproveCurrent = approveCurrent st"
| "queue_act jp st UnapproveCurrent = unapproveCurrent st"
| "queue_act jp st DiscardCurrent = discardCurrent st"
| "queue_act jp st (PushAllToDataset b) = pushAllToDataset b st"
| "queue_act jp st (PushCurrentToDataset b) = pushCurrentToDataset b st"
| "queue_act jp st FlushPendingSaves = (flushPendingSaves st, [])"
| "queue_act jp st (SaveTimerFires i) = (st\<lparr>qs_orchestrator := timer_fires i (qs_orchestrator st)\<rparr>, [])"
| "queue_act jp st (SaveSettled c) = (st\<lparr>qs_orchestrator := save_settles c (qs_orchestrator st)\<rparr>, [])"

section \<open>The invariant\<close>

definition items_ok :: "(string \<times> queue_item) list \<Rightarrow> bool" where
  "items_ok m \<longleftrightarrow> distinct (map fst m) \<and> (\<forall>i item. map_of m i = Some item \<longrightarrow> qi_id item = i)"

definition index_ok :: "string list \<Rightarrow> int \<Rightarrow> bool" where
  "index_ok ids k \<longleftrightarrow> 0 \<le> k \<and> k \<le> max (int (length ids) - 1) 0"

definition focus_ok :: "target_field list \<Rightarrow> int \<Rightarrow> bool" where
  "focus_ok fs f \<longleftrightarrow> length fs \<le> 9 \<and> (if fs = [] then f = -1 else 0 \<le> f \<and> f < int (length fs))"

text \<open>A timer carries the edit of the item it will save, as long as the item is loaded.\<close>

definition edits_ok :: "(string \<times> string) list \<Rightarrow> (string \<times> queue_item) list \<Rightarrow> bool" where
  "edits_ok timers loaded \<longleftrightarrow> (\<forall>i e item. map_of timers i = Some e \<longrightarrow> map_of loaded i = Some item \<longrightarrow> qi_edit item = e)"

definition queue_inv :: "queue_store \<Rightarrow> bool" where
  "queue_inv st \<longleftrightarrow> items_ok (qs_loadedItems st) \<and> distinct (map fst (qs_itemStates st)) \<and>
     index_ok (qs_idsList st) (qs_currentIndex st) \<and> qs_progress st = computeProgress (qs_itemStates st) \<and>
     focus_ok (qs_fields st) (qs_focusedFieldIndex st) \<and> save_inv (qs_orchestrator st) \<and>
     edits_ok (so_timers (qs_orchestrator st)) (qs_loadedItems st)"

lemma map_of_filterD: "distinct (map fst m) \<Longrightarrow> map_of (filter P m) i = Some x \<Longrightarrow> map_of m i = Some x \<and> P (i, x)"
  by (auto dest!: map_of_SomeD intro: map_of_is_SomeI)

lemma items_ok_filter: "items_ok m \<Longrightarrow> items_ok (filter P m)"
  by (auto simp: items_ok_def distinct_map_filter dest: map_of_filterD)

lemma items_ok_update: "items_ok m \<Longrightarrow> qi_id item = i \<Longrightarrow> items_ok (AList.update i item m)"
  by (auto simp: items_ok_def distinct_update update_conv)

lemma items_ok_delete: "items_ok m \<Longrightarrow> items_ok (AList.delete i m)"
  by (auto simp: items_ok_def distinct_delete delete_conv fun_upd_def split: if_splits)

lemma edits_ok_filter: "items_ok m \<Longrightarrow> edits_ok ts m \<Longrightarrow> edits_ok ts (filter P m)"
  unfolding edits_ok_def items_ok_def by (meson map_of_filterD)

lemma edits_ok_delete: "edits_ok ts m \<Longrightarrow> edits_ok ts (AList.delete i m)"
  by (auto simp: edits_ok_def delete_conv fun_upd_def split: if_splits)

lemma edits_ok_status: "edits_ok ts m \<Longrightarrow> map_of m i = Some item \<Longrightarrow> edits_ok ts (AList.update i (item\<lparr>qi_status := n\<rparr>) m)"
  by (auto simp: edits_ok_def update_conv)

lemma edits_ok_timers: "edits_ok ts m \<Longrightarrow> (\<And>i e. map_of ts' i = Some e \<Longrightarrow> map_of ts i = Some e) \<Longrightarrow> edits_ok ts' m"
  unfolding edits_ok_def by blast

lemma edits_ok_schedule: "edits_ok ts m \<Longrightarrow> edits_ok (AList.update i (qi_edit item) ts) (AList.update i item m)"
  by (auto simp: edits_ok_def update_conv)

lemma clamp_ok: "index_ok ids (clampIndex ids k)"
  by (auto simp: index_ok_def clampIndex_def)

lemma set_states_inv:
  "queue_inv st \<Longrightarrow> distinct (map fst states) \<Longrightarrow> queue_inv (set_states states st)"
  by (simp add: queue_inv_def set_states_def)

lemma loaded_inv:
  "queue_inv st \<Longrightarrow> items_ok m \<Longrightarrow> edits_ok (so_timers (qs_orchestrator st)) m \<Longrightarrow> queue_inv (st\<lparr>qs_loadedItems := m\<rparr>)"
  by (simp add: queue_inv_def)

lemma orchestrator_inv:
  "queue_inv st \<Longrightarrow> save_inv o' \<Longrightarrow>
    (\<And>i e. map_of (so_timers o') i = Some e \<Longrightarrow> map_of (so_timers (qs_orchestrator st)) i = Some e) \<Longrightarrow>
    queue_inv (st\<lparr>qs_orchestrator := o'\<rparr>)"
  unfolding queue_inv_def by (auto intro: edits_ok_timers)

lemma save_act_queue_inv:
  assumes "queue_inv st" and "\<forall>i t. e \<noteq> Schedule i t"
  shows "queue_inv (st\<lparr>qs_orchestrator := save_act (qs_orchestrator st) e\<rparr>)"
proof (rule orchestrator_inv [OF assms(1)])
  show "save_inv (save_act (qs_orchestrator st) e)" using assms(1) by (simp add: queue_inv_def save_act_inv)
  show "map_of (so_timers (save_act (qs_orchestrator st) e)) i = Some x \<Longrightarrow> map_of (so_timers (qs_orchestrator st)) i = Some x" for i x
    using assms(2) by (cases e) (auto simp: timer_fires_def flushOne_sel delete_conv cancel_sel flushAllPending_def cancelAll_def
        fun_upd_def split: option.splits if_splits)
qed

lemma move_to_inv: "queue_inv st \<Longrightarrow> index_ok (qs_idsList st) k \<Longrightarrow> queue_inv (move_to k st)"
  by (simp add: queue_inv_def move_to_def evictOutsideWindow_def items_ok_filter edits_ok_filter)

lemma step_item_inv: "queue_inv st \<Longrightarrow> queue_inv (step_item d st)"
  unfolding step_item_def Let_def by (auto intro: move_to_inv simp: index_ok_def)

lemma put_item_inv:
  assumes "queue_inv st" and "qi_id item \<in> set (qs_idsList st)"
  shows "queue_inv (put_item jp item st)"
proof -
  let ?i = "qi_id item"
  define st1 where "st1 = st\<lparr>qs_loadedItems := AList.update ?i item (qs_loadedItems st),
    qs_orchestrator := schedule ?i (qi_edit item) (qs_orchestrator st)\<rparr>"
  have "save_inv (schedule ?i (qi_edit item) (qs_orchestrator st))"
    using save_act_inv [of "qs_orchestrator st" "Schedule ?i (qi_edit item)"] assms(1) by (simp add: queue_inv_def)
  then have 1: "queue_inv st1"
    using assms(1) by (simp add: queue_inv_def st1_def items_ok_update schedule_def edits_ok_schedule)
  then show ?thesis
    using assms(2) unfolding queue_inv_def st1_def
    by (simp add: put_item_def scheduleSaveFor_def setItemState_def replaceItem_def set_states_def distinct_update)
qed

lemma current_in_ids: "queue_inv st \<Longrightarrow> getCurrentItem st = Some item \<Longrightarrow> qi_id item \<in> set (qs_idsList st)"
  by (auto simp: getCurrentItem_def itemAt_def queue_inv_def items_ok_def split: option.splits if_splits)

lemma edit_inv:
  assumes "queue_inv st" and "getCurrentItem st = Some current" and "qi_id item = qi_id current"
  shows "queue_inv (put_item jp item st)"
  using put_item_inv [OF assms(1)] current_in_ids [OF assms(1,2)] assms(3) by simp

lemma unapproveLocal_sel [simp]: "qi_id (unapproveLocal item) = qi_id item" "qi_edit (unapproveLocal item) = qi_edit item"
  "qi_target (unapproveLocal item) = qi_target item" "qi_status (unapproveLocal item) \<noteq> Suc 0"
  by (simp_all add: unapproveLocal_def)

lemma setTarget_inv: "queue_inv st \<Longrightarrow> queue_inv (setTarget jp t st)"
  by (auto simp: setTarget_def intro: edit_inv split: option.split)

lemma updateTargetField_inv: "queue_inv st \<Longrightarrow> queue_inv (updateTargetField jp k v st)"
  by (auto simp: updateTargetField_def Let_def intro: edit_inv split: option.split)

lemma cancel_saves_inv: "queue_inv st \<Longrightarrow> queue_inv (cancel_saves i st)"
  using save_act_queue_inv [of st "Cancel i"] by (simp add: cancel_saves_def)

lemma getCurrentItem_cancel [simp]: "getCurrentItem (cancel_saves i st) = getCurrentItem st"
  by (simp add: getCurrentItem_def cancel_saves_def split: option.split)

lemma revertCurrent_inv: "queue_inv st \<Longrightarrow> queue_inv (revertCurrent jp st)"
  by (auto simp: revertCurrent_def intro: edit_inv [OF cancel_saves_inv] split: option.split)

lemma selectOption_inv: "queue_inv st \<Longrightarrow> queue_inv (selectOptionInFocusedField jp n st)"
  by (simp add: selectOptionInFocusedField_def updateTargetField_inv split: option.split field_type.split field_options.split)

lemma removeItemLocal_inv: "queue_inv st \<Longrightarrow> queue_inv (removeItemLocal i st)"
  by (simp add: queue_inv_def removeItemLocal_def Let_def set_states_def items_ok_delete edits_ok_delete distinct_delete clamp_ok)

lemma index_states_distinct: "distinct (map fst (index_states pending old rows))"
proof -
  have "distinct (map fst m) \<Longrightarrow> distinct (map fst (foldl (\<lambda>m (i, s). AList.update i (f i s) m) m rows))" for m f
    by (induction rows arbitrary: m) (auto simp: distinct_update)
  from this [of "[]"] show ?thesis by (simp add: index_states_def)
qed

lemma hydrateIndex_inv: "queue_inv st \<Longrightarrow> queue_inv (hydrateIndex rows st)"
  by (simp add: queue_inv_def hydrateIndex_def Let_def set_states_def items_ok_filter edits_ok_filter index_states_distinct clamp_ok
      evictOutsideWindow_def)

lemma window_step_simp:
  "window_step jp pending (loaded, states, d) item =
     (if pending (qi_id item) then (loaded, states, d)
      else if map_of states (qi_id item) = Some (deriveItemState (jp_parse jp) (jp_equal jp) item)
      then (AList.update (qi_id item) item loaded, states, d)
      else (AList.update (qi_id item) item loaded, AList.update (qi_id item) (deriveItemState (jp_parse jp) (jp_equal jp) item) states, True))"
  by (simp add: window_step_def Let_def)

lemma window_steps:
  "items_ok loaded \<Longrightarrow> distinct (map fst states) \<Longrightarrow> edits_ok ts loaded \<Longrightarrow> \<forall>i. map_of ts i \<noteq> None \<longrightarrow> pending i \<Longrightarrow>
     foldl (window_step jp pending) (loaded, states, d) items = (loaded', states', d') \<Longrightarrow>
     items_ok loaded' \<and> distinct (map fst states') \<and> edits_ok ts loaded'"
proof (induction items arbitrary: loaded states d)
  case (Cons item items)
  show ?case
  proof (cases "pending (qi_id item)")
    case True
    with Cons show ?thesis by (simp add: window_step_simp)
  next
    case False
    have e: "edits_ok ts (AList.update (qi_id item) item loaded)"
      using False Cons.prems(3,4) by (auto simp: edits_ok_def update_conv)
    have i: "items_ok (AList.update (qi_id item) item loaded)" using Cons.prems(1) by (rule items_ok_update) simp
    have s: "distinct (map fst (AList.update (qi_id item) (deriveItemState (jp_parse jp) (jp_equal jp) item) states))"
      using Cons.prems(2) by (simp add: distinct_update)
    show ?thesis
      using Cons.prems(5) Cons.IH [OF i Cons.prems(2) e Cons.prems(4)] Cons.IH [OF i s e Cons.prems(4)] False
      by (simp add: window_step_simp split: if_splits)
  qed
qed simp

lemma hydrateWindow_inv:
  assumes "queue_inv st"
  shows "queue_inv (hydrateWindow jp items st)"
proof -
  let ?pending = "hasPending (qs_orchestrator st)"
  obtain loaded states d where w: "foldl (window_step jp ?pending) (qs_loadedItems st, qs_itemStates st, False) items = (loaded, states, d)"
    by (metis surj_pair)
  have "items_ok loaded \<and> distinct (map fst states) \<and> edits_ok (so_timers (qs_orchestrator st)) loaded"
    using window_steps [OF _ _ _ _ w, where ts = "so_timers (qs_orchestrator st)"] assms by (simp add: queue_inv_def hasPending_def)
  then show ?thesis using assms w by (simp add: hydrateWindow_def queue_inv_def set_states_def)
qed

lemma focusField_inv: "queue_inv st \<Longrightarrow> queue_inv (focusField d st)"
proof -
  assume inv: "queue_inv st"
  have "focus_ok (qs_fields st) (qs_focusedFieldIndex (focusField d st))"
  proof (cases "qs_fields st = []")
    case False
    then have n: "int (length (qs_fields st)) > 0" by simp
    have f: "length (qs_fields st) \<le> 9" "0 \<le> qs_focusedFieldIndex st" "qs_focusedFieldIndex st < int (length (qs_fields st))"
      using inv False by (simp_all add: queue_inv_def focus_ok_def)
    then show ?thesis using False n by (cases d) (simp_all add: focusField_def focus_ok_def js_rem_def Let_def)
  qed (use inv in \<open>simp add: queue_inv_def focusField_def\<close>)
  moreover have "focusField d st = st\<lparr>qs_focusedFieldIndex := qs_focusedFieldIndex (focusField d st)\<rparr>"
    by (simp add: focusField_def Let_def)
  moreover have "queue_inv (st\<lparr>qs_focusedFieldIndex := f\<rparr>)" if "focus_ok (qs_fields st) f" for f
    using inv that by (simp add: queue_inv_def)
  ultimately show ?thesis by metis
qed

lemma schema_inv:
  "queue_inv st \<Longrightarrow> setAnnotationSchema jp schema st = Inr st' \<Longrightarrow> queue_inv st'"
  by (auto simp: setAnnotationSchema_def map_sum_Inr queue_inv_def focus_ok_def first_focus_def dest: schema_length)

text \<open>Fields the invariant does not read.\<close>

lemma free_inv [simp]:
  "queue_inv (st\<lparr>qs_dataset := d\<rparr>) = queue_inv st" "queue_inv (st\<lparr>qs_ioState := io\<rparr>) = queue_inv st"
  "queue_inv (st\<lparr>qs_dialogOpen := b\<rparr>) = queue_inv st" "queue_inv (st\<lparr>qs_targetTab := t\<rparr>) = queue_inv st"
  "queue_inv (st\<lparr>qs_isTargetJsonValid := v\<rparr>) = queue_inv st" "queue_inv (st\<lparr>qs_results := rs\<rparr>) = queue_inv st"
  by (simp_all add: queue_inv_def)

lemma finish_inv: "queue_inv (finish r st) = queue_inv st"
  by (simp add: finish_def queue_inv_def)

lemma commit_inv:
  "queue_inv st \<Longrightarrow> queue_inv (fst (approveCurrent st))" "queue_inv st \<Longrightarrow> queue_inv (fst (unapproveCurrent st))"
  "queue_inv st \<Longrightarrow> queue_inv (fst (discardCurrent st))" "queue_inv st \<Longrightarrow> queue_inv (fst (pushCurrentToDataset b st))"
  "queue_inv st \<Longrightarrow> queue_inv (fst (pushAllToDataset b st))"
  using save_act_queue_inv [of st CancelAll]
  by (simp_all add: approveCurrent_def unapproveCurrent_def discardCurrent_def pushCurrentToDataset_def pushAllToDataset_def
      refuse_def start_commit_def cancel_saves_inv split: option.split)

lemma status_inv:
  assumes "queue_inv st" and "map_of (qs_loadedItems st) i = Some item"
  shows "queue_inv (st\<lparr>qs_loadedItems := AList.update i (item\<lparr>qi_status := n\<rparr>) (qs_loadedItems st)\<rparr>)"
proof (rule loaded_inv [OF assms(1)])
  have "qi_id item = i" using assms by (simp add: queue_inv_def items_ok_def)
  then show "items_ok (AList.update i (item\<lparr>qi_status := n\<rparr>) (qs_loadedItems st))"
    using assms(1) by (simp add: queue_inv_def items_ok_update)
  show "edits_ok (so_timers (qs_orchestrator st)) (AList.update i (item\<lparr>qi_status := n\<rparr>) (qs_loadedItems st))"
    using assms by (simp add: queue_inv_def edits_ok_status)
qed

lemma states_update_inv: "queue_inv st \<Longrightarrow> queue_inv (set_states (AList.update i s (qs_itemStates st)) st)"
  by (rule set_states_inv) (simp_all add: queue_inv_def distinct_update)

lemma approved_inv: "queue_inv st \<Longrightarrow> queue_inv (approved i st)"
proof -
  assume inv: "queue_inv st"
  have "queue_inv (set_states (AList.update i StateApproved (qs_itemStates st))
      (case map_of (qs_loadedItems st) i of None \<Rightarrow> st
       | Some existing \<Rightarrow> st\<lparr>qs_loadedItems := AList.update i (existing\<lparr>qi_status := 1\<rparr>) (qs_loadedItems st)\<rparr>))"
  proof (cases "map_of (qs_loadedItems st) i")
    case (Some item)
    from states_update_inv [OF status_inv [OF inv Some]] show ?thesis by (simp add: Some)
  qed (simp add: states_update_inv inv)
  then show ?thesis by (simp add: approved_def Let_def step_item_inv)
qed

lemma unapproved_inv: "queue_inv st \<Longrightarrow> queue_inv (unapproved jp i st)"
proof -
  assume inv: "queue_inv st"
  show ?thesis
  proof (cases "map_of (qs_loadedItems st) i")
    case (Some item)
    from states_update_inv [OF status_inv [OF inv Some]] show ?thesis by (simp add: Some unapproved_def Let_def)
  qed (simp add: unapproved_def inv)
qed

lemma queue_settle_inv: "queue_inv st \<Longrightarrow> queue_inv (fst (queue_settle jp st q r))"
  by (cases q; cases r) (simp_all add: finish_inv approved_inv unapproved_inv removeItemLocal_inv)

lemma queue_act_inv: "queue_inv st \<Longrightarrow> queue_inv (fst (queue_act jp st a))"
proof (cases a)
  case (SetCurrentIndex k)
  then show "queue_inv st \<Longrightarrow> ?thesis" by (simp add: setCurrentIndex_def move_to_inv clamp_ok)
next
  case (SetAnnotationSchema schema)
  then show "queue_inv st \<Longrightarrow> ?thesis" using schema_inv [of st jp schema] by (auto split: sum.split)
next
  case FlushPendingSaves
  then show "queue_inv st \<Longrightarrow> ?thesis"
    using save_act_queue_inv [of st "FlushAllPending (\<lambda>i. map_option qi_edit (map_of (qs_loadedItems st) i))"]
    by (simp add: flushPendingSaves_def)
next
  case (SaveTimerFires i)
  then show "queue_inv st \<Longrightarrow> ?thesis" using save_act_queue_inv [of st "TimerFires i"] by simp
next
  case (SaveSettled c)
  then show "queue_inv st \<Longrightarrow> ?thesis" using save_act_queue_inv [of st "SaveSettles c"] by simp
qed (simp_all add: hydrateIndex_inv hydrateWindow_inv step_item_inv setTarget_inv updateTargetField_inv revertCurrent_inv focusField_inv
    selectOption_inv commit_inv)

lemma fresh_inv: "queue_inv (fresh_queue schema (take 9 fs))"
  by (simp add: fresh_queue_def queue_inv_def focus_ok_def first_focus_def items_ok_def edits_ok_def
      index_ok_def create_inv computeProgress_def EMPTY_PROGRESS_def)

interpretation queue_states:
  flight_invariant "queue_act jp" "queue_settle jp" "fresh_queue schema (take 9 fs)" queue_inv
  by unfold_locales (simp_all add: fresh_inv queue_act_inv queue_settle_inv)

text \<open>A store that was created is such a fresh one.\<close>

lemma created_fresh: "createQueueStore jp schema = Inr st \<Longrightarrow> \<exists>fs. st = fresh_queue schema (take 9 fs)"
  by (auto simp: createQueueStore_def map_sum_Inr dest!: schema_length) (metis take_all)

section \<open>Properties\<close>

text \<open>
  Claim C5. Whatever happens in the queue, in any order: the current index is a position of the list of
  ids (0 if that is empty), at most nine fields are shown and the focus is on one of them; no item or state
  is kept twice and items are kept under their ids; the progress is the count of the states, its total their
  number; and an edit that waits to be saved is the edit shown for its item.
\<close>

theorem queue_state_wellformed:
  assumes "createQueueStore jp schema = Inr s0" and "flight (queue_act jp) (queue_settle jp) s0 (st, inflight)"
  shows "0 \<le> qs_currentIndex st \<and> (qs_idsList st = [] \<longrightarrow> qs_currentIndex st = 0) \<and>
    (qs_idsList st \<noteq> [] \<longrightarrow> qs_currentIndex st < int (length (qs_idsList st))) \<and>
    length (qs_fields st) \<le> 9 \<and> (qs_fields st \<noteq> [] \<longrightarrow> itemAt (qs_fields st) (qs_focusedFieldIndex st) \<noteq> None) \<and>
    distinct (map fst (qs_loadedItems st)) \<and> (\<forall>i item. map_of (qs_loadedItems st) i = Some item \<longrightarrow> qi_id item = i) \<and>
    distinct (map fst (qs_itemStates st)) \<and>
    qs_progress st = \<lparr>qp_total = length (qs_itemStates st), qp_new = count_list (map snd (qs_itemStates st)) StateNew,
      qp_modified = count_list (map snd (qs_itemStates st)) StateModified,
      qp_approved = count_list (map snd (qs_itemStates st)) StateApproved\<rparr> \<and>
    (\<forall>i e item. map_of (so_timers (qs_orchestrator st)) i = Some e \<longrightarrow> map_of (qs_loadedItems st) i = Some item \<longrightarrow> qi_edit item = e)"
proof -
  from created_fresh [OF assms(1)] obtain fs where "s0 = fresh_queue schema (take 9 fs)" by blast
  with queue_states.flight_inv assms(2) have "queue_inv st" by fastforce
  then show ?thesis
    by (auto simp: queue_inv_def items_ok_def index_ok_def focus_ok_def edits_ok_def itemAt_def progress_counts)
qed

definition demo_json :: json_platform where
  "demo_json = \<lparr>jp_parse = (\<lambda>_. Some JNull), jp_stringify = (\<lambda>_. ''null''), jp_string = (\<lambda>_. []), jp_number = (\<lambda>_. None), jp_equal = isEqual\<rparr>"

lemma queue_state_wellformed_witness:
  "createQueueStore demo_json None = Inr (fresh_queue None []) \<and>
   qs_currentIndex (setCurrentIndex 7 (fresh_queue None [])) = 0"
proof -
  have c: "createQueueStore demo_json None = Inr (fresh_queue None [])" by (simp add: createQueueStore_def parseAnnotationSchema_def)
  have "flight (queue_act demo_json) (queue_settle demo_json) (fresh_queue None []) (setCurrentIndex 7 (fresh_queue None []), [] @ [])"
    by (rule flight_act [OF flight_init, where e = "SetCurrentIndex 7"]) simp
  then have "flight (queue_act demo_json) (queue_settle demo_json) (fresh_queue None []) (setCurrentIndex 7 (fresh_queue None []), [])" by simp
  from queue_state_wellformed [OF c this] have "qs_idsList (setCurrentIndex 7 (fresh_queue None [])) = [] \<longrightarrow>
      qs_currentIndex (setCurrentIndex 7 (fresh_queue None [])) = 0" by (elim conjE)
  moreover have "qs_idsList (setCurrentIndex 7 (fresh_queue None [])) = []"
    by (simp add: setCurrentIndex_def move_to_def fresh_queue_def)
  ultimately show ?thesis using c by blast
qed

subsection \<open>The window\<close>

lemma window_eq:
  assumes "0 \<le> k"
  shows "computeWindowIds ids k = take (nat (min (int (length ids)) (k + 3)) - nat (max 0 (k - 2))) (drop (nat (max 0 (k - 2))) ids)"
proof -
  let ?a = "max 0 (k - 2)" and ?b = "min (int (length ids)) (k + 3)"
  have w: "computeWindowIds ids k = (if ids = [] then [] else js_slice ids ?a ?b)"
    by (simp add: computeWindowIds_def WINDOW_RADIUS_def add.assoc)
  have b: "slice_position (length ids) ?b = nat ?b" using assms by (auto simp: slice_position_def min_def)
  have a: "slice_position (length ids) ?a = min (nat ?a) (length ids)" by (simp add: slice_position_def)
  show ?thesis
  proof (cases "nat ?a \<le> length ids")
    case True
    then show ?thesis unfolding w js_slice_def a b by (simp add: min_absorb1)
  next
    case False
    then show ?thesis unfolding w js_slice_def a b by simp
  qed
qed

lemma nth_in_segment:
  assumes "a \<le> m" and "m < b" and "b \<le> length xs"
  shows "xs ! m \<in> set (take (b - a) (drop a xs))"
proof -
  have "take (b - a) (drop a xs) ! (m - a) = xs ! m" "m - a < length (take (b - a) (drop a xs))" using assms by auto
  then show ?thesis by (metis nth_mem)
qed

lemma window_length: "0 \<le> k \<Longrightarrow> length (computeWindowIds ids k) \<le> 5"
  by (simp add: window_eq min_def max_def) linarith

lemma window_centre:
  assumes "0 \<le> k" and "k < int (length ids)"
  shows "ids ! nat k \<in> set (computeWindowIds ids k)"
proof -
  let ?a = "nat (max 0 (k - 2))" and ?b = "nat (min (int (length ids)) (k + 3))"
  have "?a \<le> nat k" "nat k < ?b" "?b \<le> length ids" using assms by linarith+
  then show ?thesis unfolding window_eq [OF assms(1)] by (rule nth_in_segment)
qed

lemma map_of_filter_keys: "map_of (filter (\<lambda>(i, x). P i) m) i = (if P i then map_of m i else None)"
  by (induction m) auto

text \<open>
  After moving to an item, memory holds the window around it and the items with unsaved edits,
  nothing else: besides those at most five items are loaded. No item with an unsaved edit is evicted. The
  current id is in the window, and what the loader will ask for is exactly what the window lacks.
\<close>

lemma window_bounded:
  assumes "queue_inv st" and "st' = setCurrentIndex k st"
  shows "index_ok (qs_idsList st') (qs_currentIndex st') \<and>
    (\<forall>i. map_of (qs_loadedItems st') i = (if i \<in> set (getWindowIds (qs_currentIndex st') st') \<or> hasPending (qs_orchestrator st) i
       then map_of (qs_loadedItems st) i else None)) \<and>
    length (filter (\<lambda>(i, item). \<not> hasPending (qs_orchestrator st) i) (qs_loadedItems st')) \<le> 5 \<and>
    (qs_idsList st \<noteq> [] \<longrightarrow> (\<exists>i. itemAt (qs_idsList st') (qs_currentIndex st') = Some i \<and> i \<in> set (getWindowIds (qs_currentIndex st') st'))) \<and>
    set (getMissingWindowIds (qs_currentIndex st') st') = set (getWindowIds (qs_currentIndex st') st') - dom (map_of (qs_loadedItems st'))"
proof -
  let ?ids = "qs_idsList st" and ?k = "clampIndex (qs_idsList st) k" and ?p = "hasPending (qs_orchestrator st)"
  let ?w = "computeWindowIds ?ids ?k"
  have st': "qs_idsList st' = ?ids" "qs_currentIndex st' = ?k"
    "qs_loadedItems st' = filter (\<lambda>(i, item). i \<in> set ?w \<or> ?p i) (qs_loadedItems st)"
    by (simp_all add: assms(2) setCurrentIndex_def move_to_def evictOutsideWindow_def)
  have k: "0 \<le> ?k" by (simp add: clampIndex_def)
  have a: "index_ok (qs_idsList st') (qs_currentIndex st')" by (simp add: st' clamp_ok)
  have b: "\<forall>i. map_of (qs_loadedItems st') i = (if i \<in> set (getWindowIds (qs_currentIndex st') st') \<or> ?p i
      then map_of (qs_loadedItems st) i else None)" by (simp add: st' getWindowIds_def map_of_filter_keys)
  let ?rest = "filter (\<lambda>(i, item). \<not> ?p i) (qs_loadedItems st')"
  have "distinct (map fst ?rest)" using assms(1) by (simp add: st' queue_inv_def items_ok_def distinct_map_filter)
  then have "length ?rest = card (fst ` set ?rest)" by (metis distinct_card length_map set_map)
  also have "\<dots> \<le> card (set ?w)" by (rule card_mono) (auto simp: st')
  also have "\<dots> \<le> length ?w" by (rule card_length)
  finally have c: "length ?rest \<le> 5" using window_length [OF k, of ?ids] by simp
  have d: "?ids \<noteq> [] \<longrightarrow> (\<exists>i. itemAt (qs_idsList st') (qs_currentIndex st') = Some i \<and> i \<in> set (getWindowIds (qs_currentIndex st') st'))"
  proof
    assume "?ids \<noteq> []"
    then have lt: "?k < int (length ?ids)" by (cases ?ids) (auto simp: clampIndex_def)
    then show "\<exists>i. itemAt (qs_idsList st') (qs_currentIndex st') = Some i \<and> i \<in> set (getWindowIds (qs_currentIndex st') st')"
      using window_centre [OF k lt] k by (simp add: st' getWindowIds_def itemAt_def)
  qed
  have e: "set (getMissingWindowIds (qs_currentIndex st') st') = set (getWindowIds (qs_currentIndex st') st') - dom (map_of (qs_loadedItems st'))"
    by (auto simp: getMissingWindowIds_def getWindowIds_def dom_def)
  show ?thesis by (intro conjI a b c d e)
qed

definition demo_item :: queue_item where
  "demo_item = \<lparr>qi_id = ''i'', qi_queueId = ''q'', qi_projectId = ''p'', qi_data = JNull, qi_target = None, qi_payloadMetadata = None,
     qi_edit = ''null'', qi_metadata = JNull, qi_status = 0, qi_createdAt = [], qi_updatedAt = []\<rparr>"

definition demo_queue :: queue_store where
  "demo_queue = hydrateWindow demo_json [demo_item] (hydrateIndex [(''i'', StateNew), (''j'', StateNew)] (fresh_queue None []))"

lemma demo_queue_inv: "queue_inv demo_queue"
  using fresh_inv [of None "[]"] by (simp add: demo_queue_def hydrateWindow_inv hydrateIndex_inv)

lemma window_bounded_witness: "qs_currentIndex (setCurrentIndex 9 demo_queue) \<le> max (int (length (qs_idsList (setCurrentIndex 9 demo_queue))) - 1) 0"
  using window_bounded [OF demo_queue_inv refl, of 9] by (simp add: index_ok_def)

subsection \<open>Removing an item\<close>

lemma index_of_first: "x \<in> set xs \<Longrightarrow> index_of x xs < length xs \<and> xs ! index_of x xs = x"
  unfolding index_of_def
proof (induction xs)
  case (Cons a xs)
  then show ?case by (cases "a = x") auto
qed simp

lemma without_middle:
  "distinct xs \<Longrightarrow> xs = us @ x # vs \<Longrightarrow> set (us @ vs) = set xs - {x} \<and> length (us @ vs) = length xs - 1"
  by auto

lemma removed_at:
  assumes "distinct xs" and "x \<in> set xs"
  shows "set (take (index_of x xs) xs @ drop (index_of x xs + 1) xs) = set xs - {x}"
    and "length (take (index_of x xs) xs @ drop (index_of x xs + 1) xs) = length xs - 1"
proof -
  from index_of_first [OF assms(2)] have "xs = take (index_of x xs) xs @ x # drop (index_of x xs + 1) xs"
    by (metis Suc_eq_plus1 id_take_nth_drop)
  from without_middle [OF assms(1) this] show "set (take (index_of x xs) xs @ drop (index_of x xs + 1) xs) = set xs - {x}"
    "length (take (index_of x xs) xs @ drop (index_of x xs + 1) xs) = length xs - 1" by blast+
qed

lemma removed_nth:
  assumes "j < length xs - 1" and "d < length xs"
  shows "(take d xs @ drop (d + 1) xs) ! j = (if j < d then xs ! j else xs ! (j + 1))"
  using assms by (auto simp: nth_append min_def)

text \<open>
  Removing an item keeps the place: it disappears from the list, the memory and the states and
  nothing else does; if another item is shown it stays the one shown; if the removed one was, the next one is
  shown, or the one before it at the end of the list.
\<close>
lemma removal_keeps_place:
  assumes "distinct (qs_idsList st)" and "i \<in> set (qs_idsList st)"
    and "itemAt (qs_idsList st) (qs_currentIndex st) = Some c" and "st' = removeItemLocal i st"
  shows "set (qs_idsList st') = set (qs_idsList st) - {i} \<and>
    map_of (qs_loadedItems st') = (map_of (qs_loadedItems st))(i := None) \<and>
    map_of (qs_itemStates st') = (map_of (qs_itemStates st))(i := None) \<and>
    itemAt (qs_idsList st') (qs_currentIndex st') =
      (if i \<noteq> c then Some c
       else case itemAt (qs_idsList st) (qs_currentIndex st + 1) of
              Some n \<Rightarrow> Some n | None \<Rightarrow> itemAt (qs_idsList st) (qs_currentIndex st - 1))"
proof -
  let ?ids = "qs_idsList st" and ?k = "qs_currentIndex st"
  define d where "d = index_of i ?ids"
  define ids' where "ids' = take d ?ids @ drop (d + 1) ?ids"
  define k' where "k' = (if int d < ?k then ?k - 1 else ?k)"
  have d: "d < length ?ids" "?ids ! d = i" using index_of_first [OF assms(2)] by (simp_all add: d_def)
  have k: "0 \<le> ?k" "nat ?k < length ?ids" "?ids ! nat ?k = c" using assms(3) by (auto simp: itemAt_def split: if_splits)
  have len: "length ids' = length ?ids - 1" and set': "set ids' = set ?ids - {i}"
    using removed_at [OF assms(1,2)] by (simp_all add: ids'_def d_def)
  have st': "qs_idsList st' = ids'" "qs_currentIndex st' = clampIndex ids' k'"
    "map_of (qs_loadedItems st') = (map_of (qs_loadedItems st))(i := None)"
    "map_of (qs_itemStates st') = (map_of (qs_itemStates st))(i := None)"
    using assms(2) by (simp_all add: assms(4) removeItemLocal_def Let_def set_states_def d_def ids'_def k'_def delete_conv')
  have nth: "ids' ! j = (if j < d then ?ids ! j else ?ids ! (j + 1))" if "j < length ?ids - 1" for j
    using removed_nth [OF that d(1)] by (simp add: ids'_def)
  have "itemAt ids' (clampIndex ids' k') =
      (if i \<noteq> c then Some c else case itemAt ?ids (?k + 1) of Some n \<Rightarrow> Some n | None \<Rightarrow> itemAt ?ids (?k - 1))"
  proof (cases "i = c")
    case False
    then have dk: "d \<noteq> nat ?k" using d k by auto
    show ?thesis
    proof (cases "int d < ?k")
      case True
      then have "clampIndex ids' k' = ?k - 1" using k d len by (auto simp: clampIndex_def k'_def)
      moreover have "ids' ! nat (?k - 1) = c" using nth [of "nat (?k - 1)"] True k d
        by (auto simp: nat_diff_distrib' Suc_nat_eq_nat_zadd1)
      ultimately show ?thesis using True False k d len by (auto simp: itemAt_def)
    next
      case False': False
      then have lt: "nat ?k < d" using dk k by linarith
      then have "clampIndex ids' k' = ?k" using k d len by (auto simp: clampIndex_def k'_def)
      moreover have "ids' ! nat ?k = c" using nth [of "nat ?k"] lt k d by auto
      ultimately show ?thesis using False lt k d len by (auto simp: itemAt_def)
    qed
  next
    case True
    then have dk: "d = nat ?k" using d k assms(1) nth_eq_iff_index_eq by metis
    show ?thesis
    proof (cases "d + 1 < length ?ids")
      case True': True
      then have "clampIndex ids' k' = ?k" using k dk len by (auto simp: clampIndex_def k'_def)
      moreover have "ids' ! nat ?k = ?ids ! (d + 1)" using nth [of "nat ?k"] True' dk by auto
      moreover have "nat (?k + 1) = d + 1" using dk k by auto
      ultimately show ?thesis using True True' k dk len by (auto simp: itemAt_def)
    next
      case False
      then have last: "d + 1 = length ?ids" using d by simp
      then have "clampIndex ids' k' = max (?k - 1) 0" using k dk len by (auto simp: clampIndex_def k'_def)
      then show ?thesis using True last k dk len nth [of "nat (?k - 1)"]
        by (auto simp: itemAt_def max_def nat_less_iff)
    qed
  qed
  then show ?thesis using st' set' by simp
qed

lemma removal_keeps_place_witness:
  "itemAt (qs_idsList (removeItemLocal ''i'' demo_queue)) (qs_currentIndex (removeItemLocal ''i'' demo_queue)) = Some ''j''"
proof -
  have "qs_idsList demo_queue = [''i'', ''j'']" "qs_currentIndex demo_queue = 0"
    by (simp_all add: demo_queue_def hydrateWindow_def hydrateIndex_def fresh_queue_def set_states_def clampIndex_def Let_def
        split: prod.split)
  then show ?thesis using removal_keeps_place [of demo_queue "''i''" "''i''", OF _ _ _ refl] by (simp add: itemAt_def)
qed

subsection \<open>Editing\<close>

lemma put_item_sel:
  assumes "qi_id item \<in> set (qs_idsList st)"
  shows "qs_idsList (put_item jp item st) = qs_idsList st" "qs_currentIndex (put_item jp item st) = qs_currentIndex st"
    "qs_loadedItems (put_item jp item st) = AList.update (qi_id item) item (qs_loadedItems st)"
    "map_of (qs_itemStates (put_item jp item st)) = (map_of (qs_itemStates st))(qi_id item \<mapsto> deriveItemState (jp_parse jp) (jp_equal jp) item)"
    "qs_orchestrator (put_item jp item st) = schedule (qi_id item) (qi_edit item) (qs_orchestrator st)"
  using assms by (auto simp: put_item_def scheduleSaveFor_def setItemState_def replaceItem_def set_states_def update_conv')

lemma current_id: "queue_inv st \<Longrightarrow> getCurrentItem st = Some item \<Longrightarrow>
    itemAt (qs_idsList st) (qs_currentIndex st) = Some (qi_id item) \<and> qi_id item \<noteq> []"
  by (auto simp: getCurrentItem_def queue_inv_def items_ok_def split: option.splits if_splits)

lemma put_current:
  assumes "queue_inv st" and "getCurrentItem st = Some current" and "qi_id item = qi_id current"
  shows "getCurrentItem (put_item jp item st) = Some item"
proof -
  have "qi_id item \<in> set (qs_idsList st)" using current_in_ids [OF assms(1,2)] assms(3) by simp
  note p = put_item_sel [OF this, of jp]
  show ?thesis unfolding getCurrentItem_def p(1,2)
    using current_id [OF assms(1,2)] assms(3) by (simp add: p(3) update_conv)
qed

lemma target_of_edit:
  "jp_parse jp (qi_edit item) = Some v \<Longrightarrow> qi_edit item \<noteq> [] \<Longrightarrow> v \<noteq> JNull \<Longrightarrow> getEffectiveTarget (jp_parse jp) (Some item) = v"
  by (cases v) (simp_all add: getEffectiveTarget_def tryParseJson_def nullish_def)

text \<open>
  Claim C19. Writing a field of the current item: its target then has that value under that key and every
  other key as before; the item is no longer approved, nothing else of it changes; its state says whether
  the new target differs from the original one; no other item is touched; and the save that is now waiting
  for the item carries exactly the new target. (\<open>JSON.parse\<close> reads back what \<open>JSON.stringify\<close> wrote.)
\<close>

theorem field_edit:
  assumes "queue_inv st" and "getCurrentItem st = Some current"
    and "v = set_key key x (getTarget jp st)" and "jp_parse jp (jp_stringify jp v) = Some v" and "jp_stringify jp v \<noteq> []"
    and "st' = updateTargetField jp key x st"
  shows "getTarget jp st' = v \<and> property_get v key = Some x \<and>
    (\<forall>k. k \<noteq> key \<longrightarrow> property_get v k = map_of (spread (getTarget jp st)) k) \<and>
    (\<exists>n. n \<noteq> 1 \<and> getCurrentItem st' = Some (current\<lparr>qi_edit := jp_stringify jp v, qi_status := n\<rparr>)) \<and>
    map_of (qs_itemStates st') (qi_id current) =
      Some (if jp_equal jp v (nullish (qi_target current) JNull) then StateNew else StateModified) \<and>
    (\<forall>i. i \<noteq> qi_id current \<longrightarrow> map_of (qs_loadedItems st') i = map_of (qs_loadedItems st) i \<and>
       map_of (qs_itemStates st') i = map_of (qs_itemStates st) i) \<and>
    map_of (so_timers (qs_orchestrator st')) (qi_id current) = Some (jp_stringify jp v)"
proof -
  let ?t = "getEffectiveTarget (jp_parse jp) (Some current)"
  have old: "getTarget jp st = ?t" by (simp add: getTarget_def assms(2))
  have nn: "?t \<noteq> JNull" by (auto simp: getEffectiveTarget_def nullish_def split: json.splits option.splits)
  then have "nullish (Some ?t) (JObj []) = ?t" by (simp add: nullish_def split: json.split)
  define item where "item = unapproveLocal (current\<lparr>qi_edit := jp_stringify jp v\<rparr>)"
  have st': "st' = put_item jp item st"
    using assms(2) \<open>nullish (Some ?t) (JObj []) = ?t\<close>
    by (simp add: assms(6) updateTargetField_def Let_def item_def assms(3) old)
  have item: "qi_id item = qi_id current" "qi_edit item = jp_stringify jp v" "qi_status item \<noteq> Suc 0" "qi_target item = qi_target current"
    by (simp_all add: item_def)
  have "qi_id item \<in> set (qs_idsList st)" using current_in_ids [OF assms(1,2)] by (simp add: item(1))
  note p = put_item_sel [OF this, of jp, folded st', unfolded item(1)]
  have c: "getCurrentItem st' = Some item" unfolding st' by (rule put_current [OF assms(1,2) item(1)])
  have obj: "v \<noteq> JNull" by (simp add: assms(3) set_key_def)
  have target: "getTarget jp st' = v"
    using target_of_edit [of jp item v] assms(4,5) obj by (simp add: getTarget_def c item(2))
  have keys: "property_get v key = Some x" "\<forall>k. k \<noteq> key \<longrightarrow> property_get v k = map_of (spread (getTarget jp st)) k"
    by (simp_all add: assms(3) set_key_def property_get_def update_conv)
  have "\<exists>n. n \<noteq> 1 \<and> item = current\<lparr>qi_edit := jp_stringify jp v, qi_status := n\<rparr>"
  proof (cases "qi_status current = 1")
    case True
    then show ?thesis by (intro exI [of _ 0]) (simp add: item_def unapproveLocal_def)
  next
    case False
    then show ?thesis by (intro exI [of _ "qi_status current"]) (simp add: item_def unapproveLocal_def)
  qed
  with c have cur: "\<exists>n. n \<noteq> 1 \<and> getCurrentItem st' = Some (current\<lparr>qi_edit := jp_stringify jp v, qi_status := n\<rparr>)" by simp
  have dirty: "isDirty (jp_parse jp) (jp_equal jp) item \<longleftrightarrow> \<not> jp_equal jp v (nullish (qi_target current) JNull)"
    using assms(4,5) by (simp add: isDirty_def item tryParseJson_def)
  have state: "map_of (qs_itemStates st') (qi_id current) =
      Some (if jp_equal jp v (nullish (qi_target current) JNull) then StateNew else StateModified)"
    by (simp add: p(4) deriveItemState_def item(3) dirty)
  have others: "\<forall>i. i \<noteq> qi_id current \<longrightarrow> map_of (qs_loadedItems st') i = map_of (qs_loadedItems st) i \<and>
       map_of (qs_itemStates st') i = map_of (qs_itemStates st) i"
    by (simp add: p(3,4) update_conv)
  have timer: "map_of (so_timers (qs_orchestrator st')) (qi_id current) = Some (jp_stringify jp v)"
    by (simp add: p(5) schedule_def item(2) update_conv)
  show ?thesis by (intro conjI target keys cur state others timer)
qed

text \<open>
  Claim C32. Reverting an edited item restores its original target: the item is no longer dirty, its
  state is new, the save that is now waiting carries the original target (\<open>null\<close> if it never had one), and
  no earlier save of the item is live, so that none can undo the revert. (\<open>isEqual\<close> holds of a value and itself, and \<open>JSON.parse\<close> reads back what \<open>JSON.stringify\<close> wrote.)
\<close>

theorem revert_restores:
  assumes "queue_inv st" and "getCurrentItem st = Some current" and "isDirty (jp_parse jp) (jp_equal jp) current"
    and "v = nullish (qi_target current) JNull" and "jp_equal jp v v"
    and "jp_parse jp (jp_stringify jp v) = Some v" and "jp_stringify jp v \<noteq> []" and "st' = revertCurrent jp st"
  shows "getCurrentItem st' = Some (current\<lparr>qi_edit := jp_stringify jp v, qi_status := 0\<rparr>) \<and>
    \<not> isDirty (jp_parse jp) (jp_equal jp) (current\<lparr>qi_edit := jp_stringify jp v, qi_status := 0\<rparr>) \<and>
    map_of (qs_itemStates st') (qi_id current) = Some StateNew \<and>
    getTarget jp st' = nullish (qi_target current) (JObj []) \<and>
    map_of (so_timers (qs_orchestrator st')) (qi_id current) = Some (jp_stringify jp v) \<and>
    (\<forall>s\<in>live (qs_orchestrator st'). sa_item s \<noteq> qi_id current)"
proof -
  define item where "item = current\<lparr>qi_edit := jp_stringify jp v, qi_status := 0\<rparr>"
  let ?st = "cancel_saves (qi_id current) st"
  have inv: "queue_inv ?st" using assms(1) by (rule cancel_saves_inv)
  have cur: "getCurrentItem ?st = Some current" using assms(2) by simp
  have st': "st' = put_item jp item ?st"
    using assms(2,3) by (simp add: assms(8) revertCurrent_def item_def assms(4))
  have item: "qi_id item = qi_id current" "qi_edit item = jp_stringify jp v" "qi_target item = qi_target current" "qi_status item = 0"
    by (simp_all add: item_def)
  have "qi_id item \<in> set (qs_idsList ?st)" using current_in_ids [OF inv cur] by (simp add: item(1))
  note p = put_item_sel [OF this, of jp, folded st', unfolded item(1)]
  have c: "getCurrentItem st' = Some item" unfolding st' by (rule put_current [OF inv cur item(1)])
  have clean: "\<not> isDirty (jp_parse jp) (jp_equal jp) item"
    using assms(5,6,7) by (simp add: isDirty_def item tryParseJson_def assms(4) [symmetric])
  have state: "map_of (qs_itemStates st') (qi_id current) = Some StateNew"
    by (simp add: p(4) deriveItemState_def item(4) clean)
  have target: "getTarget jp st' = nullish (qi_target current) (JObj [])"
  proof (cases "v = JNull")
    case True
    then have "nullish (qi_target current) (JObj []) = JObj []"
      by (auto simp: assms(4) nullish_def split: option.splits json.splits)
    then show ?thesis using True assms(6,7) by (simp add: getTarget_def c getEffectiveTarget_def item tryParseJson_def nullish_def)
  next
    case False
    then have "nullish (qi_target current) (JObj []) = v"
      by (auto simp: assms(4) nullish_def split: option.splits json.splits)
    then show ?thesis using target_of_edit [of jp item v] assms(6,7) False by (simp add: getTarget_def c item(2))
  qed
  have timer: "map_of (so_timers (qs_orchestrator st')) (qi_id current) = Some (jp_stringify jp v)"
    by (simp add: p(5) schedule_def item(2) update_conv)
  have "live (qs_orchestrator st') = live (cancel (qi_id current) (qs_orchestrator st))"
    by (simp add: p(5) schedule_def live_def cancel_saves_def)
  then have silent: "\<forall>s\<in>live (qs_orchestrator st'). sa_item s \<noteq> qi_id current"
    using live_cancel [of "qs_orchestrator st"] assms(1) by (simp add: queue_inv_def)
  show ?thesis using c clean state target timer silent by (simp add: item_def)
qed

definition demo_field :: json where
  "demo_field = JObj [(''k'', JBool True)]"

definition demo_json1 :: json_platform where
  "demo_json1 = demo_json\<lparr>jp_parse := (\<lambda>t. if t = ''null'' then Some JNull else Some demo_field),
     jp_stringify := (\<lambda>v. if v = JNull then ''null'' else ''{k}'')\<rparr>"

lemma demo_current: "getCurrentItem demo_queue = Some demo_item"
  by (simp add: demo_queue_def hydrateWindow_def hydrateIndex_def fresh_queue_def set_states_def clampIndex_def Let_def
      window_step_simp demo_item_def hasPending_def createSaveOrchestrator_def evictOutsideWindow_def getCurrentItem_def itemAt_def
      index_states_def split: prod.split)

lemma field_edit_witness: "getTarget demo_json1 (updateTargetField demo_json1 ''k'' (JBool True) demo_queue) = demo_field"
proof -
  have "demo_field = set_key ''k'' (JBool True) (getTarget demo_json1 demo_queue)"
    by (simp add: getTarget_def demo_current getEffectiveTarget_def demo_item_def demo_json1_def tryParseJson_def nullish_def
        set_key_def spread_def demo_field_def)
  from field_edit [OF demo_queue_inv demo_current this _ _ refl] show ?thesis by (simp add: demo_json1_def demo_field_def)
qed

definition demo_edited :: queue_store where
  "demo_edited = updateTargetField demo_json1 ''k'' (JBool True) demo_queue"

lemma revert_restores_witness: "map_of (qs_itemStates (revertCurrent demo_json1 demo_edited)) ''i'' = Some StateNew"
proof -
  let ?current = "demo_item\<lparr>qi_edit := ''{k}''\<rparr>"
  have c: "getCurrentItem demo_edited = Some ?current"
  proof -
    have "demo_edited = put_item demo_json1 ?current demo_queue"
      by (simp add: demo_edited_def updateTargetField_def demo_current unapproveLocal_def Let_def set_key_def demo_json1_def)
        (simp add: demo_item_def)
    moreover have "getCurrentItem (put_item demo_json1 ?current demo_queue) = Some ?current"
      by (rule put_current [OF demo_queue_inv demo_current]) simp
    ultimately show ?thesis by (simp only:)
  qed
  have "queue_inv demo_edited" unfolding demo_edited_def by (rule updateTargetField_inv [OF demo_queue_inv])
  moreover have "isDirty (jp_parse demo_json1) (jp_equal demo_json1) ?current"
    by (simp add: isDirty_def demo_json1_def demo_json_def tryParseJson_def demo_item_def nullish_def demo_field_def)
  ultimately show ?thesis
    using revert_restores [OF _ c _ _ _ _ _ refl, of demo_json1 JNull] by (simp add: demo_item_def nullish_def demo_json1_def demo_json_def)
qed

subsection \<open>One commit at a time\<close>

text \<open>
  What the page does with the store: it starts \<open>pushAllToDataset\<close>, the one committing operation that does
  not look at \<open>ioState\<close>, only from a button that is disabled while the store is busy
  (\<open>push-to-dataset-dialog.tsx\<close>), and never calls \<open>setIoState\<close>.
\<close>

definition page_act :: "json_platform \<Rightarrow> queue_store \<Rightarrow> queue_action \<Rightarrow> queue_store \<times> queue_request list" where
  "page_act jp st a =
     (case a of
        PushAllToDataset b \<Rightarrow> if busy st then (st, []) else queue_act jp st a
      | SetIoState io \<Rightarrow> (st, [])
      | _ \<Rightarrow> queue_act jp st a)"

lemma busy_simps [simp]:
  "busy (set_states ss st) = busy st" "busy (cancel_saves i st) = busy st" "busy (scheduleSaveFor item st) = busy st"
  "busy (replaceItem item st) = busy st" "busy (setItemState i s st) = busy st" "busy (put_item jp item st) = busy st"
  "busy (move_to k st) = busy st" "busy (step_item d st) = busy st" "busy (removeItemLocal i st) = busy st"
  "busy (qs_loadedItems_update f st) = busy st" "busy (qs_orchestrator_update g st) = busy st"
  "busy (qs_results_update h st) = busy st" "busy (qs_dataset_update d' st) = busy st" "busy (qs_dialogOpen_update b' st) = busy st"
  "busy (qs_targetTab_update t' st) = busy st" "busy (qs_isTargetJsonValid_update v' st) = busy st" "\<not> busy (finish r st)"
  by (simp_all add: busy_def set_states_def cancel_saves_def scheduleSaveFor_def replaceItem_def setItemState_def put_item_def
      move_to_def step_item_def removeItemLocal_def finish_def Let_def)

lemma busy_field [simp]: "busy (updateTargetField jp k v st) = busy st"
  by (simp add: updateTargetField_def Let_def split: option.split)

lemma busy_local:
  "busy (hydrateIndex rows st) = busy st" "busy (hydrateWindow jp items st) = busy st" "busy (setCurrentIndex k st) = busy st"
  "busy (setTarget jp t st) = busy st" "busy (revertCurrent jp st) = busy st" "busy (focusField d st) = busy st"
  "busy (selectOptionInFocusedField jp n st) = busy st" "busy (flushPendingSaves st) = busy st"
  "setAnnotationSchema jp schema st = Inr st' \<Longrightarrow> busy st' = busy st"
  by (auto simp: hydrateIndex_def hydrateWindow_def setCurrentIndex_def setTarget_def revertCurrent_def focusField_def
      selectOptionInFocusedField_def flushPendingSaves_def setAnnotationSchema_def map_sum_Inr busy_def [of "qs_idsList_update _ _"] Let_def
      split: option.split prod.split field_type.split field_options.split)
    (auto simp: busy_def)

definition starts_commit :: "queue_store \<Rightarrow> queue_store \<times> queue_request list \<Rightarrow> bool" where
  "starts_commit st res \<longleftrightarrow> (snd res = [] \<and> busy (fst res) = busy st) \<or> (\<not> busy st \<and> (\<exists>q. snd res = [q]) \<and> busy (fst res))"

lemma commits:
  "starts_commit st (approveCurrent st)" "starts_commit st (unapproveCurrent st)" "starts_commit st (discardCurrent st)"
  "starts_commit st (pushCurrentToDataset b st)" "\<not> busy st \<Longrightarrow> starts_commit st (pushAllToDataset b st)"
  by (auto simp: starts_commit_def approveCurrent_def unapproveCurrent_def discardCurrent_def pushCurrentToDataset_def
      pushAllToDataset_def refuse_def start_commit_def busy_def [of "qs_ioState_update _ _"] split: option.split)

lemma page_act_commit: "starts_commit st (page_act jp st a)"
proof (cases a)
  case (SetAnnotationSchema schema)
  then show ?thesis by (auto simp: page_act_def starts_commit_def busy_local split: sum.split)
next
  case (PushAllToDataset b)
  then show ?thesis using commits(5) [of st b] by (simp add: page_act_def) (simp add: starts_commit_def)
qed (simp_all add: page_act_def commits, simp_all add: starts_commit_def busy_local)

lemma settle_commit:
  "queue_settle jp st q r = (st', qs) \<Longrightarrow> busy st \<Longrightarrow>
     (qs = [] \<and> \<not> busy st' \<and> length (qs_results st') = length (qs_results st) + 1) \<or>
     (\<exists>ok e. qs = [Revalidate ok e] \<and> busy st' \<and> qs_results st' = qs_results st \<and> (\<nexists>ok e. q = Revalidate ok e))"
proof -
  have len: "qs_results (finish x s) = qs_results s @ [x]" for x s by (simp add: finish_def)
  have keep: "qs_results (approved i st) = qs_results st" "qs_results (unapproved jp i st) = qs_results st"
    "qs_results (removeItemLocal i st) = qs_results st" for i
    by (simp_all add: approved_def unapproved_def removeItemLocal_def step_item_def move_to_def set_states_def Let_def split: option.split)
  show "queue_settle jp st q r = (st', qs) \<Longrightarrow> busy st \<Longrightarrow> ?thesis"
    by (cases q; cases r) (auto simp: len keep split: if_splits)
qed

interpretation queue_commits:
  single_flight "page_act jp" "queue_settle jp" "fresh_queue schema fs" "\<lambda>st (u :: unit). busy st" "\<lambda>q. ()"
proof
  show "\<not> busy (fresh_queue schema fs)" by (simp add: busy_def fresh_queue_def)
  show "distinct (map (\<lambda>q. ()) qs) \<and> (\<forall>k. busy s' \<longleftrightarrow> busy s \<or> k \<in> (\<lambda>q. ()) ` set qs) \<and> (\<forall>q\<in>set qs. \<not> busy s)"
    if "page_act jp s e = (s', qs)" for s s' e qs
    using page_act_commit [of s jp e] that by (auto simp: starts_commit_def)
  show "distinct (map (\<lambda>q. ()) qs) \<and> (\<lambda>q. ()) ` set qs \<subseteq> {()} \<and> (\<forall>k. busy s' \<longleftrightarrow> (if k = () then qs \<noteq> [] else busy s))"
    if "queue_settle jp s q r = (s', qs)" "busy s" for s s' q r qs
    using settle_commit [OF that] by auto
qed

text \<open>
  Claim C21. The page commits one write at a time: at most one of approve, unapprove, discard and the
  pushes is under way, exactly while \<open>ioState\<close> says so; starting another one is refused. A response
  either ends the operation with exactly one result and frees the store, whatever it was, or is followed by
  one wait for the index, whose end does so. The actions are those the page offers: that all items are not pushed while
  another operation is under way is a guard of the push dialog, not of the store.
\<close>

theorem one_commit_at_a_time:
  assumes "createQueueStore jp schema = Inr s0" and "flight (page_act jp) (queue_settle jp) s0 (st, inflight)"
  shows "length inflight \<le> 1 \<and> (busy st \<longleftrightarrow> inflight \<noteq> []) \<and>
    (busy st \<longrightarrow> snd (page_act jp st a) = []) \<and>
    (q \<in> set inflight \<longrightarrow> queue_settle jp st q r = (st', qs) \<longrightarrow>
       (qs = [] \<and> \<not> busy st' \<and> length (qs_results st') = length (qs_results st) + 1) \<or>
       (\<exists>ok e. qs = [Revalidate ok e] \<and> busy st' \<and> (\<nexists>ok e. q = Revalidate ok e)))"
proof -
  from created_fresh [OF assms(1)] obtain fs where s0: "s0 = fresh_queue schema (take 9 fs)" by blast
  have f: "distinct (map (\<lambda>q. ()) inflight)" "busy st \<longleftrightarrow> () \<in> (\<lambda>q. ()) ` set inflight"
    using queue_commits.flight_busy [OF assms(2) [unfolded s0]] by auto
  have one: "length inflight \<le> 1"
  proof (cases inflight)
    case (Cons x xs)
    then show ?thesis using f(1) by (cases xs) auto
  qed simp
  have busy: "busy st \<longleftrightarrow> inflight \<noteq> []" using f(2) by (cases inflight) auto
  have refused: "busy st \<longrightarrow> snd (page_act jp st a) = []" using page_act_commit [of st jp a] by (auto simp: starts_commit_def)
  have settled: "q \<in> set inflight \<longrightarrow> queue_settle jp st q r = (st', qs) \<longrightarrow>
       (qs = [] \<and> \<not> busy st' \<and> length (qs_results st') = length (qs_results st) + 1) \<or>
       (\<exists>ok e. qs = [Revalidate ok e] \<and> busy st' \<and> (\<nexists>ok e. q = Revalidate ok e))"
  proof (intro impI)
    assume q: "q \<in> set inflight" and s: "queue_settle jp st q r = (st', qs)"
    from q have "busy st" unfolding busy by auto
    from settle_commit [OF s this] show "(qs = [] \<and> \<not> busy st' \<and> length (qs_results st') = length (qs_results st) + 1) \<or>
       (\<exists>ok e. qs = [Revalidate ok e] \<and> busy st' \<and> (\<nexists>ok e. q = Revalidate ok e))" by blast
  qed
  show ?thesis by (intro conjI one busy refused settled)
qed

text \<open>An approval is under way: discarding the item is refused until the response frees the store.\<close>

lemma one_commit_at_a_time_witness:
  "\<exists>st. flight (page_act demo_json) (queue_settle demo_json) (fresh_queue None []) (st, [PatchApproved ''i'']) \<and>
     busy st \<and> snd (page_act demo_json st DiscardCurrent) = []"
proof -
  have c: "createQueueStore demo_json None = Inr (fresh_queue None [])" by (simp add: createQueueStore_def parseAnnotationSchema_def)
  have acts: "page_act demo_json (fresh_queue None []) (HydrateIndex [(''i'', StateNew), (''j'', StateNew)]) =
      (hydrateIndex [(''i'', StateNew), (''j'', StateNew)] (fresh_queue None []), [])"
    "page_act demo_json (hydrateIndex [(''i'', StateNew), (''j'', StateNew)] (fresh_queue None [])) (HydrateWindow [demo_item]) =
      (demo_queue, [])"
    by (simp_all add: page_act_def demo_queue_def)
  obtain st where start: "page_act demo_json demo_queue ApproveCurrent = (st, [PatchApproved ''i''])"
  proof -
    have "qs_isTargetJsonValid demo_queue" "\<not> busy demo_queue" by code_simp+
    then have "snd (page_act demo_json demo_queue ApproveCurrent) = [PatchApproved ''i'']"
      by (simp add: page_act_def approveCurrent_def demo_current start_commit_def) (simp add: demo_item_def)
    then show thesis using that by (metis prod.collapse)
  qed
  let ?flight = "flight (page_act demo_json) (queue_settle demo_json) (fresh_queue None [])"
  have "?flight (hydrateIndex [(''i'', StateNew), (''j'', StateNew)] (fresh_queue None []), [] @ [])"
    by (rule flight_act, rule flight_init, rule acts(1))
  then have "?flight (demo_queue, ([] @ []) @ [])" by (rule flight_act) (rule acts(2))
  then have "?flight (st, (([] @ []) @ []) @ [PatchApproved ''i''])" by (rule flight_act) (rule start)
  then have run: "?flight (st, [PatchApproved ''i''])" by simp
  from one_commit_at_a_time [OF c run, of DiscardCurrent] run show ?thesis by blast
qed

section \<open>Edits during a commit\<close>

text \<open>
  The local edits do not look at \<open>ioState\<close>, and the hotkeys that write a field work while a commit is
  under way. An edit made while the deletion of its item is under way is scheduled after the deletion
  cancelled the item's saves; it outlives the removal and its save starts for an item that is gone.
\<close>

lemma edit_survives_discard:
  assumes "queue_inv st" and "getCurrentItem st = Some current"
    and "st1 = setTarget jp t st" and "queue_settle jp st1 (DeleteItem (qi_id current)) (FetchOk n) = (st2, qs)"
    and "st3 = fst (queue_act jp st2 (SaveTimerFires (qi_id current)))"
  shows "map_of (qs_loadedItems st3) (qi_id current) = None \<and> (\<exists>s\<in>live (qs_orchestrator st3). sa_item s = qi_id current)"
proof -
  let ?i = "qi_id current"
  define item where "item = unapproveLocal (current\<lparr>qi_edit := jp_stringify jp (nullish t (JObj []))\<rparr>)"
  have st1: "st1 = put_item jp item st" by (simp add: assms(3) setTarget_def assms(2) item_def)
  have "qi_id item \<in> set (qs_idsList st)" using current_in_ids [OF assms(1,2)] by (simp add: item_def)
  note p = put_item_sel [OF this, of jp, folded st1]
  have i: "?i \<in> set (qs_idsList st1)" using p(1) current_in_ids [OF assms(1,2)] by simp
  have inv: "queue_inv st1" unfolding assms(3) by (rule setTarget_inv [OF assms(1)])
  have st2: "st2 = removeItemLocal ?i st1" using assms(4) by simp
  then have o': "qs_orchestrator st2 = qs_orchestrator st1" and l: "map_of (qs_loadedItems st2) ?i = None"
    using i by (simp_all add: removeItemLocal_def set_states_def Let_def delete_conv)
  have t: "map_of (so_timers (qs_orchestrator st2)) ?i = Some (qi_edit item)"
    by (simp add: o' p(5) schedule_def update_conv item_def)
  have s: "save_inv (qs_orchestrator st2)" using inv by (simp add: o' queue_inv_def)
  then have "save_inv (qs_orchestrator st2\<lparr>so_timers := AList.delete ?i (so_timers (qs_orchestrator st2))\<rparr>)"
    by (intro timers_inv) (simp_all add: save_inv_def distinct_delete)
  from live_flushOne [OF this] have "\<exists>s\<in>live (timer_fires ?i (qs_orchestrator st2)). sa_item s = ?i"
    by (simp add: timer_fires_def t)
  then show ?thesis using l by (simp add: assms(5))
qed

text \<open>Likewise an edit made while the approval of its item is under way: the item is then shown as approved
  with the new edit, whose save, which sets its status to 0, is still to come.\<close>

lemma edit_survives_approval:
  assumes "queue_inv st" and "getCurrentItem st = Some current"
    and "st1 = setTarget jp t st" and "queue_settle jp st1 (PatchApproved (qi_id current)) (FetchOk n) = (st2, qs)"
  shows "map_of (qs_itemStates st2) (qi_id current) = Some StateApproved \<and>
    map_of (so_timers (qs_orchestrator st2)) (qi_id current) = Some (jp_stringify jp (nullish t (JObj [])))"
proof -
  let ?i = "qi_id current"
  define item where "item = unapproveLocal (current\<lparr>qi_edit := jp_stringify jp (nullish t (JObj []))\<rparr>)"
  have st1: "st1 = put_item jp item st" by (simp add: assms(3) setTarget_def assms(2) item_def)
  have "qi_id item \<in> set (qs_idsList st)" using current_in_ids [OF assms(1,2)] by (simp add: item_def)
  note p = put_item_sel [OF this, of jp, folded st1]
  have st2: "st2 = finish (ResOk None) (approved ?i st1)" using assms(4) by simp
  have sel: "qs_itemStates (move_to k s) = qs_itemStates s" "qs_orchestrator (move_to k s) = qs_orchestrator s" for k s
    by (simp_all add: move_to_def)
  have "qs_itemStates st2 = AList.update ?i StateApproved (qs_itemStates st1)" "qs_orchestrator st2 = qs_orchestrator st1"
    by (simp_all add: st2 finish_def approved_def step_item_def Let_def sel set_states_def split: option.split)
  then show ?thesis by (simp add: update_conv p(5) schedule_def item_def)
qed

text \<open>A window that arrives late brings back the state of an item the index no longer has; the total of the
  progress then exceeds the number of ids.\<close>

lemma demo_queue_sel: "qs_idsList demo_queue = [''i'', ''j'']" "qs_itemStates demo_queue = [(''i'', StateNew), (''j'', StateNew)]"
  "qs_orchestrator demo_queue = createSaveOrchestrator" "qs_currentIndex demo_queue = 0"
  by (simp_all add: demo_queue_def hydrateWindow_def hydrateIndex_def fresh_queue_def set_states_def clampIndex_def Let_def
      window_step_simp demo_item_def hasPending_def createSaveOrchestrator_def index_states_def deriveItemState_def isDirty_def
      demo_json_def tryParseJson_def nullish_def split: prod.split)

lemma late_window_inflates:
  assumes "st = hydrateWindow demo_json [demo_item] (removeItemLocal ''i'' demo_queue)"
  shows "qp_total (qs_progress st) = 2 \<and> length (qs_idsList st) = 1"
proof -
  let ?r = "removeItemLocal ''i'' demo_queue"
  have r: "qs_idsList ?r = [''j'']" "qs_itemStates ?r = [(''j'', StateNew)]" "qs_orchestrator ?r = createSaveOrchestrator"
    by (simp_all add: removeItemLocal_def demo_queue_sel index_of_def set_states_def Let_def)
  have "\<not> hasPending createSaveOrchestrator ''i''" by (simp add: hasPending_def createSaveOrchestrator_def)
  moreover have "qi_id demo_item = ''i''" by (simp add: demo_item_def)
  ultimately show ?thesis by (simp add: assms hydrateWindow_def r window_step_simp set_states_def progress_counts)
qed

end
