(* ===== verification/JsText.thy ===== *)
theory JsText
  imports Prelude
begin

text \<open>
  The string functions of JavaScript's standard library that the query builders call: \<open>trim\<close>, \<open>replace\<close> with
  a character class, \<open>split\<close> with a limit, \<open>parseInt\<close> and \<open>parseFloat\<close>, with the laws the builders rest on.
  A number read from a text is the exact rational the text denotes (the rounding to a double is not modelled);
  a text that denotes no number reads as \<open>NaN\<close>.
\<close>

section \<open>Characters\<close>

definition char_between :: "char \<Rightarrow> char \<Rightarrow> char \<Rightarrow> bool" where
  "char_between a b c = ((of_char a :: nat) \<le> of_char c \<and> (of_char c :: nat) \<le> of_char b)"

definition is_digit :: "char \<Rightarrow> bool" where
  "is_digit c = char_between (CHR ''0'') (CHR ''9'') c"

text \<open>The class \<open>[a-zA-Z0-9_]\<close>.\<close>

definition is_word :: "char \<Rightarrow> bool" where
  "is_word c = (char_between (CHR ''a'') (CHR ''z'') c \<or> char_between (CHR ''A'') (CHR ''Z'') c
     \<or> is_digit c \<or> c = CHR ''_'')"

text \<open>The white space of \<open>trim\<close>, \<open>parseInt\<close> and \<open>\\s\<close>: tab, line feed, vertical tab, form feed, carriage
  return, space and the no-break space.\<close>

definition is_space :: "char \<Rightarrow> bool" where
  "is_space c = (char_between (CHR 0x09) (CHR 0x0D) c \<or> c = CHR '' '' \<or> c = CHR 0xA0)"

lemma of_char_digit: "n < 10 \<Longrightarrow> (of_char (digit n) :: nat) = n + 48"
  by (simp add: digit_def)

lemma is_digit_digit [simp]: "n < 10 \<Longrightarrow> is_digit (digit n)"
  by (simp add: is_digit_def char_between_def of_char_digit)

lemma is_word_digit: "is_digit c \<Longrightarrow> is_word c"
  by (simp add: is_word_def)

lemma is_word_underscore [simp]: "is_word (CHR ''_'')"
  by (simp add: is_word_def)

lemma not_digit_simps [simp]:
  "\<not> is_digit (CHR ''_'')" "\<not> is_digit (CHR ''y'')" "\<not> is_digit (CHR ''l'')"
  by (simp_all add: is_digit_def char_between_def)

section \<open>Decimal numerals\<close>

lemma show_nat_nonempty [simp]: "show_nat n \<noteq> []"
  by (subst show_nat.simps) simp

lemma show_nat_digits: "c \<in> set (show_nat n) \<Longrightarrow> is_digit c"
proof (induction n rule: show_nat.induct)
  case (1 n)
  then show ?case by (subst (asm) (2) show_nat.simps) (auto split: if_splits)
qed

lemma is_digit_last_show_nat [simp]: "is_digit (last (show_nat n))"
  by (rule show_nat_digits [of _ n]) simp

text \<open>The number a list of digits denotes.\<close>

definition digit_value :: "char \<Rightarrow> nat" where
  "digit_value c = of_char c - 48"

definition digits_value :: "string \<Rightarrow> nat" where
  "digits_value ds = foldl (\<lambda>acc c. 10 * acc + digit_value c) 0 ds"

lemma digit_value_digit [simp]: "n < 10 \<Longrightarrow> digit_value (digit n) = n"
  by (simp add: digit_value_def of_char_digit)

lemma digits_value_show_nat [simp]: "digits_value (show_nat n) = n"
proof (induction n rule: show_nat.induct)
  case (1 n)
  show ?case
  proof (cases "n < 10")
    case True
    then show ?thesis by (subst show_nat.simps) (simp add: digits_value_def)
  next
    case False
    then have "digits_value (show_nat n) = 10 * digits_value (show_nat (n div 10)) + n mod 10"
      by (subst show_nat.simps) (simp add: digits_value_def)
    then show ?thesis using 1 False by simp
  qed
qed

lemma show_nat_inject [simp]: "show_nat m = show_nat n \<longleftrightarrow> m = n"
  by (metis digits_value_show_nat)

section \<open>Trimming, replacing and splitting\<close>

definition trim_start :: "string \<Rightarrow> string" where
  "trim_start s = dropWhile is_space s"

definition trim :: "string \<Rightarrow> string" where
  "trim s = rev (dropWhile is_space (rev (dropWhile is_space s)))"

text \<open>\<open>s.replace(/[^a-zA-Z0-9_]/g, "_")\<close>.\<close>

definition sanitize :: "string \<Rightarrow> string" where
  "sanitize s = map (\<lambda>c. if is_word c then c else CHR ''_'') s"

text \<open>\<open>s.replace(x, y)\<close> of a one-character text: the first occurrence only.\<close>

fun replace_first :: "char \<Rightarrow> string \<Rightarrow> string \<Rightarrow> string" where
  "replace_first x y [] = []"
| "replace_first x y (c # s) = (if c = x then y @ s else c # replace_first x y s)"

text \<open>\<open>s.replace(/x/g, y)\<close> of a one-character pattern.\<close>

definition replace_char :: "char \<Rightarrow> string \<Rightarrow> string \<Rightarrow> string" where
  "replace_char x y s = concat (map (\<lambda>c. if c = x then y else [c]) s)"

text \<open>\<open>s.replace(/\\s+/g, " ")\<close>: a run of white space becomes one space.\<close>

fun collapse_from :: "bool \<Rightarrow> string \<Rightarrow> string" where
  "collapse_from inside [] = []"
| "collapse_from inside (c # s) =
     (if is_space c then (if inside then collapse_from True s else CHR '' '' # collapse_from True s)
      else c # collapse_from False s)"

definition collapse_space :: "string \<Rightarrow> string" where
  "collapse_space s = collapse_from False s"

text \<open>\<open>s.split(x)\<close> on a one-character separator, and the pair \<open>[key, val] = s.split(x, 2)\<close>: the second is
  missing when there is no separator, and stops at the second one.\<close>

fun split_on :: "char \<Rightarrow> string \<Rightarrow> string list" where
  "split_on x [] = [[]]"
| "split_on x (c # s) =
     (if c = x then [] # split_on x s
      else case split_on x s of [] \<Rightarrow> [[c]] | p # ps \<Rightarrow> (c # p) # ps)"

definition split_pair :: "char \<Rightarrow> string \<Rightarrow> string \<times> string option" where
  "split_pair x s = (case take 2 (split_on x s) of
     [] \<Rightarrow> ([], None) | [k] \<Rightarrow> (k, None) | k # v # _ \<Rightarrow> (k, Some v))"

text \<open>\<open>s.includes(p)\<close>, and \<open>toLowerCase\<close> on the characters of the first 256 code points.\<close>

fun has_text :: "string \<Rightarrow> string \<Rightarrow> bool" where
  "has_text p [] = (p = [])"
| "has_text p (c # s) = (take (length p) (c # s) = p \<or> has_text p s)"

definition lower_char :: "char \<Rightarrow> char" where
  "lower_char c = (if char_between (CHR ''A'') (CHR ''Z'') c \<or> (char_between (CHR 0xC0) (CHR 0xDE) c \<and> c \<noteq> CHR 0xD7)
     then char_of ((of_char c :: nat) + 32) else c)"

definition to_lower :: "string \<Rightarrow> string" where
  "to_lower s = map lower_char s"

lemma sanitize_words: "c \<in> set (sanitize s) \<Longrightarrow> is_word c"
  by (auto simp: sanitize_def split: if_splits)

lemma split_on_nonempty [simp]: "split_on x s \<noteq> []"
  by (induction s) (auto split: list.splits)

lemma split_on_join: "join [x] (split_on x s) = s"
proof (induction s)
  case (Cons c s)
  obtain p ps where ps: "split_on x s = p # ps" by (cases "split_on x s") auto
  show ?case using Cons by (cases ps) (simp_all add: ps)
qed simp

lemma split_on_parts: "p \<in> set (split_on x s) \<Longrightarrow> x \<notin> set p"
  by (induction x s arbitrary: p rule: split_on.induct) (auto split: list.splits if_splits)

lemma split_on_absent: "x \<notin> set s \<Longrightarrow> split_on x s = [s]"
  by (induction s) auto

lemma split_on_append: "x \<notin> set k \<Longrightarrow> split_on x (k @ x # s) = k # split_on x s"
  by (induction k) auto

lemma split_pair_simps:
  "x \<notin> set k \<Longrightarrow> x \<notin> set v \<Longrightarrow> split_pair x (k @ x # v) = (k, Some v)"
  "x \<notin> set k \<Longrightarrow> x \<notin> set v \<Longrightarrow> split_pair x (k @ x # v @ x # w) = (k, Some v)"
  "x \<notin> set k \<Longrightarrow> split_pair x k = (k, None)"
  by (simp_all add: split_pair_def split_on_append split_on_absent)

section \<open>Reading numbers\<close>

definition read_sign :: "string \<Rightarrow> bool \<times> string" where
  "read_sign s = (case s of [] \<Rightarrow> (False, [])
     | c # r \<Rightarrow> if c = CHR ''-'' then (True, r) else if c = CHR ''+'' then (False, r) else (False, s))"

definition signed :: "bool \<Rightarrow> number \<Rightarrow> number" where
  "signed neg x = (if neg then - x else x)"

definition hex_value :: "char \<Rightarrow> nat option" where
  "hex_value c = (if is_digit c then Some (digit_value c)
     else if char_between (CHR ''a'') (CHR ''f'') c then Some (of_char c - 87)
     else if char_between (CHR ''A'') (CHR ''F'') c then Some (of_char c - 55) else None)"

text \<open>\<open>parseInt\<close>: leading white space, a sign, then digits up to the first other character. Without an explicit
  radix a prefix \<open>0x\<close> selects base 16.\<close>

definition parse_int_with :: "bool \<Rightarrow> string \<Rightarrow> jsnum" where
  "parse_int_with hex_prefix s =
     (let (neg, u) = read_sign (trim_start s);
          hex = (hex_prefix \<and> length u \<ge> 2 \<and> u ! 0 = CHR ''0'' \<and> (u ! 1 = CHR ''x'' \<or> u ! 1 = CHR ''X''))
      in if hex then
           (let ds = takeWhile (\<lambda>c. hex_value c \<noteq> None) (drop 2 u) in
            if ds = [] then NaN
            else Fin (signed neg (of_nat (foldl (\<lambda>acc c. 16 * acc + the (hex_value c)) 0 ds))))
         else
           (let ds = takeWhile is_digit u in
            if ds = [] then NaN else Fin (signed neg (of_nat (digits_value ds)))))"

definition parseInt :: "string \<Rightarrow> jsnum" where
  "parseInt s = parse_int_with True s"

definition parseInt10 :: "string \<Rightarrow> jsnum" where
  "parseInt10 s = parse_int_with False s"

definition read_exponent :: "string \<Rightarrow> int" where
  "read_exponent s = (case s of [] \<Rightarrow> 0
     | c # r \<Rightarrow> if c = CHR ''e'' \<or> c = CHR ''E'' then
         (let (neg, u) = read_sign r; ds = takeWhile is_digit u
          in if neg then - int (digits_value ds) else int (digits_value ds))
       else 0)"

definition scale10 :: "int \<Rightarrow> number \<Rightarrow> number" where
  "scale10 e x = (if 0 \<le> e then x * 10 ^ nat e else x / 10 ^ nat (- e))"

text \<open>\<open>parseFloat\<close>: the longest prefix, after white space, that is a decimal literal.\<close>

definition parseFloat :: "string \<Rightarrow> jsnum" where
  "parseFloat s =
     (let (neg, u) = read_sign (trim_start s)
      in if take 8 u = ''Infinity'' then (if neg then NInf else PInf)
         else
           (let ip = takeWhile is_digit u;
                r = dropWhile is_digit u;
                dot = (r \<noteq> [] \<and> hd r = CHR ''.'');
                fp = (if dot then takeWhile is_digit (tl r) else []);
                r' = (if dot then dropWhile is_digit (tl r) else r)
            in if ip = [] \<and> fp = [] then NaN
               else Fin (signed neg (scale10 (read_exponent r' - int (length fp)) (of_nat (digits_value (ip @ fp)))))))"

text \<open>\<open>Number(s)\<close>: the whole text, without the white space around it, has to be a literal; the empty one is 0.\<close>

definition read_radix :: "nat \<Rightarrow> string \<Rightarrow> jsnum" where
  "read_radix b ds = (if ds \<noteq> [] \<and> (\<forall>c\<in>set ds. case hex_value c of None \<Rightarrow> False | Some d \<Rightarrow> d < b)
     then Fin (of_nat (foldl (\<lambda>acc c. b * acc + the (hex_value c)) 0 ds)) else NaN)"

definition is_exponent :: "string \<Rightarrow> bool" where
  "is_exponent s = (case s of [] \<Rightarrow> True
     | c # r \<Rightarrow> (c = CHR ''e'' \<or> c = CHR ''E'') \<and> snd (read_sign r) \<noteq> [] \<and> (\<forall>d\<in>set (snd (read_sign r)). is_digit d))"

definition js_number :: "string \<Rightarrow> jsnum" where
  "js_number s =
     (let t = trim s; p = take 2 t in
      if t = [] then Fin 0
      else if p = ''0x'' \<or> p = ''0X'' then read_radix 16 (drop 2 t)
      else if p = ''0o'' \<or> p = ''0O'' then read_radix 8 (drop 2 t)
      else if p = ''0b'' \<or> p = ''0B'' then read_radix 2 (drop 2 t)
      else
        (let u = snd (read_sign t);
             r = dropWhile is_digit u;
             r' = (if r \<noteq> [] \<and> hd r = CHR ''.'' then dropWhile is_digit (tl r) else r)
         in if u = ''Infinity'' \<or> is_exponent r' then parseFloat t else NaN))"

lemma takeWhile_show_nat [simp]: "takeWhile is_digit (show_nat n) = show_nat n"
  and dropWhile_show_nat [simp]: "dropWhile is_digit (show_nat n) = []"
  by (simp_all add: takeWhile_eq_all_conv dropWhile_eq_Nil_conv show_nat_digits)

lemma digit_not:
  "is_digit c \<Longrightarrow> \<not> is_space c"
  "is_digit c \<Longrightarrow> c \<noteq> CHR ''-'' \<and> c \<noteq> CHR ''+'' \<and> c \<noteq> CHR ''I'' \<and> c \<noteq> CHR ''x'' \<and> c \<noteq> CHR ''X''"
  by (auto simp: is_digit_def is_space_def char_between_def)

lemma show_nat_Cons: obtains c s where "show_nat n = c # s" "is_digit c" "\<forall>d\<in>set s. is_digit d"
  using show_nat_digits [of _ n] by (cases "show_nat n") auto

lemma trim_start_show_nat [simp]: "trim_start (show_nat n) = show_nat n"
  by (rule show_nat_Cons [of n]) (simp add: trim_start_def digit_not)

lemma read_sign_show_nat [simp]: "read_sign (show_nat n) = (False, show_nat n)"
  by (rule show_nat_Cons [of n]) (simp add: read_sign_def digit_not)

text \<open>Both functions read a decimal numeral back as the number it denotes.\<close>

lemma parseInt10_show_nat: "parseInt10 (show_nat n) = Fin (of_nat n)"
  by (simp add: parseInt10_def parse_int_with_def signed_def)

lemma parseInt_show_nat: "parseInt (show_nat n) = Fin (of_nat n)"
proof -
  obtain c s where n: "show_nat n = c # s" and s: "\<forall>d\<in>set s. is_digit d"
    by (rule show_nat_Cons [of n])
  have "show_nat n ! 1 \<noteq> CHR ''x'' \<and> show_nat n ! 1 \<noteq> CHR ''X''" if "length (show_nat n) \<ge> 2"
    using that s digit_not(2) [of "s ! 0"] by (cases s) (simp_all add: n)
  then show ?thesis by (auto simp: parseInt_def parse_int_with_def signed_def Let_def)
qed

lemma parseFloat_show_nat: "parseFloat (show_nat n) = Fin (of_nat n)"
proof -
  have "take 8 (show_nat n) \<noteq> ''Infinity''"
    by (rule show_nat_Cons [of n]) (use digit_not(2) in auto)
  then show ?thesis
    by (simp add: parseFloat_def signed_def Let_def read_exponent_def scale10_def)
qed

end
