(* ===== verification/QueryBuilder.thy ===== *)
theory QueryBuilder
  imports JsText
begin

text \<open>
  The ClickHouse query builder of \<open>lib/actions/common/query-builder.ts\<close>: a filter is turned into a condition
  whose values are bound as named parameters, the conditions are joined into \<open>WHERE\<close> and \<open>HAVING\<close> clauses,
  and the clauses into a query. A parameter object is an association list with distinct keys; it is only read
  by key. lodash's \<open>compact\<close> and the printing of a number by \<open>String\<close> are parameters (\<open>query_platform\<close>).
\<close>

section \<open>Filters and parameters\<close>

datatype operator = Eq | Ne | Lt | Gt | Lte | Gte | Includes

fun OperatorLabelMap :: "operator \<Rightarrow> string" where
  "OperatorLabelMap Eq = ''=''"
| "OperatorLabelMap Lt = ''<''"
| "OperatorLabelMap Gt = ''>''"
| "OperatorLabelMap Lte = ''<=''"
| "OperatorLabelMap Gte = ''>=''"
| "OperatorLabelMap Ne = ''!=''"
| "OperatorLabelMap Includes = ''includes''"

datatype scalar = SStr string | SNum number

datatype filter_value = FScalar scalar | FArr "string list"

datatype data_type = DString | DNumber | DBoolean | DJson | DArray

record column_filter =
  fdataType :: "data_type option"
  fcolumn :: string
  foperator :: operator
  fvalue :: filter_value

datatype param = PStr string | PNum jsnum | PArr "scalar list"

type_synonym params = "(string \<times> param) list"

record query_result =
  query :: string
  parameters :: params

record condition_result =
  condition :: "string option"
  cparams :: params

record query_platform =
  compact :: "scalar list \<Rightarrow> scalar list"
  num_str :: "number \<Rightarrow> string"

text \<open>\<open>{...m, ...ps}\<close> and \<open>Object.assign(m, ps)\<close>.\<close>

definition assign :: "params \<Rightarrow> params \<Rightarrow> params" where
  "assign m ps = foldl (\<lambda>acc p. AList.update (fst p) (snd p) acc) m ps"

fun scalar_param :: "scalar \<Rightarrow> param" where
  "scalar_param (SStr s) = PStr s"
| "scalar_param (SNum n) = PNum (Fin n)"

fun value_param :: "filter_value \<Rightarrow> param" where
  "value_param (FScalar s) = scalar_param s"
| "value_param (FArr xs) = PArr (map SStr xs)"

text \<open>\<open>String(value)\<close>; an array is joined with commas.\<close>

fun js_string :: "query_platform \<Rightarrow> filter_value \<Rightarrow> string" where
  "js_string pl (FScalar (SStr s)) = s"
| "js_string pl (FScalar (SNum n)) = num_str pl n"
| "js_string pl (FArr xs) = join '','' xs"

text \<open>A placeholder \<open>{key:Type}\<close>.\<close>

definition hole :: "string \<Rightarrow> string \<Rightarrow> string" where
  "hole k t = ''{'' @ k @ '':'' @ t @ ''}''"

section \<open>Time ranges\<close>

record time_range =
  startTime :: "string option"
  endTime :: "string option"
  pastHours :: "string option"
  timeColumn :: "string option"

definition time_column :: "time_range \<Rightarrow> string" where
  "time_column opt = (case timeColumn opt of None \<Rightarrow> ''start_time'' | Some c \<Rightarrow> c)"

definition past_hours_given :: "string option \<Rightarrow> bool" where
  "past_hours_given h = (truthy h \<and> parseFloat (the h) \<noteq> NaN)"

definition strip_zone :: "string option \<Rightarrow> string" where
  "strip_zone t = replace_first (CHR ''Z'') [] (the t)"

definition buildTimeRangeConditions :: "time_range \<Rightarrow> condition_result" where
  "buildTimeRangeConditions opt =
     (let c = time_column opt in
      if past_hours_given (pastHours opt) then
        \<lparr>condition = Some (c @ '' >= now() - INTERVAL {pastHours:UInt32} HOUR''),
         cparams = [(''pastHours'', PNum (parseInt (the (pastHours opt))))]\<rparr>
      else if truthy (startTime opt) \<or> truthy (endTime opt) then
        (let lower = (if truthy (startTime opt)
               then ([c @ '' >= {startTime:String}''], [(''startTime'', PStr (strip_zone (startTime opt)))])
               else ([], []));
             upper = (if truthy (endTime opt)
               then ([c @ '' <= {endTime:String}''], [(''endTime'', PStr (strip_zone (endTime opt)))])
               else if truthy (startTime opt) then ([c @ '' <= now()''], []) else ([], []))
         in \<lparr>condition = Some (join '' AND '' (fst lower @ fst upper)), cparams = assign (snd lower) (snd upper)\<rparr>)
      else \<lparr>condition = None, cparams = []\<rparr>)"

record fill_result =
  fcondition :: "string option"
  fparams :: params
  fillFrom :: "string option"
  fillTo :: "string option"

text \<open>\<open>intervalValue && intervalUnit\<close>: a number other than 0 and a text that is not empty.\<close>

definition has_interval :: "number option \<Rightarrow> string option \<Rightarrow> bool" where
  "has_interval value unit = (value \<noteq> None \<and> value \<noteq> Some 0 \<and> truthy unit)"

definition to_interval :: "string \<Rightarrow> string" where
  "to_interval s = ''toStartOfInterval('' @ s @ '', toInterval({intervalValue:UInt32}, {intervalUnit:String}))''"

definition buildTimeRangeWithFill :: "time_range \<Rightarrow> number option \<Rightarrow> string option \<Rightarrow> fill_result" where
  "buildTimeRangeWithFill opt value unit =
     (let c = time_column opt;
          wrap = (if has_interval value unit then to_interval else (\<lambda>s. s));
          interval = (if has_interval value unit
            then [(''intervalValue'', PNum (Fin (the value))), (''intervalUnit'', PStr (the unit))] else [])
      in if past_hours_given (pastHours opt) then
           \<lparr>fcondition = Some (c @ '' >= now() - INTERVAL {pastHours:UInt32} HOUR''),
            fparams = assign [(''pastHours'', PNum (parseInt (the (pastHours opt))))] interval,
            fillFrom = Some (wrap ''now() - INTERVAL {pastHours:UInt32} HOUR''),
            fillTo = Some (wrap ''now()'')\<rparr>
         else if truthy (startTime opt) then
           (let upper = (if truthy (endTime opt)
                  then ([c @ '' <= {endTime:String}''], [(''endTime'', PStr (strip_zone (endTime opt)))])
                  else ([c @ '' <= now()''], []))
            in \<lparr>fcondition = Some (join '' AND '' ((c @ '' >= {startTime:String}'') # fst upper)),
                fparams = assign (assign [(''startTime'', PStr (strip_zone (startTime opt)))] (snd upper)) interval,
                fillFrom = Some (wrap ''toDateTime64({startTime:String}, 9)''),
                fillTo = Some (wrap (if truthy (endTime opt) then ''toDateTime64({endTime:String}, 9)'' else ''now()''))\<rparr>)
         else \<lparr>fcondition = None, fparams = [], fillFrom = None, fillTo = None\<rparr>)"

section \<open>Column filters\<close>

type_synonym processor = "column_filter \<Rightarrow> string \<Rightarrow> condition_result"

record column_config =
  processors :: "(string \<times> processor) list"
  defaultProcessor :: "processor option"

definition createStringFilter :: processor where
  "createStringFilter f k =
     \<lparr>condition = Some (fcolumn f @ '' '' @ OperatorLabelMap (foperator f) @ '' '' @ hole k ''String''),
      cparams = [(k, value_param (fvalue f))]\<rparr>"

datatype number_type = Int64 | Float64

fun number_type_name :: "number_type \<Rightarrow> string" where
  "number_type_name Int64 = ''Int64''"
| "number_type_name Float64 = ''Float64''"

fun parse_as :: "number_type \<Rightarrow> string \<Rightarrow> jsnum" where
  "parse_as Int64 s = parseInt s"
| "parse_as Float64 s = parseFloat s"

definition createNumberFilter :: "query_platform \<Rightarrow> number_type \<Rightarrow> processor" where
  "createNumberFilter pl t f k =
     \<lparr>condition = Some (fcolumn f @ '' '' @ OperatorLabelMap (foperator f) @ '' '' @ hole k (number_type_name t)),
      cparams = [(k, PNum (parse_as t (js_string pl (fvalue f))))]\<rparr>"

fun value_list :: "filter_value \<Rightarrow> scalar list" where
  "value_list (FScalar s) = [s]"
| "value_list (FArr xs) = map SStr xs"

definition createArrayColumnFilter :: "query_platform \<Rightarrow> string \<Rightarrow> processor" where
  "createArrayColumnFilter pl t f k =
     (case compact pl (value_list (fvalue f)) of
        [] \<Rightarrow> \<lparr>condition = None, cparams = []\<rparr>
      | [v] \<Rightarrow> \<lparr>condition = Some (''has('' @ fcolumn f @ '', '' @ hole k t @ '')''),
                cparams = [(k, scalar_param v)]\<rparr>
      | vs \<Rightarrow> \<lparr>condition = Some (''hasAny('' @ fcolumn f @ '', '' @ hole k (''Array('' @ t @ '')'') @ '')''),
               cparams = [(k, PArr vs)]\<rparr>)"

definition createCustomFilter ::
  "(column_filter \<Rightarrow> string \<Rightarrow> string) \<Rightarrow> (column_filter \<Rightarrow> string \<Rightarrow> params) option \<Rightarrow> processor" where
  "createCustomFilter cond ps f k =
     \<lparr>condition = Some (cond f k), cparams = (case ps of None \<Rightarrow> [] | Some p \<Rightarrow> p f k)\<rparr>"

definition param_key :: "column_filter \<Rightarrow> nat \<Rightarrow> string" where
  "param_key f i = sanitize (fcolumn f) @ ''_'' @ show_nat i"

definition run_processor :: "column_config \<Rightarrow> column_filter \<Rightarrow> string \<Rightarrow> condition_result option" where
  "run_processor config f k = (case map_of (processors config) (fcolumn f) of
     Some p \<Rightarrow> Some (p f k)
   | None \<Rightarrow> map_option (\<lambda>p. p f k) (defaultProcessor config))"

fun filter_results :: "column_config \<Rightarrow> nat \<Rightarrow> column_filter list \<Rightarrow> condition_result list" where
  "filter_results config i [] = []"
| "filter_results config i (f # fs) =
     (case run_processor config f (param_key f i) of
        Some r \<Rightarrow> (if condition r \<noteq> None then [r] else [])
      | None \<Rightarrow> []) @ filter_results config (Suc i) fs"

definition buildColumnFilters :: "column_filter list \<Rightarrow> column_config \<Rightarrow> condition_result" where
  "buildColumnFilters fs config =
     (let results = filter_results config 0 fs;
          conditions = filter (\<lambda>s. s \<noteq> []) (map (\<lambda>r. the (condition r)) results)
      in \<lparr>condition = (if conditions = [] then None else Some (join '' AND '' conditions)),
          cparams = foldl (\<lambda>acc r. assign acc (cparams r)) [] results\<rparr>)"

section \<open>Clauses and queries\<close>

record select_query =
  columns :: "string list"
  table :: string
  timeRange :: "time_range option"
  filters :: "column_filter list"
  columnFilterConfig :: "column_config option"
  customConditions :: "(string \<times> params) list"
  havingFilters :: "column_filter list"
  havingColumnFilterConfig :: "column_config option"
  customHavingConditions :: "(string \<times> params) list"
  groupBy :: "string list"
  orderBy :: "(string \<times> string option) list"
  pagination :: "(number \<times> number) option"

text \<open>The state of the two accumulators \<open>allConditions\<close> and \<open>allParams\<close>; a result joins them when its
  condition is a text that is not empty, a custom condition always.\<close>

type_synonym clause_state = "string list \<times> params"

definition add_result :: "condition_result \<Rightarrow> clause_state \<Rightarrow> clause_state" where
  "add_result r st = (if truthy (condition r)
     then (fst st @ [the (condition r)], assign (snd st) (cparams r)) else st)"

definition add_custom :: "(string \<times> params) list \<Rightarrow> clause_state \<Rightarrow> clause_state" where
  "add_custom cs st = foldl (\<lambda>st c. (fst st @ [fst c], assign (snd st) (snd c))) st cs"

definition add_filters :: "column_filter list \<Rightarrow> column_config option \<Rightarrow> clause_state \<Rightarrow> clause_state" where
  "add_filters fs config st = (case config of
     Some c \<Rightarrow> if fs \<noteq> [] then add_result (buildColumnFilters fs c) st else st
   | None \<Rightarrow> st)"

definition clause :: "string \<Rightarrow> clause_state \<Rightarrow> query_result" where
  "clause word st = \<lparr>query = (if fst st = [] then [] else word @ '' '' @ join '' AND '' (fst st)), parameters = snd st\<rparr>"

definition buildWhereClause :: "select_query \<Rightarrow> query_result" where
  "buildWhereClause q =
     clause ''WHERE''
       (add_custom (customConditions q)
         (add_filters (filters q) (columnFilterConfig q)
           (case timeRange q of None \<Rightarrow> ([], []) | Some opt \<Rightarrow> add_result (buildTimeRangeConditions opt) ([], []))))"

definition buildHavingClause :: "select_query \<Rightarrow> query_result" where
  "buildHavingClause q =
     clause ''HAVING''
       (add_custom (customHavingConditions q)
         (add_filters (havingFilters q) (havingColumnFilterConfig q) ([], [])))"

definition buildSelectQuery :: "select_query \<Rightarrow> query_result" where
  "buildSelectQuery q =
     (let w = buildWhereClause q;
          h = buildHavingClause q;
          s1 = ''SELECT '' @ join '', '' (columns q) @ '' FROM '' @ table q;
          s2 = (if query w \<noteq> [] then s1 @ '' '' @ query w else s1);
          s3 = (if groupBy q \<noteq> [] then s2 @ '' GROUP BY '' @ join '', '' (groupBy q) else s2);
          s4 = (if query h \<noteq> [] then s3 @ '' '' @ query h else s3);
          s5 = (if orderBy q \<noteq> [] then s4 @ '' ORDER BY '' @
                  join '', '' (map (\<lambda>o'. fst o' @ '' '' @ (if truthy (snd o') then the (snd o') else ''ASC'')) (orderBy q))
                else s4);
          ps = assign (parameters w) (parameters h)
      in case pagination q of
           None \<Rightarrow> \<lparr>query = trim s5, parameters = ps\<rparr>
         | Some (limit, offset) \<Rightarrow>
             \<lparr>query = trim (s5 @ '' LIMIT {limit:UInt32} OFFSET {offset:UInt32}''),
              parameters = assign ps [(''limit'', PNum (Fin limit)), (''offset'', PNum (Fin offset))]\<rparr>)"

text \<open>A query with no clause but the selected columns; the callers fill in the rest.\<close>

definition select_from :: "string list \<Rightarrow> string \<Rightarrow> select_query" where
  "select_from cols t = \<lparr>columns = cols, table = t, timeRange = None, filters = [], columnFilterConfig = None,
     customConditions = [], havingFilters = [], havingColumnFilterConfig = None, customHavingConditions = [],
     groupBy = [], orderBy = [], pagination = None\<rparr>"

definition backtickEscape :: "string \<Rightarrow> string" where
  "backtickEscape s = ''`'' @ replace_char (CHR ''`'') ''``'' s @ ''`''"

section \<open>Parameter objects\<close>

lemma assign_Nil [simp]: "assign m [] = m"
  by (simp add: assign_def)

lemma assign_Cons: "assign m ((k, v) # ps) = assign (AList.update k v m) ps"
  by (simp add: assign_def)

lemma distinct_assign [simp]: "distinct (map fst m) \<Longrightarrow> distinct (map fst (assign m ps))"
  by (induction ps arbitrary: m) (auto simp: assign_Cons distinct_update)

lemma keys_assign [simp]: "fst ` set (assign m ps) = fst ` set m \<union> fst ` set ps"
proof (induction ps arbitrary: m)
  case (Cons p ps)
  then show ?case by (cases p) (simp add: assign_Cons dom_update)
qed simp

lemma map_of_assign: "distinct (map fst ps) \<Longrightarrow> map_of (assign m ps) k = (case map_of ps k of None \<Rightarrow> map_of m k | Some v \<Rightarrow> Some v)"
proof (induction ps arbitrary: m)
  case (Cons p ps)
  obtain k' v where p: "p = (k', v)" by force
  have "map_of ps k' = None" using Cons.prems by (simp add: p map_of_eq_None_iff)
  then show ?case using Cons by (simp add: p assign_Cons update_conv' split: option.splits)
qed simp

lemma map_of_assign_new: "distinct (map fst ps) \<Longrightarrow> map_of ps k = Some v \<Longrightarrow> map_of (assign m ps) k = Some v"
  by (simp add: map_of_assign)

lemma map_of_assign_old: "distinct (map fst ps) \<Longrightarrow> k \<notin> fst ` set ps \<Longrightarrow> map_of (assign m ps) k = map_of m k"
  by (simp add: map_of_assign map_of_eq_None_iff [THEN iffD2])

section \<open>Parameter names\<close>

text \<open>A filter may bind its name and the name with \<open>_key\<close> or \<open>_val\<close> behind it. From each of them the position
  of the filter can be read back, so two filters never bind the same name.\<close>

definition filter_keys :: "string \<Rightarrow> string set" where
  "filter_keys k = {k, k @ ''_key'', k @ ''_val''}"

definition last_piece :: "string \<Rightarrow> string" where
  "last_piece s = rev (takeWhile (\<lambda>c. c \<noteq> CHR ''_'') (rev s))"

definition key_number :: "string \<Rightarrow> string" where
  "key_number k = last_piece (if last_piece k \<in> {''key'', ''val''} then take (length k - 4) k else k)"

lemma last_piece_append: "CHR ''_'' \<notin> set t \<Longrightarrow> last_piece (s @ CHR ''_'' # t) = t"
proof -
  assume t: "CHR ''_'' \<notin> set t"
  then have all: "takeWhile (\<lambda>c. c \<noteq> CHR ''_'') (rev t) = rev t" by (auto simp: takeWhile_eq_all_conv)
  show ?thesis by (simp only: last_piece_def rev_append rev.simps append_assoc append.simps takeWhile_tail all
      rev_rev_ident simp_thms)
qed

lemma underscore_not_in_show_nat [simp]: "CHR ''_'' \<notin> set (show_nat n)"
  using show_nat_digits by force

lemma show_nat_not_word [simp]: "show_nat n \<noteq> ''key''" "show_nat n \<noteq> ''val''"
  using is_digit_last_show_nat [of n] by (auto simp del: is_digit_last_show_nat)

lemma key_number_param_key:
  assumes "k \<in> filter_keys (param_key f i)"
  shows "key_number k = show_nat i"
proof -
  have base: "last_piece (param_key f i) = show_nat i"
    by (simp add: param_key_def last_piece_append)
  have suffixed: "last_piece (param_key f i @ ''_key'') = ''key''" "last_piece (param_key f i @ ''_val'') = ''val''"
    using last_piece_append [of "''key''"] last_piece_append [of "''val''"] by simp_all
  consider "k = param_key f i" | "k = param_key f i @ ''_key''" | "k = param_key f i @ ''_val''"
    using assms by (auto simp: filter_keys_def)
  then show ?thesis
  proof cases
    case 1
    then show ?thesis by (simp add: key_number_def base)
  qed (simp_all only: key_number_def suffixed, simp_all add: base)
qed

lemma filter_keys_disjoint:
  "k \<in> filter_keys (param_key f i) \<Longrightarrow> k \<in> filter_keys (param_key g j) \<Longrightarrow> i = j"
  using key_number_param_key by (metis show_nat_inject)

definition key_base :: "string \<Rightarrow> string" where
  "key_base k = (if last_piece k \<in> {''key'', ''val''} then take (length k - 4) k else k)"

lemma key_base_param_key: "k \<in> filter_keys (param_key f i) \<Longrightarrow> key_base k = param_key f i"
proof -
  assume "k \<in> filter_keys (param_key f i)"
  then consider "k = param_key f i" | "k = param_key f i @ ''_key''" | "k = param_key f i @ ''_val''"
    by (auto simp: filter_keys_def)
  moreover have "last_piece (param_key f i) = show_nat i" by (simp add: param_key_def last_piece_append)
  moreover have "last_piece (param_key f i @ ''_key'') = ''key''" "last_piece (param_key f i @ ''_val'') = ''val''"
    using last_piece_append [of "''key''"] last_piece_append [of "''val''"] by simp_all
  ultimately show ?thesis by cases (simp_all add: key_base_def)
qed

lemma filter_keys_column:
  assumes "k \<in> filter_keys (param_key f i)" and "k \<in> filter_keys (param_key g j)"
  shows "sanitize (fcolumn f) = sanitize (fcolumn g)"
proof -
  have "param_key f i = param_key g j" using key_base_param_key [OF assms(1)] key_base_param_key [OF assms(2)] by simp
  moreover have "i = j" by (rule filter_keys_disjoint [OF assms])
  ultimately show ?thesis by (simp add: param_key_def)
qed

lemma filter_keys_underscore: "k \<in> filter_keys (param_key f i) \<Longrightarrow> CHR ''_'' \<in> set k"
  by (auto simp: filter_keys_def param_key_def)

text \<open>A placeholder name is made of word characters, whatever the column is called.\<close>

lemma param_key_words: "c \<in> set (param_key f i) \<Longrightarrow> is_word c"
  by (auto simp: param_key_def is_word_digit dest: sanitize_words show_nat_digits)

section \<open>Configurations that bind their own names\<close>

text \<open>Every configuration of the code binds only the names of the filter it was called for, each once.\<close>

locale own_names =
  fixes config :: column_config
  assumes own: "run_processor config f k = Some r \<Longrightarrow> fst ` set (cparams r) \<subseteq> filter_keys k"
    and once: "run_processor config f k = Some r \<Longrightarrow> distinct (map fst (cparams r))"
begin

lemma results_names:
  "r \<in> set (filter_results config i fs) \<Longrightarrow> k \<in> fst ` set (cparams r) \<Longrightarrow>
   \<exists>j. i \<le> j \<and> j < i + length fs \<and> k \<in> filter_keys (param_key (fs ! (j - i)) j)
     \<and> run_processor config (fs ! (j - i)) (param_key (fs ! (j - i)) j) \<noteq> None"
proof (induction fs arbitrary: i)
  case (Cons f fs)
  show ?case
  proof (cases "r \<in> set (filter_results config (Suc i) fs)")
    case True
    then obtain j where "Suc i \<le> j" "j < Suc i + length fs" "k \<in> filter_keys (param_key (fs ! (j - Suc i)) j)"
        "run_processor config (fs ! (j - Suc i)) (param_key (fs ! (j - Suc i)) j) \<noteq> None"
      using Cons.IH Cons.prems(2) by blast
    moreover from this have "(f # fs) ! (j - i) = fs ! (j - Suc i)" by (simp add: nth_Cons')
    ultimately show ?thesis by (intro exI [of _ j]) simp
  next
    case False
    then have run: "run_processor config f (param_key f i) = Some r"
      using Cons.prems(1) by (simp split: option.splits if_splits)
    then have "k \<in> filter_keys (param_key f i)" using own Cons.prems(2) by blast
    then show ?thesis by (intro exI [of _ i]) (simp add: run)
  qed
qed simp

lemma results_distinct: "r \<in> set (filter_results config i fs) \<Longrightarrow> distinct (map fst (cparams r))"
  by (induction fs arbitrary: i) (auto split: option.splits if_splits simp: once)

lemma merged_keep:
  "k \<notin> \<Union> ((\<lambda>r. fst ` set (cparams r)) ` set rs) \<Longrightarrow> \<forall>r\<in>set rs. distinct (map fst (cparams r)) \<Longrightarrow>
   map_of (foldl (\<lambda>acc r. assign acc (cparams r)) m rs) k = map_of m k"
  by (induction rs arbitrary: m) (simp_all add: map_of_assign_old)

lemma merged_names:
  "fst ` set (foldl (\<lambda>acc r. assign acc (cparams r)) m rs) = fst ` set m \<union> \<Union> ((\<lambda>r. fst ` set (cparams r)) ` set rs)"
  by (induction rs arbitrary: m) auto

lemma merged_keys_distinct:
  "distinct (map fst m) \<Longrightarrow> distinct (map fst (foldl (\<lambda>acc r. assign acc (cparams r)) m rs))"
  by (induction rs arbitrary: m) simp_all

lemma results_bound:
  assumes "j < length fs" and "run_processor config (fs ! j) (param_key (fs ! j) (i + j)) = Some r"
    and "condition r \<noteq> None" and "map_of (cparams r) k = Some v"
  shows "map_of (foldl (\<lambda>acc r. assign acc (cparams r)) m (filter_results config i fs)) k = Some v"
  using assms
proof (induction fs arbitrary: i j m)
  case (Cons f fs)
  show ?case
  proof (cases j)
    case 0
    have run: "run_processor config f (param_key f i) = Some r" using Cons.prems(2) 0 by simp
    have k: "k \<in> fst ` set (cparams r)" using Cons.prems(4) by (force dest: map_of_SomeD)
    then have mine: "k \<in> filter_keys (param_key f i)" using own [OF run] by blast
    have others: "k \<notin> \<Union> ((\<lambda>r. fst ` set (cparams r)) ` set (filter_results config (Suc i) fs))"
    proof
      assume "k \<in> \<Union> ((\<lambda>r. fst ` set (cparams r)) ` set (filter_results config (Suc i) fs))"
      then obtain j' where "Suc i \<le> j'" "k \<in> filter_keys (param_key (fs ! (j' - Suc i)) j')"
        using results_names by blast
      then show False using filter_keys_disjoint [OF mine] by auto
    qed
    have "map_of (assign m (cparams r)) k = Some v"
      using map_of_assign_new [OF once [OF run] Cons.prems(4)] .
    then show ?thesis
      using merged_keep [OF others, of "assign m (cparams r)"] Cons.prems(3) results_distinct by (auto simp: run)
  next
    case (Suc j')
    then show ?thesis using Cons.IH [of j' "Suc i"] Cons.prems by simp
  qed
qed simp

text \<open>No filter loses a value to another filter of its clause.\<close>

lemma filters_bound:
  assumes "j < length fs" and "run_processor config (fs ! j) (param_key (fs ! j) j) = Some r"
    and "condition r \<noteq> None" and "map_of (cparams r) k = Some v"
  shows "map_of (cparams (buildColumnFilters fs config)) k = Some v"
  using results_bound [of j fs 0 r k v "[]"] assms by (simp add: buildColumnFilters_def Let_def)

lemma filters_names:
  "k \<in> fst ` set (cparams (buildColumnFilters fs config)) \<Longrightarrow>
   \<exists>j<length fs. k \<in> filter_keys (param_key (fs ! j) j) \<and> run_processor config (fs ! j) (param_key (fs ! j) j) \<noteq> None"
proof -
  assume "k \<in> fst ` set (cparams (buildColumnFilters fs config))"
  then obtain r where "r \<in> set (filter_results config 0 fs)" "k \<in> fst ` set (cparams r)"
    unfolding buildColumnFilters_def Let_def condition_result.simps merged_names by auto
  from results_names [OF this] show ?thesis by simp
qed

lemma filters_distinct: "distinct (map fst (cparams (buildColumnFilters fs config)))"
  by (simp add: buildColumnFilters_def Let_def merged_keys_distinct)

lemma filters_underscore: "k \<in> fst ` set (cparams (buildColumnFilters fs config)) \<Longrightarrow> CHR ''_'' \<in> set k"
  using filters_names filter_keys_underscore by blast

end

section \<open>Texts that depend on no value\<close>

text \<open>A configuration whose conditions are determined by a part \<open>view\<close> of the filter, which determines the
  placeholder name too: filters that agree in it give the same text, whatever their values are.\<close>

locale value_blind =
  fixes config :: column_config and view :: "column_filter \<Rightarrow> 'v"
  assumes same_condition: "view f = view g \<Longrightarrow>
      map_option condition (run_processor config f k) = map_option condition (run_processor config g k)"
    and same_name: "view f = view g \<Longrightarrow> sanitize (fcolumn f) = sanitize (fcolumn g)"
begin

lemma same_results:
  "map view fs = map view gs \<Longrightarrow>
   map condition (filter_results config i fs) = map condition (filter_results config i gs)"
proof (induction fs arbitrary: gs i)
  case (Cons f fs)
  then obtain g gs' where gs: "gs = g # gs'" and v: "view f = view g" and vs: "map view fs = map view gs'"
    by (cases gs) auto
  have key: "param_key g i = param_key f i" by (simp add: param_key_def same_name [OF v])
  have "map_option condition (run_processor config f (param_key f i)) = map_option condition (run_processor config g (param_key f i))"
    by (rule same_condition [OF v])
  then show ?case using Cons.IH [OF vs, of "Suc i"]
    by (cases "run_processor config f (param_key f i)"; cases "run_processor config g (param_key f i)")
      (simp_all add: gs key)
qed simp

lemma same_text:
  assumes "map view fs = map view gs"
  shows "condition (buildColumnFilters fs config) = condition (buildColumnFilters gs config)"
proof -
  have "map (the \<circ> condition) (filter_results config 0 fs) = map (the \<circ> condition) (filter_results config 0 gs)"
    using same_results [OF assms, of 0] by (metis map_map)
  then show ?thesis by (simp add: buildColumnFilters_def Let_def comp_def)
qed

end

text \<open>The text of a query is determined by its fixed parts and by the texts of its conditions.\<close>

lemma fst_add_result:
  "condition r = condition r' \<Longrightarrow> fst st = fst st' \<Longrightarrow> fst (add_result r st) = fst (add_result r' st')"
  by (simp add: add_result_def)

lemma fst_add_custom:
  "map fst cs = map fst cs' \<Longrightarrow> fst st = fst st' \<Longrightarrow> fst (add_custom cs st) = fst (add_custom cs' st')"
proof (induction cs arbitrary: cs' st st')
  case (Cons c cs)
  then obtain d cs'' where "cs' = d # cs''" "fst c = fst d" "map fst cs = map fst cs''" by (cases cs') auto
  then show ?case using Cons by (simp add: add_custom_def)
qed (simp add: add_custom_def)

lemma fst_add_filters:
  assumes "fs = [] \<longleftrightarrow> gs = []" and "\<And>c. config = Some c \<Longrightarrow> condition (buildColumnFilters fs c) = condition (buildColumnFilters gs c)"
    and "fst st = fst st'"
  shows "fst (add_filters fs config st) = fst (add_filters gs config st')"
proof (cases config)
  case None
  then show ?thesis by (simp add: add_filters_def assms(3))
next
  case (Some c)
  have "fst (add_result (buildColumnFilters fs c) st) = fst (add_result (buildColumnFilters gs c) st')"
    by (rule fst_add_result [OF assms(2) [OF Some] assms(3)])
  then show ?thesis using assms(1,3) by (simp add: add_filters_def Some)
qed

text \<open>The time range contributes a text that depends on which bounds are given, not on what they are.\<close>

definition time_shape :: "time_range \<Rightarrow> bool \<times> bool \<times> bool \<times> string" where
  "time_shape opt = (past_hours_given (pastHours opt), truthy (startTime opt), truthy (endTime opt), time_column opt)"

lemma time_condition_shape:
  "time_shape a = time_shape b \<Longrightarrow> condition (buildTimeRangeConditions a) = condition (buildTimeRangeConditions b)"
  by (simp add: time_shape_def buildTimeRangeConditions_def Let_def)

definition query_shape :: "select_query \<Rightarrow> select_query \<Rightarrow> bool" where
  "query_shape q q' =
     (columns q = columns q' \<and> table q = table q' \<and> groupBy q = groupBy q' \<and> orderBy q = orderBy q' \<and>
      (pagination q = None \<longleftrightarrow> pagination q' = None) \<and>
      map_option time_shape (timeRange q) = map_option time_shape (timeRange q') \<and>
      columnFilterConfig q = columnFilterConfig q' \<and> havingColumnFilterConfig q = havingColumnFilterConfig q' \<and>
      map fst (customConditions q) = map fst (customConditions q') \<and>
      map fst (customHavingConditions q) = map fst (customHavingConditions q'))"

lemma select_text:
  assumes shape: "query_shape q q'"
    and "filters q = [] \<longleftrightarrow> filters q' = []" and "havingFilters q = [] \<longleftrightarrow> havingFilters q' = []"
    and "\<And>c. columnFilterConfig q = Some c \<Longrightarrow>
      condition (buildColumnFilters (filters q) c) = condition (buildColumnFilters (filters q') c)"
    and "\<And>c. havingColumnFilterConfig q = Some c \<Longrightarrow>
      condition (buildColumnFilters (havingFilters q) c) = condition (buildColumnFilters (havingFilters q') c)"
  shows "query (buildSelectQuery q) = query (buildSelectQuery q')"
proof -
  have parts: "columns q = columns q'" "table q = table q'" "groupBy q = groupBy q'" "orderBy q = orderBy q'"
    "pagination q = None \<longleftrightarrow> pagination q' = None" "map_option time_shape (timeRange q) = map_option time_shape (timeRange q')"
    "columnFilterConfig q = columnFilterConfig q'" "havingColumnFilterConfig q = havingColumnFilterConfig q'"
    "map fst (customConditions q) = map fst (customConditions q')"
    "map fst (customHavingConditions q) = map fst (customHavingConditions q')"
    using shape by (simp_all only: query_shape_def)
  have time: "fst (case timeRange q of None \<Rightarrow> ([], []) | Some opt \<Rightarrow> add_result (buildTimeRangeConditions opt) ([], []))
      = fst (case timeRange q' of None \<Rightarrow> ([], []) | Some opt \<Rightarrow> add_result (buildTimeRangeConditions opt) ([], []))"
  proof (cases "timeRange q")
    case (Some a)
    then obtain b where b: "timeRange q' = Some b" and "time_shape a = time_shape b"
      using parts(6) by (cases "timeRange q'") auto
    have "fst (add_result (buildTimeRangeConditions a) ([], [])) = fst (add_result (buildTimeRangeConditions b) ([], []))"
      by (rule fst_add_result [OF time_condition_shape [OF \<open>time_shape a = time_shape b\<close>] refl])
    then show ?thesis by (simp add: Some b)
  qed (use parts(6) in simp)
  have w: "query (buildWhereClause q) = query (buildWhereClause q')"
    using fst_add_custom [OF parts(9) fst_add_filters [OF assms(2,4) time]] parts(7)
    by (simp add: buildWhereClause_def clause_def)
  have h: "query (buildHavingClause q) = query (buildHavingClause q')"
    using fst_add_custom [OF parts(10) fst_add_filters [where st = "([], [])" and st' = "([], [])", OF assms(3,5) refl]] parts(8)
    by (simp add: buildHavingClause_def clause_def)
  show ?thesis
  proof (cases "pagination q")
    case None
    then show ?thesis using parts(5) by (simp add: buildSelectQuery_def Let_def w h parts(1-4))
  next
    case (Some p)
    then obtain p' where "pagination q' = Some p'" using parts(5) by auto
    then show ?thesis by (simp add: Some buildSelectQuery_def Let_def w h parts(1-4) split: prod.split)
  qed
qed

section \<open>Parameters of a query\<close>

text \<open>The parameters of a query are merged from blocks, in order: the time range, the filters, each custom
  condition, the \<open>HAVING\<close> clause, the page. Blocks that share no name keep all their bindings.\<close>

definition time_block :: "select_query \<Rightarrow> params" where
  "time_block q = (case timeRange q of None \<Rightarrow> []
     | Some opt \<Rightarrow> if truthy (condition (buildTimeRangeConditions opt)) then cparams (buildTimeRangeConditions opt) else [])"

definition filter_block :: "column_filter list \<Rightarrow> column_config option \<Rightarrow> params" where
  "filter_block fs config = (case config of None \<Rightarrow> []
     | Some c \<Rightarrow> if truthy (condition (buildColumnFilters fs c)) then cparams (buildColumnFilters fs c) else [])"

definition page_block :: "select_query \<Rightarrow> params" where
  "page_block q = (case pagination q of None \<Rightarrow> []
     | Some (limit, offset) \<Rightarrow> [(''limit'', PNum (Fin limit)), (''offset'', PNum (Fin offset))])"

definition blocks :: "select_query \<Rightarrow> params list" where
  "blocks q = [time_block q, filter_block (filters q) (columnFilterConfig q)] @ map snd (customConditions q) @
     [filter_block (havingFilters q) (havingColumnFilterConfig q)] @ map snd (customHavingConditions q) @ [page_block q]"

definition disjoint_keys :: "params \<Rightarrow> params \<Rightarrow> bool" where
  "disjoint_keys a b = (fst ` set a \<inter> fst ` set b = {})"

lemma foldl_assign_keep:
  "\<forall>b\<in>set bs. k \<notin> fst ` set b \<and> distinct (map fst b) \<Longrightarrow> map_of (foldl assign m bs) k = map_of m k"
  by (induction bs arbitrary: m) (simp_all add: map_of_assign_old)

lemma blocks_bound:
  assumes "sorted_wrt disjoint_keys bs" and "\<forall>b\<in>set bs. distinct (map fst b)"
    and "b \<in> set bs" and "map_of b k = Some v"
  shows "map_of (foldl assign m bs) k = Some v"
  using assms
proof (induction bs arbitrary: m)
  case (Cons a bs)
  have k: "k \<in> fst ` set b" using Cons.prems(4) by (force dest: map_of_SomeD)
  show ?case
  proof (cases "b \<in> set bs")
    case True
    then show ?thesis using Cons by simp
  next
    case False
    then have b: "b = a" using Cons.prems(3) by simp
    then have "\<forall>c\<in>set bs. k \<notin> fst ` set c \<and> distinct (map fst c)"
      using Cons.prems(1,2) k by (auto simp: disjoint_keys_def)
    then have "map_of (foldl assign (assign m a) bs) k = map_of (assign m a) k" by (rule foldl_assign_keep)
    then show ?thesis using Cons.prems(2,4) by (simp add: b map_of_assign)
  qed
qed simp

lemma snd_add_result: "snd (add_result r st) = assign (snd st) (if truthy (condition r) then cparams r else [])"
  by (simp add: add_result_def)

lemma snd_add_custom: "snd (add_custom cs st) = foldl assign (snd st) (map snd cs)"
  by (induction cs arbitrary: st) (simp_all add: add_custom_def)

lemma condition_no_filters [simp]: "condition (buildColumnFilters [] c) = None"
  by (simp add: buildColumnFilters_def)

lemma snd_add_filters: "snd (add_filters fs config st) = assign (snd st) (filter_block fs config)"
  by (auto simp: add_filters_def filter_block_def snd_add_result split: option.splits)

lemma assign_self: "distinct (map fst ps) \<Longrightarrow> map_of (assign [] ps) k = map_of ps k"
  by (simp add: map_of_assign split: option.split)

lemma where_parameters:
  "parameters (buildWhereClause q) =
   foldl assign [] ([time_block q, filter_block (filters q) (columnFilterConfig q)] @ map snd (customConditions q))"
  by (simp add: buildWhereClause_def clause_def snd_add_custom snd_add_filters time_block_def snd_add_result split: option.split)

lemma having_parameters:
  "parameters (buildHavingClause q) =
   foldl assign [] (filter_block (havingFilters q) (havingColumnFilterConfig q) # map snd (customHavingConditions q))"
  by (simp add: buildHavingClause_def clause_def snd_add_custom snd_add_filters)

lemma select_parameters:
  "parameters (buildSelectQuery q) =
   assign (assign (parameters (buildWhereClause q)) (parameters (buildHavingClause q))) (page_block q)"
  by (auto simp: buildSelectQuery_def Let_def page_block_def split: option.splits)

lemma merge_blocks:
  assumes "\<forall>b\<in>set bs. distinct (map fst b)" and "distinct (map fst m)"
  shows "map_of (assign m (foldl assign [] bs)) k = map_of (foldl assign m bs) k"
  using assms
proof (induction bs rule: rev_induct)
  case (snoc b bs)
  have d: "distinct (map fst (foldl assign n cs))" if "distinct (map fst n)" for n cs
    using that by (induction cs arbitrary: n) simp_all
  show ?case
    using snoc d [of "[]" bs] by (simp add: map_of_assign split: option.splits)
qed simp

theorem query_parameters:
  assumes "\<forall>b\<in>set (blocks q). distinct (map fst b)"
  shows "map_of (parameters (buildSelectQuery q)) k = map_of (foldl assign [] (blocks q)) k"
proof -
  let ?h = "filter_block (havingFilters q) (havingColumnFilterConfig q) # map snd (customHavingConditions q)"
  have d: "distinct (map fst (foldl assign n cs))" if "distinct (map fst n)" for n cs
    using that by (induction cs arbitrary: n) simp_all
  have hs: "\<forall>b\<in>set ?h. distinct (map fst b)" and pg: "distinct (map fst (page_block q))"
    using assms by (simp_all add: blocks_def)
  have w: "distinct (map fst (parameters (buildWhereClause q)))"
    unfolding where_parameters by (rule d) simp
  have "map_of (assign (parameters (buildWhereClause q)) (parameters (buildHavingClause q))) k
      = map_of (foldl assign (parameters (buildWhereClause q)) ?h) k"
    unfolding having_parameters by (rule merge_blocks [OF hs w])
  then show ?thesis
    by (simp add: select_parameters map_of_assign [OF pg] blocks_def where_parameters split: option.splits)
qed

text \<open>The names of the time range and of the page.\<close>

lemma time_block_names: "fst ` set (time_block q) \<subseteq> {''startTime'', ''endTime'', ''pastHours''}"
  by (auto simp: time_block_def buildTimeRangeConditions_def Let_def assign_Cons split: option.splits if_splits)

lemma time_block_distinct [simp]: "distinct (map fst (time_block q))"
  by (auto simp: time_block_def buildTimeRangeConditions_def Let_def split: option.split)

lemma page_block_names: "fst ` set (page_block q) \<subseteq> {''limit'', ''offset''}"
  by (auto simp: page_block_def split: option.splits)

lemma page_block_distinct [simp]: "distinct (map fst (page_block q))"
  by (auto simp: page_block_def split: option.split)

text \<open>Custom conditions as the callers write them: each binds its own names, none of which has an underscore or is
  a name of the time range or of the page.\<close>

definition reserved_names :: "string set" where
  "reserved_names = {''startTime'', ''endTime'', ''pastHours'', ''limit'', ''offset''}"

definition custom_ok :: "(string \<times> params) list \<Rightarrow> bool" where
  "custom_ok cs = (sorted_wrt disjoint_keys (map snd cs) \<and>
     (\<forall>c\<in>set cs. distinct (map fst (snd c)) \<and>
        (\<forall>k\<in>fst ` set (snd c). CHR ''_'' \<notin> set k \<and> k \<notin> reserved_names)))"

text \<open>A block of filter parameters: every name has an underscore.\<close>

definition filter_names :: "params \<Rightarrow> bool" where
  "filter_names b = (distinct (map fst b) \<and> (\<forall>k\<in>fst ` set b. CHR ''_'' \<in> set k))"

lemma filter_names_Nil [simp]: "filter_names []"
  by (simp add: filter_names_def)

lemma reserved_no_underscore: "k \<in> reserved_names \<Longrightarrow> CHR ''_'' \<notin> set k"
  by (auto simp: reserved_names_def)

lemma time_block_reserved: "fst ` set (time_block q) \<subseteq> reserved_names"
  using time_block_names by (auto simp: reserved_names_def)

lemma page_block_reserved: "fst ` set (page_block q) \<subseteq> reserved_names"
  using page_block_names by (auto simp: reserved_names_def)

lemma disjoint_keysI: "\<lbrakk>\<And>k. k \<in> fst ` set a \<Longrightarrow> P k; \<And>k. k \<in> fst ` set b \<Longrightarrow> \<not> P k\<rbrakk> \<Longrightarrow> disjoint_keys a b"
  unfolding disjoint_keys_def by (intro equals0I) (metis IntE)

lemma time_page_disjoint: "disjoint_keys (time_block q) (page_block q)"
proof (rule disjoint_keysI [where P = "\<lambda>k. k \<in> {''startTime'', ''endTime'', ''pastHours''}"])
  show "k \<in> {''startTime'', ''endTime'', ''pastHours''}" if "k \<in> fst ` set (time_block q)" for k
    using time_block_names that by (rule subsetD)
  show "k \<notin> {''startTime'', ''endTime'', ''pastHours''}" if "k \<in> fst ` set (page_block q)" for k
    using subsetD [OF page_block_names that] by auto
qed

lemma disjoint_keys_sym: "disjoint_keys a b \<Longrightarrow> disjoint_keys b a"
  by (simp add: disjoint_keys_def Int_commute)

lemma filter_reserved_disjoint:
  assumes "filter_names b" and "fst ` set a \<subseteq> reserved_names"
  shows "disjoint_keys a b" "disjoint_keys b a"
proof -
  show "disjoint_keys a b"
    by (rule disjoint_keysI [where P = "\<lambda>k. CHR ''_'' \<notin> set k"])
      (use assms reserved_no_underscore in \<open>auto simp: filter_names_def\<close>)
  then show "disjoint_keys b a" by (rule disjoint_keys_sym)
qed

lemma custom_disjoint:
  assumes "custom_ok cs" and "c \<in> snd ` set cs"
  shows "filter_names b \<Longrightarrow> disjoint_keys c b"
    and "fst ` set a \<subseteq> reserved_names \<Longrightarrow> disjoint_keys c a"
proof -
  have c: "CHR ''_'' \<notin> set k \<and> k \<notin> reserved_names" if "k \<in> fst ` set c" for k
    using assms that by (auto simp: custom_ok_def)
  show "disjoint_keys c b" if "filter_names b"
    by (rule disjoint_keysI [where P = "\<lambda>k. CHR ''_'' \<notin> set k"]) (use c that in \<open>auto simp: filter_names_def\<close>)
  show "disjoint_keys c a" if "fst ` set a \<subseteq> reserved_names"
    by (rule disjoint_keysI [where P = "\<lambda>k. k \<notin> reserved_names"]) (use c that in auto)
qed

lemma blocks_separate:
  assumes fb: "filter_names (filter_block (filters q) (columnFilterConfig q))"
    and hb: "filter_names (filter_block (havingFilters q) (havingColumnFilterConfig q))"
    and fh: "disjoint_keys (filter_block (filters q) (columnFilterConfig q)) (filter_block (havingFilters q) (havingColumnFilterConfig q))"
    and cs: "custom_ok (customConditions q)" and none: "customHavingConditions q = []"
  shows "sorted_wrt disjoint_keys (blocks q)" and "\<forall>b\<in>set (blocks q). distinct (map fst b)"
proof -
  note c = custom_disjoint [OF cs]
  have tr: "fst ` set (time_block q) \<subseteq> reserved_names" and pr: "fst ` set (page_block q) \<subseteq> reserved_names"
    by (rule time_block_reserved, rule page_block_reserved)
  show "sorted_wrt disjoint_keys (blocks q)"
    using cs unfolding blocks_def none
    by (auto simp: sorted_wrt_append fh time_page_disjoint filter_reserved_disjoint [OF fb tr]
        filter_reserved_disjoint [OF fb pr] filter_reserved_disjoint [OF hb tr] filter_reserved_disjoint [OF hb pr]
        custom_ok_def c(1) [OF _ hb] c(2) [OF _ pr] disjoint_keys_sym [OF c(1) [OF _ fb]] disjoint_keys_sym [OF c(2) [OF _ tr]])
  show "\<forall>b\<in>set (blocks q). distinct (map fst b)"
    using fb hb cs by (auto simp: blocks_def none filter_names_def custom_ok_def)
qed

lemma query_binds:
  assumes "sorted_wrt disjoint_keys (blocks q)" and "\<forall>b\<in>set (blocks q). distinct (map fst b)"
    and "b \<in> set (blocks q)" and "map_of b k = Some v"
  shows "map_of (parameters (buildSelectQuery q)) k = Some v"
  using query_parameters [OF assms(2)] blocks_bound [OF assms] by simp

lemma join_nonempty: "s \<in> set xs \<Longrightarrow> s \<noteq> [] \<Longrightarrow> join sep xs \<noteq> []"
  by (induction sep xs rule: join.induct) auto

lemma in_filter_results:
  "j < length fs \<Longrightarrow> run_processor config (fs ! j) (param_key (fs ! j) (i + j)) = Some r \<Longrightarrow> condition r \<noteq> None \<Longrightarrow>
   r \<in> set (filter_results config i fs)"
proof (induction fs arbitrary: i j)
  case (Cons f fs)
  show ?case
  proof (cases j)
    case (Suc j')
    then show ?thesis using Cons.IH [of j' "Suc i"] Cons.prems by simp
  qed (use Cons.prems in simp)
qed simp

lemma buildColumnFilters_truthy:
  assumes "j < length fs" and "run_processor config (fs ! j) (param_key (fs ! j) j) = Some r" and "truthy (condition r)"
  shows "truthy (condition (buildColumnFilters fs config))"
proof -
  obtain s where s: "condition r = Some s" "s \<noteq> []" using assms(3) by (auto simp: truthy_iff)
  have "s \<in> set (filter (\<lambda>s. s \<noteq> []) (map (\<lambda>r. the (condition r)) (filter_results config 0 fs)))"
    using in_filter_results [of j fs config 0 r] assms s by force
  then have "filter (\<lambda>s. s \<noteq> []) (map (\<lambda>r. the (condition r)) (filter_results config 0 fs)) \<noteq> []"
    "join '' AND '' (filter (\<lambda>s. s \<noteq> []) (map (\<lambda>r. the (condition r)) (filter_results config 0 fs))) \<noteq> []"
    using s(2) join_nonempty by (force, blast)
  then show ?thesis by (simp add: buildColumnFilters_def Let_def)
qed

context own_names
begin

lemma block_names: "filter_names (filter_block fs (Some config))"
proof (cases "truthy (condition (buildColumnFilters fs config))")
  case True
  then have "filter_block fs (Some config) = cparams (buildColumnFilters fs config)" by (simp add: filter_block_def)
  then show ?thesis by (simp only: filter_names_def filters_distinct) (intro conjI TrueI ballI filters_underscore)
qed (simp add: filter_block_def)

lemma block_bound:
  assumes "j < length fs" and "run_processor config (fs ! j) (param_key (fs ! j) j) = Some r"
    and "truthy (condition r)" and "map_of (cparams r) k = Some v"
  shows "map_of (filter_block fs (Some config)) k = Some v"
  using filters_bound [OF assms(1,2) _ assms(4)] buildColumnFilters_truthy [OF assms(1-3)] assms(3)
  by (auto simp: filter_block_def truthy_iff)

text \<open>In a query of the code's shape every value that a filter, a custom condition, the time range or the page
  binds is the value its name has in the end.\<close>

lemma plain_query:
  assumes "columnFilterConfig q = Some config" and "havingColumnFilterConfig q = None"
    and "custom_ok (customConditions q)" and "customHavingConditions q = []"
  shows "\<And>j r. j < length (filters q) \<Longrightarrow> run_processor config (filters q ! j) (param_key (filters q ! j) j) = Some r \<Longrightarrow>
       truthy (condition r) \<Longrightarrow> map_of (cparams r) k = Some v \<Longrightarrow> map_of (parameters (buildSelectQuery q)) k = Some v"
    and "\<And>c. c \<in> set (customConditions q) \<Longrightarrow> map_of (snd c) k = Some v \<Longrightarrow> map_of (parameters (buildSelectQuery q)) k = Some v"
    and "map_of (time_block q) k = Some v \<Longrightarrow> map_of (parameters (buildSelectQuery q)) k = Some v"
    and "map_of (page_block q) k = Some v \<Longrightarrow> map_of (parameters (buildSelectQuery q)) k = Some v"
proof -
  have h: "filter_block (havingFilters q) (havingColumnFilterConfig q) = []" by (simp add: filter_block_def assms(2))
  have names: "filter_names (filter_block (filters q) (columnFilterConfig q))"
    "filter_names (filter_block (havingFilters q) (havingColumnFilterConfig q))"
    "disjoint_keys (filter_block (filters q) (columnFilterConfig q)) (filter_block (havingFilters q) (havingColumnFilterConfig q))"
    unfolding h assms(1) by (rule block_names, rule filter_names_Nil, simp add: disjoint_keys_def)
  note sep = blocks_separate [OF names assms(3,4)]
  note bind = query_binds [OF sep, of _ k v]
  show "map_of (parameters (buildSelectQuery q)) k = Some v"
    if "j < length (filters q)" "run_processor config (filters q ! j) (param_key (filters q ! j) j) = Some r"
      "truthy (condition r)" "map_of (cparams r) k = Some v" for j r
    by (rule bind [OF _ block_bound [OF that]]) (simp add: blocks_def assms(1))
  show "map_of (parameters (buildSelectQuery q)) k = Some v"
    if "c \<in> set (customConditions q)" "map_of (snd c) k = Some v" for c
    by (rule bind [OF _ that(2)]) (use that(1) in \<open>simp add: blocks_def\<close>)
  show "map_of (time_block q) k = Some v \<Longrightarrow> map_of (parameters (buildSelectQuery q)) k = Some v"
    by (rule bind [of "time_block q"]) (simp_all add: blocks_def)
  show "map_of (page_block q) k = Some v \<Longrightarrow> map_of (parameters (buildSelectQuery q)) k = Some v"
    by (rule bind [of "page_block q"]) (simp_all add: blocks_def)
qed

end

section \<open>The processors bind their own names\<close>

definition local_processor :: "processor \<Rightarrow> bool" where
  "local_processor p =
     (\<forall>f k. fst ` set (cparams (p f k)) \<subseteq> filter_keys k \<and> distinct (map fst (cparams (p f k))))"

named_theorems local_processors "processors that bind only the names of their filter"

lemma local_createStringFilter [local_processors]: "local_processor createStringFilter"
  by (simp add: local_processor_def createStringFilter_def filter_keys_def)

lemma local_createNumberFilter [local_processors]: "local_processor (createNumberFilter pl t)"
  by (simp add: local_processor_def createNumberFilter_def filter_keys_def)

lemma local_createArrayColumnFilter [local_processors]: "local_processor (createArrayColumnFilter pl t)"
  by (auto simp: local_processor_def createArrayColumnFilter_def filter_keys_def split: list.split)

lemma local_createCustomFilter:
  assumes "\<And>f k. fst ` set (ps f k) \<subseteq> filter_keys k \<and> distinct (map fst (ps f k))"
  shows "local_processor (createCustomFilter cond (Some ps))"
  using assms by (simp add: local_processor_def createCustomFilter_def)

lemma own_namesI:
  assumes "\<forall>p\<in>snd ` set (processors config). local_processor p"
    and "\<And>p. defaultProcessor config = Some p \<Longrightarrow> local_processor p"
  shows "own_names config"
proof -
  have "\<exists>p. local_processor p \<and> r = p f k" if run: "run_processor config f k = Some r" for f k r
  proof (cases "map_of (processors config) (fcolumn f)")
    case None
    then show ?thesis using run assms(2) by (auto simp: run_processor_def)
  next
    case (Some p)
    have "p \<in> snd ` set (processors config)" using map_of_SomeD [OF Some] by force
    then show ?thesis using run assms(1) Some by (auto simp: run_processor_def)
  qed
  then have "fst ` set (cparams r) \<subseteq> filter_keys k \<and> distinct (map fst (cparams r))"
    if "run_processor config f k = Some r" for f k r
    using that unfolding local_processor_def by blast
  then show ?thesis by unfold_locales simp_all
qed

section \<open>Quoted identifiers\<close>

text \<open>What a reader of backtick-quoted identifiers takes them for, where a doubled backtick stands for one: the
  identifier and the rest of the text.\<close>

fun read_quoted_body :: "string \<Rightarrow> (string \<times> string) option" where
  "read_quoted_body [] = None"
| "read_quoted_body (c # s) =
     (if c = CHR ''`'' then
        (case s of d # t \<Rightarrow> if d = CHR ''`'' then map_option (apfst ((#) c)) (read_quoted_body t) else Some ([], s)
         | [] \<Rightarrow> Some ([], []))
      else map_option (apfst ((#) c)) (read_quoted_body s))"

definition read_quoted :: "string \<Rightarrow> (string \<times> string) option" where
  "read_quoted s = (case s of c # t \<Rightarrow> if c = CHR ''`'' then read_quoted_body t else None | [] \<Rightarrow> None)"

lemma read_quoted_body_escape:
  "take 1 rest \<noteq> ''`'' \<Longrightarrow> read_quoted_body (replace_char (CHR ''`'') ''``'' s @ CHR ''`'' # rest) = Some (s, rest)"
proof (induction s)
  case Nil
  then show ?case by (cases rest) (simp_all add: replace_char_def)
next
  case (Cons c s)
  then show ?case by (simp add: replace_char_def)
qed

section \<open>A concrete platform\<close>

definition plain_query_platform :: query_platform where
  "plain_query_platform = \<lparr>compact = filter (\<lambda>v. v \<noteq> SStr [] \<and> v \<noteq> SNum 0), num_str = (\<lambda>x. show_int \<lfloor>x\<rfloor>)\<rparr>"

definition text_filter :: "string \<Rightarrow> operator \<Rightarrow> string \<Rightarrow> column_filter" where
  "text_filter c op' v = \<lparr>fdataType = None, fcolumn = c, foperator = op', fvalue = FScalar (SStr v)\<rparr>"

end
