(* ===== verification/TraceQueries.thy ===== *)
theory TraceQueries
  imports QueryBuilder
begin

text \<open>
  The queries of the trace, span and session lists (\<open>lib/actions/traces/utils.ts\<close>, \<open>lib/actions/spans/utils.ts\<close>,
  \<open>lib/actions/sessions/utils.ts\<close>): the filter configurations, the dynamic columns of a custom view, and the
  options each builder fills in. A missing list and an empty one, which the code treats alike, are both the
  empty list.
\<close>

section \<open>Traces\<close>

text \<open>A text between single quotes, and the select column that formats a time as ISO text.\<close>

definition sql_quote :: "string \<Rightarrow> string" where
  "sql_quote s = CHR 0x27 # s @ [CHR 0x27]"

definition iso_column :: "string \<Rightarrow> string \<Rightarrow> string" where
  "iso_column c alias = ''formatDateTime('' @ c @ '', '' @ sql_quote ''%Y-%m-%dT%H:%i:%S.%fZ'' @ '') as '' @ alias"

definition value_is :: "column_filter \<Rightarrow> string \<Rightarrow> bool" where
  "value_is f s = (fvalue f = FScalar (SStr s))"

definition status_condition :: "column_filter \<Rightarrow> string \<Rightarrow> string" where
  "status_condition f k =
     (if value_is f ''success'' then
        (if foperator f = Eq then ''status != '' @ sql_quote ''error'' else ''status = '' @ sql_quote ''error'')
      else if value_is f ''error'' then
        (if foperator f = Eq then ''status = '' @ sql_quote ''error'' else ''status != '' @ sql_quote ''error'')
      else ''status '' @ OperatorLabelMap (foperator f) @ '' '' @ hole k ''String'')"

definition status_params :: "column_filter \<Rightarrow> string \<Rightarrow> params" where
  "status_params f k = (if value_is f ''success'' \<or> value_is f ''error'' then [] else [(k, value_param (fvalue f))])"

text \<open>\<open>const [key, val] = String(filter.value).split("=", 2)\<close>, when both parts are there and not empty.\<close>

definition key_and_val :: "query_platform \<Rightarrow> filter_value \<Rightarrow> (string \<times> string) option" where
  "key_and_val pl v = (case split_pair (CHR ''='') (js_string pl v) of
     (k, Some u) \<Rightarrow> if k \<noteq> [] \<and> u \<noteq> [] then Some (k, u) else None
   | (k, None) \<Rightarrow> None)"

definition metadata_condition :: "query_platform \<Rightarrow> column_filter \<Rightarrow> string \<Rightarrow> string" where
  "metadata_condition pl f k = (case key_and_val pl (fvalue f) of
     Some _ \<Rightarrow> ''(simpleJSONExtractString(metadata, '' @ hole (k @ ''_key'') ''String'' @ '') = '' @ hole (k @ ''_val'') ''String'' @
       '' OR simpleJSONExtractRaw(metadata, '' @ hole (k @ ''_key'') ''String'' @ '') = '' @ hole (k @ ''_val'') ''String'' @ '')''
   | None \<Rightarrow> [])"

definition metadata_params :: "query_platform \<Rightarrow> column_filter \<Rightarrow> string \<Rightarrow> params" where
  "metadata_params pl f k = (case key_and_val pl (fvalue f) of
     Some (key, val) \<Rightarrow> [(k @ ''_key'', PStr key), (k @ ''_val'', PStr val)]
   | None \<Rightarrow> [])"

definition tracesColumnFilterConfig :: "query_platform \<Rightarrow> column_config" where
  "tracesColumnFilterConfig pl = \<lparr>processors =
     [(''id'', createStringFilter),
      (''session_id'', createStringFilter),
      (''user_id'', createStringFilter),
      (''status'', createCustomFilter status_condition (Some status_params)),
      (''trace_type'', createStringFilter),
      (''tags'', createArrayColumnFilter pl ''String''),
      (''trace_tags'', createArrayColumnFilter pl ''String''),
      (''total_cost'', createNumberFilter pl Float64),
      (''input_cost'', createNumberFilter pl Float64),
      (''output_cost'', createNumberFilter pl Float64),
      (''total_tokens'', createNumberFilter pl Int64),
      (''input_tokens'', createNumberFilter pl Int64),
      (''output_tokens'', createNumberFilter pl Int64),
      (''duration'', createNumberFilter pl Float64),
      (''metadata'', createCustomFilter (metadata_condition pl) (Some (metadata_params pl))),
      (''top_span_type'', createStringFilter),
      (''top_span_name'', createStringFilter),
      (''span_names'', createArrayColumnFilter pl ''String'')],
     defaultProcessor = None\<rparr>"

definition tracesSelectColumns :: "string list" where
  "tracesSelectColumns =
     [''id'',
      iso_column ''start_time'' ''startTime'',
      iso_column ''end_time'' ''endTime'',
      ''session_id as sessionId'',
      ''metadata'',
      ''tags as spanTags'',
      ''ifNull(trace_tags, []) as traceTags'',
      ''input_tokens as inputTokens'',
      ''output_tokens as outputTokens'',
      ''top_span_id as topSpanId'',
      ''top_span_name as topSpanName'',
      ''top_span_type as topSpanType'',
      ''total_tokens as totalTokens'',
      ''input_cost as inputCost'',
      ''output_cost as outputCost'',
      ''total_cost as totalCost'',
      ''trace_type as traceType'',
      ''status'',
      ''user_id as userId'',
      ''root_span_input as rootSpanInput'',
      ''root_span_output as rootSpanOutput'']"

text \<open>Columns a view adds; a database type other than the three allowed ones is read as \<open>String\<close>.\<close>

record custom_column =
  col_id :: string
  col_sql :: string
  col_filterSql :: "string option"
  col_dbType :: "string option"

definition custom_type :: "custom_column \<Rightarrow> string" where
  "custom_type col =
     (let t = (case col_dbType col of None \<Rightarrow> ''String'' | Some t \<Rightarrow> t)
      in if t \<in> {''String'', ''Float64'', ''Int64''} then t else ''String'')"

definition parse_db :: "string \<Rightarrow> string \<Rightarrow> param" where
  "parse_db t s = (if t = ''Int64'' then PNum (parseInt s) else if t = ''Float64'' then PNum (parseFloat s) else PStr s)"

definition custom_processor :: "query_platform \<Rightarrow> custom_column \<Rightarrow> processor" where
  "custom_processor pl col f k =
     (let t = custom_type col;
          v = parse_db t (js_string pl (fvalue f));
          sql = (case col_filterSql col of None \<Rightarrow> col_sql col | Some s \<Rightarrow> s)
      in if v = PNum NaN then \<lparr>condition = None, cparams = []\<rparr>
         else \<lparr>condition = Some (sql @ '' '' @ OperatorLabelMap (foperator f) @ '' '' @ hole k t),
               cparams = [(k, v)]\<rparr>)"

definition buildFilterConfigWithCustomColumns :: "query_platform \<Rightarrow> custom_column list \<Rightarrow> column_config" where
  "buildFilterConfigWithCustomColumns pl cols =
     (if cols = [] then tracesColumnFilterConfig pl
      else \<lparr>processors = foldl (\<lambda>m col. AList.update (col_id col) (custom_processor pl col) m)
              (processors (tracesColumnFilterConfig pl)) cols,
            defaultProcessor = None\<rparr>)"

record trace_options =
  o_traceType :: string
  o_traceIds :: "string list"
  o_filters :: "column_filter list"
  o_limit :: number
  o_offset :: number
  o_startTime :: "string option"
  o_endTime :: "string option"
  o_pastHours :: "string option"
  o_sortBy :: "string option"
  o_sortSql :: "string option"
  o_sortDirection :: "string option"
  o_customColumns :: "custom_column list"

text \<open>The conditions and the time range that the three builders share.\<close>

definition ids_condition :: "string \<Rightarrow> string \<Rightarrow> string list \<Rightarrow> (string \<times> params) list" where
  "ids_condition c k ids = (if ids = [] then []
     else [(c @ '' IN ('' @ hole k ''Array(UUID)'' @ '')'', [(k, PArr (map SStr ids))])])"

definition trace_conditions :: "trace_options \<Rightarrow> (string \<times> params) list" where
  "trace_conditions opt =
     (''trace_type = {traceType:String}'', [(''traceType'', PStr (o_traceType opt))]) #
     ids_condition ''id'' ''traceIds'' (o_traceIds opt)"

definition trace_range :: "trace_options \<Rightarrow> time_range" where
  "trace_range opt = \<lparr>startTime = o_startTime opt, endTime = o_endTime opt, pastHours = o_pastHours opt,
     timeColumn = Some ''start_time''\<rparr>"

definition trace_order :: "trace_options \<Rightarrow> (string \<times> string option) list" where
  "trace_order opt =
     (let d = Some (case o_sortDirection opt of None \<Rightarrow> ''DESC'' | Some d \<Rightarrow> d)
      in if truthy (o_sortBy opt) \<and> truthy (o_sortSql opt) then [(the (o_sortSql opt), d)] else [(''start_time'', d)])"

definition traces_query :: "query_platform \<Rightarrow> trace_options \<Rightarrow> select_query" where
  "traces_query pl opt =
     (select_from (tracesSelectColumns @ map (\<lambda>c. col_sql c @ '' as '' @ backtickEscape (col_id c)) (o_customColumns opt)) ''traces'')
       \<lparr>timeRange := Some (trace_range opt), filters := o_filters opt,
        columnFilterConfig := Some (buildFilterConfigWithCustomColumns pl (o_customColumns opt)),
        orderBy := trace_order opt, customConditions := trace_conditions opt,
        pagination := Some (o_limit opt, o_offset opt)\<rparr>"

definition buildTracesQueryWithParams :: "query_platform \<Rightarrow> trace_options \<Rightarrow> query_result" where
  "buildTracesQueryWithParams pl opt = buildSelectQuery (traces_query pl opt)"

definition traces_count_query :: "query_platform \<Rightarrow> trace_options \<Rightarrow> select_query" where
  "traces_count_query pl opt =
     (select_from [''count() as count''] ''traces'')
       \<lparr>timeRange := Some (trace_range opt), filters := o_filters opt,
        columnFilterConfig := Some (buildFilterConfigWithCustomColumns pl (o_customColumns opt)),
        customConditions := trace_conditions opt\<rparr>"

definition buildTracesCountQueryWithParams :: "query_platform \<Rightarrow> trace_options \<Rightarrow> query_result" where
  "buildTracesCountQueryWithParams pl opt = buildSelectQuery (traces_count_query pl opt)"

text \<open>The builder of the identifiers takes its limit separately, and only a page when there is one.\<close>

definition buildTracesIdsQueryWithParams :: "query_platform \<Rightarrow> trace_options \<Rightarrow> number option \<Rightarrow> query_result" where
  "buildTracesIdsQueryWithParams pl opt limit =
     buildSelectQuery ((select_from [''id''] ''traces'')
       \<lparr>timeRange := Some (trace_range opt), filters := o_filters opt,
        columnFilterConfig := Some (tracesColumnFilterConfig pl),
        orderBy := [(''start_time'', Some ''DESC'')], customConditions := trace_conditions opt,
        pagination := map_option (\<lambda>n. (n, 0)) limit\<rparr>)"

text \<open>The conditions of the statistics query, which walks the filters itself.\<close>

fun stats_filters :: "column_config \<Rightarrow> nat \<Rightarrow> column_filter list \<Rightarrow> clause_state \<Rightarrow> clause_state" where
  "stats_filters config i [] st = st"
| "stats_filters config i (f # fs) st =
     stats_filters config (Suc i) fs
       (case map_of (processors config) (fcolumn f) of None \<Rightarrow> st | Some p \<Rightarrow> add_result (p f (param_key f i)) st)"

definition buildTracesStatsWhereConditions :: "query_platform \<Rightarrow> trace_options \<Rightarrow> clause_state" where
  "buildTracesStatsWhereConditions pl opt =
     stats_filters (buildFilterConfigWithCustomColumns pl (o_customColumns opt)) 0 (o_filters opt)
       (add_custom (trace_conditions opt) ([], []))"

section \<open>Spans\<close>

definition spansColumnFilterConfig :: "query_platform \<Rightarrow> column_config" where
  "spansColumnFilterConfig pl = \<lparr>processors =
     [(''span_id'', createStringFilter),
      (''trace_id'', createStringFilter),
      (''name'', createStringFilter),
      (''span_type'', createStringFilter),
      (''status'', createCustomFilter status_condition (Some status_params)),
      (''tags'', createArrayColumnFilter pl ''String''),
      (''path'', createStringFilter),
      (''model'', createStringFilter),
      (''input_tokens'', createNumberFilter pl Float64),
      (''output_tokens'', createNumberFilter pl Float64),
      (''total_tokens'', createNumberFilter pl Float64),
      (''input_cost'', createNumberFilter pl Float64),
      (''output_cost'', createNumberFilter pl Float64),
      (''total_cost'', createNumberFilter pl Float64),
      (''duration'', createNumberFilter pl Float64)],
     defaultProcessor = None\<rparr>"

definition spansSelectColumns :: "string list" where
  "spansSelectColumns =
     [''span_id as spanId'',
      ''trace_id as traceId'',
      ''parent_span_id as parentSpanId'',
      ''name'',
      ''span_type as spanType'',
      iso_column ''start_time'' ''startTime'',
      iso_column ''end_time'' ''endTime'',
      ''input_cost as inputCost'',
      ''output_cost as outputCost'',
      ''total_cost as totalCost'',
      ''input_tokens as inputTokens'',
      ''output_tokens as outputTokens'',
      ''total_tokens as totalTokens'',
      ''status'',
      ''tags'',
      ''path'',
      ''model'',
      ''duration'',
      ''tool_definitions as toolDefinitions'']"

record span_options =
  sp_columns :: "string list option"
  sp_spanIds :: "string list"
  sp_filters :: "column_filter list"
  sp_limit :: "number option"
  sp_offset :: "number option"
  sp_startTime :: "string option"
  sp_endTime :: "string option"
  sp_pastHours :: "string option"
  sp_customConditions :: "(string \<times> params) list"
  sp_orderBy :: "(string \<times> string option) list option"

definition span_range :: "span_options \<Rightarrow> time_range" where
  "span_range opt = \<lparr>startTime = sp_startTime opt, endTime = sp_endTime opt, pastHours = sp_pastHours opt,
     timeColumn = Some ''start_time''\<rparr>"

definition span_conditions :: "span_options \<Rightarrow> (string \<times> params) list" where
  "span_conditions opt = sp_customConditions opt @ ids_condition ''span_id'' ''spanIds'' (sp_spanIds opt)"

definition both :: "number option \<Rightarrow> number option \<Rightarrow> (number \<times> number) option" where
  "both l o' = (case (l, o') of (Some x, Some y) \<Rightarrow> Some (x, y) | _ \<Rightarrow> None)"

definition spans_query :: "query_platform \<Rightarrow> span_options \<Rightarrow> select_query" where
  "spans_query pl opt =
     (select_from (case sp_columns opt of None \<Rightarrow> spansSelectColumns | Some cs \<Rightarrow> cs) ''spans'')
       \<lparr>timeRange := Some (span_range opt), filters := sp_filters opt,
        columnFilterConfig := Some (spansColumnFilterConfig pl), customConditions := span_conditions opt,
        orderBy := (case sp_orderBy opt of None \<Rightarrow> [(''start_time'', Some ''DESC'')] | Some os \<Rightarrow> os),
        pagination := both (sp_limit opt) (sp_offset opt)\<rparr>"

definition buildSpansQueryWithParams :: "query_platform \<Rightarrow> span_options \<Rightarrow> query_result" where
  "buildSpansQueryWithParams pl opt = buildSelectQuery (spans_query pl opt)"

definition buildSpansCountQueryWithParams :: "query_platform \<Rightarrow> span_options \<Rightarrow> query_result" where
  "buildSpansCountQueryWithParams pl opt =
     buildSelectQuery ((select_from [''COUNT(*) as count''] ''spans'')
       \<lparr>timeRange := Some (span_range opt), filters := sp_filters opt,
        columnFilterConfig := Some (spansColumnFilterConfig pl), customConditions := span_conditions opt\<rparr>)"

text \<open>The sub-query of the span list: the traces of the range, with its parameters.\<close>

definition buildTraceSubquery :: "string option \<Rightarrow> string option \<Rightarrow> string option \<Rightarrow> string \<times> params" where
  "buildTraceSubquery st et ph =
     (let r = buildSelectQuery ((select_from [''id''] ''traces'')
        \<lparr>timeRange := Some \<lparr>startTime = st, endTime = et, pastHours = ph, timeColumn = Some ''start_time''\<rparr>,
         customConditions := [(''trace_type = {traceType:String}'', [(''traceType'', PStr ''DEFAULT'')])],
         orderBy := [(''start_time'', Some ''DESC'')]\<rparr>)
      in (''trace_id IN ('' @ query r @ '')'', parameters r))"

section \<open>Sessions\<close>

definition session_tags_condition :: "column_filter \<Rightarrow> string \<Rightarrow> string" where
  "session_tags_condition f k =
     (if foperator f = Eq then ''has(tags, '' @ hole k ''String'' @ '')'' else ''NOT has(tags, '' @ hole k ''String'' @ '')'')"

definition sessionsWhereColumnFilterConfig :: column_config where
  "sessionsWhereColumnFilterConfig = \<lparr>processors =
     [(''session_id'', createStringFilter),
      (''user_id'', createStringFilter),
      (''tags'', createCustomFilter session_tags_condition (Some (\<lambda>f k. [(k, value_param (fvalue f))])))],
     defaultProcessor = None\<rparr>"

definition aggregate_filter :: "query_platform \<Rightarrow> string \<Rightarrow> processor" where
  "aggregate_filter pl expr = createCustomFilter
     (\<lambda>f k. expr @ '' '' @ OperatorLabelMap (foperator f) @ '' '' @ hole k ''Float64'')
     (Some (\<lambda>f k. [(k, PNum (parseFloat (js_string pl (fvalue f))))]))"

definition sessionsHavingColumnFilterConfig :: "query_platform \<Rightarrow> column_config" where
  "sessionsHavingColumnFilterConfig pl = \<lparr>processors =
     [(''trace_count'', aggregate_filter pl ''COUNT(*)''),
      (''input_tokens'', aggregate_filter pl ''SUM(input_tokens)''),
      (''output_tokens'', aggregate_filter pl ''SUM(output_tokens)''),
      (''total_tokens'', aggregate_filter pl ''SUM(total_tokens)''),
      (''input_cost'', aggregate_filter pl ''SUM(input_cost)''),
      (''output_cost'', aggregate_filter pl ''SUM(output_cost)''),
      (''total_cost'', aggregate_filter pl ''SUM(total_cost)''),
      (''duration'', aggregate_filter pl ''SUM(end_time - start_time)'')],
     defaultProcessor = None\<rparr>"

definition sessionsSelectColumns :: "string list" where
  "sessionsSelectColumns =
     [''session_id as sessionId'',
      ''COUNT(*) as traceCount'',
      ''SUM(input_tokens) as inputTokens'',
      ''SUM(output_tokens) as outputTokens'',
      ''SUM(total_tokens) as totalTokens'',
      iso_column ''MIN(start_time)'' ''startTime'',
      iso_column ''MAX(end_time)'' ''endTime'',
      ''SUM(end_time - start_time) as duration'',
      ''SUM(input_cost) as inputCost'',
      ''SUM(output_cost) as outputCost'',
      ''SUM(total_cost) as totalCost'',
      ''any(user_id) as userId'']"

datatype session_sort = SortStartTime | SortDuration | SortTotalTokens | SortTotalCost | SortTraceCount

fun SORT_COLUMN_MAP :: "session_sort \<Rightarrow> string" where
  "SORT_COLUMN_MAP SortStartTime = ''MIN(start_time)''"
| "SORT_COLUMN_MAP SortDuration = ''SUM(end_time - start_time)''"
| "SORT_COLUMN_MAP SortTotalTokens = ''SUM(total_tokens)''"
| "SORT_COLUMN_MAP SortTotalCost = ''SUM(total_cost)''"
| "SORT_COLUMN_MAP SortTraceCount = ''COUNT(*)''"

definition aggregateColumns :: "string list" where
  "aggregateColumns = [''trace_count'', ''input_tokens'', ''output_tokens'', ''total_tokens'', ''input_cost'',
     ''output_cost'', ''total_cost'', ''duration'']"

record session_options =
  se_columns :: "string list option"
  se_traceIds :: "string list"
  se_filters :: "column_filter list"
  se_limit :: "number option"
  se_offset :: "number option"
  se_startTime :: "string option"
  se_endTime :: "string option"
  se_pastHours :: "string option"
  se_sortColumn :: "session_sort option"
  se_sortDirection :: "string option"

definition where_filters :: "column_filter list \<Rightarrow> column_filter list" where
  "where_filters fs = filter (\<lambda>f. fcolumn f \<notin> set aggregateColumns) fs"

definition having_filters :: "column_filter list \<Rightarrow> column_filter list" where
  "having_filters fs = filter (\<lambda>f. fcolumn f \<in> set aggregateColumns) fs"

definition sessions_query :: "query_platform \<Rightarrow> session_options \<Rightarrow> select_query" where
  "sessions_query pl opt =
     (select_from (case se_columns opt of None \<Rightarrow> sessionsSelectColumns | Some cs \<Rightarrow> cs) ''traces'')
       \<lparr>timeRange := Some \<lparr>startTime = se_startTime opt, endTime = se_endTime opt, pastHours = se_pastHours opt,
          timeColumn = Some ''start_time''\<rparr>,
        filters := where_filters (se_filters opt), columnFilterConfig := Some sessionsWhereColumnFilterConfig,
        havingFilters := having_filters (se_filters opt), havingColumnFilterConfig := Some (sessionsHavingColumnFilterConfig pl),
        customConditions := ids_condition ''id'' ''traceIds'' (se_traceIds opt) @
          [(''session_id != '' @ sql_quote ''<null>'' @ '' AND session_id != '' @ sql_quote [], [])],
        groupBy := [''session_id''],
        orderBy := [(case se_sortColumn opt of None \<Rightarrow> ''MIN(start_time)'' | Some c \<Rightarrow> SORT_COLUMN_MAP c,
          Some (if se_sortDirection opt = Some ''ASC'' then ''ASC'' else ''DESC''))],
        pagination := both (se_limit opt) (se_offset opt)\<rparr>"

definition buildSessionsQueryWithParams :: "query_platform \<Rightarrow> session_options \<Rightarrow> query_result" where
  "buildSessionsQueryWithParams pl opt = buildSelectQuery (sessions_query pl opt)"

section \<open>What the configurations bind\<close>

lemma local_status [local_processors]: "local_processor (createCustomFilter cond (Some status_params))"
  by (rule local_createCustomFilter) (simp add: status_params_def filter_keys_def)

lemma local_metadata [local_processors]: "local_processor (createCustomFilter cond (Some (metadata_params pl)))"
  by (rule local_createCustomFilter) (auto simp: metadata_params_def filter_keys_def split: option.splits)

lemma local_custom [local_processors]: "local_processor (custom_processor pl col)"
  by (simp add: local_processor_def custom_processor_def Let_def filter_keys_def)

lemma local_session_tags [local_processors]:
  "local_processor (createCustomFilter cond (Some (\<lambda>f k. [(k, value_param (fvalue f))])))"
  by (rule local_createCustomFilter) (simp add: filter_keys_def)

lemma local_aggregate [local_processors]: "local_processor (aggregate_filter pl expr)"
  unfolding aggregate_filter_def by (rule local_createCustomFilter) (simp add: filter_keys_def)

lemma custom_processors:
  "\<forall>p\<in>snd ` set m. local_processor p \<Longrightarrow>
   \<forall>p\<in>snd ` set (foldl (\<lambda>m col. AList.update (col_id col) (custom_processor pl col) m) m cols). local_processor p"
proof (induction cols arbitrary: m)
  case (Cons col cols)
  have "\<forall>p\<in>snd ` set (AList.update (col_id col) (custom_processor pl col) m). local_processor p"
    using Cons.prems by (induction m) (auto simp: local_custom)
  then show ?case using Cons.IH by (simp del: ball_simps image_iff)
qed simp

lemma traces_local: "\<forall>p\<in>snd ` set (processors (tracesColumnFilterConfig pl)). local_processor p"
  by (simp add: tracesColumnFilterConfig_def local_processors)

interpretation traces: own_names "buildFilterConfigWithCustomColumns pl cols" for pl cols
proof (rule own_namesI)
  show "\<forall>p\<in>snd ` set (processors (buildFilterConfigWithCustomColumns pl cols)). local_processor p"
    using custom_processors [OF traces_local] traces_local by (simp add: buildFilterConfigWithCustomColumns_def)
  show "local_processor p" if "defaultProcessor (buildFilterConfigWithCustomColumns pl cols) = Some p" for p
    using that by (simp add: buildFilterConfigWithCustomColumns_def tracesColumnFilterConfig_def split: if_splits)
qed

interpretation spans: own_names "spansColumnFilterConfig pl" for pl
  by (rule own_namesI) (simp_all add: spansColumnFilterConfig_def local_processors)

interpretation sessions_where: own_names sessionsWhereColumnFilterConfig
  by (rule own_namesI) (simp_all add: sessionsWhereColumnFilterConfig_def local_processors)

interpretation sessions_having: own_names "sessionsHavingColumnFilterConfig pl" for pl
  by (rule own_namesI) (simp_all add: sessionsHavingColumnFilterConfig_def local_processors)

section \<open>Parameters reach the query\<close>

lemma ids_custom_ok:
  "CHR ''_'' \<notin> set k \<Longrightarrow> k \<notin> reserved_names \<Longrightarrow> custom_ok (ids_condition c k ids)"
  by (simp add: custom_ok_def ids_condition_def)

lemma trace_conditions_ok: "custom_ok (trace_conditions opt)"
  by (simp add: custom_ok_def trace_conditions_def ids_condition_def disjoint_keys_def reserved_names_def)

text \<open>
  Claim C7. The query of the trace list keeps every value: what a filter binds is what its placeholder has in
  the parameters that are sent, whatever the other filters are (also on the same column, or on columns of a
  custom view), and the trace type, the trace identifiers and the page keep theirs.
\<close>
theorem traces_query_binds:
  assumes "j < length (o_filters opt)"
    and "run_processor (buildFilterConfigWithCustomColumns pl (o_customColumns opt)) (o_filters opt ! j)
           (param_key (o_filters opt ! j) j) = Some r"
    and "truthy (condition r)" and "map_of (cparams r) k = Some v"
  shows "map_of (parameters (buildTracesQueryWithParams pl opt)) k = Some v
    \<and> map_of (parameters (buildTracesQueryWithParams pl opt)) ''traceType'' = Some (PStr (o_traceType opt))
    \<and> (o_traceIds opt \<noteq> [] \<longrightarrow>
        map_of (parameters (buildTracesQueryWithParams pl opt)) ''traceIds'' = Some (PArr (map SStr (o_traceIds opt))))
    \<and> map_of (parameters (buildTracesQueryWithParams pl opt)) ''limit'' = Some (PNum (Fin (o_limit opt)))
    \<and> map_of (parameters (buildTracesQueryWithParams pl opt)) ''offset'' = Some (PNum (Fin (o_offset opt)))"
proof -
  let ?q = "traces_query pl opt" and ?ids = "(''id IN ({traceIds:Array(UUID)})'', [(''traceIds'', PArr (map SStr (o_traceIds opt)))])"
  have q: "columnFilterConfig ?q = Some (buildFilterConfigWithCustomColumns pl (o_customColumns opt))"
    "havingColumnFilterConfig ?q = None" "custom_ok (customConditions ?q)" "customHavingConditions ?q = []"
    by (simp_all add: traces_query_def select_from_def trace_conditions_ok)
  note bind = traces.plain_query [OF q, folded buildTracesQueryWithParams_def]
  have fs: "filters ?q = o_filters opt" by (simp add: traces_query_def)
  have ids: "?ids \<in> set (customConditions ?q)" if "o_traceIds opt \<noteq> []"
    using that by (simp add: traces_query_def trace_conditions_def ids_condition_def hole_def)
  show ?thesis
    using bind(1) [unfolded fs, OF assms] bind(2) [OF ids, of "''traceIds''"]
      bind(2) [of "(''trace_type = {traceType:String}'', [(''traceType'', PStr (o_traceType opt))])" "''traceType''"]
      bind(4) [of "''limit''" "PNum (Fin (o_limit opt))"] bind(4) [of "''offset''" "PNum (Fin (o_offset opt))"]
    by (simp add: traces_query_def trace_conditions_def page_block_def)
qed

section \<open>The text of the trace query\<close>

text \<open>What the text of the trace query can depend on in a filter: its column and operator, whether the status is one
  of the two named ones, how many of the values are there (none, one, more), whether a metadata value has both
  its parts, and whether the value reads as a number.\<close>

definition trace_view ::
  "query_platform \<Rightarrow> column_filter \<Rightarrow> string \<times> operator \<times> bool \<times> bool \<times> nat \<times> bool \<times> bool \<times> bool" where
  "trace_view pl f = (fcolumn f, foperator f, value_is f ''success'', value_is f ''error'',
     min 2 (length (compact pl (value_list (fvalue f)))), key_and_val pl (fvalue f) = None,
     parseInt (js_string pl (fvalue f)) = NaN, parseFloat (js_string pl (fvalue f)) = NaN)"

definition blind_processor :: "(column_filter \<Rightarrow> 'v) \<Rightarrow> processor \<Rightarrow> bool" where
  "blind_processor view p = (\<forall>f g k. view f = view g \<longrightarrow> condition (p f k) = condition (p g k))"

lemma blind_array: "blind_processor (trace_view pl) (createArrayColumnFilter pl t)"
  unfolding blind_processor_def
proof (intro allI impI)
  fix f g k assume v: "trace_view pl f = trace_view pl g"
  show "condition (createArrayColumnFilter pl t f k) = condition (createArrayColumnFilter pl t g k)"
  proof (cases "compact pl (value_list (fvalue f))" rule: remdups_adj.cases)
    case 1
    then have "compact pl (value_list (fvalue g)) = []" using v by (auto simp: trace_view_def min_def split: if_splits)
    then show ?thesis using 1 by (simp add: createArrayColumnFilter_def)
  next
    case (2 x)
    then have "length (compact pl (value_list (fvalue g))) = 1" using v by (auto simp: trace_view_def min_def split: if_splits)
    then show ?thesis using v 2 by (auto simp: createArrayColumnFilter_def trace_view_def length_Suc_conv)
  next
    case (3 x y zs)
    then have "2 \<le> length (compact pl (value_list (fvalue g)))" using v by (auto simp: trace_view_def min_def split: if_splits)
    then obtain x' y' zs' where "compact pl (value_list (fvalue g)) = x' # y' # zs'"
      by (metis Suc_le_length_iff numeral_2_eq_2)
    then show ?thesis using v 3 by (simp add: createArrayColumnFilter_def trace_view_def)
  qed
qed

lemma blind_simple:
  "blind_processor (trace_view pl) createStringFilter"
  "blind_processor (trace_view pl) (createNumberFilter pl t)"
  "blind_processor (trace_view pl) (createCustomFilter status_condition ps)"
  by (simp_all add: blind_processor_def trace_view_def createStringFilter_def createNumberFilter_def
      createCustomFilter_def status_condition_def)

lemma blind_metadata: "blind_processor (trace_view pl) (createCustomFilter (metadata_condition pl) ps)"
  by (auto simp: blind_processor_def trace_view_def createCustomFilter_def metadata_condition_def split: option.splits)

lemma blind_custom: "blind_processor (trace_view pl) (custom_processor pl col)"
  by (simp add: blind_processor_def trace_view_def custom_processor_def Let_def parse_db_def)

lemma blind_traces: "\<forall>p\<in>snd ` set (processors (tracesColumnFilterConfig pl)). blind_processor (trace_view pl) p"
  by (simp add: tracesColumnFilterConfig_def blind_array blind_simple blind_metadata)

lemma blind_custom_processors:
  "\<forall>p\<in>snd ` set m. blind_processor (trace_view pl) p \<Longrightarrow>
   \<forall>p\<in>snd ` set (foldl (\<lambda>m col. AList.update (col_id col) (custom_processor pl col) m) m cols). blind_processor (trace_view pl) p"
proof (induction cols arbitrary: m)
  case (Cons col cols)
  have "\<forall>p\<in>snd ` set (AList.update (col_id col) (custom_processor pl col) m). blind_processor (trace_view pl) p"
    using Cons.prems by (induction m) (auto simp: blind_custom)
  then show ?case using Cons.IH by (simp del: ball_simps image_iff)
qed simp

lemma blind_config:
  assumes "\<forall>p\<in>snd ` set (processors config). blind_processor view p" and "defaultProcessor config = None"
    and "\<And>f g. view f = view g \<Longrightarrow> fcolumn f = fcolumn g"
  shows "value_blind config view"
proof
  show "map_option condition (run_processor config f k) = map_option condition (run_processor config g k)"
    if v: "view f = view g" for f g k
  proof (cases "map_of (processors config) (fcolumn g)")
    case None
    then show ?thesis using assms(3) [OF v] by (simp add: run_processor_def assms(2))
  next
    case (Some p)
    have "p \<in> snd ` set (processors config)" using map_of_SomeD [OF Some] by force
    then have "blind_processor view p" by (rule bspec [OF assms(1)])
    then have "condition (p f k) = condition (p g k)" using v unfolding blind_processor_def by blast
    then show ?thesis by (simp add: run_processor_def Some assms(3) [OF v])
  qed
  show "sanitize (fcolumn f) = sanitize (fcolumn g)" if "view f = view g" for f g
    by (simp add: assms(3) [OF that])
qed

interpretation traces_text: value_blind "buildFilterConfigWithCustomColumns pl cols" "trace_view pl" for pl cols
proof (rule blind_config)
  show "\<forall>p\<in>snd ` set (processors (buildFilterConfigWithCustomColumns pl cols)). blind_processor (trace_view pl) p"
    using blind_custom_processors [OF blind_traces] blind_traces by (simp add: buildFilterConfigWithCustomColumns_def)
  show "defaultProcessor (buildFilterConfigWithCustomColumns pl cols) = None"
    by (simp add: buildFilterConfigWithCustomColumns_def tracesColumnFilterConfig_def)
  show "fcolumn f = fcolumn g" if "trace_view pl f = trace_view pl g" for f g using that by (simp add: trace_view_def)
qed

text \<open>
  No value a user enters reaches the text of the trace query: two requests with the same columns and order
  whose filters agree in column, operator and kind of value, and which give the same time bounds, have the
  same query text, whatever the values, bounds, trace types, identifiers and pages are.
\<close>
lemma traces_text_has_no_values:
  assumes "map (trace_view pl) (o_filters a) = map (trace_view pl) (o_filters b)"
    and "time_shape (trace_range a) = time_shape (trace_range b)"
    and "o_traceIds a = [] \<longleftrightarrow> o_traceIds b = []"
    and "o_customColumns a = o_customColumns b" and "trace_order a = trace_order b"
  shows "query (buildTracesQueryWithParams pl a) = query (buildTracesQueryWithParams pl b)"
  unfolding buildTracesQueryWithParams_def
proof (rule select_text)
  show "query_shape (traces_query pl a) (traces_query pl b)"
    using assms(2-5) by (simp add: query_shape_def traces_query_def select_from_def trace_conditions_def ids_condition_def)
  show "filters (traces_query pl a) = [] \<longleftrightarrow> filters (traces_query pl b) = []"
    using assms(1) by (auto simp: traces_query_def)
  show "havingFilters (traces_query pl a) = [] \<longleftrightarrow> havingFilters (traces_query pl b) = []"
    by (simp add: traces_query_def select_from_def)
  show "condition (buildColumnFilters (filters (traces_query pl a)) c) = condition (buildColumnFilters (filters (traces_query pl b)) c)"
    if "columnFilterConfig (traces_query pl a) = Some c" for c
    using that traces_text.same_text [OF assms(1)] by (auto simp: traces_query_def)
  show "condition (buildColumnFilters (havingFilters (traces_query pl a)) c) = condition (buildColumnFilters (havingFilters (traces_query pl b)) c)"
    if "havingColumnFilterConfig (traces_query pl a) = Some c" for c
    using that by (simp add: traces_query_def select_from_def)
qed

section \<open>Parameters of the session query\<close>

text \<open>A session query has filters in \<open>WHERE\<close> and in \<open>HAVING\<close>, both numbered from 0. Their columns differ, so their
  names do.\<close>

lemma where_columns: "run_processor sessionsWhereColumnFilterConfig f k \<noteq> None \<Longrightarrow> fcolumn f \<in> {''session_id'', ''user_id'', ''tags''}"
  by (auto simp: run_processor_def sessionsWhereColumnFilterConfig_def split: if_splits)

lemma having_columns: "run_processor (sessionsHavingColumnFilterConfig pl) f k \<noteq> None \<Longrightarrow> fcolumn f \<in> set aggregateColumns"
  by (auto simp: run_processor_def sessionsHavingColumnFilterConfig_def aggregateColumns_def split: if_splits)

lemma sanitize_id: "\<forall>c\<in>set s. is_word c \<Longrightarrow> sanitize s = s"
  by (simp add: sanitize_def map_idI)

lemma session_columns_words: "s \<in> {''session_id'', ''user_id'', ''tags''} \<union> set aggregateColumns \<Longrightarrow> \<forall>c\<in>set s. is_word c"
  by (auto simp: aggregateColumns_def is_word_def char_between_def is_digit_def)

lemma session_blocks_disjoint:
  "disjoint_keys (cparams (buildColumnFilters fs sessionsWhereColumnFilterConfig))
     (cparams (buildColumnFilters gs (sessionsHavingColumnFilterConfig pl)))"
  unfolding disjoint_keys_def
proof (rule equals0I)
  fix k
  assume k: "k \<in> fst ` set (cparams (buildColumnFilters fs sessionsWhereColumnFilterConfig)) \<inter>
    fst ` set (cparams (buildColumnFilters gs (sessionsHavingColumnFilterConfig pl)))"
  obtain i where i: "k \<in> filter_keys (param_key (fs ! i) i)" "fcolumn (fs ! i) \<in> {''session_id'', ''user_id'', ''tags''}"
    using sessions_where.filters_names [OF IntD1 [OF k]] where_columns by blast
  obtain j where j: "k \<in> filter_keys (param_key (gs ! j) j)" "fcolumn (gs ! j) \<in> set aggregateColumns"
    using sessions_having.filters_names [OF IntD2 [OF k]] having_columns by blast
  have "sanitize (fcolumn (fs ! i)) = sanitize (fcolumn (gs ! j))" by (rule filter_keys_column [OF i(1) j(1)])
  moreover have "sanitize (fcolumn (fs ! i)) = fcolumn (fs ! i)" "sanitize (fcolumn (gs ! j)) = fcolumn (gs ! j)"
    using sanitize_id [OF session_columns_words [OF UnI1 [OF i(2)]]] sanitize_id [OF session_columns_words [OF UnI2 [OF j(2)]]]
    by simp_all
  ultimately have "fcolumn (fs ! i) = fcolumn (gs ! j)" by simp
  then show False using i(2) j(2) by (auto simp: aggregateColumns_def)
qed

lemma session_separate:
  "sorted_wrt disjoint_keys (blocks (sessions_query pl opt))"
  "\<forall>b\<in>set (blocks (sessions_query pl opt)). distinct (map fst b)"
proof -
  let ?q = "sessions_query pl opt"
  have q: "columnFilterConfig ?q = Some sessionsWhereColumnFilterConfig"
    "havingColumnFilterConfig ?q = Some (sessionsHavingColumnFilterConfig pl)" "customHavingConditions ?q = []"
    by (simp_all add: sessions_query_def select_from_def)
  have "disjoint_keys (filter_block (filters ?q) (columnFilterConfig ?q)) (filter_block (havingFilters ?q) (havingColumnFilterConfig ?q))"
    using session_blocks_disjoint [of "filters ?q" "havingFilters ?q" pl]
    by (cases "truthy (condition (buildColumnFilters (filters ?q) sessionsWhereColumnFilterConfig))";
        cases "truthy (condition (buildColumnFilters (havingFilters ?q) (sessionsHavingColumnFilterConfig pl)))")
      (simp_all add: filter_block_def q disjoint_keys_def)
  moreover have "custom_ok (customConditions ?q)"
    by (simp add: sessions_query_def custom_ok_def ids_condition_def disjoint_keys_def reserved_names_def)
  ultimately show "sorted_wrt disjoint_keys (blocks ?q)" "\<forall>b\<in>set (blocks ?q). distinct (map fst b)"
    using blocks_separate [of ?q] sessions_where.block_names sessions_having.block_names q by simp_all
qed

text \<open>
  A session query, whose filters are divided into a \<open>WHERE\<close> and a \<open>HAVING\<close> clause that number their
  placeholders independently, keeps the value of every filter of both.
\<close>
lemma sessions_query_binds:
  assumes "j < length (where_filters (se_filters opt))"
    and "run_processor sessionsWhereColumnFilterConfig (where_filters (se_filters opt) ! j)
           (param_key (where_filters (se_filters opt) ! j) j) = Some r"
    and "truthy (condition r)" and "map_of (cparams r) k = Some v"
    and "j' < length (having_filters (se_filters opt))"
    and "run_processor (sessionsHavingColumnFilterConfig pl) (having_filters (se_filters opt) ! j')
           (param_key (having_filters (se_filters opt) ! j') j') = Some r'"
    and "truthy (condition r')" and "map_of (cparams r') k' = Some v'"
  shows "map_of (parameters (buildSessionsQueryWithParams pl opt)) k = Some v
    \<and> map_of (parameters (buildSessionsQueryWithParams pl opt)) k' = Some v'"
proof -
  note bind = query_binds [OF session_separate, of _ pl opt, folded buildSessionsQueryWithParams_def]
  show ?thesis
    using bind [OF _ sessions_where.block_bound [OF assms(1-4)]] bind [OF _ sessions_having.block_bound [OF assms(5-8)]]
    by (simp add: blocks_def sessions_query_def)
qed

section \<open>Two bounds on one column\<close>

definition two_bounds :: trace_options where
  "two_bounds = \<lparr>o_traceType = ''DEFAULT'', o_traceIds = [], o_filters = [text_filter ''total_tokens'' Gte ''10'',
     text_filter ''total_tokens'' Lte ''20''], o_limit = 50, o_offset = 0, o_startTime = None, o_endTime = None,
     o_pastHours = Some ''24'', o_sortBy = None, o_sortSql = None, o_sortDirection = None, o_customColumns = []\<rparr>"

lemma traces_query_binds_witness:
  "map_of (parameters (buildTracesQueryWithParams plain_query_platform two_bounds)) (param_key (text_filter ''total_tokens'' Lte ''20'') 1)
    = Some (PNum (parseInt ''20''))"
  by (rule conjunct1 [OF traces_query_binds [where j = 1 and r = "createNumberFilter plain_query_platform Int64
        (text_filter ''total_tokens'' Lte ''20'') (param_key (text_filter ''total_tokens'' Lte ''20'') 1)"]])
    (simp_all add: two_bounds_def buildFilterConfigWithCustomColumns_def tracesColumnFilterConfig_def run_processor_def
      text_filter_def createNumberFilter_def)

definition session_filters :: session_options where
  "session_filters = \<lparr>se_columns = None, se_traceIds = [], se_filters = [text_filter ''trace_count'' Gt ''3'',
     text_filter ''user_id'' Eq ''u''], se_limit = None, se_offset = None, se_startTime = None, se_endTime = None,
     se_pastHours = None, se_sortColumn = None, se_sortDirection = None\<rparr>"

lemma sessions_query_binds_witness:
  "map_of (parameters (buildSessionsQueryWithParams plain_query_platform session_filters)) (param_key (text_filter ''user_id'' Eq ''u'') 0)
      = Some (PStr ''u'') \<and>
   map_of (parameters (buildSessionsQueryWithParams plain_query_platform session_filters)) (param_key (text_filter ''trace_count'' Gt ''3'') 0)
      = Some (PNum (parseFloat ''3''))"
  by (rule sessions_query_binds [where j = 0 and j' = 0
        and r = "createStringFilter (text_filter ''user_id'' Eq ''u'') (param_key (text_filter ''user_id'' Eq ''u'') 0)"
        and r' = "aggregate_filter plain_query_platform ''COUNT(*)'' (text_filter ''trace_count'' Gt ''3'')
           (param_key (text_filter ''trace_count'' Gt ''3'') 0)"])
    (simp_all add: session_filters_def where_filters_def having_filters_def aggregateColumns_def run_processor_def
      sessionsWhereColumnFilterConfig_def sessionsHavingColumnFilterConfig_def text_filter_def createStringFilter_def
      aggregate_filter_def createCustomFilter_def)

lemma traces_text_has_no_values_witness:
  "query (buildTracesQueryWithParams plain_query_platform (two_bounds\<lparr>o_filters := [text_filter ''user_id'' Eq ''u'']\<rparr>)) =
   query (buildTracesQueryWithParams plain_query_platform (two_bounds\<lparr>o_filters := [text_filter ''user_id'' Eq ''x OR 1'']\<rparr>))"
  by (rule traces_text_has_no_values)
    (simp_all add: two_bounds_def trace_view_def text_filter_def value_is_def plain_query_platform_def key_and_val_def
      split_pair_def parseInt_def parse_int_with_def parseFloat_def trim_start_def is_space_def char_between_def
      read_sign_def is_digit_def trace_range_def trace_order_def)

end
