(* ===== verification/EventQueries.thy ===== *)
theory EventQueries
  imports TraceQueries
begin

text \<open>
  The queries of signal events (\<open>lib/actions/events/utils.ts\<close>), signal runs (\<open>lib/actions/signal-runs/utils.ts\<close>)
  and datapoints (\<open>lib/actions/datapoints/utils.ts\<close>, \<open>lib/actions/datapoints/versions/index.ts\<close>). An event is
  filtered by any field of its payload, so the column of a filter is a text the user chooses.
\<close>

section \<open>Events\<close>

definition severity_filter :: "query_platform \<Rightarrow> processor" where
  "severity_filter pl f k =
     \<lparr>condition = Some (''severity '' @ OperatorLabelMap (foperator f) @ '' '' @ hole k ''UInt8''),
      cparams = [(k, PNum (parseInt10 (js_string pl (fvalue f))))]\<rparr>"

definition payload_field :: "string \<Rightarrow> string" where
  "payload_field c = (if take 8 c = ''payload.'' then drop 8 c else c)"

definition payload_filter :: "query_platform \<Rightarrow> processor" where
  "payload_filter pl f k =
     (let field = PStr (payload_field (fcolumn f));
          op' = OperatorLabelMap (foperator f);
          key = hole (k @ ''_key'') ''String''
      in if fdataType f = Some DNumber then
           \<lparr>condition = Some (''(simpleJSONExtractFloat(payload, '' @ key @ '') '' @ op' @ '' '' @ hole (k @ ''_val'') ''Float64'' @ '')''),
            cparams = [(k @ ''_key'', field), (k @ ''_val'', PNum (parseFloat (js_string pl (fvalue f))))]\<rparr>
         else if fdataType f = Some DBoolean then
           \<lparr>condition = Some (''(simpleJSONExtractBool(payload, '' @ key @ '') '' @ op' @ '' '' @ hole (k @ ''_val'') ''Bool'' @ '')''),
            cparams = [(k @ ''_key'', field),
              (k @ ''_val'', PStr (if js_string pl (fvalue f) = ''true'' then ''true'' else ''false''))]\<rparr>
         else
           \<lparr>condition = Some (''(simpleJSONExtractString(payload, '' @ key @ '') '' @ op' @ '' '' @ hole (k @ ''_val'') ''String'' @
              '' OR simpleJSONExtractRaw(payload, '' @ key @ '') '' @ op' @ '' '' @ hole (k @ ''_val'') ''String'' @ '')''),
            cparams = [(k @ ''_key'', field), (k @ ''_val'', PStr (js_string pl (fvalue f)))]\<rparr>)"

definition eventsColumnFilterConfig :: "query_platform \<Rightarrow> column_config" where
  "eventsColumnFilterConfig pl = \<lparr>processors =
     [(''id'', createStringFilter), (''trace_id'', createStringFilter), (''run_id'', createStringFilter),
      (''severity'', severity_filter pl)],
     defaultProcessor = Some (payload_filter pl)\<rparr>"

definition eventsSelectColumns :: "string list" where
  "eventsSelectColumns = [''id'', ''signal_id signalId'', ''trace_id traceId'', iso_column ''timestamp'' ''timestamp'',
     ''payload'', ''severity'']"

datatype cluster_filter = Unclustered | Clusters "string list"

definition buildClusterConditions :: "cluster_filter option \<Rightarrow> (string \<times> params) list" where
  "buildClusterConditions c = (case c of
     None \<Rightarrow> []
   | Some Unclustered \<Rightarrow> [(''empty(clusters)'', [])]
   | Some (Clusters ids) \<Rightarrow> [(''hasAny(clusters, {clusterIds:Array(UUID)})'', [(''clusterIds'', PArr (map SStr ids))])])"

definition buildIdFilterConditions :: "string list option \<Rightarrow> (string \<times> params) list" where
  "buildIdFilterConditions ids = (case ids of
     None \<Rightarrow> [] | Some xs \<Rightarrow> [(''id IN {ids:Array(UUID)}'', [(''ids'', PArr (map SStr xs))])])"

record event_options =
  ev_signalId :: string
  ev_filters :: "column_filter list"
  ev_limit :: number
  ev_offset :: number
  ev_startTime :: "string option"
  ev_endTime :: "string option"
  ev_pastHours :: "string option"
  ev_clusterFilter :: "cluster_filter option"
  ev_idFilter :: "string list option"
  ev_table :: "string option"

definition event_conditions :: "event_options \<Rightarrow> (string \<times> params) list" where
  "event_conditions opt = (''signal_id = {signalId:UUID}'', [(''signalId'', PStr (ev_signalId opt))]) #
     buildClusterConditions (ev_clusterFilter opt) @ buildIdFilterConditions (ev_idFilter opt)"

definition event_table :: "event_options \<Rightarrow> string" where
  "event_table opt = (case ev_table opt of None \<Rightarrow> ''signal_events'' | Some t \<Rightarrow> t)"

definition event_range :: "event_options \<Rightarrow> string \<Rightarrow> time_range" where
  "event_range opt col = \<lparr>startTime = ev_startTime opt, endTime = ev_endTime opt, pastHours = ev_pastHours opt,
     timeColumn = Some col\<rparr>"

definition events_query :: "query_platform \<Rightarrow> event_options \<Rightarrow> select_query" where
  "events_query pl opt =
     (select_from eventsSelectColumns (event_table opt))
       \<lparr>timeRange := Some (event_range opt (event_table opt @ ''.timestamp'')), filters := ev_filters opt,
        columnFilterConfig := Some (eventsColumnFilterConfig pl), customConditions := event_conditions opt,
        orderBy := [(''timestamp'', Some ''DESC'')], pagination := Some (ev_limit opt, ev_offset opt)\<rparr>"

definition buildEventsQueryWithParams :: "query_platform \<Rightarrow> event_options \<Rightarrow> query_result" where
  "buildEventsQueryWithParams pl opt = buildSelectQuery (events_query pl opt)"

definition buildEventsCountQueryWithParams :: "query_platform \<Rightarrow> event_options \<Rightarrow> query_result" where
  "buildEventsCountQueryWithParams pl opt =
     buildSelectQuery ((select_from [''COUNT(*) as count''] (event_table opt))
       \<lparr>timeRange := Some (event_range opt ''timestamp''), filters := ev_filters opt,
        columnFilterConfig := Some (eventsColumnFilterConfig pl), customConditions := event_conditions opt\<rparr>)"

section \<open>Signal runs\<close>

definition signalRunsSelectColumns :: "string list" where
  "signalRunsSelectColumns = [''job_id jobId'', ''run_id runId'', ''trace_id traceId'', ''trigger_id triggerId'',
     iso_column ''updated_at'' ''updatedAt'', ''status'', ''event_id eventId'', ''input_tokens inputTokens'',
     ''cache_read_tokens cacheReadTokens'', ''output_tokens outputTokens'']"

definition signalRunsColumnFilterConfig :: column_config where
  "signalRunsColumnFilterConfig = \<lparr>processors =
     [(''job_id'', createStringFilter), (''run_id'', createStringFilter), (''trace_id'', createStringFilter),
      (''trigger_id'', createStringFilter), (''event_id'', createStringFilter), (''status'', createStringFilter)],
     defaultProcessor = None\<rparr>"

definition buildSignalRunsQueryWithParams ::
  "string \<Rightarrow> column_filter list \<Rightarrow> number \<Rightarrow> number \<Rightarrow> string option \<Rightarrow> string option \<Rightarrow> string option \<Rightarrow> query_result" where
  "buildSignalRunsQueryWithParams signalId fs limit offset st et ph =
     buildSelectQuery ((select_from signalRunsSelectColumns ''signal_runs'')
       \<lparr>timeRange := Some \<lparr>startTime = st, endTime = et, pastHours = ph, timeColumn = Some ''updated_at''\<rparr>,
        filters := fs, columnFilterConfig := Some signalRunsColumnFilterConfig,
        customConditions := [(''signal_id = {signalId:UUID}'', [(''signalId'', PStr signalId)])],
        orderBy := [(''updated_at'', Some ''DESC'')], pagination := Some (limit, offset)\<rparr>)"

section \<open>Datapoints\<close>

definition datapointSelectColumns :: "string list" where
  "datapointSelectColumns = [''id'', ''dataset_id as datasetId'', iso_column ''created_at'' ''createdAt'', ''data'', ''target'',
     ''metadata'']"

definition datapointSelectColumnsWithSubstring :: "string list" where
  "datapointSelectColumnsWithSubstring = [''id'', ''dataset_id as datasetId'', iso_column ''created_at'' ''createdAt'',
     ''substring(data, 1, 1000) as data'', ''substring(target, 1, 1000) as target'', ''metadata'']"

text \<open>A condition that binds one name to a text.\<close>

definition bind_text :: "string \<Rightarrow> string \<Rightarrow> string \<Rightarrow> string \<Rightarrow> string \<times> params" where
  "bind_text lhs k t v = (lhs @ '' = '' @ hole k t, [(k, PStr v)])"

definition buildDatapointQueryWithParams :: "string \<Rightarrow> string \<Rightarrow> query_result" where
  "buildDatapointQueryWithParams datapointId datasetId =
     buildSelectQuery ((select_from datapointSelectColumns ''dataset_datapoints'')
       \<lparr>customConditions := [bind_text ''id'' ''datapointId'' ''UUID'' datapointId, bind_text ''dataset_id'' ''datasetId'' ''UUID'' datasetId],
        pagination := Some (1, 0)\<rparr>)"

definition dataset_condition :: "string option \<Rightarrow> (string \<times> params) list" where
  "dataset_condition d = (if truthy d then [bind_text ''dataset_id'' ''datasetId'' ''UUID'' (the d)] else [])"

definition buildDatapointsByIdsQueryWithParams :: "string list \<Rightarrow> string option \<Rightarrow> query_result" where
  "buildDatapointsByIdsQueryWithParams ids datasetId =
     (if ids = [] then \<lparr>query = [], parameters = []\<rparr>
      else buildSelectQuery ((select_from datapointSelectColumns ''dataset_datapoints'')
        \<lparr>customConditions := ids_condition ''id'' ''datapointIds'' ids @ dataset_condition datasetId,
         orderBy := [(''toUInt128(id)'', Some ''ASC'')]\<rparr>))"

definition search_condition :: "string option \<Rightarrow> (string \<times> params) list" where
  "search_condition s = (if truthy s then
     [(''(data LIKE {searchQuery:String} OR target LIKE {searchQuery:String})'',
       [(''searchQuery'', PStr (''%'' @ the s @ ''%''))])] else [])"

definition buildDatapointsQueryWithParams :: "string option \<Rightarrow> string option \<Rightarrow> number \<Rightarrow> number \<Rightarrow> query_result" where
  "buildDatapointsQueryWithParams datasetId searchQuery pageSize offset =
     buildSelectQuery ((select_from datapointSelectColumnsWithSubstring ''dataset_datapoints'')
       \<lparr>customConditions := dataset_condition datasetId @ search_condition searchQuery,
        orderBy := [(''toUInt128(id)'', Some ''ASC'')], pagination := Some (pageSize, offset)\<rparr>)"

definition buildDatapointCountQueryWithParams :: "string option \<Rightarrow> string option \<Rightarrow> query_result" where
  "buildDatapointCountQueryWithParams datasetId searchQuery =
     buildSelectQuery ((select_from [''COUNT(*) as count''] ''dataset_datapoints'')
       \<lparr>customConditions := dataset_condition datasetId @ search_condition searchQuery\<rparr>)"

definition buildAllDatapointsQueryWithParams :: "string \<Rightarrow> query_result" where
  "buildAllDatapointsQueryWithParams datasetId =
     buildSelectQuery ((select_from datapointSelectColumns ''dataset_datapoints'')
       \<lparr>customConditions := [bind_text ''dataset_id'' ''datasetId'' ''UUID'' datasetId],
        orderBy := [(''toUInt128(id)'', Some ''ASC'')]\<rparr>)"

definition buildDatapointVersionsQueryWithParams :: "string \<Rightarrow> string \<Rightarrow> query_result" where
  "buildDatapointVersionsQueryWithParams datapointId datasetId =
     buildSelectQuery ((select_from datapointSelectColumns ''dataset_datapoint_versions'')
       \<lparr>customConditions := [bind_text ''id'' ''datapointId'' ''UUID'' datapointId, bind_text ''dataset_id'' ''datasetId'' ''UUID'' datasetId],
        orderBy := [(''created_at'', Some ''DESC'')]\<rparr>)"

definition buildSpecificDatapointVersionQueryWithParams :: "string \<Rightarrow> string \<Rightarrow> string \<Rightarrow> query_result" where
  "buildSpecificDatapointVersionQueryWithParams datapointId datasetId versionCreatedAt =
     buildSelectQuery ((select_from datapointSelectColumns ''dataset_datapoint_versions'')
       \<lparr>customConditions := [bind_text ''id'' ''datapointId'' ''UUID'' datapointId, bind_text ''dataset_id'' ''datasetId'' ''UUID'' datasetId,
          bind_text (''formatDateTime(created_at, '' @ sql_quote ''%Y-%m-%dT%H:%i:%S.%fZ'' @ '')'') ''versionCreatedAt'' ''String'' versionCreatedAt],
        pagination := Some (1, 0)\<rparr>)"

section \<open>What the configurations bind\<close>

lemma local_severity [local_processors]: "local_processor (severity_filter pl)"
  by (simp add: local_processor_def severity_filter_def filter_keys_def)

lemma local_payload [local_processors]: "local_processor (payload_filter pl)"
  by (simp add: local_processor_def payload_filter_def Let_def filter_keys_def)

interpretation events: own_names "eventsColumnFilterConfig pl" for pl
  by (rule own_namesI) (auto simp: eventsColumnFilterConfig_def local_processors)

interpretation signal_runs: own_names signalRunsColumnFilterConfig
  by (rule own_namesI) (simp_all add: signalRunsColumnFilterConfig_def local_processors)

text \<open>What the text of an event query can depend on in a filter. Of the column only its word characters are left,
  and whether it is one of the four built-in ones.\<close>

definition event_view :: "column_filter \<Rightarrow> string option \<times> string \<times> operator \<times> data_type option" where
  "event_view f =
     (if fcolumn f \<in> {''id'', ''trace_id'', ''run_id'', ''severity''} then Some (fcolumn f) else None,
      sanitize (fcolumn f), foperator f, fdataType f)"

interpretation events_text: value_blind "eventsColumnFilterConfig pl" event_view for pl
proof
  show "sanitize (fcolumn f) = sanitize (fcolumn g)" if "event_view f = event_view g" for f g
    using that by (simp add: event_view_def)
  show "map_option condition (run_processor (eventsColumnFilterConfig pl) f k) =
      map_option condition (run_processor (eventsColumnFilterConfig pl) g k)" if v: "event_view f = event_view g" for f g k
  proof (cases "fcolumn f \<in> {''id'', ''trace_id'', ''run_id'', ''severity''}")
    case True
    then have "fcolumn g = fcolumn f" "foperator g = foperator f"
      using v by (auto simp: event_view_def split: if_splits)
    then show ?thesis
      using True by (auto simp: run_processor_def eventsColumnFilterConfig_def createStringFilter_def severity_filter_def)
  next
    case False
    then have g: "fcolumn g \<notin> {''id'', ''trace_id'', ''run_id'', ''severity''}" "foperator g = foperator f" "fdataType g = fdataType f"
      using v by (auto simp: event_view_def split: if_splits)
    have run: "run_processor (eventsColumnFilterConfig pl) h k = Some (payload_filter pl h k)"
      if "fcolumn h \<notin> {''id'', ''trace_id'', ''run_id'', ''severity''}" for h
      using that by (simp add: run_processor_def eventsColumnFilterConfig_def)
    show ?thesis by (simp add: run [OF False] run [OF g(1)] payload_filter_def Let_def g(2,3))
  qed
qed

lemma event_conditions_ok: "custom_ok (event_conditions opt)"
  by (auto simp: custom_ok_def event_conditions_def buildClusterConditions_def buildIdFilterConditions_def
      disjoint_keys_def reserved_names_def split: option.split cluster_filter.split)

text \<open>The texts of the two lists of conditions that depend on which options are given.\<close>

definition event_shape :: "event_options \<Rightarrow> string list \<times> string" where
  "event_shape opt = (map fst (event_conditions opt), event_table opt)"

text \<open>
  Claim C10. No value, bound or identifier a user enters is part of the text of an event query: two requests have the
  same text when their filters agree on the built-in columns, the operators, the data types and the word characters
  left of the field names, and when the same other options are given. Of a field name the text holds at most these word
  characters, in the name of a parameter; the name itself is a bound value.
\<close>
theorem events_text_has_no_values:
  assumes "map event_view (ev_filters a) = map event_view (ev_filters b)"
    and "time_shape (event_range a []) = time_shape (event_range b [])"
    and "event_shape a = event_shape b"
  shows "query (buildEventsQueryWithParams pl a) = query (buildEventsQueryWithParams pl b)"
  unfolding buildEventsQueryWithParams_def
proof (rule select_text)
  show "query_shape (events_query pl a) (events_query pl b)"
    using assms(2,3)
    by (simp add: query_shape_def events_query_def select_from_def event_shape_def time_shape_def event_range_def time_column_def)
  show "filters (events_query pl a) = [] \<longleftrightarrow> filters (events_query pl b) = []"
    using assms(1) by (auto simp: events_query_def)
  show "havingFilters (events_query pl a) = [] \<longleftrightarrow> havingFilters (events_query pl b) = []"
    by (simp add: events_query_def select_from_def)
  show "condition (buildColumnFilters (filters (events_query pl a)) c) = condition (buildColumnFilters (filters (events_query pl b)) c)"
    if "columnFilterConfig (events_query pl a) = Some c" for c
    using that events_text.same_text [OF assms(1)] by (auto simp: events_query_def)
  show "condition (buildColumnFilters (havingFilters (events_query pl a)) c) = condition (buildColumnFilters (havingFilters (events_query pl b)) c)"
    if "havingColumnFilterConfig (events_query pl a) = Some c" for c
    using that by (simp add: events_query_def select_from_def)
qed

text \<open>
  A payload filter compares what the user named with what the user entered: the query binds the field,
  without its prefix \<open>payload.\<close>, and the value, whatever the other filters are.
\<close>
lemma event_filter_binds:
  assumes j: "j < length (ev_filters opt)" and f: "f = ev_filters opt ! j"
    and c: "fcolumn f \<notin> {''id'', ''trace_id'', ''run_id'', ''severity''}" and t: "fdataType f \<notin> {Some DNumber, Some DBoolean}"
  shows "map_of (parameters (buildEventsQueryWithParams pl opt)) (param_key f j @ ''_key'') = Some (PStr (payload_field (fcolumn f)))
    \<and> map_of (parameters (buildEventsQueryWithParams pl opt)) (param_key f j @ ''_val'') = Some (PStr (js_string pl (fvalue f)))"
proof -
  let ?q = "events_query pl opt"
  have q: "columnFilterConfig ?q = Some (eventsColumnFilterConfig pl)"
    "havingColumnFilterConfig ?q = None" "custom_ok (customConditions ?q)" "customHavingConditions ?q = []" "filters ?q = ev_filters opt"
    by (simp_all add: events_query_def select_from_def event_conditions_ok)
  have run: "run_processor (eventsColumnFilterConfig pl) (ev_filters opt ! j) (param_key (ev_filters opt ! j) j)
      = Some (payload_filter pl f (param_key f j))"
    using c by (simp add: f run_processor_def eventsColumnFilterConfig_def)
  have truthy: "truthy (condition (payload_filter pl f (param_key f j)))"
    by (simp add: payload_filter_def Let_def)
  note bind = events.plain_query(1) [OF q(1-4), unfolded q(5), OF j run truthy, folded buildEventsQueryWithParams_def]
  have "map_of (parameters (buildEventsQueryWithParams pl opt)) (param_key f j @ ''_key'') = Some (PStr (payload_field (fcolumn f)))"
    by (rule bind) (use t in \<open>simp add: payload_filter_def Let_def\<close>)
  moreover have "map_of (parameters (buildEventsQueryWithParams pl opt)) (param_key f j @ ''_val'') = Some (PStr (js_string pl (fvalue f)))"
    by (rule bind) (use t in \<open>simp add: payload_filter_def Let_def\<close>)
  ultimately show ?thesis ..
qed

section \<open>A field name that tries to leave its place\<close>

definition one_event_filter :: "string \<Rightarrow> string \<Rightarrow> event_options" where
  "one_event_filter field v = \<lparr>ev_signalId = ''s'', ev_filters = [text_filter field Eq v], ev_limit = 50, ev_offset = 0,
     ev_startTime = None, ev_endTime = None, ev_pastHours = None, ev_clusterFilter = None, ev_idFilter = None, ev_table = None\<rparr>"

lemma events_text_has_no_values_witness:
  "query (buildEventsQueryWithParams plain_query_platform (one_event_filter ''a) OR (b'' ''1'')) =
   query (buildEventsQueryWithParams plain_query_platform (one_event_filter ''a__OR__b'' ''2''))"
  by (rule events_text_has_no_values)
    (simp_all add: one_event_filter_def text_filter_def event_view_def sanitize_def is_word_def char_between_def
      is_digit_def event_range_def event_shape_def event_conditions_def event_table_def)

lemma event_filter_binds_witness:
  "map_of (parameters (buildEventsQueryWithParams plain_query_platform (one_event_filter ''payload.a'' ''1'')))
      (param_key (text_filter ''payload.a'' Eq ''1'') 0 @ ''_key'') = Some (PStr ''a'')"
  using event_filter_binds [where j = 0 and f = "text_filter ''payload.a'' Eq ''1''" and pl = plain_query_platform
      and opt = "one_event_filter ''payload.a'' ''1''"]
  by (simp add: one_event_filter_def text_filter_def payload_field_def)

end
