(* ===== verification/EvalQuery.thy ===== *)
theory EvalQuery
  imports TraceQueries "HOL-Library.Sublist"
begin

text \<open>
  The queries of the evaluation page (\<open>lib/actions/evaluation/query-builder.ts\<close>): the datapoints of one
  evaluation, two evaluations joined on the index of their datapoints, and the scores alone. The columns, with
  their SQL, come from the page. An error the code throws is \<open>Inl\<close> of its message.
\<close>

section \<open>Filters\<close>

record eval_column =
  ec_id :: string
  ec_sql :: string
  ec_comparable :: bool
  ec_filterSql :: "string option"
  ec_dbType :: "string option"

record eval_filter =
  ef_column :: string
  ef_operator :: operator
  ef_value :: scalar

text \<open>\<open>s.replace(/p/g, r)\<close> of a text that is not empty.\<close>

function replace_text :: "string \<Rightarrow> string \<Rightarrow> string \<Rightarrow> string" where
  "replace_text p r s = (case s of [] \<Rightarrow> []
     | c # t \<Rightarrow> if p \<noteq> [] \<and> take (length p) s = p then r @ replace_text p r (drop (length p) s) else c # replace_text p r t)"
  by pat_completeness auto

termination
proof (relation "measure (\<lambda>(p, r, s). length s)")
  show "((p, r, drop (length p) s), p, r, s) \<in> measure (\<lambda>(p, r, s). length s)"
    if "s = c # t" "p \<noteq> [] \<and> take (length p) s = p" for p r s c t
    using that by simp
qed simp_all

declare replace_text.simps [simp del]

definition find_column :: "eval_column list \<Rightarrow> string \<Rightarrow> eval_column option" where
  "find_column cols c = find (\<lambda>col. ec_id col = c) cols"

definition eval_param_key :: "string \<Rightarrow> eval_filter \<Rightarrow> nat \<Rightarrow> string" where
  "eval_param_key pre f i = pre @ ''_'' @ sanitize (ef_column f) @ ''_'' @ show_nat i"

text \<open>What one filter adds: a condition and its parameters, or nothing.\<close>

definition eval_filter_step :: "query_platform \<Rightarrow> eval_column \<Rightarrow> eval_filter \<Rightarrow> string \<Rightarrow> (string \<times> params) option" where
  "eval_filter_step pl col f k =
     (let sql = (case ec_filterSql col of None \<Rightarrow> ec_sql col | Some s \<Rightarrow> s);
          t = (case ec_dbType col of None \<Rightarrow> ''String'' | Some t \<Rightarrow> t)
      in if has_text ''{KEY:'' sql then
           (case key_and_val pl (FScalar (ef_value f)) of
              Some (key, val) \<Rightarrow>
                Some (replace_text ''{VAL:String}'' (hole (k @ ''_val'') ''String'')
                        (replace_text ''{KEY:String}'' (hole (k @ ''_key'') ''String'') sql),
                      [(k @ ''_key'', PStr key), (k @ ''_val'', PStr val)])
            | None \<Rightarrow> None)
         else
           (let v = parse_db t (js_string pl (FScalar (ef_value f)))
            in if v = PNum NaN then None
               else Some (sql @ '' '' @ OperatorLabelMap (ef_operator f) @ '' '' @ hole k t, [(k, v)])))"

fun buildFilterConditions ::
  "query_platform \<Rightarrow> eval_column list \<Rightarrow> string \<Rightarrow> nat \<Rightarrow> eval_filter list \<Rightarrow> clause_state \<Rightarrow> clause_state" where
  "buildFilterConditions pl cols pre i [] st = st"
| "buildFilterConditions pl cols pre i (f # fs) st =
     buildFilterConditions pl cols pre (Suc i) fs
       (case find_column cols (ef_column f) of
          None \<Rightarrow> st
        | Some col \<Rightarrow> (case eval_filter_step pl col f (eval_param_key pre f i) of
            None \<Rightarrow> st
          | Some (c, ps) \<Rightarrow> (fst st @ [c], assign (snd st) ps)))"

section \<open>Queries\<close>

record eval_options =
  eo_evaluationId :: string
  eo_columns :: "eval_column list"
  eo_traceIds :: "string list"
  eo_filters :: "eval_filter list"
  eo_limit :: "number option"
  eo_offset :: "number option"
  eo_sortBy :: "string option"
  eo_sortSql :: "string option"
  eo_sortDirection :: "string option"

definition resolveSortExpression :: "string \<Rightarrow> string option \<Rightarrow> eval_column list \<Rightarrow> string" where
  "resolveSortExpression sortBy sortSql cols =
     (if truthy sortSql then the sortSql
      else case find_column cols sortBy of None \<Rightarrow> ''`index`'' | Some col \<Rightarrow> ec_sql col)"

definition sort_direction :: "eval_options \<Rightarrow> string" where
  "sort_direction opt = (case eo_sortDirection opt of None \<Rightarrow> ''ASC'' | Some d \<Rightarrow> d)"

text \<open>The conditions and parameters before the page: the evaluation, the traces, the filters.\<close>

definition eval_where :: "query_platform \<Rightarrow> eval_options \<Rightarrow> string \<Rightarrow> string \<Rightarrow> clause_state" where
  "eval_where pl opt evalIdParam pre =
     (let st0 = ([''evaluation_id = '' @ hole evalIdParam ''UUID''], [(evalIdParam, PStr (eo_evaluationId opt))]);
          ids = pre @ ''traceIds'';
          st1 = (if eo_traceIds opt = [] then st0
                 else (fst st0 @ [''trace_id IN ('' @ hole ids ''Array(UUID)'' @ '')''],
                       assign (snd st0) [(ids, PArr (map SStr (eo_traceIds opt)))]));
          fc = buildFilterConditions pl (eo_columns opt) (pre @ ''f'') 0 (eo_filters opt) ([], [])
      in (fst st1 @ fst fc, assign (snd st1) (snd fc)))"

definition eval_page :: "eval_options \<Rightarrow> params" where
  "eval_page opt = (case eo_limit opt of None \<Rightarrow> [] | Some n \<Rightarrow> [(''limit'', PNum (Fin n))]) @
     (case eo_offset opt of None \<Rightarrow> [] | Some n \<Rightarrow> [(''offset'', PNum (Fin n))])"

definition buildSingleEvalQuery :: "query_platform \<Rightarrow> eval_options \<Rightarrow> string \<Rightarrow> string \<Rightarrow> query_result" where
  "buildSingleEvalQuery pl opt evalIdParam pre =
     (let w = eval_where pl opt evalIdParam pre;
          select = join '', '' (map (\<lambda>c. ec_sql c @ '' as '' @ backtickEscape (ec_id c)) (eo_columns opt));
          order = (if truthy (eo_sortBy opt)
            then ''ORDER BY '' @ resolveSortExpression (the (eo_sortBy opt)) (eo_sortSql opt) (eo_columns opt) @ '' '' @ sort_direction opt
            else ''ORDER BY `index` ASC, created_at ASC'');
          limit = (if eo_limit opt = None then [] else ''LIMIT {limit:UInt32}'');
          offset = (if eo_offset opt = None then [] else ''OFFSET {offset:UInt32}'')
      in \<lparr>query = collapse_space (trim (''SELECT '' @ select @ '' FROM evaluation_datapoints WHERE '' @
              join '' AND '' (fst w) @ '' '' @ order @ '' '' @ limit @ '' '' @ offset)),
          parameters = assign (snd w) (eval_page opt)\<rparr>)"

definition primary_query :: "query_platform \<Rightarrow> eval_options \<Rightarrow> query_result" where
  "primary_query pl opt = buildSingleEvalQuery pl opt ''evaluationId'' ''p_''"

definition compared_query :: "query_platform \<Rightarrow> eval_options \<Rightarrow> string \<Rightarrow> query_result" where
  "compared_query pl opt targetId =
     buildSingleEvalQuery pl (opt\<lparr>eo_evaluationId := targetId, eo_limit := None, eo_offset := None,
        eo_sortBy := None, eo_sortSql := None, eo_sortDirection := None\<rparr>) ''targetId'' ''c_''"

definition outer_select :: "eval_column list \<Rightarrow> string list" where
  "outer_select cols =
     map (\<lambda>c. ''p.'' @ backtickEscape (ec_id c)) cols @
     map (\<lambda>c. ''c.'' @ backtickEscape (ec_id c) @ '' as '' @ backtickEscape (''compared:'' @ ec_id c)) (filter ec_comparable cols)"

definition buildComparisonQuery :: "query_platform \<Rightarrow> eval_options \<Rightarrow> string \<Rightarrow> query_result" where
  "buildComparisonQuery pl opt targetId =
     (let primary = primary_query pl opt;
          compared = compared_query pl opt targetId;
          order = (if truthy (eo_sortBy opt) \<and> find_column (eo_columns opt) (the (eo_sortBy opt)) \<noteq> None
            then ''ORDER BY p.'' @ backtickEscape (the (eo_sortBy opt)) @ '' '' @ sort_direction opt
            else ''ORDER BY p.`index` ASC, p.`createdAt` ASC'')
      in \<lparr>query = ''SELECT '' @ join '', '' (outer_select (eo_columns opt)) @ '' FROM ('' @ query primary @ '') AS p LEFT JOIN ('' @
            query compared @ '') AS c ON p.`index` = c.`index` '' @ order,
          parameters = assign (parameters primary) (parameters compared)\<rparr>)"

definition buildEvalQuery :: "query_platform \<Rightarrow> eval_options \<Rightarrow> string option \<Rightarrow> string + query_result" where
  "buildEvalQuery pl opt targetId =
     (if eo_columns opt = [] then Inl ''columns must not be empty''
      else if truthy targetId then Inr (buildComparisonQuery pl opt (the targetId))
      else Inr (buildSingleEvalQuery pl opt ''evaluationId'' []))"

definition buildEvalStatsQuery :: "query_platform \<Rightarrow> string \<Rightarrow> string list \<Rightarrow> eval_filter list \<Rightarrow> eval_column list \<Rightarrow> query_result" where
  "buildEvalStatsQuery pl evaluationId ids fs cols =
     (let fc = buildFilterConditions pl cols ''sf'' 0 fs ([], []);
          c = ''evaluation_id = {evaluationId:UUID}'' #
            (if ids = [] then [] else [''trace_id IN ({traceIds:Array(UUID)})'']) @ fst fc
      in \<lparr>query = trim (''SELECT scores FROM evaluation_datapoints WHERE '' @ join '' AND '' c),
          parameters = assign ((''evaluationId'', PStr evaluationId) #
            (if ids = [] then [] else [(''traceIds'', PArr (map SStr ids))])) (snd fc)\<rparr>)"

section \<open>Filters as a column configuration\<close>

text \<open>The loop is the one of the query builder for a configuration whose only processor is the default one: the
  filter's column with the name of the clause in front.\<close>

definition eval_as_filter :: "string \<Rightarrow> eval_filter \<Rightarrow> column_filter" where
  "eval_as_filter pre f = \<lparr>fdataType = None, fcolumn = pre @ ''_'' @ ef_column f, foperator = ef_operator f,
     fvalue = FScalar (ef_value f)\<rparr>"

definition eval_unfilter :: "string \<Rightarrow> column_filter \<Rightarrow> eval_filter" where
  "eval_unfilter pre f = \<lparr>ef_column = drop (length pre + 1) (fcolumn f), ef_operator = foperator f,
     ef_value = (case fvalue f of FScalar v \<Rightarrow> v | FArr _ \<Rightarrow> SStr [])\<rparr>"

definition eval_processor :: "query_platform \<Rightarrow> eval_column list \<Rightarrow> string \<Rightarrow> processor" where
  "eval_processor pl cols pre f k =
     (case find_column cols (ef_column (eval_unfilter pre f)) of
        None \<Rightarrow> \<lparr>condition = None, cparams = []\<rparr>
      | Some col \<Rightarrow> (case eval_filter_step pl col (eval_unfilter pre f) k of
          None \<Rightarrow> \<lparr>condition = None, cparams = []\<rparr>
        | Some (c, ps) \<Rightarrow> \<lparr>condition = Some c, cparams = ps\<rparr>))"

definition eval_config :: "query_platform \<Rightarrow> eval_column list \<Rightarrow> string \<Rightarrow> column_config" where
  "eval_config pl cols pre = \<lparr>processors = [], defaultProcessor = Some (eval_processor pl cols pre)\<rparr>"

lemma eval_unfilter_as_filter [simp]: "eval_unfilter pre (eval_as_filter pre f) = f"
  by (simp add: eval_unfilter_def eval_as_filter_def)

lemma eval_run:
  "run_processor (eval_config pl cols pre) (eval_as_filter pre f) k = Some (eval_processor pl cols pre (eval_as_filter pre f) k)"
  by (simp add: run_processor_def eval_config_def)

lemma eval_step_keys:
  "eval_filter_step pl col f k = Some (c, ps) \<Longrightarrow> fst ` set ps \<subseteq> filter_keys k \<and> distinct (map fst ps)"
  by (auto simp: eval_filter_step_def Let_def filter_keys_def split: if_splits option.splits)

lemma local_eval: "local_processor (eval_processor pl cols pre)"
  unfolding local_processor_def eval_processor_def
  by (auto dest: eval_step_keys split: option.split)

interpretation evals: own_names "eval_config pl cols pre" for pl cols pre
  by (rule own_namesI) (auto simp: eval_config_def local_eval)

lemma sanitize_append: "sanitize (s @ t) = sanitize s @ sanitize t"
  by (simp add: sanitize_def)

lemma sanitize_underscore: "sanitize ''_'' = ''_''"
  by (simp add: sanitize_def)

lemma eval_param_key_as_filter:
  assumes "sanitize pre = pre"
  shows "param_key (eval_as_filter pre f) i = eval_param_key pre f i"
  using sanitize_append [of pre "''_'' @ ef_column f"] sanitize_append [of "''_''" "ef_column f"]
  by (simp only: param_key_def eval_as_filter_def eval_param_key_def column_filter.simps assms sanitize_underscore append_assoc)

lemma eval_conditions_params:
  assumes "sanitize pre = pre"
  shows "snd (buildFilterConditions pl cols pre i fs st) =
    foldl (\<lambda>acc r. assign acc (cparams r)) (snd st) (filter_results (eval_config pl cols pre) i (map (eval_as_filter pre) fs))"
proof (induction fs arbitrary: i st)
  case (Cons f fs)
  show ?case
    by (simp add: Cons.IH eval_run eval_processor_def eval_param_key_as_filter [OF assms] split: option.split)
qed simp

lemma sanitize_prefixes [simp]:
  "sanitize ''f'' = ''f''" "sanitize ''p_f'' = ''p_f''" "sanitize ''c_f'' = ''c_f''" "sanitize ''sf'' = ''sf''"
  by (simp_all add: sanitize_def is_word_def char_between_def is_digit_def)

text \<open>The parameters of the filters, with their names.\<close>

lemma eval_filter_params:
  assumes "sanitize pre = pre"
  shows "snd (buildFilterConditions pl cols pre 0 fs ([], [])) = cparams (buildColumnFilters (map (eval_as_filter pre) fs) (eval_config pl cols pre))"
  using eval_conditions_params [OF assms, of pl cols 0 fs "([], [])"] by (simp add: buildColumnFilters_def Let_def)

lemma eval_filter_names:
  assumes "sanitize pre = pre" and "k \<in> fst ` set (snd (buildFilterConditions pl cols pre 0 fs ([], [])))"
  shows "take (length pre + 1) k = pre @ ''_''"
proof -
  have "\<exists>j<length (map (eval_as_filter pre) fs). k \<in> filter_keys (param_key (map (eval_as_filter pre) fs ! j) j)"
    using evals.filters_names [OF assms(2) [unfolded eval_filter_params [OF assms(1)]]] by blast
  then obtain j where "j < length fs" and "k \<in> filter_keys (param_key (eval_as_filter pre (fs ! j)) j)" by auto
  then show ?thesis
    unfolding eval_param_key_as_filter [OF assms(1)] by (auto simp: filter_keys_def eval_param_key_def)
qed

lemma eval_filter_distinct:
  "sanitize pre = pre \<Longrightarrow> distinct (map fst (snd (buildFilterConditions pl cols pre 0 fs ([], []))))"
  by (simp only: eval_filter_params evals.filters_distinct)

lemma eval_filter_bound:
  assumes "sanitize pre = pre" and "j < length fs" and "find_column cols (ef_column (fs ! j)) = Some col"
    and "eval_filter_step pl col (fs ! j) (eval_param_key pre (fs ! j) j) = Some (c, ps)" and "map_of ps k = Some v"
  shows "map_of (snd (buildFilterConditions pl cols pre 0 fs ([], []))) k = Some v"
  unfolding eval_filter_params [OF assms(1)]
  by (rule evals.filters_bound [of j _ _ _ _ "\<lparr>condition = Some c, cparams = ps\<rparr>"])
    (simp_all add: assms eval_run eval_processor_def eval_param_key_as_filter)

section \<open>Parameters of the queries\<close>

lemma eval_page_names: "fst ` set (eval_page opt) \<subseteq> {''limit'', ''offset''}"
  by (auto simp: eval_page_def split: option.splits)

lemma eval_page_distinct: "distinct (map fst (eval_page opt))"
  by (simp add: eval_page_def split: option.split)

lemma single_parameters:
  "parameters (buildSingleEvalQuery pl opt evalIdParam pre) = assign (snd (eval_where pl opt evalIdParam pre)) (eval_page opt)"
  by (simp add: buildSingleEvalQuery_def Let_def)

lemma single_names:
  assumes "sanitize (pre @ ''f'') = pre @ ''f''" and "k \<in> fst ` set (parameters (buildSingleEvalQuery pl opt evalIdParam pre))"
  shows "k = evalIdParam \<or> k = pre @ ''traceIds'' \<or> take (length pre + 2) k = pre @ ''f_'' \<or> k \<in> fst ` set (eval_page opt)"
proof -
  have "k = evalIdParam \<or> k = pre @ ''traceIds'' \<or> k \<in> fst ` set (eval_page opt) \<or>
      k \<in> fst ` set (snd (buildFilterConditions pl (eo_columns opt) (pre @ ''f'') 0 (eo_filters opt) ([], [])))"
    using assms(2) by (auto simp: single_parameters eval_where_def Let_def image_Un simp del: append_assoc split: if_splits)
  then show ?thesis
  proof (elim disjE)
    assume "k \<in> fst ` set (snd (buildFilterConditions pl (eo_columns opt) (pre @ ''f'') 0 (eo_filters opt) ([], [])))"
    from eval_filter_names [OF assms(1) this] show ?thesis by simp
  qed simp_all
qed

lemma single_distinct: "distinct (map fst (parameters (buildSingleEvalQuery pl opt evalIdParam pre)))"
  by (simp add: single_parameters eval_where_def Let_def)

text \<open>The parameters of a query with prefix \<open>p_\<close> and of one with prefix \<open>c_\<close>.\<close>

lemma compared_names:
  assumes "k \<in> fst ` set (parameters (compared_query pl opt targetId))"
  shows "k = ''targetId'' \<or> take 2 k = ''c_''"
proof -
  have "sanitize (''c_'' @ ''f'') = ''c_'' @ ''f''" by (simp add: sanitize_def is_word_def char_between_def is_digit_def)
  from single_names [OF this assms [unfolded compared_query_def]]
  consider "k = ''targetId''" | "k = ''c_traceIds''" | "take 4 k = ''c_f_''" | "k \<in> fst ` set (eval_page (opt\<lparr>eo_evaluationId := targetId,
      eo_limit := None, eo_offset := None, eo_sortBy := None, eo_sortSql := None, eo_sortDirection := None\<rparr>))"
    by (auto simp: eval_nat_numeral)
  then show ?thesis
  proof cases
    case 3
    then have "take 2 (take 4 k) = ''c_''" by simp
    then show ?thesis by simp
  qed (simp_all add: eval_page_def)
qed

lemma primary_names:
  assumes "k \<in> fst ` set (parameters (primary_query pl opt))"
  shows "k \<in> {''evaluationId'', ''limit'', ''offset''} \<or> take 2 k = ''p_''"
proof -
  have "sanitize (''p_'' @ ''f'') = ''p_'' @ ''f''" by (simp add: sanitize_def is_word_def char_between_def is_digit_def)
  from single_names [OF this assms [unfolded primary_query_def]]
  consider "k = ''evaluationId''" | "k = ''p_traceIds''" | "take 4 k = ''p_f_''" | "k \<in> fst ` set (eval_page opt)"
    by (auto simp: eval_nat_numeral)
  then show ?thesis
  proof cases
    case 3
    then have "take 2 (take 4 k) = ''p_''" by simp
    then show ?thesis by simp
  next
    case 4
    then show ?thesis using eval_page_names by blast
  qed simp_all
qed

text \<open>
  The two sub-queries of a comparison are sent with one parameter object, and neither loses a parameter
  to the other: every name has in it the value its own sub-query bound, as the prefixes \<open>p_\<close> and \<open>c_\<close> promise.
\<close>
lemma comparison_keeps_parameters:
  "(map_of (parameters (primary_query pl opt)) k = Some v \<longrightarrow> map_of (parameters (buildComparisonQuery pl opt targetId)) k = Some v) \<and>
   (map_of (parameters (compared_query pl opt targetId)) k = Some v \<longrightarrow> map_of (parameters (buildComparisonQuery pl opt targetId)) k = Some v)"
proof -
  have d: "distinct (map fst (parameters (compared_query pl opt targetId)))"
    by (simp add: compared_query_def single_distinct)
  have merged: "parameters (buildComparisonQuery pl opt targetId) = assign (parameters (primary_query pl opt)) (parameters (compared_query pl opt targetId))"
    by (simp add: buildComparisonQuery_def Let_def)
  have "k \<notin> fst ` set (parameters (compared_query pl opt targetId))" if "map_of (parameters (primary_query pl opt)) k = Some v"
  proof
    assume "k \<in> fst ` set (parameters (compared_query pl opt targetId))"
    then have "k = ''targetId'' \<or> take 2 k = ''c_''" by (rule compared_names)
    moreover have "k \<in> fst ` set (parameters (primary_query pl opt))" using that by (force dest: map_of_SomeD)
    then have "k \<in> {''evaluationId'', ''limit'', ''offset''} \<or> take 2 k = ''p_''" by (rule primary_names)
    ultimately show False by auto
  qed
  then show ?thesis using d by (auto simp: merged map_of_assign_old map_of_assign_new)
qed

text \<open>
  The query of one evaluation keeps the value of every filter: what the filter binds is what its
  placeholder has in the parameters, next to the evaluation, the traces and the page.
\<close>
lemma eval_query_binds:
  assumes "j < length (eo_filters opt)" and "find_column (eo_columns opt) (ef_column (eo_filters opt ! j)) = Some col"
    and "eval_filter_step pl col (eo_filters opt ! j) (eval_param_key ''f'' (eo_filters opt ! j) j) = Some (c, ps)"
    and "map_of ps k = Some v" and "eo_columns opt \<noteq> []"
  shows "\<exists>r. buildEvalQuery pl opt None = Inr r \<and> map_of (parameters r) k = Some v
    \<and> map_of (parameters r) ''evaluationId'' = Some (PStr (eo_evaluationId opt))"
proof -
  let ?fp = "snd (buildFilterConditions pl (eo_columns opt) ''f'' 0 (eo_filters opt) ([], []))"
  have k: "map_of ?fp k = Some v" by (rule eval_filter_bound [OF _ assms(1-4)]) simp
  then have "k \<in> fst ` set ?fp" by (force dest: map_of_SomeD)
  from eval_filter_names [OF _ this] have "take 2 k = ''f_''" by (simp add: eval_nat_numeral)
  then have new: "k \<notin> {''limit'', ''offset''}" by auto
  have d: "distinct (map fst ?fp)" by (rule eval_filter_distinct) simp
  have e: "''evaluationId'' \<notin> fst ` set ?fp" using eval_filter_names [of "''f''" "''evaluationId''" pl "eo_columns opt" "eo_filters opt"] by auto
  have page: "k' \<notin> fst ` set (eval_page opt)" if "k' \<notin> {''limit'', ''offset''}" for k'
    using eval_page_names that by blast
  have "map_of (parameters (buildSingleEvalQuery pl opt ''evaluationId'' [])) k = Some v"
    using map_of_assign_new [OF d k] page [OF new] eval_page_distinct
    by (simp add: single_parameters eval_where_def Let_def map_of_assign_old)
  moreover have "map_of (parameters (buildSingleEvalQuery pl opt ''evaluationId'' [])) ''evaluationId'' = Some (PStr (eo_evaluationId opt))"
    using page [of "''evaluationId''"] eval_page_distinct
    by (simp add: single_parameters eval_where_def Let_def map_of_assign_old [OF d e] map_of_assign_old assign_Cons)
  ultimately show ?thesis using assms(5) by (simp add: buildEvalQuery_def)
qed

section \<open>The names of the columns\<close>

lemma collapse_from_true: "\<not> sublist ''  '' (collapse_from b s) \<and> (b \<longrightarrow> take 1 (collapse_from b s) \<noteq> '' '')"
proof (induction b s rule: collapse_from.induct)
  case (2 b c s)
  have space: "is_space (CHR '' '')" by (simp add: is_space_def)
  show ?case
  proof (cases "is_space c")
    case True
    then show ?thesis using 2 by (cases "collapse_from True s") (auto simp: sublist_Cons_right prefix_Cons)
  next
    case False
    then have "c \<noteq> CHR '' ''" using space by auto
    then show ?thesis using 2(3) False by (auto simp: sublist_Cons_right prefix_Cons)
  qed
qed simp

lemma collapse_no_double_space: "\<not> sublist ''  '' (collapse_space s)"
  using collapse_from_true by (simp add: collapse_space_def)

lemma sublist_escape: "sublist ''  '' s \<Longrightarrow> sublist ''  '' (backtickEscape s)"
proof -
  assume "sublist ''  '' s"
  then obtain a b where s: "s = a @ ''  '' @ b" by (auto simp: sublist_def)
  have "backtickEscape s = (''`'' @ replace_char (CHR ''`'') ''``'' a) @ ''  '' @ (replace_char (CHR ''`'') ''``'' b @ ''`'')"
    by (simp add: backtickEscape_def replace_char_def s)
  then show ?thesis unfolding sublist_def by blast
qed

lemma sublist_left: "sublist x y \<Longrightarrow> sublist x (p @ y)"
  and sublist_right: "sublist x y \<Longrightarrow> sublist x (y @ p)"
  by (auto simp: sublist_append)

lemma sublist_join: "x \<in> set xs \<Longrightarrow> sublist x (join sep xs)"
proof (induction sep xs rule: join.induct)
  case (3 sep y z zs)
  then show ?case
  proof (cases "x = y")
    case False
    then have "sublist x (join sep (z # zs))" using 3 by auto
    then show ?thesis by (simp add: sublist_left)
  qed simp
qed auto

text \<open>
  A comparison names the columns of its sub-queries by their escaped identifiers. A column whose
  identifier has two spaces in a row (the name of a score can) is selected under that name, but the sub-query
  that should provide it, in which every run of white space has been collapsed, has no such name.
\<close>
lemma comparison_loses_spaced_column:
  assumes "col \<in> set (eo_columns opt)" and "sublist ''  '' (ec_id col)"
  shows "sublist (''p.'' @ backtickEscape (ec_id col)) (query (buildComparisonQuery pl opt targetId))
    \<and> \<not> sublist (backtickEscape (ec_id col)) (query (primary_query pl opt))
    \<and> \<not> sublist (backtickEscape (ec_id col)) (query (compared_query pl opt targetId))"
proof (intro conjI)
  have "''p.'' @ backtickEscape (ec_id col) \<in> set (outer_select (eo_columns opt))"
    using assms(1) by (simp add: outer_select_def)
  from sublist_join [OF this, of "'', ''"]
  show "sublist (''p.'' @ backtickEscape (ec_id col)) (query (buildComparisonQuery pl opt targetId))"
    unfolding buildComparisonQuery_def Let_def query_result.simps
    by (rule sublist_left [OF sublist_right])
  have lost: "\<not> sublist (backtickEscape (ec_id col)) (query (buildSingleEvalQuery pl o' e p))" for o' e p
    using sublist_order.order_trans [OF sublist_escape [OF assms(2)]] collapse_no_double_space
    unfolding buildSingleEvalQuery_def Let_def query_result.simps by blast
  show "\<not> sublist (backtickEscape (ec_id col)) (query (primary_query pl opt))"
    unfolding primary_query_def by (rule lost)
  show "\<not> sublist (backtickEscape (ec_id col)) (query (compared_query pl opt targetId))"
    unfolding compared_query_def by (rule lost)
qed

section \<open>Two scores\<close>

definition score_column :: "string \<Rightarrow> eval_column" where
  "score_column c = \<lparr>ec_id = c, ec_sql = ''s'', ec_comparable = True, ec_filterSql = None, ec_dbType = Some ''Float64''\<rparr>"

definition score_options :: eval_options where
  "score_options = \<lparr>eo_evaluationId = ''e'', eo_columns = [score_column ''a'', score_column ''b  c''], eo_traceIds = [],
     eo_filters = [\<lparr>ef_column = ''a'', ef_operator = Gt, ef_value = SStr ''1''\<rparr>], eo_limit = Some 10, eo_offset = None,
     eo_sortBy = None, eo_sortSql = None, eo_sortDirection = None\<rparr>"

lemma comparison_keeps_parameters_witness:
  "map_of (parameters (buildComparisonQuery plain_query_platform score_options ''t'')) ''limit'' = Some (PNum (Fin 10))"
proof -
  have "map_of (parameters (primary_query plain_query_platform score_options)) ''limit'' = Some (PNum (Fin 10))"
    by (simp add: primary_query_def single_parameters eval_page_def score_options_def assign_Cons update_conv')
  then show ?thesis using comparison_keeps_parameters [of plain_query_platform score_options "''limit''" _ "''t''"] by blast
qed

lemma parse_one: "parseFloat ''1'' \<noteq> NaN"
proof -
  have "show_nat 1 = ''1''" by (simp add: show_nat.simps digit_def, code_simp)
  then show ?thesis using parseFloat_show_nat [of 1] by simp
qed

lemma eval_query_binds_witness:
  "\<exists>r. buildEvalQuery plain_query_platform score_options None = Inr r
    \<and> map_of (parameters r) (eval_param_key ''f'' (eo_filters score_options ! 0) 0) = Some (PNum (parseFloat ''1''))"
proof -
  let ?f = "\<lparr>ef_column = ''a'', ef_operator = Gt, ef_value = SStr ''1''\<rparr>"
  have "eval_filter_step plain_query_platform (score_column ''a'') ?f (eval_param_key ''f'' ?f 0) =
      Some (''s > '' @ hole (eval_param_key ''f'' ?f 0) ''Float64'', [(eval_param_key ''f'' ?f 0, PNum (parseFloat ''1''))])"
    using parse_one by (simp add: eval_filter_step_def score_column_def Let_def parse_db_def)
  then have "eval_filter_step plain_query_platform (score_column ''a'') (eo_filters score_options ! 0)
      (eval_param_key ''f'' (eo_filters score_options ! 0) 0) =
      Some (''s > '' @ hole (eval_param_key ''f'' ?f 0) ''Float64'', [(eval_param_key ''f'' ?f 0, PNum (parseFloat ''1''))])"
    by (simp add: score_options_def)
  from eval_query_binds [OF _ _ this, of "eval_param_key ''f'' ?f 0" "PNum (parseFloat ''1'')"]
  show ?thesis by (auto simp: score_options_def score_column_def find_column_def)
qed

lemma comparison_loses_spaced_column_witness:
  "sublist (''p.'' @ backtickEscape ''b  c'') (query (buildComparisonQuery plain_query_platform score_options ''t''))
    \<and> \<not> sublist (backtickEscape ''b  c'') (query (primary_query plain_query_platform score_options))"
proof -
  have "score_column ''b  c'' \<in> set (eo_columns score_options)" by (simp add: score_options_def)
  moreover have "sublist ''  '' (ec_id (score_column ''b  c''))"
    unfolding score_column_def eval_column.simps sublist_def by (intro exI [of _ "''b''"] exI [of _ "''c''"]) simp
  ultimately show ?thesis
    using comparison_loses_spaced_column [of "score_column ''b  c''" score_options plain_query_platform "''t''"]
    by (simp add: score_column_def)
qed

end
