(* ===== verification/Filters.thy ===== *)
theory Filters
  imports QueryBuilder
begin

text \<open>
  The filters of the Postgres lists (\<open>lib/actions/common/filters.ts\<close>): a table of operators for each type of
  column, and the loop that turns the filters of a request into conditions. The conditions themselves are built
  by drizzle, whose six comparisons are a parameter (\<open>drizzle\<close>); where a property speaks of the rows a condition
  selects, drizzle's documented meaning of them is a hypothesis.
\<close>

section \<open>Operators\<close>

definition STRING_OPERATORS :: "operator list" where "STRING_OPERATORS = [Eq, Ne]"
definition NUMBER_OPERATORS :: "operator list" where "NUMBER_OPERATORS = [Eq, Lt, Gt, Lte, Gte, Ne]"
definition BOOLEAN_OPERATORS :: "operator list" where "BOOLEAN_OPERATORS = [Eq, Ne]"
definition JSON_OPERATORS :: "operator list" where "JSON_OPERATORS = [Eq]"
definition ARRAY_OPERATORS :: "operator list" where "ARRAY_OPERATORS = [Includes]"

text \<open>A value as it is handed to drizzle.\<close>

datatype sql_value = VParam param | VBool bool

record ('c, 's) drizzle =
  d_eq :: "'c \<Rightarrow> sql_value \<Rightarrow> 's"
  d_ne :: "'c \<Rightarrow> sql_value \<Rightarrow> 's"
  d_gt :: "'c \<Rightarrow> sql_value \<Rightarrow> 's"
  d_gte :: "'c \<Rightarrow> sql_value \<Rightarrow> 's"
  d_lt :: "'c \<Rightarrow> sql_value \<Rightarrow> 's"
  d_lte :: "'c \<Rightarrow> sql_value \<Rightarrow> 's"

text \<open>The operator tables; an operator that is not in the table has no entry.\<close>

fun stringOperators :: "('c, 's) drizzle \<Rightarrow> operator \<Rightarrow> ('c \<Rightarrow> column_filter \<Rightarrow> 's) option" where
  "stringOperators d Eq = Some (\<lambda>col f. d_eq d col (VParam (value_param (fvalue f))))"
| "stringOperators d Ne = Some (\<lambda>col f. d_ne d col (VParam (value_param (fvalue f))))"
| "stringOperators d _ = None"

definition value_number :: "query_platform \<Rightarrow> column_filter \<Rightarrow> sql_value" where
  "value_number pl f = VParam (PNum (case fvalue f of FScalar (SNum n) \<Rightarrow> Fin n | v \<Rightarrow> js_number (js_string pl v)))"

fun numberOperators :: "query_platform \<Rightarrow> ('c, 's) drizzle \<Rightarrow> operator \<Rightarrow> ('c \<Rightarrow> column_filter \<Rightarrow> 's) option" where
  "numberOperators pl d Eq = Some (\<lambda>col f. d_eq d col (value_number pl f))"
| "numberOperators pl d Ne = Some (\<lambda>col f. d_ne d col (value_number pl f))"
| "numberOperators pl d Gt = Some (\<lambda>col f. d_gt d col (value_number pl f))"
| "numberOperators pl d Gte = Some (\<lambda>col f. d_gte d col (value_number pl f))"
| "numberOperators pl d Lt = Some (\<lambda>col f. d_lt d col (value_number pl f))"
| "numberOperators pl d Lte = Some (\<lambda>col f. d_lte d col (value_number pl f))"
| "numberOperators pl d Includes = None"

fun booleanOperators :: "query_platform \<Rightarrow> ('c, 's) drizzle \<Rightarrow> operator \<Rightarrow> ('c \<Rightarrow> column_filter \<Rightarrow> 's) option" where
  "booleanOperators pl d Eq = Some (\<lambda>col f. d_eq d col (VBool (js_string pl (fvalue f) = ''true'')))"
| "booleanOperators pl d Ne = Some (\<lambda>col f. d_ne d col (VBool (js_string pl (fvalue f) \<noteq> ''true'')))"
| "booleanOperators pl d _ = None"

fun jsonOperators :: "('c, 's) drizzle \<Rightarrow> operator \<Rightarrow> ('c \<Rightarrow> column_filter \<Rightarrow> 's) option" where
  "jsonOperators d Eq = Some (\<lambda>col f. d_eq d col (VParam (value_param (fvalue f))))"
| "jsonOperators d _ = None"

section \<open>Conditions\<close>

datatype ('c, 's) pg_column =
  StringColumn 'c | NumberColumn 'c | BooleanColumn 'c | JsonColumn 'c
| CustomColumn "column_filter \<Rightarrow> 's option"

definition buildCondition :: "query_platform \<Rightarrow> ('c, 's) drizzle \<Rightarrow> column_filter \<Rightarrow> ('c, 's) pg_column \<Rightarrow> 's option" where
  "buildCondition pl d f config = (case config of
     CustomColumn h \<Rightarrow> h f
   | StringColumn c \<Rightarrow> map_option (\<lambda>op'. op' c f) (stringOperators d (foperator f))
   | NumberColumn c \<Rightarrow> map_option (\<lambda>op'. op' c f) (numberOperators pl d (foperator f))
   | BooleanColumn c \<Rightarrow> map_option (\<lambda>op'. op' c f) (booleanOperators pl d (foperator f))
   | JsonColumn c \<Rightarrow> map_option (\<lambda>op'. op' c f) (jsonOperators d (foperator f)))"

definition parseFilters ::
  "query_platform \<Rightarrow> ('c, 's) drizzle \<Rightarrow> (string \<times> ('c, 's) pg_column) list \<Rightarrow> column_filter list \<Rightarrow> 's list" where
  "parseFilters pl d config fs = foldl (\<lambda>conditions f.
     case map_of config (fcolumn f) of
       None \<Rightarrow> conditions
     | Some c \<Rightarrow> (case buildCondition pl d f c of None \<Rightarrow> conditions | Some s \<Rightarrow> conditions @ [s])) [] fs"

section \<open>Which filters count\<close>

text \<open>The operators of a type of column are those the filter schema allows for it.\<close>

definition column_operators :: "('c, 's) pg_column \<Rightarrow> operator list" where
  "column_operators c = (case c of StringColumn _ \<Rightarrow> STRING_OPERATORS | NumberColumn _ \<Rightarrow> NUMBER_OPERATORS
     | BooleanColumn _ \<Rightarrow> BOOLEAN_OPERATORS | JsonColumn _ \<Rightarrow> JSON_OPERATORS | CustomColumn _ \<Rightarrow> [])"

lemma buildCondition_supported:
  assumes "\<And>h. c \<noteq> CustomColumn h"
  shows "buildCondition pl d f c \<noteq> None \<longleftrightarrow> foperator f \<in> set (column_operators c)"
  using assms by (cases c; cases "foperator f")
    (simp_all add: buildCondition_def column_operators_def STRING_OPERATORS_def NUMBER_OPERATORS_def
      BOOLEAN_OPERATORS_def JSON_OPERATORS_def)

definition filter_condition :: "query_platform \<Rightarrow> ('c, 's) drizzle \<Rightarrow> (string \<times> ('c, 's) pg_column) list \<Rightarrow> column_filter \<Rightarrow> 's option" where
  "filter_condition pl d config f = Option.bind (map_of config (fcolumn f)) (buildCondition pl d f)"

lemma parseFilters_map: "parseFilters pl d config fs = List.map_filter (filter_condition pl d config) fs"
proof -
  have "foldl (\<lambda>conditions f. case map_of config (fcolumn f) of None \<Rightarrow> conditions
       | Some c \<Rightarrow> (case buildCondition pl d f c of None \<Rightarrow> conditions | Some s \<Rightarrow> conditions @ [s])) acc fs
     = acc @ List.map_filter (filter_condition pl d config) fs" for acc
    by (induction fs arbitrary: acc) (auto simp: List.map_filter_simps filter_condition_def split: option.split)
  then show ?thesis by (simp add: parseFilters_def)
qed

text \<open>
  A condition on a boolean column with the operator "is not" selects the rows that "is" selects: the
  table negates the value as well as the comparison. (The conditions mean what drizzle documents: a row passes
  \<open>eq\<close> when its value is the given one and \<open>ne\<close> when it is another one.)
\<close>
lemma boolean_ne_selects_eq:
  assumes eq: "\<And>c v. holds (d_eq d c v) \<longleftrightarrow> row c = v"
    and ne: "\<And>c v. holds (d_ne d c v) \<longleftrightarrow> row c \<noteq> v"
    and bool: "\<exists>b. row c = VBool b"
  shows "map_option holds (buildCondition pl d (f\<lparr>foperator := Ne\<rparr>) (BooleanColumn c))
    = map_option holds (buildCondition pl d (f\<lparr>foperator := Eq\<rparr>) (BooleanColumn c))"
  using bool by (auto simp: buildCondition_def eq ne)

section \<open>A row\<close>

definition row_conditions :: "(bool, bool) drizzle" where
  "row_conditions = \<lparr>d_eq = (\<lambda>c v. VBool c = v), d_ne = (\<lambda>c v. VBool c \<noteq> v), d_gt = (\<lambda>_ _. False), d_gte = (\<lambda>_ _. False),
     d_lt = (\<lambda>_ _. False), d_lte = (\<lambda>_ _. False)\<rparr>"

lemma boolean_ne_selects_eq_witness:
  "map_option id (buildCondition plain_query_platform row_conditions (text_filter ''c'' Ne ''true'') (BooleanColumn True)) = Some True"
  using boolean_ne_selects_eq [where holds = id and d = row_conditions and row = VBool and c = True
      and pl = plain_query_platform and f = "text_filter ''c'' Eq ''true''"]
  by (simp add: row_conditions_def text_filter_def buildCondition_def)

end
