(* ===== verification/AdvancedSearch.thy ===== *)
theory AdvancedSearch
  imports Filters
begin

text \<open>
  The search editor of the tables (\<open>components/common/advanced-search\<close>): its store (\<open>store/index.tsx\<close>) with the
  slices of recent searches and of undo and redo, the conversion between filters and tags (\<open>types.ts\<close>), the
  suggestions and the order of the parts of a tag. The store's closure variables (what was last submitted, the
  last committed snapshot) are fields of the state, the calls of the consumer's \<open>onChange\<close> the list
  \<open>emitted\<close>, and \<open>queueMicrotask(commit)\<close> a count of commits that wait. The storage of a browser, which \<open>persist\<close>
  reads when an editor is opened and writes after an action, is a map from names to recent searches; it holds what
  editors wrote into it. lodash's \<open>uniqueId\<close> and \<open>isEqual\<close> and
  the printing of numbers are parameters; a commit takes the current time.
\<close>

section \<open>Filters and tags\<close>

text \<open>A filter as an object: \<open>isEqual\<close> distinguishes a missing key \<open>dataType\<close> (\<open>None\<close>) from an undefined one.\<close>

record search_filter =
  sfDataType :: "data_type option option"
  sfColumn :: string
  sfOperator :: operator
  sfValue :: filter_value

datatype tag_value = TagText string | TagList "string list"

record filter_tag =
  tagId :: string
  tagField :: string
  tagDataType :: "data_type option"
  tagOperator :: operator
  tagValue :: tag_value

record search_platform =
  uniqueId :: "nat \<Rightarrow> string"
  equal :: "search_filter list \<Rightarrow> search_filter list \<Rightarrow> bool"
  text_of_number :: "number \<Rightarrow> string"

definition createFilterFromTag :: "filter_tag \<Rightarrow> search_filter" where
  "createFilterFromTag t = \<lparr>sfDataType = Some (tagDataType t), sfColumn = tagField t, sfOperator = tagOperator t,
     sfValue = (case tagValue t of TagText s \<Rightarrow> FScalar (SStr s) | TagList xs \<Rightarrow> FArr xs)\<rparr>"

definition createTagFromFilter :: "search_platform \<Rightarrow> nat \<Rightarrow> search_filter \<Rightarrow> filter_tag" where
  "createTagFromFilter pl n f = \<lparr>tagId = ''tag-'' @ uniqueId pl n, tagField = sfColumn f,
     tagDataType = (case sfDataType f of None \<Rightarrow> None | Some d \<Rightarrow> d), tagOperator = sfOperator f,
     tagValue = (case sfValue f of FArr xs \<Rightarrow> TagList xs | FScalar (SStr s) \<Rightarrow> TagText s
       | FScalar (SNum x) \<Rightarrow> TagText (text_of_number pl x))\<rparr>"

text \<open>\<open>fs.map(createTagFromFilter)\<close>, from identifier \<open>n\<close> on.\<close>

definition tags_from :: "search_platform \<Rightarrow> nat \<Rightarrow> search_filter list \<Rightarrow> filter_tag list" where
  "tags_from pl n fs = map2 (createTagFromFilter pl) [n..<n + length fs] fs"

section \<open>Columns\<close>

record enum_option =
  opt_label :: string
  opt_value :: string

datatype ui_type = UiString | UiNumber | UiJson | UiBoolean | UiArray | UiEnum "enum_option list"

record ui_column =
  cf_name :: string
  cf_key :: string
  cf_type :: ui_type

fun dataTypeOperationsMap :: "ui_type \<Rightarrow> operator list" where
  "dataTypeOperationsMap UiString = STRING_OPERATORS"
| "dataTypeOperationsMap UiNumber = NUMBER_OPERATORS"
| "dataTypeOperationsMap UiJson = JSON_OPERATORS"
| "dataTypeOperationsMap UiBoolean = BOOLEAN_OPERATORS"
| "dataTypeOperationsMap (UiEnum _) = STRING_OPERATORS"
| "dataTypeOperationsMap UiArray = ARRAY_OPERATORS"

fun toFilterDataType :: "ui_type \<Rightarrow> data_type" where
  "toFilterDataType UiString = DString"
| "toFilterDataType UiNumber = DNumber"
| "toFilterDataType UiJson = DJson"
| "toFilterDataType UiBoolean = DBoolean"
| "toFilterDataType UiArray = DArray"
| "toFilterDataType (UiEnum _) = DString"

definition getColumnFilter :: "ui_column list \<Rightarrow> string \<Rightarrow> ui_column option" where
  "getColumnFilter cols field = find (\<lambda>c. cf_key c = field) cols"

definition getOperationsForField :: "ui_column list \<Rightarrow> string \<Rightarrow> ui_type \<Rightarrow> operator list" where
  "getOperationsForField cols field fallback =
     (case getColumnFilter cols field of None \<Rightarrow> dataTypeOperationsMap fallback | Some c \<Rightarrow> dataTypeOperationsMap (cf_type c))"

section \<open>The store\<close>

datatype focus_mode = Nav | Edit

datatype focus_state = Idle | AtField focus_mode | AtOperator focus_mode | AtValue focus_mode | AtRemove focus_mode

record snapshot =
  snTags :: "filter_tag list"
  snInput :: string

record submission =
  subFilters :: "search_filter list"
  subSearch :: string

record recent_search =
  reFilters :: "search_filter list"
  reSearch :: string
  reTimestamp :: number

record search_store =
  autocompleteData :: "(string \<times> string list) list"
  tags :: "filter_tag list"
  inputValue :: string
  isOpen :: bool
  activeIndex :: int
  activeRecentIndex :: int
  selectedTagIds :: "string set"
  openSelectId :: "string option"
  tagFocusStates :: "(string \<times> focus_state) list"
  filterColumns :: "ui_column list"
  recentSearches :: "recent_search list"
  undoStack :: "snapshot list"
  redoStack :: "snapshot list"
  storageKey :: "string option"
  lastSubmitted :: submission
  lastCommitted :: snapshot
  emitted :: "submission list"
  nextId :: nat
  waiting :: nat

definition take_snapshot :: "search_store \<Rightarrow> snapshot" where
  "take_snapshot s = \<lparr>snTags = tags s, snInput = inputValue s\<rparr>"

text \<open>\<open>persisted\<close> is what the middleware \<open>persist\<close> reads back: the recent searches \<open>partialize\<close> let it store under
  the name of the key, if there are any; \<open>merge\<close> puts them over those of the new state, without looking at them.\<close>

definition createAdvancedSearchStore ::
  "search_platform \<Rightarrow> ui_column list \<Rightarrow> search_filter list \<Rightarrow> string \<Rightarrow> (string \<times> string list) list \<Rightarrow> string option \<Rightarrow>
   recent_search list option \<Rightarrow> nat \<Rightarrow> search_store" where
  "createAdvancedSearchStore pl cols fs search suggestions key persisted n =
     (let ts = tags_from pl n fs; current = [];
          recents = (if truthy key then case persisted of None \<Rightarrow> current | Some rs \<Rightarrow> rs else current)
      in \<lparr>autocompleteData = suggestions, tags = ts, inputValue = search, isOpen = False, activeIndex = -1,
          activeRecentIndex = -1, selectedTagIds = {}, openSelectId = None, tagFocusStates = [], filterColumns = cols,
          recentSearches = recents, undoStack = [], redoStack = [], storageKey = key,
          lastSubmitted = \<lparr>subFilters = map createFilterFromTag ts, subSearch = trim search\<rparr>,
          lastCommitted = \<lparr>snTags = ts, snInput = search\<rparr>, emitted = [], nextId = n + length fs, waiting = 0\<rparr>)"

subsection \<open>Recent searches\<close>

definition MAX_RECENT_SEARCHES :: nat where "MAX_RECENT_SEARCHES = 5"

text \<open>\<open>FilterSchema\<close> of \<open>lib/actions/common/filters.ts\<close>.\<close>

definition FilterSchema :: "search_filter \<Rightarrow> bool" where
  "FilterSchema f = (case sfValue f of
     FScalar (SStr s) \<Rightarrow> s \<noteq> [] \<and> sfOperator f \<in> set (STRING_OPERATORS @ NUMBER_OPERATORS @ BOOLEAN_OPERATORS @ JSON_OPERATORS)
   | FScalar (SNum n) \<Rightarrow> sfOperator f \<in> set (STRING_OPERATORS @ NUMBER_OPERATORS @ BOOLEAN_OPERATORS @ JSON_OPERATORS)
   | FArr xs \<Rightarrow> xs \<noteq> [] \<and> (\<forall>x\<in>set xs. x \<noteq> []) \<and> sfOperator f \<in> set ARRAY_OPERATORS)"

text \<open>What the JSON text of a filter holds: an undefined \<open>dataType\<close> is left out.\<close>

definition filter_json :: "search_filter \<Rightarrow> data_type option \<times> string \<times> operator \<times> filter_value" where
  "filter_json f = (case sfDataType f of None \<Rightarrow> None | Some d \<Rightarrow> d, sfColumn f, sfOperator f, sfValue f)"

definition areSearchesEqual :: "recent_search \<Rightarrow> recent_search \<Rightarrow> bool" where
  "areSearchesEqual a b = (reSearch a = reSearch b \<and> length (reFilters a) = length (reFilters b)
     \<and> map filter_json (reFilters a) = map filter_json (reFilters b))"

definition addRecentSearch :: "number \<Rightarrow> search_filter list \<Rightarrow> string \<Rightarrow> search_store \<Rightarrow> search_store" where
  "addRecentSearch now fs search s =
     (if \<not> truthy (storageKey s) then s
      else
        (let valid = filter FilterSchema fs
         in if valid = [] \<and> trim search = [] then s
            else
              (let entry = \<lparr>reFilters = valid, reSearch = trim search, reTimestamp = now\<rparr>
               in s\<lparr>recentSearches := take MAX_RECENT_SEARCHES
                     (entry # filter (\<lambda>r. \<not> areSearchesEqual r entry) (recentSearches s))\<rparr>)))"

subsection \<open>Undo and redo\<close>

definition MAX_UNDO_STACK :: nat where "MAX_UNDO_STACK = 50"

text \<open>\<open>xs.slice(-n)\<close>.\<close>

definition take_last :: "nat \<Rightarrow> 'a list \<Rightarrow> 'a list" where
  "take_last n xs = drop (length xs - n) xs"

definition pushUndoSnapshot :: "search_store \<Rightarrow> search_store" where
  "pushUndoSnapshot s = s\<lparr>undoStack := take_last (MAX_UNDO_STACK - 1) (undoStack s) @ [lastCommitted s], redoStack := []\<rparr>"

text \<open>Both directions end the same way: the editor shows the snapshot, which becomes the committed one, and the
  consumer is told.\<close>

definition snapshot_submission :: "snapshot \<Rightarrow> submission" where
  "snapshot_submission sn = \<lparr>subFilters = map createFilterFromTag (snTags sn), subSearch = trim (snInput sn)\<rparr>"

definition restore :: "snapshot \<Rightarrow> search_store \<Rightarrow> search_store" where
  "restore sn s = s\<lparr>tags := snTags sn, inputValue := snInput sn, selectedTagIds := {}, tagFocusStates := [],
     lastCommitted := sn, lastSubmitted := snapshot_submission sn, emitted := emitted s @ [snapshot_submission sn]\<rparr>"

definition undo :: "search_store \<Rightarrow> search_store" where
  "undo s = (if undoStack s = [] then s
     else restore (last (undoStack s))
       (s\<lparr>undoStack := butlast (undoStack s), redoStack := redoStack s @ [lastCommitted s]\<rparr>))"

definition redo :: "search_store \<Rightarrow> search_store" where
  "redo s = (if redoStack s = [] then s
     else restore (last (redoStack s))
       (s\<lparr>redoStack := butlast (redoStack s), undoStack := undoStack s @ [lastCommitted s]\<rparr>))"

definition canUndo :: "search_store \<Rightarrow> bool" where "canUndo s = (0 < length (undoStack s))"
definition canRedo :: "search_store \<Rightarrow> bool" where "canRedo s = (0 < length (redoStack s))"

subsection \<open>Committing\<close>

definition complete_tag :: "filter_tag \<Rightarrow> bool" where
  "complete_tag t = (case tagValue t of TagList xs \<Rightarrow> 0 < length xs | TagText s \<Rightarrow> s \<noteq> [])"

definition current_submission :: "search_store \<Rightarrow> submission" where
  "current_submission s =
     \<lparr>subFilters = map createFilterFromTag (filter complete_tag (tags s)), subSearch = trim (inputValue s)\<rparr>"

definition same_submission :: "search_platform \<Rightarrow> submission \<Rightarrow> submission \<Rightarrow> bool" where
  "same_submission pl a b = (equal pl (subFilters a) (subFilters b) \<and> subSearch a = subSearch b)"

definition commit :: "search_platform \<Rightarrow> number \<Rightarrow> search_store \<Rightarrow> search_store" where
  "commit pl now s =
     (let sub = current_submission s
      in if same_submission pl (lastSubmitted s) sub then s
         else
           (let s1 = pushUndoSnapshot s;
                s2 = s1\<lparr>lastSubmitted := sub, lastCommitted := take_snapshot s1\<rparr>;
                s3 = addRecentSearch now (subFilters sub) (subSearch sub) s2
            in s3\<lparr>emitted := emitted s3 @ [sub]\<rparr>))"

text \<open>A waiting commit runs when the handler that queued it has returned.\<close>

definition run_microtask :: "search_platform \<Rightarrow> number \<Rightarrow> search_store \<Rightarrow> search_store" where
  "run_microtask pl now s = (if waiting s = 0 then s else commit pl now (s\<lparr>waiting := waiting s - 1\<rparr>))"

subsection \<open>Actions\<close>

definition close_list :: "search_store \<Rightarrow> search_store" where
  "close_list s = s\<lparr>isOpen := False, activeIndex := -1, activeRecentIndex := -1\<rparr>"

definition getActiveTagId :: "search_store \<Rightarrow> string option" where
  "getActiveTagId s = map_option fst (find (\<lambda>p. snd p \<noteq> Idle) (tagFocusStates s))"

definition setAutocompleteData :: "(string \<times> string list) list \<Rightarrow> search_store \<Rightarrow> search_store" where
  "setAutocompleteData d s = s\<lparr>autocompleteData := d\<rparr>"

definition setInputValue :: "string \<Rightarrow> search_store \<Rightarrow> search_store" where
  "setInputValue v s = s\<lparr>inputValue := v, activeIndex := -1, activeRecentIndex := -1\<rparr>"

definition setIsOpen :: "bool \<Rightarrow> search_store \<Rightarrow> search_store" where
  "setIsOpen b s = s\<lparr>isOpen := b, activeIndex := -1, activeRecentIndex := -1\<rparr>"

definition setActiveIndex :: "int \<Rightarrow> search_store \<Rightarrow> search_store" where
  "setActiveIndex i s = s\<lparr>activeIndex := i, activeRecentIndex := -1\<rparr>"

definition setActiveRecentIndex :: "int \<Rightarrow> search_store \<Rightarrow> search_store" where
  "setActiveRecentIndex i s = s\<lparr>activeRecentIndex := i, activeIndex := -1\<rparr>"

definition setOpenSelectId :: "string option \<Rightarrow> search_store \<Rightarrow> search_store" where
  "setOpenSelectId x s = s\<lparr>openSelectId := x\<rparr>"

text \<open>Part of the store's interface, though no component calls it; it is not a step below.\<close>

definition setTags :: "filter_tag list \<Rightarrow> search_store \<Rightarrow> search_store" where
  "setTags ts s = s\<lparr>tags := ts\<rparr>"

definition addTag :: "search_platform \<Rightarrow> string \<Rightarrow> search_store \<Rightarrow> search_store" where
  "addTag pl field s = (case getColumnFilter (filterColumns s) field of
     None \<Rightarrow> s
   | Some col \<Rightarrow>
       (let t = \<lparr>tagId = ''tag-'' @ uniqueId pl (nextId s), tagField = field, tagDataType = Some (toFilterDataType (cf_type col)),
              tagOperator = (case dataTypeOperationsMap (cf_type col) of [] \<Rightarrow> Eq | op' # _ \<Rightarrow> op'),
              tagValue = (if cf_type col = UiArray then TagList [] else TagText [])\<rparr>
        in (close_list s)\<lparr>tags := tags s @ [t], inputValue := [], nextId := Suc (nextId s),
             tagFocusStates := AList.update (tagId t) (AtValue Edit) (tagFocusStates s)\<rparr>))"

definition addCompleteTag :: "search_platform \<Rightarrow> string \<Rightarrow> operator \<Rightarrow> tag_value \<Rightarrow> search_store \<Rightarrow> search_store" where
  "addCompleteTag pl field op' v s = (case getColumnFilter (filterColumns s) field of
     None \<Rightarrow> s
   | Some col \<Rightarrow>
       (let t = \<lparr>tagId = ''tag-'' @ uniqueId pl (nextId s), tagField = field, tagDataType = Some (toFilterDataType (cf_type col)),
              tagOperator = op',
              tagValue = (case v of TagText x \<Rightarrow> (if cf_type col = UiArray then TagList [x] else v) | TagList _ \<Rightarrow> v)\<rparr>
        in (close_list s)\<lparr>tags := tags s @ [t], inputValue := [], nextId := Suc (nextId s), waiting := Suc (waiting s)\<rparr>))"

definition removeTag :: "string \<Rightarrow> search_store \<Rightarrow> search_store" where
  "removeTag i s = s\<lparr>tags := filter (\<lambda>t. tagId t \<noteq> i) (tags s), selectedTagIds := selectedTagIds s - {i},
     tagFocusStates := AList.delete i (tagFocusStates s), waiting := Suc (waiting s)\<rparr>"

text \<open>\<open>tags.map((t) => (t.id === tagId ? change(t) : t))\<close>.\<close>

definition change_tag :: "string \<Rightarrow> (filter_tag \<Rightarrow> filter_tag) \<Rightarrow> search_store \<Rightarrow> search_store" where
  "change_tag i f s = s\<lparr>tags := map (\<lambda>t. if tagId t = i then f t else t) (tags s)\<rparr>"

definition updateTagField :: "string \<Rightarrow> string \<Rightarrow> search_store \<Rightarrow> search_store" where
  "updateTagField i field s =
     (let d = (case getColumnFilter (filterColumns s) field of None \<Rightarrow> DString | Some c \<Rightarrow> toFilterDataType (cf_type c))
      in change_tag i (\<lambda>t. t\<lparr>tagField := field, tagDataType := Some d\<rparr>) s)"

definition updateTagOperator :: "string \<Rightarrow> operator \<Rightarrow> search_store \<Rightarrow> search_store" where
  "updateTagOperator i op' s = change_tag i (\<lambda>t. t\<lparr>tagOperator := op'\<rparr>) s"

definition updateTagValue :: "string \<Rightarrow> tag_value \<Rightarrow> search_store \<Rightarrow> search_store" where
  "updateTagValue i v s = change_tag i (\<lambda>t. t\<lparr>tagValue := v\<rparr>) s"

definition selectAllTags :: "search_store \<Rightarrow> search_store" where
  "selectAllTags s = s\<lparr>selectedTagIds := set (map tagId (tags s))\<rparr>"

definition clearSelection :: "search_store \<Rightarrow> search_store" where
  "clearSelection s = s\<lparr>selectedTagIds := {}\<rparr>"

definition removeSelectedTags :: "search_store \<Rightarrow> search_store" where
  "removeSelectedTags s = s\<lparr>tags := filter (\<lambda>t. tagId t \<notin> selectedTagIds s) (tags s), selectedTagIds := {},
     tagFocusStates := filter (\<lambda>p. fst p \<notin> selectedTagIds s) (tagFocusStates s), waiting := Suc (waiting s)\<rparr>"

definition setTagFocusState :: "string \<Rightarrow> focus_state \<Rightarrow> search_store \<Rightarrow> search_store" where
  "setTagFocusState i f s = s\<lparr>tagFocusStates := AList.update i f (tagFocusStates s)\<rparr>"

definition getTagFocusState :: "string \<Rightarrow> search_store \<Rightarrow> focus_state" where
  "getTagFocusState i s = (case map_of (tagFocusStates s) i of None \<Rightarrow> Idle | Some f \<Rightarrow> f)"

definition submit :: "search_platform \<Rightarrow> number \<Rightarrow> search_store \<Rightarrow> search_store" where
  "submit pl now s = commit pl now (close_list s)"

definition clearAll :: "search_store \<Rightarrow> search_store" where
  "clearAll s =
     (let none = \<lparr>subFilters = [], subSearch = []\<rparr>
      in (pushUndoSnapshot s)\<lparr>tags := [], inputValue := [], selectedTagIds := {}, isOpen := False, tagFocusStates := [],
           lastSubmitted := none, lastCommitted := \<lparr>snTags = [], snInput = []\<rparr>, emitted := emitted s @ [none]\<rparr>)"

definition reflowFromValue :: "search_platform \<Rightarrow> submission \<Rightarrow> search_store \<Rightarrow> search_store" where
  "reflowFromValue pl v s =
     (if subSearch (lastSubmitted s) = subSearch v \<and> equal pl (subFilters (lastSubmitted s)) (subFilters v) then s
      else
        (let ts = tags_from pl (nextId s) (subFilters v)
         in s\<lparr>tags := ts, inputValue := subSearch v, selectedTagIds := {}, tagFocusStates := [],
              activeIndex := (if 0 \<le> activeIndex s then -1 else activeIndex s), lastSubmitted := v,
              lastCommitted := \<lparr>snTags = ts, snInput = subSearch v\<rparr>, nextId := nextId s + length (subFilters v)\<rparr>))"

definition applyRecentSearch :: "search_platform \<Rightarrow> recent_search \<Rightarrow> search_store \<Rightarrow> search_store" where
  "applyRecentSearch pl r s =
     (close_list s)\<lparr>tags := tags_from pl (nextId s) (reFilters r), inputValue := reSearch r,
        nextId := nextId s + length (reFilters r), waiting := Suc (waiting s)\<rparr>"

section \<open>Moving between the parts of a tag\<close>

datatype tag_position = PosField | PosOperator | PosValue | PosRemove

definition FIELD_ORDER :: "tag_position list" where
  "FIELD_ORDER = [PosField, PosOperator, PosValue, PosRemove]"

fun position_index :: "tag_position list \<Rightarrow> tag_position \<Rightarrow> nat option" where
  "position_index [] p = None"
| "position_index (q # ps) p = (if q = p then Some 0 else map_option Suc (position_index ps p))"

definition getNextField :: "tag_position \<Rightarrow> tag_position option" where
  "getNextField p = (case position_index FIELD_ORDER p of
     None \<Rightarrow> Some (FIELD_ORDER ! 0)
   | Some i \<Rightarrow> if i < length FIELD_ORDER - 1 then Some (FIELD_ORDER ! (i + 1)) else None)"

definition getPreviousField :: "tag_position \<Rightarrow> tag_position option" where
  "getPreviousField p = (case position_index FIELD_ORDER p of
     None \<Rightarrow> None | Some i \<Rightarrow> if 0 < i then Some (FIELD_ORDER ! (i - 1)) else None)"

fun focus_position :: "focus_state \<Rightarrow> tag_position option" where
  "focus_position Idle = None"
| "focus_position (AtField _) = Some PosField"
| "focus_position (AtOperator _) = Some PosOperator"
| "focus_position (AtValue _) = Some PosValue"
| "focus_position (AtRemove _) = Some PosRemove"

datatype focus_target = FocusTag string tag_position | FocusMainInput

definition tag_index :: "string \<Rightarrow> filter_tag list \<Rightarrow> nat option" where
  "tag_index i ts = (let k = length (takeWhile (\<lambda>t. tagId t \<noteq> i) ts) in if k < length ts then Some k else None)"

definition navigateWithinTag :: "bool \<Rightarrow> string \<Rightarrow> search_store \<Rightarrow> focus_target option" where
  "navigateWithinTag left i s =
     (case Option.bind (map_of (tagFocusStates s) i) focus_position of
        None \<Rightarrow> None
      | Some p \<Rightarrow>
          (case (if left then getPreviousField p else getNextField p) of
             Some q \<Rightarrow> Some (FocusTag i q)
           | None \<Rightarrow>
               (case tag_index i (tags s) of
                  None \<Rightarrow> None
                | Some k \<Rightarrow>
                    if left then (if 0 < k then Some (FocusTag (tagId (tags s ! (k - 1))) PosRemove) else None)
                    else if k < length (tags s) - 1 then Some (FocusTag (tagId (tags s ! (k + 1))) PosField)
                    else Some FocusMainInput)))"

section \<open>Suggestions\<close>

datatype suggestion = FieldSuggestion ui_column | ValueSuggestion string string "string option" | RawSearch string

definition buildValueSuggestions :: "string \<Rightarrow> ui_column list \<Rightarrow> (string \<times> string list) list \<Rightarrow> suggestion list" where
  "buildValueSuggestions input cols auto =
     (let i = to_lower input
      in concat (map (\<lambda>p. map (\<lambda>v. ValueSuggestion (fst p) v None) (filter (\<lambda>v. has_text i (to_lower v)) (snd p))) auto) @
         concat (map (\<lambda>c. case cf_type c of
             UiEnum opts \<Rightarrow> map (\<lambda>o'. ValueSuggestion (cf_key c) (opt_value o') (Some (opt_label o')))
               (filter (\<lambda>o'. has_text i (to_lower (opt_value o')) \<or> has_text i (to_lower (opt_label o'))
                  \<or> has_text i (to_lower (cf_name c)) \<or> has_text i (to_lower (cf_key c))) opts)
           | _ \<Rightarrow> []) cols))"

definition buildSuggestions :: "string \<Rightarrow> ui_column list \<Rightarrow> (string \<times> string list) list \<Rightarrow> suggestion list" where
  "buildSuggestions input cols auto =
     (let i = to_lower (trim input)
      in if i = [] then map FieldSuggestion cols
         else map FieldSuggestion (filter (\<lambda>c. has_text i (to_lower (cf_name c)) \<or> has_text i (to_lower (cf_key c))) cols) @
              buildValueSuggestions i cols auto @ [RawSearch (trim input)])"

definition getSuggestionsCount :: "ui_column list \<Rightarrow> string \<Rightarrow> (string \<times> string list) list \<Rightarrow> nat" where
  "getSuggestionsCount cols input auto = length (buildSuggestions input cols auto)"

definition getSuggestionAtIndex :: "ui_column list \<Rightarrow> string \<Rightarrow> nat \<Rightarrow> (string \<times> string list) list \<Rightarrow> suggestion option" where
  "getSuggestionAtIndex cols input i auto =
     (let ss = buildSuggestions input cols auto in if i < length ss then Some (ss ! i) else None)"

section \<open>Undo and redo as a cursor in a history\<close>

text \<open>What the two stacks mean: a history of committed states and the position of the current one. Recording a
  state forgets what was undone and, beyond the bound, the oldest states.\<close>

type_synonym history = "snapshot list \<times> nat"

definition history_of :: "search_store \<Rightarrow> history" where
  "history_of s = (undoStack s @ lastCommitted s # rev (redoStack s), length (undoStack s))"

definition hist_back :: "history \<Rightarrow> history" where
  "hist_back h = (fst h, snd h - 1)"

definition hist_forward :: "history \<Rightarrow> history" where
  "hist_forward h = (fst h, if Suc (snd h) < length (fst h) then Suc (snd h) else snd h)"

definition hist_record :: "snapshot \<Rightarrow> history \<Rightarrow> history" where
  "hist_record sn h =
     (let past = take_last (MAX_UNDO_STACK - 1) (take (snd h) (fst h)) @ [fst h ! snd h]
      in (past @ [sn], length past))"

lemma history_back: "history_of (undo s) = hist_back (history_of s)"
proof (cases "undoStack s" rule: rev_cases)
  case (snoc us u)
  then show ?thesis by (simp add: undo_def restore_def snapshot_submission_def history_of_def hist_back_def)
qed (simp add: undo_def history_of_def hist_back_def)

lemma history_forward: "history_of (redo s) = hist_forward (history_of s)"
proof (cases "redoStack s" rule: rev_cases)
  case (snoc rs r)
  then show ?thesis by (simp add: redo_def restore_def snapshot_submission_def history_of_def hist_forward_def)
qed (simp add: redo_def history_of_def hist_forward_def)

lemma addRecentSearch_simps [simp]:
  "undoStack (addRecentSearch now fs q s) = undoStack s" "redoStack (addRecentSearch now fs q s) = redoStack s"
  "lastCommitted (addRecentSearch now fs q s) = lastCommitted s" "lastSubmitted (addRecentSearch now fs q s) = lastSubmitted s"
  "tags (addRecentSearch now fs q s) = tags s" "inputValue (addRecentSearch now fs q s) = inputValue s"
  "emitted (addRecentSearch now fs q s) = emitted s" "nextId (addRecentSearch now fs q s) = nextId s"
  by (simp_all add: addRecentSearch_def Let_def)

lemma pushUndoSnapshot_simps [simp]:
  "tags (pushUndoSnapshot s) = tags s" "inputValue (pushUndoSnapshot s) = inputValue s"
  "emitted (pushUndoSnapshot s) = emitted s" "nextId (pushUndoSnapshot s) = nextId s"
  "lastCommitted (pushUndoSnapshot s) = lastCommitted s" "lastSubmitted (pushUndoSnapshot s) = lastSubmitted s"
  "recentSearches (pushUndoSnapshot s) = recentSearches s"
  by (simp_all add: pushUndoSnapshot_def)

lemma history_record:
  "history_of ((pushUndoSnapshot s)\<lparr>lastCommitted := sn\<rparr>) = hist_record sn (history_of s)"
  by (simp add: history_of_def hist_record_def pushUndoSnapshot_def Let_def nth_append)

lemma history_commit:
  "\<not> same_submission pl (lastSubmitted s) (current_submission s) \<Longrightarrow>
   history_of (commit pl now s) = hist_record (take_snapshot s) (history_of s)"
  using history_record [of "take_snapshot s" s]
  by (simp add: commit_def Let_def history_of_def take_snapshot_def)

text \<open>
  Claim C8. The two stacks implement a history with a cursor: undo and redo move the cursor and leave the
  history alone, and show the state they arrive at; a commit that changes anything and \<open>clearAll\<close> record the new
  state behind the cursor, forgetting what had been undone; a commit that changes nothing leaves the history as
  it is.
\<close>
theorem undo_redo_refines_history:
  "history_of (undo s) = hist_back (history_of s)
   \<and> history_of (redo s) = hist_forward (history_of s)
   \<and> (canUndo s \<longrightarrow> take_snapshot (undo s) = fst (history_of s) ! (snd (history_of s) - 1))
   \<and> (canRedo s \<longrightarrow> take_snapshot (redo s) = fst (history_of s) ! Suc (snd (history_of s)))
   \<and> history_of (commit pl now s) =
       (if same_submission pl (lastSubmitted s) (current_submission s) then history_of s
        else hist_record (take_snapshot s) (history_of s))
   \<and> history_of (clearAll s) = hist_record \<lparr>snTags = [], snInput = []\<rparr> (history_of s)"
proof (intro conjI)
  show "canUndo s \<longrightarrow> take_snapshot (undo s) = fst (history_of s) ! (snd (history_of s) - 1)"
    by (cases "undoStack s" rule: rev_cases)
      (simp_all add: canUndo_def undo_def restore_def snapshot_submission_def take_snapshot_def history_of_def nth_append)
  show "canRedo s \<longrightarrow> take_snapshot (redo s) = fst (history_of s) ! Suc (snd (history_of s))"
    by (cases "redoStack s" rule: rev_cases)
      (simp_all add: canRedo_def redo_def restore_def snapshot_submission_def take_snapshot_def history_of_def nth_append)
  show "history_of (commit pl now s) = (if same_submission pl (lastSubmitted s) (current_submission s) then history_of s
      else hist_record (take_snapshot s) (history_of s))"
  proof (cases "same_submission pl (lastSubmitted s) (current_submission s)")
    case True
    then show ?thesis by (simp add: commit_def Let_def)
  qed (simp add: history_commit)
  show "history_of (clearAll s) = hist_record \<lparr>snTags = [], snInput = []\<rparr> (history_of s)"
    using history_record [of "\<lparr>snTags = [], snInput = []\<rparr>" s] by (simp add: clearAll_def Let_def history_of_def)
qed (rule history_back, rule history_forward)

text \<open>
  Redo takes an undo back: when nothing has been edited since the last commit, undo and then redo give
  the same editor, the same stacks and the same committed state; only the selection and the focus are gone, and
  the consumer has been told of both states.
\<close>
lemma redo_after_undo:
  assumes "canUndo s" and "lastCommitted s = take_snapshot s"
  shows "redo (undo s) = s\<lparr>selectedTagIds := {}, tagFocusStates := [], lastSubmitted := snapshot_submission (take_snapshot s),
    emitted := emitted s @ [snapshot_submission (last (undoStack s)), snapshot_submission (take_snapshot s)]\<rparr>"
proof -
  obtain us u where us: "undoStack s = us @ [u]"
    using assms(1) by (cases "undoStack s" rule: rev_cases) (simp_all add: canUndo_def)
  have "redo (undo s) = s\<lparr>undoStack := us @ [u], redoStack := redoStack s, tags := tags s, inputValue := inputValue s,
      selectedTagIds := {}, tagFocusStates := [], lastCommitted := take_snapshot s,
      lastSubmitted := snapshot_submission (take_snapshot s),
      emitted := emitted s @ [snapshot_submission u, snapshot_submission (take_snapshot s)]\<rparr>"
    by (simp add: us undo_def redo_def restore_def assms(2)) (simp add: take_snapshot_def)
  also have "\<dots> = s\<lparr>undoStack := undoStack s, redoStack := redoStack s, tags := tags s, inputValue := inputValue s,
      selectedTagIds := {}, tagFocusStates := [], lastCommitted := lastCommitted s,
      lastSubmitted := snapshot_submission (take_snapshot s),
      emitted := emitted s @ [snapshot_submission (last (undoStack s)), snapshot_submission (take_snapshot s)]\<rparr>"
    by (simp add: us assms(2))
  finally show ?thesis by simp
qed

section \<open>What is committed\<close>

lemma commit_same: "same_submission pl (lastSubmitted s) (current_submission s) \<Longrightarrow> commit pl now s = s"
  by (simp add: commit_def Let_def)

lemma commit_state:
  assumes "\<not> same_submission pl (lastSubmitted s) (current_submission s)"
  shows "lastSubmitted (commit pl now s) = current_submission s" "lastCommitted (commit pl now s) = take_snapshot s"
    "emitted (commit pl now s) = emitted s @ [current_submission s]" "current_submission (commit pl now s) = current_submission s"
  using assms by (simp_all add: commit_def Let_def current_submission_def take_snapshot_def)

text \<open>
  A commit tells the consumer exactly what the editor shows without the tags that have no value yet, and
  only when that differs from what was last submitted; committing again then does nothing, and neither does the
  consumer handing the submitted value back.
\<close>
lemma commit_emits_once:
  assumes refl: "\<And>fs. equal pl fs fs"
  shows "emitted (commit pl now s) =
      emitted s @ (if same_submission pl (lastSubmitted s) (current_submission s) then [] else [current_submission s])
    \<and> (\<forall>f\<in>set (subFilters (current_submission s)). sfValue f \<noteq> FScalar (SStr []) \<and> sfValue f \<noteq> FArr [])
    \<and> commit pl later (commit pl now s) = commit pl now s
    \<and> reflowFromValue pl (lastSubmitted (commit pl now s)) (commit pl now s) = commit pl now s"
proof (intro conjI)
  show "emitted (commit pl now s) =
      emitted s @ (if same_submission pl (lastSubmitted s) (current_submission s) then [] else [current_submission s])"
    by (simp add: commit_same commit_state(3))
  show "\<forall>f\<in>set (subFilters (current_submission s)). sfValue f \<noteq> FScalar (SStr []) \<and> sfValue f \<noteq> FArr []"
    by (auto simp: current_submission_def createFilterFromTag_def complete_tag_def split: tag_value.splits)
  show "commit pl later (commit pl now s) = commit pl now s"
  proof (cases "same_submission pl (lastSubmitted s) (current_submission s)")
    case True
    then show ?thesis by (simp add: commit_same)
  next
    case False
    then have "same_submission pl (lastSubmitted (commit pl now s)) (current_submission (commit pl now s))"
      by (simp add: commit_state same_submission_def refl)
    then show ?thesis by (rule commit_same)
  qed
  show "reflowFromValue pl (lastSubmitted (commit pl now s)) (commit pl now s) = commit pl now s"
    by (simp add: reflowFromValue_def refl)
qed

text \<open>
  Undo tells the consumer of tags that have no value, which a commit never does: whenever a tag without
  a value is in the state that is restored, the filters the consumer gets hold one with an empty value.
\<close>
lemma undo_emits_incomplete_filters:
  assumes "canUndo s" and "t \<in> set (snTags (last (undoStack s)))" and "\<not> complete_tag t"
  shows "\<exists>f\<in>set (subFilters (last (emitted (undo s)))). sfColumn f = tagField t \<and> (sfValue f = FScalar (SStr []) \<or> sfValue f = FArr [])"
proof -
  have "createFilterFromTag t \<in> set (subFilters (last (emitted (undo s))))"
    using assms(1,2) by (auto simp: undo_def canUndo_def restore_def snapshot_submission_def)
  moreover have "sfColumn (createFilterFromTag t) = tagField t"
    "sfValue (createFilterFromTag t) = FScalar (SStr []) \<or> sfValue (createFilterFromTag t) = FArr []"
    using assms(3) by (auto simp: createFilterFromTag_def complete_tag_def split: tag_value.splits)
  ultimately show ?thesis by blast
qed

section \<open>Invariants of the store\<close>

text \<open>One step of the editor: an action of the user or of the page, or a waiting commit.\<close>

inductive search_step :: "search_platform \<Rightarrow> search_store \<Rightarrow> search_store \<Rightarrow> bool" for pl where
  autocomplete: "search_step pl s (setAutocompleteData d s)"
| input: "search_step pl s (setInputValue v s)"
| open_list: "search_step pl s (setIsOpen b s)"
| active: "search_step pl s (setActiveIndex i s)"
| active_recent: "search_step pl s (setActiveRecentIndex i s)"
| open_select: "search_step pl s (setOpenSelectId x s)"
| add: "search_step pl s (addTag pl field s)"
| add_complete: "search_step pl s (addCompleteTag pl field op' v s)"
| remove: "search_step pl s (removeTag i s)"
| field: "search_step pl s (updateTagField i field s)"
| operator: "search_step pl s (updateTagOperator i op' s)"
| change_value: "search_step pl s (updateTagValue i v s)"
| select_all: "search_step pl s (selectAllTags s)"
| clear_selection: "search_step pl s (clearSelection s)"
| remove_selected: "search_step pl s (removeSelectedTags s)"
| focus: "search_step pl s (setTagFocusState i f s)"
| submit: "search_step pl s (submit pl now s)"
| microtask: "search_step pl s (run_microtask pl now s)"
| clear_all: "search_step pl s (clearAll s)"
| reflow: "search_step pl s (reflowFromValue pl v s)"
| recent: "search_step pl s (applyRecentSearch pl r s)"
| undo: "search_step pl s (undo s)"
| redo: "search_step pl s (redo s)"

text \<open>A browser: the editors that are open, several of them perhaps with one key, and what is stored. A new editor
  reads what is stored under its name; the middleware writes after every \<open>set\<close>, so an action that sets nothing
  writes nothing. Reading gives what was written (the JSON text leaves out an undefined \<open>dataType\<close>, as the comparison of
  searches does), and nobody else writes under these names.\<close>

type_synonym search_storage = "string \<rightharpoonup> recent_search list"

definition storage_name :: "string \<Rightarrow> string" where
  "storage_name key = ''advanced-search-'' @ key"

definition stored_recents :: "string option \<Rightarrow> search_storage \<Rightarrow> recent_search list option" where
  "stored_recents key storage = (if truthy key then storage (storage_name (the key)) else None)"

definition save_recents :: "search_store \<Rightarrow> search_storage \<Rightarrow> search_storage" where
  "save_recents s storage =
     (if truthy (storageKey s) then storage(storage_name (the (storageKey s)) \<mapsto> recentSearches s) else storage)"

inductive search_browser :: "search_platform \<Rightarrow> search_store list \<Rightarrow> search_storage \<Rightarrow> bool" for pl where
  fresh: "search_browser pl [] Map.empty"
| opens: "search_browser pl ss storage \<Longrightarrow>
    search_browser pl (createAdvancedSearchStore pl cols fs search suggestions key (stored_recents key storage) n # ss) storage"
| acts: "search_browser pl (ss @ s # ss') storage \<Longrightarrow> search_step pl s t \<Longrightarrow> storage' \<in> {storage, save_recents t storage} \<Longrightarrow>
    search_browser pl (ss @ t # ss') storage'"
| closes: "search_browser pl (ss @ s # ss') storage \<Longrightarrow> search_browser pl (ss @ ss') storage"

text \<open>Tags have distinct identifiers that \<open>uniqueId\<close> has handed out; so do those of every snapshot. The history has
  at most as many states as the bound allows. The recent searches are valid, no two alike, at most five.\<close>

definition tags_ok :: "search_platform \<Rightarrow> nat \<Rightarrow> filter_tag list \<Rightarrow> bool" where
  "tags_ok pl n ts = (distinct (map tagId ts) \<and> tagId ` set ts \<subseteq> (\<lambda>m. ''tag-'' @ uniqueId pl m) ` {..<n})"

definition recents_ok :: "recent_search list \<Rightarrow> bool" where
  "recents_ok rs = (length rs \<le> MAX_RECENT_SEARCHES \<and> sorted_wrt (\<lambda>a b. \<not> areSearchesEqual b a) rs
     \<and> (\<forall>r\<in>set rs. list_all FilterSchema (reFilters r)))"

definition store_snapshots :: "search_store \<Rightarrow> snapshot list" where
  "store_snapshots s = lastCommitted s # undoStack s @ redoStack s"

definition search_wf :: "search_platform \<Rightarrow> search_store \<Rightarrow> bool" where
  "search_wf pl s = (tags_ok pl (nextId s) (tags s) \<and> (\<forall>sn\<in>set (store_snapshots s). tags_ok pl (nextId s) (snTags sn))
     \<and> length (undoStack s) + length (redoStack s) \<le> MAX_UNDO_STACK \<and> recents_ok (recentSearches s))"

lemma tags_ok_mono: "tags_ok pl m ts \<Longrightarrow> m \<le> n \<Longrightarrow> tags_ok pl n ts"
  by (auto simp: tags_ok_def)

lemma tags_ok_filter: "tags_ok pl n ts \<Longrightarrow> tags_ok pl n (filter P ts)"
  by (auto simp: tags_ok_def distinct_map_filter)

lemma tags_ok_map: "tags_ok pl n ts \<Longrightarrow> (\<And>t. tagId (f t) = tagId t) \<Longrightarrow> tags_ok pl n (map f ts)"
  by (simp add: tags_ok_def comp_def image_image)

lemma tags_ok_new:
  assumes "inj (uniqueId pl)" and "tags_ok pl n ts" and "tagId t = ''tag-'' @ uniqueId pl n"
  shows "tags_ok pl (Suc n) (ts @ [t])"
proof -
  have "tagId t \<notin> tagId ` set ts"
    using assms by (auto simp: tags_ok_def inj_def dest!: subsetD)
  then show ?thesis using assms(2,3) by (auto simp: tags_ok_def)
qed

lemma tags_ok_from:
  assumes "inj (uniqueId pl)"
  shows "tags_ok pl (n + length fs) (tags_from pl n fs)"
proof -
  have ids: "map tagId (tags_from pl n fs) = map (\<lambda>m. ''tag-'' @ uniqueId pl m) [n..<n + length fs]"
    by (rule nth_equalityI) (simp_all add: tags_from_def createTagFromFilter_def)
  have "inj_on (\<lambda>m. ''tag-'' @ uniqueId pl m) A" for A using assms by (auto simp: inj_on_def inj_def)
  then have "distinct (map tagId (tags_from pl n fs))" unfolding ids by (simp add: distinct_map)
  moreover have "tagId ` set (tags_from pl n fs) = (\<lambda>m. ''tag-'' @ uniqueId pl m) ` set [n..<n + length fs]"
    using arg_cong [OF ids, of set] by simp
  ultimately show ?thesis by (auto simp: tags_ok_def)
qed

lemma recents_ok_add: "recents_ok (recentSearches s) \<Longrightarrow> recents_ok (recentSearches (addRecentSearch now fs q s))"
proof -
  assume ok: "recents_ok (recentSearches s)"
  have "sorted_wrt (\<lambda>a b. \<not> areSearchesEqual b a) (take n (e # filter (\<lambda>r. \<not> areSearchesEqual r e) (recentSearches s)))" for n e
    using ok by (intro sorted_wrt_take) (auto simp: recents_ok_def sorted_wrt_filter)
  then show ?thesis
    using ok by (auto simp: addRecentSearch_def Let_def recents_ok_def list_all_iff dest!: in_set_takeD)
qed

text \<open>Actions that only touch the list, the input or the focus keep everything the invariant speaks of.\<close>

definition same_core :: "search_store \<Rightarrow> search_store \<Rightarrow> bool" where
  "same_core s t = (nextId s \<le> nextId t \<and> store_snapshots s = store_snapshots t \<and> undoStack s = undoStack t
     \<and> redoStack s = redoStack t \<and> recentSearches s = recentSearches t)"

lemma search_wf_core: "search_wf pl s \<Longrightarrow> same_core s t \<Longrightarrow> tags_ok pl (nextId t) (tags t) \<Longrightarrow> search_wf pl t"
  by (auto simp: search_wf_def same_core_def intro: tags_ok_mono)

lemma search_wf_take_snapshot: "search_wf pl s \<Longrightarrow> tags_ok pl (nextId s) (snTags (take_snapshot s))"
  by (simp add: search_wf_def take_snapshot_def)

lemma take_last_subset: "set (take_last n xs) \<subseteq> set xs"
  by (simp add: take_last_def set_drop_subset)

lemma length_take_last: "length (take_last n xs) \<le> n"
  by (simp add: take_last_def)

lemma snapshots_push:
  "search_wf pl s \<Longrightarrow> sn \<in> set (store_snapshots (pushUndoSnapshot s)) \<Longrightarrow> tags_ok pl (nextId s) (snTags sn)"
  by (auto simp: search_wf_def store_snapshots_def pushUndoSnapshot_def dest: subsetD [OF take_last_subset])

lemma length_push: "length (undoStack (pushUndoSnapshot s)) + length (redoStack (pushUndoSnapshot s)) \<le> MAX_UNDO_STACK"
  using length_take_last [of "MAX_UNDO_STACK - 1" "undoStack s"] by (simp add: pushUndoSnapshot_def MAX_UNDO_STACK_def)

lemma search_wf_record:
  assumes wf: "search_wf pl s" and t: "undoStack t = undoStack (pushUndoSnapshot s)" "redoStack t = []"
    "nextId t = nextId s" "tags_ok pl (nextId s) (tags t)" "tags_ok pl (nextId s) (snTags (lastCommitted t))"
    and r: "recents_ok (recentSearches t)"
  shows "search_wf pl t"
proof -
  have "tags_ok pl (nextId s) (snTags sn)" if "sn \<in> set (store_snapshots t)" for sn
    using that snapshots_push [OF wf, of sn] t by (auto simp: store_snapshots_def)
  moreover have "length (undoStack t) + length (redoStack t) \<le> MAX_UNDO_STACK"
    using length_push [of s] by (simp add: t)
  ultimately show ?thesis using t r by (simp add: search_wf_def)
qed

lemma search_wf_commit:
  assumes wf: "search_wf pl s"
  shows "search_wf pl (commit pl now s)"
proof (cases "same_submission pl (lastSubmitted s) (current_submission s)")
  case True
  then show ?thesis using wf by (simp add: commit_same)
next
  case False
  show ?thesis
  proof (rule search_wf_record [OF wf])
    show "recents_ok (recentSearches (commit pl now s))"
      using wf False by (simp add: commit_def Let_def recents_ok_add search_wf_def)
  qed (use wf False in \<open>simp_all add: commit_def Let_def pushUndoSnapshot_def search_wf_def take_snapshot_def\<close>)
qed

lemma search_wf_restore:
  assumes "search_wf pl s" and "sn \<in> set (store_snapshots s)" and "nextId t = nextId s" and "recentSearches t = recentSearches s"
    and "set (store_snapshots (restore sn t)) \<subseteq> set (store_snapshots s)"
    and "length (undoStack t) + length (redoStack t) = length (undoStack s) + length (redoStack s)"
  shows "search_wf pl (restore sn t)"
  using assms by (auto simp: search_wf_def restore_def)

lemma search_wf_undo: "search_wf pl s \<Longrightarrow> search_wf pl (undo s)"
proof (cases "undoStack s" rule: rev_cases)
  case (snoc us u)
  assume "search_wf pl s"
  then show ?thesis
    unfolding undo_def by (simp add: snoc, intro search_wf_restore) (auto simp: store_snapshots_def restore_def snoc)
qed (simp add: undo_def)

lemma search_wf_redo: "search_wf pl s \<Longrightarrow> search_wf pl (redo s)"
proof (cases "redoStack s" rule: rev_cases)
  case (snoc rs r)
  assume "search_wf pl s"
  then show ?thesis
    unfolding redo_def by (simp add: snoc, intro search_wf_restore) (auto simp: store_snapshots_def restore_def snoc)
qed (simp add: redo_def)

lemmas action_defs = setAutocompleteData_def setInputValue_def setIsOpen_def setActiveIndex_def setActiveRecentIndex_def
  setOpenSelectId_def selectAllTags_def clearSelection_def setTagFocusState_def close_list_def removeTag_def
  removeSelectedTags_def change_tag_def updateTagField_def updateTagOperator_def updateTagValue_def

lemma search_wf_step:
  assumes inj: "inj (uniqueId pl)"
  shows "search_step pl s t \<Longrightarrow> search_wf pl s \<Longrightarrow> search_wf pl t"
proof (induction rule: search_step.induct)
  case (add s field)
  show ?case
  proof (cases "getColumnFilter (filterColumns s) field")
    case (Some col)
    have "tags_ok pl (nextId s) (tags s)" using add by (simp add: search_wf_def)
    then show ?thesis
      by (intro search_wf_core [OF add]) (auto simp: same_core_def store_snapshots_def addTag_def Some Let_def close_list_def
          intro!: tags_ok_new [OF inj])
  qed (use add in \<open>simp add: addTag_def\<close>)
next
  case (add_complete s field op' v)
  show ?case
  proof (cases "getColumnFilter (filterColumns s) field")
    case (Some col)
    have "tags_ok pl (nextId s) (tags s)" using add_complete by (simp add: search_wf_def)
    then show ?thesis
      by (intro search_wf_core [OF add_complete]) (auto simp: same_core_def store_snapshots_def addCompleteTag_def Some Let_def
          close_list_def intro!: tags_ok_new [OF inj])
  qed (use add_complete in \<open>simp add: addCompleteTag_def\<close>)
next
  case (submit s now)
  have "search_wf pl (close_list s)"
    using submit by (simp add: search_wf_def store_snapshots_def close_list_def)
  then show ?case unfolding submit_def by (rule search_wf_commit)
next
  case (microtask s now)
  have "search_wf pl (s\<lparr>waiting := waiting s - 1\<rparr>)"
    using microtask by (simp add: search_wf_def store_snapshots_def)
  then show ?case using microtask by (simp add: run_microtask_def search_wf_commit)
next
  case (clear_all s)
  then show ?case
    by (rule search_wf_record) (use clear_all in \<open>simp_all add: clearAll_def Let_def tags_ok_def search_wf_def pushUndoSnapshot_def\<close>)
next
  case (reflow s v)
  have ts: "tags_ok pl (nextId s + length (subFilters v)) (tags_from pl (nextId s) (subFilters v))" by (rule tags_ok_from [OF inj])
  show ?case
    using reflow ts by (auto simp: reflowFromValue_def Let_def search_wf_def store_snapshots_def intro: tags_ok_mono)
next
  case (recent s r)
  have "tags_ok pl (nextId s + length (reFilters r)) (tags_from pl (nextId s) (reFilters r))" by (rule tags_ok_from [OF inj])
  then show ?case
    by (intro search_wf_core [OF recent]) (simp_all add: same_core_def store_snapshots_def applyRecentSearch_def close_list_def)
next
  case (undo s)
  then show ?case by (rule search_wf_undo)
next
  case (redo s)
  then show ?case by (rule search_wf_redo)
qed (rule search_wf_core, assumption, simp_all add: same_core_def store_snapshots_def action_defs search_wf_def Let_def tags_ok_filter tags_ok_map)

text \<open>
  Claim C18. Whatever editors are opened, used and closed in a browser, and in whatever order: in every editor the tags
  on screen, and those of every state undo or redo could bring back, have identifiers of their own; at most fifty states
  can be undone or redone; and the recent searches, both those of the editor and those stored for the next one to
  start with, are at most five, all valid, no two alike.
\<close>
theorem search_store_wellformed:
  assumes inj: "inj (uniqueId pl)" and "search_browser pl ss storage"
  shows "(\<forall>s\<in>set ss. search_wf pl s) \<and> (\<forall>rs\<in>ran storage. recents_ok rs)"
  using assms(2)
proof (induction rule: search_browser.induct)
  case (opens ss storage cols fs search suggestions key n)
  have "recents_ok rs" if "stored_recents key storage = Some rs" for rs
    using that opens.IH by (auto simp: stored_recents_def ranI split: if_splits)
  then have "search_wf pl (createAdvancedSearchStore pl cols fs search suggestions key (stored_recents key storage) n)"
    using tags_ok_from [OF inj, of n fs]
    by (cases "stored_recents key storage")
      (simp_all add: createAdvancedSearchStore_def Let_def search_wf_def store_snapshots_def recents_ok_def [of "[]"])
  then show ?case using opens.IH by simp
next
  case (acts ss s ss' storage t storage')
  then have t: "search_wf pl t" using search_wf_step [OF inj acts.hyps(2)] by simp
  have "ran (save_recents t storage) \<subseteq> insert (recentSearches t) (ran storage)"
    by (auto simp: save_recents_def ran_def)
  then have "\<forall>rs\<in>ran storage'. recents_ok rs" using acts t by (auto simp: search_wf_def)
  then show ?case using acts.IH t by simp
qed simp_all

section \<open>A short session\<close>

definition plain_search_platform :: search_platform where
  "plain_search_platform = \<lparr>uniqueId = show_nat, equal = (=), text_of_number = (\<lambda>x. show_int \<lfloor>x\<rfloor>)\<rparr>"

definition empty_search :: search_store where
  "empty_search = createAdvancedSearchStore plain_search_platform [] [] [] [] None None 0"

definition blank_tag :: filter_tag where
  "blank_tag = \<lparr>tagId = ''tag-0'', tagField = ''name'', tagDataType = None, tagOperator = Eq, tagValue = TagText []\<rparr>"

definition searched :: search_store where
  "searched = commit plain_search_platform 1 (setInputValue ''a'' empty_search)"

lemma searched_facts:
  "undoStack searched = [\<lparr>snTags = [], snInput = []\<rparr>]" "lastCommitted searched = take_snapshot searched" "inputValue searched = ''a''"
  by (simp_all add: searched_def commit_def Let_def setInputValue_def empty_search_def createAdvancedSearchStore_def
      current_submission_def same_submission_def plain_search_platform_def trim_def is_space_def char_between_def
      pushUndoSnapshot_def take_last_def addRecentSearch_def take_snapshot_def tags_from_def)

lemma undo_redo_refines_history_witness:
  "take_snapshot (undo searched) = \<lparr>snTags = [], snInput = []\<rparr>"
  using undo_redo_refines_history [of searched plain_search_platform 0]
  by (simp add: canUndo_def searched_facts history_of_def)

lemma redo_after_undo_witness: "inputValue (redo (undo searched)) = ''a''"
  using redo_after_undo [of searched] by (simp add: canUndo_def searched_facts)

lemma commit_emits_once_witness:
  "commit plain_search_platform 2 (commit plain_search_platform 1 empty_search) = commit plain_search_platform 1 empty_search"
  using commit_emits_once [of plain_search_platform 1 empty_search 2] by (simp add: plain_search_platform_def)

lemma undo_emits_incomplete_filters_witness:
  "\<exists>f\<in>set (subFilters (last (emitted (undo (searched\<lparr>undoStack := [\<lparr>snTags = [blank_tag], snInput = []\<rparr>]\<rparr>))))). sfColumn f = ''name''"
  using undo_emits_incomplete_filters [of "searched\<lparr>undoStack := [\<lparr>snTags = [blank_tag], snInput = []\<rparr>]\<rparr>" blank_tag]
  by (auto simp: canUndo_def complete_tag_def blank_tag_def)

definition keyed_search :: "recent_search list option \<Rightarrow> search_store" where
  "keyed_search = (\<lambda>persisted. createAdvancedSearchStore plain_search_platform [] [] [] [] (Some ''k'') persisted 0)"

lemma search_store_wellformed_witness:
  "\<exists>s storage. search_browser plain_search_platform [s] storage \<and> map reSearch (recentSearches s) = [''a''] \<and>
     search_wf plain_search_platform s"
proof -
  let ?pl = plain_search_platform
  let ?typed = "setInputValue ''a'' (keyed_search None)"
  let ?done = "submit ?pl 1 ?typed"
  let ?storage = "save_recents ?done Map.empty"
  have "search_browser ?pl [keyed_search None] Map.empty"
    using search_browser.opens [OF search_browser.fresh, where key = "Some ''k''"] by (simp add: keyed_search_def stored_recents_def)
  then have "search_browser ?pl [?typed] Map.empty"
    using search_browser.acts [of ?pl "[]" _ "[]"] search_step.input by fastforce
  then have "search_browser ?pl [?done] ?storage"
    using search_browser.acts [of ?pl "[]" _ "[]"] search_step.submit by fastforce
  then have "search_browser ?pl [] ?storage" using search_browser.closes [of ?pl "[]" _ "[]"] by fastforce
  from search_browser.opens [OF this, where key = "Some ''k''" and cols = "[]" and fs = "[]" and search = "[]" and suggestions = "[]" and n = 0]
  have again: "search_browser ?pl [keyed_search (stored_recents (Some ''k'') ?storage)] ?storage" by (simp add: keyed_search_def)
  have "map reSearch (recentSearches ?done) = [''a''] \<and> storageKey ?done = Some ''k''"
    by (simp add: submit_def close_list_def commit_def Let_def setInputValue_def keyed_search_def createAdvancedSearchStore_def
        current_submission_def same_submission_def plain_search_platform_def trim_def is_space_def char_between_def
        pushUndoSnapshot_def take_last_def addRecentSearch_def take_snapshot_def tags_from_def MAX_RECENT_SEARCHES_def)
  moreover from this have "stored_recents (Some ''k'') ?storage = Some (recentSearches ?done)"
    by (simp add: stored_recents_def save_recents_def)
  moreover have "recentSearches (keyed_search (Some rs)) = rs" for rs
    by (simp add: keyed_search_def createAdvancedSearchStore_def Let_def)
  ultimately have "map reSearch (recentSearches (keyed_search (stored_recents (Some ''k'') ?storage))) = [''a'']" by simp
  moreover have "inj (uniqueId ?pl)" by (simp add: plain_search_platform_def inj_def)
  ultimately show ?thesis using search_store_wellformed [OF _ again] again by (intro exI conjI) auto
qed

end
