(* ===== verification/Caches.thy ===== *)
theory Caches
  imports Json
begin

text \<open>
  The in-process stores: the least-recently-used map of \<open>lib/simple-lru.ts\<close>, the memory branch of the cache
  manager of \<open>lib/cache.ts\<close> (the branch without Redis; the Redis branch only forwards to the server) and the
  semaphore of \<open>lib/semaphore.ts\<close>. The time \<open>Date.now()\<close> is an argument.
\<close>

section \<open>Least recently used\<close>

text \<open>A stored \<open>undefined\<close> is \<open>None\<close>; the map is in the order of insertion, oldest first.\<close>

record ('k, 'v) lru =
  maxSize :: nat
  lruCache :: "('k \<times> 'v option) list"

definition lru_new :: "nat \<Rightarrow> ('k, 'v) lru" where
  "lru_new n = \<lparr>maxSize = n, lruCache = []\<rparr>"

definition lru_get :: "'k \<Rightarrow> ('k, 'v) lru \<Rightarrow> 'v option \<times> ('k, 'v) lru" where
  "lru_get k c = (case map_of (lruCache c) k of
     Some (Some v) \<Rightarrow> (Some v, c\<lparr>lruCache := AList.delete k (lruCache c) @ [(k, Some v)]\<rparr>)
   | _ \<Rightarrow> (None, c))"

definition lru_set :: "'k \<Rightarrow> 'v option \<Rightarrow> ('k, 'v) lru \<Rightarrow> ('k, 'v) lru" where
  "lru_set k v c =
     (let m = AList.delete k (lruCache c) @ [(k, v)]
      in c\<lparr>lruCache := (if length m > maxSize c then AList.delete (fst (hd m)) m else m)\<rparr>)"

definition lru_has :: "'k \<Rightarrow> ('k, 'v) lru \<Rightarrow> bool" where
  "lru_has k c = (map_of (lruCache c) k \<noteq> None)"

definition lru_clear :: "('k, 'v) lru \<Rightarrow> ('k, 'v) lru" where
  "lru_clear c = c\<lparr>lruCache := []\<rparr>"

text \<open>A run of operations, with the keys it used: those it set and those it found.\<close>

datatype ('k, 'v) lru_op = LruGet 'k | LruSet 'k 'v

fun lru_step :: "('k, 'v) lru_op \<Rightarrow> ('k, 'v) lru \<Rightarrow> ('k, 'v) lru" where
  "lru_step (LruGet k) c = snd (lru_get k c)"
| "lru_step (LruSet k v) c = lru_set k (Some v) c"

fun lru_used :: "('k, 'v) lru_op \<Rightarrow> ('k, 'v) lru \<Rightarrow> 'k list" where
  "lru_used (LruGet k) c = (if lru_has k c then [k] else [])"
| "lru_used (LruSet k v) c = [k]"

fun lru_run :: "('k, 'v) lru_op list \<Rightarrow> ('k, 'v) lru \<times> 'k list \<Rightarrow> ('k, 'v) lru \<times> 'k list" where
  "lru_run [] st = st"
| "lru_run (x # xs) st = lru_run xs (lru_step x (fst st), snd st @ lru_used x (fst st))"

text \<open>The value a key was last set to.\<close>

fun last_set :: "('k, 'v) lru_op list \<Rightarrow> 'k \<Rightarrow> 'v option" where
  "last_set [] k = None"
| "last_set (x # xs) k = (case last_set xs k of Some v \<Rightarrow> Some v
     | None \<Rightarrow> (case x of LruSet k' v \<Rightarrow> if k' = k then Some v else None | _ \<Rightarrow> None))"

text \<open>The \<open>n\<close> keys used last, the latest one at the end.\<close>

definition most_recent :: "nat \<Rightarrow> 'k list \<Rightarrow> 'k list" where
  "most_recent n ks = drop (length (remdups ks) - n) (remdups ks)"

lemma delete_keys: "map fst (AList.delete k m) = removeAll k (map fst m)"
  by (induction m) auto

lemma remdups_snoc: "remdups (ks @ [k]) = removeAll k (remdups ks) @ [k]"
  by (induction ks) (auto simp: removeAll_id)

lemma length_removeAll_distinct: "distinct xs \<Longrightarrow> k \<in> set xs \<Longrightarrow> length (removeAll k xs) = length xs - 1"
  by (simp add: distinct_remove1_removeAll [symmetric] length_remove1)

lemma removeAll_drop:
  assumes "distinct xs"
  shows "removeAll k (drop i xs) = (if k \<in> set (take i xs) then drop (i - 1) (removeAll k xs) else drop i (removeAll k xs))"
proof -
  have split: "removeAll k xs = removeAll k (take i xs) @ removeAll k (drop i xs)"
    by (metis append_take_drop_id removeAll_append)
  show ?thesis
  proof (cases "k \<in> set (take i xs)")
    case True
    have len: "length (removeAll k (take i xs)) \<le> i - 1"
      using assms True by (simp add: length_removeAll_distinct)
    have "k \<notin> set (drop i xs)" using assms True by (metis append_take_drop_id distinct_append disjoint_iff)
    then have id: "removeAll k (drop i xs) = drop i xs" by (rule removeAll_id)
    have "drop (i - 1) (removeAll k (take i xs) @ drop i xs) = drop i xs"
    proof (cases "i \<le> length xs")
      case le: True
      then have "length (removeAll k (take i xs)) = i - 1" using assms True by (simp add: length_removeAll_distinct)
      then show ?thesis by simp
    qed (use len in simp)
    then show ?thesis using True by (simp only: split id if_True)
  next
    case False
    show ?thesis
    proof (cases "i \<le> length xs")
      case True
      have "removeAll k xs = take i xs @ removeAll k (drop i xs)"
        using split unfolding removeAll_id [OF False] .
      then have "drop i (removeAll k xs) = drop i (take i xs @ removeAll k (drop i xs))" by (rule arg_cong)
      also have "\<dots> = removeAll k (drop i xs)" using True by (simp del: removeAll_append)
      finally show ?thesis using False by (simp only: if_False)
    next
      case le: False
      then have "removeAll k xs = xs" using False by (simp add: removeAll_id)
      then show ?thesis using le by simp
    qed
  qed
qed

lemma most_recent_snoc:
  assumes "0 < n"
  shows "most_recent n (ks @ [k]) =
    (let m = removeAll k (most_recent n ks) @ [k] in if length m > n then tl m else m)"
proof -
  let ?R = "remdups ks" and ?i = "length (remdups ks) - n"
  have d: "distinct ?R" by simp
  show ?thesis
  proof (cases "k \<in> set ?R")
    case True
    have len: "length (removeAll k ?R) = length ?R - 1" by (rule length_removeAll_distinct [OF d True])
    have pos: "0 < length ?R" using True by auto
    show ?thesis
    proof (cases "k \<in> set (take ?i ?R)")
      case t: True
      then have "0 < ?i" by (metis list.size(3) neq0_conv empty_iff empty_set take_0)
      moreover have "k \<notin> set (drop ?i ?R)" using d t by (metis append_take_drop_id distinct_append disjoint_iff)
      ultimately show ?thesis
        using t len pos assms removeAll_drop [OF d, of k ?i]
        by (simp add: most_recent_def remdups_snoc Let_def removeAll_id drop_Suc [symmetric] tl_drop Suc_diff_Suc)
    next
      case False
      then have "k \<in> set (drop ?i ?R)" using True by (metis append_take_drop_id Un_iff set_append)
      then have "length (removeAll k (drop ?i ?R)) = length (drop ?i ?R) - 1"
        by (rule length_removeAll_distinct [OF distinct_drop [OF d]])
      moreover have "0 < length (drop ?i ?R)" by (rule length_pos_if_in_set) fact
      ultimately show ?thesis
        using False len pos assms removeAll_drop [OF d, of k ?i]
        by (auto simp: most_recent_def remdups_snoc Let_def)
    qed
  next
    case False
    then have "removeAll k ?R = ?R" "removeAll k (drop ?i ?R) = drop ?i ?R"
      using in_set_dropD [of k ?i ?R] by (auto intro!: removeAll_id simp del: set_remdups)
    then show ?thesis
      using assms by (auto simp: most_recent_def remdups_snoc Let_def tl_drop drop_Suc [symmetric] Suc_diff_le)
  qed
qed

text \<open>The keys of the map follow the same rule.\<close>

lemma lru_set_keys:
  assumes "distinct (map fst (lruCache c))"
  shows "map fst (lruCache (lru_set k v c)) =
    (let m = removeAll k (map fst (lruCache c)) @ [k] in if length m > maxSize c then tl m else m)"
proof -
  let ?m = "AList.delete k (lruCache c) @ [(k, v)]"
  have keys: "map fst ?m = removeAll k (map fst (lruCache c)) @ [k]" by (simp add: delete_keys)
  have "distinct (map fst ?m)" using assms unfolding keys by (simp add: distinct_removeAll)
  then have "map fst (AList.delete (fst (hd ?m)) ?m) = tl (map fst ?m)"
    by (cases ?m) (simp_all add: delete_keys removeAll_id)
  moreover have "length (removeAll k (map fst (lruCache c)) @ [k]) = length ?m"
    using arg_cong [OF keys, of length] by simp
  ultimately show ?thesis using keys by (simp add: lru_set_def Let_def delete_keys)
qed

lemma lru_get_keys:
  "lru_has k c \<Longrightarrow> \<forall>p\<in>set (lruCache c). snd p \<noteq> None \<Longrightarrow>
   map fst (lruCache (snd (lru_get k c))) = removeAll k (map fst (lruCache c)) @ [k]"
  by (force simp: lru_has_def lru_get_def delete_keys dest: map_of_SomeD split: option.split)

lemma lru_get_miss: "\<not> lru_has k c \<Longrightarrow> lru_get k c = (None, c)"
  by (simp add: lru_has_def lru_get_def)

definition lru_ok :: "('k, 'v) lru \<times> 'k list \<Rightarrow> ('k, 'v) lru_op list \<Rightarrow> nat \<Rightarrow> bool" where
  "lru_ok st done n = (maxSize (fst st) = n \<and> map fst (lruCache (fst st)) = most_recent n (snd st)
     \<and> (\<forall>p\<in>set (lruCache (fst st)). snd p = last_set done (fst p) \<and> snd p \<noteq> None))"

lemma last_set_snoc:
  "last_set (xs @ [x]) k = (case x of LruSet k' v \<Rightarrow> if k' = k then Some v else last_set xs k | _ \<Rightarrow> last_set xs k)"
  by (induction xs) (auto split: option.splits lru_op.splits)

lemma distinct_most_recent [simp]: "distinct (most_recent n ks)"
  by (simp add: most_recent_def distinct_drop)

lemma length_most_recent: "length (most_recent n ks) \<le> n"
  by (simp add: most_recent_def)

lemma set_delete: "p \<in> set (AList.delete k m) \<longleftrightarrow> p \<in> set m \<and> fst p \<noteq> k"
  by (induction m) auto

lemma lru_okI:
  "maxSize c = n \<Longrightarrow> map fst (lruCache c) = most_recent n used \<Longrightarrow>
   (\<And>p. p \<in> set (lruCache c) \<Longrightarrow> snd p = last_set done (fst p) \<and> snd p \<noteq> None) \<Longrightarrow> lru_ok (c, used) done n"
  unfolding lru_ok_def fst_conv snd_conv by blast

lemma lru_ok_step:
  assumes ok: "lru_ok st done n" and n: "0 < n"
  shows "lru_ok (lru_step x (fst st), snd st @ lru_used x (fst st)) (done @ [x]) n"
proof -
  let ?c = "fst st"
  have keys: "map fst (lruCache ?c) = most_recent n (snd st)" and size: "maxSize ?c = n"
    and vals: "\<And>p. p \<in> set (lruCache ?c) \<Longrightarrow> snd p = last_set done (fst p) \<and> snd p \<noteq> None"
    using ok unfolding lru_ok_def by blast+
  have val: "last_set done (fst p) = snd p \<and> (\<exists>y. snd p = Some y)" if p: "p \<in> set (lruCache ?c)" for p
  proof -
    obtain y where "snd p = Some y" using vals [OF p] by blast
    then show ?thesis using vals [OF p] by simp
  qed
  show ?thesis
  proof (cases x)
    case (LruSet k v)
    have "map fst (lruCache (lru_set k (Some v) ?c)) = most_recent n (snd st @ [k])"
      using lru_set_keys [of ?c k "Some v"] most_recent_snoc [OF n, of "snd st" k] by (simp add: keys size)
    moreover have "snd p = last_set (done @ [x]) (fst p) \<and> snd p \<noteq> None" if "p \<in> set (lruCache (lru_set k (Some v) ?c))" for p
      using that val [of p] by (auto simp: lru_set_def Let_def set_delete last_set_snoc LruSet split: if_splits)
    moreover have "maxSize (lru_set k (Some v) ?c) = n" by (simp add: lru_set_def size Let_def)
    ultimately show ?thesis unfolding LruSet lru_step.simps lru_used.simps by (intro lru_okI)
  next
    case (LruGet k)
    show ?thesis
    proof (cases "lru_has k ?c")
      case False
      have "last_set (done @ [LruGet k]) = last_set done" by (rule ext) (simp add: last_set_snoc)
      then have "lru_ok (?c, snd st) (done @ [LruGet k]) n"
        using vals by (intro lru_okI [OF size keys]) (erule ssubst, rule vals)
      then show ?thesis using False by (simp add: LruGet lru_get_miss)
    next
      case True
      then have k: "k \<in> set (most_recent n (snd st))" by (simp add: lru_has_def keys [symmetric] map_of_eq_None_iff)
      have len: "length (removeAll k (most_recent n (snd st)) @ [k]) \<le> n"
        using length_removeAll_distinct [OF distinct_most_recent k] length_most_recent [of n "snd st"] n by simp
      have "map fst (lruCache (snd (lru_get k ?c))) = removeAll k (most_recent n (snd st)) @ [k]"
        unfolding keys [symmetric] by (rule lru_get_keys [OF True]) (blast dest: vals)
      then have "map fst (lruCache (snd (lru_get k ?c))) = most_recent n (snd st @ [k])"
        using most_recent_snoc [OF n, of "snd st" k] len by (simp add: Let_def)
      moreover have "snd p = last_set (done @ [x]) (fst p) \<and> snd p \<noteq> None" if "p \<in> set (lruCache (snd (lru_get k ?c)))" for p
        using that val [of p] by (auto simp: lru_get_def set_delete last_set_snoc LruGet split: option.splits dest!: map_of_SomeD)
      moreover have "maxSize (snd (lru_get k ?c)) = n" by (simp add: lru_get_def size split: option.split)
      ultimately show ?thesis unfolding LruGet lru_step.simps lru_used.simps if_P [OF True] by (intro lru_okI)
    qed
  qed
qed

lemma lru_ok_run: "lru_ok st done n \<Longrightarrow> 0 < n \<Longrightarrow> lru_ok (lru_run xs st) (done @ xs) n"
proof (induction xs arbitrary: st "done")
  case (Cons x xs)
  then show ?case using Cons.IH [OF lru_ok_step [OF Cons.prems(1,2)], of x] by simp
qed simp

text \<open>
  Claim C9. After any run of \<open>get\<close> and \<open>set\<close> the map holds exactly the keys used last, in the order of their use,
  as many as the bound allows, each with the value it was last set to: what is thrown out is the key that has
  not been used for the longest time.
\<close>
theorem lru_keeps_most_recent:
  assumes "0 < n" and "lru_run xs (lru_new n, []) = (c, used)"
  shows "map fst (lruCache c) = most_recent n used \<and> length (lruCache c) \<le> n
    \<and> fst (lru_get k c) = (if k \<in> set (most_recent n used) then last_set xs k else None)"
proof -
  have "lru_ok (lru_run xs (lru_new n, [])) ([] @ xs) n"
    by (rule lru_ok_run [OF _ assms(1)]) (simp add: lru_ok_def lru_new_def most_recent_def)
  then have keys: "map fst (lruCache c) = most_recent n used"
    and vals: "\<And>p. p \<in> set (lruCache c) \<Longrightarrow> snd p = last_set xs (fst p) \<and> snd p \<noteq> None"
    unfolding lru_ok_def assms(2) by auto
  have "fst (lru_get k c) = (if k \<in> set (map fst (lruCache c)) then last_set xs k else None)"
  proof (cases "map_of (lruCache c) k")
    case None
    then have "k \<notin> set (map fst (lruCache c))" by (simp add: map_of_eq_None_iff)
    then show ?thesis using None by (simp add: lru_get_def)
  next
    case (Some v)
    then have "(k, v) \<in> set (lruCache c)" by (rule map_of_SomeD)
    then show ?thesis using vals [of "(k, v)"] Some by (force simp: lru_get_def split: option.split)
  qed
  moreover have "length (lruCache c) \<le> n"
    using length_most_recent [of n used] arg_cong [OF keys, of length] by simp
  ultimately show ?thesis by (simp add: keys)
qed

section \<open>Semaphore\<close>

text \<open>The free permits and the promises that wait, first come first. \<open>acquire\<close> says whether the promise is resolved
  at once; \<open>release\<close> which waiting one it resolves.\<close>

record 'p semaphore =
  permits :: nat
  waiters :: "'p list"

definition semaphore_new :: "int \<Rightarrow> string + 'p semaphore" where
  "semaphore_new n = (if n < 0 then Inl ''Semaphore value must be >= 0'' else Inr \<lparr>permits = nat n, waiters = []\<rparr>)"

definition acquire :: "'p \<Rightarrow> 'p semaphore \<Rightarrow> bool \<times> 'p semaphore" where
  "acquire p s = (if 0 < permits s then (True, s\<lparr>permits := permits s - 1\<rparr>) else (False, s\<lparr>waiters := waiters s @ [p]\<rparr>))"

definition release :: "'p semaphore \<Rightarrow> 'p option \<times> 'p semaphore" where
  "release s = (case waiters s of p # ps \<Rightarrow> (Some p, s\<lparr>waiters := ps\<rparr>) | [] \<Rightarrow> (None, s\<lparr>permits := Suc (permits s)\<rparr>))"

text \<open>Tasks that run under \<open>using\<close>: a task arrives and acquires; one that holds a permit ends, by returning or by
  throwing, and releases. The log keeps the order in which tasks arrived and in which they got a permit.\<close>

record 'p sem_system =
  sem :: "'p semaphore"
  holding :: "'p list"
  arrived :: "'p list"
  granted :: "'p list"

definition task_arrives :: "'p \<Rightarrow> 'p sem_system \<Rightarrow> 'p sem_system" where
  "task_arrives p s = (let (now, t) = acquire p (sem s) in
     s\<lparr>sem := t, arrived := arrived s @ [p], holding := (if now then p # holding s else holding s),
       granted := (if now then granted s @ [p] else granted s)\<rparr>)"

definition task_ends :: "'p \<Rightarrow> 'p sem_system \<Rightarrow> 'p sem_system" where
  "task_ends p s = (let (woken, t) = release (sem s); rest = remove1 p (holding s) in
     s\<lparr>sem := t, holding := (case woken of Some q \<Rightarrow> q # rest | None \<Rightarrow> rest),
       granted := (case woken of Some q \<Rightarrow> granted s @ [q] | None \<Rightarrow> granted s)\<rparr>)"

inductive sem_reachable :: "nat \<Rightarrow> 'p sem_system \<Rightarrow> bool" for n where
  start: "sem_reachable n \<lparr>sem = \<lparr>permits = n, waiters = []\<rparr>, holding = [], arrived = [], granted = []\<rparr>"
| arrives: "sem_reachable n s \<Longrightarrow> sem_reachable n (task_arrives p s)"
| ends: "sem_reachable n s \<Longrightarrow> p \<in> set (holding s) \<Longrightarrow> sem_reachable n (task_ends p s)"

text \<open>
  Claim C27. The semaphore admits as many tasks as it has permits and no more: the free permits and the running
  tasks together are always the initial permits, a task waits only when all of them are taken, and permits are
  given in the order in which the tasks arrived.
\<close>
theorem semaphore_bounded_fifo:
  assumes "sem_reachable n s"
  shows "permits (sem s) + length (holding s) = n
    \<and> (waiters (sem s) \<noteq> [] \<longrightarrow> length (holding s) = n)
    \<and> arrived s = granted s @ waiters (sem s)"
proof -
  have "permits (sem s) + length (holding s) = n \<and> (waiters (sem s) \<noteq> [] \<longrightarrow> permits (sem s) = 0)
      \<and> arrived s = granted s @ waiters (sem s)"
    using assms
  proof (induction rule: sem_reachable.induct)
    case (arrives s p)
    then show ?case by (auto simp: task_arrives_def acquire_def)
  next
    case (ends s p)
    then have "0 < length (holding s)" by auto
    then show ?case
      using ends by (cases "waiters (sem s)") (auto simp: task_ends_def release_def length_remove1 Let_def)
  qed simp
  then show ?thesis by auto
qed

section \<open>The memory cache\<close>

record cache_entry =
  cvalue :: json
  expiresAt :: "number option"

type_synonym memory_cache = "(string \<times> cache_entry) list"

record set_options =
  expireAfterSeconds :: "number option"
  expireAt :: "number option"

text \<open>\<open>entry.expiresAt && entry.expiresAt < Date.now()\<close>: a bound of 0 counts as none.\<close>

definition is_expired :: "number \<Rightarrow> cache_entry \<Rightarrow> bool" where
  "is_expired now e = (case expiresAt e of None \<Rightarrow> False | Some t \<Rightarrow> t \<noteq> 0 \<and> t < now)"

definition cache_get :: "number \<Rightarrow> string \<Rightarrow> memory_cache \<Rightarrow> json option \<times> memory_cache" where
  "cache_get now k m = (case map_of m k of
     None \<Rightarrow> (None, m)
   | Some e \<Rightarrow> if is_expired now e then (None, AList.delete k m) else (Some (cvalue e), m))"

definition cache_set :: "number \<Rightarrow> string \<Rightarrow> json \<Rightarrow> set_options \<Rightarrow> memory_cache \<Rightarrow> memory_cache" where
  "cache_set now k v opt m =
     (let t = (case expireAfterSeconds opt of
          Some s \<Rightarrow> if s \<noteq> 0 then Some (now + s * 1000) else expireAt opt
        | None \<Rightarrow> expireAt opt)
      in AList.update k \<lparr>cvalue = v, expiresAt = t\<rparr> m)"

definition cache_remove :: "string \<Rightarrow> memory_cache \<Rightarrow> memory_cache" where
  "cache_remove k m = AList.delete k m"

text \<open>\<open>entry.value && entry.value[field] === value\<close>.\<close>

definition field_is :: "json \<Rightarrow> string \<Rightarrow> string \<Rightarrow> bool" where
  "field_is v field x = (json_truthy v \<and> map_of (spread v) field = Some (JStr x))"

definition getAndRemoveIfMatch :: "number \<Rightarrow> string \<Rightarrow> string \<Rightarrow> string \<Rightarrow> memory_cache \<Rightarrow> json option \<times> memory_cache" where
  "getAndRemoveIfMatch now k field x m = (case map_of m k of
     None \<Rightarrow> (None, m)
   | Some e \<Rightarrow> if is_expired now e then (None, AList.delete k m)
       else if field_is (cvalue e) field x then (Some (cvalue e), AList.delete k m)
       else (None, m))"

definition cache_expire :: "number \<Rightarrow> string \<Rightarrow> number \<Rightarrow> memory_cache \<Rightarrow> bool \<times> memory_cache" where
  "cache_expire now k seconds m = (case map_of m k of
     None \<Rightarrow> (False, m)
   | Some e \<Rightarrow> (True, AList.update k (e\<lparr>expiresAt := Some (now + seconds * 1000)\<rparr>) m))"

definition cache_exists :: "number \<Rightarrow> string \<Rightarrow> memory_cache \<Rightarrow> bool \<times> memory_cache" where
  "cache_exists now k m = (case map_of m k of
     None \<Rightarrow> (False, m)
   | Some e \<Rightarrow> if is_expired now e then (False, AList.delete k m) else (True, m))"

text \<open>The sorted sets have no memory counterpart.\<close>

definition cache_zrange :: "string \<Rightarrow> int \<Rightarrow> int \<Rightarrow> memory_cache \<Rightarrow> string list" where
  "cache_zrange k start stop m = []"

definition cache_zrangebylex :: "string \<Rightarrow> string \<Rightarrow> string \<Rightarrow> nat \<Rightarrow> memory_cache \<Rightarrow> string list" where
  "cache_zrangebylex k lo hi limit m = []"

text \<open>What the cache means at a time: the entries that have not expired. Time only moves on.\<close>

definition live :: "number \<Rightarrow> memory_cache \<Rightarrow> string \<Rightarrow> cache_entry option" where
  "live now m k = (case map_of m k of None \<Rightarrow> None | Some e \<Rightarrow> if is_expired now e then None else Some e)"

lemma is_expired_mono: "is_expired now e \<Longrightarrow> now \<le> later \<Longrightarrow> is_expired later e"
  by (auto simp: is_expired_def split: option.splits)

lemma live_delete: "live t (AList.delete k m) k' = (if k' = k then None else live t m k')"
  by (simp add: live_def delete_conv')

lemma live_update: "live t (AList.update k e m) k' = (if k' = k then (if is_expired t e then None else Some e) else live t m k')"
  by (simp add: live_def update_conv')

lemma live_expired: "map_of m k = Some e \<Longrightarrow> is_expired now e \<Longrightarrow> now \<le> t \<Longrightarrow> live t m k = None"
  by (simp add: live_def is_expired_mono)

lemma get_live: "fst (cache_get now k m) = map_option cvalue (live now m k)"
  by (simp add: cache_get_def live_def split: option.split)

lemma live_get: "now \<le> t \<Longrightarrow> live t (snd (cache_get now k m)) = live t m"
  by (rule ext) (auto simp: cache_get_def live_delete live_expired split: option.split)

text \<open>Reading and testing answer from the live entries and change none of them, now or later; removing takes the one key,
  and so does a caller that matches.\<close>

lemma cache_steps_live:
  assumes later: "now \<le> t"
  shows "fst (cache_get now k m) = map_option cvalue (live now m k) \<and> live t (snd (cache_get now k m)) = live t m
    \<and> fst (cache_exists now k m) = (live now m k \<noteq> None) \<and> live t (snd (cache_exists now k m)) = live t m
    \<and> live t (cache_remove k m) = (live t m)(k := None)
    \<and> fst (getAndRemoveIfMatch now k f x m) =
        (case live now m k of None \<Rightarrow> None | Some e \<Rightarrow> if field_is (cvalue e) f x then Some (cvalue e) else None)
    \<and> live t (snd (getAndRemoveIfMatch now k f x m)) =
        (if fst (getAndRemoveIfMatch now k f x m) = None then live t m else (live t m)(k := None))"
proof -
  have gone: "(live t m)(k := None) = live t m" if "map_of m k = Some e" "is_expired now e" for e
    using live_expired [OF that later] by (auto simp: fun_upd_def)
  have del: "live t (AList.delete k m) = (live t m)(k := None)"
    by (rule ext) (simp add: live_delete)
  show ?thesis
  proof (cases "map_of m k")
    case None
    then show ?thesis
      by (simp add: cache_get_def cache_exists_def cache_remove_def cache_set_def getAndRemoveIfMatch_def live_def [of now]
          del Let_def live_update)
  next
    case (Some e)
    then show ?thesis
      using gone [of e] by (simp add: cache_get_def cache_exists_def cache_remove_def cache_set_def getAndRemoveIfMatch_def
          live_def [of now] del Let_def live_update)
  qed
qed

section \<open>What the memory cache promises\<close>

text \<open>The specification: a table of values, each with the last time at which it can be read, or none. Nothing is
  ever cleared away; what is past its time is not read.\<close>

type_synonym table = "string \<rightharpoonup> json \<times> number option"

definition readable :: "number \<Rightarrow> table \<Rightarrow> string \<Rightarrow> json option" where
  "readable now T k = (case T k of
     Some (v, None) \<Rightarrow> Some v
   | Some (v, Some t) \<Rightarrow> if now \<le> t then Some v else None
   | None \<Rightarrow> None)"

text \<open>What a caller does, at a time: the operations of the cache, and what it is told.\<close>

datatype cache_call = Get string | Exists string | Put string json set_options | Remove string
  | Take string string string | Extend string number

datatype cache_answer = Value "json option" | Known bool | Done

fun cache_apply :: "number \<Rightarrow> cache_call \<Rightarrow> memory_cache \<Rightarrow> cache_answer \<times> memory_cache" where
  "cache_apply now (Get k) m = (let (v, m') = cache_get now k m in (Value v, m'))"
| "cache_apply now (Exists k) m = (let (b, m') = cache_exists now k m in (Known b, m'))"
| "cache_apply now (Put k v opt) m = (Done, cache_set now k v opt m)"
| "cache_apply now (Remove k) m = (Done, cache_remove k m)"
| "cache_apply now (Take k f x) m = (let (v, m') = getAndRemoveIfMatch now k f x m in (Value v, m'))"
| "cache_apply now (Extend k s) m = (let (b, m') = cache_expire now k s m in (Known b, m'))"

text \<open>Until when a value stored now is kept: for so many seconds, until a date, or for good.\<close>

definition kept_until :: "number \<Rightarrow> set_options \<Rightarrow> number option" where
  "kept_until now opt = (let seconds = expireAfterSeconds opt; date = expireAt opt in
     if seconds \<noteq> None \<and> seconds \<noteq> Some 0 then Some (now + 1000 * the seconds)
     else if date = Some 0 then None else date)"

fun table_apply :: "number \<Rightarrow> cache_call \<Rightarrow> table \<Rightarrow> cache_answer \<times> table" where
  "table_apply now (Get k) T = (Value (readable now T k), T)"
| "table_apply now (Exists k) T = (Known (readable now T k \<noteq> None), T)"
| "table_apply now (Put k v opt) T = (Done, T(k \<mapsto> (v, kept_until now opt)))"
| "table_apply now (Remove k) T = (Done, T(k := None))"
| "table_apply now (Take k f x) T =
     (case readable now T k of
        None \<Rightarrow> (Value None, T)
      | Some v \<Rightarrow> if field_is v f x then (Value (Some v), T(k := None)) else (Value None, T))"
| "table_apply now (Extend k s) T =
     (case readable now T k of
        None \<Rightarrow> (Known False, T)
      | Some v \<Rightarrow> (Known True, T(k \<mapsto> (v, Some (now + 1000 * s)))))"

fun answers :: "(number \<Rightarrow> cache_call \<Rightarrow> 's \<Rightarrow> cache_answer \<times> 's) \<Rightarrow> (number \<times> cache_call) list \<Rightarrow> 's \<Rightarrow> cache_answer list" where
  "answers apply_call [] s = []"
| "answers apply_call ((now, c) # cs) s = (let (a, s') = apply_call now c s in a # answers apply_call cs s')"

definition proper_call :: "number \<Rightarrow> cache_call \<Rightarrow> table \<Rightarrow> bool" where
  "proper_call now c T = (case c of
     Put k v opt \<Rightarrow> (case expireAfterSeconds opt of Some s \<Rightarrow> 0 \<le> s | None \<Rightarrow> True)
   | Extend k s \<Rightarrow> 0 \<le> s \<and> readable now T k \<noteq> None
   | _ \<Rightarrow> True)"

text \<open>Time does not run backwards, lifetimes are not negative, and only entries that can be read are given a new
  lifetime (\<open>expire\<close> would bring the others back, see below).\<close>

fun proper :: "number \<Rightarrow> (number \<times> cache_call) list \<Rightarrow> table \<Rightarrow> bool" where
  "proper before [] T = True"
| "proper before ((now, c) # cs) T =
     (before \<le> now \<and> proper_call now c T \<and> proper now cs (snd (table_apply now c T)))"

text \<open>The cache stands for the table from now on: at every later time the same values can be read.\<close>

definition stands_for :: "number \<Rightarrow> memory_cache \<Rightarrow> table \<Rightarrow> bool" where
  "stands_for now m T = (\<forall>t k. now \<le> t \<longrightarrow> readable t T k = map_option cvalue (live t m k))"

lemma stands_for_later: "stands_for now m T \<Longrightarrow> now \<le> t \<Longrightarrow> stands_for t m T"
  by (auto simp: stands_for_def)

lemma readable_update: "readable t (T(k := e)) k' = (if k' = k then readable t (\<lambda>_. e) k else readable t T k')"
  by (simp add: readable_def)

lemma put_live:
  assumes "0 < now" "now \<le> t" "proper_call now (Put k v opt) T"
  shows "map_option cvalue (live t (cache_set now k v opt m) k') = (if k' = k then readable t (\<lambda>_. Some (v, kept_until now opt)) k else map_option cvalue (live t m k'))"
proof -
  have "now + s * 1000 \<noteq> 0" if "expireAfterSeconds opt = Some s" for s
  proof -
    have "0 \<le> s" using assms(3) that by (simp add: proper_call_def)
    then show ?thesis using assms(1) by linarith
  qed
  then show ?thesis
    by (cases opt) (auto simp: cache_set_def live_update is_expired_def kept_until_def readable_def mult.commute
        split: option.split)
qed

lemma call_step:
  assumes rel: "stands_for now m T" and "0 < now" and "proper_call now c T"
  shows "fst (cache_apply now c m) = fst (table_apply now c T) \<and> stands_for now (snd (cache_apply now c m)) (snd (table_apply now c T))"
proof -
  have at: "readable t T k = map_option cvalue (live t m k)" if "now \<le> t" for t k
    using rel that by (simp add: stands_for_def)
  note steps = cache_steps_live [of now]
  show ?thesis
  proof (cases c)
    case (Get k)
    then show ?thesis using steps [of now k m] steps [of _ k m] rel
      by (simp add: stands_for_def case_prod_beta)
  next
    case (Exists k)
    then show ?thesis using steps [of now k m] steps [of _ k m] rel
      by (simp add: stands_for_def case_prod_beta)
  next
    case (Put k v opt)
    then show ?thesis using put_live [OF assms(2), of _ k v opt T m] assms(3) at
      by (simp add: stands_for_def readable_update)
  next
    case (Remove k)
    then show ?thesis using steps [of _ k m] at by (auto simp: stands_for_def readable_update readable_def [of _ "\<lambda>_. None"])
  next
    case (Take k f x)
    then show ?thesis using steps [of now k m f x] steps [of _ k m f x] at
      by (auto simp: stands_for_def case_prod_beta readable_update readable_def [of _ "\<lambda>_. None"] split: option.splits)
  next
    case (Extend k s)
    then have "0 \<le> s" and "readable now T k \<noteq> None" using assms(3) by (simp_all add: proper_call_def)
    then obtain e where e: "map_of m k = Some e" "readable now T k = Some (cvalue e)"
      using at [of now k] by (auto simp: live_def split: option.splits if_splits)
    have "now + s * 1000 \<noteq> 0" using assms(2) \<open>0 \<le> s\<close> by linarith
    then show ?thesis using at e Extend
      by (auto simp: stands_for_def cache_expire_def live_update readable_update readable_def [of _ "\<lambda>_. Some (cvalue e, _)"]
          is_expired_def mult.commute)
  qed
qed


text \<open>
  \<open>expire\<close> brings an expired entry back: the entry that reading it would find gone, and whose existence the
  cache would deny, is answered for with \<open>true\<close> and is readable again until the new bound.
\<close>
lemma expire_revives_expired_entry:
  assumes "map_of m k = Some e" and "is_expired now e" and "0 < now" and "0 \<le> seconds"
  shows "fst (cache_exists now k m) = False \<and> fst (cache_get now k m) = None
    \<and> fst (cache_expire now k seconds m) \<and> fst (cache_get now k (snd (cache_expire now k seconds m))) = Some (cvalue e)"
  using assms by (auto simp: cache_exists_def cache_get_def cache_expire_def update_conv' is_expired_def)

section \<open>Concrete runs\<close>

lemma lru_keeps_most_recent_witness:
  "fst (lru_get (2::nat) (fst (lru_run [LruSet 1 ''a'', LruSet 2 ''b'', LruGet 1, LruSet 3 ''c''] (lru_new 2, [])))) = None \<and>
   fst (lru_get 1 (fst (lru_run [LruSet (1::nat) ''a'', LruSet 2 ''b'', LruGet 1, LruSet 3 ''c''] (lru_new 2, [])))) = Some ''a''"
proof -
  let ?xs = "[LruSet (1::nat) ''a'', LruSet 2 ''b'', LruGet 1, LruSet 3 ''c'']"
  have used: "snd (lru_run ?xs (lru_new 2, [])) = [1, 2, 1, 3]"
    by (simp add: lru_new_def lru_set_def lru_get_def lru_has_def)
  have run: "lru_run ?xs (lru_new 2, []) = (fst (lru_run ?xs (lru_new 2, [])), [1, 2, 1, 3])"
    using used by (metis prod.collapse)
  show ?thesis
    using lru_keeps_most_recent [OF _ run, of 1] lru_keeps_most_recent [OF _ run, of 2] by (simp add: most_recent_def)
qed

definition one_permit :: "nat sem_system" where
  "one_permit = task_arrives 2 (task_arrives 1 \<lparr>sem = \<lparr>permits = 1, waiters = []\<rparr>, holding = [], arrived = [], granted = []\<rparr>)"

lemma semaphore_bounded_fifo_witness: "length (holding one_permit) = 1 \<and> arrived one_permit = granted one_permit @ [2]"
proof -
  have "sem_reachable 1 one_permit"
    unfolding one_permit_def by (intro sem_reachable.arrives sem_reachable.start)
  moreover have "waiters (sem one_permit) = [2]" by (simp add: one_permit_def task_arrives_def acquire_def)
  ultimately show ?thesis using semaphore_bounded_fifo [of 1 one_permit] by simp
qed

definition token_cache :: memory_cache where
  "token_cache = [(''t'', \<lparr>cvalue = JObj [(''owner'', JStr ''u'')], expiresAt = Some 10\<rparr>)]"

definition token_calls :: "(number \<times> cache_call) list" where
  "token_calls =
     [(1000, Put ''t'' (JObj [(''owner'', JStr ''u'')]) \<lparr>expireAfterSeconds = Some 2, expireAt = None\<rparr>),
      (2000, Take ''t'' ''owner'' ''x''), (2500, Extend ''t'' 1), (3200, Take ''t'' ''owner'' ''u''), (3300, Exists ''t''),
      (4000, Put ''n'' JNull \<lparr>expireAfterSeconds = Some 2, expireAt = None\<rparr>), (6000, Exists ''n''), (6001, Exists ''n'')]"


lemma expire_revives_expired_entry_witness:
  "fst (cache_get 20 ''t'' (snd (cache_expire 20 ''t'' 1 token_cache))) = Some (JObj [(''owner'', JStr ''u'')])"
  using expire_revives_expired_entry [of token_cache "''t''" "\<lparr>cvalue = JObj [(''owner'', JStr ''u'')], expiresAt = Some 10\<rparr>" 20 1]
  by (simp add: token_cache_def is_expired_def)

end
