(* ===== verification/DiffRows.thy ===== *)
theory DiffRows
  imports JsText
begin

text \<open>
  The diff of two versions of an agent's settings (\<open>components/settings/agent-versions/diff.ts\<close>): rows of equal,
  added and removed lines with the changed words of a pair highlighted, and the collapsing of long unchanged
  stretches. The line and word diffs of the package \<open>diff\<close> are parameters; a property uses what the package
  documents: the parts that are not added make up the old text, those that are not removed the new one, and the
  parts of a line diff are whole lines.
\<close>

section \<open>Rows\<close>

record diff_part =
  pvalue :: string
  padded :: bool
  premoved :: bool

record differ =
  diffLines :: "string \<Rightarrow> string \<Rightarrow> diff_part list"
  diffWordsWithSpace :: "string \<Rightarrow> string \<Rightarrow> diff_part list"

record segment =
  stext :: string
  highlight :: bool

datatype diff_row = EqualRow string | AddRow "segment list" | RemoveRow "segment list" | GapRow nat

definition newline :: char where "newline = CHR 0x0A"

definition splitLines :: "string \<Rightarrow> string list" where
  "splitLines v = (let ls = split_on newline v in if ls \<noteq> [] \<and> last ls = [] then butlast ls else ls)"

fun pair_segments :: "diff_part list \<Rightarrow> segment list \<times> segment list \<Rightarrow> segment list \<times> segment list" where
  "pair_segments [] acc = acc"
| "pair_segments (p # ps) acc =
     pair_segments ps
       (if padded p then (fst acc, snd acc @ [\<lparr>stext = pvalue p, highlight = True\<rparr>])
        else if premoved p then (fst acc @ [\<lparr>stext = pvalue p, highlight = True\<rparr>], snd acc)
        else (fst acc @ [\<lparr>stext = pvalue p, highlight = False\<rparr>], snd acc @ [\<lparr>stext = pvalue p, highlight = False\<rparr>]))"

definition pairSegments :: "differ \<Rightarrow> string \<Rightarrow> string \<Rightarrow> segment list \<times> segment list" where
  "pairSegments d removed added = pair_segments (diffWordsWithSpace d removed added) ([], [])"

definition plain :: "string \<Rightarrow> segment list" where
  "plain line = [\<lparr>stext = line, highlight = False\<rparr>]"

text \<open>A removed block and the added block after it: the lines they have both are paired, the others follow.\<close>

definition paired_rows :: "differ \<Rightarrow> string list \<Rightarrow> string list \<Rightarrow> diff_row list" where
  "paired_rows d rs as =
     (let n = min (length rs) (length as)
      in concat (map (\<lambda>k. let (r, a) = pairSegments d (rs ! k) (as ! k) in [RemoveRow r, AddRow a]) [0..<n]) @
         map (\<lambda>l. RemoveRow (plain l)) (drop n rs) @ map (\<lambda>l. AddRow (plain l)) (drop n as))"

fun diff_rows :: "differ \<Rightarrow> diff_part list \<Rightarrow> diff_row list" where
  "diff_rows d [] = []"
| "diff_rows d (p # ps) =
     (if \<not> padded p \<and> \<not> premoved p then map EqualRow (splitLines (pvalue p)) @ diff_rows d ps
      else if premoved p then
        (case ps of
           q # qs \<Rightarrow>
             if padded q then paired_rows d (splitLines (pvalue p)) (splitLines (pvalue q)) @ diff_rows d qs
             else map (\<lambda>l. RemoveRow (plain l)) (splitLines (pvalue p)) @ diff_rows d ps
         | [] \<Rightarrow> map (\<lambda>l. RemoveRow (plain l)) (splitLines (pvalue p)))
      else map (\<lambda>l. AddRow (plain l)) (splitLines (pvalue p)) @ diff_rows d ps)"

text \<open>A missing text is empty.\<close>

definition or_empty :: "string option \<Rightarrow> string" where
  "or_empty t = (case t of None \<Rightarrow> [] | Some s \<Rightarrow> s)"

definition computeDiffRows :: "differ \<Rightarrow> string option \<Rightarrow> string option \<Rightarrow> diff_row list" where
  "computeDiffRows d old new = diff_rows d (diffLines d (or_empty old) (or_empty new))"

section \<open>Collapsing\<close>

fun is_equal :: "diff_row \<Rightarrow> bool" where
  "is_equal (EqualRow _) = True"
| "is_equal _ = False"

text \<open>\<open>for (let k = Math.max(0, idx - context); k <= Math.min(rows.length - 1, idx + context); k++) keep[k] = true\<close>.\<close>

definition mark_range :: "nat \<Rightarrow> nat \<Rightarrow> bool list \<Rightarrow> bool list" where
  "mark_range idx ctx keep = foldl (\<lambda>ks k. ks[k := True]) keep [idx - ctx..<Suc (min (length keep - 1) (idx + ctx))]"

definition keep_flags :: "diff_row list \<Rightarrow> nat \<Rightarrow> bool list" where
  "keep_flags rows ctx = foldl (\<lambda>ks p. if is_equal (snd p) then ks else mark_range (fst p) ctx ks)
     (replicate (length rows) False) (enumerate 0 rows)"

definition flush_gap :: "nat \<Rightarrow> diff_row list" where
  "flush_gap gap = (if 0 < gap then [GapRow gap] else [])"

fun collapse_rows :: "(bool \<times> diff_row) list \<Rightarrow> nat \<Rightarrow> diff_row list" where
  "collapse_rows [] gap = flush_gap gap"
| "collapse_rows ((k, r) # rs) gap = (if k then flush_gap gap @ r # collapse_rows rs 0 else collapse_rows rs (Suc gap))"

definition collapseDiffRows :: "diff_row list \<Rightarrow> nat \<Rightarrow> diff_row list" where
  "collapseDiffRows rows ctx = collapse_rows (zip (keep_flags rows ctx) rows) 0"

text \<open>JSON text printed with two spaces of indentation, or the input when it is no JSON.\<close>

definition prettyJson :: "(string \<Rightarrow> 'j option) \<Rightarrow> ('j \<Rightarrow> string) \<Rightarrow> string \<Rightarrow> string" where
  "prettyJson parse print v = (if v = [] then [] else case parse v of Some j \<Rightarrow> print j | None \<Rightarrow> v)"

section \<open>The lines of the rows\<close>

definition segments_text :: "segment list \<Rightarrow> string" where
  "segments_text ss = concat (map stext ss)"

fun old_line :: "diff_row \<Rightarrow> string list" where
  "old_line (EqualRow t) = [t]"
| "old_line (RemoveRow ss) = [segments_text ss]"
| "old_line _ = []"

fun new_line :: "diff_row \<Rightarrow> string list" where
  "new_line (EqualRow t) = [t]"
| "new_line (AddRow ss) = [segments_text ss]"
| "new_line _ = []"

definition old_lines :: "diff_row list \<Rightarrow> string list" where "old_lines rows = concat (map old_line rows)"
definition new_lines :: "diff_row list \<Rightarrow> string list" where "new_lines rows = concat (map new_line rows)"

lemma lines_append [simp]:
  "old_lines (xs @ ys) = old_lines xs @ old_lines ys" "new_lines (xs @ ys) = new_lines xs @ new_lines ys"
  "old_lines [] = []" "new_lines [] = []"
  by (simp_all add: old_lines_def new_lines_def)

lemma segments_plain [simp]: "segments_text (plain l) = l"
  by (simp add: segments_text_def plain_def)

lemma lines_map [simp]:
  "old_lines (map EqualRow ls) = ls" "new_lines (map EqualRow ls) = ls"
  "old_lines (map (\<lambda>l. RemoveRow (plain l)) ls) = ls" "new_lines (map (\<lambda>l. RemoveRow (plain l)) ls) = []"
  "old_lines (map (\<lambda>l. AddRow (plain l)) ls) = []" "new_lines (map (\<lambda>l. AddRow (plain l)) ls) = ls"
  by (induction ls) (simp_all add: old_lines_def new_lines_def)

text \<open>The texts of the parts that are not added, and of those that are not removed.\<close>

definition old_text :: "diff_part list \<Rightarrow> string" where
  "old_text ps = concat (map pvalue (filter (\<lambda>p. \<not> padded p) ps))"

definition new_text :: "diff_part list \<Rightarrow> string" where
  "new_text ps = concat (map pvalue (filter (\<lambda>p. \<not> premoved p) ps))"

text \<open>What the package documents of a word diff and of a line diff.\<close>

definition words_law :: "differ \<Rightarrow> bool" where
  "words_law d = (\<forall>a b. old_text (diffWordsWithSpace d a b) = a \<and> new_text (diffWordsWithSpace d a b) = b
     \<and> (\<forall>p\<in>set (diffWordsWithSpace d a b). \<not> (padded p \<and> premoved p)))"

text \<open>A list of texts of which all but the last are whole lines.\<close>

fun whole_lines :: "string list \<Rightarrow> bool" where
  "whole_lines [] = True"
| "whole_lines [v] = True"
| "whole_lines (v # w # vs) = (v \<noteq> [] \<and> last v = newline \<and> whole_lines (w # vs))"

definition lines_law :: "differ \<Rightarrow> bool" where
  "lines_law d = (\<forall>a b. old_text (diffLines d a b) = a \<and> new_text (diffLines d a b) = b
     \<and> (\<forall>p\<in>set (diffLines d a b). \<not> (padded p \<and> premoved p))
     \<and> whole_lines (map pvalue (filter (\<lambda>p. \<not> padded p) (diffLines d a b)))
     \<and> whole_lines (map pvalue (filter (\<lambda>p. \<not> premoved p) (diffLines d a b))))"

lemma split_on_snoc: "split_on x (v @ [x]) = split_on x v @ [[]]"
  by (induction v) (auto split: list.splits)

lemma split_on_append_sep: "split_on x (v @ x # w) = split_on x v @ split_on x w"
  by (induction v) (auto split: list.splits)

lemma splitLines_append:
  assumes "v \<noteq> []" and "last v = newline"
  shows "splitLines (v @ w) = splitLines v @ splitLines w"
proof -
  obtain u where v: "v = u @ [newline]" using assms by (metis append_butlast_last_id)
  have "splitLines v = split_on newline u" by (simp add: splitLines_def v split_on_snoc)
  moreover have "splitLines (v @ w) = split_on newline u @ splitLines w"
    by (simp add: splitLines_def v split_on_append_sep butlast_append Let_def)
  ultimately show ?thesis by simp
qed

lemma splitLines_concat: "whole_lines vs \<Longrightarrow> splitLines (concat vs) = concat (map splitLines vs)"
proof (induction vs rule: whole_lines.induct)
  case (3 v w vs)
  then show ?case using splitLines_append [of v "concat (w # vs)"] by simp
qed (simp_all add: splitLines_def)

section \<open>The rows hold both texts\<close>

lemma pair_segments_text:
  "\<forall>p\<in>set ps. \<not> (padded p \<and> premoved p) \<Longrightarrow>
   segments_text (fst (pair_segments ps acc)) = segments_text (fst acc) @ old_text ps \<and>
   segments_text (snd (pair_segments ps acc)) = segments_text (snd acc) @ new_text ps"
  by (induction ps arbitrary: acc) (auto simp: segments_text_def old_text_def new_text_def)

lemma pairSegments_text:
  "words_law d \<Longrightarrow> segments_text (fst (pairSegments d r a)) = r \<and> segments_text (snd (pairSegments d r a)) = a"
  using pair_segments_text [of "diffWordsWithSpace d r a" "([], [])"]
  by (simp add: words_law_def pairSegments_def segments_text_def)

lemma pairSegments_eq:
  "words_law d \<Longrightarrow> pairSegments d r a = (x, y) \<Longrightarrow> segments_text x = r \<and> segments_text y = a"
  using pairSegments_text [of d r a] by simp

lemma old_lines_pairs:
  "words_law d \<Longrightarrow> n \<le> length rs \<Longrightarrow>
   old_lines (concat (map (\<lambda>k. let (r, a) = pairSegments d (rs ! k) (as ! k) in [RemoveRow r, AddRow a]) [0..<n])) = take n rs"
  by (induction n) (auto simp: take_Suc_conv_app_nth old_lines_def dest: pairSegments_eq split: prod.split)

lemma new_lines_pairs:
  "words_law d \<Longrightarrow> n \<le> length as \<Longrightarrow>
   new_lines (concat (map (\<lambda>k. let (r, a) = pairSegments d (rs ! k) (as ! k) in [RemoveRow r, AddRow a]) [0..<n])) = take n as"
  by (induction n) (auto simp: take_Suc_conv_app_nth new_lines_def dest: pairSegments_eq split: prod.split)

lemma paired_lines:
  assumes "words_law d"
  shows "old_lines (paired_rows d rs as) = rs" "new_lines (paired_rows d rs as) = as"
  using old_lines_pairs [OF assms, of "min (length rs) (length as)" rs as] new_lines_pairs [OF assms, of "min (length rs) (length as)" as rs]
  by (simp_all add: paired_rows_def Let_def)

lemma diff_rows_lines:
  "words_law d \<Longrightarrow> \<forall>p\<in>set ps. \<not> (padded p \<and> premoved p) \<Longrightarrow>
    old_lines (diff_rows d ps) = concat (map (\<lambda>p. splitLines (pvalue p)) (filter (\<lambda>p. \<not> padded p) ps)) \<and>
    new_lines (diff_rows d ps) = concat (map (\<lambda>p. splitLines (pvalue p)) (filter (\<lambda>p. \<not> premoved p) ps))"
proof (induction d ps rule: diff_rows.induct)
  case (2 d p ps)
  then show ?case by (cases ps) (auto simp: paired_lines [OF 2(5)])
qed simp

text \<open>
  Claim C26. The rows of the diff hold both texts: the equal and the removed rows, read from top to bottom, are the
  lines of the old text, and the equal and the added rows the lines of the new one, with the highlighted
  segments of a paired line put together again.
\<close>
theorem diff_rows_hold_both_texts:
  assumes "words_law d" and "lines_law d"
  shows "old_lines (computeDiffRows d old new) = splitLines (or_empty old)
    \<and> new_lines (computeDiffRows d old new) = splitLines (or_empty new)"
proof -
  let ?ps = "diffLines d (or_empty old) (or_empty new)"
  have laws: "\<forall>p\<in>set ?ps. \<not> (padded p \<and> premoved p)" "old_text ?ps = or_empty old" "new_text ?ps = or_empty new"
    "whole_lines (map pvalue (filter (\<lambda>p. \<not> padded p) ?ps))" "whole_lines (map pvalue (filter (\<lambda>p. \<not> premoved p) ?ps))"
    using assms(2) by (auto simp: lines_law_def)
  have "splitLines (or_empty old) = concat (map (\<lambda>p. splitLines (pvalue p)) (filter (\<lambda>p. \<not> padded p) ?ps))"
    "splitLines (or_empty new) = concat (map (\<lambda>p. splitLines (pvalue p)) (filter (\<lambda>p. \<not> premoved p) ?ps))"
    using splitLines_concat [OF laws(4)] splitLines_concat [OF laws(5)] laws(2,3)
    by (simp_all add: old_text_def new_text_def comp_def)
  then show ?thesis using diff_rows_lines [OF assms(1) laws(1)] by (simp add: computeDiffRows_def)
qed

section \<open>What is collapsed\<close>

text \<open>A row is kept when a changed row is within the context.\<close>

definition near_change :: "diff_row list \<Rightarrow> nat \<Rightarrow> nat \<Rightarrow> bool" where
  "near_change rows ctx i = (\<exists>j<length rows. \<not> is_equal (rows ! j) \<and> i \<le> j + ctx \<and> j \<le> i + ctx)"

lemma length_marks [simp]: "length (foldl (\<lambda>ks k. ks[k := True]) keep is') = length keep"
  by (induction is' arbitrary: keep) simp_all

lemma marks_nth: "i < length keep \<Longrightarrow> foldl (\<lambda>ks k. ks[k := True]) keep is' ! i = (keep ! i \<or> i \<in> set is')"
proof (induction is' arbitrary: keep)
  case (Cons a is')
  then have "foldl (\<lambda>ks k. ks[k := True]) (keep[a := True]) is' ! i = (keep[a := True] ! i \<or> i \<in> set is')" by simp
  then show ?case using Cons.prems by (cases "i = a") simp_all
qed simp

lemma mark_range_nth:
  "i < length keep \<Longrightarrow> mark_range idx ctx keep ! i = (keep ! i \<or> (i \<le> idx + ctx \<and> idx \<le> i + ctx))"
  by (auto simp: mark_range_def marks_nth)

lemma length_mark_range [simp]: "length (mark_range idx ctx keep) = length keep"
  by (simp add: mark_range_def)

lemma keep_flags_from:
  "i < length keep \<Longrightarrow>
   foldl (\<lambda>ks p. if is_equal (snd p) then ks else mark_range (fst p) ctx ks) keep ps ! i =
     (keep ! i \<or> (\<exists>p\<in>set ps. \<not> is_equal (snd p) \<and> i \<le> fst p + ctx \<and> fst p \<le> i + ctx))"
proof (induction ps arbitrary: keep)
  case (Cons p ps)
  show ?case
  proof (cases "is_equal (snd p)")
    case True
    then show ?thesis using Cons by simp
  next
    case False
    then show ?thesis using Cons.IH [of "mark_range (fst p) ctx keep"] Cons.prems by (auto simp: mark_range_nth)
  qed
qed simp

lemma length_keep_flags [simp]: "length (keep_flags rows ctx) = length rows"
proof -
  have "length (foldl (\<lambda>ks p. if is_equal (snd p) then ks else mark_range (fst p) ctx ks) keep ps) = length keep" for keep ps
    by (induction ps arbitrary: keep) simp_all
  then show ?thesis by (simp add: keep_flags_def)
qed

lemma keep_flags_nth:
  assumes "i < length rows"
  shows "keep_flags rows ctx ! i = near_change rows ctx i"
proof -
  have "keep_flags rows ctx ! i = (\<exists>p\<in>set (enumerate 0 rows). \<not> is_equal (snd p) \<and> i \<le> fst p + ctx \<and> fst p \<le> i + ctx)"
    using keep_flags_from [of i "replicate (length rows) False" ctx "enumerate 0 rows"] assms by (simp add: keep_flags_def)
  also have "\<dots> = (\<exists>j<length rows. \<not> is_equal (rows ! j) \<and> i \<le> j + ctx \<and> j \<le> i + ctx)"
  proof
    assume "\<exists>p\<in>set (enumerate 0 rows). \<not> is_equal (snd p) \<and> i \<le> fst p + ctx \<and> fst p \<le> i + ctx"
    then show "\<exists>j<length rows. \<not> is_equal (rows ! j) \<and> i \<le> j + ctx \<and> j \<le> i + ctx"
      by (auto simp: in_set_enumerate_eq)
  next
    assume "\<exists>j<length rows. \<not> is_equal (rows ! j) \<and> i \<le> j + ctx \<and> j \<le> i + ctx"
    then obtain j where "j < length rows" "\<not> is_equal (rows ! j) \<and> i \<le> j + ctx \<and> j \<le> i + ctx" by blast
    then show "\<exists>p\<in>set (enumerate 0 rows). \<not> is_equal (snd p) \<and> i \<le> fst p + ctx \<and> fst p \<le> i + ctx"
      by (intro bexI [of _ "(j, rows ! j)"]) (simp_all add: in_set_enumerate_eq)
  qed
  finally show ?thesis by (simp only: near_change_def)
qed

text \<open>Reading a collapsed diff against the rows it came from: a gap stands for as many hidden rows as it says, any
  other row has to be the next row itself. The result says for each row whether it is shown.\<close>

fun replay :: "diff_row list \<Rightarrow> diff_row list \<Rightarrow> (bool \<times> diff_row) list option" where
  "replay [] rows = (if rows = [] then Some [] else None)"
| "replay (GapRow n # out) rows =
     (if 0 < n \<and> n \<le> length rows then map_option ((@) (map (Pair False) (take n rows))) (replay out (drop n rows)) else None)"
| "replay (r # out) rows = (case rows of [] \<Rightarrow> None
     | x # xs \<Rightarrow> if r = x then map_option ((#) (True, x)) (replay out xs) else None)"

lemma replay_flush:
  "hidden = map snd hs \<Longrightarrow> \<forall>h\<in>set hs. \<not> fst h \<Longrightarrow> replay out rows = Some res \<Longrightarrow>
   replay (flush_gap (length hs) @ out) (hidden @ rows) = Some (hs @ res)"
proof -
  assume h: "hidden = map snd hs" "\<forall>h\<in>set hs. \<not> fst h" and r: "replay out rows = Some res"
  have "map (Pair False) hidden = hs" using h by (intro nth_equalityI) (auto simp: prod_eq_iff)
  then show ?thesis using h(1) r by (cases hs) (simp_all add: flush_gap_def)
qed

lemma replay_kept:
  "(\<forall>n. r \<noteq> GapRow n) \<Longrightarrow> replay out rows = Some res \<Longrightarrow> replay (r # out) (r # rows) = Some ((True, r) # res)"
  by (cases r) simp_all

lemma replay_collapse:
  assumes "\<forall>p\<in>set ps. \<forall>n. snd p \<noteq> GapRow n" and "\<forall>h\<in>set hs. \<not> fst h"
  shows "replay (collapse_rows ps (length hs)) (map snd hs @ map snd ps) = Some (hs @ ps)"
  using assms
proof (induction ps arbitrary: hs)
  case Nil
  then show ?case using replay_flush [OF refl, of hs "[]" "[]" "[]"] by simp
next
  case (Cons p ps)
  obtain k r where p: "p = (k, r)" by force
  show ?case
  proof (cases k)
    case True
    have "replay (collapse_rows ps 0) (map snd ps) = Some ps" using Cons.IH [of "[]"] Cons.prems(1) by simp
    then have "replay (r # collapse_rows ps 0) (r # map snd ps) = Some ((True, r) # ps)"
      using Cons.prems(1) by (intro replay_kept) (auto simp: p)
    from replay_flush [OF refl Cons.prems(2) this] show ?thesis by (simp add: p True)
  next
    case False
    then show ?thesis using Cons.IH [of "hs @ [p]"] Cons.prems by (simp add: p)
  qed
qed

lemma no_gaps_computed: "GapRow n \<notin> set (diff_rows d ps)"
  by (induction d ps rule: diff_rows.induct) (auto simp: paired_rows_def Let_def split: list.split prod.splits)

text \<open>
  Claim C20. Collapsing loses no change and no count: read against the rows of the diff, the collapsed diff shows,
  in order, exactly the rows that have a change within the context (every changed row among them), and each of
  its gaps stands for as many rows as it says.
\<close>
theorem collapse_shows_changes_with_context:
  "replay (collapseDiffRows (computeDiffRows d old new) ctx) (computeDiffRows d old new)
     = Some (map (\<lambda>i. (near_change (computeDiffRows d old new) ctx i, computeDiffRows d old new ! i))
         [0..<length (computeDiffRows d old new)])"
proof -
  let ?rows = "computeDiffRows d old new"
  have "replay (collapse_rows (zip (keep_flags ?rows ctx) ?rows) 0) ?rows = Some (zip (keep_flags ?rows ctx) ?rows)"
  proof -
    have "snd p \<noteq> GapRow n" if "p \<in> set (zip (keep_flags ?rows ctx) ?rows)" for p n
    proof -
      have "snd p \<in> set ?rows" using that set_zip_rightD [of "fst p" "snd p"] by simp
      then show ?thesis unfolding computeDiffRows_def using no_gaps_computed by metis
    qed
    then show ?thesis using replay_collapse [of "zip (keep_flags ?rows ctx) ?rows" "[]"] by simp
  qed
  moreover have "zip (keep_flags ?rows ctx) ?rows = map (\<lambda>i. (near_change ?rows ctx i, ?rows ! i)) [0..<length ?rows]"
    by (rule nth_equalityI) (simp_all add: keep_flags_nth)
  ultimately show ?thesis unfolding collapseDiffRows_def by metis
qed

section \<open>A differ\<close>

text \<open>One that keeps equal texts and replaces the others as a whole meets both laws.\<close>

definition whole_differ :: differ where
  "whole_differ =
     (let diff = (\<lambda>a b. if a = b then [\<lparr>pvalue = a, padded = False, premoved = False\<rparr>]
        else [\<lparr>pvalue = a, padded = False, premoved = True\<rparr>, \<lparr>pvalue = b, padded = True, premoved = False\<rparr>])
      in \<lparr>diffLines = diff, diffWordsWithSpace = diff\<rparr>)"

lemma diff_rows_hold_both_texts_witness:
  "old_lines (computeDiffRows whole_differ (Some ''a'') (Some ''b'')) = [''a'']"
proof -
  have "words_law whole_differ" "lines_law whole_differ"
    by (simp_all add: words_law_def lines_law_def whole_differ_def Let_def old_text_def new_text_def)
  from diff_rows_hold_both_texts [OF this, of "Some ''a''" "Some ''b''"]
  show ?thesis by (simp add: or_empty_def splitLines_def newline_def)
qed

end
