(* ===== verification/Schema.thy ===== *)
theory Schema
  imports Json
begin

text \<open>
  The validation library the code declares its message formats with (\<open>zod\<close>) is not part of the repository. The
  schemas are: a schema is a value of the type \<open>schema\<close>, one constructor per combinator the code uses. What the
  library does with one is a parameter \<open>safeParse\<close>, the parsed value or \<open>None\<close>; the interface \<open>zod\<close> states its
  documented laws. An object keeps the fields of its shape, parsed, and the others only when it is loose; the order
  of the keys in the result is left open. \<open>zod_parse\<close> is a concrete function with these laws.
\<close>

datatype object_mode = Strip | Loose

datatype schema =
    ZString | ZNumber | ZBoolean | ZNull | ZUnknown
  | ZLiteral string
  | ZEnum "string list"
  | ZArray schema
  | ZRecord schema
  | ZObject object_mode "(string \<times> schema) list"
  | ZUnion "schema list"
  | ZOptional schema
  | ZNullable schema
  | ZPreprocess "json \<Rightarrow> json" schema
  | ZTransform schema "json \<Rightarrow> json"

abbreviation z_object :: "(string \<times> schema) list \<Rightarrow> schema" where "z_object \<equiv> ZObject Strip"
abbreviation z_loose :: "(string \<times> schema) list \<Rightarrow> schema" where "z_loose \<equiv> ZObject Loose"
abbreviation z_nullish :: "schema \<Rightarrow> schema" where "z_nullish s \<equiv> ZOptional (ZNullable s)"

lemma size_schema_field [termination_simp]:
  "p \<in> set fs \<Longrightarrow> size (snd p) < Suc (size_list (size_prod (\<lambda>_. 0) size) fs)"
  for fs :: "(string \<times> schema) list"
  by (induction fs) auto

section \<open>The library\<close>

text \<open>A field that is missing is accepted by an optional schema and by one that accepts anything.\<close>

fun accepts_missing :: "schema \<Rightarrow> bool" where
  "accepts_missing (ZOptional s) = True"
| "accepts_missing ZUnknown = True"
| "accepts_missing s = False"

text \<open>The value of a field in the result: \<open>None\<close> when the field is refused, \<open>Some None\<close> when it stays missing.\<close>

definition field_result ::
  "(schema \<Rightarrow> json \<Rightarrow> json option) \<Rightarrow> (string \<times> json) list \<Rightarrow> string \<times> schema \<Rightarrow> json option option" where
  "field_result p kvs f = (case map_of kvs (fst f) of
     None \<Rightarrow> if accepts_missing (snd f) then Some None else None
   | Some v \<Rightarrow> map_option Some (p (snd f) v))"

definition object_law ::
  "(schema \<Rightarrow> json \<Rightarrow> json option) \<Rightarrow> object_mode \<Rightarrow> (string \<times> schema) list \<Rightarrow> (string \<times> json) list \<Rightarrow> json option \<Rightarrow> bool" where
  "object_law p m fs kvs r = (case r of
     None \<Rightarrow> \<exists>f\<in>set fs. field_result p kvs f = None
   | Some w \<Rightarrow> \<exists>kws. w = JObj kws \<and> (\<forall>f\<in>set fs. field_result p kvs f = Some (map_of kws (fst f)))
       \<and> (\<forall>k. k \<notin> fst ` set fs \<longrightarrow> map_of kws k = (if m = Loose then map_of kvs k else None)))"

fun first_some :: "'a option list \<Rightarrow> 'a option" where
  "first_some [] = None"
| "first_some (Some x # xs) = Some x"
| "first_some (None # xs) = first_some xs"

lemma first_some_member: "first_some xs = Some x \<Longrightarrow> Some x \<in> set xs"
  by (induction xs rule: first_some.induct) auto

lemma first_some_None [simp]: "first_some xs = None \<longleftrightarrow> set xs \<subseteq> {None}"
  by (induction xs rule: first_some.induct) auto

fun all_some :: "'a option list \<Rightarrow> 'a list option" where
  "all_some [] = Some []"
| "all_some (None # xs) = None"
| "all_some (Some x # xs) = map_option ((#) x) (all_some xs)"

lemma all_some_eq: "all_some xs = Some ys \<longleftrightarrow> xs = map Some ys"
proof (induction xs arbitrary: ys rule: all_some.induct)
  case (3 x xs)
  then show ?case by (cases ys) auto
qed auto

lemma all_some_None: "all_some xs = None \<longleftrightarrow> None \<in> set xs"
  by (induction xs rule: all_some.induct) auto

lemma map_Some_source: "map f xs = map Some ys \<Longrightarrow> y \<in> set ys \<Longrightarrow> \<exists>x\<in>set xs. f x = Some y"
proof -
  assume "map f xs = map Some ys" and "y \<in> set ys"
  then have "Some y \<in> set (map f xs)" by simp
  then show ?thesis by auto
qed

text \<open>An object of fields that may be refused: \<open>None\<close> when one is.\<close>

definition all_fields :: "(string \<times> json option) list \<Rightarrow> (string \<times> json) list option" where
  "all_fields kvs = all_some (map (\<lambda>p. map_option (Pair (fst p)) (snd p)) kvs)"

locale zod =
  fixes safeParse :: "schema \<Rightarrow> json \<Rightarrow> json option"
  assumes parse_string: "safeParse ZString v = (case v of JStr s \<Rightarrow> Some v | _ \<Rightarrow> None)"
    and parse_number: "safeParse ZNumber v = (case v of JNum n \<Rightarrow> Some v | _ \<Rightarrow> None)"
    and parse_boolean: "safeParse ZBoolean v = (case v of JBool b \<Rightarrow> Some v | _ \<Rightarrow> None)"
    and parse_null: "safeParse ZNull v = (if v = JNull then Some v else None)"
    and parse_unknown: "safeParse ZUnknown v = Some v"
    and parse_literal: "safeParse (ZLiteral t) v = (if v = JStr t then Some v else None)"
    and parse_enum: "safeParse (ZEnum ts) v = (if v \<in> JStr ` set ts then Some v else None)"
    and parse_array: "safeParse (ZArray s) v =
      (case v of JArr vs \<Rightarrow> map_option JArr (all_some (map (safeParse s) vs)) | _ \<Rightarrow> None)"
    and parse_record: "safeParse (ZRecord s) v = (case v of
      JObj kvs \<Rightarrow> map_option JObj (all_fields (map (\<lambda>p. (fst p, safeParse s (snd p))) kvs)) | _ \<Rightarrow> None)"
    and parse_object: "distinct (map fst fs) \<Longrightarrow> case v of
        JObj kvs \<Rightarrow> object_law safeParse m fs kvs (safeParse (ZObject m fs) v)
      | _ \<Rightarrow> safeParse (ZObject m fs) v = None"
    and parse_union: "safeParse (ZUnion ss) v = first_some (map (\<lambda>s. safeParse s v) ss)"
    and parse_optional: "safeParse (ZOptional s) v = safeParse s v"
    and parse_nullable: "safeParse (ZNullable s) v = (if v = JNull then Some v else safeParse s v)"
    and parse_preprocess: "safeParse (ZPreprocess f s) v = safeParse s (f v)"
    and parse_transform: "safeParse (ZTransform s f) v = map_option f (safeParse s v)"

section \<open>What a parsed value looks like\<close>

text \<open>An object that is not loose has no fields but those of its shape.\<close>

definition stripped :: "object_mode \<Rightarrow> string list \<Rightarrow> (string \<times> json) list \<Rightarrow> bool" where
  "stripped m ks kvs \<longleftrightarrow> (m = Strip \<longrightarrow> (\<forall>k. k \<notin> set ks \<longrightarrow> map_of kvs k = None))"

function conforms :: "schema \<Rightarrow> json \<Rightarrow> bool" where
  "conforms ZString v = (\<exists>s. v = JStr s)"
| "conforms ZNumber v = (\<exists>n. v = JNum n)"
| "conforms ZBoolean v = (\<exists>b. v = JBool b)"
| "conforms ZNull v = (v = JNull)"
| "conforms ZUnknown v = True"
| "conforms (ZLiteral t) v = (v = JStr t)"
| "conforms (ZEnum ts) v = (v \<in> JStr ` set ts)"
| "conforms (ZArray s) v = (\<exists>vs. v = JArr vs \<and> (\<forall>w\<in>set vs. conforms s w))"
| "conforms (ZRecord s) v = (\<exists>kvs. v = JObj kvs \<and> (\<forall>w\<in>snd ` set kvs. conforms s w))"
| "conforms (ZObject m fs) v = (distinct (map fst fs) \<longrightarrow> (\<exists>kvs. v = JObj kvs \<and> stripped m (map fst fs) kvs \<and>
     list_all (\<lambda>f. case map_of kvs (fst f) of None \<Rightarrow> accepts_missing (snd f) | Some w \<Rightarrow> conforms (snd f) w) fs))"
| "conforms (ZUnion ss) v = list_ex (\<lambda>s. conforms s v) ss"
| "conforms (ZOptional s) v = conforms s v"
| "conforms (ZNullable s) v = (v = JNull \<or> conforms s v)"
| "conforms (ZPreprocess f s) v = conforms s v"
| "conforms (ZTransform s f) v = (\<exists>w. conforms s w \<and> v = f w)"
  by pat_completeness auto

termination
  by (relation "measure (size \<circ> fst)") (auto simp: size_schema_field less_Suc_eq_le size_list_estimation')

context zod begin

lemma object_Some:
  assumes "safeParse (ZObject m fs) v = Some r" "distinct (map fst fs)"
  obtains kvs kws where "v = JObj kvs" "r = JObj kws"
    "\<forall>f\<in>set fs. field_result safeParse kvs f = Some (map_of kws (fst f))" "stripped m (map fst fs) kws"
  using assms(1) parse_object [OF assms(2), of m v] by (cases v) (auto simp: object_law_def stripped_def)

lemma object_fails_on:
  assumes "distinct (map fst fs)"
  shows "safeParse (ZObject m fs) (JObj kvs) = None \<longleftrightarrow> (\<exists>f\<in>set fs. field_result safeParse kvs f = None)"
  using parse_object [OF assms, of m "JObj kvs"] by (auto simp: object_law_def split: option.splits)

text \<open>What the library accepts has the shape the schema describes: the basis of every proof that the code reads
  parsed values without an error.\<close>

lemma parse_conforms: "safeParse s v = Some r \<Longrightarrow> conforms s r"
proof (induction s r arbitrary: v rule: conforms.induct)
  case (8 s w)
  then obtain vs ws where "w = JArr ws" and eq: "map (safeParse s) vs = map Some ws"
    by (auto simp: parse_array all_some_eq split: json.splits)
  then show ?case using "8.IH" map_Some_source [OF eq] by fastforce
next
  case (9 s w)
  then obtain kvs kws where "v = JObj kvs" "w = JObj kws"
    and eq: "map (\<lambda>p. map_option (Pair (fst p)) (safeParse s (snd p))) kvs = map Some kws"
    by (auto simp: parse_record all_fields_def comp_def all_some_eq split: json.splits)
  moreover have "\<exists>u. safeParse s u = Some (snd q)" if "q \<in> set kws" for q
    using map_Some_source [OF eq that] by auto
  ultimately show ?case using "9.IH" by fastforce
next
  case (10 m fs r)
  show ?case
  proof (cases "distinct (map fst fs)")
    case dist: True
  obtain kvs kws where r: "r = JObj kws" and only: "stripped m (map fst fs) kws"
    and fields: "\<forall>f\<in>set fs. field_result safeParse kvs f = Some (map_of kws (fst f))"
    by (rule object_Some [OF 10(2) dist])
  have "case map_of kws (fst f) of None \<Rightarrow> accepts_missing (snd f) | Some w \<Rightarrow> conforms (snd f) w"
    if f: "f \<in> set fs" for f
    using fields f "10.IH" [OF dist f]
    by (cases "map_of kvs (fst f)") (auto simp: field_result_def split: option.splits if_splits)
  then show ?thesis using r only by (simp add: list_all_iff)
  qed simp
next
  case (11 ss r)
  then obtain s where "s \<in> set ss" "safeParse s v = Some r"
    by (auto simp: parse_union dest!: first_some_member)
  then show ?case using "11.IH" by (auto simp: list_ex_iff)
qed (auto simp: parse_string parse_number parse_boolean parse_null parse_unknown parse_literal parse_enum
      parse_optional parse_nullable parse_preprocess parse_transform split: json.splits if_splits)

end

lemma conforms_only_shape:
  assumes "conforms (z_object fs) v" "distinct (map fst fs)" "k \<notin> set (map fst fs)"
  obtains kvs where "v = JObj kvs" "map_of kvs k = None"
  using assms by (auto simp: stripped_def)

text \<open>Replacing a field of an object by a value its schema describes.\<close>

lemma conforms_set_key:
  assumes "conforms (ZObject m fs) v" "\<forall>s. (k, s) \<in> set fs \<longrightarrow> conforms s x" "k \<in> set (map fst fs)"
  shows "conforms (ZObject m fs) (set_key k x v)"
  using assms by (auto simp: set_key_def spread_def update_conv' list_all_iff stripped_def)

lemma conforms_object_field:
  assumes "conforms (ZObject m fs) v" "distinct (map fst fs)" "(k, s) \<in> set fs"
  obtains kvs where "v = JObj kvs" "map_of kvs k = None \<and> accepts_missing s \<or> (\<exists>w. map_of kvs k = Some w \<and> conforms s w)"
  using assms by (fastforce simp: list_all_iff split: option.splits)

section \<open>A library with these laws\<close>

text \<open>The result of an object: its shape in order, then what is left of a loose one.\<close>

fun present :: "(string \<times> json option) list \<Rightarrow> (string \<times> json) list" where
  "present [] = []"
| "present ((k, None) # rs) = present rs"
| "present ((k, Some v) # rs) = (k, v) # present rs"

definition object_fields ::
  "(string \<times> schema) list \<Rightarrow> (string \<times> (json \<Rightarrow> json option)) list \<Rightarrow> (string \<times> json) list \<Rightarrow> (string \<times> json option) list option" where
  "object_fields fs ps kvs =
     all_some (map (\<lambda>q. map_option (Pair (fst (fst q))) (field_result (\<lambda>_. snd (snd q)) kvs (fst q))) (zip fs ps))"

definition object_result ::
  "object_mode \<Rightarrow> (string \<times> schema) list \<Rightarrow> (string \<times> (json \<Rightarrow> json option)) list \<Rightarrow> json \<Rightarrow> json option" where
  "object_result m fs ps v = (case v of
     JObj kvs \<Rightarrow>
       map_option (\<lambda>rs. JObj (present rs @ (if m = Loose then filter (\<lambda>p. fst p \<notin> set (map fst fs)) kvs else [])))
         (object_fields fs ps kvs)
   | _ \<Rightarrow> None)"

primrec zod_parse :: "schema \<Rightarrow> json \<Rightarrow> json option" where
  "zod_parse ZString = (\<lambda>v. case v of JStr s \<Rightarrow> Some v | _ \<Rightarrow> None)"
| "zod_parse ZNumber = (\<lambda>v. case v of JNum n \<Rightarrow> Some v | _ \<Rightarrow> None)"
| "zod_parse ZBoolean = (\<lambda>v. case v of JBool b \<Rightarrow> Some v | _ \<Rightarrow> None)"
| "zod_parse ZNull = (\<lambda>v. if v = JNull then Some v else None)"
| "zod_parse ZUnknown = Some"
| "zod_parse (ZLiteral t) = (\<lambda>v. if v = JStr t then Some v else None)"
| "zod_parse (ZEnum ts) = (\<lambda>v. case v of JStr s \<Rightarrow> if s \<in> set ts then Some v else None | _ \<Rightarrow> None)"
| "zod_parse (ZArray s) = (\<lambda>v. case v of JArr vs \<Rightarrow> map_option JArr (all_some (map (zod_parse s) vs)) | _ \<Rightarrow> None)"
| "zod_parse (ZRecord s) = (\<lambda>v. case v of
     JObj kvs \<Rightarrow> map_option JObj (all_fields (map (\<lambda>p. (fst p, zod_parse s (snd p))) kvs)) | _ \<Rightarrow> None)"
| "zod_parse (ZObject m fs) = object_result m fs (map (map_prod id zod_parse) fs)"
| "zod_parse (ZUnion ss) = (\<lambda>v. first_some (map (\<lambda>p. p v) (map zod_parse ss)))"
| "zod_parse (ZOptional s) = zod_parse s"
| "zod_parse (ZNullable s) = (\<lambda>v. if v = JNull then Some v else zod_parse s v)"
| "zod_parse (ZPreprocess f s) = (\<lambda>v. zod_parse s (f v))"
| "zod_parse (ZTransform s f) = (\<lambda>v. map_option f (zod_parse s v))"

lemma map_of_present:
  "distinct (map fst rs) \<Longrightarrow> map_of (present rs @ rest) k =
     (case map_of rs k of Some (Some v) \<Rightarrow> Some v | _ \<Rightarrow> map_of rest k)"
proof (induction rs rule: present.induct)
  case (2 k' rs)
  then show ?case by (auto split: option.splits simp: rev_image_eqI dest: map_of_SomeD)
next
  case (3 k' v rs)
  then show ?case by (auto split: option.splits)
qed simp

lemma map_of_kept_keys:
  "map_of (filter (\<lambda>p. fst p \<notin> K) kvs) k = (if k \<in> K then None else map_of kvs k)"
  by (induction kvs) auto

lemma object_fields_eq:
  "object_fields fs (map (map_prod id p) fs) kvs = all_some (map (\<lambda>f. map_option (Pair (fst f)) (field_result p kvs f)) fs)"
  unfolding object_fields_def zip_map2 zip_same_conv_map map_map
  by (rule arg_cong [where f = all_some], rule map_cong) (auto simp: field_result_def split: option.splits)

lemma object_fields_Some:
  assumes "object_fields fs (map (map_prod id p) fs) kvs = Some rs"
  shows "map fst rs = map fst fs" and "f \<in> set fs \<Longrightarrow> \<exists>r. field_result p kvs f = Some r \<and> (fst f, r) \<in> set rs"
proof -
  have eq: "map (\<lambda>f. map_option (Pair (fst f)) (field_result p kvs f)) fs = map Some rs"
    using assms by (simp add: object_fields_eq all_some_eq)
  then show "map fst rs = map fst fs"
    by (induction fs arbitrary: rs) (auto simp: Cons_eq_map_conv)
  assume "f \<in> set fs"
  then have "map_option (Pair (fst f)) (field_result p kvs f) \<in> set (map Some rs)"
    unfolding eq [symmetric] by simp
  then show "\<exists>r. field_result p kvs f = Some r \<and> (fst f, r) \<in> set rs" by auto
qed

lemma object_result_law:
  assumes dist: "distinct (map fst fs)"
  shows "object_law p m fs kvs (object_result m fs (map (map_prod id p) fs) (JObj kvs))"
proof (cases "object_fields fs (map (map_prod id p) fs) kvs")
  case None
  then have "\<exists>f\<in>set fs. field_result p kvs f = None"
    by (auto simp: object_fields_eq all_some_None image_iff)
  then show ?thesis by (simp add: object_result_def object_law_def None)
next
  case (Some rs)
  note rs = object_fields_Some [OF Some]
  have distr: "distinct (map fst rs)" using rs(1) dist by simp
  let ?rest = "if m = Loose then filter (\<lambda>p. fst p \<notin> set (map fst fs)) kvs else []"
  have "field_result p kvs f = Some (map_of (present rs @ ?rest) (fst f))" if f: "f \<in> set fs" for f
  proof -
    obtain r where r: "field_result p kvs f = Some r" "(fst f, r) \<in> set rs" using rs(2) [OF f] by blast
    show ?thesis using r map_of_is_SomeI [OF distr r(2)]
      using f by (simp add: map_of_present [OF distr] map_of_kept_keys del: map_of_append split: option.splits)
  qed
  moreover have "map_of (present rs @ ?rest) k = (if m = Loose then map_of kvs k else None)" if k: "k \<notin> fst ` set fs" for k
  proof -
    have "map_of rs k = None" using k rs(1) by (metis map_of_eq_None_iff set_map)
    then show ?thesis using k by (simp add: map_of_present [OF distr] map_of_kept_keys del: map_of_append)
  qed
  ultimately show ?thesis by (simp add: object_result_def object_law_def Some)
qed

interpretation zod_lib: zod zod_parse
proof (standard, goal_cases)
  case (10 fs m v)
  then show ?case using object_result_law [OF 10, of zod_parse m]
    by (cases v) (simp_all add: object_result_def)
qed (auto split: json.splits simp: image_iff comp_def)

end
