(* ===== verification/Messages.thy ===== *)
theory Messages
  imports Schema JsText "HOL-Library.Monad_Syntax"
begin

text \<open>
  What the message formats of the providers share: reading properties of JSON values, the messages the code
  converts to (\<open>ModelMessage\<close> and the playground's \<open>Message\<close>), the payloads stored in S3 that a message may refer
  to (\<open>lib/s3.ts\<close>), and the interface of a provider's adapter (\<open>lib/spans/providers/types.ts\<close>).

  A computation that may throw has an option type: \<open>None\<close> says that the code throws, as when a property of null
  or undefined is read, or that it uses a value at a type it does not have (calls \<open>map\<close> on something that is no
  array, takes something else for a string). An absent value, \<open>undefined\<close>, is the \<open>None\<close> of \<open>json option\<close>.
\<close>

section \<open>Reading values\<close>

definition get :: "string \<Rightarrow> json \<Rightarrow> json option option" where
  "get k v = (case v of JNull \<Rightarrow> None | JObj kvs \<Rightarrow> Some (map_of kvs k) | _ \<Rightarrow> Some None)"

definition as_string :: "json option \<Rightarrow> string option" where
  "as_string v = (case v of Some (JStr s) \<Rightarrow> Some s | _ \<Rightarrow> None)"

definition as_array :: "json option \<Rightarrow> json list option" where
  "as_array v = (case v of Some (JArr vs) \<Rightarrow> Some vs | _ \<Rightarrow> None)"

definition as_value :: "json option \<Rightarrow> json option" where
  "as_value v = v"

text \<open>A property declared as a string, as an optional string, as one that may also be null, as an array.\<close>

definition str :: "string \<Rightarrow> json \<Rightarrow> string option" where
  "str k v = Option.bind (get k v) as_string"

definition opt_str :: "string \<Rightarrow> json \<Rightarrow> string option option" where
  "opt_str k v = Option.bind (get k v) (\<lambda>w. case w of
     None \<Rightarrow> Some None | Some (JStr s) \<Rightarrow> Some (Some s) | _ \<Rightarrow> None)"

definition nullish_str :: "string \<Rightarrow> json \<Rightarrow> string option option" where
  "nullish_str k v = Option.bind (get k v) (\<lambda>w. case w of
     None \<Rightarrow> Some None | Some JNull \<Rightarrow> Some None | Some (JStr s) \<Rightarrow> Some (Some s) | _ \<Rightarrow> None)"

definition arr :: "string \<Rightarrow> json \<Rightarrow> json list option" where
  "arr k v = Option.bind (get k v) as_array"

definition obj :: "string \<Rightarrow> json \<Rightarrow> json option" where
  "obj k v = Option.bind (get k v) as_value"

text \<open>\<open>v.k || []\<close> where \<open>v.k\<close> is an array, null or missing.\<close>

definition arr_or_empty :: "string \<Rightarrow> json \<Rightarrow> json list option" where
  "arr_or_empty k v = Option.bind (get k v) (\<lambda>w. case w of
     None \<Rightarrow> Some [] | Some JNull \<Rightarrow> Some [] | Some (JArr vs) \<Rightarrow> Some vs | _ \<Rightarrow> None)"

text \<open>\<open>v.k === t\<close>, and \<open>k in v\<close>, which throws on a value that is no object.\<close>

definition get_is :: "string \<Rightarrow> string \<Rightarrow> json \<Rightarrow> bool option" where
  "get_is k t v = map_option (\<lambda>w. w = Some (JStr t)) (get k v)"

definition has_key :: "string \<Rightarrow> json \<Rightarrow> bool option" where
  "has_key k v = (case v of JObj kvs \<Rightarrow> Some (k \<in> fst ` set kvs) | JArr vs \<Rightarrow> Some False | _ \<Rightarrow> None)"

lemma json_option_cases:
  obtains (missing) "v = None" | (null) "v = Some JNull" | (boolean) b where "v = Some (JBool b)"
  | (number) n where "v = Some (JNum n)" | (string) s where "v = Some (JStr s)"
  | (array) vs where "v = Some (JArr vs)" | (object) kvs where "v = Some (JObj kvs)"
  by (cases v; cases "the v") auto

definition is_object :: "json \<Rightarrow> bool" where
  "is_object v = (case v of JObj kvs \<Rightarrow> True | JArr vs \<Rightarrow> True | _ \<Rightarrow> False)"

definition is_array :: "json \<Rightarrow> bool" where
  "is_array v = (case v of JArr vs \<Rightarrow> True | _ \<Rightarrow> False)"

text \<open>\<open>Array.isArray(v) ? v : [v]\<close>.\<close>

definition to_array :: "json \<Rightarrow> json list" where
  "to_array v = (case v of JArr vs \<Rightarrow> vs | _ \<Rightarrow> [v])"

text \<open>\<open>String(s)\<close> of an optional string.\<close>

definition js_text :: "string option \<Rightarrow> string" where
  "js_text s = (case s of None \<Rightarrow> ''undefined'' | Some t \<Rightarrow> t)"

text \<open>\<open>s || t\<close> on optional strings.\<close>

definition or_str :: "string option \<Rightarrow> string option \<Rightarrow> string option" where
  "or_str s t = (if s = None \<or> s = Some [] then t else s)"

definition or_text :: "string option \<Rightarrow> string \<Rightarrow> string" where
  "or_text s t = (case s of None \<Rightarrow> t | Some u \<Rightarrow> if u = [] then t else u)"

text \<open>\<open>map\<close> and \<open>some\<close> with a function that may throw, and \<open>map\<close> with one that also threads a state.\<close>

definition map_js :: "('a \<Rightarrow> 'b option) \<Rightarrow> 'a list \<Rightarrow> 'b list option" where
  "map_js f xs = all_some (map f xs)"

fun some_js :: "('a \<Rightarrow> bool option) \<Rightarrow> 'a list \<Rightarrow> bool option" where
  "some_js f [] = Some False"
| "some_js f (x # xs) = Option.bind (f x) (\<lambda>b. if b then Some True else some_js f xs)"

fun filter_js :: "('a \<Rightarrow> bool option) \<Rightarrow> 'a list \<Rightarrow> 'a list option" where
  "filter_js f [] = Some []"
| "filter_js f (x # xs) = Option.bind (f x) (\<lambda>b. map_option (\<lambda>ys. if b then x # ys else ys) (filter_js f xs))"

fun find_js :: "('a \<Rightarrow> bool option) \<Rightarrow> 'a list \<Rightarrow> 'a option option" where
  "find_js f [] = Some None"
| "find_js f (x # xs) = Option.bind (f x) (\<lambda>b. if b then Some (Some x) else find_js f xs)"

fun map_state :: "('a \<Rightarrow> 's \<Rightarrow> ('b \<times> 's) option) \<Rightarrow> 'a list \<Rightarrow> 's \<Rightarrow> ('b list \<times> 's) option" where
  "map_state f [] s = Some ([], s)"
| "map_state f (x # xs) s = Option.bind (f x s) (\<lambda>p.
     map_option (\<lambda>q. (fst p # fst q, snd q)) (map_state f xs (snd p)))"

section \<open>Converted messages\<close>

text \<open>The parts of a converted message. The type of texts is \<open>string\<close> where the converted message was validated
  and \<open>json option\<close>, any value, where it was not.\<close>

datatype 't tool_input = InJson string | InRaw "json option"

datatype 't tool_output = OutText 't | OutJson string | OutContent "json list"

datatype 't part =
    TextPart 't "string option"
  | ReasoningPart 't
  | ImagePart 't
  | FilePart 't "'t option" "'t option"
  | ToolCallPart 't 't "'t tool_input" "string option"
  | ToolResultPart 't "'t option" "'t tool_output"
  | RawPart json

datatype 't content = Content 't | Parts "'t part list"

record 't message =
  mrole :: "string option"
  mcontent :: "'t content"

text \<open>The last step of every conversion for the playground: a text becomes a list with one part.\<close>

definition playground_message :: "'t message \<Rightarrow> 't message" where
  "playground_message m = (case mcontent m of Content t \<Rightarrow> m\<lparr>mcontent := Parts [TextPart t None]\<rparr> | Parts ps \<Rightarrow> m)"

lemma playground_roles: "mrole (playground_message m) = mrole m"
  by (simp add: playground_message_def split: content.splits)

lemma playground_parts: "\<exists>ps. mcontent (playground_message m) = Parts ps"
  by (simp add: playground_message_def split: content.splits)

text \<open>The environment of a conversion: \<open>JSON.stringify\<close>, \<open>JSON.parse\<close> (\<open>None\<close> when it throws), the objects of
  the bucket by project and payload (\<open>None\<close> when the request fails), the base64 encoding of Node's
  \<open>Buffer\<close>, and the identifiers drawn at random, by the number drawn before, and
  \<open>String(v)\<close> for any value.\<close>

record message_env =
  env_stringify :: "json \<Rightarrow> string"
  env_parse :: "string \<Rightarrow> json option"
  env_s3 :: "string \<Rightarrow> string \<Rightarrow> nat list option"
  env_base64 :: "nat list \<Rightarrow> string"
  env_random :: "nat \<Rightarrow> string"
  env_text :: "json \<Rightarrow> string"

section \<open>Stored payloads\<close>

definition isStorageUrl :: "string \<Rightarrow> bool" where
  "isStorageUrl url = (case split_on CHR ''/'' url of
     [a, b, c, p, d, q] \<Rightarrow> a = [] \<and> b = ''api'' \<and> c = ''projects'' \<and> p \<noteq> [] \<and> d = ''payloads'' \<and> q \<noteq> []
   | _ \<Rightarrow> False)"

definition inferContentTypeFromBytes :: "nat list \<Rightarrow> string option" where
  "inferContentTypeFromBytes bytes =
     (if length bytes < 4 then None
      else if take 4 bytes = [0x89, 0x50, 0x4e, 0x47] then Some ''image/png''
      else if take 3 bytes = [0xff, 0xd8, 0xff] then Some ''image/jpeg''
      else if take 4 bytes = [0x47, 0x49, 0x46, 0x38] then Some ''image/gif''
      else if take 4 bytes = [0x52, 0x49, 0x46, 0x46] \<and> take 4 (drop 8 bytes) = [0x57, 0x45, 0x42, 0x50] then Some ''image/webp''
      else if take 4 bytes = [0x25, 0x50, 0x44, 0x46] then Some ''application/pdf''
      else None)"

definition ends_with :: "string \<Rightarrow> string \<Rightarrow> bool" where
  "ends_with e s = (length e \<le> length s \<and> drop (length s - length e) s = e)"

definition starts_with :: "string \<Rightarrow> string \<Rightarrow> bool" where
  "starts_with p s = (take (length p) s = p)"

definition getContentTypeFromFilename :: "string \<Rightarrow> string" where
  "getContentTypeFromFilename name =
     (if ends_with ''.png'' name then ''image/png''
      else if ends_with ''.gif'' name then ''image/gif''
      else if ends_with ''.webp'' name then ''image/webp''
      else if ends_with ''.pdf'' name then ''application/pdf''
      else if ends_with ''.jpg'' name \<or> ends_with ''.jpeg'' name then ''image/jpeg''
      else ''application/octet-stream'')"

text \<open>The first match of the pattern for a payload anywhere in the text: its project and its payload.\<close>

definition payload_at :: "string \<Rightarrow> (string \<times> string) option" where
  "payload_at s = (case split_on CHR ''/'' s of
     a # b # c # p # d # q # _ \<Rightarrow>
       if a = [] \<and> b = ''api'' \<and> c = ''projects'' \<and> p \<noteq> [] \<and> d = ''payloads'' \<and> q \<noteq> [] then Some (p, q) else None
   | _ \<Rightarrow> None)"

fun match_payload :: "string \<Rightarrow> (string \<times> string) option" where
  "match_payload [] = None"
| "match_payload (c # s) = (case payload_at (c # s) of Some pq \<Rightarrow> Some pq | None \<Rightarrow> match_payload s)"

definition content_type :: "nat list \<Rightarrow> string \<Rightarrow> string" where
  "content_type bytes name = or_text (inferContentTypeFromBytes bytes) (getContentTypeFromFilename name)"

definition urlToBase64 :: "message_env \<Rightarrow> string \<Rightarrow> string option" where
  "urlToBase64 env url =
     (if \<not> starts_with ''/api/projects/'' url then None
      else case match_payload url of
        None \<Rightarrow> None
      | Some (project, payload) \<Rightarrow> (case env_s3 env project payload of
          None \<Rightarrow> None
        | Some bytes \<Rightarrow> Some (''data:'' @ content_type bytes payload @ '';base64,'' @ env_base64 env bytes)))"

lemma storage_url_matches:
  assumes "isStorageUrl url"
  obtains p q where "url = ''/api/projects/'' @ p @ ''/payloads/'' @ q" "match_payload url = Some (p, q)"
proof -
  obtain p q where split: "split_on CHR ''/'' url = [[], ''api'', ''projects'', p, ''payloads'', q]" and "p \<noteq> []" "q \<noteq> []"
    using assms by (auto simp: isStorageUrl_def split: list.splits)
  moreover from this have "url = ''/api/projects/'' @ p @ ''/payloads/'' @ q"
    using split_on_join [of "CHR ''/''" url] by simp
  ultimately show thesis by (intro that [of p q]) (auto simp: payload_at_def)
qed

text \<open>A loop with a step that may throw.\<close>

fun loop_js :: "('a \<Rightarrow> 's \<Rightarrow> 's option) \<Rightarrow> 'a list \<Rightarrow> 's \<Rightarrow> 's option" where
  "loop_js f [] s = Some s"
| "loop_js f (x # xs) s = Option.bind (f x s) (loop_js f xs)"

lemma loop_js_total: "(\<And>x s. x \<in> set xs \<Longrightarrow> f x s \<noteq> None) \<Longrightarrow> loop_js f xs s \<noteq> None"
  by (induction xs arbitrary: s) (auto split: bind_splits)

section \<open>Adapters\<close>

record parsed_input =
  systemText :: "string option"
  userParts :: "string list"

record extracted_tool =
  toolName :: string
  toolInput :: "json option"

datatype provider_hint = HOpenAI | HResponses | HAnthropic | HGemini | HLangChain | HGenAI | HUnknown

record adapter =
  adapter_id :: provider_hint
  detects :: "json \<Rightarrow> bool option"
  parseSystemAndUser :: "(json \<Rightarrow> parsed_input option option) option"
  renderOutputText :: "(json \<Rightarrow> string option option) option"
  extractTools :: "(json \<Rightarrow> extracted_tool list option option) option"

definition joinNonEmpty :: "string option list \<Rightarrow> string" where
  "joinNonEmpty parts = join [CHR 10, CHR 10] (filter (\<lambda>s. s \<noteq> []) (map (case_option [] id) parts))"

definition isBlank :: "json option \<Rightarrow> bool" where
  "isBlank v = (case v of None \<Rightarrow> True | Some JNull \<Rightarrow> True | Some (JStr s) \<Rightarrow> trim s = [] | _ \<Rightarrow> False)"

text \<open>\<open>X.safeParse(v).data?.k\<close> for a property of declared type string.\<close>

definition parsed_str :: "(schema \<Rightarrow> json \<Rightarrow> json option) \<Rightarrow> schema \<Rightarrow> string \<Rightarrow> json \<Rightarrow> string option option" where
  "parsed_str sp s k v = (case sp s v of None \<Rightarrow> Some None | Some w \<Rightarrow> map_option Some (str k w))"

section \<open>Laws\<close>

named_theorems js "reading properties of values of a known shape"

lemma get_obj [js]: "get k (JObj kvs) = Some (map_of kvs k)"
  by (simp add: get_def)

lemma set_key_obj [js]: "set_key k v (JObj kvs) = JObj (AList.update k v kvs)"
  by (simp add: set_key_def spread_def)

text \<open>Reading a declared property of a value that has the shape of its schema.\<close>

lemma get_field:
  assumes "conforms (ZObject m fs) v" "distinct (map fst fs)" "(k, s) \<in> set fs"
  shows "get k v = Some None \<and> accepts_missing s \<or> (\<exists>w. get k v = Some (Some w) \<and> conforms s w)"
  by (rule conforms_object_field [OF assms]) (auto simp: get_obj)

lemma literal_field:
  "conforms (ZObject m fs) v \<Longrightarrow> distinct (map fst fs) \<Longrightarrow> (k, ZLiteral t) \<in> set fs \<Longrightarrow> get k v = Some (Some (JStr t))"
  by (drule (2) get_field) auto

lemma string_field:
  "conforms (ZObject m fs) v \<Longrightarrow> distinct (map fst fs) \<Longrightarrow> (k, ZString) \<in> set fs \<Longrightarrow> \<exists>t. get k v = Some (Some (JStr t))"
  by (drule (2) get_field) auto

lemma optional_string_field:
  "conforms (ZObject m fs) v \<Longrightarrow> distinct (map fst fs) \<Longrightarrow> (k, ZOptional ZString) \<in> set fs \<Longrightarrow>
     get k v = Some None \<or> (\<exists>t. get k v = Some (Some (JStr t)))"
  by (drule (2) get_field) auto

lemma get_object: "conforms (ZObject m fs) v \<Longrightarrow> distinct (map fst fs) \<Longrightarrow> \<exists>w. get k v = Some w"
  by (auto simp: get_obj)

lemmas reading = get_def get_is_def str_def opt_str_def nullish_str_def arr_def obj_def arr_or_empty_def
  as_string_def as_array_def as_value_def

lemma map_js_Some: "map_js f xs = Some ys \<longleftrightarrow> map f xs = map Some ys"
  by (simp add: map_js_def all_some_eq)

lemma map_js_total: "(\<And>x. x \<in> set xs \<Longrightarrow> f x \<noteq> None) \<Longrightarrow> map_js f xs \<noteq> None"
  unfolding map_js_def all_some_None by (metis imageE set_map)

lemma map_js_length: "map_js f xs = Some ys \<Longrightarrow> length ys = length xs"
  by (drule iffD1 [OF map_js_Some], drule arg_cong [of _ _ length]) simp

lemma map_js_nth: "map_js f xs = Some ys \<Longrightarrow> i < length xs \<Longrightarrow> f (xs ! i) = Some (ys ! i)"
  using map_js_length [of f xs ys] by (metis length_map map_js_Some nth_map)

lemma map_js_map:
  assumes "map_js f xs = Some ys" "\<And>x y. x \<in> set xs \<Longrightarrow> f x = Some y \<Longrightarrow> h y = g x"
  shows "map h ys = map g xs"
  using map_js_length [OF assms(1)] map_js_nth [OF assms(1)] assms(2) by (intro nth_equalityI) auto

lemma map_js_set: "map_js f xs = Some ys \<Longrightarrow> y \<in> set ys \<Longrightarrow> \<exists>x\<in>set xs. f x = Some y"
  unfolding map_js_Some by (rule map_Some_source)

lemma some_js_total: "(\<And>x. x \<in> set xs \<Longrightarrow> f x \<noteq> None) \<Longrightarrow> some_js f xs \<noteq> None"
  by (induction xs) (auto split: bind_splits)

lemma filter_js_total: "(\<And>x. x \<in> set xs \<Longrightarrow> f x \<noteq> None) \<Longrightarrow> filter_js f xs \<noteq> None"
  by (induction xs) (auto split: bind_splits)

lemma find_js_total: "(\<And>x. x \<in> set xs \<Longrightarrow> f x \<noteq> None) \<Longrightarrow> find_js f xs \<noteq> None"
  by (induction xs) (auto split: bind_splits)

lemma filter_js_set: "filter_js f xs = Some ys \<Longrightarrow> y \<in> set ys \<Longrightarrow> y \<in> set xs \<and> f y = Some True"
proof (induction xs arbitrary: ys)
  case (Cons x xs)
  then show ?case by (auto split: bind_splits if_splits)
qed simp

lemma find_js_Some: "find_js f xs = Some (Some x) \<Longrightarrow> x \<in> set xs \<and> f x = Some True"
  by (induction xs) (auto split: bind_splits if_splits)

text \<open>A mapping with a state does not throw when no step does, whatever the state.\<close>

lemma map_state_total: "(\<And>x s. x \<in> set xs \<Longrightarrow> f x s \<noteq> None) \<Longrightarrow> map_state f xs s \<noteq> None"
proof (induction xs arbitrary: s)
  case (Cons x xs)
  then obtain p where p: "f x s = Some p" by fastforce
  moreover have "map_state f xs (snd p) \<noteq> None" using Cons by simp
  ultimately show ?case by auto
qed simp

lemma map_state_None:
  assumes "\<And>x s. x \<in> set xs \<Longrightarrow> f x s = None \<longleftrightarrow> bad x"
  shows "map_state f xs s = None \<longleftrightarrow> (\<exists>x\<in>set xs. bad x)"
  using assms
proof (induction xs arbitrary: s)
  case (Cons x xs)
  then have "map_state f xs s' = None \<longleftrightarrow> (\<exists>y\<in>set xs. bad y)" for s' by simp
  then show ?case using Cons(2) [of x] by (cases "f x s") auto
qed simp

lemma map_state_length: "map_state f xs s = Some (ys, t) \<Longrightarrow> length ys = length xs"
proof (induction xs arbitrary: s ys)
  case (Cons x xs)
  then show ?case by (auto split: bind_splits)
qed simp

lemma map_state_map:
  assumes "map_state f xs s = Some (ys, t)" "\<And>x s y s'. x \<in> set xs \<Longrightarrow> f x s = Some (y, s') \<Longrightarrow> h y = g x"
  shows "map h ys = map g xs"
  using assms
proof (induction xs arbitrary: s ys)
  case (Cons x xs)
  obtain y s1 ys' where "f x s = Some (y, s1)" "map_state f xs s1 = Some (ys', t)" "ys = y # ys'"
    using Cons(2) by (auto split: bind_splits)
  then show ?case using Cons(1) [of s1 ys'] Cons(3) by fastforce
qed simp

text \<open>Every result comes from its element, in some state.\<close>

lemma map_state_some:
  assumes "map_state f xs s = Some (ys, t)" "i < length xs"
  shows "\<exists>s1 s2. f (xs ! i) s1 = Some (ys ! i, s2)"
  using assms
proof (induction xs arbitrary: s ys i)
  case (Cons x xs)
  obtain y s1 ys' where "f x s = Some (y, s1)" "map_state f xs s1 = Some (ys', t)" "ys = y # ys'"
    using Cons(2) by (auto split: bind_splits)
  then show ?case using Cons(1) [of s1 ys'] Cons(3) by (cases i) auto
qed simp

text \<open>When every step changes the state by a known function, the state before an element is known.\<close>

lemma map_state_nth:
  assumes "map_state f xs s = Some (ys, t)" "i < length xs" "\<And>x s y s'. f x s = Some (y, s') \<Longrightarrow> s' = g x s"
  shows "\<exists>s'. f (xs ! i) (fold g (take i xs) s) = Some (ys ! i, s')"
  using assms(1,2)
proof (induction xs arbitrary: s ys i)
  case (Cons x xs)
  obtain y s1 ys' where x: "f x s = Some (y, s1)" and rest: "map_state f xs s1 = Some (ys', t)" and ys: "ys = y # ys'"
    using Cons(2) by (auto split: bind_splits)
  have "s1 = g x s" by (rule assms(3) [OF x])
  then show ?case using Cons(1) [OF rest] Cons(3) x ys by (cases i) auto
qed simp

lemma map_state_fold:
  assumes "map_state f xs s = Some (ys, t)" "\<And>x s y s'. f x s = Some (y, s') \<Longrightarrow> s' = g x s"
  shows "t = fold g xs s"
  using assms(1)
proof (induction xs arbitrary: s ys)
  case (Cons x xs)
  then show ?case using assms(2) by (fastforce split: bind_splits)
qed simp

text \<open>Entering calls into the store of tool names: the last call with an identifier gives its name.\<close>

definition enter_names :: "(string \<times> string) list \<Rightarrow> (string \<rightharpoonup> string) \<Rightarrow> (string \<rightharpoonup> string)" where
  "enter_names calls names = names ++ map_of (rev calls)"

lemma enter_names_simps [simp]:
  "enter_names [] names = names"
  "enter_names [(i, n)] names = names(i \<mapsto> n)"
  by (simp_all add: enter_names_def)

lemma enter_names_append: "enter_names ds (enter_names cs names) = enter_names (cs @ ds) names"
  by (simp add: enter_names_def)

lemma fold_enter_names: "fold (\<lambda>x. enter_names (calls x)) xs names = enter_names (concat (map calls xs)) names"
  by (induction xs arbitrary: names) (simp_all add: enter_names_append)

definition last_name :: "(string \<times> string) list \<Rightarrow> string \<Rightarrow> string option" where
  "last_name calls i = map_of (rev calls) i"

lemma enter_names_empty: "enter_names calls Map.empty = last_name calls"
  by (simp add: enter_names_def last_name_def fun_eq_iff)

lemma concat_singletons:
  assumes "\<And>p. p \<in> set ps \<Longrightarrow> length p = 1"
  shows "length (concat ps) = length ps \<and> (\<forall>k<length ps. ps ! k = [concat ps ! k])"
  using assms
proof (induction ps)
  case (Cons p ps)
  have "length p = 1" using Cons(2) by simp
  then obtain x where "p = [x]" by (auto simp: length_Suc_conv)
  then show ?case using Cons by (auto simp: nth_Cons split: nat.splits)
qed simp

lemma to_array_conforms:
  assumes "conforms (ZUnion [s, ZArray s]) r" "\<And>v. conforms s v \<Longrightarrow> to_array v = [v]"
  shows "\<forall>v\<in>set (to_array r). conforms s v"
  using assms by (auto simp: to_array_def)

text \<open>An environment for concrete runs: no stored object is found.\<close>

definition offline_env :: message_env where
  "offline_env = \<lparr>env_stringify = (\<lambda>_. ''json''), env_parse = (\<lambda>_. None), env_s3 = (\<lambda>_ _. None),
     env_base64 = (\<lambda>_. []), env_random = (\<lambda>n. ''r'' @ show_nat n),
     env_text = (\<lambda>v. case v of JStr s \<Rightarrow> s | _ \<Rightarrow> ''[object Object]'')\<rparr>"

lemma offline_env_simps [simp]:
  "env_stringify offline_env v = ''json''" "env_parse offline_env t = None" "env_s3 offline_env p q = None"
  "env_base64 offline_env bs = []" "env_random offline_env n = ''r'' @ show_nat n"
  "env_text offline_env v = (case v of JStr s \<Rightarrow> s | _ \<Rightarrow> ''[object Object]'')"
  by (simp_all add: offline_env_def)

end
