(* ===== verification/OpenAIMessages.thy ===== *)
theory OpenAIMessages
  imports Messages
begin

text \<open>
  The messages of OpenAI's chat completions: their schemas, their validation and their conversion for the
  playground (\<open>lib/spans/types/openai.ts\<close>), and the adapter (\<open>lib/spans/providers/openai.ts\<close>).
\<close>

section \<open>Schemas\<close>

definition OpenAITextPartSchema :: schema where
  "OpenAITextPartSchema =
     z_object [(''type'', ZLiteral ''text''), (''text'', ZString)]"

definition OpenAIImagePartSchema :: schema where
  "OpenAIImagePartSchema =
     z_object [(''type'', ZLiteral ''image_url''), (''image_url'', z_object [(''url'', ZString),
       (''detail'', ZOptional (ZEnum [''low'', ''high'', ''auto'']))])]"

definition OpenAIFilePartSchema :: schema where
  "OpenAIFilePartSchema =
     z_object [(''file'', z_object [(''file_data'', ZOptional ZString), (''file_id'', ZOptional ZString),
       (''filename'', ZOptional ZString)]), (''type'', ZLiteral ''file'')]"

definition OpenAIToolCallPartSchema :: schema where
  "OpenAIToolCallPartSchema =
     z_object [(''id'', ZString), (''type'', ZLiteral ''function''),
       (''function'', z_object [(''name'', ZString), (''arguments'', ZString)])]"

definition OpenAISystemMessageSchema :: schema where
  "OpenAISystemMessageSchema =
     z_object [(''role'', ZLiteral ''system''), (''content'', ZUnion [ZString, ZArray OpenAITextPartSchema]),
       (''name'', ZOptional ZString)]"

definition OpenAIUserMessageSchema :: schema where
  "OpenAIUserMessageSchema =
     z_object [(''role'', ZLiteral ''user''), (''content'', ZUnion [ZString,
       ZArray (ZUnion [OpenAITextPartSchema, OpenAIImagePartSchema, OpenAIFilePartSchema])]),
       (''name'', ZOptional ZString)]"

definition OpenAIComputerCallOutputMessageSchema :: schema where
  "OpenAIComputerCallOutputMessageSchema =
     z_object [(''role'', ZLiteral ''computer_call_output''),
       (''content'', ZArray (ZUnion [OpenAIImagePartSchema, OpenAIFilePartSchema]))]"

definition OpenAIAssistantMessageSchema :: schema where
  "OpenAIAssistantMessageSchema =
     z_object [(''role'', ZLiteral ''assistant''),
       (''audio'', ZOptional (ZNullable (z_object [(''id'', ZString)]))),
       (''function_call'', ZOptional (ZNullable (z_object [(''arguments'', ZString), (''name'', ZString)]))),
       (''annotations'', ZOptional (ZNullable (ZArray ZString))), (''refusal'', ZOptional (ZNullable ZString)),
       (''content'', ZOptional (ZNullable (ZUnion [ZString, ZArray OpenAITextPartSchema]))),
       (''name'', ZOptional ZString),
       (''tool_calls'', ZOptional (ZNullable (ZArray OpenAIToolCallPartSchema)))]"

definition OpenAIToolMessageSchema :: schema where
  "OpenAIToolMessageSchema =
     z_object [(''role'', ZLiteral ''tool''), (''content'', ZUnion [ZString, ZArray OpenAITextPartSchema]),
       (''tool_call_id'', ZOptional ZString)]"

definition OpenAIMessageSchema :: schema where
  "OpenAIMessageSchema =
     ZUnion [OpenAISystemMessageSchema, OpenAIUserMessageSchema, OpenAIAssistantMessageSchema,
       OpenAIToolMessageSchema, OpenAIComputerCallOutputMessageSchema]"

definition OpenAIMessagesSchema :: schema where
  "OpenAIMessagesSchema =
     ZArray OpenAIMessageSchema"

definition OpenAIChoiceSchema :: schema where
  "OpenAIChoiceSchema =
     z_loose [(''message'', OpenAIMessageSchema), (''finish_reason'', ZOptional (ZNullable ZString)),
       (''index'', ZOptional ZNumber), (''logprobs'', ZOptional (ZNullable ZUnknown))]"

definition OpenAIChoicesSchema :: schema where
  "OpenAIChoicesSchema =
     ZArray OpenAIChoiceSchema"

definition OpenAIInputSchema :: schema where
  "OpenAIInputSchema =
     ZUnion [OpenAIMessageSchema, OpenAIMessagesSchema]"

definition OpenAIOutputSchema :: schema where
  "OpenAIOutputSchema =
     ZUnion [OpenAIChoiceSchema, OpenAIChoicesSchema]"

lemmas openai_schemas = OpenAITextPartSchema_def OpenAIImagePartSchema_def OpenAIFilePartSchema_def
  OpenAIToolCallPartSchema_def OpenAISystemMessageSchema_def OpenAIUserMessageSchema_def
  OpenAIComputerCallOutputMessageSchema_def OpenAIAssistantMessageSchema_def OpenAIToolMessageSchema_def

section \<open>Validation\<close>

definition parseOpenAIInput :: "(schema \<Rightarrow> json \<Rightarrow> json option) \<Rightarrow> json \<Rightarrow> json list option" where
  "parseOpenAIInput sp data = map_option to_array (sp OpenAIInputSchema data)"

definition parseOpenAIOutput :: "(schema \<Rightarrow> json \<Rightarrow> json option) \<Rightarrow> json \<Rightarrow> json list option option" where
  "parseOpenAIOutput sp data = (case sp OpenAIOutputSchema data of
     None \<Rightarrow> Some None
   | Some r \<Rightarrow> map_option Some (map_js (obj ''message'') (to_array r)))"

section \<open>Conversion\<close>

text \<open>An image that is stored is replaced by its data, or by a text when it cannot be read.\<close>

definition openai_download_part :: "message_env \<Rightarrow> json \<Rightarrow> json option" where
  "openai_download_part env part = do {
     image \<leftarrow> get_is ''type'' ''image_url'' part;
     if image then do {
       iu \<leftarrow> obj ''image_url'' part;
       url \<leftarrow> str ''url'' iu;
       Some (if isStorageUrl url then
               (case urlToBase64 env url of
                  Some b \<Rightarrow> set_key ''image_url'' (set_key ''url'' (JStr b) iu) part
                | None \<Rightarrow> JObj [(''type'', JStr ''text''),
                    (''text'', JStr (''[Image processing failed: '' @ url @ '']''))])
             else part)
     } else Some part
   }"

definition openai_download_message :: "message_env \<Rightarrow> json \<Rightarrow> json option" where
  "openai_download_message env m = do {
     user \<leftarrow> get_is ''role'' ''user'' m;
     c \<leftarrow> get ''content'' m;
     (case c of
        Some (JArr parts) \<Rightarrow>
          if user then map_option (\<lambda>ps. set_key ''content'' (JArr ps) m) (map_js (openai_download_part env) parts)
          else Some m
      | _ \<Rightarrow> Some m)
   }"

definition downloadOpenAIImages :: "message_env \<Rightarrow> json list \<Rightarrow> json list option" where
  "downloadOpenAIImages env ms = map_js (openai_download_message env) ms"

definition openai_user_part :: "json \<Rightarrow> string part option" where
  "openai_user_part part = do {
     text \<leftarrow> get_is ''type'' ''text'' part;
     image \<leftarrow> get_is ''type'' ''image_url'' part;
     if text then do { t \<leftarrow> str ''text'' part; Some (TextPart t None) }
     else if image then do { iu \<leftarrow> obj ''image_url'' part; url \<leftarrow> str ''url'' iu; Some (ImagePart url) }
     else do {
       f \<leftarrow> obj ''file'' part;
       d \<leftarrow> opt_str ''file_data'' f;
       i \<leftarrow> opt_str ''file_id'' f;
       Some (FilePart (js_text d) (Some (js_text i)) (Some (js_text i)))
     }
   }"

definition openai_computer_part :: "json \<Rightarrow> string part option" where
  "openai_computer_part part = do {
     image \<leftarrow> get_is ''type'' ''image_url'' part;
     if image then do { iu \<leftarrow> obj ''image_url'' part; url \<leftarrow> str ''url'' iu; Some (ImagePart url) }
     else do {
       f \<leftarrow> obj ''file'' part;
       d \<leftarrow> opt_str ''file_data'' f;
       i \<leftarrow> opt_str ''file_id'' f;
       Some (FilePart (js_text d) None (Some (js_text i)))
     }
   }"

definition openai_text_part :: "json \<Rightarrow> string part option" where
  "openai_text_part part = do { t \<leftarrow> str ''text'' part; Some (TextPart t None) }"

text \<open>A tool call also enters the name of its tool into the store.\<close>

definition openai_tool_call :: "json \<Rightarrow> (string \<rightharpoonup> string) \<Rightarrow> (string part \<times> (string \<rightharpoonup> string)) option" where
  "openai_tool_call part names = do {
     i \<leftarrow> str ''id'' part;
     f \<leftarrow> obj ''function'' part;
     n \<leftarrow> str ''name'' f;
     a \<leftarrow> str ''arguments'' f;
     Some (ToolCallPart i n (InJson a) None, names(i \<mapsto> n))
   }"

definition openai_message ::
  "message_env \<Rightarrow> json \<Rightarrow> (string \<rightharpoonup> string) \<Rightarrow> (string message \<times> (string \<rightharpoonup> string)) option" where
  "openai_message env m names = do {
     role \<leftarrow> str ''role'' m;
     c \<leftarrow> get ''content'' m;
     if role = ''system'' then (case c of
         Some (JStr s) \<Rightarrow> Some (\<lparr>mrole = Some role, mcontent = Content s\<rparr>, names)
       | Some v \<Rightarrow> Some (\<lparr>mrole = Some role, mcontent = Content (env_stringify env v)\<rparr>, names)
       | None \<Rightarrow> None)
     else if role = ''user'' then (case c of
         Some (JStr s) \<Rightarrow> Some (\<lparr>mrole = Some role, mcontent = Content s\<rparr>, names)
       | _ \<Rightarrow> do {
           ps \<leftarrow> as_array c;
           parts \<leftarrow> map_js openai_user_part ps;
           Some (\<lparr>mrole = Some role, mcontent = Parts parts\<rparr>, names) })
     else if role = ''assistant'' then (case c of
         Some (JStr s) \<Rightarrow> Some (\<lparr>mrole = Some role, mcontent = Content s\<rparr>, names)
       | _ \<Rightarrow> do {
           ps \<leftarrow> arr_or_empty ''content'' m;
           texts \<leftarrow> map_js openai_text_part ps;
           tcs \<leftarrow> arr_or_empty ''tool_calls'' m;
           (calls, names') \<leftarrow> map_state openai_tool_call tcs names;
           Some (\<lparr>mrole = Some role, mcontent = Parts (texts @ calls)\<rparr>, names') })
     else if role = ''tool'' then do {
         tid \<leftarrow> opt_str ''tool_call_id'' m;
         out \<leftarrow> (case c of Some (JStr s) \<Rightarrow> Some (OutText s) | Some (JArr vs) \<Rightarrow> Some (OutContent vs) | _ \<Rightarrow> None);
         Some (\<lparr>mrole = Some role, mcontent = Parts [ToolResultPart (or_text tid ''-'')
             (or_str (Option.bind tid names) tid) out]\<rparr>, names) }
     else if role = ''computer_call_output'' then do {
         ps \<leftarrow> as_array c;
         parts \<leftarrow> map_js openai_computer_part ps;
         Some (\<lparr>mrole = Some ''user'', mcontent = Parts parts\<rparr>, names) }
     else None
   }"

definition convertOpenAIToChatMessages :: "message_env \<Rightarrow> json list \<Rightarrow> string message list option" where
  "convertOpenAIToChatMessages env ms = map_option fst (map_state (openai_message env) ms Map.empty)"

definition convertOpenAIToPlaygroundMessages :: "message_env \<Rightarrow> json list \<Rightarrow> string message list option" where
  "convertOpenAIToPlaygroundMessages env ms = do {
     ds \<leftarrow> downloadOpenAIImages env ms;
     cs \<leftarrow> convertOpenAIToChatMessages env ds;
     Some (map playground_message cs)
   }"

section \<open>Adapter\<close>

definition openai_text_of_parts :: "json list \<Rightarrow> string list option" where
  "openai_text_of_parts parts = do {
     texts \<leftarrow> filter_js (get_is ''type'' ''text'') parts;
     map_js (str ''text'') texts
   }"

definition openai_first_user :: "json list \<Rightarrow> string list option" where
  "openai_first_user ms = do {
     m \<leftarrow> find_js (get_is ''role'' ''user'') ms;
     (case m of
        None \<Rightarrow> Some []
      | Some msg \<Rightarrow> do {
          c \<leftarrow> get ''content'' msg;
          (case c of
             Some (JStr s) \<Rightarrow> Some [s]
           | _ \<Rightarrow> do { ps \<leftarrow> as_array c; openai_text_of_parts ps }) })
   }"

definition parseSystemAndUserOpenAI :: "(schema \<Rightarrow> json \<Rightarrow> json option) \<Rightarrow> json \<Rightarrow> parsed_input option option" where
  "parseSystemAndUserOpenAI sp data = (case parseOpenAIInput sp data of
     None \<Rightarrow> Some None
   | Some ms \<Rightarrow> do {
       sm \<leftarrow> find_js (get_is ''role'' ''system'') ms;
       sys \<leftarrow> (case sm of
          None \<Rightarrow> Some None
        | Some m \<Rightarrow> do {
            c \<leftarrow> get ''content'' m;
            (case c of
               Some (JStr s) \<Rightarrow> Some (Some s)
             | _ \<Rightarrow> do {
                 ps \<leftarrow> as_array c;
                 ts \<leftarrow> openai_text_of_parts ps;
                 Some (if ts = [] then None else Some (join '' '' ts)) }) });
       us \<leftarrow> openai_first_user ms;
       Some (Some \<lparr>systemText = sys, userParts = us\<rparr>)
     })"

definition renderOpenAIMessage :: "(schema \<Rightarrow> json \<Rightarrow> json option) \<Rightarrow> json \<Rightarrow> string option" where
  "renderOpenAIMessage sp m = do {
     c \<leftarrow> get ''content'' m;
     (case c of
        Some (JStr s) \<Rightarrow> Some s
      | Some (JArr ps) \<Rightarrow> map_option joinNonEmpty (map_js (parsed_str sp OpenAITextPartSchema ''text'') ps)
      | _ \<Rightarrow> Some [])
   }"

definition renderOutputTextOpenAI :: "(schema \<Rightarrow> json \<Rightarrow> json option) \<Rightarrow> json \<Rightarrow> string option option" where
  "renderOutputTextOpenAI sp data = do {
     ms \<leftarrow> parseOpenAIOutput sp data;
     (case ms of
        None \<Rightarrow> Some None
      | Some msgs \<Rightarrow> map_option (\<lambda>ts. Some (joinNonEmpty (map Some ts))) (map_js (renderOpenAIMessage sp) msgs))
   }"

definition LooseOpenAIToolCallSchema :: schema where
  "LooseOpenAIToolCallSchema =
     z_loose [(''function'', z_loose [(''name'', ZString), (''arguments'', ZUnknown)])]"

definition LooseOpenAIAssistantSchema :: schema where
  "LooseOpenAIAssistantSchema =
     z_loose [(''role'', ZLiteral ''assistant''), (''content'', ZOptional (ZUnion [ZString, ZArray ZUnknown,
       ZNull])), (''tool_calls'', ZOptional (ZNullable (ZArray LooseOpenAIToolCallSchema)))]"

definition LooseOpenAIChoiceSchema :: schema where
  "LooseOpenAIChoiceSchema =
     z_loose [(''message'', LooseOpenAIAssistantSchema)]"

definition LooseOpenAIOutputSchema :: schema where
  "LooseOpenAIOutputSchema =
     ZUnion [LooseOpenAIChoiceSchema, ZArray LooseOpenAIChoiceSchema]"

definition parseLooseOpenAI :: "(schema \<Rightarrow> json \<Rightarrow> json option) \<Rightarrow> json \<Rightarrow> json list option option" where
  "parseLooseOpenAI sp data = (case sp LooseOpenAIOutputSchema data of
     None \<Rightarrow> Some None
   | Some r \<Rightarrow> map_option Some (map_js (obj ''message'') (to_array r)))"

definition openaiHasText :: "json \<Rightarrow> bool option" where
  "openaiHasText m = do {
     c \<leftarrow> get ''content'' m;
     (case c of
        Some (JStr s) \<Rightarrow> Some (\<not> isBlank c)
      | Some (JArr ps) \<Rightarrow> some_js (\<lambda>p. if \<not> is_object p then Some False
          else do {
            text \<leftarrow> get_is ''type'' ''text'' p;
            t \<leftarrow> get ''text'' p;
            Some (text \<and> \<not> isBlank t) }) ps
      | _ \<Rightarrow> Some False)
   }"

definition openai_tool :: "json \<Rightarrow> extracted_tool option" where
  "openai_tool tc = do {
     f \<leftarrow> obj ''function'' tc;
     n \<leftarrow> str ''name'' f;
     a \<leftarrow> get ''arguments'' f;
     Some \<lparr>toolName = n, toolInput = a\<rparr>
   }"

definition openai_tools :: "json \<Rightarrow> extracted_tool list option" where
  "openai_tools m = do {
     tcs \<leftarrow> get ''tool_calls'' m;
     (case tcs of Some (JArr vs) \<Rightarrow> map_js openai_tool vs | _ \<Rightarrow> Some [])
   }"

definition extractToolsIfToolOnlyOpenAI ::
  "(schema \<Rightarrow> json \<Rightarrow> json option) \<Rightarrow> json \<Rightarrow> extracted_tool list option option" where
  "extractToolsIfToolOnlyOpenAI sp data = do {
     ms \<leftarrow> parseLooseOpenAI sp data;
     (case ms of
        None \<Rightarrow> Some None
      | Some msgs \<Rightarrow> do {
          text \<leftarrow> some_js openaiHasText msgs;
          if text then Some None
          else do {
            tools \<leftarrow> map_js openai_tools msgs;
            Some (if concat tools = [] then None else Some (concat tools))
          } })
   }"

definition openaiAdapter :: "(schema \<Rightarrow> json \<Rightarrow> json option) \<Rightarrow> adapter" where
  "openaiAdapter sp = \<lparr>adapter_id = HOpenAI,
     detects = (\<lambda>data. Some (sp OpenAIOutputSchema data \<noteq> None)),
     parseSystemAndUser = Some (parseSystemAndUserOpenAI sp),
     renderOutputText = Some (renderOutputTextOpenAI sp),
     extractTools = Some (extractToolsIfToolOnlyOpenAI sp)\<rparr>"

section \<open>Validated messages convert\<close>

definition openai_user_part_schema :: schema where
  "openai_user_part_schema = ZUnion [OpenAITextPartSchema, OpenAIImagePartSchema, OpenAIFilePartSchema]"

definition openai_computer_part_schema :: schema where
  "openai_computer_part_schema = ZUnion [OpenAIImagePartSchema, OpenAIFilePartSchema]"

lemma openai_user_part_total: "conforms openai_user_part_schema part \<Longrightarrow> openai_user_part part \<noteq> None"
  by (auto simp: openai_user_part_schema_def openai_schemas openai_user_part_def reading split: option.splits)

lemma openai_computer_part_total:
  "conforms openai_computer_part_schema part \<Longrightarrow> openai_computer_part part \<noteq> None"
  by (auto simp: openai_computer_part_schema_def openai_schemas openai_computer_part_def reading split: option.splits)

lemma openai_text_part_total: "conforms OpenAITextPartSchema part \<Longrightarrow> openai_text_part part \<noteq> None"
  by (auto simp: openai_schemas openai_text_part_def reading split: option.splits)

lemma openai_tool_call_total: "conforms OpenAIToolCallPartSchema part \<Longrightarrow> openai_tool_call part names \<noteq> None"
  by (auto simp: openai_schemas openai_tool_call_def reading split: option.splits)

text \<open>Downloading its images keeps a message valid.\<close>

lemma openai_image_part:
  assumes "conforms OpenAIImagePartSchema part"
  obtains iu url where "get ''type'' part = Some (Some (JStr ''image_url''))" "obj ''image_url'' part = Some iu"
    "str ''url'' iu = Some url" "\<And>b. conforms OpenAIImagePartSchema (set_key ''image_url'' (set_key ''url'' (JStr b) iu) part)"
proof -
  have im: "conforms (z_object [(''url'', ZString), (''detail'', ZOptional (ZEnum [''low'', ''high'', ''auto'']))])
      (set_key ''url'' (JStr b) w)"
    if "conforms (z_object [(''url'', ZString), (''detail'', ZOptional (ZEnum [''low'', ''high'', ''auto'']))]) w" for b w
    by (rule conforms_set_key [OF that]) simp_all
  have "conforms OpenAIImagePartSchema (set_key ''image_url'' w part)"
    if "conforms (z_object [(''url'', ZString), (''detail'', ZOptional (ZEnum [''low'', ''high'', ''auto'']))]) w" for w
    unfolding OpenAIImagePartSchema_def
    by (rule conforms_set_key [OF assms [unfolded OpenAIImagePartSchema_def]]) (use that in simp_all)
  note image = this
  obtain iu where iu: "get ''type'' part = Some (Some (JStr ''image_url''))" "obj ''image_url'' part = Some iu"
    "conforms (z_object [(''url'', ZString), (''detail'', ZOptional (ZEnum [''low'', ''high'', ''auto'']))]) iu"
    using assms by (auto simp: OpenAIImagePartSchema_def reading split: option.splits)
  moreover obtain url where "str ''url'' iu = Some url" using iu(3) by (auto simp: reading split: option.splits)
  ultimately show thesis using image im that by blast
qed

lemma openai_download_part_conforms:
  assumes "conforms openai_user_part_schema part"
  shows "\<exists>p. openai_download_part env part = Some p \<and> conforms openai_user_part_schema p"
proof (cases "conforms OpenAIImagePartSchema part")
  case True
  then obtain iu url where "get ''type'' part = Some (Some (JStr ''image_url''))" "obj ''image_url'' part = Some iu"
    "str ''url'' iu = Some url"
    and conf: "\<And>b. conforms OpenAIImagePartSchema (set_key ''image_url'' (set_key ''url'' (JStr b) iu) part)"
    by (rule openai_image_part) blast
  moreover have "conforms OpenAITextPartSchema (JObj [(''type'', JStr ''text''), (''text'', JStr t)])" for t
    by (simp add: OpenAITextPartSchema_def stripped_def)
  ultimately show ?thesis using True conf
    by (auto simp: openai_user_part_schema_def openai_download_part_def get_is_def split: option.splits)
next
  case False
  then have "get_is ''type'' ''image_url'' part = Some False"
    using assms by (auto simp: openai_user_part_schema_def OpenAITextPartSchema_def OpenAIFilePartSchema_def reading
        split: option.splits)
  then show ?thesis using assms by (simp add: openai_download_part_def)
qed

text \<open>What the conversion reads of each kind of message.\<close>

lemma openai_system_message:
  assumes "conforms OpenAISystemMessageSchema m"
  shows "get ''role'' m = Some (Some (JStr ''system''))" "\<exists>v. get ''content'' m = Some (Some v)"
  using assms by (auto simp: OpenAISystemMessageSchema_def reading split: option.splits)

lemma openai_user_message:
  assumes "conforms OpenAIUserMessageSchema m"
  shows "get ''role'' m = Some (Some (JStr ''user''))"
    and "(\<exists>t. get ''content'' m = Some (Some (JStr t))) \<or>
      (\<exists>ps. get ''content'' m = Some (Some (JArr ps)) \<and> (\<forall>p\<in>set ps. conforms openai_user_part_schema p))"
  using assms by (auto simp: OpenAIUserMessageSchema_def openai_user_part_schema_def reading split: option.splits)

lemma openai_assistant_message:
  assumes "conforms OpenAIAssistantMessageSchema m"
  shows "get ''role'' m = Some (Some (JStr ''assistant''))"
    and "(\<exists>t. get ''content'' m = Some (Some (JStr t))) \<or> get ''content'' m = Some None \<or> get ''content'' m = Some (Some JNull) \<or>
      (\<exists>ps. get ''content'' m = Some (Some (JArr ps)) \<and> (\<forall>p\<in>set ps. conforms OpenAITextPartSchema p))"
    and "\<exists>tcs. arr_or_empty ''tool_calls'' m = Some tcs \<and> (\<forall>p\<in>set tcs. conforms OpenAIToolCallPartSchema p)"
proof -
  note field = get_field [OF assms [unfolded OpenAIAssistantMessageSchema_def]]
  show "get ''role'' m = Some (Some (JStr ''assistant''))"
    using field [of "''role''" "ZLiteral ''assistant''"] by auto
  show "(\<exists>t. get ''content'' m = Some (Some (JStr t))) \<or> get ''content'' m = Some None \<or> get ''content'' m = Some (Some JNull) \<or>
      (\<exists>ps. get ''content'' m = Some (Some (JArr ps)) \<and> (\<forall>p\<in>set ps. conforms OpenAITextPartSchema p))"
    using field [of "''content''" "ZOptional (ZNullable (ZUnion [ZString, ZArray OpenAITextPartSchema]))"] by auto
  show "\<exists>tcs. arr_or_empty ''tool_calls'' m = Some tcs \<and> (\<forall>p\<in>set tcs. conforms OpenAIToolCallPartSchema p)"
    using field [of "''tool_calls''" "ZOptional (ZNullable (ZArray OpenAIToolCallPartSchema))"]
    by (auto simp: arr_or_empty_def)
qed

lemma openai_tool_message:
  assumes "conforms OpenAIToolMessageSchema m"
  shows "get ''role'' m = Some (Some (JStr ''tool''))" "\<exists>tid. opt_str ''tool_call_id'' m = Some tid"
    and "(\<exists>t. get ''content'' m = Some (Some (JStr t))) \<or> (\<exists>ps. get ''content'' m = Some (Some (JArr ps)))"
  using assms by (auto simp: OpenAIToolMessageSchema_def reading split: option.splits)

lemma openai_computer_message:
  assumes "conforms OpenAIComputerCallOutputMessageSchema m"
  shows "get ''role'' m = Some (Some (JStr ''computer_call_output''))"
    and "\<exists>ps. get ''content'' m = Some (Some (JArr ps)) \<and> (\<forall>p\<in>set ps. conforms openai_computer_part_schema p)"
  using assms by (auto simp: OpenAIComputerCallOutputMessageSchema_def openai_computer_part_schema_def reading split: option.splits)

lemma openai_message_cases:
  assumes "conforms OpenAIMessageSchema m"
  obtains (system) "conforms OpenAISystemMessageSchema m" | (user) "conforms OpenAIUserMessageSchema m"
  | (assistant) "conforms OpenAIAssistantMessageSchema m" | (tool) "conforms OpenAIToolMessageSchema m"
  | (computer) "conforms OpenAIComputerCallOutputMessageSchema m"
  using assms by (auto simp: OpenAIMessageSchema_def)

lemma openai_other_message:
  assumes "conforms OpenAIMessageSchema m" "\<not> conforms OpenAIUserMessageSchema m"
  shows "get_is ''role'' ''user'' m = Some False" "get ''content'' m \<noteq> None"
  using assms(1)
  by (cases rule: openai_message_cases; use assms(2) openai_system_message [of m] openai_assistant_message [of m]
      openai_tool_message [of m] openai_computer_message [of m] in \<open>auto simp: get_is_def\<close>)+

lemma openai_download_message_conforms:
  assumes "conforms OpenAIMessageSchema m"
  shows "\<exists>d. openai_download_message env m = Some d \<and> conforms OpenAIMessageSchema d \<and> get ''role'' d = get ''role'' m"
proof (cases "conforms OpenAIUserMessageSchema m")
  case False
  note openai_other_message [OF assms False]
  then show ?thesis using assms by (auto simp: openai_download_message_def split: option.splits json.splits)
next
  case True
  note user = openai_user_message [OF True]
  show ?thesis
  proof (cases "\<exists>ps. get ''content'' m = Some (Some (JArr ps))")
    case False
    then show ?thesis using user assms by (auto simp: openai_download_message_def get_is_def)
  next
    case array: True
    then obtain ps where ps: "get ''content'' m = Some (Some (JArr ps))"
      and conf: "\<forall>p\<in>set ps. conforms openai_user_part_schema p" using user(2) by auto
    have "map_js (openai_download_part env) ps \<noteq> None"
      by (rule map_js_total) (use conf openai_download_part_conforms in blast)
    then obtain qs where qs: "map_js (openai_download_part env) ps = Some qs" by blast
    have "conforms openai_user_part_schema q" if "q \<in> set qs" for q
      using map_Some_source [OF qs [unfolded map_js_Some] that] conf openai_download_part_conforms
      by (metis option.inject)
    then have "conforms OpenAIUserMessageSchema (set_key ''content'' (JArr qs) m)"
      unfolding OpenAIUserMessageSchema_def
      by (intro conforms_set_key True [unfolded OpenAIUserMessageSchema_def]) (simp_all add: openai_user_part_schema_def)
    moreover have "get ''role'' (set_key ''content'' (JArr qs) m) = get ''role'' m"
      using ps by (auto simp: get_def set_key_def spread_def update_conv' split: json.splits)
    ultimately show ?thesis using user(1) ps qs
      by (simp add: openai_download_message_def get_is_def OpenAIMessageSchema_def)
  qed
qed

definition openai_role :: "json \<Rightarrow> string option" where
  "openai_role m = (case get ''role'' m of
     Some (Some (JStr r)) \<Rightarrow> Some (if r = ''computer_call_output'' then ''user'' else r) | _ \<Rightarrow> None)"

lemma openai_message_total:
  assumes "conforms OpenAIMessageSchema m"
  shows "\<exists>c names'. openai_message env m names = Some (\<lparr>mrole = openai_role m, mcontent = c\<rparr>, names')"
  using assms
proof (cases rule: openai_message_cases)
  case system
  then show ?thesis using openai_system_message [OF system]
    by (auto simp: openai_message_def openai_role_def str_def as_string_def split: json.splits)
next
  case user
  have "map_js openai_user_part ps \<noteq> None" if "\<forall>p\<in>set ps. conforms openai_user_part_schema p" for ps
    by (rule map_js_total) (use that openai_user_part_total in blast)
  then show ?thesis using openai_user_message [OF user]
    by (fastforce simp: openai_message_def openai_role_def str_def as_string_def as_array_def)
next
  case assistant
  have "map_js openai_text_part ps \<noteq> None" if "\<forall>p\<in>set ps. conforms OpenAITextPartSchema p" for ps
    by (rule map_js_total) (use that openai_text_part_total in blast)
  moreover have "map_state openai_tool_call ps names \<noteq> None" if "\<forall>p\<in>set ps. conforms OpenAIToolCallPartSchema p" for ps
    by (rule map_state_total) (use that openai_tool_call_total in blast)
  moreover have "map_js openai_text_part [] = Some []" by (simp add: map_js_def)
  ultimately show ?thesis using openai_assistant_message [OF assistant]
    by (fastforce simp: openai_message_def openai_role_def str_def as_string_def arr_or_empty_def)
next
  case tool
  then show ?thesis using openai_tool_message [OF tool]
    by (auto simp: openai_message_def openai_role_def str_def as_string_def)
next
  case computer
  have "map_js openai_computer_part ps \<noteq> None" if "\<forall>p\<in>set ps. conforms openai_computer_part_schema p" for ps
    by (rule map_js_total) (use that openai_computer_part_total in blast)
  then show ?thesis using openai_computer_message [OF computer]
    by (fastforce simp: openai_message_def openai_role_def str_def as_string_def as_array_def)
qed

lemma openai_download_total:
  assumes "\<forall>m\<in>set ms. conforms OpenAIMessageSchema m"
  obtains ds where "downloadOpenAIImages env ms = Some ds" "\<forall>d\<in>set ds. conforms OpenAIMessageSchema d"
    "map openai_role ds = map openai_role ms"
proof -
  have "map_js (openai_download_message env) ms \<noteq> None"
    by (rule map_js_total) (use assms openai_download_message_conforms in blast)
  then obtain ds where ds: "map_js (openai_download_message env) ms = Some ds" by blast
  note eq = ds [unfolded map_js_Some]
  have "conforms OpenAIMessageSchema d" if "d \<in> set ds" for d
    using map_js_set [OF ds that] assms openai_download_message_conforms by (metis option.inject)
  moreover have "map openai_role ds = map openai_role ms"
  proof (rule map_js_map [OF ds])
    fix m d
    assume "m \<in> set ms" "openai_download_message env m = Some d"
    then show "openai_role d = openai_role m"
      using assms openai_download_message_conforms [of m env] by (auto simp: openai_role_def)
  qed
  ultimately show thesis using that ds by (simp add: downloadOpenAIImages_def)
qed

lemma openai_messages_convert:
  assumes "\<forall>m\<in>set ms. conforms OpenAIMessageSchema m"
  shows "\<exists>out. convertOpenAIToPlaygroundMessages env ms = Some out \<and> map mrole out = map openai_role ms
    \<and> (\<forall>m\<in>set out. \<exists>ps. mcontent m = Parts ps)"
proof -
  obtain ds where ds: "downloadOpenAIImages env ms = Some ds" "\<forall>d\<in>set ds. conforms OpenAIMessageSchema d"
    "map openai_role ds = map openai_role ms"
    by (rule openai_download_total [OF assms])
  have "map_state (openai_message env) ds Map.empty \<noteq> None"
    by (rule map_state_total) (use ds(2) openai_message_total in fastforce)
  then obtain cs t where cs: "map_state (openai_message env) ds Map.empty = Some (cs, t)" by fastforce
  have "map mrole cs = map openai_role ds"
  proof (rule map_state_map [OF cs])
    fix d names c names'
    assume "d \<in> set ds" "openai_message env d names = Some (c, names')"
    then show "mrole c = openai_role d" using openai_message_total [of d env names] ds(2) by auto
  qed
  then have "map mrole (map playground_message cs) = map openai_role ms"
    using ds(3) by (simp add: playground_roles comp_def)
  then show ?thesis
    by (simp add: convertOpenAIToPlaygroundMessages_def convertOpenAIToChatMessages_def ds(1) cs playground_parts)
qed

lemma openai_message_object: "conforms OpenAIMessageSchema v \<Longrightarrow> to_array v = [v]"
  by (auto simp: OpenAIMessageSchema_def OpenAISystemMessageSchema_def OpenAIUserMessageSchema_def
      OpenAIAssistantMessageSchema_def OpenAIToolMessageSchema_def OpenAIComputerCallOutputMessageSchema_def to_array_def)

context zod begin

lemma openai_input_conforms:
  assumes "parseOpenAIInput safeParse data = Some ms"
  shows "\<forall>m\<in>set ms. conforms OpenAIMessageSchema m"
proof -
  obtain r where r: "safeParse OpenAIInputSchema data = Some r" and ms: "ms = to_array r"
    using assms by (auto simp: parseOpenAIInput_def)
  have "conforms (ZUnion [OpenAIMessageSchema, ZArray OpenAIMessageSchema]) r"
    using parse_conforms [OF r] by (simp add: OpenAIInputSchema_def OpenAIMessagesSchema_def)
  then show ?thesis unfolding ms by (rule to_array_conforms) (rule openai_message_object)
qed

lemma openai_choice_message:
  assumes "conforms OpenAIChoiceSchema v"
  shows "\<exists>m. obj ''message'' v = Some m \<and> conforms OpenAIMessageSchema m"
  using get_field [OF assms [unfolded OpenAIChoiceSchema_def], of "''message''" OpenAIMessageSchema]
  by (auto simp: obj_def as_value_def OpenAIMessageSchema_def)

lemma openai_output_conforms:
  "\<exists>r. parseOpenAIOutput safeParse data = Some r \<and> (r \<noteq> None \<longleftrightarrow> safeParse OpenAIOutputSchema data \<noteq> None) \<and>
     (\<forall>ms. r = Some ms \<longrightarrow> (\<forall>m\<in>set ms. conforms OpenAIMessageSchema m))"
proof (cases "safeParse OpenAIOutputSchema data")
  case (Some r)
  have "conforms (ZUnion [OpenAIChoiceSchema, ZArray OpenAIChoiceSchema]) r"
    using parse_conforms [OF Some] by (simp add: OpenAIOutputSchema_def OpenAIChoicesSchema_def)
  then have choices: "\<forall>v\<in>set (to_array r). conforms OpenAIChoiceSchema v"
    by (rule to_array_conforms) (auto simp: OpenAIChoiceSchema_def to_array_def)
  have "map_js (obj ''message'') (to_array r) \<noteq> None"
    by (rule map_js_total) (use choices openai_choice_message in blast)
  then obtain ms where ms: "map_js (obj ''message'') (to_array r) = Some ms" by blast
  moreover have "\<forall>m\<in>set ms. conforms OpenAIMessageSchema m"
    using map_js_set [OF ms] choices openai_choice_message by (metis option.inject)
  ultimately show ?thesis using Some by (simp add: parseOpenAIOutput_def)
qed (simp add: parseOpenAIOutput_def)

end

text \<open>No function of the adapter throws, whatever the payload.\<close>

lemma openai_parts_total:
  assumes "\<forall>p\<in>set ps. conforms openai_user_part_schema p"
  shows "openai_text_of_parts ps \<noteq> None"
proof -
  have part: "get_is ''type'' ''text'' p \<noteq> None" "get_is ''type'' ''text'' p = Some True \<Longrightarrow> str ''text'' p \<noteq> None"
    if "conforms openai_user_part_schema p" for p
    using that by (auto simp: openai_user_part_schema_def openai_schemas reading split: option.splits)
  have "filter_js (get_is ''type'' ''text'') ps \<noteq> None"
    by (rule filter_js_total) (use assms part in blast)
  then obtain ts where ts: "filter_js (get_is ''type'' ''text'') ps = Some ts" by blast
  have "map_js (str ''text'') ts \<noteq> None"
    by (rule map_js_total) (use filter_js_set [OF ts] assms part in blast)
  then show ?thesis by (simp add: openai_text_of_parts_def ts)
qed

lemma openai_role_total: "conforms OpenAIMessageSchema m \<Longrightarrow> get_is ''role'' r m \<noteq> None"
  by (erule openai_message_cases) (auto simp: get_is_def dest: openai_system_message(1) openai_user_message(1)
      openai_assistant_message(1) openai_tool_message(1) openai_computer_message(1))

lemma openai_role_is:
  assumes "conforms OpenAIMessageSchema m" "get_is ''role'' r m = Some True"
  shows "r = ''user'' \<Longrightarrow> conforms OpenAIUserMessageSchema m" "r = ''system'' \<Longrightarrow> conforms OpenAISystemMessageSchema m"
  using assms(2) by (rule_tac [!] openai_message_cases [OF assms(1)])
    (auto simp: get_is_def dest: openai_system_message(1) openai_user_message(1)
      openai_assistant_message(1) openai_tool_message(1) openai_computer_message(1))

lemma openai_first_user_total:
  assumes "\<forall>m\<in>set ms. conforms OpenAIMessageSchema m"
  shows "openai_first_user ms \<noteq> None"
proof -
  have "find_js (get_is ''role'' ''user'') ms \<noteq> None"
    by (rule find_js_total) (use assms openai_role_total in blast)
  then obtain u where u: "find_js (get_is ''role'' ''user'') ms = Some u" by blast
  show ?thesis
  proof (cases u)
    case (Some m)
    then have "conforms OpenAIUserMessageSchema m"
      using find_js_Some [of _ ms m] u assms openai_role_is(1) by blast
    then show ?thesis
      using openai_user_message [of m] openai_parts_total by (auto simp: openai_first_user_def u Some as_array_def)
  qed (simp add: openai_first_user_def u)
qed

lemma openai_system_content:
  assumes "conforms OpenAISystemMessageSchema m"
  shows "(\<exists>t. get ''content'' m = Some (Some (JStr t))) \<or>
    (\<exists>ps. get ''content'' m = Some (Some (JArr ps)) \<and> (\<forall>p\<in>set ps. conforms openai_user_part_schema p))"
  using get_field [OF assms [unfolded OpenAISystemMessageSchema_def], of "''content''" "ZUnion [ZString, ZArray OpenAITextPartSchema]"]
  by (auto simp: openai_user_part_schema_def)

context zod begin

lemma openai_input_total: "parseSystemAndUserOpenAI safeParse data \<noteq> None"
proof (cases "parseOpenAIInput safeParse data")
  case (Some ms)
  note conf = openai_input_conforms [OF Some]
  have "find_js (get_is ''role'' ''system'') ms \<noteq> None"
    by (rule find_js_total) (use conf openai_role_total in blast)
  then obtain sm where sm: "find_js (get_is ''role'' ''system'') ms = Some sm" by blast
  obtain us where us: "openai_first_user ms = Some us" using openai_first_user_total [OF conf] by blast
  show ?thesis
  proof (cases sm)
    case None
    then show ?thesis by (simp add: parseSystemAndUserOpenAI_def Some sm us)
  next
    case sys: (Some m)
    then have "conforms OpenAISystemMessageSchema m"
      using find_js_Some [of _ ms m] sm conf openai_role_is(2) by blast
    then show ?thesis
      using openai_system_content [of m] openai_parts_total
      by (fastforce simp: parseSystemAndUserOpenAI_def Some sm sys us as_array_def)
  qed
qed (simp add: parseSystemAndUserOpenAI_def)

lemma openai_part_text_total: "parsed_str safeParse OpenAITextPartSchema ''text'' p \<noteq> None"
proof (cases "safeParse OpenAITextPartSchema p")
  case (Some r)
  have "\<exists>t. str ''text'' r = Some t"
    using get_field [OF parse_conforms [OF Some, unfolded OpenAITextPartSchema_def], of "''text''" ZString]
    by (auto simp: str_def as_string_def)
  then show ?thesis using Some by (auto simp: parsed_str_def)
qed (simp add: parsed_str_def)

lemma openai_render_total:
  "\<exists>r. renderOutputTextOpenAI safeParse data = Some r \<and> (r \<noteq> None \<longleftrightarrow> safeParse OpenAIOutputSchema data \<noteq> None)"
proof -
  obtain r where r: "parseOpenAIOutput safeParse data = Some r" "r \<noteq> None \<longleftrightarrow> safeParse OpenAIOutputSchema data \<noteq> None"
    and conf: "\<forall>ms. r = Some ms \<longrightarrow> (\<forall>m\<in>set ms. conforms OpenAIMessageSchema m)"
    using openai_output_conforms [of data] by (elim exE conjE) (rule that)
  have content: "renderOpenAIMessage safeParse m \<noteq> None" if "conforms OpenAIMessageSchema m" for m
  proof -
    have "map_js (parsed_str safeParse OpenAITextPartSchema ''text'') ps \<noteq> None" for ps
      by (rule map_js_total) (rule openai_part_text_total)
    moreover have "get ''content'' m \<noteq> None"
      using openai_other_message(2) [OF that] openai_user_message(2) [of m] by blast
    ultimately obtain c where "get ''content'' m = Some c"
      and "\<And>ps. \<exists>ts. map_js (parsed_str safeParse OpenAITextPartSchema ''text'') ps = Some ts" by blast
    then show ?thesis by (cases c rule: json_option_cases) (auto simp: renderOpenAIMessage_def)
  qed
  have "map_js (renderOpenAIMessage safeParse) ms \<noteq> None" if "r = Some ms" for ms
    by (rule map_js_total) (use conf that content in blast)
  then show ?thesis using r by (cases r) (auto simp: renderOutputTextOpenAI_def)
qed

lemma loose_openai_message:
  assumes "conforms LooseOpenAIAssistantSchema m"
  shows "get ''content'' m \<noteq> None"
    and "(\<exists>tcs. get ''tool_calls'' m = Some (Some (JArr tcs)) \<and> (\<forall>t\<in>set tcs. conforms LooseOpenAIToolCallSchema t)) \<or>
      get ''tool_calls'' m = Some None \<or> get ''tool_calls'' m = Some (Some JNull)"
proof -
  note field = get_field [OF assms [unfolded LooseOpenAIAssistantSchema_def]]
  show "get ''content'' m \<noteq> None"
    using field [of "''content''" "ZOptional (ZUnion [ZString, ZArray ZUnknown, ZNull])"] by auto
  show "(\<exists>tcs. get ''tool_calls'' m = Some (Some (JArr tcs)) \<and> (\<forall>t\<in>set tcs. conforms LooseOpenAIToolCallSchema t)) \<or>
      get ''tool_calls'' m = Some None \<or> get ''tool_calls'' m = Some (Some JNull)"
    using field [of "''tool_calls''" "ZOptional (ZNullable (ZArray LooseOpenAIToolCallSchema))"] by auto
qed

lemma openai_tools_total: "extractToolsIfToolOnlyOpenAI safeParse data \<noteq> None"
proof (cases "safeParse LooseOpenAIOutputSchema data")
  case (Some r)
  have "conforms (ZUnion [LooseOpenAIChoiceSchema, ZArray LooseOpenAIChoiceSchema]) r"
    using parse_conforms [OF Some] by (simp add: LooseOpenAIOutputSchema_def)
  then have choices: "\<forall>v\<in>set (to_array r). conforms LooseOpenAIChoiceSchema v"
    by (rule to_array_conforms) (auto simp: LooseOpenAIChoiceSchema_def to_array_def)
  have choice: "\<exists>m. obj ''message'' v = Some m \<and> conforms LooseOpenAIAssistantSchema m"
    if "conforms LooseOpenAIChoiceSchema v" for v
    using get_field [OF that [unfolded LooseOpenAIChoiceSchema_def], of "''message''" LooseOpenAIAssistantSchema]
    by (auto simp: obj_def as_value_def LooseOpenAIAssistantSchema_def)
  have "map_js (obj ''message'') (to_array r) \<noteq> None"
    by (rule map_js_total) (use choices choice in blast)
  then obtain ms where ms: "map_js (obj ''message'') (to_array r) = Some ms" by blast
  have conf: "conforms LooseOpenAIAssistantSchema m" if "m \<in> set ms" for m
    using map_js_set [OF ms that] choices choice by (metis option.inject)
  have part: "(if \<not> is_object p then Some False else do { text \<leftarrow> get_is ''type'' ''text'' p; t \<leftarrow> get ''text'' p;
      Some (text \<and> \<not> isBlank t) }) \<noteq> None" for p
    by (cases p) (auto simp: is_object_def reading)
  have shown: "openaiHasText m \<noteq> None" if m: "m \<in> set ms" for m
  proof -
    obtain c where "get ''content'' m = Some c" using loose_openai_message(1) [OF conf [OF m]] by blast
    then show ?thesis using some_js_total [OF part]
      by (cases c rule: json_option_cases) (simp_all add: openaiHasText_def)
  qed
  have call: "openai_tool t \<noteq> None" if "conforms LooseOpenAIToolCallSchema t" for t
    using that by (auto simp: LooseOpenAIToolCallSchema_def openai_tool_def reading split: option.splits)
  have "map_js openai_tool tcs \<noteq> None" if "\<forall>t\<in>set tcs. conforms LooseOpenAIToolCallSchema t" for tcs
    by (rule map_js_total) (use that call in blast)
  then have "openai_tools m \<noteq> None" if "m \<in> set ms" for m
    using loose_openai_message(2) [OF conf [OF that]] by (auto simp: openai_tools_def)
  then have "map_js openai_tools ms \<noteq> None" by (rule map_js_total)
  moreover have "some_js openaiHasText ms \<noteq> None" using shown by (rule some_js_total)
  ultimately show ?thesis by (auto simp: extractToolsIfToolOnlyOpenAI_def parseLooseOpenAI_def Some ms)
qed (simp add: extractToolsIfToolOnlyOpenAI_def parseLooseOpenAI_def)

end

section \<open>Names of tools\<close>

text \<open>The tool calls a message enters into the store: those of an assistant whose content is no text.\<close>

definition openai_call_name :: "json \<Rightarrow> (string \<times> string) option" where
  "openai_call_name tc = do { i \<leftarrow> str ''id'' tc; f \<leftarrow> obj ''function'' tc; n \<leftarrow> str ''name'' f; Some (i, n) }"

definition openai_calls :: "json \<Rightarrow> (string \<times> string) list" where
  "openai_calls m = (case (str ''role'' m, get ''content'' m, arr_or_empty ''tool_calls'' m) of
     (Some role, Some c, Some tcs) \<Rightarrow>
       if role = ''assistant'' \<and> as_string c = None then List.map_filter openai_call_name tcs else []
   | _ \<Rightarrow> [])"

lemma openai_tool_calls_enter:
  "map_state openai_tool_call tcs names = Some (cs, names') \<Longrightarrow> names' = enter_names (List.map_filter openai_call_name tcs) names"
proof (induction tcs arbitrary: names cs)
  case (Cons tc tcs)
  then obtain c s1 cs' where c: "openai_tool_call tc names = Some (c, s1)"
    and rest: "map_state openai_tool_call tcs s1 = Some (cs', names')" by (auto split: bind_splits)
  obtain i n where "openai_call_name tc = Some (i, n)" "s1 = names(i \<mapsto> n)"
    using c by (auto simp: openai_tool_call_def openai_call_name_def split: bind_splits)
  then show ?case using Cons(1) [OF rest]
    by (simp add: List.map_filter_simps enter_names_simps(2) [symmetric] enter_names_append del: enter_names_simps)
qed (simp add: List.map_filter_simps)

lemma openai_message_enters:
  assumes "openai_message env m names = Some (c, names')"
  shows "names' = enter_names (openai_calls m) names"
proof -
  obtain role v where m: "str ''role'' m = Some role" "get ''content'' m = Some v"
    using assms by (auto simp: openai_message_def split: bind_splits)
  show ?thesis
  proof (cases "role = ''assistant''")
    case True
    then show ?thesis
    proof (cases "as_string v")
      case None
      then obtain ps texts tcs cs where "arr_or_empty ''tool_calls'' m = Some tcs"
        "map_state openai_tool_call tcs names = Some (cs, names')"
        using assms True m
        by (cases v rule: json_option_cases) (auto simp: openai_message_def as_string_def split: bind_splits)
      then show ?thesis using True m None by (simp add: openai_calls_def openai_tool_calls_enter)
    next
      case (Some t)
      then have "v = Some (JStr t)" by (cases v rule: json_option_cases) (auto simp: as_string_def)
      then show ?thesis using assms True m Some
        by (auto simp: openai_message_def openai_calls_def split: option.splits)
    qed
  next
    case False
    then have "openai_calls m = []" using m by (auto simp: openai_calls_def split: option.splits)
    moreover have "names' = names"
      using assms False m
      by (cases v rule: json_option_cases) (auto simp: openai_message_def as_array_def split: if_splits bind_splits)
    ultimately show ?thesis by simp
  qed
qed

text \<open>Downloading images leaves everything but the content of user messages as it is.\<close>

lemma openai_download_keeps:
  assumes "openai_download_message env m = Some d"
  shows "str ''role'' m = Some ''user'' \<or> d = m"
  using assms
  by (auto simp: openai_download_message_def get_is_def str_def as_string_def split: bind_splits option.splits json.splits if_splits)

lemma openai_calls_download:
  assumes "openai_download_message env m = Some d"
  shows "openai_calls d = openai_calls m"
proof (cases "d = m")
  case False
  then have user: "str ''role'' m = Some ''user''" using openai_download_keeps [OF assms] by blast
  moreover have "str ''role'' d = Some ''user''"
    using assms False user
    by (auto simp: openai_download_message_def reading set_key_def spread_def update_conv'
        split: bind_splits option.splits json.splits if_splits)
  ultimately show ?thesis by (auto simp: openai_calls_def split: option.splits)
qed simp

lemma openai_converted_nth:
  assumes "convertOpenAIToPlaygroundMessages env ms = Some out" "i < length ms" "str ''role'' (ms ! i) \<noteq> Some ''user''"
  shows "\<exists>c names'. openai_message env (ms ! i) (last_name (concat (map openai_calls (take i ms)))) = Some (c, names')
    \<and> out ! i = playground_message c"
proof -
  obtain ds cs t where ds: "map_js (openai_download_message env) ms = Some ds"
    and cs: "map_state (openai_message env) ds Map.empty = Some (cs, t)" and out: "out = map playground_message cs"
    using assms(1) by (auto simp: convertOpenAIToPlaygroundMessages_def downloadOpenAIImages_def
        convertOpenAIToChatMessages_def split: bind_splits)
  have len: "length ds = length ms" "length cs = length ms"
    using map_js_length [OF ds] map_state_length [OF cs] by simp_all
  have "openai_download_message env (ms ! i) = Some (ds ! i)" by (rule map_js_nth [OF ds assms(2)])
  then have same: "ds ! i = ms ! i" using openai_download_keeps assms(3) by blast
  have "map openai_calls ds = map openai_calls ms"
    by (rule map_js_map [OF ds]) (rule openai_calls_download)
  then have calls: "map openai_calls (take i ds) = map openai_calls (take i ms)" by (metis take_map)
  have "\<exists>names'. openai_message env (ds ! i) (fold (\<lambda>x. enter_names (openai_calls x)) (take i ds) Map.empty)
      = Some (cs ! i, names')"
    by (rule map_state_nth [OF cs]) (use assms(2) len in simp, rule openai_message_enters)
  then show ?thesis using same assms(2) len by (auto simp: fold_enter_names calls enter_names_empty out)
qed

text \<open>
  Claim C15. When OpenAI messages are converted for the playground, a tool result bears the name of the latest tool
  call with its identifier among the calls of the messages before it, or the identifier when no such call (or one
  with an empty name) was entered; its output is the content of the message.
\<close>
theorem openai_tool_results_named:
  assumes "convertOpenAIToPlaygroundMessages env ms = Some out" "i < length ms"
    and "str ''role'' (ms ! i) = Some ''tool''" "str ''tool_call_id'' (ms ! i) = Some tid" "tid \<noteq> []"
  shows "\<exists>result. out ! i = \<lparr>mrole = Some ''tool'', mcontent = Parts [ToolResultPart tid
      (Some (or_text (last_name (concat (map openai_calls (take i ms))) tid) tid)) result]\<rparr>
    \<and> (\<forall>t. str ''content'' (ms ! i) = Some t \<longrightarrow> result = OutText t)"
proof -
  obtain c names' where c: "openai_message env (ms ! i) (last_name (concat (map openai_calls (take i ms)))) = Some (c, names')"
    "out ! i = playground_message c"
    using openai_converted_nth [OF assms(1,2)] assms(3) by auto
  have "opt_str ''tool_call_id'' (ms ! i) = Some (Some tid)"
    using assms(4) by (auto simp: reading split: option.splits json.splits)
  then show ?thesis
    using c assms(3,5)
    by (auto simp: openai_message_def or_str_def or_text_def playground_message_def str_def as_string_def
        split: bind_splits option.splits json.splits)
qed

definition weather_call :: json where
  "weather_call = JObj [(''id'', JStr ''c1''), (''type'', JStr ''function''),
     (''function'', JObj [(''name'', JStr ''weather''), (''arguments'', JStr ''{}'')])]"

definition weather_result :: json where
  "weather_result = JObj [(''role'', JStr ''tool''), (''content'', JStr ''sunny''), (''tool_call_id'', JStr ''c1'')]"

lemmas openai_run = convertOpenAIToPlaygroundMessages_def downloadOpenAIImages_def openai_download_message_def
  convertOpenAIToChatMessages_def openai_message_def openai_tool_call_def reading map_js_def playground_message_def
  or_text_def or_str_def weather_call_def weather_result_def openai_calls_def openai_call_name_def last_name_def
  List.map_filter_simps

theorem openai_tool_results_named_witness:
  "\<exists>result. map playground_message [\<lparr>mrole = Some ''assistant'', mcontent = Parts [ToolCallPart ''c1'' ''weather'' (InJson ''{}'') None]\<rparr>,
       \<lparr>mrole = Some ''tool'', mcontent = Parts [ToolResultPart ''c1'' (Some ''weather'') (OutText ''sunny'')]\<rparr>] ! 1
     = \<lparr>mrole = Some ''tool'', mcontent = Parts [ToolResultPart ''c1'' (Some ''weather'') result]\<rparr>"
  using openai_tool_results_named [of offline_env
      "[JObj [(''role'', JStr ''assistant''), (''content'', JNull), (''tool_calls'', JArr [weather_call])], weather_result]"
      "map playground_message [\<lparr>mrole = Some ''assistant'', mcontent = Parts [ToolCallPart ''c1'' ''weather'' (InJson ''{}'') None]\<rparr>,
       \<lparr>mrole = Some ''tool'', mcontent = Parts [ToolResultPart ''c1'' (Some ''weather'') (OutText ''sunny'')]\<rparr>]" 1 "''c1''"]
  by (simp add: openai_run)

text \<open>
  An assistant message of OpenAI whose content is a text loses its tool calls in the conversion: whatever
  they are, the converted message holds the text only, and the store of tool names does not learn of them.
\<close>
lemma openai_text_drops_calls:
  assumes "convertOpenAIToPlaygroundMessages env ms = Some out" "i < length ms"
    and "str ''role'' (ms ! i) = Some ''assistant''" "str ''content'' (ms ! i) = Some t"
  shows "out ! i = \<lparr>mrole = Some ''assistant'', mcontent = Parts [TextPart t None]\<rparr> \<and> openai_calls (ms ! i) = []"
proof -
  have content: "get ''content'' (ms ! i) = Some (Some (JStr t))"
    using assms(4) by (auto simp: str_def as_string_def split: bind_splits option.splits json.splits)
  obtain c names' where c: "openai_message env (ms ! i) (last_name (concat (map openai_calls (take i ms)))) = Some (c, names')"
    "out ! i = playground_message c"
    using openai_converted_nth [OF assms(1,2)] assms(3) by auto
  then show ?thesis using assms(3) content
    by (auto simp: openai_message_def openai_calls_def as_string_def playground_message_def split: option.splits)
qed

theorem openai_text_drops_calls_witness:
  "map playground_message [\<lparr>mrole = Some ''assistant'', mcontent = Content ''Let me look.''\<rparr>,
       \<lparr>mrole = Some ''tool'', mcontent = Parts [ToolResultPart ''c1'' (Some ''c1'') (OutText ''sunny'')]\<rparr>] ! 0
     = \<lparr>mrole = Some ''assistant'', mcontent = Parts [TextPart ''Let me look.'' None]\<rparr>"
  using openai_text_drops_calls [of offline_env
      "[JObj [(''role'', JStr ''assistant''), (''content'', JStr ''Let me look.''), (''tool_calls'', JArr [weather_call])], weather_result]"
      "map playground_message [\<lparr>mrole = Some ''assistant'', mcontent = Content ''Let me look.''\<rparr>,
       \<lparr>mrole = Some ''tool'', mcontent = Parts [ToolResultPart ''c1'' (Some ''c1'') (OutText ''sunny'')]\<rparr>]" 0 "''Let me look.''"]
  by (simp add: openai_run)

end
