(* ===== verification/ResponsesItems.thy ===== *)
theory ResponsesItems
  imports Messages
begin

text \<open>
  The items of the OpenAI Responses API (\<open>lib/spans/types/openai-responses.ts\<close>) and their adapter
  (\<open>lib/spans/providers/openai-responses.ts\<close>).
\<close>

section \<open>Schemas\<close>

definition StatusEnumSchema :: schema where
  "StatusEnumSchema =
     ZEnum [''in_progress'', ''completed'', ''incomplete'']"

definition OpenAIResponsesInputTextPartSchema :: schema where
  "OpenAIResponsesInputTextPartSchema =
     z_object [(''type'', ZLiteral ''input_text''), (''text'', ZString)]"

definition OpenAIResponsesInputImagePartSchema :: schema where
  "OpenAIResponsesInputImagePartSchema =
     z_object [(''type'', ZLiteral ''input_image''), (''image_url'', z_nullish ZString),
       (''file_id'', z_nullish ZString), (''detail'', z_nullish (ZEnum [''low'', ''high'', ''auto'',
       ''original'']))]"

definition OpenAIResponsesInputFilePartSchema :: schema where
  "OpenAIResponsesInputFilePartSchema =
     z_object [(''type'', ZLiteral ''input_file''), (''file_data'', z_nullish ZString),
       (''file_id'', z_nullish ZString), (''file_url'', z_nullish ZString), (''filename'', z_nullish ZString)]"

definition OpenAIResponsesFileCitationSchema :: schema where
  "OpenAIResponsesFileCitationSchema =
     z_object [(''type'', ZLiteral ''file_citation''), (''file_id'', ZString), (''filename'', ZString),
       (''index'', ZNumber)]"

definition OpenAIResponsesURLCitationSchema :: schema where
  "OpenAIResponsesURLCitationSchema =
     z_object [(''type'', ZLiteral ''url_citation''), (''end_index'', ZNumber), (''start_index'', ZNumber),
       (''title'', ZString), (''url'', ZString)]"

definition OpenAIResponsesContainerFileCitationSchema :: schema where
  "OpenAIResponsesContainerFileCitationSchema =
     z_object [(''type'', ZLiteral ''container_file_citation''), (''container_id'', ZString),
       (''end_index'', ZNumber), (''file_id'', ZString), (''filename'', ZString), (''start_index'', ZNumber)]"

definition OpenAIResponsesFilePathAnnotationSchema :: schema where
  "OpenAIResponsesFilePathAnnotationSchema =
     z_object [(''type'', ZLiteral ''file_path''), (''file_id'', ZString), (''index'', ZNumber)]"

definition OpenAIResponsesOutputTextAnnotationSchema :: schema where
  "OpenAIResponsesOutputTextAnnotationSchema =
     ZUnion [OpenAIResponsesFileCitationSchema, OpenAIResponsesURLCitationSchema,
       OpenAIResponsesContainerFileCitationSchema, OpenAIResponsesFilePathAnnotationSchema]"

definition OpenAIResponsesLogprobSchema :: schema where
  "OpenAIResponsesLogprobSchema =
     z_object [(''token'', ZString), (''bytes'', ZArray ZNumber), (''logprob'', ZNumber),
       (''top_logprobs'', ZArray (z_object [(''token'', ZString), (''bytes'', ZArray ZNumber),
       (''logprob'', ZNumber)]))]"

definition OpenAIResponsesOutputTextPartSchema :: schema where
  "OpenAIResponsesOutputTextPartSchema =
     z_object [(''type'', ZLiteral ''output_text''), (''text'', ZString),
       (''annotations'', z_nullish (ZArray OpenAIResponsesOutputTextAnnotationSchema)),
       (''logprobs'', z_nullish (ZArray OpenAIResponsesLogprobSchema))]"

definition OpenAIResponsesRefusalPartSchema :: schema where
  "OpenAIResponsesRefusalPartSchema =
     z_object [(''type'', ZLiteral ''refusal''), (''refusal'', ZString)]"

definition OpenAIResponsesContentPartSchema :: schema where
  "OpenAIResponsesContentPartSchema =
     ZUnion [OpenAIResponsesInputTextPartSchema, OpenAIResponsesInputImagePartSchema,
       OpenAIResponsesInputFilePartSchema, OpenAIResponsesOutputTextPartSchema,
       OpenAIResponsesRefusalPartSchema]"

definition OpenAIResponsesMessageItemSchema :: schema where
  "OpenAIResponsesMessageItemSchema =
     z_object [(''type'', ZOptional (ZLiteral ''message'')), (''role'', ZEnum [''user'', ''assistant'',
       ''system'', ''developer'']), (''content'', ZUnion [ZString, ZArray OpenAIResponsesContentPartSchema]),
       (''id'', ZOptional ZString), (''status'', z_nullish StatusEnumSchema),
       (''phase'', z_nullish (ZEnum [''commentary'', ''final_answer''])), (''created_by'', ZOptional ZString)]"

definition OpenAIResponsesReasoningSummarySchema :: schema where
  "OpenAIResponsesReasoningSummarySchema =
     z_object [(''type'', ZLiteral ''summary_text''), (''text'', ZString)]"

definition OpenAIResponsesReasoningContentSchema :: schema where
  "OpenAIResponsesReasoningContentSchema =
     z_object [(''type'', ZLiteral ''reasoning_text''), (''text'', ZString)]"

definition OpenAIResponsesReasoningItemSchema :: schema where
  "OpenAIResponsesReasoningItemSchema =
     z_object [(''type'', ZLiteral ''reasoning''), (''id'', ZOptional ZString),
       (''summary'', z_nullish (ZArray OpenAIResponsesReasoningSummarySchema)),
       (''content'', z_nullish (ZArray OpenAIResponsesReasoningContentSchema)),
       (''encrypted_content'', z_nullish ZString), (''status'', z_nullish StatusEnumSchema)]"

definition OpenAIResponsesFunctionCallItemSchema :: schema where
  "OpenAIResponsesFunctionCallItemSchema =
     z_object [(''type'', ZLiteral ''function_call''), (''id'', ZOptional ZString), (''call_id'', ZString),
       (''name'', ZString), (''arguments'', ZString), (''namespace'', z_nullish ZString),
       (''status'', z_nullish StatusEnumSchema)]"

definition OpenAIResponsesFunctionCallOutputContentSchema :: schema where
  "OpenAIResponsesFunctionCallOutputContentSchema =
     ZUnion [OpenAIResponsesInputTextPartSchema, OpenAIResponsesInputImagePartSchema,
       OpenAIResponsesInputFilePartSchema]"

definition OpenAIResponsesFunctionCallOutputItemSchema :: schema where
  "OpenAIResponsesFunctionCallOutputItemSchema =
     z_object [(''type'', ZLiteral ''function_call_output''), (''id'', z_nullish ZString),
       (''call_id'', ZString), (''output'', ZUnion [ZString,
       ZArray OpenAIResponsesFunctionCallOutputContentSchema]), (''status'', z_nullish StatusEnumSchema),
       (''created_by'', ZOptional ZString)]"

definition OpenAIResponsesWebSearchActionSchema :: schema where
  "OpenAIResponsesWebSearchActionSchema =
     ZUnion [z_object [(''type'', ZLiteral ''search''), (''query'', ZString),
       (''queries'', ZOptional (ZArray ZString)),
       (''sources'', ZOptional (ZArray (z_object [(''type'', ZLiteral ''url''), (''url'', ZString)])))],
       z_object [(''type'', ZLiteral ''open_page''), (''url'', z_nullish ZString)],
       z_object [(''type'', ZLiteral ''find_in_page''), (''pattern'', ZString), (''url'', ZString)]]"

definition OpenAIResponsesWebSearchCallItemSchema :: schema where
  "OpenAIResponsesWebSearchCallItemSchema =
     z_object [(''type'', ZLiteral ''web_search_call''), (''id'', ZString),
       (''status'', ZEnum [''in_progress'', ''searching'', ''completed'', ''failed'']),
       (''action'', ZOptional OpenAIResponsesWebSearchActionSchema)]"

definition OpenAIResponsesFileSearchResultSchema :: schema where
  "OpenAIResponsesFileSearchResultSchema =
     z_object [(''attributes'', z_nullish (ZRecord (ZUnion [ZString, ZNumber, ZBoolean]))),
       (''file_id'', ZOptional ZString), (''filename'', ZOptional ZString), (''score'', ZOptional ZNumber),
       (''text'', ZOptional ZString)]"

definition OpenAIResponsesFileSearchCallItemSchema :: schema where
  "OpenAIResponsesFileSearchCallItemSchema =
     z_object [(''type'', ZLiteral ''file_search_call''), (''id'', ZString), (''queries'', ZArray ZString),
       (''status'', ZEnum [''in_progress'', ''searching'', ''completed'', ''incomplete'', ''failed'']),
       (''results'', z_nullish (ZArray OpenAIResponsesFileSearchResultSchema))]"

definition OpenAIResponsesComputerActionSchema :: schema where
  "OpenAIResponsesComputerActionSchema =
     ZUnion [z_object [(''type'', ZLiteral ''click''), (''button'', ZEnum [''left'', ''right'', ''wheel'',
       ''back'', ''forward'']), (''x'', ZNumber), (''y'', ZNumber), (''keys'', z_nullish (ZArray ZString))],
       z_object [(''type'', ZLiteral ''double_click''), (''x'', ZNumber), (''y'', ZNumber),
       (''keys'', z_nullish (ZArray ZString))], z_object [(''type'', ZLiteral ''drag''),
       (''path'', ZArray (z_object [(''x'', ZNumber), (''y'', ZNumber)])),
       (''keys'', z_nullish (ZArray ZString))], z_object [(''type'', ZLiteral ''keypress''),
       (''keys'', ZArray ZString)], z_object [(''type'', ZLiteral ''move''), (''x'', ZNumber),
       (''y'', ZNumber), (''keys'', z_nullish (ZArray ZString))],
       z_object [(''type'', ZLiteral ''screenshot'')], z_object [(''type'', ZLiteral ''scroll''),
       (''scroll_x'', ZNumber), (''scroll_y'', ZNumber), (''x'', ZNumber), (''y'', ZNumber),
       (''keys'', z_nullish (ZArray ZString))], z_object [(''type'', ZLiteral ''type''), (''text'', ZString)],
       z_object [(''type'', ZLiteral ''wait'')]]"

definition OpenAIResponsesPendingSafetyCheckSchema :: schema where
  "OpenAIResponsesPendingSafetyCheckSchema =
     z_object [(''id'', ZString), (''code'', z_nullish ZString), (''message'', z_nullish ZString)]"

definition OpenAIResponsesComputerCallItemSchema :: schema where
  "OpenAIResponsesComputerCallItemSchema =
     z_object [(''type'', ZLiteral ''computer_call''), (''id'', ZString), (''call_id'', ZString),
       (''pending_safety_checks'', ZArray OpenAIResponsesPendingSafetyCheckSchema),
       (''status'', StatusEnumSchema), (''action'', ZOptional OpenAIResponsesComputerActionSchema),
       (''actions'', ZOptional (ZArray OpenAIResponsesComputerActionSchema))]"

definition OpenAIResponsesComputerScreenshotSchema :: schema where
  "OpenAIResponsesComputerScreenshotSchema =
     z_object [(''type'', ZLiteral ''computer_screenshot''), (''file_id'', ZOptional ZString),
       (''image_url'', ZOptional ZString)]"

definition OpenAIResponsesComputerCallOutputItemSchema :: schema where
  "OpenAIResponsesComputerCallOutputItemSchema =
     z_object [(''type'', ZLiteral ''computer_call_output''), (''id'', z_nullish ZString),
       (''call_id'', ZString), (''output'', OpenAIResponsesComputerScreenshotSchema),
       (''status'', z_nullish (ZEnum [''completed'', ''incomplete'', ''failed'', ''in_progress''])),
       (''acknowledged_safety_checks'', z_nullish (ZArray OpenAIResponsesPendingSafetyCheckSchema)),
       (''created_by'', ZOptional ZString)]"

definition OpenAIResponsesImageGenerationCallItemSchema :: schema where
  "OpenAIResponsesImageGenerationCallItemSchema =
     z_object [(''type'', ZLiteral ''image_generation_call''), (''id'', ZString),
       (''result'', ZNullable ZString), (''status'', ZEnum [''in_progress'', ''completed'', ''generating'',
       ''failed'']), (''output_format'', z_nullish (ZEnum [''png'', ''webp'', ''jpeg'']))]"

definition OpenAIResponsesCodeInterpreterLogsOutputSchema :: schema where
  "OpenAIResponsesCodeInterpreterLogsOutputSchema =
     z_object [(''type'', ZLiteral ''logs''), (''logs'', ZString)]"

definition OpenAIResponsesCodeInterpreterImageOutputSchema :: schema where
  "OpenAIResponsesCodeInterpreterImageOutputSchema =
     z_object [(''type'', ZLiteral ''image''), (''url'', ZString)]"

definition OpenAIResponsesCodeInterpreterOutputSchema :: schema where
  "OpenAIResponsesCodeInterpreterOutputSchema =
     ZUnion [OpenAIResponsesCodeInterpreterLogsOutputSchema, OpenAIResponsesCodeInterpreterImageOutputSchema]"

definition OpenAIResponsesCodeInterpreterCallItemSchema :: schema where
  "OpenAIResponsesCodeInterpreterCallItemSchema =
     z_object [(''type'', ZLiteral ''code_interpreter_call''), (''id'', ZString),
       (''code'', z_nullish ZString), (''container_id'', ZString),
       (''outputs'', z_nullish (ZArray OpenAIResponsesCodeInterpreterOutputSchema)),
       (''status'', ZEnum [''in_progress'', ''completed'', ''incomplete'', ''interpreting'', ''failed''])]"

definition OpenAIResponsesLocalShellActionSchema :: schema where
  "OpenAIResponsesLocalShellActionSchema =
     z_object [(''type'', ZLiteral ''exec''), (''command'', ZArray ZString), (''env'', ZRecord ZString),
       (''timeout_ms'', z_nullish ZNumber), (''user'', z_nullish ZString),
       (''working_directory'', z_nullish ZString)]"

definition OpenAIResponsesLocalShellCallItemSchema :: schema where
  "OpenAIResponsesLocalShellCallItemSchema =
     z_object [(''type'', ZLiteral ''local_shell_call''), (''id'', ZString), (''call_id'', ZString),
       (''action'', OpenAIResponsesLocalShellActionSchema), (''status'', StatusEnumSchema)]"

definition OpenAIResponsesLocalShellCallOutputItemSchema :: schema where
  "OpenAIResponsesLocalShellCallOutputItemSchema =
     z_object [(''type'', ZLiteral ''local_shell_call_output''), (''id'', ZString), (''output'', ZString),
       (''status'', z_nullish StatusEnumSchema)]"

definition OpenAIResponsesMCPCallItemSchema :: schema where
  "OpenAIResponsesMCPCallItemSchema =
     z_object [(''type'', ZLiteral ''mcp_call''), (''id'', ZString), (''server_label'', ZString),
       (''name'', ZString), (''arguments'', ZString), (''approval_request_id'', z_nullish ZString),
       (''error'', z_nullish ZString), (''output'', z_nullish ZString),
       (''status'', ZOptional (ZEnum [''in_progress'', ''completed'', ''incomplete'', ''calling'',
       ''failed'']))]"

definition OpenAIResponsesMCPToolSchema :: schema where
  "OpenAIResponsesMCPToolSchema =
     z_object [(''name'', ZString), (''input_schema'', ZUnknown), (''annotations'', z_nullish ZUnknown),
       (''description'', z_nullish ZString)]"

definition OpenAIResponsesMCPListToolsItemSchema :: schema where
  "OpenAIResponsesMCPListToolsItemSchema =
     z_object [(''type'', ZLiteral ''mcp_list_tools''), (''id'', ZString), (''server_label'', ZString),
       (''tools'', ZArray OpenAIResponsesMCPToolSchema), (''error'', z_nullish ZString)]"

definition OpenAIResponsesMCPApprovalRequestItemSchema :: schema where
  "OpenAIResponsesMCPApprovalRequestItemSchema =
     z_object [(''type'', ZLiteral ''mcp_approval_request''), (''id'', ZString), (''server_label'', ZString),
       (''name'', ZString), (''arguments'', ZString)]"

definition OpenAIResponsesMCPApprovalResponseItemSchema :: schema where
  "OpenAIResponsesMCPApprovalResponseItemSchema =
     z_object [(''type'', ZLiteral ''mcp_approval_response''), (''id'', ZOptional ZString),
       (''approval_request_id'', ZString), (''approve'', ZBoolean), (''reason'', z_nullish ZString)]"

definition OpenAIResponsesItemReferenceSchema :: schema where
  "OpenAIResponsesItemReferenceSchema =
     z_object [(''type'', ZLiteral ''item_reference''), (''id'', ZString)]"

definition OpenAIResponsesCustomToolCallSchema :: schema where
  "OpenAIResponsesCustomToolCallSchema =
     z_object [(''type'', ZLiteral ''custom_tool_call''), (''call_id'', ZString), (''input'', ZString),
       (''name'', ZString), (''id'', ZOptional ZString), (''namespace'', z_nullish ZString)]"

definition OpenAIResponsesCustomToolCallOutputSchema :: schema where
  "OpenAIResponsesCustomToolCallOutputSchema =
     z_object [(''type'', ZLiteral ''custom_tool_call_output''), (''id'', ZOptional ZString),
       (''call_id'', ZString), (''output'', ZUnion [ZString,
       ZArray (ZUnion [OpenAIResponsesInputTextPartSchema, OpenAIResponsesInputImagePartSchema,
       OpenAIResponsesInputFilePartSchema])]), (''status'', z_nullish StatusEnumSchema),
       (''created_by'', z_nullish ZString)]"

definition OpenAIResponsesItemSchema :: schema where
  "OpenAIResponsesItemSchema =
     ZUnion [OpenAIResponsesMessageItemSchema, OpenAIResponsesReasoningItemSchema,
       OpenAIResponsesFunctionCallItemSchema, OpenAIResponsesFunctionCallOutputItemSchema,
       OpenAIResponsesWebSearchCallItemSchema, OpenAIResponsesFileSearchCallItemSchema,
       OpenAIResponsesComputerCallItemSchema, OpenAIResponsesComputerCallOutputItemSchema,
       OpenAIResponsesImageGenerationCallItemSchema, OpenAIResponsesCodeInterpreterCallItemSchema,
       OpenAIResponsesLocalShellCallItemSchema, OpenAIResponsesLocalShellCallOutputItemSchema,
       OpenAIResponsesMCPCallItemSchema, OpenAIResponsesMCPListToolsItemSchema,
       OpenAIResponsesMCPApprovalRequestItemSchema, OpenAIResponsesMCPApprovalResponseItemSchema,
       OpenAIResponsesItemReferenceSchema, OpenAIResponsesCustomToolCallSchema,
       OpenAIResponsesCustomToolCallOutputSchema]"

definition OpenAIResponsesItemsSchema :: schema where
  "OpenAIResponsesItemsSchema =
     ZArray OpenAIResponsesItemSchema"

definition response_fields :: "(string \<times> schema) list" where
  "response_fields =
     [(''object'', ZLiteral ''response''), (''id'', ZOptional ZString),
       (''output'', ZArray OpenAIResponsesItemSchema), (''created_at'', z_nullish ZNumber),
       (''status'', z_nullish (ZEnum [''completed'', ''failed'', ''in_progress'', ''cancelled'', ''queued'',
       ''incomplete''])), (''error'', z_nullish (z_object [(''code'', z_nullish ZString),
       (''message'', z_nullish ZString)])),
       (''incomplete_details'', z_nullish (z_object [(''reason'', z_nullish ZString)])),
       (''instructions'', z_nullish (ZUnion [ZString, ZArray OpenAIResponsesItemSchema])),
       (''model'', z_nullish ZString), (''metadata'', z_nullish (ZRecord ZString)),
       (''usage'', z_nullish (z_object [(''input_tokens'', z_nullish ZNumber),
       (''input_tokens_details'', z_nullish (z_object [(''cached_tokens'', z_nullish ZNumber)])),
       (''output_tokens'', z_nullish ZNumber),
       (''output_tokens_details'', z_nullish (z_object [(''reasoning_tokens'', z_nullish ZNumber)])),
       (''total_tokens'', z_nullish ZNumber)])), (''temperature'', z_nullish ZNumber),
       (''top_p'', z_nullish ZNumber), (''top_logprobs'', z_nullish ZNumber),
       (''max_output_tokens'', z_nullish ZNumber), (''max_tool_calls'', z_nullish ZNumber),
       (''parallel_tool_calls'', z_nullish ZBoolean), (''previous_response_id'', z_nullish ZString),
       (''conversation'', z_nullish (ZUnion [ZString, z_object [(''id'', ZString)]])),
       (''tool_choice'', z_nullish ZUnknown), (''tools'', z_nullish (ZArray ZUnknown)),
       (''reasoning'', z_nullish (z_object [(''effort'', z_nullish (ZEnum [''minimal'', ''low'', ''medium'',
       ''high''])), (''summary'', z_nullish (ZEnum [''auto'', ''concise'', ''detailed''])),
       (''generate_summary'', z_nullish ZString)])),
       (''text'', z_nullish (z_object [(''format'', z_nullish ZUnknown),
       (''verbosity'', z_nullish (ZEnum [''low'', ''medium'', ''high'']))])),
       (''truncation'', z_nullish (ZEnum [''auto'', ''disabled''])), (''background'', z_nullish ZBoolean),
       (''store'', z_nullish ZBoolean), (''stream'', z_nullish ZBoolean),
       (''stream_options'', z_nullish (z_object [(''include_obfuscation'', z_nullish ZBoolean)])),
       (''include'', z_nullish (ZArray ZString)), (''service_tier'', z_nullish (ZEnum [''auto'', ''default'',
       ''flex'', ''scale'', ''priority''])), (''user'', z_nullish ZString),
       (''safety_identifier'', z_nullish ZString), (''prompt'', z_nullish (z_object [(''id'', ZString),
       (''variables'', z_nullish (ZRecord ZUnknown)), (''version'', z_nullish ZString)])),
       (''prompt_cache_key'', z_nullish ZString)]"

definition OpenAIResponsesResponseSchema :: schema where
  "OpenAIResponsesResponseSchema = z_object response_fields"

section \<open>Validation\<close>

definition parseOpenAIResponsesInput :: "(schema \<Rightarrow> json \<Rightarrow> json option) \<Rightarrow> json \<Rightarrow> json list option option" where
  "parseOpenAIResponsesInput sp data = (case data of
     JArr _ \<Rightarrow> (case sp OpenAIResponsesItemsSchema data of None \<Rightarrow> Some None | Some r \<Rightarrow> map_option Some (as_array (Some r)))
   | JObj _ \<Rightarrow> (case sp OpenAIResponsesItemSchema data of None \<Rightarrow> Some None | Some r \<Rightarrow> Some (Some [r]))
   | _ \<Rightarrow> Some None)"

text \<open>An object whose property \<open>output\<close> is an array.\<close>

definition has_output :: "json \<Rightarrow> bool" where
  "has_output data = (case data of JObj kvs \<Rightarrow> (case map_of kvs ''output'' of Some (JArr _) \<Rightarrow> True | _ \<Rightarrow> False) | _ \<Rightarrow> False)"

definition parseOpenAIResponsesOutput :: "(schema \<Rightarrow> json \<Rightarrow> json option) \<Rightarrow> json \<Rightarrow> json list option option" where
  "parseOpenAIResponsesOutput sp data =
     (case (if has_output data then sp OpenAIResponsesResponseSchema data else None) of
        Some r \<Rightarrow> map_option Some (arr ''output'' r)
      | None \<Rightarrow> parseOpenAIResponsesInput sp data)"

section \<open>Detection\<close>

definition RESPONSES_DISTINCTIVE_TYPES :: "string list" where
  "RESPONSES_DISTINCTIVE_TYPES = [''message'', ''reasoning'', ''function_call'', ''function_call_output'',
     ''web_search_call'', ''file_search_call'', ''computer_call'', ''computer_call_output'', ''image_generation_call'',
     ''code_interpreter_call'', ''local_shell_call'', ''local_shell_call_output'', ''mcp_call'', ''mcp_list_tools'',
     ''mcp_approval_request'', ''mcp_approval_response'', ''item_reference'', ''custom_tool_call'', ''custom_tool_call_output'']"

definition RESPONSES_CONTENT_PART_TYPES :: "string list" where
  "RESPONSES_CONTENT_PART_TYPES = [''input_text'', ''input_image'', ''input_file'', ''output_text'', ''refusal'']"

definition responses_part :: "json \<Rightarrow> bool" where
  "responses_part p = (case p of
     JObj kvs \<Rightarrow> \<exists>t\<in>set RESPONSES_CONTENT_PART_TYPES. map_of kvs ''type'' = Some (JStr t)
   | _ \<Rightarrow> False)"

definition isDistinctivelyResponses :: "json \<Rightarrow> bool" where
  "isDistinctivelyResponses item = (case item of
     JObj kvs \<Rightarrow>
       (\<exists>t\<in>set RESPONSES_DISTINCTIVE_TYPES. t \<noteq> ''message'' \<and> map_of kvs ''type'' = Some (JStr t)) \<or>
       (case map_of kvs ''content'' of Some (JArr ps) \<Rightarrow> \<exists>p\<in>set ps. responses_part p | _ \<Rightarrow> False)
   | _ \<Rightarrow> False)"

definition detectResponses :: "(schema \<Rightarrow> json \<Rightarrow> json option) \<Rightarrow> json \<Rightarrow> bool" where
  "detectResponses sp data =
     (if has_output data \<and> sp OpenAIResponsesResponseSchema data \<noteq> None then True
      else case data of
        JArr vs \<Rightarrow> (\<exists>v\<in>set vs. isDistinctivelyResponses v) \<and> sp OpenAIResponsesItemsSchema data \<noteq> None
      | _ \<Rightarrow> isDistinctivelyResponses data \<and> sp OpenAIResponsesItemSchema data \<noteq> None)"

section \<open>Texts\<close>

definition isMessageItem :: "json \<Rightarrow> bool option" where
  "isMessageItem item = do {
     m \<leftarrow> get_is ''type'' ''message'' item;
     r \<leftarrow> get ''role'' item;
     Some (m \<or> as_string r \<noteq> None)
   }"

definition partText :: "json \<Rightarrow> string option" where
  "partText p = (case p of
     JObj kvs \<Rightarrow> if map_of kvs ''type'' \<in> {Some (JStr ''input_text''), Some (JStr ''output_text'')}
       then as_string (map_of kvs ''text'') else None
   | _ \<Rightarrow> None)"

definition collectMessageText :: "json \<Rightarrow> string list option" where
  "collectMessageText m = map_option (\<lambda>c. case c of
       Some (JStr s) \<Rightarrow> filter (\<lambda>t. t \<noteq> []) [s]
     | Some (JArr ps) \<Rightarrow> filter (\<lambda>t. t \<noteq> []) (List.map_filter partText ps)
     | _ \<Rightarrow> []) (get ''content'' m)"

text \<open>One turn of the loop over the items: the system text and the parts of the user found so far.\<close>

definition responses_input_step :: "json \<Rightarrow> string option \<times> string list \<Rightarrow> (string option \<times> string list) option" where
  "responses_input_step item st = do {
     message \<leftarrow> isMessageItem item;
     sys \<leftarrow> get_is ''role'' ''system'' item;
     dev \<leftarrow> get_is ''role'' ''developer'' item;
     user \<leftarrow> get_is ''role'' ''user'' item;
     texts \<leftarrow> collectMessageText item;
     Some (if \<not> message then st
       else if sys \<or> dev then (if texts \<noteq> [] \<and> fst st = None then Some (join [CHR 10] texts) else fst st, snd st)
       else if user \<and> snd st = [] then (fst st, texts)
       else st)
   }"

definition parseSystemAndUserResponses :: "(schema \<Rightarrow> json \<Rightarrow> json option) \<Rightarrow> json \<Rightarrow> parsed_input option option" where
  "parseSystemAndUserResponses sp data = do {
     items \<leftarrow> parseOpenAIResponsesInput sp data;
     (case items of
        None \<Rightarrow> Some None
      | Some vs \<Rightarrow> do {
          st \<leftarrow> loop_js responses_input_step vs (None, []);
          Some (if fst st = None \<and> snd st = [] then None else Some \<lparr>systemText = fst st, userParts = snd st\<rparr>) })
   }"

definition responses_text :: "json \<Rightarrow> string list option" where
  "responses_text item = do {
     message \<leftarrow> isMessageItem item;
     texts \<leftarrow> collectMessageText item;
     Some (if message \<and> texts \<noteq> [] then [join [CHR 10] texts] else [])
   }"

definition renderOutputTextResponses :: "(schema \<Rightarrow> json \<Rightarrow> json option) \<Rightarrow> json \<Rightarrow> string option option" where
  "renderOutputTextResponses sp data = do {
     items \<leftarrow> parseOpenAIResponsesOutput sp data;
     (case items of
        None \<Rightarrow> Some None
      | Some vs \<Rightarrow> do {
          rendered \<leftarrow> map_option concat (map_js responses_text vs);
          Some (if rendered = [] then None else Some (joinNonEmpty (map Some rendered))) })
   }"

definition openaiResponsesAdapter :: "(schema \<Rightarrow> json \<Rightarrow> json option) \<Rightarrow> adapter" where
  "openaiResponsesAdapter sp = \<lparr>adapter_id = HResponses,
     detects = (\<lambda>data. Some (detectResponses sp data)),
     parseSystemAndUser = Some (parseSystemAndUserResponses sp),
     renderOutputText = Some (renderOutputTextResponses sp),
     extractTools = None\<rparr>"

section \<open>The adapter never throws\<close>

lemmas responses_item_schemas = OpenAIResponsesMessageItemSchema_def OpenAIResponsesReasoningItemSchema_def
  OpenAIResponsesFunctionCallItemSchema_def OpenAIResponsesFunctionCallOutputItemSchema_def
  OpenAIResponsesWebSearchCallItemSchema_def OpenAIResponsesFileSearchCallItemSchema_def
  OpenAIResponsesComputerCallItemSchema_def OpenAIResponsesComputerCallOutputItemSchema_def
  OpenAIResponsesImageGenerationCallItemSchema_def OpenAIResponsesCodeInterpreterCallItemSchema_def
  OpenAIResponsesLocalShellCallItemSchema_def OpenAIResponsesLocalShellCallOutputItemSchema_def
  OpenAIResponsesMCPCallItemSchema_def OpenAIResponsesMCPListToolsItemSchema_def
  OpenAIResponsesMCPApprovalRequestItemSchema_def OpenAIResponsesMCPApprovalResponseItemSchema_def
  OpenAIResponsesItemReferenceSchema_def OpenAIResponsesCustomToolCallSchema_def
  OpenAIResponsesCustomToolCallOutputSchema_def

lemma conforms_object: "conforms (ZObject m fs) v \<Longrightarrow> distinct (map fst fs) \<Longrightarrow> \<exists>kvs. v = JObj kvs"
  by auto

lemma responses_item_object:
  assumes "conforms OpenAIResponsesItemSchema item"
  obtains kvs where "item = JObj kvs"
proof -
  have "list_ex (\<lambda>s. conforms s item) ss \<Longrightarrow> (\<And>s. s \<in> set ss \<Longrightarrow> conforms s item \<Longrightarrow> \<exists>kvs. item = JObj kvs) \<Longrightarrow> \<exists>kvs. item = JObj kvs" for ss
    by (auto simp: list_ex_iff)
  note some = this [OF assms [unfolded OpenAIResponsesItemSchema_def conforms.simps]]
  have "\<exists>kvs. item = JObj kvs"
    by (rule some) (simp only: list.set insert_iff empty_iff, elim disjE; simp only: responses_item_schemas;
        erule conforms_object; simp)
  then show thesis using that by blast
qed

lemma response_fields:
  "distinct (map fst response_fields)" "(''output'', ZArray OpenAIResponsesItemSchema) \<in> set response_fields"
  by (simp_all add: response_fields_def)

lemma responses_item_total:
  assumes "conforms OpenAIResponsesItemSchema item"
  shows "responses_input_step item st \<noteq> None" "responses_text item \<noteq> None"
  using assms by (auto elim!: responses_item_object
      simp: responses_input_step_def responses_text_def isMessageItem_def collectMessageText_def get_obj get_is_def)

context zod begin

lemma responses_input_total:
  "\<exists>r. parseOpenAIResponsesInput safeParse data = Some r \<and>
     (\<forall>vs. r = Some vs \<longrightarrow> (\<forall>v\<in>set vs. conforms OpenAIResponsesItemSchema v))"
proof (cases data)
  case (JArr vs)
  then show ?thesis
    using parse_conforms [of OpenAIResponsesItemsSchema data]
    by (cases "safeParse OpenAIResponsesItemsSchema data")
      (auto simp: parseOpenAIResponsesInput_def OpenAIResponsesItemsSchema_def as_array_def)
next
  case (JObj kvs)
  then show ?thesis
    using parse_conforms [of OpenAIResponsesItemSchema data]
    by (cases "safeParse OpenAIResponsesItemSchema data") (simp_all add: parseOpenAIResponsesInput_def)
qed (simp_all add: parseOpenAIResponsesInput_def)

lemma responses_output_total:
  "\<exists>r. parseOpenAIResponsesOutput safeParse data = Some r \<and>
     (\<forall>vs. r = Some vs \<longrightarrow> (\<forall>v\<in>set vs. conforms OpenAIResponsesItemSchema v))"
proof (cases "if has_output data then safeParse OpenAIResponsesResponseSchema data else None")
  case (Some r)
  then have "conforms (z_object response_fields) r"
    using parse_conforms [of OpenAIResponsesResponseSchema data r] by (auto simp: OpenAIResponsesResponseSchema_def split: if_splits)
  then have "\<exists>vs. get ''output'' r = Some (Some (JArr vs)) \<and> (\<forall>v\<in>set vs. conforms OpenAIResponsesItemSchema v)"
    using get_field [OF _ response_fields, of Strip r] by auto
  then show ?thesis by (auto simp: parseOpenAIResponsesOutput_def Some arr_def as_array_def)
qed (simp add: parseOpenAIResponsesOutput_def responses_input_total)

lemma responses_system_total: "parseSystemAndUserResponses safeParse data \<noteq> None"
proof -
  obtain r where r: "parseOpenAIResponsesInput safeParse data = Some r"
    and conf: "\<forall>vs. r = Some vs \<longrightarrow> (\<forall>v\<in>set vs. conforms OpenAIResponsesItemSchema v)"
    using responses_input_total [of data] by (elim exE conjE) (rule that)
  show ?thesis
  proof (cases r)
    case (Some vs)
    have "loop_js responses_input_step vs (None, []) \<noteq> None"
      by (rule loop_js_total) (use conf Some responses_item_total(1) in blast)
    then show ?thesis by (auto simp: parseSystemAndUserResponses_def r Some)
  qed (simp add: parseSystemAndUserResponses_def r)
qed

lemma responses_render_total: "renderOutputTextResponses safeParse data \<noteq> None"
proof -
  obtain r where r: "parseOpenAIResponsesOutput safeParse data = Some r"
    and conf: "\<forall>vs. r = Some vs \<longrightarrow> (\<forall>v\<in>set vs. conforms OpenAIResponsesItemSchema v)"
    using responses_output_total [of data] by (elim exE conjE) (rule that)
  show ?thesis
  proof (cases r)
    case (Some vs)
    have "map_js responses_text vs \<noteq> None"
      by (rule map_js_total) (use conf Some responses_item_total(2) in blast)
    then show ?thesis by (auto simp: renderOutputTextResponses_def r Some)
  qed (simp add: renderOutputTextResponses_def r)
qed

end

section \<open>What the schemas distinguish\<close>

text \<open>A plain chat message: no type or the type of a message, and content whose parts, if it has parts, are none of
  the Responses API.\<close>

definition plain_chat :: "json \<Rightarrow> bool" where
  "plain_chat item = (case item of
     JObj kvs \<Rightarrow> map_of kvs ''type'' \<in> {None, Some (JStr ''message'')} \<and>
       (case map_of kvs ''content'' of Some (JArr ps) \<Rightarrow> list_all (\<lambda>p. \<not> responses_part p) ps | _ \<Rightarrow> True)
   | _ \<Rightarrow> True)"

lemma plain_chat_not_distinctive: "plain_chat item \<Longrightarrow> \<not> isDistinctivelyResponses item"
  by (auto simp: plain_chat_def isDistinctivelyResponses_def RESPONSES_DISTINCTIVE_TYPES_def list_all_iff
      split: json.splits option.splits)

lemma chat_not_detected: "list_all plain_chat vs \<Longrightarrow> \<not> detectResponses sp (JArr vs)"
  using plain_chat_not_distinctive by (auto simp: detectResponses_def has_output_def list_all_iff)

text \<open>
  A field that the schema of a response does not list is ignored: the payload is accepted or rejected as if
  the field were not there, whatever its value. Listing the fields does not tell responses from other payloads.
\<close>
lemma response_ignores_unlisted_fields:
  assumes "zod sp" "k \<notin> fst ` set response_fields"
  shows "sp OpenAIResponsesResponseSchema (JObj ((k, x) # kvs)) = None \<longleftrightarrow> sp OpenAIResponsesResponseSchema (JObj kvs) = None"
proof -
  have "field_result sp ((k, x) # kvs) f = field_result sp kvs f" if "f \<in> set response_fields" for f
    using assms(2) that by (cases f) (force simp: field_result_def)
  then show ?thesis
    by (simp add: OpenAIResponsesResponseSchema_def zod.object_fails_on [OF assms(1) response_fields(1)])
qed

theorem response_ignores_unlisted_fields_witness:
  "zod_parse OpenAIResponsesResponseSchema
     (JObj [(''choices'', JArr []), (''object'', JStr ''response''), (''output'', JArr [])]) \<noteq> None"
proof -
  have "zod_parse OpenAIResponsesResponseSchema (JObj [(''object'', JStr ''response''), (''output'', JArr [])]) \<noteq> None"
    by code_simp
  moreover have "''choices'' \<notin> fst ` set response_fields" by (simp add: response_fields_def)
  ultimately show ?thesis using response_ignores_unlisted_fields [OF zod_lib.zod_axioms] by simp
qed

end
