(* ===== verification/AnthropicMessages.thy ===== *)
theory AnthropicMessages
  imports Messages
begin

text \<open>
  The messages of Anthropic: their schemas, their validation and their conversion for the playground
  (\<open>lib/spans/types/anthropic.ts\<close>), and the adapter (\<open>lib/spans/providers/anthropic.ts\<close>).
\<close>

section \<open>Schemas\<close>

definition AnthropicTextBlockSchema :: schema where
  "AnthropicTextBlockSchema =
     z_object [(''type'', ZLiteral ''text''), (''text'', ZString)]"

definition AnthropicThinkingBlockSchema :: schema where
  "AnthropicThinkingBlockSchema =
     z_object [(''type'', ZLiteral ''thinking''), (''thinking'', ZString), (''signature'', ZOptional ZString)]"

definition AnthropicToolUseBlockSchema :: schema where
  "AnthropicToolUseBlockSchema =
     z_object [(''type'', ZLiteral ''tool_use''), (''id'', ZString), (''name'', ZString),
       (''input'', ZUnknown)]"

definition AnthropicToolResultBlockSchema :: schema where
  "AnthropicToolResultBlockSchema =
     z_object [(''type'', ZLiteral ''tool_result''), (''tool_use_id'', ZString),
       (''content'', ZOptional (ZUnion [ZString, ZArray ZUnknown])), (''is_error'', ZOptional ZBoolean)]"

definition AnthropicImageBase64SourceSchema :: schema where
  "AnthropicImageBase64SourceSchema =
     z_object [(''type'', ZLiteral ''base64''), (''media_type'', ZString), (''data'', ZString)]"

definition AnthropicImageUrlSourceSchema :: schema where
  "AnthropicImageUrlSourceSchema =
     z_object [(''type'', ZLiteral ''url''), (''url'', ZString)]"

definition AnthropicImageBlockSchema :: schema where
  "AnthropicImageBlockSchema =
     z_object [(''type'', ZLiteral ''image''), (''source'', ZUnion [AnthropicImageBase64SourceSchema,
       AnthropicImageUrlSourceSchema])]"

definition AnthropicRedactedThinkingBlockSchema :: schema where
  "AnthropicRedactedThinkingBlockSchema =
     z_object [(''type'', ZLiteral ''redacted_thinking''), (''data'', ZString)]"

definition AnthropicDocumentSourceSchema :: schema where
  "AnthropicDocumentSourceSchema =
     z_loose [(''type'', ZEnum [''base64'', ''text'', ''content'', ''url''])]"

definition AnthropicDocumentBlockSchema :: schema where
  "AnthropicDocumentBlockSchema =
     z_object [(''type'', ZLiteral ''document''), (''source'', AnthropicDocumentSourceSchema),
       (''title'', ZOptional ZString), (''context'', ZOptional ZString)]"

definition AnthropicServerToolUseBlockSchema :: schema where
  "AnthropicServerToolUseBlockSchema =
     z_object [(''type'', ZLiteral ''server_tool_use''), (''id'', ZString), (''name'', ZString),
       (''input'', ZUnknown)]"

definition AnthropicWebSearchToolResultBlockSchema :: schema where
  "AnthropicWebSearchToolResultBlockSchema =
     z_object [(''type'', ZLiteral ''web_search_tool_result''), (''tool_use_id'', ZString),
       (''content'', ZUnknown)]"

definition AnthropicSearchResultBlockSchema :: schema where
  "AnthropicSearchResultBlockSchema =
     z_object [(''type'', ZLiteral ''search_result''), (''source'', ZString), (''title'', ZString),
       (''content'', ZUnknown)]"

definition AnthropicContentBlockSchema :: schema where
  "AnthropicContentBlockSchema =
     ZUnion [AnthropicTextBlockSchema, AnthropicThinkingBlockSchema, AnthropicRedactedThinkingBlockSchema,
       AnthropicToolUseBlockSchema, AnthropicToolResultBlockSchema, AnthropicImageBlockSchema,
       AnthropicDocumentBlockSchema, AnthropicServerToolUseBlockSchema,
       AnthropicWebSearchToolResultBlockSchema, AnthropicSearchResultBlockSchema]"

text \<open>A content that is a text is read as JSON, and replaced when that is an array of blocks.\<close>

definition text_or_blocks :: "(schema \<Rightarrow> json \<Rightarrow> json option) \<Rightarrow> (string \<Rightarrow> json option) \<Rightarrow> json \<Rightarrow> json" where
  "text_or_blocks sp parse v = (case v of
     JStr s \<Rightarrow> (let parsed = tryParseJson parse s
       in if is_array parsed then (case sp (ZArray AnthropicContentBlockSchema) parsed of Some w \<Rightarrow> w | None \<Rightarrow> v) else v)
   | _ \<Rightarrow> v)"

definition AnthropicMessageSchema :: "(schema \<Rightarrow> json \<Rightarrow> json option) \<Rightarrow> (string \<Rightarrow> json option) \<Rightarrow> schema" where
  "AnthropicMessageSchema sp parse =
     z_loose [(''role'', ZEnum [''user'', ''assistant'', ''system'']),
       (''content'', ZUnion [ZArray AnthropicContentBlockSchema, ZTransform ZString (text_or_blocks sp parse)])]"

definition AnthropicMessagesSchema :: "(schema \<Rightarrow> json \<Rightarrow> json option) \<Rightarrow> (string \<Rightarrow> json option) \<Rightarrow> schema" where
  "AnthropicMessagesSchema sp parse = ZArray (AnthropicMessageSchema sp parse)"

definition AnthropicOutputMessageSchema :: schema where
  "AnthropicOutputMessageSchema =
     z_loose [(''role'', ZOptional ZString), (''content'', ZArray AnthropicContentBlockSchema),
       (''stop_reason'', ZOptional (ZNullable ZString))]"

definition AnthropicOutputMessagesSchema :: schema where
  "AnthropicOutputMessagesSchema =
     ZArray AnthropicOutputMessageSchema"

section \<open>Validation\<close>

definition parseAnthropicInput ::
  "(schema \<Rightarrow> json \<Rightarrow> json option) \<Rightarrow> (string \<Rightarrow> json option) \<Rightarrow> json \<Rightarrow> json list option" where
  "parseAnthropicInput sp parse data = (case sp (AnthropicMessageSchema sp parse) data of
     Some m \<Rightarrow> Some [m]
   | None \<Rightarrow> (case sp (AnthropicMessagesSchema sp parse) data of Some (JArr ms) \<Rightarrow> Some ms | _ \<Rightarrow> None))"

text \<open>A candidate becomes a message; without a role it is the assistant's.\<close>

definition anthropic_candidate :: "json \<Rightarrow> json option" where
  "anthropic_candidate m = do {
     role \<leftarrow> opt_str ''role'' m;
     c \<leftarrow> obj ''content'' m;
     Some (JObj [(''role'', JStr (or_text role ''assistant'')), (''content'', c)])
   }"

definition parseAnthropicOutput :: "(schema \<Rightarrow> json \<Rightarrow> json option) \<Rightarrow> json \<Rightarrow> json list option option" where
  "parseAnthropicOutput sp data = (case sp AnthropicOutputMessageSchema data of
     Some m \<Rightarrow> map_option (\<lambda>c. Some [c]) (anthropic_candidate m)
   | None \<Rightarrow> (case sp AnthropicOutputMessagesSchema data of
       Some (JArr ms) \<Rightarrow> map_option Some (map_js anthropic_candidate ms)
     | _ \<Rightarrow> Some None))"

definition extractAnthropicSystemMessage :: "json list \<Rightarrow> string option option" where
  "extractAnthropicSystemMessage ms = do {
     sm \<leftarrow> find_js (get_is ''role'' ''system'') ms;
     (case sm of
        None \<Rightarrow> Some None
      | Some m \<Rightarrow> do {
          c \<leftarrow> get ''content'' m;
          (case c of
             Some (JStr s) \<Rightarrow> Some (Some s)
           | _ \<Rightarrow> do {
               bs \<leftarrow> as_array c;
               texts \<leftarrow> filter_js (\<lambda>b. do { k \<leftarrow> has_key ''type'' b; t \<leftarrow> get_is ''type'' ''text'' b; Some (k \<and> t) }) bs;
               ts \<leftarrow> map_js (str ''text'') texts;
               Some (if ts = [] then None else Some (join [CHR 10] ts)) }) })
   }"

section \<open>Conversion\<close>

definition anthropic_call_name :: "json \<Rightarrow> (string \<times> string) option" where
  "anthropic_call_name b = do { i \<leftarrow> str ''id'' b; n \<leftarrow> str ''name'' b; Some (i, n) }"

definition anthropic_is_call :: "json \<Rightarrow> bool option" where
  "anthropic_is_call b = do {
     u \<leftarrow> get_is ''type'' ''tool_use'' b; v \<leftarrow> get_is ''type'' ''server_tool_use'' b; Some (u \<or> v) }"

text \<open>The tool calls of a message, in order; a text has none.\<close>

definition anthropic_calls :: "json \<Rightarrow> (string \<times> string) list option" where
  "anthropic_calls m = do {
     c \<leftarrow> get ''content'' m;
     (case c of
        Some (JStr s) \<Rightarrow> Some []
      | _ \<Rightarrow> do { bs \<leftarrow> as_array c; cs \<leftarrow> filter_js anthropic_is_call bs; map_js anthropic_call_name cs })
   }"

definition document_label :: "string option \<Rightarrow> string" where
  "document_label title = (if truthy title then ''[Document: '' @ the title @ '']'' else ''[Document]'')"

definition anthropic_block :: "message_env \<Rightarrow> (string \<Rightarrow> string option) \<Rightarrow> json \<Rightarrow> string part list option" where
  "anthropic_block env names b = do {
     t \<leftarrow> str ''type'' b;
     if t = ''text'' then do { x \<leftarrow> str ''text'' b; Some [TextPart x None] }
     else if t = ''thinking'' then do { x \<leftarrow> str ''thinking'' b; Some [TextPart x None] }
     else if t = ''tool_use'' \<or> t = ''server_tool_use'' then do {
       i \<leftarrow> str ''id'' b; n \<leftarrow> str ''name'' b; v \<leftarrow> get ''input'' b;
       Some [ToolCallPart i n (InJson (env_stringify env (nullish v (JObj [])))) None] }
     else if t = ''tool_result'' then do {
       i \<leftarrow> str ''tool_use_id'' b; c \<leftarrow> get ''content'' b;
       Some [ToolResultPart i (Some (or_text (names i) i))
         (OutText (case c of Some (JStr s) \<Rightarrow> s | _ \<Rightarrow> env_stringify env (nullish c (JStr []))))] }
     else if t = ''image'' then do {
       s \<leftarrow> obj ''source'' b;
       base64 \<leftarrow> get_is ''type'' ''base64'' s;
       if base64 then do {
         mt \<leftarrow> str ''media_type'' s; d \<leftarrow> str ''data'' s;
         Some [ImagePart (''data:'' @ mt @ '';base64,'' @ d)] }
       else do {
         url \<leftarrow> str ''url'' s;
         Some [ImagePart (if isStorageUrl url then (case urlToBase64 env url of Some d \<Rightarrow> d | None \<Rightarrow> url) else url)] } }
     else if t = ''redacted_thinking'' then Some [TextPart ''[Redacted thinking]'' None]
     else if t = ''document'' then do {
       title \<leftarrow> opt_str ''title'' b;
       s \<leftarrow> obj ''source'' b;
       d \<leftarrow> get ''data'' s;
       x \<leftarrow> get ''text'' s;
       (case (as_string d, as_string x) of
          (Some _, _) \<Rightarrow> do { c \<leftarrow> opt_str ''context'' b;
            Some [TextPart (trim (document_label title @ [CHR 10] @ case_option [] id c)) None] }
        | (None, Some u) \<Rightarrow> Some [TextPart (document_label title @ [CHR 10] @ u) None]
        | (None, None) \<Rightarrow> Some [TextPart (document_label title) None]) }
     else if t = ''web_search_tool_result'' then do {
       i \<leftarrow> str ''tool_use_id'' b; c \<leftarrow> get ''content'' b;
       Some [ToolResultPart i (Some (or_text (names i) ''web_search''))
         (OutJson (env_stringify env (nullish c (JStr []))))] }
     else if t = ''search_result'' then do {
       title \<leftarrow> str ''title'' b; s \<leftarrow> str ''source'' b; c \<leftarrow> get ''content'' b;
       Some [TextPart (''[Search result: '' @ title @ '']'' @ [CHR 10] @ ''Source: '' @ s @ [CHR 10] @
         (case c of Some (JStr x) \<Rightarrow> x | _ \<Rightarrow> env_stringify env (nullish c (JStr [])))) None] }
     else Some []
   }"

definition anthropic_message :: "message_env \<Rightarrow> (string \<Rightarrow> string option) \<Rightarrow> json \<Rightarrow> string message option" where
  "anthropic_message env names m = do {
     role \<leftarrow> str ''role'' m;
     c \<leftarrow> get ''content'' m;
     (case c of
        Some (JStr s) \<Rightarrow> Some \<lparr>mrole = Some role, mcontent = Parts [TextPart s None]\<rparr>
      | _ \<Rightarrow> do {
          bs \<leftarrow> as_array c;
          ps \<leftarrow> map_js (anthropic_block env names) bs;
          Some \<lparr>mrole = Some role, mcontent = Parts (concat ps)\<rparr> })
   }"

definition convertAnthropicToPlaygroundMessages :: "message_env \<Rightarrow> json list \<Rightarrow> string message list option" where
  "convertAnthropicToPlaygroundMessages env ms = do {
     calls \<leftarrow> map_js anthropic_calls ms;
     map_js (anthropic_message env (last_name (concat calls))) ms
   }"

section \<open>Adapter\<close>

definition anthropic_texts :: "json list \<Rightarrow> string list option" where
  "anthropic_texts bs = do { ts \<leftarrow> filter_js (get_is ''type'' ''text'') bs; map_js (str ''text'') ts }"

definition anthropic_first_user :: "json list \<Rightarrow> string list option" where
  "anthropic_first_user ms = do {
     m \<leftarrow> find_js (get_is ''role'' ''user'') ms;
     (case m of
        None \<Rightarrow> Some []
      | Some msg \<Rightarrow> do {
          c \<leftarrow> get ''content'' msg;
          (case c of Some (JStr s) \<Rightarrow> Some [s] | _ \<Rightarrow> do { bs \<leftarrow> as_array c; anthropic_texts bs }) })
   }"

definition parseSystemAndUserAnthropic ::
  "(schema \<Rightarrow> json \<Rightarrow> json option) \<Rightarrow> (string \<Rightarrow> json option) \<Rightarrow> json \<Rightarrow> parsed_input option option" where
  "parseSystemAndUserAnthropic sp parse data = (case parseAnthropicInput sp parse data of
     None \<Rightarrow> Some None
   | Some ms \<Rightarrow> do {
       sm \<leftarrow> find_js (get_is ''role'' ''system'') ms;
       sys \<leftarrow> (case sm of
          None \<Rightarrow> Some None
        | Some m \<Rightarrow> do {
            c \<leftarrow> get ''content'' m;
            (case c of
               Some (JStr s) \<Rightarrow> Some (Some s)
             | _ \<Rightarrow> do {
                 bs \<leftarrow> as_array c;
                 ts \<leftarrow> anthropic_texts bs;
                 Some (if ts = [] then None else Some (join '' '' ts)) }) });
       us \<leftarrow> anthropic_first_user ms;
       Some (Some \<lparr>systemText = sys, userParts = us\<rparr>)
     })"

text \<open>The texts of the blocks, and the thoughts of those that have no text.\<close>

definition block_texts :: "(schema \<Rightarrow> json \<Rightarrow> json option) \<Rightarrow> json \<Rightarrow> (string list \<times> string list) option" where
  "block_texts sp b = do {
     t \<leftarrow> parsed_str sp AnthropicTextBlockSchema ''text'' b;
     h \<leftarrow> parsed_str sp AnthropicThinkingBlockSchema ''thinking'' b;
     Some (if truthy t then ([the t], []) else if truthy h then ([], [the h]) else ([], []))
   }"

definition renderAnthropicMessage :: "(schema \<Rightarrow> json \<Rightarrow> json option) \<Rightarrow> json \<Rightarrow> string option" where
  "renderAnthropicMessage sp m = do {
     c \<leftarrow> get ''content'' m;
     (case c of
        Some (JStr s) \<Rightarrow> Some s
      | Some (JArr bs) \<Rightarrow> do {
          ps \<leftarrow> map_js (block_texts sp) bs;
          (let ts = concat (map fst ps); hs = concat (map snd ps)
           in Some (joinNonEmpty (map Some (if ts \<noteq> [] then ts else hs)))) }
      | _ \<Rightarrow> Some [])
   }"

definition renderOutputTextAnthropic :: "(schema \<Rightarrow> json \<Rightarrow> json option) \<Rightarrow> json \<Rightarrow> string option option" where
  "renderOutputTextAnthropic sp data = do {
     ms \<leftarrow> parseAnthropicOutput sp data;
     (case ms of
        None \<Rightarrow> Some None
      | Some msgs \<Rightarrow> map_option (\<lambda>ts. Some (joinNonEmpty (map Some ts))) (map_js (renderAnthropicMessage sp) msgs))
   }"

definition block_has_text :: "json \<Rightarrow> bool option" where
  "block_has_text b = do {
     t \<leftarrow> get_is ''type'' ''text'' b;
     h \<leftarrow> get_is ''type'' ''thinking'' b;
     x \<leftarrow> get ''text'' b;
     y \<leftarrow> get ''thinking'' b;
     Some (if t then \<not> isBlank x else h \<and> \<not> isBlank y)
   }"

definition anthropicHasText :: "json \<Rightarrow> bool option" where
  "anthropicHasText m = do {
     c \<leftarrow> get ''content'' m;
     (case c of
        Some (JArr bs) \<Rightarrow> some_js block_has_text bs
      | Some (JStr s) \<Rightarrow> Some (\<not> isBlank c)
      | _ \<Rightarrow> Some False)
   }"

definition anthropic_tool :: "json \<Rightarrow> extracted_tool option" where
  "anthropic_tool b = do { n \<leftarrow> str ''name'' b; v \<leftarrow> get ''input'' b; Some \<lparr>toolName = n, toolInput = v\<rparr> }"

definition anthropic_tools :: "json \<Rightarrow> extracted_tool list option" where
  "anthropic_tools m = do {
     c \<leftarrow> get ''content'' m;
     (case c of
        Some (JArr bs) \<Rightarrow> do { cs \<leftarrow> filter_js anthropic_is_call bs; map_js anthropic_tool cs }
      | _ \<Rightarrow> Some [])
   }"

definition extractToolsIfToolOnlyAnthropic ::
  "(schema \<Rightarrow> json \<Rightarrow> json option) \<Rightarrow> json \<Rightarrow> extracted_tool list option option" where
  "extractToolsIfToolOnlyAnthropic sp data = do {
     ms \<leftarrow> parseAnthropicOutput sp data;
     (case ms of
        None \<Rightarrow> Some None
      | Some msgs \<Rightarrow> do {
          shown \<leftarrow> some_js anthropicHasText msgs;
          if shown then Some None
          else do {
            tools \<leftarrow> map_js anthropic_tools msgs;
            Some (if concat tools = [] then None else Some (concat tools))
          } })
   }"

definition anthropicAdapter :: "(schema \<Rightarrow> json \<Rightarrow> json option) \<Rightarrow> (string \<Rightarrow> json option) \<Rightarrow> adapter" where
  "anthropicAdapter sp parse = \<lparr>adapter_id = HAnthropic,
     detects = (\<lambda>data. Some (sp AnthropicOutputMessageSchema data \<noteq> None \<or> sp AnthropicOutputMessagesSchema data \<noteq> None)),
     parseSystemAndUser = Some (parseSystemAndUserAnthropic sp parse),
     renderOutputText = Some (renderOutputTextAnthropic sp),
     extractTools = Some (extractToolsIfToolOnlyAnthropic sp)\<rparr>"

section \<open>Valid blocks\<close>

lemmas anthropic_blocks = AnthropicTextBlockSchema_def AnthropicThinkingBlockSchema_def AnthropicToolUseBlockSchema_def AnthropicToolResultBlockSchema_def AnthropicImageBlockSchema_def AnthropicRedactedThinkingBlockSchema_def AnthropicDocumentBlockSchema_def AnthropicServerToolUseBlockSchema_def AnthropicWebSearchToolResultBlockSchema_def AnthropicSearchResultBlockSchema_def

lemma anthropic_block_cases:
  assumes "conforms AnthropicContentBlockSchema b"
  obtains (a) "conforms AnthropicTextBlockSchema b" | (b) "conforms AnthropicThinkingBlockSchema b"
  | (c) "conforms AnthropicRedactedThinkingBlockSchema b" | (d) "conforms AnthropicToolUseBlockSchema b"
  | (e) "conforms AnthropicToolResultBlockSchema b" | (f) "conforms AnthropicImageBlockSchema b"
  | (g) "conforms AnthropicDocumentBlockSchema b" | (h) "conforms AnthropicServerToolUseBlockSchema b"
  | (i) "conforms AnthropicWebSearchToolResultBlockSchema b" | (j) "conforms AnthropicSearchResultBlockSchema b"
  using assms by (auto simp: AnthropicContentBlockSchema_def)

lemmas str_simps = str_def opt_str_def get_is_def obj_def as_string_def as_value_def

lemma anthropic_source:
  assumes "conforms (ZUnion [AnthropicImageBase64SourceSchema, AnthropicImageUrlSourceSchema]) s"
  shows "(get ''type'' s = Some (Some (JStr ''base64'')) \<and>
      (\<exists>mt d. get ''media_type'' s = Some (Some (JStr mt)) \<and> get ''data'' s = Some (Some (JStr d)))) \<or>
    (get ''type'' s = Some (Some (JStr ''url'')) \<and> (\<exists>u. get ''url'' s = Some (Some (JStr u))))"
proof -
  consider "conforms AnthropicImageBase64SourceSchema s" | "conforms AnthropicImageUrlSourceSchema s"
    using assms by auto
  then show ?thesis
  proof cases
    case 1
    note src = this [unfolded AnthropicImageBase64SourceSchema_def]
    show ?thesis
      using literal_field [OF src, of "''type''" "''base64''"] string_field [OF src, of "''media_type''"]
        string_field [OF src, of "''data''"] by simp
  next
    case 2
    note src = this [unfolded AnthropicImageUrlSourceSchema_def]
    show ?thesis using literal_field [OF src, of "''type''" "''url''"] string_field [OF src, of "''url''"] by simp
  qed
qed

text \<open>A valid block becomes one part.\<close>

lemma anthropic_block_one:
  assumes "conforms AnthropicContentBlockSchema b"
  shows "\<exists>p. anthropic_block env names b = Some [p]"
  using assms
proof (cases rule: anthropic_block_cases)
  case a
  note obj = this [unfolded AnthropicTextBlockSchema_def]
  show ?thesis using literal_field [OF obj, of "''type''"] string_field [OF obj, of "''text''"]
    by (auto simp: anthropic_block_def str_simps)
next
  case b
  note obj = this [unfolded AnthropicThinkingBlockSchema_def]
  show ?thesis using literal_field [OF obj, of "''type''"] string_field [OF obj, of "''thinking''"]
    by (auto simp: anthropic_block_def str_simps)
next
  case c
  note obj = this [unfolded AnthropicRedactedThinkingBlockSchema_def]
  show ?thesis using literal_field [OF obj, of "''type''"] by (auto simp: anthropic_block_def str_simps)
next
  case d
  note obj = this [unfolded AnthropicToolUseBlockSchema_def]
  show ?thesis using literal_field [OF obj, of "''type''"] string_field [OF obj, of "''id''"]
      string_field [OF obj, of "''name''"] get_object [OF obj, of "''input''"]
    by (auto simp: anthropic_block_def str_simps)
next
  case e
  note obj = this [unfolded AnthropicToolResultBlockSchema_def]
  show ?thesis using literal_field [OF obj, of "''type''"] string_field [OF obj, of "''tool_use_id''"]
      get_object [OF obj, of "''content''"]
    by (auto simp: anthropic_block_def str_simps)
next
  case f
  note obj = this [unfolded AnthropicImageBlockSchema_def]
  obtain s where "get ''source'' b = Some (Some s)"
    "conforms (ZUnion [AnthropicImageBase64SourceSchema, AnthropicImageUrlSourceSchema]) s"
    using get_field [OF obj, of "''source''" "ZUnion [AnthropicImageBase64SourceSchema, AnthropicImageUrlSourceSchema]"] by auto
  then show ?thesis using literal_field [OF obj, of "''type''"] anthropic_source [of s]
    by (auto simp: anthropic_block_def str_simps)
next
  case g
  note obj = this [unfolded AnthropicDocumentBlockSchema_def]
  obtain s where s: "get ''source'' b = Some (Some s)" "conforms AnthropicDocumentSourceSchema s"
    using get_field [OF obj, of "''source''" AnthropicDocumentSourceSchema] by (auto simp: AnthropicDocumentSourceSchema_def)
  obtain d x where "get ''data'' s = Some d" "get ''text'' s = Some x"
    using get_object [OF s(2) [unfolded AnthropicDocumentSourceSchema_def], of "''data''"]
      get_object [OF s(2) [unfolded AnthropicDocumentSourceSchema_def], of "''text''"] by auto
  moreover obtain title cont where "opt_str ''title'' b = Some title" "opt_str ''context'' b = Some cont"
    using optional_string_field [OF obj, of "''title''"] optional_string_field [OF obj, of "''context''"]
    by (auto simp: opt_str_def)
  ultimately show ?thesis using literal_field [OF obj, of "''type''"] s(1)
    by (cases "as_string d"; cases "as_string x") (simp_all add: anthropic_block_def str_def get_is_def obj_def as_value_def as_string_def)
next
  case h
  note obj = this [unfolded AnthropicServerToolUseBlockSchema_def]
  show ?thesis using literal_field [OF obj, of "''type''"] string_field [OF obj, of "''id''"]
      string_field [OF obj, of "''name''"] get_object [OF obj, of "''input''"]
    by (auto simp: anthropic_block_def str_simps)
next
  case i
  note obj = this [unfolded AnthropicWebSearchToolResultBlockSchema_def]
  show ?thesis using literal_field [OF obj, of "''type''"] string_field [OF obj, of "''tool_use_id''"]
      get_object [OF obj, of "''content''"]
    by (auto simp: anthropic_block_def str_simps)
next
  case j
  note obj = this [unfolded AnthropicSearchResultBlockSchema_def]
  show ?thesis using literal_field [OF obj, of "''type''"] string_field [OF obj, of "''title''"]
      string_field [OF obj, of "''source''"] get_object [OF obj, of "''content''"]
    by (auto simp: anthropic_block_def str_simps)
qed

text \<open>Its type, and what the tool calls, texts and thoughts need.\<close>

lemma anthropic_block_object:
  assumes "conforms AnthropicContentBlockSchema b"
  shows "\<exists>kvs. b = JObj kvs" "\<exists>t. get ''type'' b = Some (Some (JStr t))"
    "get ''type'' b = Some (Some (JStr ''text'')) \<Longrightarrow> \<exists>t. str ''text'' b = Some t"
    "anthropic_is_call b = Some True \<Longrightarrow> \<exists>p. anthropic_call_name b = Some p"
  using assms
  by (rule_tac [!] anthropic_block_cases [OF assms])
    (auto simp: anthropic_blocks anthropic_is_call_def anthropic_call_name_def reading split: option.splits)

section \<open>Valid messages\<close>

definition anthropic_valid :: "json \<Rightarrow> bool" where
  "anthropic_valid m \<longleftrightarrow> (\<exists>role. get ''role'' m = Some (Some (JStr role))) \<and>
     ((\<exists>s. get ''content'' m = Some (Some (JStr s))) \<or>
      (\<exists>bs. get ''content'' m = Some (Some (JArr bs)) \<and> (\<forall>b\<in>set bs. conforms AnthropicContentBlockSchema b)))"

lemma anthropic_validE:
  assumes "anthropic_valid m"
  obtains (string) role s where "get ''role'' m = Some (Some (JStr role))" "get ''content'' m = Some (Some (JStr s))"
  | (blocks) role bs where "get ''role'' m = Some (Some (JStr role))" "get ''content'' m = Some (Some (JArr bs))"
      "\<forall>b\<in>set bs. conforms AnthropicContentBlockSchema b"
  using assms by (auto simp: anthropic_valid_def)

lemma anthropic_candidate_valid:
  assumes "conforms AnthropicOutputMessageSchema m"
  shows "\<exists>c. anthropic_candidate m = Some c \<and> anthropic_valid c"
proof -
  note obj = assms [unfolded AnthropicOutputMessageSchema_def]
  obtain bs where "get ''content'' m = Some (Some (JArr bs))" "\<forall>b\<in>set bs. conforms AnthropicContentBlockSchema b"
    using get_field [OF obj, of "''content''" "ZArray AnthropicContentBlockSchema"] by auto
  moreover obtain role where "opt_str ''role'' m = Some role"
    using optional_string_field [OF obj, of "''role''"] by (auto simp: opt_str_def)
  ultimately show ?thesis by (simp add: anthropic_candidate_def obj_def as_value_def anthropic_valid_def get_obj)
qed

context zod begin

lemma anthropic_message_valid:
  assumes "conforms (AnthropicMessageSchema safeParse parse) m"
  shows "anthropic_valid m"
proof -
  note obj = assms [unfolded AnthropicMessageSchema_def]
  obtain role where role: "get ''role'' m = Some (Some (JStr role))"
    using get_field [OF obj, of "''role''" "ZEnum [''user'', ''assistant'', ''system'']"] by auto
  obtain c where c: "get ''content'' m = Some (Some c)"
    "conforms (ZUnion [ZArray AnthropicContentBlockSchema, ZTransform ZString (text_or_blocks safeParse parse)]) c"
    using get_field [OF obj, of "''content''" "ZUnion [ZArray AnthropicContentBlockSchema, ZTransform ZString (text_or_blocks safeParse parse)]"]
    by auto
  then consider "conforms (ZArray AnthropicContentBlockSchema) c" | s where "c = text_or_blocks safeParse parse (JStr s)" by auto
  then have "(\<exists>s. c = JStr s) \<or> conforms (ZArray AnthropicContentBlockSchema) c"
  proof cases
    case 2
    then show ?thesis using parse_conforms [of "ZArray AnthropicContentBlockSchema" "tryParseJson parse s"]
      by (auto simp: text_or_blocks_def Let_def simp del: conforms.simps split: option.splits if_splits)
  qed simp
  then show ?thesis using role c(1) by (auto simp: anthropic_valid_def)
qed

lemma anthropic_input_valid:
  assumes "parseAnthropicInput safeParse parse data = Some ms" "m \<in> set ms"
  shows "anthropic_valid m"
proof (cases "safeParse (AnthropicMessageSchema safeParse parse) data")
  case (Some v)
  then show ?thesis using assms anthropic_message_valid [OF parse_conforms [OF Some]] by (auto simp: parseAnthropicInput_def)
next
  case None
  then have multi: "safeParse (AnthropicMessagesSchema safeParse parse) data = Some (JArr ms)"
    using assms(1) by (auto simp: parseAnthropicInput_def split: option.splits json.splits)
  show ?thesis using parse_conforms [OF multi] assms(2) anthropic_message_valid by (auto simp: AnthropicMessagesSchema_def)
qed

lemma anthropic_output_valid:
  "\<exists>r. parseAnthropicOutput safeParse data = Some r \<and>
     (r \<noteq> None \<longleftrightarrow> safeParse AnthropicOutputMessageSchema data \<noteq> None \<or> safeParse AnthropicOutputMessagesSchema data \<noteq> None) \<and>
     (\<forall>ms. r = Some ms \<longrightarrow> (\<forall>m\<in>set ms. anthropic_valid m))"
proof (cases "safeParse AnthropicOutputMessageSchema data")
  case (Some v)
  then show ?thesis using anthropic_candidate_valid [OF parse_conforms [OF Some]]
    by (auto simp: parseAnthropicOutput_def)
next
  case None
  show ?thesis
  proof (cases "safeParse AnthropicOutputMessagesSchema data")
    case multi: (Some v)
    obtain vs where vs: "v = JArr vs" "\<forall>w\<in>set vs. conforms AnthropicOutputMessageSchema w"
      using parse_conforms [OF multi] by (auto simp: AnthropicOutputMessagesSchema_def)
    have "map_js anthropic_candidate vs \<noteq> None"
      by (rule map_js_total) (use vs(2) anthropic_candidate_valid in blast)
    then obtain ms where ms: "map_js anthropic_candidate vs = Some ms" by blast
    have "anthropic_valid m" if "m \<in> set ms" for m
      using map_js_set [OF ms that] vs(2) anthropic_candidate_valid by (metis option.inject)
    then show ?thesis by (simp add: parseAnthropicOutput_def None multi vs(1) ms)
  qed (simp add: parseAnthropicOutput_def None)
qed

end

lemma anthropic_calls_total: "anthropic_valid m \<Longrightarrow> anthropic_calls m \<noteq> None"
proof (erule anthropic_validE)
  fix bs
  assume bs: "get ''content'' m = Some (Some (JArr bs))" "\<forall>b\<in>set bs. conforms AnthropicContentBlockSchema b"
  have "filter_js anthropic_is_call bs \<noteq> None"
    by (rule filter_js_total) (use bs(2) anthropic_block_object(2) in \<open>fastforce simp: anthropic_is_call_def get_is_def\<close>)
  then obtain cs where cs: "filter_js anthropic_is_call bs = Some cs" by blast
  have "map_js anthropic_call_name cs \<noteq> None"
    by (rule map_js_total) (use filter_js_set [OF cs] bs(2) anthropic_block_object(4) in blast)
  then show ?thesis using bs(1) cs by (simp add: anthropic_calls_def as_array_def)
qed (simp add: anthropic_calls_def)

text \<open>The part a block should become, by its type: texts and thoughts verbatim, calls with their identifier, name and
  input, results with the name of their call (\<open>names\<close>) and their content, images with their data or address, documents
  and search results as labelled texts.\<close>

inductive becomes :: "message_env \<Rightarrow> (string \<Rightarrow> string option) \<Rightarrow> json \<Rightarrow> string part \<Rightarrow> bool" for env names where
  plain_text: "str ''type'' b = Some ''text'' \<Longrightarrow> str ''text'' b = Some x \<Longrightarrow> becomes env names b (TextPart x None)"
| thought: "str ''type'' b = Some ''thinking'' \<Longrightarrow> str ''thinking'' b = Some x \<Longrightarrow> becomes env names b (TextPart x None)"
| redacted: "str ''type'' b = Some ''redacted_thinking'' \<Longrightarrow> becomes env names b (TextPart ''[Redacted thinking]'' None)"
| call: "str ''type'' b = Some t \<Longrightarrow> t \<in> {''tool_use'', ''server_tool_use''} \<Longrightarrow> str ''id'' b = Some i \<Longrightarrow> str ''name'' b = Some n \<Longrightarrow>
    get ''input'' b = Some v \<Longrightarrow> becomes env names b (ToolCallPart i n (InJson (env_stringify env (nullish v (JObj [])))) None)"
| text_result: "str ''type'' b = Some ''tool_result'' \<Longrightarrow> str ''tool_use_id'' b = Some i \<Longrightarrow> str ''content'' b = Some x \<Longrightarrow>
    becomes env names b (ToolResultPart i (Some (or_text (names i) i)) (OutText x))"
| json_result: "str ''type'' b = Some ''tool_result'' \<Longrightarrow> str ''tool_use_id'' b = Some i \<Longrightarrow> get ''content'' b = Some c \<Longrightarrow>
    as_string c = None \<Longrightarrow>
    becomes env names b (ToolResultPart i (Some (or_text (names i) i)) (OutText (env_stringify env (nullish c (JStr [])))))"
| web_result: "str ''type'' b = Some ''web_search_tool_result'' \<Longrightarrow> str ''tool_use_id'' b = Some i \<Longrightarrow> get ''content'' b = Some c \<Longrightarrow>
    becomes env names b (ToolResultPart i (Some (or_text (names i) ''web_search'')) (OutJson (env_stringify env (nullish c (JStr [])))))"
| image_data: "str ''type'' b = Some ''image'' \<Longrightarrow> obj ''source'' b = Some src \<Longrightarrow> get_is ''type'' ''base64'' src = Some True \<Longrightarrow>
    str ''media_type'' src = Some mt \<Longrightarrow> str ''data'' src = Some d \<Longrightarrow>
    becomes env names b (ImagePart (''data:'' @ mt @ '';base64,'' @ d))"
| image_address: "str ''type'' b = Some ''image'' \<Longrightarrow> obj ''source'' b = Some src \<Longrightarrow> get_is ''type'' ''base64'' src = Some False \<Longrightarrow>
    str ''url'' src = Some url \<Longrightarrow> \<not> isStorageUrl url \<or> urlToBase64 env url = None \<Longrightarrow> becomes env names b (ImagePart url)"
| image_stored: "str ''type'' b = Some ''image'' \<Longrightarrow> obj ''source'' b = Some src \<Longrightarrow> get_is ''type'' ''base64'' src = Some False \<Longrightarrow>
    str ''url'' src = Some url \<Longrightarrow> isStorageUrl url \<Longrightarrow> urlToBase64 env url = Some d \<Longrightarrow> becomes env names b (ImagePart d)"
| document_data: "str ''type'' b = Some ''document'' \<Longrightarrow> opt_str ''title'' b = Some title \<Longrightarrow> opt_str ''context'' b = Some note \<Longrightarrow>
    obj ''source'' b = Some src \<Longrightarrow> str ''data'' src = Some d \<Longrightarrow>
    becomes env names b (TextPart (trim (document_label title @ [CHR 10] @ case_option [] id note)) None)"
| document_text: "str ''type'' b = Some ''document'' \<Longrightarrow> opt_str ''title'' b = Some title \<Longrightarrow> obj ''source'' b = Some src \<Longrightarrow>
    get ''data'' src = Some d \<Longrightarrow> as_string d = None \<Longrightarrow> str ''text'' src = Some x \<Longrightarrow>
    becomes env names b (TextPart (document_label title @ [CHR 10] @ x) None)"
| document_other: "str ''type'' b = Some ''document'' \<Longrightarrow> opt_str ''title'' b = Some title \<Longrightarrow> obj ''source'' b = Some src \<Longrightarrow>
    get ''data'' src = Some d \<Longrightarrow> as_string d = None \<Longrightarrow> get ''text'' src = Some x \<Longrightarrow> as_string x = None \<Longrightarrow>
    becomes env names b (TextPart (document_label title) None)"
| found_text: "str ''type'' b = Some ''search_result'' \<Longrightarrow> str ''title'' b = Some title \<Longrightarrow> str ''source'' b = Some src \<Longrightarrow>
    str ''content'' b = Some x \<Longrightarrow>
    becomes env names b (TextPart (''[Search result: '' @ title @ '']'' @ [CHR 10] @ ''Source: '' @ src @ [CHR 10] @ x) None)"
| found_json: "str ''type'' b = Some ''search_result'' \<Longrightarrow> str ''title'' b = Some title \<Longrightarrow> str ''source'' b = Some src \<Longrightarrow>
    get ''content'' b = Some c \<Longrightarrow> as_string c = None \<Longrightarrow>
    becomes env names b (TextPart (''[Search result: '' @ title @ '']'' @ [CHR 10] @ ''Source: '' @ src @ [CHR 10] @
      env_stringify env (nullish c (JStr []))) None)"

lemma content_cases:
  assumes "get k b = Some c"
  obtains (string) x where "c = Some (JStr x)" "str k b = Some x" | (other) "as_string c = None"
    "(case c of Some (JStr x) \<Rightarrow> f x | _ \<Rightarrow> y) = y"
  using assms by (cases c; cases "the c") (auto simp: str_def as_string_def)

lemma block_becomes:
  assumes "anthropic_block env names b = Some [p]"
  shows "becomes env names b p"
proof -
  obtain t where t: "str ''type'' b = Some t" using assms by (auto simp: anthropic_block_def split: bind_splits)
  note block = assms [unfolded anthropic_block_def t Option.bind.simps]
  consider "t = ''text''" | "t = ''thinking''" | "t = ''redacted_thinking''" | "t = ''tool_use'' \<or> t = ''server_tool_use''"
    | "t = ''web_search_tool_result''" | "t = ''tool_result''" | "t = ''image''" | "t = ''document''" | "t = ''search_result''"
    using block by (simp split: if_splits)
  then show ?thesis
  proof cases
    case 1
    then show ?thesis using block t by (auto split: bind_splits intro: plain_text)
  next
    case 2
    then show ?thesis using block t by (auto split: bind_splits intro: thought)
  next
    case 3
    then show ?thesis using block t by (auto intro: redacted)
  next
    case 4
    then have "(''tool_use'' = t \<or> ''server_tool_use'' = t)" "t \<noteq> ''text''" "t \<noteq> ''thinking''" by auto
    then show ?thesis using block t 4 by (auto split: bind_splits intro: call)
  next
    case 5
    then show ?thesis using block t by (auto split: bind_splits intro: web_result)
  next
    case 6
    then obtain i c where i: "str ''tool_use_id'' b = Some i" and c: "get ''content'' b = Some c"
      and p: "p = ToolResultPart i (Some (or_text (names i) i)) (OutText (case c of Some (JStr s) \<Rightarrow> s | _ \<Rightarrow> env_stringify env (nullish c (JStr []))))"
      using block by (auto split: bind_splits)
    show ?thesis
      using c by (cases rule: content_cases [where f = "\<lambda>x. x" and y = "env_stringify env (nullish c (JStr []))"])
        (use 6 t i c p in \<open>auto intro: text_result json_result\<close>)
  next
    case 7
    then show ?thesis using block t by (auto split: bind_splits if_splits option.splits intro: image_data [simplified] image_address image_stored)
  next
    case 8
    then obtain title src d x where f: "opt_str ''title'' b = Some title" "obj ''source'' b = Some src" "get ''data'' src = Some d" "get ''text'' src = Some x"
      using block by (auto split: bind_splits)
    have str: "str ''data'' src = as_string d" "str ''text'' src = as_string x" using f by (simp_all add: str_def)
    show ?thesis
      by (cases "as_string d"; cases "as_string x")
        (use 8 block t f str in \<open>auto split: bind_splits intro: document_data [simplified] document_text [simplified] document_other\<close>)
  next
    case 9
    then obtain title src c where f: "str ''title'' b = Some title" "str ''source'' b = Some src" and c: "get ''content'' b = Some c"
      and p: "p = TextPart (''[Search result: '' @ title @ '']'' @ [CHR 10] @ ''Source: '' @ src @ [CHR 10] @
         (case c of Some (JStr x) \<Rightarrow> x | _ \<Rightarrow> env_stringify env (nullish c (JStr [])))) None"
      using block by (auto split: bind_splits)
    show ?thesis
      using c by (cases rule: content_cases [where f = "\<lambda>x. x" and y = "env_stringify env (nullish c (JStr []))"])
        (use 9 t f c p in \<open>auto intro: found_text [simplified] found_json [simplified]\<close>)
  qed
qed

text \<open>A valid message becomes a message with the same role and one part for each of its blocks.\<close>

definition anthropic_size :: "json \<Rightarrow> nat" where
  "anthropic_size m = (case get ''content'' m of Some (Some (JArr bs)) \<Rightarrow> length bs | _ \<Rightarrow> 1)"

lemma anthropic_parts:
  assumes "get ''role'' m = Some (Some (JStr role))" "get ''content'' m = Some (Some (JArr bs))"
    and "\<forall>b\<in>set bs. conforms AnthropicContentBlockSchema b"
  shows "\<exists>ps. anthropic_message env names m = Some \<lparr>mrole = Some role, mcontent = Parts ps\<rparr> \<and> length ps = length bs
    \<and> (\<forall>k<length bs. anthropic_block env names (bs ! k) = Some [ps ! k])"
proof -
  have "map_js (anthropic_block env names) bs \<noteq> None"
    by (rule map_js_total) (use assms(3) anthropic_block_one in blast)
  then obtain ps where ps: "map_js (anthropic_block env names) bs = Some ps" by blast
  have "length p = 1" if "p \<in> set ps" for p
    using map_js_set [OF ps that] assms(3) anthropic_block_one [of _ env names] by fastforce
  note single = concat_singletons [OF this]
  have "anthropic_block env names (bs ! k) = Some [concat ps ! k]" if "k < length bs" for k
    using map_js_nth [OF ps that] single map_js_length [OF ps] that by simp
  then show ?thesis using assms single ps map_js_length [OF ps]
    by (intro exI [of _ "concat ps"]) (simp add: anthropic_message_def str_def as_string_def as_array_def)
qed

lemma anthropic_message_total:
  assumes "anthropic_valid m"
  shows "\<exists>ps. anthropic_message env names m = Some \<lparr>mrole = str ''role'' m, mcontent = Parts ps\<rparr> \<and> length ps = anthropic_size m"
  using assms
proof (cases rule: anthropic_validE)
  case (string role s)
  then show ?thesis by (simp add: anthropic_message_def str_def as_string_def anthropic_size_def)
next
  case (blocks role bs)
  show ?thesis using anthropic_parts [OF blocks, of env names] blocks
    by (auto simp: anthropic_size_def str_def as_string_def)
qed

lemma anthropic_messages_convert:
  assumes "\<forall>m\<in>set ms. anthropic_valid m"
  shows "\<exists>out calls. convertAnthropicToPlaygroundMessages env ms = Some out \<and> map_js anthropic_calls ms = Some calls
    \<and> map mrole out = map (str ''role'') ms
    \<and> (\<forall>i<length ms. anthropic_message env (last_name (concat calls)) (ms ! i) = Some (out ! i))"
proof -
  have "map_js anthropic_calls ms \<noteq> None" by (rule map_js_total) (use assms anthropic_calls_total in blast)
  then obtain calls where calls: "map_js anthropic_calls ms = Some calls" by blast
  let ?f = "anthropic_message env (last_name (concat calls))"
  have "map_js ?f ms \<noteq> None" by (rule map_js_total) (use assms anthropic_message_total in blast)
  then obtain out where out: "map_js ?f ms = Some out" by blast
  have "map mrole out = map (str ''role'') ms"
  proof (rule map_js_map [OF out])
    fix m c
    assume "m \<in> set ms" "?f m = Some c"
    then show "mrole c = str ''role'' m" using assms anthropic_message_total [of m env "last_name (concat calls)"] by auto
  qed
  then show ?thesis using map_js_nth [OF out] by (simp add: convertAnthropicToPlaygroundMessages_def calls out)
qed

text \<open>
  Claim C12. The conversion of validated Anthropic messages for the playground returns one message for each, with its
  role. A message that is a text becomes that text; otherwise its blocks become, one by one and in order, the parts
  their types prescribe, with their texts, identifiers, inputs, results and images, a result bearing the name of the last
  tool call of the whole conversation with its identifier.
\<close>
theorem anthropic_blocks_convert:
  assumes "zod sp" "parseAnthropicInput sp parse data = Some ms"
  shows "\<exists>out calls. convertAnthropicToPlaygroundMessages env ms = Some out \<and> map_js anthropic_calls ms = Some calls
    \<and> map mrole out = map (str ''role'') ms
    \<and> (\<forall>i<length ms. \<exists>ps. mcontent (out ! i) = Parts ps \<and>
        ((\<exists>x. get ''content'' (ms ! i) = Some (Some (JStr x)) \<and> ps = [TextPart x None]) \<or>
         (\<exists>bs. get ''content'' (ms ! i) = Some (Some (JArr bs)) \<and> list_all2 (becomes env (last_name (concat calls))) bs ps)))"
proof -
  have valid: "\<forall>m\<in>set ms. anthropic_valid m" using zod.anthropic_input_valid [OF assms] by blast
  obtain out calls where out: "convertAnthropicToPlaygroundMessages env ms = Some out" "map_js anthropic_calls ms = Some calls"
    "map mrole out = map (str ''role'') ms"
    and nth: "\<forall>i<length ms. anthropic_message env (last_name (concat calls)) (ms ! i) = Some (out ! i)"
    using anthropic_messages_convert [OF valid, of env] by (elim exE conjE) (rule that)
  have "\<exists>ps. mcontent (out ! i) = Parts ps \<and>
        ((\<exists>x. get ''content'' (ms ! i) = Some (Some (JStr x)) \<and> ps = [TextPart x None]) \<or>
         (\<exists>bs. get ''content'' (ms ! i) = Some (Some (JArr bs)) \<and> list_all2 (becomes env (last_name (concat calls))) bs ps))"
    if i: "i < length ms" for i
  proof -
    note nth_i = nth [rule_format, OF i]
    have "anthropic_valid (ms ! i)" using valid i by simp
    then show ?thesis
    proof (cases rule: anthropic_validE)
      case (string role s)
      then have "out ! i = \<lparr>mrole = Some role, mcontent = Parts [TextPart s None]\<rparr>" using nth_i
        by (simp add: anthropic_message_def str_def as_string_def)
      then show ?thesis using string by simp
    next
      case (blocks role bs)
      obtain ps where ps: "out ! i = \<lparr>mrole = Some role, mcontent = Parts ps\<rparr>" "length ps = length bs"
        "\<forall>k<length bs. anthropic_block env (last_name (concat calls)) (bs ! k) = Some [ps ! k]"
        using anthropic_parts [OF blocks, of env "last_name (concat calls)"] nth_i by auto
      have "list_all2 (becomes env (last_name (concat calls))) bs ps"
        using ps(2,3) block_becomes by (simp add: list_all2_conv_all_nth)
      then show ?thesis using blocks(2) ps(1) by simp
    qed
  qed
  then show ?thesis using out by blast
qed

definition search_messages :: "json list" where
  "search_messages =
     [JObj [(''role'', JStr ''assistant''), (''content'', JArr [JObj [(''type'', JStr ''tool_use''), (''id'', JStr ''u1''),
        (''name'', JStr ''search''), (''input'', JObj [])]])],
      JObj [(''role'', JStr ''user''), (''content'', JArr [JObj [(''type'', JStr ''tool_result''), (''tool_use_id'', JStr ''u1''),
        (''content'', JStr ''found'')]])]]"

lemma search_messages_parse: "parseAnthropicInput zod_parse (\<lambda>_. None) (JArr search_messages) = Some search_messages"
  by (simp add: parseAnthropicInput_def AnthropicMessageSchema_def AnthropicMessagesSchema_def search_messages_def
      AnthropicContentBlockSchema_def anthropic_blocks object_result_def object_fields_def field_result_def)

lemma search_messages_calls: "map_js anthropic_calls search_messages = Some [[(''u1'', ''search'')], []]"
  by (simp add: search_messages_def map_js_def anthropic_calls_def anthropic_is_call_def anthropic_call_name_def reading)

inductive_cases becomes_cases: "becomes env names b p"

theorem anthropic_blocks_convert_witness:
  "\<exists>out. convertAnthropicToPlaygroundMessages offline_env search_messages = Some out
     \<and> mcontent (out ! 1) = Parts [ToolResultPart ''u1'' (Some ''search'') (OutText ''found'')]"
proof -
  obtain out calls where out: "convertAnthropicToPlaygroundMessages offline_env search_messages = Some out"
    "map_js anthropic_calls search_messages = Some calls"
    and parts: "\<forall>i<length search_messages. \<exists>ps. mcontent (out ! i) = Parts ps \<and>
        ((\<exists>x. get ''content'' (search_messages ! i) = Some (Some (JStr x)) \<and> ps = [TextPart x None]) \<or>
         (\<exists>bs. get ''content'' (search_messages ! i) = Some (Some (JArr bs)) \<and>
           list_all2 (becomes offline_env (last_name (concat calls))) bs ps))"
    using anthropic_blocks_convert [OF zod_lib.zod_axioms search_messages_parse, of offline_env]
    by (elim exE conjE) (rule that)
  have calls: "calls = [[(''u1'', ''search'')], []]" using out(2) search_messages_calls by simp
  let ?b = "JObj [(''type'', JStr ''tool_result''), (''tool_use_id'', JStr ''u1''), (''content'', JStr ''found'')]"
  from parts [rule_format, of 1] obtain ps where ps: "mcontent (out ! 1) = Parts ps"
    "list_all2 (becomes offline_env (last_name (concat calls))) [?b] ps"
    by (auto simp: search_messages_def reading)
  then obtain p where p: "ps = [p]" "becomes offline_env (last_name (concat calls)) ?b p" by (auto simp: list_all2_Cons1)
  from p(2) have "p = ToolResultPart ''u1'' (Some ''search'') (OutText ''found'')"
    by (cases rule: becomes_cases)
      (auto simp: str_def get_obj as_string_def as_value_def opt_str_def obj_def calls last_name_def or_text_def)
  then show ?thesis using out(1) ps(1) p(1) by blast
qed

section \<open>The adapter returns\<close>

lemma anthropic_texts_total:
  assumes "\<forall>b\<in>set bs. conforms AnthropicContentBlockSchema b"
  shows "\<exists>ts. anthropic_texts bs = Some ts"
proof -
  have "filter_js (get_is ''type'' ''text'') bs \<noteq> None"
    by (rule filter_js_total) (use assms anthropic_block_object(2) in \<open>fastforce simp: get_is_def\<close>)
  then obtain ts where ts: "filter_js (get_is ''type'' ''text'') bs = Some ts" by blast
  have "map_js (str ''text'') ts \<noteq> None"
  proof (rule map_js_total)
    fix t
    assume "t \<in> set ts"
    then show "str ''text'' t \<noteq> None"
      using filter_js_set [OF ts] assms anthropic_block_object(2,3) [of t] by (auto simp: get_is_def)
  qed
  then show ?thesis by (simp add: anthropic_texts_def ts)
qed

lemma anthropic_content_texts:
  assumes "anthropic_valid m"
  obtains c where "get ''content'' m = Some c"
    "\<exists>s. c = Some (JStr s) \<or> (\<exists>bs. c = Some (JArr bs) \<and> (\<exists>ts. anthropic_texts bs = Some ts))"
  using assms by (cases rule: anthropic_validE) (auto dest: anthropic_texts_total)

lemma anthropic_role_total: "anthropic_valid m \<Longrightarrow> get_is ''role'' r m \<noteq> None"
  by (auto simp: anthropic_valid_def get_is_def)

lemma anthropic_first_user_total:
  assumes "\<forall>m\<in>set ms. anthropic_valid m"
  shows "\<exists>us. anthropic_first_user ms = Some us"
proof -
  have "find_js (get_is ''role'' ''user'') ms \<noteq> None"
    by (rule find_js_total) (use assms anthropic_role_total in blast)
  then obtain u where u: "find_js (get_is ''role'' ''user'') ms = Some u" by blast
  show ?thesis
  proof (cases u)
    case (Some m)
    then have "anthropic_valid m" using find_js_Some [of _ ms m] u assms by blast
    then show ?thesis by (rule anthropic_content_texts) (auto simp: anthropic_first_user_def u Some as_array_def)
  qed (simp add: anthropic_first_user_def u)
qed

context zod begin

lemma anthropic_input_total: "parseSystemAndUserAnthropic safeParse parse data \<noteq> None"
proof (cases "parseAnthropicInput safeParse parse data")
  case (Some ms)
  then have valid: "\<forall>m\<in>set ms. anthropic_valid m" using anthropic_input_valid by blast
  have "find_js (get_is ''role'' ''system'') ms \<noteq> None"
    by (rule find_js_total) (use valid anthropic_role_total in blast)
  then obtain sm where sm: "find_js (get_is ''role'' ''system'') ms = Some sm" by blast
  obtain us where us: "anthropic_first_user ms = Some us" using anthropic_first_user_total [OF valid] by blast
  show ?thesis
  proof (cases sm)
    case sys: (Some m)
    then have "anthropic_valid m" using find_js_Some [of _ ms m] sm valid by blast
    then show ?thesis
      by (rule anthropic_content_texts) (auto simp: parseSystemAndUserAnthropic_def Some sm sys us as_array_def)
  qed (simp add: parseSystemAndUserAnthropic_def Some sm us)
qed (simp add: parseSystemAndUserAnthropic_def)

lemma block_texts_total: "block_texts safeParse b \<noteq> None"
proof -
  have "parsed_str safeParse AnthropicTextBlockSchema ''text'' b \<noteq> None"
  proof (cases "safeParse AnthropicTextBlockSchema b")
    case (Some r)
    then show ?thesis
      using string_field [OF parse_conforms [OF Some, unfolded AnthropicTextBlockSchema_def], of "''text''"]
      by (auto simp: parsed_str_def str_def as_string_def)
  qed (simp add: parsed_str_def)
  moreover have "parsed_str safeParse AnthropicThinkingBlockSchema ''thinking'' b \<noteq> None"
  proof (cases "safeParse AnthropicThinkingBlockSchema b")
    case (Some r)
    then show ?thesis
      using string_field [OF parse_conforms [OF Some, unfolded AnthropicThinkingBlockSchema_def], of "''thinking''"]
      by (auto simp: parsed_str_def str_def as_string_def)
  qed (simp add: parsed_str_def)
  ultimately show ?thesis by (auto simp: block_texts_def)
qed

lemma anthropic_render_total:
  "\<exists>r. renderOutputTextAnthropic safeParse data = Some r \<and>
     (r \<noteq> None \<longleftrightarrow> safeParse AnthropicOutputMessageSchema data \<noteq> None \<or> safeParse AnthropicOutputMessagesSchema data \<noteq> None)"
proof -
  obtain r where r: "parseAnthropicOutput safeParse data = Some r"
    "r \<noteq> None \<longleftrightarrow> safeParse AnthropicOutputMessageSchema data \<noteq> None \<or> safeParse AnthropicOutputMessagesSchema data \<noteq> None"
    and valid: "\<forall>ms. r = Some ms \<longrightarrow> (\<forall>m\<in>set ms. anthropic_valid m)"
    using anthropic_output_valid [of data] by (elim exE conjE) (rule that)
  have "map_js (block_texts safeParse) bs \<noteq> None" for bs by (rule map_js_total) (rule block_texts_total)
  then have texts: "\<exists>ps. map_js (block_texts safeParse) bs = Some ps" for bs by blast
  have content: "renderAnthropicMessage safeParse m \<noteq> None" if "anthropic_valid m" for m
    using that
  proof (cases rule: anthropic_validE)
    case (blocks role bs)
    obtain ps where "map_js (block_texts safeParse) bs = Some ps" using texts by blast
    then show ?thesis using blocks by (simp add: renderAnthropicMessage_def)
  qed (simp add: renderAnthropicMessage_def)
  have "map_js (renderAnthropicMessage safeParse) ms \<noteq> None" if "r = Some ms" for ms
    by (rule map_js_total) (use valid that content in blast)
  then show ?thesis using r by (cases r) (auto simp: renderOutputTextAnthropic_def)
qed

lemma anthropic_tools_total: "extractToolsIfToolOnlyAnthropic safeParse data \<noteq> None"
proof -
  obtain r where r: "parseAnthropicOutput safeParse data = Some r"
    and valid: "\<forall>ms. r = Some ms \<longrightarrow> (\<forall>m\<in>set ms. anthropic_valid m)"
    using anthropic_output_valid [of data] by (elim exE conjE) (rule that)
  have block: "block_has_text b \<noteq> None" if "conforms AnthropicContentBlockSchema b" for b
    using anthropic_block_object(1) [OF that] by (auto simp: block_has_text_def reading)
  have shown: "anthropicHasText m \<noteq> None" if "anthropic_valid m" for m
    using that some_js_total [of _ block_has_text] block
    by (cases rule: anthropic_validE) (auto simp: anthropicHasText_def)
  have call: "anthropic_tool b \<noteq> None" if "conforms AnthropicContentBlockSchema b" "anthropic_is_call b = Some True" for b
    using anthropic_block_object(1) [OF that(1)] anthropic_block_object(4) [OF that]
    by (auto simp: anthropic_tool_def anthropic_call_name_def get_obj split: bind_splits)
  have tools: "anthropic_tools m \<noteq> None" if "anthropic_valid m" for m
    using that
  proof (cases rule: anthropic_validE)
    case (blocks role bs)
    have "filter_js anthropic_is_call bs \<noteq> None"
      by (rule filter_js_total) (use blocks(3) anthropic_block_object(2) in \<open>fastforce simp: anthropic_is_call_def get_is_def\<close>)
    then obtain cs where cs: "filter_js anthropic_is_call bs = Some cs" by blast
    have "map_js anthropic_tool cs \<noteq> None"
      by (rule map_js_total) (use filter_js_set [OF cs] blocks(3) call in blast)
    then show ?thesis using blocks(2) cs by (simp add: anthropic_tools_def)
  qed (simp add: anthropic_tools_def)
  have "some_js anthropicHasText ms \<noteq> None" if "r = Some ms" for ms
    by (rule some_js_total) (use valid that shown in blast)
  moreover have "map_js anthropic_tools ms \<noteq> None" if "r = Some ms" for ms
    by (rule map_js_total) (use valid that tools in blast)
  ultimately show ?thesis using r by (cases r) (fastforce simp: extractToolsIfToolOnlyAnthropic_def)+
qed

end

end
