(* ===== verification/GeminiMessages.thy ===== *)
theory GeminiMessages
  imports Messages
begin

text \<open>
  The contents and candidates of Gemini: their schemas with the normalisation of keys, their validation and their
  conversion for the playground (\<open>lib/spans/types/gemini.ts\<close>), and the adapter (\<open>lib/spans/providers/gemini.ts\<close>).
\<close>

section \<open>Schemas\<close>

definition z_extend :: "schema \<Rightarrow> (string \<times> schema) list \<Rightarrow> schema" where
  "z_extend s gs = (case s of ZObject m fs \<Rightarrow> ZObject m (fs @ gs) | _ \<Rightarrow> s)"

definition GeminiPartMetadataSchema :: schema where
  "GeminiPartMetadataSchema =
     z_object [(''thought'', ZOptional ZBoolean), (''thoughtSignature'', ZOptional ZString),
       (''partMetadata'', ZOptional (ZRecord ZUnknown)),
       (''videoMetadata'', ZOptional (z_object [(''startOffset'', ZOptional ZString),
       (''endOffset'', ZOptional ZString)]))]"

definition GeminiTextPartSchema :: schema where
  "GeminiTextPartSchema =
     z_extend GeminiPartMetadataSchema [(''text'', ZString)]"

definition GeminiInlineDataPartSchema :: schema where
  "GeminiInlineDataPartSchema =
     z_extend GeminiPartMetadataSchema [(''inlineData'', z_object [(''mimeType'', ZString),
       (''data'', ZString)])]"

definition GeminiFileDataPartSchema :: schema where
  "GeminiFileDataPartSchema =
     z_extend GeminiPartMetadataSchema [(''fileData'', z_object [(''mimeType'', ZOptional ZString),
       (''fileUri'', ZString)])]"

definition GeminiFunctionCallPartSchema :: schema where
  "GeminiFunctionCallPartSchema =
     z_extend GeminiPartMetadataSchema [(''functionCall'', z_object [(''id'', ZOptional ZString),
       (''name'', ZString), (''args'', ZOptional (ZRecord ZUnknown))])]"

definition GeminiFunctionResponsePartSchema :: schema where
  "GeminiFunctionResponsePartSchema =
     z_extend GeminiPartMetadataSchema [(''functionResponse'', z_object [(''id'', ZOptional ZString),
       (''name'', ZString), (''response'', ZRecord ZUnknown)])]"

definition GeminiExecutableCodePartSchema :: schema where
  "GeminiExecutableCodePartSchema =
     z_extend GeminiPartMetadataSchema [(''executableCode'', z_object [(''language'', ZEnum [''LANGUAGE_UNSPECIFIED'',
       ''PYTHON'']), (''code'', ZString)])]"

definition GeminiCodeExecutionResultPartSchema :: schema where
  "GeminiCodeExecutionResultPartSchema =
     z_extend GeminiPartMetadataSchema [(''codeExecutionResult'', z_object [(''outcome'', ZEnum [''OUTCOME_UNSPECIFIED'',
       ''OUTCOME_OK'', ''OUTCOME_FAILED'', ''OUTCOME_DEADLINE_EXCEEDED'']), (''output'', ZOptional ZString)])]"

text \<open>Keys in snake case are turned to camel case: an underscore before a lower case letter is dropped.\<close>

definition is_lower :: "char \<Rightarrow> bool" where
  "is_lower c = char_between (CHR ''a'') (CHR ''z'') c"

definition to_upper_char :: "char \<Rightarrow> char" where
  "to_upper_char c = char_of ((of_char c :: nat) - 32)"

fun snakeToCamel :: "string \<Rightarrow> string" where
  "snakeToCamel [] = []"
| "snakeToCamel [c] = [c]"
| "snakeToCamel (c # d # s) =
     (if c = CHR ''_'' \<and> is_lower d then to_upper_char d # snakeToCamel s else c # snakeToCamel (d # s))"

definition NORMALIZE_NESTED :: "string list" where
  "NORMALIZE_NESTED = [''inlineData'', ''fileData'', ''videoMetadata'']"

definition camel_keys :: "(string \<times> json) list \<Rightarrow> (string \<times> json) list" where
  "camel_keys kvs = foldl (\<lambda>out p. AList.update (snakeToCamel (fst p)) (snd p) out) [] kvs"

definition normalize_entry :: "string \<Rightarrow> json \<Rightarrow> json" where
  "normalize_entry mapped v = (case v of
     JObj kvs \<Rightarrow> if mapped \<in> set NORMALIZE_NESTED then JObj (camel_keys kvs) else v
   | _ \<Rightarrow> v)"

definition normalizePartKeys :: "json \<Rightarrow> json" where
  "normalizePartKeys part = (case part of
     JObj kvs \<Rightarrow> JObj (foldl (\<lambda>out p.
       AList.update (snakeToCamel (fst p)) (normalize_entry (snakeToCamel (fst p)) (snd p)) out) [] kvs)
   | _ \<Rightarrow> part)"

definition GeminiPartSchema :: schema where
  "GeminiPartSchema =
     ZPreprocess normalizePartKeys (ZUnion [GeminiTextPartSchema, GeminiInlineDataPartSchema,
       GeminiFileDataPartSchema, GeminiFunctionCallPartSchema, GeminiFunctionResponsePartSchema,
       GeminiExecutableCodePartSchema, GeminiCodeExecutionResultPartSchema])"

definition GeminiContentSchema :: schema where
  "GeminiContentSchema =
     z_object [(''role'', ZOptional (ZEnum [''user'', ''model'', ''system''])),
       (''parts'', ZArray GeminiPartSchema)]"

definition GeminiContentsSchema :: schema where
  "GeminiContentsSchema =
     ZArray GeminiContentSchema"

definition GeminiCandidateSchema :: schema where
  "GeminiCandidateSchema =
     z_loose [(''content'', GeminiContentSchema), (''finish_reason'', ZOptional ZString),
       (''avg_logprobs'', ZOptional ZNumber), (''index'', ZOptional ZNumber)]"

definition GeminiCandidatesSchema :: schema where
  "GeminiCandidatesSchema =
     ZArray GeminiCandidateSchema"

definition GeminiInputSchema :: schema where
  "GeminiInputSchema =
     ZUnion [GeminiContentSchema, GeminiContentsSchema]"

definition GeminiOutputSchema :: schema where
  "GeminiOutputSchema =
     ZUnion [GeminiCandidateSchema, GeminiCandidatesSchema]"

definition GeminiContentOrCandidateSchema :: schema where
  "GeminiContentOrCandidateSchema =
     ZUnion [GeminiContentSchema, GeminiCandidateSchema]"

section \<open>Validation\<close>

definition parseGeminiInput :: "(schema \<Rightarrow> json \<Rightarrow> json option) \<Rightarrow> json \<Rightarrow> json list option" where
  "parseGeminiInput sp data = map_option to_array (sp GeminiInputSchema data)"

definition parseGeminiOutput :: "(schema \<Rightarrow> json \<Rightarrow> json option) \<Rightarrow> json \<Rightarrow> json list option option" where
  "parseGeminiOutput sp data = (case sp GeminiOutputSchema data of
     None \<Rightarrow> Some None
   | Some r \<Rightarrow> map_option Some (map_js (obj ''content'') (to_array r)))"

text \<open>A mix of contents and candidates, as the overview of a span has it.\<close>

definition parseGeminiContents :: "(schema \<Rightarrow> json \<Rightarrow> json option) \<Rightarrow> json \<Rightarrow> json list option option" where
  "parseGeminiContents sp data = (case sp (ZArray GeminiContentOrCandidateSchema) (JArr (to_array data)) of
     Some (JArr els) \<Rightarrow>
       if els = [] then Some None
       else map_option Some (map_js (\<lambda>el. do {
         k \<leftarrow> has_key ''content'' el;
         if k then obj ''content'' el else Some el }) els)
   | _ \<Rightarrow> Some None)"

definition gemini_texts :: "json list \<Rightarrow> string list option" where
  "gemini_texts parts = do { ts \<leftarrow> filter_js (has_key ''text'') parts; map_js (str ''text'') ts }"

definition extractGeminiSystemMessage :: "json list \<Rightarrow> string option option" where
  "extractGeminiSystemMessage ms = do {
     sm \<leftarrow> find_js (get_is ''role'' ''system'') ms;
     (case sm of
        None \<Rightarrow> Some None
      | Some m \<Rightarrow> do {
          ps \<leftarrow> arr ''parts'' m;
          ts \<leftarrow> gemini_texts ps;
          Some (if ts = [] then None else Some (join [CHR 10] ts)) })
   }"

section \<open>Conversion\<close>

definition toStandardBase64 :: "string \<Rightarrow> string" where
  "toStandardBase64 s = replace_char (CHR ''_'') ''/'' (replace_char (CHR ''-'') ''+'' s)"

definition gemini_part :: "message_env \<Rightarrow> json \<Rightarrow> string part list option" where
  "gemini_part env p = do {
     sig \<leftarrow> opt_str ''thoughtSignature'' p;
     text \<leftarrow> has_key ''text'' p;
     inline \<leftarrow> has_key ''inlineData'' p;
     fileData \<leftarrow> has_key ''fileData'' p;
     call \<leftarrow> has_key ''functionCall'' p;
     response \<leftarrow> has_key ''functionResponse'' p;
     code \<leftarrow> has_key ''executableCode'' p;
     result \<leftarrow> has_key ''codeExecutionResult'' p;
     let s = (if truthy sig then sig else None) in
     if text then do { t \<leftarrow> str ''text'' p; Some [TextPart t s] }
     else if inline then do {
       d \<leftarrow> obj ''inlineData'' p;
       mt \<leftarrow> str ''mimeType'' d;
       raw \<leftarrow> str ''data'' d;
       Some (if starts_with ''image/'' mt then
         (let image = (if isStorageUrl raw then (case urlToBase64 env raw of Some b \<Rightarrow> b | None \<Rightarrow> raw) else raw)
          in [ImagePart (if starts_with ''data:'' image then image
                else ''data:'' @ mt @ '';base64,'' @ toStandardBase64 image)])
         else [TextPart (''[Inline '' @ mt @ '' data]'') None]) }
     else if fileData then do {
       d \<leftarrow> obj ''fileData'' p;
       mt \<leftarrow> opt_str ''mimeType'' d;
       uri \<leftarrow> str ''fileUri'' d;
       Some (if (case mt of None \<Rightarrow> False | Some t \<Rightarrow> starts_with ''image/'' t) \<and> isStorageUrl uri then
         (case urlToBase64 env uri of
            Some b \<Rightarrow> [ImagePart b] | None \<Rightarrow> [TextPart (''[File: '' @ uri @ '']'') None])
         else [TextPart (''[File: '' @ uri @ '']'') None]) }
     else if call then do {
       f \<leftarrow> obj ''functionCall'' p;
       i \<leftarrow> opt_str ''id'' f;
       n \<leftarrow> str ''name'' f;
       args \<leftarrow> get ''args'' f;
       Some [ToolCallPart (case i of Some j \<Rightarrow> j | None \<Rightarrow> n) n (InRaw (Some (nullish args (JObj [])))) s] }
     else if response then do {
       f \<leftarrow> obj ''functionResponse'' p;
       i \<leftarrow> opt_str ''id'' f;
       n \<leftarrow> str ''name'' f;
       r \<leftarrow> obj ''response'' f;
       Some [ToolResultPart (case i of Some j \<Rightarrow> j | None \<Rightarrow> n) (Some n) (OutJson (env_stringify env r))] }
     else if code then do { e \<leftarrow> obj ''executableCode'' p; c \<leftarrow> str ''code'' e; Some [TextPart c None] }
     else if result then do {
       r \<leftarrow> obj ''codeExecutionResult'' p;
       outcome \<leftarrow> str ''outcome'' r;
       out \<leftarrow> opt_str ''output'' r;
       Some [TextPart (''['' @ outcome @ '']'' @ [CHR 10] @ case_option [] id out) None] }
     else Some []
   }"

definition gemini_role :: "json \<Rightarrow> string option" where
  "gemini_role m = do {
     model \<leftarrow> get_is ''role'' ''model'' m;
     system \<leftarrow> get_is ''role'' ''system'' m;
     Some (if model then ''assistant'' else if system then ''system'' else ''user'')
   }"

definition gemini_message :: "message_env \<Rightarrow> json \<Rightarrow> string message option" where
  "gemini_message env m = do {
     parts \<leftarrow> arr ''parts'' m;
     ps \<leftarrow> map_js (gemini_part env) parts;
     role \<leftarrow> gemini_role m;
     Some \<lparr>mrole = Some role, mcontent = Parts (concat ps)\<rparr>
   }"

definition convertGeminiToPlaygroundMessages :: "message_env \<Rightarrow> json list \<Rightarrow> string message list option" where
  "convertGeminiToPlaygroundMessages env ms = map_js (gemini_message env) ms"

section \<open>Adapter\<close>

definition gemini_first_user :: "json list \<Rightarrow> string list option" where
  "gemini_first_user ms = do {
     m \<leftarrow> find_js (get_is ''role'' ''user'') ms;
     (case m of
        None \<Rightarrow> Some []
      | Some c \<Rightarrow> do { ps \<leftarrow> arr ''parts'' c; gemini_texts ps })
   }"

definition parseSystemAndUserGemini :: "(schema \<Rightarrow> json \<Rightarrow> json option) \<Rightarrow> json \<Rightarrow> parsed_input option option" where
  "parseSystemAndUserGemini sp data = (case parseGeminiInput sp data of
     None \<Rightarrow> Some None
   | Some ms \<Rightarrow> do {
       sm \<leftarrow> find_js (get_is ''role'' ''system'') ms;
       sys \<leftarrow> (case sm of
          None \<Rightarrow> Some None
        | Some m \<Rightarrow> do {
            ps \<leftarrow> arr ''parts'' m;
            ts \<leftarrow> gemini_texts ps;
            Some (if ts = [] then None else Some (join '' '' ts)) });
       us \<leftarrow> gemini_first_user ms;
       Some (Some \<lparr>systemText = sys, userParts = us\<rparr>)
     })"

text \<open>A truthy \<open>thought\<close> marks a text as a thought.\<close>

definition gemini_part_texts :: "json \<Rightarrow> (string list \<times> string list) option" where
  "gemini_part_texts p = do {
     text \<leftarrow> has_key ''text'' p;
     if \<not> text then Some ([], [])
     else do {
       thought \<leftarrow> get ''thought'' p;
       t \<leftarrow> str ''text'' p;
       Some (if thought = Some (JBool True) then ([], [t]) else ([t], []))
     }
   }"

definition renderGeminiMessage :: "json \<Rightarrow> string option" where
  "renderGeminiMessage m = do {
     parts \<leftarrow> arr ''parts'' m;
     ps \<leftarrow> map_js gemini_part_texts parts;
     (let ts = concat (map fst ps); hs = concat (map snd ps)
      in Some (joinNonEmpty (map Some (if ts \<noteq> [] then ts else hs))))
   }"

definition renderOutputTextGemini :: "(schema \<Rightarrow> json \<Rightarrow> json option) \<Rightarrow> json \<Rightarrow> string option option" where
  "renderOutputTextGemini sp data = do {
     ms \<leftarrow> parseGeminiOutput sp data;
     (case ms of
        None \<Rightarrow> Some None
      | Some cs \<Rightarrow> map_option (\<lambda>ts. Some (joinNonEmpty (map Some ts))) (map_js renderGeminiMessage cs))
   }"

definition geminiHasText :: "json \<Rightarrow> bool option" where
  "geminiHasText m = do {
     parts \<leftarrow> arr ''parts'' m;
     some_js (\<lambda>p. do { text \<leftarrow> has_key ''text'' p; t \<leftarrow> get ''text'' p; Some (text \<and> \<not> isBlank t) }) parts
   }"

definition gemini_tool :: "json \<Rightarrow> extracted_tool list option" where
  "gemini_tool p = do {
     call \<leftarrow> has_key ''functionCall'' p;
     if call then do {
       f \<leftarrow> obj ''functionCall'' p;
       n \<leftarrow> str ''name'' f;
       args \<leftarrow> get ''args'' f;
       Some [\<lparr>toolName = n, toolInput = Some (nullish args (JObj []))\<rparr>]
     } else Some []
   }"

definition gemini_tools :: "json \<Rightarrow> extracted_tool list option" where
  "gemini_tools m = do { parts \<leftarrow> arr ''parts'' m; ts \<leftarrow> map_js gemini_tool parts; Some (concat ts) }"

definition extractToolsIfToolOnlyGemini ::
  "(schema \<Rightarrow> json \<Rightarrow> json option) \<Rightarrow> json \<Rightarrow> extracted_tool list option option" where
  "extractToolsIfToolOnlyGemini sp data = do {
     ms \<leftarrow> parseGeminiOutput sp data;
     (case ms of
        None \<Rightarrow> Some None
      | Some cs \<Rightarrow> do {
          shown \<leftarrow> some_js geminiHasText cs;
          if shown then Some None
          else do {
            tools \<leftarrow> map_js gemini_tools cs;
            Some (if concat tools = [] then None else Some (concat tools))
          } })
   }"

definition geminiAdapter :: "(schema \<Rightarrow> json \<Rightarrow> json option) \<Rightarrow> adapter" where
  "geminiAdapter sp = \<lparr>adapter_id = HGemini,
     detects = (\<lambda>data. Some (sp GeminiOutputSchema data \<noteq> None)),
     parseSystemAndUser = Some (parseSystemAndUserGemini sp),
     renderOutputText = Some (renderOutputTextGemini sp),
     extractTools = Some (extractToolsIfToolOnlyGemini sp)\<rparr>"

section \<open>Normalisation of keys\<close>

lemma to_upper_not_lower: "is_lower d \<Longrightarrow> \<not> is_lower (to_upper_char d) \<and> to_upper_char d \<noteq> CHR ''_''"
proof -
  assume "is_lower d"
  then have "97 \<le> (of_char d :: nat)" "(of_char d :: nat) \<le> 122" by (simp_all add: is_lower_def char_between_def)
  moreover from this have "(of_char (to_upper_char d) :: nat) = of_char d - 32" by (simp add: to_upper_char_def)
  ultimately show ?thesis by (auto simp: is_lower_def char_between_def)
qed

text \<open>In its result no underscore stands before a lower case letter.\<close>

fun camel :: "string \<Rightarrow> bool" where
  "camel (c # d # s) = (\<not> (c = CHR ''_'' \<and> is_lower d) \<and> camel (d # s))"
| "camel _ = True"

lemma snakeToCamel_hd: "snakeToCamel (d # s) \<noteq> [] \<and> (is_lower (hd (snakeToCamel (d # s))) \<longrightarrow> is_lower d)"
  by (cases s) (auto dest: to_upper_not_lower)

lemma camel_Cons: "camel (c # s) \<longleftrightarrow> camel s \<and> (s = [] \<or> \<not> (c = CHR ''_'' \<and> is_lower (hd s)))"
  by (cases s) auto

lemma snakeToCamel_camel: "camel (snakeToCamel s)"
proof (induction s rule: snakeToCamel.induct)
  case (3 c d s)
  then show ?case using snakeToCamel_hd [of d s] to_upper_not_lower [of d] by (auto simp: camel_Cons)
qed simp_all

lemma snakeToCamel_id: "camel s \<Longrightarrow> snakeToCamel s = s"
  by (induction s rule: snakeToCamel.induct) auto

lemma snakeToCamel_idem [simp]: "snakeToCamel (snakeToCamel s) = snakeToCamel s"
  by (rule snakeToCamel_id) (rule snakeToCamel_camel)

text \<open>Entering entries one by one into an object, later ones over earlier ones with the same key.\<close>

definition insert_all :: "(string \<times> json) list \<Rightarrow> (string \<times> json) list" where
  "insert_all ps = foldl (\<lambda>out p. AList.update (fst p) (snd p) out) [] ps"

lemma camel_keys_eq: "camel_keys kvs = insert_all (map (\<lambda>p. (snakeToCamel (fst p), snd p)) kvs)"
  by (simp add: camel_keys_def insert_all_def foldl_map)

lemma normalizePartKeys_eq:
  "normalizePartKeys (JObj kvs) =
     JObj (insert_all (map (\<lambda>p. (snakeToCamel (fst p), normalize_entry (snakeToCamel (fst p)) (snd p))) kvs))"
  by (simp add: normalizePartKeys_def insert_all_def foldl_map)

lemma update_set: "set (AList.update k v al) \<subseteq> insert (k, v) (set al)"
  by (induction al) auto

lemma insert_all_from:
  "distinct (map fst acc) \<Longrightarrow>
     distinct (map fst (foldl (\<lambda>out p. AList.update (fst p) (snd p) out) acc ps))
     \<and> set (foldl (\<lambda>out p. AList.update (fst p) (snd p) out) acc ps) \<subseteq> set acc \<union> set ps"
proof (induction ps arbitrary: acc)
  case (Cons p ps)
  then have "distinct (map fst (AList.update (fst p) (snd p) acc))" by (simp add: distinct_update)
  then show ?case using Cons(1) [of "AList.update (fst p) (snd p) acc"] update_set [of "fst p" "snd p" acc] by auto
qed simp

lemma insert_all_distinct: "distinct (map fst (insert_all ps))"
  and insert_all_set: "set (insert_all ps) \<subseteq> set ps"
  using insert_all_from [of "[]" ps] by (simp_all add: insert_all_def)

lemma update_new: "k \<notin> fst ` set al \<Longrightarrow> AList.update k v al = al @ [(k, v)]"
  by (induction al) auto

lemma insert_all_distinct_id: "distinct (map fst ps) \<Longrightarrow> insert_all ps = ps"
proof -
  have "distinct (map fst (acc @ ps)) \<Longrightarrow> foldl (\<lambda>out p. AList.update (fst p) (snd p) out) acc ps = acc @ ps" for acc ps
    by (induction ps arbitrary: acc) (auto simp: update_new)
  from this [of "[]" ps] show "distinct (map fst ps) \<Longrightarrow> insert_all ps = ps" by (simp add: insert_all_def)
qed

lemma insert_all_again:
  assumes "\<And>p. p \<in> set ps \<Longrightarrow> f p = p"
  shows "insert_all (map f (insert_all ps)) = insert_all ps"
proof -
  have "map f (insert_all ps) = insert_all ps" using insert_all_set [of ps] assms by (intro map_idI) auto
  then show ?thesis by (simp add: insert_all_distinct_id insert_all_distinct)
qed

lemma camel_keys_idem: "camel_keys (camel_keys kvs) = camel_keys kvs"
  unfolding camel_keys_eq by (rule insert_all_again) auto

lemma normalize_entry_idem: "normalize_entry m (normalize_entry m v) = normalize_entry m v"
  by (auto simp: normalize_entry_def camel_keys_idem split: json.splits)

text \<open>Payloads in either convention are read alike, since normalising keys twice is normalising them once.\<close>

lemma normalizePartKeys_idem: "normalizePartKeys (normalizePartKeys part) = normalizePartKeys part"
proof (cases part)
  case (JObj kvs)
  show ?thesis unfolding JObj normalizePartKeys_eq json.inject
    by (rule insert_all_again) (auto simp: normalize_entry_idem)
qed (simp_all add: normalizePartKeys_def)

section \<open>Valid parts\<close>

lemmas gemini_variants = GeminiTextPartSchema_def GeminiInlineDataPartSchema_def GeminiFileDataPartSchema_def
  GeminiFunctionCallPartSchema_def GeminiFunctionResponsePartSchema_def GeminiExecutableCodePartSchema_def
  GeminiCodeExecutionResultPartSchema_def GeminiPartMetadataSchema_def z_extend_def

text \<open>The key that tells the variants apart, and the schema of its value.\<close>

definition gemini_payloads :: "(string \<times> schema) list" where
  "gemini_payloads = [(''text'', ZString), (''inlineData'', z_object [(''mimeType'', ZString), (''data'', ZString)]),
     (''fileData'', z_object [(''mimeType'', ZOptional ZString), (''fileUri'', ZString)]),
     (''functionCall'', z_object [(''id'', ZOptional ZString), (''name'', ZString), (''args'', ZOptional (ZRecord ZUnknown))]),
     (''functionResponse'', z_object [(''id'', ZOptional ZString), (''name'', ZString), (''response'', ZRecord ZUnknown)]),
     (''executableCode'', z_object [(''language'', ZEnum [''LANGUAGE_UNSPECIFIED'', ''PYTHON'']), (''code'', ZString)]),
     (''codeExecutionResult'', z_object [(''outcome'', ZEnum [''OUTCOME_UNSPECIFIED'', ''OUTCOME_OK'', ''OUTCOME_FAILED'',
        ''OUTCOME_DEADLINE_EXCEEDED'']), (''output'', ZOptional ZString)])]"

definition gemini_metadata :: "(string \<times> schema) list" where
  "gemini_metadata = [(''thought'', ZOptional ZBoolean), (''thoughtSignature'', ZOptional ZString),
     (''partMetadata'', ZOptional (ZRecord ZUnknown)),
     (''videoMetadata'', ZOptional (z_object [(''startOffset'', ZOptional ZString), (''endOffset'', ZOptional ZString)]))]"

lemma GeminiPartSchema_eq:
  "GeminiPartSchema = ZPreprocess normalizePartKeys (ZUnion (map (\<lambda>q. z_object (gemini_metadata @ [q])) gemini_payloads))"
  by (simp add: GeminiPartSchema_def gemini_variants gemini_payloads_def gemini_metadata_def)

lemma gemini_part_variant:
  assumes "conforms GeminiPartSchema p"
  obtains q where "q \<in> set gemini_payloads" "conforms (z_object (gemini_metadata @ [q])) p"
  using assms unfolding GeminiPartSchema_eq conforms.simps(11,14) list_ex_iff set_map by blast

lemma gemini_part_shape:
  assumes "conforms GeminiPartSchema p"
  obtains k s kvs v where "(k, s) \<in> set gemini_payloads" "p = JObj kvs" "map_of kvs k = Some v" "conforms s v"
    "\<forall>k'\<in>fst ` set gemini_payloads. k' \<noteq> k \<longrightarrow> map_of kvs k' = None" "\<exists>t. opt_str ''thoughtSignature'' p = Some t"
    "\<exists>w. get ''thought'' p = Some w"
proof -
  obtain q where q: "q \<in> set gemini_payloads" and conf: "conforms (z_object (gemini_metadata @ [q])) p"
    by (rule gemini_part_variant [OF assms])
  obtain k s where ks: "q = (k, s)" by fastforce
  have dist: "distinct (map fst (gemini_metadata @ [q]))"
    using q by (auto simp: gemini_payloads_def gemini_metadata_def)
  have "\<not> accepts_missing s" using q ks by (auto simp: gemini_payloads_def)
  then obtain v where v: "get k p = Some (Some v)" "conforms s v"
    using get_field [OF conf dist, of k s] ks by auto
  obtain kvs where kvs: "p = JObj kvs" using conf dist by auto
  have "map_of kvs k' = None" if "k' \<in> fst ` set gemini_payloads" "k' \<noteq> k" for k'
    by (rule conforms_only_shape [OF conf dist, of k'])
      (use that ks kvs in \<open>auto simp: gemini_payloads_def gemini_metadata_def\<close>)
  moreover have "\<exists>t. opt_str ''thoughtSignature'' p = Some t"
    using optional_string_field [OF conf dist, of "''thoughtSignature''"] by (auto simp: gemini_metadata_def opt_str_def)
  moreover have "\<exists>w. get ''thought'' p = Some w" by (rule get_object [OF conf dist])
  ultimately show thesis using that [of k s kvs v] q ks kvs v by (auto simp: get_obj)
qed

text \<open>Each key is looked for in turn; a valid part has exactly one of them.\<close>

lemma gemini_payload_text: "(k, s) \<in> set gemini_payloads \<Longrightarrow>
    k = ''text'' \<and> s = ZString \<or>
    k = ''inlineData'' \<and> s = z_object [(''mimeType'', ZString), (''data'', ZString)] \<or>
    k = ''fileData'' \<and> s = z_object [(''mimeType'', ZOptional ZString), (''fileUri'', ZString)] \<or>
    k = ''functionCall'' \<and> s = z_object [(''id'', ZOptional ZString), (''name'', ZString), (''args'', ZOptional (ZRecord ZUnknown))] \<or>
    k = ''functionResponse'' \<and> s = z_object [(''id'', ZOptional ZString), (''name'', ZString), (''response'', ZRecord ZUnknown)] \<or>
    k = ''executableCode'' \<and> s = z_object [(''language'', ZEnum [''LANGUAGE_UNSPECIFIED'', ''PYTHON'']), (''code'', ZString)] \<or>
    k = ''codeExecutionResult'' \<and> s = z_object [(''outcome'', ZEnum [''OUTCOME_UNSPECIFIED'', ''OUTCOME_OK'', ''OUTCOME_FAILED'',
        ''OUTCOME_DEADLINE_EXCEEDED'']), (''output'', ZOptional ZString)]"
  by (auto simp: gemini_payloads_def)

lemma gemini_keys: "fst ` set gemini_payloads =
    {''text'', ''inlineData'', ''fileData'', ''functionCall'', ''functionResponse'', ''executableCode'', ''codeExecutionResult''}"
  by (auto simp: gemini_payloads_def)

lemma has_key_obj: "has_key k (JObj kvs) = Some (map_of kvs k \<noteq> None)"
  by (simp add: has_key_def map_of_eq_None_iff)

lemma gemini_part_one:
  assumes "conforms GeminiPartSchema p"
  shows "\<exists>q. gemini_part env p = Some [q]"
proof -
  obtain k s kvs v sig where ks: "(k, s) \<in> set gemini_payloads" and p: "p = JObj kvs" and v: "map_of kvs k = Some v" "conforms s v"
    and other: "\<forall>k'\<in>fst ` set gemini_payloads. k' \<noteq> k \<longrightarrow> map_of kvs k' = None"
    and sig: "opt_str ''thoughtSignature'' p = Some sig"
    by (rule gemini_part_shape [OF assms]) blast
  note none = other [unfolded gemini_keys]
  show ?thesis
    using gemini_payload_text [OF ks]
  proof (elim disjE conjE)
    assume k: "k = ''text''" and s: "s = ZString"
    show ?thesis using v sig none unfolding k s p by (auto simp: gemini_part_def has_key_obj str_def get_obj as_string_def)
  next
    assume k: "k = ''inlineData''" and s: "s = z_object [(''mimeType'', ZString), (''data'', ZString)]"
    show ?thesis
      using string_field [OF v(2) [unfolded s], of "''mimeType''"] string_field [OF v(2) [unfolded s], of "''data''"] v(1) sig none
      unfolding k p by (auto simp: gemini_part_def has_key_obj get_obj str_def as_string_def obj_def as_value_def Let_def)
  next
    assume k: "k = ''fileData''" and s: "s = z_object [(''mimeType'', ZOptional ZString), (''fileUri'', ZString)]"
    obtain mt uri where "opt_str ''mimeType'' v = Some mt" "str ''fileUri'' v = Some uri"
      using optional_string_field [OF v(2) [unfolded s], of "''mimeType''"] string_field [OF v(2) [unfolded s], of "''fileUri''"]
      by (auto simp: opt_str_def str_def as_string_def)
    then show ?thesis using v(1) sig none
      unfolding k p by (simp add: gemini_part_def has_key_obj get_obj obj_def as_value_def split: option.split)
  next
    assume k: "k = ''functionCall''"
      and s: "s = z_object [(''id'', ZOptional ZString), (''name'', ZString), (''args'', ZOptional (ZRecord ZUnknown))]"
    show ?thesis
      using optional_string_field [OF v(2) [unfolded s], of "''id''"] string_field [OF v(2) [unfolded s], of "''name''"]
        get_object [OF v(2) [unfolded s], of "''args''"] v(1) sig none
      unfolding k p by (auto simp: gemini_part_def has_key_obj get_obj str_def opt_str_def as_string_def obj_def as_value_def)
  next
    assume k: "k = ''functionResponse''"
      and s: "s = z_object [(''id'', ZOptional ZString), (''name'', ZString), (''response'', ZRecord ZUnknown)]"
    show ?thesis
      using optional_string_field [OF v(2) [unfolded s], of "''id''"] string_field [OF v(2) [unfolded s], of "''name''"]
        get_field [OF v(2) [unfolded s], of "''response''" "ZRecord ZUnknown"] v(1) sig none
      unfolding k p by (auto simp: gemini_part_def has_key_obj get_obj str_def opt_str_def as_string_def obj_def as_value_def)
  next
    assume k: "k = ''executableCode''" and s: "s = z_object [(''language'', ZEnum [''LANGUAGE_UNSPECIFIED'', ''PYTHON'']), (''code'', ZString)]"
    show ?thesis
      using string_field [OF v(2) [unfolded s], of "''code''"] v(1) sig none
      unfolding k p by (auto simp: gemini_part_def has_key_obj get_obj str_def as_string_def obj_def as_value_def)
  next
    assume k: "k = ''codeExecutionResult''"
      and s: "s = z_object [(''outcome'', ZEnum [''OUTCOME_UNSPECIFIED'', ''OUTCOME_OK'', ''OUTCOME_FAILED'',
        ''OUTCOME_DEADLINE_EXCEEDED'']), (''output'', ZOptional ZString)]"
    show ?thesis
      using optional_string_field [OF v(2) [unfolded s], of "''output''"]
        get_field [OF v(2) [unfolded s], of "''outcome''" "ZEnum [''OUTCOME_UNSPECIFIED'', ''OUTCOME_OK'', ''OUTCOME_FAILED'',
        ''OUTCOME_DEADLINE_EXCEEDED'']"] v(1) sig none
      unfolding k p by (auto simp: gemini_part_def has_key_obj get_obj str_def opt_str_def as_string_def obj_def as_value_def)
  qed
qed

text \<open>What the adapter reads of a part.\<close>

lemma gemini_part_reads:
  assumes "conforms GeminiPartSchema p"
  shows "\<exists>kvs. p = JObj kvs" "has_key ''text'' p = Some True \<Longrightarrow> \<exists>t. str ''text'' p = Some t"
    "gemini_tool p \<noteq> None"
proof -
  obtain k s kvs v where ks: "(k, s) \<in> set gemini_payloads" and p: "p = JObj kvs" and v: "map_of kvs k = Some v" "conforms s v"
    and other: "\<forall>k'\<in>fst ` set gemini_payloads. k' \<noteq> k \<longrightarrow> map_of kvs k' = None"
    by (rule gemini_part_shape [OF assms]) blast
  note none = other [unfolded gemini_keys]
  show "\<exists>kvs. p = JObj kvs" using p by blast
  show "\<exists>t. str ''text'' p = Some t" if shown: "has_key ''text'' p = Some True"
  proof -
    have "k = ''text''" using shown none by (auto simp: p has_key_obj)
    then have "s = ZString" using gemini_payload_text [OF ks] by simp
    then show ?thesis using v \<open>k = ''text''\<close> by (auto simp: p str_def get_obj as_string_def)
  qed
  show "gemini_tool p \<noteq> None"
  proof (cases "k = ''functionCall''")
    case True
    then have s: "s = z_object [(''id'', ZOptional ZString), (''name'', ZString), (''args'', ZOptional (ZRecord ZUnknown))]"
      using gemini_payload_text [OF ks] by simp
    show ?thesis
      using string_field [OF v(2) [unfolded s], of "''name''"] get_object [OF v(2) [unfolded s], of "''args''"] v(1)
      unfolding True p by (auto simp: gemini_tool_def has_key_obj get_obj str_def as_string_def obj_def as_value_def)
  next
    case False
    then show ?thesis using none by (simp add: p gemini_tool_def has_key_obj)
  qed
qed

section \<open>Valid contents\<close>

lemma gemini_content:
  assumes "conforms GeminiContentSchema m"
  obtains ps where "arr ''parts'' m = Some ps" "\<forall>p\<in>set ps. conforms GeminiPartSchema p" "\<exists>r. get ''role'' m = Some r"
    "to_array m = [m]"
proof -
  note obj = assms [unfolded GeminiContentSchema_def]
  obtain ps where "get ''parts'' m = Some (Some (JArr ps))" "\<forall>p\<in>set ps. conforms GeminiPartSchema p"
    using get_field [OF obj, of "''parts''" "ZArray GeminiPartSchema"] by auto
  moreover have "\<exists>r. get ''role'' m = Some r" by (rule get_object [OF obj]) simp
  moreover have "to_array m = [m]" using obj by (auto simp: to_array_def)
  ultimately show thesis using that by (simp add: arr_def as_array_def)
qed

lemma gemini_roles:
  assumes "conforms GeminiContentSchema m"
  shows "get_is ''role'' r m \<noteq> None" "\<exists>r. gemini_role m = Some r"
  using assms by (auto elim!: gemini_content simp: get_is_def gemini_role_def)

lemma gemini_parts:
  assumes "conforms GeminiContentSchema m" "arr ''parts'' m = Some ps"
  obtains qs where "gemini_message env m = Some \<lparr>mrole = gemini_role m, mcontent = Parts qs\<rparr>" "length qs = length ps"
    "\<forall>k<length ps. gemini_part env (ps ! k) = Some [qs ! k]"
proof -
  have conf: "\<forall>p\<in>set ps. conforms GeminiPartSchema p" using assms by (auto elim: gemini_content)
  have "map_js (gemini_part env) ps \<noteq> None" by (rule map_js_total) (use conf gemini_part_one in blast)
  then obtain qss where qss: "map_js (gemini_part env) ps = Some qss" by blast
  have "length q = 1" if "q \<in> set qss" for q
    using map_js_set [OF qss that] conf gemini_part_one [of _ env] by fastforce
  note single = concat_singletons [OF this]
  have "gemini_part env (ps ! k) = Some [concat qss ! k]" if "k < length ps" for k
    using map_js_nth [OF qss that] single map_js_length [OF qss] that by simp
  moreover obtain r where "gemini_role m = Some r" using gemini_roles(2) [OF assms(1)] by blast
  ultimately show thesis using that [of "concat qss"] assms(2) qss single map_js_length [OF qss]
    by (simp add: gemini_message_def)
qed

lemma gemini_texts_total:
  assumes "\<forall>p\<in>set ps. conforms GeminiPartSchema p"
  shows "\<exists>ts. gemini_texts ps = Some ts"
proof -
  have "filter_js (has_key ''text'') ps \<noteq> None"
    by (rule filter_js_total) (use assms gemini_part_reads(1) in \<open>fastforce simp: has_key_obj\<close>)
  then obtain ts where ts: "filter_js (has_key ''text'') ps = Some ts" by blast
  have "map_js (str ''text'') ts \<noteq> None"
    by (rule map_js_total) (use filter_js_set [OF ts] assms gemini_part_reads(2) in blast)
  then show ?thesis by (simp add: gemini_texts_def ts)
qed

context zod begin

lemma gemini_input_valid:
  assumes "parseGeminiInput safeParse data = Some ms"
  shows "\<forall>m\<in>set ms. conforms GeminiContentSchema m"
proof -
  obtain r where r: "safeParse GeminiInputSchema data = Some r" and ms: "ms = to_array r"
    using assms by (auto simp: parseGeminiInput_def)
  have "conforms (ZUnion [GeminiContentSchema, ZArray GeminiContentSchema]) r"
    using parse_conforms [OF r] by (simp add: GeminiInputSchema_def GeminiContentsSchema_def)
  then show ?thesis unfolding ms by (rule to_array_conforms) (rule gemini_content)
qed

lemma gemini_candidate:
  assumes "conforms GeminiCandidateSchema v"
  shows "\<exists>m. obj ''content'' v = Some m \<and> conforms GeminiContentSchema m"
  using get_field [OF assms [unfolded GeminiCandidateSchema_def], of "''content''" GeminiContentSchema]
  by (auto simp: obj_def as_value_def GeminiContentSchema_def)

lemma gemini_output_valid:
  "\<exists>r. parseGeminiOutput safeParse data = Some r \<and> (r \<noteq> None \<longleftrightarrow> safeParse GeminiOutputSchema data \<noteq> None) \<and>
     (\<forall>ms. r = Some ms \<longrightarrow> (\<forall>m\<in>set ms. conforms GeminiContentSchema m))"
proof (cases "safeParse GeminiOutputSchema data")
  case (Some r)
  have "conforms (ZUnion [GeminiCandidateSchema, ZArray GeminiCandidateSchema]) r"
    using parse_conforms [OF Some] by (simp add: GeminiOutputSchema_def GeminiCandidatesSchema_def)
  then have cands: "\<forall>v\<in>set (to_array r). conforms GeminiCandidateSchema v"
    by (rule to_array_conforms) (auto simp: GeminiCandidateSchema_def to_array_def)
  have "map_js (obj ''content'') (to_array r) \<noteq> None"
    by (rule map_js_total) (use cands gemini_candidate in blast)
  then obtain ms where ms: "map_js (obj ''content'') (to_array r) = Some ms" by blast
  moreover have "\<forall>m\<in>set ms. conforms GeminiContentSchema m"
    using map_js_set [OF ms] cands gemini_candidate by (metis option.inject)
  ultimately show ?thesis using Some by (simp add: parseGeminiOutput_def)
qed (simp add: parseGeminiOutput_def)

end

text \<open>Valid contents convert message by message and part by part.\<close>

lemma gemini_messages_convert:
  assumes valid: "\<forall>m\<in>set ms. conforms GeminiContentSchema m"
  shows "\<exists>out. convertGeminiToPlaygroundMessages env ms = Some out \<and> map mrole out = map gemini_role ms
    \<and> (\<forall>i<length ms. \<exists>ps qs. arr ''parts'' (ms ! i) = Some ps \<and> mcontent (out ! i) = Parts qs \<and> length qs = length ps
        \<and> (\<forall>k<length ps. gemini_part env (ps ! k) = Some [qs ! k]))"
proof -
  have one: "\<exists>ps qs. arr ''parts'' m = Some ps \<and> gemini_message env m = Some \<lparr>mrole = gemini_role m, mcontent = Parts qs\<rparr>
      \<and> length qs = length ps \<and> (\<forall>k<length ps. gemini_part env (ps ! k) = Some [qs ! k])"
    if m: "conforms GeminiContentSchema m" for m
  proof -
    obtain ps where ps: "arr ''parts'' m = Some ps" by (rule gemini_content [OF m])
    show ?thesis by (rule gemini_parts [OF m ps, of env]) (use ps in blast)
  qed
  have "map_js (gemini_message env) ms \<noteq> None" by (rule map_js_total) (use valid one in blast)
  then obtain out where out: "map_js (gemini_message env) ms = Some out" by blast
  have "map mrole out = map gemini_role ms"
  proof (rule map_js_map [OF out])
    fix m c
    assume "m \<in> set ms" "gemini_message env m = Some c"
    then show "mrole c = gemini_role m" using valid one [of m] by auto
  qed
  moreover have "\<exists>ps qs. arr ''parts'' (ms ! i) = Some ps \<and> mcontent (out ! i) = Parts qs \<and> length qs = length ps
        \<and> (\<forall>k<length ps. gemini_part env (ps ! k) = Some [qs ! k])" if i: "i < length ms" for i
  proof -
    have "conforms GeminiContentSchema (ms ! i)" using valid i by simp
    then obtain ps qs where "arr ''parts'' (ms ! i) = Some ps" "length qs = length ps"
      "gemini_message env (ms ! i) = Some \<lparr>mrole = gemini_role (ms ! i), mcontent = Parts qs\<rparr>"
      "\<forall>k<length ps. gemini_part env (ps ! k) = Some [qs ! k]" using one by blast
    then show ?thesis using map_js_nth [OF out i] by auto
  qed
  ultimately show ?thesis by (simp add: convertGeminiToPlaygroundMessages_def out)
qed

text \<open>
  The conversion of validated Gemini contents for the playground returns one message for each, the model's
  as the assistant's, with one part for each of its parts: no variant is skipped.
\<close>
lemma gemini_parts_convert:
  assumes "zod sp" "parseGeminiInput sp data = Some ms"
  shows "\<exists>out. convertGeminiToPlaygroundMessages env ms = Some out \<and> map mrole out = map gemini_role ms
    \<and> (\<forall>i<length ms. \<exists>ps qs. arr ''parts'' (ms ! i) = Some ps \<and> mcontent (out ! i) = Parts qs \<and> length qs = length ps
        \<and> (\<forall>k<length ps. gemini_part env (ps ! k) = Some [qs ! k]))"
  using zod.gemini_input_valid [OF assms] by (rule gemini_messages_convert)

definition snake_payload :: json where
  "snake_payload = JObj [(''role'', JStr ''model''), (''parts'', JArr
     [JObj [(''function_call'', JObj [(''name'', JStr ''look'')])],
      JObj [(''inline_data'', JObj [(''mime_type'', JStr ''image/png''), (''data'', JStr ''a-b'')])]])]"

definition camel_message :: json where
  "camel_message = JObj [(''role'', JStr ''model''), (''parts'', JArr
     [JObj [(''functionCall'', JObj [(''name'', JStr ''look'')])],
      JObj [(''inlineData'', JObj [(''mimeType'', JStr ''image/png''), (''data'', JStr ''a-b'')])]])]"

lemmas gemini_schemas = GeminiInputSchema_def GeminiContentsSchema_def GeminiContentSchema_def GeminiPartSchema_def gemini_variants

lemma to_upper_samples:
  "to_upper_char CHR ''c'' = CHR ''C''" "to_upper_char CHR ''d'' = CHR ''D''" "to_upper_char CHR ''t'' = CHR ''T''"
  by code_simp+

lemma snake_payload_parses: "parseGeminiInput zod_parse snake_payload = Some [camel_message]"
  by (simp add: parseGeminiInput_def gemini_schemas snake_payload_def camel_message_def object_result_def object_fields_def
      field_result_def normalizePartKeys_def normalize_entry_def NORMALIZE_NESTED_def camel_keys_def is_lower_def
      char_between_def to_upper_samples to_array_def all_fields_def)

theorem gemini_parts_convert_witness:
  "\<exists>out qs. convertGeminiToPlaygroundMessages offline_env [camel_message] = Some out \<and> map mrole out = [Some ''assistant'']
     \<and> mcontent (out ! 0) = Parts qs \<and> length qs = 2"
  using gemini_parts_convert [OF zod_lib.zod_axioms snake_payload_parses, of offline_env]
  by (auto simp: camel_message_def gemini_role_def reading)

text \<open>
  A part of a Gemini message is read alike in snake case and in camel case: its validation is the
  validation of the part with its keys normalised, and normalised keys are left alone.
\<close>
lemma gemini_keys_normal:
  assumes "zod sp"
  shows "sp GeminiPartSchema (normalizePartKeys p) = sp GeminiPartSchema p
    \<and> normalizePartKeys (normalizePartKeys p) = normalizePartKeys p"
  using zod.parse_preprocess [OF assms] normalizePartKeys_idem by (simp add: GeminiPartSchema_def)

theorem gemini_keys_normal_witness:
  "zod_parse GeminiPartSchema (normalizePartKeys (JObj [(''thought_signature'', JStr ''s''), (''text'', JStr ''hi'')]))
     = zod_parse GeminiPartSchema (JObj [(''thought_signature'', JStr ''s''), (''text'', JStr ''hi'')])"
  using gemini_keys_normal [OF zod_lib.zod_axioms, of "JObj [(''thought_signature'', JStr ''s''), (''text'', JStr ''hi'')]"] by simp

section \<open>The adapter returns\<close>

lemma gemini_first_user_total:
  assumes "\<forall>m\<in>set ms. conforms GeminiContentSchema m"
  shows "\<exists>us. gemini_first_user ms = Some us"
proof -
  have "find_js (get_is ''role'' ''user'') ms \<noteq> None"
    by (rule find_js_total) (use assms gemini_roles(1) in blast)
  then obtain u where u: "find_js (get_is ''role'' ''user'') ms = Some u" by blast
  show ?thesis
  proof (cases u)
    case (Some m)
    then have "conforms GeminiContentSchema m" using find_js_Some [of _ ms m] u assms by blast
    then obtain ps where ps: "arr ''parts'' m = Some ps" "\<forall>p\<in>set ps. conforms GeminiPartSchema p" by (rule gemini_content)
    obtain ts where "gemini_texts ps = Some ts" using gemini_texts_total [OF ps(2)] by blast
    then show ?thesis using ps(1) by (simp add: gemini_first_user_def u Some)
  qed (simp add: gemini_first_user_def u)
qed

context zod begin

lemma gemini_input_total: "parseSystemAndUserGemini safeParse data \<noteq> None"
proof (cases "parseGeminiInput safeParse data")
  case (Some ms)
  note valid = gemini_input_valid [OF Some]
  have "find_js (get_is ''role'' ''system'') ms \<noteq> None"
    by (rule find_js_total) (use valid gemini_roles(1) in blast)
  then obtain sm where sm: "find_js (get_is ''role'' ''system'') ms = Some sm" by blast
  obtain us where us: "gemini_first_user ms = Some us" using gemini_first_user_total [OF valid] by blast
  show ?thesis
  proof (cases sm)
    case sys: (Some m)
    then have "conforms GeminiContentSchema m" using find_js_Some [of _ ms m] sm valid by blast
    then obtain ps where ps: "arr ''parts'' m = Some ps" "\<forall>p\<in>set ps. conforms GeminiPartSchema p" by (rule gemini_content)
    obtain ts where "gemini_texts ps = Some ts" using gemini_texts_total [OF ps(2)] by blast
    then show ?thesis using ps(1) by (simp add: parseSystemAndUserGemini_def Some sm sys us)
  qed (simp add: parseSystemAndUserGemini_def Some sm us)
qed (simp add: parseSystemAndUserGemini_def)

lemma gemini_render_total:
  "\<exists>r. renderOutputTextGemini safeParse data = Some r \<and> (r \<noteq> None \<longleftrightarrow> safeParse GeminiOutputSchema data \<noteq> None)"
proof -
  obtain r where r: "parseGeminiOutput safeParse data = Some r" "r \<noteq> None \<longleftrightarrow> safeParse GeminiOutputSchema data \<noteq> None"
    and valid: "\<forall>ms. r = Some ms \<longrightarrow> (\<forall>m\<in>set ms. conforms GeminiContentSchema m)"
    using gemini_output_valid [of data] by (elim exE conjE) (rule that)
  have part: "gemini_part_texts p \<noteq> None" if "conforms GeminiPartSchema p" for p
    using gemini_part_reads(1) [OF that] gemini_part_reads(2) [OF that]
    by (auto simp: gemini_part_texts_def has_key_obj get_obj)
  have content: "renderGeminiMessage m \<noteq> None" if m: "conforms GeminiContentSchema m" for m
  proof -
    obtain ps where ps: "arr ''parts'' m = Some ps" "\<forall>p\<in>set ps. conforms GeminiPartSchema p" by (rule gemini_content [OF m])
    have "map_js gemini_part_texts ps \<noteq> None" by (rule map_js_total) (use ps(2) part in blast)
    then show ?thesis using ps(1) by (auto simp: renderGeminiMessage_def)
  qed
  have "map_js renderGeminiMessage ms \<noteq> None" if "r = Some ms" for ms
    by (rule map_js_total) (use valid that content in blast)
  then show ?thesis using r by (cases r) (auto simp: renderOutputTextGemini_def)
qed

lemma gemini_tools_total: "extractToolsIfToolOnlyGemini safeParse data \<noteq> None"
proof -
  obtain r where r: "parseGeminiOutput safeParse data = Some r"
    and valid: "\<forall>ms. r = Some ms \<longrightarrow> (\<forall>m\<in>set ms. conforms GeminiContentSchema m)"
    using gemini_output_valid [of data] by (elim exE conjE) (rule that)
  have shown: "geminiHasText m \<noteq> None" if m: "conforms GeminiContentSchema m" for m
  proof -
    obtain ps where ps: "arr ''parts'' m = Some ps" "\<forall>p\<in>set ps. conforms GeminiPartSchema p" by (rule gemini_content [OF m])
    have "some_js (\<lambda>p. do { text \<leftarrow> has_key ''text'' p; t \<leftarrow> get ''text'' p; Some (text \<and> \<not> isBlank t) }) ps \<noteq> None"
      by (rule some_js_total) (use ps(2) gemini_part_reads(1) in \<open>fastforce simp: has_key_obj get_obj\<close>)
    then show ?thesis using ps(1) by (simp add: geminiHasText_def)
  qed
  have tools: "gemini_tools m \<noteq> None" if m: "conforms GeminiContentSchema m" for m
  proof -
    obtain ps where ps: "arr ''parts'' m = Some ps" "\<forall>p\<in>set ps. conforms GeminiPartSchema p" by (rule gemini_content [OF m])
    have "map_js gemini_tool ps \<noteq> None" by (rule map_js_total) (use ps(2) gemini_part_reads(3) in blast)
    then show ?thesis using ps(1) by (auto simp: gemini_tools_def)
  qed
  have "some_js geminiHasText ms \<noteq> None" if "r = Some ms" for ms
    by (rule some_js_total) (use valid that shown in blast)
  moreover have "map_js gemini_tools ms \<noteq> None" if "r = Some ms" for ms
    by (rule map_js_total) (use valid that tools in blast)
  ultimately show ?thesis using r by (cases r) (fastforce simp: extractToolsIfToolOnlyGemini_def)+
qed

end

end
