(* ===== verification/LangChainMessages.thy ===== *)
theory LangChainMessages
  imports Messages
begin

text \<open>
  LangChain messages: the schemas, the conversion (\<open>lib/spans/types/langchain.ts\<close>) and the adapter
  (\<open>lib/spans/providers/langchain.ts\<close>). A tool call without an identifier is given one drawn at random, so the
  conversion threads the number of identifiers drawn besides the store of tool names.
\<close>

section \<open>Schemas\<close>

definition LangChainTextPartSchema :: schema where
  "LangChainTextPartSchema =
     z_object [(''type'', ZLiteral ''text''), (''text'', ZString)]"

definition LangChainImageUrlPartSchema :: schema where
  "LangChainImageUrlPartSchema =
     z_object [(''type'', ZLiteral ''image_url''), (''image_url'', ZUnion [ZString,
       z_object [(''url'', ZString), (''detail'', ZEnum [''low'', ''high'', ''auto''])]])]"

definition LangChainComplexPartSchema :: schema where
  "LangChainComplexPartSchema =
     ZUnion [LangChainTextPartSchema, LangChainImageUrlPartSchema]"

definition LangChainBase64PartSchema :: schema where
  "LangChainBase64PartSchema =
     z_object [(''type'', ZEnum [''image'', ''audio'', ''file'']), (''data'', ZString),
       (''source_type'', ZLiteral ''base64''), (''mime_type'', ZOptional ZString),
       (''metadata'', ZOptional (ZRecord ZUnknown))]"

definition LangChainURLPartSchema :: schema where
  "LangChainURLPartSchema =
     z_object [(''type'', ZEnum [''image'', ''audio'', ''file'']), (''source_type'', ZLiteral ''url''),
       (''url'', ZString), (''mime_type'', ZOptional ZString), (''metadata'', ZOptional (ZRecord ZUnknown))]"

definition LangChainPlainTextPartSchema :: schema where
  "LangChainPlainTextPartSchema =
     z_object [(''type'', ZEnum [''file'', ''text'']), (''source_type'', ZLiteral ''text''),
       (''text'', ZString), (''mime_type'', ZOptional ZString), (''metadata'', ZOptional (ZRecord ZUnknown))]"

definition LangChainIDPartSchema :: schema where
  "LangChainIDPartSchema =
     z_object [(''id'', ZString), (''source_type'', ZLiteral ''id''), (''type'', ZEnum [''image'', ''audio'',
       ''file'']), (''mime_type'', ZOptional ZString), (''metadata'', ZOptional (ZRecord ZUnknown))]"

definition LangChainDataPartSchema :: schema where
  "LangChainDataPartSchema =
     ZUnion [LangChainBase64PartSchema, LangChainURLPartSchema, LangChainPlainTextPartSchema,
       LangChainIDPartSchema]"

definition LangChainContentPartSchema :: schema where
  "LangChainContentPartSchema =
     ZUnion [ZString, ZArray (ZUnion [LangChainDataPartSchema, LangChainComplexPartSchema])]"

definition LangChainToolCallPartSchema :: schema where
  "LangChainToolCallPartSchema =
     z_object [(''name'', ZString), (''arguments'', ZRecord ZUnknown), (''id'', ZOptional ZString),
       (''type'', ZOptional (ZLiteral ''tool_call''))]"

definition LangChainInvalidToolCallPartSchema :: schema where
  "LangChainInvalidToolCallPartSchema =
     z_object [(''name'', ZOptional ZString), (''args'', ZOptional ZString), (''id'', ZOptional ZString),
       (''error'', ZOptional ZString), (''type'', ZOptional (ZLiteral ''invalid_tool_call''))]"

definition LangChainSystemMessageSchema :: schema where
  "LangChainSystemMessageSchema =
     z_object [(''role'', ZLiteral ''system''), (''content'', LangChainContentPartSchema)]"

definition LangChainToolMessageSchema :: schema where
  "LangChainToolMessageSchema =
     z_object [(''role'', ZLiteral ''tool''), (''content'', ZNullable LangChainContentPartSchema),
       (''tool_call_id'', ZString)]"

definition LangChainUserMessageSchema :: schema where
  "LangChainUserMessageSchema =
     z_object [(''role'', ZEnum [''human'', ''user'']), (''content'', LangChainContentPartSchema)]"

definition LangChainAssistantMessageSchema :: schema where
  "LangChainAssistantMessageSchema =
     z_object [(''role'', ZEnum [''assistant'', ''ai'']), (''content'', ZNullable LangChainContentPartSchema),
       (''tool_calls'', ZOptional (ZArray LangChainToolCallPartSchema)),
       (''invalid_tool_calls'', ZOptional (ZArray LangChainInvalidToolCallPartSchema)),
       (''usage_metadata'', ZOptional (ZRecord ZUnknown))]"

definition LangChainMessageSchema :: schema where
  "LangChainMessageSchema =
     ZUnion [LangChainSystemMessageSchema, LangChainToolMessageSchema, LangChainUserMessageSchema,
       LangChainAssistantMessageSchema]"

definition LangChainMessagesSchema :: schema where
  "LangChainMessagesSchema =
     ZArray LangChainMessageSchema"

definition LangChainPartSchema :: schema where
  "LangChainPartSchema = ZUnion [LangChainDataPartSchema, LangChainComplexPartSchema]"

section \<open>Conversion\<close>

text \<open>\<open>typeof part.image_url === "string" ? part.image_url : part.image_url.url\<close>.\<close>

definition langchain_image :: "json \<Rightarrow> string option" where
  "langchain_image part = do {
     iu \<leftarrow> obj ''image_url'' part;
     (case iu of JStr s \<Rightarrow> Some s | _ \<Rightarrow> str ''url'' iu)
   }"

text \<open>\<open>s.split(",")[1]\<close>, stored only where there is one.\<close>

definition put_second :: "string \<Rightarrow> string \<Rightarrow> json \<Rightarrow> json" where
  "put_second k s v = (case split_on CHR '','' s of _ # d # _ \<Rightarrow> set_key k (JStr d) v | _ \<Rightarrow> v)"

definition langchain_download_part :: "message_env \<Rightarrow> json \<Rightarrow> json option" where
  "langchain_download_part env part = do {
     image_url \<leftarrow> get_is ''type'' ''image_url'' part;
     url_source \<leftarrow> get_is ''source_type'' ''url'' part;
     image \<leftarrow> get_is ''type'' ''image'' part;
     if image_url then do {
       url \<leftarrow> langchain_image part;
       iu \<leftarrow> obj ''image_url'' part;
       Some (if isStorageUrl url then
               (case urlToBase64 env url of
                  Some b \<Rightarrow> set_key ''image_url'' (case iu of JStr _ \<Rightarrow> JStr b | _ \<Rightarrow> set_key ''url'' (JStr b) iu) part
                | None \<Rightarrow> JObj [(''type'', JStr ''text''),
                    (''text'', JStr (''[Image processing failed: '' @ url @ '']''))])
             else part)
     } else if url_source \<and> image then do {
       url \<leftarrow> str ''url'' part;
       mime \<leftarrow> opt_str ''mime_type'' part;
       Some (if isStorageUrl url then
               (case urlToBase64 env url of
                  Some b \<Rightarrow> set_key ''mime_type'' (JStr (or_text mime ''image/jpeg''))
                    (put_second ''data'' b (set_key ''source_type'' (JStr ''base64'') part))
                | None \<Rightarrow> JObj [(''type'', JStr ''text''), (''source_type'', JStr ''text''),
                    (''text'', JStr (''[Image processing failed: '' @ url @ '']''))])
             else part)
     } else Some part
   }"

definition langchain_is_user :: "json \<Rightarrow> bool option" where
  "langchain_is_user m = do { h \<leftarrow> get_is ''role'' ''human'' m; u \<leftarrow> get_is ''role'' ''user'' m; Some (h \<or> u) }"

definition langchain_download_message :: "message_env \<Rightarrow> json \<Rightarrow> json option" where
  "langchain_download_message env m = do {
     user \<leftarrow> langchain_is_user m;
     c \<leftarrow> get ''content'' m;
     (case c of
        Some (JArr parts) \<Rightarrow>
          if user then map_option (\<lambda>ps. set_key ''content'' (JArr ps) m) (map_js (langchain_download_part env) parts)
          else Some m
      | _ \<Rightarrow> Some m)
   }"

definition downloadLangChainImages :: "message_env \<Rightarrow> json list \<Rightarrow> json list option" where
  "downloadLangChainImages env ms = map_js (langchain_download_message env) ms"

definition langchain_mime :: "json \<Rightarrow> string \<Rightarrow> string option" where
  "langchain_mime part d = map_option (\<lambda>m. or_text m d) (opt_str ''mime_type'' part)"

definition langchain_user_part :: "message_env \<Rightarrow> json \<Rightarrow> string part option" where
  "langchain_user_part env part = do {
     text \<leftarrow> get_is ''type'' ''text'' part;
     image_url \<leftarrow> get_is ''type'' ''image_url'' part;
     image \<leftarrow> get_is ''type'' ''image'' part;
     source \<leftarrow> get ''source_type'' part;
     if text then do { t \<leftarrow> str ''text'' part; Some (TextPart t None) }
     else if image_url then map_option ImagePart (langchain_image part)
     else if source = Some (JStr ''base64'') then do {
       d \<leftarrow> str ''data'' part;
       if image then do { m \<leftarrow> langchain_mime part ''image/jpeg''; Some (ImagePart (''data:'' @ m @ '';base64,'' @ d)) }
       else do { m \<leftarrow> langchain_mime part ''application/octet-stream''; Some (FilePart d (Some m) (Some ''base64'')) } }
     else if source = Some (JStr ''url'') then do {
       u \<leftarrow> str ''url'' part;
       if image then Some (ImagePart u)
       else do { m \<leftarrow> langchain_mime part ''application/octet-stream''; Some (FilePart u (Some m) (Some ''url'')) } }
     else if source = Some (JStr ''text'') then do { t \<leftarrow> str ''text'' part; Some (TextPart t None) }
     else if source = Some (JStr ''id'') then do {
       i \<leftarrow> str ''id'' part;
       m \<leftarrow> langchain_mime part ''application/octet-stream'';
       Some (FilePart i (Some m) (Some ''id'')) }
     else Some (TextPart (env_stringify env part) None)
   }"

definition langchain_text_part :: "message_env \<Rightarrow> json \<Rightarrow> string part option" where
  "langchain_text_part env part = do {
     text \<leftarrow> get_is ''type'' ''text'' part;
     source \<leftarrow> get_is ''source_type'' ''text'' part;
     if text \<or> source then do { t \<leftarrow> str ''text'' part; Some (TextPart t None) }
     else Some (TextPart (env_stringify env part) None)
   }"

definition langchain_tool_call ::
  "message_env \<Rightarrow> json \<Rightarrow> nat \<times> (string \<rightharpoonup> string) \<Rightarrow> (string part \<times> nat \<times> (string \<rightharpoonup> string)) option" where
  "langchain_tool_call env tc st = do {
     i \<leftarrow> opt_str ''id'' tc;
     n \<leftarrow> str ''name'' tc;
     a \<leftarrow> obj ''arguments'' tc;
     let drawn = or_str i None = None; tid = or_text i (env_random env (fst st)) in
     Some (ToolCallPart tid n (InJson (env_stringify env a)) None,
       (if drawn then Suc (fst st) else fst st, (snd st)(tid \<mapsto> n)))
   }"

definition langchain_message ::
  "message_env \<Rightarrow> json \<Rightarrow> nat \<times> (string \<rightharpoonup> string) \<Rightarrow> (string message \<times> nat \<times> (string \<rightharpoonup> string)) option" where
  "langchain_message env m st = do {
     role \<leftarrow> str ''role'' m;
     c \<leftarrow> get ''content'' m;
     if role = ''system'' then (case c of
         Some (JStr s) \<Rightarrow> Some (\<lparr>mrole = Some role, mcontent = Content s\<rparr>, st)
       | Some v \<Rightarrow> Some (\<lparr>mrole = Some role, mcontent = Content (env_stringify env v)\<rparr>, st)
       | None \<Rightarrow> None)
     else if role = ''human'' \<or> role = ''user'' then (case c of
         Some (JStr s) \<Rightarrow> Some (\<lparr>mrole = Some ''user'', mcontent = Content s\<rparr>, st)
       | _ \<Rightarrow> do {
           ps \<leftarrow> as_array c;
           parts \<leftarrow> map_js (langchain_user_part env) ps;
           Some (\<lparr>mrole = Some ''user'', mcontent = Parts parts\<rparr>, st) })
     else if role = ''assistant'' \<or> role = ''ai'' then (case c of
         Some (JStr s) \<Rightarrow> Some (\<lparr>mrole = Some ''assistant'', mcontent = Content s\<rparr>, st)
       | _ \<Rightarrow> do {
           texts \<leftarrow> map_js (langchain_text_part env) (case c of Some (JArr ps) \<Rightarrow> ps | _ \<Rightarrow> []);
           tcs \<leftarrow> arr_or_empty ''tool_calls'' m;
           (calls, st') \<leftarrow> map_state (langchain_tool_call env) tcs st;
           Some (\<lparr>mrole = Some ''assistant'', mcontent = Parts (texts @ calls)\<rparr>, st') })
     else if role = ''tool'' then do {
         tid \<leftarrow> str ''tool_call_id'' m;
         Some (\<lparr>mrole = Some role, mcontent = Parts [ToolResultPart (or_text (Some tid) ''-'')
             (or_str (snd st tid) (Some tid))
             (case c of Some (JStr s) \<Rightarrow> OutText s | _ \<Rightarrow> OutContent [])]\<rparr>, st) }
     else None
   }"

definition convertLangChainToChatMessages :: "message_env \<Rightarrow> json list \<Rightarrow> string message list option" where
  "convertLangChainToChatMessages env ms = map_option fst (map_state (langchain_message env) ms (0, Map.empty))"

definition convertLangChainToPlaygroundMessages :: "message_env \<Rightarrow> json list \<Rightarrow> string message list option" where
  "convertLangChainToPlaygroundMessages env ms = do {
     ds \<leftarrow> downloadLangChainImages env ms;
     cs \<leftarrow> convertLangChainToChatMessages env ds;
     Some (map playground_message cs)
   }"

section \<open>Adapter\<close>

definition detectLangChain :: "(schema \<Rightarrow> json \<Rightarrow> json option) \<Rightarrow> json \<Rightarrow> bool" where
  "detectLangChain sp data =
     (sp LangChainAssistantMessageSchema data \<noteq> None \<or> is_array data \<and> sp LangChainMessagesSchema data \<noteq> None)"

definition collectLangChainText :: "(schema \<Rightarrow> json \<Rightarrow> json option) \<Rightarrow> json option \<Rightarrow> string list option" where
  "collectLangChainText sp c = (case c of
     Some (JStr s) \<Rightarrow> Some (if s \<noteq> [] then [s] else [])
   | Some (JArr ps) \<Rightarrow> map_option (\<lambda>ts. filter (\<lambda>s. s \<noteq> []) (map (case_option [] id) ts))
       (map_js (parsed_str sp LangChainTextPartSchema ''text'') ps)
   | _ \<Rightarrow> Some [])"

text \<open>One turn of the loop over the messages: the system text and the parts of the user found so far.\<close>

definition langchain_input_step ::
  "(schema \<Rightarrow> json \<Rightarrow> json option) \<Rightarrow> json \<Rightarrow> string option \<times> string list \<Rightarrow> (string option \<times> string list) option" where
  "langchain_input_step sp m st = do {
     sys \<leftarrow> get_is ''role'' ''system'' m;
     user \<leftarrow> langchain_is_user m;
     c \<leftarrow> get ''content'' m;
     if sys \<and> fst st = None then do {
       ts \<leftarrow> collectLangChainText sp c;
       Some (if ts = [] then None else Some (join [CHR 10] ts), snd st) }
     else if user \<and> snd st = [] then do { ts \<leftarrow> collectLangChainText sp c; Some (fst st, ts) }
     else Some st
   }"

definition parseSystemAndUserLangChain :: "(schema \<Rightarrow> json \<Rightarrow> json option) \<Rightarrow> json \<Rightarrow> parsed_input option option" where
  "parseSystemAndUserLangChain sp data = (case sp LangChainMessagesSchema (JArr (to_array data)) of
     None \<Rightarrow> Some None
   | Some r \<Rightarrow> do {
       ms \<leftarrow> as_array (Some r);
       st \<leftarrow> loop_js (langchain_input_step sp) ms (None, []);
       Some (if fst st = None \<and> snd st = [] then None else Some \<lparr>systemText = fst st, userParts = snd st\<rparr>)
     })"

definition langchain_is_assistant :: "json \<Rightarrow> bool option" where
  "langchain_is_assistant m = do { a \<leftarrow> get_is ''role'' ''assistant'' m; i \<leftarrow> get_is ''role'' ''ai'' m; Some (a \<or> i) }"

text \<open>\<open>Array.isArray(data) && data.length === 1 ? data[0] : data\<close>.\<close>

definition only_element :: "json \<Rightarrow> json" where
  "only_element data = (case data of JArr [v] \<Rightarrow> v | _ \<Rightarrow> data)"

definition parseLangChainAssistants ::
  "(schema \<Rightarrow> json \<Rightarrow> json option) \<Rightarrow> json \<Rightarrow> json list option option" where
  "parseLangChainAssistants sp data = (case sp LangChainAssistantMessageSchema (only_element data) of
     Some m \<Rightarrow> Some (Some [m])
   | None \<Rightarrow> (case sp LangChainMessagesSchema data of
       None \<Rightarrow> Some None
     | Some r \<Rightarrow> do { ms \<leftarrow> as_array (Some r); map_option Some (filter_js langchain_is_assistant ms) }))"

definition renderLangChainMessage :: "(schema \<Rightarrow> json \<Rightarrow> json option) \<Rightarrow> json \<Rightarrow> string option" where
  "renderLangChainMessage sp m = do {
     c \<leftarrow> get ''content'' m;
     (case c of
        Some (JStr s) \<Rightarrow> Some s
      | Some (JArr ps) \<Rightarrow> map_option joinNonEmpty (map_js (parsed_str sp LangChainTextPartSchema ''text'') ps)
      | _ \<Rightarrow> Some [])
   }"

definition renderOutputTextLangChain :: "(schema \<Rightarrow> json \<Rightarrow> json option) \<Rightarrow> json \<Rightarrow> string option option" where
  "renderOutputTextLangChain sp data = (case sp LangChainAssistantMessageSchema (only_element data) of
     Some m \<Rightarrow> map_option Some (renderLangChainMessage sp m)
   | None \<Rightarrow> (case sp LangChainMessagesSchema data of
       None \<Rightarrow> Some None
     | Some r \<Rightarrow> do {
         ms \<leftarrow> as_array (Some r);
         as' \<leftarrow> filter_js langchain_is_assistant ms;
         if as' = [] then Some None
         else map_option (\<lambda>ts. Some (joinNonEmpty (map Some ts))) (map_js (renderLangChainMessage sp) as') }))"

definition langchainHasText :: "json \<Rightarrow> bool option" where
  "langchainHasText m = do {
     c \<leftarrow> get ''content'' m;
     (case c of
        Some (JStr s) \<Rightarrow> Some (\<not> isBlank c)
      | Some (JArr ps) \<Rightarrow> some_js (\<lambda>p. if \<not> is_object p then Some False
          else do {
            text \<leftarrow> get_is ''type'' ''text'' p;
            t \<leftarrow> get ''text'' p;
            Some (text \<and> \<not> isBlank t) }) ps
      | _ \<Rightarrow> Some False)
   }"

definition langchain_tool :: "json \<Rightarrow> extracted_tool option" where
  "langchain_tool tc = do {
     n \<leftarrow> str ''name'' tc;
     a \<leftarrow> get ''arguments'' tc;
     Some \<lparr>toolName = n, toolInput = a\<rparr>
   }"

definition langchain_tools :: "json \<Rightarrow> extracted_tool list option" where
  "langchain_tools m = do {
     tcs \<leftarrow> get ''tool_calls'' m;
     (case tcs of Some (JArr vs) \<Rightarrow> map_js langchain_tool vs | _ \<Rightarrow> Some [])
   }"

definition extractToolsIfToolOnlyLangChain ::
  "(schema \<Rightarrow> json \<Rightarrow> json option) \<Rightarrow> json \<Rightarrow> extracted_tool list option option" where
  "extractToolsIfToolOnlyLangChain sp data = do {
     ms \<leftarrow> parseLangChainAssistants sp data;
     (case ms of
        None \<Rightarrow> Some None
      | Some msgs \<Rightarrow> do {
          text \<leftarrow> some_js langchainHasText msgs;
          if text then Some None
          else do {
            tools \<leftarrow> map_js langchain_tools msgs;
            Some (if concat tools = [] then None else Some (concat tools))
          } })
   }"

definition langchainAdapter :: "(schema \<Rightarrow> json \<Rightarrow> json option) \<Rightarrow> adapter" where
  "langchainAdapter sp = \<lparr>adapter_id = HLangChain,
     detects = (\<lambda>data. Some (detectLangChain sp data)),
     parseSystemAndUser = Some (parseSystemAndUserLangChain sp),
     renderOutputText = Some (renderOutputTextLangChain sp),
     extractTools = Some (extractToolsIfToolOnlyLangChain sp)\<rparr>"

section \<open>Validated messages\<close>

lemma object_fields:
  assumes "conforms (z_object fs) v" "distinct (map fst fs)"
  obtains kvs where "v = JObj kvs"
    "\<forall>f\<in>set fs. map_of kvs (fst f) = None \<and> accepts_missing (snd f) \<or> (\<exists>w. map_of kvs (fst f) = Some w \<and> conforms (snd f) w)"
  using assms by (fastforce simp: list_all_iff split: option.splits)

lemma langchain_part_cases:
  assumes "conforms LangChainPartSchema p"
  obtains (textual) kvs t where "p = JObj kvs" "map_of kvs ''type'' = Some (JStr ''text'')" "map_of kvs ''text'' = Some (JStr t)"
  | (image) kvs iu where "p = JObj kvs" "map_of kvs ''type'' = Some (JStr ''image_url'')" "map_of kvs ''image_url'' = Some iu"
      "(\<exists>s. iu = JStr s) \<or> (\<exists>ivs u. iu = JObj ivs \<and> map_of ivs ''url'' = Some (JStr u))" "map_of kvs ''source_type'' = None"
  | (base64) kvs y d where "p = JObj kvs" "map_of kvs ''type'' = Some (JStr y)" "y \<in> {''image'', ''audio'', ''file''}"
      "map_of kvs ''source_type'' = Some (JStr ''base64'')" "map_of kvs ''data'' = Some (JStr d)"
      "map_of kvs ''mime_type'' = None \<or> (\<exists>m. map_of kvs ''mime_type'' = Some (JStr m))"
  | (url) kvs y u where "p = JObj kvs" "map_of kvs ''type'' = Some (JStr y)" "y \<in> {''image'', ''audio'', ''file''}"
      "map_of kvs ''source_type'' = Some (JStr ''url'')" "map_of kvs ''url'' = Some (JStr u)"
      "map_of kvs ''mime_type'' = None \<or> (\<exists>m. map_of kvs ''mime_type'' = Some (JStr m))"
  | (stored) kvs t where "p = JObj kvs" "map_of kvs ''type'' = Some (JStr ''file'')"
      "map_of kvs ''source_type'' = Some (JStr ''text'')" "map_of kvs ''text'' = Some (JStr t)"
  | (named) kvs y i where "p = JObj kvs" "map_of kvs ''type'' = Some (JStr y)" "y \<in> {''image'', ''audio'', ''file''}"
      "map_of kvs ''source_type'' = Some (JStr ''id'')" "map_of kvs ''id'' = Some (JStr i)"
      "map_of kvs ''mime_type'' = None \<or> (\<exists>m. map_of kvs ''mime_type'' = Some (JStr m))"
proof -
  consider "conforms LangChainBase64PartSchema p" | "conforms LangChainURLPartSchema p" | "conforms LangChainPlainTextPartSchema p"
    | "conforms LangChainIDPartSchema p" | "conforms LangChainTextPartSchema p" | "conforms LangChainImageUrlPartSchema p"
    using assms by (auto simp: LangChainPartSchema_def LangChainDataPartSchema_def LangChainComplexPartSchema_def)
  then show thesis
  proof cases
    case 1
    then show thesis unfolding LangChainBase64PartSchema_def by (rule object_fields) (auto intro: base64)
  next
    case 2
    then show thesis unfolding LangChainURLPartSchema_def by (rule object_fields) (auto intro: url)
  next
    case 3
    then show thesis unfolding LangChainPlainTextPartSchema_def by (rule object_fields) (auto intro: textual stored)
  next
    case 4
    then show thesis unfolding LangChainIDPartSchema_def by (rule object_fields) (auto intro: named)
  next
    case 5
    then show thesis unfolding LangChainTextPartSchema_def by (rule object_fields) (auto intro: textual)
  next
    case 6
    then obtain kvs iu where p: "p = JObj kvs" "map_of kvs ''type'' = Some (JStr ''image_url'')" "map_of kvs ''image_url'' = Some iu"
      and iu: "(\<exists>s. iu = JStr s) \<or> conforms (z_object [(''url'', ZString), (''detail'', ZEnum [''low'', ''high'', ''auto''])]) iu"
      unfolding LangChainImageUrlPartSchema_def by (rule object_fields) auto
    have "\<exists>ivs u. iu = JObj ivs \<and> map_of ivs ''url'' = Some (JStr u)"
      if "conforms (z_object [(''url'', ZString), (''detail'', ZEnum [''low'', ''high'', ''auto''])]) iu"
      using that by (rule object_fields) auto
    moreover have "map_of kvs ''source_type'' = None"
      using 6 p(1) by (auto simp: LangChainImageUrlPartSchema_def stripped_def)
    ultimately show thesis using image [OF p] iu by blast
  qed
qed

lemmas langchain_reading = get_obj str_def opt_str_def obj_def as_string_def as_value_def get_is_def

lemma put_second_keeps: "k' \<noteq> k \<Longrightarrow> \<exists>kws. put_second k s (JObj kvs) = JObj kws \<and> map_of kws k' = map_of kvs k'"
  by (auto simp: put_second_def set_key_obj update_conv' split: list.splits)

lemma langchain_mime_total:
  "map_of kvs ''mime_type'' = None \<or> (\<exists>m. map_of kvs ''mime_type'' = Some (JStr m)) \<Longrightarrow> \<exists>m. langchain_mime (JObj kvs) d = Some m"
  by (auto simp: langchain_mime_def langchain_reading)

lemma langchain_user_part_total:
  assumes "conforms LangChainPartSchema p"
  shows "langchain_user_part env p \<noteq> None"
  using assms
proof (cases rule: langchain_part_cases)
  case (textual kvs t)
  then show ?thesis by (simp add: langchain_user_part_def langchain_reading)
next
  case (image kvs iu)
  then have "\<exists>u. langchain_image p = Some u" by (auto simp: langchain_image_def langchain_reading)
  then show ?thesis using image(1-3,5) by (auto simp: langchain_user_part_def langchain_reading)
next
  case (base64 kvs y d)
  then obtain m1 m2 where "langchain_mime p ''image/jpeg'' = Some m1" "langchain_mime p ''application/octet-stream'' = Some m2"
    using langchain_mime_total by blast
  then show ?thesis using base64(2,4,5) unfolding base64(1)
    by (cases "y = ''image''"; use base64(3) in \<open>elim insertE emptyE; simp add: langchain_user_part_def langchain_reading\<close>)
next
  case (url kvs y u)
  then obtain m where "langchain_mime p ''application/octet-stream'' = Some m"
    using langchain_mime_total by blast
  then show ?thesis using url(2,4,5) unfolding url(1)
    by (cases "y = ''image''"; use url(3) in \<open>elim insertE emptyE; simp add: langchain_user_part_def langchain_reading\<close>)
next
  case (stored kvs t)
  then show ?thesis by (simp add: langchain_user_part_def langchain_reading)
next
  case (named kvs y i)
  then obtain m where "langchain_mime p ''application/octet-stream'' = Some m"
    using langchain_mime_total by blast
  then show ?thesis using named(2,4,5) unfolding named(1)
    using named(3) by (elim insertE emptyE; simp add: langchain_user_part_def langchain_reading)
qed

lemma langchain_text_part_total:
  assumes "conforms LangChainPartSchema p"
  shows "langchain_text_part env p \<noteq> None"
  using assms
proof (cases rule: langchain_part_cases)
  case (base64 kvs y d)
  then show ?thesis by (elim insertE emptyE; simp add: langchain_text_part_def langchain_reading)
next
  case (url kvs y u)
  then show ?thesis by (elim insertE emptyE; simp add: langchain_text_part_def langchain_reading)
next
  case (named kvs y i)
  then show ?thesis by (elim insertE emptyE; simp add: langchain_text_part_def langchain_reading)
qed (simp_all add: langchain_text_part_def langchain_reading)

text \<open>What the download puts in the place of a part can be converted. The data of an image are what follows the
  first comma of its URL, which has one.\<close>

lemma put_second_data:
  assumes "CHR '','' \<in> set s"
  obtains d where "put_second k s (JObj kvs) = JObj (AList.update k (JStr d) kvs)"
proof -
  have "length (split_on CHR '','' s) \<noteq> 1"
  proof
    assume "length (split_on CHR '','' s) = 1"
    then obtain a where "split_on CHR '','' s = [a]" by (auto simp: length_Suc_conv)
    moreover from this have "s = a" using split_on_join [of "CHR '',''" s] by simp
    moreover have "CHR '','' \<notin> set a" using split_on_parts [of a "CHR '',''" s] calculation by simp
    ultimately show False using assms by simp
  qed
  then obtain a d rest where "split_on CHR '','' s = a # d # rest"
    using split_on_nonempty [of "CHR '',''" s] by (metis length_Cons list.exhaust list.size(3) One_nat_def)
  then show thesis using that by (simp add: put_second_def set_key_obj)
qed

lemma urlToBase64_comma: "urlToBase64 env url = Some b \<Longrightarrow> CHR '','' \<in> set b"
  by (auto simp: urlToBase64_def split: if_splits option.splits)

lemma langchain_download_image:
  assumes "p = JObj kvs" "map_of kvs ''type'' = Some (JStr ''image_url'')" "map_of kvs ''image_url'' = Some iu"
    and "(\<exists>s. iu = JStr s) \<or> (\<exists>ivs u. iu = JObj ivs \<and> map_of ivs ''url'' = Some (JStr u))"
  shows "\<exists>q. langchain_download_part env p = Some q \<and> (q = p \<or> langchain_user_part env q \<noteq> None)"
proof -
  obtain u where u: "langchain_image p = Some u" using assms by (auto simp: langchain_image_def langchain_reading)
  have fails: "langchain_user_part env (JObj [(''type'', JStr ''text''), (''text'', JStr t)]) \<noteq> None" for t
    by (simp add: langchain_user_part_def langchain_reading)
  have new: "langchain_user_part env (set_key ''image_url'' (case iu of JStr _ \<Rightarrow> JStr b | _ \<Rightarrow> set_key ''url'' (JStr b) iu) p) \<noteq> None" for b
    using assms by (auto simp: langchain_user_part_def langchain_image_def langchain_reading set_key_obj update_conv')
  have "langchain_download_part env p = Some (if isStorageUrl u then
        (case urlToBase64 env u of
           Some b \<Rightarrow> set_key ''image_url'' (case iu of JStr _ \<Rightarrow> JStr b | _ \<Rightarrow> set_key ''url'' (JStr b) iu) p
         | None \<Rightarrow> JObj [(''type'', JStr ''text''), (''text'', JStr (''[Image processing failed: '' @ u @ '']''))])
      else p)"
    using assms(2,3) u unfolding assms(1) by (simp add: langchain_download_part_def langchain_reading)
  then show ?thesis using fails new by (auto split: option.splits)
qed

lemma langchain_download_url:
  assumes "p = JObj kvs" "map_of kvs ''type'' = Some (JStr ''image'')" "map_of kvs ''source_type'' = Some (JStr ''url'')"
    and "map_of kvs ''url'' = Some (JStr u)" "opt_str ''mime_type'' p = Some m"
  shows "\<exists>q. langchain_download_part env p = Some q \<and> (q = p \<or> langchain_user_part env q \<noteq> None)"
proof -
  have fails: "langchain_user_part env (JObj [(''type'', JStr ''text''), (''source_type'', JStr ''text''), (''text'', JStr t)]) \<noteq> None" for t
    by (simp add: langchain_user_part_def langchain_reading)
  let ?q = "\<lambda>b. set_key ''mime_type'' (JStr (or_text m ''image/jpeg'')) (put_second ''data'' b (set_key ''source_type'' (JStr ''base64'') p))"
  have new: "langchain_user_part env (?q b) \<noteq> None" if b: "urlToBase64 env u = Some b" for b
  proof -
    obtain d where "put_second ''data'' b (JObj (AList.update ''source_type'' (JStr ''base64'') kvs)) =
        JObj (AList.update ''data'' (JStr d) (AList.update ''source_type'' (JStr ''base64'') kvs))"
      by (rule put_second_data [OF urlToBase64_comma [OF b]])
    then show ?thesis using assms(1,2)
      by (simp add: langchain_user_part_def langchain_mime_def langchain_reading set_key_obj update_conv')
  qed
  have "langchain_download_part env p = Some (if isStorageUrl u then
        (case urlToBase64 env u of
           Some b \<Rightarrow> ?q b
         | None \<Rightarrow> JObj [(''type'', JStr ''text''), (''source_type'', JStr ''text''),
             (''text'', JStr (''[Image processing failed: '' @ u @ '']''))])
      else p)"
    using assms(2-5) unfolding assms(1) by (simp add: langchain_download_part_def get_obj get_is_def str_def as_string_def)
  then show ?thesis using fails new by (auto split: option.splits)
qed

lemma langchain_download_part_total:
  assumes "conforms LangChainPartSchema p"
  shows "\<exists>q. langchain_download_part env p = Some q \<and> langchain_user_part env q \<noteq> None"
proof -
  have "\<exists>q. langchain_download_part env p = Some q \<and> (q = p \<or> langchain_user_part env q \<noteq> None)"
    using assms
  proof (cases rule: langchain_part_cases)
    case (image kvs iu)
    then show ?thesis by (intro langchain_download_image)
  next
    case (url kvs y u)
    obtain m where m: "opt_str ''mime_type'' p = Some m" using url(1,6) by (auto simp: langchain_reading)
    show ?thesis
    proof (cases "y = ''image''")
      case True
      then show ?thesis using url m by (intro langchain_download_url) simp_all
    next
      case False
      then show ?thesis using url(1,2,4) url(3) by (auto simp: langchain_download_part_def langchain_reading)
    qed
  next
    case (base64 kvs y d)
    then show ?thesis by (elim insertE emptyE; simp add: langchain_download_part_def langchain_reading)
  next
    case (named kvs y i)
    then show ?thesis by (elim insertE emptyE; simp add: langchain_download_part_def langchain_reading)
  next
    case (textual kvs t)
    then show ?thesis by (simp add: langchain_download_part_def langchain_reading)
  next
    case (stored kvs t)
    then show ?thesis by (simp add: langchain_download_part_def langchain_reading)
  qed
  then show ?thesis using langchain_user_part_total [OF assms, of env] by blast
qed

definition langchain_content :: "json option \<Rightarrow> bool" where
  "langchain_content c = (case c of
     Some (JStr _) \<Rightarrow> True | Some (JArr ps) \<Rightarrow> (\<forall>p\<in>set ps. conforms LangChainPartSchema p) | _ \<Rightarrow> False)"

lemma langchain_content: "conforms LangChainContentPartSchema v \<Longrightarrow> langchain_content (Some v)"
  by (auto simp: LangChainContentPartSchema_def LangChainPartSchema_def langchain_content_def)

text \<open>What the code reads of each kind of message.\<close>

lemma langchain_message_cases:
  assumes "conforms LangChainMessageSchema m"
  obtains (system) c where "get ''role'' m = Some (Some (JStr ''system''))" "get ''content'' m = Some c" "langchain_content c"
  | (user) r c where "get ''role'' m = Some (Some (JStr r))" "r = ''human'' \<or> r = ''user''" "get ''content'' m = Some c"
      "langchain_content c"
  | (assistant) "conforms LangChainAssistantMessageSchema m"
  | (tool) tid where "get ''role'' m = Some (Some (JStr ''tool''))" "get ''content'' m \<noteq> None" "str ''tool_call_id'' m = Some tid"
proof -
  consider "conforms LangChainSystemMessageSchema m" | "conforms LangChainToolMessageSchema m"
    | "conforms LangChainUserMessageSchema m" | "conforms LangChainAssistantMessageSchema m"
    using assms by (auto simp: LangChainMessageSchema_def)
  then show thesis
  proof cases
    case 1
    note obj = 1 [unfolded LangChainSystemMessageSchema_def]
    obtain v where "get ''content'' m = Some (Some v)" "conforms LangChainContentPartSchema v"
      using get_field [OF obj, of "''content''" LangChainContentPartSchema]
      by (auto simp: LangChainContentPartSchema_def)
    then show thesis using literal_field [OF obj, of "''role''"] system langchain_content by simp
  next
    case 2
    note obj = 2 [unfolded LangChainToolMessageSchema_def]
    show thesis using literal_field [OF obj, of "''role''" "''tool''"] string_field [OF obj, of "''tool_call_id''"]
        get_object [OF obj, of "''content''"] tool by (auto simp: str_def as_string_def)
  next
    case 3
    note obj = 3 [unfolded LangChainUserMessageSchema_def]
    obtain v where "get ''content'' m = Some (Some v)" "conforms LangChainContentPartSchema v"
      using get_field [OF obj, of "''content''" LangChainContentPartSchema]
      by (auto simp: LangChainContentPartSchema_def)
    then show thesis using get_field [OF obj, of "''role''" "ZEnum [''human'', ''user'']"] user langchain_content by auto
  qed (rule assistant)
qed

lemma langchain_assistant:
  assumes "conforms LangChainAssistantMessageSchema m"
  obtains r c tcs where "get ''role'' m = Some (Some (JStr r))" "r = ''assistant'' \<or> r = ''ai''" "get ''content'' m = Some c"
    "c = Some JNull \<or> langchain_content c" "arr_or_empty ''tool_calls'' m = Some tcs"
    "get ''tool_calls'' m = Some None \<or> get ''tool_calls'' m = Some (Some (JArr tcs))"
    "\<forall>t\<in>set tcs. conforms LangChainToolCallPartSchema t"
proof -
  note obj = assms [unfolded LangChainAssistantMessageSchema_def]
  obtain r where "get ''role'' m = Some (Some (JStr r))" "r = ''assistant'' \<or> r = ''ai''"
    using get_field [OF obj, of "''role''" "ZEnum [''assistant'', ''ai'']"] by auto
  moreover obtain v where "get ''content'' m = Some (Some v)" "v = JNull \<or> conforms LangChainContentPartSchema v"
    using get_field [OF obj, of "''content''" "ZNullable LangChainContentPartSchema"]
    by (auto simp: LangChainContentPartSchema_def)
  moreover obtain tcs where "arr_or_empty ''tool_calls'' m = Some tcs" "\<forall>t\<in>set tcs. conforms LangChainToolCallPartSchema t"
    "get ''tool_calls'' m = Some None \<or> get ''tool_calls'' m = Some (Some (JArr tcs))"
    using get_field [OF obj, of "''tool_calls''" "ZOptional (ZArray LangChainToolCallPartSchema)"]
    by (auto simp: arr_or_empty_def)
  ultimately show thesis using that langchain_content by blast
qed

definition langchain_role :: "json \<Rightarrow> string option" where
  "langchain_role m = (case get ''role'' m of
     Some (Some (JStr r)) \<Rightarrow> Some (if r = ''human'' then ''user'' else if r = ''ai'' then ''assistant'' else r) | _ \<Rightarrow> None)"

lemma langchain_tool_call_total:
  assumes "conforms LangChainToolCallPartSchema t"
  shows "langchain_tool_call env t st \<noteq> None" "langchain_tool t \<noteq> None"
proof -
  note obj = assms [unfolded LangChainToolCallPartSchema_def]
  obtain n where "str ''name'' t = Some n"
    using string_field [OF obj, of "''name''"] by (auto simp: str_def as_string_def)
  moreover obtain i where "opt_str ''id'' t = Some i"
    using optional_string_field [OF obj, of "''id''"] by (auto simp: opt_str_def)
  moreover obtain a where "get ''arguments'' t = Some (Some a)"
    using get_field [OF obj, of "''arguments''" "ZRecord ZUnknown"] by auto
  ultimately show "langchain_tool_call env t st \<noteq> None" "langchain_tool t \<noteq> None"
    by (simp_all add: langchain_tool_call_def langchain_tool_def obj_def as_value_def Let_def)
qed

text \<open>A message whose images were downloaded converts as the message would have.\<close>

definition langchain_ready :: "message_env \<Rightarrow> json \<Rightarrow> string option \<Rightarrow> bool" where
  "langchain_ready env d role \<longleftrightarrow> (\<forall>st. \<exists>c st'. langchain_message env d st = Some (\<lparr>mrole = role, mcontent = c\<rparr>, st'))"

lemma langchain_user_ready:
  assumes "str ''role'' d = Some r" "r = ''human'' \<or> r = ''user''" "get ''content'' d = Some c"
    and "(\<exists>s. c = Some (JStr s)) \<or> (\<exists>ps. c = Some (JArr ps) \<and> (\<forall>p\<in>set ps. langchain_user_part env p \<noteq> None))"
  shows "langchain_ready env d (Some ''user'')"
proof -
  have "map_js (langchain_user_part env) ps \<noteq> None" if "\<forall>p\<in>set ps. langchain_user_part env p \<noteq> None" for ps
    by (rule map_js_total) (use that in blast)
  then show ?thesis using assms by (fastforce simp: langchain_ready_def langchain_message_def as_array_def)
qed

lemma langchain_assistant_ready:
  assumes "conforms LangChainAssistantMessageSchema m"
  shows "langchain_ready env m (Some ''assistant'')"
proof -
  obtain r c tcs where m: "get ''role'' m = Some (Some (JStr r))" "r = ''assistant'' \<or> r = ''ai''" "get ''content'' m = Some c"
    "c = Some JNull \<or> langchain_content c" "arr_or_empty ''tool_calls'' m = Some tcs"
    "\<forall>t\<in>set tcs. conforms LangChainToolCallPartSchema t"
    by (rule langchain_assistant [OF assms])
  have calls: "map_state (langchain_tool_call env) tcs st \<noteq> None" for st
    by (rule map_state_total) (use m(6) langchain_tool_call_total(1) in blast)
  have texts: "map_js (langchain_text_part env) (case c of Some (JArr ps) \<Rightarrow> ps | _ \<Rightarrow> []) \<noteq> None"
    by (rule map_js_total) (use m(4) langchain_text_part_total in \<open>auto simp: langchain_content_def split: option.splits json.splits\<close>)
  have "\<exists>c' st'. langchain_message env m st = Some (\<lparr>mrole = Some ''assistant'', mcontent = c'\<rparr>, st')" for st
  proof -
    obtain ts where ts: "map_js (langchain_text_part env) (case c of Some (JArr ps) \<Rightarrow> ps | _ \<Rightarrow> []) = Some ts" using texts by blast
    obtain cs st' where cs: "map_state (langchain_tool_call env) tcs st = Some (cs, st')" using calls [of st] by fastforce
    have role: "str ''role'' m = Some r" "r \<noteq> ''system''" "r \<noteq> ''human''" "r \<noteq> ''user''"
      using m(1,2) by (auto simp: str_def as_string_def)
    show ?thesis using ts cs role m(2,3,5)
      by (cases c rule: json_option_cases) (simp_all add: langchain_message_def)
  qed
  then show ?thesis by (simp add: langchain_ready_def)
qed

lemma langchain_download_message_total:
  assumes "conforms LangChainMessageSchema m"
  shows "\<exists>d. langchain_download_message env m = Some d \<and> langchain_ready env d (langchain_role m)"
  using assms
proof (cases rule: langchain_message_cases)
  case (system c)
  have "langchain_download_message env m = Some m"
    using system by (auto simp: langchain_download_message_def langchain_is_user_def get_is_def split: option.splits json.splits)
  then show ?thesis using system
    by (auto simp: langchain_ready_def langchain_role_def langchain_message_def str_def as_string_def langchain_content_def
        split: option.splits json.splits)
next
  case (tool tid)
  have "langchain_download_message env m = Some m"
    using tool by (auto simp: langchain_download_message_def langchain_is_user_def get_is_def split: option.splits json.splits)
  then show ?thesis using tool
    by (auto simp: langchain_ready_def langchain_role_def langchain_message_def str_def as_string_def)
next
  case assistant
  then obtain r c where m: "get ''role'' m = Some (Some (JStr r))" "r = ''assistant'' \<or> r = ''ai''" "get ''content'' m = Some c"
    by (rule langchain_assistant)
  have "langchain_download_message env m = Some m"
    using m by (auto simp: langchain_download_message_def langchain_is_user_def get_is_def split: option.splits json.splits)
  moreover have "langchain_role m = Some ''assistant''" using m by (auto simp: langchain_role_def)
  ultimately show ?thesis using langchain_assistant_ready [OF assistant] by simp
next
  case (user r c)
  have role: "langchain_role m = Some ''user''" using user by (auto simp: langchain_role_def)
  have is': "langchain_is_user m = Some True" using user by (auto simp: langchain_is_user_def get_is_def)
  show ?thesis
  proof (cases "\<exists>ps. c = Some (JArr ps)")
    case False
    then obtain s where "c = Some (JStr s)"
      using user(4) by (auto simp: langchain_content_def split: option.splits json.splits)
    then show ?thesis using user is' role
      by (intro exI [of _ m]) (auto intro!: langchain_user_ready simp: langchain_download_message_def str_def as_string_def)
  next
    case True
    then obtain ps where c: "c = Some (JArr ps)" "\<forall>p\<in>set ps. conforms LangChainPartSchema p"
      using user(4) by (auto simp: langchain_content_def)
    have "map_js (langchain_download_part env) ps \<noteq> None"
      by (rule map_js_total) (use c(2) langchain_download_part_total in blast)
    then obtain qs where qs: "map_js (langchain_download_part env) ps = Some qs" by blast
    have ready: "\<forall>q\<in>set qs. langchain_user_part env q \<noteq> None"
      using map_js_set [OF qs] c(2) langchain_download_part_total by (metis option.inject)
    obtain kvs where kvs: "m = JObj kvs" using user(1) by (auto simp: get_def split: json.splits)
    have down: "langchain_download_message env m = Some (set_key ''content'' (JArr qs) m)"
      using user(3) c(1) qs is' by (simp add: langchain_download_message_def)
    have "langchain_ready env (set_key ''content'' (JArr qs) m) (Some ''user'')"
      using user(1,2) ready unfolding kvs
      by (intro langchain_user_ready [of _ r]) (auto simp: set_key_obj get_obj update_conv' str_def as_string_def)
    then show ?thesis using down role by simp
  qed
qed

lemma langchain_messages_convert:
  assumes "\<forall>m\<in>set ms. conforms LangChainMessageSchema m"
  shows "\<exists>out. convertLangChainToPlaygroundMessages env ms = Some out \<and> map mrole out = map langchain_role ms
    \<and> (\<forall>m\<in>set out. \<exists>ps. mcontent m = Parts ps)"
proof -
  have "map_js (langchain_download_message env) ms \<noteq> None"
    by (rule map_js_total) (use assms langchain_download_message_total in blast)
  then obtain ds where ds: "map_js (langchain_download_message env) ms = Some ds" by blast
  have len: "length ds = length ms" by (rule map_js_length [OF ds])
  have ready: "langchain_ready env (ds ! i) (langchain_role (ms ! i))" if "i < length ms" for i
    using map_js_nth [OF ds that] langchain_download_message_total [of "ms ! i" env] assms that by auto
  have step: "\<exists>r. langchain_ready env d r" if "d \<in> set ds" for d
    using ready that len by (metis in_set_conv_nth)
  have "map_state (langchain_message env) ds (0, Map.empty) \<noteq> None"
    by (rule map_state_total) (use step in \<open>force simp: langchain_ready_def\<close>)
  then obtain cs t where cs: "map_state (langchain_message env) ds (0, Map.empty) = Some (cs, t)" by fastforce
  define role where "role d = (SOME r. langchain_ready env d r)" for d
  have role: "langchain_ready env d r \<Longrightarrow> role d = r" for d r
    unfolding role_def langchain_ready_def by (rule some_equality) (auto, metis message.ext_inject option.inject prod.inject)
  have "map mrole cs = map role ds"
  proof (rule map_state_map [OF cs])
    fix d st c st' assume "d \<in> set ds" "langchain_message env d st = Some (c, st')"
    moreover obtain r where "langchain_ready env d r" using step \<open>d \<in> set ds\<close> by blast
    ultimately show "mrole c = role d" using role [of d r] unfolding langchain_ready_def
      by (metis fst_conv message.select_convs(1) option.inject)
  qed
  also have "\<dots> = map langchain_role ms"
    by (rule nth_equalityI) (auto simp: len intro!: role ready)
  finally show ?thesis
    by (simp add: convertLangChainToPlaygroundMessages_def downloadLangChainImages_def convertLangChainToChatMessages_def
        ds cs playground_roles playground_parts comp_def)
qed

section \<open>The adapter never throws\<close>

lemma langchain_reads:
  assumes "conforms LangChainMessageSchema m"
  shows "get_is ''role'' t m \<noteq> None" "get ''content'' m \<noteq> None"
proof -
  have "get k m \<noteq> None" for k
    using assms by (auto simp: LangChainMessageSchema_def LangChainSystemMessageSchema_def LangChainToolMessageSchema_def
        LangChainUserMessageSchema_def LangChainAssistantMessageSchema_def get_obj)
  then show "get_is ''role'' t m \<noteq> None" "get ''content'' m \<noteq> None" by (simp_all add: get_is_def)
qed

lemma langchain_roles_total:
  assumes "conforms LangChainMessageSchema m"
  shows "langchain_is_user m \<noteq> None" "langchain_is_assistant m \<noteq> None"
  using langchain_reads(1) [OF assms, of "[]"] by (auto simp: langchain_is_user_def langchain_is_assistant_def get_is_def)

lemma langchain_is_assistant_conforms:
  assumes "conforms LangChainMessageSchema m" "langchain_is_assistant m = Some True"
  shows "conforms LangChainAssistantMessageSchema m"
  using assms(1) by (cases rule: langchain_message_cases) (use assms(2) in \<open>auto simp: langchain_is_assistant_def get_is_def\<close>)

lemma langchain_has_text_total:
  assumes "conforms LangChainAssistantMessageSchema m"
  shows "langchainHasText m \<noteq> None" "langchain_tools m \<noteq> None"
proof -
  obtain c tcs where c: "get ''content'' m = Some c"
    and tcs: "get ''tool_calls'' m = Some None \<or> get ''tool_calls'' m = Some (Some (JArr tcs))"
      "\<forall>t\<in>set tcs. conforms LangChainToolCallPartSchema t"
    by (rule langchain_assistant [OF assms])
  have part: "(if \<not> is_object p then Some False else do { text \<leftarrow> get_is ''type'' ''text'' p; t \<leftarrow> get ''text'' p;
      Some (text \<and> \<not> isBlank t) }) \<noteq> None" for p
    by (cases p) (auto simp: is_object_def reading)
  show "langchainHasText m \<noteq> None" using c some_js_total [OF part]
    by (cases c rule: json_option_cases) (simp_all add: langchainHasText_def)
  have "map_js langchain_tool tcs \<noteq> None"
    by (rule map_js_total) (use tcs(2) langchain_tool_call_total(2) in blast)
  then show "langchain_tools m \<noteq> None" using tcs(1) by (auto simp: langchain_tools_def)
qed

context zod begin

lemma langchain_part_text_total: "parsed_str safeParse LangChainTextPartSchema ''text'' p \<noteq> None"
proof (cases "safeParse LangChainTextPartSchema p")
  case (Some r)
  then show ?thesis using string_field [OF parse_conforms [OF Some, unfolded LangChainTextPartSchema_def], of "''text''"]
    by (auto simp: parsed_str_def str_def as_string_def)
qed (simp add: parsed_str_def)

lemma langchain_texts_total:
  "map_js (parsed_str safeParse LangChainTextPartSchema ''text'') ps \<noteq> None" "collectLangChainText safeParse c \<noteq> None"
proof -
  show all: "map_js (parsed_str safeParse LangChainTextPartSchema ''text'') ps \<noteq> None" for ps
    by (rule map_js_total) (rule langchain_part_text_total)
  show "collectLangChainText safeParse c \<noteq> None"
    using all by (cases c rule: json_option_cases) (simp_all add: collectLangChainText_def)
qed

lemma langchain_messages_conform:
  assumes "safeParse LangChainMessagesSchema data = Some r"
  obtains ms where "r = JArr ms" "\<forall>m\<in>set ms. conforms LangChainMessageSchema m"
  using parse_conforms [OF assms] by (auto simp: LangChainMessagesSchema_def)

lemma langchain_input_total: "parseSystemAndUserLangChain safeParse data \<noteq> None"
proof (cases "safeParse LangChainMessagesSchema (JArr (to_array data))")
  case (Some r)
  then obtain ms where r: "r = JArr ms" and conf: "\<forall>m\<in>set ms. conforms LangChainMessageSchema m"
    by (rule langchain_messages_conform)
  have "langchain_input_step safeParse m st \<noteq> None" if "m \<in> set ms" for m st
  proof -
    have m: "conforms LangChainMessageSchema m" using conf that by blast
    obtain a where "get_is ''role'' ''system'' m = Some a" using langchain_reads(1) [OF m] by blast
    moreover obtain b where "langchain_is_user m = Some b" using langchain_roles_total(1) [OF m] by blast
    moreover obtain c where "get ''content'' m = Some c" using langchain_reads(2) [OF m] by blast
    ultimately show ?thesis using langchain_texts_total(2) [of c] by (auto simp: langchain_input_step_def)
  qed
  then have "loop_js (langchain_input_step safeParse) ms (None, []) \<noteq> None" by (rule loop_js_total)
  then show ?thesis by (auto simp: parseSystemAndUserLangChain_def Some r as_array_def)
qed (simp add: parseSystemAndUserLangChain_def)

lemma langchain_render_message_total:
  assumes "conforms LangChainMessageSchema m"
  shows "renderLangChainMessage safeParse m \<noteq> None"
proof -
  obtain c where "get ''content'' m = Some c" using langchain_reads(2) [OF assms] by blast
  moreover have "\<exists>ts. map_js (parsed_str safeParse LangChainTextPartSchema ''text'') ps = Some ts" for ps
    using langchain_texts_total(1) by blast
  ultimately show ?thesis by (cases c rule: json_option_cases) (auto simp: renderLangChainMessage_def)
qed

lemma langchain_assistant_message: "conforms LangChainAssistantMessageSchema m \<Longrightarrow> conforms LangChainMessageSchema m"
  by (simp add: LangChainMessageSchema_def)

lemma langchain_assistants:
  assumes "\<forall>m\<in>set ms. conforms LangChainMessageSchema m"
  obtains as' where "filter_js langchain_is_assistant ms = Some as'" "\<forall>m\<in>set as'. conforms LangChainAssistantMessageSchema m"
proof -
  have "filter_js langchain_is_assistant ms \<noteq> None"
    by (rule filter_js_total) (use assms langchain_roles_total(2) in blast)
  then obtain as' where as': "filter_js langchain_is_assistant ms = Some as'" by blast
  show thesis by (rule that [OF as']) (use filter_js_set [OF as'] assms langchain_is_assistant_conforms in blast)
qed

lemma langchain_render_total: "renderOutputTextLangChain safeParse data \<noteq> None"
proof (cases "safeParse LangChainAssistantMessageSchema (only_element data)")
  case (Some m)
  have "conforms LangChainMessageSchema m"
    by (rule langchain_assistant_message) (rule parse_conforms [OF Some])
  then show ?thesis using langchain_render_message_total by (simp add: renderOutputTextLangChain_def Some)
next
  case None
  show ?thesis
  proof (cases "safeParse LangChainMessagesSchema data")
    case (Some r)
    then obtain ms where r: "r = JArr ms" and conf: "\<forall>m\<in>set ms. conforms LangChainMessageSchema m"
      by (rule langchain_messages_conform)
    obtain as' where as': "filter_js langchain_is_assistant ms = Some as'" "\<forall>m\<in>set as'. conforms LangChainAssistantMessageSchema m"
      by (rule langchain_assistants [OF conf])
    have "map_js (renderLangChainMessage safeParse) as' \<noteq> None"
      by (rule map_js_total) (use as'(2) langchain_assistant_message langchain_render_message_total in blast)
    then show ?thesis by (simp add: renderOutputTextLangChain_def None Some r as_array_def as'(1))
  qed (simp add: renderOutputTextLangChain_def None)
qed

lemma langchain_parse_assistants:
  "\<exists>r. parseLangChainAssistants safeParse data = Some r \<and>
     (\<forall>ms. r = Some ms \<longrightarrow> (\<forall>m\<in>set ms. conforms LangChainAssistantMessageSchema m))"
proof (cases "safeParse LangChainAssistantMessageSchema (only_element data)")
  case (Some m)
  then show ?thesis using parse_conforms [OF Some] by (simp add: parseLangChainAssistants_def)
next
  case None
  show ?thesis
  proof (cases "safeParse LangChainMessagesSchema data")
    case (Some r)
    then obtain ms where r: "r = JArr ms" and conf: "\<forall>m\<in>set ms. conforms LangChainMessageSchema m"
      by (rule langchain_messages_conform)
    show ?thesis by (rule langchain_assistants [OF conf]) (simp add: parseLangChainAssistants_def None Some r as_array_def)
  qed (simp add: parseLangChainAssistants_def None)
qed

lemma langchain_tools_total: "extractToolsIfToolOnlyLangChain safeParse data \<noteq> None"
proof -
  obtain r where r: "parseLangChainAssistants safeParse data = Some r"
    and conf: "\<forall>ms. r = Some ms \<longrightarrow> (\<forall>m\<in>set ms. conforms LangChainAssistantMessageSchema m)"
    using langchain_parse_assistants [of data] by (elim exE conjE) (rule that)
  show ?thesis
  proof (cases r)
    case (Some ms)
    have "some_js langchainHasText ms \<noteq> None"
      by (rule some_js_total) (use conf Some langchain_has_text_total(1) in blast)
    moreover have "map_js langchain_tools ms \<noteq> None"
      by (rule map_js_total) (use conf Some langchain_has_text_total(2) in blast)
    ultimately show ?thesis by (auto simp: extractToolsIfToolOnlyLangChain_def r Some)
  qed (simp add: extractToolsIfToolOnlyLangChain_def r)
qed

end

section \<open>Results of tools\<close>

text \<open>A result that is not a plain text loses its content.\<close>

lemma langchain_tool_message:
  assumes "conforms LangChainMessageSchema m" "str ''role'' m = Some ''tool''" "get ''content'' m = Some (Some (JArr ps))"
    and "str ''tool_call_id'' m = Some tid"
  shows "langchain_download_message env m = Some m"
    "langchain_message env m st = Some (\<lparr>mrole = Some ''tool'', mcontent = Parts [ToolResultPart (or_text (Some tid) ''-'')
       (or_str (snd st tid) (Some tid)) (OutContent [])]\<rparr>, st)"
proof -
  have "get ''role'' m = Some (Some (JStr ''tool''))"
    using assms(2) by (auto simp: str_def as_string_def split: bind_splits option.splits json.splits)
  then show "langchain_download_message env m = Some m"
    using assms(3) by (simp add: langchain_download_message_def langchain_is_user_def get_is_def)
  show "langchain_message env m st = Some (\<lparr>mrole = Some ''tool'', mcontent = Parts [ToolResultPart (or_text (Some tid) ''-'')
       (or_str (snd st tid) (Some tid)) (OutContent [])]\<rparr>, st)"
    using assms(2-4) by (simp add: langchain_message_def)
qed

text \<open>
  The result of a tool whose content is a list of parts is converted to a tool result without any content,
  whatever the parts are.
\<close>
lemma langchain_drops_tool_parts:
  assumes "\<forall>m\<in>set ms. conforms LangChainMessageSchema m" "i < length ms" "str ''role'' (ms ! i) = Some ''tool''"
    and "get ''content'' (ms ! i) = Some (Some (JArr ps))"
  shows "\<exists>out tid name. convertLangChainToPlaygroundMessages env ms = Some out \<and>
    out ! i = \<lparr>mrole = Some ''tool'', mcontent = Parts [ToolResultPart tid name (OutContent [])]\<rparr>"
proof -
  have conf: "conforms LangChainMessageSchema (ms ! i)" using assms(1,2) by simp
  obtain tid where tid: "str ''tool_call_id'' (ms ! i) = Some tid"
    using conf by (cases rule: langchain_message_cases)
      (use assms(3) in \<open>auto simp: str_def as_string_def elim: langchain_assistant split: json.splits option.splits\<close>)
  obtain out where out: "convertLangChainToPlaygroundMessages env ms = Some out"
    using langchain_messages_convert [OF assms(1)] by blast
  then obtain ds cs t where ds: "map_js (langchain_download_message env) ms = Some ds"
    and cs: "map_state (langchain_message env) ds (0, Map.empty) = Some (cs, t)" and eq: "out = map playground_message cs"
    by (auto simp: convertLangChainToPlaygroundMessages_def downloadLangChainImages_def convertLangChainToChatMessages_def
        split: bind_splits)
  have len: "length ds = length ms" "length cs = length ds"
    using map_js_length [OF ds] map_state_length [OF cs] by simp_all
  have "ds ! i = ms ! i"
    using map_js_nth [OF ds assms(2)] langchain_tool_message(1) [OF conf assms(3,4) tid] by simp
  moreover obtain st st' where "langchain_message env (ds ! i) st = Some (cs ! i, st')"
    using map_state_some [OF cs] assms(2) len by metis
  ultimately have "cs ! i = \<lparr>mrole = Some ''tool'', mcontent = Parts [ToolResultPart (or_text (Some tid) ''-'')
       (or_str (snd st tid) (Some tid)) (OutContent [])]\<rparr>"
    using langchain_tool_message(2) [OF conf assms(3,4) tid, of env st] by auto
  then show ?thesis using out eq assms(2) len by (simp add: playground_message_def)
qed

definition search_result :: json where
  "search_result = JObj [(''role'', JStr ''tool''), (''content'', JArr [JObj [(''type'', JStr ''text''), (''text'', JStr ''42'')]]),
     (''tool_call_id'', JStr ''c'')]"

theorem langchain_drops_tool_parts_witness:
  "\<exists>out tid name. convertLangChainToPlaygroundMessages offline_env [search_result] = Some out \<and>
    out ! 0 = \<lparr>mrole = Some ''tool'', mcontent = Parts [ToolResultPart tid name (OutContent [])]\<rparr>"
proof -
  have "zod_parse LangChainMessageSchema search_result = Some search_result" by code_simp
  then have "conforms LangChainMessageSchema search_result" by (rule zod_lib.parse_conforms)
  then show ?thesis
    using langchain_drops_tool_parts [of "[search_result]" 0 "[JObj [(''type'', JStr ''text''), (''text'', JStr ''42'')]]" offline_env]
    by (simp add: search_result_def get_obj str_def as_string_def)
qed

end
