(* ===== verification/GenAIMessages.thy ===== *)
theory GenAIMessages
  imports Messages
begin

text \<open>
  The messages of the OpenTelemetry GenAI conventions (\<open>lib/spans/types/gen-ai.ts\<close>) and their adapter
  (\<open>lib/spans/providers/gen-ai.ts\<close>). The schema of a part ends with a catch-all, so that a validated part may
  have any fields; texts, identifiers and names of the converted parts are therefore any values.
\<close>

section \<open>Schemas\<close>

definition GenAITextPartSchema :: schema where
  "GenAITextPartSchema = z_object [(''type'', ZLiteral ''text''), (''content'', ZOptional ZString)]"

definition GenAIThinkingPartSchema :: schema where
  "GenAIThinkingPartSchema = z_object [(''type'', ZLiteral ''thinking''), (''content'', ZOptional ZString)]"

definition GenAIToolCallPartSchema :: schema where
  "GenAIToolCallPartSchema = z_object [(''type'', ZLiteral ''tool_call''), (''id'', ZOptional ZString),
     (''name'', ZOptional ZString), (''arguments'', ZOptional ZUnknown)]"

definition GenAIToolCallResponsePartSchema :: schema where
  "GenAIToolCallResponsePartSchema = z_object [(''type'', ZLiteral ''tool_call_response''), (''id'', ZOptional ZString),
     (''name'', ZOptional ZString), (''result'', ZOptional ZUnknown)]"

definition GenAIUriPartSchema :: schema where
  "GenAIUriPartSchema = z_object [(''type'', ZLiteral ''uri''), (''uri'', ZString), (''modality'', ZOptional ZString),
     (''mime_type'', ZOptional ZString)]"

definition GenAIBlobPartSchema :: schema where
  "GenAIBlobPartSchema = z_object [(''type'', ZLiteral ''blob''), (''content'', ZOptional ZString),
     (''mime_type'', ZOptional ZString), (''modality'', ZOptional ZString)]"

definition GenAIPartSchema :: schema where
  "GenAIPartSchema = ZUnion [GenAITextPartSchema, GenAIThinkingPartSchema, GenAIToolCallPartSchema,
     GenAIToolCallResponsePartSchema, GenAIUriPartSchema, GenAIBlobPartSchema, ZString, ZRecord ZUnknown]"

definition GenAIMessageSchema :: schema where
  "GenAIMessageSchema = z_object [(''role'', ZString), (''parts'', ZArray GenAIPartSchema),
     (''finish_reason'', ZOptional ZString)]"

definition GenAIMessagesSchema :: schema where
  "GenAIMessagesSchema = ZArray GenAIMessageSchema"

lemmas genai_schemas = GenAITextPartSchema_def GenAIThinkingPartSchema_def GenAIToolCallPartSchema_def
  GenAIToolCallResponsePartSchema_def GenAIUriPartSchema_def GenAIBlobPartSchema_def

section \<open>Detection\<close>

definition GENAI_PART_TYPES :: "string list" where
  "GENAI_PART_TYPES = [''text'', ''thinking'', ''tool_call'', ''tool_call_response'', ''uri'', ''blob'']"

definition looksLikeGenAIPart :: "json \<Rightarrow> bool option" where
  "looksLikeGenAIPart part = (if \<not> is_object part then Some False
     else do { type \<leftarrow> get ''type'' part; Some (\<exists>t\<in>set GENAI_PART_TYPES. type = Some (JStr t)) })"

definition looks_like_message :: "json \<Rightarrow> bool option" where
  "looks_like_message msg = (if \<not> is_object msg then Some False
     else do {
       parts \<leftarrow> get ''parts'' msg;
       (case parts of Some (JArr ps) \<Rightarrow> some_js looksLikeGenAIPart ps | _ \<Rightarrow> Some False) })"

definition looksLikeGenAIMessages :: "json \<Rightarrow> bool option" where
  "looksLikeGenAIMessages data = (case data of JArr ms \<Rightarrow> some_js looks_like_message ms | _ \<Rightarrow> Some False)"

section \<open>Conversion\<close>

text \<open>\<open>v.length > 0\<close>, which is false on a value without a length.\<close>

definition greater_zero :: "message_env \<Rightarrow> json \<Rightarrow> bool" where
  "greater_zero env v = (case v of
     JNull \<Rightarrow> False | JBool b \<Rightarrow> b | JNum n \<Rightarrow> 0 < n
   | _ \<Rightarrow> (case js_number (json_string (env_text env) v) of Fin n \<Rightarrow> 0 < n | PInf \<Rightarrow> True | _ \<Rightarrow> False))"

definition has_length :: "message_env \<Rightarrow> json \<Rightarrow> bool" where
  "has_length env v = (case v of
     JStr s \<Rightarrow> s \<noteq> []
   | JArr vs \<Rightarrow> vs \<noteq> []
   | JObj kvs \<Rightarrow> (case map_of kvs ''length'' of None \<Rightarrow> False | Some n \<Rightarrow> greater_zero env n)
   | _ \<Rightarrow> False)"

text \<open>\<open>v.startsWith(t)\<close> on any value, and \<open>v?.startsWith(t)\<close>.\<close>

definition begins :: "string \<Rightarrow> json \<Rightarrow> bool option" where
  "begins t v = (case v of JStr s \<Rightarrow> Some (starts_with t s) | _ \<Rightarrow> None)"

definition maybe_begins :: "string \<Rightarrow> json option \<Rightarrow> bool option" where
  "maybe_begins t v = (case v of None \<Rightarrow> Some False | Some JNull \<Rightarrow> Some False | Some w \<Rightarrow> begins t w)"

text \<open>The map of tool names: an object or an array that is a key is found by no other value.\<close>

definition known_name :: "(json \<rightharpoonup> json) \<Rightarrow> json \<Rightarrow> json option" where
  "known_name names i = (case i of JObj _ \<Rightarrow> None | JArr _ \<Rightarrow> None | _ \<Rightarrow> names i)"

definition genai_part ::
  "message_env \<Rightarrow> json \<Rightarrow> (json \<rightharpoonup> json) \<Rightarrow> (json option part list \<times> (json \<rightharpoonup> json)) option" where
  "genai_part env part names = (case part of
     JStr s \<Rightarrow> Some (if s \<noteq> [] then [TextPart (Some part) None] else [], names)
   | _ \<Rightarrow> do {
       type \<leftarrow> get ''type'' part;
       if type = Some (JStr ''text'') then do {
         c \<leftarrow> get ''content'' part;
         Some (if has_length env (nullish c (JStr [])) then [TextPart (Some (nullish c (JStr []))) None] else [], names) }
       else if type = Some (JStr ''thinking'') then do {
         c \<leftarrow> get ''content'' part;
         Some (if has_length env (nullish c (JStr [])) then [ReasoningPart (Some (nullish c (JStr [])))] else [], names) }
       else if type = Some (JStr ''tool_call'') then do {
         i \<leftarrow> get ''id'' part;
         n \<leftarrow> get ''name'' part;
         a \<leftarrow> get ''arguments'' part;
         let toolCallId = nullish i (JStr []); toolName = nullish n (JStr []) in
         Some ([ToolCallPart (Some toolCallId) (Some toolName) (InRaw a) None],
           if json_truthy toolCallId then names(toolCallId \<mapsto> toolName) else names) }
       else if type = Some (JStr ''tool_call_response'') then do {
         i \<leftarrow> get ''id'' part;
         n \<leftarrow> get ''name'' part;
         r \<leftarrow> get ''result'' part;
         let toolCallId = nullish i (JStr []);
             toolName = nullish n (nullish (known_name names toolCallId) (JStr []));
             out = (case r of Some (JStr s) \<Rightarrow> OutText (Some (JStr s)) | _ \<Rightarrow> OutJson (env_stringify env (nullish r JNull))) in
         Some ([ToolResultPart (Some toolCallId) (Some (Some toolName)) out], names) }
       else if type = Some (JStr ''uri'') then do {
         modality \<leftarrow> get ''modality'' part;
         mime \<leftarrow> get ''mime_type'' part;
         image \<leftarrow> (if modality = Some (JStr ''image'') then Some True else maybe_begins ''image/'' mime);
         uri \<leftarrow> get ''uri'' part;
         Some (if image then [ImagePart uri]
           else [FilePart uri (Some (Some (nullish mime (JStr ''application/octet-stream'')))) None], names) }
       else if type = Some (JStr ''blob'') then do {
         c \<leftarrow> get ''content'' part;
         m \<leftarrow> get ''mime_type'' part;
         modality \<leftarrow> get ''modality'' part;
         let data = nullish c (JStr []); mime = nullish m (JStr ''application/octet-stream'') in do {
           image \<leftarrow> (if modality = Some (JStr ''image'') then Some True else begins ''image/'' mime);
           if image then do {
             b \<leftarrow> begins ''data:'' data;
             Some ([ImagePart (Some (if b then data
               else JStr (''data:'' @ json_string (env_text env) mime @ '';base64,'' @ json_string (env_text env) data)))], names) }
           else Some ([FilePart (Some data) (Some (Some mime)) None], names) } }
       else Some ([TextPart (Some (JStr (env_stringify env part))) None], names) })"

definition convertOne ::
  "message_env \<Rightarrow> json \<Rightarrow> (json \<rightharpoonup> json) \<Rightarrow> (json option message \<times> (json \<rightharpoonup> json)) option" where
  "convertOne env m names = do {
     parts \<leftarrow> arr ''parts'' m;
     (ps, names') \<leftarrow> map_state (genai_part env) parts names;
     role \<leftarrow> str ''role'' m;
     Some (\<lparr>mrole = Some role, mcontent = Parts (concat ps)\<rparr>, names')
   }"

definition genai_validated ::
  "(schema \<Rightarrow> json \<Rightarrow> json option) \<Rightarrow> json \<Rightarrow> json list option option" where
  "genai_validated sp data = do {
     looks \<leftarrow> looksLikeGenAIMessages data;
     if \<not> looks then Some None
     else (case sp GenAIMessagesSchema data of
         None \<Rightarrow> Some None
       | Some r \<Rightarrow> map_option Some (as_array (Some r)))
   }"

definition parseGenAIMessages ::
  "(schema \<Rightarrow> json \<Rightarrow> json option) \<Rightarrow> message_env \<Rightarrow> json \<Rightarrow> json option message list option option" where
  "parseGenAIMessages sp env data = do {
     ms \<leftarrow> genai_validated sp data;
     (case ms of
        None \<Rightarrow> Some None
      | Some messages \<Rightarrow> map_option (\<lambda>cs. Some (fst cs)) (map_state (convertOne env) messages Map.empty))
   }"

section \<open>Adapter\<close>

text \<open>The value a property has when it is read without looking at what the value is.\<close>

definition genai_text :: "string \<Rightarrow> json \<Rightarrow> string list option" where
  "genai_text type part = do {
     t \<leftarrow> get_is ''type'' type part;
     c \<leftarrow> get ''content'' part;
     Some (case c of Some (JStr s) \<Rightarrow> if t \<and> s \<noteq> [] then [s] else [] | _ \<Rightarrow> [])
   }"

definition extractGenAIText :: "json list \<Rightarrow> string list option" where
  "extractGenAIText parts = map_option concat (map_js (\<lambda>part. case part of
     JStr s \<Rightarrow> Some (if s \<noteq> [] then [s] else [])
   | _ \<Rightarrow> genai_text ''text'' part) parts)"

definition genai_first_user :: "json list \<Rightarrow> string list option" where
  "genai_first_user ms = do {
     m \<leftarrow> find_js (get_is ''role'' ''user'') ms;
     (case m of None \<Rightarrow> Some [] | Some msg \<Rightarrow> do { ps \<leftarrow> arr ''parts'' msg; extractGenAIText ps })
   }"

definition parseSystemAndUserGenAI :: "(schema \<Rightarrow> json \<Rightarrow> json option) \<Rightarrow> json \<Rightarrow> parsed_input option option" where
  "parseSystemAndUserGenAI sp data = do {
     ms \<leftarrow> genai_validated sp data;
     (case ms of
        None \<Rightarrow> Some None
      | Some messages \<Rightarrow> do {
          sm \<leftarrow> find_js (get_is ''role'' ''system'') messages;
          sys \<leftarrow> (case sm of
             None \<Rightarrow> Some None
           | Some m \<Rightarrow> do {
               ps \<leftarrow> arr ''parts'' m;
               ts \<leftarrow> extractGenAIText ps;
               Some (if ts = [] then None else Some (join '' '' ts)) });
          us \<leftarrow> genai_first_user messages;
          Some (Some \<lparr>systemText = sys, userParts = us\<rparr>) })
   }"

definition collectGenAIParts :: "json list \<Rightarrow> (string list \<times> string list) option" where
  "collectGenAIParts parts = do {
     text \<leftarrow> extractGenAIText parts;
     thinking \<leftarrow> map_js (\<lambda>part. case part of JStr s \<Rightarrow> Some [] | _ \<Rightarrow> genai_text ''thinking'' part) parts;
     Some (text, concat thinking)
   }"

definition renderGenAIMessage :: "json \<Rightarrow> string option" where
  "renderGenAIMessage m = do {
     ps \<leftarrow> arr ''parts'' m;
     (text, thinking) \<leftarrow> collectGenAIParts ps;
     Some (joinNonEmpty (map Some (if text \<noteq> [] then text else thinking)))
   }"

definition renderOutputTextGenAI :: "(schema \<Rightarrow> json \<Rightarrow> json option) \<Rightarrow> json \<Rightarrow> string option option" where
  "renderOutputTextGenAI sp data = do {
     ms \<leftarrow> genai_validated sp data;
     (case ms of
        None \<Rightarrow> Some None
      | Some messages \<Rightarrow> map_option (\<lambda>ts. Some (joinNonEmpty (map Some ts))) (map_js renderGenAIMessage messages))
   }"

definition genAIAdapter :: "(schema \<Rightarrow> json \<Rightarrow> json option) \<Rightarrow> adapter" where
  "genAIAdapter sp = \<lparr>adapter_id = HGenAI,
     detects = looksLikeGenAIMessages,
     parseSystemAndUser = Some (parseSystemAndUserGenAI sp),
     renderOutputText = Some (renderOutputTextGenAI sp),
     extractTools = None\<rparr>"

section \<open>Validated messages\<close>

lemma genai_part_shape:
  assumes "conforms GenAIPartSchema p"
  obtains (string) s where "p = JStr s" | (object) kvs where "p = JObj kvs"
  using assms by (auto simp: GenAIPartSchema_def genai_schemas)

lemma genai_message:
  assumes "conforms GenAIMessageSchema m"
  obtains kvs role ps where "m = JObj kvs" "str ''role'' m = Some role" "arr ''parts'' m = Some ps"
    "\<forall>p\<in>set ps. conforms GenAIPartSchema p"
proof -
  note obj = assms [unfolded GenAIMessageSchema_def]
  obtain role where "get ''role'' m = Some (Some (JStr role))"
    using string_field [OF obj, of "''role''"] by auto
  moreover obtain ps where "get ''parts'' m = Some (Some (JArr ps))" "\<forall>p\<in>set ps. conforms GenAIPartSchema p"
    using get_field [OF obj, of "''parts''" "ZArray GenAIPartSchema"] by auto
  moreover obtain kvs where "m = JObj kvs" using obj by auto
  ultimately show thesis using that by (simp add: str_def arr_def as_string_def as_array_def)
qed

lemma looks_like_part_total: "looksLikeGenAIPart p \<noteq> None"
  by (cases p) (auto simp: looksLikeGenAIPart_def is_object_def get_def)

lemma looks_like_message_total: "looks_like_message m \<noteq> None"
  using some_js_total [OF looks_like_part_total]
  by (cases m) (auto simp: looks_like_message_def is_object_def get_def split: option.splits json.splits)

lemma looks_like_total: "looksLikeGenAIMessages data \<noteq> None"
  using some_js_total [OF looks_like_message_total] by (cases data) (auto simp: looksLikeGenAIMessages_def)

context zod begin

lemma genai_validated_total:
  obtains (no) "genai_validated safeParse data = Some None"
  | (messages) ms where "genai_validated safeParse data = Some (Some ms)" "safeParse GenAIMessagesSchema data = Some (JArr ms)"
      "\<forall>m\<in>set ms. conforms GenAIMessageSchema m"
proof (cases "safeParse GenAIMessagesSchema data")
  case (Some r)
  obtain ms where "r = JArr ms" "\<forall>m\<in>set ms. conforms GenAIMessageSchema m"
    using parse_conforms [OF Some] by (auto simp: GenAIMessagesSchema_def)
  moreover obtain b where "looksLikeGenAIMessages data = Some b" using looks_like_total [of data] by blast
  ultimately show thesis using Some no messages by (cases b) (simp_all add: genai_validated_def as_array_def)
next
  case None
  obtain b where "looksLikeGenAIMessages data = Some b" using looks_like_total [of data] by blast
  then show thesis using None no by (cases b) (simp_all add: genai_validated_def)
qed

end

section \<open>The adapter never throws\<close>

lemma genai_text_total: "conforms GenAIPartSchema p \<Longrightarrow> p = JStr s \<or> genai_text t p \<noteq> None"
  by (erule genai_part_shape) (auto simp: genai_text_def reading)

lemma genai_texts_total:
  assumes "\<forall>p\<in>set ps. conforms GenAIPartSchema p"
  shows "extractGenAIText ps \<noteq> None" "collectGenAIParts ps \<noteq> None"
proof -
  have part: "(case p of JStr s \<Rightarrow> Some (f s) | _ \<Rightarrow> genai_text t p) \<noteq> None" if "p \<in> set ps" for p t f
    using assms that by (auto elim!: genai_part_shape simp: genai_text_def reading)
  have "map_js (\<lambda>p. case p of JStr s \<Rightarrow> Some [] | _ \<Rightarrow> genai_text ''thinking'' p) ps \<noteq> None"
    by (rule map_js_total) (rule part)
  moreover show "extractGenAIText ps \<noteq> None"
    using map_js_total [OF part, of ps "\<lambda>p. p"] by (simp add: extractGenAIText_def)
  ultimately show "collectGenAIParts ps \<noteq> None" by (auto simp: collectGenAIParts_def)
qed

lemma genai_role_total: "conforms GenAIMessageSchema m \<Longrightarrow> get_is k t m \<noteq> None"
  by (erule genai_message) (simp add: get_is_def get_def)

lemma genai_first_user_total:
  assumes "\<forall>m\<in>set ms. conforms GenAIMessageSchema m"
  shows "genai_first_user ms \<noteq> None"
proof -
  have "find_js (get_is ''role'' ''user'') ms \<noteq> None"
    by (rule find_js_total) (use assms genai_role_total in blast)
  then obtain u where u: "find_js (get_is ''role'' ''user'') ms = Some u" by blast
  show ?thesis
  proof (cases u)
    case (Some m)
    then have "conforms GenAIMessageSchema m" using find_js_Some [of _ ms m] u assms by blast
    then show ?thesis by (rule genai_message) (use genai_texts_total(1) in \<open>simp add: genai_first_user_def u Some\<close>)
  qed (simp add: genai_first_user_def u)
qed

lemma genai_render_message_total: "conforms GenAIMessageSchema m \<Longrightarrow> renderGenAIMessage m \<noteq> None"
  by (erule genai_message, drule genai_texts_total(2)) (auto simp: renderGenAIMessage_def)

context zod begin

lemma genai_input_total: "parseSystemAndUserGenAI safeParse data \<noteq> None"
proof (cases data rule: genai_validated_total)
  case (messages ms)
  have "find_js (get_is ''role'' ''system'') ms \<noteq> None"
    by (rule find_js_total) (use messages genai_role_total in blast)
  then obtain sm where sm: "find_js (get_is ''role'' ''system'') ms = Some sm" by blast
  obtain us where us: "genai_first_user ms = Some us" using genai_first_user_total [OF messages(3)] by blast
  show ?thesis
  proof (cases sm)
    case (Some m)
    then have "conforms GenAIMessageSchema m" using find_js_Some [of _ ms m] sm messages(3) by blast
    then obtain ps where "arr ''parts'' m = Some ps" "\<forall>p\<in>set ps. conforms GenAIPartSchema p" by (rule genai_message)
    then show ?thesis using genai_texts_total(1) [of ps]
      by (auto simp: parseSystemAndUserGenAI_def messages(1) sm Some us)
  qed (simp add: parseSystemAndUserGenAI_def messages(1) sm us)
qed (simp add: parseSystemAndUserGenAI_def)

lemma genai_render_total: "renderOutputTextGenAI safeParse data \<noteq> None"
proof (cases data rule: genai_validated_total)
  case (messages ms)
  have "map_js renderGenAIMessage ms \<noteq> None"
    by (rule map_js_total) (use messages(3) genai_render_message_total in blast)
  then show ?thesis by (simp add: renderOutputTextGenAI_def messages(1))
qed (simp add: renderOutputTextGenAI_def)

end

section \<open>When the conversion throws\<close>

text \<open>A property the code takes for an optional string: \<open>null\<close> does no harm.\<close>

definition string_like :: "json option \<Rightarrow> bool" where
  "string_like v = (case v of None \<Rightarrow> True | Some JNull \<Rightarrow> True | Some (JStr _) \<Rightarrow> True | _ \<Rightarrow> False)"

text \<open>A part the schema of its type rejects passes through the catch-all; the conversion then calls
  \<open>startsWith\<close> on its media type or its data.\<close>

definition genai_throws :: "json \<Rightarrow> bool" where
  "genai_throws p = (case p of
     JObj kvs \<Rightarrow>
       (let image = map_of kvs ''modality'' = Some (JStr ''image''); mime = map_of kvs ''mime_type'' in
        map_of kvs ''type'' = Some (JStr ''uri'') \<and> \<not> image \<and> \<not> string_like mime \<or>
        map_of kvs ''type'' = Some (JStr ''blob'') \<and>
          (\<not> image \<and> \<not> string_like mime \<or>
           (image \<or> maybe_begins ''image/'' mime = Some True) \<and> \<not> string_like (map_of kvs ''content'')))
   | _ \<Rightarrow> False)"

lemma maybe_begins_None: "maybe_begins t v = None \<longleftrightarrow> \<not> string_like v"
  by (cases v rule: json_option_cases) (simp_all add: maybe_begins_def begins_def string_like_def)

lemma begins_None: "begins t (nullish v (JStr s)) = None \<longleftrightarrow> \<not> string_like v"
  by (cases v rule: json_option_cases) (simp_all add: begins_def string_like_def nullish_def)

lemma begins_True:
  "\<not> starts_with t s \<Longrightarrow> begins t (nullish v (JStr s)) = Some True \<longleftrightarrow> maybe_begins t v = Some True"
  by (cases v rule: json_option_cases) (auto simp: maybe_begins_def begins_def nullish_def)

lemma genai_uri_None:
  assumes "map_of kvs ''type'' = Some (JStr ''uri'')"
  shows "genai_part env (JObj kvs) names = None \<longleftrightarrow> genai_throws (JObj kvs)"
  using assms maybe_begins_None [of "''image/''" "map_of kvs ''mime_type''"]
  by (auto simp: genai_part_def get_obj genai_throws_def split: bind_splits)

lemma genai_blob_None:
  assumes "map_of kvs ''type'' = Some (JStr ''blob'')"
  shows "genai_part env (JObj kvs) names = None \<longleftrightarrow> genai_throws (JObj kvs)"
proof -
  let ?mime = "nullish (map_of kvs ''mime_type'') (JStr ''application/octet-stream'')"
  have default: "\<not> starts_with ''image/'' ''application/octet-stream''" by (simp add: starts_with_def)
  note mime = begins_None [of "''image/''" "map_of kvs ''mime_type''" "''application/octet-stream''"]
    begins_True [OF default, of "map_of kvs ''mime_type''"]
  note data = begins_None [of "''data:''" "map_of kvs ''content''" "[]"]
  show ?thesis
  proof (cases "map_of kvs ''modality'' = Some (JStr ''image'')")
    case True
    then show ?thesis using assms data
      by (auto simp: genai_part_def get_obj genai_throws_def Let_def split: bind_splits)
  next
    case False
    show ?thesis
    proof (cases "begins ''image/'' ?mime")
      case None
      then show ?thesis using assms False mime(1) by (simp add: genai_part_def get_obj genai_throws_def Let_def)
    next
      case (Some b)
      then show ?thesis using assms False mime data
        by (cases b) (auto simp: genai_part_def get_obj genai_throws_def Let_def split: bind_splits)
    qed
  qed
qed

lemma genai_part_None:
  assumes "conforms GenAIPartSchema p"
  shows "genai_part env p names = None \<longleftrightarrow> genai_throws p"
  using assms
proof (cases rule: genai_part_shape)
  case (string s)
  then show ?thesis by (simp add: genai_part_def genai_throws_def)
next
  case (object kvs)
  consider "map_of kvs ''type'' = Some (JStr ''uri'')" | "map_of kvs ''type'' = Some (JStr ''blob'')"
    | "map_of kvs ''type'' \<noteq> Some (JStr ''uri'')" "map_of kvs ''type'' \<noteq> Some (JStr ''blob'')" by blast
  then show ?thesis
  proof cases
    case 3
    then show ?thesis unfolding object by (auto simp: genai_part_def get_obj genai_throws_def Let_def)
  qed (simp_all add: object genai_uri_None genai_blob_None)
qed

lemma genai_message_None:
  assumes "conforms GenAIMessageSchema m" "arr ''parts'' m = Some ps"
  shows "convertOne env m names = None \<longleftrightarrow> (\<exists>p\<in>set ps. genai_throws p)"
proof -
  obtain role where role: "str ''role'' m = Some role" and conf: "\<forall>p\<in>set ps. conforms GenAIPartSchema p"
    using assms(2) by (auto intro: genai_message [OF assms(1)])
  have "map_state (genai_part env) ps names = None \<longleftrightarrow> (\<exists>p\<in>set ps. genai_throws p)"
    by (rule map_state_None) (use conf genai_part_None in blast)
  then show ?thesis
    by (cases "map_state (genai_part env) ps names") (auto simp: convertOne_def assms(2) role)
qed

text \<open>
  The conversion of validated GenAI messages throws exactly when a uri or blob part has a media type
  that is no string (unless its modality says it is an image) or a blob shown as an image has content that is no
  string: the catch-all of the schema of parts lets them through.
\<close>
lemma genai_conversion_throws:
  assumes "zod sp" "genai_validated sp data = Some (Some ms)"
  shows "parseGenAIMessages sp env data = None \<longleftrightarrow>
    (\<exists>m\<in>set ms. \<exists>ps. arr ''parts'' m = Some ps \<and> (\<exists>p\<in>set ps. genai_throws p))"
proof -
  have conf: "\<forall>m\<in>set ms. conforms GenAIMessageSchema m"
    using assms(2) by (cases rule: zod.genai_validated_total [OF assms(1), of data]) auto
  have "map_state (convertOne env) ms Map.empty = None \<longleftrightarrow>
      (\<exists>m\<in>set ms. \<exists>ps. arr ''parts'' m = Some ps \<and> (\<exists>p\<in>set ps. genai_throws p))"
  proof (rule map_state_None)
    fix m names assume "m \<in> set ms"
    then obtain ps where "conforms GenAIMessageSchema m" "arr ''parts'' m = Some ps"
      using conf genai_message by metis
    then show "convertOne env m names = None \<longleftrightarrow> (\<exists>ps. arr ''parts'' m = Some ps \<and> (\<exists>p\<in>set ps. genai_throws p))"
      using genai_message_None by simp
  qed
  then show ?thesis by (simp add: parseGenAIMessages_def assms(2))
qed

definition bad_uri :: json where
  "bad_uri = JObj [(''type'', JStr ''uri''), (''uri'', JStr ''u''), (''mime_type'', JNum 5)]"

definition bad_uri_message :: json where
  "bad_uri_message = JObj [(''role'', JStr ''user''), (''parts'', JArr [bad_uri])]"

lemma bad_uri_validated: "genai_validated zod_parse (JArr [bad_uri_message]) = Some (Some [bad_uri_message])"
  by code_simp

theorem genai_conversion_throws_witness:
  "zod zod_parse \<and> parseGenAIMessages zod_parse offline_env (JArr [bad_uri_message]) = None"
proof -
  have "arr ''parts'' bad_uri_message = Some [bad_uri]" "genai_throws bad_uri" by code_simp+
  then show ?thesis
    using zod_lib.zod_axioms genai_conversion_throws [OF zod_lib.zod_axioms bad_uri_validated, of offline_env] by auto
qed

end
