(* ===== verification/ChatMessages.thy ===== *)
theory ChatMessages
  imports Messages
begin

text \<open>
  Messages in no provider's format (\<open>lib/spans/types/index.ts\<close>): the download of their images and their conversion.
  Nothing is validated, so roles, texts and names of the converted messages may be any values, or undefined: their
  type is \<open>json option\<close>.
\<close>

section \<open>Values that are not validated\<close>

text \<open>\<open>v || w\<close>, and \<open>isString(v) || isNumber(v)\<close>.\<close>

definition js_or :: "json option \<Rightarrow> json option \<Rightarrow> json option" where
  "js_or v w = (case v of None \<Rightarrow> w | Some u \<Rightarrow> if json_truthy u then v else w)"

definition is_scalar :: "json \<Rightarrow> bool" where
  "is_scalar v = (case v of JStr _ \<Rightarrow> True | JNum _ \<Rightarrow> True | _ \<Rightarrow> False)"

text \<open>\<open>String(v)\<close>, also of undefined.\<close>

definition js_string :: "message_env \<Rightarrow> json option \<Rightarrow> string" where
  "js_string env v = (case v of None \<Rightarrow> ''undefined'' | Some w \<Rightarrow> json_string (env_text env) w)"

text \<open>The map of tool names: an object or an array that is a key is found by no other value.\<close>

definition stored_name :: "(json \<rightharpoonup> json option) \<Rightarrow> json option \<Rightarrow> json option" where
  "stored_name names i = (case i of
     None \<Rightarrow> None | Some (JObj _) \<Rightarrow> None | Some (JArr _) \<Rightarrow> None | Some k \<Rightarrow> Option.bind (names k) id)"

fun every_js :: "('a \<Rightarrow> bool option) \<Rightarrow> 'a list \<Rightarrow> bool option" where
  "every_js f [] = Some True"
| "every_js f (x # xs) = Option.bind (f x) (\<lambda>b. if b then every_js f xs else Some False)"

section \<open>Download of images\<close>

text \<open>The URL of an image part; reading it throws nowhere, and what throws later is caught.\<close>

definition image_part_url :: "json \<Rightarrow> json option" where
  "image_part_url part = (case part of
     JObj kvs \<Rightarrow> (case map_of kvs ''image_url'' of
         Some iu \<Rightarrow> if json_truthy iu then (case iu of JObj ivs \<Rightarrow> map_of ivs ''url'' | _ \<Rightarrow> None) else map_of kvs ''url''
       | None \<Rightarrow> map_of kvs ''url'')
   | _ \<Rightarrow> None)"

definition chat_download_part :: "message_env \<Rightarrow> json \<Rightarrow> json option" where
  "chat_download_part env part = do {
     image \<leftarrow> get_is ''type'' ''image_url'' part;
     Some (if \<not> image then part
       else (case image_part_url part of
           Some (JStr url) \<Rightarrow>
             if isStorageUrl url then
               (case urlToBase64 env url of
                  Some b \<Rightarrow> JObj [(''type'', JStr ''image''), (''mediaType'', JStr ''image/png''),
                    (''data'', JStr (or_text (case split_on CHR '','' b of _ # d # _ \<Rightarrow> Some d | _ \<Rightarrow> None) b))]
                | None \<Rightarrow> part)
             else part
         | _ \<Rightarrow> part))
   }"

definition chat_download_message :: "message_env \<Rightarrow> json \<Rightarrow> json option" where
  "chat_download_message env m = (case m of
     JObj kvs \<Rightarrow> (case map_of kvs ''content'' of
         Some (JArr parts) \<Rightarrow> map_option (\<lambda>ps. set_key ''content'' (JArr ps) m) (map_js (chat_download_part env) parts)
       | _ \<Rightarrow> Some m)
   | _ \<Rightarrow> Some m)"

definition downloadImages :: "message_env \<Rightarrow> json \<Rightarrow> json option" where
  "downloadImages env messages = (case messages of
     JArr ms \<Rightarrow> map_option JArr (map_js (chat_download_message env) ms)
   | _ \<Rightarrow> Some messages)"

section \<open>Conversion\<close>

record chat_message =
  chat_role :: "json option"
  chat_content :: "json option content"

type_synonym tool_names = "json \<rightharpoonup> json option"

definition processContentPart ::
  "message_env \<Rightarrow> json option \<Rightarrow> json \<Rightarrow> json \<Rightarrow> tool_names \<Rightarrow> (json option part \<times> tool_names) option" where
  "processContentPart env role message part names = do {
     type \<leftarrow> get ''type'' part;
     if type = Some (JStr ''text'') then do { t \<leftarrow> get ''text'' part; Some (TextPart t None, names) }
     else if type = Some (JStr ''image_url'') then do {
       wrapped \<leftarrow> has_key ''image_url'' part;
       url \<leftarrow> (if wrapped then do { iu \<leftarrow> obj ''image_url'' part; get ''url'' iu } else get ''url'' part);
       Some (ImagePart url, names) }
     else if type = Some (JStr ''image'') then do {
       d \<leftarrow> str ''data'' part;
       m \<leftarrow> get ''mediaType'' part;
       Some (ImagePart (Some (JStr (if starts_with ''data:'' d then d
         else ''data:'' @ js_string env m @ '';base64,'' @ d))), names) }
     else if type = Some (JStr ''document_url'') then do {
       url \<leftarrow> get ''url'' part;
       m \<leftarrow> get ''mediaType'' part;
       Some (FilePart url (Some m) None, names) }
     else if type = Some (JStr ''tool_call'') then do {
       i \<leftarrow> get ''id'' part;
       n \<leftarrow> get ''name'' part;
       a \<leftarrow> get ''arguments'' part;
       Some (ToolCallPart (js_or i (Some (JStr []))) n (InRaw a) None,
         case i of Some k \<Rightarrow> if json_truthy k then names(k \<mapsto> n) else names | None \<Rightarrow> names) }
     else if role = Some (JStr ''tool'') then do {
       pid \<leftarrow> get ''toolCallId'' part;
       mid \<leftarrow> get ''tool_call_id'' message;
       pn \<leftarrow> get ''toolName'' part;
       let toolCallId = js_or pid (js_or mid (Some (JStr ''-''))) in
       Some (ToolResultPart toolCallId (Some (js_or (stored_name names toolCallId) (js_or pn (Some (JStr ''-'')))))
           (OutText (Some (JStr (env_stringify env part)))), names) }
     else Some (TextPart (Some (JStr (env_stringify env part))) None, names)
   }"

definition processMessageContent ::
  "message_env \<Rightarrow> json option \<Rightarrow> json \<Rightarrow> json \<Rightarrow> tool_names \<Rightarrow> (json option content \<times> tool_names) option" where
  "processMessageContent env role message content names = (case content of
     JStr s \<Rightarrow>
       if role = Some (JStr ''tool'') then do {
         mid \<leftarrow> get ''tool_call_id'' message;
         Some (Parts [ToolResultPart (js_or mid (Some (JStr ''-'')))
             (Some (js_or (stored_name names mid) (Some (JStr ''-'')))) (OutText (Some content))], names) }
       else Some (Content (Some content), names)
   | JArr ps \<Rightarrow> do {
       raw \<leftarrow> (if role = Some (JStr ''tool'') then every_js (get_is ''type'' ''tool-result'') ps else Some False);
       if raw then Some (Parts (map RawPart ps), names)
       else map_option (\<lambda>q. (Parts (fst q), snd q)) (map_state (processContentPart env role message) ps names) }
   | _ \<Rightarrow> Some (Content (Some (JStr (env_stringify env content))), names))"

definition chat_message_of ::
  "message_env \<Rightarrow> json \<Rightarrow> tool_names \<Rightarrow> (chat_message \<times> tool_names) option" where
  "chat_message_of env message names = (case message of
     JStr s \<Rightarrow> Some (\<lparr>chat_role = None, chat_content = Content (Some message)\<rparr>, names)
   | JNum _ \<Rightarrow> Some (\<lparr>chat_role = None, chat_content = Content (Some (JStr (js_string env (Some message))))\<rparr>, names)
   | JObj kvs \<Rightarrow> (case map_of kvs ''content'' of
       Some content \<Rightarrow> map_option (\<lambda>q. (\<lparr>chat_role = map_of kvs ''role'', chat_content = fst q\<rparr>, snd q))
         (processMessageContent env (map_of kvs ''role'') message content names)
     | None \<Rightarrow> Some (\<lparr>chat_role = None, chat_content = Content (Some (JStr (env_stringify env message)))\<rparr>, names))
   | _ \<Rightarrow> Some (\<lparr>chat_role = None, chat_content = Content (Some (JStr (env_stringify env message)))\<rparr>, names))"

definition convertToMessages :: "message_env \<Rightarrow> json \<Rightarrow> chat_message list option" where
  "convertToMessages env messages = (case messages of
     JArr ms \<Rightarrow> map_option fst (map_state (chat_message_of env) ms Map.empty)
   | _ \<Rightarrow> Some [\<lparr>chat_role = None, chat_content = Content (Some (JStr
       (if is_scalar messages then js_string env (Some messages) else env_stringify env messages)))\<rparr>])"

definition chat_playground :: "chat_message \<Rightarrow> chat_message" where
  "chat_playground m = (case chat_content m of
     Content (Some (JStr t)) \<Rightarrow> m\<lparr>chat_content := Parts [TextPart (Some (JStr t)) None]\<rparr> | _ \<Rightarrow> m)"

definition convertToPlaygroundMessages :: "message_env \<Rightarrow> json \<Rightarrow> chat_message list option" where
  "convertToPlaygroundMessages env messages = do {
     ds \<leftarrow> downloadImages env messages;
     cs \<leftarrow> convertToMessages env ds;
     Some (map chat_playground cs)
   }"

section \<open>When the conversion throws\<close>

text \<open>A part on which the conversion throws: null, an image without text data, an image whose URL object is null and
  that is not replaced by a stored image.\<close>

definition downloads :: "message_env \<Rightarrow> json option \<Rightarrow> bool" where
  "downloads env v = (case v of Some (JStr u) \<Rightarrow> isStorageUrl u \<and> urlToBase64 env u \<noteq> None | _ \<Rightarrow> False)"

definition part_throws :: "message_env \<Rightarrow> json \<Rightarrow> bool" where
  "part_throws env p = (case p of
     JNull \<Rightarrow> True
   | JObj kvs \<Rightarrow>
       map_of kvs ''type'' = Some (JStr ''image_url'') \<and> map_of kvs ''image_url'' = Some JNull \<and>
         \<not> downloads env (map_of kvs ''url'') \<or>
       map_of kvs ''type'' = Some (JStr ''image'') \<and> as_string (map_of kvs ''data'') = None
   | _ \<Rightarrow> False)"

definition chat_throws :: "message_env \<Rightarrow> json \<Rightarrow> bool" where
  "chat_throws env m = (case m of
     JObj kvs \<Rightarrow> (case map_of kvs ''content'' of Some (JArr ps) \<Rightarrow> list_ex (part_throws env) ps | _ \<Rightarrow> False)
   | _ \<Rightarrow> False)"

definition messages_throw :: "message_env \<Rightarrow> json \<Rightarrow> bool" where
  "messages_throw env data = (case data of JArr ms \<Rightarrow> list_ex (chat_throws env) ms | _ \<Rightarrow> False)"

lemma part_not_image:
  assumes "get ''type'' p = Some t" "t \<noteq> Some (JStr ''image_url'')"
  shows "chat_download_part env p = Some p"
    and "processContentPart env role (JObj mvs) p names = None \<longleftrightarrow> part_throws env p"
proof -
  show "chat_download_part env p = Some p" using assms by (simp add: chat_download_part_def get_is_def)
  have "get k p \<noteq> None" for k using assms(1) by (auto simp: get_def split: json.splits)
  then have k: "\<exists>v. get k p = Some v" for k by blast
  obtain v1 v2 v3 v4 v5 v6 v7 v8 v9 where v: "get ''text'' p = Some v1" "get ''url'' p = Some v2" "get ''mediaType'' p = Some v3"
    "get ''id'' p = Some v4" "get ''name'' p = Some v5" "get ''arguments'' p = Some v6" "get ''toolCallId'' p = Some v7"
    "get ''toolName'' p = Some v8" "get ''data'' p = Some v9"
    using k by metis
  have d: "t = Some (JStr ''image'') \<Longrightarrow> part_throws env p \<longleftrightarrow> as_string v9 = None"
    using assms(1) v(9) by (cases p) (auto simp: part_throws_def get_def)
  have n: "t \<noteq> Some (JStr ''image'') \<Longrightarrow> \<not> part_throws env p"
    using assms by (cases p) (auto simp: part_throws_def get_def)
  show "processContentPart env role (JObj mvs) p names = None \<longleftrightarrow> part_throws env p"
  proof (cases "t = Some (JStr ''image'')")
    case True
    then show ?thesis using assms v d by (cases "as_string v9") (simp_all add: processContentPart_def str_def)
  next
    case False
    then show ?thesis using assms v n by (simp add: processContentPart_def Let_def get_obj)
  qed
qed

lemma image_url_converts:
  assumes "map_of kvs ''type'' = Some (JStr ''image_url'')"
  shows "processContentPart env role m (JObj kvs) names = None \<longleftrightarrow> map_of kvs ''image_url'' = Some JNull"
proof (cases "map_of kvs ''image_url''")
  case None
  then have "has_key ''image_url'' (JObj kvs) = Some False"
    by (simp add: has_key_def map_of_eq_None_iff)
  then show ?thesis using assms None by (simp add: processContentPart_def get_obj)
next
  case (Some iu)
  then have "has_key ''image_url'' (JObj kvs) = Some True"
    by (auto simp: has_key_def dest: map_of_SomeD intro: rev_image_eqI)
  moreover have "get ''url'' iu = None \<longleftrightarrow> iu = JNull" by (cases iu) (simp_all add: get_def)
  ultimately show ?thesis using assms Some
    by (cases "get ''url'' iu") (simp_all add: processContentPart_def get_obj obj_def as_value_def)
qed

lemma part_image:
  assumes "map_of kvs ''type'' = Some (JStr ''image_url'')"
  shows "\<exists>q. chat_download_part env (JObj kvs) = Some q \<and>
    (processContentPart env role (JObj mvs) q names = None \<longleftrightarrow> part_throws env (JObj kvs))"
proof -
  let ?p = "JObj kvs"
  have data: "processContentPart env role (JObj mvs) (JObj [(''type'', JStr ''image''), (''mediaType'', JStr ''image/png''),
      (''data'', JStr d)]) names \<noteq> None" for d
    by (simp add: processContentPart_def get_obj str_def as_string_def)
  have throws: "part_throws env ?p \<longleftrightarrow> map_of kvs ''image_url'' = Some JNull \<and> \<not> downloads env (map_of kvs ''url'')"
    using assms by (simp add: part_throws_def)
  have null: "image_part_url ?p = map_of kvs ''url''" if "map_of kvs ''image_url'' = Some JNull"
    using that by (simp add: image_part_url_def)
  show ?thesis
  proof (cases "downloads env (image_part_url ?p)")
    case True
    then obtain u b where "image_part_url ?p = Some (JStr u)" "isStorageUrl u" "urlToBase64 env u = Some b"
      by (auto simp: downloads_def split: option.splits json.splits)
    moreover from this have "\<exists>d. chat_download_part env ?p =
        Some (JObj [(''type'', JStr ''image''), (''mediaType'', JStr ''image/png''), (''data'', JStr d)])"
      using assms by (simp add: chat_download_part_def get_is_def get_obj)
    moreover have "\<not> part_throws env ?p" using throws null True by auto
    ultimately show ?thesis using data by blast
  next
    case False
    then have "chat_download_part env ?p = Some ?p"
      using assms by (auto simp: chat_download_part_def get_is_def get_obj downloads_def split: option.splits json.splits)
    then show ?thesis using image_url_converts [OF assms] null throws False by auto
  qed
qed

lemma part_converts:
  assumes "p \<noteq> JNull"
  obtains q where "chat_download_part env p = Some q"
    "\<forall>names. processContentPart env role (JObj mvs) q names = None \<longleftrightarrow> part_throws env p"
proof -
  obtain t where t: "get ''type'' p = Some t" using assms by (cases p) (simp_all add: get_def)
  show thesis
  proof (cases "t = Some (JStr ''image_url'')")
    case False
    then show thesis using part_not_image [OF t] that by blast
  next
    case True
    then obtain kvs where p: "p = JObj kvs" "map_of kvs ''type'' = Some (JStr ''image_url'')"
      using t by (cases p) (auto simp: get_def)
    obtain q where q: "chat_download_part env p = Some q" using part_image [OF p(2)] p(1) by blast
    have "processContentPart env role (JObj mvs) q names = None \<longleftrightarrow> part_throws env p" for names
      using part_image [OF p(2), of env role mvs names] p(1) q by auto
    then show thesis using that [OF q] by simp
  qed
qed

lemma download_null: "chat_download_part env p = None \<longleftrightarrow> p = JNull"
  by (cases p) (simp_all add: chat_download_part_def get_is_def get_def)

lemma every_js_cases:
  assumes "\<And>x. x \<in> set xs \<Longrightarrow> f x \<noteq> None"
  shows "\<exists>b. every_js f xs = Some b \<and> (b \<longrightarrow> (\<forall>x\<in>set xs. f x = Some True))"
  using assms
proof (induction xs)
  case (Cons x xs)
  then obtain b where "every_js f xs = Some b \<and> (b \<longrightarrow> (\<forall>x\<in>set xs. f x = Some True))" by auto
  moreover obtain c where "f x = Some c" using Cons(2) [of x] by auto
  ultimately show ?case by (cases c) auto
qed auto

lemma result_part: "get_is ''type'' ''tool-result'' q = Some True \<Longrightarrow> processContentPart env role (JObj mvs) q names \<noteq> None"
proof -
  assume "get_is ''type'' ''tool-result'' q = Some True"
  then have t: "get ''type'' q = Some (Some (JStr ''tool-result''))" by (auto simp: get_is_def)
  then have "\<not> part_throws env q" by (cases q) (auto simp: part_throws_def get_def)
  then show ?thesis using part_not_image(2) [OF t] by simp
qed

text \<open>The content of a message whose parts were downloaded: it fails exactly when one of its parts does.\<close>

lemma content_converts:
  assumes "\<And>q. q \<in> set qs \<Longrightarrow> q \<noteq> JNull"
    and "\<And>q names. q \<in> set qs \<Longrightarrow> processContentPart env role (JObj mvs) q names = None \<longleftrightarrow> bad q"
  shows "processMessageContent env role (JObj mvs) (JArr qs) names = None \<longleftrightarrow> (\<exists>q\<in>set qs. bad q)"
proof -
  have parts: "map_state (processContentPart env role (JObj mvs)) qs names = None \<longleftrightarrow> (\<exists>q\<in>set qs. bad q)"
    by (rule map_state_None) (rule assms(2))
  have "get_is ''type'' ''tool-result'' q \<noteq> None" if "q \<in> set qs" for q
    using assms(1) [OF that] by (cases q) (simp_all add: get_is_def get_def)
  then have "\<exists>b. every_js (get_is ''type'' ''tool-result'') qs = Some b \<and>
      (b \<longrightarrow> (\<forall>q\<in>set qs. get_is ''type'' ''tool-result'' q = Some True))" by (rule every_js_cases)
  then obtain b where b: "every_js (get_is ''type'' ''tool-result'') qs = Some b"
    and results: "b \<Longrightarrow> \<forall>q\<in>set qs. get_is ''type'' ''tool-result'' q = Some True" by blast
  have "\<not> (\<exists>q\<in>set qs. bad q)" if b
    using results [OF that] result_part [of _ env role mvs names] assms(2) [of _ names] by blast
  then show ?thesis using parts b by (auto simp: processMessageContent_def)
qed

lemma chat_message_converts:
  shows "\<not> chat_throws env m \<Longrightarrow> \<exists>d. chat_download_message env m = Some d \<and> (\<forall>names. chat_message_of env d names \<noteq> None)"
    and "chat_throws env m \<Longrightarrow> chat_download_message env m = None \<or>
      (\<exists>d. chat_download_message env m = Some d \<and> (\<forall>names. chat_message_of env d names = None))"
proof -
  have "(if chat_throws env m then chat_download_message env m = None \<or>
      (\<exists>d. chat_download_message env m = Some d \<and> (\<forall>names. chat_message_of env d names = None))
    else \<exists>d. chat_download_message env m = Some d \<and> (\<forall>names. chat_message_of env d names \<noteq> None))"
  proof (cases "\<exists>kvs ps. m = JObj kvs \<and> map_of kvs ''content'' = Some (JArr ps)")
    case False
    then have d: "chat_download_message env m = Some m"
      by (auto simp: chat_download_message_def split: json.splits option.splits)
    have other: "processMessageContent env r (JObj kvs) c names \<noteq> None" if "\<not> is_array c" for r kvs c names
      using that by (cases c) (auto simp: processMessageContent_def is_array_def get_obj)
    have "chat_message_of env m names \<noteq> None" for names
    proof (cases m)
      case (JObj kvs)
      then have "\<not> is_array c" if "map_of kvs ''content'' = Some c" for c
        using that False by (cases c) (auto simp: is_array_def)
      then show ?thesis using JObj other by (cases "map_of kvs ''content''") (simp_all add: chat_message_of_def)
    qed (simp_all add: chat_message_of_def)
    moreover have "\<not> chat_throws env m" using False by (auto simp: chat_throws_def split: json.splits option.splits)
    ultimately show ?thesis using d by simp
  next
    case True
    then obtain kvs ps where m: "m = JObj kvs" "map_of kvs ''content'' = Some (JArr ps)" by blast
    have throws: "chat_throws env m \<longleftrightarrow> (\<exists>p\<in>set ps. part_throws env p)" using m by (simp add: chat_throws_def list_ex_iff)
    show ?thesis
    proof (cases "JNull \<in> set ps")
      case True
      have "map_js (chat_download_part env) ps = None"
        unfolding map_js_def all_some_None using True download_null [of env JNull] by force
      moreover have "chat_throws env m" unfolding throws by (rule bexI [OF _ True]) (simp add: part_throws_def)
      ultimately show ?thesis using m by (simp add: chat_download_message_def)
    next
      case False
      have "map_js (chat_download_part env) ps \<noteq> None"
        by (rule map_js_total) (use False in \<open>auto simp: download_null simp del: not_None_eq\<close>)
      then obtain qs where qs: "map_js (chat_download_part env) ps = Some qs" by blast
      let ?mvs = "AList.update ''content'' (JArr qs) kvs" and ?role = "map_of kvs ''role''"
      have one: "(q \<noteq> JNull) \<and> (\<forall>names. processContentPart env ?role (JObj ?mvs) q names = None \<longleftrightarrow> part_throws env p)"
        if "p \<in> set ps" "chat_download_part env p = Some q" for p q
      proof -
        have "p \<noteq> JNull" using that(1) False by blast
        then obtain q' where q': "chat_download_part env p = Some q'"
          "\<forall>names. processContentPart env ?role (JObj ?mvs) q' names = None \<longleftrightarrow> part_throws env p"
          by (rule part_converts [where env = env and role = ?role and mvs = ?mvs])
        moreover have "q' \<noteq> JNull"
          using q'(1) \<open>p \<noteq> JNull\<close> by (auto simp: chat_download_part_def split: bind_splits if_splits option.splits json.splits)
        ultimately show ?thesis using that(2) by simp
      qed
      define bad where "bad q = (processContentPart env ?role (JObj ?mvs) q Map.empty = None)" for q
      have eq: "map bad qs = map (part_throws env) ps"
        by (rule map_js_map [OF qs]) (use one in \<open>simp add: bad_def\<close>)
      have "processMessageContent env ?role (JObj ?mvs) (JArr qs) names = None \<longleftrightarrow> (\<exists>q\<in>set qs. bad q)" for names
      proof (rule content_converts)
        fix q assume "q \<in> set qs"
        then obtain p where "p \<in> set ps" "chat_download_part env p = Some q" using map_js_set [OF qs] by blast
        note facts = one [OF this]
        show "q \<noteq> JNull" using facts by blast
        show "processContentPart env ?role (JObj ?mvs) q names = None \<longleftrightarrow> bad q" for names
          using facts by (simp add: bad_def)
      qed
      moreover have "(\<exists>q\<in>set qs. bad q) \<longleftrightarrow> (\<exists>p\<in>set ps. part_throws env p)"
        using arg_cong [OF eq, of set] by auto
      moreover have "map_of ?mvs ''role'' = ?role" by (simp add: update_conv')
      ultimately show ?thesis using m throws qs
        by (auto simp: chat_download_message_def chat_message_of_def set_key_obj update_conv' simp del: not_None_eq)
    qed
  qed
  then show "\<not> chat_throws env m \<Longrightarrow> \<exists>d. chat_download_message env m = Some d \<and> (\<forall>names. chat_message_of env d names \<noteq> None)"
    and "chat_throws env m \<Longrightarrow> chat_download_message env m = None \<or>
      (\<exists>d. chat_download_message env m = Some d \<and> (\<forall>names. chat_message_of env d names = None))"
    by (simp_all split: if_splits)
qed

lemma chat_conversion_throws:
  "convertToPlaygroundMessages env data = None \<longleftrightarrow> messages_throw env data"
proof (cases data)
  case (JArr ms)
  show ?thesis
  proof (cases "map_js (chat_download_message env) ms")
    case None
    then have "\<exists>m\<in>set ms. chat_download_message env m = None"
      unfolding map_js_def all_some_None by force
    then have "list_ex (chat_throws env) ms"
      unfolding list_ex_iff using chat_message_converts(1) by (metis option.distinct(1))
    then show ?thesis using None JArr by (simp add: convertToPlaygroundMessages_def downloadImages_def messages_throw_def)
  next
    case (Some ds)
    define bad where "bad d = (chat_message_of env d Map.empty = None)" for d
    have one: "(chat_message_of env d names = None \<longleftrightarrow> bad d) \<and> (bad d \<longleftrightarrow> chat_throws env m)"
      if "m \<in> set ms" "chat_download_message env m = Some d" for m d names
      using chat_message_converts [of env m] that(2) by (cases "chat_throws env m") (auto simp: bad_def simp del: not_None_eq)
    have eq: "map bad ds = map (chat_throws env) ms"
      by (rule map_js_map [OF Some]) (use one in blast)
    have "map_state (chat_message_of env) ds Map.empty = None \<longleftrightarrow> (\<exists>d\<in>set ds. bad d)"
      by (rule map_state_None) (use map_js_set [OF Some] one in blast)
    moreover have "(\<exists>d\<in>set ds. bad d) \<longleftrightarrow> (\<exists>m\<in>set ms. chat_throws env m)"
      using arg_cong [OF eq, of set] by auto
    ultimately show ?thesis
      using JArr Some by (auto simp: convertToPlaygroundMessages_def downloadImages_def convertToMessages_def messages_throw_def
          list_ex_iff split: option.splits bind_splits)
  qed
qed (simp_all add: convertToPlaygroundMessages_def downloadImages_def convertToMessages_def messages_throw_def)

end
