(* ===== verification/Providers.thy ===== *)
theory Providers
  imports OpenAIMessages ResponsesItems AnthropicMessages GeminiMessages LangChainMessages GenAIMessages ChatMessages
begin

text \<open>
  The registry of providers (\<open>lib/spans/providers/index.ts\<close>) with the places that consult it
  (\<open>lib/actions/sessions/parse-input.ts\<close>, \<open>lib/actions/spans/previews/provider-keys.ts\<close>, \<open>tool-detection.ts\<close>), and the
  conversion of a span for the playground (\<open>lib/spans/utils.ts\<close>).
\<close>

section \<open>The registry\<close>

definition PROVIDERS :: "(schema \<Rightarrow> json \<Rightarrow> json option) \<Rightarrow> (string \<Rightarrow> json option) \<Rightarrow> adapter list" where
  "PROVIDERS sp parse = [genAIAdapter sp, openaiAdapter sp, openaiResponsesAdapter sp, anthropicAdapter sp parse,
     geminiAdapter sp, langchainAdapter sp]"

text \<open>A capability an adapter may lack, and the first adapter that gives a result.\<close>

definition capability :: "(json \<Rightarrow> 'a option option) option \<Rightarrow> json \<Rightarrow> 'a option option" where
  "capability f data = (case f of None \<Rightarrow> Some None | Some g \<Rightarrow> g data)"

fun first_js :: "('a \<Rightarrow> 'b option option) \<Rightarrow> 'a list \<Rightarrow> 'b option option" where
  "first_js f [] = Some None"
| "first_js f (x # xs) = Option.bind (f x) (\<lambda>r. case r of None \<Rightarrow> first_js f xs | Some y \<Rightarrow> Some (Some y))"

definition detectProvider :: "adapter list \<Rightarrow> json \<Rightarrow> provider_hint option" where
  "detectProvider providers data =
     map_option (case_option HUnknown adapter_id) (find_js (\<lambda>p. detects p data) providers)"

definition findAdapter :: "adapter list \<Rightarrow> provider_hint option \<Rightarrow> adapter option" where
  "findAdapter providers hint = (case hint of
     None \<Rightarrow> None
   | Some h \<Rightarrow> if h = HUnknown then None else List.find (\<lambda>p. adapter_id p = h) providers)"

definition extractSystemText :: "adapter list \<Rightarrow> json \<Rightarrow> string option option" where
  "extractSystemText providers data = first_js (\<lambda>a. map_option
     (\<lambda>parsed. or_str (Option.bind parsed systemText) None) (capability (parseSystemAndUser a) data)) providers"

section \<open>Dispatch\<close>

text \<open>\<open>tryParseJson\<close> of \<open>lib/actions/common/utils.ts\<close>: a text that is no JSON is tried as the inside of an array.\<close>

definition tryParseJsonOrArray :: "(string \<Rightarrow> json option) \<Rightarrow> string \<Rightarrow> json" where
  "tryParseJsonOrArray parse value =
     (if value = [] then JNull
      else case parse value of Some v \<Rightarrow> v
        | None \<Rightarrow> (case parse (''['' @ value @ '']'') of Some v \<Rightarrow> v | None \<Rightarrow> JStr value))"

definition tryParseMessages :: "adapter list \<Rightarrow> json list \<Rightarrow> parsed_input option option" where
  "tryParseMessages providers vs = first_js (\<lambda>a. capability (parseSystemAndUser a) (JArr vs)) providers"

definition parseExtractedMessages ::
  "adapter list \<Rightarrow> (string \<Rightarrow> json option) \<Rightarrow> string \<Rightarrow> string \<Rightarrow> parsed_input option option" where
  "parseExtractedMessages providers parse firstMessage lastMessage =
     (let parts = filter (\<lambda>s. s \<noteq> []) [firstMessage, lastMessage] in
      if parts = [] then Some None
      else let parsed = tryParseJsonOrArray parse (''['' @ join '','' parts @ '']'') in
        if \<not> json_truthy parsed then Some None else tryParseMessages providers (to_array parsed))"

definition matchProviderKey :: "adapter list \<Rightarrow> json \<Rightarrow> provider_hint option \<Rightarrow> string option option" where
  "matchProviderKey providers data hint = do {
     hinted \<leftarrow> (case findAdapter providers hint of None \<Rightarrow> Some None | Some a \<Rightarrow> capability (renderOutputText a) data);
     (case hinted of
        Some r \<Rightarrow> Some (Some r)
      | None \<Rightarrow> first_js (\<lambda>a. capability (renderOutputText a) data) providers)
   }"

definition extractToolsIfToolOnly ::
  "adapter list \<Rightarrow> json \<Rightarrow> provider_hint option \<Rightarrow> extracted_tool list option option" where
  "extractToolsIfToolOnly providers data hint =
     (case Option.bind (findAdapter providers hint) extractTools of
        Some f \<Rightarrow> f data
      | None \<Rightarrow> first_js (\<lambda>a. capability (extractTools a) data) providers)"

section \<open>The contract of an adapter\<close>

text \<open>The dispatch sites call the functions of the adapters on payloads of any shape, outside every \<open>try\<close>: an adapter
  must not throw. Then no dispatch site does.\<close>

locale adapter_contract =
  fixes a :: adapter
  assumes detect_returns: "detects a data \<noteq> None"
    and input_returns: "capability (parseSystemAndUser a) data \<noteq> None"
    and render_returns: "capability (renderOutputText a) data \<noteq> None"
    and tools_return: "capability (extractTools a) data \<noteq> None"

locale registry =
  fixes providers :: "adapter list"
  assumes contracts: "a \<in> set providers \<Longrightarrow> adapter_contract a"

lemma first_js_total: "(\<And>x. x \<in> set xs \<Longrightarrow> f x \<noteq> None) \<Longrightarrow> first_js f xs \<noteq> None"
  by (induction xs) (auto split: bind_splits option.splits)

context registry begin

lemma detection_returns: "detectProvider providers data \<noteq> None"
proof -
  have "find_js (\<lambda>p. detects p data) providers \<noteq> None"
    by (rule find_js_total) (rule adapter_contract.detect_returns [OF contracts])
  then show ?thesis by (simp add: detectProvider_def)
qed

lemma system_text_returns: "extractSystemText providers data \<noteq> None"
  unfolding extractSystemText_def
  by (rule first_js_total) (use adapter_contract.input_returns [OF contracts] in \<open>simp del: not_None_eq\<close>)

lemma messages_return: "tryParseMessages providers vs \<noteq> None"
  unfolding tryParseMessages_def by (rule first_js_total) (rule adapter_contract.input_returns [OF contracts])

lemma found: "findAdapter providers hint = Some a \<Longrightarrow> a \<in> set providers"
  by (auto simp: findAdapter_def find_Some_iff split: option.splits if_splits)

lemma rendering_returns: "matchProviderKey providers data hint \<noteq> None"
proof -
  have each: "capability (renderOutputText a) data \<noteq> None" if "a \<in> set providers" for a
    by (rule adapter_contract.render_returns [OF contracts [OF that]])
  then have "first_js (\<lambda>a. capability (renderOutputText a) data) providers \<noteq> None" by (rule first_js_total)
  moreover have "(case findAdapter providers hint of None \<Rightarrow> Some None | Some a \<Rightarrow> capability (renderOutputText a) data) \<noteq> None"
    using each found by (auto simp del: not_None_eq split: option.splits)
  ultimately show ?thesis by (auto simp: matchProviderKey_def split: option.splits)
qed

lemma tools_returns: "extractToolsIfToolOnly providers data hint \<noteq> None"
proof -
  have each: "capability (extractTools a) data \<noteq> None" if "a \<in> set providers" for a
    by (rule adapter_contract.tools_return [OF contracts [OF that]])
  then have "first_js (\<lambda>a. capability (extractTools a) data) providers \<noteq> None" by (rule first_js_total)
  moreover have "f data \<noteq> None" if f: "Option.bind (findAdapter providers hint) extractTools = Some f" for f
  proof -
    obtain a where "a \<in> set providers" "extractTools a = Some f"
      using f found by (auto split: bind_splits)
    then show ?thesis using each by (fastforce simp: capability_def)
  qed
  ultimately show ?thesis by (auto simp: extractToolsIfToolOnly_def simp del: not_None_eq split: option.splits)
qed

end

text \<open>Every adapter keeps the contract, whatever library provides the laws of validation.\<close>

context zod begin

lemma renderings_return:
  "renderOutputTextOpenAI safeParse data \<noteq> None" "renderOutputTextAnthropic safeParse data \<noteq> None"
  "renderOutputTextGemini safeParse data \<noteq> None"
  using openai_render_total [of data] anthropic_render_total [of data] gemini_render_total [of data] by auto

end

sublocale zod \<subseteq> openai: adapter_contract "openaiAdapter safeParse"
  by unfold_locales (use openai_input_total renderings_return openai_tools_total in \<open>auto simp: openaiAdapter_def capability_def\<close>)

sublocale zod \<subseteq> responses: adapter_contract "openaiResponsesAdapter safeParse"
  by unfold_locales
    (use responses_system_total responses_render_total in \<open>auto simp: openaiResponsesAdapter_def capability_def\<close>)

sublocale zod \<subseteq> anthropic: adapter_contract "anthropicAdapter safeParse parse" for parse
  by unfold_locales
    (use anthropic_input_total renderings_return anthropic_tools_total in \<open>auto simp: anthropicAdapter_def capability_def\<close>)

sublocale zod \<subseteq> gemini: adapter_contract "geminiAdapter safeParse"
  by unfold_locales (use gemini_input_total renderings_return gemini_tools_total in \<open>auto simp: geminiAdapter_def capability_def\<close>)

sublocale zod \<subseteq> langchain: adapter_contract "langchainAdapter safeParse"
  by unfold_locales
    (use langchain_input_total langchain_render_total langchain_tools_total in \<open>auto simp: langchainAdapter_def capability_def\<close>)

sublocale zod \<subseteq> genai: adapter_contract "genAIAdapter safeParse"
  by unfold_locales
    (use looks_like_total genai_input_total genai_render_total in \<open>auto simp: genAIAdapter_def capability_def\<close>)

sublocale zod \<subseteq> known: registry "PROVIDERS safeParse parse" for parse
proof (rule registry.intro)
  fix a assume "a \<in> set (PROVIDERS safeParse parse)"
  then show "adapter_contract a"
    using openai.adapter_contract_axioms responses.adapter_contract_axioms anthropic.adapter_contract_axioms [of parse]
      gemini.adapter_contract_axioms langchain.adapter_contract_axioms genai.adapter_contract_axioms
    by (auto simp: PROVIDERS_def)
qed

context zod begin

lemma dispatch_returns:
  "detectProvider (PROVIDERS safeParse parse) data \<noteq> None" "extractSystemText (PROVIDERS safeParse parse) data \<noteq> None"
  "tryParseMessages (PROVIDERS safeParse parse) vs \<noteq> None" "matchProviderKey (PROVIDERS safeParse parse) data hint \<noteq> None"
  "extractToolsIfToolOnly (PROVIDERS safeParse parse) data hint \<noteq> None"
  by (rule known.detection_returns known.system_text_returns known.messages_return known.rendering_returns
      known.tools_returns)+

end

text \<open>
  Claim C14. No site that consults the registry throws, whatever the payload and the hint: the detection of the
  provider, the extraction of the system text and of the first messages, the rendering of an output and the
  extraction of its tool calls.
\<close>
theorem dispatch_never_throws:
  assumes "zod sp"
  shows "detectProvider (PROVIDERS sp parse) data \<noteq> None \<and> extractSystemText (PROVIDERS sp parse) data \<noteq> None
    \<and> parseExtractedMessages (PROVIDERS sp parse) parse m n \<noteq> None
    \<and> matchProviderKey (PROVIDERS sp parse) data hint \<noteq> None \<and> extractToolsIfToolOnly (PROVIDERS sp parse) data hint \<noteq> None"
  using zod.dispatch_returns [OF assms] by (simp add: parseExtractedMessages_def Let_def)

definition tool_choice :: json where
  "tool_choice = JObj [(''message'', JObj [(''role'', JStr ''assistant''), (''content'', JStr []),
     (''tool_calls'', JArr [JObj [(''id'', JStr ''c''), (''type'', JStr ''function''),
       (''function'', JObj [(''name'', JStr ''f''), (''arguments'', JStr ''1'')])]])])]"

theorem dispatch_never_throws_witness:
  "zod zod_parse \<and> detectProvider (PROVIDERS zod_parse (\<lambda>_. None)) tool_choice = Some HOpenAI
    \<and> extractToolsIfToolOnly (PROVIDERS zod_parse (\<lambda>_. None)) tool_choice (Some HOpenAI)
       = Some (Some [\<lparr>toolName = ''f'', toolInput = Some (JStr ''1'')\<rparr>])
    \<and> matchProviderKey (PROVIDERS zod_parse (\<lambda>_. None)) JNull None \<noteq> None"
proof -
  have "detectProvider (PROVIDERS zod_parse (\<lambda>_. None)) tool_choice = Some HOpenAI" by code_simp
  moreover have "extractToolsIfToolOnly (PROVIDERS zod_parse (\<lambda>_. None)) tool_choice (Some HOpenAI)
       = Some (Some [\<lparr>toolName = ''f'', toolInput = Some (JStr ''1'')\<rparr>])" by code_simp
  ultimately show ?thesis using zod_lib.zod_axioms
      dispatch_never_throws [OF zod_lib.zod_axioms, of "\<lambda>_. None" JNull "[]" "[]" None] by blast
qed

section \<open>A detected payload is rendered\<close>

text \<open>
  An output detected as that of OpenAI, Anthropic or Gemini is rendered by the adapter that detected it, and
  looking it up without the hint finds a rendering too.
\<close>
lemma detected_output_renders:
  assumes "zod sp" "detectProvider (PROVIDERS sp parse) data = Some h" "h \<in> {HOpenAI, HAnthropic, HGemini}"
  shows "\<exists>a r. findAdapter (PROVIDERS sp parse) (Some h) = Some a \<and> capability (renderOutputText a) data = Some (Some r)
    \<and> matchProviderKey (PROVIDERS sp parse) data (Some h) = Some (Some r)
    \<and> (\<exists>r'. matchProviderKey (PROVIDERS sp parse) data None = Some (Some r'))"
proof -
  obtain a where a: "find_js (\<lambda>p. detects p data) (PROVIDERS sp parse) = Some (Some a)" "adapter_id a = h"
    using assms(2,3) by (auto simp: detectProvider_def split: option.splits)
  have mem: "a \<in> set (PROVIDERS sp parse)" "detects a data = Some True"
    using find_js_Some [OF a(1)] by blast+
  have adapter: "a = openaiAdapter sp \<or> a = anthropicAdapter sp parse \<or> a = geminiAdapter sp"
    using mem(1) a(2) assms(3)
    by (auto simp: PROVIDERS_def genAIAdapter_def openaiResponsesAdapter_def langchainAdapter_def)
  then have found: "findAdapter (PROVIDERS sp parse) (Some h) = Some a"
    using a(2) by (auto simp: findAdapter_def PROVIDERS_def genAIAdapter_def openaiAdapter_def openaiResponsesAdapter_def
        anthropicAdapter_def geminiAdapter_def)
  have "\<exists>r. capability (renderOutputText a) data = Some (Some r)"
    using adapter mem(2) zod.openai_render_total [OF assms(1), of data] zod.anthropic_render_total [OF assms(1), of data]
      zod.gemini_render_total [OF assms(1), of data]
    by (auto simp: openaiAdapter_def anthropicAdapter_def geminiAdapter_def capability_def)
  then obtain r where r: "capability (renderOutputText a) data = Some (Some r)" by blast
  have "first_js f xs = Some None \<Longrightarrow> x \<in> set xs \<Longrightarrow> f x = Some None" for f :: "adapter \<Rightarrow> string option option" and x xs
    by (induction xs) (auto split: bind_splits option.splits)
  then have "first_js (\<lambda>a. capability (renderOutputText a) data) (PROVIDERS sp parse) \<noteq> Some None"
    using mem(1) r by fastforce
  then have "\<exists>r'. matchProviderKey (PROVIDERS sp parse) data None = Some (Some r')"
    using zod.dispatch_returns(4) [OF assms(1), of parse data None] by (auto simp: matchProviderKey_def findAdapter_def)
  then show ?thesis using found r by (simp add: matchProviderKey_def)
qed

theorem detected_output_renders_witness:
  "\<exists>r. matchProviderKey (PROVIDERS zod_parse (\<lambda>_. None)) tool_choice (Some HOpenAI) = Some (Some r)"
proof -
  have "detectProvider (PROVIDERS zod_parse (\<lambda>_. None)) tool_choice = Some HOpenAI" by code_simp
  from detected_output_renders [OF zod_lib.zod_axioms this] show ?thesis by auto
qed

section \<open>A span for the playground\<close>

datatype playground_messages = Validated "string message list" | Unvalidated "chat_message list"

definition convertSpanToPlayground ::
  "(schema \<Rightarrow> json \<Rightarrow> json option) \<Rightarrow> message_env \<Rightarrow> json \<Rightarrow> playground_messages option" where
  "convertSpanToPlayground sp env messages = do {
     openaiOutput \<leftarrow> parseOpenAIOutput sp messages;
     anthropicOutput \<leftarrow> parseAnthropicOutput sp messages;
     geminiOutput \<leftarrow> parseGeminiOutput sp messages;
     (case openaiOutput of Some ms \<Rightarrow> map_option Validated (convertOpenAIToPlaygroundMessages env ms)
      | None \<Rightarrow> (case parseOpenAIInput sp messages of Some ms \<Rightarrow> map_option Validated (convertOpenAIToPlaygroundMessages env ms)
      | None \<Rightarrow> (case sp LangChainMessageSchema messages of Some m \<Rightarrow> map_option Validated (convertLangChainToPlaygroundMessages env [m])
      | None \<Rightarrow> (case sp LangChainMessagesSchema messages of
          Some r \<Rightarrow> map_option Validated (Option.bind (as_array (Some r)) (convertLangChainToPlaygroundMessages env))
      | None \<Rightarrow> (case anthropicOutput of Some ms \<Rightarrow> map_option Validated (convertAnthropicToPlaygroundMessages env ms)
      | None \<Rightarrow> (case parseAnthropicInput sp (env_parse env) messages of
          Some ms \<Rightarrow> map_option Validated (convertAnthropicToPlaygroundMessages env ms)
      | None \<Rightarrow> (case geminiOutput of Some ms \<Rightarrow> map_option Validated (convertGeminiToPlaygroundMessages env ms)
      | None \<Rightarrow> (case parseGeminiInput sp messages of Some ms \<Rightarrow> map_option Validated (convertGeminiToPlaygroundMessages env ms)
      | None \<Rightarrow> map_option Unvalidated (convertToPlaygroundMessages env messages)))))))))
   }"

definition downloadSpanImages ::
  "(schema \<Rightarrow> json \<Rightarrow> json option) \<Rightarrow> message_env \<Rightarrow> json \<Rightarrow> json option" where
  "downloadSpanImages sp env messages = do {
     openaiOutput \<leftarrow> parseOpenAIOutput sp messages;
     (case openaiOutput of Some ms \<Rightarrow> map_option JArr (downloadOpenAIImages env ms)
      | None \<Rightarrow> (case parseOpenAIInput sp messages of Some ms \<Rightarrow> map_option JArr (downloadOpenAIImages env ms)
      | None \<Rightarrow> (case sp LangChainMessageSchema messages of Some m \<Rightarrow> map_option JArr (downloadLangChainImages env [m])
      | None \<Rightarrow> (case sp LangChainMessagesSchema messages of
          Some r \<Rightarrow> map_option JArr (Option.bind (as_array (Some r)) (downloadLangChainImages env))
      | None \<Rightarrow> downloadImages env messages))))
   }"

text \<open>Some provider validates the payload.\<close>

definition recognised :: "(schema \<Rightarrow> json \<Rightarrow> json option) \<Rightarrow> message_env \<Rightarrow> json \<Rightarrow> bool" where
  "recognised sp env data \<longleftrightarrow> sp OpenAIOutputSchema data \<noteq> None \<or> sp OpenAIInputSchema data \<noteq> None
     \<or> sp LangChainMessageSchema data \<noteq> None \<or> sp LangChainMessagesSchema data \<noteq> None
     \<or> sp AnthropicOutputMessageSchema data \<noteq> None \<or> sp AnthropicOutputMessagesSchema data \<noteq> None
     \<or> parseAnthropicInput sp (env_parse env) data \<noteq> None \<or> sp GeminiOutputSchema data \<noteq> None \<or> sp GeminiInputSchema data \<noteq> None"

text \<open>Every way to convert validated messages returns.\<close>

context zod begin

lemma openai_playground:
  "parseOpenAIOutput safeParse data = Some (Some ms) \<or> parseOpenAIInput safeParse data = Some ms \<Longrightarrow>
     convertOpenAIToPlaygroundMessages env ms \<noteq> None"
  using openai_input_conforms [of data ms] openai_output_conforms [of data] openai_messages_convert [of ms env] by auto

lemma langchain_playground:
  "safeParse LangChainMessageSchema data = Some m \<Longrightarrow> convertLangChainToPlaygroundMessages env [m] \<noteq> None"
  "safeParse LangChainMessagesSchema data = Some r \<Longrightarrow> Option.bind (as_array (Some r)) (convertLangChainToPlaygroundMessages env) \<noteq> None"
proof -
  show "convertLangChainToPlaygroundMessages env [m] \<noteq> None" if m: "safeParse LangChainMessageSchema data = Some m"
    using langchain_messages_convert [of "[m]" env] parse_conforms [OF m] by auto
  show "Option.bind (as_array (Some r)) (convertLangChainToPlaygroundMessages env) \<noteq> None"
    if r: "safeParse LangChainMessagesSchema data = Some r"
    by (rule langchain_messages_conform [OF r]) (use langchain_messages_convert in \<open>force simp: as_array_def\<close>)
qed

lemma anthropic_playground:
  "parseAnthropicOutput safeParse data = Some (Some ms) \<or> parseAnthropicInput safeParse parse data = Some ms \<Longrightarrow>
     convertAnthropicToPlaygroundMessages env ms \<noteq> None"
  using anthropic_output_valid [of data] anthropic_input_valid [of parse data ms] anthropic_messages_convert [of ms env] by auto

lemma gemini_playground:
  "parseGeminiOutput safeParse data = Some (Some ms) \<or> parseGeminiInput safeParse data = Some ms \<Longrightarrow>
     convertGeminiToPlaygroundMessages env ms \<noteq> None"
  using gemini_output_valid [of data] gemini_input_valid [of data ms] gemini_messages_convert [of ms env] by auto

lemma span_conversion:
  "\<not> recognised safeParse env data \<Longrightarrow>
     convertSpanToPlayground safeParse env data = map_option Unvalidated (convertToPlaygroundMessages env data)"
  "recognised safeParse env data \<Longrightarrow> \<exists>out. convertSpanToPlayground safeParse env data = Some (Validated out)"
proof -
  obtain oo where oo: "parseOpenAIOutput safeParse data = Some oo" "oo \<noteq> None \<longleftrightarrow> safeParse OpenAIOutputSchema data \<noteq> None"
    using openai_output_conforms [of data] by blast
  obtain ao where ao: "parseAnthropicOutput safeParse data = Some ao" "ao \<noteq> None \<longleftrightarrow>
      safeParse AnthropicOutputMessageSchema data \<noteq> None \<or> safeParse AnthropicOutputMessagesSchema data \<noteq> None"
    using anthropic_output_valid [of data] by blast
  obtain go where go: "parseGeminiOutput safeParse data = Some go" "go \<noteq> None \<longleftrightarrow> safeParse GeminiOutputSchema data \<noteq> None"
    using gemini_output_valid [of data] by blast
  have oi: "parseOpenAIInput safeParse data \<noteq> None \<longleftrightarrow> safeParse OpenAIInputSchema data \<noteq> None"
    by (simp add: parseOpenAIInput_def)
  have gi: "parseGeminiInput safeParse data \<noteq> None \<longleftrightarrow> safeParse GeminiInputSchema data \<noteq> None"
    by (simp add: parseGeminiInput_def)
  {
    assume "\<not> recognised safeParse env data"
    then have "oo = None" "ao = None" "go = None" "parseOpenAIInput safeParse data = None" "parseGeminiInput safeParse data = None"
      "safeParse LangChainMessageSchema data = None" "safeParse LangChainMessagesSchema data = None"
      "parseAnthropicInput safeParse (env_parse env) data = None"
      using oo(2) ao(2) go(2) oi gi unfolding recognised_def by blast+
    then show "convertSpanToPlayground safeParse env data = map_option Unvalidated (convertToPlaygroundMessages env data)"
      by (simp add: convertSpanToPlayground_def oo(1) ao(1) go(1))
  }
  assume "recognised safeParse env data"
  then show "\<exists>out. convertSpanToPlayground safeParse env data = Some (Validated out)"
    using oo ao go oi gi openai_playground [of data _ env] langchain_playground [of data _ env]
      anthropic_playground [of data _ "env_parse env" env] gemini_playground [of data _ env]
    by (auto simp: convertSpanToPlayground_def recognised_def split: option.splits)
qed

end

text \<open>
  Claim C13. Converting a span for the playground returns validated messages for every payload that some provider's
  schema accepts. On another payload it throws exactly when the payload is an array with a message whose content has
  a part that is null, an image without text data, or an image whose URL object is null and that no stored image replaces.
\<close>
theorem span_conversion_throws:
  assumes "zod sp"
  shows "(convertSpanToPlayground sp env data = None \<longleftrightarrow> \<not> recognised sp env data \<and> messages_throw env data)
    \<and> (recognised sp env data \<longleftrightarrow> (\<exists>out. convertSpanToPlayground sp env data = Some (Validated out)))"
proof (cases "recognised sp env data")
  case True
  then show ?thesis using zod.span_conversion(2) [OF assms True] by auto
next
  case False
  then show ?thesis
    using zod.span_conversion(1) [OF assms False] chat_conversion_throws [of env data]
    by (cases "convertToPlaygroundMessages env data") auto
qed

definition null_part :: json where
  "null_part = JArr [JObj [(''role'', JStr ''user''), (''content'', JArr [JNull])]]"

theorem span_conversion_throws_witness:
  "zod zod_parse \<and> convertSpanToPlayground zod_parse offline_env null_part = None"
proof -
  have "messages_throw offline_env null_part" by code_simp
  moreover have "\<not> recognised zod_parse offline_env null_part"
    unfolding recognised_def by code_simp
  ultimately show ?thesis
    using zod_lib.zod_axioms span_conversion_throws [OF zod_lib.zod_axioms, of offline_env null_part] by blast
qed

end
