(* ===== verification/DeepParse.thy ===== *)
theory DeepParse
  imports Json JsText
begin

text \<open>
  Payloads whose strings are themselves JSON texts: \<open>deepParseJson\<close> of \<open>lib/actions/common/utils.ts\<close> and
  \<open>deepParseValue\<close> of \<open>lib/actions/spans/previews/utils.ts\<close>. Both parse what they just parsed again, so that they
  return at all is a fact about \<open>JSON.parse\<close>: what it reads from a text has less text in it than the text, since
  a string is read from at least two more characters, its quotes. The type \<open>json_parser\<close> is the functions with
  this law.
\<close>

section \<open>Parsers\<close>

text \<open>The number of characters in the strings of a value, keys apart.\<close>

function text_size :: "json \<Rightarrow> nat" where
  "text_size JNull = 0"
| "text_size (JBool b) = 0"
| "text_size (JNum n) = 0"
| "text_size (JStr s) = length s"
| "text_size (JArr xs) = sum_list (map text_size xs)"
| "text_size (JObj kvs) = sum_list (map (\<lambda>p. text_size (snd p)) kvs)"
  by pat_completeness auto

termination
  by (relation "measure size") (auto simp: size_element size_entry)

typedef json_parser = "{p :: string \<Rightarrow> json option. \<forall>s v. p s = Some v \<longrightarrow> text_size v < length s}"
  morphisms run_parser Json_parser
  by (rule exI [of _ "\<lambda>s. None"]) simp

setup_lifting type_definition_json_parser

lemma parser_shrinks: "run_parser p s = Some v \<Longrightarrow> text_size v < length s"
  using run_parser [of p] by simp

lemma element_text: "v \<in> set vs \<Longrightarrow> text_size v \<le> text_size (JArr vs)"
  by (simp add: member_le_sum_list)

lemma entry_text: "e \<in> set kvs \<Longrightarrow> text_size (snd e) \<le> text_size (JObj kvs)"
  using member_le_sum_list [of "text_size (snd e)" "map (\<lambda>p. text_size (snd p)) kvs"] by simp

text \<open>A parser given by a table of texts and their values; entries that break the law are left out.\<close>

lift_definition table_parser :: "(string \<times> json) list \<Rightarrow> json_parser" is
  "\<lambda>t s. case map_of t s of None \<Rightarrow> None | Some v \<Rightarrow> if text_size v < length s then Some v else None"
  by (auto split: option.splits if_splits)

section \<open>Parsing what was parsed\<close>

function deepParseJson :: "json_parser \<Rightarrow> json \<Rightarrow> json" where
  "deepParseJson p JNull = JNull"
| "deepParseJson p (JBool b) = JBool b"
| "deepParseJson p (JNum n) = JNum n"
| "deepParseJson p (JStr s) = (case run_parser p s of None \<Rightarrow> JStr s | Some v \<Rightarrow> deepParseJson p v)"
| "deepParseJson p (JArr vs) = JArr (map (deepParseJson p) vs)"
| "deepParseJson p (JObj kvs) = JObj (map (\<lambda>e. (fst e, deepParseJson p (snd e))) kvs)"
  by pat_completeness auto

termination
proof (relation "measures [\<lambda>(p, v). text_size v, \<lambda>(p, v). size v]", goal_cases)
  case (3 p vs v)
  then show ?case using element_text [OF 3] size_element [OF 3] by (auto simp: le_less)
next
  case (4 p kvs e)
  then show ?case using entry_text [OF 4] size_entry [OF 4] by (auto simp: le_less)
qed (auto dest: parser_shrinks)

text \<open>\<open>deepParseValue\<close> unwraps only a text at the top, as long as a text comes out.\<close>

function deepParseValue :: "json_parser \<Rightarrow> json \<Rightarrow> json" where
  "deepParseValue p v = (case v of
     JStr s \<Rightarrow> (case run_parser p s of
         None \<Rightarrow> v
       | Some w \<Rightarrow> (case w of JStr t \<Rightarrow> deepParseValue p w | _ \<Rightarrow> w))
   | _ \<Rightarrow> v)"
  by pat_completeness auto

termination
  by (relation "measure (\<lambda>(p, v). text_size v)") (auto dest: parser_shrinks)

declare deepParseValue.simps [simp del]

lemma unwrap_simps [simp]:
  "deepParseValue p JNull = JNull" "deepParseValue p (JBool b) = JBool b" "deepParseValue p (JNum n) = JNum n"
  "deepParseValue p (JArr vs) = JArr vs" "deepParseValue p (JObj kvs) = JObj kvs"
  by (simp_all add: deepParseValue.simps)

text \<open>A value is settled when none of its strings, at any depth, is a JSON text.\<close>

function settled :: "json_parser \<Rightarrow> json \<Rightarrow> bool" where
  "settled p JNull = True"
| "settled p (JBool b) = True"
| "settled p (JNum n) = True"
| "settled p (JStr s) = (run_parser p s = None)"
| "settled p (JArr vs) = list_all (settled p) vs"
| "settled p (JObj kvs) = list_all (\<lambda>e. settled p (snd e)) kvs"
  by pat_completeness auto

termination
  by (relation "measure (\<lambda>(p, v). size v)") (auto simp: size_element size_entry)

lemma deep_parse_settles: "settled p (deepParseJson p v)"
  by (induction p v rule: deepParseJson.induct) (auto simp: list_all_iff split: option.splits)

lemma settled_fixed: "settled p v \<Longrightarrow> deepParseJson p v = v"
proof (induction p v rule: settled.induct)
  case (5 p vs)
  then show ?case by (simp add: list_all_iff map_idI)
next
  case (6 p kvs)
  then show ?case by (auto simp: list_all_iff intro!: map_idI)
qed simp_all

lemma deep_parse_wf: "json_wf v \<Longrightarrow> (\<And>s w. run_parser p s = Some w \<Longrightarrow> json_wf w) \<Longrightarrow> json_wf (deepParseJson p v)"
  by (induction p v rule: deepParseJson.induct) (auto simp: list_all_iff o_def split: option.splits)

text \<open>Unwrapping first changes nothing for the deep parser.\<close>

lemma deep_parse_unwrapped: "deepParseJson p (deepParseValue p v) = deepParseJson p v"
proof (induction p v rule: deepParseValue.induct)
  case (1 p v)
  show ?case
  proof (cases v)
    case (JStr s)
    have "deepParseJson p (deepParseValue p w) = deepParseJson p w" if "run_parser p s = Some w" "w = JStr t" for w t
      using 1 [OF JStr that] .
    then show ?thesis unfolding JStr by (subst deepParseValue.simps) (auto split: option.splits json.splits)
  qed simp_all
qed

lemma unwrapped_text: "deepParseValue p v = JStr s \<Longrightarrow> run_parser p s = None"
proof (induction p v rule: deepParseValue.induct)
  case (1 p v)
  then show ?case by (auto simp: deepParseValue.simps [of p v] split: json.splits option.splits)
qed

end
