(* ===== verification/Previews.thy ===== *)
theory Previews
  imports DeepParse Providers "HOL-Library.List_Lexorder" "HOL-Library.Char_ord"
begin

text \<open>
  The helpers of the span previews, \<open>lib/actions/spans/previews/\<close>: the classification of a payload, the
  fingerprint of its shape and the check of a rendered template (\<open>utils.ts\<close>), the search for a text
  without a template (\<open>heuristic.ts\<close>), and the exchange with the model that proposes templates
  (\<open>prompts.ts\<close>). \<open>shown\<close> is \<open>String(v)\<close>; the renderer of templates is a parameter.
\<close>

section \<open>Payloads\<close>

datatype payload_class = Primitive string | Empty | ObjectData json | RawText string

definition classifyPayload :: "(json \<Rightarrow> string) \<Rightarrow> json_parser \<Rightarrow> json \<Rightarrow> payload_class" where
  "classifyPayload shown p raw =
     (let parsed = deepParseValue p raw in
      case parsed of
        JNull \<Rightarrow> Empty
      | JStr s \<Rightarrow> if s = [] then Empty else Primitive s
      | JNum n \<Rightarrow> Primitive (shown parsed)
      | JBool b \<Rightarrow> Primitive (shown parsed)
      | _ \<Rightarrow> (case deepParseJson p parsed of
            JArr vs \<Rightarrow> if vs = [] then Empty else ObjectData (JArr vs)
          | JObj kvs \<Rightarrow> if kvs = [] then Empty else ObjectData (JObj kvs)
          | w \<Rightarrow> RawText (shown w)))"

definition METADATA_KEYS :: "string list" where
  "METADATA_KEYS = [''id'', ''ids'', ''status'', ''type'', ''types'', ''kind'', ''mode'', ''version'', ''role'',
     ''model'', ''usage'', ''timestamp'', ''duration'', ''finish_reason'', ''token_count'', ''index'', ''logprobs'',
     ''created'', ''object'', ''system_fingerprint'', ''signature'', ''tool_use_id'', ''stop_reason'']"

definition IDENTIFIER_KEYS :: "string list" where
  "IDENTIFIER_KEYS = [''name'', ''action'', ''function'', ''method'', ''command'', ''tool'']"

definition STRUCTURED_FIELD_NAMES :: "string list" where
  "STRUCTURED_FIELD_NAMES = METADATA_KEYS @ IDENTIFIER_KEYS @
     [''content'', ''text'', ''thinking'', ''result'', ''output'', ''message'', ''answer'', ''query'', ''description'',
      ''summary'', ''url'', ''path'', ''args'', ''arguments'', ''input'', ''params'', ''body'', ''data'', ''response'',
      ''error'', ''code'']"

definition js_typeof :: "json \<Rightarrow> string" where
  "js_typeof v = (case v of JStr s \<Rightarrow> ''string'' | JNum n \<Rightarrow> ''number'' | JBool b \<Rightarrow> ''boolean'' | _ \<Rightarrow> ''object'')"

definition isDictionaryLike :: "(string \<times> json) list \<Rightarrow> bool" where
  "isDictionaryLike kvs =
     (if length kvs < 3 then False
      else if list_ex (\<lambda>e. fst e \<in> set STRUCTURED_FIELD_NAMES) kvs then False
      else let firstType = js_typeof (snd (hd kvs)) in
        if firstType \<noteq> ''string'' \<and> firstType \<noteq> ''number'' \<and> firstType \<noteq> ''boolean'' then False
        else list_all (\<lambda>e. js_typeof (snd e) = firstType) kvs)"

lemma dictionary_first: "isDictionaryLike kvs \<Longrightarrow> hd kvs \<in> set kvs"
  by (cases kvs) (auto simp: isDictionaryLike_def)

section \<open>Fingerprints\<close>

function describeShape :: "json \<Rightarrow> string" where
  "describeShape JNull = ''null''"
| "describeShape (JStr s) = ''string''"
| "describeShape (JNum n) = ''number''"
| "describeShape (JBool b) = ''boolean''"
| "describeShape (JArr vs) =
     (if vs = [] then ''[]''
      else let uniqueShapes = sort (js_set (map describeShape vs)) in
        if length uniqueShapes = 1 then ''[]'' @ hd uniqueShapes
        else ''[]('' @ join ''|'' uniqueShapes @ '')'')"
| "describeShape (JObj kvs) =
     (if isDictionaryLike kvs then ''{*:'' @ describeShape (snd (hd kvs)) @ ''}''
      else ''{'' @ join '','' (map (\<lambda>e. fst e @ '':'' @ describeShape (snd e)) (sort_key fst kvs)) @ ''}'')"
  by pat_completeness auto

termination
  by (relation "measure size") (auto simp: size_element size_entry dictionary_first)

definition generateFingerprint :: "string \<Rightarrow> json \<Rightarrow> string" where
  "generateFingerprint spanName data = spanName @ '':'' @ describeShape data"

section \<open>Paths for the prompt\<close>

definition not_newline :: "char \<Rightarrow> bool" where
  "not_newline c = (c \<noteq> CHR 10 \<and> c \<noteq> CHR 13)"

text \<open>\<open>/^<.+ at 0x[0-9a-fA-F]+>$/\<close>: read from the end, the digits stop at the x before them.\<close>

definition is_opaque :: "string \<Rightarrow> bool" where
  "is_opaque s =
     (s \<noteq> [] \<and> hd s = CHR ''<'' \<and>
      (let back = rev (tl s);
           digits = takeWhile (\<lambda>c. hex_value c \<noteq> None) (tl back);
           rest = dropWhile (\<lambda>c. hex_value c \<noteq> None) (tl back) in
       back \<noteq> [] \<and> hd back = CHR ''>'' \<and> digits \<noteq> [] \<and> take 6 rest = rev '' at 0x'' \<and>
       drop 6 rest \<noteq> [] \<and> list_all not_newline (drop 6 rest)))"

definition quote :: char where "quote = CHR 0x22"

definition SAMPLE_VALUE_MAX_CHARS :: nat where "SAMPLE_VALUE_MAX_CHARS = 80"

text \<open>\<open>dots\<close> is the ellipsis the code appends, a character outside the first 256.\<close>

definition formatSample :: "(json \<Rightarrow> string) \<Rightarrow> string \<Rightarrow> json \<Rightarrow> string" where
  "formatSample shown dots value =
     (let raw = (case value of JStr s \<Rightarrow> s | _ \<Rightarrow> shown value);
          collapsed = trim (collapse_space raw) in
      if collapsed = [] then [quote, quote]
      else let truncated = (if SAMPLE_VALUE_MAX_CHARS < length collapsed
                            then take SAMPLE_VALUE_MAX_CHARS collapsed @ dots else collapsed) in
        (case value of
           JStr s \<Rightarrow> [quote] @ replace_char quote [CHR 0x5C, quote] truncated @ [quote]
         | _ \<Rightarrow> truncated))"

definition last_key :: "string \<Rightarrow> string" where
  "last_key path = (let k = last (split_on CHR ''.'' path) in
     if ends_with ''[]'' k then take (length k - 2) k else k)"

definition leaf_path :: "(json \<Rightarrow> string) \<Rightarrow> string \<Rightarrow> json \<Rightarrow> string \<Rightarrow> string" where
  "leaf_path shown dots value path =
     (let k = last_key path;
          tag = (if k \<in> set METADATA_KEYS then '' [meta]'' else if k \<in> set IDENTIFIER_KEYS then '' [id]'' else []);
          tag = (if tag = [] \<and> (case value of JStr s \<Rightarrow> is_opaque s | _ \<Rightarrow> False) then '' [meta]'' else tag);
          sample = (if tag = '' [meta]'' then [] else '' = '' @ formatSample shown dots value) in
      path @ '': '' @ js_typeof value @ tag @ sample)"

function walk_paths :: "(json \<Rightarrow> string) \<Rightarrow> string \<Rightarrow> json \<Rightarrow> string \<Rightarrow> string list" where
  "walk_paths shown dots JNull path = []"
| "walk_paths shown dots (JStr s) path = [leaf_path shown dots (JStr s) path]"
| "walk_paths shown dots (JNum n) path = [leaf_path shown dots (JNum n) path]"
| "walk_paths shown dots (JBool b) path = [leaf_path shown dots (JBool b) path]"
| "walk_paths shown dots (JArr vs) path = (if vs = [] then [] else walk_paths shown dots (hd vs) (path @ ''[]''))"
| "walk_paths shown dots (JObj kvs) path =
     (if isDictionaryLike kvs then [path @ ''{*}: '' @ js_typeof (snd (hd kvs))]
      else concat (map (\<lambda>e. walk_paths shown dots (snd e) (if path = [] then fst e else path @ ''.'' @ fst e)) kvs))"
  by pat_completeness auto

termination
  by (relation "measure (\<lambda>(shown, dots, v, path). size v)") (auto simp: size_element size_entry)

definition flattenPaths :: "(json \<Rightarrow> string) \<Rightarrow> string \<Rightarrow> json \<Rightarrow> string list" where
  "flattenPaths shown dots data = walk_paths shown dots data []"

section \<open>Asking for templates\<close>

datatype preview_variant = Generic | LlmToolOnly

definition newline :: string where "newline = [CHR 10]"

definition span_element :: "(json \<Rightarrow> string) \<Rightarrow> string \<Rightarrow> nat \<Rightarrow> json \<times> preview_variant \<Rightarrow> string" where
  "span_element shown dots i s =
     ''<span index='' @ [quote] @ show_nat i @ [quote] @
     (if snd s = LlmToolOnly then '' mode='' @ [quote] @ ''llm_tool_only'' @ [quote] else []) @ ''>'' @ newline @
     join newline (flattenPaths shown dots (fst s)) @ newline @ ''</span>''"

definition buildUserMessage :: "(json \<Rightarrow> string) \<Rightarrow> string \<Rightarrow> (json \<times> preview_variant) list \<Rightarrow> string" where
  "buildUserMessage shown dots structures =
     ''<structures count='' @ [quote] @ show_nat (length structures) @ [quote] @ ''>'' @ newline @
     join newline (map (\<lambda>i. span_element shown dots i (structures ! i)) [0..<length structures]) @ newline @
     ''</structures>'' @ newline @ ''<response_format>'' @ newline @
     ''Return exactly '' @ show_nat (length structures) @
     '' templates as a JSON array of strings (use the literal `null` for no preview). No prose, no markdown fences.'' @
     newline @ ''</response_format>''"

text \<open>The match of \<open>/\[[\s\S]*\]/\<close>: from the first opening bracket to the last closing one.\<close>

definition match_array :: "string \<Rightarrow> string option" where
  "match_array s =
     (let m = rev (dropWhile (\<lambda>c. c \<noteq> CHR '']'') (rev (dropWhile (\<lambda>c. c \<noteq> CHR ''['') s))) in
      if m = [] then None else Some m)"

definition template_of :: "json \<Rightarrow> string option" where
  "template_of v = (case v of
     JStr s \<Rightarrow> let t = trim s in if t = [] \<or> to_lower t = ''null'' then None else Some s
   | _ \<Rightarrow> None)"

definition parsePreviewKeysResponse :: "json_parser \<Rightarrow> string \<Rightarrow> nat \<Rightarrow> string option list" where
  "parsePreviewKeysResponse p text_in expectedLength =
     (case match_array (trim text_in) of
        None \<Rightarrow> replicate expectedLength None
      | Some m \<Rightarrow> (case run_parser p m of
            Some (JArr vs) \<Rightarrow> map template_of vs
          | _ \<Rightarrow> replicate expectedLength None))"

text \<open>\<open>llm\<close> is the answer of the language model to a prompt, \<open>None\<close> when the call fails.\<close>

definition generatePreviewKeys ::
  "(json \<Rightarrow> string) \<Rightarrow> string \<Rightarrow> json_parser \<Rightarrow> (string \<Rightarrow> string option) \<Rightarrow> (json \<times> preview_variant) list \<Rightarrow> string option list" where
  "generatePreviewKeys shown dots p llm structures =
     (if structures = [] then []
      else case llm (buildUserMessage shown dots structures) of
        None \<Rightarrow> replicate (length structures) None
      | Some answer \<Rightarrow> parsePreviewKeysResponse p answer (length structures))"

section \<open>Rendering\<close>

text \<open>What a template is rendered with: the payload, each array and object with the text its \<open>toString\<close> gives.\<close>

datatype render_target = TScalar json | TArr "render_target list" string | TObj "(string \<times> render_target) list" string

function addStringifyToObjects :: "(json \<Rightarrow> string) \<Rightarrow> json \<Rightarrow> render_target" where
  "addStringifyToObjects stringify JNull = TScalar JNull"
| "addStringifyToObjects stringify (JBool b) = TScalar (JBool b)"
| "addStringifyToObjects stringify (JNum n) = TScalar (JNum n)"
| "addStringifyToObjects stringify (JStr s) = TScalar (JStr s)"
| "addStringifyToObjects stringify (JArr vs) = TArr (map (addStringifyToObjects stringify) vs) (stringify (JArr vs))"
| "addStringifyToObjects stringify (JObj kvs) =
     TObj (map (\<lambda>e. (fst e, addStringifyToObjects stringify (snd e))) kvs) (stringify (JObj kvs))"
  by pat_completeness auto

termination
  by (relation "measure (\<lambda>(stringify, v). size v)") (auto simp: size_element size_entry)

definition prepareRenderTarget :: "(json \<Rightarrow> string) \<Rightarrow> json_parser \<Rightarrow> json \<Rightarrow> render_target" where
  "prepareRenderTarget stringify p data = addStringifyToObjects stringify (deepParseJson p data)"

type_synonym renderer = "string \<Rightarrow> render_target \<Rightarrow> string option"

definition validateMustacheKey ::
  "renderer \<Rightarrow> (json \<Rightarrow> string) \<Rightarrow> json_parser \<Rightarrow> string \<Rightarrow> json \<Rightarrow> string option" where
  "validateMustacheKey render stringify p key data =
     (case render key (prepareRenderTarget stringify p data) of
        None \<Rightarrow> None
      | Some rendered \<Rightarrow>
          if rendered = [] then None
          else let trimmed = trim rendered in
            if trimmed = [] \<or> to_lower trimmed = ''null'' \<or> has_text ''[object Object]'' rendered then None
            else Some rendered)"

lemma valid_render_nonempty: "validateMustacheKey render stringify p key data = Some r \<Longrightarrow> r \<noteq> []"
  by (auto simp: validateMustacheKey_def Let_def split: option.splits if_splits)

section \<open>Searching a text\<close>

definition PRIORITY_KEYS :: "string list" where
  "PRIORITY_KEYS = [''description'', ''summary'', ''command'', ''query'', ''action'', ''prompt'', ''message'', ''text'',
     ''content'', ''answer'', ''title'', ''path'', ''url'', ''code'', ''output'', ''result'', ''tool'', ''function'',
     ''name'']"

definition DESCRIPTIVE_KEYS :: "string list" where
  "DESCRIPTIVE_KEYS = [''description'', ''summary'', ''title'', ''goal'', ''intent'', ''reasoning'', ''thought'',
     ''instructions'', ''question'', ''prompt'', ''message'']"

definition isLeaf :: "json \<Rightarrow> bool" where
  "isLeaf v = (case v of JStr s \<Rightarrow> True | JNum n \<Rightarrow> True | JBool b \<Rightarrow> True | _ \<Rightarrow> False)"

definition formatLeaf :: "(json \<Rightarrow> string) \<Rightarrow> json \<Rightarrow> string option" where
  "formatLeaf shown v = (case v of
     JStr s \<Rightarrow> let trimmed = trim s in if 0 < length trimmed then Some trimmed else None
   | _ \<Rightarrow> Some (shown v))"

text \<open>The loops return the first hit.\<close>

fun first_hit :: "('a \<Rightarrow> 'b option) \<Rightarrow> 'a list \<Rightarrow> 'b option" where
  "first_hit f [] = None"
| "first_hit f (x # xs) = (case f x of Some y \<Rightarrow> Some y | None \<Rightarrow> first_hit f xs)"

lemma first_hit_cong [fundef_cong]:
  "xs = ys \<Longrightarrow> (\<And>x. x \<in> set ys \<Longrightarrow> f x = g x) \<Longrightarrow> first_hit f xs = first_hit g ys"
  by (induction xs arbitrary: ys) (auto split: option.splits)

lemma first_hit_None [simp]: "first_hit f xs = None \<longleftrightarrow> (\<forall>x\<in>set xs. f x = None)"
  by (induction xs) (auto split: option.splits)

lemma first_hit_SomeD: "first_hit f xs = Some y \<Longrightarrow> \<exists>x\<in>set xs. f x = Some y"
  by (induction xs) (auto split: option.splits)

definition direct_leaf :: "(json \<Rightarrow> string) \<Rightarrow> string \<Rightarrow> (string \<times> json) list \<Rightarrow> string option" where
  "direct_leaf shown target kvs = (case map_of kvs target of
     Some v \<Rightarrow> if isLeaf v then formatLeaf shown v else None
   | None \<Rightarrow> None)"

function findByKey :: "(json \<Rightarrow> string) \<Rightarrow> json \<Rightarrow> string \<Rightarrow> string option" where
  "findByKey shown (JArr vs) target = first_hit (\<lambda>v. findByKey shown v target) vs"
| "findByKey shown (JObj kvs) target =
     (case direct_leaf shown target kvs of
        Some formatted \<Rightarrow> Some formatted
      | None \<Rightarrow> first_hit (\<lambda>e. if fst e \<in> set METADATA_KEYS then None else findByKey shown (snd e) target) kvs)"
| "findByKey shown JNull target = None"
| "findByKey shown (JBool b) target = None"
| "findByKey shown (JNum n) target = None"
| "findByKey shown (JStr s) target = None"
  by pat_completeness auto

termination
  by (relation "measure (\<lambda>(shown, v, target). size v)") (auto simp: size_element size_entry)

function firstNonMetaLeaf :: "(json \<Rightarrow> string) \<Rightarrow> json \<Rightarrow> string option" where
  "firstNonMetaLeaf shown JNull = None"
| "firstNonMetaLeaf shown (JBool b) = formatLeaf shown (JBool b)"
| "firstNonMetaLeaf shown (JNum n) = formatLeaf shown (JNum n)"
| "firstNonMetaLeaf shown (JStr s) = formatLeaf shown (JStr s)"
| "firstNonMetaLeaf shown (JArr vs) = first_hit (firstNonMetaLeaf shown) vs"
| "firstNonMetaLeaf shown (JObj kvs) =
     first_hit (\<lambda>e. if fst e \<in> set METADATA_KEYS then None else firstNonMetaLeaf shown (snd e)) kvs"
  by pat_completeness auto

termination
  by (relation "measure (\<lambda>(shown, v). size v)") (auto simp: size_element size_entry)

definition tryHeuristicPreview :: "(json \<Rightarrow> string) \<Rightarrow> json_parser \<Rightarrow> json \<Rightarrow> string option" where
  "tryHeuristicPreview shown p data =
     (let parsed = deepParseJson p data in
      case first_hit (\<lambda>key. findByKey shown parsed key) PRIORITY_KEYS of
        Some hit \<Rightarrow> Some hit
      | None \<Rightarrow> firstNonMetaLeaf shown parsed)"

definition tryDescriptiveHeuristicPreview :: "(json \<Rightarrow> string) \<Rightarrow> json_parser \<Rightarrow> json \<Rightarrow> string option" where
  "tryDescriptiveHeuristicPreview shown p data =
     (let parsed = deepParseJson p data in first_hit (\<lambda>key. findByKey shown parsed key) DESCRIPTIVE_KEYS)"

section \<open>What a fingerprint depends on\<close>

text \<open>A payload with its scalars erased.\<close>

function blank :: "json \<Rightarrow> json" where
  "blank JNull = JNull"
| "blank (JBool b) = JBool False"
| "blank (JNum n) = JNum 0"
| "blank (JStr s) = JStr []"
| "blank (JArr vs) = JArr (map blank vs)"
| "blank (JObj kvs) = JObj (map (\<lambda>e. (fst e, blank (snd e))) kvs)"
  by pat_completeness auto

termination
  by (relation "measure size") (auto simp: size_element size_entry)

lemma typeof_blank [simp]: "js_typeof (blank v) = js_typeof v"
  by (cases v) (simp_all add: js_typeof_def)

lemma blank_wf: "json_wf v \<Longrightarrow> json_wf (blank v)"
  by (induction v rule: blank.induct) (auto simp: list_all_iff o_def)

definition scalar_types :: "string set" where
  "scalar_types = {''string'', ''number'', ''boolean''}"

lemma dictionary_iff:
  "isDictionaryLike kvs \<longleftrightarrow> 3 \<le> length kvs \<and> (\<forall>e\<in>set kvs. fst e \<notin> set STRUCTURED_FIELD_NAMES) \<and>
     (\<exists>t\<in>scalar_types. \<forall>e\<in>set kvs. js_typeof (snd e) = t)"
  by (cases kvs) (auto simp: isDictionaryLike_def Let_def list_ex_iff list_all_iff scalar_types_def)

lemma scalar_shape: "js_typeof v \<in> scalar_types \<Longrightarrow> describeShape v = js_typeof v"
  by (cases v) (auto simp: js_typeof_def scalar_types_def)

lemma dictionary_blank: "isDictionaryLike (map (\<lambda>e. (fst e, blank (snd e))) kvs) = isDictionaryLike kvs"
  by (simp add: dictionary_iff)

lemma sort_key_map:
  fixes kvs :: "(string \<times> 'a) list" and f :: "'a \<Rightarrow> 'b"
  shows "sort_key fst (map (\<lambda>e. (fst e, f (snd e))) kvs) = map (\<lambda>e. (fst e, f (snd e))) (sort_key fst kvs)"
proof -
  have step: "insort_key fst (fst e, f (snd e)) (map (\<lambda>e. (fst e, f (snd e))) xs) = map (\<lambda>e. (fst e, f (snd e))) (insort_key fst e xs)"
    for e xs
    by (induction xs) auto
  show ?thesis by (induction kvs) (simp_all add: sort_key_def step)
qed

lemma describe_blank: "describeShape (blank v) = describeShape v"
proof (induction v rule: describeShape.induct)
  case (5 vs)
  then have "map (describeShape \<circ> blank) vs = map describeShape vs" by (cases "vs = []") auto
  then show ?case by (simp only: blank.simps describeShape.simps map_map map_is_Nil_conv)
next
  case (6 kvs)
  show ?case
  proof (cases "isDictionaryLike kvs")
    case True
    moreover from this have "kvs \<noteq> []" by (auto simp: dictionary_iff)
    ultimately show ?thesis using 6(1) [OF True] by (simp add: dictionary_blank hd_map)
  next
    case False
    have "map (\<lambda>e. fst e @ '':'' @ describeShape (blank (snd e))) (sort_key fst kvs) =
          map (\<lambda>e. fst e @ '':'' @ describeShape (snd e)) (sort_key fst kvs)"
      using 6(2) [OF False] by (intro map_cong refl) simp
    then show ?thesis using False
      by (simp only: blank.simps describeShape.simps dictionary_blank sort_key_map map_map o_def fst_conv snd_conv if_False)
  qed
qed simp_all

text \<open>The entries of an object in the order of their keys, when the keys differ.\<close>

lemma sorted_entries:
  assumes "distinct (map fst kvs)"
  shows "map (\<lambda>e. F (fst e) (snd e)) (sort_key fst kvs) = map (\<lambda>k. F k (the (map_of kvs k))) (sort (map fst kvs))"
proof -
  have keys: "map fst (sort_key fst kvs) = sort (map fst kvs)"
    using assms by (intro sorted_distinct_set_unique) simp_all
  have "map (\<lambda>e. F (fst e) (snd e)) (sort_key fst kvs) = map (\<lambda>e. F (fst e) (the (map_of kvs (fst e)))) (sort_key fst kvs)"
    using assms by (intro map_cong) (auto simp: map_of_is_SomeI)
  also have "\<dots> = map (\<lambda>k. F k (the (map_of kvs k))) (map fst (sort_key fst kvs))" by simp
  finally show ?thesis by (simp only: keys)
qed

lemma equal_typeof: "isEqual v w \<Longrightarrow> js_typeof v = js_typeof w"
  by (cases v; cases w) (auto simp: js_typeof_def)

lemma equal_objects:
  assumes wf: "json_wf (JObj kvs)" "json_wf (JObj kws)" and eq: "isEqual (JObj kvs) (JObj kws)"
  shows "fst ` set kvs = fst ` set kws"
    and "\<And>k v. (k, v) \<in> set kvs \<Longrightarrow> \<exists>w. (k, w) \<in> set kws \<and> map_of kws k = Some w \<and> isEqual v w"
    and "length kvs = length kws"
proof -
  show len: "length kvs = length kws" using eq by simp
  show found: "\<exists>w. (k, w) \<in> set kws \<and> map_of kws k = Some w \<and> isEqual v w" if "(k, v) \<in> set kvs" for k v
    using eq that by (auto simp: list_all_iff split: option.splits dest!: bspec intro: map_of_SomeD)
  have "fst ` set kvs \<subseteq> fst ` set kws" using found by force
  moreover have "card (fst ` set kvs) = card (fst ` set kws)"
    using wf len by (simp add: distinct_card [symmetric] flip: set_map) (metis distinct_card length_map set_map)
  ultimately show "fst ` set kvs = fst ` set kws" by (intro card_subset_eq) simp_all
qed

lemma equal_dictionary:
  assumes "json_wf (JObj kvs)" "json_wf (JObj kws)" "isEqual (JObj kvs) (JObj kws)"
  shows "isDictionaryLike kvs = isDictionaryLike kws"
proof -
  note keys = equal_objects(1) [OF assms] and found = equal_objects(2) [OF assms] and len = equal_objects(3) [OF assms]
  have "js_typeof ` snd ` set kvs = js_typeof ` snd ` set kws"
  proof
    show "js_typeof ` snd ` set kvs \<subseteq> js_typeof ` snd ` set kws"
      using found equal_typeof by (force simp: image_iff)
    show "js_typeof ` snd ` set kws \<subseteq> js_typeof ` snd ` set kvs"
    proof (clarsimp simp: image_iff)
      fix k w assume kw: "(k, w) \<in> set kws"
      then have "k \<in> fst ` set kvs" using keys by force
      then obtain v where kv: "(k, v) \<in> set kvs" by auto
      have "map_of kws k = Some w" using kw assms(2) by simp
      then have "js_typeof v = js_typeof w" using found [OF kv] equal_typeof by auto
      with kv show "\<exists>e\<in>set kvs. js_typeof w = js_typeof (snd e)" by force
    qed
  qed
  moreover have all: "(\<forall>e\<in>set xs. js_typeof (snd e) = t) \<longleftrightarrow> js_typeof ` snd ` set xs \<subseteq> {t}" for xs :: "(string \<times> json) list" and t
    by auto
  ultimately have "(\<exists>t\<in>scalar_types. \<forall>e\<in>set kvs. js_typeof (snd e) = t) \<longleftrightarrow> (\<exists>t\<in>scalar_types. \<forall>e\<in>set kws. js_typeof (snd e) = t)"
    by (simp only: all)
  moreover have "(\<forall>e\<in>set kvs. fst e \<notin> set STRUCTURED_FIELD_NAMES) \<longleftrightarrow> (\<forall>e\<in>set kws. fst e \<notin> set STRUCTURED_FIELD_NAMES)"
  proof -
    have "(\<forall>e\<in>set xs. fst e \<notin> S) \<longleftrightarrow> fst ` set xs \<inter> S = {}" for xs :: "(string \<times> json) list" and S by auto
    then show ?thesis using keys by simp
  qed
  ultimately show ?thesis using len by (simp add: dictionary_iff)
qed

lemma dictionary_shape:
  assumes "isDictionaryLike kvs" "e \<in> set kvs"
  shows "describeShape (snd (hd kvs)) = js_typeof (snd e)"
  using assms dictionary_first [OF assms(1)] scalar_shape by (fastforce simp: dictionary_iff)

lemma equal_shape: "json_wf v \<Longrightarrow> json_wf w \<Longrightarrow> isEqual v w \<Longrightarrow> describeShape v = describeShape w"
proof (induction v arbitrary: w rule: describeShape.induct)
  case (5 vs)
  obtain ws where w: "w = JArr ws" and len: "length vs = length ws"
    and eq: "\<And>i. i < length vs \<Longrightarrow> isEqual (vs ! i) (ws ! i)"
    using 5(4) by (auto simp: list_all_length split: json.splits)
  have "map describeShape vs = map describeShape ws"
  proof (rule nth_equalityI)
    fix i assume "i < length (map describeShape vs)"
    then have i: "i < length vs" "vs \<noteq> []" by auto
    then show "map describeShape vs ! i = map describeShape ws ! i"
      using 5(1) [OF i(2) nth_mem [OF i(1)] _ _ eq] 5(2,3) len w by (simp add: list_all_length)
  qed (simp add: len)
  moreover have "vs = [] \<longleftrightarrow> ws = []" using len by auto
  ultimately show ?case by (simp only: w describeShape.simps)
next
  case (6 kvs)
  obtain kws where w: "w = JObj kws" using 6(5) by (auto split: json.splits)
  note objects = 6(3,4,5) [unfolded w]
  note keys = equal_objects(1) [OF objects] and found = equal_objects(2) [OF objects]
  note dict = equal_dictionary [OF objects]
  show ?case
  proof (cases "isDictionaryLike kvs")
    case True
    obtain k v where kv: "(k, v) \<in> set kvs" using dictionary_first [OF True] by (metis prod.collapse)
    from found [OF this] obtain u where ku: "(k, u) \<in> set kws" "isEqual v u" by auto
    have "describeShape (snd (hd kvs)) = describeShape (snd (hd kws))"
      using dictionary_shape [OF True kv] dictionary_shape [OF True [unfolded dict] ku(1)] equal_typeof [OF ku(2)] by simp
    then show ?thesis using True dict by (simp add: w)
  next
    case False
    let ?F = "\<lambda>k v. k @ '':'' @ describeShape v"
    have distinct: "distinct (map fst kvs)" "distinct (map fst kws)" using objects by simp_all
    have "describeShape (the (map_of kvs k)) = describeShape (the (map_of kws k))" if "k \<in> fst ` set kvs" for k
    proof -
      from that obtain v where kv: "(k, v) \<in> set kvs" by auto
      from found [OF this] obtain u where u: "(k, u) \<in> set kws" "map_of kws k = Some u" "isEqual v u" by auto
      have "describeShape v = describeShape u"
        using 6(2) [OF False] kv u objects by (force simp: list_all_iff)
      then show ?thesis using u kv distinct by simp
    qed
    moreover have "sort (map fst kvs) = sort (map fst kws)"
      using keys distinct by (intro sorted_distinct_set_unique) simp_all
    ultimately have "map (\<lambda>k. ?F k (the (map_of kvs k))) (sort (map fst kvs)) = map (\<lambda>k. ?F k (the (map_of kws k))) (sort (map fst kws))"
      using keys by (intro map_cong) simp_all
    then have "map (\<lambda>e. ?F (fst e) (snd e)) (sort_key fst kvs) = map (\<lambda>e. ?F (fst e) (snd e)) (sort_key fst kws)"
      using sorted_entries [OF distinct(1), of ?F] sorted_entries [OF distinct(2), of ?F] by simp
    then show ?thesis using False dict by (simp only: w describeShape.simps if_False)
  qed
qed (auto split: json.splits)

text \<open>
  Claim C6. The fingerprint of a payload depends only on its shape: two payloads that lodash's \<open>isEqual\<close> holds equal
  once the contents of their strings, numbers and booleans are erased (not their types: a number and a string in the
  same place are different shapes), so that they may also differ in the order of the keys of any object, have the same
  fingerprint, and share one cached template.
\<close>
theorem fingerprint_depends_on_shape:
  assumes "json_wf v" "json_wf w" "isEqual (blank v) (blank w)"
  shows "generateFingerprint name v = generateFingerprint name w"
  using equal_shape [OF blank_wf [OF assms(1)] blank_wf [OF assms(2)] assms(3)]
  by (simp add: generateFingerprint_def describe_blank)

definition answer_payload :: "string \<Rightarrow> number \<Rightarrow> json" where
  "answer_payload s n = JObj [(''title'', JStr s), (''scores'', JArr [JNum n, JNum 2])]"

definition answer_reordered :: json where
  "answer_reordered = JObj [(''scores'', JArr [JNum 7, JNum 1]), (''title'', JStr ''other'')]"

theorem fingerprint_depends_on_shape_witness:
  "generateFingerprint ''run'' (answer_payload ''one'' 5) = generateFingerprint ''run'' answer_reordered \<and>
   generateFingerprint ''run'' answer_reordered = ''run:{scores:[]number,title:string}''"
proof
  show "generateFingerprint ''run'' (answer_payload ''one'' 5) = generateFingerprint ''run'' answer_reordered"
    by (rule fingerprint_depends_on_shape) (simp_all add: answer_payload_def answer_reordered_def)
  show "generateFingerprint ''run'' answer_reordered = ''run:{scores:[]number,title:string}''" by code_simp
qed

section \<open>What the search finds\<close>

text \<open>The texts of the leaves below a value, metadata keys skipped, and those stored under a key.\<close>

inductive leaf_text :: "(json \<Rightarrow> string) \<Rightarrow> json \<Rightarrow> string \<Rightarrow> bool" for shown where
  leaf: "isLeaf v \<Longrightarrow> formatLeaf shown v = Some s \<Longrightarrow> leaf_text shown v s"
| leaf_element: "v \<in> set vs \<Longrightarrow> leaf_text shown v s \<Longrightarrow> leaf_text shown (JArr vs) s"
| leaf_entry: "(k, v) \<in> set kvs \<Longrightarrow> k \<notin> set METADATA_KEYS \<Longrightarrow> leaf_text shown v s \<Longrightarrow> leaf_text shown (JObj kvs) s"

inductive text_under :: "(json \<Rightarrow> string) \<Rightarrow> string \<Rightarrow> json \<Rightarrow> string \<Rightarrow> bool" for shown target where
  under_direct: "direct_leaf shown target kvs = Some s \<Longrightarrow> text_under shown target (JObj kvs) s"
| under_element: "v \<in> set vs \<Longrightarrow> text_under shown target v s \<Longrightarrow> text_under shown target (JArr vs) s"
| under_entry: "(k, v) \<in> set kvs \<Longrightarrow> k \<notin> set METADATA_KEYS \<Longrightarrow> text_under shown target v s \<Longrightarrow> text_under shown target (JObj kvs) s"

inductive_cases text_underE: "text_under shown target v s"
inductive_cases leaf_textE: "leaf_text shown v s"

lemma leaf_simps [simp]:
  "isLeaf (JStr s)" "isLeaf (JNum n)" "isLeaf (JBool b)" "\<not> isLeaf JNull" "\<not> isLeaf (JArr vs)" "\<not> isLeaf (JObj kvs)"
  by (simp_all add: isLeaf_def)

lemma find_sound: "findByKey shown v target = Some s \<Longrightarrow> text_under shown target v s"
proof (induction shown v target arbitrary: s rule: findByKey.induct)
  case (1 shown vs target)
  then show ?case by (auto dest!: first_hit_SomeD intro: under_element)
next
  case (2 shown kvs target)
  then show ?case
    by (auto split: option.splits if_splits dest!: first_hit_SomeD intro: under_direct under_entry)
qed simp_all

lemma find_complete: "text_under shown target v s \<Longrightarrow> findByKey shown v target \<noteq> None"
proof (induction rule: text_under.induct)
  case (under_entry k v kvs s)
  then have "first_hit (\<lambda>e. if fst e \<in> set METADATA_KEYS then None else findByKey shown (snd e) target) kvs \<noteq> None"
    unfolding first_hit_None by force
  then obtain y where "first_hit (\<lambda>e. if fst e \<in> set METADATA_KEYS then None else findByKey shown (snd e) target) kvs = Some y"
    by (meson option.exhaust)
  then show ?case by (simp split: option.splits)
next
  case (under_element v vs s)
  then show ?case unfolding findByKey.simps first_hit_None by force
qed simp

lemma find_None: "findByKey shown v target = None \<longleftrightarrow> (\<forall>s. \<not> text_under shown target v s)"
  using find_sound find_complete by (metis option.exhaust)

lemma first_leaf_sound: "firstNonMetaLeaf shown v = Some s \<Longrightarrow> leaf_text shown v s"
proof (induction shown v arbitrary: s rule: firstNonMetaLeaf.induct)
  case (5 shown vs)
  then show ?case by (auto dest!: first_hit_SomeD intro: leaf_element)
next
  case (6 shown kvs)
  then show ?case by (auto split: if_splits dest!: first_hit_SomeD intro: leaf_entry)
qed (auto intro: leaf)

lemma first_leaf_complete: "leaf_text shown v s \<Longrightarrow> firstNonMetaLeaf shown v \<noteq> None"
proof (induction rule: leaf_text.induct)
  case (leaf v s)
  then show ?case by (cases v) auto
next
  case (leaf_element v vs s)
  then show ?case unfolding firstNonMetaLeaf.simps first_hit_None by force
next
  case (leaf_entry k v kvs s)
  then show ?case unfolding firstNonMetaLeaf.simps first_hit_None by force
qed

lemma under_is_leaf: "text_under shown target v s \<Longrightarrow> target \<notin> set METADATA_KEYS \<Longrightarrow> leaf_text shown v s"
proof (induction rule: text_under.induct)
  case (under_direct kvs s)
  then show ?case
    by (auto simp: direct_leaf_def split: option.splits if_splits dest!: map_of_SomeD intro: leaf leaf_entry)
qed (auto intro: leaf_element leaf_entry)

lemma priority_not_metadata: "key \<in> set PRIORITY_KEYS \<Longrightarrow> key \<notin> set METADATA_KEYS"
proof -
  have "list_all (\<lambda>key. key \<notin> set METADATA_KEYS) PRIORITY_KEYS" by code_simp
  then show "key \<in> set PRIORITY_KEYS \<Longrightarrow> key \<notin> set METADATA_KEYS" by (simp add: list_all_iff)
qed

lemma first_hit_first:
  "first_hit f xs = Some y \<Longrightarrow> \<exists>ys x zs. xs = ys @ x # zs \<and> f x = Some y \<and> (\<forall>z\<in>set ys. f z = None)"
proof (induction xs)
  case (Cons x xs)
  show ?case
  proof (cases "f x")
    case None
    then obtain ys u zs where "xs = ys @ u # zs \<and> f u = Some y \<and> (\<forall>z\<in>set ys. f z = None)" using Cons by auto
    then show ?thesis using None by (intro exI [of _ "x # ys"] exI [of _ u] exI [of _ zs]) auto
  next
    case (Some z)
    then show ?thesis using Cons(2) by (intro exI [of _ "[]"]) auto
  qed
qed simp

text \<open>
  Claim C34. The fallback preview is missing exactly when the payload, its nested texts parsed, has no leaf with a text
  outside the metadata keys (ids, timestamps and the like, which it skips). What it shows is the text of such a leaf:
  one stored under the first of the preferred keys that holds a text anywhere, and when no preferred key does, some
  other leaf outside the metadata keys.
\<close>
theorem heuristic_finds_preferred_text:
  "(tryHeuristicPreview shown p data = None \<longleftrightarrow> (\<forall>s. \<not> leaf_text shown (deepParseJson p data) s)) \<and>
   (\<forall>s. tryHeuristicPreview shown p data = Some s \<longrightarrow>
      leaf_text shown (deepParseJson p data) s \<and>
      ((\<exists>pre key post. PRIORITY_KEYS = pre @ key # post \<and> text_under shown key (deepParseJson p data) s \<and>
          (\<forall>k\<in>set pre. \<forall>t. \<not> text_under shown k (deepParseJson p data) t)) \<or>
       (\<forall>k\<in>set PRIORITY_KEYS. \<forall>t. \<not> text_under shown k (deepParseJson p data) t)))"
proof -
  let ?v = "deepParseJson p data"
  show ?thesis
  proof (cases "first_hit (\<lambda>key. findByKey shown ?v key) PRIORITY_KEYS")
    case None
    then have "tryHeuristicPreview shown p data = firstNonMetaLeaf shown ?v" by (simp only: tryHeuristicPreview_def Let_def option.case)
    moreover have "\<forall>k\<in>set PRIORITY_KEYS. \<forall>t. \<not> text_under shown k ?v t" using None by (simp add: find_None)
    ultimately show ?thesis using first_leaf_sound first_leaf_complete by (metis not_None_eq)
  next
    case (Some s)
    then have result: "tryHeuristicPreview shown p data = Some s" by (simp add: tryHeuristicPreview_def)
    obtain pre key post where keys: "PRIORITY_KEYS = pre @ key # post" "findByKey shown ?v key = Some s"
      "\<forall>k\<in>set pre. findByKey shown ?v k = None"
      using first_hit_first [OF Some] by auto
    have under: "text_under shown key ?v s" by (rule find_sound [OF keys(2)])
    have "key \<notin> set METADATA_KEYS" by (rule priority_not_metadata) (simp add: keys(1))
    then have "leaf_text shown ?v s" by (rule under_is_leaf [OF under])
    moreover have "\<forall>k\<in>set pre. \<forall>t. \<not> text_under shown k ?v t" using keys(3) by (simp add: find_None)
    ultimately show ?thesis using result keys(1) under by auto
  qed
qed

theorem heuristic_finds_preferred_text_witness:
  "tryHeuristicPreview (\<lambda>v. ''n'') (table_parser []) (JObj [(''id'', JStr ''x''), (''name'', JStr '' run '')]) = Some ''run'' \<and>
   leaf_text (\<lambda>v. ''n'') (JObj [(''id'', JStr ''x''), (''name'', JStr '' run '')]) ''run''"
proof -
  let ?v = "JObj [(''id'', JStr ''x''), (''name'', JStr '' run '')]"
  have fixed: "deepParseJson (table_parser []) ?v = ?v" by (rule settled_fixed) (simp add: table_parser.rep_eq)
  have "tryHeuristicPreview (\<lambda>v. ''n'') (table_parser []) ?v = Some ''run''"
    unfolding tryHeuristicPreview_def fixed Let_def by code_simp
  then show ?thesis
    using heuristic_finds_preferred_text [of "\<lambda>v. ''n''" "table_parser []" ?v] unfolding fixed by blast
qed

text \<open>
  Claim C35. Parsing texts within texts returns whatever the texts hold: what comes out contains no text that is JSON, at
  any depth, so that parsing it again changes nothing; and taking the texts at the top apart first makes no difference.
\<close>
theorem deep_parse_reaches_normal_form:
  "settled p (deepParseJson p v) \<and> deepParseJson p (deepParseJson p v) = deepParseJson p v \<and>
   deepParseJson p (deepParseValue p v) = deepParseJson p v"
  by (simp add: deep_parse_settles settled_fixed deep_parse_unwrapped)

end
