(* ===== verification/PreviewPipeline.thy ===== *)
theory PreviewPipeline
  imports Previews Caches
begin

text \<open>
  The pipeline of the span previews, \<open>lib/actions/spans/previews/resolve.ts\<close>: spans are classified, those that
  need a template are rendered with the templates of the cache, then with templates a language model proposes, and last
  by the search for a text; the previews of the tools of one span are put together again. The cache is the memory
  branch of \<open>lib/cache.ts\<close>; the times at which it is read, refreshed and written are arguments. The traces the code
  reports to \<open>observe\<close> are left out.
\<close>

section \<open>Spans\<close>

record raw_span =
  raw_id :: string
  raw_data :: json
  raw_name :: string

record parsed_span =
  ps_key :: string
  ps_span :: string
  ps_name :: string
  ps_data :: json
  ps_fingerprint :: string
  ps_variant :: preview_variant
  ps_toolIndex :: "nat option"
  ps_toolName :: "string option"

text \<open>\<open>Record<string, string | null>\<close>: \<open>Some None\<close> is an entry that is null.\<close>

type_synonym previews = "string \<rightharpoonup> string option"

text \<open>What the pipeline is given: the providers, \<open>JSON.parse\<close>, \<open>JSON.stringify\<close>, \<open>String\<close>, the renderer of
  templates, the ellipsis and the language model.\<close>

record preview_env =
  pe_providers :: "adapter list"
  pe_parser :: json_parser
  pe_stringify :: "json \<Rightarrow> string"
  pe_text :: "json \<Rightarrow> string"
  pe_render :: renderer
  pe_dots :: string
  pe_llm :: "string \<Rightarrow> string option"

record cache_times =
  read_at :: number
  refresh_at :: number
  save_at :: number

definition RENDERING_KEY_TTL_SECONDS :: number where
  "RENDERING_KEY_TTL_SECONDS = 60 * 60 * 24 * 7"

definition SPAN_RENDERING_KEY_CACHE_KEY :: "string \<Rightarrow> string \<Rightarrow> string" where
  "SPAN_RENDERING_KEY_CACHE_KEY projectId schemaFingerprint = ''span_rendering_key:'' @ projectId @ '':'' @ schemaFingerprint"

definition GENERATION_SPAN_TYPES :: "string list" where
  "GENERATION_SPAN_TYPES = [''LLM'', ''CACHED'', ''TOOL'']"

section \<open>Classification\<close>

definition tool_span :: "raw_span \<Rightarrow> nat \<Rightarrow> extracted_tool \<Rightarrow> parsed_span" where
  "tool_span raw toolIndex tool =
     (let toolData = nullish (toolInput tool) (JObj []) in
      \<lparr>ps_key = raw_id raw @ ''#'' @ show_nat toolIndex, ps_span = raw_id raw, ps_name = raw_name raw, ps_data = toolData,
       ps_fingerprint = generateFingerprint (raw_name raw @ '':llm_tool:'' @ toolName tool) toolData,
       ps_variant = LlmToolOnly, ps_toolIndex = Some toolIndex, ps_toolName = Some (toolName tool)\<rparr>)"

definition tool_spans :: "raw_span \<Rightarrow> extracted_tool list \<Rightarrow> parsed_span list" where
  "tool_spans raw tools = map (\<lambda>i. tool_span raw i (tools ! i)) [0..<length tools]"

definition generic_span :: "raw_span \<Rightarrow> json \<Rightarrow> parsed_span" where
  "generic_span raw data =
     \<lparr>ps_key = raw_id raw, ps_span = raw_id raw, ps_name = raw_name raw, ps_data = data,
      ps_fingerprint = generateFingerprint (raw_name raw) data, ps_variant = Generic, ps_toolIndex = None, ps_toolName = None\<rparr>"

text \<open>What becomes of one span: a preview, or entries for the pipeline.\<close>

datatype outcome = Resolved string | Processing "parsed_span list"

definition classify_object :: "preview_env \<Rightarrow> string \<Rightarrow> raw_span \<Rightarrow> json \<Rightarrow> outcome option" where
  "classify_object env spanType raw data = do {
     hint \<leftarrow> detectProvider (pe_providers env) data;
     found \<leftarrow> matchProviderKey (pe_providers env) data (Some hint);
     (case (case found of Some rendered \<Rightarrow> if trim rendered \<noteq> [] then Some rendered else None | None \<Rightarrow> None) of
        Some rendered \<Rightarrow> Some (Resolved rendered)
      | None \<Rightarrow> do {
          tools \<leftarrow> (if spanType = ''LLM'' \<or> spanType = ''CACHED''
                    then extractToolsIfToolOnly (pe_providers env) data (Some hint) else Some None);
          (case tools of
             Some (t # ts) \<Rightarrow> Some (Processing (tool_spans raw (t # ts)))
           | _ \<Rightarrow> Some (Processing [generic_span raw data]))
        })
   }"

definition classify_raw :: "preview_env \<Rightarrow> (string \<rightharpoonup> string) \<Rightarrow> raw_span \<Rightarrow> outcome option" where
  "classify_raw env spanTypes raw =
     (let spanType = (case spanTypes (raw_id raw) of None \<Rightarrow> [] | Some t \<Rightarrow> t) in
      if spanType \<notin> set GENERATION_SPAN_TYPES then
        let rawStr = (case raw_data raw of JStr s \<Rightarrow> s | v \<Rightarrow> pe_stringify env v) in
        Some (Resolved (if 1000 < length rawStr then take 1000 rawStr else rawStr))
      else case classifyPayload (pe_text env) (pe_parser env) (raw_data raw) of
        Primitive s \<Rightarrow> Some (Resolved s)
      | RawText s \<Rightarrow> Some (Resolved s)
      | Empty \<Rightarrow> Some (Resolved [])
      | ObjectData data \<Rightarrow> classify_object env spanType raw data)"

definition classify_step ::
  "preview_env \<Rightarrow> (string \<rightharpoonup> string) \<Rightarrow> raw_span \<Rightarrow> previews \<times> parsed_span list \<Rightarrow> (previews \<times> parsed_span list) option" where
  "classify_step env spanTypes raw st = map_option (\<lambda>r. case r of
     Resolved s \<Rightarrow> ((fst st)(raw_id raw \<mapsto> Some s), snd st)
   | Processing spans \<Rightarrow> (fst st, snd st @ spans)) (classify_raw env spanTypes raw)"

definition classifyRawSpans ::
  "preview_env \<Rightarrow> raw_span list \<Rightarrow> (string \<rightharpoonup> string) \<Rightarrow> (previews \<times> parsed_span list) option" where
  "classifyRawSpans env rawSpans spanTypes = loop_js (classify_step env spanTypes) rawSpans (Map.empty, [])"

definition fillMissing :: "previews \<Rightarrow> string list \<Rightarrow> previews" where
  "fillMissing previews spanIds = foldl (\<lambda>result i. if result i \<noteq> None then result else result(i \<mapsto> None)) previews spanIds"

section \<open>The cache\<close>

text \<open>\<open>if (rendered)\<close>: the check of a render never passes an empty one.\<close>

definition render_with :: "preview_env \<Rightarrow> string \<Rightarrow> parsed_span \<Rightarrow> string option" where
  "render_with env key s = validateMustacheKey (pe_render env) (pe_stringify env) (pe_parser env) key (ps_data s)"

definition lookup_step ::
  "number \<Rightarrow> string \<Rightarrow> string \<Rightarrow> (string \<rightharpoonup> string) \<times> memory_cache \<Rightarrow> (string \<rightharpoonup> string) \<times> memory_cache" where
  "lookup_step now projectId fingerprint st =
     (let r = cache_get now (SPAN_RENDERING_KEY_CACHE_KEY projectId fingerprint) (snd st) in
      (case fst r of
         Some (JStr key) \<Rightarrow> if key \<noteq> [] then (fst st)(fingerprint \<mapsto> key) else fst st
       | _ \<Rightarrow> fst st, snd r))"

definition lookup_keys :: "number \<Rightarrow> string \<Rightarrow> string list \<Rightarrow> memory_cache \<Rightarrow> (string \<rightharpoonup> string) \<times> memory_cache" where
  "lookup_keys now projectId fingerprints m = foldl (\<lambda>st f. lookup_step now projectId f st) (Map.empty, m) fingerprints"

definition cached_step ::
  "preview_env \<Rightarrow> (string \<rightharpoonup> string) \<Rightarrow> parsed_span \<Rightarrow> previews \<times> parsed_span list \<times> string list \<Rightarrow> previews \<times> parsed_span list \<times> string list" where
  "cached_step env keys s st = (case st of (resolved, uncached, hits) \<Rightarrow>
     (case keys (ps_fingerprint s) of
        None \<Rightarrow> (resolved, uncached @ [s], hits)
      | Some cachedKey \<Rightarrow> (case render_with env cachedKey s of
            Some rendered \<Rightarrow> (resolved(ps_key s \<mapsto> Some rendered), uncached, js_add (ps_fingerprint s) hits)
          | None \<Rightarrow> (resolved, uncached @ [s], hits))))"

definition refresh_keys :: "number \<Rightarrow> string \<Rightarrow> string list \<Rightarrow> memory_cache \<Rightarrow> memory_cache" where
  "refresh_keys now projectId hits m = foldl (\<lambda>m f.
     snd (cache_expire now (SPAN_RENDERING_KEY_CACHE_KEY projectId f) RENDERING_KEY_TTL_SECONDS m)) m hits"

definition applyCachedKeys ::
  "preview_env \<Rightarrow> cache_times \<Rightarrow> string \<Rightarrow> parsed_span list \<Rightarrow> memory_cache \<Rightarrow> previews \<times> parsed_span list \<times> memory_cache" where
  "applyCachedKeys env clock projectId parsedSpans m =
     (let (keys, m1) = lookup_keys (read_at clock) projectId (js_set (map ps_fingerprint parsedSpans)) m;
          (resolved, uncached, hits) = foldl (\<lambda>st s. cached_step env keys s st) (Map.empty, [], []) parsedSpans
      in (resolved, uncached, refresh_keys (refresh_at clock) projectId hits m1))"

section \<open>Generation\<close>

text \<open>One entry per fingerprint, in the order of first occurrence; the first span of a group is the structure sent.\<close>

definition group_spans :: "parsed_span list \<Rightarrow> (string \<times> parsed_span list) list" where
  "group_spans spans = foldl (\<lambda>m s. amap_push (ps_fingerprint s) s m) [] spans"

definition render_step ::
  "preview_env \<Rightarrow> string \<Rightarrow> parsed_span \<Rightarrow> previews \<times> parsed_span list \<times> bool \<Rightarrow> previews \<times> parsed_span list \<times> bool" where
  "render_step env key s st = (case st of (resolved, unresolved, valid) \<Rightarrow>
     (case render_with env key s of
        Some rendered \<Rightarrow> (resolved(ps_key s \<mapsto> Some rendered), unresolved, True)
      | None \<Rightarrow> (resolved, unresolved @ [s], valid)))"

definition group_step ::
  "preview_env \<Rightarrow> (string \<times> parsed_span list) \<times> string option \<Rightarrow>
   previews \<times> parsed_span list \<times> (string \<times> string) list \<Rightarrow> previews \<times> parsed_span list \<times> (string \<times> string) list" where
  "group_step env g st = (case st of (resolved, unresolved, keysToSave) \<Rightarrow>
     (case (if truthy (snd g) then snd g else None) of
        None \<Rightarrow> (resolved, unresolved @ snd (fst g), keysToSave)
      | Some key \<Rightarrow>
          (let (resolved', unresolved', valid) = foldl (\<lambda>st s. render_step env key s st) (resolved, unresolved, False) (snd (fst g))
           in (resolved', unresolved', if valid then keysToSave @ [(fst (fst g), key)] else keysToSave))))"

definition at_or_null :: "'a option list \<Rightarrow> nat \<Rightarrow> 'a option" where
  "at_or_null xs i = (if i < length xs then xs ! i else None)"

definition generateKeysViaLlm ::
  "preview_env \<Rightarrow> parsed_span list \<Rightarrow> previews \<times> parsed_span list \<times> (string \<times> string) list" where
  "generateKeysViaLlm env spans =
     (if spans = [] then (Map.empty, [], [])
      else let groups = group_spans spans;
               structures = map (\<lambda>g. (ps_data (hd (snd g)), ps_variant (hd (snd g)))) groups;
               raw = generatePreviewKeys (pe_text env) (pe_dots env) (pe_parser env) (pe_llm env) structures;
               generatedKeys = take (length groups) raw
        in foldl (\<lambda>st i. group_step env (groups ! i, at_or_null generatedKeys i) st) (Map.empty, [], []) [0..<length groups])"

definition saveRenderingKeys :: "number \<Rightarrow> string \<Rightarrow> (string \<times> string) list \<Rightarrow> memory_cache \<Rightarrow> memory_cache" where
  "saveRenderingKeys now projectId keysToSave m = foldl (\<lambda>m e.
     cache_set now (SPAN_RENDERING_KEY_CACHE_KEY projectId (fst e)) (JStr (snd e))
       \<lparr>expireAfterSeconds = Some RENDERING_KEY_TTL_SECONDS, expireAt = None\<rparr> m) m keysToSave"

definition heuristic_of :: "preview_env \<Rightarrow> parsed_span \<Rightarrow> string option" where
  "heuristic_of env s =
     (if ps_variant s = LlmToolOnly then tryDescriptiveHeuristicPreview (pe_text env) (pe_parser env) (ps_data s)
      else tryHeuristicPreview (pe_text env) (pe_parser env) (ps_data s))"

definition applyHeuristicFallback :: "preview_env \<Rightarrow> parsed_span list \<Rightarrow> previews" where
  "applyHeuristicFallback env spans = foldl (\<lambda>resolved s. resolved(ps_key s \<mapsto> heuristic_of env s)) Map.empty spans"

section \<open>Assembly\<close>

definition assembleToolOnlyPreview :: "string list \<Rightarrow> string option list \<Rightarrow> string option" where
  "assembleToolOnlyPreview toolNames perToolRendered =
     (let ls = concat (map (\<lambda>i. case at_or_null perToolRendered i of
            None \<Rightarrow> []
          | Some r \<Rightarrow> let v = trim r in if v \<noteq> [] then [toolNames ! i @ '': '' @ v] else []) [0..<length toolNames])
      in if 0 < length ls then Some (join newline ls) else None)"

definition value_at :: "previews \<Rightarrow> parsed_span \<Rightarrow> string option" where
  "value_at keyResolved s = (case keyResolved (ps_key s) of None \<Rightarrow> None | Some v \<Rightarrow> v)"

definition tool_preview :: "previews \<Rightarrow> parsed_span list \<Rightarrow> string option" where
  "tool_preview keyResolved spans =
     (let ordered = sort_key (\<lambda>s. case_option 0 id (ps_toolIndex s)) spans in
      assembleToolOnlyPreview (map (\<lambda>s. case_option [] id (ps_toolName s)) ordered) (map (value_at keyResolved) ordered))"

definition assemble_step ::
  "previews \<Rightarrow> parsed_span \<Rightarrow> previews \<times> (string \<times> parsed_span list) list \<Rightarrow> previews \<times> (string \<times> parsed_span list) list" where
  "assemble_step keyResolved s st =
     (if ps_variant s = LlmToolOnly then (fst st, amap_push (ps_span s) s (snd st))
      else ((fst st)(ps_span s \<mapsto> value_at keyResolved s), snd st))"

definition assembleFinalPreviews :: "previews \<Rightarrow> parsed_span list \<Rightarrow> previews" where
  "assembleFinalPreviews keyResolved parsedSpans =
     (let (result, toolOnlyBySpanId) = foldl (\<lambda>st s. assemble_step keyResolved s st) (Map.empty, []) parsedSpans in
      foldl (\<lambda>r g. r(fst g \<mapsto> tool_preview keyResolved (snd g))) result toolOnlyBySpanId)"

section \<open>The pipeline\<close>

definition resolve_uncached ::
  "preview_env \<Rightarrow> cache_times \<Rightarrow> string \<Rightarrow> bool \<Rightarrow> parsed_span list \<Rightarrow> previews \<Rightarrow> memory_cache \<Rightarrow> previews \<times> memory_cache" where
  "resolve_uncached env clock projectId llmAvailable uncached keyResolved m =
     (if \<not> 0 < length uncached then (keyResolved, m)
      else if \<not> llmAvailable then (keyResolved ++ applyHeuristicFallback env uncached, m)
      else let (llmResolved, unresolved, keysToSave) = generateKeysViaLlm env uncached in
        (keyResolved ++ llmResolved ++ applyHeuristicFallback env unresolved,
         saveRenderingKeys (save_at clock) projectId keysToSave m))"

definition resolvePreviews ::
  "preview_env \<Rightarrow> cache_times \<Rightarrow> raw_span list \<Rightarrow> string list \<Rightarrow> (string \<rightharpoonup> string) \<Rightarrow> string \<Rightarrow> bool \<Rightarrow> bool \<Rightarrow>
   memory_cache \<Rightarrow> (previews \<times> memory_cache) option" where
  "resolvePreviews env clock rawSpans spanIds spanTypes projectId skipGeneration aiConfigured m =
     map_option (\<lambda>(classified, needsProcessing).
       if needsProcessing = [] then (fillMissing classified spanIds, m)
       else let (cacheResolved, uncached, m1) = applyCachedKeys env clock projectId needsProcessing m;
                (keyResolved, m2) = resolve_uncached env clock projectId (\<not> skipGeneration \<and> aiConfigured) uncached cacheResolved m1
            in (fillMissing (classified ++ assembleFinalPreviews keyResolved needsProcessing) spanIds, m2))
     (classifyRawSpans env rawSpans spanTypes)"

section \<open>Writing results by key\<close>

text \<open>The loops that fill a record write at most one entry per span; spans are told apart by their keys.\<close>

definition put_all :: "(parsed_span \<Rightarrow> string option option) \<Rightarrow> previews \<Rightarrow> parsed_span list \<Rightarrow> previews" where
  "put_all put res spans = foldl (\<lambda>r s. case put s of None \<Rightarrow> r | Some v \<Rightarrow> r(ps_key s \<mapsto> v)) res spans"

lemma put_all_simps [simp]:
  "put_all put res [] = res"
  "put_all put res (s # ss) = put_all put (case put s of None \<Rightarrow> res | Some v \<Rightarrow> res(ps_key s \<mapsto> v)) ss"
  "put_all put (put_all put res xs) ys = put_all put res (xs @ ys)"
  by (simp_all add: put_all_def)

lemma put_all_none: "put_all (\<lambda>s. None) res ss = res"
  by (induction ss) simp_all

lemma put_all_cong: "(\<And>s. s \<in> set ss \<Longrightarrow> put s = put' s) \<Longrightarrow> put_all put res ss = put_all put' res ss"
  by (induction ss arbitrary: res) simp_all

lemma put_all_other: "k \<notin> ps_key ` set ss \<Longrightarrow> put_all put res ss k = res k"
  by (induction ss arbitrary: res) (auto split: option.splits)

lemma put_all_at:
  assumes "inj_on ps_key (insert s (set ss))"
  shows "put_all put res ss (ps_key s) = (if s \<in> set ss then case put s of None \<Rightarrow> res (ps_key s) | Some v \<Rightarrow> Some v else res (ps_key s))"
  using assms
proof (induction ss rule: rev_induct)
  case (snoc x ss)
  have inj: "inj_on ps_key (insert s (set ss))" using snoc.prems by (rule inj_on_subset) auto
  have same: "ps_key x = ps_key s \<longleftrightarrow> x = s" using inj_onD [OF snoc.prems, of x s] by auto
  have step: "put_all put res (ss @ [x]) = (case put x of None \<Rightarrow> put_all put res ss | Some v \<Rightarrow> (put_all put res ss)(ps_key x \<mapsto> v))"
    unfolding put_all_def by simp
  show ?case unfolding step using snoc.IH [OF inj] same by (cases "put x"; cases "x = s") simp_all
qed simp

lemma cached_loop:
  "foldl (\<lambda>st s. cached_step env keys s st) (res, un, hits) ss =
     (let render = (\<lambda>s. Option.bind (keys (ps_fingerprint s)) (\<lambda>k. render_with env k s)) in
      (put_all (\<lambda>s. map_option Some (render s)) res ss, un @ filter (\<lambda>s. render s = None) ss,
       foldl (\<lambda>h s. if render s = None then h else js_add (ps_fingerprint s) h) hits ss))"
  by (induction ss arbitrary: res un hits) (auto simp: cached_step_def Let_def split: option.splits)

lemma render_loop:
  "foldl (\<lambda>st s. render_step env key s st) (res, un, valid) ss =
     (put_all (\<lambda>s. map_option Some (render_with env key s)) res ss, un @ filter (\<lambda>s. render_with env key s = None) ss,
      valid \<or> (\<exists>s\<in>set ss. render_with env key s \<noteq> None))"
  by (induction ss arbitrary: res un valid) (auto simp: render_step_def split: option.splits)

lemma heuristic_loop: "applyHeuristicFallback env ss = put_all (\<lambda>s. Some (heuristic_of env s)) Map.empty ss"
  by (simp add: applyHeuristicFallback_def put_all_def)

section \<open>Groups and templates\<close>

lemma group_spans_key: "group_spans ss = foldl (\<lambda>m x. case Some (ps_fingerprint x) of None \<Rightarrow> m | Some k \<Rightarrow> amap_push k x m) [] ss"
  by (simp add: group_spans_def)

lemma group_spans_entry: "(f, b) \<in> set (group_spans ss) \<Longrightarrow> b = filter (\<lambda>s. ps_fingerprint s = f) ss \<and> b \<noteq> []"
  using amap_group_entry [of f b, where key = "\<lambda>x. Some (ps_fingerprint x)" and val = "\<lambda>x. x" and xs = ss]
  by (auto simp: group_spans_def)

lemma group_spans_distinct: "distinct (map fst (group_spans ss))"
  using amap_group_distinct [of "[]", where key = "\<lambda>x. Some (ps_fingerprint x)" and val = "\<lambda>x. x" and xs = ss] by (simp add: group_spans_def)

lemma group_spans_member: "s \<in> set ss \<Longrightarrow> (ps_fingerprint s, filter (\<lambda>x. ps_fingerprint x = ps_fingerprint s) ss) \<in> set (group_spans ss)"
  using amap_group_key [of s ss, where key = "\<lambda>x. Some (ps_fingerprint x)" and val = "\<lambda>x. x"] group_spans_entry
  by (fastforce simp: group_spans_def)

lemma group_spans_set: "(\<Union>g\<in>set (group_spans ss). set (snd g)) = set ss"
  using group_spans_entry [of _ _ ss] group_spans_member [of _ ss] by fastforce

text \<open>The template a fingerprint gets: a proposal for its group that is neither null nor empty.\<close>

definition proposals :: "preview_env \<Rightarrow> parsed_span list \<Rightarrow> string option list" where
  "proposals env spans =
     (let groups = group_spans spans in
      map (at_or_null (take (length groups) (generatePreviewKeys (pe_text env) (pe_dots env) (pe_parser env) (pe_llm env)
        (map (\<lambda>g. (ps_data (hd (snd g)), ps_variant (hd (snd g)))) groups)))) [0..<length groups])"

definition template_for :: "preview_env \<Rightarrow> parsed_span list \<Rightarrow> string \<Rightarrow> string option" where
  "template_for env spans f =
     Option.bind (map_of (zip (map fst (group_spans spans)) (proposals env spans)) f) (\<lambda>k. if truthy k then k else None)"

lemma length_proposals [simp]: "length (proposals env spans) = length (group_spans spans)"
  by (simp add: proposals_def Let_def)

lemma foldl_index: "foldl (\<lambda>st i. F (xs ! i, h i) st) st [0..<length xs] = foldl (\<lambda>st p. F p st) st (zip xs (map h [0..<length xs]))"
proof -
  have "zip xs (map h [0..<length xs]) = map (\<lambda>i. (xs ! i, h i)) [0..<length xs]"
    by (intro nth_equalityI) simp_all
  then show ?thesis by (simp add: foldl_map)
qed

lemma generate_loop:
  assumes "spans \<noteq> []"
  shows "generateKeysViaLlm env spans =
    foldl (\<lambda>st p. group_step env p st) (Map.empty, [], []) (zip (group_spans spans) (proposals env spans))"
  using assms by (simp add: generateKeysViaLlm_def Let_def foldl_index [where F = "group_step env"] proposals_def)

text \<open>The templates to save: those that rendered a span of their group.\<close>

definition worth_saving :: "preview_env \<Rightarrow> (string \<times> parsed_span list) \<times> string option \<Rightarrow> (string \<times> string) list" where
  "worth_saving env p = (case (if truthy (snd p) then snd p else None) of
     None \<Rightarrow> [] | Some k \<Rightarrow> if \<exists>s\<in>set (snd (fst p)). render_with env k s \<noteq> None then [(fst (fst p), k)] else [])"

lemma group_loop:
  assumes "\<And>p s. p \<in> set ps \<Longrightarrow> s \<in> set (snd (fst p)) \<Longrightarrow>
    render s = Option.bind (if truthy (snd p) then snd p else None) (\<lambda>k. render_with env k s)"
  shows "foldl (\<lambda>st p. group_step env p st) (res, un, sv) ps =
    (put_all (\<lambda>s. map_option Some (render s)) res (concat (map (\<lambda>p. snd (fst p)) ps)),
     un @ filter (\<lambda>s. render s = None) (concat (map (\<lambda>p. snd (fst p)) ps)), sv @ concat (map (worth_saving env) ps))"
  using assms
proof (induction ps arbitrary: res un sv)
  case (Cons p ps)
  let ?key = "if truthy (snd p) then snd p else None"
  have here: "render s = Option.bind ?key (\<lambda>k. render_with env k s)" if "s \<in> set (snd (fst p))" for s
    using Cons.prems that by (meson list.set_intros(1))
  have "group_step env p (res, un, sv) =
    (put_all (\<lambda>s. map_option Some (render s)) res (snd (fst p)), un @ filter (\<lambda>s. render s = None) (snd (fst p)),
     sv @ worth_saving env p)"
  proof (cases ?key)
    case None
    have none: "render s = None" if "s \<in> set (snd (fst p))" for s using here [OF that] None by simp
    have "put_all (\<lambda>s. map_option Some (render s)) res (snd (fst p)) = put_all (\<lambda>s. None) res (snd (fst p))"
      using none by (intro put_all_cong) simp
    also have "\<dots> = res" by (rule put_all_none)
    finally show ?thesis using None none by (simp add: group_step_def worth_saving_def filter_id_conv)
  next
    case (Some k)
    have render: "render s = render_with env k s" if "s \<in> set (snd (fst p))" for s using here [OF that] Some by simp
    have "put_all (\<lambda>s. map_option Some (render s)) res (snd (fst p)) = put_all (\<lambda>s. map_option Some (render_with env k s)) res (snd (fst p))"
      using render by (intro put_all_cong) simp
    moreover have "filter (\<lambda>s. render s = None) (snd (fst p)) = filter (\<lambda>s. render_with env k s = None) (snd (fst p))"
      using render by (intro filter_cong) simp_all
    ultimately show ?thesis using Some by (simp add: group_step_def render_loop worth_saving_def Let_def)
  qed
  moreover have "foldl (\<lambda>st p. group_step env p st) (res', un', sv') ps =
    (put_all (\<lambda>s. map_option Some (render s)) res' (concat (map (\<lambda>p. snd (fst p)) ps)),
     un' @ filter (\<lambda>s. render s = None) (concat (map (\<lambda>p. snd (fst p)) ps)), sv' @ concat (map (worth_saving env) ps))" for res' un' sv'
    using Cons.prems by (intro Cons.IH) simp
  ultimately show ?case by simp
qed simp

text \<open>What generation gives each span: the render of the template of its fingerprint.\<close>

definition generated_render :: "preview_env \<Rightarrow> parsed_span list \<Rightarrow> parsed_span \<Rightarrow> string option" where
  "generated_render env spans s = Option.bind (template_for env spans (ps_fingerprint s)) (\<lambda>k. render_with env k s)"

lemma template_of_group:
  assumes "p \<in> set (zip (group_spans spans) (proposals env spans))"
  shows "template_for env spans (fst (fst p)) = (if truthy (snd p) then snd p else None)"
    and "s \<in> set (snd (fst p)) \<Longrightarrow> ps_fingerprint s = fst (fst p)"
proof -
  have "map fst (zip (map fst (group_spans spans)) (proposals env spans)) = map fst (group_spans spans)" by simp
  moreover have "(fst (fst p), snd p) \<in> set (zip (map fst (group_spans spans)) (proposals env spans))"
    using assms by (auto simp: zip_map1 intro!: image_eqI [of _ _ p] split: prod.splits)
  ultimately have "map_of (zip (map fst (group_spans spans)) (proposals env spans)) (fst (fst p)) = Some (snd p)"
    using group_spans_distinct by (metis map_of_is_SomeI)
  then show "template_for env spans (fst (fst p)) = (if truthy (snd p) then snd p else None)"
    by (simp add: template_for_def)
  have "fst p \<in> set (group_spans spans)" using assms by (metis set_zip_leftD prod.collapse)
  then show "s \<in> set (snd (fst p)) \<Longrightarrow> ps_fingerprint s = fst (fst p)"
    using group_spans_entry [of "fst (fst p)" "snd (fst p)" spans] by auto
qed

lemma zip_groups: "map (\<lambda>p. snd (fst p)) (zip (group_spans spans) (proposals env spans)) = map snd (group_spans spans)"
proof -
  have "map (\<lambda>p. snd (fst p)) (zip xs ys) = map snd xs" if "length xs = length ys" for xs :: "('a \<times> 'b) list" and ys :: "'c list"
    using that by (induction xs ys rule: list_induct2) simp_all
  from this [OF length_proposals [symmetric]] show ?thesis .
qed

lemma generation:
  assumes "generateKeysViaLlm env spans = (res, un, sv)"
  shows "res = put_all (\<lambda>s. map_option Some (generated_render env spans s)) Map.empty (concat (map snd (group_spans spans)))"
    and "set un = {s \<in> set spans. generated_render env spans s = None}"
    and "\<And>f k. (f, k) \<in> set sv \<longleftrightarrow> template_for env spans f = Some k \<and>
           (\<exists>s\<in>set spans. ps_fingerprint s = f \<and> render_with env k s \<noteq> None)"
proof -
  let ?ps = "zip (group_spans spans) (proposals env spans)"
  let ?all = "concat (map snd (group_spans spans))"
  have all: "set ?all = set spans" using group_spans_set [of spans] by simp
  have "(res, un, sv) = (put_all (\<lambda>s. map_option Some (generated_render env spans s)) Map.empty ?all,
     filter (\<lambda>s. generated_render env spans s = None) ?all, concat (map (worth_saving env) ?ps))"
  proof (cases "spans = []")
    case True
    then show ?thesis using assms by (simp add: generateKeysViaLlm_def group_spans_def)
  next
    case False
    show ?thesis
      unfolding assms [symmetric] generate_loop [OF False]
      by (subst group_loop [where render = "generated_render env spans"])
        (simp_all add: zip_groups template_of_group generated_render_def)
  qed
  then have sv: "sv = concat (map (worth_saving env) ?ps)"
    and un: "un = filter (\<lambda>s. generated_render env spans s = None) ?all"
    and res: "res = put_all (\<lambda>s. map_option Some (generated_render env spans s)) Map.empty ?all"
    by simp_all
  show "res = put_all (\<lambda>s. map_option Some (generated_render env spans s)) Map.empty ?all" by (rule res)
  show "set un = {s \<in> set spans. generated_render env spans s = None}"
    unfolding un set_filter all by simp
  fix f k
  show "(f, k) \<in> set sv \<longleftrightarrow> template_for env spans f = Some k \<and>
           (\<exists>s\<in>set spans. ps_fingerprint s = f \<and> render_with env k s \<noteq> None)" (is "_ \<longleftrightarrow> ?r")
  proof
    assume "(f, k) \<in> set sv"
    then obtain p where p: "p \<in> set ?ps" "(f, k) \<in> set (worth_saving env p)" by (auto simp: sv)
    then have "f = fst (fst p)" "template_for env spans f = Some k" "\<exists>s\<in>set (snd (fst p)). render_with env k s \<noteq> None"
      using template_of_group(1) [OF p(1)] by (auto simp: worth_saving_def split: option.splits if_splits)
    moreover have "set (snd (fst p)) \<subseteq> set spans"
      using group_spans_entry [of "fst (fst p)" "snd (fst p)" spans] p(1) by (metis filter_is_subset set_zip_leftD prod.collapse)
    ultimately show ?r using template_of_group(2) [OF p(1)] by blast
  next
    assume r: ?r
    then obtain s where s: "s \<in> set spans" "ps_fingerprint s = f" "render_with env k s \<noteq> None" by blast
    let ?g = "(f, filter (\<lambda>x. ps_fingerprint x = f) spans)"
    have "?g \<in> set (group_spans spans)" using group_spans_member [OF s(1)] s(2) by simp
    then obtain q where p: "(?g, q) \<in> set ?ps"
      by (metis in_set_impl_in_set_zip1 length_proposals)
    have key: "(if truthy q then q else None) = Some k" using template_of_group(1) [OF p] r by simp
    have some: "\<exists>s\<in>set (snd ?g). render_with env k s \<noteq> None" using s by (intro bexI [of _ s]) simp_all
    have "worth_saving env (?g, q) = [(f, k)]"
      unfolding worth_saving_def fst_conv snd_conv key option.case using some by (simp only: fst_conv snd_conv if_True)
    with p show "(f, k) \<in> set sv" unfolding sv by force
  qed
qed

section \<open>The templates in the cache\<close>

text \<open>The template a fingerprint has in the cache at a time.\<close>

definition cached_template :: "number \<Rightarrow> string \<Rightarrow> memory_cache \<Rightarrow> string \<Rightarrow> string option" where
  "cached_template now projectId m f = (case live now m (SPAN_RENDERING_KEY_CACHE_KEY projectId f) of
     None \<Rightarrow> None
   | Some e \<Rightarrow> (case cvalue e of JStr k \<Rightarrow> if k \<noteq> [] then Some k else None | _ \<Rightarrow> None))"

lemma cache_key_inject [simp]:
  "SPAN_RENDERING_KEY_CACHE_KEY projectId f = SPAN_RENDERING_KEY_CACHE_KEY projectId g \<longleftrightarrow> f = g"
  by (simp add: SPAN_RENDERING_KEY_CACHE_KEY_def)

lemma lookup_step_eq:
  "lookup_step now projectId f (keys, m) =
     (case cached_template now projectId m f of None \<Rightarrow> keys | Some k \<Rightarrow> keys(f \<mapsto> k),
      snd (cache_get now (SPAN_RENDERING_KEY_CACHE_KEY projectId f) m))"
  by (auto simp: lookup_step_def Let_def get_live cached_template_def split: option.splits json.splits)

lemma cached_template_get: "cached_template now projectId (snd (cache_get now k m)) = cached_template now projectId m"
  by (simp add: cached_template_def [abs_def] live_get)

lemma lookup_loop:
  "fst (foldl (\<lambda>st f. lookup_step now projectId f st) (keys, m) fs) g =
     (if g \<in> set fs \<and> cached_template now projectId m g \<noteq> None then cached_template now projectId m g else keys g)"
  by (induction fs arbitrary: keys m) (auto simp: lookup_step_eq cached_template_get split: option.splits)

lemma lookup_loop_live:
  "now \<le> t \<Longrightarrow> live t (snd (foldl (\<lambda>st f. lookup_step now projectId f st) (keys, m) fs)) = live t m"
  by (induction fs arbitrary: keys m) (simp_all add: lookup_step_eq live_get)

lemma lookup_template:
  "fst (lookup_keys now projectId fs m) f = (if f \<in> set fs then cached_template now projectId m f else None)"
  "now \<le> t \<Longrightarrow> live t (snd (lookup_keys now projectId fs m)) = live t m"
  unfolding lookup_keys_def by (simp_all add: lookup_loop lookup_loop_live)

lemma saved_template:
  assumes "t \<le> now + RENDERING_KEY_TTL_SECONDS * 1000" "\<And>k'. (f, k') \<in> set sv \<Longrightarrow> k' \<noteq> []"
    and "\<And>k1 k2. (f, k1) \<in> set sv \<Longrightarrow> (f, k2) \<in> set sv \<Longrightarrow> k1 = k2"
  shows "cached_template t projectId (saveRenderingKeys now projectId sv m) f =
    (if \<exists>k. (f, k) \<in> set sv then Some (THE k. (f, k) \<in> set sv) else cached_template t projectId m f)"
  using assms(2,3)
proof (induction sv rule: rev_induct)
  case (snoc e sv)
  let ?m = "saveRenderingKeys now projectId sv m"
  have ttl: "RENDERING_KEY_TTL_SECONDS \<noteq> 0" by (simp add: RENDERING_KEY_TTL_SECONDS_def)
  have step: "saveRenderingKeys now projectId (sv @ [e]) m = cache_set now (SPAN_RENDERING_KEY_CACHE_KEY projectId (fst e)) (JStr (snd e))
       \<lparr>expireAfterSeconds = Some RENDERING_KEY_TTL_SECONDS, expireAt = None\<rparr> ?m"
    by (simp add: saveRenderingKeys_def)
  show ?case
  proof (cases "fst e = f")
    case True
    then have "(THE k. (f, k) \<in> set (sv @ [e])) = snd e" "snd e \<noteq> []"
      using snoc.prems by (auto intro!: the_equality)
    moreover have "cached_template t projectId (saveRenderingKeys now projectId (sv @ [e]) m) f = Some (snd e)"
      using True assms(1) ttl \<open>snd e \<noteq> []\<close>
      by (simp add: step cached_template_def cache_set_def Let_def live_update is_expired_def)
    moreover have "\<exists>k. (f, k) \<in> set (sv @ [e])" using True by (metis in_set_conv_decomp prod.collapse)
    ultimately show ?thesis by simp
  next
    case False
    have "cached_template t projectId (saveRenderingKeys now projectId (sv @ [e]) m) f = cached_template t projectId ?m f"
      using False by (simp add: step cached_template_def cache_set_def Let_def live_update)
    moreover have "(f, k) \<in> set (sv @ [e]) \<longleftrightarrow> (f, k) \<in> set sv" for k using False by (cases e) auto
    ultimately show ?thesis using snoc by simp
  qed
qed (simp add: saveRenderingKeys_def)

section \<open>Laws of the assembly\<close>

lemma assemble_loop:
  "foldl (\<lambda>st s. assemble_step kr s st) (r, m) ss =
     (foldl (\<lambda>r s. if ps_variant s = LlmToolOnly then r else r(ps_span s \<mapsto> value_at kr s)) r ss,
      foldl (\<lambda>m s. case (if ps_variant s = LlmToolOnly then Some (ps_span s) else None) of None \<Rightarrow> m | Some k \<Rightarrow> amap_push k s m) m ss)"
  by (induction ss arbitrary: r m) (simp_all add: assemble_step_def)

lemma assemble_cong:
  assumes "\<And>s. s \<in> set ss \<Longrightarrow> value_at kr s = value_at kr' s"
  shows "assembleFinalPreviews kr ss = assembleFinalPreviews kr' ss"
proof -
  let ?tools = "foldl (\<lambda>m s. case (if ps_variant s = LlmToolOnly then Some (ps_span s) else None) of None \<Rightarrow> m | Some k \<Rightarrow> amap_push k s m) [] ss"
  have "tool_preview kr (snd g) = tool_preview kr' (snd g)" if "g \<in> set ?tools" for g
  proof -
    have "set (snd g) \<subseteq> set ss"
      using amap_group_entry [of "fst g" "snd g", where val = "\<lambda>x. x", of "\<lambda>s. if ps_variant s = LlmToolOnly then Some (ps_span s) else None" ss] that
      by auto
    then have "map (value_at kr) (sort_key h (snd g)) = map (value_at kr') (sort_key h (snd g))" for h :: "parsed_span \<Rightarrow> nat"
      using assms by auto
    then show ?thesis by (simp only: tool_preview_def Let_def)
  qed
  then have "foldl (\<lambda>r g. r(fst g \<mapsto> tool_preview kr (snd g))) r ?tools = foldl (\<lambda>r g. r(fst g \<mapsto> tool_preview kr' (snd g))) r ?tools" for r
    by (intro foldl_cong) simp_all
  moreover have "foldl (\<lambda>r s. if ps_variant s = LlmToolOnly then r else r(ps_span s \<mapsto> value_at kr s)) r ss =
    foldl (\<lambda>r s. if ps_variant s = LlmToolOnly then r else r(ps_span s \<mapsto> value_at kr' s)) r ss" for r
    using assms by (intro foldl_cong) simp_all
  ultimately show ?thesis by (simp add: assembleFinalPreviews_def assemble_loop)
qed

lemma fill_missing: "fillMissing pv ids i = (if pv i \<noteq> None then pv i else if i \<in> set ids then Some None else None)"
  unfolding fillMissing_def by (induction ids arbitrary: pv) auto

section \<open>Laws of the classification\<close>

definition processing :: "outcome option \<Rightarrow> parsed_span list" where
  "processing r = (case r of Some (Processing spans) \<Rightarrow> spans | _ \<Rightarrow> [])"

lemma classify_loop:
  "loop_js (classify_step env types) raws st = Some st' \<Longrightarrow>
     snd st' = snd st @ concat (map (\<lambda>raw. processing (classify_raw env types raw)) raws)"
proof (induction raws arbitrary: st)
  case (Cons raw raws)
  obtain r where r: "classify_raw env types raw = Some r" using Cons.prems by (cases "classify_raw env types raw") (simp_all add: classify_step_def)
  show ?case using Cons.prems Cons.IH r by (cases r) (auto simp: classify_step_def processing_def)
qed simp

lemma classify_raw_object:
  assumes "classify_raw env types raw = Some (Processing spans)"
  obtains t data where "classify_object env t raw data = Some (Processing spans)"
  using assms by (auto simp: classify_raw_def Let_def split: if_splits payload_class.splits)

lemma classify_object_spans:
  assumes "classify_object env t raw data = Some (Processing spans)"
  shows "spans = [generic_span raw data] \<or> (\<exists>ts. spans = tool_spans raw ts)"
proof -
  obtain hint found where r: "(case (case found of Some rendered \<Rightarrow> if trim rendered \<noteq> [] then Some rendered else None | None \<Rightarrow> None) of
        Some rendered \<Rightarrow> Some (Resolved rendered)
      | None \<Rightarrow> do {
          tools \<leftarrow> (if t = ''LLM'' \<or> t = ''CACHED''
                    then extractToolsIfToolOnly (pe_providers env) data (Some hint) else Some None);
          (case tools of
             Some (t # ts) \<Rightarrow> Some (Processing (tool_spans raw (t # ts)))
           | _ \<Rightarrow> Some (Processing [generic_span raw data]))
        }) = Some (Processing spans)"
    using assms unfolding classify_object_def Option.bind_eq_Some_conv by blast
  then obtain tools where "(case tools of
             Some (t # ts) \<Rightarrow> Some (Processing (tool_spans raw (t # ts)))
           | _ \<Rightarrow> Some (Processing [generic_span raw data])) = Some (Processing spans)"
    by (auto simp: Option.bind_eq_Some_conv split: option.splits)
  then show ?thesis by (auto split: option.splits list.splits)
qed

lemma tool_keys: "map ps_key (tool_spans raw ts) = map (\<lambda>i. raw_id raw @ ''#'' @ show_nat i) [0..<length ts]"
  by (simp add: tool_spans_def tool_span_def Let_def)

lemma owner_of_key: "CHR ''#'' \<notin> set k \<Longrightarrow> takeWhile (\<lambda>c. c \<noteq> CHR ''#'') (k @ ''#'' @ t) = k"
  by (subst takeWhile_append2) auto

lemma classified_keys:
  assumes "classify_raw env types raw = Some (Processing spans)" "CHR ''#'' \<notin> set (raw_id raw)"
  shows "distinct (map ps_key spans)" and "s \<in> set spans \<Longrightarrow> takeWhile (\<lambda>c. c \<noteq> CHR ''#'') (ps_key s) = raw_id raw"
proof -
  consider data where "spans = [generic_span raw data]" | ts where "spans = tool_spans raw ts"
    by (rule classify_raw_object [OF assms(1)], drule classify_object_spans) auto
  then have "distinct (map ps_key spans) \<and> (\<forall>k\<in>set (map ps_key spans). takeWhile (\<lambda>c. c \<noteq> CHR ''#'') k = raw_id raw)"
  proof cases
    case 1
    have "takeWhile (\<lambda>c. c \<noteq> CHR ''#'') (raw_id raw) = raw_id raw" using assms(2) by (auto simp: takeWhile_eq_all_conv)
    then show ?thesis by (simp add: 1 generic_span_def)
  next
    case 2
    have "inj_on (\<lambda>i. raw_id raw @ ''#'' @ show_nat i) A" for A by (rule inj_onI) simp
    then show ?thesis unfolding 2 tool_keys distinct_map using owner_of_key [OF assms(2)] by simp
  qed
  then show "distinct (map ps_key spans)" and "s \<in> set spans \<Longrightarrow> takeWhile (\<lambda>c. c \<noteq> CHR ''#'') (ps_key s) = raw_id raw"
    by simp_all
qed

lemma needs_distinct:
  assumes "classifyRawSpans env raws types = Some (classified, needs)"
    and "distinct (map raw_id raws)" "\<forall>raw\<in>set raws. CHR ''#'' \<notin> set (raw_id raw)"
  shows "distinct (map ps_key needs)"
proof -
  let ?P = "\<lambda>raw. processing (classify_raw env types raw)"
  have key: "distinct (map ps_key (?P raw)) \<and> (\<forall>s\<in>set (?P raw). takeWhile (\<lambda>c. c \<noteq> CHR ''#'') (ps_key s) = raw_id raw)"
    if "raw \<in> set raws" for raw
    using classified_keys [of env types raw] assms(3) that by (auto simp: processing_def split: option.splits outcome.splits)
  have "needs = concat (map ?P raws)" using classify_loop assms(1) by (fastforce simp: classifyRawSpans_def)
  moreover have "distinct (map ps_key (concat (map ?P raws)))"
    using assms(2) key
  proof (induction raws)
    case (Cons raw raws)
    have "ps_key ` set (?P raw) \<inter> ps_key ` set (concat (map ?P raws)) = {}"
    proof (rule ccontr)
      assume "\<not> ?thesis"
      then obtain s s' raw' where s: "s \<in> set (?P raw)" "raw' \<in> set raws" "s' \<in> set (?P raw')" "ps_key s = ps_key s'" by auto
      then have "raw_id raw = raw_id raw'" using Cons.prems(2) [of raw] Cons.prems(2) [of raw'] by auto
      then show False using s(2) Cons.prems(1) by auto
    qed
    then show ?case using Cons by auto
  qed simp
  ultimately show ?thesis by simp
qed

text \<open>With providers that do not throw, no payload makes the classification throw.\<close>

lemma classification_returns:
  assumes "registry (pe_providers env)"
  shows "classifyRawSpans env raws types \<noteq> None"
proof -
  have "classify_object env t raw data \<noteq> None" for t raw data
  proof -
    obtain h where "detectProvider (pe_providers env) data = Some h"
      using registry.detection_returns [OF assms, of data] by blast
    moreover obtain r where "matchProviderKey (pe_providers env) data (Some h) = Some r"
      using registry.rendering_returns [OF assms, of data "Some h"] by blast
    moreover obtain ts where "extractToolsIfToolOnly (pe_providers env) data (Some h) = Some ts"
      using registry.tools_returns [OF assms, of data "Some h"] by blast
    ultimately show ?thesis by (auto simp: classify_object_def split: option.splits list.splits)
  qed
  then have "classify_raw env types raw \<noteq> None" for raw
    by (auto simp: classify_raw_def Let_def split: payload_class.splits simp del: not_None_eq)
  then show ?thesis unfolding classifyRawSpans_def by (intro loop_js_total) (simp add: classify_step_def del: not_None_eq)
qed

section \<open>What the pipeline computes\<close>

definition cached_render :: "preview_env \<Rightarrow> number \<Rightarrow> string \<Rightarrow> memory_cache \<Rightarrow> parsed_span \<Rightarrow> string option" where
  "cached_render env now projectId m s =
     Option.bind (cached_template now projectId m (ps_fingerprint s)) (\<lambda>k. render_with env k s)"

lemma apply_cached:
  assumes "applyCachedKeys env clock projectId needs m = (res, un, m1)"
  shows "res = put_all (\<lambda>s. map_option Some (cached_render env (read_at clock) projectId m s)) Map.empty needs"
    and "un = filter (\<lambda>s. cached_render env (read_at clock) projectId m s = None) needs"
    and "(\<And>s. s \<in> set needs \<Longrightarrow> cached_render env (read_at clock) projectId m s = None) \<Longrightarrow> read_at clock \<le> t \<Longrightarrow> live t m1 = live t m"
proof -
  obtain keys m0 where lookup: "lookup_keys (read_at clock) projectId (js_set (map ps_fingerprint needs)) m = (keys, m0)"
    by (cases "lookup_keys (read_at clock) projectId (js_set (map ps_fingerprint needs)) m") auto
  have keys: "keys f = (if f \<in> ps_fingerprint ` set needs then cached_template (read_at clock) projectId m f else None)" for f
    using lookup_template(1) [of "read_at clock" projectId "js_set (map ps_fingerprint needs)" m f] lookup by simp
  have m0: "read_at clock \<le> t \<Longrightarrow> live t m0 = live t m"
    using lookup_template(2) [of "read_at clock" t projectId "js_set (map ps_fingerprint needs)" m] lookup by simp
  let ?render = "\<lambda>s. Option.bind (keys (ps_fingerprint s)) (\<lambda>k. render_with env k s)"
  have render: "?render s = cached_render env (read_at clock) projectId m s" if "s \<in> set needs" for s
    using that by (simp add: keys cached_render_def)
  let ?hits = "foldl (\<lambda>h s. if ?render s = None then h else js_add (ps_fingerprint s) h) [] needs"
  have parts: "res = put_all (\<lambda>s. map_option Some (?render s)) Map.empty needs" "un = filter (\<lambda>s. ?render s = None) needs"
    "m1 = refresh_keys (refresh_at clock) projectId ?hits m0"
    using assms unfolding applyCachedKeys_def by (simp_all add: lookup cached_loop Let_def)
  show "res = put_all (\<lambda>s. map_option Some (cached_render env (read_at clock) projectId m s)) Map.empty needs"
    unfolding parts(1) by (rule put_all_cong) (simp add: render)
  show "un = filter (\<lambda>s. cached_render env (read_at clock) projectId m s = None) needs"
    unfolding parts(2) by (rule filter_cong) (simp_all add: render)
  assume none: "\<And>s. s \<in> set needs \<Longrightarrow> cached_render env (read_at clock) projectId m s = None" and t: "read_at clock \<le> t"
  have "foldl (\<lambda>h s. if ?render s = None then h else js_add (ps_fingerprint s) h) h ss = h" if "set ss \<subseteq> set needs" for h ss
    using that render none by (induction ss) auto
  then have "m1 = m0" unfolding parts(3) by (simp add: refresh_keys_def)
  then show "live t m1 = live t m" using m0 t by simp
qed

definition pipeline_value :: "preview_env \<Rightarrow> bool \<Rightarrow> (parsed_span \<Rightarrow> string option) \<Rightarrow> parsed_span list \<Rightarrow> parsed_span \<Rightarrow> string option" where
  "pipeline_value env llmAvailable cached un s = (case cached s of
     Some r \<Rightarrow> Some r
   | None \<Rightarrow> (case (if llmAvailable then generated_render env un s else None) of
         Some r \<Rightarrow> Some r
       | None \<Rightarrow> heuristic_of env s))"

lemma value_layers:
  assumes inj: "inj_on ps_key (set needs)" and s: "s \<in> set needs" and un: "set un \<subseteq> set needs" and un': "set un' \<subseteq> set needs"
    and cover: "s \<in> set un \<longleftrightarrow> c s = None" "s \<in> set un' \<longleftrightarrow> c s = None \<and> g s = None"
  shows "value_at (put_all (\<lambda>s. map_option Some (c s)) Map.empty needs ++ put_all (\<lambda>s. map_option Some (g s)) Map.empty un ++
      put_all (\<lambda>s. Some (h s)) Map.empty un') s = (case c s of Some r \<Rightarrow> Some r | None \<Rightarrow> (case g s of Some r \<Rightarrow> Some r | None \<Rightarrow> h s))"
proof -
  have put: "put_all put Map.empty xs (ps_key s) = (if s \<in> set xs then put s else None)" if "set xs \<subseteq> set needs" for put xs
  proof -
    have "inj_on ps_key (insert s (set xs))" by (rule inj_on_subset [OF inj]) (use s that in auto)
    then show ?thesis by (simp add: put_all_at split: option.split)
  qed
  show ?thesis using s cover by (simp add: value_at_def map_add_def put un un' split: option.split)
qed

lemma pipeline_values:
  assumes distinct: "distinct (map ps_key needs)"
    and cached: "applyCachedKeys env clock projectId needs m = (res, un, m1)"
    and uncached: "resolve_uncached env clock projectId llmAvailable un res m1 = (kr, m2)"
    and s: "s \<in> set needs"
  shows "value_at kr s = pipeline_value env llmAvailable (cached_render env (read_at clock) projectId m) un s"
proof -
  let ?c = "cached_render env (read_at clock) projectId m"
  note res = apply_cached(1) [OF cached] and un = apply_cached(2) [OF cached]
  have inj: "inj_on ps_key (set needs)" using distinct by (simp add: distinct_map)
  have sub: "set un \<subseteq> set needs" and mem: "s \<in> set un \<longleftrightarrow> ?c s = None" using s by (auto simp: un)
  show ?thesis
  proof (cases llmAvailable)
    case False
    have "kr = put_all (\<lambda>s. map_option Some (?c s)) Map.empty needs ++ put_all (\<lambda>s. map_option Some None) Map.empty un ++
        put_all (\<lambda>s. Some (heuristic_of env s)) Map.empty un"
      using uncached False by (auto simp: resolve_uncached_def res heuristic_loop put_all_none split: if_splits)
    then show ?thesis
      using value_layers [OF inj s sub sub, of ?c "\<lambda>s. None" "heuristic_of env"] mem False by (simp add: pipeline_value_def)
  next
    case True
    obtain res' un' sv where gen: "generateKeysViaLlm env un = (res', un', sv)" by (cases "generateKeysViaLlm env un") auto
    let ?g = "generated_render env un"
    let ?all = "concat (map snd (group_spans un))"
    have all: "set ?all = set un" using group_spans_set [of un] by simp
    have kr: "kr = res ++ res' ++ applyHeuristicFallback env un'"
      using uncached True gen by (auto simp: resolve_uncached_def generateKeysViaLlm_def applyHeuristicFallback_def split: if_splits)
    have un': "set un' \<subseteq> set needs" "s \<in> set un' \<longleftrightarrow> ?c s = None \<and> ?g s = None"
      using generation(2) [OF gen] sub mem by auto
    have sub': "set ?all \<subseteq> set needs" and cov: "s \<in> set ?all \<longleftrightarrow> ?c s = None" unfolding all by (rule sub, rule mem)
    show ?thesis
      unfolding kr res generation(1) [OF gen] heuristic_loop
        value_layers [where c = ?c and g = ?g, OF inj s sub' un'(1) cov un'(2)]
      using True by (simp add: pipeline_value_def)
  qed
qed

lemma resolved_previews:
  assumes "classifyRawSpans env raws types = Some (classified, needs)"
    and "applyCachedKeys env clock projectId needs m = (res, un, m1)"
    and "resolve_uncached env clock projectId (\<not> skip \<and> ai) un res m1 = (kr, m2)"
  shows "resolvePreviews env clock raws ids types projectId skip ai m =
    (if needs = [] then Some (fillMissing classified ids, m)
     else Some (fillMissing (classified ++ assembleFinalPreviews kr needs) ids, m2))"
  using assms by (simp add: resolvePreviews_def)

lemma cached_template_gone:
  assumes "now \<le> t" "cached_template now projectId m f = None"
  shows "cached_template t projectId m f = None"
proof -
  have "live t m k = None \<or> live t m k = live now m k" for k
    using is_expired_mono [OF _ assms(1)] by (auto simp: live_def split: option.splits)
  then show ?thesis using assms(2) by (metis (no_types, lifting) cached_template_def option.case(1))
qed

text \<open>What a cold cache holds after the templates of a request are saved.\<close>

lemma saved_generation:
  assumes "generateKeysViaLlm env needs = (res, un, sv)" "t \<le> now + RENDERING_KEY_TTL_SECONDS * 1000"
    and "cached_template t projectId m f = None"
  shows "cached_template t projectId (saveRenderingKeys now projectId sv m) f =
    (if \<exists>s\<in>set needs. ps_fingerprint s = f \<and> generated_render env needs s \<noteq> None then template_for env needs f else None)"
proof -
  note saved = generation(3) [OF assms(1)]
  have one: "k = k'" if "(f, k) \<in> set sv" "(f, k') \<in> set sv" for k k' using that by (simp add: saved)
  have nonempty: "k \<noteq> []" if "(f, k) \<in> set sv" for k
    using that by (auto simp: saved template_for_def split: bind_splits if_splits)
  have at: "cached_template t projectId (saveRenderingKeys now projectId sv m) f =
    (if \<exists>k. (f, k) \<in> set sv then Some (THE k. (f, k) \<in> set sv) else cached_template t projectId m f)"
    by (rule saved_template [where f = f and sv = sv, OF assms(2)]) (auto dest: nonempty one)
  show ?thesis
  proof (cases "\<exists>k. (f, k) \<in> set sv")
    case True
    then obtain k where k: "(f, k) \<in> set sv" by blast
    then have "(THE k. (f, k) \<in> set sv) = k" using one by blast
    then have "cached_template t projectId (saveRenderingKeys now projectId sv m) f = Some k" using at True by simp
    then show ?thesis using k unfolding saved by (auto simp: generated_render_def)
  next
    case False
    then have "\<not> (\<exists>s\<in>set needs. ps_fingerprint s = f \<and> generated_render env needs s \<noteq> None)"
      by (auto simp: saved generated_render_def split: bind_splits)
    then show ?thesis using False at assms(3) by (simp only: if_False)
  qed
qed

text \<open>
  Claim C3. Templates saved once stand for the language model: when no template was cached for the project and the
  templates of a request were saved, the same request within the lifetime of a template, seven days, gives the same
  previews without generating anything.
\<close>
theorem warm_cache_repeats_previews:
  assumes ids: "distinct (map raw_id raws)" "\<forall>raw\<in>set raws. CHR ''#'' \<notin> set (raw_id raw)"
    and cold: "\<forall>f. cached_template (read_at c1) projectId m f = None"
    and run: "resolvePreviews env c1 raws spanIds types projectId False True m = Some (pv, m')"
    and later: "read_at c1 \<le> read_at c2" "read_at c2 \<le> save_at c1 + RENDERING_KEY_TTL_SECONDS * 1000"
  shows "\<exists>m''. resolvePreviews env c2 raws spanIds types projectId True ai m' = Some (pv, m'')"
proof -
  obtain classified needs where cls: "classifyRawSpans env raws types = Some (classified, needs)"
    using run by (auto simp: resolvePreviews_def)
  have distinct: "distinct (map ps_key needs)" by (rule needs_distinct [OF cls ids])
  obtain res1 un1 m1 where cached1: "applyCachedKeys env c1 projectId needs m = (res1, un1, m1)" by (rule prod_cases3)
  obtain kr1 m2 where resolved1: "resolve_uncached env c1 projectId (\<not> False \<and> True) un1 res1 m1 = (kr1, m2)" by fastforce
  obtain res2 un2 m3 where cached2: "applyCachedKeys env c2 projectId needs m' = (res2, un2, m3)" by (rule prod_cases3)
  obtain kr2 m4 where resolved2: "resolve_uncached env c2 projectId (\<not> True \<and> ai) un2 res2 m3 = (kr2, m4)" by fastforce
  note run1 = resolved_previews [OF cls cached1 resolved1, of spanIds] and run2 = resolved_previews [OF cls cached2 resolved2, of spanIds]
  show ?thesis
  proof (cases "needs = []")
    case True
    then show ?thesis using run run1 run2 by simp
  next
    case False
    have none: "cached_render env (read_at c1) projectId m s = None" for s using cold by (simp add: cached_render_def)
    have un1: "un1 = needs" using apply_cached(2) [OF cached1] none by simp
    have live1: "live (read_at c2) m1 = live (read_at c2) m" using apply_cached(3) [OF cached1 none later(1)] .
    obtain res un sv where gen: "generateKeysViaLlm env needs = (res, un, sv)" by (rule prod_cases3)
    have "m' = m2" using run run1 False by simp
    then have m': "m' = saveRenderingKeys (save_at c1) projectId sv m1"
      using resolved1 False gen un1 by (simp add: resolve_uncached_def)
    have "cached_template (read_at c2) projectId m1 f = None" for f
      using cached_template_gone [OF later(1)] cold by (simp add: cached_template_def live1)
    note template = saved_generation [OF gen later(2) this, folded m']
    have render: "cached_render env (read_at c2) projectId m' s = generated_render env needs s" if "s \<in> set needs" for s
      using that by (auto simp: cached_render_def template generated_render_def)
    have "value_at kr1 s = value_at kr2 s" if s: "s \<in> set needs" for s
      using pipeline_values [OF distinct cached1 resolved1 s] pipeline_values [OF distinct cached2 resolved2 s]
      by (simp add: pipeline_value_def none un1 render [OF s] split: option.split)
    then have "assembleFinalPreviews kr1 needs = assembleFinalPreviews kr2 needs" by (rule assemble_cong)
    then show ?thesis using run run1 run2 False by simp
  qed
qed

context zod begin

lemma known_providers: "registry (PROVIDERS safeParse parse)"
  by (rule known.registry_axioms)

end

lemma previews_total:
  assumes "registry (pe_providers env)"
  shows "\<exists>pv m'. resolvePreviews env clock raws spanIds types projectId skip ai m = Some (pv, m') \<and> set spanIds \<subseteq> dom pv"
proof -
  obtain classified needs where cls: "classifyRawSpans env raws types = Some (classified, needs)"
    using classification_returns [OF assms] by fastforce
  obtain res un m1 where cached: "applyCachedKeys env clock projectId needs m = (res, un, m1)" by (rule prod_cases3)
  obtain kr m2 where resolved: "resolve_uncached env clock projectId (\<not> skip \<and> ai) un res m1 = (kr, m2)" by fastforce
  have "set spanIds \<subseteq> dom (fillMissing pv spanIds)" for pv by (auto simp: fill_missing dom_def)
  then show ?thesis using resolved_previews [OF cls cached resolved, of spanIds] by (cases "needs = []") auto
qed

text \<open>
  Claim C33. A request for previews is always answered, whatever the payloads, the cache and the language model: no
  provider throws, and every span that was asked for has an entry, null when nothing could be shown.
\<close>
theorem previews_are_complete:
  assumes "zod sp" "pe_providers env = PROVIDERS sp (run_parser (pe_parser env))"
  shows "\<exists>pv m'. resolvePreviews env clock raws spanIds types projectId skip ai m = Some (pv, m') \<and> set spanIds \<subseteq> dom pv"
  by (rule previews_total) (simp add: assms(2) zod.known_providers [OF assms(1)])

section \<open>A concrete request\<close>

definition title_text :: string where "title_text = ''#title=hi''"

definition title_env :: "adapter list \<Rightarrow> preview_env" where
  "title_env providers =
     \<lparr>pe_providers = providers,
      pe_parser = table_parser [(title_text, JObj [(''title'', JStr ''hi'')]), (''[#t]'', JArr [JStr ''t''])],
      pe_stringify = (\<lambda>v. []), pe_text = (\<lambda>v. []),
      pe_render = (\<lambda>key v. if key = ''t'' then Some ''HI'' else None), pe_dots = ''...'', pe_llm = (\<lambda>prompt. Some ''[#t]'')\<rparr>"

definition at_time :: "number \<Rightarrow> cache_times" where
  "at_time t = \<lparr>read_at = t, refresh_at = t, save_at = t\<rparr>"

lemma run_table:
  "run_parser (table_parser t) s = (case map_of t s of None \<Rightarrow> None | Some v \<Rightarrow> if text_size v < length s then Some v else None)"
  by (simp add: table_parser.rep_eq)

definition title_spans :: "raw_span list" where
  "title_spans = [\<lparr>raw_id = ''a'', raw_data = JStr title_text, raw_name = ''run''\<rparr>]"

lemma title_run:
  "map_option (\<lambda>r. (fst r ''a'', map fst (snd r)))
     (resolvePreviews (title_env []) (at_time 1) title_spans [''a''] [''a'' \<mapsto> ''LLM''] ''p'' False True [])
   = Some (Some (Some ''HI''), [''span_rendering_key:p:run:{title:string}''])"
  by code_simp

theorem warm_cache_repeats_previews_witness:
  "\<exists>pv m' m''. resolvePreviews (title_env []) (at_time 1) title_spans [''a''] [''a'' \<mapsto> ''LLM''] ''p'' False True [] = Some (pv, m')
     \<and> pv ''a'' = Some (Some ''HI'')
     \<and> resolvePreviews (title_env []) (at_time 1000) title_spans [''a''] [''a'' \<mapsto> ''LLM''] ''p'' True False m' = Some (pv, m'')"
proof -
  obtain pv m' where run: "resolvePreviews (title_env []) (at_time 1) title_spans [''a''] [''a'' \<mapsto> ''LLM''] ''p'' False True [] = Some (pv, m')"
    and shown: "pv ''a'' = Some (Some ''HI'')"
    using title_run by auto
  have ids: "distinct (map raw_id title_spans)" "\<forall>raw\<in>set title_spans. CHR ''#'' \<notin> set (raw_id raw)"
    by (simp_all add: title_spans_def)
  have cold: "\<forall>f. cached_template (read_at (at_time 1)) ''p'' [] f = None" by (simp add: cached_template_def live_def)
  have later: "read_at (at_time 1) \<le> read_at (at_time 1000)"
    "read_at (at_time 1000) \<le> save_at (at_time 1) + RENDERING_KEY_TTL_SECONDS * 1000"
    by (simp_all add: at_time_def RENDERING_KEY_TTL_SECONDS_def)
  show ?thesis using run shown warm_cache_repeats_previews [OF ids cold run later, of False] by blast
qed

theorem previews_are_complete_witness:
  "\<exists>pv m'. resolvePreviews (title_env (PROVIDERS zod_parse (run_parser (pe_parser (title_env []))))) (at_time 1) title_spans
     [''a'', ''b''] [''a'' \<mapsto> ''LLM''] ''p'' False True [] = Some (pv, m') \<and> {''a'', ''b''} \<subseteq> dom pv"
proof -
  let ?env = "title_env (PROVIDERS zod_parse (run_parser (pe_parser (title_env []))))"
  have "pe_providers ?env = PROVIDERS zod_parse (run_parser (pe_parser ?env))" by (simp add: title_env_def)
  from previews_are_complete [OF zod_lib.zod_axioms this, of "at_time 1" title_spans "[''a'', ''b'']" "[''a'' \<mapsto> ''LLM'']" "''p''" False True "[]"]
  show ?thesis by simp
qed

end
