(* ===== verification/UserInputs.thy ===== *)
theory UserInputs
  imports PreviewPipeline
begin

text \<open>
  The text a user typed, without the scaffolding around it: \<open>lib/actions/sessions/extract-input.ts\<close>. The traces of a
  group, which share a system prompt and the outline of the message, are cut with one regular expression, taken from the
  cache or asked of a language model. The engine of regular expressions and the model are parameters, the cache is the
  memory branch of \<open>lib/cache.ts\<close>; the two patterns the code itself contains are written out as matchers.
\<close>

section \<open>Parts of a message\<close>

text \<open>\<open>joinUserParts\<close>: an empty text counts as none.\<close>

definition joinUserParts :: "string list \<Rightarrow> string option" where
  "joinUserParts parts =
     (if parts = [] then None
      else let joined = trim (join newline parts) in if 0 < length joined then Some joined else None)"

section \<open>Outlines\<close>

definition is_letter :: "char \<Rightarrow> bool" where
  "is_letter c = (char_between (CHR ''a'') (CHR ''z'') c \<or> char_between (CHR ''A'') (CHR ''Z'') c)"

definition is_name_char :: "char \<Rightarrow> bool" where
  "is_name_char c = (is_word c \<or> c = CHR ''-'')"

text \<open>\<open>/^\s*<([a-z][a-z0-9_-]*)[\s>][\s\S]*<\/\1>\s*$/i\<close>: the name is the longest run, since the character after it is
  none a name may have.\<close>

definition looksLikeScaffolding :: "string \<Rightarrow> bool" where
  "looksLikeScaffolding s =
     (let t = trim s; name = takeWhile is_name_char (tl t); rest = drop (length name) (tl t);
          closing = ''</'' @ to_lower name @ ''>'' in
      t \<noteq> [] \<and> hd t = CHR ''<'' \<and> name \<noteq> [] \<and> is_letter (hd name) \<and>
      rest \<noteq> [] \<and> (is_space (hd rest) \<or> hd rest = CHR ''>'') \<and> ends_with closing (to_lower (tl rest)))"

text \<open>\<open>\b\<close> between a character and the next, if there is one.\<close>

definition word_boundary :: "char \<Rightarrow> string \<Rightarrow> bool" where
  "word_boundary c rest = (is_word c \<noteq> (case rest of [] \<Rightarrow> False | d # _ \<Rightarrow> is_word d))"

text \<open>The end of a closing tag \<open><\/name\s*>\<close> at the front of a text, and the text after the first one.\<close>

definition after_closing_here :: "string \<Rightarrow> string \<Rightarrow> string option" where
  "after_closing_here name s =
     (if starts_with (''</'' @ name) s then
        (case dropWhile is_space (drop (length name + 2) s) of
           [] \<Rightarrow> None
         | c # rest \<Rightarrow> if c = CHR ''>'' then Some rest else None)
      else None)"

fun after_closing :: "string \<Rightarrow> string \<Rightarrow> string option" where
  "after_closing name [] = None"
| "after_closing name (c # s) =
     (case after_closing_here name (c # s) of Some rest \<Rightarrow> Some rest | None \<Rightarrow> after_closing name s)"

text \<open>\<open>/<([a-zA-Z_][\w-]*)\b[^>]*>([\s\S]*?)<\/\1\s*>/\<close> at the front of a text, the name of a given length first and
  shorter ones when the rest does not match. The result is the name and the text after the match.\<close>

definition match_name :: "string \<Rightarrow> nat \<Rightarrow> (string \<times> string) option" where
  "match_name s n =
     (let name = take n s; rest = drop n s in
      if n = 0 \<or> \<not> word_boundary (last name) rest then None
      else (case dropWhile (\<lambda>c. c \<noteq> CHR ''>'') rest of
              [] \<Rightarrow> None
            | _ # content \<Rightarrow> map_option (\<lambda>after_match. (name, after_match)) (after_closing name content)))"

fun match_names :: "string \<Rightarrow> nat \<Rightarrow> (string \<times> string) option" where
  "match_names s 0 = None"
| "match_names s (Suc n) = (case match_name s (Suc n) of Some r \<Rightarrow> Some r | None \<Rightarrow> match_names s n)"

definition match_here :: "string \<Rightarrow> (string \<times> string) option" where
  "match_here s = (case s of
     [] \<Rightarrow> None
   | c # t \<Rightarrow>
       if c = CHR ''<'' \<and> t \<noteq> [] \<and> (is_letter (hd t) \<or> hd t = CHR ''_'')
       then match_names t (length (takeWhile is_name_char t)) else None)"

text \<open>\<open>TOP_LEVEL_TAG.exec(rest)\<close>: the text before the first match, the name and the text after.\<close>

fun match_tag :: "string \<Rightarrow> (string \<times> string \<times> string) option" where
  "match_tag [] = None"
| "match_tag (c # s) = (case match_here (c # s) of
     Some (name, after_match) \<Rightarrow> Some ([], name, after_match)
   | None \<Rightarrow> map_option (\<lambda>(text_before, r). (c # text_before, r)) (match_tag s))"

lemma after_closing_shorter: "after_closing name s = Some r \<Longrightarrow> length r < length s"
proof (induction name s rule: after_closing.induct)
  case (2 name c s)
  have "length r < length (c # s)" if here: "after_closing_here name (c # s) = Some r"
  proof -
    obtain d where "dropWhile is_space (drop (length name + 2) (c # s)) = d # r"
      using here by (cases "dropWhile is_space (drop (length name + 2) (c # s))")
        (auto simp only: after_closing_here_def list.case option.inject split: if_splits)
    then have "Suc (length r) \<le> length (drop (length name + 2) (c # s))" by (metis length_Cons length_dropWhile_le)
    then show ?thesis by simp
  qed
  then show ?case using 2 by (auto split: option.splits)
qed simp

lemma match_names_shorter: "match_names s n = Some (name, r) \<Longrightarrow> length r < length s"
proof (induction n)
  case (Suc n)
  have "length r < length s" if m: "match_name s (Suc n) = Some (name, r)"
  proof -
    obtain d content where "dropWhile (\<lambda>c. c \<noteq> CHR ''>'') (drop (Suc n) s) = d # content" "after_closing (take (Suc n) s) content = Some r"
      using m by (auto simp: match_name_def Let_def split: if_splits list.splits)
    then have "length content < length s"
      by (metis length_Cons length_dropWhile_le length_drop diff_le_self le_trans less_eq_Suc_le)
    then show ?thesis using after_closing_shorter \<open>after_closing (take (Suc n) s) content = Some r\<close> by fastforce
  qed
  then show ?case using Suc by (auto split: option.splits)
qed simp

lemma match_tag_shorter: "match_tag s = Some (pre, name, r) \<Longrightarrow> length r < length s"
proof (induction s arbitrary: pre)
  case (Cons c s)
  show ?case
  proof (cases "match_here (c # s)")
    case None
    then show ?thesis using Cons by auto
  next
    case (Some nr)
    then have "match_names s (length (takeWhile is_name_char s)) = Some (name, r)"
      using Cons.prems by (auto simp: match_here_def split: if_splits prod.splits)
    then show ?thesis using match_names_shorter by fastforce
  qed
qed simp

function message_parts :: "string \<Rightarrow> string list" where
  "message_parts rest =
     (if rest = [] then []
      else case match_tag rest of
        None \<Rightarrow> (if 0 < length (trim rest) then [''plain''] else [])
      | Some (text_before, name, after_match) \<Rightarrow>
          (if 0 < length (trim text_before) then [''plain''] else []) @
          [to_lower name, ''/'' @ to_lower name] @ message_parts after_match)"
  by pat_completeness auto

termination
  by (relation "measure length") (auto dest: match_tag_shorter)

declare message_parts.simps [simp del]

definition fingerprintUserMessage :: "string \<Rightarrow> string" where
  "fingerprintUserMessage input =
     (let parts = message_parts input;
          deduped = map (nth parts) (filter (\<lambda>i. \<not> (parts ! i = ''plain'' \<and> 0 < i \<and> parts ! (i - 1) = ''plain'')) [0..<length parts])
      in if deduped \<noteq> [] then join '','' deduped else ''plain'')"

text \<open>A fingerprint has no colon: cache keys can be told apart.\<close>

lemma match_names_take: "match_names s n = Some (name, r) \<Longrightarrow> \<exists>k\<le>n. name = take k s"
proof (induction n)
  case (Suc n)
  show ?case
  proof (cases "match_name s (Suc n)")
    case None
    then show ?thesis using Suc le_SucI by fastforce
  next
    case (Some q)
    then show ?thesis using Suc.prems
      by (intro exI [of _ "Suc n"]) (auto simp: match_name_def Let_def split: if_splits list.splits)
  qed
qed simp

lemma match_tag_name: "match_tag s = Some (pre, name, r) \<Longrightarrow> list_all is_name_char name"
proof (induction s arbitrary: pre)
  case (Cons c s)
  show ?case
  proof (cases "match_here (c # s)")
    case None
    then show ?thesis using Cons by auto
  next
    case (Some nr)
    then have "match_names s (length (takeWhile is_name_char s)) = Some (name, r)"
      using Cons.prems by (auto simp: match_here_def split: if_splits prod.splits)
    then obtain k where "k \<le> length (takeWhile is_name_char s)" "name = take k s" using match_names_take by blast
    then have "name = take k (takeWhile is_name_char s)" by (metis takeWhile_eq_take take_take min.absorb1)
    then show ?thesis by (auto simp: list_all_iff dest: in_set_takeD set_takeWhileD)
  qed
qed simp

lemma no_colon_lower: "is_name_char c \<Longrightarrow> lower_char c \<noteq> CHR '':''"
proof
  assume c: "is_name_char c" "lower_char c = CHR '':''"
  have not_name: "\<not> is_name_char (CHR '':'')" by code_simp
  show False
  proof (cases "lower_char c = c")
    case True
    then show ?thesis using c not_name by simp
  next
    case False
    then have up: "lower_char c = char_of ((of_char c :: nat) + 32)" "65 \<le> (of_char c :: nat)" "(of_char c :: nat) \<le> 222"
      by (auto simp: lower_char_def char_between_def split: if_splits)
    from up(1) have "(of_char (lower_char c) :: nat) = (of_char c + 32) mod 256" by simp
    then show False using up(2,3) c(2) by simp
  qed
qed

lemma message_parts_colon: "p \<in> set (message_parts s) \<Longrightarrow> CHR '':'' \<notin> set p"
proof (induction s arbitrary: p rule: message_parts.induct)
  case (1 s)
  show ?case
  proof (cases "match_tag s")
    case None
    then show ?thesis using "1.prems" by (subst (asm) message_parts.simps) (auto split: if_splits)
  next
    case (Some q)
    obtain pre name r where q: "q = (pre, name, r)" by (cases q)
    have name: "CHR '':'' \<notin> set (to_lower name)"
      using match_tag_name [OF Some [unfolded q]] no_colon_lower unfolding to_lower_def list_all_iff set_map by force
    have "p \<in> {''plain'', to_lower name, ''/'' @ to_lower name} \<union> set (message_parts r)"
      using "1.prems" by (subst (asm) message_parts.simps) (auto simp: Some q split: if_splits)
    moreover have "s \<noteq> []" using Some by auto
    ultimately show ?thesis using name "1.IH" Some q by auto
  qed
qed

lemma join_colon: "CHR '':'' \<notin> set sep \<Longrightarrow> \<forall>p\<in>set ps. CHR '':'' \<notin> set p \<Longrightarrow> CHR '':'' \<notin> set (join sep ps)"
  by (induction sep ps rule: join.induct) auto

lemma fingerprint_colon: "CHR '':'' \<notin> set (fingerprintUserMessage s)"
proof -
  have "CHR '':'' \<notin> set (join '','' (map (nth (message_parts s)) (filter P [0..<length (message_parts s)])))" for P
    by (rule join_colon) (auto dest: message_parts_colon [OF nth_mem])
  then show ?thesis by (simp add: fingerprintUserMessage_def Let_def)
qed

section \<open>The request to the model\<close>

text \<open>What the extraction is given: the engine of regular expressions (flags, pattern and text; \<open>None\<close> when the pattern
  is refused, \<open>Some None\<close> without a match, else the first group, which may be unset), the language model (\<open>None\<close>
  when the call fails or the answer has no pattern) and the dash of the headings, a character outside the first 256.\<close>

record extraction_env =
  x_exec :: "string \<Rightarrow> string \<Rightarrow> string \<Rightarrow> string option option option"
  x_llm :: "string \<Rightarrow> string option"
  x_dash :: string

definition blank_line :: string where "blank_line = newline @ newline"

definition part_heading :: "nat \<Rightarrow> string \<Rightarrow> string \<Rightarrow> string" where
  "part_heading i note_text text_of = ''[Part '' @ show_nat (i + 1) @ note_text @ '']'' @ newline @ text_of"

definition plain_parts :: "string list \<Rightarrow> string" where
  "plain_parts parts = join blank_line (map (\<lambda>i. part_heading i [] (parts ! i)) [0..<length parts])"

definition buildSingleSampleInput :: "string \<Rightarrow> string list \<Rightarrow> string" where
  "buildSingleSampleInput dash parts =
     (if length parts = 1 then hd parts
      else let scaffolding = filter (\<lambda>i. looksLikeScaffolding (parts ! i)) [0..<length parts] in
        if length scaffolding = 0 then plain_parts parts
        else if length scaffolding = length parts then plain_parts parts
        else join blank_line
          ([''== SCAFFOLDING PARTS (system-injected context, skip these) ==''] @
           map (\<lambda>i. part_heading i ('' '' @ dash @ '' scaffolding'') (parts ! i)) scaffolding @
           [''== USER REQUEST (the actual user input to capture) ==''] @
           map (\<lambda>i. part_heading i [] (parts ! i)) (filter (\<lambda>i. i \<notin> set scaffolding) [0..<length parts])))"

definition texts_at :: "string list list \<Rightarrow> nat \<Rightarrow> string list" where
  "texts_at allParts i = map (\<lambda>parts. parts ! i) (filter (\<lambda>parts. i < length parts) allParts)"

definition shared_at :: "string list list \<Rightarrow> nat \<Rightarrow> bool" where
  "shared_at allParts i = (length (texts_at allParts i) = length allParts \<and>
     list_all (\<lambda>t. t = hd (texts_at allParts i)) (texts_at allParts i))"

definition scaffolding_at :: "string list list \<Rightarrow> nat \<Rightarrow> bool" where
  "scaffolding_at allParts i = (\<not> shared_at allParts i \<and> list_all looksLikeScaffolding (texts_at allParts i))"

definition sample_sections :: "string list list \<Rightarrow> nat list \<Rightarrow> string \<Rightarrow> nat \<Rightarrow> string list" where
  "sample_sections allParts skipIndices dash n =
     (let parts = allParts ! n; uniqueParts = filter (\<lambda>i. i \<notin> set skipIndices) [0..<length parts] in
      if length uniqueParts = 0 then []
      else (''== SAMPLE '' @ show_nat (n + 1) @ '' (unique parts '' @ dash @ '' this is the actual user request) =='') #
        map (\<lambda>i. part_heading i [] (parts ! i)) uniqueParts)"

definition buildMultiSampleInput :: "string \<Rightarrow> string list list \<Rightarrow> string" where
  "buildMultiSampleInput dash allParts =
     (let maxParts = foldr max (map length allParts) 0;
          shared = filter (shared_at allParts) [0..<maxParts];
          scaffolding = filter (scaffolding_at allParts) [0..<maxParts];
          context_sections =
            (if 0 < length shared \<or> 0 < length scaffolding then
               [''== SHARED / SCAFFOLDING PARTS (system-injected context, skip these) ==''] @
               map (\<lambda>i. part_heading i ('' '' @ dash @ '' shared'') (hd (texts_at allParts i))) shared @
               concat (map (\<lambda>i. case List.find (\<lambda>parts. i < length parts) allParts of
                   None \<Rightarrow> []
                 | Some sample \<Rightarrow> [part_heading i ('' '' @ dash @ '' scaffolding (varies per trace but is system context)'') (sample ! i)])
                 scaffolding)
             else [])
      in join blank_line (context_sections @
           concat (map (sample_sections allParts (shared @ scaffolding) dash) [0..<length allParts])))"

definition buildDeduplicatedLLMInput :: "string \<Rightarrow> string list list \<Rightarrow> string" where
  "buildDeduplicatedLLMInput dash allParts =
     (if length allParts = 1 then buildSingleSampleInput dash (hd allParts) else buildMultiSampleInput dash allParts)"

text \<open>\<open>generateExtractionRegex\<close> of \<open>lib/actions/sessions/prompts.ts\<close>.\<close>

definition generateExtractionRegex :: "extraction_env \<Rightarrow> string \<Rightarrow> string option" where
  "generateExtractionRegex env userMessage = (case x_llm env userMessage of
     None \<Rightarrow> None
   | Some regex \<Rightarrow> let t = trim regex in if t = [] then None else Some t)"

section \<open>Applying a pattern\<close>

datatype regex_result = Extracted string | NoUserRequest | NoMatch

definition applyRegex :: "extraction_env \<Rightarrow> string \<Rightarrow> string \<Rightarrow> regex_result" where
  "applyRegex env pattern text_in =
     (let dotall = starts_with ''(?s)'' pattern;
          flags = (if dotall then ''s'' else []);
          cleanPattern = (if dotall then drop 4 pattern else pattern) in
      case x_exec env flags cleanPattern text_in of
        Some (Some (Some g)) \<Rightarrow> let extracted = trim g in if 0 < length extracted then Extracted extracted else NoUserRequest
      | _ \<Rightarrow> NoMatch)"

record trace_input =
  ti_trace :: string
  ti_output :: "string option"
  ti_outputSpanId :: "string option"
  ti_parsed :: "parsed_input option"
  ti_promptHash :: "string option"

record trace_result =
  inputPreview :: "string option"
  outputPreview :: "string option"
  outputSpan :: "json option"

type_synonym trace_results = "string \<rightharpoonup> trace_result"

definition user_parts :: "trace_input \<Rightarrow> string list" where
  "user_parts t = (case ti_parsed t of None \<Rightarrow> [] | Some p \<Rightarrow> userParts p)"

definition joined_text :: "trace_input \<Rightarrow> string option" where
  "joined_text t = joinUserParts (user_parts t)"

definition result_of :: "trace_input \<Rightarrow> string option \<Rightarrow> trace_result" where
  "result_of t preview = \<lparr>inputPreview = preview, outputPreview = ti_output t, outputSpan = None\<rparr>"

section \<open>The cached pattern\<close>

definition REGEX_TTL_SECONDS :: number where
  "REGEX_TTL_SECONDS = 7 * 24 * 60 * 60"

definition BATCH_SIZE :: nat where "BATCH_SIZE = 10"

definition regex_cache_key :: "string \<Rightarrow> string \<Rightarrow> string \<Rightarrow> string" where
  "regex_cache_key projectId systemHash fingerprint =
     ''trace_input_regex:'' @ projectId @ '':'' @ systemHash @ '':'' @ fingerprint"

text \<open>The loop over the traces stops at the first that does not match; then nothing of it is kept.\<close>

fun stage_results :: "extraction_env \<Rightarrow> string \<Rightarrow> trace_input list \<Rightarrow> trace_results \<Rightarrow> trace_results option" where
  "stage_results env regex [] staged = Some staged"
| "stage_results env regex (t # ts) staged =
     (case joined_text t of
        None \<Rightarrow> stage_results env regex ts (staged(ti_trace t \<mapsto> result_of t None))
      | Some joined \<Rightarrow> (case applyRegex env regex joined of
            Extracted s \<Rightarrow> stage_results env regex ts (staged(ti_trace t \<mapsto> result_of t (Some s)))
          | NoUserRequest \<Rightarrow> stage_results env regex ts (staged(ti_trace t \<mapsto> result_of t None))
          | NoMatch \<Rightarrow> None))"

datatype cache_state = CacheMiss | CacheHit | CacheStale

definition tryCachedRegex ::
  "extraction_env \<Rightarrow> cache_times \<Rightarrow> string \<Rightarrow> trace_input list \<Rightarrow> trace_results \<Rightarrow> memory_cache \<Rightarrow>
   cache_state \<times> trace_results \<times> memory_cache" where
  "tryCachedRegex env clock cacheKey traces results m =
     (let (cachedRegex, m1) = cache_get (read_at clock) cacheKey m in
      case (case cachedRegex of Some (JStr r) \<Rightarrow> if r \<noteq> [] then Some r else None | _ \<Rightarrow> None) of
        None \<Rightarrow> (CacheMiss, results, m1)
      | Some regex \<Rightarrow> (case stage_results env regex traces Map.empty of
            Some staged \<Rightarrow> (CacheHit, results ++ staged, snd (cache_expire (refresh_at clock) cacheKey REGEX_TTL_SECONDS m1))
          | None \<Rightarrow> (CacheStale, results, cache_remove cacheKey m1)))"

section \<open>A new pattern\<close>

definition joined_results :: "trace_input list \<Rightarrow> trace_results \<Rightarrow> trace_results" where
  "joined_results traces results = foldl (\<lambda>r t. r(ti_trace t \<mapsto> result_of t (joined_text t))) results traces"

definition missing_results :: "trace_input list \<Rightarrow> trace_results \<Rightarrow> trace_results" where
  "missing_results traces results =
     foldl (\<lambda>r t. if r (ti_trace t) \<noteq> None then r else r(ti_trace t \<mapsto> result_of t (joined_text t))) results traces"

definition apply_step :: "extraction_env \<Rightarrow> string \<Rightarrow> trace_input \<Rightarrow> trace_results \<times> bool \<Rightarrow> trace_results \<times> bool" where
  "apply_step env regex t st =
     (case joined_text t of
        None \<Rightarrow> ((fst st)(ti_trace t \<mapsto> result_of t None), snd st)
      | Some joined \<Rightarrow> (case applyRegex env regex joined of
            Extracted s \<Rightarrow> ((fst st)(ti_trace t \<mapsto> result_of t (Some s)), True)
          | NoUserRequest \<Rightarrow> ((fst st)(ti_trace t \<mapsto> result_of t None), True)
          | NoMatch \<Rightarrow> ((fst st)(ti_trace t \<mapsto> result_of t (Some joined)), snd st)))"

definition persistRegex :: "number \<Rightarrow> string \<Rightarrow> string \<Rightarrow> memory_cache \<Rightarrow> memory_cache" where
  "persistRegex now cacheKey regex m =
     cache_set now cacheKey (JStr regex) \<lparr>expireAfterSeconds = Some REGEX_TTL_SECONDS, expireAt = None\<rparr> m"

definition runRegexExtraction ::
  "extraction_env \<Rightarrow> cache_times \<Rightarrow> string \<Rightarrow> trace_input list \<Rightarrow> trace_input list \<Rightarrow> trace_results \<Rightarrow> memory_cache \<Rightarrow>
   trace_results \<times> memory_cache" where
  "runRegexExtraction env clock cacheKey traces samples results m =
     (case generateExtractionRegex env (buildDeduplicatedLLMInput (x_dash env) (map user_parts samples)) of
        None \<Rightarrow> (missing_results traces results, m)
      | Some regex \<Rightarrow>
          (let (results', anyMatch) = foldl (\<lambda>st t. apply_step env regex t st) (results, False) traces
           in (results', if anyMatch then persistRegex (save_at clock) cacheKey regex m else m)))"

definition extractInputsForGroup ::
  "extraction_env \<Rightarrow> cache_times \<Rightarrow> string \<Rightarrow> string \<Rightarrow> trace_input list \<Rightarrow> trace_results \<Rightarrow> string \<Rightarrow> memory_cache \<Rightarrow>
   trace_results \<times> memory_cache" where
  "extractInputsForGroup env clock systemHash projectId traces results fingerprint m =
     (let cacheKey = regex_cache_key projectId systemHash fingerprint;
          (cacheState, results1, m1) = tryCachedRegex env clock cacheKey traces results m in
      if cacheState = CacheHit then (results1, m1)
      else let samples = filter (\<lambda>t. user_parts t \<noteq> []) (take BATCH_SIZE traces) in
        if length samples = 0 then (joined_results traces results1, m1)
        else runRegexExtraction env clock cacheKey traces samples results1 m1)"

section \<open>One pattern per group\<close>

text \<open>What a pattern makes of a trace.\<close>

definition extracted_text :: "extraction_env \<Rightarrow> string \<Rightarrow> trace_input \<Rightarrow> string option" where
  "extracted_text env regex t = (case joined_text t of
     None \<Rightarrow> None
   | Some joined \<Rightarrow> (case applyRegex env regex joined of
         Extracted s \<Rightarrow> Some s | NoUserRequest \<Rightarrow> None | NoMatch \<Rightarrow> Some joined))"

definition matches_all :: "extraction_env \<Rightarrow> string \<Rightarrow> trace_input list \<Rightarrow> bool" where
  "matches_all env regex traces = list_all (\<lambda>t. case joined_text t of
     None \<Rightarrow> True | Some joined \<Rightarrow> applyRegex env regex joined \<noteq> NoMatch) traces"

definition write_results :: "(trace_input \<Rightarrow> string option) \<Rightarrow> trace_input list \<Rightarrow> trace_results \<Rightarrow> trace_results" where
  "write_results pick traces results = foldl (\<lambda>r t. r(ti_trace t \<mapsto> result_of t (pick t))) results traces"

lemma write_results_simps [simp]:
  "write_results pick [] r = r"
  "write_results pick (t # ts) r = write_results pick ts (r(ti_trace t \<mapsto> result_of t (pick t)))"
  by (simp_all add: write_results_def)

lemma write_results_other: "i \<notin> ti_trace ` set ts \<Longrightarrow> write_results pick ts r i = r i"
  by (induction ts arbitrary: r) auto

lemma write_results_at:
  "distinct (map ti_trace ts) \<Longrightarrow> t \<in> set ts \<Longrightarrow> write_results pick ts r (ti_trace t) = Some (result_of t (pick t))"
proof (induction ts arbitrary: r)
  case (Cons x ts)
  then show ?case by (cases "t = x") (auto simp: write_results_other)
qed simp

lemma write_results_add: "r ++ write_results pick ts s = write_results pick ts (r ++ s)"
  by (induction ts arbitrary: s) (simp_all add: map_add_upd)

lemma stage_results_eq:
  "stage_results env regex ts st = (if matches_all env regex ts then Some (write_results (extracted_text env regex) ts st) else None)"
  by (induction ts arbitrary: st) (auto simp: matches_all_def extracted_text_def split: option.splits regex_result.splits)

lemma apply_loop:
  "foldl (\<lambda>st t. apply_step env regex t st) (res, any) ts =
     (write_results (extracted_text env regex) ts res,
      any \<or> (\<exists>t\<in>set ts. \<exists>joined. joined_text t = Some joined \<and> applyRegex env regex joined \<noteq> NoMatch))"
  by (induction ts arbitrary: res any) (auto simp: apply_step_def extracted_text_def split: option.splits regex_result.splits)

lemma joined_loop: "joined_results ts r = write_results joined_text ts r"
  by (simp add: joined_results_def write_results_def)

lemma missing_loop:
  "distinct (map ti_trace ts) \<Longrightarrow> \<forall>t\<in>set ts. r (ti_trace t) = None \<Longrightarrow> missing_results ts r = write_results joined_text ts r"
  unfolding missing_results_def
proof (induction ts arbitrary: r)
  case (Cons t ts)
  have "\<forall>u\<in>set ts. (r(ti_trace t \<mapsto> result_of t (joined_text t))) (ti_trace u) = None"
    using Cons.prems by (auto simp: image_iff)
  then show ?case using Cons.IH Cons.prems by simp
qed simp

text \<open>The pattern in the cache.\<close>

definition cached_regex :: "number \<Rightarrow> string \<Rightarrow> memory_cache \<Rightarrow> string option" where
  "cached_regex now cacheKey m = (case map_option cvalue (live now m cacheKey) of
     Some (JStr r) \<Rightarrow> if r \<noteq> [] then Some r else None | _ \<Rightarrow> None)"

lemma try_cached:
  "tryCachedRegex env clock k traces results m =
     (let m1 = snd (cache_get (read_at clock) k m) in
      case cached_regex (read_at clock) k m of
        None \<Rightarrow> (CacheMiss, results, m1)
      | Some regex \<Rightarrow>
          (if matches_all env regex traces
           then (CacheHit, write_results (extracted_text env regex) traces results, snd (cache_expire (refresh_at clock) k REGEX_TTL_SECONDS m1))
           else (CacheStale, results, cache_remove k m1)))"
  using get_live [of "read_at clock" k m]
  by (cases "cache_get (read_at clock) k m")
    (auto simp: tryCachedRegex_def cached_regex_def stage_results_eq write_results_add Let_def split: option.splits json.splits)

text \<open>The pattern a group is cut with: the cached one when it matches every trace, else the one the language model answers
  for the first traces, if there are such and it has an answer.\<close>

definition new_regex :: "extraction_env \<Rightarrow> trace_input list \<Rightarrow> string option" where
  "new_regex env traces =
     (let samples = filter (\<lambda>t. user_parts t \<noteq> []) (take BATCH_SIZE traces) in
      if samples = [] then None
      else generateExtractionRegex env (buildDeduplicatedLLMInput (x_dash env) (map user_parts samples)))"

definition group_regex :: "extraction_env \<Rightarrow> cache_times \<Rightarrow> string \<Rightarrow> trace_input list \<Rightarrow> memory_cache \<Rightarrow> string option" where
  "group_regex env clock k traces m =
     (case cached_regex (read_at clock) k m of
        None \<Rightarrow> new_regex env traces
      | Some regex \<Rightarrow> if matches_all env regex traces then Some regex else new_regex env traces)"

definition pattern_text :: "extraction_env \<Rightarrow> string option \<Rightarrow> trace_input \<Rightarrow> string option" where
  "pattern_text x rx t = (case rx of None \<Rightarrow> joined_text t | Some regex \<Rightarrow> extracted_text x regex t)"

lemma pattern_text_simps [simp]:
  "pattern_text x None = joined_text" "pattern_text x (Some regex) = extracted_text x regex"
  by (simp_all add: pattern_text_def fun_eq_iff)

lemma extraction_result:
  assumes "distinct (map ti_trace traces)" "\<forall>t\<in>set traces. results (ti_trace t) = None"
  shows "fst (extractInputsForGroup env clock systemHash projectId traces results fp m) =
    write_results (pattern_text env (group_regex env clock (regex_cache_key projectId systemHash fp) traces m)) traces results"
  using missing_loop [OF assms]
  by (simp add: extractInputsForGroup_def try_cached Let_def runRegexExtraction_def joined_loop apply_loop group_regex_def
      new_regex_def split: option.split)

lemma extraction_writes:
  assumes "distinct (map ti_trace traces)" "\<forall>t\<in>set traces. results (ti_trace t) = None"
    and run: "extractInputsForGroup env clock systemHash projectId traces results fp m = (results', m')"
  shows "\<exists>rx. results' = write_results (pattern_text env rx) traces results"
  using extraction_result [OF assms(1,2), of env clock systemHash projectId fp m] by (auto simp: run)

text \<open>A group touches no other key of the cache.\<close>

lemma cache_other_key:
  "k \<noteq> k' \<Longrightarrow> map_of (snd (cache_get now k m)) k' = map_of m k'"
  "k \<noteq> k' \<Longrightarrow> map_of (cache_set now k v opt m) k' = map_of m k'"
  "k \<noteq> k' \<Longrightarrow> map_of (cache_remove k m) k' = map_of m k'"
  "k \<noteq> k' \<Longrightarrow> map_of (snd (cache_expire now k ttl m)) k' = map_of m k'"
  by (simp_all add: cache_get_def cache_set_def cache_remove_def cache_expire_def Let_def delete_conv' update_conv' split: option.split)

lemma extraction_other_key:
  assumes "k \<noteq> regex_cache_key projectId systemHash fp"
  shows "map_of (snd (extractInputsForGroup env clock systemHash projectId traces results fp m)) k = map_of m k"
  using assms
  by (simp add: extractInputsForGroup_def try_cached Let_def runRegexExtraction_def persistRegex_def cache_other_key apply_loop
      split: option.split)

lemma group_regex_cong: "map_of m k = map_of m' k \<Longrightarrow> group_regex env clock k traces m = group_regex env clock k traces m'"
  by (simp add: group_regex_def cached_regex_def live_def)

text \<open>
  A group of traces is cut with one pattern: either every trace gets the whole text of its own user message,
  or there is one pattern and every trace gets what it cuts out of its own message, nothing when the pattern says that
  there is no request, and the whole text when it does not match. Each keeps its own output, and no result of another
  trace changes.
\<close>
lemma group_uses_one_pattern:
  assumes "distinct (map ti_trace traces)" "\<forall>t\<in>set traces. results (ti_trace t) = None"
    and run: "extractInputsForGroup env clock systemHash projectId traces results fp m = (results', m')"
  shows "\<exists>rx. (\<forall>t\<in>set traces. results' (ti_trace t) = Some (result_of t (pattern_text env rx t)))
     \<and> (\<forall>i. i \<notin> ti_trace ` set traces \<longrightarrow> results' i = results i)"
proof -
  obtain rx where rx: "results' = write_results (pattern_text env rx) traces results"
    using extraction_writes [OF assms] by blast
  show ?thesis unfolding rx
    by (rule exI [of _ rx]) (simp add: write_results_at [OF assms(1)] write_results_other split: option.split)
qed

text \<open>A concrete engine: one pattern, that of a closing tag \<open>ctx\<close>.\<close>

definition ctx_engine :: "string \<Rightarrow> string \<Rightarrow> string \<Rightarrow> string option option option" where
  "ctx_engine flags pattern s =
     (if pattern = ''.*</ctx>(.*)'' then Some (map_option Some (after_closing ''ctx'' s)) else None)"

definition ctx_env :: "string option \<Rightarrow> extraction_env" where
  "ctx_env answer = \<lparr>x_exec = ctx_engine, x_llm = (\<lambda>prompt. answer), x_dash = ''-''\<rparr>"

definition ctx_trace :: "string \<Rightarrow> string \<Rightarrow> trace_input" where
  "ctx_trace i s = \<lparr>ti_trace = i, ti_output = Some ''done'', ti_outputSpanId = None,
     ti_parsed = Some \<lparr>systemText = None, userParts = [''<ctx>x</ctx>'', s]\<rparr>, ti_promptHash = Some ''h''\<rparr>"

definition ctx_regex :: string where "ctx_regex = ''(?s).*</ctx>(.*)''"

lemma ctx_answer: "generateExtractionRegex (ctx_env (Some ctx_regex)) input = Some ctx_regex"
proof -
  have "trim ctx_regex = ctx_regex" "ctx_regex \<noteq> []" by code_simp+
  then show ?thesis by (simp add: generateExtractionRegex_def ctx_env_def Let_def)
qed

theorem group_uses_one_pattern_witness:
  "\<exists>results' m'. extractInputsForGroup (ctx_env (Some ctx_regex)) (at_time 1) ''h'' ''p'' [ctx_trace ''a'' ''go''] Map.empty ''f'' [] = (results', m')
     \<and> map_option inputPreview (results' ''a'') = Some (Some ''go'') \<and> results' ''b'' = None"
proof -
  obtain results' m' where run:
    "extractInputsForGroup (ctx_env (Some ctx_regex)) (at_time 1) ''h'' ''p'' [ctx_trace ''a'' ''go''] Map.empty ''f'' [] = (results', m')"
    by fastforce
  have "map_option inputPreview (fst (extractInputsForGroup (ctx_env (Some ctx_regex)) (at_time 1) ''h'' ''p'' [ctx_trace ''a'' ''go''] Map.empty ''f'' []) ''a'')
      = Some (Some ''go'')"
    by code_simp
  moreover have "results' ''b'' = None"
    using group_uses_one_pattern [OF _ _ run] by (auto simp: ctx_trace_def)
  ultimately show ?thesis using run by auto
qed

text \<open>
  Claim C37. A pattern that matched every trace of a group stands for the language model: the same group within the
  lifetime of the pattern, seven days, gives the same results from the cache, whatever the model would answer.
\<close>
theorem pattern_is_reused:
  assumes cold: "cached_regex (read_at c1) (regex_cache_key projectId systemHash fp) m = None"
    and samples: "\<exists>t\<in>set (take BATCH_SIZE traces). user_parts t \<noteq> []"
    and answer: "generateExtractionRegex env (buildDeduplicatedLLMInput (x_dash env)
        (map user_parts (filter (\<lambda>t. user_parts t \<noteq> []) (take BATCH_SIZE traces)))) = Some regex"
    and matches: "matches_all env regex traces" "\<exists>t\<in>set traces. joined_text t \<noteq> None"
    and later: "read_at c2 \<le> save_at c1 + REGEX_TTL_SECONDS * 1000"
    and run: "extractInputsForGroup env c1 systemHash projectId traces results fp m = (results', m')"
  shows "\<exists>m''. extractInputsForGroup (env\<lparr>x_llm := other\<rparr>) c2 systemHash projectId traces results fp m' = (results', m'')"
proof -
  let ?k = "regex_cache_key projectId systemHash fp"
  have nonempty: "regex \<noteq> []" using answer by (auto simp: generateExtractionRegex_def Let_def split: option.splits if_splits)
  have some: "filter (\<lambda>t. user_parts t \<noteq> []) (take BATCH_SIZE traces) \<noteq> []"
    using samples by (simp add: filter_empty_conv)
  have any: "\<exists>t\<in>set traces. \<exists>joined. joined_text t = Some joined \<and> applyRegex env regex joined \<noteq> NoMatch"
    using matches by (fastforce simp: matches_all_def list_all_iff)
  have r: "results' = write_results (extracted_text env regex) traces results"
    and m: "m' = persistRegex (save_at c1) ?k regex (snd (cache_get (read_at c1) ?k m))"
    using run any by (simp_all add: extractInputsForGroup_def try_cached cold Let_def some runRegexExtraction_def answer apply_loop)
  have "cached_regex (read_at c2) ?k m' = Some regex"
    using later nonempty
    by (simp add: m persistRegex_def cached_regex_def cache_set_def Let_def live_update is_expired_def REGEX_TTL_SECONDS_def)
  moreover have same: "applyRegex (env\<lparr>x_llm := other\<rparr>) = applyRegex env" by (intro ext) (simp add: applyRegex_def)
  have "extracted_text (env\<lparr>x_llm := other\<rparr>) = extracted_text env" by (intro ext) (simp only: extracted_text_def same)
  moreover have "matches_all (env\<lparr>x_llm := other\<rparr>) = matches_all env" by (intro ext) (simp only: matches_all_def same)
  ultimately show ?thesis
    using matches(1) by (simp add: extractInputsForGroup_def try_cached Let_def r)
qed

theorem pattern_is_reused_witness:
  "\<exists>results' m' m''. extractInputsForGroup (ctx_env (Some ctx_regex)) (at_time 1) ''h'' ''p'' [ctx_trace ''a'' ''go''] Map.empty ''f'' [] = (results', m')
     \<and> extractInputsForGroup (ctx_env (Some ctx_regex)\<lparr>x_llm := \<lambda>prompt. None\<rparr>) (at_time 900) ''h'' ''p'' [ctx_trace ''a'' ''go''] Map.empty ''f'' m'
        = (results', m'')"
proof -
  obtain results' m' where run:
    "extractInputsForGroup (ctx_env (Some ctx_regex)) (at_time 1) ''h'' ''p'' [ctx_trace ''a'' ''go''] Map.empty ''f'' [] = (results', m')"
    by fastforce
  have cold: "cached_regex (read_at (at_time 1)) (regex_cache_key ''p'' ''h'' ''f'') [] = None" by (simp add: cached_regex_def live_def)
  have samples: "\<exists>t\<in>set (take BATCH_SIZE [ctx_trace ''a'' ''go'']). user_parts t \<noteq> []"
    by (simp add: BATCH_SIZE_def user_parts_def ctx_trace_def)
  have matches: "matches_all (ctx_env (Some ctx_regex)) ctx_regex [ctx_trace ''a'' ''go'']" by code_simp
  have joined: "\<exists>t\<in>set [ctx_trace ''a'' ''go'']. joined_text t \<noteq> None"
  proof -
    have "joined_text (ctx_trace ''a'' ''go'') \<noteq> None" by code_simp
    then show ?thesis by simp
  qed
  have later: "read_at (at_time 900) \<le> save_at (at_time 1) + REGEX_TTL_SECONDS * 1000" by (simp add: at_time_def REGEX_TTL_SECONDS_def)
  show ?thesis using run pattern_is_reused [OF cold samples ctx_answer matches joined later run, of "\<lambda>prompt. None"] by blast
qed

section \<open>Outlines of tagged messages\<close>

text \<open>A message made of tagged blocks, each after some text, and a last text. An opening tag may carry attributes, a
  closing tag white space.\<close>

record tag_block =
  leading_text :: string
  tag_is :: string
  attributes :: string
  inside :: string
  closing_space :: string

definition tagged :: "tag_block \<Rightarrow> string" where
  "tagged b = ''<'' @ tag_is b @ attributes b @ ''>'' @ inside b @ ''</'' @ tag_is b @ closing_space b @ ''>''"

fun tagged_message :: "tag_block list \<Rightarrow> string \<Rightarrow> string" where
  "tagged_message [] rest = rest"
| "tagged_message (b # blocks) rest = leading_text b @ tagged b @ tagged_message blocks rest"

definition plain_token :: "string \<Rightarrow> string list" where
  "plain_token s = (if 0 < length (trim s) then [''plain''] else [])"

fun outline :: "tag_block list \<Rightarrow> string \<Rightarrow> string list" where
  "outline [] rest = plain_token rest"
| "outline (b # blocks) rest =
     plain_token (leading_text b) @ [to_lower (tag_is b), ''/'' @ to_lower (tag_is b)] @ outline blocks rest"

text \<open>Text that opens no tag: a \<open><\<close> is never followed by a character a name starts with.\<close>

definition name_start :: "char \<Rightarrow> bool" where
  "name_start c = (is_letter c \<or> c = CHR ''_'')"

fun no_open :: "string \<Rightarrow> bool" where
  "no_open (c # d # s) = (\<not> (c = CHR ''<'' \<and> name_start d) \<and> no_open (d # s))"
| "no_open _ = True"

definition tag_name :: "string \<Rightarrow> bool" where
  "tag_name name = (name \<noteq> [] \<and> name_start (hd name) \<and> list_all is_name_char name \<and> is_word (last name))"

definition tag_attributes :: "string \<Rightarrow> bool" where
  "tag_attributes s = (CHR ''>'' \<notin> set s \<and> (s = [] \<or> \<not> is_name_char (hd s)))"

text \<open>A closing tag of the name somewhere in a text.\<close>

definition has_closing :: "string \<Rightarrow> string \<Rightarrow> bool" where
  "has_closing name s = (\<exists>a w b. list_all is_space w \<and> s = a @ ''</'' @ name @ w @ ''>'' @ b)"

text \<open>A block whose content may hold anything, other tags and text with \<open><\<close> included, but a closing tag of its name.\<close>

definition well_tagged :: "tag_block \<Rightarrow> bool" where
  "well_tagged b \<longleftrightarrow> no_open (leading_text b) \<and> tag_name (tag_is b) \<and> tag_attributes (attributes b) \<and>
     \<not> has_closing (tag_is b) (inside b) \<and> list_all is_space (closing_space b)"

lemma after_closing_here_iff:
  "after_closing_here name s = Some r \<longleftrightarrow> (\<exists>w. list_all is_space w \<and> s = ''</'' @ name @ w @ ''>'' @ r)"
proof
  assume a: "after_closing_here name s = Some r"
  let ?t = "drop (length name + 2) s"
  from a have p: "take (length name + 2) s = ''</'' @ name"
    by (auto simp: after_closing_here_def starts_with_def split: if_splits)
  from a have "dropWhile is_space ?t = CHR ''>'' # r"
    by (auto simp: after_closing_here_def split: if_splits list.splits)
  then have t: "?t = takeWhile is_space ?t @ CHR ''>'' # r" by (metis takeWhile_dropWhile_id)
  obtain w where w: "w = takeWhile is_space ?t" by simp
  have "s = take (length name + 2) s @ ?t" by (rule append_take_drop_id [symmetric])
  also have "\<dots> = (''</'' @ name) @ w @ CHR ''>'' # r" unfolding w by (rule arg_cong2 [OF p t])
  finally have "s = ''</'' @ name @ w @ ''>'' @ r" by simp
  moreover have "list_all is_space w" unfolding w by (auto simp: list_all_iff dest: set_takeWhileD)
  ultimately show "\<exists>w. list_all is_space w \<and> s = ''</'' @ name @ w @ ''>'' @ r" by blast
next
  assume "\<exists>w. list_all is_space w \<and> s = ''</'' @ name @ w @ ''>'' @ r"
  then obtain w where w: "list_all is_space w" "s = ''</'' @ name @ w @ ''>'' @ r" by blast
  have "\<not> is_space (CHR ''>'')" by code_simp
  moreover have "dropWhile is_space (w @ ''>'' @ r) = dropWhile is_space (''>'' @ r)"
    using w(1) by (intro dropWhile_append2) (auto simp: list_all_iff)
  ultimately show "after_closing_here name s = Some r"
    by (simp add: w(2) after_closing_here_def starts_with_def)
qed

lemma has_closing_Cons:
  "has_closing name (c # s) \<longleftrightarrow> after_closing_here name (c # s) \<noteq> None \<or> has_closing name s"
proof
  assume "has_closing name (c # s)"
  then obtain a w b where a: "list_all is_space w" "c # s = a @ ''</'' @ name @ w @ ''>'' @ b"
    by (auto simp: has_closing_def)
  then show "after_closing_here name (c # s) \<noteq> None \<or> has_closing name s"
  proof (cases a)
    case Nil
    with a have "after_closing_here name (c # s) = Some b" by (auto simp: after_closing_here_iff)
    then show ?thesis by simp
  next
    case (Cons d a')
    with a have "s = a' @ ''</'' @ name @ w @ ''>'' @ b" by simp
    with a(1) show ?thesis unfolding has_closing_def by blast
  qed
next
  assume "after_closing_here name (c # s) \<noteq> None \<or> has_closing name s"
  then consider r where "after_closing_here name (c # s) = Some r" | "has_closing name s" by blast
  then show "has_closing name (c # s)"
  proof cases
    case 1
    then obtain w where "list_all is_space w" "c # s = [] @ ''</'' @ name @ w @ ''>'' @ r"
      by (auto simp only: after_closing_here_iff append_Nil)
    then show ?thesis unfolding has_closing_def by blast
  next
    case 2
    then obtain a w b where "list_all is_space w" "c # s = (c # a) @ ''</'' @ name @ w @ ''>'' @ b"
      by (auto simp: has_closing_def)
    then show ?thesis unfolding has_closing_def by blast
  qed
qed

lemma after_closing_None: "after_closing name s = None \<longleftrightarrow> \<not> has_closing name s"
proof (induction s)
  case Nil
  show ?case by (simp add: has_closing_def)
next
  case (Cons c s)
  then show ?case by (simp add: has_closing_Cons split: option.splits)
qed

text \<open>The closing tag found is the one of the block: none of the content ends in it.\<close>

lemma closing_not_before:
  assumes "\<not> has_closing name s" "s \<noteq> []" "list_all is_name_char name"
  shows "after_closing_here name (s @ CHR ''<'' # u) = None"
proof (rule ccontr)
  assume "after_closing_here name (s @ CHR ''<'' # u) \<noteq> None"
  then obtain r where "after_closing_here name (s @ CHR ''<'' # u) = Some r" by blast
  then obtain w where w: "list_all is_space w" "s @ CHR ''<'' # u = (''</'' @ name @ w @ ''>'') @ r"
    by (auto simp: after_closing_here_iff)
  have no: "\<not> is_name_char (CHR ''<'')" "\<not> is_space (CHR ''<'')" by code_simp+
  then have inner: "CHR ''<'' \<notin> set (tl (''</'' @ name @ w @ ''>''))"
    using w(1) assms(3) by (auto simp: list_all_iff)
  from w(2) consider v where "s = (''</'' @ name @ w @ ''>'') @ v" "v @ CHR ''<'' # u = r"
    | v where "s @ v = ''</'' @ name @ w @ ''>''" "CHR ''<'' # u = v @ r" "v \<noteq> []"
    unfolding append_eq_append_conv2 by fastforce
  then show False
  proof cases
    case 1
    with w(1) have "has_closing name s" unfolding has_closing_def by (intro exI [of _ "[]"] exI [of _ w] exI [of _ v]) simp
    with assms(1) show False ..
  next
    case 2
    then have "hd v = CHR ''<''" by (metis hd_append2 list.sel(1))
    with 2(3) have "CHR ''<'' \<in> set v" by (metis hd_in_set)
    then have "CHR ''<'' \<in> set (tl (s @ v))" using assms(2) by simp
    with inner 2(1) show False by simp
  qed
qed

lemma closing_found:
  assumes "\<not> has_closing name content" "list_all is_name_char name" "list_all is_space w"
  shows "after_closing name (content @ ''</'' @ name @ w @ ''>'' @ rest) = Some rest"
  using assms(1)
proof (induction content)
  case Nil
  have "after_closing_here name (''</'' @ name @ w @ ''>'' @ rest) = Some rest"
    using assms(3) by (auto simp only: after_closing_here_iff)
  then show ?case by simp
next
  case (Cons c content)
  then have "\<not> has_closing name content" by (simp add: has_closing_Cons)
  moreover have "after_closing_here name ((c # content) @ ''</'' @ name @ w @ ''>'' @ rest) = None"
    using closing_not_before [OF Cons.prems _ assms(2)] by simp
  ultimately show ?case using Cons.IH by simp
qed

lemma match_tagged:
  assumes "well_tagged b"
  shows "match_here (tagged b @ rest) = Some (tag_is b, rest)"
proof -
  let ?content = "inside b @ ''</'' @ tag_is b @ closing_space b @ ''>'' @ rest"
  let ?r = "attributes b @ ''>'' @ ?content"
  have name: "tag_is b \<noteq> []" "name_start (hd (tag_is b))" "list_all is_name_char (tag_is b)" "is_word (last (tag_is b))"
    and attrs: "CHR ''>'' \<notin> set (attributes b)" "attributes b = [] \<or> \<not> is_name_char (hd (attributes b))"
    using assms by (auto simp: well_tagged_def tag_name_def tag_attributes_def)
  have stop: "\<not> is_name_char (CHR ''>'')" by code_simp
  then have r: "?r \<noteq> []" "\<not> is_name_char (hd ?r)" using attrs(2) by (auto simp: hd_append)
  then have word: "word_boundary (last (tag_is b)) ?r"
    using name(4) by (cases ?r) (auto simp: word_boundary_def is_name_char_def)
  have "takeWhile is_name_char (tag_is b @ ?r) = tag_is b"
    using name(3) r by (subst takeWhile_append2) (auto simp: list_all_iff takeWhile_eq_Nil_iff)
  moreover have "dropWhile (\<lambda>c. c \<noteq> CHR ''>'') ?r = CHR ''>'' # ?content"
    using attrs(1) by (subst dropWhile_append2) auto
  then have "match_name (tag_is b @ ?r) (length (tag_is b)) = Some (tag_is b, rest)"
    using name word closing_found [of "tag_is b" "inside b" "closing_space b" rest] assms
    by (simp add: match_name_def well_tagged_def Let_def)
  moreover obtain n where "length (tag_is b) = Suc n" using name(1) by (cases "tag_is b") auto
  ultimately have "match_names (tag_is b @ ?r) (length (takeWhile is_name_char (tag_is b @ ?r))) = Some (tag_is b, rest)"
    by simp
  then show ?thesis using name(1,2) by (simp add: match_here_def tagged_def name_start_def)
qed

lemma match_tag_skip:
  assumes "no_open b" "s = [] \<or> \<not> name_start (hd s)"
  shows "match_tag (b @ s) = map_option (\<lambda>(pre, r). (b @ pre, r)) (match_tag s)"
  using assms(1)
proof (induction b)
  case Nil
  then show ?case by (cases "match_tag s") auto
next
  case (Cons c b)
  then have "no_open b" by (cases b) auto
  moreover have "match_here ((c # b) @ s) = None"
    using Cons.prems assms(2) by (cases b) (auto simp: match_here_def name_start_def)
  ultimately show ?case using Cons.IH by (cases "match_tag s") (auto split: prod.splits)
qed

lemma match_tag_none: "no_open s \<Longrightarrow> match_tag s = None"
  using match_tag_skip [of s "[]"] by simp

lemma message_parts_outline:
  assumes "list_all well_tagged blocks" "no_open rest"
  shows "message_parts (tagged_message blocks rest) = outline blocks rest"
  using assms(1)
proof (induction blocks)
  case Nil
  then show ?case using match_tag_none [OF assms(2)]
    by (subst message_parts.simps) (auto simp: plain_token_def trim_def)
next
  case (Cons b blocks)
  then have rest: "list_all well_tagged blocks" and b: "well_tagged b" by simp_all
  let ?s = "tagged_message blocks rest"
  obtain t where t: "tagged b @ ?s = CHR ''<'' # t" by (simp add: tagged_def)
  have start: "\<not> name_start (CHR ''<'')" by code_simp
  have "match_tag (tagged b @ ?s) = Some ([], tag_is b, ?s)"
    using match_tagged [OF b, of ?s] unfolding t by simp
  then have "match_tag (leading_text b @ tagged b @ ?s) = Some (leading_text b, tag_is b, ?s)"
    using b start by (subst match_tag_skip) (simp_all add: well_tagged_def t)
  moreover have "leading_text b @ tagged b @ ?s \<noteq> []" by (simp add: t)
  ultimately show ?case
    using Cons.IH [OF rest] unfolding tagged_message.simps outline.simps
    by (subst message_parts.simps) (simp add: plain_token_def)
qed

lemma outline_alternates:
  "\<forall>b\<in>set blocks. to_lower (tag_is b) \<noteq> ''plain'' \<Longrightarrow>
     successively (\<lambda>x y. \<not> (y = ''plain'' \<and> x = ''plain'')) (outline blocks rest)"
  by (induction blocks) (auto simp: plain_token_def successively_Cons successively_append_iff)

lemma fingerprint_outline:
  assumes "message_parts s = parts" "successively (\<lambda>x y. \<not> (y = ''plain'' \<and> x = ''plain'')) parts"
  shows "fingerprintUserMessage s = (if parts = [] then ''plain'' else join '','' parts)"
proof -
  have "filter (\<lambda>i. \<not> (parts ! i = ''plain'' \<and> 0 < i \<and> parts ! (i - 1) = ''plain'')) [0..<length parts] = [0..<length parts]"
  proof (rule filter_True, rule ballI)
    fix i
    assume "i \<in> set [0..<length parts]"
    with successively_nth [OF assms(2), of "i - 1"] show "\<not> (parts ! i = ''plain'' \<and> 0 < i \<and> parts ! (i - 1) = ''plain'')"
      by auto
  qed
  then show ?thesis by (simp add: fingerprintUserMessage_def assms(1) map_nth Let_def)
qed

text \<open>
  Claim C38. The outline of a message made of tagged blocks is the sequence of its tag names, in lower case, with a mark
  where there is other text, and it is the fingerprint of the message when no tag is called \<open>plain\<close>. It does not depend
  on the attributes of the blocks nor on what they contain: a content may hold any text, other tags and stray \<open><\<close>
  included, as long as it does not close its own block. The text around the blocks opens no tag. So messages with the
  same scaffolding share one pattern.
\<close>
theorem outline_of_tagged_message:
  assumes "list_all well_tagged blocks" "no_open rest"
  shows "message_parts (tagged_message blocks rest) = outline blocks rest \<and>
    ((\<forall>b\<in>set blocks. to_lower (tag_is b) \<noteq> ''plain'') \<longrightarrow> fingerprintUserMessage (tagged_message blocks rest) =
       (if outline blocks rest = [] then ''plain'' else join '','' (outline blocks rest)))"
  using message_parts_outline [OF assms] fingerprint_outline [OF message_parts_outline [OF assms] outline_alternates] by blast

definition demo_blocks :: "tag_block list" where
  "demo_blocks =
     [\<lparr>leading_text = ''If a < b: '', tag_is = ''Env'', attributes = '' os=linux'', inside = ''<pwd>/x</pwd> 1 < 2 </a> tail'', closing_space = []\<rparr>,
      \<lparr>leading_text = [], tag_is = ''task'', attributes = [], inside = ''<task> two'', closing_space = '' ''\<rparr>]"

theorem outline_of_tagged_message_witness:
  "fingerprintUserMessage (''If a < b: <Env os=linux><pwd>/x</pwd> 1 < 2 </a> tail</Env><task><task> two</task > go'') =
     ''plain,env,/env,task,/task,plain''"
proof -
  have "\<not> has_closing ''Env'' ''<pwd>/x</pwd> 1 < 2 </a> tail''" "\<not> has_closing ''task'' ''<task> two''"
    unfolding after_closing_None [symmetric] by code_simp+
  moreover have "tag_name ''Env''" "tag_name ''task''" "tag_attributes '' os=linux''" "tag_attributes []"
    "no_open ''If a < b: ''" "no_open []" "list_all is_space '' ''" by code_simp+
  ultimately have ok: "list_all well_tagged demo_blocks" by (simp add: demo_blocks_def well_tagged_def)
  have "no_open '' go''" by code_simp
  note res = outline_of_tagged_message [OF ok this, THEN conjunct2, rule_format]
  have "tagged_message demo_blocks '' go'' =
      ''If a < b: <Env os=linux><pwd>/x</pwd> 1 < 2 </a> tail</Env><task><task> two</task > go''" by code_simp
  moreover have "outline demo_blocks '' go'' = [''plain'', ''env'', ''/env'', ''task'', ''/task'', ''plain'']" by code_simp
  moreover have "\<forall>b\<in>set demo_blocks. to_lower (tag_is b) \<noteq> ''plain''" by code_simp
  moreover have "join '','' [''plain'', ''env'', ''/env'', ''task'', ''/task'', ''plain''] = ''plain,env,/env,task,/task,plain''" by code_simp
  ultimately show ?thesis using res by simp
qed

end
