(* ===== verification/TraceInputs.thy ===== *)
theory TraceInputs
  imports UserInputs
begin

text \<open>
  The callers of the previews and of the extraction: the inputs and outputs of whole traces
  (\<open>lib/actions/sessions/trace-io.ts\<close>), the inputs of spans (\<open>lib/actions/spans/previews/input-extraction.ts\<close>), the
  names of agents (\<open>agent-names.ts\<close>), the system messages of a trace (\<open>lib/actions/spans/system-messages.ts\<close>) and the
  entry points (\<open>index.ts\<close>, \<open>queries.ts\<close>). The rows the database answers with are a parameter. What the code starts
  with \<open>Promise.all\<close> runs here in the order of the list, the cache passed on from one to the next.
  Requests are the ones the schemas of the entry points let through (their \<open>parse\<close> throws on others, before anything is
  read); the branches for a cache that throws do not arise with the cache in memory.
\<close>

section \<open>Traces\<close>

record input_row =
  first_message :: string
  last_message :: string
  row_prompt_hash :: string

record trace_db =
  db_paths :: "string \<Rightarrow> (string \<times> string) list"
  db_inputs :: "string \<Rightarrow> string \<Rightarrow> string \<Rightarrow> input_row list"
  db_outputs :: "string \<Rightarrow> string \<Rightarrow> string \<Rightarrow> raw_span list"
  db_spans :: "string list \<Rightarrow> string list \<Rightarrow> (string \<times> json) list"

text \<open>\<open>s || null\<close>.\<close>

definition or_null :: "string \<Rightarrow> string option" where
  "or_null s = (if s = [] then None else Some s)"

definition parse_row :: "preview_env \<Rightarrow> input_row \<Rightarrow> parsed_input option option" where
  "parse_row env row = parseExtractedMessages (pe_providers env) (run_parser (pe_parser env)) (first_message row) (last_message row)"

definition resolveOutput ::
  "preview_env \<Rightarrow> cache_times \<Rightarrow> bool \<Rightarrow> string \<Rightarrow> raw_span list \<Rightarrow> memory_cache \<Rightarrow> (string option \<times> memory_cache) option" where
  "resolveOutput env clock ai projectId rows m = (case rows of
     [] \<Rightarrow> Some (None, m)
   | row # _ \<Rightarrow> map_option (\<lambda>(previews, m'). (case previews (raw_id row) of Some (Some v) \<Rightarrow> or_null v | _ \<Rightarrow> None, m'))
       (resolvePreviews env clock rows [raw_id row] [raw_id row \<mapsto> ''LLM''] projectId False ai m))"

definition no_trace_input :: "string \<Rightarrow> trace_input" where
  "no_trace_input traceId = \<lparr>ti_trace = traceId, ti_output = None, ti_outputSpanId = None, ti_parsed = None, ti_promptHash = None\<rparr>"

definition fetchTraceData ::
  "preview_env \<Rightarrow> cache_times \<Rightarrow> bool \<Rightarrow> trace_db \<Rightarrow> string \<Rightarrow> string \<Rightarrow> memory_cache \<Rightarrow> (trace_input \<times> memory_cache) option" where
  "fetchTraceData env clock ai db projectId traceId m = (case db_paths db traceId of
     [] \<Rightarrow> Some (no_trace_input traceId, m)
   | (topPath, topPromptHash) # _ \<Rightarrow> do {
       (outputText, m') \<leftarrow> resolveOutput env clock ai projectId (db_outputs db traceId topPath topPromptHash) m;
       let outputSpanId = (case db_outputs db traceId topPath topPromptHash of [] \<Rightarrow> None | row # _ \<Rightarrow> Some (raw_id row));
       (case db_inputs db traceId topPath topPromptHash of
          [] \<Rightarrow> Some (\<lparr>ti_trace = traceId, ti_output = outputText, ti_outputSpanId = outputSpanId, ti_parsed = None,
                  ti_promptHash = or_null topPromptHash\<rparr>, m')
        | row # _ \<Rightarrow> map_option (\<lambda>parsed. (\<lparr>ti_trace = traceId, ti_output = outputText, ti_outputSpanId = outputSpanId,
              ti_parsed = parsed, ti_promptHash = or_str (or_null (row_prompt_hash row)) (or_null topPromptHash)\<rparr>, m'))
            (parse_row env row))
     })"

definition fetchTraceInputOnly :: "preview_env \<Rightarrow> trace_db \<Rightarrow> string \<Rightarrow> trace_input option" where
  "fetchTraceInputOnly env db traceId = (case db_paths db traceId of
     [] \<Rightarrow> Some (no_trace_input traceId)
   | (topPath, topPromptHash) # _ \<Rightarrow> (case db_inputs db traceId topPath topPromptHash of
         [] \<Rightarrow> Some ((no_trace_input traceId)\<lparr>ti_promptHash := or_null topPromptHash\<rparr>)
       | row # _ \<Rightarrow> map_option (\<lambda>parsed. (no_trace_input traceId)\<lparr>ti_parsed := parsed,
             ti_promptHash := or_str (or_null (row_prompt_hash row)) (or_null topPromptHash)\<rparr>) (parse_row env row)))"

text \<open>The group of a trace, by its prompt and the outline of its message.\<close>

definition trace_fingerprint :: "trace_input \<Rightarrow> string" where
  "trace_fingerprint t = (case joined_text t of Some joined \<Rightarrow> fingerprintUserMessage joined | None \<Rightarrow> ''empty'')"

definition trace_group :: "trace_input \<Rightarrow> (string \<times> string) option" where
  "trace_group t = (case ti_promptHash t of
     None \<Rightarrow> None | Some h \<Rightarrow> if h = [] then None else Some (h, trace_fingerprint t))"

definition group_key :: "string \<times> string \<Rightarrow> string" where
  "group_key g = fst g @ ''::'' @ snd g"

text \<open>The groups, each with the prompt and the outline of the trace that opened it.\<close>

definition group_traces :: "trace_input list \<Rightarrow> (string \<times> ((string \<times> string) \<times> trace_input) list) list" where
  "group_traces traces = foldl (\<lambda>m t. case trace_group t of
     None \<Rightarrow> m | Some g \<Rightarrow> amap_push (group_key g) (g, t) m) [] traces"

definition extract_group ::
  "extraction_env \<Rightarrow> cache_times \<Rightarrow> string \<Rightarrow> string \<times> ((string \<times> string) \<times> trace_input) list \<Rightarrow>
   trace_results \<times> memory_cache \<Rightarrow> trace_results \<times> memory_cache" where
  "extract_group x clock projectId g st =
     (let (hash, fingerprint) = fst (hd (snd g)) in
      extractInputsForGroup x clock hash projectId (map snd (snd g)) (fst st) fingerprint (snd st))"

definition set_output_span :: "(string \<times> json) list \<Rightarrow> trace_input \<Rightarrow> trace_results \<Rightarrow> trace_results" where
  "set_output_span spansById t results = (case ti_outputSpanId t of
     None \<Rightarrow> results
   | Some spanId \<Rightarrow> if spanId = [] then results else (case results (ti_trace t) of
         None \<Rightarrow> results
       | Some r \<Rightarrow> results(ti_trace t \<mapsto> r\<lparr>outputSpan := map_of (rev spansById) spanId\<rparr>)))"

definition hydrate_outputs :: "trace_db \<Rightarrow> trace_input list \<Rightarrow> trace_results \<Rightarrow> trace_results" where
  "hydrate_outputs db traceData results =
     (let withOutput = filter (\<lambda>t. ti_outputSpanId t \<noteq> None) traceData;
          outputSpanIds = map (\<lambda>t. the (ti_outputSpanId t)) withOutput in
      if 0 < length outputSpanIds then
        let spansById = db_spans db outputSpanIds (js_set (map ti_trace withOutput)) in
        foldl (\<lambda>r t. set_output_span spansById t r) results traceData
      else results)"

definition fill_traces :: "string list \<Rightarrow> trace_results \<Rightarrow> trace_results" where
  "fill_traces traceIds results = foldl (\<lambda>r i. if r i \<noteq> None then r
     else r(i \<mapsto> \<lparr>inputPreview = None, outputPreview = None, outputSpan = None\<rparr>)) results traceIds"

definition assemble_batch ::
  "extraction_env \<Rightarrow> cache_times \<Rightarrow> trace_db \<Rightarrow> string \<Rightarrow> string list \<Rightarrow> trace_input list \<Rightarrow> memory_cache \<Rightarrow> trace_results \<times> memory_cache" where
  "assemble_batch x clock db projectId traceIds traceData m =
     (let noHashTraces = filter (\<lambda>t. trace_group t = None) traceData;
          results = joined_results noHashTraces Map.empty;
          (results, m') = foldl (\<lambda>st g. extract_group x clock projectId g st) (results, m) (group_traces traceData)
      in (hydrate_outputs db traceData (fill_traces traceIds results), m'))"

definition getMainAgentIOBatch ::
  "preview_env \<Rightarrow> extraction_env \<Rightarrow> cache_times \<Rightarrow> bool \<Rightarrow> trace_db \<Rightarrow> string \<Rightarrow> string list \<Rightarrow> memory_cache \<Rightarrow>
   (trace_results \<times> memory_cache) option" where
  "getMainAgentIOBatch env x clock ai db projectId traceIds m = do {
     (traceData, m') \<leftarrow> map_state (fetchTraceData env clock ai db projectId) traceIds m;
     Some (assemble_batch x clock db projectId traceIds traceData m')
   }"

definition getTraceUserInput ::
  "preview_env \<Rightarrow> extraction_env \<Rightarrow> cache_times \<Rightarrow> trace_db \<Rightarrow> string \<Rightarrow> string \<Rightarrow> memory_cache \<Rightarrow> (string option \<times> memory_cache) option" where
  "getTraceUserInput env x clock db traceId projectId m = do {
     traceData \<leftarrow> fetchTraceInputOnly env db traceId;
     Some (case joined_text traceData of
       None \<Rightarrow> (None, m)
     | Some rawInput \<Rightarrow> (case ti_promptHash traceData of
           None \<Rightarrow> (Some rawInput, m)
         | Some h \<Rightarrow>
             if h = [] then (Some rawInput, m)
             else let (results, m') = extractInputsForGroup x clock h projectId [traceData] Map.empty (fingerprintUserMessage rawInput) m in
               (case Option.bind (results traceId) inputPreview of None \<Rightarrow> Some rawInput | Some s \<Rightarrow> Some s, m')))
   }"

section \<open>Inputs of spans\<close>

record input_span_row =
  is_span :: string
  is_row :: input_row

text \<open>A parsed span: \<open>ti_trace\<close> is the span, \<open>ti_promptHash\<close> its prompt, which may be empty.\<close>

definition parse_input_span :: "preview_env \<Rightarrow> input_span_row \<Rightarrow> trace_input option" where
  "parse_input_span env r = map_option (\<lambda>parsed. \<lparr>ti_trace = is_span r, ti_output = None, ti_outputSpanId = None,
     ti_parsed = parsed, ti_promptHash = Some (row_prompt_hash (is_row r))\<rparr>) (parse_row env (is_row r))"

definition span_hash :: "trace_input \<Rightarrow> string option" where
  "span_hash t = (if truthy (ti_promptHash t) then ti_promptHash t else None)"

definition raw_inputs :: "trace_input list \<Rightarrow> previews \<Rightarrow> previews" where
  "raw_inputs entries userInputs = foldl (\<lambda>u t. u(ti_trace t \<mapsto> joined_text t)) userInputs entries"

definition extract_span_group ::
  "extraction_env \<Rightarrow> cache_times \<Rightarrow> string \<Rightarrow> string \<times> trace_input list \<Rightarrow> previews \<times> memory_cache \<Rightarrow> previews \<times> memory_cache" where
  "extract_span_group x clock projectId g st =
     (let (groupResults, m') = extractInputsForGroup x clock (fst g) projectId (snd g) Map.empty ''plain'' (snd st) in
      (foldl (\<lambda>u t. u(ti_trace t \<mapsto> (case Option.bind (groupResults (ti_trace t)) inputPreview of
          None \<Rightarrow> joined_text t | Some s \<Rightarrow> Some s))) (fst st) (snd g), m'))"

definition extractUserInputsForSpans ::
  "preview_env \<Rightarrow> extraction_env \<Rightarrow> cache_times \<Rightarrow> string \<Rightarrow> input_span_row list \<Rightarrow> memory_cache \<Rightarrow> (previews \<times> memory_cache) option" where
  "extractUserInputsForSpans env x clock projectId rows m = do {
     entries \<leftarrow> map_js (parse_input_span env) rows;
     let parsedSpans = filter (\<lambda>t. joined_text t \<noteq> None) entries;
     let unread = raw_inputs (filter (\<lambda>t. joined_text t = None) entries) Map.empty;
     let userInputs = raw_inputs (filter (\<lambda>t. span_hash t = None) parsedSpans) unread;
     let byHash = foldl (\<lambda>g t. case span_hash t of None \<Rightarrow> g | Some h \<Rightarrow> amap_push h t g) [] parsedSpans;
     Some (foldl (\<lambda>st g. extract_span_group x clock projectId g st) (userInputs, m) byHash)
   }"

section \<open>System messages\<close>

text \<open>\<open>extractSystemMessageContent\<close> of a value; \<open>message.role\<close> is missing on an array.\<close>

definition extractSystemMessageContent :: "preview_env \<Rightarrow> json \<Rightarrow> string option option" where
  "extractSystemMessageContent env message =
     (if is_object message \<and> get_is ''role'' ''system'' message = Some True
      then extractSystemText (pe_providers env) (JArr [message]) else Some None)"

definition parseSystemMessageFromInput :: "preview_env \<Rightarrow> string \<Rightarrow> string option option" where
  "parseSystemMessageFromInput env input =
     (let parsed = tryParseJsonOrArray (run_parser (pe_parser env)) input in
      if \<not> json_truthy parsed then Some None else extractSystemText (pe_providers env) parsed)"

record system_row =
  sy_span :: string
  sy_input :: string
  sy_path :: string

record system_message =
  sm_id :: string
  sm_content :: string
  sm_path :: "string list"

definition system_step ::
  "preview_env \<Rightarrow> (string \<times> string list) list \<Rightarrow> system_row \<Rightarrow> (string \<times> string \<times> string list) list \<Rightarrow>
   (string \<times> string \<times> string list) list option" where
  "system_step env pathMap row found =
     (if sy_input row = [] \<or> sy_path row = [] then Some found
      else if map_of found (sy_path row) \<noteq> None then Some found
      else map_option (\<lambda>content. case content of
          None \<Rightarrow> found
        | Some c \<Rightarrow> if c = [] then found else found @ [(sy_path row, c,
            case map_of pathMap (sy_path row) of Some p \<Rightarrow> p | None \<Rightarrow> split_on CHR ''.'' (sy_path row))])
        (parseSystemMessageFromInput env (sy_input row)))"

text \<open>\<open>rows\<close> is what the database answers for the paths, in the order of their start.\<close>

definition getTraceSystemMessages ::
  "preview_env \<Rightarrow> (string list \<Rightarrow> system_row list) \<Rightarrow> string list list \<Rightarrow> system_message list option" where
  "getTraceSystemMessages env rows paths =
     (if length paths = 0 then Some []
      else let pathStrings = map (join ''.'') paths; pathMap = js_map_of (join ''.'') id paths in
        map_option (\<lambda>found. map (\<lambda>i. let e = found ! i in
            \<lparr>sm_id = fst e @ ''_'' @ show_nat i, sm_content = fst (snd e), sm_path = snd (snd e)\<rparr>) [0..<length found])
          (loop_js (system_step env pathMap) (rows pathStrings) []))"

section \<open>Names of agents\<close>

text \<open>\<open>text.trim().replace(/^["']|["']$/g, "")\<close>: a quote in front and one at the end.\<close>

definition is_quote :: "char \<Rightarrow> bool" where
  "is_quote c = (c = quote \<or> c = CHR 0x27)"

definition strip_quotes :: "string \<Rightarrow> string" where
  "strip_quotes s = (let s = (if s \<noteq> [] \<and> is_quote (hd s) then tl s else s) in
     if s \<noteq> [] \<and> is_quote (last s) then butlast s else s)"

definition generateAgentName :: "(string \<Rightarrow> string option) \<Rightarrow> string \<Rightarrow> string option" where
  "generateAgentName llm systemPrompt = (case llm systemPrompt of
     None \<Rightarrow> None
   | Some answer \<Rightarrow> let name = strip_quotes (trim answer) in if 0 < length name \<and> length name \<le> 50 then Some name else None)"

definition AGENT_TTL_SECONDS :: number where "AGENT_TTL_SECONDS = 60 * 60 * 24 * 7"

definition agent_cache_key :: "string \<Rightarrow> string \<Rightarrow> string" where
  "agent_cache_key projectId h = ''agent_name:'' @ projectId @ '':'' @ h"

definition prompt_step :: "preview_env \<Rightarrow> string \<times> string \<Rightarrow> (string \<rightharpoonup> string) \<Rightarrow> (string \<rightharpoonup> string) option" where
  "prompt_step env row found = map_option (\<lambda>r. case r of
       Some sys \<Rightarrow> if sys \<noteq> [] then found(fst row \<mapsto> sys) else found
     | None \<Rightarrow> found)
     (extractSystemMessageContent env (tryParseJsonOrArray (run_parser (pe_parser env)) (snd row)))"

definition fetchSystemPrompts ::
  "preview_env \<Rightarrow> (string list \<Rightarrow> (string \<times> string) list) \<Rightarrow> string list \<Rightarrow> (string \<rightharpoonup> string) option" where
  "fetchSystemPrompts env rows spanIds =
     (if length spanIds = 0 then Some Map.empty else loop_js (prompt_step env) (rows spanIds) Map.empty)"

definition set_spans :: "string option \<Rightarrow> string list \<Rightarrow> previews \<Rightarrow> previews" where
  "set_spans name spanIds result = foldl (\<lambda>r i. r(i \<mapsto> name)) result spanIds"

text \<open>One lookup per hash; the names found are written for every span of the hash. The hashes without a prompt and
  those with one are handled in one pass here, in two in the code; they write the entries of different spans.\<close>

definition lookup_name ::
  "number \<Rightarrow> string \<Rightarrow> string \<times> string list \<Rightarrow> previews \<times> (string \<times> string list) list \<times> memory_cache \<Rightarrow>
   previews \<times> (string \<times> string list) list \<times> memory_cache" where
  "lookup_name now projectId g st = (case st of (result, uncached, m) \<Rightarrow>
     (let (cachedName, m') = cache_get now (agent_cache_key projectId (fst g)) m in
      case (case cachedName of Some (JStr n) \<Rightarrow> if n \<noteq> [] then Some n else None | _ \<Rightarrow> None) of
        Some n \<Rightarrow> (set_spans (Some n) (snd g) result, uncached, m')
      | None \<Rightarrow> (result, uncached @ [g], m')))"

definition name_group ::
  "(string \<Rightarrow> string option) \<Rightarrow> number \<Rightarrow> string \<Rightarrow> (string \<rightharpoonup> string) \<Rightarrow> string \<times> string list \<Rightarrow> previews \<times> memory_cache \<Rightarrow>
   previews \<times> memory_cache" where
  "name_group llm now projectId systemPrompts g st =
     (case systemPrompts (hd (snd g)) of
        None \<Rightarrow> (set_spans None (snd g) (fst st), snd st)
      | Some systemPrompt \<Rightarrow>
          (let name = generateAgentName llm systemPrompt in
           (set_spans name (snd g) (fst st),
            case name of
              None \<Rightarrow> snd st
            | Some n \<Rightarrow> cache_set now (agent_cache_key projectId (fst g)) (JStr n)
                \<lparr>expireAfterSeconds = Some AGENT_TTL_SECONDS, expireAt = None\<rparr> (snd st))))"

definition spans_by_hash :: "(string \<times> string) list \<Rightarrow> (string \<times> string list) list" where
  "spans_by_hash entries = foldl (\<lambda>m e. amap_push (snd e) (fst e) m) [] entries"

definition resolveAgentNames ::
  "preview_env \<Rightarrow> (string list \<Rightarrow> (string \<times> string) list) \<Rightarrow> (string \<Rightarrow> string option) \<Rightarrow> cache_times \<Rightarrow> string \<Rightarrow>
   (string \<times> string) list \<Rightarrow> bool \<Rightarrow> memory_cache \<Rightarrow> (previews \<times> memory_cache) option" where
  "resolveAgentNames env rows llm clock projectId entries skipGeneration m =
     (if length entries = 0 then Some (Map.empty, m)
      else let (result, uncached, m1) =
             foldl (\<lambda>st g. lookup_name (read_at clock) projectId g st) (Map.empty, [], m) (spans_by_hash entries) in
        if skipGeneration \<or> length uncached = 0
        then Some (foldl (\<lambda>r g. set_spans None (snd g) r) result uncached, m1)
        else map_option (\<lambda>systemPrompts.
            foldl (\<lambda>st g. name_group llm (save_at clock) projectId systemPrompts g st) (result, m1) uncached)
          (fetchSystemPrompts env rows (map (\<lambda>g. hd (snd g)) uncached)))"

section \<open>Previews of spans\<close>

definition PREVIEW_SPAN_TYPES :: "string list" where
  "PREVIEW_SPAN_TYPES = [''LLM'', ''CACHED'', ''TOOL'', ''EXECUTOR'', ''EVALUATOR'']"

text \<open>The spans the two queries are about; a query over no span is not sent.\<close>

record span_db =
  sd_spans :: "string list \<Rightarrow> raw_span list"
  sd_inputs :: "string list \<Rightarrow> input_span_row list"
  sd_systems :: "string list \<Rightarrow> (string \<times> string) list"

definition previewable :: "(string \<rightharpoonup> string) \<Rightarrow> string list \<Rightarrow> string list" where
  "previewable spanTypes spanIds =
     filter (\<lambda>i. (case spanTypes i of None \<Rightarrow> [] | Some t \<Rightarrow> t) \<in> set PREVIEW_SPAN_TYPES) spanIds"

definition fetchSpanData ::
  "span_db \<Rightarrow> string list \<Rightarrow> (string \<rightharpoonup> string) \<Rightarrow> string list option \<Rightarrow> raw_span list \<times> input_span_row list" where
  "fetchSpanData db spanIds spanTypes inputSpanIds =
     (let previewSpanIds = previewable spanTypes spanIds;
          inputSpanIdList = filter (\<lambda>i. i \<in> set (case inputSpanIds of None \<Rightarrow> [] | Some l \<Rightarrow> l)) previewSpanIds in
      (if 0 < length previewSpanIds then sd_spans db previewSpanIds else [],
       if 0 < length inputSpanIdList then sd_inputs db inputSpanIdList else []))"

record previews_result =
  pr_previews :: previews
  pr_inputs :: "previews option"
  pr_agents :: "previews option"

text \<open>\<open>inputPreviews\<close> is left out when there is no entry, that is when no row was read.\<close>

definition processSpanPreviews ::
  "preview_env \<Rightarrow> extraction_env \<Rightarrow> cache_times \<Rightarrow> bool \<Rightarrow> raw_span list \<Rightarrow> string \<Rightarrow> string list \<Rightarrow> (string \<rightharpoonup> string) \<Rightarrow> bool \<Rightarrow>
   input_span_row list \<Rightarrow> memory_cache \<Rightarrow> (previews_result \<times> memory_cache) option" where
  "processSpanPreviews env x clock ai rawSpans projectId spanIds spanTypes skip inputRows m = do {
     (userInputs, m1) \<leftarrow> extractUserInputsForSpans env x clock projectId inputRows m;
     (previews, m2) \<leftarrow> resolvePreviews env clock rawSpans spanIds spanTypes projectId skip ai m1;
     Some (\<lparr>pr_previews = previews, pr_inputs = (if 0 < length inputRows then Some userInputs else None), pr_agents = None\<rparr>, m2)
   }"

definition getSpanPreviews ::
  "preview_env \<Rightarrow> extraction_env \<Rightarrow> (string \<Rightarrow> string option) \<Rightarrow> cache_times \<Rightarrow> bool \<Rightarrow> span_db \<Rightarrow> string \<Rightarrow> string list \<Rightarrow>
   (string \<rightharpoonup> string) \<Rightarrow> string list option \<Rightarrow> (string \<times> string) list option \<Rightarrow> bool \<Rightarrow> memory_cache \<Rightarrow>
   (previews_result \<times> memory_cache) option" where
  "getSpanPreviews env x namer clock ai db projectId spanIds spanTypes inputSpanIds promptHashes skip m =
     (let allSpanIds = js_set (spanIds @ (case inputSpanIds of None \<Rightarrow> [] | Some l \<Rightarrow> l));
          (regularSpans, inputRows) = fetchSpanData db allSpanIds spanTypes inputSpanIds;
          hashes = (case promptHashes of None \<Rightarrow> [] | Some l \<Rightarrow> l) in
      do {
        (result, m1) \<leftarrow> processSpanPreviews env x clock ai regularSpans projectId spanIds spanTypes skip inputRows m;
        (agentNames, m2) \<leftarrow> resolveAgentNames env (sd_systems db) namer clock projectId hashes skip m1;
        Some (result\<lparr>pr_agents := (if 0 < length hashes then Some agentNames else None)\<rparr>, m2)
      })"

section \<open>Nothing throws\<close>

lemma parse_row_total:
  assumes "registry (pe_providers env)"
  shows "parse_row env row \<noteq> None"
  using registry.messages_return [OF assms] by (simp add: parse_row_def parseExtractedMessages_def Let_def)

lemma resolve_output_total:
  assumes "registry (pe_providers env)"
  shows "resolveOutput env clock ai projectId rows m \<noteq> None"
proof (cases rows)
  case (Cons row rest)
  show ?thesis
    using previews_total [OF assms, of clock rows "[raw_id row]" "[raw_id row \<mapsto> ''LLM'']" projectId False ai m]
    by (auto simp: resolveOutput_def Cons)
qed (simp add: resolveOutput_def)

lemma fetch_total:
  assumes "registry (pe_providers env)"
  shows "fetchTraceData env clock ai db projectId traceId m \<noteq> None"
proof -
  have "parse_row env row \<noteq> None" for row by (rule parse_row_total [OF assms])
  then have row: "\<exists>p. parse_row env row = Some p" for row by blast
  have "\<exists>r. resolveOutput env clock ai projectId rows m = Some r" for rows using resolve_output_total [OF assms] by blast
  then obtain r where r: "\<And>rows. resolveOutput env clock ai projectId rows m = Some (r rows)" by metis
  show ?thesis using row by (auto simp: fetchTraceData_def r Let_def split: list.split prod.split)
qed

lemma fetch_trace: "fetchTraceData env clock ai db projectId traceId m = Some (t, m') \<Longrightarrow> ti_trace t = traceId"
  by (auto simp: fetchTraceData_def no_trace_input_def Let_def split: list.splits prod.splits bind_splits)

section \<open>Every trace its own texts\<close>

abbreviation trace_key :: "trace_input \<Rightarrow> string option" where
  "trace_key t \<equiv> map_option group_key (trace_group t)"

definition trace_entry :: "trace_input \<Rightarrow> (string \<times> string) \<times> trace_input" where
  "trace_entry t = (the (trace_group t), t)"

lemma group_traces_key:
  "group_traces traces = foldl (\<lambda>m t. case trace_key t of None \<Rightarrow> m | Some k \<Rightarrow> amap_push k (trace_entry t) m) [] traces"
proof -
  have "(case trace_group t of None \<Rightarrow> m | Some g \<Rightarrow> amap_push (group_key g) (g, t) m) =
      (case trace_key t of None \<Rightarrow> m | Some k \<Rightarrow> amap_push k (trace_entry t) m)" for t m
    by (simp add: trace_entry_def split: option.split)
  then show ?thesis by (simp add: group_traces_def)
qed

text \<open>Groups and cache keys can be told apart: an outline has no colon.\<close>

lemma colon_free_end: "CHR '':'' \<notin> set f \<Longrightarrow> takeWhile (\<lambda>c. c \<noteq> CHR '':'') (rev (a @ CHR '':'' # f)) = rev f"
  by (simp, subst takeWhile_append2) auto

lemma trace_group_colon: "trace_group t = Some g \<Longrightarrow> CHR '':'' \<notin> set (snd g)"
  by (auto simp: trace_group_def trace_fingerprint_def fingerprint_colon split: option.splits if_splits)

lemma colon_apart:
  assumes "a @ CHR '':'' # f = a' @ CHR '':'' # f'" "CHR '':'' \<notin> set f" "CHR '':'' \<notin> set f'"
  shows "a = a' \<and> f = f'"
proof -
  have "rev f = rev f'" using assms by (metis colon_free_end)
  then show ?thesis using assms(1) by simp
qed

lemma group_key_inj:
  assumes "CHR '':'' \<notin> set (snd g)" "CHR '':'' \<notin> set (snd g')" "group_key g = group_key g'"
  shows "g = g'"
  using colon_apart [of "fst g @ '':''" "snd g" "fst g' @ '':''" "snd g'"] assms by (auto simp: group_key_def prod_eq_iff)

lemma regex_key_inj:
  assumes "CHR '':'' \<notin> set (snd g)" "CHR '':'' \<notin> set (snd g')"
    "regex_cache_key projectId (fst g) (snd g) = regex_cache_key projectId (fst g') (snd g')"
  shows "g = g'"
  using colon_apart [of "fst g" "snd g" "fst g'" "snd g'"] assms by (auto simp: regex_cache_key_def prod_eq_iff)

text \<open>The cache key of a group is that of the trace that opened it.\<close>

definition opener_key :: "string \<Rightarrow> string \<times> ((string \<times> string) \<times> trace_input) list \<Rightarrow> string" where
  "opener_key projectId g = regex_cache_key projectId (fst (fst (hd (snd g)))) (snd (fst (hd (snd g))))"

lemma extract_groups:
  assumes "distinct (map ti_trace (concat (map (\<lambda>g. map snd (snd g)) gs)))"
    and "\<forall>t\<in>set (concat (map (\<lambda>g. map snd (snd g)) gs)). results (ti_trace t) = None"
    and "distinct (map (opener_key projectId) gs)"
    and "foldl (\<lambda>st g. extract_group x clock projectId g st) (results, m) gs = (results', m')"
  shows "(\<forall>g\<in>set gs. \<forall>e\<in>set (snd g). results' (ti_trace (snd e)) =
        Some (result_of (snd e) (pattern_text x (group_regex x clock (opener_key projectId g) (map snd (snd g)) m) (snd e))))
    \<and> (\<forall>i. i \<notin> ti_trace ` set (concat (map (\<lambda>g. map snd (snd g)) gs)) \<longrightarrow> results' i = results i)"
  using assms
proof (induction gs arbitrary: results m)
  case (Cons g gs)
  let ?ts = "map snd (snd g)"
  let ?rest = "concat (map (\<lambda>g. map snd (snd g)) gs)"
  let ?rx = "\<lambda>m g. group_regex x clock (opener_key projectId g) (map snd (snd g)) m"
  obtain results1 m1 where step: "extract_group x clock projectId g (results, m) = (results1, m1)" by fastforce
  have distinct: "distinct (map ti_trace ?ts)" "distinct (map ti_trace ?rest)" "ti_trace ` set ?ts \<inter> ti_trace ` set ?rest = {}"
    using Cons.prems(1) by auto
  obtain hash fingerprint where first_of: "fst (hd (snd g)) = (hash, fingerprint)" by fastforce
  have key: "opener_key projectId g = regex_cache_key projectId hash fingerprint" by (simp add: opener_key_def first_of)
  have run: "extractInputsForGroup x clock hash projectId ?ts results fingerprint m = (results1, m1)"
    using step by (simp add: extract_group_def first_of)
  have "\<forall>t\<in>set ?ts. results (ti_trace t) = None" using Cons.prems(2) by simp
  from extraction_result [OF distinct(1) this, of x clock hash projectId fingerprint m]
  have rx: "results1 = write_results (pattern_text x (?rx m g)) ?ts results" by (simp add: run key)
  have same: "?rx m1 h = ?rx m h" if "h \<in> set gs" for h
  proof (rule group_regex_cong)
    have "opener_key projectId h \<in> opener_key projectId ` set gs" using that by (rule imageI)
    then have "opener_key projectId h \<noteq> opener_key projectId g" using Cons.prems(3) by (metis distinct.simps(2) list.set_map list.simps(9))
    from extraction_other_key [OF this [unfolded key], of x clock ?ts results m]
    show "map_of m1 (opener_key projectId h) = map_of m (opener_key projectId h)" by (simp add: run)
  qed
  have "\<forall>t\<in>set ?rest. results1 (ti_trace t) = None"
  proof
    fix t assume t: "t \<in> set ?rest"
    then have "ti_trace t \<notin> ti_trace ` set ?ts" using distinct(3) by blast
    then show "results1 (ti_trace t) = None" using Cons.prems(2) t by (simp add: rx write_results_other)
  qed
  moreover have "foldl (\<lambda>st g. extract_group x clock projectId g st) (results1, m1) gs = (results', m')"
    using Cons.prems(4) by (simp add: step)
  ultimately have IH: "\<forall>g\<in>set gs. \<forall>e\<in>set (snd g). results' (ti_trace (snd e)) = Some (result_of (snd e) (pattern_text x (?rx m1 g) (snd e)))"
    "\<forall>i. i \<notin> ti_trace ` set ?rest \<longrightarrow> results' i = results1 i"
    using Cons.IH [OF distinct(2)] Cons.prems(3) by simp_all
  have "results' (ti_trace (snd e)) = Some (result_of (snd e) (pattern_text x (?rx m g) (snd e)))" if "e \<in> set (snd g)" for e
  proof -
    have "ti_trace (snd e) \<notin> ti_trace ` set ?rest" using distinct(3) that by auto
    then have "results' (ti_trace (snd e)) = results1 (ti_trace (snd e))" using IH(2) by blast
    then show ?thesis using write_results_at [OF distinct(1)] that by (simp add: rx)
  qed
  moreover have "results' i = results i" if "i \<notin> ti_trace ` set (?ts @ ?rest)" for i
  proof -
    have "i \<notin> ti_trace ` set ?rest" "i \<notin> ti_trace ` set ?ts" using that unfolding set_append image_Un by blast+
    then show ?thesis using IH(2) unfolding rx by (metis write_results_other)
  qed
  ultimately show ?case using IH(1) same by auto
qed simp

lemma grouped_entries:
  assumes "(k, b) \<in> set (group_traces traces)"
  shows "b = map trace_entry (filter (\<lambda>t. trace_key t = Some k) traces)"
  using amap_group_entry [of k b, where key = trace_key and val = trace_entry and xs = traces] assms by (simp add: group_traces_key)

lemma grouped_distinct:
  assumes "distinct (map ti_trace traces)"
  shows "distinct (map ti_trace (concat (map (\<lambda>g. map snd (snd g)) (group_traces traces))))"
proof -
  have inj: "inj_on ti_trace (set traces)" and "distinct traces" using assms by (simp_all add: distinct_map)
  then have "distinct (map trace_entry traces)" by (auto simp: distinct_map trace_entry_def intro: inj_onI)
  moreover have "distinct (map fst (group_traces traces))" unfolding group_traces_key by (rule amap_group_distinct) simp
  ultimately have "distinct (concat (map snd (group_traces traces)))"
    using grouped_entries by (intro distinct_concat_by_key [where key = trace_key and val = trace_entry and xs = traces]) auto
  moreover have sub: "set (concat (map snd (group_traces traces))) \<subseteq> trace_entry ` set traces"
    using grouped_entries by fastforce
  moreover have "inj_on (\<lambda>e. ti_trace (snd e)) (trace_entry ` set traces)"
    using inj by (auto simp: inj_on_def trace_entry_def)
  ultimately have "distinct (map (\<lambda>e. ti_trace (snd e)) (concat (map snd (group_traces traces))))"
    by (simp only: distinct_map) (blast intro: inj_on_subset)
  then show ?thesis by (simp add: map_concat o_def)
qed

lemma hydrate_keeps:
  assumes "results i = Some r"
  shows "\<exists>span. hydrate_outputs db traces results i = Some (r\<lparr>outputSpan := span\<rparr>)"
proof -
  have base: "\<exists>span. results i = Some (r\<lparr>outputSpan := span\<rparr>)" by (rule exI [of _ "outputSpan r"]) (simp add: assms)
  have loop: "\<exists>span. foldl (\<lambda>r t. set_output_span sp t r) results ts i = Some (r\<lparr>outputSpan := span\<rparr>)" for sp ts
  proof (induction ts rule: rev_induct)
    case Nil
    then show ?case using base by simp
  next
    case (snoc t ts)
    then show ?case by (auto simp: set_output_span_def split: option.splits)
  qed
  show ?thesis using base loop by (simp add: hydrate_outputs_def Let_def)
qed

lemma fill_traces_keeps: "results i \<noteq> None \<Longrightarrow> fill_traces ids results i = results i"
  unfolding fill_traces_def by (induction ids arbitrary: results) auto

text \<open>What a group of traces holds: the traces of one prompt and outline, under a cache key of its own.\<close>

lemma grouped_members:
  assumes "(k, b) \<in> set (group_traces traces)"
  shows "\<exists>g. k = group_key g \<and> map snd b = filter (\<lambda>t. trace_group t = Some g) traces \<and>
    opener_key projectId (k, b) = regex_cache_key projectId (fst g) (snd g) \<and> CHR '':'' \<notin> set (snd g)"
proof -
  have b: "b = map trace_entry (filter (\<lambda>t. trace_key t = Some k) traces)" "b \<noteq> []"
    using amap_group_entry [OF assms [unfolded group_traces_key]] by blast+
  then have some: "filter (\<lambda>t. trace_key t = Some k) traces \<noteq> []" by auto
  let ?t = "hd (filter (\<lambda>t. trace_key t = Some k) traces)"
  have "trace_key ?t = Some k" using hd_in_set [OF some] by simp
  then obtain g where g: "trace_group ?t = Some g" "k = group_key g" by auto
  have "trace_key t = Some k \<longleftrightarrow> trace_group t = Some g" for t
    using group_key_inj [OF _ trace_group_colon [OF g(1)]] trace_group_colon [of t] by (cases g) (auto simp: g(2))
  then have "map snd b = filter (\<lambda>t. trace_group t = Some g) traces" by (simp add: b trace_entry_def o_def)
  moreover have "fst (hd b) = g" using some g by (simp add: b hd_map trace_entry_def)
  ultimately show ?thesis using g(2) trace_group_colon [OF g(1)] by (intro exI [of _ g]) (simp add: opener_key_def)
qed

lemma opener_keys_distinct: "distinct (map (opener_key projectId) (group_traces traces))"
proof -
  have keys: "distinct (map fst (group_traces traces))" unfolding group_traces_key by (rule amap_group_distinct) simp
  have "inj_on (opener_key projectId) (set (group_traces traces))"
  proof (rule inj_onI)
    fix e e'
    assume e: "e \<in> set (group_traces traces)" "e' \<in> set (group_traces traces)"
      and same: "opener_key projectId e = opener_key projectId e'"
    obtain k b k' b' where kb: "e = (k, b)" "e' = (k', b')" by (cases e, cases e')
    obtain g where g: "k = group_key g" "opener_key projectId e = regex_cache_key projectId (fst g) (snd g)"
      "CHR '':'' \<notin> set (snd g)" using grouped_members [of k b traces projectId] e(1) kb(1) by blast
    obtain g' where g': "k' = group_key g'" "opener_key projectId e' = regex_cache_key projectId (fst g') (snd g')"
      "CHR '':'' \<notin> set (snd g')" using grouped_members [of k' b' traces projectId] e(2) kb(2) by blast
    have "g = g'" by (rule regex_key_inj [OF g(3) g'(3)]) (use same g(2) g'(2) in simp)
    then have "k = k'" using g(1) g'(1) by simp
    then show "e = e'" using e kb eq_key_imp_eq_value [OF keys] by auto
  qed
  then show ?thesis using keys by (simp add: distinct_map)
qed

text \<open>The pattern of a prompt and an outline, over all traces that share them.\<close>

definition trace_regex ::
  "extraction_env \<Rightarrow> cache_times \<Rightarrow> string \<Rightarrow> trace_input list \<Rightarrow> memory_cache \<Rightarrow> string \<times> string \<Rightarrow> string option" where
  "trace_regex x clock projectId traces m g =
     group_regex x clock (regex_cache_key projectId (fst g) (snd g)) (filter (\<lambda>t. trace_group t = Some g) traces) m"

lemma assembled_results:
  assumes "distinct (map ti_trace data)" "assemble_batch x clock db projectId traceIds data m = (results, m')" "t \<in> set data"
  shows "\<exists>span. results (ti_trace t) =
    Some \<lparr>inputPreview = pattern_text x (Option.bind (trace_group t) (trace_regex x clock projectId data m)) t,
      outputPreview = ti_output t, outputSpan = span\<rparr>"
proof -
  let ?plain = "filter (\<lambda>t. trace_group t = None) data"
  let ?r0 = "joined_results ?plain Map.empty"
  let ?gs = "group_traces data"
  let ?all = "concat (map (\<lambda>g. map snd (snd g)) ?gs)"
  obtain r1 m1 where groups: "foldl (\<lambda>st g. extract_group x clock projectId g st) (?r0, m) ?gs = (r1, m1)" by fastforce
  have results: "results = hydrate_outputs db data (fill_traces traceIds r1)"
    using assms(2) by (simp add: assemble_batch_def groups)
  have inj: "inj_on ti_trace (set data)" using assms(1) by (simp add: distinct_map)
  have all: "set ?all \<subseteq> {t \<in> set data. trace_group t \<noteq> None}"
    using grouped_entries by (fastforce simp: trace_entry_def)
  have plain_distinct: "distinct (map ti_trace ?plain)" using assms(1) by (simp add: distinct_map_filter)
  have out: "ti_trace u \<notin> ti_trace ` A" if "u \<in> set data" "u \<notin> A" "A \<subseteq> set data" for u A
    using inj_onD [OF inj] that by blast
  have "\<forall>u\<in>set ?all. ?r0 (ti_trace u) = None"
  proof
    fix u assume "u \<in> set ?all"
    then have u: "u \<in> set data" "trace_group u \<noteq> None" using all by blast+
    then have "ti_trace u \<notin> ti_trace ` set ?plain" by (intro out) auto
    then show "?r0 (ti_trace u) = None" by (simp add: joined_loop write_results_other)
  qed
  note written = extract_groups [OF grouped_distinct [OF assms(1)] this opener_keys_distinct groups]
  have "r1 (ti_trace t) = Some (result_of t (pattern_text x (Option.bind (trace_group t) (trace_regex x clock projectId data m)) t))"
  proof (cases "trace_group t")
    case None
    have "t \<notin> set ?all" using all None by blast
    then have "ti_trace t \<notin> ti_trace ` set ?all" using all assms(3) by (intro out) blast+
    then have "r1 (ti_trace t) = ?r0 (ti_trace t)" using written by blast
    also have "\<dots> = Some (result_of t (joined_text t))"
      using assms(3) None by (simp add: joined_loop write_results_at [OF plain_distinct])
    finally show ?thesis using None by simp
  next
    case (Some grp)
    then have key: "trace_key t = Some (group_key grp)" by simp
    have "group_key grp \<in> fst ` set ?gs"
      unfolding group_traces_key by (rule amap_group_key [where key = trace_key and val = trace_entry, OF assms(3) key])
    then obtain b where kb: "(group_key grp, b) \<in> set ?gs" by auto
    obtain g where g: "group_key grp = group_key g" "map snd b = filter (\<lambda>t. trace_group t = Some g) data"
      "opener_key projectId (group_key grp, b) = regex_cache_key projectId (fst g) (snd g)" "CHR '':'' \<notin> set (snd g)"
      using grouped_members [OF kb, of projectId] by blast
    have "grp = g" by (rule group_key_inj [OF trace_group_colon [OF Some] g(4,1)])
    have "t \<in> set (map snd b)" unfolding g(2) using assms(3) Some \<open>grp = g\<close> by simp
    then obtain e where "e \<in> set b" "t = snd e" by auto
    then have "r1 (ti_trace t) = Some (result_of t (pattern_text x (group_regex x clock (opener_key projectId (group_key grp, b)) (map snd b) m) t))"
      using written kb by fastforce
    then show ?thesis using Some \<open>grp = g\<close> unfolding g(2,3) by (simp add: trace_regex_def)
  qed
  then have "\<exists>span. results (ti_trace t) =
      Some ((result_of t (pattern_text x (Option.bind (trace_group t) (trace_regex x clock projectId data m)) t))\<lparr>outputSpan := span\<rparr>)"
    unfolding results by (intro hydrate_keeps) (simp add: fill_traces_keeps)
  then show ?thesis by (simp add: result_of_def)
qed

text \<open>
  Claim C36. The previews of a batch of different traces: the request is answered whatever the data, and every trace gets
  its own output and the text cut from its own message. All traces that share a prompt and an outline are cut with one
  pattern: the one in the cache when it matches every one of them, else the one the language model answers. A trace
  without a prompt, or whose group has no pattern, gets the whole text.
\<close>
theorem batch_gives_each_trace_its_own:
  assumes "zod sp" "pe_providers env = PROVIDERS sp (run_parser (pe_parser env))" "distinct traceIds"
  shows "\<exists>results m' traces m0. getMainAgentIOBatch env x clock ai db projectId traceIds m = Some (results, m')
    \<and> map_state (fetchTraceData env clock ai db projectId) traceIds m = Some (traces, m0) \<and> map ti_trace traces = traceIds
    \<and> (\<forall>t\<in>set traces. \<exists>span. results (ti_trace t) =
        Some \<lparr>inputPreview = pattern_text x (Option.bind (trace_group t) (trace_regex x clock projectId traces m0)) t,
          outputPreview = ti_output t, outputSpan = span\<rparr>)"
proof -
  have reg: "registry (pe_providers env)" by (simp add: assms(2) zod.known_providers [OF assms(1)])
  have "map_state (fetchTraceData env clock ai db projectId) traceIds m \<noteq> None"
    by (rule map_state_total) (rule fetch_total [OF reg])
  then obtain traces m0 where traces: "map_state (fetchTraceData env clock ai db projectId) traceIds m = Some (traces, m0)" by auto
  have "map ti_trace traces = map (\<lambda>i. i) traceIds"
    by (rule map_state_map [OF traces]) (auto dest: fetch_trace)
  then have ids: "map ti_trace traces = traceIds" by simp
  obtain results m' where batch: "assemble_batch x clock db projectId traceIds traces m0 = (results, m')" by fastforce
  have "distinct (map ti_trace traces)" using ids assms(3) by simp
  note all = assembled_results [OF this batch]
  have "getMainAgentIOBatch env x clock ai db projectId traceIds m = Some (results, m')"
    using traces batch by (simp add: getMainAgentIOBatch_def)
  then show ?thesis using traces ids all by blast
qed

section \<open>Every span an entry\<close>

definition write_texts :: "(trace_input \<Rightarrow> string option) \<Rightarrow> trace_input list \<Rightarrow> previews \<Rightarrow> previews" where
  "write_texts f ts u = foldl (\<lambda>u t. u(ti_trace t \<mapsto> f t)) u ts"

lemma write_texts_simps [simp]:
  "write_texts f [] u = u"
  "write_texts f (t # ts) u = write_texts f ts (u(ti_trace t \<mapsto> f t))"
  by (simp_all add: write_texts_def)

lemma write_texts_other: "i \<notin> ti_trace ` set ts \<Longrightarrow> write_texts f ts u i = u i"
  by (induction ts arbitrary: u) auto

lemma write_texts_at: "distinct (map ti_trace ts) \<Longrightarrow> t \<in> set ts \<Longrightarrow> write_texts f ts u (ti_trace t) = Some (f t)"
proof (induction ts arbitrary: u)
  case (Cons x ts)
  then show ?case by (cases "t = x") (auto simp: write_texts_other)
qed simp

lemma write_texts_cong: "(\<And>t. t \<in> set ts \<Longrightarrow> f t = g t) \<Longrightarrow> write_texts f ts u = write_texts g ts u"
  by (induction ts arbitrary: u) auto

lemma raw_inputs_texts: "raw_inputs ts u = write_texts joined_text ts u"
  by (simp add: raw_inputs_def write_texts_def)

text \<open>What the pattern of its prompt, if it has one, makes of a span: its whole text when the pattern finds nothing.\<close>

definition span_text :: "extraction_env \<Rightarrow> string option \<Rightarrow> trace_input \<Rightarrow> string option" where
  "span_text x rx t = (case pattern_text x rx t of None \<Rightarrow> joined_text t | Some s \<Rightarrow> Some s)"

lemma span_text_none: "span_text x rx t = None \<longleftrightarrow> joined_text t = None"
  by (auto simp: span_text_def pattern_text_def extracted_text_def split: option.split)

lemma span_group_texts:
  assumes "distinct (map ti_trace (snd g))"
  shows "fst (extract_span_group x clock projectId g (u, m)) =
    write_texts (span_text x (group_regex x clock (regex_cache_key projectId (fst g) ''plain'') (snd g) m)) (snd g) u"
proof -
  let ?rx = "group_regex x clock (regex_cache_key projectId (fst g) ''plain'') (snd g) m"
  let ?r = "fst (extractInputsForGroup x clock (fst g) projectId (snd g) Map.empty ''plain'' m)"
  have r: "?r = write_results (pattern_text x ?rx) (snd g) Map.empty" by (rule extraction_result [OF assms]) simp
  have "Option.bind (?r (ti_trace t)) inputPreview = pattern_text x ?rx t" if "t \<in> set (snd g)" for t
    unfolding r write_results_at [OF assms that] by (simp add: result_of_def)
  then have "write_texts (\<lambda>t. case Option.bind (?r (ti_trace t)) inputPreview of None \<Rightarrow> joined_text t | Some s \<Rightarrow> Some s) (snd g) u =
      write_texts (span_text x ?rx) (snd g) u"
    by (intro write_texts_cong) (simp add: span_text_def)
  then show ?thesis by (simp add: extract_span_group_def write_texts_def case_prod_beta)
qed

lemma span_group_other_key:
  assumes "h \<noteq> fst g"
  shows "map_of (snd (extract_span_group x clock projectId g (u, m))) (regex_cache_key projectId h ''plain'') =
    map_of m (regex_cache_key projectId h ''plain'')"
proof -
  have "regex_cache_key projectId h ''plain'' \<noteq> regex_cache_key projectId (fst g) ''plain''"
    using assms by (simp add: regex_cache_key_def)
  from extraction_other_key [OF this, of x clock "snd g" Map.empty m] show ?thesis
    by (simp add: extract_span_group_def case_prod_beta)
qed

lemma span_groups_texts:
  assumes "distinct (map fst gs)" "distinct (map ti_trace (concat (map snd gs)))"
    and "foldl (\<lambda>st g. extract_span_group x clock projectId g st) (u, m) gs = (u', m')"
  shows "(\<forall>(h, b)\<in>set gs. \<forall>t\<in>set b. u' (ti_trace t) =
        Some (span_text x (group_regex x clock (regex_cache_key projectId h ''plain'') b m) t))
    \<and> (\<forall>i. i \<notin> ti_trace ` set (concat (map snd gs)) \<longrightarrow> u' i = u i)"
  using assms
proof (induction gs arbitrary: u m)
  case (Cons g gs)
  let ?rx = "\<lambda>g. group_regex x clock (regex_cache_key projectId (fst g) ''plain'') (snd g)"
  obtain u1 m1 where step: "extract_span_group x clock projectId g (u, m) = (u1, m1)" by fastforce
  have distinct: "distinct (map ti_trace (snd g))" "distinct (map ti_trace (concat (map snd gs)))"
    "ti_trace ` set (snd g) \<inter> ti_trace ` set (concat (map snd gs)) = {}" using Cons.prems(2) by auto
  have u1: "u1 = write_texts (span_text x (?rx g m)) (snd g) u"
    using span_group_texts [OF distinct(1), of x clock projectId u m] by (simp add: step)
  have same: "?rx h m1 = ?rx h m" if "h \<in> set gs" for h
  proof (rule group_regex_cong)
    have "fst h \<in> fst ` set gs" using that by (rule imageI)
    then have "fst h \<noteq> fst g" using Cons.prems(1) by (metis distinct.simps(2) list.set_map list.simps(9))
    from span_group_other_key [OF this, of x clock projectId u m]
    show "map_of m1 (regex_cache_key projectId (fst h) ''plain'') = map_of m (regex_cache_key projectId (fst h) ''plain'')"
      by (simp add: step)
  qed
  have "foldl (\<lambda>st g. extract_span_group x clock projectId g st) (u1, m1) gs = (u', m')"
    using Cons.prems(3) by (simp add: step)
  then have IH: "\<forall>h\<in>set gs. \<forall>t\<in>set (snd h). u' (ti_trace t) = Some (span_text x (?rx h m) t)"
    "\<forall>i. i \<notin> ti_trace ` set (concat (map snd gs)) \<longrightarrow> u' i = u1 i"
    using Cons.IH [OF _ distinct(2)] Cons.prems(1) same by fastforce+
  have "u' (ti_trace t) = Some (span_text x (?rx g m) t)" if t: "t \<in> set (snd g)" for t
  proof -
    have "ti_trace t \<notin> ti_trace ` set (concat (map snd gs))" using distinct(3) t by blast
    then have "u' (ti_trace t) = u1 (ti_trace t)" using IH(2) by blast
    then show ?thesis by (simp add: u1 write_texts_at [OF distinct(1) t])
  qed
  moreover have "u' i = u i" if "i \<notin> ti_trace ` set (concat (map snd (g # gs)))" for i
  proof -
    have "i \<notin> ti_trace ` set (snd g)" "i \<notin> ti_trace ` set (concat (map snd gs))" using that by auto
    then have "u' i = u1 i" using IH(2) by blast
    also have "\<dots> = u i" unfolding u1 by (rule write_texts_other) fact
    finally show ?thesis .
  qed
  ultimately show ?case using IH(1) by (cases g) auto
qed simp

text \<open>The spans that are cut with one pattern: those with a text and the same prompt.\<close>

definition prompt_spans :: "trace_input list \<Rightarrow> string \<Rightarrow> trace_input list" where
  "prompt_spans entries h = filter (\<lambda>t. joined_text t \<noteq> None \<and> span_hash t = Some h) entries"

definition prompt_regex ::
  "extraction_env \<Rightarrow> cache_times \<Rightarrow> string \<Rightarrow> trace_input list \<Rightarrow> memory_cache \<Rightarrow> string \<Rightarrow> string option" where
  "prompt_regex x clock projectId entries m h =
     group_regex x clock (regex_cache_key projectId h ''plain'') (prompt_spans entries h) m"

lemma span_entries:
  assumes "map_js (parse_input_span env) rows = Some entries" "distinct (map ti_trace entries)"
    and "extractUserInputsForSpans env x clock projectId rows m = Some (inputs, m')"
  shows "t \<in> set entries \<Longrightarrow> inputs (ti_trace t) =
      Some (span_text x (Option.bind (span_hash t) (prompt_regex x clock projectId entries m)) t)"
    and "i \<notin> ti_trace ` set entries \<Longrightarrow> inputs i = None"
proof -
  let ?parsed = "filter (\<lambda>t. joined_text t \<noteq> None) entries"
  let ?unread = "filter (\<lambda>t. joined_text t = None) entries"
  let ?noHash = "filter (\<lambda>t. span_hash t = None) ?parsed"
  let ?u0 = "write_texts joined_text ?unread Map.empty"
  let ?u1 = "write_texts joined_text ?noHash ?u0"
  let ?gs = "foldl (\<lambda>g t. case span_hash t of None \<Rightarrow> g | Some h \<Rightarrow> amap_push h t g) [] ?parsed"
  let ?ids = "ti_trace ` set (concat (map snd ?gs))"
  have run: "foldl (\<lambda>st g. extract_span_group x clock projectId g st) (?u1, m) ?gs = (inputs, m')"
    using assms(1,3) by (simp add: extractUserInputsForSpans_def raw_inputs_texts)
  have inj: "inj_on ti_trace (set entries)" and distinct: "distinct entries" using assms(2) by (simp_all add: distinct_map)
  have entry: "b = filter (\<lambda>t. span_hash t = Some h) ?parsed" if "(h, b) \<in> set ?gs" for h b
    using amap_group_entry [of h b, where key = span_hash and val = "\<lambda>x. x" and xs = ?parsed] that by simp
  then have prompt: "b = prompt_spans entries h" if "(h, b) \<in> set ?gs" for h b
    using that by (simp add: prompt_spans_def)
  have members: "set (concat (map snd ?gs)) \<subseteq> {t \<in> set entries. joined_text t \<noteq> None \<and> span_hash t \<noteq> None}"
    using entry by fastforce
  have keys: "distinct (map fst ?gs)" by (rule amap_group_distinct [where val = "\<lambda>t. t"]) simp
  have "distinct (concat (map snd ?gs))"
    by (rule distinct_concat_by_key [where key = span_hash and val = "\<lambda>t. t" and xs = ?parsed, OF _ keys])
      (use distinct entry in auto)
  then have ids: "distinct (map ti_trace (concat (map snd ?gs)))"
    unfolding distinct_map using members by (auto intro: inj_on_subset [OF inj])
  note final = span_groups_texts [OF keys ids run]
  have out: "ti_trace t \<notin> ti_trace ` A" if "t \<in> set entries" "t \<notin> A" "A \<subseteq> set entries" for t A
    using inj_onD [OF inj] that by blast
  have parts: "distinct (map ti_trace ?unread)" "distinct (map ti_trace ?noHash)"
    using assms(2) by (simp_all add: distinct_map_filter)
  show "inputs (ti_trace t) = Some (span_text x (Option.bind (span_hash t) (prompt_regex x clock projectId entries m)) t)"
    if t: "t \<in> set entries"
  proof (cases "joined_text t = None \<or> span_hash t = None")
    case True
    then have "ti_trace t \<notin> ?ids" using members t by (intro out [of t "set (concat (map snd ?gs))"]) blast+
    then have "inputs (ti_trace t) = ?u1 (ti_trace t)" using final by blast
    also have "\<dots> = Some (joined_text t)"
    proof (cases "joined_text t")
      case None
      then have "ti_trace t \<notin> ti_trace ` set ?noHash" using t by (intro out) auto
      then have "?u1 (ti_trace t) = ?u0 (ti_trace t)" by (rule write_texts_other)
      also have "\<dots> = Some (joined_text t)" using t None by (intro write_texts_at [OF parts(1)]) simp
      finally show ?thesis .
    next
      case (Some joined)
      then show ?thesis using t True by (intro write_texts_at [OF parts(2)]) simp
    qed
    also have "joined_text t = span_text x (Option.bind (span_hash t) (prompt_regex x clock projectId entries m)) t"
    proof (cases "joined_text t = None")
      case True
      then show ?thesis using span_text_none [of x _ t] by simp
    next
      case False
      then have "span_hash t = None" using \<open>joined_text t = None \<or> span_hash t = None\<close> by auto
      then show ?thesis by (simp add: span_text_def split: option.split)
    qed
    finally show ?thesis .
  next
    case False
    then obtain h where h: "span_hash t = Some h" and mem: "t \<in> set ?parsed" using t by auto
    have "h \<in> fst ` set ?gs" by (rule amap_group_key [where key = span_hash and val = "\<lambda>t. t", OF mem h])
    then obtain b where hb: "(h, b) \<in> set ?gs" by auto
    have "t \<in> set b" unfolding entry [OF hb] using mem h by simp
    then show ?thesis using final hb by (fastforce simp: h prompt_regex_def prompt [OF hb, symmetric])
  qed
  show "inputs i = None" if i: "i \<notin> ti_trace ` set entries"
  proof -
    have "i \<notin> ?ids" "i \<notin> ti_trace ` set ?noHash" "i \<notin> ti_trace ` set ?unread" using i members by auto
    then show ?thesis using final by (simp add: write_texts_other del: set_filter)
  qed
qed

text \<open>
  Claim C40. The inputs of spans: the request is answered whatever the rows hold, with an entry for every span that was
  read and for no other. The entry of a span is what the pattern of its prompt cuts out of its user text (the pattern is
  the one in the cache when it matches every span of the prompt, else the one the language model answers), and the whole
  user text when the prompt has no pattern or the pattern finds no request. It is null exactly when the messages hold no
  user text, that is none that a provider recognises as typed by the user.
\<close>
theorem span_inputs_keep_text:
  assumes "zod sp" "pe_providers env = PROVIDERS sp (run_parser (pe_parser env))" "distinct (map is_span rows)"
  shows "\<exists>inputs m' entries. extractUserInputsForSpans env x clock projectId rows m = Some (inputs, m')
    \<and> map_js (parse_input_span env) rows = Some entries \<and> map ti_trace entries = map is_span rows
    \<and> dom inputs = set (map is_span rows)
    \<and> (\<forall>t\<in>set entries. inputs (ti_trace t) =
          Some (span_text x (Option.bind (span_hash t) (prompt_regex x clock projectId entries m)) t)
        \<and> (inputs (ti_trace t) = Some None \<longleftrightarrow> joined_text t = None))"
proof -
  have reg: "registry (pe_providers env)" by (simp add: assms(2) zod.known_providers [OF assms(1)])
  have "map_js (parse_input_span env) rows \<noteq> None"
    using parse_row_total [OF reg] by (intro map_js_total) (simp add: parse_input_span_def)
  then obtain entries where entries: "map_js (parse_input_span env) rows = Some entries" by blast
  then have ids: "map ti_trace entries = map is_span rows"
    by (rule map_js_map) (auto simp: parse_input_span_def)
  have "extractUserInputsForSpans env x clock projectId rows m \<noteq> None"
    unfolding extractUserInputsForSpans_def entries Let_def Option.bind.simps by (rule option.simps)
  then obtain inputs m' where run: "extractUserInputsForSpans env x clock projectId rows m = Some (inputs, m')"
    by fastforce
  have "distinct (map ti_trace entries)" using ids assms(3) by simp
  note all = span_entries [OF entries this run]
  have "i \<in> dom inputs \<longleftrightarrow> i \<in> ti_trace ` set entries" for i using all(1) all(2) [of i] by fastforce
  then have "dom inputs = ti_trace ` set entries" by blast
  also have "\<dots> = set (map is_span rows)" using ids by (metis list.set_map)
  finally show ?thesis using entries ids run all(1) by (auto simp: span_text_none)
qed

section \<open>One name per prompt\<close>

lemma set_spans_at: "set_spans n ids r i = (if i \<in> set ids then Some n else r i)"
  unfolding set_spans_def by (induction ids arbitrary: r) auto

text \<open>All spans of a hash have the same entry.\<close>

definition named :: "previews \<Rightarrow> string \<times> string list \<Rightarrow> bool" where
  "named r g = (\<exists>v. \<forall>i\<in>set (snd g). r i = Some v)"

definition apart :: "string \<times> string list \<Rightarrow> string \<times> string list \<Rightarrow> bool" where
  "apart g h = (set (snd g) \<inter> set (snd h) = {})"

lemma named_set: "named (set_spans n (snd g) r) g"
  by (auto simp: named_def set_spans_at)

lemma named_keep: "named r h \<Longrightarrow> apart g h \<Longrightarrow> named (set_spans n (snd g) r) h"
  by (auto simp: named_def apart_def set_spans_at)

lemma lookup_names:
  assumes "foldl (\<lambda>st g. lookup_name now projectId g st) (r, un, m) gs = (r', un', m')"
    and "pairwise apart (set gs \<union> A)" "\<forall>h\<in>A. named r h \<or> h \<in> set un" "distinct gs" "A \<inter> set gs = {}"
  shows "(\<forall>h\<in>set gs \<union> A. named r' h \<or> h \<in> set un') \<and> set un' \<subseteq> set un \<union> set gs"
  using assms
proof (induction gs arbitrary: r un m A)
  case (Cons g gs)
  obtain r1 un1 m1 where step: "lookup_name now projectId g (r, un, m) = (r1, un1, m1)" by (rule prod_cases3)
  have "(\<exists>n. r1 = set_spans n (snd g) r \<and> un1 = un) \<or> (r1 = r \<and> un1 = un @ [g])"
    using step by (auto simp: lookup_name_def Let_def split: prod.splits option.splits)
  moreover have "apart g h" if "h \<in> A" for h
  proof -
    have "h \<noteq> g" using that Cons.prems(5) by auto
    then show ?thesis using Cons.prems(2) that by (auto simp: pairwise_def)
  qed
  ultimately have now: "\<forall>h\<in>insert g A. named r1 h \<or> h \<in> set un1" "set un1 \<subseteq> insert g (set un)"
    using Cons.prems(3) named_set [of _ g r] named_keep by fastforce+
  have "foldl (\<lambda>st g. lookup_name now projectId g st) (r1, un1, m1) gs = (r', un', m')"
    using Cons.prems(1) by (simp add: step)
  moreover have "pairwise apart (set gs \<union> insert g A)" using Cons.prems(2) by simp
  moreover have "insert g A \<inter> set gs = {}" "distinct gs" using Cons.prems(4,5) by auto
  ultimately have "(\<forall>h\<in>set gs \<union> insert g A. named r' h \<or> h \<in> set un') \<and> set un' \<subseteq> set un1 \<union> set gs"
    using Cons.IH now(1) by blast
  then show ?case using now(2) by auto
qed simp

text \<open>A loop that sets the spans of each group it visits leaves every group named.\<close>

lemma naming_loop:
  assumes "\<And>g st. \<exists>n. view (step st g) = set_spans n (snd g) (view st)"
    and "pairwise apart B" "set gs \<subseteq> B" "\<forall>h\<in>B. named (view st) h \<or> h \<in> set gs"
  shows "\<forall>h\<in>B. named (view (foldl step st gs)) h"
  using assms(3,4)
proof (induction gs arbitrary: st)
  case (Cons g gs)
  obtain n where n: "view (step st g) = set_spans n (snd g) (view st)" using assms(1) by blast
  have "named (view (step st g)) h \<or> h \<in> set gs" if h: "h \<in> B" for h
  proof (cases "h = g")
    case True
    then show ?thesis by (simp add: n named_set)
  next
    case False
    have "apart g h" using assms(2) Cons.prems(1) h False by (auto simp: pairwise_def)
    moreover have "named (view st) h \<or> h \<in> set gs" using Cons.prems(2) h False by auto
    ultimately show ?thesis unfolding n using named_keep by blast
  qed
  then show ?case using Cons.IH [of "step st g"] Cons.prems(1) by simp
qed simp

lemma spans_by_hash_entry: "(h, b) \<in> set (spans_by_hash entries) \<Longrightarrow> b = map fst (filter (\<lambda>e. snd e = h) entries)"
  using amap_group_entry [of h b, where key = "\<lambda>e. Some (snd e)" and val = fst and xs = entries]
  by (auto simp: spans_by_hash_def)

lemma spans_by_hash_key: "(i, h) \<in> set entries \<Longrightarrow> \<exists>b. (h, b) \<in> set (spans_by_hash entries) \<and> i \<in> set b"
proof -
  assume e: "(i, h) \<in> set entries"
  then have "h \<in> fst ` set (spans_by_hash entries)"
    using amap_group_key [OF e, where key = "\<lambda>e. Some (snd e)" and val = fst] by (simp add: spans_by_hash_def)
  then obtain b where hb: "(h, b) \<in> set (spans_by_hash entries)" by auto
  moreover have "i \<in> set b" unfolding spans_by_hash_entry [OF hb] using e by force
  ultimately show ?thesis by blast
qed

lemma system_prompts_total:
  assumes "registry (pe_providers env)"
  shows "fetchSystemPrompts env rows ids \<noteq> None"
proof -
  have "extractSystemMessageContent env v \<noteq> None" for v
    using registry.system_text_returns [OF assms] by (simp add: extractSystemMessageContent_def)
  then show ?thesis
    unfolding fetchSystemPrompts_def by (simp add: loop_js_total prompt_step_def del: not_None_eq)
qed

text \<open>
  Claim C39. The names of agents: the request is answered whatever the prompts, every span gets an entry, and spans with
  the same hash of their system prompt have the same name, whether it came from the cache, from the model or from
  neither. The hash is the one the request gives, a function of the prompt.
\<close>
theorem agents_named_by_prompt:
  assumes "zod sp" "pe_providers env = PROVIDERS sp (run_parser (pe_parser env))" "distinct (map fst entries)"
  shows "\<exists>result m' name. resolveAgentNames env rows llm clock projectId entries skip m = Some (result, m')
    \<and> (\<forall>(i, h)\<in>set entries. result i = Some (name h))"
proof -
  have reg: "registry (pe_providers env)" by (simp add: assms(2) zod.known_providers [OF assms(1)])
  let ?gs = "spans_by_hash entries"
  have distinct: "distinct (map fst ?gs)"
    using amap_group_distinct [of "[]", where key = "\<lambda>e. Some (snd e)" and val = fst and xs = entries] by (simp add: spans_by_hash_def)
  have apart: "pairwise apart (set ?gs)"
  proof (rule pairwiseI)
    fix g g' assume g: "g \<in> set ?gs" "g' \<in> set ?gs" "g \<noteq> g'"
    obtain h b h' b' where gs: "g = (h, b)" "g' = (h', b')" by fastforce
    have "h \<noteq> h'" using g gs eq_key_imp_eq_value [OF distinct] by auto
    then show "apart g g'"
      using g gs spans_by_hash_entry [of h b entries] spans_by_hash_entry [of h' b' entries] eq_key_imp_eq_value [OF assms(3)]
      by (auto simp: apart_def)
  qed
  obtain r un m1 where look: "foldl (\<lambda>st g. lookup_name (read_at clock) projectId g st) (Map.empty, [], m) ?gs = (r, un, m1)"
    by (rule prod_cases3)
  have looked: "\<forall>h\<in>set ?gs. named r h \<or> h \<in> set un" "set un \<subseteq> set ?gs"
    using lookup_names [OF look, of "{}"] apart distinct by (simp_all add: distinct_map)
  have named_all: "\<exists>name. \<forall>(i, h)\<in>set entries. result i = Some (name h)" if all: "\<forall>g\<in>set ?gs. named result g" for result
  proof -
    have "\<exists>v. \<forall>i. (i, h) \<in> set entries \<longrightarrow> result i = Some v" for h
    proof (cases "\<exists>b. (h, b) \<in> set ?gs")
      case True
      then obtain b where hb: "(h, b) \<in> set ?gs" by blast
      have "named result (h, b)" using all hb by blast
      then obtain v where "\<forall>i\<in>set b. result i = Some v" by (auto simp: named_def)
      moreover have "i \<in> set b" if "(i, h) \<in> set entries" for i
        unfolding spans_by_hash_entry [OF hb] using that by force
      ultimately show ?thesis by blast
    next
      case False
      then show ?thesis using spans_by_hash_key by blast
    qed
    then obtain name where "\<forall>h i. (i, h) \<in> set entries \<longrightarrow> result i = Some (name h)" by metis
    then show ?thesis by (intro exI [of _ name]) auto
  qed
  show ?thesis
  proof (cases "entries = []")
    case True
    then show ?thesis by (simp add: resolveAgentNames_def)
  next
    case False
    show ?thesis
    proof (cases "skip \<or> un = []")
      case True
      have "\<forall>g\<in>set ?gs. named ((\<lambda>r. r) (foldl (\<lambda>r g. set_spans None (snd g) r) r un)) g"
        by (rule naming_loop [where view = "\<lambda>r. r", OF _ apart looked(2)]) (use looked(1) in auto)
      then show ?thesis using named_all False True look by (simp add: resolveAgentNames_def)
    next
      case notskipped: False
      obtain prompts where prompts: "fetchSystemPrompts env rows (map (\<lambda>g. hd (snd g)) un) = Some prompts"
        using system_prompts_total [OF reg] by fastforce
      let ?st = "foldl (\<lambda>st g. name_group llm (save_at clock) projectId prompts g st) (r, m1) un"
      obtain result m2 where st: "?st = (result, m2)" by fastforce
      have "\<forall>g\<in>set ?gs. named (fst ?st) g"
      proof (rule naming_loop [where view = fst, OF _ apart looked(2)])
        show "\<exists>n. fst (name_group llm (save_at clock) projectId prompts g st) = set_spans n (snd g) (fst st)" for g st
          by (auto simp: name_group_def Let_def split: option.split)
      qed (use looked(1) in auto)
      then have "\<exists>name. \<forall>(i, h)\<in>set entries. result i = Some (name h)" by (intro named_all) (simp add: st)
      then show ?thesis using False notskipped look prompts st by (simp add: resolveAgentNames_def)
    qed
  qed
qed

section \<open>Concrete requests\<close>

definition one_trace_db :: trace_db where
  "one_trace_db = \<lparr>db_paths = (\<lambda>t. [(''agent'', ''h'')]),
     db_inputs = (\<lambda>t p h. [\<lparr>first_message = ''{u}'', last_message = [], row_prompt_hash = ''h''\<rparr>]),
     db_outputs = (\<lambda>t p h. []), db_spans = (\<lambda>s t. [])\<rparr>"

definition zod_env :: preview_env where
  "zod_env = title_env (PROVIDERS zod_parse (run_parser (pe_parser (title_env []))))"

lemma zod_env_providers: "pe_providers zod_env = PROVIDERS zod_parse (run_parser (pe_parser zod_env))"
  by (simp add: zod_env_def title_env_def)

theorem batch_gives_each_trace_its_own_witness:
  "\<exists>results m' r. getMainAgentIOBatch zod_env (ctx_env None) (at_time 1) True one_trace_db ''p'' [''t'', ''u''] [] = Some (results, m')
    \<and> results ''t'' = Some r \<and> outputPreview r = None"
proof -
  obtain results m' traces m0 where batch: "getMainAgentIOBatch zod_env (ctx_env None) (at_time 1) True one_trace_db ''p'' [''t'', ''u''] [] = Some (results, m')"
    and fetched: "map_state (fetchTraceData zod_env (at_time 1) True one_trace_db ''p'') [''t'', ''u''] [] = Some (traces, m0)"
    and ids: "map ti_trace traces = [''t'', ''u'']"
    and each: "\<forall>t\<in>set traces. \<exists>span. results (ti_trace t) =
        Some \<lparr>inputPreview = pattern_text (ctx_env None) (Option.bind (trace_group t) (trace_regex (ctx_env None) (at_time 1) ''p'' traces m0)) t, outputPreview = ti_output t, outputSpan = span\<rparr>"
    using batch_gives_each_trace_its_own [OF zod_lib.zod_axioms zod_env_providers, where traceIds = "[''t'', ''u'']" and clock = "at_time 1"
        and ai = True and db = one_trace_db and projectId = "''p''" and m = "[]" and x = "ctx_env None"]
    by auto
  obtain t ts where ts: "traces = t # ts" "ti_trace t = ''t''" using ids by (cases traces) auto
  have "ti_output t = None"
    using fetched by (auto simp: ts(1) fetchTraceData_def one_trace_db_def resolveOutput_def split: bind_splits)
  then show ?thesis using batch each ts by auto
qed

definition span_rows :: "input_span_row list" where
  "span_rows = [\<lparr>is_span = ''a'', is_row = \<lparr>first_message = ''{the messages of span a}'', last_message = [], row_prompt_hash = ''h''\<rparr>\<rparr>,
     \<lparr>is_span = ''b'', is_row = \<lparr>first_message = ''{of span b}'', last_message = [], row_prompt_hash = ''h''\<rparr>\<rparr>]"

definition message_parser :: json_parser where
  "message_parser = table_parser
     [(''[{the messages of span a}]'', JArr [JObj [(''role'', JStr ''user''), (''content'', JStr ''</ctx>go'')]]),
      (''[{of span b}]'', JArr [JObj [(''role'', JStr ''assistant''), (''content'', JStr ''ok'')]])]"

definition chat_env :: preview_env where
  "chat_env = (title_env (PROVIDERS zod_parse (run_parser message_parser)))\<lparr>pe_parser := message_parser\<rparr>"

lemma chat_env_providers: "pe_providers chat_env = PROVIDERS zod_parse (run_parser (pe_parser chat_env))"
  by (simp add: chat_env_def title_env_def)

lemma chat_texts: "map_option (map joined_text) (map_js (parse_input_span chat_env) span_rows) = Some [Some ''</ctx>go'', None]"
  by code_simp

theorem span_inputs_keep_text_witness:
  "\<exists>inputs m'. extractUserInputsForSpans chat_env (ctx_env (Some ctx_regex)) (at_time 1) ''p'' span_rows [] = Some (inputs, m')
    \<and> inputs ''a'' = Some (Some ''go'') \<and> inputs ''b'' = Some None"
proof -
  let ?x = "ctx_env (Some ctx_regex)"
  have "distinct (map is_span span_rows)" by code_simp
  from span_inputs_keep_text [OF zod_lib.zod_axioms chat_env_providers this, of ?x "at_time 1" "''p''" "[]"]
  obtain inputs m' entries where run: "extractUserInputsForSpans chat_env ?x (at_time 1) ''p'' span_rows [] = Some (inputs, m')"
    and entries: "map_js (parse_input_span chat_env) span_rows = Some entries"
    and each: "\<forall>t\<in>set entries. inputs (ti_trace t) =
          Some (span_text ?x (Option.bind (span_hash t) (prompt_regex ?x (at_time 1) ''p'' entries [])) t)"
    by blast
  have spans: "map_js (parse_input_span chat_env) span_rows =
      Some [\<lparr>ti_trace = ''a'', ti_output = None, ti_outputSpanId = None,
          ti_parsed = Some \<lparr>systemText = None, userParts = [''</ctx>go'']\<rparr>, ti_promptHash = Some ''h''\<rparr>,
        \<lparr>ti_trace = ''b'', ti_output = None, ti_outputSpanId = None, ti_parsed = Some \<lparr>systemText = None, userParts = []\<rparr>, ti_promptHash = Some ''h''\<rparr>]"
    (is "_ = Some [?a, ?b]") by code_simp
  have regex: "prompt_regex ?x (at_time 1) ''p'' [?a, ?b] [] ''h'' = Some ctx_regex"
  proof -
    have "prompt_spans [?a, ?b] ''h'' = [?a]" by code_simp
    then show ?thesis
      by (simp add: prompt_regex_def group_regex_def cached_regex_def live_def new_regex_def user_parts_def BATCH_SIZE_def ctx_answer)
  qed
  have "span_text ?x (Some ctx_regex) ?a = Some ''go''" "span_text ?x (Some ctx_regex) ?b = None"
    "span_hash ?a = Some ''h''" "span_hash ?b = Some ''h''" by code_simp+
  then show ?thesis using run each spans entries regex by simp
qed

theorem agents_named_by_prompt_witness:
  "\<exists>result m'. resolveAgentNames zod_env (\<lambda>ids. []) (\<lambda>prompt. None) (at_time 1) ''p'' [(''a'', ''h''), (''b'', ''h'')] False [] = Some (result, m')
    \<and> result ''a'' = result ''b'' \<and> result ''a'' \<noteq> None"
proof -
  have "distinct (map fst [(''a'', ''h''), (''b'', ''h'')])" by simp
  from agents_named_by_prompt [OF zod_lib.zod_axioms zod_env_providers this, where rows = "\<lambda>ids. []" and llm = "\<lambda>prompt. None"
      and clock = "at_time 1" and projectId = "''p''" and skip = False and m = "[]"]
  show ?thesis by auto
qed

end
