(* ===== verification/Spec2Isabelle.thy ===== *)
theory Spec2Isabelle
  imports PathInfo Transcript SessionTimeline SpanMetrics Realtime TraceStore PanelLayout SessionRows DebuggerStore QueueStore
    TraceQueries EventQueries EvalQuery Filters AdvancedSearch Caches DiffRows
    Providers DeepParse Previews PreviewPipeline UserInputs TraceInputs
begin

text \<open>
  Laminar (\<open>lmnr\<close>) collects traces of LLM applications; its frontend (\<open>src/frontend\<close>, TypeScript)
  shows them. This development models the part of the frontend that computes what the views of a
  trace, of a session and of a debugger session show and how they change, the store of an annotation
  queue, the queries its server side sends to ClickHouse and its caches, and proves what those
  computations promise. All file names below are relative to \<open>src/frontend\<close>.

  \<^bold>\<open>Parts and how they interact.\<close> A page receives the spans of a trace from the server (transformed by
  \<open>lib/actions/spans/utils.ts\<close>) and, while the trace is running, one by one in real time
  (\<open>components/traces/trace-view/utils.ts\<close>). They live in a store, a record with actions
  (\<open>components/traces/trace-view/store/base.ts\<close> for one trace,
  \<open>components/traces/session-view/store/base.ts\<close> for the traces of a session,
  \<open>components/debugger-sessions/debugger-session-view/store/index.tsx\<close>, which extends the latter with
  live runs). What is drawn is derived from the spans: the tree, the transcript with its subagent groups,
  the condensed timeline (\<open>components/traces/trace-view/store/utils.ts\<close>), the session timeline
  (\<open>components/traces/session-view/session-timeline/utils.ts\<close>) and the rows of the session panel
  (\<open>components/traces/session-view/utils.ts\<close>). The widths of the panels are computed by
  \<open>components/traces/trace-view/panel-layout.ts\<close> and by the panel actions of the session store.
  An annotation queue (\<open>components/queue\<close>) has a store of its own, whose edits are saved in the background
  by an orchestrator. The lists of traces, spans, sessions, events, signal runs, datapoints and evaluations
  are read with queries that \<open>lib/actions/common/query-builder.ts\<close> assembles from filters; the user writes the
  filters in the search editor (\<open>components/common/advanced-search\<close>). The short texts the rows show for spans and
  traces are made on the server side: a payload is recognised as a provider's messages (\<open>lib/spans\<close>) or rendered
  with a template that is cached per shape (\<open>lib/actions/spans/previews\<close>), and the text a user typed is cut out of its
  message with a cached pattern (\<open>lib/actions/sessions\<close>); both caches are \<open>lib/cache.ts\<close>.

  \<^bold>\<open>Theories.\<close>
  \<^item> \<open>Prelude\<close>: JavaScript values (truthiness, numbers with NaN and infinities), arrays written by
    index, insertion-ordered maps and sets, grouping loops; the interface \<open>invariant_of\<close> of a state machine.
  \<^item> \<open>SpanModel\<close>: \<open>TraceViewSpan\<close>, \<open>TraceViewListSpan\<close>, \<open>TraceRow\<close>, attributes, the walk from a span to
    its ancestors, the forest assumption \<open>rooted\<close> (a rank decreases towards the roots).
  \<^item> \<open>SpanTree\<close>, \<open>PathInfo\<close>, \<open>Subagents\<close>, \<open>Transcript\<close>: \<open>transformSpansToTree\<close>, \<open>computePathInfoMap\<close>,
    \<open>computeSubagentBoundaries\<close> with its groups, \<open>buildTranscriptListEntries\<close>.
  \<^item> \<open>Traversal\<close>, \<open>RowPacking\<close>, \<open>CondensedTimeline\<close>, \<open>SessionTimeline\<close>: depths and order of spans, the
    packing of blocks into rows (an interface with three providers), and both timelines.
  \<^item> \<open>SpanMetrics\<close>, \<open>Realtime\<close>: rewiring of parents, sums over subtrees, placeholders for ancestors that
    have not arrived, the handling of a span that arrives.
  \<^item> \<open>TraceStore\<close>: the store of the trace view as a state machine.
  \<^item> \<open>WidthLoops\<close>, \<open>PanelLayout\<close>, \<open>SessionPanels\<close>: the loops that make panels narrower (the
    interfaces \<open>shrinking\<close>, \<open>greedy\<close>, \<open>panel_row\<close>), the layout of the trace view and of the session view.
  \<^item> \<open>SingleFlight\<close>, \<open>SessionStore\<close>, \<open>SessionRows\<close>: operations split where they wait for the network, with
    any interleaving of actions and responses; the session store, generic over the store that extends it
    (the interface \<open>fetching_store\<close>), and the rows of the session panel.
  \<^item> \<open>SpanMerge\<close>, \<open>DebuggerStore\<close>: the merge of streamed and fetched spans, and the debugger's store as
    the second provider of \<open>fetching_store\<close>.
  \<^item> \<open>Json\<close>, \<open>QueueModel\<close>, \<open>SaveOrchestrator\<close>, \<open>QueueStore\<close>: JSON values and their paths, the items of an
    annotation queue (\<open>components/queue/utils.ts\<close> and its selectors), the debounced saves that abort
    one another (\<open>save-orchestrator.ts\<close>), and the store with its commits, navigation and hydration
    (\<open>queue-store.tsx\<close>).
  \<^item> \<open>JsText\<close>, \<open>QueryBuilder\<close>: the string functions of the language the queries use; conditions, parameters,
    pagination and time ranges of \<open>lib/actions/common/query-builder.ts\<close>. The interface \<open>own_names\<close> says that
    the parameters of a column processor are named after their filter, \<open>value_blind\<close> that the text of a
    condition does not depend on the values; the processors of each table provide them.
  \<^item> \<open>TraceQueries\<close>, \<open>EventQueries\<close>, \<open>EvalQuery\<close>: the column processors and queries of traces, spans and
    sessions, of events, signal runs, datapoints and versions, and of evaluations
    (\<open>utils.ts\<close> under \<open>lib/actions\<close>, \<open>lib/actions/evaluation/query-builder.ts\<close>).
  \<^item> \<open>Filters\<close>: the filters of the Postgres queries (\<open>lib/actions/common/filters.ts\<close>).
  \<^item> \<open>AdvancedSearch\<close>: the store of the search editor with undo and redo, its suggestions and the focus.
  \<^item> \<open>Caches\<close>: the LRU cache, the semaphore and the branch of \<open>lib/cache.ts\<close> that keeps entries in memory.
  \<^item> \<open>DiffRows\<close>: the rows of the diff between two versions of an agent.
  \<^item> \<open>Schema\<close>, \<open>Messages\<close>: the schemas of the validation library \<open>zod\<close> as data, its documented laws as the
    interface \<open>zod\<close> with a reference parser that provides them, and what parsed values look like; reading
    parsed values, converted messages, stored payloads, adapters.
  \<^item> \<open>OpenAIMessages\<close>, \<open>AnthropicMessages\<close>, \<open>GeminiMessages\<close>, \<open>LangChainMessages\<close>, \<open>GenAIMessages\<close>,
    \<open>ResponsesItems\<close>: the schemas, the conversion and the adapter of each provider (\<open>lib/spans/types\<close>,
    \<open>lib/spans/providers\<close>); \<open>ChatMessages\<close>: the conversion of messages in no provider's format.
  \<^item> \<open>Providers\<close>: the registry of adapters, whose contract \<open>adapter_contract\<close> every adapter provides, the sites
    that consult it (\<open>registry\<close>), and the conversion of a span (\<open>lib/spans/utils.ts\<close>).
  \<^item> \<open>DeepParse\<close>: \<open>deepParseJson\<close> and \<open>deepParseValue\<close>, which parse the texts they find in parsed texts; the type
    \<open>json_parser\<close> holds the parsers whose result has less text than its source, so that both return.
  \<^item> \<open>Previews\<close>, \<open>PreviewPipeline\<close>: classification, fingerprints, paths, templates and the search for a text
    (\<open>utils.ts\<close>, \<open>prompts.ts\<close>, \<open>heuristic.ts\<close> under \<open>lib/actions/spans/previews\<close>), and \<open>resolvePreviews\<close> with its
    stages (\<open>resolve.ts\<close>) over the memory cache of \<open>Caches\<close>.
  \<^item> \<open>UserInputs\<close>, \<open>TraceInputs\<close>: the outline of a user's message and the extraction of a group of traces
    (\<open>lib/actions/sessions/extract-input.ts\<close>), and its callers with the names of agents, the system messages and the
    entry points of the previews.

  Each theory has, per component, the code's data and operations under the code's names, the lemmas about
  each loop, and the properties of the component. Where two components have a function of the same name, one
  carries a prefix (\<open>setSessionSelectedSpan\<close>, \<open>fetchDebuggerSpans\<close>), and its text or its place names the source.

  \<^bold>\<open>What is shown.\<close> The tree, the transcript and the timelines show each span they should exactly once,
  in the order and at the place the layout promises, without overlap; the loops over parents return on
  forests; subagent groups partition the spans they group; metrics are sums over the leaves; placeholders
  complete every path; live spans are inserted without losing others; panels fit the container
  whenever the minimum widths allow; no trace is fetched twice at a time and every fetch ends with data or an
  error; merging keeps, among the spans of an id with the same \<open>pending\<close> field, the one that ends last, and the state of
  the view; stored state reads back. A queue item has at
  most one live save, edits withdraw an approval, one commit runs at a time. Every parameter a
  query mentions is bound, once and to the value of its own filter, and no value of a user occurs in the text of
  those queries; undo and redo refine a history of two stacks, and what the search editors of a browser store for one another stays
  valid; the memory cache answers every sequence of calls as a table whose entries can be read until their last moment, and
  the LRU cache holds the keys used last; the rows of a diff hold both texts. Validated messages are converted block by
  block, each to the part its type prescribes (\<open>becomes\<close>), and the adapters never throw. Every span and trace asked for gets
  an entry, its own; its text is what the one pattern of its group cuts out of it; the templates and patterns a request saved
  give the next one the same answers from the cache, without a model, until they expire; the outline of a message does not
  depend on what its blocks hold, short of their own closing tag; a fingerprint depends on the shape of a payload only; the
  search for a text finds the first preferred key that has one.

  \<^bold>\<open>Parameters.\<close> \<open>ms\<close> is \<open>new Date(s).getTime()\<close> on valid dates, \<open>iso\<close> or \<open>toISO\<close> is \<open>toISOString\<close>
  (assumed to print a time that parses back, where a property needs it; \<open>tally_ms\<close> and \<open>tally_iso\<close> are a
  concrete pair), \<open>num\<close> is \<open>Number\<close> on strings, \<open>parse\<close> is \<open>JSON.parse\<close>; \<open>platform\<close> bundles them.
  \<open>query_platform\<close> holds the library's compaction of values and the printing of numbers,
  \<open>search_platform\<close> the identifiers of new tags, deep equality and the reading of numbers, \<open>differ\<close> the line diff
  of the package \<open>diff\<close>, \<open>drizzle\<close> the conditions the database library builds. \<open>safeParse\<close> is the validation of \<open>zod\<close>, \<open>message_env\<close> holds the
  printing and parsing of JSON, the objects of the bucket, base64 and the random identifiers.
  \<open>preview_env\<close> holds the renderer of templates, the language model, the JSON parser and the printing of values,
  \<open>extraction_env\<close> the engine of regular expressions and the model that writes them; \<open>trace_db\<close> and \<open>span_db\<close> are the rows the
  database answers with, \<open>cache_times\<close> the times at which a request reads, refreshes and writes the cache.
  Characters outside ASCII (the ellipsis, dashes) are arguments.
  Responses of the server are arguments of the continuations.

  \<^bold>\<open>Numbers and termination.\<close> Times are integers (milliseconds); widths, costs and percentages are exact
  rationals, not IEEE doubles, so that rounding is outside the model; where the code can divide by zero, NaN and
  infinities are values of the model. Loops that follow parent ids do not end on cyclic data: they are
  \<open>partial_function (option)\<close>, and their termination on forests is part of the properties. The only fuel
  is that of \<open>transformSpansToTree\<close>, the depth of its recursion: one more than the number of spans, which
  suffices exactly when the recursion of the code returns, since a path down the children that is longer
  repeats a span. All other loops are structural, \<open>fold\<close>s, or end by a measure: the size of a value, the length
  of the text that is left, and for the parsing of texts in texts the number of characters in its strings.

  \<^bold>\<open>Not modelled.\<close> React components and hooks, styling and the virtualised lists (rendering); API routes,
  database access and SQL text (\<open>lib/db\<close>, \<open>lib/clickhouse\<close>, most of \<open>lib/actions\<close>), which forward to services;
  authentication, billing, mail, Slack, landing pages, documentation, generated code and data; the services in
  Rust (\<open>app-server\<close>, \<open>pii-redactor\<close>). Of the stores above the React providers are left out, of \<open>persist\<close> only
  what is stored and how it is merged is modelled. The branch of the cache that forwards to Redis, the attribute
  expression of the trace view's query and the filling of empty time buckets are left out too.
\<close>

end
